(* ===== verification/Prelude.thy ===== *)
theory Prelude
  imports Main "HOL-Library.Word" "HOL-Library.State_Monad"
begin

unbundle bit_operations_syntax

text \<open>
  The vocabulary shared by every component of the development: machine integers, byte
  buffers with the C library's block operations (\<open>memcpy\<close>, \<open>memcmp\<close>), little-endian
  fields, decimal numerals as the C library prints and scans them, C string searches, and
  a small Hoare logic for programs written in the state monad of HOL-Library.  A
  component that talks to something outside the repository (libparted, hivex, the kernel,
  a network controller) takes that thing as an argument of its definitions; the state such
  a program runs on is a record of its own.
\<close>

named_theorems buf_simps \<open>equations for byte buffers: lengths and reads after block writes\<close>
named_theorems hoare \<open>proof rules for state-monad programs\<close>

type_synonym u8 = "8 word"
type_synonym u16 = "16 word"
type_synonym u32 = "32 word"
type_synonym u64 = "64 word"
type_synonym bytes = "u8 list"

section \<open>Byte buffers\<close>

definition slice :: "nat \<Rightarrow> nat \<Rightarrow> 'a list \<Rightarrow> 'a list" where
  "slice off n xs = take n (drop off xs)"

text \<open>\<open>memcpy_at dst off src n\<close> is \<open>memcpy(dst + off, src, n)\<close>.\<close>

definition memcpy_at :: "'a list \<Rightarrow> nat \<Rightarrow> 'a list \<Rightarrow> nat \<Rightarrow> 'a list" where
  "memcpy_at dst off src n = take off dst @ take n src @ drop (off + n) dst"

lemma length_slice [simp, buf_simps]: "length (slice off n xs) = min n (length xs - off)"
  by (simp add: slice_def)

lemma nth_slice [buf_simps]: "off + i < length xs \<Longrightarrow> i < n \<Longrightarrow> slice off n xs ! i = xs ! (off + i)"
  by (simp add: slice_def)

lemma slice_eq_iff:
  assumes "off + n \<le> length xs" "off + n \<le> length ys"
  shows "slice off n xs = slice off n ys \<longleftrightarrow> (\<forall>i. off \<le> i \<and> i < off + n \<longrightarrow> xs ! i = ys ! i)"
proof
  assume eq: "slice off n xs = slice off n ys"
  show "\<forall>i. off \<le> i \<and> i < off + n \<longrightarrow> xs ! i = ys ! i"
  proof (intro allI impI)
    fix i assume i: "off \<le> i \<and> i < off + n"
    then obtain j where j: "i = off + j" "j < n" by (auto simp: le_iff_add)
    have "slice off n xs ! j = slice off n ys ! j" using eq by simp
    with j assms show "xs ! i = ys ! i" by (simp add: nth_slice)
  qed
next
  assume h: "\<forall>i. off \<le> i \<and> i < off + n \<longrightarrow> xs ! i = ys ! i"
  show "slice off n xs = slice off n ys"
    using assms h by (intro nth_equalityI) (auto simp: nth_slice)
qed

lemma length_memcpy_at [simp, buf_simps]:
  "off + n \<le> length dst \<Longrightarrow> n \<le> length src \<Longrightarrow> length (memcpy_at dst off src n) = length dst"
  by (simp add: memcpy_at_def)

lemma nth_memcpy_at [buf_simps]:
  assumes "off + n \<le> length dst" "n \<le> length src" "i < length dst"
  shows "memcpy_at dst off src n ! i =
    (if off \<le> i \<and> i < off + n then src ! (i - off) else dst ! i)"
  using assms by (auto simp: memcpy_at_def nth_append min_def)

lemma memcpy_at_slice_same: "off + n \<le> length xs \<Longrightarrow> memcpy_at xs off (slice off n xs) n = xs"
  by (intro nth_equalityI) (auto simp: nth_memcpy_at nth_slice)

section \<open>Little-endian fields\<close>

definition le16 :: "u8 \<Rightarrow> u8 \<Rightarrow> u16" where
  "le16 b0 b1 = ucast b0 OR push_bit 8 (ucast b1)"

definition le32 :: "u8 \<Rightarrow> u8 \<Rightarrow> u8 \<Rightarrow> u8 \<Rightarrow> u32" where
  "le32 b0 b1 b2 b3 =
     ucast b0 OR push_bit 8 (ucast b1) OR push_bit 16 (ucast b2) OR push_bit 24 (ucast b3)"

definition le32_bytes :: "u32 \<Rightarrow> bytes" where
  "le32_bytes v = [ucast v, ucast (drop_bit 8 v), ucast (drop_bit 16 v), ucast (drop_bit 24 v)]"

lemma length_le32_bytes [simp]: "length (le32_bytes v) = 4"
  by (simp add: le32_bytes_def)

lemma le32_of_bytes:
  "le32 (ucast v) (ucast (drop_bit 8 v)) (ucast (drop_bit 16 v)) (ucast (drop_bit 24 v)) = v"
proof (rule bit_word_eqI)
  fix n assume "n < LENGTH(32)"
  then have "n < 32" by simp
  then consider "n < 8" | "8 \<le> n" "n < 16" | "16 \<le> n" "n < 24" | "24 \<le> n" "n < 32" by linarith
  then show "bit (le32 (ucast v) (ucast (drop_bit 8 v)) (ucast (drop_bit 16 v)) (ucast (drop_bit 24 v))) n
     = bit v n"
    by cases (auto simp: le32_def bit_simps)
qed

lemma le32_nth_bytes:
  "le32 (le32_bytes v ! 0) (le32_bytes v ! 1) (le32_bytes v ! 2) (le32_bytes v ! 3) = v"
  by (simp add: le32_bytes_def le32_of_bytes numeral_2_eq_2 numeral_3_eq_3)

lemma le32_bytes_le32: "le32_bytes (le32 a b c d) = [a, b, c, d]"
proof -
  have "ucast (drop_bit k (le32 a b c d)) = x" if "(k, x) \<in> {(0, a), (8, b), (16, c), (24, d)}" for k and x :: u8
  proof (rule bit_word_eqI)
    fix n assume "n < LENGTH(8)"
    then have "n < 8" by simp
    moreover have "\<not> bit (z :: u8) m" if "8 \<le> m" for z m
      using that bit_imp_le_length [of z m] by auto
    ultimately show "bit (ucast (drop_bit k (le32 a b c d)) :: u8) n = bit x n"
      using that by (auto simp: le32_def bit_simps)
  qed
  from this [of 0 a] this [of 8 b] this [of 16 c] this [of 24 d]
  show ?thesis by (simp add: le32_bytes_def)
qed

text \<open>
  A field of \<open>width\<close> bytes at any offset of a buffer: the laws its accessors promise, and what
  follows from them for code that writes several fields.
\<close>

locale byte_field =
  fixes getf :: "bytes \<Rightarrow> nat \<Rightarrow> 'v"
    and putf :: "bytes \<Rightarrow> nat \<Rightarrow> 'v \<Rightarrow> bytes"
    and width :: nat
  assumes put_length: "length (putf b p v) = length b"
    and get_put: "p + width \<le> length b \<Longrightarrow> getf (putf b p v) p = v"
    and put_get: "p + width \<le> length b \<Longrightarrow> putf b p (getf b p) = b"
    and put_frame: "p + width \<le> length b \<Longrightarrow> i < length b \<Longrightarrow> i < p \<or> p + width \<le> i \<Longrightarrow> putf b p v ! i = b ! i"
    and get_local: "p + width \<le> length b \<Longrightarrow> p + width \<le> length c \<Longrightarrow>
      (\<And>i. p \<le> i \<Longrightarrow> i < p + width \<Longrightarrow> b ! i = c ! i) \<Longrightarrow> getf b p = getf c p"
    and put_local: "p + width \<le> length b \<Longrightarrow> p + width \<le> length c \<Longrightarrow>
      p \<le> i \<Longrightarrow> i < p + width \<Longrightarrow> putf b p v ! i = putf c p v ! i"
begin

lemma get_put_other:
  assumes "p + width \<le> length b" "q + width \<le> length b" "p + width \<le> q \<or> q + width \<le> p"
  shows "getf (putf b p v) q = getf b q"
  using assms by (intro get_local) (auto simp: put_length put_frame)

lemma put_put:
  assumes "p + width \<le> length b"
  shows "putf (putf b p v) p w = putf b p w"
proof (rule nth_equalityI)
  fix i assume "i < length (putf (putf b p v) p w)"
  then have i: "i < length b" by (simp add: put_length)
  show "putf (putf b p v) p w ! i = putf b p w ! i"
  proof (cases "p \<le> i \<and> i < p + width")
    case True
    then show ?thesis using assms put_local [of p "putf b p v" b i w] by (simp add: put_length)
  next
    case False
    then show ?thesis using assms i by (auto simp: put_frame put_length)
  qed
qed (simp add: put_length)

end

section \<open>Decimal numerals\<close>

definition is_digit :: "char \<Rightarrow> bool" where
  "is_digit c \<longleftrightarrow> 48 \<le> (of_char c :: nat) \<and> (of_char c :: nat) \<le> 57"

definition is_space :: "char \<Rightarrow> bool" where
  "is_space c \<longleftrightarrow> c = CHR '' '' \<or> (9 \<le> (of_char c :: nat) \<and> (of_char c :: nat) \<le> 13)"

definition digit_char :: "nat \<Rightarrow> char" where
  "digit_char d = char_of (48 + d)"

definition digit_val :: "char \<Rightarrow> nat" where
  "digit_val c = of_char c - 48"

text \<open>\<open>dec n\<close> is what the C library prints for \<open>%u\<close> or \<open>%llu\<close>.\<close>

fun dec :: "nat \<Rightarrow> string" where
  "dec n = (if n < 10 then [digit_char n] else dec (n div 10) @ [digit_char (n mod 10)])"

declare dec.simps [simp del]

definition dec_val :: "string \<Rightarrow> nat" where
  "dec_val ds = foldl (\<lambda>a c. 10 * a + digit_val c) 0 ds"

lemma of_char_digit [simp]: "d < 10 \<Longrightarrow> (of_char (digit_char d) :: nat) = 48 + d"
  by (simp add: digit_char_def of_char_of)

lemma is_digit_digit_char [simp]: "d < 10 \<Longrightarrow> is_digit (digit_char d)"
  by (simp add: is_digit_def)

lemma digit_val_digit_char [simp]: "d < 10 \<Longrightarrow> digit_val (digit_char d) = d"
  by (simp add: digit_val_def)

lemma dec_nonempty [simp]: "dec n \<noteq> []"
  by (subst dec.simps) simp

lemma dec_digits: "list_all is_digit (dec n)"
proof (induction n rule: dec.induct)
  case (1 n)
  then show ?case by (subst dec.simps) simp
qed

lemma dec_val_append [simp]: "dec_val (ds @ [c]) = 10 * dec_val ds + digit_val c"
  by (simp add: dec_val_def)

lemma dec_val_Nil [simp]: "dec_val [] = 0"
  by (simp add: dec_val_def)

lemma dec_val_dec [simp]: "dec_val (dec n) = n"
proof (induction n rule: dec.induct)
  case (1 n)
  show ?case
  proof (cases "n < 10")
    case True
    have "dec_val ([] @ [digit_char n]) = n" using True by (simp only: dec_val_append) simp
    with True show ?thesis by (subst dec.simps) simp
  next
    case False
    with 1 show ?thesis by (subst dec.simps) simp
  qed
qed

lemma dec_hd: "0 < n \<Longrightarrow> hd (dec n) \<noteq> CHR ''0''"
proof (induction n rule: dec.induct)
  case (1 n)
  show ?case
  proof (cases "n < 10")
    case True
    have "(of_char (digit_char n) :: nat) \<noteq> of_char (CHR ''0'')"
      using True 1 by simp
    then have "digit_char n \<noteq> CHR ''0''" by auto
    with True show ?thesis by (subst dec.simps) simp
  next
    case False
    then show ?thesis using "1.IH" by (subst dec.simps) (simp add: hd_append)
  qed
qed

lemma length_dec: "n < 10 ^ k \<Longrightarrow> 0 < k \<Longrightarrow> length (dec n) \<le> k"
proof (induction k arbitrary: n)
  case 0
  then show ?case by simp
next
  case (Suc k)
  show ?case
  proof (cases "n < 10")
    case True
    then show ?thesis by (subst dec.simps) simp
  next
    case False
    have "n div 10 < 10 ^ k" using Suc.prems by (simp add: less_mult_imp_div_less mult.commute)
    moreover have "0 < k" using False Suc.prems by (cases k) auto
    ultimately have "length (dec (n div 10)) \<le> k" by (rule Suc.IH)
    with False show ?thesis by (subst dec.simps) simp
  qed
qed

text \<open>
  \<open>scan_unsigned w s\<close> is the conversion shared by \<open>strtoul\<close>, \<open>strtoull\<close> and the unsigned
  directives of \<open>scanf\<close> on a \<open>w\<close>-bit target type: white space, an optional sign, decimal
  digits.  The result carries the value (clamped on overflow, negated modulo \<open>2 ^ w\<close> after a
  minus sign), whether it overflowed, and the unread rest.
\<close>

definition scan_sign :: "string \<Rightarrow> bool \<times> string" where
  "scan_sign s = (case s of [] \<Rightarrow> (False, [])
     | c # r \<Rightarrow> if c = CHR ''-'' then (True, r) else if c = CHR ''+'' then (False, r) else (False, s))"

definition scan_unsigned :: "nat \<Rightarrow> string \<Rightarrow> (nat \<times> bool \<times> string) option" where
  "scan_unsigned w s =
     (let (neg, s') = scan_sign (dropWhile is_space s); ds = takeWhile is_digit s'; v = dec_val ds
      in if ds = [] then None
         else Some (if 2 ^ w \<le> v then 2 ^ w - 1 else if neg then (2 ^ w - v) mod 2 ^ w else v,
                    2 ^ w \<le> v, dropWhile is_digit s'))"

definition strtoull :: "string \<Rightarrow> nat \<times> bool \<times> string" where
  "strtoull s = (case scan_unsigned 64 s of None \<Rightarrow> (0, False, s) | Some r \<Rightarrow> r)"

lemma digit_not_space: "is_digit c \<Longrightarrow> \<not> is_space c"
  by (auto simp: is_digit_def is_space_def)

lemma digit_not_sign: "is_digit c \<Longrightarrow> c \<noteq> CHR ''-'' \<and> c \<noteq> CHR ''+''"
  by (auto simp: is_digit_def)

lemma scan_sign_digit: "is_digit c \<Longrightarrow> scan_sign (c # s) = (False, c # s)"
  using digit_not_sign by (simp add: scan_sign_def)

lemma scan_unsigned_digits:
  assumes "list_all is_digit ds" "ds \<noteq> []" "rest = [] \<or> \<not> is_digit (hd rest)"
  shows "scan_unsigned w (ds @ rest) =
    Some (if 2 ^ w \<le> dec_val ds then 2 ^ w - 1 else dec_val ds, 2 ^ w \<le> dec_val ds, rest)"
proof -
  obtain c cs where ds: "ds = c # cs" using assms(2) by (cases ds) auto
  have c: "is_digit c" using assms(1) ds by simp
  have tw: "takeWhile is_digit (ds @ rest) = ds"
    using assms(1,3) by (cases rest) (auto simp: list_all_iff takeWhile_append2)
  have dw: "dropWhile is_digit (ds @ rest) = rest"
    using assms(1,3) by (cases rest) (auto simp: list_all_iff dropWhile_append2)
  have ss: "scan_sign (dropWhile is_space (ds @ rest)) = (False, ds @ rest)"
    using digit_not_space [OF c] scan_sign_digit [OF c] ds by simp
  show ?thesis using assms(2) by (simp add: scan_unsigned_def ss tw dw Let_def)
qed

lemma strtoull_digits:
  assumes "list_all is_digit ds" "ds \<noteq> []" "dec_val ds < 2 ^ 64"
  shows "strtoull ds = (dec_val ds, False, [])"
  using scan_unsigned_digits [OF assms(1,2), of "[]" 64] assms(3) by (simp add: strtoull_def)

lemma strtoull_dec: "n < 2 ^ 64 \<Longrightarrow> strtoull (dec n) = (n, False, [])"
  using strtoull_digits [of "dec n"] dec_digits by simp

section \<open>C strings\<close>

text \<open>Prefix test: \<open>strncmp(p, s, strlen(p)) == 0\<close> for NUL-free strings.\<close>

fun prefixb :: "'a list \<Rightarrow> 'a list \<Rightarrow> bool" where
  "prefixb [] s = True"
| "prefixb (x # xs) [] = False"
| "prefixb (x # xs) (y # ys) \<longleftrightarrow> x = y \<and> prefixb xs ys"

lemma prefixb_iff: "prefixb p s \<longleftrightarrow> (\<exists>t. s = p @ t)"
  by (induction p s rule: prefixb.induct) auto

lemma prefixb_append [simp]: "prefixb p (p @ s)"
  by (auto simp: prefixb_iff)

text \<open>\<open>split_at c s\<close> cuts at every occurrence of \<open>c\<close>, keeping empty pieces.\<close>

fun split_at :: "'a \<Rightarrow> 'a list \<Rightarrow> 'a list list" where
  "split_at c [] = [[]]"
| "split_at c (x # xs) =
     (if x = c then [] # split_at c xs
      else case split_at c xs of [] \<Rightarrow> [[x]] | y # ys \<Rightarrow> (x # y) # ys)"

lemma split_at_nonempty [simp]: "split_at c s \<noteq> []"
  by (induction s) (auto split: list.splits)

section \<open>A Hoare logic for the state monad\<close>

definition valid :: "('s \<Rightarrow> bool) \<Rightarrow> ('s, 'a) state \<Rightarrow> ('a \<Rightarrow> 's \<Rightarrow> bool) \<Rightarrow> bool" where
  "valid P m Q \<longleftrightarrow> (\<forall>s. P s \<longrightarrow> Q (fst (run_state m s)) (snd (run_state m s)))"

lemma validI: "(\<And>s. P s \<Longrightarrow> Q (fst (run_state m s)) (snd (run_state m s))) \<Longrightarrow> valid P m Q"
  by (simp add: valid_def)

lemma valid_runI: "(\<And>s v s'. P s \<Longrightarrow> run_state m s = (v, s') \<Longrightarrow> Q v s') \<Longrightarrow> valid P m Q"
  unfolding valid_def by (metis prod.collapse)

lemma validD: "valid P m Q \<Longrightarrow> P s \<Longrightarrow> run_state m s = (a, s') \<Longrightarrow> Q a s'"
  by (metis fst_conv snd_conv valid_def)

lemma valid_weaken: "valid P m Q \<Longrightarrow> (\<And>s. P' s \<Longrightarrow> P s) \<Longrightarrow> (\<And>a s. Q a s \<Longrightarrow> Q' a s) \<Longrightarrow> valid P' m Q'"
  by (simp add: valid_def)

lemma valid_pre: "valid P m Q \<Longrightarrow> (\<And>s. P' s \<Longrightarrow> P s) \<Longrightarrow> valid P' m Q"
  by (simp add: valid_def)

lemma valid_return [hoare]: "valid (Q x) (State_Monad.return x) Q"
  by (simp add: valid_def)

lemma valid_bind [hoare]:
  "(\<And>a. valid (R a) (f a) Q) \<Longrightarrow> valid P m R \<Longrightarrow> valid P (State_Monad.bind m f) Q"
  by (force simp: valid_def split: prod.splits)

lemma valid_if [hoare]:
  "valid P1 m1 Q \<Longrightarrow> valid P2 m2 Q \<Longrightarrow>
   valid (\<lambda>s. (b \<longrightarrow> P1 s) \<and> (\<not> b \<longrightarrow> P2 s)) (if b then m1 else m2) Q"
  by (simp add: valid_def)

definition modify :: "('s \<Rightarrow> 's) \<Rightarrow> ('s, unit) state" where
  "modify f = State (\<lambda>s. ((), f s))"

definition gets :: "('s \<Rightarrow> 'a) \<Rightarrow> ('s, 'a) state" where
  "gets f = State (\<lambda>s. (f s, s))"

lemma run_modify [simp]: "run_state (modify f) s = ((), f s)"
  by (simp add: modify_def)

lemma run_gets [simp]: "run_state (gets f) s = (f s, s)"
  by (simp add: gets_def)

lemma valid_modify [hoare]: "valid (\<lambda>s. Q () (f s)) (modify f) Q"
  by (simp add: valid_def)

lemma valid_gets [hoare]: "valid (\<lambda>s. Q (f s) s) (gets f) Q"
  by (simp add: valid_def)

lemma valid_case_option [hoare]:
  "(x = None \<Longrightarrow> valid P1 m1 Q) \<Longrightarrow> (\<And>y. x = Some y \<Longrightarrow> valid (P2 y) (m2 y) Q) \<Longrightarrow>
   valid (\<lambda>s. case x of None \<Rightarrow> P1 s | Some y \<Rightarrow> P2 y s) (case x of None \<Rightarrow> m1 | Some y \<Rightarrow> m2 y) Q"
  by (cases x) auto

lemma valid_case_sum [hoare]:
  "(\<And>y. x = Inl y \<Longrightarrow> valid (P1 y) (m1 y) Q) \<Longrightarrow> (\<And>y. x = Inr y \<Longrightarrow> valid (P2 y) (m2 y) Q) \<Longrightarrow>
   valid (\<lambda>s. case x of Inl y \<Rightarrow> P1 y s | Inr y \<Rightarrow> P2 y s) (case x of Inl y \<Rightarrow> m1 y | Inr y \<Rightarrow> m2 y) Q"
  by (cases x) auto

lemma valid_case_prod [hoare]:
  "(\<And>a b. x = (a, b) \<Longrightarrow> valid (P a b) (m a b) Q) \<Longrightarrow>
   valid (\<lambda>s. case x of (a, b) \<Rightarrow> P a b s) (case x of (a, b) \<Rightarrow> m a b) Q"
  by (cases x) auto

text \<open>
  \<open>continue_with m k\<close> runs \<open>m\<close>; \<open>Inl e\<close> is a jump to the exit path with result \<open>e\<close>, \<open>Inr x\<close>
  goes on with \<open>k x\<close>.
\<close>

definition continue_with :: "('s, 'e + 'a) state \<Rightarrow> ('a \<Rightarrow> ('s, 'e) state) \<Rightarrow> ('s, 'e) state" where
  "continue_with m k = State_Monad.bind m (\<lambda>r. case r of Inl e \<Rightarrow> State_Monad.return e | Inr x \<Rightarrow> k x)"

lemma valid_continue [hoare]:
  assumes "\<And>x. valid (R x) (k x) Q" "valid P m (\<lambda>r s. case r of Inl e \<Rightarrow> Q e s | Inr x \<Rightarrow> R x s)"
  shows "valid P (continue_with m k) Q"
  unfolding continue_with_def
  by (rule valid_bind [OF _ assms(2)]) (use assms(1) in \<open>auto simp: valid_def split: sum.splits\<close>)

lemma valid_conj: "valid P m Q \<Longrightarrow> valid P m R \<Longrightarrow> valid P m (\<lambda>a s. Q a s \<and> R a s)"
  by (simp add: valid_def)

section \<open>Bits in the order they are sent\<close>

definition bits_val :: "bool list \<Rightarrow> nat" where
  "bits_val bs = foldl (\<lambda>n b. 2 * n + of_bool b) 0 bs"

text \<open>The low \<open>n\<close> bits of a word, the highest first.\<close>

definition msb_first :: "'a::len word \<Rightarrow> nat \<Rightarrow> bool list" where
  "msb_first w n = map (bit w) (rev [0..<n])"

lemma msb_first_Suc: "msb_first w (Suc n) = bit w n # msb_first w n"
  by (simp add: msb_first_def)

lemma length_msb [simp]: "length (msb_first w n) = n"
  by (simp add: msb_first_def)

lemma msb_nonempty: "0 < n \<Longrightarrow> msb_first w n \<noteq> [] \<and> hd (msb_first w n) = bit w (n - 1)"
  by (cases n) (simp_all add: msb_first_Suc)

lemma foldl_bits: "foldl (\<lambda>n b. 2 * n + of_bool b) k bs = k * 2 ^ length bs + bits_val bs"
proof (induction bs arbitrary: k)
  case (Cons b bs)
  show ?case unfolding bits_val_def foldl.simps Cons [of "2 * k + of_bool b"] Cons [of "2 * 0 + of_bool b"] by (simp add: algebra_simps)
qed (simp add: bits_val_def)

lemma bits_val_Cons: "bits_val (b # bs) = of_bool b * 2 ^ length bs + bits_val bs"
  using foldl_bits [of "of_bool b" bs] by (simp add: bits_val_def)

lemma bits_val_msb: "n \<le> LENGTH('a) \<Longrightarrow> bits_val (msb_first (w :: 'a::len word) n) = unat w mod 2 ^ n"
proof (induction n)
  case 0
  show ?case by (simp add: msb_first_def bits_val_def)
next
  case (Suc n)
  then have "bit w n = bit (unat w) n" by (simp add: bit_unsigned_iff)
  then show ?case
    using Suc take_bit_Suc_from_most [of n "unat w"] by (simp add: msb_first_Suc bits_val_Cons take_bit_eq_mod mult.commute)
qed

lemma unat_wide: "unat (ucast (x :: 16 word) :: 32 word) = unat x"
proof -
  have "unat x < 2 ^ 16" using unsigned_less [of x] by simp
  then show ?thesis by (simp add: unsigned_ucast_eq take_bit_nat_eq_self_iff)
qed

end
