(* ===== verification/FatGrow.thy ===== *)
theory FatGrow
  imports Prelude
begin

unbundle bit_operations_syntax

text \<open>
  The FAT grow tool, \<open>Buildroot/package/pxeos/src/pxeosfatgrow.c\<close>: it grows a FAT16 or
  FAT32 file system to the length of the partition it lives in, through libparted, and
  then puts the identity bytes of the old boot sector back.  libparted and the kernel's
  \<open>/sys\<close> and \<open>/proc\<close> files are the record \<open>parted\<close>, an argument of the definitions that
  call them; its operations work on an unspecified world \<open>'d\<close>.  A libparted call may raise
  any number of exceptions to the program's handler before it returns, and may depend on
  the answers: it is a tree of type \<open>ped_call\<close>.  The trace of the state lists the calls
  that were made and the exceptions that the handler refused, in order.
\<close>

section \<open>libparted and the kernel, as seen by the program\<close>

datatype ped_exception_type = PED_EXCEPTION_INFORMATION | PED_EXCEPTION_WARNING
  | PED_EXCEPTION_ERROR | PED_EXCEPTION_FATAL | PED_EXCEPTION_BUG | PED_EXCEPTION_NO_FEATURE

datatype ped_option = PED_EXCEPTION_UNHANDLED | PED_EXCEPTION_FIX | PED_EXCEPTION_YES | PED_EXCEPTION_NO
  | PED_EXCEPTION_OK | PED_EXCEPTION_RETRY | PED_EXCEPTION_IGNORE | PED_EXCEPTION_CANCEL

definition PED_EXCEPTION_YES_NO_CANCEL :: "ped_option set" where
  "PED_EXCEPTION_YES_NO_CANCEL = {PED_EXCEPTION_YES, PED_EXCEPTION_NO, PED_EXCEPTION_CANCEL}"

record ped_exception =
  exn_type :: ped_exception_type
  exn_options :: "ped_option set"

datatype 'a ped_call = Ret 'a | Raise ped_exception "ped_option \<Rightarrow> 'a ped_call"

datatype file_kind = S_IFBLK | S_IFREG | S_IFOTHER

record stat_buf =
  st_mode :: file_kind
  rdev_major :: u32
  rdev_minor :: u32

record ped_device =
  sector_size :: int
  dev_length :: int

text \<open>\<open>fs_type\<close> is \<open>None\<close> for a null \<open>type\<close>, \<open>Some None\<close> for a type with a null name.\<close>

record ped_fs =
  fs_type :: "string option option"
  fs_length :: int

record 'd parted =
  os_stat :: "'d \<Rightarrow> string \<Rightarrow> stat_buf option"
  os_fopen :: "'d \<Rightarrow> string \<Rightarrow> string option"
  os_access :: "'d \<Rightarrow> string \<Rightarrow> bool"
  ped_device_get :: "string \<Rightarrow> 'd \<Rightarrow> (ped_device option \<times> 'd) ped_call"
  ped_device_open :: "'d \<Rightarrow> (bool \<times> 'd) ped_call"
  ped_open_count :: "'d \<Rightarrow> int"
  ped_device_close :: "'d \<Rightarrow> (unit \<times> 'd) ped_call"
  ped_device_destroy :: "'d \<Rightarrow> (unit \<times> 'd) ped_call"
  ped_disk_new :: "'d \<Rightarrow> (string option option \<times> 'd) ped_call"
  ped_disk_destroy :: "'d \<Rightarrow> (unit \<times> 'd) ped_call"
  ped_geometry_new :: "int \<Rightarrow> int \<Rightarrow> 'd \<Rightarrow> (int option \<times> 'd) ped_call"
  ped_geometry_destroy :: "'d \<Rightarrow> (unit \<times> 'd) ped_call"
  ped_geometry_read :: "int \<Rightarrow> 'd \<Rightarrow> (bytes option \<times> 'd) ped_call"
  ped_geometry_write :: "bytes \<Rightarrow> int \<Rightarrow> 'd \<Rightarrow> (bool \<times> 'd) ped_call"
  ped_geometry_sync :: "'d \<Rightarrow> (bool \<times> 'd) ped_call"
  ped_file_system_open :: "'d \<Rightarrow> (ped_fs option \<times> 'd) ped_call"
  ped_file_system_resize :: "'d \<Rightarrow> (bool \<times> 'd) ped_call"
  ped_file_system_close :: "'d \<Rightarrow> (unit \<times> 'd) ped_call"

text \<open>Every call is recorded with its outcome, after the exceptions refused during it.\<close>

datatype fg_event = DeviceGet "ped_device option" | DeviceOpen bool | DeviceClose unit | DeviceDestroy unit
  | DiskNew "string option option" | DiskDestroy unit
  | GeometryNew int int "int option" | GeometryDestroy unit
  | GeometryRead int "bytes option" | GeometryWrite bytes int bool | GeometrySync bool
  | FsOpen "ped_fs option" | FsResize bool | FsClose unit
  | Refused ped_exception

text \<open>
  The state of a run: libparted's world, the three static variables of the program, its
  library handles (the locals that the exit path releases), and the trace of calls.
\<close>

record 'd fg_state =
  fg_world :: 'd
  exception_seen :: bool
  allow_same_type_choice :: bool
  same_type_choice :: ped_option
  l_device :: "ped_device option"
  l_target :: "int option"
  l_fs :: "ped_fs option"
  l_verified :: "ped_fs option"
  fg_trace :: "fg_event list"

datatype exit = Exit int | Undefined

section \<open>The exception handler\<close>

definition cancel_exception :: "ped_exception \<Rightarrow> 'd fg_state \<Rightarrow> ped_option \<times> 'd fg_state" where
  "cancel_exception e s =
     (if allow_same_type_choice s \<and> exn_type e = PED_EXCEPTION_INFORMATION
         \<and> exn_options e = PED_EXCEPTION_YES_NO_CANCEL
      then (same_type_choice s, s)
      else (PED_EXCEPTION_CANCEL, s\<lparr>exception_seen := True, fg_trace := fg_trace s @ [Refused e]\<rparr>))"

text \<open>A call runs to its end, each exception answered by the handler on the current state.\<close>

primrec ped_run :: "('a \<times> 'd) ped_call \<Rightarrow> 'd fg_state \<Rightarrow> 'a \<times> 'd fg_state" where
  "ped_run (Ret r) s = (fst r, s\<lparr>fg_world := snd r\<rparr>)"
| "ped_run (Raise e k) s =
     ped_run (k (fst (cancel_exception e s))) (snd (cancel_exception e s))"

definition call :: "('a \<Rightarrow> fg_event) \<Rightarrow> ('d \<Rightarrow> ('a \<times> 'd) ped_call) \<Rightarrow> ('d fg_state, 'a) state" where
  "call ev f = State (\<lambda>s. case ped_run (f (fg_world s)) s of
     (a, s') \<Rightarrow> (a, s'\<lparr>fg_trace := fg_trace s' @ [ev a]\<rparr>))"

section \<open>Byte fields\<close>

definition FAT_BOOT_SECTOR_SIZE :: nat where "FAT_BOOT_SECTOR_SIZE = 512"
definition FAT_BPB_BYTES_PER_SECTOR :: nat where "FAT_BPB_BYTES_PER_SECTOR = 11"
definition FAT_BPB_HIDDEN_SECTORS :: nat where "FAT_BPB_HIDDEN_SECTORS = 28"
definition FAT_BPB_TOTAL_SECTORS_32 :: nat where "FAT_BPB_TOTAL_SECTORS_32 = 32"
definition FAT32_BPB_FAT_SIZE :: nat where "FAT32_BPB_FAT_SIZE = 36"
definition FAT32_BPB_BACKUP_BOOT :: nat where "FAT32_BPB_BACKUP_BOOT = 50"

lemmas fat_offsets = FAT_BOOT_SECTOR_SIZE_def FAT_BPB_BYTES_PER_SECTOR_def
  FAT_BPB_HIDDEN_SECTORS_def FAT_BPB_TOTAL_SECTORS_32_def FAT32_BPB_FAT_SIZE_def
  FAT32_BPB_BACKUP_BOOT_def

text \<open>A pointer into a buffer is the buffer and an offset.\<close>

definition get_le16 :: "bytes \<Rightarrow> nat \<Rightarrow> u16" where
  "get_le16 b p = ucast (b ! p) OR push_bit 8 (ucast (b ! (p + 1)))"

definition get_le32 :: "bytes \<Rightarrow> nat \<Rightarrow> u32" where
  "get_le32 b p = ucast (b ! p) OR push_bit 8 (ucast (b ! (p + 1)))
     OR push_bit 16 (ucast (b ! (p + 2))) OR push_bit 24 (ucast (b ! (p + 3)))"

definition put_le32 :: "bytes \<Rightarrow> nat \<Rightarrow> u32 \<Rightarrow> bytes" where
  "put_le32 b p v = b[p := ucast v, p + 1 := ucast (drop_bit 8 v),
     p + 2 := ucast (drop_bit 16 v), p + 3 := ucast (drop_bit 24 v)]"

section \<open>Checks against the kernel\<close>

definition block_path :: "stat_buf \<Rightarrow> string \<Rightarrow> string" where
  "block_path st leaf =
     ''/sys/dev/block/'' @ dec (unat (rdev_major st)) @ '':'' @ dec (unat (rdev_minor st)) @ leaf"

definition read_partition_start :: "'d parted \<Rightarrow> 'd \<Rightarrow> stat_buf \<Rightarrow> u32 option" where
  "read_partition_start p d st =
     (let path = block_path st ''/start'' in
      if 96 \<le> length path then None
      else case os_fopen p d path of
        None \<Rightarrow> None
      | Some text \<Rightarrow>
          (case scan_unsigned 64 text of
             None \<Rightarrow> None
           | Some (v, _, _) \<Rightarrow> if v > 2 ^ 32 - 1 then None else Some (of_nat v)))"

text \<open>\<open>fgets\<close> with a buffer of \<open>n + 1\<close> bytes: up to a newline, at most \<open>n\<close> characters.\<close>

definition fgets_len :: "nat \<Rightarrow> string \<Rightarrow> nat" where
  "fgets_len n s = min n (min (length s) (Suc (length (takeWhile (\<lambda>c. c \<noteq> CHR 0x0A) s))))"

function fgets_all :: "nat \<Rightarrow> string \<Rightarrow> string list" where
  "fgets_all n s =
     (if s = [] \<or> n = 0 then []
      else take (fgets_len n s) s # fgets_all n (drop (fgets_len n s) s))"
  by pat_completeness auto
termination
  by (relation "measure (\<lambda>(n, s). length s)") (auto simp: fgets_len_def)

declare fgets_all.simps [simp del]

text \<open>\<open>sscanf(line, "%*u %*u %u:%u", &major, &minor) == 2\<close>\<close>

definition scan_mountinfo :: "string \<Rightarrow> (u32 \<times> u32) option" where
  "scan_mountinfo line =
     (case scan_unsigned 64 (takeWhile (\<lambda>c. c \<noteq> CHR 0x00) line) of
        None \<Rightarrow> None
      | Some (_, _, r1) \<Rightarrow>
     (case scan_unsigned 64 r1 of
        None \<Rightarrow> None
      | Some (_, _, r2) \<Rightarrow>
     (case scan_unsigned 64 r2 of
        None \<Rightarrow> None
      | Some (ma, _, r3) \<Rightarrow>
     (case r3 of
        [] \<Rightarrow> None
      | c # r4 \<Rightarrow> if c \<noteq> CHR '':'' then None else
     (case scan_unsigned 64 r4 of
        None \<Rightarrow> None
      | Some (mi, _, _) \<Rightarrow> Some (of_nat ma, of_nat mi))))))"

definition is_mounted :: "'d parted \<Rightarrow> 'd \<Rightarrow> stat_buf \<Rightarrow> bool" where
  "is_mounted p d st =
     (case os_fopen p d ''/proc/self/mountinfo'' of
        None \<Rightarrow> True
      | Some text \<Rightarrow>
          list_ex (\<lambda>line. scan_mountinfo line = Some (rdev_major st, rdev_minor st))
            (fgets_all 4095 text))"

definition is_linux_partition :: "'d parted \<Rightarrow> 'd \<Rightarrow> stat_buf \<Rightarrow> bool" where
  "is_linux_partition p d st =
     (let path = block_path st ''/partition'' in
      if 96 \<le> length path then False else os_access p d path)"

section \<open>Boot sectors\<close>

definition merge_boot_sector :: "bytes \<Rightarrow> bytes \<Rightarrow> bool \<Rightarrow> u32 \<Rightarrow> bytes" where
  "merge_boot_sector original resized is_fat32 hidden_sectors =
     (let merged = take FAT_BOOT_SECTOR_SIZE original;
          merged = memcpy_at merged FAT_BPB_BYTES_PER_SECTOR
                     (drop FAT_BPB_BYTES_PER_SECTOR resized) 13;
          merged = put_le32 merged FAT_BPB_HIDDEN_SECTORS hidden_sectors;
          merged = memcpy_at merged FAT_BPB_TOTAL_SECTORS_32
                     (drop FAT_BPB_TOTAL_SECTORS_32 resized) 4
      in if is_fat32
         then memcpy_at merged FAT32_BPB_FAT_SIZE (drop FAT32_BPB_FAT_SIZE resized) 16
         else merged)"

definition memcmp_at :: "bytes \<Rightarrow> bytes \<Rightarrow> nat \<Rightarrow> nat \<Rightarrow> bool" where
  "memcmp_at a b off n \<longleftrightarrow> slice off n a \<noteq> slice off n b"

definition boot_identity_matches :: "bytes \<Rightarrow> bytes \<Rightarrow> bool \<Rightarrow> u32 \<Rightarrow> bool" where
  "boot_identity_matches before after is_fat32 hidden_sectors =
     (let expected = put_le32 before FAT_BPB_HIDDEN_SECTORS hidden_sectors in
      if memcmp_at expected after 0 FAT_BPB_BYTES_PER_SECTOR then False
      else if memcmp_at expected after 24 4
              \<or> memcmp_at expected after FAT_BPB_HIDDEN_SECTORS 4 then False
      else if is_fat32 then \<not> memcmp_at expected after 52 (FAT_BOOT_SECTOR_SIZE - 52)
      else \<not> memcmp_at expected after 36 (FAT_BOOT_SECTOR_SIZE - 36))"

definition boot_geometry_matches :: "bytes \<Rightarrow> bytes \<Rightarrow> bool" where
  "boot_geometry_matches main_boot backup_boot \<longleftrightarrow>
     \<not> memcmp_at main_boot backup_boot FAT_BPB_BYTES_PER_SECTOR 13
     \<and> \<not> memcmp_at main_boot backup_boot FAT_BPB_HIDDEN_SECTORS 8
     \<and> \<not> memcmp_at main_boot backup_boot FAT32_BPB_FAT_SIZE 16"

definition validate_boot_sector :: "bytes \<Rightarrow> bool" where
  "validate_boot_sector boot =
     (if get_le16 boot FAT_BPB_BYTES_PER_SECTOR \<noteq> 512 then False
      else if get_le16 boot 510 \<noteq> 0xaa55 then False
      else True)"

section \<open>The program\<close>

text \<open>
  \<open>run\<close> in the order of the source: the checks that need no library (lines 216-238), opening
  the device (240-266), probing the file system (267-309), the resize (316-337), writing and
  reading back the boot sectors (338-360), the final probe (362-372) and the exit path
  (374-385).  \<open>Inl e\<close> is a jump to the exit path with result \<open>e\<close>.
\<close>

definition run_precheck :: "'d parted \<Rightarrow> 'd \<Rightarrow> stat_buf \<Rightarrow> u32 option option" where
  "run_precheck p d st =
     (if st_mode st \<noteq> S_IFBLK \<and> st_mode st \<noteq> S_IFREG then None
      else if st_mode st = S_IFBLK then
        (if \<not> is_linux_partition p d st then None
         else if is_mounted p d st then None
         else case read_partition_start p d st of None \<Rightarrow> None | Some h \<Rightarrow> Some (Some h))
      else Some None)"

definition run_disk_check :: "'d parted \<Rightarrow> ('d fg_state, exit + unit) state" where
  "run_disk_check p = do {
     modify (exception_seen_update (\<lambda>_. False));
     disk \<leftarrow> call DiskNew (ped_disk_new p);
     (case disk of
        None \<Rightarrow> do {
          modify (exception_seen_update (\<lambda>_. False));
          State_Monad.return (Inr ()) }
      | Some label \<Rightarrow>
          if label \<noteq> Some ''loop'' then do {
            call DiskDestroy (ped_disk_destroy p);
            State_Monad.return (Inl (Exit 1)) }
          else do {
            call DiskDestroy (ped_disk_destroy p);
            modify (exception_seen_update (\<lambda>_. False));
            State_Monad.return (Inr ()) })
   }"

definition run_open :: "'d parted \<Rightarrow> string \<Rightarrow> bool \<Rightarrow> ('d fg_state, exit + ped_device) state" where
  "run_open p path is_block = do {
     device \<leftarrow> call DeviceGet (ped_device_get p path);
     modify (l_device_update (\<lambda>_. device));
     (case device of
        None \<Rightarrow> State_Monad.return (Inl (Exit 1))
      | Some dv \<Rightarrow> do {
          opened \<leftarrow> call DeviceOpen (ped_device_open p);
          if \<not> opened then State_Monad.return (Inl (Exit 1))
          else if sector_size dv \<noteq> 512 then State_Monad.return (Inl (Exit 1))
          else if \<not> is_block then do {
            r \<leftarrow> run_disk_check p;
            State_Monad.return (case r of Inl e \<Rightarrow> Inl e | Inr _ \<Rightarrow> Inr dv) }
          else State_Monad.return (Inr dv) })
   }"

record fg_probe =
  pb_before :: bytes
  pb_hidden :: u32
  pb_fat32 :: bool
  pb_name :: string
  pb_backup :: bytes

text \<open>The FAT32 backup sector of the file system as found (lines 298-309).\<close>

definition run_backup :: "'d parted \<Rightarrow> ped_device \<Rightarrow> bytes \<Rightarrow> ('d fg_state, bytes option) state" where
  "run_backup p dv before =
     (let old_backup_sector = get_le16 before FAT32_BPB_BACKUP_BOOT in
      if old_backup_sector = 0 \<or> get_le16 before 14 \<le> old_backup_sector
         \<or> dev_length dv \<le> uint old_backup_sector
      then State_Monad.return None
      else do {
        b \<leftarrow> call (GeometryRead (uint old_backup_sector)) (ped_geometry_read p (uint old_backup_sector));
        State_Monad.return (case b of
          None \<Rightarrow> None
        | Some backup_before \<Rightarrow>
            if validate_boot_sector backup_before
               \<and> \<not> memcmp_at before backup_before 0 FAT_BOOT_SECTOR_SIZE
            then Some backup_before else None) })"

definition run_probe :: "'d parted \<Rightarrow> ped_device \<Rightarrow> u32 option \<Rightarrow> ('d fg_state, exit + fg_probe) state" where
  "run_probe p dv hidden = do {
     target \<leftarrow> call (GeometryNew 0 (dev_length dv)) (ped_geometry_new p 0 (dev_length dv));
     modify (l_target_update (\<lambda>_. target));
     (case target of
        None \<Rightarrow> State_Monad.return (Inl (Exit 1))
      | Some target_length \<Rightarrow> do {
          before \<leftarrow> call (GeometryRead 0) (ped_geometry_read p 0);
          (case before of
             None \<Rightarrow> State_Monad.return (Inl (Exit 1))
           | Some before \<Rightarrow>
               if \<not> validate_boot_sector before then State_Monad.return (Inl (Exit 1))
               else do {
                 let hidden_sectors =
                   (case hidden of Some h \<Rightarrow> h | None \<Rightarrow> get_le32 before FAT_BPB_HIDDEN_SECTORS);
                 modify (exception_seen_update (\<lambda>_. False));
                 fs \<leftarrow> call FsOpen (ped_file_system_open p);
                 modify (l_fs_update (\<lambda>_. fs));
                 seen \<leftarrow> gets exception_seen;
                 (case fs of
                    None \<Rightarrow> State_Monad.return (Inl (Exit 1))
                  | Some f \<Rightarrow>
                 (case fs_type f of
                    None \<Rightarrow> State_Monad.return (Inl (Exit 1))
                  | Some None \<Rightarrow> State_Monad.return (Inl (Exit 1))
                  | Some (Some fs_name) \<Rightarrow>
                    if seen then State_Monad.return (Inl (Exit 1))
                    else if 8 \<le> length fs_name then State_Monad.return (Inl (Exit 1))
                    else if fs_name \<noteq> ''fat32'' \<and> fs_name \<noteq> ''fat16'' then State_Monad.return (Inl (Exit 1))
                    else if target_length < fs_length f then State_Monad.return (Inl (Exit 1))
                    else if fs_length f = target_length then State_Monad.return (Inl (Exit 0))
                    else if fs_name = ''fat32'' then do {
                      b \<leftarrow> run_backup p dv before;
                      State_Monad.return (case b of
                        None \<Rightarrow> Inl (Exit 1)
                      | Some backup_before \<Rightarrow>
                          Inr \<lparr>pb_before = before, pb_hidden = hidden_sectors, pb_fat32 = True,
                               pb_name = fs_name, pb_backup = backup_before\<rparr>) }
                    else State_Monad.return
                      (Inr \<lparr>pb_before = before, pb_hidden = hidden_sectors, pb_fat32 = False,
                            pb_name = fs_name, pb_backup = []\<rparr>)))
               }) })
   }"

definition run_resize :: "'d parted \<Rightarrow> ped_device \<Rightarrow> fg_probe \<Rightarrow> ('d fg_state, exit + bytes \<times> u16) state" where
  "run_resize p dv pb = do {
     modify (exception_seen_update (\<lambda>_. False));
     modify (allow_same_type_choice_update (\<lambda>_. True));
     modify (same_type_choice_update
       (\<lambda>_. if pb_fat32 pb then PED_EXCEPTION_YES else PED_EXCEPTION_NO));
     ok \<leftarrow> call FsResize (ped_file_system_resize p);
     seen \<leftarrow> gets exception_seen;
     modify (allow_same_type_choice_update (\<lambda>_. False));
     if \<not> ok \<or> seen then State_Monad.return (Inl (Exit 1))
     else do {
       resized \<leftarrow> call (GeometryRead 0) (ped_geometry_read p 0);
       State_Monad.return (case resized of
         None \<Rightarrow> Inl (Exit 1)
       | Some resized \<Rightarrow>
           if pb_fat32 pb then
             (let new_backup_sector = get_le16 resized FAT32_BPB_BACKUP_BOOT in
              if new_backup_sector = 0 \<or> get_le16 resized 14 \<le> new_backup_sector
                 \<or> dev_length dv \<le> uint new_backup_sector
              then Inl (Exit 1) else Inr (resized, new_backup_sector))
           else Inr (resized, 0)) }
   }"

text \<open>Lines 338-348: write the merged sectors and flush; the result says whether all succeeded.\<close>

definition run_write :: "'d parted \<Rightarrow> bool \<Rightarrow> bytes \<Rightarrow> bytes \<Rightarrow> u16 \<Rightarrow> ('d fg_state, bool) state" where
  "run_write p is_fat32 merged backup_merged new_backup_sector = do {
     w1 \<leftarrow> call (GeometryWrite merged 0) (ped_geometry_write p merged 0);
     if \<not> w1 then State_Monad.return False
     else do {
       w2 \<leftarrow> (if is_fat32
              then call (GeometryWrite backup_merged (uint new_backup_sector))
                     (ped_geometry_write p backup_merged (uint new_backup_sector))
              else State_Monad.return True);
       if \<not> w2 then State_Monad.return False
       else call GeometrySync (ped_geometry_sync p) }
   }"

text \<open>Lines 349-360: read both boot sectors back and compare.\<close>

definition run_readback :: "'d parted \<Rightarrow> fg_probe \<Rightarrow> bytes \<Rightarrow> bytes \<Rightarrow> u16 \<Rightarrow> ('d fg_state, bool) state" where
  "run_readback p pb merged backup_merged new_backup_sector = do {
     r \<leftarrow> call (GeometryRead 0) (ped_geometry_read p 0);
     (case r of
        None \<Rightarrow> State_Monad.return False
      | Some resized \<Rightarrow>
          if \<not> boot_identity_matches (pb_before pb) resized (pb_fat32 pb) (pb_hidden pb)
          then State_Monad.return False
          else if \<not> pb_fat32 pb then State_Monad.return True
          else do {
            b \<leftarrow> call (GeometryRead (uint new_backup_sector)) (ped_geometry_read p (uint new_backup_sector));
            State_Monad.return (case b of
              None \<Rightarrow> False
            | Some backup_after \<Rightarrow>
                \<not> memcmp_at backup_merged backup_after 0 FAT_BOOT_SECTOR_SIZE
                \<and> boot_identity_matches (pb_backup pb) backup_after True (pb_hidden pb)
                \<and> boot_geometry_matches merged backup_after) })
   }"

definition run_restore :: "'d parted \<Rightarrow> fg_probe \<Rightarrow> bytes \<Rightarrow> u16 \<Rightarrow> ('d fg_state, exit + unit) state" where
  "run_restore p pb resized new_backup_sector =
     (let merged = merge_boot_sector (pb_before pb) resized (pb_fat32 pb) (pb_hidden pb);
          backup_merged = (if pb_fat32 pb
            then merge_boot_sector (pb_backup pb) resized True (pb_hidden pb) else [])
      in do {
        w \<leftarrow> run_write p (pb_fat32 pb) merged backup_merged new_backup_sector;
        if \<not> w then State_Monad.return (Inl (Exit 1))
        else do {
          v \<leftarrow> run_readback p pb merged backup_merged new_backup_sector;
          State_Monad.return (if v then Inr () else Inl (Exit 1)) }
      })"

text \<open>
  Lines 362-372.  \<open>strcmp\<close> on a null type name is undefined: \<open>Undefined\<close>.
\<close>

definition verify_exit :: "fg_probe \<Rightarrow> int option \<Rightarrow> bool \<Rightarrow> ped_fs option \<Rightarrow> exit" where
  "verify_exit pb target seen verified =
     (case verified of
        None \<Rightarrow> Exit 1
      | Some v \<Rightarrow>
          if seen then Exit 1
          else (case fs_type v of
              None \<Rightarrow> Exit 1
            | Some None \<Rightarrow> Undefined
            | Some (Some name) \<Rightarrow>
                if name \<noteq> pb_name pb \<or> Some (fs_length v) \<noteq> target then Exit 1 else Exit 0))"

definition run_verify :: "'d parted \<Rightarrow> fg_probe \<Rightarrow> ('d fg_state, exit) state" where
  "run_verify p pb = do {
     call FsClose (ped_file_system_close p);
     modify (l_fs_update (\<lambda>_. None));
     modify (exception_seen_update (\<lambda>_. False));
     verified \<leftarrow> call FsOpen (ped_file_system_open p);
     modify (l_verified_update (\<lambda>_. verified));
     seen \<leftarrow> gets exception_seen;
     target \<leftarrow> gets l_target;
     State_Monad.return (verify_exit pb target seen verified)
   }"

definition run_body :: "'d parted \<Rightarrow> string \<Rightarrow> bool \<Rightarrow> u32 option \<Rightarrow> ('d fg_state, exit) state" where
  "run_body p path is_block hidden =
     continue_with (run_open p path is_block) (\<lambda>dv.
     continue_with (run_probe p dv hidden) (\<lambda>pb.
     continue_with (run_resize p dv pb) (\<lambda>(resized, new_backup_sector).
     continue_with (run_restore p pb resized new_backup_sector) (\<lambda>_.
     run_verify p pb))))"

definition when_some :: "'b option \<Rightarrow> ('s, unit) state \<Rightarrow> ('s, unit) state" where
  "when_some x m = (case x of None \<Rightarrow> State_Monad.return () | Some _ \<Rightarrow> m)"

definition run_cleanup :: "'d parted \<Rightarrow> ('d fg_state, unit) state" where
  "run_cleanup p = do {
     verified \<leftarrow> gets l_verified;
     when_some verified (call FsClose (ped_file_system_close p));
     fs \<leftarrow> gets l_fs;
     when_some fs (call FsClose (ped_file_system_close p));
     target \<leftarrow> gets l_target;
     when_some target (call GeometryDestroy (ped_geometry_destroy p));
     device \<leftarrow> gets l_device;
     when_some device (do {
       d \<leftarrow> gets fg_world;
       (if 0 < ped_open_count p d then call DeviceClose (ped_device_close p)
        else State_Monad.return ());
       call DeviceDestroy (ped_device_destroy p) })
   }"

definition run :: "'d parted \<Rightarrow> string \<Rightarrow> ('d fg_state, exit) state" where
  "run p path = do {
     d \<leftarrow> gets fg_world;
     (case os_stat p d path of
        None \<Rightarrow> State_Monad.return (Exit 1)
      | Some st \<Rightarrow>
          (case run_precheck p d st of
             None \<Rightarrow> State_Monad.return (Exit 1)
           | Some hidden \<Rightarrow> do {
               result \<leftarrow> run_body p path (st_mode st = S_IFBLK) hidden;
               run_cleanup p;
               State_Monad.return result }))
   }"

definition init_state :: "'d \<Rightarrow> 'd fg_state" where
  "init_state d = \<lparr>fg_world = d, exception_seen = False, allow_same_type_choice = False,
     same_type_choice = PED_EXCEPTION_UNHANDLED, l_device = None, l_target = None, l_fs = None,
     l_verified = None, fg_trace = []\<rparr>"

definition main :: "'d parted \<Rightarrow> string list \<Rightarrow> ('d fg_state, exit) state" where
  "main p argv = (if length argv \<noteq> 2 then State_Monad.return (Exit 2) else run p (argv ! 1))"

section \<open>Boot sector lemmas\<close>

lemma length_put_le32 [simp, buf_simps]: "length (put_le32 b p v) = length b"
  by (simp add: put_le32_def)

lemma nth_put_le32 [buf_simps]:
  assumes "p + 3 < length b" "i < length b"
  shows "put_le32 b p v ! i = (if p \<le> i \<and> i < p + 4 then le32_bytes v ! (i - p) else b ! i)"
proof -
  consider "i < p" | "i = p" | "i = p + 1" | "i = p + 2" | "i = p + 3" | "p + 4 \<le> i" by linarith
  then show ?thesis
    by cases (use assms in \<open>simp_all add: put_le32_def le32_bytes_def nth_list_update\<close>)
qed

lemma get_le32_put_le32: "p + 3 < length b \<Longrightarrow> get_le32 (put_le32 b p v) p = v"
  using le32_of_bytes [of v] by (simp add: get_le32_def nth_put_le32 le32_bytes_def le32_def)

lemma put_le32_get_le32:
  assumes "p + 3 < length b"
  shows "put_le32 b p (get_le32 b p) = b"
proof (rule nth_equalityI)
  fix i assume "i < length (put_le32 b p (get_le32 b p))"
  then have i: "i < length b" by simp
  have "le32_bytes (get_le32 b p) = [b ! p, b ! (p + 1), b ! (p + 2), b ! (p + 3)]"
    using le32_bytes_le32 [of "b ! p" "b ! (p + 1)" "b ! (p + 2)" "b ! (p + 3)"]
    by (simp add: get_le32_def le32_def)
  note bs = this
  consider "i < p" | "i = p" | "i = p + 1" | "i = p + 2" | "i = p + 3" | "p + 4 \<le> i" by linarith
  then show "put_le32 b p (get_le32 b p) ! i = b ! i"
    by cases (use assms i bs in \<open>simp_all add: nth_put_le32\<close>)
qed simp

interpretation fat32_field: byte_field get_le32 put_le32 4
proof
  show "get_le32 b p = get_le32 c p"
    if "p + 4 \<le> length b" "p + 4 \<le> length c" "\<And>i. p \<le> i \<Longrightarrow> i < p + 4 \<Longrightarrow> b ! i = c ! i" for b c p
    using that(3) by (simp add: get_le32_def)
qed (auto simp: get_le32_put_le32 put_le32_get_le32 nth_put_le32)

definition geometry_byte :: "bool \<Rightarrow> nat \<Rightarrow> bool" where
  "geometry_byte is_fat32 i \<longleftrightarrow> (11 \<le> i \<and> i < 24) \<or> (32 \<le> i \<and> i < 36) \<or> (is_fat32 \<and> 36 \<le> i \<and> i < 52)"

lemma length_merge_boot_sector [simp]:
  "length orig = 512 \<Longrightarrow> length res = 512 \<Longrightarrow> length (merge_boot_sector orig res f h) = 512"
  by (simp add: merge_boot_sector_def Let_def fat_offsets)

lemma merge_boot_sector_nth:
  assumes "length original = 512" "length resized = 512" "i < 512"
  shows "merge_boot_sector original resized is_fat32 hidden ! i =
    (if geometry_byte is_fat32 i then resized ! i
     else if 28 \<le> i \<and> i < 32 then le32_bytes hidden ! (i - 28)
     else original ! i)"
  using assms
  by (cases is_fat32)
     (auto simp: merge_boot_sector_def Let_def fat_offsets nth_memcpy_at nth_put_le32 geometry_byte_def)

lemma memcmp_at_iff:
  assumes "length a = 512" "length b = 512" "off + n \<le> 512"
  shows "\<not> memcmp_at a b off n \<longleftrightarrow> (\<forall>i. off \<le> i \<and> i < off + n \<longrightarrow> a ! i = b ! i)"
  using slice_eq_iff [of off n a b] assms unfolding memcmp_at_def by auto

lemma boot_identity_matches_iff:
  assumes "length before = 512" "length after = 512"
  shows "boot_identity_matches before after is_fat32 hidden \<longleftrightarrow>
    (\<forall>i < 512. \<not> geometry_byte is_fat32 i \<longrightarrow>
       after ! i = (if 28 \<le> i \<and> i < 32 then le32_bytes hidden ! (i - 28) else before ! i))"
    (is "?L \<longleftrightarrow> ?R")
proof -
  let ?e = "put_le32 before 28 hidden"
  have e: "?e ! i = (if 28 \<le> i \<and> i < 32 then le32_bytes hidden ! (i - 28) else before ! i)"
    if "i < 512" for i using that assms by (simp add: nth_put_le32)
  let ?from = "if is_fat32 then 52 else 36 :: nat"
  have "?L \<longleftrightarrow> \<not> memcmp_at ?e after 0 11 \<and> \<not> memcmp_at ?e after 24 4 \<and> \<not> memcmp_at ?e after 28 4
     \<and> \<not> memcmp_at ?e after ?from (512 - ?from)"
    by (simp add: boot_identity_matches_def Let_def fat_offsets)
  also have "\<dots> \<longleftrightarrow> (\<forall>i. (i < 11 \<or> 24 \<le> i \<and> i < 32 \<or> ?from \<le> i \<and> i < 512) \<longrightarrow> ?e ! i = after ! i)"
  proof -
    have m: "\<not> memcmp_at ?e after 0 11 \<longleftrightarrow> (\<forall>i. i < 11 \<longrightarrow> ?e ! i = after ! i)"
      "\<not> memcmp_at ?e after 24 4 \<longleftrightarrow> (\<forall>i. 24 \<le> i \<and> i < 28 \<longrightarrow> ?e ! i = after ! i)"
      "\<not> memcmp_at ?e after 28 4 \<longleftrightarrow> (\<forall>i. 28 \<le> i \<and> i < 32 \<longrightarrow> ?e ! i = after ! i)"
      "\<not> memcmp_at ?e after ?from (512 - ?from) \<longleftrightarrow> (\<forall>i. ?from \<le> i \<and> i < 512 \<longrightarrow> ?e ! i = after ! i)"
      using assms by (subst memcmp_at_iff; auto)+
    have split: "24 \<le> i \<and> i < 32 \<longleftrightarrow> (24 \<le> i \<and> i < 28) \<or> (28 \<le> i \<and> i < 32)" for i :: nat by auto
    show ?thesis unfolding m split by blast
  qed
  also have "\<dots> \<longleftrightarrow> ?R"
    using e by (auto simp: geometry_byte_def split: if_splits)
  finally show ?thesis .
qed

lemma merge_identity:
  assumes "length original = 512" "length resized = 512"
  shows "boot_identity_matches original (merge_boot_sector original resized is_fat32 hidden) is_fat32 hidden"
  using assms by (simp add: boot_identity_matches_iff merge_boot_sector_nth)

text \<open>Property C3. The merged boot sector takes exactly the geometry fields from the resized sector and the
  hidden-sector count from the caller, keeps every other byte of the original, and therefore passes the
  program's own identity check.\<close>

theorem merge_boot_sector_exact:
  assumes "length original = 512" "length resized = 512"
  shows "length (merge_boot_sector original resized is_fat32 hidden) = 512
    \<and> (\<forall>i < 512. merge_boot_sector original resized is_fat32 hidden ! i =
        (if geometry_byte is_fat32 i then resized ! i
         else if 28 \<le> i \<and> i < 32 then le32_bytes hidden ! (i - 28)
         else original ! i))
    \<and> get_le32 (merge_boot_sector original resized is_fat32 hidden) 28 = hidden
    \<and> boot_identity_matches original (merge_boot_sector original resized is_fat32 hidden) is_fat32 hidden"
proof (intro conjI allI impI)
  let ?m = "merge_boot_sector original resized is_fat32 hidden"
  have "get_le32 ?m 28 = get_le32 (put_le32 ?m 28 hidden) 28"
    by (rule fat32_field.get_local)
       (use assms in \<open>auto simp: merge_boot_sector_nth nth_put_le32 geometry_byte_def\<close>)
  then show "get_le32 ?m 28 = hidden" using assms by (simp add: fat32_field.get_put)
qed (use assms in \<open>simp_all add: merge_boot_sector_nth merge_identity\<close>)

lemma merge_geometry:
  assumes "length a = 512" "length b = 512" "length resized = 512"
  shows "boot_geometry_matches (merge_boot_sector a resized True h) (merge_boot_sector b resized True h)"
  using assms
  by (auto simp: boot_geometry_matches_def fat_offsets memcmp_at_iff merge_boot_sector_nth geometry_byte_def)

section \<open>Library calls\<close>

text \<open>
  A call changes the world and is appended to the trace behind the exceptions refused during it; the
  exception flag tells whether there were any.
\<close>

fun is_refused :: "fg_event \<Rightarrow> bool" where
  "is_refused (Refused _) = True" | "is_refused _ = False"

definition refusals :: "fg_event list \<Rightarrow> bool" where
  "refusals t \<longleftrightarrow> list_all is_refused t"

lemma refusals_simps [simp]: "refusals []" "refusals (e # t) \<longleftrightarrow> is_refused e \<and> refusals t" "refusals (t @ u) \<longleftrightarrow> refusals t \<and> refusals u"
  by (simp_all add: refusals_def)

lemma cancel_exception_frame:
  "\<exists>xs. refusals xs \<and> snd (cancel_exception x s) = s\<lparr>exception_seen := exception_seen s \<or> xs \<noteq> [], fg_trace := fg_trace s @ xs\<rparr>"
proof (cases "allow_same_type_choice s \<and> exn_type x = PED_EXCEPTION_INFORMATION
    \<and> exn_options x = PED_EXCEPTION_YES_NO_CANCEL")
  case True
  then show ?thesis by (intro exI [of _ "[]"]) (simp add: cancel_exception_def)
next
  case False
  then show ?thesis by (intro exI [of _ "[Refused x]"]) (auto simp: cancel_exception_def)
qed

lemma ped_run_frame:
  "\<exists>a d' xs. (a, d') \<in> set_ped_call c \<and> refusals xs \<and>
     ped_run c s = (a, s\<lparr>fg_world := d', exception_seen := exception_seen s \<or> xs \<noteq> [], fg_trace := fg_trace s @ xs\<rparr>)"
proof (induction c arbitrary: s)
  case (Ret r)
  have "(fst r, snd r) \<in> set_ped_call (Ret r)" by simp
  then show ?case by (intro exI [of _ "fst r"] exI [of _ "snd r"] exI [of _ "[]"]) simp
next
  case (Raise x k)
  obtain xs where e: "refusals xs" "snd (cancel_exception x s) = s\<lparr>exception_seen := exception_seen s \<or> xs \<noteq> [], fg_trace := fg_trace s @ xs\<rparr>"
    using cancel_exception_frame by blast
  let ?c = "k (fst (cancel_exception x s))" and ?s = "snd (cancel_exception x s)"
  obtain a d' ys where "(a, d') \<in> set_ped_call ?c" "refusals ys"
    "ped_run ?c ?s = (a, ?s\<lparr>fg_world := d', exception_seen := exception_seen ?s \<or> ys \<noteq> [], fg_trace := fg_trace ?s @ ys\<rparr>)"
    using Raise.IH [of ?c ?s] by auto
  then show ?case using e by (intro exI [of _ a] exI [of _ d'] exI [of _ "xs @ ys"]) auto
qed

lemma run_call_frame:
  "\<exists>a d' xs. (a, d') \<in> set_ped_call (f (fg_world s)) \<and> refusals xs \<and>
     run_state (call ev f) s = (a, s\<lparr>fg_world := d', exception_seen := exception_seen s \<or> xs \<noteq> [], fg_trace := fg_trace s @ xs @ [ev a]\<rparr>)"
proof -
  obtain a d' xs where "(a, d') \<in> set_ped_call (f (fg_world s))" "refusals xs"
    "ped_run (f (fg_world s)) s = (a, s\<lparr>fg_world := d', exception_seen := exception_seen s \<or> xs \<noteq> [], fg_trace := fg_trace s @ xs\<rparr>)"
    using ped_run_frame by metis
  then show ?thesis
    by (intro exI [of _ a] exI [of _ d'] exI [of _ xs]) (simp add: call_def)
qed

lemma valid_call [hoare]:
  "valid (\<lambda>s. \<forall>a d' xs. (a, d') \<in> set_ped_call (f (fg_world s)) \<longrightarrow> refusals xs \<longrightarrow>
      Q a (s\<lparr>fg_world := d', exception_seen := exception_seen s \<or> xs \<noteq> [], fg_trace := fg_trace s @ xs @ [ev a]\<rparr>)) (call ev f) Q"
proof (rule validI)
  fix s assume h: "\<forall>a d' xs. (a, d') \<in> set_ped_call (f (fg_world s)) \<longrightarrow> refusals xs \<longrightarrow>
      Q a (s\<lparr>fg_world := d', exception_seen := exception_seen s \<or> xs \<noteq> [], fg_trace := fg_trace s @ xs @ [ev a]\<rparr>)"
  obtain a d' xs where "(a, d') \<in> set_ped_call (f (fg_world s))" "refusals xs"
    "run_state (call ev f) s = (a, s\<lparr>fg_world := d', exception_seen := exception_seen s \<or> xs \<noteq> [], fg_trace := fg_trace s @ xs @ [ev a]\<rparr>)"
    using run_call_frame by metis
  with h show "Q (fst (run_state (call ev f) s)) (snd (run_state (call ev f) s))" by simp
qed

lemma valid_when_some [hoare]:
  "(\<And>y. x = Some y \<Longrightarrow> valid P m Q) \<Longrightarrow> valid (\<lambda>s. if x = None then Q () s else P s) (when_some x m) Q"
  by (cases x) (auto simp: when_some_def valid_def)

section \<open>Handles are released\<close>

text \<open>
  The difference between acquisitions and releases of each kind of handle in a trace.
\<close>

definition fs_balance :: "fg_event list \<Rightarrow> int" where
  "fs_balance t = (\<Sum>e\<leftarrow>t. case e of FsOpen (Some _) \<Rightarrow> 1 | FsClose _ \<Rightarrow> -1 | _ \<Rightarrow> 0)"

definition geometry_balance :: "fg_event list \<Rightarrow> int" where
  "geometry_balance t = (\<Sum>e\<leftarrow>t. case e of GeometryNew _ _ (Some _) \<Rightarrow> 1 | GeometryDestroy _ \<Rightarrow> -1 | _ \<Rightarrow> 0)"

definition device_balance :: "fg_event list \<Rightarrow> int" where
  "device_balance t = (\<Sum>e\<leftarrow>t. case e of DeviceGet (Some _) \<Rightarrow> 1 | DeviceDestroy _ \<Rightarrow> -1 | _ \<Rightarrow> 0)"

definition disk_balance :: "fg_event list \<Rightarrow> int" where
  "disk_balance t = (\<Sum>e\<leftarrow>t. case e of DiskNew (Some _) \<Rightarrow> 1 | DiskDestroy _ \<Rightarrow> -1 | _ \<Rightarrow> 0)"

lemmas balance_defs = fs_balance_def geometry_balance_def device_balance_def disk_balance_def

definition held :: "'a option \<Rightarrow> int" where
  "held x = (if x = None then 0 else 1)"

lemma held_simps [simp]: "held None = 0" "held (Some x) = 1"
  by (simp_all add: held_def)

definition handles_ok :: "'d fg_state \<Rightarrow> bool" where
  "handles_ok s \<longleftrightarrow> fs_balance (fg_trace s) = held (l_fs s) + held (l_verified s)
     \<and> geometry_balance (fg_trace s) = held (l_target s)
     \<and> device_balance (fg_trace s) = held (l_device s)
     \<and> disk_balance (fg_trace s) = 0"

lemma balance_simps [simp]:
  "fs_balance [] = 0" "geometry_balance [] = 0" "device_balance [] = 0" "disk_balance [] = 0"
  "fs_balance (t @ u) = fs_balance t + fs_balance u"
  "geometry_balance (t @ u) = geometry_balance t + geometry_balance u"
  "device_balance (t @ u) = device_balance t + device_balance u"
  "disk_balance (t @ u) = disk_balance t + disk_balance u"
  "fs_balance (e # t) = (case e of FsOpen r \<Rightarrow> held r | FsClose _ \<Rightarrow> -1 | _ \<Rightarrow> 0) + fs_balance t"
  "geometry_balance (e # t) =
     (case e of GeometryNew _ _ r \<Rightarrow> held r | GeometryDestroy _ \<Rightarrow> -1 | _ \<Rightarrow> 0) + geometry_balance t"
  "device_balance (e # t) =
     (case e of DeviceGet r \<Rightarrow> held r | DeviceDestroy _ \<Rightarrow> -1 | _ \<Rightarrow> 0) + device_balance t"
  "disk_balance (e # t) = (case e of DiskNew r \<Rightarrow> held r | DiskDestroy _ \<Rightarrow> -1 | _ \<Rightarrow> 0) + disk_balance t"
  by (simp_all add: balance_defs held_def split: fg_event.splits option.splits)

lemma balance_refusals [simp]:
  assumes "refusals xs"
  shows "fs_balance xs = 0" "geometry_balance xs = 0" "device_balance xs = 0" "disk_balance xs = 0"
proof -
  have "fs_balance xs = 0 \<and> geometry_balance xs = 0 \<and> device_balance xs = 0 \<and> disk_balance xs = 0"
    using assms by (induction xs) (auto elim: is_refused.elims)
  then show "fs_balance xs = 0" "geometry_balance xs = 0" "device_balance xs = 0" "disk_balance xs = 0" by auto
qed

lemma run_open_handles:
  "valid (\<lambda>s. handles_ok s \<and> l_device s = None \<and> l_target s = None \<and> l_fs s = None \<and> l_verified s = None)
     (run_open p path b)
     (\<lambda>r s. handles_ok s \<and> l_target s = None \<and> l_fs s = None \<and> l_verified s = None)"
  unfolding run_open_def run_disk_check_def
  by (rule valid_pre, (rule hoare)+) (auto simp: handles_ok_def split: option.splits)


lemma run_probe_handles:
  "valid (\<lambda>s. handles_ok s \<and> l_target s = None \<and> l_fs s = None \<and> l_verified s = None)
     (run_probe p dv h)
     (\<lambda>r s. handles_ok s \<and> l_verified s = None \<and> (\<forall>pb. r = Inr pb \<longrightarrow> l_fs s \<noteq> None))"
  unfolding run_probe_def run_backup_def Let_def
  by (rule valid_pre, (rule hoare)+) (auto simp: handles_ok_def split: option.splits)

lemma run_resize_handles:
  "valid (\<lambda>s. handles_ok s \<and> l_verified s = None \<and> l_fs s \<noteq> None)
     (run_resize p dv pb) (\<lambda>r s. handles_ok s \<and> l_verified s = None \<and> l_fs s \<noteq> None)"
  unfolding run_resize_def Let_def
  by (rule valid_pre, (rule hoare)+) (auto simp: handles_ok_def split: option.splits)

lemma run_restore_handles:
  "valid (\<lambda>s. handles_ok s \<and> l_verified s = None \<and> l_fs s \<noteq> None)
     (run_restore p pb rz nb) (\<lambda>r s. handles_ok s \<and> l_verified s = None \<and> l_fs s \<noteq> None)"
  unfolding run_restore_def run_write_def run_readback_def Let_def
  by (rule valid_pre, (rule hoare)+) (auto simp: handles_ok_def split: option.splits)

lemma run_verify_handles:
  "valid (\<lambda>s. handles_ok s \<and> l_verified s = None \<and> l_fs s \<noteq> None)
     (run_verify p pb) (\<lambda>r s. handles_ok s)"
  unfolding run_verify_def Let_def
  by (rule valid_pre, (rule hoare)+) (auto simp: handles_ok_def split: option.splits)

text \<open>
  The count of opens is libparted's: a device just obtained is not open, a successful open adds one, and
  the other calls leave the device as open as they found it.
\<close>

definition keeps_open_count :: "'d parted \<Rightarrow> ('d \<Rightarrow> ('a \<times> 'd) ped_call) \<Rightarrow> bool" where
  "keeps_open_count p f \<longleftrightarrow> (\<forall>d r d'. (r, d') \<in> set_ped_call (f d) \<longrightarrow> ped_open_count p d' = ped_open_count p d)"

definition open_count_law :: "'d parted \<Rightarrow> bool" where
  "open_count_law p \<longleftrightarrow>
     (\<forall>path d dv d'. (Some dv, d') \<in> set_ped_call (ped_device_get p path d) \<longrightarrow> ped_open_count p d' = 0)
     \<and> (\<forall>d r d'. (r, d') \<in> set_ped_call (ped_device_open p d) \<longrightarrow> ped_open_count p d' = ped_open_count p d + (if r then 1 else 0))
     \<and> keeps_open_count p (ped_disk_new p) \<and> keeps_open_count p (ped_disk_destroy p)
     \<and> (\<forall>a n. keeps_open_count p (ped_geometry_new p a n)) \<and> keeps_open_count p (ped_geometry_destroy p)
     \<and> (\<forall>n. keeps_open_count p (ped_geometry_read p n)) \<and> (\<forall>b n. keeps_open_count p (ped_geometry_write p b n))
     \<and> keeps_open_count p (ped_geometry_sync p) \<and> keeps_open_count p (ped_file_system_open p)
     \<and> keeps_open_count p (ped_file_system_resize p) \<and> keeps_open_count p (ped_file_system_close p)"

definition open_balance :: "fg_event list \<Rightarrow> int" where
  "open_balance t = (\<Sum>e\<leftarrow>t. case e of DeviceOpen True \<Rightarrow> 1 | DeviceClose _ \<Rightarrow> -1 | _ \<Rightarrow> 0)"

lemma open_balance_simps [simp]:
  "open_balance [] = 0" "open_balance (t @ u) = open_balance t + open_balance u"
  "open_balance (e # t) = (case e of DeviceOpen b \<Rightarrow> (if b then 1 else 0) | DeviceClose _ \<Rightarrow> -1 | _ \<Rightarrow> 0) + open_balance t"
  by (simp_all add: open_balance_def split: fg_event.splits bool.splits)

lemma open_balance_refusals [simp]: "refusals xs \<Longrightarrow> open_balance xs = 0"
  by (induction xs) (auto elim: is_refused.elims)

definition open_ok :: "'d parted \<Rightarrow> 'd fg_state \<Rightarrow> bool" where
  "open_ok p s \<longleftrightarrow> open_balance (fg_trace s) \<in> {0, 1}
     \<and> open_balance (fg_trace s) = (if l_device s = None then 0 else ped_open_count p (fg_world s))"

text \<open>A step that neither opens nor closes leaves the device as open as it was.\<close>

definition stays_open :: "'d parted \<Rightarrow> ('d fg_state, 'a) state \<Rightarrow> bool" where
  "stays_open p m \<longleftrightarrow> valid (open_ok p) m (\<lambda>_. open_ok p)"

lemma stays_open_call:
  assumes "keeps_open_count p f" "\<And>a. open_balance [ev a] = 0"
  shows "stays_open p (call ev f)"
  unfolding stays_open_def
  by (rule valid_pre, rule valid_call)
    (use assms in \<open>auto simp: open_ok_def keeps_open_count_def simp del: open_balance_simps(3)\<close>)

lemma stays_open_rules:
  "stays_open p (State_Monad.return x)" "stays_open p (gets g)"
  "stays_open p m \<Longrightarrow> (\<And>x. stays_open p (k x)) \<Longrightarrow> stays_open p (State_Monad.bind m k)"
  "stays_open p m1 \<Longrightarrow> stays_open p m2 \<Longrightarrow> stays_open p (if b then m1 else m2)"
  "stays_open p m1 \<Longrightarrow> (\<And>y. stays_open p (n y)) \<Longrightarrow> stays_open p (case z of None \<Rightarrow> m1 | Some y \<Rightarrow> n y)"
  "(\<And>s. open_ok p (h s) = open_ok p s) \<Longrightarrow> stays_open p (modify h)"
  by (auto simp: stays_open_def valid_def split_beta split: option.splits)

lemma stays_open_calls:
  assumes "open_count_law p"
  shows "stays_open p (call DiskNew (ped_disk_new p))" "stays_open p (call DiskDestroy (ped_disk_destroy p))"
    "stays_open p (call (GeometryNew a n) (ped_geometry_new p a n))" "stays_open p (call GeometryDestroy (ped_geometry_destroy p))"
    "stays_open p (call (GeometryRead n) (ped_geometry_read p n))" "stays_open p (call (GeometryWrite b n) (ped_geometry_write p b n))"
    "stays_open p (call GeometrySync (ped_geometry_sync p))" "stays_open p (call FsOpen (ped_file_system_open p))"
    "stays_open p (call FsResize (ped_file_system_resize p))" "stays_open p (call FsClose (ped_file_system_close p))"
  by (rule stays_open_call; use assms in \<open>simp add: open_count_law_def\<close>)+

lemma open_ok_fields [simp]:
  "open_ok p (s\<lparr>exception_seen := b\<rparr>) = open_ok p s" "open_ok p (s\<lparr>allow_same_type_choice := b\<rparr>) = open_ok p s"
  "open_ok p (s\<lparr>same_type_choice := c\<rparr>) = open_ok p s" "open_ok p (s\<lparr>l_target := t\<rparr>) = open_ok p s"
  "open_ok p (s\<lparr>l_fs := f\<rparr>) = open_ok p s" "open_ok p (s\<lparr>l_verified := f\<rparr>) = open_ok p s"
  by (simp_all add: open_ok_def)

lemma phases_stay_open:
  assumes "open_count_law p"
  shows "stays_open p (run_disk_check p)" "stays_open p (run_probe p dv h)" "stays_open p (run_resize p dv pb)"
    "stays_open p (run_restore p pb rz nb)" "stays_open p (run_verify p pb)"
  unfolding run_disk_check_def run_probe_def run_backup_def run_resize_def run_restore_def run_write_def run_readback_def run_verify_def Let_def
  by (intro stays_open_rules stays_open_calls [OF assms]; simp)+

lemma run_open_counted:
  assumes "open_count_law p"
  shows "valid (\<lambda>s. open_balance (fg_trace s) = 0) (run_open p path b) (\<lambda>r s. open_ok p s)"
proof -
  have disk: "valid (open_ok p) (do { r \<leftarrow> run_disk_check p; State_Monad.return (case r of Inl e \<Rightarrow> Inl e | Inr _ \<Rightarrow> Inr dv) }) (\<lambda>r s. open_ok p s)" for dv :: ped_device
    using stays_open_rules(3) [OF phases_stay_open(1) [OF assms] stays_open_rules(1)] unfolding stays_open_def .
  have get: "(Some dv, d') \<in> set_ped_call (ped_device_get p path d) \<Longrightarrow> ped_open_count p d' = 0"
    and opn: "(ok, d') \<in> set_ped_call (ped_device_open p d) \<Longrightarrow> ped_open_count p d' = ped_open_count p d + (if ok then 1 else 0)"
    for d d' dv ok using assms unfolding open_count_law_def by blast+
  show ?thesis
    unfolding run_open_def
    by (rule valid_pre, (rule disk hoare)+) (auto simp: open_ok_def dest!: get opn split: option.splits)
qed

lemma run_body_counted:
  assumes "open_count_law p"
  shows "valid (\<lambda>s. open_balance (fg_trace s) = 0) (run_body p path b h) (\<lambda>r s. open_ok p s)"
proof -
  have inv: "valid P (continue_with m k) (\<lambda>r s. open_ok p s)"
    if "valid P m (\<lambda>r s. open_ok p s)" "\<And>x. stays_open p (k x)" for P m and k :: "'x \<Rightarrow> ('a fg_state, exit) state"
    by (rule valid_continue [OF that(2) [unfolded stays_open_def]], rule valid_weaken [OF that(1)]) (auto split: sum.splits)
  note st = phases_stay_open(2-5) [OF assms]
  have 1: "stays_open p (continue_with (run_restore p pb rz nb) (\<lambda>_. run_verify p pb))" for pb rz nb
    unfolding stays_open_def by (rule inv [OF st(3) [unfolded stays_open_def] st(4)])
  have 2: "stays_open p (continue_with (run_resize p dv pb) (\<lambda>(rz, nb). continue_with (run_restore p pb rz nb) (\<lambda>_. run_verify p pb)))" for dv pb
    unfolding stays_open_def by (rule inv [OF st(2) [unfolded stays_open_def]]) (simp add: split_beta 1)
  have 3: "stays_open p (continue_with (run_probe p dv h) (\<lambda>pb. continue_with (run_resize p dv pb)
      (\<lambda>(rz, nb). continue_with (run_restore p pb rz nb) (\<lambda>_. run_verify p pb))))" for dv
    unfolding stays_open_def by (rule inv [OF st(1) [unfolded stays_open_def] 2])
  show ?thesis unfolding run_body_def by (rule inv [OF run_open_counted [OF assms] 3])
qed

section \<open>The exit path\<close>

definition calls :: "fg_event list \<Rightarrow> fg_event list" where
  "calls t = filter (\<lambda>e. \<not> is_refused e) t"

lemma calls_simps [simp]: "calls [] = []" "calls (t @ u) = calls t @ calls u" "calls (e # t) = (if is_refused e then calls t else e # calls t)"
  by (simp_all add: calls_def)

lemma calls_refusals [simp]: "refusals xs \<Longrightarrow> calls xs = []"
  by (induction xs) auto

lemma balance_calls:
  "fs_balance (calls t) = fs_balance t" "geometry_balance (calls t) = geometry_balance t" "device_balance (calls t) = device_balance t"
  "disk_balance (calls t) = disk_balance t" "open_balance (calls t) = open_balance t"
  by (induction t) (auto elim: is_refused.elims)

lemma when_some_call:
  "\<exists>d' e v. run_state (when_some x (call ev f)) s = ((), s\<lparr>fg_world := d', exception_seen := e, fg_trace := fg_trace s @ v\<rparr>)
     \<and> calls v = (if x = None then [] else filter (\<lambda>e. \<not> is_refused e) [ev ()])
     \<and> (keeps_open_count p f \<longrightarrow> ped_open_count p d' = ped_open_count p (fg_world s))"
proof (cases x)
  case None
  then show ?thesis
    by (intro exI [of _ "fg_world s"] exI [of _ "exception_seen s"] exI [of _ "[]"]) (simp add: when_some_def)
next
  case (Some y)
  obtain a d' xs where "(a, d') \<in> set_ped_call (f (fg_world s))" "refusals xs"
    "run_state (call ev f) s = (a, s\<lparr>fg_world := d', exception_seen := exception_seen s \<or> xs \<noteq> [], fg_trace := fg_trace s @ xs @ [ev a]\<rparr>)"
    using run_call_frame by metis
  then show ?thesis using Some
    by (intro exI [of _ d'] exI [of _ "exception_seen s \<or> xs \<noteq> []"] exI [of _ "xs @ [ev ()]"])
      (auto simp: when_some_def keeps_open_count_def)
qed

text \<open>What the exit path does depends only on the handles held and the count of opens.\<close>

lemma run_cleanup_trace:
  "\<exists>d' e v. run_state (run_cleanup p) s = ((), s\<lparr>fg_world := d', exception_seen := e, fg_trace := fg_trace s @ v\<rparr>)
     \<and> (\<exists>u. calls v = (if l_verified s = None then [] else [FsClose ()])
       @ (if l_fs s = None then [] else [FsClose ()])
       @ (if l_target s = None then [] else [GeometryDestroy ()])
       @ (if l_device s = None then [] else (if u then [DeviceClose ()] else []) @ [DeviceDestroy ()])
       \<and> (open_count_law p \<longrightarrow> u = (0 < ped_open_count p (fg_world s))))"
proof -
  obtain d1 e1 v1 where 1: "run_state (when_some (l_verified s) (call FsClose (ped_file_system_close p))) s =
    ((), s\<lparr>fg_world := d1, exception_seen := e1, fg_trace := fg_trace s @ v1\<rparr>)" (is "_ = ((), ?s1)")
    and v1: "calls v1 = (if l_verified s = None then [] else [FsClose ()])"
    and c1: "open_count_law p \<Longrightarrow> ped_open_count p d1 = ped_open_count p (fg_world s)"
    using when_some_call [of "l_verified s" FsClose "ped_file_system_close p" s p] by (auto simp: open_count_law_def)
  obtain d2 e2 v2 where 2: "run_state (when_some (l_fs s) (call FsClose (ped_file_system_close p))) ?s1 =
    ((), ?s1\<lparr>fg_world := d2, exception_seen := e2, fg_trace := fg_trace ?s1 @ v2\<rparr>)" (is "_ = ((), ?s2)")
    and v2: "calls v2 = (if l_fs s = None then [] else [FsClose ()])"
    and c2: "open_count_law p \<Longrightarrow> ped_open_count p d2 = ped_open_count p d1"
    using when_some_call [of "l_fs s" FsClose "ped_file_system_close p" ?s1 p] by (auto simp: open_count_law_def)
  obtain d3 e3 v3 where 3: "run_state (when_some (l_target s) (call GeometryDestroy (ped_geometry_destroy p))) ?s2 =
    ((), ?s2\<lparr>fg_world := d3, exception_seen := e3, fg_trace := fg_trace ?s2 @ v3\<rparr>)" (is "_ = ((), ?s3)")
    and v3: "calls v3 = (if l_target s = None then [] else [GeometryDestroy ()])"
    and c3: "open_count_law p \<Longrightarrow> ped_open_count p d3 = ped_open_count p d2"
    using when_some_call [of "l_target s" GeometryDestroy "ped_geometry_destroy p" ?s2 p] by (auto simp: open_count_law_def)
  let ?u = "0 < ped_open_count p d3"
  let ?c = "if ?u then Some () else None"
  obtain d4 e4 v4 where 4: "run_state (when_some ?c (call DeviceClose (ped_device_close p))) ?s3 =
    ((), ?s3\<lparr>fg_world := d4, exception_seen := e4, fg_trace := fg_trace ?s3 @ v4\<rparr>)" (is "_ = ((), ?s4)")
    and v4: "calls v4 = (if ?u then [DeviceClose ()] else [])"
    using when_some_call [of ?c DeviceClose "ped_device_close p" ?s3 p] by auto
  obtain d5 e5 v5 where 5: "run_state (when_some (Some ()) (call DeviceDestroy (ped_device_destroy p))) ?s4 =
    ((), ?s4\<lparr>fg_world := d5, exception_seen := e5, fg_trace := fg_trace ?s4 @ v5\<rparr>)"
    and v5: "calls v5 = [DeviceDestroy ()]"
    using when_some_call [of "Some ()" DeviceDestroy "ped_device_destroy p" ?s4 p] by auto
  show ?thesis
  proof (cases "l_device s")
    case None
    show ?thesis
      by (rule exI [of _ d3], rule exI [of _ e3], rule exI [of _ "v1 @ v2 @ v3"], rule conjI, use 1 2 3 None in \<open>simp add: run_cleanup_def when_some_def\<close>)
        (use v1 v2 v3 None in auto)
  next
    case (Some dv)
    have close: "(if ?u then call DeviceClose (ped_device_close p) else State_Monad.return ()) = when_some ?c (call DeviceClose (ped_device_close p))"
      by (simp add: when_some_def)
    show ?thesis
      by (rule exI [of _ d5], rule exI [of _ e5], rule exI [of _ "v1 @ v2 @ v3 @ v4 @ v5"], rule conjI,
          use 1 2 3 4 5 Some in \<open>simp add: run_cleanup_def close [symmetric]\<close>, simp add: when_some_def,
          rule exI [of _ ?u], use v1 v2 v3 v4 v5 c1 c2 c3 Some in auto)
  qed
qed

lemma run_cleanup_handles:
  assumes "handles_ok s" "run_state (run_cleanup p) s = (r, s')"
  shows "fs_balance (fg_trace s') = 0 \<and> geometry_balance (fg_trace s') = 0
        \<and> device_balance (fg_trace s') = 0 \<and> disk_balance (fg_trace s') = 0"
    and "open_count_law p \<Longrightarrow> open_ok p s \<Longrightarrow> open_balance (fg_trace s') = 0"
proof -
  obtain d' e v u where run: "run_state (run_cleanup p) s = ((), s\<lparr>fg_world := d', exception_seen := e, fg_trace := fg_trace s @ v\<rparr>)"
    and v: "calls v = (if l_verified s = None then [] else [FsClose ()])
       @ (if l_fs s = None then [] else [FsClose ()])
       @ (if l_target s = None then [] else [GeometryDestroy ()])
       @ (if l_device s = None then [] else (if u then [DeviceClose ()] else []) @ [DeviceDestroy ()])"
    and u: "open_count_law p \<Longrightarrow> u = (0 < ped_open_count p (fg_world s))"
    using run_cleanup_trace [of p s] by blast
  have s': "fg_trace s' = fg_trace s @ v" using assms(2) run by auto
  have "fs_balance v = - held (l_fs s) - held (l_verified s)" "geometry_balance v = - held (l_target s)"
    "device_balance v = - held (l_device s)" "disk_balance v = 0"
    "open_balance v = (if l_device s \<noteq> None \<and> u then - 1 else 0)"
    unfolding balance_calls [of v, symmetric] v by (simp_all add: held_def)
  note b = this
  show "fs_balance (fg_trace s') = 0 \<and> geometry_balance (fg_trace s') = 0
        \<and> device_balance (fg_trace s') = 0 \<and> disk_balance (fg_trace s') = 0"
    using assms(1) b(1-4) by (simp add: s' handles_ok_def)
  show "open_count_law p \<Longrightarrow> open_ok p s \<Longrightarrow> open_balance (fg_trace s') = 0"
    using b(5) u by (auto simp: s' open_ok_def split: if_splits)
qed

lemmas phase_handles = run_open_handles run_probe_handles run_resize_handles run_restore_handles
  run_verify_handles

lemma run_body_handles:
  "valid (\<lambda>s. handles_ok s \<and> l_device s = None \<and> l_target s = None \<and> l_fs s = None \<and> l_verified s = None)
     (run_body p path b h) (\<lambda>r s. handles_ok s)"
  unfolding run_body_def
  by (rule valid_continue valid_case_prod phase_handles [THEN valid_weaken] | auto split: sum.splits)+

section \<open>The trace of a run, phase by phase\<close>

fun sector_write :: "fg_event \<Rightarrow> bool" where
  "sector_write (GeometryWrite _ _ _) = True" | "sector_write _ = False"

fun mutating :: "fg_event \<Rightarrow> bool" where
  "mutating (FsResize _) = True"
| "mutating e = sector_write e"

definition clean :: "fg_event list \<Rightarrow> bool" where
  "clean t \<longleftrightarrow> list_all (\<lambda>e. \<not> mutating e) t"

definition no_write :: "fg_event list \<Rightarrow> bool" where
  "no_write t \<longleftrightarrow> list_all (\<lambda>e. \<not> sector_write e) t"

lemma clean_simps [simp]: "clean []" "clean (t @ u) \<longleftrightarrow> clean t \<and> clean u" "clean (e # t) \<longleftrightarrow> \<not> mutating e \<and> clean t"
  by (auto simp: clean_def)

lemma no_write_simps [simp]: "no_write []" "no_write (t @ u) \<longleftrightarrow> no_write t \<and> no_write u" "no_write (e # t) \<longleftrightarrow> \<not> sector_write e \<and> no_write t"
  by (auto simp: no_write_def)

lemma refusals_clean [simp]: "refusals xs \<Longrightarrow> clean xs" "refusals xs \<Longrightarrow> no_write xs"
  by (induction xs) (auto elim: is_refused.elims)

lemma calls_clean: "clean (calls t) = clean t"
  by (induction t) (auto elim: is_refused.elims)

text \<open>
  What each phase leaves in the trace when it goes on.  \<open>opened\<close>: a device with 512-byte sectors was obtained and
  opened, and where the input is a file, libparted found no partition table in it.
\<close>

definition opened :: "bool \<Rightarrow> ped_device \<Rightarrow> fg_event list \<Rightarrow> bool" where
  "opened is_block dv t \<longleftrightarrow> sector_size dv = 512 \<and>
     (if is_block then calls t = [DeviceGet (Some dv), DeviceOpen True]
      else calls t = [DeviceGet (Some dv), DeviceOpen True, DiskNew None]
        \<or> calls t = [DeviceGet (Some dv), DeviceOpen True, DiskNew (Some (Some ''loop'')), DiskDestroy ()])"

text \<open>
  \<open>found\<close>: over the whole device a valid boot sector and, with no exception refused, a FAT file system \<open>f\<close>;
  \<open>grow_checked\<close>: that file system is shorter than the device, and if it is a FAT32 its backup boot sector
  lies in the reserved sectors and in the device, is valid and equal to the boot sector.
\<close>

definition found :: "ped_device \<Rightarrow> int \<Rightarrow> bytes \<Rightarrow> ped_fs \<Rightarrow> string \<Rightarrow> fg_event list \<Rightarrow> bool" where
  "found dv len before f name t \<longleftrightarrow> (\<exists>t1. t = t1 @ [GeometryRead 0 (Some before), FsOpen (Some f)]
     \<and> calls t1 = [GeometryNew 0 (dev_length dv) (Some len)] \<and> validate_boot_sector before
     \<and> fs_type f = Some (Some name) \<and> name \<in> {''fat16'', ''fat32''})"

definition backup_checked :: "ped_device \<Rightarrow> bytes \<Rightarrow> bytes \<Rightarrow> fg_event list \<Rightarrow> bool" where
  "backup_checked dv before backup t \<longleftrightarrow> (let n = get_le16 before FAT32_BPB_BACKUP_BOOT in
     calls t = [GeometryRead (uint n) (Some backup)] \<and> n \<noteq> 0 \<and> n < get_le16 before 14 \<and> uint n < dev_length dv
     \<and> validate_boot_sector backup \<and> slice 0 512 backup = slice 0 512 before)"

definition grow_checked :: "ped_device \<Rightarrow> u32 option \<Rightarrow> int \<Rightarrow> fg_probe \<Rightarrow> fg_event list \<Rightarrow> bool" where
  "grow_checked dv hidden len pb t \<longleftrightarrow> (\<exists>f t1 t2. t = t1 @ t2 \<and> found dv len (pb_before pb) f (pb_name pb) t1 \<and> fs_length f < len
     \<and> pb_hidden pb = (case hidden of Some h \<Rightarrow> h | None \<Rightarrow> get_le32 (pb_before pb) FAT_BPB_HIDDEN_SECTORS)
     \<and> (pb_fat32 pb \<longleftrightarrow> pb_name pb = ''fat32'')
     \<and> (if pb_fat32 pb then backup_checked dv (pb_before pb) (pb_backup pb) t2 else t2 = []))"

text \<open>
  \<open>resized_ok\<close>: libparted resized the file system with no exception refused, and the new boot sector was read; a
  FAT32 still names a backup sector in the reserved sectors and in the device.
\<close>

definition resized_ok :: "ped_device \<Rightarrow> fg_probe \<Rightarrow> bytes \<Rightarrow> u16 \<Rightarrow> fg_event list \<Rightarrow> bool" where
  "resized_ok dv pb resized n t \<longleftrightarrow> (\<exists>t1. t = FsResize True # t1 \<and> calls t1 = [GeometryRead 0 (Some resized)]
     \<and> (if pb_fat32 pb then n = get_le16 resized FAT32_BPB_BACKUP_BOOT \<and> n \<noteq> 0 \<and> n < get_le16 resized 14 \<and> uint n < dev_length dv
        else n = 0))"

text \<open>
  \<open>restored_ok\<close>: the merged boot sector was written, for a FAT32 the merged backup too, both flushed and read
  back with the old identity.  \<open>verified_ok\<close>: libparted, with no exception refused, finds a file system of the
  same type that fills the device.
\<close>

definition restored_ok :: "fg_probe \<Rightarrow> bytes \<Rightarrow> u16 \<Rightarrow> fg_event list \<Rightarrow> bool" where
  "restored_ok pb resized n t \<longleftrightarrow> (\<exists>after.
     let merged = merge_boot_sector (pb_before pb) resized (pb_fat32 pb) (pb_hidden pb) in
     boot_identity_matches (pb_before pb) after (pb_fat32 pb) (pb_hidden pb) \<and>
     (if \<not> pb_fat32 pb then calls t = [GeometryWrite merged 0 True, GeometrySync True, GeometryRead 0 (Some after)]
      else \<exists>backup. let backup_merged = merge_boot_sector (pb_backup pb) resized True (pb_hidden pb) in
        calls t = [GeometryWrite merged 0 True, GeometryWrite backup_merged (uint n) True, GeometrySync True,
          GeometryRead 0 (Some after), GeometryRead (uint n) (Some backup)]
        \<and> slice 0 512 backup = slice 0 512 backup_merged \<and> boot_identity_matches (pb_backup pb) backup True (pb_hidden pb)
        \<and> boot_geometry_matches merged backup))"

definition verified_ok :: "fg_probe \<Rightarrow> int \<Rightarrow> fg_event list \<Rightarrow> bool" where
  "verified_ok pb len t \<longleftrightarrow> (\<exists>v t1. t = t1 @ [FsClose (), FsOpen (Some v)] \<and> calls t1 = []
     \<and> fs_type v = Some (Some (pb_name pb)) \<and> fs_length v = len)"

lemma run_open_trace:
  "valid (\<lambda>s. fg_trace s = T) (run_open p path b)
     (\<lambda>r s. \<exists>t. fg_trace s = T @ t \<and> clean t \<and> (case r of Inl e \<Rightarrow> e = Exit 1 | Inr dv \<Rightarrow> opened b dv t))"
  unfolding run_open_def run_disk_check_def opened_def
  by (rule valid_pre, (rule hoare)+) (auto split: option.splits)

lemma memcmp_slice: "\<not> memcmp_at a b 0 FAT_BOOT_SECTOR_SIZE \<longleftrightarrow> slice 0 512 b = slice 0 512 a"
  by (auto simp: memcmp_at_def fat_offsets)

lemma run_backup_trace:
  "valid (\<lambda>s. fg_trace s = T \<and> l_target s = L) (run_backup p dv before)
     (\<lambda>r s. l_target s = L \<and> (\<exists>t. fg_trace s = T @ t \<and> clean t \<and> (\<forall>b. r = Some b \<longrightarrow> backup_checked dv before b t)))"
  unfolding run_backup_def backup_checked_def Let_def
  by (rule valid_pre, (rule hoare)+) (auto simp: memcmp_slice not_le split: option.splits)

definition already_full :: "ped_device \<Rightarrow> int \<Rightarrow> fg_event list \<Rightarrow> bool" where
  "already_full dv len t \<longleftrightarrow> (\<exists>before f name. found dv len before f name t \<and> fs_length f = len)"

lemma found_clean: "found dv len before f name t \<Longrightarrow> clean t"
proof -
  assume "found dv len before f name t"
  then obtain t1 where t: "t = t1 @ [GeometryRead 0 (Some before), FsOpen (Some f)]" "calls t1 = [GeometryNew 0 (dev_length dv) (Some len)]"
    by (auto simp: found_def)
  then have "clean (calls t1)" by simp
  then show ?thesis by (simp add: t(1) calls_clean)
qed

text \<open>The last part of the probe, once the file system is known.\<close>

lemma run_probe_trace:
  "valid (\<lambda>s. fg_trace s = T) (run_probe p dv h)
     (\<lambda>r s. \<exists>t. fg_trace s = T @ t \<and> clean t \<and> (case r of Inl e \<Rightarrow> e = Exit 1 \<or> e = Exit 0 \<and> (\<exists>len. already_full dv len t)
        | Inr pb \<Rightarrow> \<exists>len. l_target s = Some len \<and> grow_checked dv h len pb t))"
proof -
  have b: "valid (\<lambda>s. name = ''fat32'' \<and> (\<exists>f t1 len. fg_trace s = T @ t1 \<and> l_target s = Some len \<and> found dv len before f ''fat32'' t1 \<and> fs_length f < len))
     (do { b \<leftarrow> run_backup p dv before;
           State_Monad.return (case b of None \<Rightarrow> Inl (Exit 1)
             | Some backup_before \<Rightarrow> Inr \<lparr>pb_before = before,
                 pb_hidden = (case h of Some h \<Rightarrow> h | None \<Rightarrow> get_le32 before FAT_BPB_HIDDEN_SECTORS),
                 pb_fat32 = True, pb_name = name, pb_backup = backup_before\<rparr>) })
     (\<lambda>r s. \<exists>t. fg_trace s = T @ t \<and> clean t \<and> (case r of Inl e \<Rightarrow> e = Exit 1 \<or> e = Exit 0 \<and> (\<exists>len. already_full dv len t)
        | Inr pb \<Rightarrow> \<exists>len. l_target s = Some len \<and> grow_checked dv h len pb t))" (is "valid _ ?m _") for before name
  proof (rule valid_runI)
    fix s :: "'a fg_state" and r s' assume "name = ''fat32'' \<and> (\<exists>f t1 len. fg_trace s = T @ t1 \<and> l_target s = Some len \<and> found dv len before f ''fat32'' t1 \<and> fs_length f < len)"
    then obtain f t1 len where s: "fg_trace s = T @ t1" "l_target s = Some len" "found dv len before f ''fat32'' t1" "fs_length f < len" and n: "name = ''fat32''" by blast
    assume run: "run_state ?m s = (r, s')"
    obtain b where b: "run_state (run_backup p dv before) s = (b, s')" using run by (auto simp: split_beta prod_eq_iff)
    obtain t2 where t2: "fg_trace s' = (T @ t1) @ t2" "clean t2" "\<forall>x. b = Some x \<longrightarrow> backup_checked dv before x t2"
      and l: "l_target s' = Some len"
      using validD [OF run_backup_trace conjI [OF s(1,2)] b] by blast
    show "\<exists>t. fg_trace s' = T @ t \<and> clean t \<and> (case r of Inl e \<Rightarrow> e = Exit 1 \<or> e = Exit 0 \<and> (\<exists>len. already_full dv len t)
        | Inr pb \<Rightarrow> \<exists>len. l_target s' = Some len \<and> grow_checked dv h len pb t)"
      using run b t2 l n s(3,4) found_clean [OF s(3)]
      by (intro exI [of _ "t1 @ t2"]) (auto simp: grow_checked_def split: option.splits, blast+)
  qed
  have f: "found dv len before f name (xs @ GeometryNew 0 (dev_length dv) (Some len) # ys @ [GeometryRead 0 (Some before), FsOpen (Some f)])"
    if "refusals xs" "refusals ys" "validate_boot_sector before" "fs_type f = Some (Some name)" "name \<in> {''fat16'', ''fat32''}" for xs ys f len before name
    unfolding found_def by (rule exI [of _ "xs @ GeometryNew 0 (dev_length dv) (Some len) # ys"]) (use that in auto)
  show ?thesis
    unfolding run_probe_def Let_def
    by (rule valid_pre, (rule b hoare)+)
      (auto simp: already_full_def grow_checked_def split: option.splits intro: f)
qed

lemma run_resize_trace:
  "valid (\<lambda>s. fg_trace s = T \<and> l_target s = Some len) (run_resize p dv pb)
     (\<lambda>r s. l_target s = Some len \<and> (\<exists>t. fg_trace s = T @ t \<and> no_write t
        \<and> (case r of Inl e \<Rightarrow> e = Exit 1 | Inr (resized, n) \<Rightarrow> resized_ok dv pb resized n t)))"
  unfolding run_resize_def resized_ok_def Let_def
  by (rule valid_pre, (rule hoare)+) (auto simp: not_le split: option.splits)

lemma run_restore_trace:
  "valid (\<lambda>s. fg_trace s = T \<and> l_target s = Some len) (run_restore p pb resized n)
     (\<lambda>r s. l_target s = Some len \<and> (\<exists>t. fg_trace s = T @ t
        \<and> (case r of Inl e \<Rightarrow> e = Exit 1 | Inr _ \<Rightarrow> restored_ok pb resized n t)))"
  unfolding run_restore_def run_write_def run_readback_def restored_ok_def Let_def
  by (rule valid_pre, (rule hoare)+) (auto simp: memcmp_slice split: option.splits)

lemma verify_exit_0:
  "verify_exit pb target seen verified = Exit 0 \<Longrightarrow>
   \<exists>v len. verified = Some v \<and> target = Some len \<and> \<not> seen \<and> fs_type v = Some (Some (pb_name pb)) \<and> fs_length v = len"
  by (auto simp: verify_exit_def split: option.splits if_splits)

lemma run_verify_trace:
  "valid (\<lambda>s. fg_trace s = T \<and> l_target s = Some len) (run_verify p pb)
     (\<lambda>r s. \<exists>t. fg_trace s = T @ t \<and> (r = Exit 0 \<longrightarrow> verified_ok pb len t))"
  unfolding run_verify_def verified_ok_def
  by (rule valid_pre, (rule hoare)+) (auto dest!: verify_exit_0)

text \<open>
  The trace of the body by how far it came: stopped by a check; found nothing to do; stopped by the resize; and
  beyond.
\<close>

definition after_resize :: "int \<Rightarrow> fg_probe \<Rightarrow> bytes \<Rightarrow> u16 \<Rightarrow> exit \<Rightarrow> fg_event list \<Rightarrow> bool" where
  "after_resize len pb resized n r t \<longleftrightarrow> r = Exit 1
     \<or> (\<exists>t1 t2. t = t1 @ t2 \<and> restored_ok pb resized n t1 \<and> (r = Exit 0 \<longrightarrow> verified_ok pb len t2))"

definition after_checks :: "ped_device \<Rightarrow> int \<Rightarrow> fg_probe \<Rightarrow> exit \<Rightarrow> fg_event list \<Rightarrow> bool" where
  "after_checks dv len pb r t \<longleftrightarrow> r = Exit 1 \<and> no_write t
     \<or> (\<exists>resized n t1 t2. t = t1 @ t2 \<and> no_write t1 \<and> resized_ok dv pb resized n t1 \<and> after_resize len pb resized n r t2)"

definition body_trace :: "bool \<Rightarrow> u32 option \<Rightarrow> exit \<Rightarrow> fg_event list \<Rightarrow> bool" where
  "body_trace is_block hidden r t \<longleftrightarrow> r = Exit 1 \<and> clean t
     \<or> (r = Exit 0 \<and> clean t \<and> (\<exists>dv len t1 t2. t = t1 @ t2 \<and> opened is_block dv t1 \<and> already_full dv len t2))
     \<or> (\<exists>dv len pb t1 t2 u. t = t1 @ t2 @ u \<and> clean (t1 @ t2) \<and> opened is_block dv t1
          \<and> grow_checked dv hidden len pb t2 \<and> after_checks dv len pb r u)"

lemma restore_verify_trace:
  "valid (\<lambda>s. fg_trace s = T \<and> l_target s = Some len) (continue_with (run_restore p pb rz n) (\<lambda>_. run_verify p pb))
     (\<lambda>r s. \<exists>t. fg_trace s = T @ t \<and> after_resize len pb rz n r t)"
proof (rule valid_continue)
  let ?R = "\<lambda>s. l_target s = Some len \<and> (\<exists>t1. fg_trace s = T @ t1 \<and> restored_ok pb rz n t1)"
  show "valid ?R (run_verify p pb) (\<lambda>r s. \<exists>t. fg_trace s = T @ t \<and> after_resize len pb rz n r t)"
  proof (rule valid_runI)
    fix s r s' assume s: "?R s" and run: "run_state (run_verify p pb) s = (r, s')"
    then obtain t1 where t1: "fg_trace s = T @ t1" "restored_ok pb rz n t1" by blast
    obtain t2 where "fg_trace s' = (T @ t1) @ t2" "r = Exit 0 \<longrightarrow> verified_ok pb len t2"
      using validD [OF run_verify_trace conjI [OF t1(1)] run] s by blast
    then show "\<exists>t. fg_trace s' = T @ t \<and> after_resize len pb rz n r t"
      using t1(2) by (intro exI [of _ "t1 @ t2"]) (auto simp: after_resize_def)
  qed
  show "valid (\<lambda>s. fg_trace s = T \<and> l_target s = Some len) (run_restore p pb rz n)
    (\<lambda>r s. case r of Inl e \<Rightarrow> \<exists>t. fg_trace s = T @ t \<and> after_resize len pb rz n e t | Inr x \<Rightarrow> ?R s)"
    by (rule valid_weaken [OF run_restore_trace]) (auto simp: after_resize_def split: sum.splits)
qed

lemma resize_on_trace:
  "valid (\<lambda>s. fg_trace s = T \<and> l_target s = Some len) (continue_with (run_resize p dv pb)
      (\<lambda>(rz, n). continue_with (run_restore p pb rz n) (\<lambda>_. run_verify p pb)))
     (\<lambda>r s. \<exists>t. fg_trace s = T @ t \<and> after_checks dv len pb r t)"
proof (rule valid_continue)
  let ?R = "\<lambda>x s. l_target s = Some len \<and> (\<exists>t1. fg_trace s = T @ t1 \<and> no_write t1 \<and> resized_ok dv pb (fst x) (snd x) t1)"
  show "valid (?R x) (case x of (rz, n) \<Rightarrow> continue_with (run_restore p pb rz n) (\<lambda>_. run_verify p pb))
    (\<lambda>r s. \<exists>t. fg_trace s = T @ t \<and> after_checks dv len pb r t)" for x
  proof (rule valid_runI)
    fix s r s' assume s: "?R x s" and run: "run_state (case x of (rz, n) \<Rightarrow> continue_with (run_restore p pb rz n) (\<lambda>_. run_verify p pb)) s = (r, s')"
    obtain rz n where x: "x = (rz, n)" by (cases x)
    obtain t1 where t1: "fg_trace s = T @ t1" "no_write t1" "resized_ok dv pb rz n t1" using s x by auto
    obtain t2 where "fg_trace s' = (T @ t1) @ t2" "after_resize len pb rz n r t2"
      using validD [OF restore_verify_trace conjI [OF t1(1)], of len p pb rz n r s'] s run x by auto
    then show "\<exists>t. fg_trace s' = T @ t \<and> after_checks dv len pb r t"
      using t1(2,3) by (intro exI [of _ "t1 @ t2"]) (auto simp: after_checks_def)
  qed
  show "valid (\<lambda>s. fg_trace s = T \<and> l_target s = Some len) (run_resize p dv pb)
    (\<lambda>r s. case r of Inl e \<Rightarrow> \<exists>t. fg_trace s = T @ t \<and> after_checks dv len pb e t | Inr x \<Rightarrow> ?R x s)"
    by (rule valid_weaken [OF run_resize_trace]) (auto simp: after_checks_def split: sum.splits)
qed

lemma probe_on_trace:
  assumes "opened b dv t1" "clean t1"
  shows "valid (\<lambda>s. fg_trace s = t1) (continue_with (run_probe p dv h) (\<lambda>pb. continue_with (run_resize p dv pb)
      (\<lambda>(rz, n). continue_with (run_restore p pb rz n) (\<lambda>_. run_verify p pb)))) (\<lambda>r s. body_trace b h r (fg_trace s))"
proof (rule valid_continue)
  let ?R = "\<lambda>pb s. \<exists>len t2. fg_trace s = t1 @ t2 \<and> l_target s = Some len \<and> clean t2 \<and> grow_checked dv h len pb t2"
  show "valid (?R pb) (continue_with (run_resize p dv pb)
      (\<lambda>(rz, n). continue_with (run_restore p pb rz n) (\<lambda>_. run_verify p pb))) (\<lambda>r s. body_trace b h r (fg_trace s))" for pb
  proof (rule valid_runI)
    fix s r s' assume s: "?R pb s" and run: "run_state (continue_with (run_resize p dv pb)
      (\<lambda>(rz, n). continue_with (run_restore p pb rz n) (\<lambda>_. run_verify p pb))) s = (r, s')"
    then obtain len t2 where t2: "fg_trace s = t1 @ t2" "l_target s = Some len" "clean t2" "grow_checked dv h len pb t2" by blast
    obtain u where "fg_trace s' = (t1 @ t2) @ u" "after_checks dv len pb r u"
      using validD [OF resize_on_trace conjI [OF t2(1,2)] run] by blast
    then show "body_trace b h r (fg_trace s')" using t2(3,4) assms unfolding body_trace_def append_assoc clean_simps by blast
  qed
  show "valid (\<lambda>s. fg_trace s = t1) (run_probe p dv h)
    (\<lambda>r s. case r of Inl e \<Rightarrow> body_trace b h e (fg_trace s) | Inr pb \<Rightarrow> ?R pb s)"
    by (rule valid_weaken [OF run_probe_trace]) (use assms in \<open>auto simp: body_trace_def split: sum.splits\<close>)
qed

lemma run_body_trace:
  "valid (\<lambda>s. fg_trace s = []) (run_body p path b h) (\<lambda>r s. body_trace b h r (fg_trace s))"
  unfolding run_body_def
proof (rule valid_continue)
  let ?R = "\<lambda>dv s. \<exists>t1. fg_trace s = t1 \<and> clean t1 \<and> opened b dv t1"
  show "valid (?R dv) (continue_with (run_probe p dv h) (\<lambda>pb. continue_with (run_resize p dv pb)
      (\<lambda>(rz, n). continue_with (run_restore p pb rz n) (\<lambda>_. run_verify p pb)))) (\<lambda>r s. body_trace b h r (fg_trace s))" for dv
    by (rule valid_runI) (use validD [OF probe_on_trace] in blast)
  show "valid (\<lambda>s. fg_trace s = []) (run_open p path b)
    (\<lambda>r s. case r of Inl e \<Rightarrow> body_trace b h e (fg_trace s) | Inr dv \<Rightarrow> ?R dv s)"
    by (rule valid_weaken [OF run_open_trace]) (auto simp: body_trace_def split: sum.splits)
qed

text \<open>The inputs that are not refused at once, and where the hidden-sector count comes from.\<close>

definition allowed_input :: "'d parted \<Rightarrow> 'd \<Rightarrow> stat_buf \<Rightarrow> u32 option \<Rightarrow> bool" where
  "allowed_input p d st hidden \<longleftrightarrow> st_mode st = S_IFREG \<and> hidden = None
     \<or> st_mode st = S_IFBLK \<and> is_linux_partition p d st \<and> \<not> is_mounted p d st
       \<and> (\<exists>h. read_partition_start p d st = Some h \<and> hidden = Some h)"

lemma run_precheck_allowed: "run_precheck p d st = Some h \<Longrightarrow> allowed_input p d st h"
  by (cases "read_partition_start p d st") (auto simp: run_precheck_def allowed_input_def split: if_splits)

text \<open>The shape of a run: refused by the first checks, or body and exit path.\<close>

lemma run_cases:
  assumes "run_state (run p path) s0 = (r, s)"
  obtains (refused) "r = Exit 1" "s = s0"
  | (ran) st hidden s1 v where "os_stat p (fg_world s0) path = Some st" "allowed_input p (fg_world s0) st hidden"
      "run_state (run_body p path (st_mode st = S_IFBLK) hidden) s0 = (r, s1)"
      "run_state (run_cleanup p) s1 = ((), s)" "fg_trace s = fg_trace s1 @ v" "clean v"
proof (cases "os_stat p (fg_world s0) path")
  case None
  with assms refused show thesis by (simp add: run_def)
next
  case st: (Some st)
  show thesis
  proof (cases "run_precheck p (fg_world s0) st")
    case None
    with assms st refused show thesis by (simp add: run_def)
  next
    case h: (Some hidden)
    obtain r1 s1 where b: "run_state (run_body p path (st_mode st = S_IFBLK) hidden) s0 = (r1, s1)"
      by fastforce
    obtain d' e v where c: "run_state (run_cleanup p) s1 =
       ((), s1\<lparr>fg_world := d', exception_seen := e, fg_trace := fg_trace s1 @ v\<rparr>)" "clean (calls v)"
      using run_cleanup_trace [of p s1] by (elim exE conjE) simp
    from assms st h b c have "r = r1" "s = s1\<lparr>fg_world := d', exception_seen := e, fg_trace := fg_trace s1 @ v\<rparr>"
      by (simp_all add: run_def)
    with st run_precheck_allowed [OF h] b c show thesis by (intro ran [of st hidden s1 v]) (auto simp: calls_clean)
  qed
qed

lemma run_trace:
  assumes "run_state (run p path) (init_state d) = (r, s)"
  obtains (refused) "r = Exit 1" "fg_trace s = []"
  | (ran) st hidden t v where "os_stat p d path = Some st" "allowed_input p d st hidden"
      "body_trace (st_mode st = S_IFBLK) hidden r t" "fg_trace s = t @ v" "clean v"
  using assms
proof (cases rule: run_cases)
  case (ran st hidden s1 v)
  then show thesis using validD [OF run_body_trace _ ran(3)] that(2) by (simp add: init_state_def)
qed (use that(1) in \<open>simp add: init_state_def\<close>)

lemma clean_no_mutation: "clean t \<Longrightarrow> e \<in> set t \<Longrightarrow> \<not> mutating e"
  by (simp add: clean_def list_all_iff)

lemma write_mutates: "sector_write e \<Longrightarrow> mutating e"
  by (cases e) auto

text \<open>Property C1. Every change to the disk (the libparted resize, a sector write) comes
  after all refusals have been passed.  The input is a regular file, or an unmounted Linux partition whose
  start the kernel reports.  Before the first change the trace has, in this order and with no other calls: the
  device, with 512-byte sectors, opened; for a file, no partition table found; a valid boot sector; a FAT16 or
  FAT32 file system, opened without an exception, strictly shorter than the device; for FAT32, a valid
  backup boot sector within the reserved sectors, equal to the boot sector.  A sector write moreover comes after
  libparted has resized without a refused exception and the new boot sector has a usable place for the backup.\<close>

theorem run_changes_only_after_checks:
  assumes run: "run_state (run p path) (init_state d) = (r, s)"
    and ev: "ev \<in> set (fg_trace s)" "mutating ev"
  shows "\<exists>st hidden dv len pb t1 t2 u. os_stat p d path = Some st \<and> allowed_input p d st hidden
     \<and> fg_trace s = t1 @ t2 @ u \<and> clean (t1 @ t2) \<and> opened (st_mode st = S_IFBLK) dv t1 \<and> grow_checked dv hidden len pb t2
     \<and> (sector_write ev \<longrightarrow> (\<exists>resized n u1 u2. u = u1 @ u2 \<and> no_write u1 \<and> resized_ok dv pb resized n u1))"
  using run
proof (cases rule: run_trace)
  case refused
  with ev show ?thesis by simp
next
  case (ran st hidden t v)
  have ev_t: "ev \<in> set t" using ev ran(4,5) clean_no_mutation by auto
  then have "\<not> clean t" using ev(2) clean_no_mutation by blast
  then obtain dv len pb t1 t2 u where b: "t = t1 @ t2 @ u" "clean (t1 @ t2)" "opened (st_mode st = S_IFBLK) dv t1"
      "grow_checked dv hidden len pb t2" "after_checks dv len pb r u"
    using ran(3) unfolding body_trace_def by blast
  have "\<exists>resized n u1 u2. u @ v = u1 @ u2 \<and> no_write u1 \<and> resized_ok dv pb resized n u1" if w: "sector_write ev"
  proof -
    have "ev \<notin> set (t1 @ t2)" using b(2) ev(2) clean_no_mutation by blast
    then have "\<not> no_write u" using ev_t b(1) w by (auto simp: no_write_def list_all_iff)
    then show ?thesis using b(5) unfolding after_checks_def by (metis append_assoc)
  qed
  then show ?thesis using ran b
    by (intro exI [of _ st] exI [of _ hidden] exI [of _ dv] exI [of _ len] exI [of _ pb] exI [of _ t1] exI [of _ t2] exI [of _ "u @ v"]) simp
qed


text \<open>Property C2. Exit status 0 means one of two things.  Nothing was changed, and the checks before the
  growing have found a FAT file system that fills the device.  Or all checks have passed, and then, in this
  order and with no other calls: libparted resized without a refused exception; the merged boot sector, and
  for FAT32 the merged backup, were written and flushed; both were read back with the identity bytes of the sectors found
  before; and libparted, without a refused exception, found a file system of the same FAT type whose length is
  that of the device.\<close>

theorem run_success:
  assumes run: "run_state (run p path) (init_state d) = (Exit 0, s)"
  shows "\<exists>st hidden dv len t1 t2 v. os_stat p d path = Some st \<and> allowed_input p d st hidden \<and> opened (st_mode st = S_IFBLK) dv t1 \<and> clean v
    \<and> (fg_trace s = t1 @ t2 @ v \<and> clean (fg_trace s) \<and> already_full dv len t2
       \<or> (\<exists>pb resized n u1 u2 u3. fg_trace s = t1 @ t2 @ u1 @ u2 @ u3 @ v \<and> clean (t1 @ t2) \<and> grow_checked dv hidden len pb t2
            \<and> resized_ok dv pb resized n u1 \<and> restored_ok pb resized n u2 \<and> verified_ok pb len u3))"
  using run
proof (cases rule: run_trace)
  case refused
  then show ?thesis by simp
next
  case (ran st hidden t v)
  from ran(3) consider (full) dv len t1 t2 where "clean t" "t = t1 @ t2" "opened (st_mode st = S_IFBLK) dv t1" "already_full dv len t2"
    | (grown) dv len pb t1 t2 u where "t = t1 @ t2 @ u" "clean (t1 @ t2)" "opened (st_mode st = S_IFBLK) dv t1"
      "grow_checked dv hidden len pb t2" "after_checks dv len pb (Exit 0) u"
    unfolding body_trace_def by auto
  then show ?thesis
  proof cases
    case full
    then show ?thesis using ran
      by (intro exI [of _ st] exI [of _ hidden] exI [of _ dv] exI [of _ len] exI [of _ t1] exI [of _ t2] exI [of _ v]) auto
  next
    case grown
    then obtain resized n u1 u2 u3 where "u = u1 @ u2 @ u3" "resized_ok dv pb resized n u1" "restored_ok pb resized n u2" "verified_ok pb len u3"
      unfolding after_checks_def after_resize_def by auto
    then have "fg_trace s = t1 @ t2 @ u1 @ u2 @ u3 @ v \<and> clean (t1 @ t2) \<and> grow_checked dv hidden len pb t2
            \<and> resized_ok dv pb resized n u1 \<and> restored_ok pb resized n u2 \<and> verified_ok pb len u3"
      using grown ran by simp
    then show ?thesis using ran grown(3) by blast
  qed
qed

section \<open>The questions libparted asks during a call\<close>

primrec asked :: "('a \<times> 'd) ped_call \<Rightarrow> 'd fg_state \<Rightarrow> (ped_exception \<times> ped_option) list" where
  "asked (Ret r) s = []"
| "asked (Raise e k) s = (e, fst (cancel_exception e s)) # asked (k (fst (cancel_exception e s))) (snd (cancel_exception e s))"

definition type_question :: "ped_exception \<Rightarrow> bool" where
  "type_question e \<longleftrightarrow> exn_type e = PED_EXCEPTION_INFORMATION \<and> exn_options e = PED_EXCEPTION_YES_NO_CANCEL"

lemma cancel_exception_answer:
  "fst (cancel_exception e s) =
     (if allow_same_type_choice s \<and> type_question e then same_type_choice s else PED_EXCEPTION_CANCEL)"
  by (simp add: cancel_exception_def type_question_def)

lemma cancel_exception_seen:
  "exception_seen (snd (cancel_exception e s)) \<longleftrightarrow>
     exception_seen s \<or> \<not> (allow_same_type_choice s \<and> type_question e)"
  by (auto simp: cancel_exception_def type_question_def)

lemma cancel_exception_same [simp]:
  "allow_same_type_choice (snd (cancel_exception e s)) = allow_same_type_choice s"
  "same_type_choice (snd (cancel_exception e s)) = same_type_choice s"
  by (simp_all add: cancel_exception_def)

text \<open>The flag ends up set exactly when something other than the type question was asked.\<close>

lemma ped_run_seen:
  "exception_seen (snd (ped_run c s)) \<longleftrightarrow> exception_seen s \<or>
     (\<exists>q \<in> set (asked c s). \<not> (allow_same_type_choice s \<and> type_question (fst q)))"
proof (induction c arbitrary: s)
  case (Ret r)
  then show ?case by simp
next
  case (Raise e k)
  show ?case
    using Raise [of "k (fst (cancel_exception e s))" "snd (cancel_exception e s)"]
    by (auto simp: cancel_exception_seen)
qed

lemma asked_answers:
  "(e, a) \<in> set (asked c s) \<Longrightarrow>
     a = (if allow_same_type_choice s \<and> type_question e then same_type_choice s else PED_EXCEPTION_CANCEL)"
proof (induction c arbitrary: s)
  case (Ret r)
  then show ?case by simp
next
  case (Raise x k)
  show ?case
    using Raise.IH [of "k (fst (cancel_exception x s))" "snd (cancel_exception x s)"] Raise.prems
    by (auto simp: cancel_exception_answer)
qed

text \<open>The state in which \<open>run_resize\<close> calls the library (lines 316-318).\<close>

definition resize_state :: "fg_probe \<Rightarrow> 'd fg_state \<Rightarrow> 'd fg_state" where
  "resize_state pb s = s\<lparr>exception_seen := False, allow_same_type_choice := True,
     same_type_choice := (if pb_fat32 pb then PED_EXCEPTION_YES else PED_EXCEPTION_NO)\<rparr>"

text \<open>Property C6. If the resize step goes on, libparted asked nothing but the choice between
  the two FAT types, and every answer kept the existing type; any other question makes the step fail.\<close>

theorem resize_keeps_fat_type:
  assumes "run_state (run_resize p dv pb) s = (Inr r, s')"
    and "(e, a) \<in> set (asked (ped_file_system_resize p (fg_world s)) (resize_state pb s))"
  shows "type_question e \<and> a = (if pb_fat32 pb then PED_EXCEPTION_YES else PED_EXCEPTION_NO)"
proof -
  let ?s = "resize_state pb s" let ?c = "ped_file_system_resize p (fg_world s)"
  have "\<not> exception_seen (snd (ped_run ?c ?s))"
    using assms(1)
    by (auto simp: run_resize_def resize_state_def call_def split: prod.splits if_splits)
  then have "\<not> (\<exists>q \<in> set (asked ?c ?s). \<not> type_question (fst q))"
    unfolding ped_run_seen by (simp add: resize_state_def)
  with assms(2) have "type_question e" by force
  with asked_answers [OF assms(2)] show ?thesis by (simp add: resize_state_def)
qed

section \<open>Boot sectors on a device that stores what is written\<close>

text \<open>
  \<open>lawful_sectors p sec\<close>: \<open>sec d n\<close> is what sector \<open>n\<close> of the device holds in world \<open>d\<close>;
  a read returns it, a write that succeeds replaces it, nothing else changes.
\<close>

definition lawful_sectors :: "'d parted \<Rightarrow> ('d \<Rightarrow> int \<Rightarrow> bytes) \<Rightarrow> bool" where
  "lawful_sectors p sec \<longleftrightarrow>
     (\<forall>d n r d'. (r, d') \<in> set_ped_call (ped_geometry_read p n d) \<longrightarrow>
        sec d' = sec d \<and> (\<forall>b. r = Some b \<longrightarrow> b = sec d n))
     \<and> (\<forall>d n b d'. (True, d') \<in> set_ped_call (ped_geometry_write p b n d) \<longrightarrow> sec d' = (sec d)(n := b))
     \<and> (\<forall>d r d'. (r, d') \<in> set_ped_call (ped_geometry_sync p d) \<longrightarrow> sec d' = sec d)"

fun io_failure :: "fg_event \<Rightarrow> bool" where
  "io_failure (GeometryRead _ None) = True"
| "io_failure (GeometryWrite _ _ False) = True"
| "io_failure (GeometrySync False) = True"
| "io_failure _ = False"

definition restored :: "fg_probe \<Rightarrow> bytes \<Rightarrow> u16 \<Rightarrow> (int \<Rightarrow> bytes) \<Rightarrow> int \<Rightarrow> bytes" where
  "restored pb resized nb sec =
     (let sec' = sec(0 := merge_boot_sector (pb_before pb) resized (pb_fat32 pb) (pb_hidden pb)) in
      if pb_fat32 pb then sec'(uint nb := merge_boot_sector (pb_backup pb) resized True (pb_hidden pb))
      else sec')"

lemma run_restore_exact_valid:
  assumes law: "lawful_sectors p sec"
    and len: "length (pb_before pb) = 512" "length resized = 512"
      "pb_fat32 pb \<Longrightarrow> length (pb_backup pb) = 512 \<and> nb \<noteq> 0"
  shows "valid (\<lambda>s. sec (fg_world s) = S0) (run_restore p pb resized nb)
    (\<lambda>r s. (r = Inr () \<and> sec (fg_world s) = restored pb resized nb S0)
        \<or> (r = Inl (Exit 1) \<and> (\<exists>e \<in> set (fg_trace s). io_failure e)))"
proof -
  have rd: "(r, d') \<in> set_ped_call (ped_geometry_read p n d) \<Longrightarrow> sec d' = sec d"
    and rdv: "(Some b, d') \<in> set_ped_call (ped_geometry_read p n d) \<Longrightarrow> b = sec d n \<and> sec d' = sec d"
    and wr: "(True, d') \<in> set_ped_call (ped_geometry_write p b n d) \<Longrightarrow> sec d' = (sec d)(n := b)"
    and sy: "(ok, d') \<in> set_ped_call (ped_geometry_sync p d) \<Longrightarrow> sec d' = sec d" for r d d' n b ok
    using law unfolding lawful_sectors_def by blast+
  show ?thesis
  proof (cases "pb_fat32 pb")
    case False
    show ?thesis
      unfolding run_restore_def run_write_def run_readback_def Let_def
      by (rule valid_pre, (rule hoare)+)
         (use False len in \<open>auto simp: restored_def merge_identity wr rd sy dest!: rdv split: option.splits\<close>)
  next
    case True
    have nb: "uint nb \<noteq> 0" using True len(3) by (simp add: uint_0_iff)
    show ?thesis
      unfolding run_restore_def run_write_def run_readback_def Let_def
      by (rule valid_pre, (rule hoare)+)
         (use True len nb in \<open>auto simp: restored_def merge_identity merge_geometry memcmp_at_def
            wr rd sy dest!: rdv split: option.splits\<close>)
  qed
qed

section \<open>Running the program on an in-memory image\<close>

record mem_image =
  im_sectors :: "int \<Rightarrow> bytes"
  im_fs_length :: int
  im_open :: int

definition mem_parted :: "string \<Rightarrow> mem_image parted" where
  "mem_parted name = \<lparr>
     os_stat = (\<lambda>d path. Some \<lparr>st_mode = S_IFREG, rdev_major = 0, rdev_minor = 0\<rparr>),
     os_fopen = (\<lambda>d path. None), os_access = (\<lambda>d path. False),
     ped_device_get = (\<lambda>path d. Ret (Some \<lparr>sector_size = 512, dev_length = 100\<rparr>, d\<lparr>im_open := 0\<rparr>)),
     ped_device_open = (\<lambda>d. Ret (True, d\<lparr>im_open := im_open d + 1\<rparr>)), ped_open_count = im_open,
     ped_device_close = (\<lambda>d. Ret ((), d\<lparr>im_open := im_open d - 1\<rparr>)), ped_device_destroy = (\<lambda>d. Ret ((), d)),
     ped_disk_new = (\<lambda>d. Ret (Some (Some ''loop''), d)), ped_disk_destroy = (\<lambda>d. Ret ((), d)),
     ped_geometry_new = (\<lambda>a n d. Ret (Some n, d)), ped_geometry_destroy = (\<lambda>d. Ret ((), d)),
     ped_geometry_read = (\<lambda>n d. Ret (Some (im_sectors d n), d)),
     ped_geometry_write = (\<lambda>b n d. Ret (True, d\<lparr>im_sectors := (im_sectors d)(n := b)\<rparr>)),
     ped_geometry_sync = (\<lambda>d. Ret (True, d)),
     ped_file_system_open = (\<lambda>d. Ret (Some \<lparr>fs_type = Some (Some name), fs_length = im_fs_length d\<rparr>, d)),
     ped_file_system_resize = (\<lambda>d. Raise \<lparr>exn_type = PED_EXCEPTION_INFORMATION,
          exn_options = PED_EXCEPTION_YES_NO_CANCEL\<rparr>
        (\<lambda>o'. Ret (o' \<noteq> PED_EXCEPTION_CANCEL, d\<lparr>im_fs_length := 100\<rparr>))),
     ped_file_system_close = (\<lambda>d. Ret ((), d))\<rparr>"

definition boot_image :: bytes where
  "boot_image = (replicate 512 0)[12 := 2, 510 := 0x55, 511 := 0xaa]"

definition mem_start :: "int \<Rightarrow> mem_image" where
  "mem_start n = \<lparr>im_sectors = (\<lambda>_. boot_image), im_fs_length = n, im_open = 0\<rparr>"

lemma length_boot_image [simp]: "length boot_image = 512"
  by (simp add: boot_image_def)

lemma validate_boot_image [simp]: "validate_boot_sector boot_image"
  by (simp add: validate_boot_sector_def get_le16_def fat_offsets boot_image_def nth_list_update)

lemma lawful_mem: "lawful_sectors (mem_parted name) im_sectors"
  by (auto simp: lawful_sectors_def mem_parted_def)

lemma open_count_mem: "open_count_law (mem_parted name)"
  by (auto simp: open_count_law_def keeps_open_count_def mem_parted_def)

lemmas fg_run_simps = run_def run_precheck_def run_body_def continue_with_def run_open_def run_disk_check_def
  run_probe_def run_resize_def run_restore_def run_write_def run_readback_def run_verify_def verify_exit_def
  run_cleanup_def when_some_def call_def init_state_def cancel_exception_def

lemma mem_run_fat16:
  "\<exists>s. run_state (run (mem_parted ''fat16'') ''/dev/null'') (init_state (mem_start 50)) = (Exit 0, s)
     \<and> FsResize True \<in> set (fg_trace s)"
  by (simp add: fg_run_simps mem_parted_def mem_start_def Let_def merge_identity)

text \<open>Property C4. On a device that stores what is written, the restore step either leaves exactly the
  merged boot sector in sector 0 (and the merged backup in the new backup sector) with every other
  sector as it was, and succeeds, or it fails because a read, a write or the flush failed: the
  verification never rejects sectors the program itself wrote.\<close>

theorem restore_exact:
  assumes "lawful_sectors p sec"
    and "length (pb_before pb) = 512" "length resized = 512"
    and "pb_fat32 pb \<Longrightarrow> length (pb_backup pb) = 512 \<and> nb \<noteq> 0"
    and "\<not> (\<exists>e \<in> set (fg_trace s). io_failure e)"
    and "run_state (run_restore p pb resized nb) s = (r, s')"
  shows "(r = Inr () \<and> sec (fg_world s') = restored pb resized nb (sec (fg_world s)))
    \<or> (r = Inl (Exit 1) \<and> (\<exists>e \<in> set (fg_trace s'). io_failure e))"
  using validD [OF run_restore_exact_valid [OF assms(1-4)] _ assms(6)] by simp

section \<open>Instances\<close>

theorem merge_boot_sector_exact_witness:
  "length boot_image = 512 \<and> length (merge_boot_sector boot_image boot_image True 7) = 512
    \<and> get_le32 (merge_boot_sector boot_image boot_image True 7) 28 = 7"
  using merge_boot_sector_exact [of boot_image boot_image True 7] by simp

theorem run_changes_only_after_checks_witness:
  "\<exists>s dv len pb t1 t2 u. run_state (run (mem_parted ''fat16'') ''/dev/null'') (init_state (mem_start 50)) = (Exit 0, s)
     \<and> fg_trace s = t1 @ t2 @ u \<and> clean (t1 @ t2) \<and> opened False dv t1 \<and> grow_checked dv None len pb t2"
proof -
  obtain s where s: "run_state (run (mem_parted ''fat16'') ''/dev/null'') (init_state (mem_start 50)) = (Exit 0, s)"
    and ev: "FsResize True \<in> set (fg_trace s)" using mem_run_fat16 by blast
  have st: "os_stat (mem_parted ''fat16'') (mem_start 50) ''/dev/null'' = Some \<lparr>st_mode = S_IFREG, rdev_major = 0, rdev_minor = 0\<rparr>"
    by (simp add: mem_parted_def)
  from run_changes_only_after_checks [OF s ev] s show ?thesis by (auto simp: st allowed_input_def)
qed

theorem run_success_witness:
  "\<exists>s dv len pb resized n t1 t2 u1 u2 u3 v. run_state (run (mem_parted ''fat16'') ''/dev/null'') (init_state (mem_start 50)) = (Exit 0, s)
     \<and> fg_trace s = t1 @ t2 @ u1 @ u2 @ u3 @ v \<and> grow_checked dv None len pb t2
     \<and> resized_ok dv pb resized n u1 \<and> restored_ok pb resized n u2 \<and> verified_ok pb len u3"
proof -
  obtain s where s: "run_state (run (mem_parted ''fat16'') ''/dev/null'') (init_state (mem_start 50)) = (Exit 0, s)"
    and ev: "FsResize True \<in> set (fg_trace s)" using mem_run_fat16 by blast
  have st: "os_stat (mem_parted ''fat16'') (mem_start 50) ''/dev/null'' = Some \<lparr>st_mode = S_IFREG, rdev_major = 0, rdev_minor = 0\<rparr>"
    by (simp add: mem_parted_def)
  have dirty: "\<not> clean (fg_trace s)" using ev clean_no_mutation by fastforce
  from run_success [OF s] dirty st obtain hidden dv len pb resized n t1 t2 u1 u2 u3 v
    where "allowed_input (mem_parted ''fat16'') (mem_start 50) \<lparr>st_mode = S_IFREG, rdev_major = 0, rdev_minor = 0\<rparr> hidden"
      "fg_trace s = t1 @ t2 @ u1 @ u2 @ u3 @ v" "grow_checked dv hidden len pb t2"
      "resized_ok dv pb resized n u1" "restored_ok pb resized n u2" "verified_ok pb len u3"
    by (elim exE conjE disjE) simp_all
  moreover from this(1) have "hidden = None" by (simp add: allowed_input_def)
  ultimately show ?thesis using s by blast
qed


definition mem_probe :: "bool \<Rightarrow> fg_probe" where
  "mem_probe is_fat32 = \<lparr>pb_before = boot_image, pb_hidden = 0, pb_fat32 = is_fat32,
     pb_name = (if is_fat32 then ''fat32'' else ''fat16''), pb_backup = boot_image\<rparr>"

lemma mem_probe_simps [simp]:
  "pb_before (mem_probe b) = boot_image" "pb_backup (mem_probe b) = boot_image"
  by (simp_all add: mem_probe_def)

theorem resize_keeps_fat_type_witness:
  "let p = mem_parted ''fat16''; s = init_state (mem_start 50); pb = mem_probe False;
       q = \<lparr>exn_type = PED_EXCEPTION_INFORMATION, exn_options = PED_EXCEPTION_YES_NO_CANCEL\<rparr>
   in (q, PED_EXCEPTION_NO) \<in> set (asked (ped_file_system_resize p (fg_world s)) (resize_state pb s))
      \<and> type_question q"
proof -
  let ?p = "mem_parted ''fat16''" let ?s = "init_state (mem_start 50)"
  let ?q = "\<lparr>exn_type = PED_EXCEPTION_INFORMATION, exn_options = PED_EXCEPTION_YES_NO_CANCEL\<rparr>"
  obtain r s' where r: "run_state (run_resize ?p \<lparr>sector_size = 512, dev_length = 100\<rparr> (mem_probe False)) ?s = (Inr r, s')"
    by (simp add: run_resize_def call_def cancel_exception_def mem_parted_def mem_start_def mem_probe_def init_state_def)
  have a: "(?q, PED_EXCEPTION_NO) \<in> set (asked (ped_file_system_resize ?p (fg_world ?s)) (resize_state (mem_probe False) ?s))"
    by (simp add: mem_parted_def cancel_exception_def resize_state_def mem_probe_def)
  from resize_keeps_fat_type [OF r a] a show ?thesis by (simp add: Let_def)
qed

theorem restore_exact_witness:
  "let s = init_state (mem_start 50); r = run_state (run_restore (mem_parted ''fat32'') (mem_probe True) boot_image 6) s
   in fst r = Inr () \<and> im_sectors (fg_world (snd r)) = restored (mem_probe True) boot_image 6 (\<lambda>_. boot_image)"
proof -
  let ?s = "init_state (mem_start 50)"
  obtain r s' where r: "run_state (run_restore (mem_parted ''fat32'') (mem_probe True) boot_image 6) ?s = (r, s')"
    by fastforce
  have ok: "\<not> (\<exists>e \<in> set (fg_trace s'). io_failure e)"
    using r by (auto simp: run_restore_def run_write_def run_readback_def call_def mem_parted_def Let_def
      mem_probe_def init_state_def mem_start_def split: if_splits)
  have start: "fg_trace ?s = []" "im_sectors (fg_world ?s) = (\<lambda>_. boot_image)"
    by (simp_all add: init_state_def mem_start_def)
  have "r = Inr () \<and> im_sectors (fg_world s') = restored (mem_probe True) boot_image 6 (\<lambda>_. boot_image)"
    using restore_exact [OF lawful_mem _ _ _ _ r] ok by (simp add: start)
  then show ?thesis by (simp add: Let_def r)
qed

end
