(* ===== verification/Hostname.thy ===== *)
theory Hostname
  imports Prelude
begin

text \<open>
  The offline identity helper,
  \<open>Buildroot/package/rootpxe-offline-identities/src/rootpxe-offline-identities.c\<close>: it reads a
  Windows SYSTEM hive through hivex and tells which registry values hold the computer name
  (\<open>windows-hostname-write-paths\<close>), which control sets are selected (\<open>windows-hostname-inspect\<close>)
  and whether every selected value holds a given name (\<open>windows-hostname-verify\<close>).  hivex is the
  record \<open>hivex\<close> of a hive's read operations; node and value handles are numbers, 0 is no handle.
  The program never writes the hive, so the operations are pure.  Freeing of strings returned by
  hivex is not modelled.
\<close>

section \<open>hivex and the file system\<close>

datatype hive_type = hive_t_string | hive_t_dword | hive_t_other

record hivex =
  hivex_root :: nat
  hivex_node_children :: "nat \<Rightarrow> nat list option"
  hivex_node_name :: "nat \<Rightarrow> string option"
  hivex_node_values :: "nat \<Rightarrow> nat list option"
  hivex_value_key :: "nat \<Rightarrow> string option"
  hivex_value_value :: "nat \<Rightarrow> (hive_type \<times> bytes) option"

datatype lstat_kind = L_REG | L_LNK | L_OTHER

record host_os =
  lstat_kind_of :: "string \<Rightarrow> lstat_kind option"
  hivex_open :: "string \<Rightarrow> hivex option"

definition regular :: "host_os \<Rightarrow> string \<Rightarrow> bool" where
  "regular os path \<longleftrightarrow> lstat_kind_of os path = Some L_REG"

section \<open>Comparing names\<close>

definition char_byte :: "char \<Rightarrow> u8" where
  "char_byte c = of_char c"

definition ascii_lower :: "u8 \<Rightarrow> u8" where
  "ascii_lower b = (if 65 \<le> b \<and> b \<le> 90 then b - 65 + 97 else b)"

fun ascii_case_loop :: "string \<Rightarrow> string \<Rightarrow> bool" where
  "ascii_case_loop (a # as) (e # es) =
     (if ascii_lower (char_byte a) \<noteq> ascii_lower (char_byte e) then False else ascii_case_loop as es)"
| "ascii_case_loop as es \<longleftrightarrow> as = [] \<and> es = []"

definition ascii_case_equal :: "string option \<Rightarrow> string option \<Rightarrow> bool" where
  "ascii_case_equal actual expected =
     (case (actual, expected) of (Some a, Some e) \<Rightarrow> ascii_case_loop a e | _ \<Rightarrow> False)"

definition le32_int :: "bytes \<Rightarrow> u32" where
  "le32_int v = le32 (v ! 0) (v ! 1) (v ! 2) (v ! 3)"

section \<open>Case-insensitive lookup\<close>

text \<open>
  The loop of \<open>hostname_child_ci\<close> and \<open>hostname_value_ci\<close>: an unreadable name or a second match
  gives no handle.  The accumulator is the match so far with its spelling.
\<close>

fun ci_scan :: "(nat \<Rightarrow> string option) \<Rightarrow> string \<Rightarrow> nat list \<Rightarrow> nat \<times> string option \<Rightarrow> nat \<times> string option" where
  "ci_scan name expected [] acc = acc"
| "ci_scan name expected (x # xs) acc =
     (if x = 0 then acc
      else case name x of
        None \<Rightarrow> (0, None)
      | Some n \<Rightarrow>
          if ascii_case_equal (Some n) (Some expected)
          then (if fst acc \<noteq> 0 then (0, None) else ci_scan name expected xs (x, Some n))
          else ci_scan name expected xs acc)"

definition hostname_child_ci :: "hivex \<Rightarrow> nat \<Rightarrow> string \<Rightarrow> nat \<times> string option" where
  "hostname_child_ci h parent expected =
     (case hivex_node_children h parent of
        None \<Rightarrow> (0, None)
      | Some children \<Rightarrow> ci_scan (hivex_node_name h) expected children (0, None))"

definition hostname_value_ci :: "hivex \<Rightarrow> nat \<Rightarrow> string \<Rightarrow> nat \<times> string option" where
  "hostname_value_ci h parent expected =
     (case hivex_node_values h parent of
        None \<Rightarrow> (0, None)
      | Some vals \<Rightarrow> ci_scan (hivex_value_key h) expected vals (0, None))"

fun hostname_path_ci :: "hivex \<Rightarrow> nat \<Rightarrow> string list \<Rightarrow> nat" where
  "hostname_path_ci h start [] = start"
| "hostname_path_ci h start (part # parts) =
     (let start' = fst (hostname_child_ci h start part) in
      if start' = 0 then 0 else hostname_path_ci h start' parts)"

section \<open>Values\<close>

definition hostname_value_matches :: "hivex \<Rightarrow> nat \<Rightarrow> string \<Rightarrow> string \<Rightarrow> bool" where
  "hostname_value_matches h node key hostname =
     (let value = fst (hostname_value_ci h node key) in
      if value = 0 then False
      else case hivex_value_value h value of
        None \<Rightarrow> False
      | Some (type, data) \<Rightarrow>
          (let length = length hostname in
           if type \<noteq> hive_t_string \<or> List.length data \<noteq> (length + 1) * 2 then False
           else if list_ex (\<lambda>i. data ! (2 * i) \<noteq> char_byte (hostname ! i) \<or> data ! (2 * i + 1) \<noteq> 0) [0..<length]
           then False
           else if data ! (2 * length) \<noteq> 0 \<or> data ! (2 * length + 1) \<noteq> 0 then False
           else True))"

definition hostname_dword :: "hivex \<Rightarrow> nat \<Rightarrow> string \<Rightarrow> u32 option" where
  "hostname_dword h node key =
     (let value = (if node \<noteq> 0 then fst (hostname_value_ci h node key) else 0) in
      if value = 0 then None
      else case hivex_value_value h value of
        None \<Rightarrow> None
      | Some (type, data) \<Rightarrow>
          if type \<noteq> hive_t_dword \<or> length data \<noteq> 4 then None
          else (let result = le32_int data in
                if result = 0 \<or> 999 < result then None else Some result))"

text \<open>\<open>snprintf(control, 16, "ControlSet%03u", n)\<close>; \<open>None\<close> when it does not fit.\<close>

definition pad3 :: "nat \<Rightarrow> string" where
  "pad3 n = replicate (3 - length (dec n)) (CHR ''0'') @ dec n"

definition control_set_name :: "u32 \<Rightarrow> string option" where
  "control_set_name n =
     (let s = ''ControlSet'' @ pad3 (unat n) in if 16 \<le> length s then None else Some s)"

definition selected_hostname_control_sets :: "hivex \<Rightarrow> nat \<Rightarrow> u32 list option" where
  "selected_hostname_control_sets h root =
     (let select = fst (hostname_child_ci h root ''Select'') in
      if select = 0 then None
      else case hostname_dword h select ''Current'' of
        None \<Rightarrow> None
      | Some current \<Rightarrow>
     (case hostname_dword h select ''Default'' of
        None \<Rightarrow> None
      | Some fallback \<Rightarrow>
          (let selected = current # (if fallback \<noteq> current then [fallback] else []) in
           if list_all (\<lambda>n. case control_set_name n of None \<Rightarrow> False
                | Some control \<Rightarrow> fst (hostname_child_ci h root control) \<noteq> 0) selected
           then Some selected else None)))"

definition valid_windows_hostname :: "string \<Rightarrow> bool" where
  "valid_windows_hostname hostname =
     (if hostname = [] \<or> 15 < length hostname then False
      else if list_ex (\<lambda>c. \<not> (c = CHR ''-''
             \<or> (65 \<le> char_byte c \<and> char_byte c \<le> 90)
             \<or> (97 \<le> char_byte c \<and> char_byte c \<le> 122)
             \<or> is_digit c)) hostname then False
      else length (takeWhile is_digit hostname) \<noteq> length hostname)"

section \<open>The paths reged has to write\<close>

text \<open>
  One iteration of the loop of \<open>windows_hostname_write_paths\<close>: the three nodes are followed
  keeping the spelling of each component; the three values must exist and be strings.
\<close>

definition string_value :: "hivex \<Rightarrow> nat \<Rightarrow> bool" where
  "string_value h v = (v \<noteq> 0 \<and> (case hivex_value_value h v of None \<Rightarrow> False | Some (t, _) \<Rightarrow> t = hive_t_string))"

definition reg_path :: "string option list \<Rightarrow> string option" where
  "reg_path parts =
     (if None \<in> set parts then None
      else let s = concat (map (\<lambda>p. CHR 0x5C # the p) parts)
           in if 160 \<le> length s then None else Some s)"

definition child_if :: "hivex \<Rightarrow> nat \<Rightarrow> string \<Rightarrow> nat \<times> string option" where
  "child_if h node expected = (if node \<noteq> 0 then hostname_child_ci h node expected else (0, None))"

definition value_if :: "hivex \<Rightarrow> nat \<Rightarrow> string \<Rightarrow> nat \<times> string option" where
  "value_if h node expected = (if node \<noteq> 0 then hostname_value_ci h node expected else (0, None))"

definition write_paths_for :: "hivex \<Rightarrow> nat \<Rightarrow> u32 \<Rightarrow> string list option" where
  "write_paths_for h root n =
     (case control_set_name n of
        None \<Rightarrow> None
      | Some expected_control \<Rightarrow>
          (let (control_set, control_name) = hostname_child_ci h root expected_control;
               (tcp, services) = child_if h control_set ''Services'';
               (tcp, tcpip) = child_if h tcp ''Tcpip'';
               (tcp, parameters) = child_if h tcp ''Parameters'';
               (computer_key, control) = child_if h control_set ''Control'';
               (computer_key, computer_name) = child_if h computer_key ''ComputerName'';
               (computer_key, computer_key_name) = child_if h computer_key ''ComputerName'';
               (nv_value, nv_hostname) = value_if h tcp ''NV Hostname'';
               (host_value, hostname) = value_if h tcp ''Hostname'';
               (name_value, computer_value) = value_if h computer_key ''ComputerName''
           in if \<not> string_value h nv_value then None
              else if \<not> string_value h host_value then None
              else if \<not> string_value h name_value then None
              else case (reg_path [control_name, services, tcpip, parameters, nv_hostname],
                         reg_path [control_name, services, tcpip, parameters, hostname],
                         reg_path [control_name, control, computer_name, computer_key_name, computer_value]) of
                (Some a, Some b, Some c) \<Rightarrow> Some [a, b, c]
              | _ \<Rightarrow> None))"

fun write_paths_loop :: "hivex \<Rightarrow> nat \<Rightarrow> u32 list \<Rightarrow> string list \<Rightarrow> string list option" where
  "write_paths_loop h root [] paths = Some paths"
| "write_paths_loop h root (n # ns) paths =
     (if 6 < length paths + 3 then None
      else case write_paths_for h root n of
        None \<Rightarrow> None
      | Some three \<Rightarrow> write_paths_loop h root ns (paths @ three))"

text \<open>The result is the printed lines, or \<open>None\<close> when the program reports failure.\<close>

definition windows_hostname_write_paths :: "host_os \<Rightarrow> string \<Rightarrow> string list option" where
  "windows_hostname_write_paths os system =
     (if \<not> regular os system then None
      else case hivex_open os system of
        None \<Rightarrow> None
      | Some h \<Rightarrow>
          if hivex_root h = 0 then None
          else case selected_hostname_control_sets h (hivex_root h) of
            None \<Rightarrow> None
          | Some selected \<Rightarrow> write_paths_loop h (hivex_root h) selected [])"

section \<open>Inspection and verification\<close>

definition control_set_holds :: "hivex \<Rightarrow> nat \<Rightarrow> string \<Rightarrow> bool" where
  "control_set_holds h current_set hostname =
     (let tcp = hostname_path_ci h current_set [''Services'', ''Tcpip'', ''Parameters''];
          computer = hostname_path_ci h current_set [''Control'', ''ComputerName'', ''ComputerName'']
      in \<not> (tcp = 0 \<or> computer = 0
           \<or> \<not> hostname_value_matches h tcp ''Hostname'' hostname
           \<or> \<not> hostname_value_matches h tcp ''NV Hostname'' hostname
           \<or> \<not> hostname_value_matches h computer ''ComputerName'' hostname))"

text \<open>The loop returns its success and what it printed.\<close>

fun inspect_loop :: "hivex \<Rightarrow> nat \<Rightarrow> string option \<Rightarrow> u32 list \<Rightarrow> string list \<Rightarrow> bool \<times> string list" where
  "inspect_loop h root hostname [] out = (True, out)"
| "inspect_loop h root hostname (n # ns) out =
     (case control_set_name n of
        None \<Rightarrow> (False, out)
      | Some control \<Rightarrow>
          (let current_set = fst (hostname_child_ci h root control) in
           if current_set = 0 then (False, out)
           else case hostname of
             None \<Rightarrow> inspect_loop h root hostname ns (out @ [control])
           | Some name \<Rightarrow>
               if control_set_holds h current_set name then inspect_loop h root hostname ns out
               else (False, out)))"

definition windows_hostname_inspect_or_verify ::
    "host_os \<Rightarrow> string \<Rightarrow> string option \<Rightarrow> bool \<times> string list" where
  "windows_hostname_inspect_or_verify os system hostname =
     (if \<not> regular os system \<or> (case hostname of None \<Rightarrow> False | Some n \<Rightarrow> \<not> valid_windows_hostname n)
      then (False, [])
      else case hivex_open os system of
        None \<Rightarrow> (False, [])
      | Some h \<Rightarrow>
          if hivex_root h = 0 then (False, [])
          else case selected_hostname_control_sets h (hivex_root h) of
            None \<Rightarrow> (False, [])
          | Some selected \<Rightarrow> inspect_loop h (hivex_root h) hostname selected [])"

text \<open>Exit status and printed lines.\<close>

definition hostname_main :: "host_os \<Rightarrow> string list \<Rightarrow> nat \<times> string list" where
  "hostname_main os argv =
     (if length argv = 3 \<and> argv ! 1 = ''windows-hostname-inspect'' then
        (let (ok, out) = windows_hostname_inspect_or_verify os (argv ! 2) None in (if ok then 0 else 1, out))
      else if length argv = 3 \<and> argv ! 1 = ''windows-hostname-write-paths'' then
        (case windows_hostname_write_paths os (argv ! 2) of None \<Rightarrow> (1, []) | Some out \<Rightarrow> (0, out))
      else if length argv = 4 \<and> argv ! 1 = ''windows-hostname-verify'' then
        (let (ok, out) = windows_hostname_inspect_or_verify os (argv ! 2) (Some (argv ! 3))
         in (if ok then 0 else 1, out))
      else (2, []))"

section \<open>Names compare by their lower-case forms\<close>

abbreviation lower_name :: "string \<Rightarrow> u8 list" where
  "lower_name s \<equiv> map (\<lambda>c. ascii_lower (char_byte c)) s"

lemma ascii_case_loop_iff: "ascii_case_loop a e \<longleftrightarrow> lower_name a = lower_name e"
  by (induction a e rule: ascii_case_loop.induct) auto

lemma ascii_case_equal_iff [simp]: "ascii_case_equal (Some a) (Some e) \<longleftrightarrow> lower_name a = lower_name e"
  by (simp add: ascii_case_equal_def ascii_case_loop_iff)

lemma char_byte_inj: "char_byte a = char_byte b \<Longrightarrow> a = b"
proof -
  assume "char_byte a = char_byte b"
  then have "(of_char a :: 8 word) = of_char b" by (simp add: char_byte_def)
  then have "of_nat (of_char a :: nat) = (of_nat (of_char b :: nat) :: 8 word)" by (simp only: of_nat_of_char)
  then have "(of_char a :: nat) = of_char b"
    by (simp add: word_of_nat_eq_iff take_bit_eq_mod)
  then show "a = b" by simp
qed

section \<open>The lookup contract\<close>

text \<open>
  What the callers of the two case-insensitive lookups rely on: a handle is returned exactly when
  every name of the list (up to its terminating 0) can be read and exactly one of them matches, and
  its stored spelling comes with it.
\<close>

definition ci_match :: "(nat \<Rightarrow> string option) \<Rightarrow> string \<Rightarrow> nat \<Rightarrow> bool" where
  "ci_match name expected x \<longleftrightarrow> (\<exists>n. name x = Some n \<and> lower_name n = lower_name expected)"

definition ci_unique :: "(nat \<Rightarrow> string option) \<Rightarrow> string \<Rightarrow> nat list \<Rightarrow> nat \<Rightarrow> bool" where
  "ci_unique name expected xs x \<longleftrightarrow>
     (\<forall>y \<in> set (takeWhile (\<lambda>z. z \<noteq> 0) xs). name y \<noteq> None)
     \<and> filter (ci_match name expected) (takeWhile (\<lambda>z. z \<noteq> 0) xs) = [x]"

locale ci_lookup =
  fixes items :: "nat \<Rightarrow> nat list option"
    and name :: "nat \<Rightarrow> string option"
    and find :: "nat \<Rightarrow> string \<Rightarrow> nat \<times> string option"
  assumes find_iff: "find p e = (x, sp) \<and> x \<noteq> 0 \<longleftrightarrow>
      (\<exists>xs. items p = Some xs \<and> ci_unique name e xs x \<and> sp = name x)"
    and find_none: "fst (find p e) = 0 \<Longrightarrow> snd (find p e) = None"
begin

lemma find_fst_iff: "fst (find p e) = x \<and> x \<noteq> 0 \<longleftrightarrow> (\<exists>xs. items p = Some xs \<and> ci_unique name e xs x)"
  using find_iff [of p e x "name x"] find_iff [of p e x "snd (find p e)"] by (cases "find p e") auto

lemma find_spelling: "fst (find p e) = x \<Longrightarrow> x \<noteq> 0 \<Longrightarrow> snd (find p e) = name x"
  using find_iff [of p e x "snd (find p e)"] by (cases "find p e") auto

lemma find_readable: "fst (find p e) \<noteq> 0 \<Longrightarrow> \<exists>n. snd (find p e) = Some n \<and> lower_name n = lower_name e"
proof -
  assume nz: "fst (find p e) \<noteq> 0"
  then obtain xs where "ci_unique name e xs (fst (find p e))" using find_fst_iff by blast
  then have "fst (find p e) \<in> set (filter (ci_match name e) (takeWhile (\<lambda>z. z \<noteq> 0) xs))"
    by (simp add: ci_unique_def)
  then have "ci_match name e (fst (find p e))" by simp
  then show ?thesis using find_spelling [OF refl nz] by (auto simp: ci_match_def)
qed

lemma find_case_insensitive:
  assumes "lower_name e = lower_name e'"
  shows "fst (find p e) = fst (find p e')"
proof -
  have "ci_match name e = ci_match name e'" using assms by (auto simp: ci_match_def)
  then have "ci_unique name e xs x = ci_unique name e' xs x" for xs x by (simp add: ci_unique_def)
  then show ?thesis using find_fst_iff [of p e] find_fst_iff [of p e'] by metis
qed

end

lemma ci_scan_nonzero:
  "ci_scan name e xs (a, sp) = (x, sp') \<and> x \<noteq> 0 \<longleftrightarrow>
     (\<forall>y \<in> set (takeWhile (\<lambda>z. z \<noteq> 0) xs). name y \<noteq> None) \<and>
     (if a \<noteq> 0 then filter (ci_match name e) (takeWhile (\<lambda>z. z \<noteq> 0) xs) = [] \<and> x = a \<and> sp' = sp
      else filter (ci_match name e) (takeWhile (\<lambda>z. z \<noteq> 0) xs) = [x] \<and> sp' = name x \<and> x \<noteq> 0)"
proof (induction xs arbitrary: a sp)
  case Nil
  then show ?case by auto
next
  case (Cons y ys)
  show ?case
  proof (cases "y = 0 \<or> name y = None")
    case True
    then show ?thesis by auto
  next
    case False
    then obtain n where n: "name y = Some n" "y \<noteq> 0" by auto
    have m: "ci_match name e y \<longleftrightarrow> lower_name n = lower_name e" using n by (simp add: ci_match_def)
    show ?thesis
    proof (cases "lower_name n = lower_name e")
      case True
      then show ?thesis using n m Cons.IH [of y "Some n"] by auto
    next
      case False
      then show ?thesis using n m Cons.IH [of a sp] by auto
    qed
  qed
qed

lemma ci_scan_zero: "fst (ci_scan name e xs (a, sp)) = 0 \<Longrightarrow> (a = 0 \<longrightarrow> sp = None) \<Longrightarrow> snd (ci_scan name e xs (a, sp)) = None"
  by (induction xs arbitrary: a sp) (auto split: option.splits if_splits)

lemma ci_unique_nonzero: "ci_unique name e xs x \<Longrightarrow> x \<noteq> 0"
proof -
  assume "ci_unique name e xs x"
  then have "x \<in> set (filter (ci_match name e) (takeWhile (\<lambda>z. z \<noteq> 0) xs))" by (simp add: ci_unique_def)
  then show "x \<noteq> 0" using set_takeWhileD by fastforce
qed

lemma ci_scan_unique: "ci_scan name e xs (0, None) = (x, sp) \<and> x \<noteq> 0 \<longleftrightarrow> ci_unique name e xs x \<and> sp = name x"
  unfolding ci_scan_nonzero using ci_unique_nonzero [of name e xs x] by (auto simp: ci_unique_def)

interpretation child: ci_lookup "hivex_node_children h" "hivex_node_name h" "hostname_child_ci h" for h
proof
  show "hostname_child_ci h p e = (x, sp) \<and> x \<noteq> 0 \<longleftrightarrow>
      (\<exists>xs. hivex_node_children h p = Some xs \<and> ci_unique (hivex_node_name h) e xs x \<and> sp = hivex_node_name h x)" for p e x sp
    using ci_scan_unique [of "hivex_node_name h" e _ x sp]
    by (auto simp: hostname_child_ci_def split: option.splits)
  show "fst (hostname_child_ci h p e) = 0 \<Longrightarrow> snd (hostname_child_ci h p e) = None" for p e
    by (auto simp: hostname_child_ci_def ci_scan_zero split: option.splits)
qed

interpretation val: ci_lookup "hivex_node_values h" "hivex_value_key h" "hostname_value_ci h" for h
proof
  show "hostname_value_ci h p e = (x, sp) \<and> x \<noteq> 0 \<longleftrightarrow>
      (\<exists>xs. hivex_node_values h p = Some xs \<and> ci_unique (hivex_value_key h) e xs x \<and> sp = hivex_value_key h x)" for p e x sp
    using ci_scan_unique [of "hivex_value_key h" e _ x sp]
    by (auto simp: hostname_value_ci_def split: option.splits)
  show "fst (hostname_value_ci h p e) = 0 \<Longrightarrow> snd (hostname_value_ci h p e) = None" for p e
    by (auto simp: hostname_value_ci_def ci_scan_zero split: option.splits)
qed

text \<open>
  A key or a value is found by name exactly when the hive lists the entries, every listed name
  can be read, and exactly one of them equals the wanted name up to ASCII case: an ambiguous or
  partly unreadable hive gives no handle.
\<close>

lemma lookup_unique:
  "(fst (hostname_child_ci h p e) = x \<and> x \<noteq> 0 \<longleftrightarrow>
     (\<exists>xs. hivex_node_children h p = Some xs \<and> ci_unique (hivex_node_name h) e xs x))
   \<and> (fst (hostname_value_ci h p e) = x \<and> x \<noteq> 0 \<longleftrightarrow>
     (\<exists>xs. hivex_node_values h p = Some xs \<and> ci_unique (hivex_value_key h) e xs x))"
  by (rule conjI, rule child.find_fst_iff, rule val.find_fst_iff)

section \<open>String values are UTF-16LE\<close>

definition utf16le :: "string \<Rightarrow> bytes" where
  "utf16le s = concat (map (\<lambda>c. [char_byte c, 0]) s) @ [0, 0]"

lemma length_utf16_body: "length (concat (map (\<lambda>c. [char_byte c, 0]) s)) = 2 * length s"
  by (induction s) auto

lemma nth_utf16_body:
  "i < length s \<Longrightarrow> concat (map (\<lambda>c. [char_byte c, 0]) s) ! (2 * i) = char_byte (s ! i)
     \<and> concat (map (\<lambda>c. [char_byte c, 0]) s) ! Suc (2 * i) = 0"
proof (induction s arbitrary: i)
  case (Cons c s)
  then show ?case by (cases i) auto
qed simp

lemma utf16le_iff:
  "length data = (length s + 1) * 2 \<and> (\<forall>i < length s. data ! (2 * i) = char_byte (s ! i) \<and> data ! (2 * i + 1) = 0)
     \<and> data ! (2 * length s) = 0 \<and> data ! (2 * length s + 1) = 0 \<longleftrightarrow> data = utf16le s"
  (is "?L \<longleftrightarrow> _")
proof
  assume L: ?L
  show "data = utf16le s"
  proof (rule nth_equalityI)
    fix k assume k: "k < length data"
    have "k = 2 * (k div 2) \<or> k = Suc (2 * (k div 2))" by presburger
    moreover have "k div 2 \<le> length s" using k L by simp
    ultimately consider j where "k = 2 * j" "j < length s" | j where "k = Suc (2 * j)" "j < length s"
      | "k = 2 * length s" | "k = Suc (2 * length s)"
      by (metis nat_less_le)
    then show "data ! k = utf16le s ! k"
      by cases (use L nth_utf16_body [of _ s] in \<open>auto simp: utf16le_def nth_append length_utf16_body\<close>)
  qed (use L in \<open>simp add: utf16le_def length_utf16_body\<close>)
next
  assume "data = utf16le s"
  then show ?L
    using nth_utf16_body [of _ s] by (auto simp: utf16le_def nth_append length_utf16_body)
qed

definition stores_name :: "hivex \<Rightarrow> nat \<Rightarrow> string \<Rightarrow> string \<Rightarrow> bool" where
  "stores_name h node key hostname \<longleftrightarrow>
     (let v = fst (hostname_value_ci h node key) in
      v \<noteq> 0 \<and> hivex_value_value h v = Some (hive_t_string, utf16le hostname))"

lemma hostname_value_matches_iff: "hostname_value_matches h node key hostname \<longleftrightarrow> stores_name h node key hostname"
  unfolding hostname_value_matches_def stores_name_def Let_def
  by (auto simp: list_ex_iff simp flip: utf16le_iff split: option.splits if_splits)

section \<open>Selected control sets\<close>

lemma length_pad3: "n \<le> 999 \<Longrightarrow> length (pad3 n) = 3"
  using length_dec [of n 3] by (simp add: pad3_def)

definition cs_name :: "u32 \<Rightarrow> string" where
  "cs_name n = ''ControlSet'' @ pad3 (unat n)"

lemma control_set_name_Some: "unat n \<le> 999 \<Longrightarrow> control_set_name n = Some (cs_name n)"
  by (simp add: control_set_name_def cs_name_def length_pad3)

lemma hostname_dword_range: "hostname_dword h node key = Some v \<Longrightarrow> 1 \<le> unat v \<and> unat v \<le> 999"
  by (auto simp: hostname_dword_def Let_def word_less_nat_alt unat_eq_0 Suc_le_eq unat_gt_0
      split: if_splits option.splits)

lemma selected_facts:
  assumes "selected_hostname_control_sets h root = Some sel"
  shows "sel \<noteq> []" "length sel \<le> 2" "distinct sel"
    "n \<in> set sel \<Longrightarrow> 1 \<le> unat n \<and> unat n \<le> 999"
    "n \<in> set sel \<Longrightarrow> fst (hostname_child_ci h root (cs_name n)) \<noteq> 0"
proof -
  show "sel \<noteq> []" "length sel \<le> 2" "distinct sel"
    using assms by (auto simp: selected_hostname_control_sets_def Let_def split: option.splits if_splits)
  have r: "1 \<le> unat m \<and> unat m \<le> 999" if "m \<in> set sel" for m
    using assms that hostname_dword_range
    by (fastforce simp: selected_hostname_control_sets_def Let_def split: option.splits if_splits)
  then show "n \<in> set sel \<Longrightarrow> 1 \<le> unat n \<and> unat n \<le> 999" .
  show "n \<in> set sel \<Longrightarrow> fst (hostname_child_ci h root (cs_name n)) \<noteq> 0"
    using assms r control_set_name_Some
    by (fastforce simp: selected_hostname_control_sets_def Let_def list_all_iff split: option.splits if_splits)
qed

definition set_node :: "hivex \<Rightarrow> nat \<Rightarrow> u32 \<Rightarrow> nat" where
  "set_node h root n = fst (hostname_child_ci h root (cs_name n))"

lemma inspect_loop_inspect:
  "\<forall>n \<in> set ns. unat n \<le> 999 \<and> set_node h root n \<noteq> 0 \<Longrightarrow>
   inspect_loop h root None ns out = (True, out @ map cs_name ns)"
  by (induction ns arbitrary: out) (auto simp: control_set_name_Some set_node_def Let_def)

lemma inspect_loop_verify:
  "\<forall>n \<in> set ns. unat n \<le> 999 \<and> set_node h root n \<noteq> 0 \<Longrightarrow>
   inspect_loop h root (Some name) ns out = (list_all (\<lambda>n. control_set_holds h (set_node h root n) name) ns, out)"
  by (induction ns arbitrary: out) (auto simp: control_set_name_Some set_node_def Let_def)

text \<open>
  Inspection prints either nothing and fails, or the names of the one or two distinct
  selected control sets and succeeds: no partial list is printed.
\<close>

lemma inspect_all_or_nothing:
  "(let (ok, out) = windows_hostname_inspect_or_verify os system None in
    if ok then (\<exists>h sel. hivex_open os system = Some h
       \<and> selected_hostname_control_sets h (hivex_root h) = Some sel
       \<and> out = map cs_name sel \<and> length out \<in> {1, 2} \<and> distinct sel)
    else out = [])"
proof -
  have "length sel \<in> {1, 2}" if "selected_hostname_control_sets h r = Some sel" for h r sel
    using selected_facts(1,2) [OF that] by (cases sel rule: list.exhaust; cases "tl sel") auto
  then show ?thesis
    using selected_facts(3,4,5)
    by (auto simp: windows_hostname_inspect_or_verify_def inspect_loop_inspect set_node_def
        split: option.splits)
qed

text \<open>What a control set must hold to be verified: the three persistent name values.\<close>

definition tcp_node :: "hivex \<Rightarrow> nat \<Rightarrow> nat" where
  "tcp_node h cs = hostname_path_ci h cs [''Services'', ''Tcpip'', ''Parameters'']"

definition computer_node :: "hivex \<Rightarrow> nat \<Rightarrow> nat" where
  "computer_node h cs = hostname_path_ci h cs [''Control'', ''ComputerName'', ''ComputerName'']"

definition holds_everywhere :: "hivex \<Rightarrow> nat \<Rightarrow> string \<Rightarrow> bool" where
  "holds_everywhere h cs name \<longleftrightarrow> tcp_node h cs \<noteq> 0 \<and> computer_node h cs \<noteq> 0
     \<and> stores_name h (tcp_node h cs) ''Hostname'' name
     \<and> stores_name h (tcp_node h cs) ''NV Hostname'' name
     \<and> stores_name h (computer_node h cs) ''ComputerName'' name"

lemma control_set_holds_iff: "control_set_holds h cs name \<longleftrightarrow> holds_everywhere h cs name"
  by (auto simp: control_set_holds_def holds_everywhere_def tcp_node_def computer_node_def Let_def
      hostname_value_matches_iff simp del: hostname_path_ci.simps)

lemma verify_iff:
  "windows_hostname_inspect_or_verify os system (Some name) =
     (regular os system \<and> valid_windows_hostname name \<and>
      (\<exists>h sel. hivex_open os system = Some h \<and> hivex_root h \<noteq> 0
        \<and> selected_hostname_control_sets h (hivex_root h) = Some sel
        \<and> (\<forall>n \<in> set sel. holds_everywhere h (set_node h (hivex_root h) n) name)), [])"
  using selected_facts(4,5)
  by (auto simp: windows_hostname_inspect_or_verify_def inspect_loop_verify set_node_def
      list_all_iff control_set_holds_iff split: option.splits)

text \<open>
  Property C8.  Verification succeeds exactly when the hive is a regular file that opens, the name is valid,
  and every selected control set stores the name, as a null-terminated UTF-16LE string, in all three
  persistent values; it prints nothing.
\<close>

theorem verify_exact:
  "windows_hostname_inspect_or_verify os system (Some name) =
     (regular os system \<and> valid_windows_hostname name \<and>
      (\<exists>h sel. hivex_open os system = Some h \<and> hivex_root h \<noteq> 0
        \<and> selected_hostname_control_sets h (hivex_root h) = Some sel
        \<and> (\<forall>n \<in> set sel. holds_everywhere h (set_node h (hivex_root h) n) name)), [])"
  by (rule verify_iff)

section \<open>The listed paths are the verified values\<close>

definition name_values :: "hivex \<Rightarrow> nat \<Rightarrow> nat set" where
  "name_values h cs = {fst (hostname_value_ci h (tcp_node h cs) ''NV Hostname''),
     fst (hostname_value_ci h (tcp_node h cs) ''Hostname''),
     fst (hostname_value_ci h (computer_node h cs) ''ComputerName'')}"

lemma path3: "cs \<noteq> 0 \<Longrightarrow> fst (child_if h (fst (child_if h (fst (child_if h cs a)) b)) c) = hostname_path_ci h cs [a, b, c]"
  by (simp add: child_if_def Let_def)

lemma string_value_if:
  "string_value h (fst (value_if h node key)) \<Longrightarrow> node \<noteq> 0 \<and> string_value h (fst (hostname_value_ci h node key))"
  by (cases "node = 0") (simp_all add: value_if_def string_value_def)

lemma write_paths_for_Some:
  assumes "write_paths_for h root n = Some ps" "unat n \<le> 999" "set_node h root n \<noteq> 0"
  shows "length ps = 3 \<and> (\<forall>s \<in> set ps. length s < 160)"
    "tcp_node h (set_node h root n) \<noteq> 0 \<and> computer_node h (set_node h root n) \<noteq> 0"
    "\<forall>v \<in> name_values h (set_node h root n). string_value h v"
proof -
  let ?cs = "set_node h root n"
  let ?tcp = "fst (child_if h (fst (child_if h (fst (child_if h ?cs ''Services'')) ''Tcpip'')) ''Parameters'')"
  let ?cn = "fst (child_if h (fst (child_if h (fst (child_if h ?cs ''Control'')) ''ComputerName'')) ''ComputerName'')"
  have t: "?tcp = tcp_node h ?cs" and c: "?cn = computer_node h ?cs"
    unfolding tcp_node_def computer_node_def by (rule path3 [OF assms(3)])+
  have cs: "control_set_name n = Some (cs_name n)" "fst (hostname_child_ci h root (cs_name n)) = ?cs"
    using assms(2) by (simp_all add: control_set_name_Some set_node_def)
  from assms(1) have sv: "string_value h (fst (value_if h ?tcp ''NV Hostname''))"
      "string_value h (fst (value_if h ?tcp ''Hostname''))"
      "string_value h (fst (value_if h ?cn ''ComputerName''))"
    unfolding write_paths_for_def cs(1)
    by (simp_all add: cs(2) split_beta Let_def split: if_splits)
  note sv' = sv [THEN string_value_if]
  then show "tcp_node h ?cs \<noteq> 0 \<and> computer_node h ?cs \<noteq> 0" by (simp add: t c)
  show "\<forall>v \<in> name_values h ?cs. string_value h v"
    using sv' by (simp add: name_values_def t c)
  show "length ps = 3 \<and> (\<forall>s \<in> set ps. length s < 160)"
    using assms(1) unfolding write_paths_for_def cs(1)
    by (auto simp: split_beta Let_def reg_path_def split: if_splits option.splits)
qed

lemma write_paths_loop_Some:
  assumes "write_paths_loop h root ns acc = Some ps" "\<forall>n \<in> set ns. unat n \<le> 999 \<and> set_node h root n \<noteq> 0"
  shows "length ps = length acc + 3 * length ns \<and> (\<forall>s \<in> set ps - set acc. length s < 160)
    \<and> (\<forall>n \<in> set ns. \<exists>qs. write_paths_for h root n = Some qs)"
  using assms
proof (induction ns arbitrary: acc)
  case Nil
  then show ?case by simp
next
  case (Cons n ns)
  then obtain qs where qs: "write_paths_for h root n = Some qs" "write_paths_loop h root ns (acc @ qs) = Some ps"
    by (auto split: if_splits option.splits)
  have "length qs = 3 \<and> (\<forall>s \<in> set qs. length s < 160)"
    using write_paths_for_Some(1) [OF qs(1)] Cons.prems(2) by simp
  with Cons.IH [OF qs(2)] Cons.prems(2) qs(1) show ?case by auto
qed

lemma write_paths_loop_total:
  assumes "length acc + 3 * length ns \<le> 6" "\<forall>n \<in> set ns. unat n \<le> 999 \<and> set_node h root n \<noteq> 0"
    "\<forall>n \<in> set ns. \<exists>qs. write_paths_for h root n = Some qs"
  shows "\<exists>ps. write_paths_loop h root ns acc = Some ps"
  using assms
proof (induction ns arbitrary: acc)
  case (Cons n ns)
  then obtain qs where qs: "write_paths_for h root n = Some qs" by auto
  then have "length qs = 3" using write_paths_for_Some(1) [OF qs] Cons.prems(2) by simp
  with Cons qs show ?case by auto
qed simp

definition documented_paths :: "string \<Rightarrow> string list" where
  "documented_paths control =
     map (\<lambda>p. concat (map (\<lambda>x. CHR 0x5C # x) (control # p)))
       [[''Services'', ''Tcpip'', ''Parameters'', ''NV Hostname''],
        [''Services'', ''Tcpip'', ''Parameters'', ''Hostname''],
        [''Control'', ''ComputerName'', ''ComputerName'', ''ComputerName'']]"

lemma child_if_readable:
  "fst (child_if h n e) \<noteq> 0 \<Longrightarrow> n \<noteq> 0 \<and> (\<exists>s. snd (child_if h n e) = Some s \<and> lower_name s = lower_name e)"
  using child.find_readable [of h n e] by (auto simp: child_if_def split: if_splits)

lemma value_if_readable:
  "fst (value_if h n e) \<noteq> 0 \<Longrightarrow> n \<noteq> 0 \<and> (\<exists>s. snd (value_if h n e) = Some s \<and> lower_name s = lower_name e)"
  using val.find_readable [of h n e] by (auto simp: value_if_def split: if_splits)

lemma reg_path_lower:
  assumes "reg_path ps = Some s" "list_all2 (\<lambda>p e. \<exists>x. p = Some x \<and> lower_name x = lower_name e) ps es"
  shows "lower_name s = lower_name (concat (map (\<lambda>x. CHR 0x5C # x) es))"
proof -
  have "s = concat (map (\<lambda>p. CHR 0x5C # the p) ps)" using assms(1) by (auto simp: reg_path_def Let_def split: if_splits)
  moreover have "lower_name (concat (map (\<lambda>p. CHR 0x5C # the p) ps)) = lower_name (concat (map (\<lambda>x. CHR 0x5C # x) es))"
    using assms(2) by (induction rule: list_all2_induct) auto
  ultimately show ?thesis by simp
qed

lemma write_paths_for_lower:
  assumes "write_paths_for h root n = Some ps" "unat n \<le> 999"
  shows "map lower_name ps = map lower_name (documented_paths (cs_name n))"
proof -
  let ?cs = "hostname_child_ci h root (cs_name n)"
  let ?sv = "child_if h (fst ?cs) ''Services''"
  let ?ti = "child_if h (fst ?sv) ''Tcpip''"
  let ?pa = "child_if h (fst ?ti) ''Parameters''"
  let ?co = "child_if h (fst ?cs) ''Control''"
  let ?c1 = "child_if h (fst ?co) ''ComputerName''"
  let ?c2 = "child_if h (fst ?c1) ''ComputerName''"
  let ?nv = "value_if h (fst ?pa) ''NV Hostname''"
  let ?hv = "value_if h (fst ?pa) ''Hostname''"
  let ?cv = "value_if h (fst ?c2) ''ComputerName''"
  from assms have nz: "fst ?nv \<noteq> 0" "fst ?hv \<noteq> 0" "fst ?cv \<noteq> 0"
    unfolding write_paths_for_def control_set_name_Some [OF assms(2)] option.case
    by (simp_all add: split_beta Let_def string_value_def split: if_splits)
  from assms obtain a b c where ps: "ps = [a, b, c]"
    "reg_path [snd ?cs, snd ?sv, snd ?ti, snd ?pa, snd ?nv] = Some a"
    "reg_path [snd ?cs, snd ?sv, snd ?ti, snd ?pa, snd ?hv] = Some b"
    "reg_path [snd ?cs, snd ?co, snd ?c1, snd ?c2, snd ?cv] = Some c"
    unfolding write_paths_for_def control_set_name_Some [OF assms(2)] option.case
    by (auto simp: split_beta Let_def split: if_splits option.splits)
  note vs = nz [THEN value_if_readable]
  have p3: "fst ?pa \<noteq> 0" and q3: "fst ?c2 \<noteq> 0" using vs by auto
  note p3 = child_if_readable [OF p3] and q3 = child_if_readable [OF q3]
  note p2 = child_if_readable [OF p3 [THEN conjunct1]] and q2 = child_if_readable [OF q3 [THEN conjunct1]]
  note p1 = child_if_readable [OF p2 [THEN conjunct1]] and q1 = child_if_readable [OF q2 [THEN conjunct1]]
  note p0 = child.find_readable [OF p1 [THEN conjunct1]]
  show ?thesis
    using reg_path_lower [OF ps(2), of "[cs_name n, ''Services'', ''Tcpip'', ''Parameters'', ''NV Hostname'']"]
      reg_path_lower [OF ps(3), of "[cs_name n, ''Services'', ''Tcpip'', ''Parameters'', ''Hostname'']"]
      reg_path_lower [OF ps(4), of "[cs_name n, ''Control'', ''ComputerName'', ''ComputerName'', ''ComputerName'']"]
      p0 p1 p2 p3 q1 q2 q3 vs
    unfolding ps(1) documented_paths_def by (simp only: list.map list_all2_Cons list_all2_Nil simp_thms)
qed

lemma write_paths_loop_lower:
  assumes "write_paths_loop h root ns acc = Some ps" "\<forall>n \<in> set ns. unat n \<le> 999"
  shows "map lower_name ps = map lower_name (acc @ concat (map (documented_paths \<circ> cs_name) ns))"
  using assms
proof (induction ns arbitrary: acc)
  case (Cons n ns)
  then obtain qs where "write_paths_for h root n = Some qs" "write_paths_loop h root ns (acc @ qs) = Some ps"
    by (auto split: if_splits option.splits)
  then show ?case using Cons write_paths_for_lower [of h root n qs] by simp
qed simp

section \<open>What a listed path names\<close>

text \<open>
  The meaning of a printed path, independent of how the program found it: its components between the
  backslashes are the exact spellings of the keys from the root down and of a value.
\<close>

function components :: "string \<Rightarrow> string list" where
  "components [] = []"
| "components (c # s) = (if c = CHR 0x5C
     then takeWhile (\<lambda>x. x \<noteq> CHR 0x5C) s # components (dropWhile (\<lambda>x. x \<noteq> CHR 0x5C) s) else [])"
  by pat_completeness auto
termination by (relation "measure length") (auto simp: le_imp_less_Suc length_dropWhile_le)

definition listed :: "(nat \<Rightarrow> nat list option) \<Rightarrow> (nat \<Rightarrow> string option) \<Rightarrow> nat \<Rightarrow> string \<Rightarrow> nat list" where
  "listed items name node spelling = (case items node of None \<Rightarrow> []
     | Some xs \<Rightarrow> filter (\<lambda>x. name x = Some spelling) (takeWhile (\<lambda>x. x \<noteq> 0) xs))"

primrec keys_below :: "hivex \<Rightarrow> string list \<Rightarrow> nat \<Rightarrow> nat list" where
  "keys_below h [] node = [node]"
| "keys_below h (p # ps) node =
     concat (map (keys_below h ps) (listed (hivex_node_children h) (hivex_node_name h) node p))"

definition named_values :: "hivex \<Rightarrow> string \<Rightarrow> nat list" where
  "named_values h path = (let ps = components path in if ps = [] then [] else
     concat (map (\<lambda>node. listed (hivex_node_values h) (hivex_value_key h) node (last ps))
       (keys_below h (butlast ps) (hivex_root h))))"

abbreviation plain :: "string \<Rightarrow> bool" where
  "plain s \<equiv> CHR 0x5C \<notin> set s"

lemma backslash_lower: "ascii_lower (char_byte c) = 0x5C \<longleftrightarrow> c = CHR 0x5C"
proof
  assume l: "ascii_lower (char_byte c) = 0x5C"
  have "char_byte c = 0x5C"
  proof (cases "65 \<le> char_byte c \<and> char_byte c \<le> 90")
    case True
    with l have "char_byte c = 0x5C - 97 + 65" by (simp add: ascii_lower_def algebra_simps)
    with True show ?thesis by simp
  next
    case False
    then have "ascii_lower (char_byte c) = char_byte c" unfolding ascii_lower_def by (rule if_not_P)
    with l show ?thesis by simp
  qed
  also have "\<dots> = char_byte (CHR 0x5C)" by (simp add: char_byte_def)
  finally show "c = CHR 0x5C" by (rule char_byte_inj)
qed (simp add: ascii_lower_def char_byte_def)

lemma plain_lower: "plain s \<longleftrightarrow> 0x5C \<notin> set (lower_name s)"
  using backslash_lower by force

lemma plain_same: "lower_name s = lower_name e \<Longrightarrow> plain e \<Longrightarrow> plain s"
  using plain_lower [of s] plain_lower [of e] by simp

lemma plain_pad3: "plain (pad3 n)"
proof -
  have "\<not> is_digit (CHR 0x5C)" by (simp add: is_digit_def)
  then show ?thesis using dec_digits [of n] by (auto simp: pad3_def list_all_iff)
qed

lemma plain_cs_name: "plain (cs_name n)"
  using plain_pad3 [of "unat n"] by (simp add: cs_name_def)

lemma components_concat:
  "\<forall>x \<in> set xs. plain x \<Longrightarrow> components (concat (map (\<lambda>x. CHR 0x5C # x) xs)) = xs"
proof (induction xs)
  case (Cons x xs)
  then have p: "\<And>c. c \<in> set x \<Longrightarrow> c \<noteq> CHR 0x5C" by auto
  then have "takeWhile (\<lambda>c. c \<noteq> CHR 0x5C) (x @ concat (map (\<lambda>x. CHR 0x5C # x) xs)) = x"
     "dropWhile (\<lambda>c. c \<noteq> CHR 0x5C) (x @ concat (map (\<lambda>x. CHR 0x5C # x) xs)) = concat (map (\<lambda>x. CHR 0x5C # x) xs)"
    by (cases xs; simp add: takeWhile_append dropWhile_append)+
  with Cons show ?case by simp
qed simp

text \<open>A name found up to case is listed exactly once under its own spelling.\<close>

context ci_lookup
begin

lemma find_listed:
  assumes "fst (find p e) \<noteq> 0" "snd (find p e) = Some n"
  shows "listed items name p n = [fst (find p e)]"
proof -
  let ?x = "fst (find p e)"
  obtain xs where xs: "items p = Some xs" "ci_unique name e xs ?x"
    using find_fst_iff [of p e ?x] assms(1) by auto
  have nx: "name ?x = Some n" using find_spelling [OF refl assms(1)] assms(2) by simp
  have low: "lower_name n = lower_name e" using find_readable [OF assms(1)] assms(2) by auto
  have "filter (\<lambda>x. name x = Some n) (takeWhile (\<lambda>x. x \<noteq> 0) xs)
      = filter (\<lambda>x. name x = Some n) (filter (ci_match name e) (takeWhile (\<lambda>x. x \<noteq> 0) xs))"
    unfolding filter_filter by (rule filter_cong) (use low in \<open>auto simp: ci_match_def\<close>)
  also have "\<dots> = [?x]" using xs(2) nx by (simp add: ci_unique_def)
  finally show ?thesis by (simp add: listed_def xs(1))
qed

end

lemma child_if_named:
  assumes "fst (child_if h n e) \<noteq> 0" "plain e"
  obtains s where "snd (child_if h n e) = Some s" "plain s"
    "listed (hivex_node_children h) (hivex_node_name h) n s = [fst (child_if h n e)]"
proof -
  have nz: "fst (hostname_child_ci h n e) \<noteq> 0" "child_if h n e = hostname_child_ci h n e"
    using assms(1) by (auto simp: child_if_def split: if_splits)
  obtain s where s: "snd (hostname_child_ci h n e) = Some s" "lower_name s = lower_name e"
    using child.find_readable [OF nz(1)] by blast
  show thesis using that [of s] s nz child.find_listed [OF nz(1) s(1)] plain_same [OF s(2) assms(2)] by simp
qed

lemma value_if_named:
  assumes "fst (value_if h n e) \<noteq> 0" "plain e"
  obtains s where "snd (value_if h n e) = Some s" "plain s"
    "listed (hivex_node_values h) (hivex_value_key h) n s = [fst (value_if h n e)]"
proof -
  have nz: "fst (hostname_value_ci h n e) \<noteq> 0" "value_if h n e = hostname_value_ci h n e"
    using assms(1) by (auto simp: value_if_def split: if_splits)
  obtain s where s: "snd (hostname_value_ci h n e) = Some s" "lower_name s = lower_name e"
    using val.find_readable [OF nz(1)] by blast
  show thesis using that [of s] s nz val.find_listed [OF nz(1) s(1)] plain_same [OF s(2) assms(2)] by simp
qed

text \<open>A printed path of four keys and a value names the value that was looked up.\<close>

lemma reg_path_named:
  assumes path: "reg_path [snd c0, snd c1, snd c2, snd c3, snd v] = Some s"
    and c: "c0 = hostname_child_ci h (hivex_root h) e0" "c1 = child_if h (fst c0) e1" "c2 = child_if h (fst c1) e2"
      "c3 = child_if h (fst c2) e3" "v = value_if h (fst c3) e4"
    and nz: "fst v \<noteq> 0" and root: "hivex_root h \<noteq> 0" and plain: "plain e0" "plain e1" "plain e2" "plain e3" "plain e4"
  shows "named_values h s = [fst v]"
proof -
  have z: "fst c3 \<noteq> 0" "fst c2 \<noteq> 0" "fst c1 \<noteq> 0" "fst c0 \<noteq> 0"
    using nz c by (auto simp: child_if_def value_if_def split: if_splits)
  obtain s0 where s0: "snd c0 = Some s0" "plain s0" "listed (hivex_node_children h) (hivex_node_name h) (hivex_root h) s0 = [fst c0]"
    using child_if_named [of h "hivex_root h" e0] z root c(1) plain by (auto simp: child_if_def)
  obtain s1 where s1: "snd c1 = Some s1" "plain s1" "listed (hivex_node_children h) (hivex_node_name h) (fst c0) s1 = [fst c1]"
    using child_if_named [of h "fst c0" e1] z c(2) plain by auto
  obtain s2 where s2: "snd c2 = Some s2" "plain s2" "listed (hivex_node_children h) (hivex_node_name h) (fst c1) s2 = [fst c2]"
    using child_if_named [of h "fst c1" e2] z c(3) plain by auto
  obtain s3 where s3: "snd c3 = Some s3" "plain s3" "listed (hivex_node_children h) (hivex_node_name h) (fst c2) s3 = [fst c3]"
    using child_if_named [of h "fst c2" e3] z c(4) plain by auto
  obtain s4 where s4: "snd v = Some s4" "plain s4" "listed (hivex_node_values h) (hivex_value_key h) (fst c3) s4 = [fst v]"
    using value_if_named [of h "fst c3" e4] nz c(5) plain by auto
  have "s = concat (map (\<lambda>x. CHR 0x5C # x) [s0, s1, s2, s3, s4])"
    using path s0 s1 s2 s3 s4 by (simp add: reg_path_def Let_def split: if_splits)
  then have "components s = [s0, s1, s2, s3, s4]"
    using components_concat [of "[s0, s1, s2, s3, s4]"] s0 s1 s2 s3 s4 by simp
  then show ?thesis using s0 s1 s2 s3 s4 by (simp add: named_values_def)
qed

lemma write_paths_for_named:
  assumes ps: "write_paths_for h (hivex_root h) n = Some ps" and n: "unat n \<le> 999" "set_node h (hivex_root h) n \<noteq> 0"
    and root: "hivex_root h \<noteq> 0"
  shows "(\<Union>s \<in> set ps. set (named_values h s)) = name_values h (set_node h (hivex_root h) n)
    \<and> (\<forall>s \<in> set ps. length (named_values h s) = 1)"
proof -
  let ?cs = "hostname_child_ci h (hivex_root h) (cs_name n)"
  let ?sv = "child_if h (fst ?cs) ''Services''"
  let ?ti = "child_if h (fst ?sv) ''Tcpip''"
  let ?pa = "child_if h (fst ?ti) ''Parameters''"
  let ?co = "child_if h (fst ?cs) ''Control''"
  let ?c1 = "child_if h (fst ?co) ''ComputerName''"
  let ?c2 = "child_if h (fst ?c1) ''ComputerName''"
  let ?nv = "value_if h (fst ?pa) ''NV Hostname''"
  let ?hv = "value_if h (fst ?pa) ''Hostname''"
  let ?cv = "value_if h (fst ?c2) ''ComputerName''"
  have nodes: "fst ?pa = tcp_node h (fst ?cs)" "fst ?c2 = computer_node h (fst ?cs)"
    using path3 [of "fst ?cs" h] n(2) unfolding tcp_node_def computer_node_def set_node_def by simp_all
  from ps have nz: "fst ?nv \<noteq> 0" "fst ?hv \<noteq> 0" "fst ?cv \<noteq> 0"
    unfolding write_paths_for_def control_set_name_Some [OF n(1)] option.case
    by (simp_all add: split_beta Let_def string_value_def split: if_splits)
  from ps obtain a b c where abc: "ps = [a, b, c]"
    "reg_path [snd ?cs, snd ?sv, snd ?ti, snd ?pa, snd ?nv] = Some a"
    "reg_path [snd ?cs, snd ?sv, snd ?ti, snd ?pa, snd ?hv] = Some b"
    "reg_path [snd ?cs, snd ?co, snd ?c1, snd ?c2, snd ?cv] = Some c"
    unfolding write_paths_for_def control_set_name_Some [OF n(1)] option.case
    by (auto simp: split_beta Let_def split: if_splits option.splits)
  have "named_values h a = [fst ?nv]"
    by (rule reg_path_named [OF abc(2) refl refl refl refl refl nz(1) root]) (simp_all add: plain_cs_name)
  moreover have "named_values h b = [fst ?hv]"
    by (rule reg_path_named [OF abc(3) refl refl refl refl refl nz(2) root]) (simp_all add: plain_cs_name)
  moreover have "named_values h c = [fst ?cv]"
    by (rule reg_path_named [OF abc(4) refl refl refl refl refl nz(3) root]) (simp_all add: plain_cs_name)
  moreover have "fst ?pa \<noteq> 0" "fst ?c2 \<noteq> 0" using nz by (auto simp: value_if_def split: if_splits)
  ultimately show ?thesis
    using nodes by (auto simp: abc(1) name_values_def set_node_def value_if_def)
qed

lemma write_paths_loop_named:
  assumes "write_paths_loop h (hivex_root h) ns acc = Some ps" "hivex_root h \<noteq> 0"
    "\<forall>n \<in> set ns. unat n \<le> 999 \<and> set_node h (hivex_root h) n \<noteq> 0"
  shows "(\<Union>s \<in> set ps. set (named_values h s)) = (\<Union>s \<in> set acc. set (named_values h s))
      \<union> (\<Union>n \<in> set ns. name_values h (set_node h (hivex_root h) n))
    \<and> ((\<forall>s \<in> set acc. length (named_values h s) = 1) \<longrightarrow> (\<forall>s \<in> set ps. length (named_values h s) = 1))"
  using assms
proof (induction ns arbitrary: acc)
  case (Cons n ns)
  then obtain qs where qs: "write_paths_for h (hivex_root h) n = Some qs" "write_paths_loop h (hivex_root h) ns (acc @ qs) = Some ps"
    by (auto split: if_splits option.splits)
  have q: "(\<Union>s \<in> set qs. set (named_values h s)) = name_values h (set_node h (hivex_root h) n)"
    "\<forall>s \<in> set qs. length (named_values h s) = 1"
    using write_paths_for_named [OF qs(1)] Cons.prems(2,3) by simp_all
  have IH: "(\<Union>s \<in> set ps. set (named_values h s)) = (\<Union>s \<in> set (acc @ qs). set (named_values h s))
      \<union> (\<Union>n \<in> set ns. name_values h (set_node h (hivex_root h) n))"
    "(\<forall>s \<in> set (acc @ qs). length (named_values h s) = 1) \<longrightarrow> (\<forall>s \<in> set ps. length (named_values h s) = 1)"
    using Cons.IH [OF qs(2)] Cons.prems(2,3) by simp_all
  show ?case using IH(2) q(2) unfolding IH(1) set_append UN_Un q(1) by auto
qed simp

text \<open>
  When write paths are listed there are three for each selected control set, each shorter than
  the buffer it is printed to; up to ASCII case they are the documented registry paths, and each names
  an existing string value.
\<close>

lemma write_paths_shape:
  assumes "windows_hostname_write_paths os system = Some out"
  shows "\<exists>h sel. hivex_open os system = Some h \<and> selected_hostname_control_sets h (hivex_root h) = Some sel
    \<and> length out = 3 * length sel \<and> length out \<le> 6 \<and> (\<forall>s \<in> set out. length s < 160)
    \<and> map lower_name out = map lower_name (concat (map (documented_paths \<circ> cs_name) sel))
    \<and> (\<forall>n \<in> set sel. \<forall>v \<in> name_values h (set_node h (hivex_root h) n). string_value h v)"
proof -
  obtain h sel where h: "hivex_open os system = Some h" "selected_hostname_control_sets h (hivex_root h) = Some sel"
    "write_paths_loop h (hivex_root h) sel [] = Some out"
    using assms by (auto simp: windows_hostname_write_paths_def split: if_splits option.splits)
  have ok: "\<forall>n \<in> set sel. unat n \<le> 999 \<and> set_node h (hivex_root h) n \<noteq> 0"
    using selected_facts(4,5) [OF h(2)] by (simp add: set_node_def)
  have "\<forall>v \<in> name_values h (set_node h (hivex_root h) n). string_value h v" if "n \<in> set sel" for n
    using write_paths_loop_Some [OF h(3) ok] ok that write_paths_for_Some(3) by blast
  then show ?thesis
    using write_paths_loop_Some [OF h(3) ok] write_paths_loop_lower [OF h(3)] ok selected_facts(2) [OF h(2)] h by auto
qed

section \<open>Writing the listed values makes verification succeed\<close>

text \<open>A hive in which the given values hold \<open>name\<close> as a string, everything else unchanged.\<close>

definition write_name :: "hivex \<Rightarrow> nat set \<Rightarrow> string \<Rightarrow> hivex" where
  "write_name h V name = h\<lparr>hivex_value_value :=
     (\<lambda>v. if v \<in> V then Some (hive_t_string, utf16le name) else hivex_value_value h v)\<rparr>"

lemma write_name_same [simp]:
  "hostname_child_ci (write_name h V name) = hostname_child_ci h"
  "hostname_value_ci (write_name h V name) = hostname_value_ci h"
  "hivex_root (write_name h V name) = hivex_root h"
  by (auto simp: write_name_def hostname_child_ci_def hostname_value_ci_def fun_eq_iff split: option.splits)

lemma write_name_path [simp]: "hostname_path_ci (write_name h V name) cs ps = hostname_path_ci h cs ps"
  by (induction ps arbitrary: cs) (auto simp: Let_def)

lemma write_name_nodes [simp]:
  "set_node (write_name h V name) = set_node h"
  "tcp_node (write_name h V name) = tcp_node h" "computer_node (write_name h V name) = computer_node h"
  by (auto simp: set_node_def tcp_node_def computer_node_def fun_eq_iff simp del: hostname_path_ci.simps)

lemma write_name_value: "hivex_value_value (write_name h V name) v =
    (if v \<in> V then Some (hive_t_string, utf16le name) else hivex_value_value h v)"
  by (simp add: write_name_def)

lemma write_name_dword:
  assumes "\<forall>v \<in> V. string_value h v"
  shows "hostname_dword (write_name h V name) node key = hostname_dword h node key"
proof (cases "node \<noteq> 0 \<and> fst (hostname_value_ci h node key) \<in> V")
  case True
  then obtain d where "hivex_value_value h (fst (hostname_value_ci h node key)) = Some (hive_t_string, d)"
    using assms by (fastforce simp: string_value_def split: option.splits)
  with True show ?thesis by (simp add: hostname_dword_def Let_def write_name_value)
next
  case False
  then show ?thesis by (cases "node = 0") (simp_all add: hostname_dword_def Let_def write_name_value)
qed

lemma write_name_selected:
  assumes "\<forall>v \<in> V. string_value h v"
  shows "selected_hostname_control_sets (write_name h V name) root = selected_hostname_control_sets h root"
  unfolding selected_hostname_control_sets_def write_name_dword [OF assms] write_name_same ..

text \<open>
  Property C7.  Take a hive for which write paths are listed, and store a valid name as a string in exactly the
  values that the listed paths name, going down from the root by the spelling of the path. Each path names
  exactly one value, and verification of that name then succeeds.
\<close>

theorem write_paths_then_verify:
  assumes "windows_hostname_write_paths os system = Some out"
    and "hivex_open os system = Some h"
    and "valid_windows_hostname name"
    and "os' = os\<lparr>hivex_open := (hivex_open os)(system := Some (write_name h (\<Union>s \<in> set out. set (named_values h s)) name))\<rparr>"
  shows "windows_hostname_inspect_or_verify os' system (Some name) = (True, [])
    \<and> (\<forall>s \<in> set out. length (named_values h s) = 1)"
proof -
  obtain sel where sel: "selected_hostname_control_sets h (hivex_root h) = Some sel"
    and base: "regular os system" "hivex_root h \<noteq> 0" "write_paths_loop h (hivex_root h) sel [] = Some out"
    using assms(1,2) by (auto simp: windows_hostname_write_paths_def split: if_splits option.splits)
  let ?V = "\<Union>n \<in> set sel. name_values h (set_node h (hivex_root h) n)"
  let ?h = "write_name h ?V name"
  have ok: "\<forall>n \<in> set sel. unat n \<le> 999 \<and> set_node h (hivex_root h) n \<noteq> 0"
    using selected_facts(4,5) [OF sel] by (simp add: set_node_def)
  have named: "(\<Union>s \<in> set out. set (named_values h s)) = ?V" "\<forall>s \<in> set out. length (named_values h s) = 1"
    using write_paths_loop_named [OF base(3,2) ok] by simp_all
  note each = write_paths_loop_Some [OF base(3) ok]
  have str: "\<forall>v \<in> ?V. string_value h v" using each ok write_paths_for_Some(3) by blast
  have "holds_everywhere ?h (set_node h (hivex_root h) n) name" if n: "n \<in> set sel" for n
  proof -
    let ?cs = "set_node h (hivex_root h) n"
    have nodes: "tcp_node h ?cs \<noteq> 0 \<and> computer_node h ?cs \<noteq> 0"
      using each ok n write_paths_for_Some(2) by blast
    have "v \<noteq> 0 \<and> hivex_value_value ?h v = Some (hive_t_string, utf16le name)" if "v \<in> name_values h ?cs" for v
      using that n str by (auto simp: write_name_def string_value_def)
    with nodes show ?thesis by (simp add: holds_everywhere_def stores_name_def name_values_def Let_def)
  qed
  moreover have "regular os' system" using base(1) assms(4) by (simp add: regular_def)
  moreover have "hivex_open os' system = Some ?h" unfolding assms(4) named(1) by simp
  moreover have "selected_hostname_control_sets ?h (hivex_root ?h) = Some sel"
    using sel by (simp add: write_name_selected [OF str])
  ultimately show ?thesis using base(2) assms(3) named(2) by (simp add: verify_iff)
qed

section \<open>A concrete hive\<close>

definition demo_name :: "nat \<Rightarrow> string option" where
  "demo_name = map_of [(2, ''Select''), (3, ''ControlSet001''), (4, ''services''), (5, ''Tcpip''), (6, ''Parameters''),
     (7, ''Control''), (8, ''ComputerName''), (9, ''ComputerName'')]"

definition demo_key :: "nat \<Rightarrow> string option" where
  "demo_key = map_of [(20, ''Current''), (21, ''Default''), (22, ''NV Hostname''), (23, ''HostName''), (24, ''ComputerName'')]"

definition demo_hive :: hivex where
  "demo_hive = \<lparr>hivex_root = 1,
     hivex_node_children = map_of [(1, [2, 3]), (3, [4, 7]), (4, [5]), (5, [6]), (7, [8]), (8, [9])],
     hivex_node_name = demo_name,
     hivex_node_values = map_of [(2, [20, 21]), (6, [22, 23]), (9, [24])],
     hivex_value_key = demo_key,
     hivex_value_value = map_of [(20, (hive_t_dword, [1, 0, 0, 0])), (21, (hive_t_dword, [1, 0, 0, 0])),
       (22, (hive_t_string, [80, 0, 67, 0, 0, 0])), (23, (hive_t_string, [80, 0, 67, 0, 0, 0])),
       (24, (hive_t_string, [80, 0, 67, 0, 0, 0]))]\<rparr>"

definition demo_os :: host_os where
  "demo_os = \<lparr>lstat_kind_of = (\<lambda>p. if p = ''SYSTEM'' then Some L_REG else None),
     hivex_open = (\<lambda>p. if p = ''SYSTEM'' then Some demo_hive else None)\<rparr>"

definition demo_paths :: "string list" where
  "demo_paths = [[CHR 0x5C] @ ''ControlSet001'' @ [CHR 0x5C] @ ''services'' @ [CHR 0x5C] @ ''Tcpip'' @ [CHR 0x5C] @ ''Parameters'' @ [CHR 0x5C] @ ''NV Hostname'',
    [CHR 0x5C] @ ''ControlSet001'' @ [CHR 0x5C] @ ''services'' @ [CHR 0x5C] @ ''Tcpip'' @ [CHR 0x5C] @ ''Parameters'' @ [CHR 0x5C] @ ''HostName'',
    [CHR 0x5C] @ ''ControlSet001'' @ [CHR 0x5C] @ ''Control'' @ [CHR 0x5C] @ ''ComputerName'' @ [CHR 0x5C] @ ''ComputerName'' @ [CHR 0x5C] @ ''ComputerName'']"

lemma demo_write_paths: "windows_hostname_write_paths demo_os ''SYSTEM'' = Some demo_paths"
  by code_simp

lemma demo_selected: "selected_hostname_control_sets demo_hive (hivex_root demo_hive) = Some [1]"
  by code_simp

lemma demo_valid: "valid_windows_hostname ''LAB-7''"
  by code_simp

lemma demo_open: "hivex_open demo_os ''SYSTEM'' = Some demo_hive"
  by (simp add: demo_os_def)

lemma demo_named: "map (named_values demo_hive) demo_paths = [[22], [23], [24]]"
  by code_simp

lemma write_paths_shape_witness:
  "windows_hostname_write_paths demo_os ''SYSTEM'' = Some demo_paths \<and> length demo_paths = 3
    \<and> list_all (\<lambda>s. length s < 160) demo_paths"
  using write_paths_shape [OF demo_write_paths] demo_write_paths demo_selected demo_open by (auto simp: list_all_iff)

theorem write_paths_then_verify_witness:
  "windows_hostname_inspect_or_verify (demo_os\<lparr>hivex_open := (hivex_open demo_os)(''SYSTEM'' := Some (write_name demo_hive
     (\<Union>s \<in> set demo_paths. set (named_values demo_hive s)) ''LAB-7''))\<rparr>) ''SYSTEM'' (Some ''LAB-7'') = (True, [])
   \<and> map (named_values demo_hive) demo_paths = [[22], [23], [24]]"
  using write_paths_then_verify [OF demo_write_paths demo_open demo_valid refl] demo_named by blast

lemma demo_holds:
  "regular demo_os ''SYSTEM''" "hivex_root demo_hive \<noteq> 0"
  "valid_windows_hostname ''PC''"
  "holds_everywhere demo_hive (set_node demo_hive (hivex_root demo_hive) 1) ''PC''"
  "\<not> holds_everywhere demo_hive (set_node demo_hive (hivex_root demo_hive) 1) ''PD''"
  by code_simp+

theorem verify_exact_witness:
  "windows_hostname_inspect_or_verify demo_os ''SYSTEM'' (Some ''PC'') = (True, [])
   \<and> windows_hostname_inspect_or_verify demo_os ''SYSTEM'' (Some ''PD'') = (False, [])"
  unfolding verify_exact demo_open demo_selected using demo_holds by (simp add: demo_open demo_selected)

end
