(* ===== verification/Mmio.thy ===== *)
theory Mmio
  imports Prelude
begin

text \<open>
  What the r8125 driver runs on.  The network controller is the record \<open>'d mmio\<close> of the register
  and configuration-space accesses it answers, over a device state \<open>'d\<close> of its own: a read returns
  a value and may change the device, so does the passing of time (\<open>udelay\<close>).  The driver's state
  \<open>'d nic\<close> has the device, the log of all accesses made to it in order, and the fields of
  \<open>struct rtl8125_private\<close> (\<open>r8125.h\<close>) that the modelled functions use, at their widths.  The
  macros \<open>RTL_R8\<close> ... \<open>RTL_W32\<close> are the only way to the device.
\<close>

section \<open>The controller and the driver's state\<close>

record 'd mmio =
  readb :: "'d \<Rightarrow> nat \<Rightarrow> u8 \<times> 'd"
  readw :: "'d \<Rightarrow> nat \<Rightarrow> u16 \<times> 'd"
  readl :: "'d \<Rightarrow> nat \<Rightarrow> u32 \<times> 'd"
  writeb :: "'d \<Rightarrow> nat \<Rightarrow> u8 \<Rightarrow> 'd"
  writew :: "'d \<Rightarrow> nat \<Rightarrow> u16 \<Rightarrow> 'd"
  writel :: "'d \<Rightarrow> nat \<Rightarrow> u32 \<Rightarrow> 'd"
  elapse :: "'d \<Rightarrow> nat \<Rightarrow> 'd"
  pci_read :: "'d \<Rightarrow> u32 \<Rightarrow> u8 \<times> 'd"
  pci_write :: "'d \<Rightarrow> u32 \<Rightarrow> u8 \<Rightarrow> 'd"

datatype io_event =
    Rd8 nat u8 | Rd16 nat u16 | Rd32 nat u32
  | Wr8 nat u8 | Wr16 nat u16 | Wr32 nat u32
  | Delay nat | PciRd u32 u8 | PciWr u32 u8

datatype rtl8125_fc_mode = rtl8125_fc_none | rtl8125_fc_rx_pause | rtl8125_fc_tx_pause | rtl8125_fc_full | rtl8125_fc_default

text \<open>
  An \<open>int\<close> that only holds a register value is a 32-bit word.  \<open>RxConfigMask\<close> is the entry of
  \<open>rtl_chip_info\<close> for the chip, \<open>irq_requested i\<close> is \<open>irq_tbl[i].requested\<close>.
\<close>

record 'd nic =
  hw :: 'd
  io_log :: "io_event list"
  mcfg :: nat
  cur_page :: u16
  rtk_enable_diag :: u8
  HwSuppDashVer :: u8
  HwSuppOcpChannelVer :: u8
  AllowAccessDashOcp :: u8
  DASH :: u8
  HwSuppCheckPhyDisableModeVer :: u8
  HwSuppIsrVer :: u8
  HwCurrIsrVer :: u8
  HwSuppIntMitiVer :: u8
  HwSuppNumTxQueues :: u16
  HwSuppNumRxQueues :: u16
  num_tx_rings :: nat
  num_rx_rings :: nat
  intr_mask :: u32
  timer_intr_mask :: u32
  use_timer_interrupt :: u8
  isr_reg :: "nat \<Rightarrow> u16"
  imr_reg :: "nat \<Rightarrow> u16"
  eeprom_type :: u8
  eeprom_len :: u16
  autoneg :: u8
  duplex :: u8
  speed :: u32
  advertising :: u64
  fcpause :: rtl8125_fc_mode
  HwSuppMaxPhyLinkSpeed :: u32
  phy_auto_nego_reg :: u32
  phy_1000_ctrl_reg :: u32
  phy_2500_ctrl_reg :: u32
  phy_reg_aner :: u16
  phy_reg_anlpar :: u16
  phy_reg_gbsr :: u16
  phy_reg_status_2500 :: u16
  wol_opts :: u32
  HwSuppD0SpeedUpVer :: u8
  D0SpeedUpSpeed :: u8
  resume_not_chg_speed :: u8
  HwFiberModeVer :: u32
  HwFiberStat :: u32
  rtl8125_rx_config :: u32
  RxConfigMask :: u32
  org_mac_addr :: "u8 list"
  random_mac :: u8
  keep_intr_cnt :: u32
  features :: u32
  irq_requested :: "nat \<Rightarrow> bool"

type_synonym ('d, 'a) drv = "('d nic, 'a) state"

text \<open>\<open>enum mcfg\<close>: the chip variants are numbered from 2.\<close>

abbreviation (input) CFG_METHOD_DEFAULT :: nat where "CFG_METHOD_DEFAULT \<equiv> 13"

section \<open>Register access\<close>

definition RTL_R8 :: "'d mmio \<Rightarrow> nat \<Rightarrow> ('d, u8) drv" where
  "RTL_R8 io r = State (\<lambda>s. let (v, d) = readb io (hw s) r in (v, s\<lparr>hw := d, io_log := io_log s @ [Rd8 r v]\<rparr>))"

definition RTL_R16 :: "'d mmio \<Rightarrow> nat \<Rightarrow> ('d, u16) drv" where
  "RTL_R16 io r = State (\<lambda>s. let (v, d) = readw io (hw s) r in (v, s\<lparr>hw := d, io_log := io_log s @ [Rd16 r v]\<rparr>))"

definition RTL_R32 :: "'d mmio \<Rightarrow> nat \<Rightarrow> ('d, u32) drv" where
  "RTL_R32 io r = State (\<lambda>s. let (v, d) = readl io (hw s) r in (v, s\<lparr>hw := d, io_log := io_log s @ [Rd32 r v]\<rparr>))"

definition RTL_W8 :: "'d mmio \<Rightarrow> nat \<Rightarrow> u8 \<Rightarrow> ('d, unit) drv" where
  "RTL_W8 io r v = State (\<lambda>s. ((), s\<lparr>hw := writeb io (hw s) r v, io_log := io_log s @ [Wr8 r v]\<rparr>))"

definition RTL_W16 :: "'d mmio \<Rightarrow> nat \<Rightarrow> u16 \<Rightarrow> ('d, unit) drv" where
  "RTL_W16 io r v = State (\<lambda>s. ((), s\<lparr>hw := writew io (hw s) r v, io_log := io_log s @ [Wr16 r v]\<rparr>))"

definition RTL_W32 :: "'d mmio \<Rightarrow> nat \<Rightarrow> u32 \<Rightarrow> ('d, unit) drv" where
  "RTL_W32 io r v = State (\<lambda>s. ((), s\<lparr>hw := writel io (hw s) r v, io_log := io_log s @ [Wr32 r v]\<rparr>))"

definition udelay :: "'d mmio \<Rightarrow> nat \<Rightarrow> ('d, unit) drv" where
  "udelay io t = State (\<lambda>s. ((), s\<lparr>hw := elapse io (hw s) t, io_log := io_log s @ [Delay t]\<rparr>))"

definition pci_read_config_byte :: "'d mmio \<Rightarrow> u32 \<Rightarrow> ('d, u8) drv" where
  "pci_read_config_byte io a = State (\<lambda>s. let (v, d) = pci_read io (hw s) a in (v, s\<lparr>hw := d, io_log := io_log s @ [PciRd a v]\<rparr>))"

definition pci_write_config_byte :: "'d mmio \<Rightarrow> u32 \<Rightarrow> u8 \<Rightarrow> ('d, unit) drv" where
  "pci_write_config_byte io a v = State (\<lambda>s. ((), s\<lparr>hw := pci_write io (hw s) a v, io_log := io_log s @ [PciWr a v]\<rparr>))"

text \<open>
  The driver's polling loops: \<open>for (i = 0; i < n; i++) { udelay(t); if (ready(read())) break; }\<close>,
  telling whether the loop was left by the \<open>break\<close>.
\<close>

fun poll :: "'d mmio \<Rightarrow> nat \<Rightarrow> ('d, 'v) drv \<Rightarrow> ('v \<Rightarrow> bool) \<Rightarrow> nat \<Rightarrow> ('d, bool) drv" where
  "poll io t rd ready n =
     (if n = 0 then State_Monad.return False
      else do {
        udelay io t;
        v \<leftarrow> rd;
        if ready v then State_Monad.return True else poll io t rd ready (n - 1)
      })"

declare poll.simps [simp del]

section \<open>What every access keeps\<close>

text \<open>\<open>same_priv\<close>: nothing but the device and the log differs.\<close>

definition same_priv :: "'d nic \<Rightarrow> 'd nic \<Rightarrow> bool" where
  "same_priv s s' \<longleftrightarrow> s'\<lparr>hw := hw s, io_log := io_log s\<rparr> = s"

lemma same_priv_refl [simp, intro!]: "same_priv s s"
  by (simp add: same_priv_def)

lemma same_priv_step [simp]: "same_priv s (s'\<lparr>hw := d, io_log := l\<rparr>) \<longleftrightarrow> same_priv s s'"
  by (cases s, cases s') (simp add: same_priv_def)

lemma same_priv_trans: "same_priv a b \<Longrightarrow> same_priv b c \<Longrightarrow> same_priv a c"
  by (cases a, cases b, cases c) (simp add: same_priv_def)

lemma valid_R8 [hoare]:
  "valid (\<lambda>s. \<forall>v d. readb io (hw s) r = (v, d) \<longrightarrow> Q v (s\<lparr>hw := d, io_log := io_log s @ [Rd8 r v]\<rparr>)) (RTL_R8 io r) Q"
  by (auto simp: valid_def RTL_R8_def split: prod.splits)

lemma valid_R16 [hoare]:
  "valid (\<lambda>s. \<forall>v d. readw io (hw s) r = (v, d) \<longrightarrow> Q v (s\<lparr>hw := d, io_log := io_log s @ [Rd16 r v]\<rparr>)) (RTL_R16 io r) Q"
  by (auto simp: valid_def RTL_R16_def split: prod.splits)

lemma valid_R32 [hoare]:
  "valid (\<lambda>s. \<forall>v d. readl io (hw s) r = (v, d) \<longrightarrow> Q v (s\<lparr>hw := d, io_log := io_log s @ [Rd32 r v]\<rparr>)) (RTL_R32 io r) Q"
  by (auto simp: valid_def RTL_R32_def split: prod.splits)

lemma valid_W8 [hoare]:
  "valid (\<lambda>s. Q () (s\<lparr>hw := writeb io (hw s) r v, io_log := io_log s @ [Wr8 r v]\<rparr>)) (RTL_W8 io r v) Q"
  by (auto simp: valid_def RTL_W8_def)

lemma valid_W16 [hoare]:
  "valid (\<lambda>s. Q () (s\<lparr>hw := writew io (hw s) r v, io_log := io_log s @ [Wr16 r v]\<rparr>)) (RTL_W16 io r v) Q"
  by (auto simp: valid_def RTL_W16_def)

lemma valid_W32 [hoare]:
  "valid (\<lambda>s. Q () (s\<lparr>hw := writel io (hw s) r v, io_log := io_log s @ [Wr32 r v]\<rparr>)) (RTL_W32 io r v) Q"
  by (auto simp: valid_def RTL_W32_def)

lemma valid_udelay [hoare]:
  "valid (\<lambda>s. Q () (s\<lparr>hw := elapse io (hw s) t, io_log := io_log s @ [Delay t]\<rparr>)) (udelay io t) Q"
  by (auto simp: valid_def udelay_def)

lemma valid_pci_read [hoare]:
  "valid (\<lambda>s. \<forall>v d. pci_read io (hw s) a = (v, d) \<longrightarrow> Q v (s\<lparr>hw := d, io_log := io_log s @ [PciRd a v]\<rparr>)) (pci_read_config_byte io a) Q"
  by (auto simp: valid_def pci_read_config_byte_def split: prod.splits)

lemma valid_pci_write [hoare]:
  "valid (\<lambda>s. Q () (s\<lparr>hw := pci_write io (hw s) a v, io_log := io_log s @ [PciWr a v]\<rparr>)) (pci_write_config_byte io a v) Q"
  by (auto simp: valid_def pci_write_config_byte_def)

text \<open>An invariant of the polled state that one more turn of the loop keeps holds at its end.\<close>

lemma valid_poll_inv:
  assumes "valid I rd (\<lambda>_. I)" "valid I (udelay io t) (\<lambda>_. I)"
  shows "valid I (poll io t rd ready n) (\<lambda>_. I)"
proof (induction n)
  case 0
  then show ?case by (simp add: poll.simps valid_def)
next
  case (Suc n)
  have "valid I (if ready v then State_Monad.return True else poll io t rd ready (Suc n - 1)) (\<lambda>_. I)" for v
    using Suc by (simp add: valid_def)
  then have "valid I (do {
      udelay io t;
      v \<leftarrow> rd;
      if ready v then State_Monad.return True else poll io t rd ready (Suc n - 1)}) (\<lambda>_. I)"
    by (intro valid_bind [OF valid_bind [OF _ assms(1)] assms(2)])
  then show ?case by (subst poll.simps) simp
qed

section \<open>Exact runs\<close>

text \<open>
  Where a part of the device is a state machine of its own, \<open>V\<close> finds its state in the device's, and
  \<open>runs V m C x C'\<close> says that from the state \<open>C\<close> of that part \<open>m\<close> returns \<open>x\<close>, leaves it in \<open>C'\<close> and the
  driver's fields alone.
\<close>

definition views :: "('d \<Rightarrow> 'c) \<Rightarrow> 'c \<Rightarrow> 'd nic \<Rightarrow> 'd nic \<Rightarrow> bool" where
  "views V C s0 s \<longleftrightarrow> V (hw s) = C \<and> same_priv s0 s"

definition runs :: "('d \<Rightarrow> 'c) \<Rightarrow> ('d, 'a) drv \<Rightarrow> 'c \<Rightarrow> 'a \<Rightarrow> 'c \<Rightarrow> bool" where
  "runs V m C x C' \<longleftrightarrow> (\<forall>s0. valid (views V C s0) m (\<lambda>y s. y = x \<and> views V C' s0 s))"

lemma runs_bind:
  assumes "runs V m C x C1" "runs V (f x) C1 y C2"
  shows "runs V (State_Monad.bind m f) C y C2"
  unfolding runs_def
proof
  fix s0
  show "valid (views V C s0) (State_Monad.bind m f) (\<lambda>z s. z = y \<and> views V C2 s0 s)"
  proof (rule valid_bind)
    show "valid (views V C s0) m (\<lambda>z s. z = x \<and> views V C1 s0 s)" using assms(1) by (simp add: runs_def)
    show "valid (\<lambda>s. z = x \<and> views V C1 s0 s) (f z) (\<lambda>z s. z = y \<and> views V C2 s0 s)" for z
      using assms(2) by (cases "z = x") (simp_all add: runs_def valid_def)
  qed
qed

lemma runs_return: "runs V (State_Monad.return x) C x C"
  by (simp add: runs_def valid_def)

lemma runsD:
  assumes "runs V m C x C'" "V (hw s) = C" "run_state m s = (y, s')"
  shows "y = x \<and> V (hw s') = C' \<and> same_priv s s'"
  using assms unfolding runs_def valid_def views_def by (metis fst_conv snd_conv same_priv_refl)

section \<open>Counting accesses\<close>

text \<open>The log only grows; \<open>takes_at_most k m\<close> bounds the accesses and delays of \<open>m\<close> on every device.\<close>

definition takes_at_most :: "nat \<Rightarrow> ('d, 'a) drv \<Rightarrow> bool" where
  "takes_at_most k m \<longleftrightarrow> (\<forall>s. \<exists>es. io_log (snd (run_state m s)) = io_log s @ es \<and> length es \<le> k)"

named_theorems cost \<open>bounds on the number of accesses of a driver routine\<close>

lemma takes_return [cost]: "takes_at_most 0 (State_Monad.return x)"
  by (simp add: takes_at_most_def)

lemma takes_modify: "(\<And>s. io_log (f s) = io_log s) \<Longrightarrow> takes_at_most 0 (modify f)"
  by (simp add: takes_at_most_def)

lemma takes_gets [cost]: "takes_at_most 0 (gets f)"
  by (simp add: takes_at_most_def)

lemma takes_access [cost]:
  "takes_at_most 1 (RTL_R8 io r)" "takes_at_most 1 (RTL_R16 io r)" "takes_at_most 1 (RTL_R32 io r)"
  "takes_at_most 1 (RTL_W8 io r v8)" "takes_at_most 1 (RTL_W16 io r v16)" "takes_at_most 1 (RTL_W32 io r v32)"
  "takes_at_most 1 (udelay io t)" "takes_at_most 1 (pci_read_config_byte io a)"
  "takes_at_most 1 (pci_write_config_byte io a v8)"
  by (simp_all add: takes_at_most_def RTL_R8_def RTL_R16_def RTL_R32_def RTL_W8_def RTL_W16_def RTL_W32_def
      udelay_def pci_read_config_byte_def pci_write_config_byte_def split_beta)

lemma takes_bind [cost]:
  assumes "\<And>x. takes_at_most k2 (f x)" "takes_at_most k1 m"
  shows "takes_at_most (k1 + k2) (State_Monad.bind m f)"
  unfolding takes_at_most_def
proof
  fix s
  obtain x s1 where m: "run_state m s = (x, s1)" by (cases "run_state m s")
  obtain es where es: "io_log s1 = io_log s @ es" "length es \<le> k1"
    using assms(2) m unfolding takes_at_most_def by (metis snd_conv)
  obtain fs where fs: "io_log (snd (run_state (f x) s1)) = io_log s1 @ fs" "length fs \<le> k2"
    using assms(1) unfolding takes_at_most_def by blast
  show "\<exists>es. io_log (snd (run_state (State_Monad.bind m f) s)) = io_log s @ es \<and> length es \<le> k1 + k2"
    using es fs m by (intro exI [of _ "es @ fs"]) simp
qed

lemma takes_weaken: "takes_at_most k m \<Longrightarrow> k \<le> k' \<Longrightarrow> takes_at_most k' m"
  unfolding takes_at_most_def by (meson order_trans)

lemma takes_if [cost]:
  "takes_at_most k1 m1 \<Longrightarrow> takes_at_most k2 m2 \<Longrightarrow> takes_at_most (max k1 k2) (if b then m1 else m2)"
  by (auto intro: takes_weaken)

lemma takes_poll [cost]:
  assumes "takes_at_most k rd"
  shows "takes_at_most (n * (k + 1)) (poll io t rd ready n)"
proof (induction n)
  case 0
  then show ?case by (simp add: poll.simps takes_return)
next
  case (Suc n)
  have "takes_at_most (max 0 (n * (k + 1))) (if ready v then State_Monad.return True else poll io t rd ready (Suc n - 1))" for v
    using Suc by (simp add: takes_weaken [OF takes_return])
  then have "takes_at_most (1 + (k + max 0 (n * (k + 1)))) (do {
      udelay io t;
      v \<leftarrow> rd;
      if ready v then State_Monad.return True else poll io t rd ready (Suc n - 1)})"
    by (intro takes_bind [OF takes_bind [OF _ assms]] takes_access)
  then have "takes_at_most (1 + (k + max 0 (n * (k + 1)))) (poll io t rd ready (Suc n))"
    by (subst poll.simps) simp
  then show ?case by (rule takes_weaken) simp
qed

end
