(* ===== verification/Access.thy ===== *)
theory Access
  imports Mmio
begin

text \<open>
  The indirect register channels of the r8125 driver (\<open>r8125_n.c\<close>): PHY registers behind \<open>PHYOCP\<close>,
  MAC registers behind \<open>MACOCP\<close>, PCIe PHY registers behind \<open>EPHYAR\<close>, and configuration space behind
  \<open>CSIAR\<close>/\<open>CSIDR\<close>.  Each access writes a command to a control register and polls its flag bit a
  bounded number of times.  The functions are the code's; \<open>WARN_ON_ONCE\<close> prints only and is left out.

  What the chip promises is stated as predicates on the device (\<open>chan16_law\<close>, \<open>mac_law\<close>,
  \<open>chan32_law\<close>): a command is finished within the polls the driver makes.  The locale
  \<open>reg_channel\<close> is what the rest of the driver relies on: reads return what was last written to the
  register and change no register.  It is interpreted for each channel.
\<close>

section \<open>Constants\<close>

abbreviation (input) CSIDR :: nat where "CSIDR \<equiv> 0x64"
abbreviation (input) CSIAR :: nat where "CSIAR \<equiv> 0x68"
abbreviation (input) EPHYAR :: nat where "EPHYAR \<equiv> 0x80"
abbreviation (input) MACOCP :: nat where "MACOCP \<equiv> 0xB0"
abbreviation (input) PHYOCP :: nat where "PHYOCP \<equiv> 0xB8"

definition R8125_CHANNEL_WAIT_COUNT :: nat where "R8125_CHANNEL_WAIT_COUNT = 20000"
definition R8125_CHANNEL_WAIT_TIME :: nat where "R8125_CHANNEL_WAIT_TIME = 1"
definition R8125_CHANNEL_EXIT_DELAY_TIME :: nat where "R8125_CHANNEL_EXIT_DELAY_TIME = 20"

text \<open>Bit 31 is the flag (and the write command) of every channel.\<close>

definition chan_flag :: u32 where "chan_flag = 0x80000000"

definition flag_set :: "u32 \<Rightarrow> bool" where
  "flag_set v \<longleftrightarrow> v AND chan_flag \<noteq> 0"

definition wait_flag :: "'d mmio \<Rightarrow> nat \<Rightarrow> ('d, bool) drv" where
  "wait_flag io r = poll io R8125_CHANNEL_WAIT_TIME (RTL_R32 io r) flag_set R8125_CHANNEL_WAIT_COUNT"

definition wait_no_flag :: "'d mmio \<Rightarrow> nat \<Rightarrow> ('d, bool) drv" where
  "wait_no_flag io r = poll io R8125_CHANNEL_WAIT_TIME (RTL_R32 io r) (\<lambda>v. \<not> flag_set v) R8125_CHANNEL_WAIT_COUNT"

section \<open>PHY registers\<close>

definition map_phy_ocp_addr :: "u16 \<Rightarrow> u8 \<Rightarrow> u16" where
  "map_phy_ocp_addr PageNum RegNum =
     (let (OcpPageNum, OcpRegNum) =
            (if PageNum = 0 then (0x0A40 + ucast (RegNum div 8), 0x10 + RegNum mod 8)
             else (PageNum, RegNum));
          OcpPageNum = push_bit 4 OcpPageNum
      in if OcpRegNum < 16 then 0
         else OcpPageNum + ucast (push_bit 1 (OcpRegNum - 16)))"

definition mdio_real_direct_write_phy_ocp :: "'d mmio \<Rightarrow> u16 \<Rightarrow> u16 \<Rightarrow> ('d, unit) drv" where
  "mdio_real_direct_write_phy_ocp io RegAddr value = do {
     let data32 = push_bit 16 (ucast (RegAddr div 2)) OR (chan_flag OR ucast value);
     RTL_W32 io PHYOCP data32;
     wait_no_flag io PHYOCP;
     State_Monad.return ()
   }"

definition rtl8125_mdio_direct_write_phy_ocp :: "'d mmio \<Rightarrow> u16 \<Rightarrow> u16 \<Rightarrow> ('d, unit) drv" where
  "rtl8125_mdio_direct_write_phy_ocp io RegAddr value = do {
     diag \<leftarrow> gets rtk_enable_diag;
     if diag \<noteq> 0 then State_Monad.return () else mdio_real_direct_write_phy_ocp io RegAddr value
   }"

definition rtl8125_mdio_real_write_phy_ocp :: "'d mmio \<Rightarrow> u16 \<Rightarrow> u32 \<Rightarrow> u32 \<Rightarrow> ('d, unit) drv" where
  "rtl8125_mdio_real_write_phy_ocp io PageNum RegAddr value =
     mdio_real_direct_write_phy_ocp io (map_phy_ocp_addr PageNum (ucast RegAddr)) (ucast value)"

definition mdio_real_write :: "'d mmio \<Rightarrow> u16 \<Rightarrow> u16 \<Rightarrow> ('d, unit) drv" where
  "mdio_real_write io RegAddr value =
     (if RegAddr = 0x1F then modify (\<lambda>s. s\<lparr>cur_page := value\<rparr>)
      else do {
        page \<leftarrow> gets cur_page;
        rtl8125_mdio_real_write_phy_ocp io page (ucast RegAddr) (ucast value)
      })"

definition rtl8125_mdio_write :: "'d mmio \<Rightarrow> u16 \<Rightarrow> u16 \<Rightarrow> ('d, unit) drv" where
  "rtl8125_mdio_write io RegAddr value = do {
     diag \<leftarrow> gets rtk_enable_diag;
     if diag \<noteq> 0 then State_Monad.return () else mdio_real_write io RegAddr value
   }"

definition rtl8125_mdio_prot_write :: "'d mmio \<Rightarrow> u32 \<Rightarrow> u32 \<Rightarrow> ('d, unit) drv" where
  "rtl8125_mdio_prot_write io RegAddr value = mdio_real_write io (ucast RegAddr) (ucast value)"

definition rtl8125_mdio_prot_direct_write_phy_ocp :: "'d mmio \<Rightarrow> u32 \<Rightarrow> u32 \<Rightarrow> ('d, unit) drv" where
  "rtl8125_mdio_prot_direct_write_phy_ocp io RegAddr value =
     mdio_real_direct_write_phy_ocp io (ucast RegAddr) (ucast value)"

definition mdio_real_direct_read_phy_ocp :: "'d mmio \<Rightarrow> u16 \<Rightarrow> ('d, u32) drv" where
  "mdio_real_direct_read_phy_ocp io RegAddr = do {
     let data32 = push_bit 16 (ucast (RegAddr div 2));
     RTL_W32 io PHYOCP data32;
     wait_flag io PHYOCP;
     v \<leftarrow> RTL_R32 io PHYOCP;
     State_Monad.return (v AND 0xFFFF)
   }"

definition rtl8125_mdio_direct_read_phy_ocp :: "'d mmio \<Rightarrow> u16 \<Rightarrow> ('d, u32) drv" where
  "rtl8125_mdio_direct_read_phy_ocp io RegAddr = do {
     diag \<leftarrow> gets rtk_enable_diag;
     if diag \<noteq> 0 then State_Monad.return 0xffffffff else mdio_real_direct_read_phy_ocp io RegAddr
   }"

definition rtl8125_mdio_real_read_phy_ocp :: "'d mmio \<Rightarrow> u16 \<Rightarrow> u32 \<Rightarrow> ('d, u32) drv" where
  "rtl8125_mdio_real_read_phy_ocp io PageNum RegAddr =
     mdio_real_direct_read_phy_ocp io (map_phy_ocp_addr PageNum (ucast RegAddr))"

definition mdio_real_read :: "'d mmio \<Rightarrow> u16 \<Rightarrow> ('d, u32) drv" where
  "mdio_real_read io RegAddr = do {
     page \<leftarrow> gets cur_page;
     rtl8125_mdio_real_read_phy_ocp io page (ucast RegAddr)
   }"

definition rtl8125_mdio_read :: "'d mmio \<Rightarrow> u16 \<Rightarrow> ('d, u32) drv" where
  "rtl8125_mdio_read io RegAddr = do {
     diag \<leftarrow> gets rtk_enable_diag;
     if diag \<noteq> 0 then State_Monad.return 0xffffffff else mdio_real_read io RegAddr
   }"

definition rtl8125_mdio_prot_read :: "'d mmio \<Rightarrow> u32 \<Rightarrow> ('d, u32) drv" where
  "rtl8125_mdio_prot_read io RegAddr = mdio_real_read io (ucast RegAddr)"

definition rtl8125_mdio_prot_direct_read_phy_ocp :: "'d mmio \<Rightarrow> u32 \<Rightarrow> ('d, u32) drv" where
  "rtl8125_mdio_prot_direct_read_phy_ocp io RegAddr = mdio_real_direct_read_phy_ocp io (ucast RegAddr)"

definition rtl8125_clear_and_set_eth_phy_bit :: "'d mmio \<Rightarrow> u8 \<Rightarrow> u16 \<Rightarrow> u16 \<Rightarrow> ('d, unit) drv" where
  "rtl8125_clear_and_set_eth_phy_bit io addr clearmask setmask = do {
     v \<leftarrow> rtl8125_mdio_read io (ucast addr);
     rtl8125_mdio_write io (ucast addr) ((ucast v AND NOT clearmask) OR setmask)
   }"

definition rtl8125_clear_eth_phy_bit :: "'d mmio \<Rightarrow> u8 \<Rightarrow> u16 \<Rightarrow> ('d, unit) drv" where
  "rtl8125_clear_eth_phy_bit io addr msk = rtl8125_clear_and_set_eth_phy_bit io addr msk 0"

definition rtl8125_set_eth_phy_bit :: "'d mmio \<Rightarrow> u8 \<Rightarrow> u16 \<Rightarrow> ('d, unit) drv" where
  "rtl8125_set_eth_phy_bit io addr msk = rtl8125_clear_and_set_eth_phy_bit io addr 0 msk"

definition rtl8125_clear_and_set_eth_phy_ocp_bit :: "'d mmio \<Rightarrow> u16 \<Rightarrow> u16 \<Rightarrow> u16 \<Rightarrow> ('d, unit) drv" where
  "rtl8125_clear_and_set_eth_phy_ocp_bit io addr clearmask setmask = do {
     v \<leftarrow> rtl8125_mdio_direct_read_phy_ocp io addr;
     rtl8125_mdio_direct_write_phy_ocp io addr ((ucast v AND NOT clearmask) OR setmask)
   }"

definition rtl8125_clear_eth_phy_ocp_bit :: "'d mmio \<Rightarrow> u16 \<Rightarrow> u16 \<Rightarrow> ('d, unit) drv" where
  "rtl8125_clear_eth_phy_ocp_bit io addr msk = rtl8125_clear_and_set_eth_phy_ocp_bit io addr msk 0"

definition rtl8125_set_eth_phy_ocp_bit :: "'d mmio \<Rightarrow> u16 \<Rightarrow> u16 \<Rightarrow> ('d, unit) drv" where
  "rtl8125_set_eth_phy_ocp_bit io addr msk = rtl8125_clear_and_set_eth_phy_ocp_bit io addr 0 msk"

section \<open>MAC registers\<close>

definition rtl8125_mac_ocp_write :: "'d mmio \<Rightarrow> u16 \<Rightarrow> u16 \<Rightarrow> ('d, unit) drv" where
  "rtl8125_mac_ocp_write io reg_addr value = do {
     let data32 = (push_bit 16 (ucast (reg_addr div 2)) + ucast value) OR chan_flag;
     RTL_W32 io MACOCP data32
   }"

definition rtl8125_mac_ocp_read :: "'d mmio \<Rightarrow> u16 \<Rightarrow> ('d, u16) drv" where
  "rtl8125_mac_ocp_read io reg_addr = do {
     let data32 = push_bit 16 (ucast (reg_addr div 2));
     RTL_W32 io MACOCP data32;
     v \<leftarrow> RTL_R32 io MACOCP;
     State_Monad.return (ucast v)
   }"

definition rtl8125_clear_set_mac_ocp_bit :: "'d mmio \<Rightarrow> u16 \<Rightarrow> u16 \<Rightarrow> u16 \<Rightarrow> ('d, unit) drv" where
  "rtl8125_clear_set_mac_ocp_bit io addr clearmask setmask = do {
     v \<leftarrow> rtl8125_mac_ocp_read io addr;
     rtl8125_mac_ocp_write io addr ((v AND NOT clearmask) OR setmask)
   }"

definition rtl8125_clear_mac_ocp_bit :: "'d mmio \<Rightarrow> u16 \<Rightarrow> u16 \<Rightarrow> ('d, unit) drv" where
  "rtl8125_clear_mac_ocp_bit io addr msk = rtl8125_clear_set_mac_ocp_bit io addr msk 0"

definition rtl8125_set_mac_ocp_bit :: "'d mmio \<Rightarrow> u16 \<Rightarrow> u16 \<Rightarrow> ('d, unit) drv" where
  "rtl8125_set_mac_ocp_bit io addr msk = rtl8125_clear_set_mac_ocp_bit io addr 0 msk"

section \<open>PCIe PHY registers\<close>

definition rtl8125_ephy_write :: "'d mmio \<Rightarrow> u32 \<Rightarrow> u32 \<Rightarrow> ('d, unit) drv" where
  "rtl8125_ephy_write io RegAddr value = do {
     RTL_W32 io EPHYAR (chan_flag OR push_bit 16 (RegAddr AND 0x7f) OR (value AND 0xffff));
     wait_no_flag io EPHYAR;
     udelay io R8125_CHANNEL_EXIT_DELAY_TIME
   }"

definition rtl8125_ephy_read :: "'d mmio \<Rightarrow> u32 \<Rightarrow> ('d, u16) drv" where
  "rtl8125_ephy_read io RegAddr = do {
     RTL_W32 io EPHYAR (push_bit 16 (RegAddr AND 0x7f));
     found \<leftarrow> wait_flag io EPHYAR;
     value \<leftarrow> (if found then do { v \<leftarrow> RTL_R32 io EPHYAR; State_Monad.return (ucast (v AND 0xffff)) }
               else State_Monad.return 0xffff);
     udelay io R8125_CHANNEL_EXIT_DELAY_TIME;
     State_Monad.return value
   }"

definition ClearAndSetPCIePhyBit :: "'d mmio \<Rightarrow> u8 \<Rightarrow> u16 \<Rightarrow> u16 \<Rightarrow> ('d, unit) drv" where
  "ClearAndSetPCIePhyBit io addr clearmask setmask = do {
     v \<leftarrow> rtl8125_ephy_read io (ucast addr);
     rtl8125_ephy_write io (ucast addr) (ucast ((v AND NOT clearmask) OR setmask))
   }"

definition ClearPCIePhyBit :: "'d mmio \<Rightarrow> u8 \<Rightarrow> u16 \<Rightarrow> ('d, unit) drv" where
  "ClearPCIePhyBit io addr msk = ClearAndSetPCIePhyBit io addr msk 0"

definition SetPCIePhyBit :: "'d mmio \<Rightarrow> u8 \<Rightarrow> u16 \<Rightarrow> ('d, unit) drv" where
  "SetPCIePhyBit io addr msk = ClearAndSetPCIePhyBit io addr 0 msk"

section \<open>Configuration space\<close>

definition csi_cmd :: "u32 \<Rightarrow> u8 \<Rightarrow> u32 \<Rightarrow> u32" where
  "csi_cmd flag multi_fun_sel_bit addr =
     (flag OR push_bit 12 0x0f OR (addr AND 0x0fff)) OR push_bit 16 (ucast multi_fun_sel_bit)"

definition rtl8125_csi_other_fun_read :: "'d mmio \<Rightarrow> u8 \<Rightarrow> u32 \<Rightarrow> ('d, u32) drv" where
  "rtl8125_csi_other_fun_read io multi_fun_sel_bit addr = do {
     cfg \<leftarrow> gets mcfg;
     let multi_fun_sel_bit = (if cfg = CFG_METHOD_DEFAULT then 0 else multi_fun_sel_bit);
     if 7 < multi_fun_sel_bit then State_Monad.return 0xffffffff
     else do {
       RTL_W32 io CSIAR (csi_cmd 0 multi_fun_sel_bit addr);
       found \<leftarrow> wait_flag io CSIAR;
       value \<leftarrow> (if found then RTL_R32 io CSIDR else State_Monad.return 0xffffffff);
       udelay io R8125_CHANNEL_EXIT_DELAY_TIME;
       State_Monad.return value
     }
   }"

definition rtl8125_csi_other_fun_write :: "'d mmio \<Rightarrow> u8 \<Rightarrow> u32 \<Rightarrow> u32 \<Rightarrow> ('d, unit) drv" where
  "rtl8125_csi_other_fun_write io multi_fun_sel_bit addr value = do {
     RTL_W32 io CSIDR value;
     cfg \<leftarrow> gets mcfg;
     let multi_fun_sel_bit = (if cfg = CFG_METHOD_DEFAULT then 0 else multi_fun_sel_bit);
     if 7 < multi_fun_sel_bit then State_Monad.return ()
     else do {
       RTL_W32 io CSIAR (csi_cmd chan_flag multi_fun_sel_bit addr);
       wait_no_flag io CSIAR;
       udelay io R8125_CHANNEL_EXIT_DELAY_TIME
     }
   }"

definition rtl8125_csi_read :: "'d mmio \<Rightarrow> u32 \<Rightarrow> ('d, u32) drv" where
  "rtl8125_csi_read io addr = rtl8125_csi_other_fun_read io 0 addr"

definition rtl8125_csi_write :: "'d mmio \<Rightarrow> u32 \<Rightarrow> u32 \<Rightarrow> ('d, unit) drv" where
  "rtl8125_csi_write io addr value = rtl8125_csi_other_fun_write io 0 addr value"

text \<open>\<open>RegAlignAddr\<close> is 16 bits wide.\<close>

definition csi_align :: "u32 \<Rightarrow> u32" where
  "csi_align addr = ucast (ucast (addr AND NOT 3) :: u16)"

definition rtl8125_csi_fun0_read_byte :: "'d mmio \<Rightarrow> u32 \<Rightarrow> ('d, u8) drv" where
  "rtl8125_csi_fun0_read_byte io addr = do {
     cfg \<leftarrow> gets mcfg;
     RetVal \<leftarrow> (if cfg = CFG_METHOD_DEFAULT then pci_read_config_byte io addr
       else do {
         let ShiftByte = unat (addr AND 3);
         TmpUlong \<leftarrow> rtl8125_csi_other_fun_read io 0 (csi_align addr);
         State_Monad.return (ucast (drop_bit (8 * ShiftByte) TmpUlong))
       });
     udelay io R8125_CHANNEL_EXIT_DELAY_TIME;
     State_Monad.return RetVal
   }"

definition rtl8125_csi_fun0_write_byte :: "'d mmio \<Rightarrow> u32 \<Rightarrow> u8 \<Rightarrow> ('d, unit) drv" where
  "rtl8125_csi_fun0_write_byte io addr value = do {
     cfg \<leftarrow> gets mcfg;
     (if cfg = CFG_METHOD_DEFAULT then pci_write_config_byte io addr value
      else do {
         let ShiftByte = unat (addr AND 3);
         TmpUlong \<leftarrow> rtl8125_csi_other_fun_read io 0 (csi_align addr);
         rtl8125_csi_other_fun_write io 0 (csi_align addr)
           ((TmpUlong AND NOT (push_bit (8 * ShiftByte) 0xFF)) OR push_bit (8 * ShiftByte) (ucast value))
      });
     udelay io R8125_CHANNEL_EXIT_DELAY_TIME
   }"

section \<open>What the chip promises\<close>

text \<open>
  A view of the device names what a channel's documentation speaks of: the registers behind it, the
  number of polls until the running command is finished, and what its control and data registers
  show then.
\<close>

record 'd view =
  vregs :: "'d \<Rightarrow> u32 \<Rightarrow> u32"
  vbusy :: "'d \<Rightarrow> nat"
  vshown :: "'d \<Rightarrow> u32"
  vdata :: "'d \<Rightarrow> u32"

definition vsame :: "'d view \<Rightarrow> 'd \<Rightarrow> 'd \<Rightarrow> bool" where
  "vsame V d d' \<longleftrightarrow> vregs V d' = vregs V d \<and> vshown V d' = vshown V d \<and> vdata V d' = vdata V d"

text \<open>Polling a control register changes no register; the flag flips when the command is finished.\<close>

definition ar_law :: "'d mmio \<Rightarrow> nat \<Rightarrow> 'd view \<Rightarrow> bool" where
  "ar_law io r V \<longleftrightarrow>
     (\<forall>d t. vsame V d (elapse io d t) \<and> vbusy V (elapse io d t) \<le> vbusy V d) \<and>
     (\<forall>d v d'. readl io d r = (v, d') \<longrightarrow> vsame V d d' \<and> vbusy V d' \<le> vbusy V d - 1 \<and>
        (if vbusy V d = 0 then v = vshown V d else flag_set v \<noteq> flag_set (vshown V d)))"

definition key16 :: "u32 \<Rightarrow> u32" where
  "key16 c = drop_bit 16 c AND 0x7fff"

definition chan16_law :: "'d mmio \<Rightarrow> nat \<Rightarrow> 'd view \<Rightarrow> bool" where
  "chan16_law io r V \<longleftrightarrow> ar_law io r V \<and>
     (\<forall>d c. let d' = writel io d r c in vbusy V d' < R8125_CHANNEL_WAIT_COUNT \<and>
        (if flag_set c then vregs V d' = (vregs V d)(key16 c := c AND 0xffff) \<and> \<not> flag_set (vshown V d')
         else vregs V d' = vregs V d \<and> flag_set (vshown V d')
            \<and> vshown V d' AND 0xffff = vregs V d (key16 c) AND 0xffff))"

definition mac_law :: "'d mmio \<Rightarrow> 'd view \<Rightarrow> bool" where
  "mac_law io V \<longleftrightarrow>
     (\<forall>d v d'. readl io d MACOCP = (v, d') \<longrightarrow> vregs V d' = vregs V d \<and> v = vshown V d) \<and>
     (\<forall>d c. let d' = writel io d MACOCP c in
        (if flag_set c then vregs V d' = (vregs V d)(key16 c := c AND 0xffff)
         else vregs V d' = vregs V d \<and> vshown V d' AND 0xffff = vregs V d (key16 c) AND 0xffff))"

definition key32 :: "u32 \<Rightarrow> u32" where
  "key32 c = c AND 0x7fffffff"

definition chan32_law :: "'d mmio \<Rightarrow> nat \<Rightarrow> nat \<Rightarrow> 'd view \<Rightarrow> bool" where
  "chan32_law io r dr V \<longleftrightarrow> ar_law io r V \<and>
     (\<forall>d v. vregs V (writel io d dr v) = vregs V d \<and> vdata V (writel io d dr v) = v) \<and>
     (\<forall>d v d'. readl io d dr = (v, d') \<longrightarrow> vsame V d d' \<and> (vbusy V d = 0 \<longrightarrow> v = vdata V d)) \<and>
     (\<forall>d c. let d' = writel io d r c in vbusy V d' < R8125_CHANNEL_WAIT_COUNT \<and>
        (if flag_set c then vregs V d' = (vregs V d)(key32 c := vdata V d) \<and> \<not> flag_set (vshown V d')
         else vregs V d' = vregs V d \<and> flag_set (vshown V d') \<and> vdata V d' = vregs V d (key32 c)))"

section \<open>The channel contract\<close>

locale reg_channel =
  fixes rd :: "'a \<Rightarrow> ('s, 'v :: semiring_bit_operations) state"
    and wr :: "'a \<Rightarrow> 'v \<Rightarrow> ('s, unit) state"
    and adr :: "'a \<Rightarrow> bool"
    and idx :: "'a \<Rightarrow> 'i"
    and ok :: "'s \<Rightarrow> bool"
    and contents :: "'s \<Rightarrow> 'i \<Rightarrow> 'v"
    and frame :: "'s \<Rightarrow> 's \<Rightarrow> bool"
  assumes rd_law: "adr a \<Longrightarrow> valid (\<lambda>s. ok s \<and> contents s = R \<and> frame s0 s) (rd a)
      (\<lambda>v s. v = R (idx a) \<and> ok s \<and> contents s = R \<and> frame s0 s)"
    and wr_law: "adr a \<Longrightarrow> valid (\<lambda>s. ok s \<and> contents s = R \<and> frame s0 s) (wr a v)
      (\<lambda>_ s. ok s \<and> contents s = R(idx a := v) \<and> frame s0 s)"
begin

lemma write_then_read:
  assumes "adr a" "adr b"
  shows "valid (\<lambda>s. ok s \<and> contents s = R \<and> frame s0 s) (do { wr a v; rd b })
    (\<lambda>x s. x = (if idx b = idx a then v else R (idx b)) \<and> ok s \<and> contents s = R(idx a := v) \<and> frame s0 s)"
  by (rule valid_bind [OF valid_weaken [OF rd_law [OF assms(2), of "R(idx a := v)" s0]] wr_law [OF assms(1)]]) auto

lemma update:
  assumes "adr a"
  shows "valid (\<lambda>s. ok s \<and> contents s = R \<and> frame s0 s) (do { v \<leftarrow> rd a; wr a (f v) })
    (\<lambda>_ s. ok s \<and> contents s = R(idx a := f (R (idx a))) \<and> frame s0 s)"
proof (rule valid_bind [OF _ rd_law [OF assms]])
  fix v
  show "valid (\<lambda>s. v = R (idx a) \<and> ok s \<and> contents s = R \<and> frame s0 s) (wr a (f v))
    (\<lambda>_ s. ok s \<and> contents s = R(idx a := f (R (idx a))) \<and> frame s0 s)"
    using wr_law [OF assms, of R s0 "f v"] by (auto simp: valid_def)
qed

end

section \<open>Commands and their fields\<close>

lemma bit_chan_flag [simp]: "bit chan_flag n \<longleftrightarrow> n = 31"
proof -
  have "chan_flag = push_bit 31 1" by (simp add: chan_flag_def)
  then have "bit chan_flag n = bit (push_bit 31 1 :: u32) n" by (rule arg_cong)
  then show ?thesis by (auto simp only: bit_push_bit_iff bit_1_iff) (simp_all add: possible_bit_def)
qed

lemma flag_set_bit: "flag_set v \<longleftrightarrow> bit v 31"
proof -
  have "v AND chan_flag = (if bit v 31 then chan_flag else 0)"
    by (rule bit_word_eqI) (auto simp: bit_simps)
  then show ?thesis by (simp add: flag_set_def chan_flag_def)
qed

lemma masks32: "(0xffff :: u32) = mask 16" "(0x7fff :: u32) = mask 15" "(0x7f :: u32) = mask 7" "(0xfff :: u32) = mask 12"
  "(0x7fffffff :: u32) = mask 31"
  by (simp_all add: mask_eq_exp_minus_1)

lemma half_bit: "bit (a div 2 :: u16) n \<longleftrightarrow> bit a (Suc n)"
  by (simp flip: bit_Suc)

lemma phy_cmd:
  fixes a v :: u16
  defines "w \<equiv> push_bit 16 (ucast (a div 2)) OR (chan_flag OR ucast v) :: u32"
    and "q \<equiv> push_bit 16 (ucast (a div 2)) :: u32"
  shows "flag_set w" "\<not> flag_set q" "key16 w = ucast (a div 2)" "key16 q = ucast (a div 2)" "w AND 0xffff = ucast v"
    "(push_bit 16 (ucast (a div 2)) + ucast v) OR chan_flag = w"
proof -
  show "flag_set w" "\<not> flag_set q"
    unfolding w_def q_def flag_set_bit by (auto simp: bit_simps half_bit dest: bit_imp_le_length)
  show "key16 w = ucast (a div 2)"  "key16 q = ucast (a div 2)" "w AND 0xffff = ucast v"
    unfolding w_def q_def key16_def masks32
    by (rule bit_word_eqI, auto simp: bit_simps half_bit dest: bit_imp_le_length)+
  have "push_bit 16 (ucast (a div 2)) + ucast v = (push_bit 16 (ucast (a div 2)) OR ucast v :: u32)"
    by (rule disjunctive_add) (auto simp: bit_simps dest: bit_imp_le_length)
  then show "(push_bit 16 (ucast (a div 2)) + ucast v) OR chan_flag = w"
    by (simp add: w_def ac_simps)
qed

section \<open>Polling a lawful channel\<close>

definition settled :: "'d view \<Rightarrow> (u32 \<Rightarrow> u32) \<Rightarrow> u32 \<Rightarrow> u32 \<Rightarrow> 'd nic \<Rightarrow> 'd nic \<Rightarrow> bool" where
  "settled V R w x s0 s \<longleftrightarrow> vregs V (hw s) = R \<and> vshown V (hw s) = w \<and> vdata V (hw s) = x \<and> same_priv s0 s"

lemma poll_settles:
  assumes law: "ar_law io r V" and ready: "\<And>v. ready v \<longleftrightarrow> flag_set v = flag_set w"
  shows "valid (\<lambda>s. vbusy V (hw s) < n \<and> settled V R w x s0 s)
    (poll io t (RTL_R32 io r) ready n) (\<lambda>found s. found \<and> vbusy V (hw s) = 0 \<and> settled V R w x s0 s)"
proof (induction n)
  case 0
  then show ?case by (simp add: valid_def)
next
  case (Suc n)
  have turn: "valid (\<lambda>s. vbusy V (hw s) < Suc n \<and> settled V R w x s0 s)
      (do { udelay io t; RTL_R32 io r })
      (\<lambda>v s. if ready v then vbusy V (hw s) = 0 \<and> settled V R w x s0 s else vbusy V (hw s) < n \<and> settled V R w x s0 s)"
  proof (rule validI)
    fix s assume s: "vbusy V (hw s) < Suc n \<and> settled V R w x s0 s"
    let ?d = "elapse io (hw s) t"
    obtain v d where r: "readl io ?d r = (v, d)" by fastforce
    have d: "vsame V (hw s) ?d" "vbusy V ?d \<le> vbusy V (hw s)" "vsame V ?d d" "vbusy V d \<le> vbusy V ?d - 1"
      "if vbusy V ?d = 0 then v = vshown V ?d else flag_set v \<noteq> flag_set (vshown V ?d)"
      using law r unfolding ar_law_def by blast+
    then show "if ready (fst (run_state (do { udelay io t; RTL_R32 io r }) s))
        then vbusy V (hw (snd (run_state (do { udelay io t; RTL_R32 io r }) s))) = 0
          \<and> settled V R w x s0 (snd (run_state (do { udelay io t; RTL_R32 io r }) s))
        else vbusy V (hw (snd (run_state (do { udelay io t; RTL_R32 io r }) s))) < n
          \<and> settled V R w x s0 (snd (run_state (do { udelay io t; RTL_R32 io r }) s))"
      using s by (auto simp: udelay_def RTL_R32_def r settled_def vsame_def ready split: if_splits)
  qed
  have "valid (\<lambda>s. if ready v then vbusy V (hw s) = 0 \<and> settled V R w x s0 s else vbusy V (hw s) < n \<and> settled V R w x s0 s)
      (if ready v then State_Monad.return True else poll io t (RTL_R32 io r) ready (Suc n - 1))
      (\<lambda>found s. found \<and> vbusy V (hw s) = 0 \<and> settled V R w x s0 s)" for v
    using Suc by (auto simp: valid_def)
  from valid_bind [OF this turn] show ?case by (subst poll.simps) simp
qed

lemma wait_flag_settles:
  assumes "ar_law io r V" "flag_set w"
  shows "valid (\<lambda>s. vbusy V (hw s) < R8125_CHANNEL_WAIT_COUNT \<and> settled V R w x s0 s) (wait_flag io r)
    (\<lambda>found s. found \<and> vbusy V (hw s) = 0 \<and> settled V R w x s0 s)"
  unfolding wait_flag_def by (rule poll_settles [OF assms(1)]) (simp add: assms(2))

lemma wait_no_flag_settles:
  assumes "ar_law io r V" "\<not> flag_set w"
  shows "valid (\<lambda>s. vbusy V (hw s) < R8125_CHANNEL_WAIT_COUNT \<and> settled V R w x s0 s) (wait_no_flag io r)
    (\<lambda>found s. found \<and> vbusy V (hw s) = 0 \<and> settled V R w x s0 s)"
  unfolding wait_no_flag_def by (rule poll_settles [OF assms(1)]) (simp add: assms(2))

definition at_regs :: "'d view \<Rightarrow> (u32 \<Rightarrow> u32) \<Rightarrow> 'd nic \<Rightarrow> 'd nic \<Rightarrow> bool" where
  "at_regs V R s0 s \<longleftrightarrow> vregs V (hw s) = R \<and> same_priv s0 s"

text \<open>One command on a 16-bit channel.\<close>

lemma chan16_write:
  assumes "chan16_law io r V" "flag_set c"
  shows "valid (at_regs V R s0) (do { RTL_W32 io r c; wait_no_flag io r })
    (\<lambda>_. at_regs V (R(key16 c := c AND 0xffff)) s0)"
proof -
  have post: "valid (\<lambda>s. vbusy V (hw s) < R8125_CHANNEL_WAIT_COUNT \<and> \<not> flag_set (vshown V (hw s)) \<and> at_regs V R' s0 s)
      (wait_no_flag io r) (\<lambda>_. at_regs V R' s0)" for R'
  proof (rule validI)
    fix s assume s: "vbusy V (hw s) < R8125_CHANNEL_WAIT_COUNT \<and> \<not> flag_set (vshown V (hw s)) \<and> at_regs V R' s0 s"
    show "at_regs V R' s0 (snd (run_state (wait_no_flag io r) s))"
      using wait_no_flag_settles [of io r V "vshown V (hw s)" R' "vdata V (hw s)" s0] s assms(1)
      by (auto simp: valid_def settled_def at_regs_def chan16_law_def)
  qed
  have "valid (at_regs V R s0) (RTL_W32 io r c) (\<lambda>_ s. vbusy V (hw s) < R8125_CHANNEL_WAIT_COUNT \<and>
      \<not> flag_set (vshown V (hw s)) \<and> at_regs V (R(key16 c := c AND 0xffff)) s0 s)"
    using assms by (auto simp: valid_def RTL_W32_def at_regs_def chan16_law_def Let_def)
  from valid_bind [OF post this] show ?thesis .
qed

lemma chan16_read:
  assumes "chan16_law io r V" "\<not> flag_set c"
  shows "valid (at_regs V R s0) (do { RTL_W32 io r c; wait_flag io r })
    (\<lambda>found s. found \<and> vbusy V (hw s) = 0 \<and> vshown V (hw s) AND 0xffff = R (key16 c) AND 0xffff \<and> at_regs V R s0 s)"
proof -
  have post: "valid (\<lambda>s. vbusy V (hw s) < R8125_CHANNEL_WAIT_COUNT \<and> flag_set (vshown V (hw s)) \<and>
         vshown V (hw s) AND 0xffff = R (key16 c) AND 0xffff \<and> at_regs V R s0 s)
      (wait_flag io r) (\<lambda>found s. found \<and> vbusy V (hw s) = 0 \<and>
         vshown V (hw s) AND 0xffff = R (key16 c) AND 0xffff \<and> at_regs V R s0 s)"
  proof (rule validI)
    fix s assume s: "vbusy V (hw s) < R8125_CHANNEL_WAIT_COUNT \<and> flag_set (vshown V (hw s)) \<and>
         vshown V (hw s) AND 0xffff = R (key16 c) AND 0xffff \<and> at_regs V R s0 s"
    show "fst (run_state (wait_flag io r) s) \<and> vbusy V (hw (snd (run_state (wait_flag io r) s))) = 0 \<and>
        vshown V (hw (snd (run_state (wait_flag io r) s))) AND 0xffff = R (key16 c) AND 0xffff \<and>
        at_regs V R s0 (snd (run_state (wait_flag io r) s))"
      using wait_flag_settles [of io r V "vshown V (hw s)" R "vdata V (hw s)" s0] s assms(1)
      by (auto simp: valid_def settled_def at_regs_def chan16_law_def)
  qed
  have "valid (at_regs V R s0) (RTL_W32 io r c) (\<lambda>_ s. vbusy V (hw s) < R8125_CHANNEL_WAIT_COUNT \<and> flag_set (vshown V (hw s)) \<and>
         vshown V (hw s) AND 0xffff = R (key16 c) AND 0xffff \<and> at_regs V R s0 s)"
    using assms by (auto simp: valid_def RTL_W32_def at_regs_def chan16_law_def Let_def)
  from valid_bind [OF post this] show ?thesis .
qed

lemma read_shown:
  assumes "ar_law io r V"
  shows "valid (\<lambda>s. vbusy V (hw s) = 0 \<and> vshown V (hw s) = w \<and> at_regs V R s0 s) (RTL_R32 io r)
    (\<lambda>v s. v = w \<and> at_regs V R s0 s)"
  using assms by (auto simp: valid_def RTL_R32_def at_regs_def ar_law_def vsame_def split: prod.splits)

lemma delay_regs:
  assumes "ar_law io r V"
  shows "valid (at_regs V R s0) (udelay io t) (\<lambda>_. at_regs V R s0)"
  using assms by (auto simp: valid_def udelay_def at_regs_def ar_law_def vsame_def)

definition contents16 :: "'d view \<Rightarrow> 'd nic \<Rightarrow> u32 \<Rightarrow> u16" where
  "contents16 V s i = ucast (vregs V (hw s) i)"

lemma ucast_16_32 [simp]: "(ucast (ucast (v :: u16) :: u32) :: u16) = v"
  by (rule bit_word_eqI) (simp add: bit_simps)

lemma ucast_low16 [simp]: "(ucast (x AND 0xffff :: u32) :: u16) = ucast x"
  unfolding masks32 by (rule bit_word_eqI) (auto simp: bit_simps)

lemma low16: "x AND 0xffff = y AND 0xffff \<Longrightarrow> (ucast (x :: u32) :: u16) = ucast y"
  using ucast_low16 [of x] ucast_low16 [of y] by simp

lemma valid_then_return: "valid P m (\<lambda>_. Q) \<Longrightarrow> valid P (do { m; State_Monad.return c }) (\<lambda>_. Q)"
  by (auto simp: valid_def split: prod.splits)

text \<open>From facts on the device's registers to facts on a channel's contents.\<close>

lemma contents16_read:
  assumes "\<And>s. same_priv s0 s \<Longrightarrow> ok s = ok s0"
    and "\<And>R. ok s0 \<Longrightarrow> valid (at_regs V R s0) m (\<lambda>v s. v = ucast (R i) \<and> at_regs V R s0 s)"
  shows "valid (\<lambda>s. ok s \<and> contents16 V s = C \<and> same_priv s0 s) m
    (\<lambda>v s. v = C i \<and> ok s \<and> contents16 V s = C \<and> same_priv s0 s)"
proof (rule validI)
  fix s assume s: "ok s \<and> contents16 V s = C \<and> same_priv s0 s"
  then have "valid (at_regs V (vregs V (hw s)) s0) m
      (\<lambda>v s'. v = ucast (vregs V (hw s) i) \<and> at_regs V (vregs V (hw s)) s0 s')"
    using assms(1) [of s] assms(2) by blast
  then show "fst (run_state m s) = C i \<and> ok (snd (run_state m s)) \<and> contents16 V (snd (run_state m s)) = C
      \<and> same_priv s0 (snd (run_state m s))"
    using s assms(1) [of s] assms(1) [of "snd (run_state m s)"] by (auto simp: valid_def at_regs_def contents16_def fun_eq_iff)
qed

lemma contents16_write:
  assumes "\<And>s. same_priv s0 s \<Longrightarrow> ok s = ok s0"
    and "\<And>R. ok s0 \<Longrightarrow> valid (at_regs V R s0) m (\<lambda>_. at_regs V (R(i := ucast v)) s0)"
  shows "valid (\<lambda>s. ok s \<and> contents16 V s = C \<and> same_priv s0 s) m
    (\<lambda>_ s. ok s \<and> contents16 V s = C(i := v) \<and> same_priv s0 s)"
proof (rule validI)
  fix s assume s: "ok s \<and> contents16 V s = C \<and> same_priv s0 s"
  then have "valid (at_regs V (vregs V (hw s)) s0) m (\<lambda>_. at_regs V ((vregs V (hw s))(i := ucast v)) s0)"
    using assms(1) [of s] assms(2) by blast
  then show "ok (snd (run_state m s)) \<and> contents16 V (snd (run_state m s)) = C(i := v)
      \<and> same_priv s0 (snd (run_state m s))"
    using s assms(1) [of s] assms(1) [of "snd (run_state m s)"] by (auto simp: valid_def at_regs_def contents16_def fun_eq_iff)
qed

lemma valid_same_run:
  assumes "\<And>s. same_priv s0 s \<Longrightarrow> run_state m s = run_state m' s" "valid (at_regs V R s0) m' Q"
  shows "valid (at_regs V R s0) m Q"
  using assms by (simp add: valid_def at_regs_def)

section \<open>The PHY channel\<close>

lemma real_write_phy:
  assumes "chan16_law io PHYOCP V"
  shows "valid (at_regs V R s0) (mdio_real_direct_write_phy_ocp io a v) (\<lambda>_. at_regs V (R(ucast (a div 2) := ucast v)) s0)"
proof -
  let ?c = "push_bit 16 (ucast (a div 2)) OR (chan_flag OR ucast v) :: u32"
  have "valid (at_regs V R s0) (do { RTL_W32 io PHYOCP ?c; wait_no_flag io PHYOCP })
      (\<lambda>_. at_regs V (R(ucast (a div 2) := ucast v)) s0)"
    using chan16_write [OF assms phy_cmd(1) [of a v], of R s0] by (simp add: phy_cmd)
  from valid_then_return [OF this] show ?thesis
    by (simp add: mdio_real_direct_write_phy_ocp_def Let_def)
qed

lemma real_read_phy:
  assumes "chan16_law io PHYOCP V"
  shows "valid (at_regs V R s0) (mdio_real_direct_read_phy_ocp io a)
    (\<lambda>v s. v = R (ucast (a div 2)) AND 0xffff \<and> at_regs V R s0 s)"
proof -
  let ?c = "push_bit 16 (ucast (a div 2)) :: u32"
  have ar: "ar_law io PHYOCP V" using assms by (simp add: chan16_law_def)
  have "valid (\<lambda>s. found \<and> vbusy V (hw s) = 0 \<and> vshown V (hw s) AND 0xffff = R (ucast (a div 2)) AND 0xffff \<and> at_regs V R s0 s)
      (RTL_R32 io PHYOCP) (\<lambda>v s. v AND 0xffff = R (ucast (a div 2)) AND 0xffff \<and> at_regs V R s0 s)" for found
  proof (rule validI)
    fix s assume "found \<and> vbusy V (hw s) = 0 \<and> vshown V (hw s) AND 0xffff = R (ucast (a div 2)) AND 0xffff \<and> at_regs V R s0 s"
    then show "fst (run_state (RTL_R32 io PHYOCP) s) AND 0xffff = R (ucast (a div 2)) AND 0xffff \<and>
        at_regs V R s0 (snd (run_state (RTL_R32 io PHYOCP) s))"
      using read_shown [OF ar, of "vshown V (hw s)" R s0] by (auto simp: valid_def)
  qed
  from valid_bind [OF this chan16_read [OF assms phy_cmd(2) [of a], of R s0, unfolded phy_cmd]]
  have "valid (at_regs V R s0) (do { RTL_W32 io PHYOCP ?c; wait_flag io PHYOCP; RTL_R32 io PHYOCP })
      (\<lambda>v s. v AND 0xffff = R (ucast (a div 2)) AND 0xffff \<and> at_regs V R s0 s)"
    by simp
  then show ?thesis
    unfolding mdio_real_direct_read_phy_ocp_def Let_def
    by (simp add: valid_def split_beta)
qed

lemma same_priv_diag: "same_priv s s' \<Longrightarrow> rtk_enable_diag s' = rtk_enable_diag s \<and> cur_page s' = cur_page s \<and> mcfg s' = mcfg s"
  by (cases s, cases s') (simp add: same_priv_def)

text \<open>The guarded accesses, when diagnostics mode is off.\<close>

lemma direct_write_phy:
  assumes "chan16_law io PHYOCP V" "rtk_enable_diag s0 = 0"
  shows "valid (at_regs V R s0) (rtl8125_mdio_direct_write_phy_ocp io a v) (\<lambda>_. at_regs V (R(ucast (a div 2) := ucast v)) s0)"
  by (rule valid_same_run [OF _ real_write_phy [OF assms(1)]])
    (simp add: rtl8125_mdio_direct_write_phy_ocp_def same_priv_diag assms(2))

lemma direct_read_phy:
  assumes "chan16_law io PHYOCP V" "rtk_enable_diag s0 = 0"
  shows "valid (at_regs V R s0) (rtl8125_mdio_direct_read_phy_ocp io a) (\<lambda>v s. v = R (ucast (a div 2)) AND 0xffff \<and> at_regs V R s0 s)"
  by (rule valid_same_run [OF _ real_read_phy [OF assms(1)]])
    (simp add: rtl8125_mdio_direct_read_phy_ocp_def same_priv_diag assms(2))

definition page_index :: "u16 \<Rightarrow> u16 \<Rightarrow> u32" where
  "page_index p a = ucast (map_phy_ocp_addr p (ucast (ucast a :: u32)) div 2)"

lemma mdio_write_phy:
  assumes "chan16_law io PHYOCP V" "rtk_enable_diag s0 = 0" "a \<noteq> 0x1f"
  shows "valid (at_regs V R s0) (rtl8125_mdio_write io a v) (\<lambda>_. at_regs V (R(page_index (cur_page s0) a := ucast v)) s0)"
  unfolding page_index_def
  by (rule valid_same_run [OF _ real_write_phy [OF assms(1)]])
    (simp add: rtl8125_mdio_write_def mdio_real_write_def rtl8125_mdio_real_write_phy_ocp_def same_priv_diag assms)

lemma mdio_read_phy:
  assumes "chan16_law io PHYOCP V" "rtk_enable_diag s0 = 0"
  shows "valid (at_regs V R s0) (rtl8125_mdio_read io a)
    (\<lambda>v s. v = R (page_index (cur_page s0) a) AND 0xffff \<and> at_regs V R s0 s)"
  unfolding page_index_def
  by (rule valid_same_run [OF _ real_read_phy [OF assms(1)]])
    (simp add: rtl8125_mdio_read_def mdio_real_read_def rtl8125_mdio_real_read_phy_ocp_def same_priv_diag assms)

definition phy_rd :: "'d mmio \<Rightarrow> u16 \<Rightarrow> ('d, u16) drv" where
  "phy_rd io a = do { v \<leftarrow> rtl8125_mdio_direct_read_phy_ocp io a; State_Monad.return (ucast v) }"

definition mdio_rd :: "'d mmio \<Rightarrow> u16 \<Rightarrow> ('d, u16) drv" where
  "mdio_rd io a = do { v \<leftarrow> rtl8125_mdio_read io a; State_Monad.return (ucast v) }"

lemma valid_ucast:
  fixes x :: u32
  assumes "valid P m (\<lambda>v s. v = x AND 0xffff \<and> Q s)"
  shows "valid P (do { v \<leftarrow> m; State_Monad.return (ucast v :: u16) }) (\<lambda>v s. v = ucast x \<and> Q s)"
  using assms by (auto simp: valid_def split_beta)

definition phy_ok :: "'d mmio \<Rightarrow> 'd view \<Rightarrow> 'd nic \<Rightarrow> bool" where
  "phy_ok io V s \<longleftrightarrow> chan16_law io PHYOCP V \<and> rtk_enable_diag s = 0"

definition mdio_ok :: "'d mmio \<Rightarrow> 'd view \<Rightarrow> u16 \<Rightarrow> 'd nic \<Rightarrow> bool" where
  "mdio_ok io V p s \<longleftrightarrow> phy_ok io V s \<and> cur_page s = p"

interpretation phy: reg_channel "phy_rd io" "rtl8125_mdio_direct_write_phy_ocp io" "\<lambda>_. True" "\<lambda>a. ucast (a div 2)"
    "phy_ok io V" "contents16 V" same_priv for io V
proof
  fix a C s0 v
  show "valid (\<lambda>s. phy_ok io V s \<and> contents16 V s = C \<and> same_priv s0 s) (phy_rd io a)
      (\<lambda>v s. v = C (ucast (a div 2)) \<and> phy_ok io V s \<and> contents16 V s = C \<and> same_priv s0 s)"
    unfolding phy_rd_def
    by (rule contents16_read) (simp add: phy_ok_def same_priv_diag, rule valid_ucast, rule direct_read_phy, simp_all add: phy_ok_def)
  show "valid (\<lambda>s. phy_ok io V s \<and> contents16 V s = C \<and> same_priv s0 s) (rtl8125_mdio_direct_write_phy_ocp io a v)
      (\<lambda>_ s. phy_ok io V s \<and> contents16 V s = C(ucast (a div 2) := v) \<and> same_priv s0 s)"
    by (rule contents16_write) (simp add: phy_ok_def same_priv_diag, rule direct_write_phy, simp_all add: phy_ok_def)
qed

interpretation mdio: reg_channel "mdio_rd io" "rtl8125_mdio_write io" "\<lambda>a. a \<noteq> 0x1f" "page_index p"
    "mdio_ok io V p" "contents16 V" same_priv for io V p
proof
  fix a :: u16 and C s0 v
  assume a: "a \<noteq> 0x1f"
  have ok: "same_priv s0 s \<Longrightarrow> mdio_ok io V p s = mdio_ok io V p s0" for s
    by (simp add: mdio_ok_def phy_ok_def same_priv_diag)
  show "valid (\<lambda>s. mdio_ok io V p s \<and> contents16 V s = C \<and> same_priv s0 s) (mdio_rd io a)
      (\<lambda>v s. v = C (page_index p a) \<and> mdio_ok io V p s \<and> contents16 V s = C \<and> same_priv s0 s)"
    unfolding mdio_rd_def using mdio_read_phy [of io V s0 _ a]
    by (intro contents16_read ok valid_ucast) (auto simp: mdio_ok_def phy_ok_def)
  show "valid (\<lambda>s. mdio_ok io V p s \<and> contents16 V s = C \<and> same_priv s0 s) (rtl8125_mdio_write io a v)
      (\<lambda>_ s. mdio_ok io V p s \<and> contents16 V s = C(page_index p a := v) \<and> same_priv s0 s)"
    using mdio_write_phy [of io V s0 a _ v] a
    by (intro contents16_write ok) (auto simp: mdio_ok_def phy_ok_def)
qed

section \<open>The MAC channel\<close>

lemma mac_write:
  assumes "mac_law io V"
  shows "valid (at_regs V R s0) (rtl8125_mac_ocp_write io a v) (\<lambda>_. at_regs V (R(ucast (a div 2) := ucast v)) s0)"
  using assms phy_cmd(1,3,5,6) [of a v]
  by (auto simp: valid_def rtl8125_mac_ocp_write_def Let_def RTL_W32_def at_regs_def mac_law_def)

lemma mac_read:
  assumes "mac_law io V"
  shows "valid (at_regs V R s0) (rtl8125_mac_ocp_read io a) (\<lambda>v s. v = ucast (R (ucast (a div 2))) \<and> at_regs V R s0 s)"
proof (rule validI)
  fix s assume s: "at_regs V R s0 s"
  let ?d = "writel io (hw s) MACOCP (push_bit 16 (ucast (a div 2)))"
  have d: "vregs V ?d = R" "vshown V ?d AND 0xffff = R (ucast (a div 2)) AND 0xffff"
    using assms phy_cmd(2,4) [of a] s by (simp_all add: mac_law_def Let_def at_regs_def)
  obtain v d' where r: "readl io ?d MACOCP = (v, d')" by fastforce
  then have "vregs V d' = R" "v = vshown V ?d" using assms d by (auto simp: mac_law_def)
  with d low16 [OF d(2)] r s
  show "fst (run_state (rtl8125_mac_ocp_read io a) s) = ucast (R (ucast (a div 2))) \<and>
      at_regs V R s0 (snd (run_state (rtl8125_mac_ocp_read io a) s))"
    by (simp add: rtl8125_mac_ocp_read_def Let_def RTL_W32_def RTL_R32_def at_regs_def)
qed

interpretation mac: reg_channel "rtl8125_mac_ocp_read io" "rtl8125_mac_ocp_write io" "\<lambda>_. True" "\<lambda>a. ucast (a div 2)"
    "\<lambda>_. mac_law io V" "contents16 V" same_priv for io V
  by unfold_locales (auto intro!: contents16_read contents16_write mac_write mac_read)

section \<open>The PCIe PHY channel\<close>

lemma ephy_cmd:
  fixes a v :: u32
  shows "flag_set (chan_flag OR push_bit 16 (a AND 0x7f) OR (v AND 0xffff))"
    "\<not> flag_set (push_bit 16 (a AND 0x7f))"
    "key16 (chan_flag OR push_bit 16 (a AND 0x7f) OR (v AND 0xffff)) = a AND 0x7f"
    "key16 (push_bit 16 (a AND 0x7f)) = a AND 0x7f"
    "(chan_flag OR push_bit 16 (a AND 0x7f) OR (v AND 0xffff)) AND 0xffff = v AND 0xffff"
proof -
  show "flag_set (chan_flag OR push_bit 16 (a AND 0x7f) OR (v AND 0xffff))" "\<not> flag_set (push_bit 16 (a AND 0x7f))"
    unfolding flag_set_bit masks32 by (auto simp: bit_simps)
  show "key16 (chan_flag OR push_bit 16 (a AND 0x7f) OR (v AND 0xffff)) = a AND 0x7f"
    "key16 (push_bit 16 (a AND 0x7f)) = a AND 0x7f"
    "(chan_flag OR push_bit 16 (a AND 0x7f) OR (v AND 0xffff)) AND 0xffff = v AND 0xffff"
    unfolding key16_def masks32 by (rule bit_word_eqI, auto simp: bit_simps)+
qed

lemma ucast16_and [simp]: "(ucast (v :: u16) :: u32) AND 0xffff = ucast v"
  unfolding masks32 by (rule bit_word_eqI) (auto simp: bit_simps dest: bit_imp_le_length)

lemma ephy_write:
  assumes "chan16_law io EPHYAR V"
  shows "valid (at_regs V R s0) (rtl8125_ephy_write io a (ucast (v :: u16))) (\<lambda>_. at_regs V (R(a AND 0x7f := ucast v)) s0)"
proof -
  have ar: "ar_law io EPHYAR V" using assms by (simp add: chan16_law_def)
  from valid_bind [OF delay_regs [OF ar] chan16_write [OF assms ephy_cmd(1) [of a "ucast v"], of R s0, unfolded ephy_cmd]]
  show ?thesis unfolding rtl8125_ephy_write_def by simp
qed

lemma ephy_read:
  assumes "chan16_law io EPHYAR V"
  shows "valid (at_regs V R s0) (rtl8125_ephy_read io a) (\<lambda>v s. v = ucast (R (a AND 0x7f)) \<and> at_regs V R s0 s)"
proof -
  have ar: "ar_law io EPHYAR V" using assms by (simp add: chan16_law_def)
  let ?rest = "\<lambda>found. do {
      value \<leftarrow> (if found then do { v \<leftarrow> RTL_R32 io EPHYAR; State_Monad.return (ucast (v AND 0xffff) :: u16) }
               else State_Monad.return 0xffff);
      udelay io R8125_CHANNEL_EXIT_DELAY_TIME;
      State_Monad.return value }"
  have "valid (\<lambda>s. found \<and> vbusy V (hw s) = 0 \<and> vshown V (hw s) AND 0xffff = R (a AND 0x7f) AND 0xffff \<and> at_regs V R s0 s)
      (?rest found) (\<lambda>v s. v = ucast (R (a AND 0x7f)) \<and> at_regs V R s0 s)" for found
  proof (rule validI)
    fix s assume s: "found \<and> vbusy V (hw s) = 0 \<and> vshown V (hw s) AND 0xffff = R (a AND 0x7f) AND 0xffff \<and> at_regs V R s0 s"
    obtain v s1 where r: "run_state (RTL_R32 io EPHYAR) s = (v, s1)" by fastforce
    have v: "v = vshown V (hw s)" "at_regs V R s0 s1"
      using validD [OF read_shown [OF ar, of "vshown V (hw s)" R s0] _ r] s by auto
    then have "at_regs V R s0 (snd (run_state (udelay io R8125_CHANNEL_EXIT_DELAY_TIME) s1))"
      using delay_regs [OF ar, of R s0 R8125_CHANNEL_EXIT_DELAY_TIME] by (simp add: valid_def)
    then show "fst (run_state (?rest found) s) = ucast (R (a AND 0x7f)) \<and> at_regs V R s0 (snd (run_state (?rest found) s))"
      using s v r low16 [of "vshown V (hw s)" "R (a AND 0x7f)"] by (simp add: split_beta)
  qed
  from valid_bind [OF this chan16_read [OF assms ephy_cmd(2) [of a], of R s0, unfolded ephy_cmd]]
  show ?thesis unfolding rtl8125_ephy_read_def by simp
qed

interpretation ephy: reg_channel "rtl8125_ephy_read io" "\<lambda>a v. rtl8125_ephy_write io a (ucast v)" "\<lambda>_. True" "\<lambda>a. a AND 0x7f"
    "\<lambda>_. chan16_law io EPHYAR V" "contents16 V" same_priv for io V
  by unfold_locales (auto intro!: contents16_read contents16_write ephy_write ephy_read)

section \<open>Channels with a separate data register\<close>

lemma chan32_data:
  assumes "chan32_law io r dr V"
  shows "valid (at_regs V R s0) (RTL_W32 io dr v) (\<lambda>_ s. vdata V (hw s) = v \<and> at_regs V R s0 s)"
  using assms by (auto simp: valid_def RTL_W32_def at_regs_def chan32_law_def)

lemma chan32_write:
  assumes "chan32_law io r dr V" "flag_set c"
  shows "valid (\<lambda>s. vdata V (hw s) = v \<and> at_regs V R s0 s) (do { RTL_W32 io r c; wait_no_flag io r })
    (\<lambda>_. at_regs V (R(key32 c := v)) s0)"
proof -
  have post: "valid (\<lambda>s. vbusy V (hw s) < R8125_CHANNEL_WAIT_COUNT \<and> \<not> flag_set (vshown V (hw s)) \<and> at_regs V R' s0 s)
      (wait_no_flag io r) (\<lambda>_. at_regs V R' s0)" for R'
  proof (rule validI)
    fix s assume s: "vbusy V (hw s) < R8125_CHANNEL_WAIT_COUNT \<and> \<not> flag_set (vshown V (hw s)) \<and> at_regs V R' s0 s"
    show "at_regs V R' s0 (snd (run_state (wait_no_flag io r) s))"
      using wait_no_flag_settles [of io r V "vshown V (hw s)" R' "vdata V (hw s)" s0] s assms(1)
      by (auto simp: valid_def settled_def at_regs_def chan32_law_def)
  qed
  have "valid (\<lambda>s. vdata V (hw s) = v \<and> at_regs V R s0 s) (RTL_W32 io r c) (\<lambda>_ s. vbusy V (hw s) < R8125_CHANNEL_WAIT_COUNT \<and>
      \<not> flag_set (vshown V (hw s)) \<and> at_regs V (R(key32 c := v)) s0 s)"
    using assms by (auto simp: valid_def RTL_W32_def at_regs_def chan32_law_def Let_def)
  from valid_bind [OF post this] show ?thesis .
qed

lemma chan32_read:
  assumes "chan32_law io r dr V" "\<not> flag_set c"
  shows "valid (at_regs V R s0) (do { RTL_W32 io r c; wait_flag io r })
    (\<lambda>found s. found \<and> vbusy V (hw s) = 0 \<and> vdata V (hw s) = R (key32 c) \<and> at_regs V R s0 s)"
proof -
  have post: "valid (\<lambda>s. vbusy V (hw s) < R8125_CHANNEL_WAIT_COUNT \<and> flag_set (vshown V (hw s)) \<and>
         vdata V (hw s) = R (key32 c) \<and> at_regs V R s0 s)
      (wait_flag io r) (\<lambda>found s. found \<and> vbusy V (hw s) = 0 \<and> vdata V (hw s) = R (key32 c) \<and> at_regs V R s0 s)"
  proof (rule validI)
    fix s assume s: "vbusy V (hw s) < R8125_CHANNEL_WAIT_COUNT \<and> flag_set (vshown V (hw s)) \<and>
         vdata V (hw s) = R (key32 c) \<and> at_regs V R s0 s"
    show "fst (run_state (wait_flag io r) s) \<and> vbusy V (hw (snd (run_state (wait_flag io r) s))) = 0 \<and>
        vdata V (hw (snd (run_state (wait_flag io r) s))) = R (key32 c) \<and> at_regs V R s0 (snd (run_state (wait_flag io r) s))"
      using wait_flag_settles [of io r V "vshown V (hw s)" R "vdata V (hw s)" s0] s assms(1)
      by (auto simp: valid_def settled_def at_regs_def chan32_law_def)
  qed
  have "valid (at_regs V R s0) (RTL_W32 io r c) (\<lambda>_ s. vbusy V (hw s) < R8125_CHANNEL_WAIT_COUNT \<and> flag_set (vshown V (hw s)) \<and>
         vdata V (hw s) = R (key32 c) \<and> at_regs V R s0 s)"
    using assms by (auto simp: valid_def RTL_W32_def at_regs_def chan32_law_def Let_def)
  from valid_bind [OF post this] show ?thesis .
qed

lemma read_data:
  assumes "chan32_law io r dr V"
  shows "valid (\<lambda>s. vbusy V (hw s) = 0 \<and> vdata V (hw s) = x \<and> at_regs V R s0 s) (RTL_R32 io dr)
    (\<lambda>v s. v = x \<and> at_regs V R s0 s)"
  using assms by (auto simp: valid_def RTL_R32_def at_regs_def chan32_law_def vsame_def split: prod.splits)

section \<open>Configuration space\<close>

lemma csi_cmd_flag:
  "flag_set (csi_cmd chan_flag f a)" "\<not> flag_set (csi_cmd 0 f a)"
  "key32 (csi_cmd chan_flag f a) = csi_cmd 0 f a" "key32 (csi_cmd 0 f a) = csi_cmd 0 f a"
proof -
  have c: "push_bit 12 (0xf :: u32) = push_bit 12 (mask 4)" by (simp add: mask_eq_exp_minus_1)
  show "flag_set (csi_cmd chan_flag f a)" "\<not> flag_set (csi_cmd 0 f a)"
    unfolding flag_set_bit csi_cmd_def masks32 c by (auto simp: bit_simps dest: bit_imp_le_length)
  show "key32 (csi_cmd chan_flag f a) = csi_cmd 0 f a" "key32 (csi_cmd 0 f a) = csi_cmd 0 f a"
    unfolding key32_def csi_cmd_def masks32 c
    by (rule bit_word_eqI, auto simp: bit_simps dest: bit_imp_le_length)+
qed

lemma csi_read:
  assumes "chan32_law io CSIAR CSIDR V" "f \<le> 7" "mcfg s0 \<noteq> CFG_METHOD_DEFAULT"
  shows "valid (at_regs V R s0) (rtl8125_csi_other_fun_read io f a) (\<lambda>v s. v = R (csi_cmd 0 f a) \<and> at_regs V R s0 s)"
proof -
  have ar: "ar_law io CSIAR V" using assms by (simp add: chan32_law_def)
  have nf: "\<not> 7 < f" using assms(2) by (simp add: not_less)
  let ?rest = "\<lambda>found. do {
      value \<leftarrow> (if found then RTL_R32 io CSIDR else State_Monad.return 0xffffffff);
      udelay io R8125_CHANNEL_EXIT_DELAY_TIME;
      State_Monad.return value }"
  let ?prog = "do { RTL_W32 io CSIAR (csi_cmd 0 f a); found \<leftarrow> wait_flag io CSIAR; ?rest found }"
  have "valid (\<lambda>s. found \<and> vbusy V (hw s) = 0 \<and> vdata V (hw s) = R (csi_cmd 0 f a) \<and> at_regs V R s0 s)
      (?rest found) (\<lambda>v s. v = R (csi_cmd 0 f a) \<and> at_regs V R s0 s)" for found
  proof (rule validI)
    fix s assume s: "found \<and> vbusy V (hw s) = 0 \<and> vdata V (hw s) = R (csi_cmd 0 f a) \<and> at_regs V R s0 s"
    obtain v s1 where r: "run_state (RTL_R32 io CSIDR) s = (v, s1)" by fastforce
    have v: "v = R (csi_cmd 0 f a)" "at_regs V R s0 s1"
      using validD [OF read_data [OF assms(1), of "R (csi_cmd 0 f a)" R s0] _ r] s by auto
    then have "at_regs V R s0 (snd (run_state (udelay io R8125_CHANNEL_EXIT_DELAY_TIME) s1))"
      using delay_regs [OF ar, of R s0 R8125_CHANNEL_EXIT_DELAY_TIME] by (simp add: valid_def)
    then show "fst (run_state (?rest found) s) = R (csi_cmd 0 f a) \<and> at_regs V R s0 (snd (run_state (?rest found) s))"
      using s v r by (simp add: split_beta)
  qed
  from valid_bind [OF this chan32_read [OF assms(1) csi_cmd_flag(2) [of f a], of R s0, unfolded csi_cmd_flag]]
  have "valid (at_regs V R s0) ?prog (\<lambda>v s. v = R (csi_cmd 0 f a) \<and> at_regs V R s0 s)" by simp
  then show ?thesis
    by (rule valid_same_run [rotated]) (use assms(3) nf in \<open>simp add: rtl8125_csi_other_fun_read_def same_priv_diag Let_def\<close>)
qed

lemma csi_write:
  assumes "chan32_law io CSIAR CSIDR V" "f \<le> 7" "mcfg s0 \<noteq> CFG_METHOD_DEFAULT"
  shows "valid (at_regs V R s0) (rtl8125_csi_other_fun_write io f a v) (\<lambda>_. at_regs V (R(csi_cmd 0 f a := v)) s0)"
proof -
  have ar: "ar_law io CSIAR V" using assms by (simp add: chan32_law_def)
  have nf: "\<not> 7 < f" using assms(2) by (simp add: not_less)
  let ?prog = "do { RTL_W32 io CSIDR v; RTL_W32 io CSIAR (csi_cmd chan_flag f a); wait_no_flag io CSIAR;
      udelay io R8125_CHANNEL_EXIT_DELAY_TIME }"
  from valid_bind [OF valid_bind [OF delay_regs [OF ar]
        chan32_write [OF assms(1) csi_cmd_flag(1) [of f a], of v R s0, unfolded csi_cmd_flag]] chan32_data [OF assms(1)]]
  have "valid (at_regs V R s0) ?prog (\<lambda>_. at_regs V (R(csi_cmd 0 f a := v)) s0)" by simp
  then show ?thesis
    by (rule valid_same_run [rotated])
      (use assms(3) nf in \<open>simp add: rtl8125_csi_other_fun_write_def same_priv_diag Let_def RTL_W32_def\<close>)
qed

definition contents32 :: "'d view \<Rightarrow> 'd nic \<Rightarrow> u32 \<Rightarrow> u32" where
  "contents32 V s = vregs V (hw s)"

definition csi_ok :: "'d mmio \<Rightarrow> 'd view \<Rightarrow> 'd nic \<Rightarrow> bool" where
  "csi_ok io V s \<longleftrightarrow> chan32_law io CSIAR CSIDR V \<and> mcfg s \<noteq> CFG_METHOD_DEFAULT"

lemma csi_at_regs:
  "csi_ok io V s \<and> contents32 V s = C \<and> same_priv s0 s \<longleftrightarrow> csi_ok io V s0 \<and> at_regs V C s0 s"
  by (auto simp: csi_ok_def at_regs_def contents32_def same_priv_diag)

interpretation csi: reg_channel "rtl8125_csi_other_fun_read io f" "rtl8125_csi_other_fun_write io f" "\<lambda>_. f \<le> 7" "csi_cmd 0 f"
    "csi_ok io V" "contents32 V" same_priv for io V f
proof
  fix a C s0 v
  assume f: "f \<le> 7"
  show "valid (\<lambda>s. csi_ok io V s \<and> contents32 V s = C \<and> same_priv s0 s) (rtl8125_csi_other_fun_read io f a)
      (\<lambda>v s. v = C (csi_cmd 0 f a) \<and> csi_ok io V s \<and> contents32 V s = C \<and> same_priv s0 s)"
    unfolding csi_at_regs using csi_read [of io V f s0 C a] f by (auto simp: valid_def csi_ok_def)
  show "valid (\<lambda>s. csi_ok io V s \<and> contents32 V s = C \<and> same_priv s0 s) (rtl8125_csi_other_fun_write io f a v)
      (\<lambda>_ s. csi_ok io V s \<and> contents32 V s = C(csi_cmd 0 f a := v) \<and> same_priv s0 s)"
    unfolding csi_at_regs using csi_write [of io V f s0 C a v] f by (auto simp: valid_def csi_ok_def)
qed

text \<open>A configuration byte is a byte of the word its aligned address names.\<close>

definition cfg_index :: "u32 \<Rightarrow> u32" where
  "cfg_index a = csi_cmd 0 0 (csi_align a)"

definition byte_of :: "nat \<Rightarrow> u32 \<Rightarrow> u8" where
  "byte_of i w = ucast (drop_bit (8 * i) w)"

definition put_byte :: "nat \<Rightarrow> u8 \<Rightarrow> u32 \<Rightarrow> u32" where
  "put_byte i b w = (w AND NOT (push_bit (8 * i) 0xFF)) OR push_bit (8 * i) (ucast b)"

definition cfg_byte :: "(u32 \<Rightarrow> u32) \<Rightarrow> u32 \<Rightarrow> u8" where
  "cfg_byte C a = byte_of (unat (a AND 3)) (C (cfg_index a))"

lemma byte_put:
  assumes "i < 4" "j < 4"
  shows "byte_of j (put_byte i b w) = (if i = j then b else byte_of j w)"
proof -
  have m: "(0xFF :: u32) = mask 8" by (simp add: mask_eq_exp_minus_1)
  show ?thesis
    unfolding byte_of_def put_byte_def m
    by (rule bit_word_eqI) (use assms in \<open>auto simp: bit_simps dest: bit_imp_le_length\<close>)
qed

lemma and3_bound: "unat (a AND 3 :: u32) < 4"
proof -
  have "a AND 3 \<le> 3" by (simp add: word_and_le1)
  then show ?thesis by (simp add: word_le_nat_alt)
qed

lemma cfg_byte_update:
  "cfg_byte (C(cfg_index a := put_byte (unat (a AND 3)) v (C (cfg_index a)))) b =
     (if cfg_index b = cfg_index a \<and> b AND 3 = a AND 3 then v else cfg_byte C b)"
  using byte_put [OF and3_bound and3_bound] by (auto simp: cfg_byte_def simp flip: word_unat_eq_iff)

lemma valid_udelay_csi:
  assumes "chan32_law io CSIAR CSIDR V"
  shows "valid (at_regs V C s0) (udelay io t) (\<lambda>_. at_regs V C s0)"
  using assms by (intro delay_regs [of io CSIAR]) (simp add: chan32_law_def)

lemma csi_read_byte:
  assumes "csi_ok io V s0"
  shows "valid (at_regs V C s0) (rtl8125_csi_fun0_read_byte io a) (\<lambda>v s. v = cfg_byte C a \<and> at_regs V C s0 s)"
proof -
  let ?prog = "do { w \<leftarrow> rtl8125_csi_other_fun_read io 0 (csi_align a); udelay io R8125_CHANNEL_EXIT_DELAY_TIME;
     State_Monad.return (byte_of (unat (a AND 3)) w) }"
  have law: "chan32_law io CSIAR CSIDR V" "mcfg s0 \<noteq> CFG_METHOD_DEFAULT" using assms by (simp_all add: csi_ok_def)
  have "valid (\<lambda>s. w = C (cfg_index a) \<and> at_regs V C s0 s)
      (do { udelay io R8125_CHANNEL_EXIT_DELAY_TIME; State_Monad.return (byte_of (unat (a AND 3)) w) })
      (\<lambda>v s. v = cfg_byte C a \<and> at_regs V C s0 s)" for w
    using valid_udelay_csi [OF law(1), of C s0 R8125_CHANNEL_EXIT_DELAY_TIME]
    by (auto simp: valid_def cfg_byte_def split_beta)
  from valid_bind [OF this csi_read [OF law(1) _ law(2), of 0 C "csi_align a", folded cfg_index_def, simplified]]
  show ?thesis
    by (rule valid_same_run [rotated])
      (use law(2) in \<open>simp add: rtl8125_csi_fun0_read_byte_def same_priv_diag byte_of_def Let_def split_beta\<close>)
qed

lemma csi_write_byte:
  assumes "csi_ok io V s0"
  shows "valid (at_regs V C s0) (rtl8125_csi_fun0_write_byte io a v)
    (\<lambda>_. at_regs V (C(cfg_index a := put_byte (unat (a AND 3)) v (C (cfg_index a)))) s0)"
proof -
  let ?C = "C(cfg_index a := put_byte (unat (a AND 3)) v (C (cfg_index a)))"
  let ?prog = "do { w \<leftarrow> rtl8125_csi_other_fun_read io 0 (csi_align a);
     rtl8125_csi_other_fun_write io 0 (csi_align a) (put_byte (unat (a AND 3)) v w);
     udelay io R8125_CHANNEL_EXIT_DELAY_TIME }"
  have law: "chan32_law io CSIAR CSIDR V" "mcfg s0 \<noteq> CFG_METHOD_DEFAULT" using assms by (simp_all add: csi_ok_def)
  have "valid (\<lambda>s. w = C (cfg_index a) \<and> at_regs V C s0 s)
      (do { rtl8125_csi_other_fun_write io 0 (csi_align a) (put_byte (unat (a AND 3)) v w);
        udelay io R8125_CHANNEL_EXIT_DELAY_TIME }) (\<lambda>_. at_regs V ?C s0)" for w
    using valid_bind [OF valid_udelay_csi [OF law(1), of _ _ R8125_CHANNEL_EXIT_DELAY_TIME]
        csi_write [OF law(1) _ law(2), of 0 C "csi_align a" "put_byte (unat (a AND 3)) v w", folded cfg_index_def, simplified]]
    by (auto simp: valid_def)
  from valid_bind [OF this csi_read [OF law(1) _ law(2), of 0 C "csi_align a", folded cfg_index_def, simplified]]
  show ?thesis
    by (rule valid_same_run [rotated])
      (use law(2) in \<open>simp add: rtl8125_csi_fun0_write_byte_def same_priv_diag put_byte_def Let_def split_beta\<close>)
qed

section \<open>Read-modify-write is exact on every channel\<close>

lemma phy_update:
  assumes "phy_ok io V s"
  shows "contents16 V (snd (run_state (rtl8125_clear_and_set_eth_phy_ocp_bit io a c m) s)) =
      (contents16 V s)(ucast (a div 2) := (contents16 V s (ucast (a div 2)) AND NOT c) OR m)"
    and "same_priv s (snd (run_state (rtl8125_clear_and_set_eth_phy_ocp_bit io a c m) s))"
proof -
  have "rtl8125_clear_and_set_eth_phy_ocp_bit io a c m =
      do { v \<leftarrow> phy_rd io a; rtl8125_mdio_direct_write_phy_ocp io a ((v AND NOT c) OR m) }"
    by (simp add: rtl8125_clear_and_set_eth_phy_ocp_bit_def phy_rd_def)
  with phy.update [where io=io and V=V and a=a and R="contents16 V s" and ?s0.0=s and f="\<lambda>v. (v AND NOT c) OR m"] assms
  show "contents16 V (snd (run_state (rtl8125_clear_and_set_eth_phy_ocp_bit io a c m) s)) =
      (contents16 V s)(ucast (a div 2) := (contents16 V s (ucast (a div 2)) AND NOT c) OR m)"
    and "same_priv s (snd (run_state (rtl8125_clear_and_set_eth_phy_ocp_bit io a c m) s))"
    by (auto simp: valid_def)
qed

lemma diag_no_access:
  assumes "rtk_enable_diag s \<noteq> 0"
  shows "run_state (rtl8125_mdio_direct_write_phy_ocp io a v) s = ((), s)"
    "run_state (rtl8125_mdio_direct_read_phy_ocp io a) s = (0xffffffff, s)"
    "run_state (rtl8125_mdio_write io a v) s = ((), s)"
    "run_state (rtl8125_mdio_read io a) s = (0xffffffff, s)"
  using assms
  by (simp_all add: rtl8125_mdio_direct_write_phy_ocp_def rtl8125_mdio_direct_read_phy_ocp_def
      rtl8125_mdio_write_def rtl8125_mdio_read_def)

text \<open>
  A PHY register update through the OCP address clears and sets exactly the given bits
  of exactly that register and touches no field of the driver; in diagnostics mode it does nothing at
  all.
\<close>

lemma phy_update_exact:
  assumes "chan16_law io PHYOCP V"
    and "run_state (rtl8125_clear_and_set_eth_phy_ocp_bit io a c m) s = (u, s')"
  shows "if rtk_enable_diag s \<noteq> 0 then s' = s
    else contents16 V s' = (contents16 V s)(ucast (a div 2) := (contents16 V s (ucast (a div 2)) AND NOT c) OR m)
      \<and> same_priv s s'"
  using phy_update [of io V s a c m] diag_no_access [of s io a] assms
  by (auto simp: phy_ok_def rtl8125_clear_and_set_eth_phy_ocp_bit_def)

text \<open>
  The paged view: register 0x1f selects a page without any device access; in page 0 the standard MII
  registers lie at consecutive OCP addresses from 0xA400.
\<close>

lemma u8_div8: "unat (r div 8 :: u8) = unat r div 8" "unat (r mod 8 :: u8) = unat r mod 8"
  by (simp_all add: unat_div unat_mod)

lemma unat_up: "unat (ucast (x :: u8) :: u16) = unat x"
proof -
  have "unat x < 256" using unsigned_less [of x] by simp
  then show ?thesis by (simp add: unsigned_ucast_eq take_bit_nat_eq_self_iff)
qed

lemma map_std: "map_phy_ocp_addr 0 r = 0xA400 + 2 * ucast r"
proof -
  let ?n = "unat r"
  have n: "?n < 256" using unsigned_less [of r] by simp
  have lo: "\<not> (0x10 + r mod 8 :: u8) < 16"
  proof -
    have "unat (0x10 + r mod 8 :: u8) = 16 + unat r mod 8"
      by (simp add: unat_word_ariths u8_div8)
    then show ?thesis by (simp add: word_less_nat_alt)
  qed
  have "unat (push_bit 4 (0x0A40 + ucast (r div 8) :: u16) + ucast (push_bit 1 ((0x10 + r mod 8) - 16 :: u8))) =
      (0xA400 + 16 * (?n div 8) + 2 * (?n mod 8))"
  proof -
    have a: "unat (push_bit 4 (0x0A40 + ucast (r div 8) :: u16)) = 0xA400 + 16 * (?n div 8)"
      using n by (simp add: push_bit_eq_mult unat_word_ariths u8_div8 unat_up)
    have b: "unat (ucast (push_bit 1 ((0x10 + r mod 8) - 16 :: u8)) :: u16) = 2 * (?n mod 8)"
      by (simp add: push_bit_eq_mult unat_word_ariths u8_div8 unat_up)
    show ?thesis unfolding unat_word_ariths(1) a b using n by simp
  qed
  also have "\<dots> = 0xA400 + 2 * ?n" using div_mult_mod_eq [of ?n 8] by presburger
  also have "\<dots> = unat (0xA400 + 2 * ucast r :: u16)"
    using n by (simp add: unat_word_ariths unat_up)
  finally have "push_bit 4 (0x0A40 + ucast (r div 8) :: u16) + ucast (push_bit 1 ((0x10 + r mod 8) - 16 :: u8)) = 0xA400 + 2 * ucast r"
    by (simp add: word_unat_eq_iff)
  then show ?thesis using lo by (simp add: map_phy_ocp_addr_def Let_def)
qed

text \<open>
  Property C17.  Selecting a page and updating a register of it changes exactly the bits asked for in
  exactly the OCP register that page and register number name; for page 0 it is the MII register at
  0xA400 plus twice its number.
\<close>

theorem paged_update_exact:
  assumes "chan16_law io PHYOCP V" "rtk_enable_diag s = 0" "r \<noteq> 0x1f"
    and "run_state (do { rtl8125_mdio_write io 0x1f p; rtl8125_clear_and_set_eth_phy_bit io r c m }) s = (u, s')"
    and "i = ucast (map_phy_ocp_addr p r div 2)"
  shows "contents16 V s' = (contents16 V s)(i := (contents16 V s i AND NOT c) OR m)
    \<and> same_priv (s\<lparr>cur_page := p\<rparr>) s' \<and> (p = 0 \<longrightarrow> i = 0x5200 + ucast r)"
proof -
  have page: "run_state (rtl8125_mdio_write io 0x1f p) s = ((), s\<lparr>cur_page := p\<rparr>)"
    using assms(2) by (simp add: rtl8125_mdio_write_def mdio_real_write_def)
  have r: "(ucast r :: u16) \<noteq> 0x1f"
  proof
    assume "(ucast r :: u16) = 0x1f"
    then have "unat (ucast r :: u16) = 0x1f" by simp
    then have "unat r = 0x1f" by (simp add: unat_up)
    then show False using assms(3) by (simp add: word_unat_eq_iff)
  qed
  have uc: "(ucast (ucast (ucast r :: u16) :: u32) :: u8) = r" by (rule bit_word_eqI) (simp add: bit_simps)
  then have i: "page_index p (ucast r) = i" by (simp add: page_index_def assms(5))
  have eq: "rtl8125_clear_and_set_eth_phy_bit io r c m =
      do { v \<leftarrow> mdio_rd io (ucast r); rtl8125_mdio_write io (ucast r) ((v AND NOT c) OR m) }"
    by (simp add: rtl8125_clear_and_set_eth_phy_bit_def mdio_rd_def)
  have c: "contents16 V (s\<lparr>cur_page := p\<rparr>) = contents16 V s" by (simp add: contents16_def fun_eq_iff)
  have "run_state (rtl8125_clear_and_set_eth_phy_bit io r c m) (s\<lparr>cur_page := p\<rparr>) = (u, s')"
    using assms(4) page by simp
  moreover have "mdio_ok io V p (s\<lparr>cur_page := p\<rparr>)" using assms by (simp add: mdio_ok_def phy_ok_def)
  ultimately have "contents16 V s' = (contents16 V s)(i := (contents16 V s i AND NOT c) OR m) \<and> same_priv (s\<lparr>cur_page := p\<rparr>) s'"
    using mdio.update [where io=io and V=V and p=p and a="ucast r" and R="contents16 V s" and ?s0.0="s\<lparr>cur_page := p\<rparr>"
        and f="\<lambda>v. (v AND NOT c) OR m", folded eq] r c i
    by (auto simp: valid_def)
  moreover have "i = 0x5200 + ucast r" if "p = 0"
  proof -
    have n: "unat r < 256" using unsigned_less [of r] by simp
    have "unat (0xA400 + 2 * ucast r :: u16) = 0xA400 + 2 * unat r"
      using n by (simp add: unat_word_ariths unat_up)
    then have "unat ((0xA400 + 2 * ucast r :: u16) div 2) = 0x5200 + unat r" by (simp add: unat_div)
    moreover have "unat (ucast r :: u32) = unat r"
      using n by (simp add: unsigned_ucast_eq take_bit_nat_eq_self_iff)
    then have "unat (0x5200 + ucast r :: u32) = 0x5200 + unat r"
      using n by (simp add: unat_word_ariths)
    moreover have "unat (map_phy_ocp_addr p r div 2) < 65536"
      using unsigned_less [of "map_phy_ocp_addr p r div 2"] by simp
    then have "unat i = unat (map_phy_ocp_addr p r div 2)"
      by (simp add: assms(5) unsigned_ucast_eq take_bit_nat_eq_self_iff)
    ultimately show ?thesis using that map_std [of r] by (simp add: word_unat_eq_iff)
  qed
  ultimately show ?thesis by blast
qed

text \<open>
  The same for the MAC registers and for the PCIe PHY registers: an update clears and
  sets exactly the given bits of exactly one register.
\<close>

lemma mac_ephy_update_exact:
  assumes "mac_law io V" "chan16_law io EPHYAR W"
  shows "(let s' = snd (run_state (rtl8125_clear_set_mac_ocp_bit io a c m) s); i = ucast (a div 2) in
      contents16 V s' = (contents16 V s)(i := (contents16 V s i AND NOT c) OR m) \<and> same_priv s s')
    \<and> (let s' = snd (run_state (ClearAndSetPCIePhyBit io b c m) s); i = ucast b AND 0x7f in
      contents16 W s' = (contents16 W s)(i := (contents16 W s i AND NOT c) OR m) \<and> same_priv s s')"
  using assms
    mac.update [where io=io and V=V and a=a and R="contents16 V s" and ?s0.0=s and f="\<lambda>v. (v AND NOT c) OR m"]
    ephy.update [where io=io and V=W and a="ucast b" and R="contents16 W s" and ?s0.0=s and f="\<lambda>v. (v AND NOT c) OR m"]
  by (simp add: valid_def rtl8125_clear_set_mac_ocp_bit_def ClearAndSetPCIePhyBit_def Let_def)

lemma bit_small:
  assumes "(a :: u32) < 0x1000" "bit a n"
  shows "n < 12"
proof (rule ccontr)
  assume "\<not> n < 12"
  then have "(2 :: nat) ^ 12 \<le> 2 ^ n" by (intro power_increasing) auto
  moreover have "unat a < 2 ^ 12" using assms(1) by (simp add: word_less_nat_alt)
  ultimately have "unat a div 2 ^ n = 0" by simp
  moreover have "odd (unat a div 2 ^ n)" using assms(2) by (simp add: bit_unsigned_iff flip: bit_iff_odd)
  ultimately show False by simp
qed

lemma bit_cfg_index: "n \<in> {2..<12} \<Longrightarrow> bit (cfg_index a) n \<longleftrightarrow> bit a n"
proof -
  assume n: "n \<in> {2..<12}"
  have m: "push_bit 12 (0xf :: u32) = push_bit 12 (mask 4)" "(3 :: u32) = mask 2" by (simp_all add: mask_eq_exp_minus_1)
  show ?thesis
    unfolding cfg_index_def csi_cmd_def csi_align_def masks32 m using n
    by (auto simp: bit_simps dest: bit_imp_le_length)
qed

lemma cfg_inj:
  assumes "a < 0x1000" "b < 0x1000" "cfg_index b = cfg_index a" "b AND 3 = a AND 3"
  shows "b = a"
proof (rule bit_word_eqI)
  fix n assume "n < LENGTH(32)"
  have m: "(3 :: u32) = mask 2" by (simp add: mask_eq_exp_minus_1)
  consider "n < 2" | "n \<in> {2..<12}" | "12 \<le> n" by fastforce
  then show "bit b n = bit a n"
  proof cases
    case 1
    then have "bit (b AND 3) n = bit b n" "bit (a AND 3) n = bit a n" unfolding m by (auto simp: bit_simps)
    then show ?thesis using assms(4) by simp
  next
    case 2
    then show ?thesis using bit_cfg_index [of n a] bit_cfg_index [of n b] assms(3) by simp
  next
    case 3
    then show ?thesis using bit_small assms(1,2) by fastforce
  qed
qed

text \<open>
  Property C18.  Writing a byte of the configuration space through the 32-bit channel changes that byte
  and no other byte below 0x1000, and reading it returns what was written.
\<close>

theorem csi_byte_exact:
  assumes "chan32_law io CSIAR CSIDR V" "mcfg s \<noteq> CFG_METHOD_DEFAULT" "a < 0x1000"
    and "run_state (rtl8125_csi_fun0_write_byte io a v) s = (u, s')"
  shows "(\<forall>b < 0x1000. cfg_byte (contents32 V s') b = (if b = a then v else cfg_byte (contents32 V s) b))
    \<and> fst (run_state (rtl8125_csi_fun0_read_byte io a) s') = v \<and> same_priv s s'"
proof -
  let ?C = "(contents32 V s)(cfg_index a := put_byte (unat (a AND 3)) v (contents32 V s (cfg_index a)))"
  have ok: "csi_ok io V s" using assms by (simp add: csi_ok_def)
  have w: "contents32 V s' = ?C \<and> same_priv s s'"
    using validD [OF csi_write_byte [OF ok, of "contents32 V s" a v] _ assms(4)]
    by (simp add: at_regs_def contents32_def)
  have b: "cfg_byte ?C b = (if b = a then v else cfg_byte (contents32 V s) b)" if "b < 0x1000" for b
    using cfg_byte_update [of "contents32 V s" a v b] cfg_inj [OF assms(3) that] by auto
  have "fst (run_state (rtl8125_csi_fun0_read_byte io a) s') = cfg_byte ?C a"
    using csi_read_byte [OF ok, of ?C a] w by (simp add: valid_def at_regs_def contents32_def)
  then show ?thesis using w b assms(3) by simp
qed

section \<open>Every access ends, whatever the device does\<close>

lemma takes_wait [cost]: "takes_at_most 40000 (wait_flag io r)" "takes_at_most 40000 (wait_no_flag io r)"
  using takes_poll [OF takes_access(3) [of io r], of R8125_CHANNEL_WAIT_COUNT]
  by (simp_all add: wait_flag_def wait_no_flag_def R8125_CHANNEL_WAIT_COUNT_def)

lemma takes_phy [cost]:
  "takes_at_most 40001 (mdio_real_direct_write_phy_ocp io a v)"
  "takes_at_most 40002 (mdio_real_direct_read_phy_ocp io a)"
  unfolding mdio_real_direct_write_phy_ocp_def mdio_real_direct_read_phy_ocp_def Let_def
  by (rule takes_weaken, (rule cost)+, simp)+

lemma takes_mac [cost]: "takes_at_most 1 (rtl8125_mac_ocp_write io a v)" "takes_at_most 2 (rtl8125_mac_ocp_read io a)"
  unfolding rtl8125_mac_ocp_write_def rtl8125_mac_ocp_read_def Let_def
  by (rule takes_weaken, (rule cost)+, simp)+

lemma takes_ephy [cost]: "takes_at_most 40002 (rtl8125_ephy_write io a w)" "takes_at_most 40003 (rtl8125_ephy_read io a)"
  unfolding rtl8125_ephy_write_def rtl8125_ephy_read_def
  by (rule takes_weaken, (rule cost)+, simp)+

lemma takes_csi [cost]:
  "takes_at_most 40003 (rtl8125_csi_other_fun_read io f a)" "takes_at_most 40003 (rtl8125_csi_other_fun_write io f a w)"
  unfolding rtl8125_csi_other_fun_read_def rtl8125_csi_other_fun_write_def Let_def
  by (rule takes_weaken, (rule cost)+, simp)+

lemma takes_csi_byte [cost]:
  "takes_at_most 40004 (rtl8125_csi_fun0_read_byte io a)" "takes_at_most 80007 (rtl8125_csi_fun0_write_byte io a v)"
  unfolding rtl8125_csi_fun0_read_byte_def rtl8125_csi_fun0_write_byte_def Let_def
  by (rule takes_weaken, (rule cost)+, simp)+

text \<open>
  Property C21.  Every access through a channel ends after a bounded number of register accesses and
  delays on every device, also on one that never answers.
\<close>

theorem channel_access_bounded:
  "takes_at_most 40001 (mdio_real_direct_write_phy_ocp io a v) \<and> takes_at_most 40002 (mdio_real_direct_read_phy_ocp io a)
   \<and> takes_at_most 1 (rtl8125_mac_ocp_write io a v) \<and> takes_at_most 2 (rtl8125_mac_ocp_read io a)
   \<and> takes_at_most 40002 (rtl8125_ephy_write io b w) \<and> takes_at_most 40003 (rtl8125_ephy_read io b)
   \<and> takes_at_most 40003 (rtl8125_csi_other_fun_read io f b) \<and> takes_at_most 40003 (rtl8125_csi_other_fun_write io f b w)
   \<and> takes_at_most 40004 (rtl8125_csi_fun0_read_byte io b) \<and> takes_at_most 80007 (rtl8125_csi_fun0_write_byte io b x)"
  by (intro conjI takes_phy takes_mac takes_ephy takes_csi takes_csi_byte)

section \<open>A device that keeps the laws\<close>

text \<open>
  A board with a 16-bit channel behind every control register, each finishing a command after three
  polls, and one with a single 32-bit channel.
\<close>

record chip =
  c_regs :: "u32 \<Rightarrow> u32"
  c_busy :: nat
  c_shown :: u32
  c_data :: u32

definition chip_show :: "chip \<Rightarrow> u32" where
  "chip_show c = (if c_busy c = 0 then c_shown c else c_shown c XOR chan_flag)"

definition chip_tick :: "chip \<Rightarrow> chip" where
  "chip_tick c = c\<lparr>c_busy := c_busy c - 1\<rparr>"

definition chip_cmd16 :: "chip \<Rightarrow> u32 \<Rightarrow> chip" where
  "chip_cmd16 c x = (if flag_set x then c\<lparr>c_regs := (c_regs c)(key16 x := x AND 0xffff), c_busy := 3, c_shown := 0\<rparr>
     else c\<lparr>c_busy := 3, c_shown := chan_flag OR (c_regs c (key16 x) AND 0xffff)\<rparr>)"

definition chip_cmd32 :: "chip \<Rightarrow> u32 \<Rightarrow> chip" where
  "chip_cmd32 c x = (if flag_set x then c\<lparr>c_regs := (c_regs c)(key32 x := c_data c), c_busy := 3, c_shown := 0\<rparr>
     else c\<lparr>c_busy := 3, c_shown := chan_flag, c_data := c_regs c (key32 x)\<rparr>)"

definition board16 :: "(nat \<Rightarrow> chip) mmio" where
  "board16 = \<lparr>readb = (\<lambda>d r. (0, d)), readw = (\<lambda>d r. (0, d)),
     readl = (\<lambda>d r. (chip_show (d r), d(r := chip_tick (d r)))),
     writeb = (\<lambda>d r v. d), writew = (\<lambda>d r v. d), writel = (\<lambda>d r v. d(r := chip_cmd16 (d r) v)),
     elapse = (\<lambda>d t. d), pci_read = (\<lambda>d a. (0, d)), pci_write = (\<lambda>d a v. d)\<rparr>"

definition board32 :: "nat \<Rightarrow> nat \<Rightarrow> chip mmio" where
  "board32 ar dr = \<lparr>readb = (\<lambda>d r. (0, d)), readw = (\<lambda>d r. (0, d)),
     readl = (\<lambda>d r. if r = ar then (chip_show d, chip_tick d) else if r = dr then (c_data d, d) else (0, d)),
     writeb = (\<lambda>d r v. d), writew = (\<lambda>d r v. d),
     writel = (\<lambda>d r v. if r = ar then chip_cmd32 d v else if r = dr then d\<lparr>c_data := v\<rparr> else d),
     elapse = (\<lambda>d t. d), pci_read = (\<lambda>d a. (0, d)), pci_write = (\<lambda>d a v. d)\<rparr>"

definition view_at :: "nat \<Rightarrow> (nat \<Rightarrow> chip) view" where
  "view_at r = \<lparr>vregs = (\<lambda>d. c_regs (d r)), vbusy = (\<lambda>d. c_busy (d r)), vshown = (\<lambda>d. c_shown (d r)), vdata = (\<lambda>d. c_data (d r))\<rparr>"

definition mac_view :: "(nat \<Rightarrow> chip) view" where
  "mac_view = \<lparr>vregs = (\<lambda>d. c_regs (d MACOCP)), vbusy = (\<lambda>d. 0), vshown = (\<lambda>d. chip_show (d MACOCP)), vdata = (\<lambda>d. 0)\<rparr>"

definition view32 :: "chip view" where
  "view32 = \<lparr>vregs = c_regs, vbusy = c_busy, vshown = c_shown, vdata = c_data\<rparr>"

lemma flag_flip: "flag_set (x XOR chan_flag) \<longleftrightarrow> \<not> flag_set x"
  by (simp add: flag_set_bit bit_simps)

lemma flag_or: "flag_set (chan_flag OR x)" "flag_set chan_flag" "\<not> flag_set 0"
  by (simp_all add: flag_set_bit bit_simps)

lemma low_or: "(chan_flag OR (x AND 0xffff)) AND 0xffff = x AND 0xffff" "((chan_flag OR (x AND 0xffff)) XOR chan_flag) AND 0xffff = x AND 0xffff"
  unfolding masks32 by (rule bit_word_eqI, auto simp: bit_simps)+

lemma board16_lawful: "chan16_law board16 r (view_at r)"
  by (simp add: chan16_law_def ar_law_def vsame_def board16_def view_at_def chip_show_def chip_tick_def chip_cmd16_def
      Let_def flag_flip flag_or low_or R8125_CHANNEL_WAIT_COUNT_def)

lemma board16_mac: "mac_law board16 mac_view"
  by (simp add: mac_law_def board16_def mac_view_def chip_show_def chip_tick_def chip_cmd16_def Let_def low_or)

lemma board32_lawful: "ar \<noteq> dr \<Longrightarrow> chan32_law (board32 ar dr) ar dr view32"
  by (simp add: chan32_law_def ar_law_def vsame_def board32_def view32_def chip_show_def chip_tick_def chip_cmd32_def
      Let_def flag_flip flag_or R8125_CHANNEL_WAIT_COUNT_def)

definition idle_chip :: chip where
  "idle_chip = \<lparr>c_regs = (\<lambda>_. 0x1234), c_busy = 0, c_shown = 0, c_data = 0\<rparr>"

definition demo_nic :: "'d \<Rightarrow> 'd nic" where
  "demo_nic d = \<lparr>hw = d, io_log = [], mcfg = 9, cur_page = 0, rtk_enable_diag = 0, HwSuppDashVer = 0, HwSuppOcpChannelVer = 2,
     AllowAccessDashOcp = 0, DASH = 0, HwSuppCheckPhyDisableModeVer = 3, HwSuppIsrVer = 5, HwCurrIsrVer = 5, HwSuppIntMitiVer = 5,
     HwSuppNumTxQueues = 2, HwSuppNumRxQueues = 4, num_tx_rings = 1, num_rx_rings = 1, intr_mask = 0, timer_intr_mask = 0,
     use_timer_interrupt = 0, isr_reg = (\<lambda>_. 0x3e), imr_reg = (\<lambda>_. 0x38), eeprom_type = 0, eeprom_len = 0,
     autoneg = 1, duplex = 1, speed = 2500, advertising = 0x803f, fcpause = rtl8125_fc_full, HwSuppMaxPhyLinkSpeed = 2500,
     phy_auto_nego_reg = 0, phy_1000_ctrl_reg = 0, phy_2500_ctrl_reg = 0,
     phy_reg_aner = 0, phy_reg_anlpar = 0, phy_reg_gbsr = 0, phy_reg_status_2500 = 0, wol_opts = 0, HwSuppD0SpeedUpVer = 0, D0SpeedUpSpeed = 0,
     resume_not_chg_speed = 0, HwFiberModeVer = 0, HwFiberStat = 0, rtl8125_rx_config = 0x40c00700, RxConfigMask = 0xff7e5880,
     org_mac_addr = replicate 6 0, random_mac = 0, keep_intr_cnt = 0, features = 0, irq_requested = (\<lambda>_. True)\<rparr>"

definition demo16 :: "(nat \<Rightarrow> chip) nic" where
  "demo16 = demo_nic (\<lambda>_. idle_chip)"

definition demo32 :: "chip nic" where
  "demo32 = demo_nic idle_chip"

lemma phy_update_exact_witness:
  "contents16 (view_at PHYOCP) (snd (run_state (rtl8125_clear_and_set_eth_phy_ocp_bit board16 0xA442 0x0030 0x0001) demo16)) 0x5221 = 0x1205"
  using phy_update_exact [OF board16_lawful, of "0xA442" "0x0030" "0x0001" demo16 "()"]
  by (simp add: demo16_def demo_nic_def contents16_def view_at_def idle_chip_def prod_eq_iff)

theorem paged_update_exact_witness:
  "contents16 (view_at PHYOCP) (snd (run_state (do { rtl8125_mdio_write board16 0x1f 0; rtl8125_clear_and_set_eth_phy_bit board16 4 0x0004 0x0001 }) demo16)) 0x5204 = 0x1231"
  using paged_update_exact [OF board16_lawful, of demo16 4 0 "0x0004" "0x0001" "()" _ "0x5204"]
  by (simp add: demo16_def demo_nic_def contents16_def view_at_def idle_chip_def prod_eq_iff map_phy_ocp_addr_def)

lemma mac_ephy_update_exact_witness:
  "contents16 mac_view (snd (run_state (rtl8125_clear_set_mac_ocp_bit board16 0xE09A 0x0004 0x0001) demo16)) 0x704D = 0x1231"
  using mac_ephy_update_exact [OF board16_mac board16_lawful, where a = "0xE09A" and c = "0x0004" and m = "0x0001" and s = demo16]
  by (simp add: demo16_def demo_nic_def contents16_def mac_view_def idle_chip_def Let_def)

theorem csi_byte_exact_witness:
  "cfg_byte (contents32 view32 (snd (run_state (rtl8125_csi_fun0_write_byte (board32 CSIAR CSIDR) 0x99 0x5a) demo32))) 0x99 = 0x5a"
  using csi_byte_exact [OF board32_lawful, of demo32 "0x99" "0x5a" "()"]
  by (simp add: demo32_def demo_nic_def prod_eq_iff)

end
