(* ===== verification/Eri.thy ===== *)
theory Eri
  imports Access
begin

text \<open>
  Byte-granular access to the out-of-band registers through \<open>ERIAR\<close>/\<open>ERIDR\<close>, and the functions
  built on it: OCP access, the mutex shared with the out-of-band firmware, and the DASH handshake
  (\<open>r8125_n.c\<close>).  An access of 1 to 4 bytes at any address is one or two aligned word commands; a
  write reads each word first and replaces the bytes.  \<open>int\<close> addresses are taken as 32-bit words:
  the callers pass \<open>u16\<close> values or constants.
\<close>

abbreviation (input) ERIDR :: nat where "ERIDR \<equiv> 0x70"
abbreviation (input) ERIAR :: nat where "ERIAR \<equiv> 0x74"
abbreviation (input) ERIAR_OOB :: u32 where "ERIAR_OOB \<equiv> 2"
abbreviation (input) NO_BASE_ADDRESS :: u32 where "NO_BASE_ADDRESS \<equiv> 0"

section \<open>ERI access\<close>

definition eri_base :: "u32 \<Rightarrow> u32" where
  "eri_base base_address = push_bit 6 (base_address AND 0x00FFF000) OR (base_address AND 0x000FFF)"

definition eri_cmd :: "u32 \<Rightarrow> u32 \<Rightarrow> u32 \<Rightarrow> u32 \<Rightarrow> u32" where
  "eri_cmd flag base type addr =
     (let cmd = flag OR base OR push_bit 16 type OR push_bit 12 0x0f OR (addr AND 0x0FFF)
      in if addr AND 0xF000 \<noteq> 0
         then cmd OR (push_bit 20 (drop_bit 12 (addr AND 0xF000)) AND 0x00F00000)
         else cmd)"

definition eri_mask :: "int \<Rightarrow> nat \<Rightarrow> u32" where
  "eri_mask len val_shift =
     (if len = 1 then push_bit (val_shift * 8) 0xFF
      else if len = 2 then push_bit (val_shift * 8) 0xFFFF
      else if len = 3 then push_bit (val_shift * 8) 0xFFFFFF
      else push_bit (val_shift * 8) 0xFFFFFFFF)"

lemma mod4_bound: "unat ((a :: u32) mod 4) < 4"
  by (simp add: unat_mod)

lemma mod4_uint: "0 \<le> uint ((a :: u32) mod 4)" "uint ((a :: u32) mod 4) < 4"
  by (simp_all add: uint_mod)

function eri_read_loop :: "'d mmio \<Rightarrow> u32 \<Rightarrow> u32 \<Rightarrow> u32 \<Rightarrow> int \<Rightarrow> nat \<Rightarrow> u32 \<Rightarrow> ('d, u32) drv" where
  "eri_read_loop io base type addr len shift value2 =
     (if len \<le> 0 then State_Monad.return value2
      else
        let val_shift = unat (addr mod 4);
            addr = addr AND NOT 3
        in do {
          RTL_W32 io ERIAR (eri_cmd 0 base type addr);
          wait_flag io ERIAR;
          v \<leftarrow> RTL_R32 io ERIDR;
          let value1 = v AND eri_mask len val_shift;
          let value2 = value2 OR push_bit (shift * 8) (drop_bit (val_shift * 8) value1);
          if len \<le> 4 - int val_shift then State_Monad.return value2
          else eri_read_loop io base type (addr + 4) (len - (4 - int val_shift)) (4 - val_shift) value2
        })"
  by pat_completeness auto

termination
proof (relation "measure (\<lambda>(io, base, type, addr, len, shift, value2). nat len)", goal_cases)
  case (2 io base type addr len shift value2)
  then show ?case using mod4_uint [of addr] by auto
qed simp

declare eri_read_loop.simps [simp del]

definition rtl8125_eri_read_with_oob_base_address :: "'d mmio \<Rightarrow> u32 \<Rightarrow> int \<Rightarrow> u32 \<Rightarrow> u32 \<Rightarrow> ('d, u32) drv" where
  "rtl8125_eri_read_with_oob_base_address io addr len type base_address =
     (if 4 < len \<or> len \<le> 0 then State_Monad.return 0xFFFFFFFF
      else do {
        value2 \<leftarrow> eri_read_loop io (eri_base base_address) type addr len 0 0;
        udelay io R8125_CHANNEL_EXIT_DELAY_TIME;
        State_Monad.return value2
      })"

definition rtl8125_eri_read :: "'d mmio \<Rightarrow> u32 \<Rightarrow> int \<Rightarrow> u32 \<Rightarrow> ('d, u32) drv" where
  "rtl8125_eri_read io addr len type = rtl8125_eri_read_with_oob_base_address io addr len type 0"

function eri_write_loop :: "'d mmio \<Rightarrow> u32 \<Rightarrow> u32 \<Rightarrow> u32 \<Rightarrow> u32 \<Rightarrow> int \<Rightarrow> nat \<Rightarrow> ('d, unit) drv" where
  "eri_write_loop io value type base_address addr len shift =
     (if len \<le> 0 then State_Monad.return ()
      else
        let val_shift = unat (addr mod 4);
            addr = addr AND NOT 3
        in do {
          r \<leftarrow> rtl8125_eri_read_with_oob_base_address io addr 4 type base_address;
          let value1 = (r AND NOT (eri_mask len val_shift))
                       OR drop_bit (shift * 8) (push_bit (val_shift * 8) value);
          RTL_W32 io ERIDR value1;
          RTL_W32 io ERIAR (eri_cmd chan_flag (eri_base base_address) type addr);
          wait_no_flag io ERIAR;
          if len \<le> 4 - int val_shift then State_Monad.return ()
          else eri_write_loop io value type base_address (addr + 4) (len - (4 - int val_shift)) (4 - val_shift)
        })"
  by pat_completeness auto

termination
proof (relation "measure (\<lambda>(io, value, type, base, addr, len, shift). nat len)", goal_cases)
  case (2 io val type base addr len shift)
  then show ?case using mod4_uint [of addr] by auto
qed simp

declare eri_write_loop.simps [simp del]

definition rtl8125_eri_write_with_oob_base_address ::
    "'d mmio \<Rightarrow> u32 \<Rightarrow> int \<Rightarrow> u32 \<Rightarrow> u32 \<Rightarrow> u32 \<Rightarrow> ('d, int) drv" where
  "rtl8125_eri_write_with_oob_base_address io addr len value type base_address =
     (if 4 < len \<or> len \<le> 0 then State_Monad.return (- 1)
      else do {
        eri_write_loop io value type base_address addr len 0;
        udelay io R8125_CHANNEL_EXIT_DELAY_TIME;
        State_Monad.return 0
      })"

definition rtl8125_eri_write :: "'d mmio \<Rightarrow> u32 \<Rightarrow> int \<Rightarrow> u32 \<Rightarrow> u32 \<Rightarrow> ('d, int) drv" where
  "rtl8125_eri_write io addr len value type =
     rtl8125_eri_write_with_oob_base_address io addr len value type NO_BASE_ADDRESS"

section \<open>OCP access and DASH\<close>

definition HW_DASH_SUPPORT_DASH :: "'d nic \<Rightarrow> bool" where
  "HW_DASH_SUPPORT_DASH s \<longleftrightarrow> 0 < HwSuppDashVer s"

definition HW_DASH_SUPPORT_CMAC :: "'d nic \<Rightarrow> bool" where
  "HW_DASH_SUPPORT_CMAC s \<longleftrightarrow> HwSuppDashVer s = 2 \<or> HwSuppDashVer s = 3"

definition HW_DASH_SUPPORT_IPC2 :: "'d nic \<Rightarrow> bool" where
  "HW_DASH_SUPPORT_IPC2 s \<longleftrightarrow> HwSuppDashVer s = 4"

definition HW_DASH_SUPPORT_GET_FIRMWARE_VERSION :: "'d nic \<Rightarrow> bool" where
  "HW_DASH_SUPPORT_GET_FIRMWARE_VERSION s \<longleftrightarrow> HwSuppDashVer s = 2 \<or> HwSuppDashVer s = 3 \<or> HwSuppDashVer s = 4"

definition rtl8125_ocp_read_with_oob_base_address :: "'d mmio \<Rightarrow> u16 \<Rightarrow> u8 \<Rightarrow> u32 \<Rightarrow> ('d, u32) drv" where
  "rtl8125_ocp_read_with_oob_base_address io addr len base_address =
     rtl8125_eri_read_with_oob_base_address io (ucast addr) (uint len) ERIAR_OOB base_address"

definition rtl8125_ocp_read :: "'d mmio \<Rightarrow> u16 \<Rightarrow> u8 \<Rightarrow> ('d, u32) drv" where
  "rtl8125_ocp_read io addr len = do {
     allow \<leftarrow> gets AllowAccessDashOcp;
     ver \<leftarrow> gets HwSuppOcpChannelVer;
     if allow = 0 \<or> ver \<noteq> 2 then State_Monad.return 0xffffffff
     else rtl8125_ocp_read_with_oob_base_address io addr len NO_BASE_ADDRESS
   }"

definition rtl8125_ocp_write_with_oob_base_address :: "'d mmio \<Rightarrow> u16 \<Rightarrow> u8 \<Rightarrow> u32 \<Rightarrow> u32 \<Rightarrow> ('d, int) drv" where
  "rtl8125_ocp_write_with_oob_base_address io addr len value base_address =
     rtl8125_eri_write_with_oob_base_address io (ucast addr) (uint len) value ERIAR_OOB base_address"

definition rtl8125_ocp_write :: "'d mmio \<Rightarrow> u16 \<Rightarrow> u8 \<Rightarrow> u32 \<Rightarrow> ('d, unit) drv" where
  "rtl8125_ocp_write io addr len value = do {
     allow \<leftarrow> gets AllowAccessDashOcp;
     ver \<leftarrow> gets HwSuppOcpChannelVer;
     if allow = 0 \<or> ver \<noteq> 2 then State_Monad.return ()
     else do { rtl8125_ocp_write_with_oob_base_address io addr len value NO_BASE_ADDRESS; State_Monad.return () }
   }"

text \<open>The mutex shared with the out-of-band firmware; both loops stop after 2001 turns.\<close>

definition ocp_byte :: "'d mmio \<Rightarrow> u16 \<Rightarrow> ('d, u8) drv" where
  "ocp_byte io a = do { v \<leftarrow> rtl8125_ocp_read io a 1; State_Monad.return (ucast v) }"

function oob_wait_prio :: "'d mmio \<Rightarrow> u8 \<Rightarrow> nat \<Rightarrow> ('d, unit) drv" where
  "oob_wait_prio io reg_a0 wait_Cnt_1 =
     (if reg_a0 = 0 then State_Monad.return ()
      else do {
        reg_a0 \<leftarrow> ocp_byte io 0x11C;
        if 2000 < wait_Cnt_1 + 1 then State_Monad.return () else oob_wait_prio io reg_a0 (wait_Cnt_1 + 1)
      })"
  by pat_completeness auto
termination by (relation "measure (\<lambda>(io, r, n). 2001 - n)") auto

function oob_wait_lock :: "'d mmio \<Rightarrow> u8 \<Rightarrow> nat \<Rightarrow> ('d, unit) drv" where
  "oob_wait_lock io reg_16 wait_cnt_0 =
     (if reg_16 = 0 then State_Monad.return ()
      else do {
        reg_a0 \<leftarrow> ocp_byte io 0x11C;
        (if reg_a0 \<noteq> 0 then do {
           rtl8125_ocp_write io 0x114 1 0x00;
           reg_a0 \<leftarrow> ocp_byte io 0x11C;
           oob_wait_prio io reg_a0 0;
           rtl8125_ocp_write io 0x114 1 1
         } else State_Monad.return ());
        reg_16 \<leftarrow> ocp_byte io 0x110;
        if 2000 < wait_cnt_0 + 1 then State_Monad.return () else oob_wait_lock io reg_16 (wait_cnt_0 + 1)
      })"
  by pat_completeness auto
termination by (relation "measure (\<lambda>(io, r, n). 2001 - n)") auto

declare oob_wait_prio.simps [simp del] oob_wait_lock.simps [simp del]

definition rtl8125_oob_mutex_lock :: "'d mmio \<Rightarrow> ('d, unit) drv" where
  "rtl8125_oob_mutex_lock io = do {
     supp \<leftarrow> gets HW_DASH_SUPPORT_DASH;
     dash \<leftarrow> gets DASH;
     if \<not> supp then State_Monad.return ()
     else if dash = 0 then State_Monad.return ()
     else do {
       rtl8125_ocp_write io 0x114 1 1;
       reg_16 \<leftarrow> ocp_byte io 0x110;
       oob_wait_lock io reg_16 0
     }
   }"

definition rtl8125_oob_mutex_unlock :: "'d mmio \<Rightarrow> ('d, unit) drv" where
  "rtl8125_oob_mutex_unlock io = do {
     supp \<leftarrow> gets HW_DASH_SUPPORT_DASH;
     dash \<leftarrow> gets DASH;
     if \<not> supp then State_Monad.return ()
     else if dash = 0 then State_Monad.return ()
     else do {
       rtl8125_ocp_write io 0x11C 1 1;
       rtl8125_ocp_write io 0x114 1 0x00
     }
   }"

definition rtl8125_is_allow_access_dash_ocp :: "'d mmio \<Rightarrow> ('d, bool) drv" where
  "rtl8125_is_allow_access_dash_ocp io = do {
     supp \<leftarrow> gets HW_DASH_SUPPORT_DASH;
     cfg \<leftarrow> gets mcfg;
     if \<not> supp then State_Monad.return False
     else if cfg = 2 \<or> cfg = 3 then do {
       mac_ocp_data \<leftarrow> rtl8125_mac_ocp_read io 0xd460;
       State_Monad.return (\<not> (mac_ocp_data = 0xffff \<or> mac_ocp_data AND 1 = 0))
     }
     else if cfg = 8 \<or> cfg = 9 then do {
       mac_ocp_data \<leftarrow> rtl8125_mac_ocp_read io 0xd4c0;
       State_Monad.return (\<not> (mac_ocp_data = 0xffff \<or> mac_ocp_data AND 8 \<noteq> 0))
     }
     else State_Monad.return True
   }"

definition rtl8125_get_dash_fw_ver :: "'d mmio \<Rightarrow> ('d, u32) drv" where
  "rtl8125_get_dash_fw_ver io = do {
     supp \<leftarrow> gets HW_DASH_SUPPORT_GET_FIRMWARE_VERSION;
     if \<not> supp then State_Monad.return 0xffffffff else rtl8125_ocp_read io 0x120 4
   }"

definition check_dash_ipc2 :: "'d mmio \<Rightarrow> ('d, int) drv" where
  "check_dash_ipc2 io = do {
     allow \<leftarrow> gets AllowAccessDashOcp;
     supp \<leftarrow> gets HW_DASH_SUPPORT_IPC2;
     if allow = 0 then State_Monad.return 0
     else if \<not> supp then State_Monad.return 0
     else do {
       v \<leftarrow> rtl8125_ocp_read io 0x128 1;
       State_Monad.return (if v AND 1 \<noteq> 0 then 1 else 0)
     }
   }"

definition rtl8125_check_dash :: "'d mmio \<Rightarrow> ('d, int) drv" where
  "rtl8125_check_dash io = do {
     supp \<leftarrow> gets HW_DASH_SUPPORT_DASH;
     if \<not> supp then State_Monad.return 0
     else do {
       c \<leftarrow> check_dash_ipc2 io;
       if c = 0 then State_Monad.return 0
       else do {
         ver \<leftarrow> rtl8125_get_dash_fw_ver io;
         State_Monad.return (if \<not> (ver = 0 \<or> ver = 0xffffffff) then 1 else 0)
       }
     }
   }"

definition rtl8125_wait_dash_fw_ready :: "'d mmio \<Rightarrow> ('d, int) drv" where
  "rtl8125_wait_dash_fw_ready io = do {
     dash \<leftarrow> gets DASH;
     if dash = 0 then State_Monad.return (- 1)
     else do {
       ready \<leftarrow> poll io 10000 (rtl8125_ocp_read io 0x124 1) (\<lambda>v. v AND 1 \<noteq> 0) 10;
       State_Monad.return (if ready then 1 else 0)
     }
   }"

definition rtl8125_notify_dash_oob_cmac :: "'d mmio \<Rightarrow> u32 \<Rightarrow> ('d, unit) drv" where
  "rtl8125_notify_dash_oob_cmac io cmd = do {
     supp \<leftarrow> gets HW_DASH_SUPPORT_CMAC;
     if \<not> supp then State_Monad.return ()
     else do {
       rtl8125_ocp_write io 0x180 4 cmd;
       v \<leftarrow> rtl8125_ocp_read io 0x30 4;
       rtl8125_ocp_write io 0x30 4 (v OR 1)
     }
   }"

definition rtl8125_notify_dash_oob_ipc2 :: "'d mmio \<Rightarrow> u32 \<Rightarrow> ('d, unit) drv" where
  "rtl8125_notify_dash_oob_ipc2 io cmd = do {
     supp \<leftarrow> gets HW_DASH_SUPPORT_IPC2;
     if \<not> supp then State_Monad.return ()
     else do {
       rtl8125_ocp_write io 0x14 4 cmd;
       rtl8125_ocp_write io 0x18 4 0x00;
       rtl8125_ocp_write io 0x10 4 0x01
     }
   }"

definition rtl8125_notify_dash_oob :: "'d mmio \<Rightarrow> u32 \<Rightarrow> ('d, unit) drv" where
  "rtl8125_notify_dash_oob io cmd = do {
     cmac \<leftarrow> gets HW_DASH_SUPPORT_CMAC;
     ipc2 \<leftarrow> gets HW_DASH_SUPPORT_IPC2;
     if cmac then rtl8125_notify_dash_oob_cmac io cmd
     else if ipc2 then rtl8125_notify_dash_oob_ipc2 io cmd
     else State_Monad.return ()
   }"

definition rtl8125_driver_start :: "'d mmio \<Rightarrow> ('d, unit) drv" where
  "rtl8125_driver_start io = do {
     allow \<leftarrow> gets AllowAccessDashOcp;
     if allow = 0 then State_Monad.return ()
     else do { rtl8125_notify_dash_oob io 0x05; rtl8125_wait_dash_fw_ready io; State_Monad.return () }
   }"

definition rtl8125_driver_stop :: "'d mmio \<Rightarrow> ('d, unit) drv" where
  "rtl8125_driver_stop io = do {
     allow \<leftarrow> gets AllowAccessDashOcp;
     if allow = 0 then State_Monad.return ()
     else do { rtl8125_notify_dash_oob io 0x06; rtl8125_wait_dash_fw_ready io; State_Monad.return () }
   }"

section \<open>Words and bytes behind ERI\<close>

definition eri_index :: "u32 \<Rightarrow> nat \<Rightarrow> u32" where
  "eri_index type w = eri_cmd 0 0 type (of_nat (4 * w))"

definition eri_byte :: "(u32 \<Rightarrow> u32) \<Rightarrow> u32 \<Rightarrow> nat \<Rightarrow> u8" where
  "eri_byte C type n = byte_of (n mod 4) (C (eri_index type (n div 4)))"

lemma bit_byte_of: "bit (byte_of j w) n \<longleftrightarrow> n < 8 \<and> bit w (8 * j + n)"
  by (auto simp: byte_of_def bit_simps)

lemma bit_eri_mask:
  assumes "1 \<le> len" "len \<le> 4"
  shows "bit (eri_mask len vs) k \<longleftrightarrow> 8 * vs \<le> k \<and> k < 8 * vs + 8 * nat len \<and> k < 32"
proof -
  have m: "(0xFF :: u32) = mask 8" "(0xFFFF :: u32) = mask 16" "(0xFFFFFF :: u32) = mask 24" "(0xFFFFFFFF :: u32) = mask 32"
    by (simp_all add: mask_eq_exp_minus_1)
  from assms have "len = 1 \<or> len = 2 \<or> len = 3 \<or> len = 4" by presburger
  then show ?thesis
    unfolding eri_mask_def m by (elim disjE) (auto simp: bit_simps dest: bit_imp_le_length)
qed

lemma bit_value_bound:
  assumes "unat (x :: u32) < 2 ^ m" "bit x k"
  shows "k < m"
proof (rule ccontr)
  assume "\<not> k < m"
  then have "(2 :: nat) ^ m \<le> 2 ^ k" by (intro power_increasing) auto
  then have "unat x < 2 ^ k" using assms(1) by linarith
  then have "unat x div 2 ^ k = 0" by simp
  moreover have "odd (unat x div 2 ^ k)" using assms(2) by (simp add: bit_unsigned_iff flip: bit_iff_odd)
  ultimately show False by simp
qed

text \<open>The word the write loop stores: the selected bytes come from the value, the others stay.\<close>

lemma byte_first_word:
  assumes "1 \<le> len" "len \<le> 4" "j < 4" "vs < 4" "\<And>k. bit x k \<Longrightarrow> k < 8 * nat len"
  shows "byte_of j ((w AND NOT (eri_mask len vs)) OR drop_bit (0 * 8) (push_bit (vs * 8) x)) =
    (if vs \<le> j \<and> j < vs + nat len then byte_of (j - vs) x else byte_of j w)"
proof (rule bit_word_eqI)
  fix n assume n: "n < LENGTH(8)"
  have e: "8 * j + n - vs * 8 = 8 * (j - vs) + n" if "vs \<le> j" using that by simp
  have "bit x (8 * j + n - vs * 8) \<Longrightarrow> vs \<le> j \<Longrightarrow> j < vs + nat len"
    using assms(5) [of "8 * j + n - vs * 8"] by (auto simp: e)
  then show "bit (byte_of j ((w AND NOT (eri_mask len vs)) OR drop_bit (0 * 8) (push_bit (vs * 8) x))) n =
      bit (if vs \<le> j \<and> j < vs + nat len then byte_of (j - vs) x else byte_of j w) n"
    using n assms(3,4) bit_eri_mask [OF assms(1,2)] by (auto simp: bit_byte_of bit_simps e)
qed

lemma byte_second_word:
  assumes "1 \<le> len" "len \<le> 4" "j < 4" "sh < 4" "\<And>k. bit x k \<Longrightarrow> k < 8 * sh + 8 * nat len"
  shows "byte_of j ((w AND NOT (eri_mask len 0)) OR drop_bit (sh * 8) (push_bit (0 * 8) x)) =
    (if j < nat len then byte_of (j + sh) x else byte_of j w)"
proof (rule bit_word_eqI)
  fix n assume n: "n < LENGTH(8)"
  have "bit x (8 * j + n + sh * 8) \<Longrightarrow> j < nat len"
    using assms(5) [of "8 * j + n + sh * 8"] by auto
  then show "bit (byte_of j ((w AND NOT (eri_mask len 0)) OR drop_bit (sh * 8) (push_bit (0 * 8) x))) n =
      bit (if j < nat len then byte_of (j + sh) x else byte_of j w) n"
    using n assms(3,4) bit_eri_mask [OF assms(1,2)] by (auto simp: bit_byte_of bit_simps algebra_simps)
qed

text \<open>What the read loop collects.\<close>

lemma byte_read_one:
  assumes "1 \<le> len" "len \<le> 4" "j < 4" "vs < 4" "vs + nat len \<le> 4"
  shows "byte_of j (0 OR push_bit (0 * 8) (drop_bit (vs * 8) (w AND eri_mask len vs))) =
    (if j < nat len then byte_of (j + vs) w else 0)"
proof (rule bit_word_eqI)
  fix n assume n: "n < LENGTH(8)"
  have e: "vs * 8 + (8 * j + n) = 8 * (j + vs) + n" by simp
  show "bit (byte_of j (0 OR push_bit (0 * 8) (drop_bit (vs * 8) (w AND eri_mask len vs)))) n =
      bit (if j < nat len then byte_of (j + vs) w else 0) n"
    using n assms(3-5) bit_eri_mask [OF assms(1,2)] by (auto simp: bit_byte_of bit_simps e)
qed

lemma byte_read_two:
  assumes "1 \<le> len" "len \<le> 4" "j < 4" "vs < 4" "4 < vs + nat len" "len2 = len - (4 - int vs)"
  shows "byte_of j ((0 OR push_bit (0 * 8) (drop_bit (vs * 8) (w AND eri_mask len vs)))
      OR push_bit ((4 - vs) * 8) (drop_bit (0 * 8) (w2 AND eri_mask len2 0))) =
    (if j + vs < 4 then byte_of (j + vs) w else if j < nat len then byte_of (j + vs - 4) w2 else 0)"
proof (rule bit_word_eqI)
  fix n assume n: "n < LENGTH(8)"
  have l2: "1 \<le> len2" "len2 \<le> 4" "nat len2 = nat len - (4 - vs)" using assms by auto
  have e: "vs * 8 + (8 * j + n) = 8 * (j + vs) + n" by simp
  have f: "8 * j + n - (4 - vs) * 8 = 8 * (j + vs - 4) + n" if "4 \<le> j + vs" using that assms(4) by auto
  show "bit (byte_of j ((0 OR push_bit (0 * 8) (drop_bit (vs * 8) (w AND eri_mask len vs)))
      OR push_bit ((4 - vs) * 8) (drop_bit (0 * 8) (w2 AND eri_mask len2 0)))) n =
      bit (if j + vs < 4 then byte_of (j + vs) w else if j < nat len then byte_of (j + vs - 4) w2 else 0) n"
    using n assms(3-5) l2(3) bit_eri_mask [OF assms(1,2)] bit_eri_mask [OF l2(1,2)]
    by (auto simp: bit_byte_of bit_simps e f)
qed

section \<open>Commands\<close>

lemma eri_masks: "(0xFFF :: u32) = mask 12" "(0xF000 :: u32) = push_bit 12 (mask 4)" "(0x00F00000 :: u32) = push_bit 20 (mask 4)"
  "push_bit 12 (0xf :: u32) = push_bit 12 (mask 4)" "(0x00FFF000 :: u32) = push_bit 12 (mask 12)"
  by (simp_all add: mask_eq_exp_minus_1)

lemma eri_cmd_high:
  "eri_cmd f base type a = f OR base OR push_bit 16 type OR push_bit 12 0x0f OR (a AND 0xFFF)
     OR (push_bit 20 (drop_bit 12 (a AND 0xF000)) AND 0x00F00000)"
proof (cases "a AND 0xF000 = 0")
  case True
  show ?thesis unfolding eri_cmd_def Let_def True by (simp add: ac_simps)
next
  case False
  show ?thesis unfolding eri_cmd_def Let_def if_P [OF False] by (simp only: ac_simps)
qed

lemma bit_eri_cmd:
  "bit (eri_cmd f base type a) n \<longleftrightarrow> n < 32 \<and> (bit f n \<or> bit base n \<or> 16 \<le> n \<and> bit type (n - 16) \<or> n \<in> {12..<16}
     \<or> n < 12 \<and> bit a n \<or> n \<in> {20..<24} \<and> bit a (n - 8))"
  unfolding eri_cmd_high eri_masks
  by (auto simp: bit_simps dest: bit_imp_le_length)

lemma bit_eri_base_31: "\<not> bit (eri_base b) 31"
  unfolding eri_base_def eri_masks by (simp add: bit_simps)

lemma type_bits: "type < 4 \<Longrightarrow> bit (type :: u32) n \<Longrightarrow> n < 2"
  using bit_value_bound [of type 2 n] by (simp add: word_less_nat_alt)

lemma eri_cmd_flag:
  assumes "type < 4"
  shows "flag_set (eri_cmd chan_flag (eri_base b) type a)" "\<not> flag_set (eri_cmd 0 (eri_base b) type a)"
    "key32 (eri_cmd chan_flag (eri_base b) type a) = eri_cmd 0 (eri_base b) type a"
    "key32 (eri_cmd 0 (eri_base b) type a) = eri_cmd 0 (eri_base b) type a"
proof -
  show "flag_set (eri_cmd chan_flag (eri_base b) type a)" "\<not> flag_set (eri_cmd 0 (eri_base b) type a)"
    using bit_eri_base_31 [of b] type_bits [OF assms, of 15] by (auto simp: flag_set_bit bit_eri_cmd)
  have top: "\<not> bit (eri_cmd 0 (eri_base b) type a) 31"
    using bit_eri_base_31 [of b] type_bits [OF assms, of 15] by (auto simp: bit_eri_cmd)
  have low: "bit (key32 (eri_cmd f (eri_base b) type a)) n = bit (eri_cmd 0 (eri_base b) type a) n"
    if "\<And>m. m < 31 \<Longrightarrow> \<not> bit f m" "n < 32" for f n
    using top that by (cases "n = 31") (auto simp: key32_def masks32 bit_simps bit_eri_cmd)
  show "key32 (eri_cmd chan_flag (eri_base b) type a) = eri_cmd 0 (eri_base b) type a"
    by (rule bit_word_eqI) (simp add: low)
  show "key32 (eri_cmd 0 (eri_base b) type a) = eri_cmd 0 (eri_base b) type a"
    by (rule bit_word_eqI) (simp add: low)
qed

lemma eri_align: "a AND NOT 3 = (of_nat (4 * (unat a div 4)) :: u32)"
proof -
  have two: "2 \<le> n \<Longrightarrow> Suc (Suc (n - 2)) = n" for n :: nat by simp
  have three: "(3 :: u32) = mask 2" by (simp add: mask_eq_exp_minus_1)
  have "a AND NOT 3 = push_bit 2 (drop_bit 2 a)"
    unfolding three by (rule bit_word_eqI) (auto simp: bit_simps two not_less)
  also have "\<dots> = 4 * (a div 4)" by (simp add: push_bit_eq_mult drop_bit_eq_div)
  also have "a div 4 = of_nat (unat (a div 4))" by simp
  finally show ?thesis by (simp add: unat_div)
qed

section \<open>The read loop\<close>

lemma next_word: "unat (((a AND NOT 3) + 4 :: u32) mod 4) = 0" "((a AND NOT 3) + 4 :: u32) AND NOT 3 = (a AND NOT 3) + 4"
proof -
  let ?x = "(a AND NOT 3) + 4 :: u32"
  have "?x = of_nat (4 * (unat a div 4 + 1))" unfolding eri_align by (simp add: algebra_simps)
  then have "unat ?x = (4 * (unat a div 4 + 1)) mod 2 ^ 32" by (simp only: unat_of_nat) simp
  then have m: "unat ?x mod 4 = 0" by (simp add: mod_mod_cancel)
  then show "unat (?x mod 4) = 0" by (simp add: unat_mod)
  have "4 * (unat ?x div 4) = unat ?x" using m by presburger
  then have "(of_nat (4 * (unat ?x div 4)) :: u32) = of_nat (unat ?x)" by (rule arg_cong)
  then show "?x AND NOT 3 = ?x" using eri_align [of ?x] by simp
qed


lemma eri_word_read:
  assumes "chan32_law io ERIAR ERIDR V" "type < 4"
  shows "valid (at_regs V C s0) (do { RTL_W32 io ERIAR (eri_cmd 0 (eri_base b) type a); wait_flag io ERIAR; RTL_R32 io ERIDR })
    (\<lambda>v s. v = C (eri_cmd 0 (eri_base b) type a) \<and> at_regs V C s0 s)"
proof -
  have "valid (\<lambda>s. found \<and> vbusy V (hw s) = 0 \<and> vdata V (hw s) = C (eri_cmd 0 (eri_base b) type a) \<and> at_regs V C s0 s)
      (RTL_R32 io ERIDR) (\<lambda>v s. v = C (eri_cmd 0 (eri_base b) type a) \<and> at_regs V C s0 s)" for found
    by (rule valid_pre [OF read_data [OF assms(1)]]) simp
  from valid_bind [OF this chan32_read [OF assms(1) eri_cmd_flag(2) [OF assms(2), of b a], of C s0, unfolded eri_cmd_flag [OF assms(2)]]]
  show ?thesis by simp
qed

definition read_part :: "u32 \<Rightarrow> int \<Rightarrow> nat \<Rightarrow> nat \<Rightarrow> u32" where
  "read_part w len vs shift = push_bit (shift * 8) (drop_bit (vs * 8) (w AND eri_mask len vs))"

lemma read_loop_step:
  assumes "chan32_law io ERIAR ERIDR V" "type < 4" "0 < len"
    and "\<And>w. w = C (eri_cmd 0 (eri_base b) type (a AND NOT 3)) \<Longrightarrow>
      valid (at_regs V C s0)
        (if len \<le> 4 - int (unat (a mod 4)) then State_Monad.return (v2 OR read_part w len (unat (a mod 4)) shift)
         else eri_read_loop io (eri_base b) type ((a AND NOT 3) + 4) (len - (4 - int (unat (a mod 4)))) (4 - unat (a mod 4))
           (v2 OR read_part w len (unat (a mod 4)) shift)) Q"
  shows "valid (at_regs V C s0) (eri_read_loop io (eri_base b) type a len shift v2) Q"
proof -
  let ?k = "\<lambda>w. if len \<le> 4 - int (unat (a mod 4)) then State_Monad.return (v2 OR read_part w len (unat (a mod 4)) shift)
         else eri_read_loop io (eri_base b) type ((a AND NOT 3) + 4) (len - (4 - int (unat (a mod 4)))) (4 - unat (a mod 4))
           (v2 OR read_part w len (unat (a mod 4)) shift)"
  have "valid (\<lambda>s. w = C (eri_cmd 0 (eri_base b) type (a AND NOT 3)) \<and> at_regs V C s0 s) (?k w) Q" for w
    using assms(4) [of w] by (auto simp: valid_def)
  from valid_bind [OF this eri_word_read [OF assms(1,2), of C s0 b "a AND NOT 3"]]
  moreover have "\<not> len \<le> 0" using assms(3) by simp
  then have "eri_read_loop io (eri_base b) type a len shift v2 =
      do { RTL_W32 io ERIAR (eri_cmd 0 (eri_base b) type (a AND NOT 3)); wait_flag io ERIAR; w \<leftarrow> RTL_R32 io ERIDR; ?k w }"
    by (subst eri_read_loop.simps) (simp only: Let_def read_part_def if_False)
  ultimately show ?thesis by (simp only: State_Monad.bind_assoc)
qed

lemma read_loop_one:
  assumes "chan32_law io ERIAR ERIDR V" "type < 4" "0 < len" "len \<le> 4 - int (unat (a mod 4))"
  shows "valid (at_regs V C s0) (eri_read_loop io (eri_base b) type a len shift v2)
    (\<lambda>v s. v = v2 OR read_part (C (eri_cmd 0 (eri_base b) type (a AND NOT 3))) len (unat (a mod 4)) shift \<and> at_regs V C s0 s)"
  by (rule read_loop_step [OF assms(1-3)]) (use assms(4) in \<open>simp add: valid_def\<close>)

lemma read_loop_two:
  assumes "chan32_law io ERIAR ERIDR V" "type < 4" "len \<le> 4" "\<not> len \<le> 4 - int (unat (a mod 4))"
  shows "valid (at_regs V C s0) (eri_read_loop io (eri_base b) type a len shift v2)
    (\<lambda>v s. v = (v2 OR read_part (C (eri_cmd 0 (eri_base b) type (a AND NOT 3))) len (unat (a mod 4)) shift)
        OR read_part (C (eri_cmd 0 (eri_base b) type ((a AND NOT 3) + 4))) (len - (4 - int (unat (a mod 4)))) 0 (4 - unat (a mod 4))
      \<and> at_regs V C s0 s)"
proof -
  have pos: "0 < len" "0 < len - (4 - int (unat (a mod 4)))" "len - (4 - int (unat (a mod 4))) \<le> 4"
    using assms(3,4) mod4_uint [of a] by auto
  have one: "valid (at_regs V C s0)
      (eri_read_loop io (eri_base b) type ((a AND NOT 3) + 4) (len - (4 - int (unat (a mod 4)))) (4 - unat (a mod 4)) x)
      (\<lambda>v s. v = x OR read_part (C (eri_cmd 0 (eri_base b) type ((a AND NOT 3) + 4)))
        (len - (4 - int (unat (a mod 4)))) 0 (4 - unat (a mod 4)) \<and> at_regs V C s0 s)" for x
    using read_loop_one [OF assms(1,2) pos(2), of "(a AND NOT 3) + 4" C s0 b "4 - unat (a mod 4)" x, unfolded next_word] pos(3)
    by simp
  show ?thesis
    by (rule read_loop_step [OF assms(1,2) pos(1)]) (simp only: if_not_P [OF assms(4)] one)
qed

lemma eri_base_0 [simp]: "eri_base 0 = 0"
  by (simp add: eri_base_def)

lemma eri_word_index:
  "eri_cmd 0 0 type (a AND NOT 3) = eri_index type (unat a div 4)"
  "eri_cmd 0 0 type ((a AND NOT 3) + 4) = eri_index type (unat a div 4 + 1)"
  unfolding eri_index_def eri_align by (simp_all add: algebra_simps)

lemma vs_mod: "unat ((a :: u32) mod 4) = unat a mod 4"
  by (simp add: unat_mod)

lemma eri_byte_at:
  assumes "j < 4"
  shows "j + n mod 4 < 4 \<Longrightarrow> eri_byte C type (n + j) = byte_of (j + n mod 4) (C (eri_index type (n div 4)))"
    "\<not> j + n mod 4 < 4 \<Longrightarrow> eri_byte C type (n + j) = byte_of (j + n mod 4 - 4) (C (eri_index type (n div 4 + 1)))"
proof -
  define q r where "q = n div 4" and "r = n mod 4"
  then have n: "n + j = 4 * q + (r + j)" "r < 4" by simp_all
  assume "j + n mod 4 < 4"
  then have "r + j < 4" by (simp add: r_def)
  with n(1) have "(n + j) div 4 = q" "(n + j) mod 4 = r + j" by (simp_all only: div_mult_self4 mod_mult_self4) simp_all
  then have "(n + j) div 4 = n div 4" "(n + j) mod 4 = j + n mod 4" by (simp_all add: q_def r_def ac_simps)
  then show "eri_byte C type (n + j) = byte_of (j + n mod 4) (C (eri_index type (n div 4)))" by (simp add: eri_byte_def)
next
  define q r where "q = n div 4" and "r = n mod 4"
  then have n: "n + j = 4 * q + (r + j)" "r < 4" by simp_all
  assume "\<not> j + n mod 4 < 4"
  then have "4 \<le> r + j" by (simp add: r_def)
  with n assms have "n + j = 4 * (q + 1) + (r + j - 4)" "r + j - 4 < 4" by simp_all
  then have "(n + j) div 4 = q + 1" "(n + j) mod 4 = r + j - 4" by (simp_all only: div_mult_self4 mod_mult_self4) simp_all
  then have "(n + j) div 4 = n div 4 + 1" "(n + j) mod 4 = j + n mod 4 - 4" by (simp_all add: q_def r_def ac_simps)
  then show "eri_byte C type (n + j) = byte_of (j + n mod 4 - 4) (C (eri_index type (n div 4 + 1)))" by (simp add: eri_byte_def)
qed

definition read_ok :: "(u32 \<Rightarrow> u32) \<Rightarrow> u32 \<Rightarrow> nat \<Rightarrow> nat \<Rightarrow> u32 \<Rightarrow> bool" where
  "read_ok C type n len v \<longleftrightarrow> (\<forall>j < 4. byte_of j v = (if j < len then eri_byte C type (n + j) else 0))"

lemma read_loop_bytes:
  assumes "chan32_law io ERIAR ERIDR V" "type < 4" "1 \<le> len" "len \<le> 4"
  shows "valid (at_regs V C s0) (eri_read_loop io 0 type a len 0 0)
    (\<lambda>v s. read_ok C type (unat a) (nat len) v \<and> at_regs V C s0 s)"
proof (cases "len \<le> 4 - int (unat (a mod 4))")
  case True
  then have fits: "unat a mod 4 + nat len \<le> 4" using assms(3) mod4_bound [of a] unfolding vs_mod by linarith
  have r: "read_ok C type (unat a) (nat len) (0 OR read_part (C (eri_index type (unat a div 4))) len (unat a mod 4) 0)"
    unfolding read_ok_def read_part_def
    using byte_read_one [OF assms(3,4) _ _ fits] fits eri_byte_at(1) [of _ "unat a" C type] by auto
  show ?thesis
    by (rule valid_weaken [OF read_loop_one [OF assms(1,2) _ True, of C s0 0 0 0, unfolded eri_base_0 eri_word_index vs_mod]])
      (use assms(3) r in auto)
next
  case False
  then have fits: "4 < unat a mod 4 + nat len" using assms(3,4) mod4_bound [of a] unfolding vs_mod by linarith
  have r: "read_ok C type (unat a) (nat len) ((0 OR read_part (C (eri_index type (unat a div 4))) len (unat a mod 4) 0)
      OR read_part (C (eri_index type (unat a div 4 + 1))) (len - (4 - int (unat a mod 4))) 0 (4 - unat a mod 4))"
    unfolding read_ok_def read_part_def
    using byte_read_two [OF assms(3,4) _ _ fits refl] fits eri_byte_at [of _ "unat a" C type] by auto
  show ?thesis
    by (rule valid_weaken [OF read_loop_two [OF assms(1,2,4) False, of C s0 0 0 0, unfolded eri_base_0 eri_word_index vs_mod]])
      (use r in auto)
qed

lemma eri_delay:
  assumes "chan32_law io ERIAR ERIDR V"
  shows "valid (at_regs V C s0) (udelay io t) (\<lambda>_. at_regs V C s0)"
  using assms by (intro delay_regs [of io ERIAR]) (simp add: chan32_law_def)

lemma valid_then_delay:
  assumes "chan32_law io ERIAR ERIDR V" "valid P m (\<lambda>v s. R v \<and> at_regs V C s0 s)"
  shows "valid P (do { v \<leftarrow> m; udelay io t; State_Monad.return (f v) }) (\<lambda>x s. (\<exists>v. x = f v \<and> R v) \<and> at_regs V C s0 s)"
  using assms(2) eri_delay [OF assms(1), of C s0 t] by (auto simp: valid_def split_beta)

lemma eri_read_bytes:
  assumes "chan32_law io ERIAR ERIDR V" "type < 4" "1 \<le> len" "len \<le> 4"
  shows "valid (at_regs V C s0) (rtl8125_eri_read io a len type)
    (\<lambda>v s. read_ok C type (unat a) (nat len) v \<and> at_regs V C s0 s)"
proof -
  have l: "\<not> (4 < len \<or> len \<le> 0)" using assms(3,4) by simp
  show ?thesis
    unfolding rtl8125_eri_read_def rtl8125_eri_read_with_oob_base_address_def if_not_P [OF l] eri_base_0
    by (rule valid_weaken [OF valid_then_delay [OF assms(1) read_loop_bytes [OF assms], where f = "\<lambda>v. v"]]) auto
qed

lemma eri_read_word:
  assumes "chan32_law io ERIAR ERIDR V" "type < 4"
  shows "valid (at_regs V C s0) (rtl8125_eri_read_with_oob_base_address io (a AND NOT 3) 4 type 0)
    (\<lambda>v s. v = C (eri_index type (unat a div 4)) \<and> at_regs V C s0 s)"
proof -
  have al: "unat ((a AND NOT 3) mod 4) = 0" "(a AND NOT 3) AND NOT 3 = a AND NOT 3"
  proof -
    have "unat a < 4294967296" using unsigned_less [of a] by simp
    then have "4 * (unat a div 4) < 4294967296" by linarith
    then have u: "unat (a AND NOT 3) = 4 * (unat a div 4)" unfolding eri_align by (simp only: unat_of_nat) simp
    then show "unat ((a AND NOT 3) mod 4) = 0" by (simp add: unat_mod)
    show "(a AND NOT 3) AND NOT 3 = a AND NOT 3" by (simp add: ac_simps)
  qed
  have full: "0 OR read_part w 4 0 0 = w" for w
    by (rule bit_word_eqI) (use bit_eri_mask [of 4 0] in \<open>auto simp: read_part_def bit_simps\<close>)
  have l: "\<not> (4 < (4 :: int) \<or> (4 :: int) \<le> 0)" by simp
  show ?thesis
    unfolding rtl8125_eri_read_with_oob_base_address_def if_not_P [OF l]
    using valid_then_delay [OF assms(1), where f = "\<lambda>v. v",
        OF read_loop_one [OF assms, of 4 "a AND NOT 3" C s0 0 0 0, unfolded al full eri_base_0 eri_word_index]]
    by (simp add: valid_def)
qed

section \<open>The write loop\<close>

definition write_part :: "u32 \<Rightarrow> u32 \<Rightarrow> int \<Rightarrow> nat \<Rightarrow> nat \<Rightarrow> u32" where
  "write_part x w len vs shift = (w AND NOT (eri_mask len vs)) OR drop_bit (shift * 8) (push_bit (vs * 8) x)"

lemma eri_word_write:
  assumes "chan32_law io ERIAR ERIDR V" "type < 4"
  shows "valid (at_regs V C s0) (do {
      r \<leftarrow> rtl8125_eri_read_with_oob_base_address io (a AND NOT 3) 4 type 0;
      RTL_W32 io ERIDR (f r);
      RTL_W32 io ERIAR (eri_cmd chan_flag 0 type (a AND NOT 3));
      wait_no_flag io ERIAR })
    (\<lambda>_. at_regs V (C(eri_index type (unat a div 4) := f (C (eri_index type (unat a div 4))))) s0)"
proof -
  let ?i = "eri_index type (unat a div 4)"
  have "valid (at_regs V C s0) (do { RTL_W32 io ERIDR (f r); RTL_W32 io ERIAR (eri_cmd chan_flag 0 type (a AND NOT 3)); wait_no_flag io ERIAR })
      (\<lambda>_. at_regs V (C(?i := f r)) s0)" for r
    using valid_bind [OF chan32_write [OF assms(1) eri_cmd_flag(1) [OF assms(2), of 0 "a AND NOT 3"], of "f r" C s0,
          unfolded eri_cmd_flag(3) [OF assms(2)], unfolded eri_base_0 eri_word_index] chan32_data [OF assms(1), of C s0 "f r"]]
    by simp
  then have "valid (\<lambda>s. r = C ?i \<and> at_regs V C s0 s)
      (do { RTL_W32 io ERIDR (f r); RTL_W32 io ERIAR (eri_cmd chan_flag 0 type (a AND NOT 3)); wait_no_flag io ERIAR })
      (\<lambda>_. at_regs V (C(?i := f (C ?i))) s0)" for r
    by (auto simp: valid_def)
  from valid_bind [OF this eri_read_word [OF assms, of C s0 a]] show ?thesis .
qed

lemma write_loop_step:
  assumes "chan32_law io ERIAR ERIDR V" "type < 4" "0 < len"
    and "C' = C(eri_index type (unat a div 4) := write_part x (C (eri_index type (unat a div 4))) len (unat (a mod 4)) shift)"
    and "valid (at_regs V C' s0)
        (if len \<le> 4 - int (unat (a mod 4)) then State_Monad.return ()
         else eri_write_loop io x type 0 ((a AND NOT 3) + 4) (len - (4 - int (unat (a mod 4)))) (4 - unat (a mod 4))) Q"
  shows "valid (at_regs V C s0) (eri_write_loop io x type 0 a len shift) Q"
proof -
  let ?k = "if len \<le> 4 - int (unat (a mod 4)) then State_Monad.return ()
     else eri_write_loop io x type 0 ((a AND NOT 3) + 4) (len - (4 - int (unat (a mod 4)))) (4 - unat (a mod 4))"
  from valid_bind [OF assms(5) eri_word_write [OF assms(1,2), of C s0 a "\<lambda>w. write_part x w len (unat (a mod 4)) shift", folded assms(4)]]
  have "valid (at_regs V C s0) (do {
      (do { r \<leftarrow> rtl8125_eri_read_with_oob_base_address io (a AND NOT 3) 4 type 0;
            RTL_W32 io ERIDR (write_part x r len (unat (a mod 4)) shift);
            RTL_W32 io ERIAR (eri_cmd chan_flag 0 type (a AND NOT 3));
            wait_no_flag io ERIAR }); ?k }) Q" .
  moreover have "\<not> len \<le> 0" using assms(3) by simp
  then have "eri_write_loop io x type 0 a len shift = do {
      r \<leftarrow> rtl8125_eri_read_with_oob_base_address io (a AND NOT 3) 4 type 0;
      RTL_W32 io ERIDR (write_part x r len (unat (a mod 4)) shift);
      RTL_W32 io ERIAR (eri_cmd chan_flag 0 type (a AND NOT 3));
      wait_no_flag io ERIAR; ?k }"
    by (subst eri_write_loop.simps) (simp only: Let_def write_part_def if_False eri_base_0)
  ultimately show ?thesis by (simp only: State_Monad.bind_assoc)
qed

text \<open>The bytes a write changes.\<close>

definition write_ok :: "(u32 \<Rightarrow> u32) \<Rightarrow> (u32 \<Rightarrow> u32) \<Rightarrow> u32 \<Rightarrow> nat \<Rightarrow> nat \<Rightarrow> u32 \<Rightarrow> bool" where
  "write_ok C C' type n len x \<longleftrightarrow> (\<forall>b < 0x10000. eri_byte C' type b =
     (if n \<le> b \<and> b < n + len then byte_of (b - n) x else eri_byte C type b))"

lemma eri_index_inj:
  assumes "type < 4" "w < 0x4000" "w' < 0x4000" "eri_index type w = eri_index type w'"
  shows "w = w'"
proof -
  have bits: "bit (eri_index type w) n \<longleftrightarrow> bit (of_nat (4 * w) :: u32) n" if "n < 12" for w n
    using that type_bits [OF assms(1)] by (auto simp: eri_index_def bit_eri_cmd)
  have hi: "bit (eri_index type w) n \<longleftrightarrow> bit (of_nat (4 * w) :: u32) (n - 8)" if "n \<in> {20..<24}" for w n
    using that type_bits [OF assms(1)] by (fastforce simp: eri_index_def bit_eri_cmd)
  have u: "unat (of_nat (4 * w) :: u32) = 4 * w" if "w < 0x4000" for w
    by (simp only: unat_of_nat) (use that in simp)
  have small: "bit (of_nat (4 * w) :: u32) n \<Longrightarrow> n < 16" if "w < 0x4000" for w n
    using bit_value_bound [of "of_nat (4 * w)" 16 n] u [OF that] that by simp
  have "(of_nat (4 * w) :: u32) = of_nat (4 * w')"
  proof (rule bit_word_eqI)
    fix n assume "n < LENGTH(32)"
    consider "n < 12" | "n \<in> {12..<16}" | "16 \<le> n" by fastforce
    then show "bit (of_nat (4 * w) :: u32) n = bit (of_nat (4 * w') :: u32) n"
    proof cases
      case 1
      then show ?thesis using bits assms(4) by metis
    next
      case 2
      then have "n + 8 \<in> {20..<24}" by auto
      from hi [OF this, of w] hi [OF this, of w'] show ?thesis unfolding assms(4) by (simp only: add_diff_cancel_right')
    next
      case 3
      then show ?thesis using small [OF assms(2)] small [OF assms(3)] by fastforce
    qed
  qed
  then show ?thesis using u [OF assms(2)] u [OF assms(3)] by simp
qed

lemma eri_byte_upd:
  assumes "type < 4" "b < 0x10000" "w < 0x4000"
  shows "eri_byte (C(eri_index type w := y)) type b = (if b div 4 = w then byte_of (b mod 4) y else eri_byte C type b)"
  using eri_index_inj [OF assms(1), of "b div 4" w] assms(2,3) by (auto simp: eri_byte_def)

lemma write_ok_one:
  assumes "type < 4" "1 \<le> len" "len \<le> 4" "n mod 4 + nat len \<le> 4" "n + nat len \<le> 0x10000" "unat x < 2 ^ (8 * nat len)"
  shows "write_ok C (C(eri_index type (n div 4) := write_part x (C (eri_index type (n div 4))) len (n mod 4) 0)) type n (nat len) x"
  unfolding write_ok_def
proof (intro allI impI)
  fix b :: nat assume b: "b < 0x10000"
  let ?q = "n div 4" and ?r = "n mod 4" and ?p = "b div 4" and ?j = "b mod 4"
  have n: "n = 4 * ?q + ?r" "?r < 4" and bb: "b = 4 * ?p + ?j" "?j < 4" by simp_all
  have w: "?q < 0x4000" using assms(2,5) n by linarith
  have byte: "byte_of ?j (write_part x w len ?r 0) = (if ?r \<le> ?j \<and> ?j < ?r + nat len then byte_of (?j - ?r) x else byte_of ?j w)" for w
    unfolding write_part_def
    by (rule byte_first_word [OF assms(2,3) bb(2) n(2)]) (use bit_value_bound [OF assms(6)] in simp)
  show "eri_byte (C(eri_index type ?q := write_part x (C (eri_index type ?q)) len ?r 0)) type b =
      (if n \<le> b \<and> b < n + nat len then byte_of (b - n) x else eri_byte C type b)"
  proof (cases "?p = ?q")
    case True
    then have "n \<le> b \<and> b < n + nat len \<longleftrightarrow> ?r \<le> ?j \<and> ?j < ?r + nat len" "b - n = ?j - ?r" using n bb by linarith+
    then show ?thesis using True byte [of "C (eri_index type ?q)"] unfolding eri_byte_upd [OF assms(1) b w] by (simp add: eri_byte_def)
  next
    case False
    then have "\<not> (n \<le> b \<and> b < n + nat len)" using n bb assms(4) by linarith
    then show ?thesis using False unfolding eri_byte_upd [OF assms(1) b w] by auto
  qed
qed

lemma write_ok_two:
  assumes "type < 4" "1 \<le> len" "len \<le> 4" "4 < n mod 4 + nat len" "n + nat len \<le> 0x10000" "unat x < 2 ^ (8 * nat len)"
    and "len2 = len - (4 - int (n mod 4))"
  shows "write_ok C (C(eri_index type (n div 4) := write_part x (C (eri_index type (n div 4))) len (n mod 4) 0,
      eri_index type (n div 4 + 1) := write_part x (C (eri_index type (n div 4 + 1))) len2 0 (4 - n mod 4))) type n (nat len) x"
  unfolding write_ok_def
proof (intro allI impI)
  fix b :: nat assume b: "b < 0x10000"
  let ?q = "n div 4" and ?r = "n mod 4" and ?p = "b div 4" and ?j = "b mod 4"
  let ?C = "C(eri_index type ?q := write_part x (C (eri_index type ?q)) len ?r 0)"
  have n: "n = 4 * ?q + ?r" "?r < 4" and bb: "b = 4 * ?p + ?j" "?j < 4" by simp_all
  have w: "?q < 0x4000" "?q + 1 < 0x4000" using assms(2,4,5) n by linarith+
  have l2: "1 \<le> len2" "len2 \<le> 4" "nat len2 + 4 = nat len + ?r" using assms(2,3,4,7) n(2) by linarith+
  have byte: "byte_of ?j (write_part x w len ?r 0) = (if ?r \<le> ?j then byte_of (?j - ?r) x else byte_of ?j w)" for w
    using byte_first_word [OF assms(2,3) bb(2) n(2), of x w] bit_value_bound [OF assms(6)] bb(2) assms(4)
    unfolding write_part_def by simp
  have byte2: "byte_of ?j (write_part x w len2 0 (4 - ?r)) = (if ?j < nat len2 then byte_of (?j + (4 - ?r)) x else byte_of ?j w)" for w
    unfolding write_part_def
    by (rule byte_second_word [OF l2(1,2) bb(2)]) (use bit_value_bound [OF assms(6)] l2(3) n(2) assms(4) assms(3) in force)+
  show "eri_byte (?C(eri_index type (?q + 1) := write_part x (C (eri_index type (?q + 1))) len2 0 (4 - ?r))) type b =
      (if n \<le> b \<and> b < n + nat len then byte_of (b - n) x else eri_byte C type b)"
  proof -
    consider "?p = ?q" | "?p = ?q + 1" | "?p \<noteq> ?q" "?p \<noteq> ?q + 1" by blast
    then show ?thesis
    proof cases
      case 1
      then have "n \<le> b \<and> b < n + nat len \<longleftrightarrow> ?r \<le> ?j" "b - n = ?j - ?r" using n bb assms(4) by linarith+
      then show ?thesis using 1 byte [of "C (eri_index type ?q)"]
        unfolding eri_byte_upd [OF assms(1) b w(2)] eri_byte_upd [OF assms(1) b w(1)] by (simp add: eri_byte_def)
    next
      case 2
      then have "n \<le> b \<and> b < n + nat len \<longleftrightarrow> ?j < nat len2" "b - n = ?j + (4 - ?r)" using n bb l2(3) by linarith+
      then show ?thesis using 2 byte2 [of "C (eri_index type (?q + 1))"]
        unfolding eri_byte_upd [OF assms(1) b w(2)] eri_byte_upd [OF assms(1) b w(1)] by (simp add: eri_byte_def)
    next
      case 3
      then have "\<not> (n \<le> b \<and> b < n + nat len)" using n bb assms(3,4) by linarith
      then show ?thesis using 3 unfolding eri_byte_upd [OF assms(1) b w(2)] eri_byte_upd [OF assms(1) b w(1)] by auto
    qed
  qed
qed

lemma write_loop_bytes:
  assumes "chan32_law io ERIAR ERIDR V" "type < 4" "1 \<le> len" "len \<le> 4"
    and "unat a + nat len \<le> 0x10000" "unat x < 2 ^ (8 * nat len)"
  shows "valid (at_regs V C s0) (eri_write_loop io x type 0 a len 0)
    (\<lambda>_ s. \<exists>C'. write_ok C C' type (unat a) (nat len) x \<and> at_regs V C' s0 s)"
proof (cases "len \<le> 4 - int (unat (a mod 4))")
  case True
  then have fits: "unat a mod 4 + nat len \<le> 4" using assms(3) mod4_bound [of a] unfolding vs_mod by linarith
  show ?thesis
    by (rule write_loop_step [OF assms(1,2) _ refl])
      (use assms(3) True write_ok_one [OF assms(2,3,4) fits assms(5,6)] in \<open>auto simp: valid_def vs_mod\<close>)
next
  case False
  then have fits: "4 < unat a mod 4 + nat len" using assms(3,4) mod4_bound [of a] unfolding vs_mod by linarith
  let ?b = "(a AND NOT 3) + 4" and ?len2 = "len - (4 - int (unat (a mod 4)))"
  have pos: "0 < ?len2" "?len2 \<le> 4" using assms(3,4) False mod4_uint [of a] by auto
  have ub: "unat ?b div 4 = unat a div 4 + 1"
  proof -
    have "?b = of_nat (4 * (unat a div 4 + 1))" unfolding eri_align by (simp add: algebra_simps)
    then have "unat ?b = (4 * (unat a div 4 + 1)) mod 2 ^ 32" by (simp only: unat_of_nat) simp
    moreover have "4 * (unat a div 4) \<le> unat a" by simp
    then have "4 * (unat a div 4 + 1) < 4294967296" using assms(5) by simp
    ultimately have "unat ?b = 4 * (unat a div 4 + 1)" by simp
    then show ?thesis by simp
  qed
  have ne: "eri_index type (unat a div 4 + 1) \<noteq> eri_index type (unat a div 4)"
  proof -
    have "4 * (unat a div 4) + unat a mod 4 = unat a" by simp
    then have "unat a div 4 + 1 < 0x4000" using fits assms(5) by linarith
    then show ?thesis using eri_index_inj [OF assms(2), of "unat a div 4 + 1" "unat a div 4"] by auto
  qed
  let ?C = "C(eri_index type (unat a div 4) := write_part x (C (eri_index type (unat a div 4))) len (unat (a mod 4)) 0)"
  let ?D = "?C(eri_index type (unat a div 4 + 1) := write_part x (C (eri_index type (unat a div 4 + 1))) ?len2 0 (4 - unat (a mod 4)))"
  have second: "valid (at_regs V ?C s0) (eri_write_loop io x type 0 ?b ?len2 (4 - unat (a mod 4))) (\<lambda>_. at_regs V ?D s0)"
  proof (rule write_loop_step [OF assms(1,2) pos(1) refl], unfold next_word ub)
    have D: "?C (eri_index type (unat a div 4 + 1)) = C (eri_index type (unat a div 4 + 1))" using ne by (rule fun_upd_other)
    have p: "?len2 \<le> 4 - int 0" using pos(2) by simp
    show "valid (at_regs V (?C(eri_index type (unat a div 4 + 1) :=
          write_part x (?C (eri_index type (unat a div 4 + 1))) ?len2 0 (4 - unat (a mod 4)))) s0)
        (if ?len2 \<le> 4 - int 0 then State_Monad.return ()
         else eri_write_loop io x type 0 (?b + 4) (?len2 - (4 - int 0)) (4 - 0)) (\<lambda>_. at_regs V ?D s0)"
      unfolding D if_P [OF p] by (rule valid_return)
  qed
  have "write_ok C ?D type (unat a) (nat len) x"
    using write_ok_two [OF assms(2,3,4) fits assms(5,6), of _ C] by (simp only: vs_mod)
  then have "valid (at_regs V ?C s0) (eri_write_loop io x type 0 ?b ?len2 (4 - unat (a mod 4)))
      (\<lambda>_ s. \<exists>C'. write_ok C C' type (unat a) (nat len) x \<and> at_regs V C' s0 s)"
    by (intro valid_weaken [OF second]) auto
  then have rest: "valid (at_regs V ?C s0) (if len \<le> 4 - int (unat (a mod 4)) then State_Monad.return ()
       else eri_write_loop io x type 0 ?b ?len2 (4 - unat (a mod 4)))
      (\<lambda>_ s. \<exists>C'. write_ok C C' type (unat a) (nat len) x \<and> at_regs V C' s0 s)"
    unfolding if_not_P [OF False] .
  have "0 < len" using assms(3) by simp
  from write_loop_step [OF assms(1,2) this refl rest] show ?thesis .
qed

section \<open>ERI access is byte-exact\<close>

lemma bytes_determine:
  assumes "\<And>j. j < 4 \<Longrightarrow> byte_of j v = byte_of j w"
  shows "v = w"
proof (rule bit_word_eqI)
  fix n assume "n < LENGTH(32)"
  then have "bit v (8 * (n div 8) + n mod 8) = bit w (8 * (n div 8) + n mod 8)"
    using assms [of "n div 8"] bit_byte_of [of "n div 8" v "n mod 8"] bit_byte_of [of "n div 8" w "n mod 8"] by auto
  then show "bit v n = bit w n" by simp
qed

lemma byte_of_small: "unat x < 2 ^ (8 * len) \<Longrightarrow> len \<le> j \<Longrightarrow> byte_of j x = 0"
  by (rule bit_word_eqI) (use bit_value_bound [of x "8 * len"] in \<open>force simp: bit_byte_of\<close>)

lemma read_ok_value:
  assumes "write_ok C C' type n len x" "read_ok C' type n len v" "unat x < 2 ^ (8 * len)" "n + len \<le> 0x10000"
  shows "v = x"
proof (rule bytes_determine)
  fix j :: nat assume "j < 4"
  then show "byte_of j v = byte_of j x"
    using assms byte_of_small [OF assms(3), of j] by (cases "j < len") (auto simp: read_ok_def write_ok_def)
qed

lemma eri_write_bytes:
  assumes "chan32_law io ERIAR ERIDR V" "type < 4" "1 \<le> len" "len \<le> 4"
    and "unat a + nat len \<le> 0x10000" "unat x < 2 ^ (8 * nat len)"
  shows "valid (at_regs V C s0) (rtl8125_eri_write io a len x type)
      (\<lambda>r s'. r = 0 \<and> (\<exists>C'. write_ok C C' type (unat a) (nat len) x \<and> at_regs V C' s0 s'))"
proof (rule validI)
  fix t assume t: "at_regs V C s0 t"
  have l: "\<not> (4 < len \<or> len \<le> 0)" using assms(3,4) by simp
  obtain u t1 where t1: "run_state (eri_write_loop io x type 0 a len 0) t = (u, t1)"
    by (cases "run_state (eri_write_loop io x type 0 a len 0) t")
  obtain C' where C': "write_ok C C' type (unat a) (nat len) x" "at_regs V C' s0 t1"
    using validD [OF write_loop_bytes [OF assms(1-6)] t t1] by blast
  then have "at_regs V C' s0 (snd (run_state (udelay io R8125_CHANNEL_EXIT_DELAY_TIME) t1))"
    using eri_delay [OF assms(1), of C' s0 R8125_CHANNEL_EXIT_DELAY_TIME] by (simp add: valid_def)
  with C'(1) t1 show "fst (run_state (rtl8125_eri_write io a len x type) t) = 0 \<and>
      (\<exists>C'. write_ok C C' type (unat a) (nat len) x \<and> at_regs V C' s0 (snd (run_state (rtl8125_eri_write io a len x type) t)))"
    unfolding rtl8125_eri_write_def rtl8125_eri_write_with_oob_base_address_def if_not_P [OF l]
    by (auto simp: split_beta)
qed

text \<open>
  Property C19.  A write of 1 to 4 bytes through ERI at any 16-bit address, aligned or not, whose value
  fits the length, changes exactly the bytes it names, in little-endian order, reports success, and a
  read of the same length at that address returns the value.
\<close>

theorem eri_bytes_exact:
  assumes "chan32_law io ERIAR ERIDR V" "type < 4" "1 \<le> len" "len \<le> 4"
    and "unat a + nat len \<le> 0x10000" "unat x < 2 ^ (8 * nat len)"
    and "run_state (rtl8125_eri_write io a len x type) s = (r, s')"
  shows "r = 0 \<and> same_priv s s'
    \<and> (\<forall>b < 0x10000. eri_byte (contents32 V s') type b =
         (if unat a \<le> b \<and> b < unat a + nat len then byte_of (b - unat a) x else eri_byte (contents32 V s) type b))
    \<and> fst (run_state (rtl8125_eri_read io a len type) s') = x"
proof -
  from validD [OF eri_write_bytes [OF assms(1-6), of "contents32 V s" s] _ assms(7)] obtain C' where w: "r = 0" "write_ok (contents32 V s) C' type (unat a) (nat len) x" "at_regs V C' s s'"
    by (auto simp: at_regs_def contents32_def)
  have "at_regs V C' s' s'" "contents32 V s' = C'" using w(3) by (simp_all add: at_regs_def contents32_def)
  then have "read_ok C' type (unat a) (nat len) (fst (run_state (rtl8125_eri_read io a len type) s'))"
    using eri_read_bytes [OF assms(1-4), of C' s' a] by (simp add: valid_def)
  with read_ok_value [OF w(2) _ assms(6,5)] w \<open>contents32 V s' = C'\<close>
  show ?thesis by (auto simp: write_ok_def at_regs_def)
qed

text \<open>
  A read of 1 to 4 bytes through ERI returns exactly the bytes at the address, zero
  extended, and changes no register; any other length is refused without touching the device.
\<close>

theorem eri_read_exact:
  assumes "chan32_law io ERIAR ERIDR V" "type < 4"
    and "run_state (rtl8125_eri_read io a len type) s = (v, s')"
  shows "if len < 1 \<or> 4 < len then v = 0xffffffff \<and> s' = s
    else (\<forall>j < 4. byte_of j v = (if j < nat len then eri_byte (contents32 V s) type (unat a + j) else 0))
      \<and> contents32 V s' = contents32 V s \<and> same_priv s s'"
proof (cases "len < 1 \<or> 4 < len")
  case True
  then show ?thesis using assms(3) by (auto simp: rtl8125_eri_read_def rtl8125_eri_read_with_oob_base_address_def)
next
  case False
  then have "1 \<le> len" "len \<le> 4" by simp_all
  from validD [OF eri_read_bytes [OF assms(1,2) this, of "contents32 V s" s a] _ assms(3)] False
  show ?thesis by (simp add: at_regs_def contents32_def read_ok_def)
qed

theorem eri_bytes_exact_witness:
  "fst (run_state (rtl8125_eri_read (board32 ERIAR ERIDR) 0x113 2 2)
     (snd (run_state (rtl8125_eri_write (board32 ERIAR ERIDR) 0x113 2 0xbeef 2) demo32))) = 0xbeef"
proof -
  obtain r s' where w: "run_state (rtl8125_eri_write (board32 ERIAR ERIDR) 0x113 2 0xbeef 2) demo32 = (r, s')"
    by (cases "run_state (rtl8125_eri_write (board32 ERIAR ERIDR) 0x113 2 0xbeef 2) demo32")
  then show ?thesis using eri_bytes_exact [OF board32_lawful _ _ _ _ _ w] by simp
qed

theorem eri_read_exact_witness:
  "byte_of 1 (fst (run_state (rtl8125_eri_read (board32 ERIAR ERIDR) 0x113 2 2) demo32)) = 0x34"
proof -
  have "eri_byte (contents32 view32 demo32) 2 0x114 = 0x34"
    by (simp add: eri_byte_def byte_of_def contents32_def view32_def demo32_def demo_nic_def idle_chip_def)
  then show ?thesis
    using eri_read_exact [OF board32_lawful, of 2 "0x113" 2 demo32] by (simp add: prod_eq_iff)
qed

section \<open>The out-of-band mutex\<close>

definition ocp_ok :: "'d mmio \<Rightarrow> 'd view \<Rightarrow> 'd nic \<Rightarrow> bool" where
  "ocp_ok io V s \<longleftrightarrow> chan32_law io ERIAR ERIDR V \<and> AllowAccessDashOcp s \<noteq> 0 \<and> HwSuppOcpChannelVer s = 2"

definition oob_bytes :: "'d view \<Rightarrow> 'd nic \<Rightarrow> u16 \<Rightarrow> u8" where
  "oob_bytes V s a = eri_byte (contents32 V s) ERIAR_OOB (unat a)"

definition ocp_put :: "'d mmio \<Rightarrow> u16 \<Rightarrow> u8 \<Rightarrow> ('d, unit) drv" where
  "ocp_put io a v = rtl8125_ocp_write io a 1 (ucast v)"

lemma same_priv_ocp: "same_priv s s' \<Longrightarrow> AllowAccessDashOcp s' = AllowAccessDashOcp s \<and> HwSuppOcpChannelVer s' = HwSuppOcpChannelVer s
   \<and> HwSuppDashVer s' = HwSuppDashVer s \<and> DASH s' = DASH s"
  by (cases s, cases s') (simp add: same_priv_def)

lemma unat_up32: "unat (ucast (x :: u16) :: u32) = unat x" "unat (ucast (y :: u8) :: u32) = unat y" "unat x < 0x10000" "unat y < 256"
proof -
  show x: "unat x < 0x10000" using unsigned_less [of x] by simp
  show y: "unat y < 256" using unsigned_less [of y] by simp
  show "unat (ucast x :: u32) = unat x" "unat (ucast y :: u32) = unat y"
    using x y by (simp_all add: unsigned_ucast_eq take_bit_nat_eq_self_iff)
qed

lemma byte_of_0: "(ucast (v :: u32) :: u8) = byte_of 0 v"
  by (simp add: byte_of_def)

lemma byte_of_ucast: "byte_of 0 (ucast (v :: u8) :: u32) = v"
  unfolding byte_of_def by (rule bit_word_eqI) (simp add: bit_simps)

lemma oob_read:
  assumes "ocp_ok io V s0"
  shows "valid (at_regs V C s0) (ocp_byte io a) (\<lambda>v s. v = eri_byte C ERIAR_OOB (unat a) \<and> at_regs V C s0 s)"
proof (rule validI)
  fix s assume s: "at_regs V C s0 s"
  have law: "chan32_law io ERIAR ERIDR V" using assms by (simp add: ocp_ok_def)
  have "\<not> (AllowAccessDashOcp s = 0 \<or> HwSuppOcpChannelVer s \<noteq> 2)"
    using s assms same_priv_ocp [of s0 s] by (simp add: at_regs_def ocp_ok_def)
  then have run: "run_state (ocp_byte io a) s = (case run_state (rtl8125_eri_read io (ucast a) 1 2) s of (v, t) \<Rightarrow> (ucast v, t))"
    by (simp add: ocp_byte_def rtl8125_ocp_read_def rtl8125_ocp_read_with_oob_base_address_def rtl8125_eri_read_def)
  show "fst (run_state (ocp_byte io a) s) = eri_byte C ERIAR_OOB (unat a) \<and> at_regs V C s0 (snd (run_state (ocp_byte io a) s))"
    using eri_read_bytes [OF law, of 2 1 C s0 "ucast a"] s
    by (auto simp: valid_def run split_beta byte_of_0 read_ok_def unat_up32)
qed

lemma oob_write:
  assumes "ocp_ok io V s0" and s: "at_regs V C s0 s"
  shows "\<exists>C'. write_ok C C' ERIAR_OOB (unat a) 1 (ucast v) \<and> at_regs V C' s0 (snd (run_state (ocp_put io a v) s))"
proof -
  have law: "chan32_law io ERIAR ERIDR V" using assms by (simp add: ocp_ok_def)
  have "\<not> (AllowAccessDashOcp s = 0 \<or> HwSuppOcpChannelVer s \<noteq> 2)"
    using s assms(1) same_priv_ocp [of s0 s] by (simp add: at_regs_def ocp_ok_def)
  then have run: "snd (run_state (ocp_put io a v) s) = snd (run_state (rtl8125_eri_write io (ucast a) 1 (ucast v) 2) s)"
    by (simp add: ocp_put_def rtl8125_ocp_write_def rtl8125_ocp_write_with_oob_base_address_def rtl8125_eri_write_def split_beta)
  show ?thesis
    unfolding run
    using eri_write_bytes [OF law, of 2 1 "ucast a" "ucast v" C s0] s unat_up32(3) [of a] unat_up32(4) [of v]
    by (auto simp: valid_def unat_up32(1,2))
qed

interpretation oob: reg_channel "ocp_byte io" "ocp_put io" "\<lambda>_. True" "\<lambda>a. a" "ocp_ok io V" "oob_bytes V" same_priv for io V
proof
  fix a R s0 v
  have ok: "ocp_ok io V t" if "same_priv s0 s" "same_priv s0 t" "ocp_ok io V s" for s t
    using that same_priv_ocp [of s0 s] same_priv_ocp [of s0 t] by (simp add: ocp_ok_def)
  show "valid (\<lambda>s. ocp_ok io V s \<and> oob_bytes V s = R \<and> same_priv s0 s) (ocp_byte io a)
      (\<lambda>v s. v = R a \<and> ocp_ok io V s \<and> oob_bytes V s = R \<and> same_priv s0 s)"
  proof (rule validI)
    fix s assume s: "ocp_ok io V s \<and> oob_bytes V s = R \<and> same_priv s0 s"
    then have "ocp_ok io V s0" using ok [of s s0] by simp
    from oob_read [OF this, of "contents32 V s" a] s
    have r: "fst (run_state (ocp_byte io a) s) = eri_byte (contents32 V s) ERIAR_OOB (unat a)"
        "at_regs V (contents32 V s) s0 (snd (run_state (ocp_byte io a) s))"
      by (auto simp: valid_def at_regs_def contents32_def)
    then have "same_priv s0 (snd (run_state (ocp_byte io a) s))" by (simp add: at_regs_def)
    moreover have Ra: "eri_byte (contents32 V s) ERIAR_OOB (unat a) = R a" using s by (auto simp: oob_bytes_def)
    moreover have "ocp_ok io V (snd (run_state (ocp_byte io a) s))" using s ok calculation(1) by blast
    moreover have "oob_bytes V (snd (run_state (ocp_byte io a) s)) = oob_bytes V s"
      using r(2) by (intro ext) (simp add: oob_bytes_def at_regs_def contents32_def)
    ultimately show "fst (run_state (ocp_byte io a) s) = R a \<and> ocp_ok io V (snd (run_state (ocp_byte io a) s)) \<and>
        oob_bytes V (snd (run_state (ocp_byte io a) s)) = R \<and> same_priv s0 (snd (run_state (ocp_byte io a) s))"
      using r(1) Ra s by simp
  qed
  show "valid (\<lambda>s. ocp_ok io V s \<and> oob_bytes V s = R \<and> same_priv s0 s) (ocp_put io a v)
      (\<lambda>_ s. ocp_ok io V s \<and> oob_bytes V s = R(a := v) \<and> same_priv s0 s)"
  proof (rule validI)
    fix s assume s: "ocp_ok io V s \<and> oob_bytes V s = R \<and> same_priv s0 s"
    then have "ocp_ok io V s0" using ok [of s s0] by simp
    from oob_write [OF this, of "contents32 V s" s a v] s
    obtain C' where C': "write_ok (contents32 V s) C' ERIAR_OOB (unat a) 1 (ucast v)" "at_regs V C' s0 (snd (run_state (ocp_put io a v) s))"
      by (auto simp: at_regs_def contents32_def)
    then have "same_priv s0 (snd (run_state (ocp_put io a v) s))" by (simp add: at_regs_def)
    moreover have "oob_bytes V (snd (run_state (ocp_put io a v) s)) = R(a := v)"
    proof
      fix b
      have "eri_byte C' ERIAR_OOB (unat b) = (if a = b then v else eri_byte (contents32 V s) ERIAR_OOB (unat b))"
        using C'(1) unat_up32(3) [of b] byte_of_ucast [of v]
        by (auto simp: write_ok_def less_Suc_eq_le word_unat_eq_iff)
      then show "oob_bytes V (snd (run_state (ocp_put io a v) s)) b = (R(a := v)) b"
        using C'(2) s by (auto simp: oob_bytes_def at_regs_def contents32_def)
    qed
    ultimately show "ocp_ok io V (snd (run_state (ocp_put io a v) s)) \<and>
        oob_bytes V (snd (run_state (ocp_put io a v) s)) = R(a := v) \<and> same_priv s0 (snd (run_state (ocp_put io a v) s))"
      using s ok by blast
  qed
qed

lemma put_0_1: "rtl8125_ocp_write io a 1 0 = ocp_put io a 0" "rtl8125_ocp_write io a 1 1 = ocp_put io a 1"
  by (simp_all add: ocp_put_def)

abbreviation oob_at :: "'d mmio \<Rightarrow> 'd view \<Rightarrow> (u16 \<Rightarrow> u8) \<Rightarrow> 'd nic \<Rightarrow> 'd nic \<Rightarrow> bool" where
  "oob_at io V R s0 s \<equiv> ocp_ok io V s \<and> oob_bytes V s = R \<and> same_priv s0 s"

lemma oob_rd: "valid (oob_at io V R s0) (ocp_byte io a) (\<lambda>_. oob_at io V R s0)"
  by (rule valid_weaken [OF oob.rd_law]) auto

lemma oob_wr: "valid (oob_at io V R s0) (ocp_put io a v) (\<lambda>_. oob_at io V (R(a := v)) s0)"
  by (rule valid_weaken [OF oob.wr_law]) auto

lemma wait_prio_keeps: "valid (oob_at io V R s0) (oob_wait_prio io r n) (\<lambda>_. oob_at io V R s0)"
proof (induction io r n rule: oob_wait_prio.induct)
  case (1 io r n)
  show ?case
  proof (cases "r = 0")
    case True
    then show ?thesis by (subst oob_wait_prio.simps) (simp add: valid_def)
  next
    case False
    have "valid (oob_at io V R s0) (if 2000 < n + 1 then State_Monad.return () else oob_wait_prio io x (n + 1)) (\<lambda>_. oob_at io V R s0)" for x
      using 1 False by (cases "2000 < n + 1") (auto simp: valid_def)
    from valid_bind [OF this oob_rd] show ?thesis using False by (subst oob_wait_prio.simps) simp
  qed
qed

lemma wait_lock_keeps:
  assumes "R 0x114 = 1"
  shows "valid (oob_at io V R s0) (oob_wait_lock io r n) (\<lambda>_. oob_at io V R s0)"
proof (induction io r n rule: oob_wait_lock.induct)
  case (1 io r n)
  have RR: "R(0x114 := 0, 0x114 := 1) = R" using assms by auto
  let ?give = "\<lambda>x. (if x \<noteq> 0 then do {
       rtl8125_ocp_write io 0x114 1 0x00;
       y \<leftarrow> ocp_byte io 0x11C;
       oob_wait_prio io y 0;
       rtl8125_ocp_write io 0x114 1 1
     } else State_Monad.return ())"
  let ?next = "\<lambda>x. if 2000 < n + 1 then State_Monad.return () else oob_wait_lock io x (n + 1)"
  have "valid (oob_at io V R s0) (do { ocp_put io 0x114 0; y \<leftarrow> ocp_byte io 0x11C; oob_wait_prio io y 0; ocp_put io 0x114 1 })
      (\<lambda>_. oob_at io V (R(0x114 := 0, 0x114 := 1)) s0)"
    by (rule valid_bind [OF valid_bind [OF valid_bind [OF oob_wr wait_prio_keeps] oob_rd] oob_wr])
  then have give: "valid (oob_at io V R s0) (?give x) (\<lambda>_. oob_at io V R s0)" for x
    unfolding RR put_0_1 by (cases "x = 0") (simp_all add: valid_def)
  show ?case
  proof (cases "r = 0")
    case True
    then show ?thesis by (subst oob_wait_lock.simps) (simp add: valid_def)
  next
    case False
    have "valid (oob_at io V R s0) (?next x) (\<lambda>_. oob_at io V R s0)" for x
      using 1 False by (cases "2000 < n + 1") (auto simp: valid_def)
    from valid_bind [OF valid_bind [OF valid_bind [OF this oob_rd] give] oob_rd]
    show ?thesis using False by (subst oob_wait_lock.simps) simp
  qed
qed


text \<open>
  Taking the mutex, whatever the firmware's registers say and however often the driver
  has to step back, ends with the driver's flag at 0x114 set and no other out-of-band byte changed;
  releasing it sets the priority byte and clears the flag.  Without DASH both do nothing.
\<close>

lemma oob_mutex_effect:
  assumes "ocp_ok io V s" "HW_DASH_SUPPORT_DASH s" "DASH s \<noteq> 0"
    and "run_state (rtl8125_oob_mutex_lock io) s = (u, s')" "run_state (rtl8125_oob_mutex_unlock io) s' = (u', s'')"
  shows "oob_bytes V s' = (oob_bytes V s)(0x114 := 1) \<and> same_priv s s'
    \<and> oob_bytes V s'' = (oob_bytes V s)(0x11C := 1, 0x114 := 0) \<and> same_priv s s''"
proof -
  let ?R = "oob_bytes V s"
  have v1: "valid (oob_at io V ?R s) (do { ocp_put io 0x114 1; y \<leftarrow> ocp_byte io 0x110; oob_wait_lock io y 0 })
      (\<lambda>_. oob_at io V (?R(0x114 := 1)) s)"
    by (rule valid_bind [OF valid_bind [OF wait_lock_keeps oob_rd] oob_wr]) simp
  have "run_state (do { ocp_put io 0x114 1; y \<leftarrow> ocp_byte io 0x110; oob_wait_lock io y 0 }) s = (u, s')"
    using assms(2-4) by (simp add: rtl8125_oob_mutex_lock_def put_0_1)
  from validD [OF v1 _ this] have lock: "oob_at io V (?R(0x114 := 1)) s s'" using assms(1) by simp
  have v2: "valid (oob_at io V (?R(0x114 := 1)) s) (do { ocp_put io 0x11C 1; ocp_put io 0x114 0 })
      (\<lambda>_. oob_at io V (?R(0x114 := 1, 0x11C := 1, 0x114 := 0)) s)"
    by (rule valid_bind [OF oob_wr oob_wr])
  have "HW_DASH_SUPPORT_DASH s' \<and> DASH s' \<noteq> 0"
    using assms(2,3) lock same_priv_ocp [of s s'] by (simp add: HW_DASH_SUPPORT_DASH_def)
  then have "run_state (do { ocp_put io 0x11C 1; ocp_put io 0x114 0 }) s' = (u', s'')"
    using assms(5) by (simp add: rtl8125_oob_mutex_unlock_def put_0_1)
  from validD [OF v2 lock this] have "oob_at io V (?R(0x114 := 1, 0x11C := 1, 0x114 := 0)) s s''" .
  moreover have "?R(0x114 := 1, 0x11C := 1, 0x114 := 0) = ?R(0x11C := 1, 0x114 := 0)" by auto
  ultimately show ?thesis using lock by simp
qed

section \<open>Bounds and guards\<close>

lemma takes_eri_read_loop: "takes_at_most (nat len * 40002) (eri_read_loop io base type a len shift v)"
proof (induction "nat len" arbitrary: a len shift v rule: less_induct)
  case (less len a shift v)
  show ?case
  proof (cases "len \<le> 0")
    case True
    then show ?thesis by (subst eri_read_loop.simps) (simp add: takes_return)
  next
    case False
    let ?l = "len - (4 - int (unat (a mod 4)))"
    have step: "takes_at_most (nat (len - 1) * 40002)
        (if len \<le> 4 - int (unat (a mod 4)) then State_Monad.return w
         else eri_read_loop io base type ((a AND NOT 3) + 4) ?l (4 - unat (a mod 4)) w)" for w
    proof (cases "len \<le> 4 - int (unat (a mod 4))")
      case True
      then show ?thesis by (simp add: takes_weaken [OF takes_return])
    next
      case f: False
      have "takes_at_most (nat ?l * 40002) (eri_read_loop io base type ((a AND NOT 3) + 4) ?l (4 - unat (a mod 4)) w)"
        using False f mod4_bound [of a] by (intro less) linarith
      moreover have "nat ?l * 40002 \<le> nat (len - 1) * 40002" using mod4_bound [of a] by (intro mult_le_mono1 nat_mono) linarith
      ultimately show ?thesis unfolding if_not_P [OF f] by (rule takes_weaken)
    qed
    have "takes_at_most (1 + (40000 + (1 + nat (len - 1) * 40002))) (eri_read_loop io base type a len shift v)"
      unfolding eri_read_loop.simps [of io base type a len shift v] if_not_P [OF False] Let_def
      by (intro takes_bind step takes_wait takes_access)
    moreover have "1 + (40000 + (1 + nat (len - 1) * 40002)) = nat len * 40002" using False by (simp add: nat_diff_distrib')
    ultimately show ?thesis by simp
  qed
qed

lemma takes_eri_read:
  assumes "1 \<le> len" "len \<le> 4"
  shows "takes_at_most (nat len * 40002 + 1) (rtl8125_eri_read_with_oob_base_address io a len type base)"
proof -
  have l: "\<not> (4 < len \<or> len \<le> 0)" using assms by simp
  show ?thesis
    unfolding rtl8125_eri_read_with_oob_base_address_def if_not_P [OF l]
    using takes_bind [OF takes_bind [OF takes_return takes_access(7)] takes_eri_read_loop] by simp
qed

lemma takes_eri_write_loop: "takes_at_most (nat len * 200011) (eri_write_loop io x type base a len shift)"
proof (induction "nat len" arbitrary: a len shift rule: less_induct)
  case (less len a shift)
  show ?case
  proof (cases "len \<le> 0")
    case True
    then show ?thesis by (subst eri_write_loop.simps) (simp add: takes_return)
  next
    case False
    let ?l = "len - (4 - int (unat (a mod 4)))"
    have step: "takes_at_most (nat (len - 1) * 200011)
        (if len \<le> 4 - int (unat (a mod 4)) then State_Monad.return ()
         else eri_write_loop io x type base ((a AND NOT 3) + 4) ?l (4 - unat (a mod 4)))"
    proof (cases "len \<le> 4 - int (unat (a mod 4))")
      case True
      then show ?thesis by (simp add: takes_weaken [OF takes_return])
    next
      case f: False
      have "takes_at_most (nat ?l * 200011) (eri_write_loop io x type base ((a AND NOT 3) + 4) ?l (4 - unat (a mod 4)))"
        using False f mod4_bound [of a] by (intro less) linarith
      moreover have "nat ?l * 200011 \<le> nat (len - 1) * 200011" using mod4_bound [of a] by (intro mult_le_mono1 nat_mono) linarith
      ultimately show ?thesis unfolding if_not_P [OF f] by (rule takes_weaken)
    qed
    have rd: "takes_at_most 160009 (rtl8125_eri_read_with_oob_base_address io (a AND NOT 3) 4 type base)"
      using takes_eri_read [of 4 io "a AND NOT 3" type base] by simp
    have "takes_at_most (160009 + (1 + (1 + (40000 + nat (len - 1) * 200011)))) (eri_write_loop io x type base a len shift)"
      unfolding eri_write_loop.simps [of io x type base a len shift] if_not_P [OF False] Let_def
      by (intro takes_bind step takes_wait takes_access rd)
    moreover have "160009 + (1 + (1 + (40000 + nat (len - 1) * 200011))) = nat len * 200011" using False by (simp add: nat_diff_distrib')
    ultimately show ?thesis by simp
  qed
qed

lemma takes_eri_write:
  assumes "1 \<le> len" "len \<le> 4"
  shows "takes_at_most (nat len * 200011 + 1) (rtl8125_eri_write_with_oob_base_address io a len x type base)"
proof -
  have l: "\<not> (4 < len \<or> len \<le> 0)" using assms by simp
  show ?thesis
    unfolding rtl8125_eri_write_with_oob_base_address_def if_not_P [OF l]
    using takes_bind [OF takes_bind [OF takes_return takes_access(7)] takes_eri_write_loop] by simp
qed

lemma takes_ocp_byte [cost]: "takes_at_most 40003 (ocp_byte io a)"
proof -
  have "takes_at_most 40003 (rtl8125_eri_read_with_oob_base_address io (ucast a) (uint (1 :: u8)) ERIAR_OOB NO_BASE_ADDRESS)"
    using takes_eri_read [of 1 io "ucast a" ERIAR_OOB NO_BASE_ADDRESS] by simp
  then show ?thesis
    unfolding ocp_byte_def rtl8125_ocp_read_def rtl8125_ocp_read_with_oob_base_address_def
    by - (rule takes_weaken, (rule cost | assumption)+, simp)
qed

lemma takes_ocp_put [cost]: "takes_at_most 200012 (rtl8125_ocp_write io a 1 v)"
proof -
  have "takes_at_most 200012 (rtl8125_eri_write_with_oob_base_address io (ucast a) (uint (1 :: u8)) v ERIAR_OOB NO_BASE_ADDRESS)"
    using takes_eri_write [of 1 io "ucast a" v ERIAR_OOB NO_BASE_ADDRESS] by simp
  then show ?thesis
    unfolding rtl8125_ocp_write_def rtl8125_ocp_write_with_oob_base_address_def
    by - (rule takes_weaken, (rule cost | assumption)+, simp)
qed

lemma takes_wait_prio: "n \<le> 2000 \<Longrightarrow> takes_at_most ((2001 - n) * 40003) (oob_wait_prio io r n)"
proof (induction io r n rule: oob_wait_prio.induct)
  case (1 io r n)
  show ?case
  proof (cases "r = 0")
    case True
    then show ?thesis by (subst oob_wait_prio.simps) (simp add: takes_weaken [OF takes_return])
  next
    case False
    have step: "takes_at_most ((2000 - n) * 40003) (if 2000 < n + 1 then State_Monad.return () else oob_wait_prio io x (n + 1))" for x
      using 1 False by (cases "2000 < n + 1") (auto intro: takes_weaken [OF takes_return])
    have "takes_at_most (40003 + (2000 - n) * 40003) (oob_wait_prio io r n)"
      unfolding oob_wait_prio.simps [of io r n] if_not_P [OF False] by (intro takes_bind step takes_ocp_byte)
    moreover have "2001 - n = Suc (2000 - n)" using 1(2) by simp
    ultimately show ?thesis by simp
  qed
qed

definition lock_turn :: nat where
  "lock_turn = 40003 + (200012 + (40003 + (2001 * 40003 + 200012))) + 40003"

lemma takes_wait_lock: "n \<le> 2000 \<Longrightarrow> takes_at_most ((2001 - n) * lock_turn) (oob_wait_lock io r n)"
proof (induction io r n rule: oob_wait_lock.induct)
  case (1 io r n)
  show ?case
  proof (cases "r = 0")
    case True
    then show ?thesis by (subst oob_wait_lock.simps) (simp add: takes_weaken [OF takes_return])
  next
    case False
    have step: "takes_at_most ((2000 - n) * lock_turn) (if 2000 < n + 1 then State_Monad.return () else oob_wait_lock io x (n + 1))" for x
      using 1 False by (cases "2000 < n + 1") (auto intro: takes_weaken [OF takes_return])
    have prio: "takes_at_most (2001 * 40003) (oob_wait_prio io y 0)" for y using takes_wait_prio [of 0 io y] by simp
    have give: "takes_at_most (200012 + (40003 + (2001 * 40003 + 200012))) (if x \<noteq> 0 then do {
           rtl8125_ocp_write io 0x114 1 0x00; y \<leftarrow> ocp_byte io 0x11C; oob_wait_prio io y 0; rtl8125_ocp_write io 0x114 1 1
         } else State_Monad.return ())" for x
      using takes_bind [OF takes_bind [OF takes_bind [OF takes_ocp_put prio] takes_ocp_byte] takes_ocp_put]
      by (cases "x = 0") (auto intro: takes_weaken [OF takes_return])
    have "takes_at_most (40003 + ((200012 + (40003 + (2001 * 40003 + 200012))) + (40003 + (2000 - n) * lock_turn))) (oob_wait_lock io r n)"
      unfolding oob_wait_lock.simps [of io r n] if_not_P [OF False] by (intro takes_bind step takes_ocp_byte give)
    moreover have "40003 + ((200012 + (40003 + (2001 * 40003 + 200012))) + (40003 + (2000 - n) * lock_turn)) = (2001 - n) * lock_turn"
    proof -
      have "2001 - n = Suc (2000 - n)" using 1(2) by simp
      then show ?thesis by (simp add: lock_turn_def)
    qed
    ultimately show ?thesis by simp
  qed
qed

text \<open>
  ERI accesses and the mutex loops end after a bounded number of accesses and delays
  on every device, also when the firmware never releases the mutex.
\<close>

lemma oob_access_bounded:
  "takes_at_most 160009 (rtl8125_eri_read io a 4 type)
   \<and> takes_at_most 800045 (rtl8125_eri_write io a 4 x type)
   \<and> takes_at_most (240015 + 2001 * lock_turn) (rtl8125_oob_mutex_lock io)"
proof (intro conjI)
  show "takes_at_most 160009 (rtl8125_eri_read io a 4 type)"
    using takes_eri_read [of 4 io a type 0] by (simp add: rtl8125_eri_read_def)
  show "takes_at_most 800045 (rtl8125_eri_write io a 4 x type)"
    using takes_eri_write [of 4 io a x type 0] by (simp add: rtl8125_eri_write_def)
  have lock: "takes_at_most (2001 * lock_turn) (oob_wait_lock io r 0)" for r using takes_wait_lock [of 0 io r] by simp
  show "takes_at_most (240015 + 2001 * lock_turn) (rtl8125_oob_mutex_lock io)"
    unfolding rtl8125_oob_mutex_lock_def
    by (rule takes_weaken, (rule cost lock)+, simp)
qed

text \<open>Without permission the driver never reaches the out-of-band registers.\<close>

lemma denied_byte: "AllowAccessDashOcp s = 0 \<Longrightarrow> run_state (ocp_byte io a) s = (0xff, s)"
  by (simp add: ocp_byte_def rtl8125_ocp_read_def)

lemma denied_write: "AllowAccessDashOcp s = 0 \<Longrightarrow> run_state (rtl8125_ocp_write io a len v) s = ((), s)"
  by (simp add: rtl8125_ocp_write_def)

lemma denied_prio: "AllowAccessDashOcp s = 0 \<Longrightarrow> run_state (oob_wait_prio io r n) s = ((), s)"
proof (induction io r n rule: oob_wait_prio.induct)
  case (1 io r n)
  then show ?case by (subst oob_wait_prio.simps) (simp add: denied_byte)
qed

lemma denied_lock: "AllowAccessDashOcp s = 0 \<Longrightarrow> run_state (oob_wait_lock io r n) s = ((), s)"
proof (induction io r n rule: oob_wait_lock.induct)
  case (1 io r n)
  then show ?case by (subst oob_wait_lock.simps) (simp add: denied_byte denied_write denied_prio)
qed

text \<open>
  When access to the DASH registers is not allowed, none of the routines that use them
  touches the device: the state is unchanged, reads give all ones, and no DASH firmware is reported.
\<close>

lemma dash_denied:
  assumes "AllowAccessDashOcp s = 0"
  shows "run_state (rtl8125_ocp_read io a len) s = (0xffffffff, s) \<and> run_state (rtl8125_ocp_write io a len v) s = ((), s)
    \<and> run_state (rtl8125_oob_mutex_lock io) s = ((), s) \<and> run_state (rtl8125_oob_mutex_unlock io) s = ((), s)
    \<and> run_state (rtl8125_driver_start io) s = ((), s) \<and> run_state (rtl8125_driver_stop io) s = ((), s)
    \<and> run_state (rtl8125_check_dash io) s = (0, s)"
  using assms denied_byte [of s io] denied_write [of s io] denied_lock [of s io]
  by (simp add: rtl8125_ocp_read_def rtl8125_oob_mutex_lock_def rtl8125_oob_mutex_unlock_def
      rtl8125_driver_start_def rtl8125_driver_stop_def rtl8125_check_dash_def check_dash_ipc2_def)

lemma dash_denied_witness: "run_state (rtl8125_oob_mutex_lock (board32 ERIAR ERIDR)) (demo32\<lparr>DASH := 1, HwSuppDashVer := 4\<rparr>) =
    ((), demo32\<lparr>DASH := 1, HwSuppDashVer := 4\<rparr>)"
  using dash_denied [of "demo32\<lparr>DASH := 1, HwSuppDashVer := 4\<rparr>" "board32 ERIAR ERIDR"] by (simp add: demo32_def demo_nic_def)

lemma oob_mutex_effect_witness:
  "oob_bytes view32 (snd (run_state (rtl8125_oob_mutex_lock (board32 ERIAR ERIDR)) (demo32\<lparr>DASH := 1, HwSuppDashVer := 4, AllowAccessDashOcp := 1\<rparr>))) 0x114 = 1"
proof -
  let ?s = "demo32\<lparr>DASH := 1, HwSuppDashVer := 4, AllowAccessDashOcp := 1\<rparr>" and ?io = "board32 ERIAR ERIDR"
  obtain u s' where l: "run_state (rtl8125_oob_mutex_lock ?io) ?s = (u, s')" by (cases "run_state (rtl8125_oob_mutex_lock ?io) ?s")
  obtain u' s'' where r: "run_state (rtl8125_oob_mutex_unlock ?io) s' = (u', s'')" by (cases "run_state (rtl8125_oob_mutex_unlock ?io) s'")
  have "ocp_ok ?io view32 ?s" "HW_DASH_SUPPORT_DASH ?s" "DASH ?s \<noteq> 0"
    by (simp_all add: ocp_ok_def board32_lawful demo32_def demo_nic_def HW_DASH_SUPPORT_DASH_def)
  from oob_mutex_effect [OF this l r] show ?thesis unfolding l by simp
qed

end
