(* ===== verification/HwCtl.thy ===== *)
theory HwCtl
  imports Eri
begin

text \<open>
  Stopping, resetting and interrupting the controller (\<open>r8125_n.c\<close>): the receive gate, the stop
  request and FIFO waits, the interrupt mask and status registers of each interrupt version, the
  soft reset, interrupt mitigation, the mapping of interrupt vectors to queues, and the PHY reset.
  The build defines neither \<open>ENABLE_DASH_SUPPORT\<close> nor \<open>ENABLE_LIB_SUPPORT\<close>, so the code under these is
  left out; \<open>dprintk\<close> and \<open>printk\<close> print only and are left out too.
\<close>

abbreviation (input) INT_CFG0_8125 :: nat where "INT_CFG0_8125 \<equiv> 0x34"
abbreviation (input) ChipCmd :: nat where "ChipCmd \<equiv> 0x37"
abbreviation (input) RxConfig :: nat where "RxConfig \<equiv> 0x44"
abbreviation (input) TCTR0_8125 :: nat where "TCTR0_8125 \<equiv> 0x48"
abbreviation (input) TIMER_INT0_8125 :: nat where "TIMER_INT0_8125 \<equiv> 0x58"
abbreviation (input) TIMER_INT1_8125 :: nat where "TIMER_INT1_8125 \<equiv> 0x5C"
abbreviation (input) INT_CFG1_8125 :: nat where "INT_CFG1_8125 \<equiv> 0x7A"
abbreviation (input) TIMER_INT2_8125 :: nat where "TIMER_INT2_8125 \<equiv> 0x8C"
abbreviation (input) MCUCmd_reg :: nat where "MCUCmd_reg \<equiv> 0xD3"
abbreviation (input) IntrMitigate :: nat where "IntrMitigate \<equiv> 0xE2"
abbreviation (input) TIMER_INT3_8125 :: nat where "TIMER_INT3_8125 \<equiv> 0xF4"
abbreviation (input) INT_MITI_V2_0_RX :: nat where "INT_MITI_V2_0_RX \<equiv> 0xA00"
abbreviation (input) INT_MITI_V2_0_TX :: nat where "INT_MITI_V2_0_TX \<equiv> 0xA02"
abbreviation (input) IMR_V2_CLEAR_REG_8125 :: nat where "IMR_V2_CLEAR_REG_8125 \<equiv> 0xD00"
abbreviation (input) ISR_V2_8125 :: nat where "ISR_V2_8125 \<equiv> 0xD04"
abbreviation (input) IMR_V2_SET_REG_8125 :: nat where "IMR_V2_SET_REG_8125 \<equiv> 0xD0C"
abbreviation (input) IMR_V4_L2_CLEAR_REG_8125 :: nat where "IMR_V4_L2_CLEAR_REG_8125 \<equiv> 0xD10"
abbreviation (input) ISR_V4_L2_8125 :: nat where "ISR_V4_L2_8125 \<equiv> 0xD14"

abbreviation (input) StopReq :: u8 where "StopReq \<equiv> 0x80"
abbreviation (input) CmdReset :: u8 where "CmdReset \<equiv> 0x10"
abbreviation (input) CmdRxEnb :: u8 where "CmdRxEnb \<equiv> 0x08"
abbreviation (input) CmdTxEnb :: u8 where "CmdTxEnb \<equiv> 0x04"

section \<open>Gates and queries\<close>

definition rtl8125_enable_rxdvgate :: "'d mmio \<Rightarrow> ('d, unit) drv" where
  "rtl8125_enable_rxdvgate io = do { v \<leftarrow> RTL_R8 io 0xF2; RTL_W8 io 0xF2 (v OR 0x08) }"

definition rtl8125_disable_rxdvgate :: "'d mmio \<Rightarrow> ('d, unit) drv" where
  "rtl8125_disable_rxdvgate io = do { v \<leftarrow> RTL_R8 io 0xF2; RTL_W8 io 0xF2 (v AND NOT 0x08) }"

definition rtl8125_is_gpio_low :: "'d mmio \<Rightarrow> ('d, bool) drv" where
  "rtl8125_is_gpio_low io = do {
     ver \<leftarrow> gets HwSuppCheckPhyDisableModeVer;
     if ver = 3 then do { v \<leftarrow> rtl8125_mac_ocp_read io 0xDC04; State_Monad.return (v AND 0x2000 = 0) }
     else State_Monad.return False
   }"

definition rtl8125_is_phy_disable_mode_enabled :: "'d mmio \<Rightarrow> ('d, bool) drv" where
  "rtl8125_is_phy_disable_mode_enabled io = do {
     ver \<leftarrow> gets HwSuppCheckPhyDisableModeVer;
     if ver = 3 then do { v \<leftarrow> RTL_R8 io 0xF2; State_Monad.return (v AND 0x20 \<noteq> 0) }
     else State_Monad.return False
   }"

definition rtl8125_is_in_phy_disable_mode :: "'d mmio \<Rightarrow> ('d, bool) drv" where
  "rtl8125_is_in_phy_disable_mode io = do {
     enabled \<leftarrow> rtl8125_is_phy_disable_mode_enabled io;
     if enabled then rtl8125_is_gpio_low io else State_Monad.return False
   }"

section \<open>Stopping\<close>

definition rtl8125_stop_all_request :: "'d mmio \<Rightarrow> ('d, bool) drv" where
  "rtl8125_stop_all_request io = do {
     v \<leftarrow> RTL_R8 io ChipCmd;
     RTL_W8 io ChipCmd (v OR StopReq);
     cfg \<leftarrow> gets mcfg;
     if cfg = 2 \<or> cfg = 3 \<or> cfg = 6
     then poll io 10 (RTL_R8 io ChipCmd) (\<lambda>v. v AND StopReq = 0) 20
     else do { udelay io 200; State_Monad.return True }
   }"

definition rtl8125_clear_stop_all_request :: "'d mmio \<Rightarrow> ('d, unit) drv" where
  "rtl8125_clear_stop_all_request io = do {
     v \<leftarrow> RTL_R8 io ChipCmd;
     RTL_W8 io ChipCmd (v AND (CmdTxEnb OR CmdRxEnb))
   }"

definition rtl8125_wait_txrx_fifo_empty :: "'d mmio \<Rightarrow> ('d, unit) drv" where
  "rtl8125_wait_txrx_fifo_empty io = do {
     poll io 50 (RTL_R8 io MCUCmd_reg) (\<lambda>v. v AND 0x30 = 0x30) 3000;
     cfg \<leftarrow> gets mcfg;
     if cfg = 4 \<or> cfg = 5 \<or> 7 \<le> cfg \<and> cfg \<le> 12
     then do { poll io 50 (RTL_R16 io IntrMitigate) (\<lambda>v. v AND 0x103 = 0x103) 3000; State_Monad.return () }
     else State_Monad.return ()
   }"

section \<open>Interrupts\<close>

definition rtl8125_enable_hw_linkchg_interrupt :: "'d mmio \<Rightarrow> ('d, unit) drv" where
  "rtl8125_enable_hw_linkchg_interrupt io = do {
     ver \<leftarrow> gets HwCurrIsrVer;
     imr \<leftarrow> gets imr_reg;
     if ver = 7 then RTL_W32 io IMR_V2_SET_REG_8125 (push_bit 29 1)
     else if ver = 5 then RTL_W32 io IMR_V2_SET_REG_8125 (push_bit 18 1)
     else if ver = 4 then RTL_W32 io IMR_V2_SET_REG_8125 (push_bit 29 1)
     else if ver = 2 \<or> ver = 3 then RTL_W32 io IMR_V2_SET_REG_8125 (push_bit 21 1)
     else if ver = 1 then do {
       v \<leftarrow> RTL_R32 io (unat (imr 0));
       RTL_W32 io (unat (imr 0)) (0x0020 OR v)
     }
     else State_Monad.return ()
   }"

text \<open>\<open>for (i = 1; i < num_rx_rings; i++)\<close> over the registers of the other queues, under \<open>R8125_MULTI_RX_Q\<close>.\<close>

fun each_queue :: "nat list \<Rightarrow> (nat \<Rightarrow> ('d, unit) drv) \<Rightarrow> ('d, unit) drv" where
  "each_queue [] f = State_Monad.return ()"
| "each_queue (i # is) f = do { f i; each_queue is f }"

definition other_queues :: "'d nic \<Rightarrow> nat list" where
  "other_queues s = (if 1 < num_rx_rings s then [1..<num_rx_rings s] else [])"

definition rtl8125_enable_hw_interrupt :: "'d mmio \<Rightarrow> ('d, unit) drv" where
  "rtl8125_enable_hw_interrupt io = do {
     ver \<leftarrow> gets HwCurrIsrVer;
     imr \<leftarrow> gets imr_reg;
     msk \<leftarrow> gets intr_mask;
     qs \<leftarrow> gets other_queues;
     if ver = 2 \<or> ver = 3 \<or> ver = 4 \<or> ver = 5 \<or> ver = 7 then RTL_W32 io IMR_V2_SET_REG_8125 msk
     else if ver = 1 then do {
       RTL_W32 io (unat (imr 0)) msk;
       each_queue qs (\<lambda>i. RTL_W16 io (unat (imr i)) 0x0003)
     }
     else State_Monad.return ()
   }"

definition rtl8125_clear_hw_isr_v2 :: "'d mmio \<Rightarrow> nat \<Rightarrow> ('d, unit) drv" where
  "rtl8125_clear_hw_isr_v2 io message_id = RTL_W32 io ISR_V2_8125 (push_bit message_id 1)"

definition rtl8125_disable_hw_interrupt :: "'d mmio \<Rightarrow> ('d, unit) drv" where
  "rtl8125_disable_hw_interrupt io = do {
     ver \<leftarrow> gets HwCurrIsrVer;
     imr \<leftarrow> gets imr_reg;
     qs \<leftarrow> gets other_queues;
     if 1 < ver then do {
       RTL_W32 io IMR_V2_CLEAR_REG_8125 0xFFFFFFFF;
       if 3 < ver then RTL_W32 io IMR_V4_L2_CLEAR_REG_8125 0xFFFFFFFF else State_Monad.return ()
     }
     else do {
       RTL_W32 io (unat (imr 0)) 0;
       each_queue qs (\<lambda>i. RTL_W16 io (unat (imr i)) 0)
     }
   }"

definition rtl8125_switch_to_hw_interrupt :: "'d mmio \<Rightarrow> ('d, unit) drv" where
  "rtl8125_switch_to_hw_interrupt io = do {
     RTL_W32 io TIMER_INT0_8125 0;
     rtl8125_enable_hw_interrupt io
   }"

definition rtl8125_switch_to_timer_interrupt :: "'d mmio \<Rightarrow> u32 \<Rightarrow> ('d, unit) drv" where
  "rtl8125_switch_to_timer_interrupt io timer_count = do {
     timer \<leftarrow> gets use_timer_interrupt;
     imr \<leftarrow> gets imr_reg;
     msk \<leftarrow> gets timer_intr_mask;
     if timer \<noteq> 0 then do {
       RTL_W32 io TIMER_INT0_8125 timer_count;
       RTL_W32 io TCTR0_8125 timer_count;
       RTL_W32 io (unat (imr 0)) msk
     }
     else rtl8125_switch_to_hw_interrupt io
   }"

definition rtl8125_irq_mask_and_ack :: "'d mmio \<Rightarrow> ('d, unit) drv" where
  "rtl8125_irq_mask_and_ack io = do {
     rtl8125_disable_hw_interrupt io;
     ver \<leftarrow> gets HwCurrIsrVer;
     isr \<leftarrow> gets isr_reg;
     qs \<leftarrow> gets other_queues;
     if 1 < ver then do {
       RTL_W32 io ISR_V2_8125 0xFFFFFFFF;
       if 3 < ver then RTL_W32 io ISR_V4_L2_8125 0xFFFFFFFF else State_Monad.return ()
     }
     else do {
       v \<leftarrow> RTL_R32 io (unat (isr 0));
       RTL_W32 io (unat (isr 0)) v;
       each_queue qs (\<lambda>i. do { v \<leftarrow> RTL_R16 io (unat (isr i)); RTL_W16 io (unat (isr i)) v })
     }
   }"

section \<open>Reset\<close>

definition rtl8125_disable_rx_packet_filter :: "'d mmio \<Rightarrow> ('d, unit) drv" where
  "rtl8125_disable_rx_packet_filter io = do {
     v \<leftarrow> RTL_R32 io RxConfig;
     RTL_W32 io RxConfig (v AND NOT (0x20 OR 0x10 OR 0x08 OR 0x04 OR 0x02 OR 0x01))
   }"

definition rtl8125_nic_reset :: "'d mmio \<Rightarrow> ('d, unit) drv" where
  "rtl8125_nic_reset io = do {
     rtl8125_disable_rx_packet_filter io;
     rtl8125_enable_rxdvgate io;
     rtl8125_stop_all_request io;
     rtl8125_wait_txrx_fifo_empty io;
     rtl8125_clear_stop_all_request io;
     RTL_W8 io ChipCmd CmdReset;
     poll io 100 (RTL_R8 io ChipCmd) (\<lambda>v. v AND CmdReset = 0) 100;
     RTL_W32 io RxConfig (push_bit 8 5)
   }"

definition rtl8125_hw_set_interrupt_type :: "'d mmio \<Rightarrow> u8 \<Rightarrow> ('d, unit) drv" where
  "rtl8125_hw_set_interrupt_type io isr_ver = do {
     supp \<leftarrow> gets HwSuppIsrVer;
     if supp < 2 then State_Monad.return ()
     else do {
       tmp \<leftarrow> RTL_R8 io INT_CFG0_8125;
       let tmp = (if supp = 7 then tmp AND NOT 0x40 else tmp);
       let tmp = (if supp = 7 then tmp AND NOT 0x20 else if supp = 4 \<or> supp = 5 then tmp AND NOT 0x20 else tmp);
       if supp = 7 \<or> supp = 4 \<or> supp = 5 \<or> supp = 2 \<or> supp = 3
       then RTL_W8 io INT_CFG0_8125 ((tmp AND NOT 0x01) OR (if 1 < isr_ver then 0x01 else 0))
       else State_Monad.return ()
     }
   }"

definition rtl8125_hw_clear_timer_int :: "'d mmio \<Rightarrow> ('d, unit) drv" where
  "rtl8125_hw_clear_timer_int io = do {
     RTL_W32 io TIMER_INT0_8125 0;
     RTL_W32 io TIMER_INT1_8125 0;
     RTL_W32 io TIMER_INT2_8125 0;
     RTL_W32 io TIMER_INT3_8125 0
   }"

text \<open>\<open>for (i = a; i < b; i += 4) RTL_W32(tp, i, 0)\<close>.\<close>

function clear_range :: "'d mmio \<Rightarrow> nat \<Rightarrow> nat \<Rightarrow> ('d, unit) drv" where
  "clear_range io i b =
     (if i < b then do { RTL_W32 io i 0; clear_range io (i + 4) b } else State_Monad.return ())"
  by pat_completeness auto
termination by (relation "measure (\<lambda>(io, i, b). b - i)") auto

declare clear_range.simps [simp del]

definition rtl8125_hw_clear_int_miti :: "'d mmio \<Rightarrow> ('d, unit) drv" where
  "rtl8125_hw_clear_int_miti io = do {
     ver \<leftarrow> gets HwSuppIntMitiVer;
     if ver = 3 \<or> ver = 6 then clear_range io 0xA00 0xB00
     else if ver = 4 \<or> ver = 5 then do {
       clear_range io 0xA00 0xA80;
       v \<leftarrow> RTL_R8 io INT_CFG0_8125;
       (if ver = 5 then RTL_W8 io INT_CFG0_8125 (v AND NOT (0x02 OR 0x04 OR 0x10))
        else RTL_W8 io INT_CFG0_8125 (v AND NOT (0x02 OR 0x04)));
       RTL_W16 io INT_CFG1_8125 0
     }
     else State_Monad.return ()
   }"

definition vec_2_tx :: "u8 \<Rightarrow> nat \<Rightarrow> u32 \<Rightarrow> u32" where
  "vec_2_tx ver tx_rings messageId =
     (if ver = 2 then if messageId = 0x10 then 0 else if messageId = 0x12 \<and> 1 < tx_rings then 1 else 0xffffffff
      else if ver = 3 \<or> ver = 4 then if messageId = 0x00 then 0 else if messageId = 0x01 \<and> 1 < tx_rings then 1 else 0xffffffff
      else if ver = 5 then if messageId = 0x10 then 0 else if messageId = 0x11 \<and> 1 < tx_rings then 1 else 0xffffffff
      else if ver = 6 then if messageId = 0x08 then 0 else if messageId = 0x09 \<and> 1 < tx_rings then 1 else 0xffffffff
      else if ver = 7 then if messageId = 0x1B then 0 else if messageId = 0x1C \<and> 1 < tx_rings then 1 else 0xffffffff
      else 0xffffffff)"

text \<open>\<open>Some q\<close> is a \<open>true\<close> return with \<open>*qnum = q\<close>.\<close>

definition rtl8125_vec_2_tx_q_num :: "'d nic \<Rightarrow> u32 \<Rightarrow> u32 option" where
  "rtl8125_vec_2_tx_q_num s messageId =
     (let whichQ = vec_2_tx (HwSuppIsrVer s) (num_tx_rings s) messageId
      in if whichQ \<noteq> 0xffffffff then Some whichQ else None)"

definition rtl8125_vec_2_rx_q_num :: "'d nic \<Rightarrow> u32 \<Rightarrow> u32 option" where
  "rtl8125_vec_2_rx_q_num s messageId =
     (let whichQ = (if 2 \<le> HwSuppIsrVer s \<and> HwSuppIsrVer s \<le> 7 \<and> messageId < ucast (HwSuppNumRxQueues s)
                    then messageId else 0xffffffff)
      in if whichQ \<noteq> 0xffffffff then Some whichQ else None)"

definition rtl8125_hw_set_timer_int :: "'d mmio \<Rightarrow> u32 \<Rightarrow> u8 \<Rightarrow> ('d, unit) drv" where
  "rtl8125_hw_set_timer_int io message_id timer_intmiti_val = do {
     ver \<leftarrow> gets HwSuppIntMitiVer;
     cur \<leftarrow> gets HwCurrIsrVer;
     rxq \<leftarrow> gets (\<lambda>s. rtl8125_vec_2_rx_q_num s message_id);
     txq \<leftarrow> gets (\<lambda>s. rtl8125_vec_2_tx_q_num s message_id);
     if ver = 4 \<or> ver = 5 \<or> ver = 6 then do {
       let val = (if cur = 2 \<and> message_id < 16 then 0 else timer_intmiti_val);
       (case rxq of Some q \<Rightarrow> RTL_W8 io (INT_MITI_V2_0_RX + 8 * unat q) val | None \<Rightarrow> State_Monad.return ());
       (case txq of Some q \<Rightarrow> RTL_W8 io (INT_MITI_V2_0_TX + 8 * unat q) val | None \<Rightarrow> State_Monad.return ())
     }
     else State_Monad.return ()
   }"

definition rtl8125_hw_reset :: "'d mmio \<Rightarrow> ('d, unit) drv" where
  "rtl8125_hw_reset io = do {
     rtl8125_irq_mask_and_ack io;
     rtl8125_hw_clear_timer_int io;
     rtl8125_nic_reset io
   }"

section \<open>PHY reset\<close>

abbreviation (input) BMCR_RESET :: u32 where "BMCR_RESET \<equiv> 0x8000"

definition rtl8125_xmii_reset_pending :: "'d mmio \<Rightarrow> ('d, u32) drv" where
  "rtl8125_xmii_reset_pending io = do {
     rtl8125_mdio_write io 0x1f 0;
     v \<leftarrow> rtl8125_mdio_read io 0;
     State_Monad.return (v AND BMCR_RESET)
   }"

fun wait_phy_loop :: "'d mmio \<Rightarrow> nat \<Rightarrow> ('d, int) drv" where
  "wait_phy_loop io n =
     (if n = 0 then State_Monad.return (- 1)
      else do {
        v \<leftarrow> rtl8125_mdio_read io 0;
        if v AND BMCR_RESET = 0 then State_Monad.return 0
        else do { udelay io 1000; wait_phy_loop io (n - 1) }
      })"

declare wait_phy_loop.simps [simp del]

definition rtl8125_wait_phy_reset_complete :: "'d mmio \<Rightarrow> ('d, int) drv" where
  "rtl8125_wait_phy_reset_complete io = wait_phy_loop io 2500"

text \<open>The result is whether the reset was reported as failed.\<close>

definition rtl8125_xmii_reset_enable :: "'d mmio \<Rightarrow> ('d, bool) drv" where
  "rtl8125_xmii_reset_enable io = do {
     disabled \<leftarrow> rtl8125_is_in_phy_disable_mode io;
     if disabled then State_Monad.return False
     else do {
       rtl8125_mdio_write io 0x1f 0;
       v \<leftarrow> rtl8125_mdio_read io 4;
       rtl8125_mdio_write io 4 (ucast (v AND NOT (0x0020 OR 0x0040 OR 0x0080 OR 0x0100)));
       v \<leftarrow> rtl8125_mdio_read io 9;
       rtl8125_mdio_write io 9 (ucast (v AND NOT (0x0100 OR 0x0200)));
       v \<leftarrow> rtl8125_mdio_direct_read_phy_ocp io 0xA5D4;
       rtl8125_mdio_direct_write_phy_ocp io 0xA5D4 (ucast (v AND NOT 0x0080));
       rtl8125_mdio_write io 0 (0x8000 OR 0x1000);
       ret \<leftarrow> rtl8125_wait_phy_reset_complete io;
       State_Monad.return (ret \<noteq> 0)
     }
   }"

definition rtl8125_issue_offset_99_event :: "'d mmio \<Rightarrow> ('d, unit) drv" where
  "rtl8125_issue_offset_99_event io = do {
     v \<leftarrow> rtl8125_mac_ocp_read io 0xE09A;
     rtl8125_mac_ocp_write io 0xE09A (v OR 1)
   }"

section \<open>What is written, and in which order\<close>

fun is_write :: "io_event \<Rightarrow> bool" where
  "is_write (Wr8 r v) = True"
| "is_write (Wr16 r v) = True"
| "is_write (Wr32 r v) = True"
| "is_write (PciWr a v) = True"
| "is_write e = False"

definition wlog :: "'d nic \<Rightarrow> io_event list" where
  "wlog s = filter is_write (io_log s)"

definition wrote :: "'d nic \<Rightarrow> io_event list \<Rightarrow> 'd nic \<Rightarrow> bool" where
  "wrote s0 W s \<longleftrightarrow> wlog s = wlog s0 @ W \<and> same_priv s0 s"

lemma wrote_start [simp]: "wrote s [] s"
  by (simp add: wrote_def)

named_theorems emits \<open>writes made by a driver routine\<close>

lemma emits_access [emits]:
  "valid (wrote s0 W) (RTL_R8 io r) (\<lambda>_. wrote s0 W)" "valid (wrote s0 W) (RTL_R16 io r) (\<lambda>_. wrote s0 W)"
  "valid (wrote s0 W) (RTL_R32 io r) (\<lambda>_. wrote s0 W)" "valid (wrote s0 W) (udelay io t) (\<lambda>_. wrote s0 W)"
  "valid (wrote s0 W) (RTL_W8 io r v8) (\<lambda>_. wrote s0 (W @ [Wr8 r v8]))"
  "valid (wrote s0 W) (RTL_W16 io r v16) (\<lambda>_. wrote s0 (W @ [Wr16 r v16]))"
  "valid (wrote s0 W) (RTL_W32 io r v32) (\<lambda>_. wrote s0 (W @ [Wr32 r v32]))"
  by (simp_all add: valid_def wrote_def wlog_def RTL_R8_def RTL_R16_def RTL_R32_def udelay_def RTL_W8_def RTL_W16_def RTL_W32_def split_beta)

lemma emits_poll [emits]:
  "valid (wrote s0 W) (poll io t (RTL_R8 io r) ready n) (\<lambda>_. wrote s0 W)"
  "valid (wrote s0 W) (poll io t (RTL_R16 io r) ready' n) (\<lambda>_. wrote s0 W)"
  by (rule valid_poll_inv; rule emits_access)+

text \<open>A field read returns the field of the state the frame starts from.\<close>

lemma emits_gets:
  assumes "\<And>s. same_priv s0 s \<Longrightarrow> f s = f s0"
    and "valid (wrote s0 W) (k (f s0)) Q"
  shows "valid (wrote s0 W) (do { x \<leftarrow> gets f; k x }) Q"
proof (rule validI)
  fix s assume s: "wrote s0 W s"
  then have "f s = f s0" using assms(1) unfolding wrote_def by blast
  then show "Q (fst (run_state (do { x \<leftarrow> gets f; k x }) s)) (snd (run_state (do { x \<leftarrow> gets f; k x }) s))"
    using assms(2) s by (simp add: valid_def)
qed

lemma same_priv_fields:
  "same_priv s s' \<Longrightarrow> mcfg s' = mcfg s \<and> HwCurrIsrVer s' = HwCurrIsrVer s \<and> HwSuppIsrVer s' = HwSuppIsrVer s
     \<and> imr_reg s' = imr_reg s \<and> isr_reg s' = isr_reg s \<and> intr_mask s' = intr_mask s \<and> other_queues s' = other_queues s
     \<and> HwSuppIntMitiVer s' = HwSuppIntMitiVer s \<and> num_tx_rings s' = num_tx_rings s \<and> HwSuppNumRxQueues s' = HwSuppNumRxQueues s"
  by (cases s, cases s') (simp add: same_priv_def other_queues_def)

lemma valid_ex: "(\<And>x. valid (P x) m Q) \<Longrightarrow> valid (\<lambda>s. \<exists>x. P x s) m Q"
  by (auto simp: valid_def)

section \<open>The reset sequence\<close>

lemma emits_wait_fifo [emits]: "valid (wrote s0 W) (rtl8125_wait_txrx_fifo_empty io) (\<lambda>_. wrote s0 W)"
  unfolding rtl8125_wait_txrx_fifo_empty_def
proof (rule valid_bind [OF _ emits_poll(1)])
  show "valid (wrote s0 W) (do {
      cfg \<leftarrow> gets mcfg;
      if cfg = 4 \<or> cfg = 5 \<or> 7 \<le> cfg \<and> cfg \<le> 12
      then do { poll io 50 (RTL_R16 io IntrMitigate) (\<lambda>v. v AND 0x103 = 0x103) 3000; State_Monad.return () }
      else State_Monad.return () }) (\<lambda>_. wrote s0 W)"
    by (rule emits_gets) (auto simp: same_priv_fields intro: valid_bind [OF valid_return emits_poll(2)] valid_return)
qed

lemma emits_stop [emits]:
  "valid (wrote s0 W) (rtl8125_stop_all_request io) (\<lambda>_ s. \<exists>c. wrote s0 (W @ [Wr8 ChipCmd (c OR StopReq)]) s)"
proof -
  have rest: "valid (wrote s0 (W @ [Wr8 ChipCmd (c OR StopReq)])) (do {
      cfg \<leftarrow> gets mcfg;
      if cfg = 2 \<or> cfg = 3 \<or> cfg = 6 then poll io 10 (RTL_R8 io ChipCmd) (\<lambda>v. v AND StopReq = 0) 20
      else do { udelay io 200; State_Monad.return True } })
      (\<lambda>_ s. \<exists>c. wrote s0 (W @ [Wr8 ChipCmd (c OR StopReq)]) s)" for c
  proof (rule emits_gets)
    show "same_priv s0 s \<Longrightarrow> mcfg s = mcfg s0" for s by (simp add: same_priv_fields)
    have "valid (wrote s0 (W @ [Wr8 ChipCmd (c OR StopReq)])) (if mcfg s0 = 2 \<or> mcfg s0 = 3 \<or> mcfg s0 = 6
        then poll io 10 (RTL_R8 io ChipCmd) (\<lambda>v. v AND StopReq = 0) 20 else do { udelay io 200; State_Monad.return True })
        (\<lambda>_. wrote s0 (W @ [Wr8 ChipCmd (c OR StopReq)]))"
      by (simp add: emits_poll valid_bind [OF valid_return emits_access(4)])
    then show "valid (wrote s0 (W @ [Wr8 ChipCmd (c OR StopReq)])) (if mcfg s0 = 2 \<or> mcfg s0 = 3 \<or> mcfg s0 = 6
        then poll io 10 (RTL_R8 io ChipCmd) (\<lambda>v. v AND StopReq = 0) 20 else do { udelay io 200; State_Monad.return True })
        (\<lambda>_ s. \<exists>c. wrote s0 (W @ [Wr8 ChipCmd (c OR StopReq)]) s)"
      by (rule valid_weaken) auto
  qed
  show ?thesis
    unfolding rtl8125_stop_all_request_def
    by (rule valid_bind [OF valid_bind [OF rest emits_access(5)] emits_access(1)])
qed

lemma emits_clear_stop [emits]:
  "valid (wrote s0 W) (rtl8125_clear_stop_all_request io) (\<lambda>_ s. \<exists>c. wrote s0 (W @ [Wr8 ChipCmd (c AND 0x0c)]) s)"
proof -
  have e: "(CmdTxEnb OR CmdRxEnb) = 0x0c" by simp
  have "valid (wrote s0 W) (RTL_W8 io ChipCmd (v AND 0x0c)) (\<lambda>_ s. \<exists>c. wrote s0 (W @ [Wr8 ChipCmd (c AND 0x0c)]) s)" for v
    by (rule valid_weaken [OF emits_access(5)]) auto
  from valid_bind [OF this emits_access(1)] show ?thesis unfolding rtl8125_clear_stop_all_request_def e .
qed

lemma emits_gate [emits]:
  "valid (wrote s0 W) (rtl8125_enable_rxdvgate io) (\<lambda>_ s. \<exists>g. wrote s0 (W @ [Wr8 0xF2 (g OR 0x08)]) s)"
proof -
  have "valid (wrote s0 W) (RTL_W8 io 0xF2 (v OR 0x08)) (\<lambda>_ s. \<exists>g. wrote s0 (W @ [Wr8 0xF2 (g OR 0x08)]) s)" for v
    by (rule valid_weaken [OF emits_access(5)]) auto
  from valid_bind [OF this emits_access(1)] show ?thesis unfolding rtl8125_enable_rxdvgate_def .
qed

lemma emits_filter [emits]:
  "valid (wrote s0 W) (rtl8125_disable_rx_packet_filter io) (\<lambda>_ s. \<exists>f. wrote s0 (W @ [Wr32 RxConfig (f AND NOT 0x3f)]) s)"
proof -
  have e: "(0x20 OR 0x10 OR 0x08 OR 0x04 OR 0x02 OR 0x01 :: u32) = 0x3f" by simp
  have "valid (wrote s0 W) (RTL_W32 io RxConfig (v AND NOT 0x3f)) (\<lambda>_ s. \<exists>f. wrote s0 (W @ [Wr32 RxConfig (f AND NOT 0x3f)]) s)" for v
    by (rule valid_weaken [OF emits_access(7)]) auto
  from valid_bind [OF this emits_access(3)] show ?thesis unfolding rtl8125_disable_rx_packet_filter_def e .
qed

definition reset_writes :: "u32 \<Rightarrow> u8 \<Rightarrow> u8 \<Rightarrow> u8 \<Rightarrow> io_event list" where
  "reset_writes f g c e = [Wr32 RxConfig (f AND NOT 0x3f), Wr8 0xF2 (g OR 0x08), Wr8 ChipCmd (c OR StopReq),
     Wr8 ChipCmd (e AND 0x0c), Wr8 ChipCmd CmdReset, Wr32 RxConfig 0x500]"

lemma emits_nic_reset:
  "valid (wrote s0 W) (rtl8125_nic_reset io) (\<lambda>_ s. \<exists>f g c e. wrote s0 (W @ reset_writes f g c e) s)"
proof -
  let ?Q = "\<lambda>_ s. \<exists>f g c e. wrote s0 (W @ reset_writes f g c e) s"
  let ?pre = "\<lambda>f g c e. (((W @ [Wr32 RxConfig (f AND NOT 0x3f)]) @ [Wr8 0xF2 (g OR 0x08)]) @ [Wr8 ChipCmd (c OR StopReq)]) @ [Wr8 ChipCmd (e AND 0x0c)]"
  have last: "valid (wrote s0 (?pre f g c e)) (do {
      RTL_W8 io ChipCmd CmdReset;
      poll io 100 (RTL_R8 io ChipCmd) (\<lambda>v. v AND CmdReset = 0) 100;
      RTL_W32 io RxConfig (push_bit 8 5) }) ?Q" for f g c e
  proof -
    have "valid (wrote s0 ((?pre f g c e @ [Wr8 ChipCmd CmdReset]))) (RTL_W32 io RxConfig (push_bit 8 5)) ?Q"
      by (rule valid_weaken [OF emits_access(7)], assumption)
        (rule exI [of _ f], rule exI [of _ g], rule exI [of _ c], rule exI [of _ e], simp add: reset_writes_def)
    from valid_bind [OF valid_bind [OF this emits_poll(1)] emits_access(5)] show ?thesis .
  qed
  show ?thesis
    unfolding rtl8125_nic_reset_def
    by (rule valid_bind [OF valid_ex [OF valid_bind [OF valid_ex [OF valid_bind [OF valid_ex [OF
        valid_bind [OF valid_bind [OF valid_ex [OF last] emits_clear_stop] emits_wait_fifo]] emits_stop]] emits_gate]] emits_filter])
qed

definition mask_writes :: "'d nic \<Rightarrow> io_event list" where
  "mask_writes s = (if 1 < HwCurrIsrVer s
     then Wr32 IMR_V2_CLEAR_REG_8125 0xFFFFFFFF # (if 3 < HwCurrIsrVer s then [Wr32 IMR_V4_L2_CLEAR_REG_8125 0xFFFFFFFF] else [])
     else Wr32 (unat (imr_reg s 0)) 0 # map (\<lambda>i. Wr16 (unat (imr_reg s i)) 0) (other_queues s))"

lemma emits_each:
  assumes "\<And>W i. valid (wrote s0 W) (f i) (\<lambda>_. wrote s0 (W @ [g i]))"
  shows "valid (wrote s0 W) (each_queue qs f) (\<lambda>_. wrote s0 (W @ map g qs))"
proof (induction qs arbitrary: W)
  case Nil
  then show ?case by (simp add: valid_def)
next
  case (Cons i qs)
  show ?case using valid_bind [OF Cons assms, of W i] by simp
qed

lemma emits_opt:
  "valid (wrote s0 W) (do { RTL_W32 io r v; if b then RTL_W32 io r' v' else State_Monad.return () })
     (\<lambda>_. wrote s0 (W @ Wr32 r v # (if b then [Wr32 r' v'] else [])))"
  by (simp add: valid_def wrote_def wlog_def RTL_W32_def)

lemma emits_disable: "valid (wrote s0 W) (rtl8125_disable_hw_interrupt io) (\<lambda>_. wrote s0 (W @ mask_writes s0))"
proof -
  have b: "valid (wrote s0 W) (do { RTL_W32 io r 0; each_queue qs (\<lambda>i. RTL_W16 io (p i) 0) })
      (\<lambda>_. wrote s0 (W @ Wr32 r 0 # map (\<lambda>i. Wr16 (p i) 0) qs))" for r qs p
    using valid_bind [OF emits_each [of s0 "\<lambda>i. RTL_W16 io (p i) 0" "\<lambda>i. Wr16 (p i) 0", OF emits_access(6)] emits_access(7), of W io r 0 qs] by simp
  show ?thesis
    unfolding rtl8125_disable_hw_interrupt_def
    by (rule emits_gets, simp add: same_priv_fields, rule emits_gets, simp add: same_priv_fields, rule emits_gets, simp add: same_priv_fields)
      (use b in \<open>simp add: mask_writes_def emits_opt\<close>)
qed

definition ack_writes :: "'d nic \<Rightarrow> io_event list \<Rightarrow> bool" where
  "ack_writes s W \<longleftrightarrow> (if 1 < HwCurrIsrVer s
     then W = Wr32 ISR_V2_8125 0xFFFFFFFF # (if 3 < HwCurrIsrVer s then [Wr32 ISR_V4_L2_8125 0xFFFFFFFF] else [])
     else \<exists>v vs. W = Wr32 (unat (isr_reg s 0)) v # map (\<lambda>i. Wr16 (unat (isr_reg s i)) (vs i)) (other_queues s))"

lemma emits_each_read:
  assumes "distinct qs"
  shows "valid (wrote s0 W) (each_queue qs (\<lambda>i. do { v \<leftarrow> RTL_R16 io (p i); RTL_W16 io (p i) v }))
    (\<lambda>_ s. \<exists>vs. wrote s0 (W @ map (\<lambda>i. Wr16 (p i) (vs i)) qs) s)"
  using assms
proof (induction qs arbitrary: W)
  case Nil
  then show ?case by (simp add: valid_def)
next
  case (Cons i qs)
  let ?f = "\<lambda>i. do { v \<leftarrow> RTL_R16 io (p i); RTL_W16 io (p i) v }"
  have "valid (wrote s0 (W @ [Wr16 (p i) v])) (each_queue qs ?f)
      (\<lambda>_ s. \<exists>vs. wrote s0 (W @ map (\<lambda>i. Wr16 (p i) (vs i)) (i # qs)) s)" for v
  proof (rule valid_weaken [OF Cons.IH])
    show "distinct qs" using Cons.prems by simp
    fix a s assume "\<exists>vs. wrote s0 ((W @ [Wr16 (p i) v]) @ map (\<lambda>i. Wr16 (p i) (vs i)) qs) s"
    then obtain vs where "wrote s0 ((W @ [Wr16 (p i) v]) @ map (\<lambda>i. Wr16 (p i) (vs i)) qs) s" by blast
    moreover have "map (\<lambda>j. Wr16 (p j) ((vs(i := v)) j)) qs = map (\<lambda>j. Wr16 (p j) (vs j)) qs"
      using Cons.prems by auto
    ultimately have "wrote s0 (W @ map (\<lambda>j. Wr16 (p j) ((vs(i := v)) j)) (i # qs)) s"
      unfolding list.map by (simp only: append_assoc append_Cons append_Nil fun_upd_same)
    then show "\<exists>vs. wrote s0 (W @ map (\<lambda>i. Wr16 (p i) (vs i)) (i # qs)) s" by blast
  qed simp
  then have "valid (\<lambda>s. \<exists>v. wrote s0 (W @ [Wr16 (p i) v]) s) (each_queue qs ?f)
      (\<lambda>_ s. \<exists>vs. wrote s0 (W @ map (\<lambda>i. Wr16 (p i) (vs i)) (i # qs)) s)"
    by (rule valid_ex)
  moreover have "valid (wrote s0 W) (?f i) (\<lambda>_ s. \<exists>v. wrote s0 (W @ [Wr16 (p i) v]) s)"
  proof -
    have "valid (wrote s0 W) (RTL_W16 io (p i) v) (\<lambda>_ s. \<exists>v. wrote s0 (W @ [Wr16 (p i) v]) s)" for v
      by (rule valid_weaken [OF emits_access(6)]) auto
    from valid_bind [OF this emits_access(2)] show ?thesis .
  qed
  ultimately show ?case unfolding each_queue.simps by (rule valid_bind)
qed

lemma emits_irq:
  "valid (wrote s0 []) (rtl8125_irq_mask_and_ack io) (\<lambda>_ s. \<exists>A. ack_writes s0 A \<and> wrote s0 (mask_writes s0 @ A) s)"
proof -
  let ?Q = "\<lambda>_ s. \<exists>A. ack_writes s0 A \<and> wrote s0 (mask_writes s0 @ A) s"
  let ?W = "mask_writes s0"
  have a: "valid (wrote s0 ?W) (do { RTL_W32 io ISR_V2_8125 0xFFFFFFFF;
      if 3 < HwCurrIsrVer s0 then RTL_W32 io ISR_V4_L2_8125 0xFFFFFFFF else State_Monad.return () }) ?Q" if "1 < HwCurrIsrVer s0"
    by (rule valid_weaken [OF emits_opt]) (use that in \<open>auto simp: ack_writes_def\<close>)
  have d: "distinct (other_queues s0)" by (simp add: other_queues_def)
  have b: "valid (wrote s0 ?W) (do { v \<leftarrow> RTL_R32 io (unat (isr_reg s0 0)); RTL_W32 io (unat (isr_reg s0 0)) v;
      each_queue (other_queues s0) (\<lambda>i. do { v \<leftarrow> RTL_R16 io (unat (isr_reg s0 i)); RTL_W16 io (unat (isr_reg s0 i)) v }) }) ?Q"
    if "\<not> 1 < HwCurrIsrVer s0"
  proof -
    have "valid (wrote s0 (?W @ [Wr32 (unat (isr_reg s0 0)) v]))
        (each_queue (other_queues s0) (\<lambda>i. do { v \<leftarrow> RTL_R16 io (unat (isr_reg s0 i)); RTL_W16 io (unat (isr_reg s0 i)) v })) ?Q" for v
    proof (rule valid_weaken [OF emits_each_read [OF d]])
      fix u s assume "\<exists>vs. wrote s0 ((?W @ [Wr32 (unat (isr_reg s0 0)) v]) @ map (\<lambda>i. Wr16 (unat (isr_reg s0 i)) (vs i)) (other_queues s0)) s"
      then obtain vs where "wrote s0 (?W @ (Wr32 (unat (isr_reg s0 0)) v # map (\<lambda>i. Wr16 (unat (isr_reg s0 i)) (vs i)) (other_queues s0))) s" by auto
      moreover have "ack_writes s0 (Wr32 (unat (isr_reg s0 0)) v # map (\<lambda>i. Wr16 (unat (isr_reg s0 i)) (vs i)) (other_queues s0))"
        using that by (auto simp: ack_writes_def)
      ultimately show "\<exists>A. ack_writes s0 A \<and> wrote s0 (?W @ A) s" by blast
    qed
    from valid_bind [OF valid_bind [OF this emits_access(7)] emits_access(3)] show ?thesis .
  qed
  have "valid (wrote s0 ?W) (do {
     ver \<leftarrow> gets HwCurrIsrVer; isr \<leftarrow> gets isr_reg; qs \<leftarrow> gets other_queues;
     if 1 < ver then do {
       RTL_W32 io ISR_V2_8125 0xFFFFFFFF;
       if 3 < ver then RTL_W32 io ISR_V4_L2_8125 0xFFFFFFFF else State_Monad.return ()
     }
     else do {
       v \<leftarrow> RTL_R32 io (unat (isr 0));
       RTL_W32 io (unat (isr 0)) v;
       each_queue qs (\<lambda>i. do { v \<leftarrow> RTL_R16 io (unat (isr i)); RTL_W16 io (unat (isr i)) v })
     } }) ?Q"
    by (rule emits_gets, simp add: same_priv_fields, rule emits_gets, simp add: same_priv_fields, rule emits_gets, simp add: same_priv_fields)
      (use a b in simp)
  from valid_bind [OF this emits_disable [of s0 "[]", unfolded append_Nil]] show ?thesis
    unfolding rtl8125_irq_mask_and_ack_def .
qed

definition timer_writes :: "io_event list" where
  "timer_writes = [Wr32 TIMER_INT0_8125 0, Wr32 TIMER_INT1_8125 0, Wr32 TIMER_INT2_8125 0, Wr32 TIMER_INT3_8125 0]"

lemma emits_timers: "valid (wrote s0 W) (rtl8125_hw_clear_timer_int io) (\<lambda>_. wrote s0 (W @ timer_writes))"
  using valid_bind [OF valid_bind [OF valid_bind [OF emits_access(7) emits_access(7)] emits_access(7)] emits_access(7), of s0 W]
  unfolding rtl8125_hw_clear_timer_int_def timer_writes_def by simp

lemma emits_hw_reset:
  "valid (wrote s []) (rtl8125_hw_reset io)
     (\<lambda>_ t. \<exists>A f g c e. ack_writes s A \<and> wrote s (mask_writes s @ A @ timer_writes @ reset_writes f g c e) t)"
proof -
  have r: "valid (\<lambda>t. \<exists>A. ack_writes s A \<and> wrote s (mask_writes s @ A) t) (do { rtl8125_hw_clear_timer_int io; rtl8125_nic_reset io })
      (\<lambda>_ t. \<exists>A f g c e. ack_writes s A \<and> wrote s (mask_writes s @ A @ timer_writes @ reset_writes f g c e) t)"
  proof (rule valid_ex)
    fix A
    show "valid (\<lambda>t. ack_writes s A \<and> wrote s (mask_writes s @ A) t) (do { rtl8125_hw_clear_timer_int io; rtl8125_nic_reset io })
        (\<lambda>_ t. \<exists>A f g c e. ack_writes s A \<and> wrote s (mask_writes s @ A @ timer_writes @ reset_writes f g c e) t)"
    proof (rule validI)
      fix t assume t: "ack_writes s A \<and> wrote s (mask_writes s @ A) t"
      have "valid (wrote s (mask_writes s @ A)) (do { rtl8125_hw_clear_timer_int io; rtl8125_nic_reset io })
          (\<lambda>_ t. \<exists>f g c e. wrote s (((mask_writes s @ A) @ timer_writes) @ reset_writes f g c e) t)"
        by (rule valid_bind [OF emits_nic_reset emits_timers])
      with t show "\<exists>B f g c e. ack_writes s B \<and> wrote s (mask_writes s @ B @ timer_writes @ reset_writes f g c e)
          (snd (run_state (do { rtl8125_hw_clear_timer_int io; rtl8125_nic_reset io }) t))"
        unfolding valid_def append_assoc by blast
    qed
  qed
  show ?thesis
    unfolding rtl8125_hw_reset_def by (rule valid_bind [OF r emits_irq])
qed

text \<open>
  Property C20.  A hardware reset makes exactly these register writes, in this order, on every device:
  every interrupt is masked, then every pending one acknowledged, the timers are stopped, reception is
  closed (filter off, receive gate shut, stop requested and withdrawn) before the reset command is
  given, and the receive configuration is set last.  No field of the driver changes.
\<close>

theorem hw_reset_sequence:
  "let s' = snd (run_state (rtl8125_hw_reset io) s) in
   \<exists>A f g c e. ack_writes s A \<and> wlog s' = wlog s @ mask_writes s @ A @ timer_writes @ reset_writes f g c e \<and> same_priv s s'"
proof -
  have "\<exists>A f g c e. ack_writes s A \<and> wrote s (mask_writes s @ A @ timer_writes @ reset_writes f g c e) (snd (run_state (rtl8125_hw_reset io) s))"
    using emits_hw_reset [of s io] unfolding valid_def by (meson wrote_start)
  then show ?thesis by (simp add: wrote_def Let_def)
qed

section \<open>The interrupt mask\<close>

text \<open>The mask unit: writing ones to the clear register clears, to the set register sets.\<close>

definition imr_law :: "'d mmio \<Rightarrow> ('d \<Rightarrow> u32) \<Rightarrow> bool" where
  "imr_law io im \<longleftrightarrow> (\<forall>d v. im (writel io d IMR_V2_CLEAR_REG_8125 v) = im d AND NOT v
     \<and> im (writel io d IMR_V2_SET_REG_8125 v) = im d OR v)
     \<and> (\<forall>d r v. r \<noteq> IMR_V2_CLEAR_REG_8125 \<and> r \<noteq> IMR_V2_SET_REG_8125 \<longrightarrow> im (writel io d r v) = im d)"

definition linkchg_bit :: "u8 \<Rightarrow> u32" where
  "linkchg_bit ver = (if ver = 7 \<or> ver = 4 then push_bit 29 1 else if ver = 5 then push_bit 18 1 else push_bit 21 1)"

text \<open>
  On the chips with set and clear mask registers, disabling interrupts leaves none
  enabled, enabling them adds exactly the driver's mask, so disabling and then enabling leaves exactly
  the driver's mask enabled, and the link-change interrupt adds one bit, the one of that interrupt
  version.
\<close>

lemma interrupt_mask_exact:
  assumes "imr_law io im" "HwCurrIsrVer s \<in> {2, 3, 4, 5, 7}"
  shows "im (hw (snd (run_state (rtl8125_disable_hw_interrupt io) s))) = 0
    \<and> im (hw (snd (run_state (rtl8125_enable_hw_interrupt io) s))) = im (hw s) OR intr_mask s
    \<and> im (hw (snd (run_state (do { rtl8125_disable_hw_interrupt io; rtl8125_enable_hw_interrupt io }) s))) = intr_mask s
    \<and> im (hw (snd (run_state (rtl8125_enable_hw_linkchg_interrupt io) s))) = im (hw s) OR linkchg_bit (HwCurrIsrVer s)"
proof -
  have all1: "(0xFFFFFFFF :: u32) = - 1" by simp
  have "x AND NOT 0xFFFFFFFF = (0 :: u32)" for x unfolding all1 by simp
  then show ?thesis
    using assms
    by (auto simp: imr_law_def rtl8125_disable_hw_interrupt_def rtl8125_enable_hw_interrupt_def
        rtl8125_enable_hw_linkchg_interrupt_def RTL_W32_def linkchg_bit_def)
qed

section \<open>Interrupt type, mitigation and queues\<close>

definition type_clears :: "u8 \<Rightarrow> u8" where
  "type_clears ver = (if ver = 7 then 0x60 else if ver = 4 \<or> ver = 5 then 0x20 else 0)"

text \<open>
  Choosing the interrupt type writes one register: bit 0 tells whether the new interrupt
  registers are used, the mode bits of the chip's interrupt version are cleared, and every other bit
  is what was read; on chips without the register nothing is written.
\<close>

theorem interrupt_type_exact:
  "let s' = snd (run_state (rtl8125_hw_set_interrupt_type io isr_ver) s) in
   \<exists>v. wlog s' = wlog s @ (if HwSuppIsrVer s \<in> {2, 3, 4, 5, 7}
      then [Wr8 INT_CFG0_8125 ((v AND NOT (type_clears (HwSuppIsrVer s) OR 1)) OR (if 1 < isr_ver then 1 else 0))] else [])
    \<and> same_priv s s'"
proof -
  have g: "(x AND NOT a) AND NOT b = x AND NOT (a OR b)" for x a b :: u8
    by (rule bit_word_eqI) (auto simp: bit_simps)
  have m: "((x AND NOT 0x40) AND NOT 0x20) AND NOT 1 = x AND NOT (0x60 OR 1)" "(x AND NOT 0x20) AND NOT 1 = x AND NOT (0x20 OR 1)" for x :: u8
    unfolding g by simp_all
  obtain v d where v: "readb io (hw s) INT_CFG0_8125 = (v, d)" by fastforce
  show ?thesis
    unfolding Let_def
    by (rule exI [of _ v])
      (use v m in \<open>auto simp: rtl8125_hw_set_interrupt_type_def RTL_R8_def RTL_W8_def wlog_def type_clears_def Let_def split: if_splits\<close>)
qed

lemma emits_clear_range:
  "valid (wrote s0 W) (clear_range io (a + 4 * k) (a + 4 * n)) (\<lambda>_. wrote s0 (W @ map (\<lambda>i. Wr32 (a + 4 * i) 0) [k..<n]))"
proof (induction "n - k" arbitrary: k W)
  case 0
  then show ?case by (subst clear_range.simps) (simp add: valid_def)
next
  case (Suc m)
  then have k: "k < n" by simp
  have "valid (wrote s0 (W @ [Wr32 (a + 4 * k) 0])) (clear_range io (a + 4 * Suc k) (a + 4 * n))
      (\<lambda>_. wrote s0 ((W @ [Wr32 (a + 4 * k) 0]) @ map (\<lambda>i. Wr32 (a + 4 * i) 0) [Suc k..<n]))"
    using Suc by (intro Suc(1)) simp
  moreover have "a + 4 * Suc k = a + 4 * k + 4" by simp
  ultimately have "valid (wrote s0 (W @ [Wr32 (a + 4 * k) 0])) (clear_range io (a + 4 * k + 4) (a + 4 * n))
      (\<lambda>_. wrote s0 (W @ map (\<lambda>i. Wr32 (a + 4 * i) 0) [k..<n]))"
    using k by (simp add: upt_conv_Cons algebra_simps)
  from valid_bind [OF this emits_access(7)] k show ?case by (subst clear_range.simps) simp
qed

lemma clear_int_miti_writes:
  assumes "run_state (rtl8125_hw_clear_int_miti io) s = (u, s')" "ver = HwSuppIntMitiVer s"
  shows "\<exists>v. wlog s' = wlog s @
      (if ver = 3 \<or> ver = 6 then map (\<lambda>i. Wr32 (0xA00 + 4 * i) 0) [0..<64]
       else if ver = 4 \<or> ver = 5 then map (\<lambda>i. Wr32 (0xA00 + 4 * i) 0) [0..<32]
         @ [Wr8 INT_CFG0_8125 (v AND NOT (if ver = 5 then 0x16 else 0x06)), Wr16 INT_CFG1_8125 0]
       else []) \<and> same_priv s s'"
proof -
  have r64: "valid (wrote s []) (clear_range io 0xA00 0xB00) (\<lambda>_. wrote s (map (\<lambda>i. Wr32 (0xA00 + 4 * i) 0) [0..<64]))"
    using emits_clear_range [of s "[]" io "0xA00" 0 64] by simp
  have r32: "valid (wrote s []) (clear_range io 0xA00 0xA80) (\<lambda>_. wrote s (map (\<lambda>i. Wr32 (0xA00 + 4 * i) 0) [0..<32]))"
    using emits_clear_range [of s "[]" io "0xA00" 0 32] by simp
  consider "ver = 3 \<or> ver = 6" | "ver = 4 \<or> ver = 5" | "ver \<notin> {3, 4, 5, 6}" by auto
  then show ?thesis
  proof cases
    case 1
    then have "run_state (clear_range io 0xA00 0xB00) s = (u, s')"
      using assms by (simp add: rtl8125_hw_clear_int_miti_def)
    from validD [OF r64 wrote_start this] 1 show ?thesis by (simp add: wrote_def)
  next
    case 2
    obtain t where t: "run_state (clear_range io 0xA00 0xA80) s = ((), t)"
      by (cases "run_state (clear_range io 0xA00 0xA80) s") auto
    from validD [OF r32 wrote_start t] have w: "wrote s (map (\<lambda>i. Wr32 (0xA00 + 4 * i) 0) [0..<32]) t" .
    obtain v d where v: "readb io (hw t) INT_CFG0_8125 = (v, d)" by (cases "readb io (hw t) INT_CFG0_8125")
    have "s' = t\<lparr>hw := writew io (writeb io d INT_CFG0_8125 (v AND NOT (if ver = 5 then 0x16 else 0x06))) INT_CFG1_8125 0,
        io_log := io_log t @ [Rd8 INT_CFG0_8125 v, Wr8 INT_CFG0_8125 (v AND NOT (if ver = 5 then 0x16 else 0x06)), Wr16 INT_CFG1_8125 0]\<rparr>"
      using assms t v 2 by (auto simp: rtl8125_hw_clear_int_miti_def RTL_R8_def RTL_W8_def RTL_W16_def split: if_splits)
    then have "wrote s (map (\<lambda>i. Wr32 (0xA00 + 4 * i) 0) [0..<32]
        @ [Wr8 INT_CFG0_8125 (v AND NOT (if ver = 5 then 0x16 else 0x06)), Wr16 INT_CFG1_8125 0]) s'"
      using w by (simp add: wrote_def wlog_def)
    moreover have "ver \<noteq> 3 \<and> ver \<noteq> 6" using 2 by auto
    ultimately show ?thesis using 2 by (auto simp: wrote_def)
  next
    case 3
    then show ?thesis using assms by (auto simp: rtl8125_hw_clear_int_miti_def)
  qed
qed

text \<open>
  Clearing interrupt mitigation writes zero to every mitigation register of the chip's
  version (64 or 32 of them), once each, and on the versions with bypass bits clears exactly those.
\<close>

theorem clear_int_miti_exact:
  "let s' = snd (run_state (rtl8125_hw_clear_int_miti io) s); ver = HwSuppIntMitiVer s in
   \<exists>v. wlog s' = wlog s @
      (if ver = 3 \<or> ver = 6 then map (\<lambda>i. Wr32 (0xA00 + 4 * i) 0) [0..<64]
       else if ver = 4 \<or> ver = 5 then map (\<lambda>i. Wr32 (0xA00 + 4 * i) 0) [0..<32]
         @ [Wr8 INT_CFG0_8125 (v AND NOT (if ver = 5 then 0x16 else 0x06)), Wr16 INT_CFG1_8125 0]
       else []) \<and> same_priv s s'"
  unfolding Let_def
  by (rule clear_int_miti_writes [where u = "()"]) (simp_all add: prod_eq_iff)

lemma vec_2_tx_range:
  assumes "rtl8125_vec_2_tx_q_num s m = Some q" "1 \<le> num_tx_rings s"
  shows "unat q < num_tx_rings s" "unat q < 2"
  using assms by (auto simp: rtl8125_vec_2_tx_q_num_def vec_2_tx_def Let_def split: if_splits)

lemma vec_2_rx_range:
  assumes "rtl8125_vec_2_rx_q_num s m = Some q"
  shows "unat q < unat (HwSuppNumRxQueues s)"
  using assms by (auto simp: rtl8125_vec_2_rx_q_num_def Let_def word_less_nat_alt unat_up32 split: if_splits)

text \<open>
  Setting a vector's interrupt timer writes only mitigation registers of existing
  queues: at most one receive register and one transmit register, which are never the same, all inside
  the range that clearing the mitigation resets.
\<close>

lemma timer_int_writes_bounded:
  assumes "run_state (rtl8125_hw_set_timer_int io m val) s = (u, s')"
    and "1 \<le> num_tx_rings s" "unat (HwSuppNumRxQueues s) \<le> 16"
  shows "\<exists>R T. wlog s' = wlog s @ R @ T \<and> same_priv s s'
    \<and> (R = [] \<or> (\<exists>q v. R = [Wr8 (0xA00 + 8 * q) v] \<and> q < unat (HwSuppNumRxQueues s) \<and> 0xA00 + 8 * q < 0xA80))
    \<and> (T = [] \<or> (\<exists>q v. T = [Wr8 (0xA02 + 8 * q) v] \<and> q < num_tx_rings s \<and> 0xA02 + 8 * q < 0xA80))
    \<and> (\<forall>q q'. 0xA00 + 8 * q \<noteq> (0xA02 + 8 * q' :: nat))"
proof -
  define v where "v = (if HwCurrIsrVer s = 2 \<and> m < 16 then 0 else val)"
  define R where "R = (case rtl8125_vec_2_rx_q_num s m of Some q \<Rightarrow> [Wr8 (0xA00 + 8 * unat q) v] | None \<Rightarrow> [])"
  define T where "T = (case rtl8125_vec_2_tx_q_num s m of Some q \<Rightarrow> [Wr8 (0xA02 + 8 * unat q) v] | None \<Rightarrow> [])"
  have R: "R = [] \<or> (\<exists>q v. R = [Wr8 (0xA00 + 8 * q) v] \<and> q < unat (HwSuppNumRxQueues s) \<and> 0xA00 + 8 * q < 0xA80)"
    using vec_2_rx_range [of s m] assms(3) by (auto simp: R_def split: option.splits)
  have T: "T = [] \<or> (\<exists>q v. T = [Wr8 (0xA02 + 8 * q) v] \<and> q < num_tx_rings s \<and> 0xA02 + 8 * q < 0xA80)"
    using vec_2_tx_range [of s m] assms(2) by (auto simp: T_def split: option.splits)
  have parity: "0xA00 + 8 * q \<noteq> (0xA02 + 8 * q' :: nat)" for q q' by presburger
  show ?thesis
  proof (cases "HwSuppIntMitiVer s \<in> {4, 5, 6}")
    case True
    then have "wlog s' = wlog s @ R @ T \<and> same_priv s s'"
      using assms(1)
      by (auto simp: rtl8125_hw_set_timer_int_def Let_def R_def T_def v_def RTL_W8_def wlog_def split: option.splits)
    then show ?thesis using R T parity by blast
  next
    case False
    then have "wlog s' = wlog s @ [] @ [] \<and> same_priv s s'"
      using assms(1) by (auto simp: rtl8125_hw_set_timer_int_def)
    then show ?thesis using parity by blast
  qed
qed

section \<open>Bounds\<close>

lemma takes_mdio [cost]: "takes_at_most 40002 (rtl8125_mdio_read io a)" "takes_at_most 40001 (rtl8125_mdio_write io a v)"
proof -
  show "takes_at_most 40002 (rtl8125_mdio_read io a)"
    unfolding rtl8125_mdio_read_def mdio_real_read_def rtl8125_mdio_real_read_phy_ocp_def
    by (rule takes_weaken, (rule cost)+, simp)
  have "takes_at_most 0 (modify (\<lambda>s. s\<lparr>cur_page := v\<rparr>) :: ('d, unit) drv)" for v by (rule takes_modify) simp
  then show "takes_at_most 40001 (rtl8125_mdio_write io a v)"
    unfolding rtl8125_mdio_write_def mdio_real_write_def rtl8125_mdio_real_write_phy_ocp_def
    by - (rule takes_weaken, (rule cost | assumption)+, simp)
qed

lemma takes_direct [cost]:
  "takes_at_most 40002 (rtl8125_mdio_direct_read_phy_ocp io a)" "takes_at_most 40001 (rtl8125_mdio_direct_write_phy_ocp io a v)"
  unfolding rtl8125_mdio_direct_read_phy_ocp_def rtl8125_mdio_direct_write_phy_ocp_def
  by (rule takes_weaken, (rule cost)+, simp)+

lemma takes_wait_phy: "takes_at_most (n * 40003) (wait_phy_loop io n)"
proof (induction n)
  case 0
  then show ?case by (simp add: wait_phy_loop.simps takes_return)
next
  case (Suc n)
  have "takes_at_most (1 + n * 40003) (if v AND BMCR_RESET = 0 then State_Monad.return 0
      else do { udelay io 1000; wait_phy_loop io (Suc n - 1) })" for v
    using takes_bind [OF Suc takes_access(7)] by (simp add: takes_weaken [OF takes_return])
  from takes_bind [OF this takes_mdio(1)] show ?case by (subst wait_phy_loop.simps) simp
qed

lemma takes_queries [cost]: "takes_at_most 3 (rtl8125_is_in_phy_disable_mode io)"
  unfolding rtl8125_is_in_phy_disable_mode_def rtl8125_is_phy_disable_mode_enabled_def rtl8125_is_gpio_low_def
  by (rule takes_weaken, (rule cost)+, simp)

text \<open>
  Resetting the controller and resetting the PHY end after a bounded number of accesses
  and delays on every device, also one that never finishes its reset.
\<close>

lemma reset_bounded:
  "takes_at_most 12250 (rtl8125_nic_reset io) \<and> takes_at_most 100327514 (rtl8125_xmii_reset_enable io)"
proof
  have "takes_at_most 100007500 (rtl8125_wait_phy_reset_complete io)"
    using takes_wait_phy [of 2500 io] by (simp add: rtl8125_wait_phy_reset_complete_def)
  then show "takes_at_most 100327514 (rtl8125_xmii_reset_enable io)"
    unfolding rtl8125_xmii_reset_enable_def
    by - (rule takes_weaken, (rule cost | assumption)+, simp)
  show "takes_at_most 12250 (rtl8125_nic_reset io)"
    unfolding rtl8125_nic_reset_def rtl8125_disable_rx_packet_filter_def rtl8125_enable_rxdvgate_def
      rtl8125_stop_all_request_def rtl8125_wait_txrx_fifo_empty_def rtl8125_clear_stop_all_request_def
    by (rule takes_weaken, (rule cost)+, simp)
qed

section \<open>Witnesses\<close>

definition imr_board :: "u32 mmio" where
  "imr_board = \<lparr>readb = (\<lambda>d r. (0, d)), readw = (\<lambda>d r. (0, d)), readl = (\<lambda>d r. (0, d)),
     writeb = (\<lambda>d r v. d), writew = (\<lambda>d r v. d),
     writel = (\<lambda>d r v. if r = IMR_V2_CLEAR_REG_8125 then d AND NOT v else if r = IMR_V2_SET_REG_8125 then d OR v else d),
     elapse = (\<lambda>d t. d), pci_read = (\<lambda>d a. (0, d)), pci_write = (\<lambda>d a v. d)\<rparr>"

lemma imr_board_lawful: "imr_law imr_board (\<lambda>d. d)"
  by (simp add: imr_law_def imr_board_def)

lemma interrupt_mask_exact_witness:
  "hw (snd (run_state (do { rtl8125_disable_hw_interrupt imr_board; rtl8125_enable_hw_interrupt imr_board })
     (demo_nic 0x5\<lparr>intr_mask := 0x30\<rparr>))) = 0x30"
  using interrupt_mask_exact [OF imr_board_lawful, of "demo_nic 0x5\<lparr>intr_mask := 0x30\<rparr>"] by (simp add: demo_nic_def)

lemma timer_int_writes_bounded_witness:
  "\<exists>R T. wlog (snd (run_state (rtl8125_hw_set_timer_int imr_board 3 7) (demo_nic 0))) = R @ T \<and> length (R @ T) \<le> 2"
  using timer_int_writes_bounded [of imr_board 3 7 "demo_nic 0" "()"]
  by (fastforce simp: prod_eq_iff demo_nic_def wlog_def)

end
