(* ===== verification/RxFilter.thy ===== *)
theory RxFilter
  imports HwCtl
begin

text \<open>
  Which frames the controller takes (\<open>r8125_n.c\<close>): the packet filter with its multicast hash table, the station
  address, and the features of the network interface that change the receive configuration.

  What belongs to the kernel is a parameter: \<open>ether_crc\<close> and \<open>is_valid_ether_addr\<close>, the list of multicast
  addresses, the address that \<open>eth_random_addr\<close> makes up, the feature bits (the record \<open>netdev_features\<close>).
\<close>

section \<open>The network interface\<close>

record netdev_features =
  f_rxall :: bool
  f_rxcsum :: bool
  f_vlan_rx :: bool
  f_tso :: bool
  f_csum :: bool

record 'd netdev =
  tp :: "'d nic"
  cp_cmd :: u16
  dev_addr :: "u8 list"
  perm_addr :: "u8 list"
  addr_random :: bool

type_synonym ('d, 'a) ndev = "('d netdev, 'a) state"

definition on_tp :: "('d, 'a) drv \<Rightarrow> ('d, 'a) ndev" where
  "on_tp m = State (\<lambda>s. let (x, p) = run_state m (tp s) in (x, s\<lparr>tp := p\<rparr>))"

abbreviation (input) IFF_PROMISC :: u32 where "IFF_PROMISC \<equiv> 0x100"
abbreviation (input) IFF_ALLMULTI :: u32 where "IFF_ALLMULTI \<equiv> 0x200"
abbreviation (input) MAC0 :: nat where "MAC0 \<equiv> 0x00"
abbreviation (input) MAC4 :: nat where "MAC4 \<equiv> 0x04"
abbreviation (input) MAR0 :: nat where "MAR0 \<equiv> 0x08"
abbreviation (input) Cfg9346 :: nat where "Cfg9346 \<equiv> 0x50"
abbreviation (input) CPlusCmd :: nat where "CPlusCmd \<equiv> 0xE0"
abbreviation (input) BACKUP_ADDR0_8125 :: nat where "BACKUP_ADDR0_8125 \<equiv> 0x19E0"
abbreviation (input) BACKUP_ADDR1_8125 :: nat where "BACKUP_ADDR1_8125 \<equiv> 0x19E4"

definition AcceptErr :: u32 where "AcceptErr = 0x20"
definition AcceptRunt :: u32 where "AcceptRunt = 0x10"
definition AcceptBroadcast :: u32 where "AcceptBroadcast = 0x08"
definition AcceptMulticast :: u32 where "AcceptMulticast = 0x04"
definition AcceptMyPhys :: u32 where "AcceptMyPhys = 0x02"
definition AcceptAllPhys :: u32 where "AcceptAllPhys = 0x01"
definition EnableOuterVlan :: u32 where "EnableOuterVlan = push_bit 23 1"
definition EnableInnerVlan :: u32 where "EnableInnerVlan = push_bit 22 1"
definition RxChkSum :: u16 where "RxChkSum = push_bit 5 1"
definition Cfg9346_Unlock :: u8 where "Cfg9346_Unlock = 0xC0"

section \<open>The packet filter\<close>

text \<open>The bytes of a word in the other order.\<close>

definition swab32 :: "u32 \<Rightarrow> u32" where
  "swab32 x = push_bit 24 (x AND 0xff) OR push_bit 8 (x AND 0xff00) OR drop_bit 8 (x AND 0xff0000) OR drop_bit 24 (x AND 0xff000000)"

text \<open>The loop over the multicast addresses: the receive mode and the two words of the table.\<close>

fun mc_loop :: "(u8 list \<Rightarrow> u32) \<Rightarrow> u8 list list \<Rightarrow> u32 \<times> u32 \<times> u32 \<Rightarrow> u32 \<times> u32 \<times> u32" where
  "mc_loop ether_crc [] (rx_mode, f0, f1) = (rx_mode, f0, f1)"
| "mc_loop ether_crc (a # as) (rx_mode, f0, f1) =
     (let bit_nr = unat (drop_bit 26 (ether_crc a));
          b = push_bit (bit_nr mod 32) 1;
          (f0, f1) = (if bit_nr div 32 = 0 then (f0 OR b, f1) else (f0, f1 OR b))
      in mc_loop ether_crc as (rx_mode OR AcceptMulticast, f0, f1))"

definition filter_mode :: "(u8 list \<Rightarrow> u32) \<Rightarrow> u32 \<Rightarrow> u8 list list \<Rightarrow> u32 \<times> u32 \<times> u32" where
  "filter_mode ether_crc flags mc =
     (if flags AND IFF_PROMISC \<noteq> 0
      then (AcceptBroadcast OR AcceptMulticast OR AcceptMyPhys OR AcceptAllPhys, 0xffffffff, 0xffffffff)
      else if flags AND IFF_ALLMULTI \<noteq> 0
      then (AcceptBroadcast OR AcceptMulticast OR AcceptMyPhys, 0xffffffff, 0xffffffff)
      else mc_loop ether_crc mc (AcceptBroadcast OR AcceptMyPhys, 0, 0))"

definition rtl8125_hw_set_rx_packet_filter ::
  "(u8 list \<Rightarrow> u32) \<Rightarrow> u32 \<Rightarrow> u8 list list \<Rightarrow> netdev_features \<Rightarrow> 'd mmio \<Rightarrow> ('d, unit) drv" where
  "rtl8125_hw_set_rx_packet_filter ether_crc flags mc fe io = do {
     let (rx_mode, f0, f1) = filter_mode ether_crc flags mc;
     let rx_mode = (if f_rxall fe then rx_mode OR (AcceptErr OR AcceptRunt) else rx_mode);
     let (f0, f1) = (swab32 f1, swab32 f0);
     p \<leftarrow> State_Monad.get;
     v \<leftarrow> RTL_R32 io RxConfig;
     RTL_W32 io RxConfig (rtl8125_rx_config p OR rx_mode OR (v AND RxConfigMask p));
     RTL_W32 io MAR0 f0;
     RTL_W32 io (MAR0 + 4) f1
   }"

definition rtl8125_set_rx_mode ::
  "(u8 list \<Rightarrow> u32) \<Rightarrow> u32 \<Rightarrow> u8 list list \<Rightarrow> netdev_features \<Rightarrow> 'd mmio \<Rightarrow> ('d, unit) drv" where
  "rtl8125_set_rx_mode ether_crc flags mc fe io = rtl8125_hw_set_rx_packet_filter ether_crc flags mc fe io"

section \<open>Features\<close>

definition rtl8125_fix_features :: "nat \<Rightarrow> netdev_features \<Rightarrow> netdev_features" where
  "rtl8125_fix_features mtu fe =
     (if 0x07ff < mtu \<or> 1500 < mtu then fe\<lparr>f_tso := False\<rparr> else fe)\<lparr>f_csum := False\<rparr>"

definition set_or_clear :: "bool \<Rightarrow> 'a::len word \<Rightarrow> 'a word \<Rightarrow> 'a word" where
  "set_or_clear on m x = (if on then x OR m else x AND NOT m)"

definition rtl8125_hw_set_features :: "'d mmio \<Rightarrow> netdev_features \<Rightarrow> ('d, int) ndev" where
  "rtl8125_hw_set_features io fe = do {
     rx_config \<leftarrow> on_tp (RTL_R32 io RxConfig);
     on_tp (modify (\<lambda>p. p\<lparr>rtl8125_rx_config := set_or_clear (f_rxall fe) (AcceptErr OR AcceptRunt) (rtl8125_rx_config p)\<rparr>));
     let rx_config = set_or_clear (f_rxall fe) (AcceptErr OR AcceptRunt) rx_config;
     on_tp (modify (\<lambda>p. p\<lparr>rtl8125_rx_config := set_or_clear (f_vlan_rx fe) (EnableInnerVlan OR EnableOuterVlan) (rtl8125_rx_config p)\<rparr>));
     let rx_config = set_or_clear (f_vlan_rx fe) (EnableInnerVlan OR EnableOuterVlan) rx_config;
     on_tp (RTL_W32 io RxConfig rx_config);
     modify (\<lambda>s. s\<lparr>cp_cmd := set_or_clear (f_rxcsum fe) RxChkSum (cp_cmd s)\<rparr>);
     c \<leftarrow> gets cp_cmd;
     on_tp (RTL_W16 io CPlusCmd c);
     on_tp (RTL_R16 io CPlusCmd);
     State_Monad.return 0
   }"

definition rtl8125_set_features :: "'d mmio \<Rightarrow> netdev_features \<Rightarrow> ('d, int) ndev" where
  "rtl8125_set_features io fe = do {
     rtl8125_hw_set_features io (fe\<lparr>f_tso := False, f_csum := False\<rparr>);
     State_Monad.return 0
   }"

section \<open>The station address\<close>

definition rtl8125_enable_cfg9346_write :: "'d mmio \<Rightarrow> ('d, unit) drv" where
  "rtl8125_enable_cfg9346_write io = do { v \<leftarrow> RTL_R8 io Cfg9346; RTL_W8 io Cfg9346 (v OR Cfg9346_Unlock) }"

definition rtl8125_disable_cfg9346_write :: "'d mmio \<Rightarrow> ('d, unit) drv" where
  "rtl8125_disable_cfg9346_write io = do { v \<leftarrow> RTL_R8 io Cfg9346; RTL_W8 io Cfg9346 (v AND NOT Cfg9346_Unlock) }"

definition rar_low :: "u8 list \<Rightarrow> u32" where
  "rar_low addr = ucast (addr ! 0) OR push_bit 8 (ucast (addr ! 1)) OR push_bit 16 (ucast (addr ! 2)) OR push_bit 24 (ucast (addr ! 3))"

definition rar_high :: "u8 list \<Rightarrow> u32" where
  "rar_high addr = ucast (addr ! 4) OR push_bit 8 (ucast (addr ! 5))"

definition rtl8125_rar_set :: "'d mmio \<Rightarrow> u8 list \<Rightarrow> ('d, unit) drv" where
  "rtl8125_rar_set io addr = do {
     rtl8125_enable_cfg9346_write io;
     RTL_W32 io MAC0 (rar_low addr);
     RTL_W32 io MAC4 (rar_high addr);
     rtl8125_disable_cfg9346_write io
   }"

text \<open>\<open>*(u32* )&mac_addr[0] = lo; *(u16* )&mac_addr[4] = hi\<close>, on a little-endian machine.\<close>

definition mac_of :: "u32 \<Rightarrow> u16 \<Rightarrow> u8 list" where
  "mac_of lo hi = [ucast lo, ucast (drop_bit 8 lo), ucast (drop_bit 16 lo), ucast (drop_bit 24 lo), ucast hi, ucast (drop_bit 8 hi)]"

definition rtl8125_hw_address_set :: "u8 list \<Rightarrow> ('d, unit) ndev" where
  "rtl8125_hw_address_set mac_addr = modify (\<lambda>s. s\<lparr>dev_addr := mac_addr\<rparr>)"

text \<open>The address first read from \<open>MAC0\<close> is overwritten by the one kept in the backup registers.\<close>

fun read_mac0 :: "'d mmio \<Rightarrow> nat list \<Rightarrow> ('d, u8 list) drv" where
  "read_mac0 io [] = State_Monad.return []"
| "read_mac0 io (i # is) = do { v \<leftarrow> RTL_R8 io (MAC0 + i); vs \<leftarrow> read_mac0 io is; State_Monad.return (v # vs) }"

definition rtl8125_get_mac_address :: "(u8 list \<Rightarrow> bool) \<Rightarrow> u8 list \<Rightarrow> 'd mmio \<Rightarrow> ('d, int) ndev" where
  "rtl8125_get_mac_address is_valid_ether_addr rnd io = do {
     on_tp (read_mac0 io [0..<6]);
     lo \<leftarrow> on_tp (RTL_R32 io BACKUP_ADDR0_8125);
     hi \<leftarrow> on_tp (RTL_R16 io BACKUP_ADDR1_8125);
     let mac_addr = mac_of lo hi;
     mac_addr \<leftarrow> (if \<not> is_valid_ether_addr mac_addr then do {
         modify (\<lambda>s. s\<lparr>addr_random := True\<rparr>);
         on_tp (modify (\<lambda>p. p\<lparr>random_mac := 1\<rparr>));
         State_Monad.return rnd
       }
       else State_Monad.return mac_addr);
     rtl8125_hw_address_set mac_addr;
     on_tp (rtl8125_rar_set io mac_addr);
     a \<leftarrow> gets dev_addr;
     on_tp (modify (\<lambda>p. p\<lparr>org_mac_addr := a\<rparr>));
     modify (\<lambda>s. s\<lparr>perm_addr := a\<rparr>);
     State_Monad.return 0
   }"

abbreviation (input) EADDRNOTAVAIL :: int where "EADDRNOTAVAIL \<equiv> 99"

definition rtl8125_set_mac_address :: "(u8 list \<Rightarrow> bool) \<Rightarrow> 'd mmio \<Rightarrow> u8 list \<Rightarrow> ('d, int) ndev" where
  "rtl8125_set_mac_address is_valid_ether_addr io sa_data =
     (if \<not> is_valid_ether_addr sa_data then State_Monad.return (- EADDRNOTAVAIL)
      else do {
        rtl8125_hw_address_set sa_data;
        a \<leftarrow> gets dev_addr;
        on_tp (rtl8125_rar_set io a);
        State_Monad.return 0
      })"

section \<open>The hash table\<close>

text \<open>Byte \<open>k\<close> of the table as it stands in the registers \<open>MAR0\<close> to \<open>MAR7\<close>, with bit 0 first in each.\<close>

definition mar_byte :: "u32 \<Rightarrow> u32 \<Rightarrow> nat \<Rightarrow> u8" where
  "mar_byte t0 t1 k = ucast (drop_bit (8 * (k mod 4)) (if k < 4 then t0 else t1))"

definition table_bit :: "u32 \<Rightarrow> u32 \<Rightarrow> nat \<Rightarrow> bool" where
  "table_bit f0 f1 h = bit (if h < 32 then f0 else f1) (h mod 32)"

lemma byte_masks:
  "(0xff :: u32) = mask 8" "(0xff00 :: u32) = push_bit 8 (mask 8)" "(0xff0000 :: u32) = push_bit 16 (mask 8)"
  "(0xff000000 :: u32) = push_bit 24 (mask 8)"
  by (simp_all add: mask_eq_exp_minus_1)

lemma bit_swab32:
  assumes "n < 32"
  shows "bit (swab32 x) n = bit x (8 * (3 - n div 8) + n mod 8)"
proof -
  have n: "n = 8 * (n div 8) + n mod 8" "n mod 8 < 8" "n div 8 < 4" using assms by auto
  have *: "bit (swab32 x) (8 * q + r) = bit x (8 * (3 - q) + r)" if "r < 8" "q = 0 \<or> q = 1 \<or> q = 2 \<or> q = 3" for q r
    using that(2) unfolding swab32_def byte_masks
    by (elim disjE) (use that(1) in \<open>simp_all add: bit_or_iff bit_and_iff bit_push_bit_iff bit_drop_bit_eq bit_mask_iff del: mask_numeral\<close>)
  have "n div 8 = 0 \<or> n div 8 = 1 \<or> n div 8 = 2 \<or> n div 8 = 3" using n(3) by linarith
  from * [OF n(2) this] show ?thesis using n(1) by simp
qed

lemma swapped_table:
  assumes "h < 64"
  shows "bit (mar_byte (swab32 f1) (swab32 f0) (7 - h div 8)) (h mod 8) = table_bit f0 f1 h"
proof -
  have d: "h div 8 \<le> 7" and m: "h mod 8 < 8" using assms by auto
  have "bit (mar_byte (swab32 f1) (swab32 f0) (7 - h div 8)) (h mod 8)
      = bit (swab32 (if h < 32 then f0 else f1)) (8 * ((7 - h div 8) mod 4) + h mod 8)"
    using m d by (simp add: mar_byte_def bit_simps) (auto simp: add.commute)
  also have "\<dots> = bit (if h < 32 then f0 else f1) (8 * (3 - (7 - h div 8) mod 4) + h mod 8)"
    using m by (subst bit_swab32) (auto simp: div_mult2_eq)
  also have "8 * (3 - (7 - h div 8) mod 4) + h mod 8 = h mod 32"
  proof -
    have "3 - (7 - q) mod 4 = q mod 4" if "q < 8" for q :: nat
    proof -
      have "\<forall>q \<in> set [0..<8]. 3 - (7 - q) mod 4 = q mod (4 :: nat)" by (simp add: upt_rec)
      then show ?thesis using that by simp
    qed
    from this [of "h div 8"] show ?thesis using d mod_mult2_eq [of h 8 4] by simp
  qed
  finally show ?thesis by (simp add: table_bit_def)
qed

lemma half_mod: "b < 64 \<Longrightarrow> b mod 32 = (if b < 32 then b else b - (32 :: nat))"
  by (simp add: le_mod_geq)

lemma table_bit_or:
  "b < 64 \<Longrightarrow> h < 64 \<Longrightarrow> table_bit (if b div 32 = 0 then f0 OR push_bit (b mod 32) 1 else f0) (if b div 32 = 0 then f1 else f1 OR push_bit (b mod 32) 1) h
     \<longleftrightarrow> table_bit f0 f1 h \<or> b = h"
  using half_mod [of b] half_mod [of h] by (auto simp: table_bit_def bit_simps div_eq_0_iff)

lemma hash_range: "unat (drop_bit 26 (x :: u32)) < 64"
proof -
  have "unat x < 2 ^ 32" using unsigned_less [of x] by simp
  then show ?thesis by (subst unat_drop_bit_eq) (simp add: drop_bit_eq_div)
qed

lemma mc_loop_Cons:
  "mc_loop crc (a # mc) (m, f0, f1) = (let b = unat (drop_bit 26 (crc a)) in mc_loop crc mc (m OR AcceptMulticast,
     if b div 32 = 0 then f0 OR push_bit (b mod 32) 1 else f0, if b div 32 = 0 then f1 else f1 OR push_bit (b mod 32) 1))"
  by (simp add: Let_def)

lemma mc_loop_exact:
  assumes "mc_loop crc mc (m, f0, f1) = (m', g0, g1)"
  shows "m' = (if mc = [] then m else m OR AcceptMulticast)"
    and "h < 64 \<Longrightarrow> table_bit g0 g1 h \<longleftrightarrow> table_bit f0 f1 h \<or> (\<exists>a \<in> set mc. unat (drop_bit 26 (crc a)) = h)"
  using assms
proof (induction mc arbitrary: m f0 f1)
  case (Cons a mc)
  {
    case 1
    from Cons.IH(1) [OF 1 [unfolded mc_loop_Cons Let_def]] show ?case by (simp add: or.assoc)
  next
    case 2
    from Cons.IH(2) [OF 2(1) 2(2) [unfolded mc_loop_Cons Let_def]] table_bit_or [OF hash_range 2(1)]
    show ?case by auto
  }
qed simp_all

section \<open>What is accepted\<close>

lemmas accept_bits = AcceptErr_def AcceptRunt_def AcceptBroadcast_def AcceptMulticast_def AcceptMyPhys_def AcceptAllPhys_def

definition takes_all :: "u32 \<Rightarrow> bool" where
  "takes_all flags \<longleftrightarrow> flags AND IFF_PROMISC \<noteq> 0 \<or> flags AND IFF_ALLMULTI \<noteq> 0"

definition accept_mode :: "u32 \<Rightarrow> u8 list list \<Rightarrow> u32" where
  "accept_mode flags mc = AcceptBroadcast OR AcceptMyPhys OR (if takes_all flags \<or> mc \<noteq> [] then AcceptMulticast else 0)
     OR (if flags AND IFF_PROMISC \<noteq> 0 then AcceptAllPhys else 0)"

lemma table_full: "h < 64 \<Longrightarrow> table_bit 0xffffffff 0xffffffff h"
proof -
  have "(0xffffffff :: u32) = - 1" by simp
  show ?thesis unfolding table_bit_def \<open>0xffffffff = - 1\<close> by simp
qed

lemma filter_mode_exact:
  assumes "filter_mode crc flags mc = (m, f0, f1)"
  shows "m = accept_mode flags mc"
    and "h < 64 \<Longrightarrow> table_bit f0 f1 h \<longleftrightarrow> takes_all flags \<or> (\<exists>a \<in> set mc. unat (drop_bit 26 (crc a)) = h)"
proof -
  have "m = accept_mode flags mc \<and> (h < 64 \<longrightarrow> (table_bit f0 f1 h \<longleftrightarrow> takes_all flags \<or> (\<exists>a \<in> set mc. unat (drop_bit 26 (crc a)) = h)))" for h
  proof (cases "takes_all flags")
    case True
    then show ?thesis using assms table_full by (auto simp: filter_mode_def accept_mode_def takes_all_def accept_bits split: if_splits)
  next
    case False
    then have l: "mc_loop crc mc (AcceptBroadcast OR AcceptMyPhys, 0, 0) = (m, f0, f1)"
      using assms by (simp add: filter_mode_def takes_all_def)
    from mc_loop_exact [OF l] False show ?thesis by (auto simp: accept_mode_def takes_all_def table_bit_def or.assoc)
  qed
  then show "m = accept_mode flags mc"
    and "h < 64 \<Longrightarrow> table_bit f0 f1 h \<longleftrightarrow> takes_all flags \<or> (\<exists>a \<in> set mc. unat (drop_bit 26 (crc a)) = h)" by blast+
qed

definition rx_config_word :: "'d mmio \<Rightarrow> 'd nic \<Rightarrow> u32 \<Rightarrow> u8 list list \<Rightarrow> netdev_features \<Rightarrow> u32" where
  "rx_config_word io s flags mc fe = rtl8125_rx_config s OR (accept_mode flags mc OR (if f_rxall fe then AcceptErr OR AcceptRunt else 0))
     OR (fst (readl io (hw s) RxConfig) AND RxConfigMask s)"

lemma filter_writes:
  assumes "filter_mode crc flags mc = (m, f0, f1)" "run_state (rtl8125_hw_set_rx_packet_filter crc flags mc fe io) s = (u, s')"
  shows "wrote s [Wr32 RxConfig (rx_config_word io s flags mc fe), Wr32 MAR0 (swab32 f1), Wr32 (MAR0 + 4) (swab32 f0)] s'"
  using assms(2) unfolding rtl8125_hw_set_rx_packet_filter_def rx_config_word_def
  by (auto simp: assms(1) filter_mode_exact(1) [OF assms(1)] wrote_def wlog_def RTL_R32_def RTL_W32_def split_beta Let_def)

text \<open>
  The driver's own receive configuration sets no filter bit but those for damaged frames, and these only when the
  interface wants such frames.
\<close>

definition rx_config_clean :: "netdev_features \<Rightarrow> 'd nic \<Rightarrow> bool" where
  "rx_config_clean fe s \<longleftrightarrow> RxConfigMask s AND 0x3f = 0
     \<and> (rtl8125_rx_config s AND 0x3f = 0 \<or> f_rxall fe \<and> rtl8125_rx_config s AND 0x3f = 0x30)"

lemma config_bits:
  assumes "rx_config_clean fe s"
  shows "rx_config_word io s flags mc fe AND 0x3f = accept_mode flags mc OR (if f_rxall fe then 0x30 else 0)"
    and "rx_config_word io s flags mc fe AND NOT 0x3f = (rtl8125_rx_config s OR (fst (readl io (hw s) RxConfig) AND RxConfigMask s)) AND NOT 0x3f"
proof -
  have d: "(a OR b OR (c AND d)) AND k = (a AND k) OR (b AND k) OR (c AND (d AND k))"
    "(a OR (c AND d)) AND k = (a AND k) OR (c AND (d AND k))" for a b c d k :: u32
    by (rule bit_word_eqI; auto simp: bit_simps)+
  let ?m = "accept_mode flags mc OR (if f_rxall fe then AcceptErr OR AcceptRunt else 0)"
  have a: "?m AND 0x3f = accept_mode flags mc OR (if f_rxall fe then 0x30 else 0)" "?m AND NOT 0x3f = 0"
    by (simp_all add: accept_mode_def accept_bits)
  have k: "RxConfigMask s AND 0x3f = 0" using assms by (simp add: rx_config_clean_def)
  show "rx_config_word io s flags mc fe AND 0x3f = accept_mode flags mc OR (if f_rxall fe then 0x30 else 0)"
    using assms unfolding rx_config_word_def d a k rx_config_clean_def by (auto simp: accept_mode_def accept_bits)
  show "rx_config_word io s flags mc fe AND NOT 0x3f = (rtl8125_rx_config s OR (fst (readl io (hw s) RxConfig) AND RxConfigMask s)) AND NOT 0x3f"
    unfolding rx_config_word_def d a by simp
qed

text \<open>
  Property C24.  Setting the receive mode makes three writes on every device: the configuration, which accepts
  broadcasts and frames to the station, all frames exactly in promiscuous mode, multicasts exactly when
  the interface takes all of them or has subscribed to some, and damaged frames exactly when the interface wants them; and the
  hash table, in which exactly the hashes of the subscribed addresses are set (all of them when the
  interface takes all multicasts), in the place where the controller looks for them.
\<close>

theorem rx_filter_exact:
  assumes "rx_config_clean fe s" and "run_state (rtl8125_set_rx_mode crc flags mc fe io) s = (u, s')"
  shows "\<exists>v t0 t1. wlog s' = wlog s @ [Wr32 RxConfig v, Wr32 MAR0 t0, Wr32 (MAR0 + 4) t1] \<and> same_priv s s'
    \<and> v AND 0x3f = accept_mode flags mc OR (if f_rxall fe then 0x30 else 0)
    \<and> v AND NOT 0x3f = (rtl8125_rx_config s OR (fst (readl io (hw s) RxConfig) AND RxConfigMask s)) AND NOT 0x3f
    \<and> (\<forall>h < 64. bit (mar_byte t0 t1 (7 - h div 8)) (h mod 8) \<longleftrightarrow>
          takes_all flags \<or> (\<exists>a \<in> set mc. unat (drop_bit 26 (crc a)) = h))"
proof -
  obtain m f0 f1 where f: "filter_mode crc flags mc = (m, f0, f1)" by (cases "filter_mode crc flags mc")
  have "wrote s [Wr32 RxConfig (rx_config_word io s flags mc fe), Wr32 MAR0 (swab32 f1), Wr32 (MAR0 + 4) (swab32 f0)] s'"
    using filter_writes [OF f assms(2) [unfolded rtl8125_set_rx_mode_def]] .
  moreover have "\<forall>h < 64. bit (mar_byte (swab32 f1) (swab32 f0) (7 - h div 8)) (h mod 8) \<longleftrightarrow>
      takes_all flags \<or> (\<exists>a \<in> set mc. unat (drop_bit 26 (crc a)) = h)"
    using swapped_table filter_mode_exact(2) [OF f] by simp
  moreover note config_bits [OF assms(1), of io flags mc]
  ultimately show ?thesis unfolding wrote_def by blast
qed

section \<open>Features and the receive configuration\<close>

lemma set_or_clear_and: "set_or_clear b m x AND k = (if b then (x AND k) OR (m AND k) else (x AND k) AND NOT m)"
  by (rule bit_word_eqI) (auto simp: set_or_clear_def bit_simps)

lemma features_run:
  assumes "run_state (rtl8125_set_features io fe) s = (r, s')"
  shows "r = 0" and "rtl8125_rx_config (tp s') = set_or_clear (f_vlan_rx fe) (EnableInnerVlan OR EnableOuterVlan)
      (set_or_clear (f_rxall fe) (AcceptErr OR AcceptRunt) (rtl8125_rx_config (tp s)))"
    and "RxConfigMask (tp s') = RxConfigMask (tp s)" and "cp_cmd s' = set_or_clear (f_rxcsum fe) RxChkSum (cp_cmd s)"
    and "wlog (tp s') = wlog (tp s) @ [Wr32 RxConfig (set_or_clear (f_vlan_rx fe) (EnableInnerVlan OR EnableOuterVlan)
      (set_or_clear (f_rxall fe) (AcceptErr OR AcceptRunt) (fst (readl io (hw (tp s)) RxConfig)))), Wr16 CPlusCmd (cp_cmd s')]"
  using assms unfolding rtl8125_set_features_def rtl8125_hw_set_features_def on_tp_def
  by (auto simp: wlog_def RTL_R32_def RTL_W32_def RTL_R16_def RTL_W16_def split_beta Let_def)

text \<open>
  A change of the features leaves the driver's configuration as the packet filter needs it, so the filter set after
  it accepts damaged frames exactly when the interface wants them, whatever was wanted before.
\<close>

lemma features_clean:
  assumes "rx_config_clean fe0 (tp s)" "run_state (rtl8125_set_features io fe) s = (r, s')"
  shows "rx_config_clean fe (tp s')"
  using assms(1) unfolding rx_config_clean_def features_run(2,3) [OF assms(2)] set_or_clear_and
  by (auto simp: accept_bits EnableInnerVlan_def EnableOuterVlan_def)

section \<open>The station address\<close>

lemma byte_end: "8 \<le> k \<Longrightarrow> \<not> bit (b :: u8) k"
  by (auto dest: bit_imp_le_length)

lemma mac_roundtrip:
  assumes "length a = 6"
  shows "mac_of (rar_low a) (ucast (rar_high a)) = a"
proof -
  obtain b0 b1 b2 b3 b4 b5 where a: "a = [b0, b1, b2, b3, b4, b5]"
    using assms by (auto simp: length_Suc_conv eval_nat_numeral)
  show ?thesis unfolding a mac_of_def rar_low_def rar_high_def
    by (auto intro!: bit_word_eqI simp: bit_simps byte_end)
qed

lemma emits_rar:
  "valid (wrote s0 W) (rtl8125_rar_set io a)
     (\<lambda>_ s. \<exists>c d. wrote s0 (W @ [Wr8 Cfg9346 (c OR Cfg9346_Unlock), Wr32 MAC0 (rar_low a), Wr32 MAC4 (rar_high a), Wr8 Cfg9346 (d AND NOT Cfg9346_Unlock)]) s)"
  unfolding rtl8125_rar_set_def rtl8125_enable_cfg9346_write_def rtl8125_disable_cfg9346_write_def
  by (auto simp: valid_def wrote_def wlog_def RTL_R8_def RTL_W8_def RTL_W32_def split_beta Let_def)

definition address_written :: "'d nic \<Rightarrow> u8 list \<Rightarrow> 'd nic \<Rightarrow> bool" where
  "address_written s a s' \<longleftrightarrow> (\<exists>c d lo hi. wlog s' = wlog s @ [Wr8 Cfg9346 (c OR Cfg9346_Unlock), Wr32 MAC0 lo, Wr32 MAC4 hi,
     Wr8 Cfg9346 (d AND NOT Cfg9346_Unlock)] \<and> mac_of lo (ucast hi) = a \<and> hi < 0x10000)"

lemma rar_high_small: "rar_high a < 0x10000"
proof -
  have "rar_high a = take_bit 16 (rar_high a)"
    by (rule bit_word_eqI) (auto simp: rar_high_def bit_simps byte_end not_less)
  then have "unat (rar_high a) = take_bit 16 (unat (rar_high a))" by (metis unsigned_take_bit_eq)
  then have "unat (rar_high a) < 2 ^ 16" by (metis take_bit_nat_less_exp)
  then show ?thesis by (simp add: word_less_nat_alt)
qed

lemma rar_written:
  assumes "length a = 6" "run_state (rtl8125_rar_set io a) s = (u, s')"
  shows "address_written s a s'" "same_priv s s'"
  using emits_rar [of s "[]" io a] assms mac_roundtrip [OF assms(1)] rar_high_small [of a]
  unfolding valid_def wrote_def address_written_def by fastforce+

text \<open>Reading the address makes no write.\<close>

lemma emits_read_mac0 [emits]: "valid (wrote s0 W) (read_mac0 io is) (\<lambda>_. wrote s0 W)"
  by (induction "is") (auto simp: valid_def emits_access RTL_R8_def wrote_def wlog_def split_beta)

lemma run_on_tp: "run_state (on_tp m) s = (fst (run_state m (tp s)), s\<lparr>tp := snd (run_state m (tp s))\<rparr>)"
  by (simp add: on_tp_def split_beta Let_def)

lemma set_mac_exact:
  assumes "length a = 6" "run_state (rtl8125_set_mac_address okay io a) s = (r, s')"
  shows "if okay a then r = 0 \<and> dev_addr s' = a \<and> address_written (tp s) a (tp s') \<and> same_priv (tp s) (tp s') else r = - 99 \<and> s' = s"
proof -
  let ?q = "run_state (rtl8125_rar_set io a) (tp s)"
  have "okay a \<Longrightarrow> r = 0 \<and> s' = s\<lparr>dev_addr := a, tp := snd ?q\<rparr>" "\<not> okay a \<Longrightarrow> r = - 99 \<and> s' = s"
    using assms(2) by (auto simp: rtl8125_set_mac_address_def rtl8125_hw_address_set_def run_on_tp)
  then show ?thesis using rar_written [OF assms(1) surjective_pairing, where io = io and s = "tp s"] by simp
qed

text \<open>The address kept in the backup registers, as the controller shows it when it is asked for it.\<close>

definition backup_address :: "'d mmio \<Rightarrow> 'd nic \<Rightarrow> u8 list" where
  "backup_address io p = (let p = snd (run_state (read_mac0 io [0..<6]) p); (lo, p) = run_state (RTL_R32 io BACKUP_ADDR0_8125) p;
     (hi, p) = run_state (RTL_R16 io BACKUP_ADDR1_8125) p in mac_of lo hi)"

lemma get_mac_exact:
  assumes "length rnd = 6" "run_state (rtl8125_get_mac_address okay rnd io) s = (r, s')"
  defines "b \<equiv> backup_address io (tp s)"
  shows "r = 0 \<and> (let a = (if okay b then b else rnd) in dev_addr s' = a \<and> perm_addr s' = a \<and> org_mac_addr (tp s') = a
    \<and> address_written (tp s) a (tp s') \<and> addr_random s' = (addr_random s \<or> \<not> okay b)
    \<and> random_mac (tp s') = (if okay b then random_mac (tp s) else 1))"
proof -
  let ?p1 = "snd (run_state (read_mac0 io [0..<6]) (tp s))"
  let ?p2 = "snd (run_state (RTL_R32 io BACKUP_ADDR0_8125) ?p1)"
  let ?p3 = "snd (run_state (RTL_R16 io BACKUP_ADDR1_8125) ?p2)"
  let ?p = "if okay b then ?p3 else ?p3\<lparr>random_mac := 1\<rparr>" and ?a = "if okay b then b else rnd"
  let ?q = "snd (run_state (rtl8125_rar_set io ?a) ?p)"
  have 3: "wrote (tp s) [] ?p3"
    using emits_read_mac0 [of "tp s" "[]" io "[0..<6]"] emits_access(2,3) [of "tp s" "[]" io] unfolding valid_def by simp
  have l: "length ?a = 6" using assms(1) by (simp add: b_def backup_address_def mac_of_def Let_def split_beta)
  have e: "r = 0" "s' = s\<lparr>addr_random := (addr_random s \<or> \<not> okay b), dev_addr := ?a, tp := ?q\<lparr>org_mac_addr := ?a\<rparr>, perm_addr := ?a\<rparr>"
    using assms(2)
    by (auto simp: rtl8125_get_mac_address_def rtl8125_hw_address_set_def run_on_tp b_def backup_address_def Let_def split_beta)
  note w = rar_written [OF l surjective_pairing, where io = io and s = ?p]
  have "random_mac ?p3 = random_mac (tp s)" "wlog ?p3 = wlog (tp s)" using 3 by (auto simp: wrote_def same_priv_def dest: arg_cong [of _ _ random_mac])
  moreover have "random_mac ?q = random_mac ?p" using w(2) by (auto simp: same_priv_def dest: arg_cong [of _ _ random_mac])
  ultimately show ?thesis using w(1) e by (auto simp: address_written_def wlog_def Let_def)
qed

section \<open>A small network\<close>

text \<open>One subscribed address, with hash 5.\<close>

definition demo_crc :: "u8 list \<Rightarrow> u32" where
  "demo_crc a = 0x14000000 OR ucast (hd a)"

theorem rx_filter_exact_witness:
  "let s = demo_nic 0; s' = snd (run_state (rtl8125_set_rx_mode demo_crc 0 [[1, 0, 0x5e, 0, 0, 1]]
     \<lparr>f_rxall = False, f_rxcsum = True, f_vlan_rx = True, f_tso = False, f_csum = False\<rparr> imr_board) s) in
   \<exists>v t0 t1. wlog s' = [Wr32 RxConfig v, Wr32 MAR0 t0, Wr32 (MAR0 + 4) t1] \<and> v AND 0x3f = 0x0e
     \<and> bit (mar_byte t0 t1 7) 5 \<and> \<not> bit (mar_byte t0 t1 7) 4"
proof -
  let ?fe = "\<lparr>f_rxall = False, f_rxcsum = True, f_vlan_rx = True, f_tso = False, f_csum = False\<rparr>"
  have c: "rx_config_clean ?fe (demo_nic 0)" "wlog (demo_nic 0) = []" by (simp_all add: rx_config_clean_def demo_nic_def wlog_def)
  have m: "accept_mode 0 [[1, 0, 0x5e, 0, 0, 1]] = 0x0e" by (simp add: accept_mode_def takes_all_def accept_bits)
  have h: "unat (drop_bit 26 (demo_crc [1, 0, 0x5e, 0, 0, 1])) = 5" by (simp add: demo_crc_def)
  obtain v t0 t1 where "wlog (snd (run_state (rtl8125_set_rx_mode demo_crc 0 [[1, 0, 0x5e, 0, 0, 1]] ?fe imr_board) (demo_nic 0))) = [Wr32 RxConfig v, Wr32 MAR0 t0, Wr32 (MAR0 + 4) t1]"
    "v AND 0x3f = 0x0e"
    and b: "\<forall>h < 64. bit (mar_byte t0 t1 (7 - h div 8)) (h mod 8) \<longleftrightarrow> 5 = h"
    using rx_filter_exact [OF c(1) surjective_pairing, where crc = demo_crc and flags = 0 and mc = "[[1, 0, 0x5e, 0, 0, 1]]" and io = imr_board]
    unfolding c(2) m by (auto simp: takes_all_def h)
  moreover have "bit (mar_byte t0 t1 7) 5" "\<not> bit (mar_byte t0 t1 7) 4"
    using b [rule_format, of 5] b [rule_format, of 4] by simp_all
  ultimately show ?thesis unfolding Let_def by blast
qed

end
