(* ===== verification/RingStore.thy ===== *)
theory RingStore
  imports Prelude "HOL-Library.Multiset"
begin

text \<open>
  Descriptor rings addressed by free-running 32-bit counters: counter \<open>x\<close> names slot \<open>x mod n\<close>.  A
  window is the list of slots that a run of consecutive counters names.  The locale \<open>ring_store\<close> is
  the interface of anything with slots; its lemmas say what a pass over consecutive slots does to a
  window, to the slots outside it and to quantities summed over the whole ring.  The transmit and the
  receive ring are its instances.
\<close>

definition slot_index :: "nat \<Rightarrow> u32 \<Rightarrow> nat \<Rightarrow> nat" where
  "slot_index n x j = unat (x + of_nat j) mod n"

definition window :: "(nat \<Rightarrow> 'c) \<Rightarrow> nat \<Rightarrow> u32 \<Rightarrow> nat \<Rightarrow> 'c list" where
  "window f n x m = map (\<lambda>j. f (slot_index n x j)) [0..<m]"

fun update_run :: "('r \<Rightarrow> nat \<Rightarrow> 'c) \<Rightarrow> ('r \<Rightarrow> nat \<Rightarrow> 'c \<Rightarrow> 'r) \<Rightarrow> nat \<Rightarrow> 'r \<Rightarrow> u32 \<Rightarrow> ('c \<Rightarrow> 'c) list \<Rightarrow> 'r" where
  "update_run slot set_slot n r x [] = r"
| "update_run slot set_slot n r x (f # fs) =
     update_run slot set_slot n (set_slot r (unat x mod n) (f (slot r (unat x mod n)))) (x + 1) fs"

lemma slot_index_0 [simp]: "slot_index n x 0 = unat x mod n"
  by (simp add: slot_index_def)

lemma slot_index_Suc: "slot_index n x (Suc j) = slot_index n (x + 1) j"
  by (simp add: slot_index_def ac_simps)

lemma slot_index_add: "slot_index n (x + of_nat i) j = slot_index n x (i + j)"
  by (simp add: slot_index_def ac_simps)

lemma slot_index_less: "0 < n \<Longrightarrow> slot_index n x j < n"
  by (simp add: slot_index_def)

lemma slot_index_eq:
  assumes "n dvd 2 ^ 32"
  shows "slot_index n x j = (unat x + j) mod n"
proof -
  have "slot_index n x j = ((unat x + j) mod 2 ^ 32) mod n"
    by (simp add: slot_index_def unat_word_ariths unat_of_nat mod_add_right_eq)
  then show ?thesis using assms by (simp add: mod_mod_cancel)
qed

lemma slot_index_inj:
  assumes "n dvd 2 ^ 32" "i < n" "j < n" "slot_index n x i = slot_index n x j"
  shows "i = j"
proof -
  have eq: "(unat x + i) mod n = (unat x + j) mod n" using assms by (simp add: slot_index_eq)
  have "a = b" if "a \<le> b" "b < n" "(unat x + a) mod n = (unat x + b) mod n" for a b
  proof -
    have "n dvd (unat x + b) - (unat x + a)" using that by (metis mod_eq_dvd_iff_nat add_le_mono le_refl)
    then show ?thesis using that by (auto dest: dvd_imp_le)
  qed
  from this [of i j] this [of j i] show ?thesis using assms(2,3) eq by (cases "i \<le> j") auto
qed

lemma slot_index_inj_iff:
  "n dvd 2 ^ 32 \<Longrightarrow> i < n \<Longrightarrow> j < n \<Longrightarrow> slot_index n x i = slot_index n x j \<longleftrightarrow> i = j"
  using slot_index_inj by blast

lemma slot_index_surj:
  assumes "n dvd 2 ^ 32" "e < n"
  shows "\<exists>j < n. e = slot_index n x j"
proof -
  have "slot_index n x ` {..<n} = {..<n}"
  proof (rule card_subset_eq)
    show "card (slot_index n x ` {..<n}) = card {..<n}"
      using assms(1) by (intro card_image inj_onI) (auto intro: slot_index_inj)
  qed (use assms(2) in \<open>auto simp: slot_index_less\<close>)
  then show ?thesis using assms(2) by (metis image_iff lessThan_iff)
qed

lemma unat_mod_slot: "unat (x mod w) = slot_index (unat w) x 0"
  by (simp add: unat_mod)

lemma length_window [simp]: "length (window f n x m) = m"
  by (simp add: window_def)

lemma nth_window [simp]: "j < m \<Longrightarrow> window f n x m ! j = f (slot_index n x j)"
  by (simp add: window_def)

lemma window_0 [simp]: "window f n x 0 = []"
  by (simp add: window_def)

lemma window_Suc: "window f n x (Suc m) = f (unat x mod n) # window f n (x + 1) m"
  unfolding window_def by (simp add: upt_conv_Cons map_Suc_upt [symmetric] slot_index_Suc del: upt_Suc)

lemma window_append: "window f n x (a + b) = window f n x a @ window f n (x + of_nat a) b"
  by (rule nth_equalityI) (auto simp: nth_append slot_index_add)

lemma window_cong: "(\<And>j. j < m \<Longrightarrow> f (slot_index n x j) = g (slot_index n x j)) \<Longrightarrow> window f n x m = window g n x m"
  by (simp add: window_def)

lemma set_window: "set (window f n x m) = (\<lambda>j. f (slot_index n x j)) ` {..<m}"
  by (auto simp: window_def)

locale ring_store =
  fixes slot :: "'r \<Rightarrow> nat \<Rightarrow> 'c"
    and set_slot :: "'r \<Rightarrow> nat \<Rightarrow> 'c \<Rightarrow> 'r"
    and nslots :: "'r \<Rightarrow> nat"
    and wf :: "'r \<Rightarrow> bool"
  assumes wf_set: "wf r \<Longrightarrow> wf (set_slot r i c)"
    and nslots_set: "nslots (set_slot r i c) = nslots r"
    and slot_set: "wf r \<Longrightarrow> i < nslots r \<Longrightarrow> slot (set_slot r i c) j = (if j = i then c else slot r j)"
    and wf_size: "wf r \<Longrightarrow> 0 < nslots r \<and> nslots r dvd 2 ^ 32"
begin

abbreviation pass :: "'r \<Rightarrow> u32 \<Rightarrow> ('c \<Rightarrow> 'c) list \<Rightarrow> 'r" where
  "pass r \<equiv> update_run slot set_slot (nslots r) r"

lemma pass_wf: "wf r \<Longrightarrow> wf (update_run slot set_slot n r x fs)"
  by (induction fs arbitrary: r x) (auto simp: wf_set)

lemma pass_nslots: "nslots (update_run slot set_slot n r x fs) = nslots r"
  by (induction fs arbitrary: r x) (auto simp: nslots_set)

lemma pass_Cons:
  "pass r x (f # fs) = pass (set_slot r (unat x mod nslots r) (f (slot r (unat x mod nslots r)))) (x + 1) fs"
  by (simp add: nslots_set)

lemma run_append:
  "update_run slot set_slot n r x (fs @ gs) = update_run slot set_slot n (update_run slot set_slot n r x fs) (x + of_nat (length fs)) gs"
  by (induction fs arbitrary: r x) (auto simp: ac_simps)

lemma pass_append: "pass r x (fs @ gs) = pass (pass r x fs) (x + of_nat (length fs)) gs"
  by (simp add: run_append pass_nslots)

lemma pass_off:
  assumes "wf r" "\<And>j. j < length fs \<Longrightarrow> e \<noteq> slot_index (nslots r) x j"
  shows "slot (pass r x fs) e = slot r e"
  using assms
proof (induction fs arbitrary: r x)
  case (Cons f fs)
  have 0: "e \<noteq> unat x mod nslots r" using Cons.prems(2) [of 0] by simp
  have "e \<noteq> slot_index (nslots r) (x + 1) j" if "j < length fs" for j
    using Cons.prems(2) [of "Suc j"] that by (simp add: slot_index_Suc)
  then show ?case
    using Cons.IH [OF wf_set [OF Cons.prems(1)], of "unat x mod nslots r" "f (slot r (unat x mod nslots r))" "x + 1"]
      0 Cons.prems(1) wf_size [OF Cons.prems(1)]
    by (simp add: nslots_set slot_set)
qed simp

lemma pass_at:
  assumes "wf r" "length fs \<le> nslots r" "j < length fs"
  shows "slot (pass r x fs) (slot_index (nslots r) x j) = (fs ! j) (slot r (slot_index (nslots r) x j))"
  using assms
proof (induction fs arbitrary: r x j)
  case (Cons f fs)
  let ?n = "nslots r" let ?e = "unat x mod nslots r"
  let ?r = "set_slot r ?e (f (slot r ?e))"
  have n: "?n dvd 2 ^ 32" "0 < ?n" using wf_size [OF Cons.prems(1)] by auto
  have ne: "slot_index ?n x i \<noteq> ?e" if "0 < i" "i < ?n" for i
    using slot_index_inj [OF n(1) that(2), of 0 x] that n(2) by auto
  show ?case
  proof (cases j)
    case 0
    have "slot (pass ?r (x + 1) fs) ?e = slot ?r ?e"
    proof (rule pass_off)
      fix i assume "i < length fs"
      then show "?e \<noteq> slot_index (nslots ?r) (x + 1) i"
        using ne [of "Suc i"] Cons.prems(2) by (auto simp: nslots_set slot_index_Suc)
    qed (rule wf_set [OF Cons.prems(1)])
    then show ?thesis using 0 n Cons.prems(1) by (simp add: slot_set nslots_set)
  next
    case (Suc i)
    have i: "i < length fs" using Cons.prems(3) Suc by simp
    have "slot_index ?n (x + 1) i \<noteq> ?e"
      using ne [of j] Suc Cons.prems(2,3) by (simp add: slot_index_Suc)
    then show ?thesis
      using Cons.IH [OF wf_set [OF Cons.prems(1)], of ?e "f (slot r ?e)" i "x + 1"] Cons.prems i Suc n
      by (simp add: nslots_set slot_set slot_index_Suc)
  qed
qed simp

lemma pass_window:
  assumes "wf r" "length fs \<le> nslots r"
  shows "window (slot (pass r x fs)) (nslots r) x (length fs)
    = map2 (\<lambda>f c. f c) fs (window (slot r) (nslots r) x (length fs))"
  using assms by (intro nth_equalityI) (simp_all add: pass_at)

text \<open>Another run of the ring that does not meet the pass is as before.\<close>

lemma pass_window_off:
  assumes "wf r" "a + m \<le> nslots r" "length fs \<le> a"
  shows "window (slot (pass r x fs)) (nslots r) (x + of_nat a) m = window (slot r) (nslots r) (x + of_nat a) m"
proof (rule window_cong)
  fix j assume j: "j < m"
  show "slot (pass r x fs) (slot_index (nslots r) (x + of_nat a) j) = slot r (slot_index (nslots r) (x + of_nat a) j)"
    using assms j wf_size [OF assms(1)] by (intro pass_off) (auto simp: slot_index_add slot_index_inj_iff)
qed

lemma pass_window_before:
  assumes "wf r" "m + length fs \<le> nslots r"
  shows "window (slot (pass r (x + of_nat m) fs)) (nslots r) x m = window (slot r) (nslots r) x m"
proof (rule window_cong)
  fix j assume j: "j < m"
  show "slot (pass r (x + of_nat m) fs) (slot_index (nslots r) x j) = slot r (slot_index (nslots r) x j)"
    using assms j wf_size [OF assms(1)] by (intro pass_off) (auto simp: slot_index_add slot_index_inj_iff)
qed

text \<open>A quantity summed over all slots.\<close>

lemma sum_set_slot:
  fixes q :: "'c \<Rightarrow> 'm::comm_monoid_add"
  assumes "wf r" "i < nslots r"
  shows "(\<Sum>e<nslots r. q (slot (set_slot r i c) e)) + q (slot r i) = (\<Sum>e<nslots r. q (slot r e)) + q c"
proof -
  have s: "sum h {..<nslots r} = h i + sum h ({..<nslots r} - {i})" for h :: "nat \<Rightarrow> 'm"
    using assms(2) by (intro sum.remove) auto
  have "(\<Sum>e\<in>{..<nslots r} - {i}. q (slot (set_slot r i c) e)) = (\<Sum>e\<in>{..<nslots r} - {i}. q (slot r e))"
    using assms by (intro sum.cong) (auto simp: slot_set)
  then show ?thesis using s [of "\<lambda>e. q (slot (set_slot r i c) e)"] s [of "\<lambda>e. q (slot r e)"] assms
    by (simp add: slot_set ac_simps)
qed

lemma sum_pass:
  fixes q :: "'c \<Rightarrow> 'm::cancel_comm_monoid_add"
  assumes "wf r" "length fs \<le> nslots r"
  shows "(\<Sum>e<nslots r. q (slot (pass r x fs) e)) + sum_list (map q (window (slot r) (nslots r) x (length fs)))
    = (\<Sum>e<nslots r. q (slot r e)) + sum_list (map q (map2 (\<lambda>f c. f c) fs (window (slot r) (nslots r) x (length fs))))"
  using assms
proof (induction fs arbitrary: r x)
  case (Cons f fs)
  let ?n = "nslots r" let ?e = "unat x mod nslots r" let ?c = "f (slot r ?e)"
  let ?r = "set_slot r ?e ?c"
  have n: "0 < ?n" "?n dvd 2 ^ 32" using wf_size [OF Cons.prems(1)] by auto
  have w: "window (slot ?r) ?n (x + 1) (length fs) = window (slot r) ?n (x + 1) (length fs)"
    using pass_window_off [of r 1 "length fs" "[f]" x] Cons.prems by (simp add: add.commute)
  have e: "?e < ?n" using n by simp
  let ?W = "sum_list (map q (window (slot r) ?n (x + 1) (length fs)))"
  let ?W' = "sum_list (map q (map2 (\<lambda>f c. f c) fs (window (slot r) ?n (x + 1) (length fs))))"
  have ih: "(\<Sum>e<?n. q (slot (pass ?r (x + 1) fs) e)) + ?W = (\<Sum>e<?n. q (slot ?r e)) + ?W'"
    using Cons.IH [OF wf_set [OF Cons.prems(1)], of ?e ?c "x + 1"] Cons.prems by (simp add: nslots_set w)
  have st: "(\<Sum>e<?n. q (slot ?r e)) + q (slot r ?e) = (\<Sum>e<?n. q (slot r e)) + q ?c"
    by (rule sum_set_slot [OF Cons.prems(1) e])
  have "(\<Sum>e<?n. q (slot (pass r x (f # fs)) e)) + (q (slot r ?e) + ?W) = (\<Sum>e<?n. q (slot ?r e)) + ?W' + q (slot r ?e)"
    using ih by (simp add: nslots_set ac_simps)
  also have "\<dots> = ((\<Sum>e<?n. q (slot ?r e)) + q (slot r ?e)) + ?W'" by (simp only: ac_simps)
  also have "\<dots> = (\<Sum>e<?n. q (slot r e)) + (q ?c + ?W')" unfolding st by (simp only: ac_simps)
  finally show ?case by (simp add: window_Suc)
qed simp

end

end
