(* ===== verification/TxRing.thy ===== *)
theory TxRing
  imports HwCtl RingStore
begin

text \<open>
  The transmit ring of the r8125 driver (\<open>r8125_n.c\<close>): queueing a packet (\<open>rtl8125_start_xmit\<close>
  with its offload and padding decisions and its fragments), reclaiming descriptors the controller
  is done with (\<open>rtl8125_tx_interrupt\<close> in both modes) and clearing the ring.  The ring is the record
  \<open>tx_ring\<close> with the free-running 32-bit counters, the descriptor array and the bookkeeping array of
  the source.  The kernel's part (DMA mapping, buffer padding, checksum help, byte queue limits) is
  the record \<open>'k kernel\<close>; what the driver asks of it is logged in order, so that leaks and double
  releases can be counted.

  The build options of the repository's \<open>Makefile\<close> are taken: transmit without closing descriptors
  is compiled in, several transmit queues, PTP and DASH are not.
\<close>

section \<open>Descriptors, buffers, the kernel\<close>

definition DescOwn :: u32 where "DescOwn = 0x80000000"
definition RingEnd :: u32 where "RingEnd = 0x40000000"
definition FirstFrag :: u32 where "FirstFrag = 0x20000000"
definition LastFrag :: u32 where "LastFrag = 0x10000000"
definition GiantSendv4 :: u32 where "GiantSendv4 = 0x04000000"
definition GiantSendv6 :: u32 where "GiantSendv6 = 0x02000000"
definition TxVlanTag :: u32 where "TxVlanTag = 0x00020000"
definition RTK_MAGIC_DEBUG_VALUE :: u32 where "RTK_MAGIC_DEBUG_VALUE = 0x0badbeef"
definition RTL8125_MAGIC_NUMBER :: u64 where "RTL8125_MAGIC_NUMBER = 0x0badbadbadbadbad"
definition GTTCPHO_SHIFT :: nat where "GTTCPHO_SHIFT = 18"
definition GTTCPHO_MAX :: u32 where "GTTCPHO_MAX = 0x70"
definition TCPHO_SHIFT :: nat where "TCPHO_SHIFT = 18"
definition TCPHO_MAX :: int where "TCPHO_MAX = 0x3ff"
definition MSS_MAX :: u32 where "MSS_MAX = 0x7ff"
definition MIN_PATCH_LEN :: u32 where "MIN_PATCH_LEN = 47"
definition TPPOLL_8125 :: nat where "TPPOLL_8125 = 0x90"

abbreviation (input) ETH_ZLEN :: u32 where "ETH_ZLEN \<equiv> 60"
abbreviation (input) ETH_FRAME_LEN :: u64 where "ETH_FRAME_LEN \<equiv> 1514"
abbreviation (input) ETH_P_IP :: u16 where "ETH_P_IP \<equiv> 0x0800"
abbreviation (input) ETH_P_IPV6 :: u16 where "ETH_P_IPV6 \<equiv> 0x86DD"
abbreviation (input) IPPROTO_TCP :: u8 where "IPPROTO_TCP \<equiv> 6"
abbreviation (input) IPPROTO_UDP :: u8 where "IPPROTO_UDP \<equiv> 17"
abbreviation (input) IPPROTO_RAW :: u8 where "IPPROTO_RAW \<equiv> 255"

record TxDesc =
  td_opts1 :: u32
  td_opts2 :: u32
  td_addr :: u64

record ring_info =
  ri_skb :: "nat option"
  ri_len :: u32
  ri_bytecount :: u32
  ri_gso_segs :: u16

record tx_ring =
  tx_index :: nat
  cur_tx :: u32
  dirty_tx :: u32
  num_tx_desc :: u32
  TxDescArray :: "TxDesc list"
  tx_skb :: "ring_info list"
  NextHwDesCloPtr :: u32
  BeginHwDesCloPtr :: u32
  hw_clo_ptr_reg :: nat
  sw_tail_ptr_reg :: nat

text \<open>
  What the driver reads of a packet.  \<open>skb_id\<close> is the buffer's identity; \<open>skb_proto\<close> is the protocol
  behind any VLAN tag in host order; \<open>skb_transport\<close> is the offset of the transport header, \<open>l4_dest\<close>
  the two bytes at offset 2 of it in host order, \<open>ip_proto\<close> the protocol or next-header field of the
  network header, which \<open>skb_header_pointer\<close> finds if \<open>net_hdr_ok\<close>.
\<close>

record sk_buff =
  skb_id :: nat
  skb_len :: u32
  skb_headlen :: u32
  skb_data :: u64
  skb_frags :: "(u64 \<times> u32) list"
  skb_proto :: u16
  net_hdr_ok :: bool
  ip_proto :: u8
  transport_set :: bool
  skb_transport :: int
  l4_dest :: u16
  tcp_doff :: u32
  tcp_check :: u16
  gso_size :: u32
  gso_segs :: u16
  csum_partial :: bool
  vlan_tag :: "u16 option"

text \<open>
  The kernel: a DMA mapping may fail; padding may run out of memory, and then the kernel has freed
  the buffer; \<open>skb_cow_head\<close> may fail, or move the head of the buffer; \<open>stack_xoff\<close> is the byte queue limit's stop and \<open>xmit_more\<close>
  says another packet follows at once.
\<close>

record 'k kernel =
  MAX_SKB_FRAGS :: nat
  k_dma_map :: "'k \<Rightarrow> u64 \<Rightarrow> u32 \<Rightarrow> u64 option \<times> 'k"
  k_padto :: "'k \<Rightarrow> sk_buff \<Rightarrow> u32 \<Rightarrow> sk_buff option \<times> 'k"
  k_eth_pad :: "'k \<Rightarrow> sk_buff \<Rightarrow> sk_buff option \<times> 'k"
  k_cow_head :: "'k \<Rightarrow> sk_buff \<Rightarrow> sk_buff option \<times> 'k"
  k_tcp_v6_check :: "sk_buff \<Rightarrow> u16"
  k_checksum_help :: "'k \<Rightarrow> sk_buff \<Rightarrow> sk_buff \<times> 'k"
  k_stack_xoff :: "'k \<Rightarrow> bool"
  k_xmit_more :: "'k \<Rightarrow> bool"
  k_tx_sent :: "'k \<Rightarrow> u32 \<Rightarrow> 'k"
  k_tx_completed :: "'k \<Rightarrow> u32 \<Rightarrow> u32 \<Rightarrow> 'k"
  k_tx_reset :: "'k \<Rightarrow> 'k"

text \<open>
  The log: a mapping with the address it maps, the bus address it got and its length; \<open>SkbFree\<close> and
  \<open>SkbConsume\<close> are the driver's releases of a packet, \<open>SkbPadFree\<close> is the kernel's in a padding that failed.
\<close>

datatype net_event =
    DmaMap u64 u64 u32 | DmaUnmap u64 u32
  | SkbFree nat | SkbConsume nat | SkbPadFree nat
  | BqlSent u32 | BqlCompleted u32 u32 | BqlReset

text \<open>The fields of \<open>struct rtl8125_private\<close> and of the net device that transmission only reads, and the
  build option for VLAN tags.\<close>

record tx_cfg =
  CONFIG_R8125_VLAN :: bool
  EnableTxNoClose :: bool
  HwSuppTxNoCloseVer :: u8
  MaxTxDescPtrMask :: u32
  RequireLSOPatch :: bool
  UseSwPaddingShortPkt :: bool
  ShortPacketSwChecksum :: bool
  tx_tcp_csum_cmd :: u32
  tx_udp_csum_cmd :: u32
  tx_ip_csum_cmd :: u32
  tx_ipv6_csum_cmd :: u32
  feature_tso :: bool
  feature_ip_csum :: bool
  feature_ipv6_csum :: bool

record ('d, 'k) txq =
  priv :: "'d nic"
  kern :: 'k
  net_log :: "net_event list"
  carrier :: bool
  tx_dropped :: u64
  tx_bytes :: u64
  tx_packets :: u64
  q_stopped :: bool
  ring :: tx_ring

datatype netdev_tx = NETDEV_TX_OK | NETDEV_TX_BUSY

definition on_nic :: "('d, 'a) drv \<Rightarrow> (('d, 'k) txq, 'a) state" where
  "on_nic m = State (\<lambda>s. let (x, p) = run_state m (priv s) in (x, s\<lparr>priv := p\<rparr>))"

definition net_ev :: "net_event \<Rightarrow> (('d, 'k) txq, unit) state" where
  "net_ev e = modify (\<lambda>s. s\<lparr>net_log := net_log s @ [e]\<rparr>)"

definition upd_ring :: "(tx_ring \<Rightarrow> tx_ring) \<Rightarrow> (('d, 'k) txq, unit) state" where
  "upd_ring f = modify (\<lambda>s. s\<lparr>ring := f (ring s)\<rparr>)"

definition dma_map_single :: "'k kernel \<Rightarrow> u64 \<Rightarrow> u32 \<Rightarrow> (('d, 'k) txq, u64 option) state" where
  "dma_map_single K a l = State (\<lambda>s. case k_dma_map K (kern s) a l of
       (None, k) \<Rightarrow> (None, s\<lparr>kern := k\<rparr>)
     | (Some m, k) \<Rightarrow> (Some m, s\<lparr>kern := k, net_log := net_log s @ [DmaMap a m l]\<rparr>))"

definition netif_stop_subqueue :: "(('d, 'k) txq, unit) state" where
  "netif_stop_subqueue = modify (\<lambda>s. s\<lparr>q_stopped := True\<rparr>)"

definition netif_start_subqueue :: "(('d, 'k) txq, unit) state" where
  "netif_start_subqueue = modify (\<lambda>s. s\<lparr>q_stopped := False\<rparr>)"

section \<open>Clearing\<close>

text \<open>\<open>rtl8125_unmap_tx_skb\<close> on one entry of the ring.\<close>

definition rtl8125_unmap_tx_skb :: "nat \<Rightarrow> (('d, 'k) txq, unit) state" where
  "rtl8125_unmap_tx_skb entry = do {
     r \<leftarrow> gets ring;
     let desc = TxDescArray r ! entry;
     let info = tx_skb r ! entry;
     net_ev (DmaUnmap (td_addr desc) (ri_len info));
     upd_ring (\<lambda>r. r\<lparr>
       TxDescArray := (TxDescArray r)[entry := \<lparr>td_opts1 = RTK_MAGIC_DEBUG_VALUE, td_opts2 = 0, td_addr = RTL8125_MAGIC_NUMBER\<rparr>],
       tx_skb := (tx_skb r)[entry := info\<lparr>ri_len := 0\<rparr>]\<rparr>)
   }"

definition clear_skb :: "nat \<Rightarrow> (('d, 'k) txq, unit) state" where
  "clear_skb entry = upd_ring (\<lambda>r. r\<lparr>tx_skb := (tx_skb r)[entry := (tx_skb r ! entry)\<lparr>ri_skb := None\<rparr>]\<rparr>)"

definition tx_clear_entry :: "nat \<Rightarrow> (('d, 'k) txq, unit) state" where
  "tx_clear_entry entry = do {
     r \<leftarrow> gets ring;
     let info = tx_skb r ! entry;
     if ri_len info \<noteq> 0 then do {
       rtl8125_unmap_tx_skb entry;
       case ri_skb info of
         None \<Rightarrow> State_Monad.return ()
       | Some k \<Rightarrow> do {
           modify (\<lambda>s. s\<lparr>tx_dropped := tx_dropped s + 1\<rparr>);
           net_ev (SkbFree k);
           clear_skb entry
         }
     } else State_Monad.return ()
   }"

fun rtl8125_tx_clear_range :: "u32 \<Rightarrow> nat \<Rightarrow> (('d, 'k) txq, unit) state" where
  "rtl8125_tx_clear_range start n =
     (if n = 0 then State_Monad.return ()
      else do {
        r \<leftarrow> gets ring;
        tx_clear_entry (unat (start mod num_tx_desc r));
        rtl8125_tx_clear_range (start + 1) (n - 1)
      })"

declare rtl8125_tx_clear_range.simps [simp del]

definition tx_clear_ring :: "(('d, 'k) txq, unit) state" where
  "tx_clear_ring = do {
     r \<leftarrow> gets ring;
     rtl8125_tx_clear_range (dirty_tx r) (unat (num_tx_desc r));
     upd_ring (\<lambda>r. r\<lparr>cur_tx := 0, dirty_tx := 0\<rparr>)
   }"

section \<open>Fragments\<close>

definition rtl8125_get_txd_opts1 :: "tx_ring \<Rightarrow> u32 \<Rightarrow> u32 \<Rightarrow> u32 \<Rightarrow> u32" where
  "rtl8125_get_txd_opts1 r opts len entry =
     (let status = opts OR len in if entry = num_tx_desc r - 1 then status OR RingEnd else status)"

definition put_txd :: "u32 \<Rightarrow> u32 \<Rightarrow> u32 \<Rightarrow> u64 \<Rightarrow> u32 \<Rightarrow> (('d, 'k) txq, unit) state" where
  "put_txd entry status o2 mapping len = upd_ring (\<lambda>r. r\<lparr>
     TxDescArray := (TxDescArray r)[unat entry := \<lparr>td_opts1 = status, td_opts2 = o2, td_addr = mapping\<rparr>],
     tx_skb := (tx_skb r)[unat entry := (tx_skb r ! unat entry)\<lparr>ri_len := len\<rparr>]\<rparr>)"

text \<open>
  The loop of \<open>rtl8125_xmit_frags\<close> from fragment \<open>cur_frag\<close> on, with the entry used last and the
  bytes so far.  On the affected chips the last fragment of a short large-send packet is cut into
  two descriptors, the second of one byte.
\<close>

definition lso_patch :: "tx_cfg \<Rightarrow> u32 \<times> u32 \<Rightarrow> nat \<Rightarrow> nat \<Rightarrow> u64 \<Rightarrow> u32 \<Rightarrow> bool" where
  "lso_patch cfg opts nr_frags cur_frag PktLenCnt len \<longleftrightarrow>
     RequireLSOPatch cfg \<and> cur_frag = nr_frags - 1 \<and> fst opts AND (GiantSendv4 OR GiantSendv6) \<noteq> 0
     \<and> PktLenCnt < ETH_FRAME_LEN \<and> 1 < len"

definition xmit_frags_err :: "nat \<Rightarrow> (('d, 'k) txq, int) state" where
  "xmit_frags_err cur_frag = do {
     r \<leftarrow> gets ring;
     rtl8125_tx_clear_range (cur_tx r + 1) cur_frag;
     State_Monad.return (- 5)
   }"

function xmit_frags_loop :: "'k kernel \<Rightarrow> tx_cfg \<Rightarrow> (u64 \<times> u32) list \<Rightarrow> u32 \<times> u32 \<Rightarrow> nat \<Rightarrow> u32 \<Rightarrow> u64 \<Rightarrow> (('d, 'k) txq, int) state" where
  "xmit_frags_loop K cfg frags opts cur_frag entry PktLenCnt =
     (if length frags \<le> cur_frag then State_Monad.return (int cur_frag)
      else do {
        r \<leftarrow> gets ring;
        let (addr, len) = frags ! cur_frag;
        let entry = (entry + 1) mod num_tx_desc r;
        if lso_patch cfg opts (length frags) cur_frag PktLenCnt len then do {
          let len1 = len - 1;
          m1 \<leftarrow> dma_map_single K addr len1;
          case m1 of None \<Rightarrow> xmit_frags_err cur_frag
          | Some mapping1 \<Rightarrow> do {
              put_txd entry (rtl8125_get_txd_opts1 r (fst opts) len1 entry) (snd opts) mapping1 len1;
              let entry = (entry + 1) mod num_tx_desc r;
              m2 \<leftarrow> dma_map_single K (addr + ucast len1) 1;
              case m2 of None \<Rightarrow> xmit_frags_err (cur_frag + 1)
              | Some mapping2 \<Rightarrow> do {
                  put_txd entry (rtl8125_get_txd_opts1 r (fst opts) 1 entry OR LastFrag) (snd opts) mapping2 1;
                  xmit_frags_loop K cfg frags opts (cur_frag + 2) entry (PktLenCnt + 1)
                }
            }
        } else do {
          m \<leftarrow> dma_map_single K addr len;
          case m of None \<Rightarrow> xmit_frags_err cur_frag
          | Some mapping \<Rightarrow> do {
              let status = rtl8125_get_txd_opts1 r (fst opts) len entry;
              let status = (if cur_frag = length frags - 1 then status OR LastFrag else status);
              put_txd entry status (snd opts) mapping len;
              xmit_frags_loop K cfg frags opts (cur_frag + 1) entry (PktLenCnt + ucast len)
            }
        }
      })"
  by pat_completeness auto

termination by (relation "measure (\<lambda>(K, cfg, frags, opts, cur_frag, entry, cnt). length frags - cur_frag)") auto

declare xmit_frags_loop.simps [simp del]

definition rtl8125_xmit_frags :: "'k kernel \<Rightarrow> tx_cfg \<Rightarrow> sk_buff \<Rightarrow> u32 \<times> u32 \<Rightarrow> (('d, 'k) txq, int) state" where
  "rtl8125_xmit_frags K cfg skb opts = do {
     r \<leftarrow> gets ring;
     xmit_frags_loop K cfg (skb_frags skb) opts 0 (cur_tx r) 0
   }"

section \<open>Offloads and padding\<close>

definition rtl8125_tx_vlan_tag :: "tx_cfg \<Rightarrow> sk_buff \<Rightarrow> u32" where
  "rtl8125_tx_vlan_tag cfg skb = (if \<not> CONFIG_R8125_VLAN cfg then 0 else case vlan_tag skb of None \<Rightarrow> 0
     | Some t \<Rightarrow> TxVlanTag OR ucast ((push_bit 8 t OR drop_bit 8 t) :: u16))"

definition rtl8125_get_l4_protocol :: "sk_buff \<Rightarrow> u8" where
  "rtl8125_get_l4_protocol skb =
     (if skb_proto skb = ETH_P_IP then (if net_hdr_ok skb then ip_proto skb else IPPROTO_RAW)
      else if skb_proto skb = ETH_P_IPV6 then (if net_hdr_ok skb then ip_proto skb else IPPROTO_RAW)
      else IPPROTO_RAW)"

text \<open>A padding that fails has freed the buffer: the event is the kernel's.\<close>

definition pad_result :: "nat \<Rightarrow> sk_buff option \<times> 'k \<Rightarrow> ('d, 'k) txq \<Rightarrow> sk_buff option \<times> ('d, 'k) txq" where
  "pad_result i p s = (case p of
       (None, k) \<Rightarrow> (None, s\<lparr>kern := k, net_log := net_log s @ [SkbPadFree i]\<rparr>)
     | (Some b, k) \<Rightarrow> (Some b, s\<lparr>kern := k\<rparr>))"

definition skb_put :: "sk_buff \<Rightarrow> u32 \<Rightarrow> sk_buff" where
  "skb_put skb n = skb\<lparr>skb_len := skb_len skb + n, skb_headlen := skb_headlen skb + n\<rparr>"

definition rtl8125_skb_pad_with_len :: "'k kernel \<Rightarrow> sk_buff \<Rightarrow> u32 \<Rightarrow> (('d, 'k) txq, sk_buff option) state" where
  "rtl8125_skb_pad_with_len K skb len = do {
     p \<leftarrow> State (\<lambda>s. pad_result (skb_id skb) (k_padto K (kern s) skb len) s);
     State_Monad.return (map_option (\<lambda>b. skb_put b (len - skb_len b)) p)
   }"

definition rtl8125_skb_pad :: "'k kernel \<Rightarrow> sk_buff \<Rightarrow> (('d, 'k) txq, sk_buff option) state" where
  "rtl8125_skb_pad K skb = State (\<lambda>s. pad_result (skb_id skb) (k_eth_pad K (kern s) skb) s)"

definition msdn_giant_send_check :: "'k kernel \<Rightarrow> sk_buff \<Rightarrow> (('d, 'k) txq, sk_buff option) state" where
  "msdn_giant_send_check K skb = State (\<lambda>s. case k_cow_head K (kern s) skb of
       (None, k) \<Rightarrow> (None, s\<lparr>kern := k\<rparr>)
     | (Some skb, k) \<Rightarrow> (Some (skb\<lparr>tcp_check := NOT (k_tcp_v6_check K skb)\<rparr>), s\<lparr>kern := k\<rparr>))"

definition rtl8125_require_pad_ptp_pkt :: "'d nic \<Rightarrow> bool" where
  "rtl8125_require_pad_ptp_pkt p \<longleftrightarrow> 2 \<le> mcfg p \<and> mcfg p \<le> 7"

definition rtl8125_get_patch_pad_len :: "'d nic \<Rightarrow> sk_buff \<Rightarrow> u32" where
  "rtl8125_get_patch_pad_len p skb =
     (let pkt_len = skb_len skb;
          out = (\<lambda>pad_len. if pkt_len + pad_len < ETH_ZLEN then ETH_ZLEN - pkt_len else pad_len)
      in if \<not> rtl8125_require_pad_ptp_pkt p then 0
         else if \<not> (transport_set skb \<and> pkt_len < 175) then 0
         else
           let ip_protocol = rtl8125_get_l4_protocol skb in
           if \<not> (ip_protocol = IPPROTO_TCP \<or> ip_protocol = IPPROTO_UDP) then 0
           else
             let trans_data_len = pkt_len - word_of_int (skb_transport skb) in
             if ip_protocol = IPPROTO_UDP \<and> 3 < sint trans_data_len \<and> sint trans_data_len < uint MIN_PATCH_LEN
                \<and> (l4_dest skb = 0x13f \<or> l4_dest skb = 0x140)
             then out (MIN_PATCH_LEN - trans_data_len)
             else
               let hdr_len = (if ip_protocol = IPPROTO_TCP then 20 else if ip_protocol = IPPROTO_UDP then 8 else 0) in
               out (if trans_data_len < hdr_len then hdr_len - trans_data_len else 0))"

text \<open>
  The large-send branch of \<open>rtl8125_tso_csum\<close>, and the checksum branch: the command bits, whether the
  checksum has to be computed in software, and whether the padding patch applies.
\<close>

definition giant_send :: "u32 \<Rightarrow> sk_buff \<Rightarrow> u32 \<times> u32 \<Rightarrow> (u32 \<times> u32) option" where
  "giant_send flag skb opts =
     (let l4_offset = word_of_int (skb_transport skb) in
      if l4_offset \<le> GTTCPHO_MAX
      then Some (fst opts OR flag OR push_bit GTTCPHO_SHIFT l4_offset, snd opts OR push_bit 18 (min (gso_size skb) MSS_MAX))
      else None)"

type_synonym tso_result = "(sk_buff \<times> (u32 \<times> u32) \<times> u32 \<times> u16) option"

definition tso_finish :: "sk_buff \<Rightarrow> u32 \<Rightarrow> (u32 \<times> u32) option \<Rightarrow> tso_result" where
  "tso_finish skb bytecount o1 = (case o1 of None \<Rightarrow> None
     | Some opts \<Rightarrow>
         let hdr_len = tcp_doff skb * 4 + word_of_int (skb_transport skb) in
         Some (skb, opts, bytecount + (ucast (gso_segs skb) - 1) * hdr_len, gso_segs skb))"

definition tso_branch :: "'k kernel \<Rightarrow> sk_buff \<Rightarrow> u32 \<times> u32 \<Rightarrow> u32 \<Rightarrow> (('d, 'k) txq, tso_result) state" where
  "tso_branch K skb opts bytecount =
     (if skb_proto skb = ETH_P_IP then State_Monad.return (tso_finish skb bytecount (giant_send GiantSendv4 skb opts))
      else if skb_proto skb = ETH_P_IPV6 then do {
        m \<leftarrow> msdn_giant_send_check K skb;
        case m of None \<Rightarrow> State_Monad.return None
        | Some skb \<Rightarrow> State_Monad.return (tso_finish skb bytecount (giant_send GiantSendv6 skb opts))
      } else State_Monad.return None)"

definition csum_command :: "tx_cfg \<Rightarrow> sk_buff \<Rightarrow> u8 \<times> u32" where
  "csum_command cfg skb =
     (let (ip_protocol, cmd) =
        (if skb_proto skb = ETH_P_IP then
           (if feature_ip_csum cfg then (ip_proto skb, tx_ip_csum_cmd cfg) else (IPPROTO_RAW, 0))
         else if skb_proto skb = ETH_P_IPV6 then
           (if feature_ipv6_csum cfg \<and> 0 < skb_transport skb \<and> skb_transport skb \<le> TCPHO_MAX
            then (ip_proto skb, tx_ipv6_csum_cmd cfg OR push_bit TCPHO_SHIFT (word_of_int (skb_transport skb)))
            else (IPPROTO_RAW, 0))
         else (IPPROTO_RAW, 0))
      in (ip_protocol,
          if ip_protocol = IPPROTO_TCP then cmd OR tx_tcp_csum_cmd cfg
          else if ip_protocol = IPPROTO_UDP then cmd OR tx_udp_csum_cmd cfg else cmd))"

text \<open>The tail of \<open>rtl8125_tso_csum\<close>: the two paddings, then the checksum in software or in the descriptor.\<close>

definition patch_pad :: "'k kernel \<Rightarrow> bool \<Rightarrow> u32 \<Rightarrow> sk_buff \<Rightarrow> (('d, 'k) txq, (sk_buff \<times> bool) option) state" where
  "patch_pad K check_patch_required csum_cmd skb = do {
     p \<leftarrow> gets priv;
     let pad_len = rtl8125_get_patch_pad_len p skb;
     if check_patch_required \<and> 0 < pad_len then do {
       b \<leftarrow> rtl8125_skb_pad_with_len K skb (skb_len skb + pad_len);
       State_Monad.return (map_option (\<lambda>b. (b, csum_cmd \<noteq> 0)) b)
     } else State_Monad.return (Some (skb, False))
   }"

definition short_pad :: "'k kernel \<Rightarrow> tx_cfg \<Rightarrow> u32 \<Rightarrow> sk_buff \<Rightarrow> (('d, 'k) txq, (sk_buff \<times> bool) option) state" where
  "short_pad K cfg csum_cmd skb =
     (if skb_len skb < ETH_ZLEN \<and> (UseSwPaddingShortPkt cfg \<or> (ShortPacketSwChecksum cfg \<and> csum_cmd \<noteq> 0)) then do {
        b \<leftarrow> rtl8125_skb_pad K skb;
        State_Monad.return (map_option (\<lambda>b. (b, csum_cmd \<noteq> 0)) b)
      } else State_Monad.return (Some (skb, False)))"

definition csum_finish :: "'k kernel \<Rightarrow> bool \<Rightarrow> u32 \<Rightarrow> sk_buff \<Rightarrow> u32 \<times> u32 \<Rightarrow> u32 \<Rightarrow> (('d, 'k) txq, tso_result) state" where
  "csum_finish K sw_calc_csum csum_cmd skb opts bytecount =
     (if sw_calc_csum then State (\<lambda>s. let (b, k) = k_checksum_help K (kern s) skb in (Some (b, opts, bytecount, 1), s\<lparr>kern := k\<rparr>))
      else State_Monad.return (Some (skb, (fst opts, snd opts OR csum_cmd), bytecount, 1)))"

definition rtl8125_tso_csum :: "'k kernel \<Rightarrow> tx_cfg \<Rightarrow> sk_buff \<Rightarrow> u32 \<times> u32 \<Rightarrow> u32 \<Rightarrow> (('d, 'k) txq, tso_result) state" where
  "rtl8125_tso_csum K cfg skb opts bytecount =
     (if feature_tso cfg \<and> gso_size skb \<noteq> 0 then tso_branch K skb opts bytecount
      else do {
        let (ip_protocol, csum_cmd) = (if csum_partial skb then csum_command cfg skb else (IPPROTO_RAW, 0));
        let sw1 = (csum_partial skb \<and> csum_cmd = 0);
        let check_patch_required = \<not> (csum_partial skb \<and> ip_protocol = IPPROTO_TCP);
        p1 \<leftarrow> patch_pad K check_patch_required csum_cmd skb;
        case p1 of None \<Rightarrow> State_Monad.return None
        | Some (skb, sw2) \<Rightarrow> do {
            p2 \<leftarrow> short_pad K cfg csum_cmd skb;
            case p2 of None \<Rightarrow> State_Monad.return None
            | Some (skb, sw3) \<Rightarrow> csum_finish K (sw1 \<or> sw2 \<or> sw3) csum_cmd skb opts bytecount
          }
      })"

section \<open>Queueing a packet\<close>

definition rtl8125_tx_slots_avail :: "'k kernel \<Rightarrow> tx_ring \<Rightarrow> bool" where
  "rtl8125_tx_slots_avail K r \<longleftrightarrow> MAX_SKB_FRAGS K < unat (dirty_tx r + num_tx_desc r - cur_tx r)"

definition rtl8125_fast_mod_mask :: "u32 \<Rightarrow> u32 \<Rightarrow> u32" where
  "rtl8125_fast_mod_mask input msk = (if msk < input then input AND msk else input)"

definition rtl8125_doorbell :: "'d mmio \<Rightarrow> tx_cfg \<Rightarrow> (('d, 'k) txq, unit) state" where
  "rtl8125_doorbell io cfg = do {
     r \<leftarrow> gets ring;
     if EnableTxNoClose cfg then
       (if 3 < HwSuppTxNoCloseVer cfg then on_nic (RTL_W32 io (sw_tail_ptr_reg r) (cur_tx r))
        else on_nic (RTL_W16 io (sw_tail_ptr_reg r) (ucast (cur_tx r))))
     else on_nic (RTL_W16 io TPPOLL_8125 (push_bit (tx_index r) 1))
   }"

definition err_stop :: "(('d, 'k) txq, netdev_tx) state" where
  "err_stop = do {
     netif_stop_subqueue;
     modify (\<lambda>s. s\<lparr>tx_dropped := tx_dropped s + 1\<rparr>);
     State_Monad.return NETDEV_TX_BUSY
   }"

definition err_dma_0 :: "sk_buff \<Rightarrow> (('d, 'k) txq, netdev_tx) state" where
  "err_dma_0 skb = do {
     modify (\<lambda>s. s\<lparr>tx_dropped := tx_dropped s + 1\<rparr>);
     net_ev (SkbFree (skb_id skb));
     State_Monad.return NETDEV_TX_OK
   }"

text \<open>The tail of \<open>rtl8125_start_xmit\<close>, from the bookkeeping of the first descriptor on.\<close>

definition xmit_commit :: "'k kernel \<Rightarrow> tx_cfg \<Rightarrow> 'd mmio \<Rightarrow> sk_buff \<Rightarrow> nat \<Rightarrow> u32 \<Rightarrow> u32 \<times> u32 \<Rightarrow> u64 \<Rightarrow> u32 \<Rightarrow> u32 \<Rightarrow> u16
    \<Rightarrow> (('d, 'k) txq, netdev_tx) state" where
  "xmit_commit K cfg io skb frags entry opts mapping len bytecount segs = do {
     upd_ring (\<lambda>r. r\<lparr>tx_skb := (tx_skb r)[unat entry := (tx_skb r ! unat entry)\<lparr>ri_len := len\<rparr>]\<rparr>);
     upd_ring (\<lambda>r. let last_entry = unat ((entry + of_nat frags) mod num_tx_desc r) in
       r\<lparr>tx_skb := (tx_skb r)[last_entry := (tx_skb r ! last_entry)\<lparr>ri_skb := Some (skb_id skb), ri_gso_segs := segs, ri_bytecount := bytecount\<rparr>]\<rparr>);
     upd_ring (\<lambda>r. r\<lparr>TxDescArray := (TxDescArray r)[unat entry := \<lparr>td_opts1 = fst opts, td_opts2 = snd opts, td_addr = mapping\<rparr>]\<rparr>);
     modify (\<lambda>s. s\<lparr>kern := k_tx_sent K (kern s) bytecount\<rparr>);
     net_ev (BqlSent bytecount);
     upd_ring (\<lambda>r. r\<lparr>cur_tx := cur_tx r + of_nat frags + 1\<rparr>);
     r \<leftarrow> gets ring;
     let stop_queue = \<not> rtl8125_tx_slots_avail K r;
     (if stop_queue then netif_stop_subqueue else State_Monad.return ());
     s \<leftarrow> gets (\<lambda>s. s);
     (if q_stopped s \<or> k_stack_xoff K (kern s) \<or> \<not> k_xmit_more K (kern s) then rtl8125_doorbell io cfg else State_Monad.return ());
     r \<leftarrow> gets ring;
     (if stop_queue \<and> rtl8125_tx_slots_avail K r then netif_start_subqueue else State_Monad.return ());
     State_Monad.return NETDEV_TX_OK
   }"

definition xmit_body :: "'k kernel \<Rightarrow> tx_cfg \<Rightarrow> 'd mmio \<Rightarrow> sk_buff \<Rightarrow> u32 \<times> u32 \<Rightarrow> u32 \<Rightarrow> u16 \<Rightarrow> u32 \<Rightarrow> (('d, 'k) txq, netdev_tx) state" where
  "xmit_body K cfg io skb opts bytecount segs entry = do {
     frags \<leftarrow> rtl8125_xmit_frags K cfg skb opts;
     if frags < 0 then err_dma_0 skb
     else do {
       r \<leftarrow> gets ring;
       let (len, o1) = (if frags \<noteq> 0 then (skb_headlen skb, fst opts OR FirstFrag) else (skb_len skb, fst opts OR (FirstFrag OR LastFrag)));
       let o1 = rtl8125_get_txd_opts1 r o1 len entry;
       m \<leftarrow> dma_map_single K (skb_data skb) len;
       case m of
         None \<Rightarrow> do {
           rtl8125_tx_clear_range (cur_tx r + 1) (nat frags);
           err_dma_0 skb
         }
       | Some mapping \<Rightarrow> xmit_commit K cfg io skb (nat frags) entry (o1, snd opts) mapping len bytecount segs
     }
   }"

definition rtl8125_start_xmit :: "'k kernel \<Rightarrow> tx_cfg \<Rightarrow> 'd mmio \<Rightarrow> sk_buff \<Rightarrow> (('d, 'k) txq, netdev_tx) state" where
  "rtl8125_start_xmit K cfg io skb = do {
     r \<leftarrow> gets ring;
     if \<not> rtl8125_tx_slots_avail K r then err_stop
     else do {
       let entry = cur_tx r mod num_tx_desc r;
       if \<not> EnableTxNoClose cfg \<and> td_opts1 (TxDescArray r ! unat entry) AND DescOwn \<noteq> 0 then err_stop
       else do {
         t \<leftarrow> rtl8125_tso_csum K cfg skb (DescOwn, rtl8125_tx_vlan_tag cfg skb) (skb_len skb);
         case t of
           None \<Rightarrow> err_dma_0 skb
         | Some (skb, opts, bytecount, segs) \<Rightarrow> xmit_body K cfg io skb opts bytecount segs entry
       }
     }
   }"

section \<open>Reclaiming descriptors\<close>

definition rtl8125_get_hw_clo_ptr :: "'d mmio \<Rightarrow> tx_cfg \<Rightarrow> nat \<Rightarrow> ('d, u32) drv" where
  "rtl8125_get_hw_clo_ptr io cfg reg =
     (if HwSuppTxNoCloseVer cfg = 3 then do { v \<leftarrow> RTL_R16 io reg; State_Monad.return (ucast v) }
      else if HwSuppTxNoCloseVer cfg \<in> {4, 5, 6} then RTL_R32 io reg
      else State_Monad.return 0)"

text \<open>One turn of the reclaim loops: the entry is unmapped and its packet, if it ends here, consumed.\<close>

definition reclaim_entry :: "nat \<Rightarrow> u32 \<times> u32 \<Rightarrow> (('d, 'k) txq, u32 \<times> u32) state" where
  "reclaim_entry entry tot = do {
     rtl8125_unmap_tx_skb entry;
     r \<leftarrow> gets ring;
     let info = tx_skb r ! entry;
     case ri_skb info of
       None \<Rightarrow> State_Monad.return tot
     | Some k \<Rightarrow> do {
         net_ev (SkbConsume k);
         clear_skb entry;
         State_Monad.return (fst tot + ri_bytecount info, snd tot + ucast (ri_gso_segs info))
       }
   }"

fun noclose_loop :: "u32 \<Rightarrow> nat \<Rightarrow> u32 \<times> u32 \<Rightarrow> (('d, 'k) txq, u32 \<times> u32 \<times> u32) state" where
  "noclose_loop dirty tx_left tot =
     (if tx_left = 0 then State_Monad.return (dirty, tot)
      else do {
        r \<leftarrow> gets ring;
        tot \<leftarrow> reclaim_entry (unat (dirty mod num_tx_desc r)) tot;
        noclose_loop (dirty + 1) (tx_left - 1) tot
      })"

fun close_loop :: "u32 \<Rightarrow> nat \<Rightarrow> u32 \<times> u32 \<Rightarrow> (('d, 'k) txq, u32 \<times> u32 \<times> u32) state" where
  "close_loop dirty tx_left tot =
     (if tx_left = 0 then State_Monad.return (dirty, tot)
      else do {
        r \<leftarrow> gets ring;
        let entry = unat (dirty mod num_tx_desc r);
        if td_opts1 (TxDescArray r ! entry) AND DescOwn \<noteq> 0 then State_Monad.return (dirty, tot)
        else do {
          tot \<leftarrow> reclaim_entry entry tot;
          close_loop (dirty + 1) (tx_left - 1) tot
        }
      })"

declare noclose_loop.simps [simp del] close_loop.simps [simp del]

text \<open>The statistics after the loop, and the new \<open>dirty_tx\<close> with the wake-up of a stopped queue.\<close>

definition tx_account :: "'k kernel \<Rightarrow> u32 \<times> u32 \<Rightarrow> (('d, 'k) txq, unit) state" where
  "tx_account K tot =
     (if snd tot \<noteq> 0 then do {
        net_ev (BqlCompleted (snd tot) (fst tot));
        modify (\<lambda>s. s\<lparr>kern := k_tx_completed K (kern s) (snd tot) (fst tot),
          tx_bytes := tx_bytes s + ucast (fst tot), tx_packets := tx_packets s + ucast (snd tot)\<rparr>)
      } else State_Monad.return ())"

definition tx_wake :: "'k kernel \<Rightarrow> (('d, 'k) txq, unit) state" where
  "tx_wake K = modify (\<lambda>s. if q_stopped s \<and> rtl8125_tx_slots_avail K (ring s) \<and> carrier s then s\<lparr>q_stopped := False\<rparr> else s)"

definition rtl8125_tx_interrupt_noclose :: "'k kernel \<Rightarrow> tx_cfg \<Rightarrow> 'd mmio \<Rightarrow> (('d, 'k) txq, u32) state" where
  "rtl8125_tx_interrupt_noclose K cfg io = do {
     r \<leftarrow> gets ring;
     let dirty = dirty_tx r;
     next \<leftarrow> on_nic (rtl8125_get_hw_clo_ptr io cfg (hw_clo_ptr_reg r));
     let tx_desc_closed = rtl8125_fast_mod_mask (next - BeginHwDesCloPtr r) (MaxTxDescPtrMask cfg);
     let tx_left = min (cur_tx r - dirty) tx_desc_closed;
     upd_ring (\<lambda>r. r\<lparr>NextHwDesCloPtr := next, BeginHwDesCloPtr := BeginHwDesCloPtr r + tx_left\<rparr>);
     (dirty, tot) \<leftarrow> noclose_loop dirty (unat tx_left) (0, 0);
     tx_account K tot;
     r \<leftarrow> gets ring;
     if dirty_tx r \<noteq> dirty then do {
       upd_ring (\<lambda>r. r\<lparr>dirty_tx := dirty\<rparr>);
       tx_wake K;
       State_Monad.return (dirty - dirty_tx r)
     } else State_Monad.return 0
   }"

definition rtl8125_tx_interrupt_close :: "'k kernel \<Rightarrow> tx_cfg \<Rightarrow> 'd mmio \<Rightarrow> (('d, 'k) txq, u32) state" where
  "rtl8125_tx_interrupt_close K cfg io = do {
     r \<leftarrow> gets ring;
     (dirty, tot) \<leftarrow> close_loop (dirty_tx r) (unat (cur_tx r - dirty_tx r)) (0, 0);
     tx_account K tot;
     r \<leftarrow> gets ring;
     if dirty_tx r \<noteq> dirty then do {
       upd_ring (\<lambda>r. r\<lparr>dirty_tx := dirty\<rparr>);
       tx_wake K;
       (if cur_tx r \<noteq> dirty then rtl8125_doorbell io cfg else State_Monad.return ());
       State_Monad.return (dirty - dirty_tx r)
     } else State_Monad.return 0
   }"

definition rtl8125_tx_interrupt :: "'k kernel \<Rightarrow> tx_cfg \<Rightarrow> 'd mmio \<Rightarrow> (('d, 'k) txq, u32) state" where
  "rtl8125_tx_interrupt K cfg io =
     (if EnableTxNoClose cfg then rtl8125_tx_interrupt_noclose K cfg io else rtl8125_tx_interrupt_close K cfg io)"

section \<open>The ring as a store of slots\<close>

type_synonym tx_cell = "TxDesc \<times> ring_info"

definition tx_slot :: "tx_ring \<Rightarrow> nat \<Rightarrow> tx_cell" where
  "tx_slot r e = (TxDescArray r ! e, tx_skb r ! e)"

definition set_tx_slot :: "tx_ring \<Rightarrow> nat \<Rightarrow> tx_cell \<Rightarrow> tx_ring" where
  "set_tx_slot r e c = r\<lparr>TxDescArray := (TxDescArray r)[e := fst c], tx_skb := (tx_skb r)[e := snd c]\<rparr>"

abbreviation tx_n :: "tx_ring \<Rightarrow> nat" where "tx_n r \<equiv> unat (num_tx_desc r)"

definition tx_wf :: "tx_ring \<Rightarrow> bool" where
  "tx_wf r \<longleftrightarrow> 0 < tx_n r \<and> tx_n r dvd 2 ^ 32 \<and> tx_n r \<le> length (TxDescArray r) \<and> tx_n r \<le> length (tx_skb r)"

lemma set_tx_slot_simps [simp]:
  "num_tx_desc (set_tx_slot r e c) = num_tx_desc r" "cur_tx (set_tx_slot r e c) = cur_tx r"
  "dirty_tx (set_tx_slot r e c) = dirty_tx r" "tx_index (set_tx_slot r e c) = tx_index r"
  "BeginHwDesCloPtr (set_tx_slot r e c) = BeginHwDesCloPtr r"
  "length (TxDescArray (set_tx_slot r e c)) = length (TxDescArray r)"
  "length (tx_skb (set_tx_slot r e c)) = length (tx_skb r)"
  by (simp_all add: set_tx_slot_def)

interpretation txr: ring_store tx_slot set_tx_slot tx_n tx_wf
  by unfold_locales (auto simp: tx_wf_def tx_slot_def set_tx_slot_def nth_list_update)

abbreviation tx_window :: "tx_ring \<Rightarrow> u32 \<Rightarrow> nat \<Rightarrow> tx_cell list" where
  "tx_window r \<equiv> window (tx_slot r) (tx_n r)"

abbreviation tx_run :: "tx_ring \<Rightarrow> u32 \<Rightarrow> (tx_cell \<Rightarrow> tx_cell) list \<Rightarrow> tx_ring" where
  "tx_run r \<equiv> update_run tx_slot set_tx_slot (tx_n r) r"

lemma set_tx_slot_same: "set_tx_slot r e (tx_slot r e) = r"
  by (simp add: set_tx_slot_def tx_slot_def)

lemma set_tx_slot_twice: "set_tx_slot (set_tx_slot r e c) e c' = set_tx_slot r e c'"
  by (simp add: set_tx_slot_def)

lemma tx_run_simps [simp]:
  "num_tx_desc (update_run tx_slot set_tx_slot n r x fs) = num_tx_desc r"
  "cur_tx (update_run tx_slot set_tx_slot n r x fs) = cur_tx r"
  "dirty_tx (update_run tx_slot set_tx_slot n r x fs) = dirty_tx r"
  "tx_index (update_run tx_slot set_tx_slot n r x fs) = tx_index r"
  "BeginHwDesCloPtr (update_run tx_slot set_tx_slot n r x fs) = BeginHwDesCloPtr r"
  "length (TxDescArray (update_run tx_slot set_tx_slot n r x fs)) = length (TxDescArray r)"
  "length (tx_skb (update_run tx_slot set_tx_slot n r x fs)) = length (tx_skb r)"
  by (induction fs arbitrary: r x) auto

section \<open>What the loops do, slot by slot\<close>

definition dead_desc :: TxDesc where
  "dead_desc = \<lparr>td_opts1 = RTK_MAGIC_DEBUG_VALUE, td_opts2 = 0, td_addr = RTL8125_MAGIC_NUMBER\<rparr>"

definition clear_cell :: "tx_cell \<Rightarrow> tx_cell" where
  "clear_cell c = (if ri_len (snd c) = 0 then c else (dead_desc, (snd c)\<lparr>ri_len := 0, ri_skb := None\<rparr>))"

definition clear_events :: "tx_cell \<Rightarrow> net_event list" where
  "clear_events c = (if ri_len (snd c) = 0 then []
     else DmaUnmap (td_addr (fst c)) (ri_len (snd c)) # (case ri_skb (snd c) of None \<Rightarrow> [] | Some k \<Rightarrow> [SkbFree k]))"

definition clear_drops :: "tx_cell \<Rightarrow> u64" where
  "clear_drops c = (if ri_len (snd c) = 0 \<or> ri_skb (snd c) = None then 0 else 1)"

definition reclaim_cell :: "tx_cell \<Rightarrow> tx_cell" where
  "reclaim_cell c = (dead_desc, (snd c)\<lparr>ri_len := 0, ri_skb := None\<rparr>)"

definition reclaim_events :: "tx_cell \<Rightarrow> net_event list" where
  "reclaim_events c = DmaUnmap (td_addr (fst c)) (ri_len (snd c)) # (case ri_skb (snd c) of None \<Rightarrow> [] | Some k \<Rightarrow> [SkbConsume k])"

definition reclaim_total :: "u32 \<times> u32 \<Rightarrow> tx_cell \<Rightarrow> u32 \<times> u32" where
  "reclaim_total tot c = (case ri_skb (snd c) of None \<Rightarrow> tot
     | Some k \<Rightarrow> (fst tot + ri_bytecount (snd c), snd tot + ucast (ri_gso_segs (snd c))))"

lemma run_upd_ring [simp]: "run_state (upd_ring f) s = ((), s\<lparr>ring := f (ring s)\<rparr>)"
  by (simp add: upd_ring_def)

lemma run_net_ev [simp]: "run_state (net_ev e) s = ((), s\<lparr>net_log := net_log s @ [e]\<rparr>)"
  by (simp add: net_ev_def)

lemma run_unmap:
  "run_state (rtl8125_unmap_tx_skb e) s = ((), s\<lparr>
     net_log := net_log s @ [DmaUnmap (td_addr (fst (tx_slot (ring s) e))) (ri_len (snd (tx_slot (ring s) e)))],
     ring := set_tx_slot (ring s) e (dead_desc, (snd (tx_slot (ring s) e))\<lparr>ri_len := 0\<rparr>)\<rparr>)"
  by (simp add: rtl8125_unmap_tx_skb_def Let_def tx_slot_def set_tx_slot_def dead_desc_def)

lemma run_clear_skb:
  "run_state (clear_skb e) s = ((), s\<lparr>ring := set_tx_slot (ring s) e
     (fst (tx_slot (ring s) e), (snd (tx_slot (ring s) e))\<lparr>ri_skb := None\<rparr>)\<rparr>)"
  by (simp add: clear_skb_def tx_slot_def set_tx_slot_def)

lemma info_len0: "ri_skb x = None \<Longrightarrow> x\<lparr>ri_len := 0, ri_skb := None\<rparr> = (x :: ring_info)\<lparr>ri_len := 0\<rparr>"
  by (cases x) simp

lemma set_tx_slot_fields [simp]: "set_tx_slot r e (TxDescArray r ! e, tx_skb r ! e) = r"
  by (simp add: set_tx_slot_def)

lemma nth_set_tx_slot:
  assumes "tx_wf r" "e < tx_n r"
  shows "tx_skb (set_tx_slot r e c) ! e = snd c" "TxDescArray (set_tx_slot r e c) ! e = fst c"
  using txr.slot_set [OF assms, of c e] by (simp_all add: tx_slot_def prod_eq_iff)

lemma run_tx_clear_entry:
  assumes "tx_wf (ring s)" "e < tx_n (ring s)"
  shows "run_state (tx_clear_entry e) s = ((), s\<lparr>
     ring := set_tx_slot (ring s) e (clear_cell (tx_slot (ring s) e)),
     net_log := net_log s @ clear_events (tx_slot (ring s) e),
     tx_dropped := tx_dropped s + clear_drops (tx_slot (ring s) e)\<rparr>)"
  using assms
  by (cases "ri_skb (tx_skb (ring s) ! e)"; cases "ri_len (tx_skb (ring s) ! e) = 0")
    (simp_all add: tx_clear_entry_def Let_def run_unmap run_clear_skb clear_cell_def clear_events_def clear_drops_def
      set_tx_slot_twice nth_set_tx_slot info_len0 tx_slot_def)

lemma run_reclaim_entry:
  assumes "tx_wf (ring s)" "e < tx_n (ring s)"
  shows "run_state (reclaim_entry e tot) s = (reclaim_total tot (tx_slot (ring s) e), s\<lparr>
     ring := set_tx_slot (ring s) e (reclaim_cell (tx_slot (ring s) e)),
     net_log := net_log s @ reclaim_events (tx_slot (ring s) e)\<rparr>)"
  using assms
  by (cases "ri_skb (tx_skb (ring s) ! e)")
    (simp_all add: reclaim_entry_def Let_def run_unmap run_clear_skb reclaim_cell_def reclaim_events_def reclaim_total_def
      set_tx_slot_twice nth_set_tx_slot info_len0 tx_slot_def)

lemma window_after_first:
  assumes "tx_wf r" "Suc m \<le> tx_n r"
  shows "window (tx_slot (set_tx_slot r (unat x mod tx_n r) c)) (tx_n r) (x + 1) m = tx_window r (x + 1) m"
  using txr.pass_window_off [of r 1 m "[\<lambda>_. c]" x] assms by simp

lemma run_tx_clear_range:
  assumes "tx_wf (ring s)" "m \<le> tx_n (ring s)"
  shows "run_state (rtl8125_tx_clear_range x m) s = ((), s\<lparr>
     ring := tx_run (ring s) x (replicate m clear_cell),
     net_log := net_log s @ concat (map clear_events (tx_window (ring s) x m)),
     tx_dropped := tx_dropped s + sum_list (map clear_drops (tx_window (ring s) x m))\<rparr>)"
  using assms
proof (induction m arbitrary: x s)
  case 0
  then show ?case by (simp add: rtl8125_tx_clear_range.simps)
next
  case (Suc m)
  have e: "unat x mod tx_n (ring s) < tx_n (ring s)" using Suc.prems(1) by (simp add: tx_wf_def)
  show ?case
    using Suc.prems
    by (subst rtl8125_tx_clear_range.simps)
      (simp add: unat_mod run_tx_clear_entry [OF Suc.prems(1) e] Suc.IH txr.wf_set window_after_first window_Suc add.assoc)
qed

lemma run_noclose_loop:
  assumes "tx_wf (ring s)" "m \<le> tx_n (ring s)"
  shows "run_state (noclose_loop x m tot) s = ((x + of_nat m, foldl reclaim_total tot (tx_window (ring s) x m)), s\<lparr>
     ring := tx_run (ring s) x (replicate m reclaim_cell),
     net_log := net_log s @ concat (map reclaim_events (tx_window (ring s) x m))\<rparr>)"
  using assms
proof (induction m arbitrary: x s tot)
  case 0
  then show ?case by (simp add: noclose_loop.simps)
next
  case (Suc m)
  have e: "unat x mod tx_n (ring s) < tx_n (ring s)" using Suc.prems(1) by (simp add: tx_wf_def)
  show ?case
    using Suc.prems
    by (subst noclose_loop.simps)
      (simp add: unat_mod run_reclaim_entry [OF Suc.prems(1) e] Suc.IH txr.wf_set window_after_first window_Suc add.assoc)
qed

text \<open>The closing loop is the other loop, cut at the first descriptor the controller still owns.\<close>

definition not_owned :: "tx_cell \<Rightarrow> bool" where
  "not_owned c \<longleftrightarrow> td_opts1 (fst c) AND DescOwn = 0"

lemma owned_slot: "td_opts1 (TxDescArray r ! e) AND DescOwn = 0 \<longleftrightarrow> not_owned (tx_slot r e)"
  by (simp add: not_owned_def tx_slot_def)

lemma close_loop_eq:
  assumes "tx_wf (ring s)" "m \<le> tx_n (ring s)"
  shows "run_state (close_loop x m tot) s
    = run_state (noclose_loop x (length (takeWhile not_owned (tx_window (ring s) x m))) tot) s"
  using assms
proof (induction m arbitrary: x s tot)
  case 0
  then show ?case by (simp add: noclose_loop.simps close_loop.simps)
next
  case (Suc m)
  have e: "unat x mod tx_n (ring s) < tx_n (ring s)" using Suc.prems(1) by (simp add: tx_wf_def)
  show ?case
  proof (cases "not_owned (tx_slot (ring s) (unat x mod tx_n (ring s)))")
    case True
    then show ?thesis
      using Suc.prems
      by (subst close_loop.simps, subst noclose_loop.simps)
        (simp add: unat_mod owned_slot Let_def
          run_reclaim_entry [OF Suc.prems(1) e] Suc.IH txr.wf_set window_after_first window_Suc)
  next
    case False
    then show ?thesis
      by (subst close_loop.simps, subst noclose_loop.simps)
        (simp add: unat_mod owned_slot Let_def window_Suc)
  qed
qed

section \<open>The pending packets and the accounts\<close>

definition inflight :: "tx_ring \<Rightarrow> nat" where
  "inflight r = unat (cur_tx r - dirty_tx r)"

definition pending :: "tx_ring \<Rightarrow> tx_cell list" where
  "pending r = tx_window r (dirty_tx r) (inflight r)"

definition free_cells :: "tx_ring \<Rightarrow> tx_cell list" where
  "free_cells r = tx_window r (cur_tx r) (tx_n r - inflight r)"

definition tx_inv :: "'k kernel \<Rightarrow> tx_ring \<Rightarrow> bool" where
  "tx_inv K r \<longleftrightarrow> tx_wf r \<and> MAX_SKB_FRAGS K < tx_n r \<and> inflight r \<le> tx_n r
     \<and> (\<forall>c \<in> set (pending r). ri_len (snd c) \<noteq> 0)
     \<and> (\<forall>c \<in> set (free_cells r). ri_len (snd c) = 0 \<and> ri_skb (snd c) = None)
     \<and> (pending r \<noteq> [] \<longrightarrow> ri_skb (snd (last (pending r))) \<noteq> None)"

text \<open>What a log maps, unmaps and gives back; what a ring's cells hold.\<close>

fun ev_mapped :: "net_event \<Rightarrow> (u64 \<times> u32) list" where
  "ev_mapped (DmaMap a m l) = [(m, l)]" | "ev_mapped _ = []"

fun ev_unmapped :: "net_event \<Rightarrow> (u64 \<times> u32) list" where
  "ev_unmapped (DmaUnmap m l) = [(m, l)]" | "ev_unmapped _ = []"

fun ev_released :: "net_event \<Rightarrow> nat list" where
  "ev_released (SkbFree k) = [k]" | "ev_released (SkbConsume k) = [k]" | "ev_released (SkbPadFree k) = [k]" | "ev_released _ = []"

fun ev_pad_failed :: "net_event \<Rightarrow> nat list" where
  "ev_pad_failed (SkbPadFree k) = [k]" | "ev_pad_failed _ = []"

definition mapped :: "net_event list \<Rightarrow> (u64 \<times> u32) multiset" where
  "mapped l = mset (concat (map ev_mapped l))"

definition unmapped :: "net_event list \<Rightarrow> (u64 \<times> u32) multiset" where
  "unmapped l = mset (concat (map ev_unmapped l))"

definition released :: "net_event list \<Rightarrow> nat multiset" where
  "released l = mset (concat (map ev_released l))"

definition pad_failed :: "net_event list \<Rightarrow> nat multiset" where
  "pad_failed l = mset (concat (map ev_pad_failed l))"

definition cell_dma :: "tx_cell \<Rightarrow> (u64 \<times> u32) multiset" where
  "cell_dma c = (if ri_len (snd c) = 0 then {#} else {#(td_addr (fst c), ri_len (snd c))#})"

definition cell_skb :: "tx_cell \<Rightarrow> nat multiset" where
  "cell_skb c = (case ri_skb (snd c) of None \<Rightarrow> {#} | Some k \<Rightarrow> {#k#})"

definition held_dma :: "tx_ring \<Rightarrow> (u64 \<times> u32) multiset" where
  "held_dma r = sum_list (map cell_dma (pending r))"

definition held_skbs :: "tx_ring \<Rightarrow> nat multiset" where
  "held_skbs r = sum_list (map cell_skb (pending r))"

lemma log_simps [simp]:
  "mapped [] = {#}" "unmapped [] = {#}" "released [] = {#}"
  "mapped (e # l) = mset (ev_mapped e) + mapped l" "unmapped (e # l) = mset (ev_unmapped e) + unmapped l"
  "released (e # l) = mset (ev_released e) + released l"
  "mapped (l @ l') = mapped l + mapped l'" "unmapped (l @ l') = unmapped l + unmapped l'"
  "released (l @ l') = released l + released l'"
  "pad_failed [] = {#}" "pad_failed (e # l) = mset (ev_pad_failed e) + pad_failed l" "pad_failed (l @ l') = pad_failed l + pad_failed l'"
  by (simp_all add: mapped_def unmapped_def released_def pad_failed_def)

lemma log_concat:
  "mapped (concat ls) = sum_list (map mapped ls)" "unmapped (concat ls) = sum_list (map unmapped ls)"
  "released (concat ls) = sum_list (map released ls)"
  by (induction ls) simp_all

lemma cell_events:
  "mapped (reclaim_events c) = {#}" "mapped (clear_events c) = {#}"
  "ri_len (snd c) \<noteq> 0 \<Longrightarrow> unmapped (reclaim_events c) = cell_dma c"
  "unmapped (clear_events c) = cell_dma c"
  "released (reclaim_events c) = cell_skb c" "pad_failed (reclaim_events c) = {#}" "pad_failed (clear_events c) = {#}"
  "ri_len (snd c) \<noteq> 0 \<Longrightarrow> released (clear_events c) = cell_skb c"
  by (auto simp: reclaim_events_def clear_events_def cell_dma_def cell_skb_def split: option.splits)

lemma sum_list_empty: "(\<And>c. c \<in> set cs \<Longrightarrow> f c = {#}) \<Longrightarrow> sum_list (map f cs) = {#}"
  by (induction cs) auto

lemma reclaim_accounts:
  assumes "\<forall>c \<in> set cs. ri_len (snd c) \<noteq> 0"
  shows "mapped (concat (map reclaim_events cs)) = {#}"
    "unmapped (concat (map reclaim_events cs)) = sum_list (map cell_dma cs)"
    "released (concat (map reclaim_events cs)) = sum_list (map cell_skb cs)" "pad_failed (concat (map reclaim_events cs)) = {#}"
  using assms by (induction cs) (auto simp: cell_events)

lemma clear_accounts:
  assumes "\<forall>c \<in> set cs. ri_len (snd c) \<noteq> 0"
  shows "mapped (concat (map clear_events cs)) = {#}"
    "unmapped (concat (map clear_events cs)) = sum_list (map cell_dma cs)"
    "released (concat (map clear_events cs)) = sum_list (map cell_skb cs)" "pad_failed (concat (map clear_events cs)) = {#}"
  using assms by (induction cs) (auto simp: cell_events)

lemma inflight_word: "cur_tx r = dirty_tx r + of_nat (inflight r)"
  by (simp add: inflight_def)

lemma inflight_less: "inflight r < 2 ^ 32"
  unfolding inflight_def using unsigned_less [of "cur_tx r - dirty_tx r"] by simp

lemma whole_ring: "inflight r \<le> tx_n r \<Longrightarrow> tx_window r (dirty_tx r) (tx_n r) = pending r @ free_cells r"
  using window_append [of "tx_slot r" "tx_n r" "dirty_tx r" "inflight r" "tx_n r - inflight r"]
  by (simp add: pending_def free_cells_def flip: inflight_word)

lemma length_pending [simp]: "length (pending r) = inflight r"
  by (simp add: pending_def)

section \<open>Reclaiming and clearing, as operations on the pending list\<close>

text \<open>Reclaiming the first \<open>k\<close> pending cells: the ring with \<open>dirty_tx\<close> advanced.\<close>

definition reclaimed :: "tx_ring \<Rightarrow> nat \<Rightarrow> tx_ring" where
  "reclaimed r k = (tx_run r (dirty_tx r) (replicate k reclaim_cell))\<lparr>dirty_tx := dirty_tx r + of_nat k\<rparr>"

lemma slot_dirty_upd [simp]:
  "tx_slot (r\<lparr>dirty_tx := d\<rparr>) = tx_slot r" "tx_slot (r\<lparr>cur_tx := d\<rparr>) = tx_slot r"
  "tx_slot (r\<lparr>BeginHwDesCloPtr := d\<rparr>) = tx_slot r" "tx_slot (r\<lparr>NextHwDesCloPtr := d\<rparr>) = tx_slot r"
  by (auto simp: tx_slot_def)

lemma wf_upd [simp]:
  "tx_wf (r\<lparr>dirty_tx := d\<rparr>) = tx_wf r" "tx_wf (r\<lparr>cur_tx := d\<rparr>) = tx_wf r"
  "tx_wf (r\<lparr>BeginHwDesCloPtr := d\<rparr>) = tx_wf r" "tx_wf (r\<lparr>NextHwDesCloPtr := d\<rparr>) = tx_wf r"
  by (simp_all add: tx_wf_def)

lemma reclaimed_inflight:
  assumes "k \<le> inflight r"
  shows "inflight (reclaimed r k) = inflight r - k"
proof -
  have "cur_tx r - (dirty_tx r + of_nat k) = of_nat (inflight r - k)"
    using assms inflight_word [of r] by (simp add: of_nat_diff)
  moreover have "unat (of_nat (inflight r - k) :: u32) = inflight r - k"
    using inflight_less [of r] by (simp add: unat_of_nat)
  ultimately show ?thesis unfolding inflight_def [of "reclaimed r k"] by (simp add: reclaimed_def)
qed

lemma reclaimed_pending:
  assumes "tx_wf r" "inflight r \<le> tx_n r" "k \<le> inflight r"
  shows "pending (reclaimed r k) = drop k (pending r)"
proof -
  have "pending (reclaimed r k) = window (tx_slot (tx_run r (dirty_tx r) (replicate k reclaim_cell))) (tx_n r) (dirty_tx r + of_nat k) (inflight r - k)"
    using assms(3) unfolding pending_def reclaimed_inflight [OF assms(3)] by (simp add: reclaimed_def)
  also have "\<dots> = tx_window r (dirty_tx r + of_nat k) (inflight r - k)"
    using assms by (intro txr.pass_window_off) auto
  also have "\<dots> = drop k (pending r)"
    using window_append [of "tx_slot r" "tx_n r" "dirty_tx r" k "inflight r - k"] assms(3)
    by (simp add: pending_def)
  finally show ?thesis .
qed

lemma tx_run_outside:
  assumes "tx_wf r" "a \<le> tx_n r" "length fs = a" "cur = x + of_nat a"
  shows "window (tx_slot (tx_run r x fs)) (tx_n r) cur (tx_n r - a) = tx_window r cur (tx_n r - a)"
  unfolding assms(4) using assms(1-3) by (intro txr.pass_window_off) auto

lemma reclaimed_free:
  assumes "tx_wf r" "inflight r \<le> tx_n r" "k \<le> inflight r"
  shows "free_cells (reclaimed r k) = free_cells r @ map reclaim_cell (take k (pending r))"
proof (rule nth_equalityI)
  have n: "tx_n r dvd 2 ^ 32" "0 < tx_n r" using txr.wf_size [OF assms(1)] by auto
  have len: "length (free_cells (reclaimed r k)) = (tx_n r - inflight r) + k"
    using assms(2,3) unfolding free_cells_def reclaimed_inflight [OF assms(3)] by (simp add: reclaimed_def)
  then show "length (free_cells (reclaimed r k)) = length (free_cells r @ map reclaim_cell (take k (pending r)))"
    using assms(3) by (simp add: free_cells_def)
  fix i assume "i < length (free_cells (reclaimed r k))"
  then have i: "i < (tx_n r - inflight r) + k" using len by simp
  let ?r = "tx_run r (dirty_tx r) (replicate k reclaim_cell)"
  have lhs: "free_cells (reclaimed r k) ! i = tx_slot ?r (slot_index (tx_n r) (dirty_tx r) (inflight r + i))"
    using i assms(2,3) unfolding free_cells_def reclaimed_inflight [OF assms(3)]
    by (simp add: reclaimed_def inflight_word [of r] slot_index_add)
  show "free_cells (reclaimed r k) ! i = (free_cells r @ map reclaim_cell (take k (pending r))) ! i"
  proof (cases "i < tx_n r - inflight r")
    case True
    have "tx_slot ?r (slot_index (tx_n r) (dirty_tx r) (inflight r + i)) = tx_slot r (slot_index (tx_n r) (dirty_tx r) (inflight r + i))"
      using True assms n by (intro txr.pass_off) (auto simp: slot_index_inj_iff)
    then show ?thesis using True lhs
      by (simp add: free_cells_def nth_append inflight_word [of r] slot_index_add)
  next
    case False
    let ?j = "i - (tx_n r - inflight r)"
    have j: "?j < k" "inflight r + i = tx_n r + ?j" using False i assms(2) by auto
    have "slot_index (tx_n r) (dirty_tx r) (tx_n r + ?j) = slot_index (tx_n r) (dirty_tx r) ?j"
      using n mod_add_self1 [of "tx_n r" "unat (dirty_tx r) + ?j"] by (simp add: slot_index_eq add.left_commute)
    then show ?thesis using False lhs j assms
      by (simp add: free_cells_def nth_append pending_def txr.pass_at)
  qed
qed

lemma reclaimed_inv:
  assumes "tx_inv K r" "k \<le> inflight r"
  shows "tx_inv K (reclaimed r k)"
proof -
  have wf: "tx_wf r" "inflight r \<le> tx_n r" using assms(1) by (auto simp: tx_inv_def)
  have "pending r \<noteq> []" if "inflight r \<noteq> k" using assms(2) that length_pending [of r] by fastforce
  then show ?thesis
    using assms wf txr.pass_wf [OF wf(1)]
    by (auto simp: tx_inv_def reclaimed_pending reclaimed_free reclaimed_inflight last_drop reclaim_cell_def
        dest: in_set_dropD) (auto simp: reclaimed_def)
qed

lemma tx_run_Begin:
  "update_run tx_slot set_tx_slot n (r\<lparr>NextHwDesCloPtr := a, BeginHwDesCloPtr := b\<rparr>) x fs
   = (update_run tx_slot set_tx_slot n r x fs)\<lparr>NextHwDesCloPtr := a, BeginHwDesCloPtr := b\<rparr>"
proof (induction fs arbitrary: r x)
  case (Cons f fs)
  have "set_tx_slot (r\<lparr>NextHwDesCloPtr := a, BeginHwDesCloPtr := b\<rparr>) e c = (set_tx_slot r e c)\<lparr>NextHwDesCloPtr := a, BeginHwDesCloPtr := b\<rparr>" for e c
    by (simp add: set_tx_slot_def)
  with Cons show ?case by simp
qed simp

section \<open>The reclaim interrupt\<close>

lemma run_on_nic [simp]:
  "run_state (on_nic m) s = (fst (run_state m (priv s)), s\<lparr>priv := snd (run_state m (priv s))\<rparr>)"
  by (simp add: on_nic_def split_beta)

text \<open>How many pending descriptors the controller reports as done.\<close>

definition reclaimable :: "'d mmio \<Rightarrow> tx_cfg \<Rightarrow> ('d, 'k) txq \<Rightarrow> nat" where
  "reclaimable io cfg s = (let r = ring s in
     if EnableTxNoClose cfg
     then min (inflight r) (unat (rtl8125_fast_mod_mask
       (fst (run_state (rtl8125_get_hw_clo_ptr io cfg (hw_clo_ptr_reg r)) (priv s)) - BeginHwDesCloPtr r) (MaxTxDescPtrMask cfg)))
     else length (takeWhile not_owned (pending r)))"

definition completed_event :: "u32 \<times> u32 \<Rightarrow> net_event list" where
  "completed_event tot = (if snd tot = 0 then [] else [BqlCompleted (snd tot) (fst tot)])"

lemma reclaimable_le: "reclaimable io cfg s \<le> inflight (ring s)"
  using length_takeWhile_le [of not_owned "pending (ring s)"] by (simp add: reclaimable_def Let_def)

lemma run_tx_account:
  "ring (snd (run_state (tx_account K tot) s)) = ring s"
  "net_log (snd (run_state (tx_account K tot) s)) = net_log s @ completed_event tot"
  "q_stopped (snd (run_state (tx_account K tot) s)) = q_stopped s"
  "carrier (snd (run_state (tx_account K tot) s)) = carrier s"
  "tx_dropped (snd (run_state (tx_account K tot) s)) = tx_dropped s"
  by (simp_all add: tx_account_def completed_event_def)

lemma run_tx_wake:
  "ring (snd (run_state (tx_wake K) s)) = ring s" "net_log (snd (run_state (tx_wake K) s)) = net_log s"
  "q_stopped (snd (run_state (tx_wake K) s)) = (q_stopped s \<and> \<not> (rtl8125_tx_slots_avail K (ring s) \<and> carrier s))"
  by (auto simp: tx_wake_def)

lemma run_doorbell:
  "ring (snd (run_state (rtl8125_doorbell io cfg) s)) = ring s" "net_log (snd (run_state (rtl8125_doorbell io cfg) s)) = net_log s"
  "q_stopped (snd (run_state (rtl8125_doorbell io cfg) s)) = q_stopped s" "kern (snd (run_state (rtl8125_doorbell io cfg) s)) = kern s"
  "tx_dropped (snd (run_state (rtl8125_doorbell io cfg) s)) = tx_dropped s"
  by (simp_all add: rtl8125_doorbell_def)

lemma run_maybe_doorbell:
  "ring (snd (run_state (if b then rtl8125_doorbell io cfg else State_Monad.return ()) s)) = ring s"
  "net_log (snd (run_state (if b then rtl8125_doorbell io cfg else State_Monad.return ()) s)) = net_log s"
  "q_stopped (snd (run_state (if b then rtl8125_doorbell io cfg else State_Monad.return ()) s)) = q_stopped s"
  "tx_dropped (snd (run_state (if b then rtl8125_doorbell io cfg else State_Monad.return ()) s)) = tx_dropped s"
  by (simp_all add: run_doorbell)

lemma dirty_moves:
  assumes "k \<le> inflight r"
  shows "dirty_tx r \<noteq> dirty_tx r + of_nat k \<longleftrightarrow> k \<noteq> 0"
proof -
  have "k < 2 ^ 32" using assms inflight_less [of r] by simp
  then have "(of_nat k :: u32) = 0 \<longleftrightarrow> k = 0" by (auto simp: word_of_nat_eq_0_iff dest: dvd_imp_le)
  then show ?thesis by simp
qed


definition totals :: "tx_cell list \<Rightarrow> u32 \<times> u32" where
  "totals cs = foldl reclaim_total (0, 0) cs"

definition ptrs0 :: "tx_ring \<Rightarrow> tx_ring" where
  "ptrs0 r = r\<lparr>NextHwDesCloPtr := 0, BeginHwDesCloPtr := 0\<rparr>"

definition reclaim_outcome :: "'k kernel \<Rightarrow> ('d, 'k) txq \<Rightarrow> nat \<Rightarrow> u32 \<Rightarrow> ('d, 'k) txq \<Rightarrow> bool" where
  "reclaim_outcome K s k c s' \<longleftrightarrow> (let done_cells = take k (pending (ring s)) in
     c = of_nat k
     \<and> ptrs0 (ring s') = ptrs0 (reclaimed (ring s) k)
     \<and> net_log s' = net_log s @ concat (map reclaim_events done_cells) @ completed_event (totals done_cells)
     \<and> q_stopped s' = (q_stopped s \<and> (k = 0 \<or> \<not> rtl8125_tx_slots_avail K (ring s') \<or> \<not> carrier s)))"

lemma window_take: "k \<le> m \<Longrightarrow> window f n x k = take k (window f n x m)"
  by (rule nth_equalityI) auto

lemma ptrs0_same:
  assumes "ptrs0 r = ptrs0 r'"
  shows "pending r = pending r'" "tx_inv K r = tx_inv K r'" "free_cells r = free_cells r'" "inflight r = inflight r'"
    "cur_tx r = cur_tx r'" "num_tx_desc r = num_tx_desc r'" "dirty_tx r = dirty_tx r'" "held_skbs r = held_skbs r'" "held_dma r = held_dma r'"
proof -
  have *: "pending (ptrs0 x) = pending x" "free_cells (ptrs0 x) = free_cells x" "inflight (ptrs0 x) = inflight x"
    "tx_wf (ptrs0 x) = tx_wf x" "num_tx_desc (ptrs0 x) = num_tx_desc x" "cur_tx (ptrs0 x) = cur_tx x" "dirty_tx (ptrs0 x) = dirty_tx x" for x
    by (simp_all add: ptrs0_def pending_def free_cells_def inflight_def)
  show p: "pending r = pending r'" "free_cells r = free_cells r'" "inflight r = inflight r'" "cur_tx r = cur_tx r'"
    "num_tx_desc r = num_tx_desc r'" "dirty_tx r = dirty_tx r'"
    using assms *(1-3,5-7) by metis+
  have "tx_wf r = tx_wf r'" using assms *(4) by metis
  then show "tx_inv K r = tx_inv K r'" "held_skbs r = held_skbs r'" "held_dma r = held_dma r'"
    using p by (simp_all add: tx_inv_def held_skbs_def held_dma_def)
qed

lemma noclose_outcome:
  assumes "tx_inv K (ring s)" "EnableTxNoClose cfg"
    and "run_state (rtl8125_tx_interrupt_noclose K cfg io) s = (c, s')"
  shows "reclaim_outcome K s (reclaimable io cfg s) c s'"
proof -
  let ?r = "ring s" let ?k = "reclaimable io cfg s"
  let ?p = "run_state (rtl8125_get_hw_clo_ptr io cfg (hw_clo_ptr_reg ?r)) (priv s)"
  let ?w = "min (cur_tx ?r - dirty_tx ?r) (rtl8125_fast_mod_mask (fst ?p - BeginHwDesCloPtr ?r) (MaxTxDescPtrMask cfg))"
  let ?s1 = "s\<lparr>priv := snd ?p, ring := ?r\<lparr>NextHwDesCloPtr := fst ?p, BeginHwDesCloPtr := BeginHwDesCloPtr ?r + ?w\<rparr>\<rparr>"
  have wf: "tx_wf ?r" "inflight ?r \<le> tx_n ?r" using assms(1) by (auto simp: tx_inv_def)
  have k: "unat ?w = ?k" using assms(2) by (simp add: reclaimable_def Let_def inflight_def min_def word_le_nat_alt)
  have kle: "?k \<le> inflight ?r" by (rule reclaimable_le)
  have cells: "tx_window ?r (dirty_tx ?r) ?k = take ?k (pending ?r)"
    using kle by (simp add: pending_def window_take [of ?k])
  have loop: "run_state (noclose_loop (dirty_tx ?r) ?k (0, 0)) ?s1 =
      ((dirty_tx ?r + of_nat ?k, totals (take ?k (pending ?r))), ?s1\<lparr>
         ring := (tx_run ?r (dirty_tx ?r) (replicate ?k reclaim_cell))\<lparr>NextHwDesCloPtr := fst ?p, BeginHwDesCloPtr := BeginHwDesCloPtr ?r + ?w\<rparr>,
         net_log := net_log s @ concat (map reclaim_events (take ?k (pending ?r)))\<rparr>)"
    using run_noclose_loop [of ?s1 ?k "dirty_tx ?r" "(0, 0)"] wf kle by (simp add: cells tx_run_Begin totals_def)
  show ?thesis
  proof (cases "?k = 0")
    case True
    then show ?thesis using assms(3) loop dirty_moves [OF kle]
      by (auto simp: rtl8125_tx_interrupt_noclose_def Let_def k split_beta run_tx_account reclaim_outcome_def ptrs0_def reclaimed_def totals_def)
  next
    case False
    then show ?thesis using assms(3) loop dirty_moves [OF kle]
      by (auto simp: rtl8125_tx_interrupt_noclose_def Let_def k split_beta run_tx_account run_tx_wake reclaim_outcome_def ptrs0_def reclaimed_def
          rtl8125_tx_slots_avail_def)
  qed
qed

lemma close_outcome:
  assumes "tx_inv K (ring s)" "\<not> EnableTxNoClose cfg"
    and "run_state (rtl8125_tx_interrupt_close K cfg io) s = (c, s')"
  shows "reclaim_outcome K s (reclaimable io cfg s) c s'"
proof -
  let ?r = "ring s" let ?k = "reclaimable io cfg s"
  have wf: "tx_wf ?r" "inflight ?r \<le> tx_n ?r" using assms(1) by (auto simp: tx_inv_def)
  have kle: "?k \<le> inflight ?r" by (rule reclaimable_le)
  have cells: "tx_window ?r (dirty_tx ?r) ?k = take ?k (pending ?r)"
    using kle by (simp add: pending_def window_take [of ?k])
  have kk: "length (takeWhile not_owned (tx_window ?r (dirty_tx ?r) (inflight ?r))) = ?k"
    using assms(2) by (simp add: reclaimable_def Let_def pending_def)
  have loop: "run_state (close_loop (dirty_tx ?r) (unat (cur_tx ?r - dirty_tx ?r)) (0, 0)) s =
      ((dirty_tx ?r + of_nat ?k, totals (take ?k (pending ?r))), s\<lparr>
         ring := tx_run ?r (dirty_tx ?r) (replicate ?k reclaim_cell),
         net_log := net_log s @ concat (map reclaim_events (take ?k (pending ?r)))\<rparr>)"
    using close_loop_eq [of s "inflight ?r" "dirty_tx ?r" "(0, 0)"] run_noclose_loop [of s ?k "dirty_tx ?r" "(0, 0)"] wf kle
    by (simp add: kk cells totals_def flip: inflight_def)
  show ?thesis
  proof (cases "?k = 0")
    case True
    then show ?thesis using assms(3) loop dirty_moves [OF kle]
      by (auto simp: rtl8125_tx_interrupt_close_def Let_def split_beta run_tx_account reclaim_outcome_def ptrs0_def reclaimed_def totals_def)
  next
    case False
    then show ?thesis using assms(3) loop dirty_moves [OF kle]
      by (auto simp: rtl8125_tx_interrupt_close_def Let_def split_beta run_tx_account run_tx_wake run_maybe_doorbell reclaim_outcome_def ptrs0_def reclaimed_def
          rtl8125_tx_slots_avail_def)
  qed
qed

lemma interrupt_outcome:
  assumes "tx_inv K (ring s)" "run_state (rtl8125_tx_interrupt K cfg io) s = (c, s')"
  shows "reclaim_outcome K s (reclaimable io cfg s) c s'"
  using assms noclose_outcome close_outcome by (metis rtl8125_tx_interrupt_def)

lemma outcome_pending:
  assumes "tx_inv K (ring s)" "reclaim_outcome K s k c s'" "k \<le> inflight (ring s)"
  shows "pending (ring s') = drop k (pending (ring s))" "tx_inv K (ring s')"
  using assms ptrs0_same [of "ring s'" "reclaimed (ring s) k"] reclaimed_pending [of "ring s" k] reclaimed_inv [of K "ring s" k]
  by (auto simp: reclaim_outcome_def Let_def tx_inv_def)

section \<open>Clearing the ring\<close>

lemma free_no_events:
  assumes "\<forall>c \<in> set cs. ri_len (snd c) = 0"
  shows "concat (map clear_events cs) = []" "sum_list (map clear_drops cs) = 0"
  using assms by (induction cs) (auto simp: clear_events_def clear_drops_def)

lemma clear_outcome:
  assumes "tx_inv K (ring s)"
  shows "let s' = snd (run_state tx_clear_ring s) in
    tx_inv K (ring s') \<and> pending (ring s') = [] \<and> cur_tx (ring s') = 0 \<and> dirty_tx (ring s') = 0
    \<and> net_log s' = net_log s @ concat (map clear_events (pending (ring s)))
    \<and> tx_dropped s' = tx_dropped s + sum_list (map clear_drops (pending (ring s)))"
proof -
  let ?r = "ring s" let ?n = "tx_n ?r"
  let ?r' = "tx_run ?r (dirty_tx ?r) (replicate ?n clear_cell)"
  have inv: "tx_wf ?r" "inflight ?r \<le> ?n" "MAX_SKB_FRAGS K < ?n"
    "\<forall>c \<in> set (pending ?r). ri_len (snd c) \<noteq> 0" "\<forall>c \<in> set (free_cells ?r). ri_len (snd c) = 0 \<and> ri_skb (snd c) = None"
    using assms by (auto simp: tx_inv_def)
  have n: "?n dvd 2 ^ 32" "0 < ?n" using txr.wf_size [OF inv(1)] by auto
  have all: "set (pending ?r @ free_cells ?r) = tx_slot ?r ` {..<?n}"
  proof -
    have "set (tx_window ?r (dirty_tx ?r) ?n) = tx_slot ?r ` slot_index ?n (dirty_tx ?r) ` {..<?n}" by (auto simp: set_window)
    also have "slot_index ?n (dirty_tx ?r) ` {..<?n} = {..<?n}" using n slot_index_surj [OF n(1)] by (auto simp: slot_index_less)
    finally show ?thesis using whole_ring [OF inv(2)] by simp
  qed
  have slots: "tx_slot ?r' e = clear_cell (tx_slot ?r e)" if e: "e < ?n" for e
  proof -
    obtain j where "j < ?n" "e = slot_index ?n (dirty_tx ?r) j" using slot_index_surj [OF n(1) e] by blast
    then show ?thesis using txr.pass_at [OF inv(1), of "replicate ?n clear_cell" j "dirty_tx ?r"] by simp
  qed
  have cleared: "ri_len (snd (tx_slot ?r' e)) = 0 \<and> ri_skb (snd (tx_slot ?r' e)) = None" if e: "e < ?n" for e
  proof -
    have "tx_slot ?r e \<in> set (pending ?r) \<union> set (free_cells ?r)" using e all by auto
    then show ?thesis using inv(4,5) slots [OF e] by (auto simp: clear_cell_def)
  qed
  have run: "snd (run_state tx_clear_ring s) = s\<lparr>ring := ?r'\<lparr>cur_tx := 0, dirty_tx := 0\<rparr>,
      net_log := net_log s @ concat (map clear_events (pending ?r)),
      tx_dropped := tx_dropped s + sum_list (map clear_drops (pending ?r))\<rparr>"
    using run_tx_clear_range [of s ?n "dirty_tx ?r"] inv free_no_events [of "free_cells ?r"]
    by (simp add: tx_clear_ring_def whole_ring)
  have "pending (?r'\<lparr>cur_tx := 0, dirty_tx := 0\<rparr>) = []" "inflight (?r'\<lparr>cur_tx := 0, dirty_tx := 0\<rparr>) = 0"
    by (simp_all add: pending_def inflight_def)
  moreover have "\<forall>c \<in> set (free_cells (?r'\<lparr>cur_tx := 0, dirty_tx := 0\<rparr>)). ri_len (snd c) = 0 \<and> ri_skb (snd c) = None"
    using cleared n(2) by (auto simp: free_cells_def inflight_def set_window slot_index_less)
  ultimately have "tx_inv K (?r'\<lparr>cur_tx := 0, dirty_tx := 0\<rparr>)"
    using inv txr.pass_wf [OF inv(1)] by (simp add: tx_inv_def)
  then show ?thesis using \<open>pending _ = []\<close> by (simp add: run Let_def)
qed

section \<open>Counting closed descriptors modulo the pointer width\<close>

lemma fast_mod_mask_is_and: "rtl8125_fast_mod_mask x (mask w) = x AND mask w"
proof (cases "mask w < x")
  case False
  then have "x \<le> mask w" by simp
  moreover have "uint (mask w :: u32) = mask (min w 32)"
    unfolding mask_eq_take_bit_minus_one [of w, where 'a = "32 word"] unsigned_take_bit_eq unsigned_minus_1_eq_mask
    by (simp add: take_bit_of_mask)
  ultimately have "uint x \<le> mask (min w 32)" by (simp add: word_le_def)
  then have "uint x < 2 ^ min w 32" by (simp add: mask_eq_exp_minus_1)
  then have "uint x < 2 ^ w" by (rule less_le_trans) simp
  then have "take_bit w x = x" by (intro word_uint_eqI) (simp add: unsigned_take_bit_eq take_bit_int_eq_self)
  then have "x AND mask w = x" by (simp add: take_bit_eq_mask)
  then show ?thesis using False by (simp add: rtl8125_fast_mod_mask_def)
qed (simp add: rtl8125_fast_mod_mask_def)

lemma closed_count:
  assumes "j < 2 ^ w" "w \<le> 32" "j < 2 ^ 32"
  shows "unat (rtl8125_fast_mod_mask (((b + of_nat j) AND mask w) - b) (mask w)) = j"
proof -
  have t32: "x mod 4294967296 = take_bit 32 x" for x :: int by (simp add: take_bit_eq_mod)
  have j32: "take_bit 32 (int j) = int j" using assms(3) by (simp add: take_bit_int_eq_self)
  have "uint (rtl8125_fast_mod_mask (((b + of_nat j) AND mask w) - b) (mask w))
      = uint (take_bit w (take_bit w (b + of_nat j) - b))"
    by (simp add: fast_mod_mask_is_and take_bit_eq_mask)
  also have "\<dots> = take_bit w (take_bit 32 (take_bit w (take_bit 32 (uint b + take_bit 32 (int j))) - uint b))"
    by (simp add: unsigned_take_bit_eq uint_word_ariths(1,2) unsigned_of_nat t32 flip: take_bit_of_nat)
  also have "\<dots> = take_bit w (take_bit w (uint b + int j) - uint b)"
    using assms(2) by (simp add: j32 take_bit_take_bit min_def)
  also have "\<dots> = take_bit w (uint b + int j - uint b)"
    by (simp add: take_bit_eq_mod mod_diff_left_eq)
  also have "\<dots> = int j" using assms(1) by (simp add: take_bit_int_eq_self)
  finally show ?thesis unfolding unat_eq_nat_uint by simp
qed

end
