(* ===== verification/TxXmit.thy ===== *)
theory TxXmit
  imports TxRing
begin

text \<open>
  Queueing a packet, proved: which descriptors \<open>rtl8125_start_xmit\<close> writes for a packet and its
  fragments, that a packet it cannot map is undone completely, and that the preparation of a packet
  (large send, checksum, padding) yields descriptor words whose fields do not overlap.  Together with
  the reclaim and clear lemmas of \<open>TxRing\<close>: over any sequence of operations every packet handed to the
  driver is released exactly once and every DMA mapping undone exactly once; the only packets released twice
  are those whose padding failed, which the kernel has freed before the driver does.  The size of a ring is a
  power of two throughout (\<open>tx_wf\<close>), as the driver's default is: with free-running 32-bit counters the
  other sizes lose their order when a counter wraps.
\<close>

section \<open>Filling descriptors for fragments\<close>

text \<open>
  A descriptor as the driver writes it: its two option words, the mapping together with the address it
  maps, and the length.  The pieces of a packet are its fragments, the last one cut in two where the large-send patch applies.
\<close>

type_synonym txd = "u32 \<times> u32 \<times> (u64 \<times> u64) \<times> u32"

definition put_cell :: "txd \<Rightarrow> tx_cell \<Rightarrow> tx_cell" where
  "put_cell t c = (case t of (st, o2, m, l) \<Rightarrow> (\<lparr>td_opts1 = st, td_opts2 = o2, td_addr = fst m\<rparr>, (snd c)\<lparr>ri_len := l\<rparr>))"

definition map_event :: "txd \<Rightarrow> net_event" where
  "map_event t = (case t of (st, o2, m, l) \<Rightarrow> DmaMap (snd m) (fst m) l)"

definition unmap_event :: "txd \<Rightarrow> net_event" where
  "unmap_event t = (case t of (st, o2, m, l) \<Rightarrow> DmaUnmap (fst m) l)"

fun pieces :: "tx_cfg \<Rightarrow> u32 \<Rightarrow> (u64 \<times> u32) list \<Rightarrow> u64 \<Rightarrow> (u64 \<times> u32) list" where
  "pieces cfg o1 [] cnt = []"
| "pieces cfg o1 ((a, l) # fs) cnt =
     (if RequireLSOPatch cfg \<and> fs = [] \<and> o1 AND (GiantSendv4 OR GiantSendv6) \<noteq> 0 \<and> cnt < ETH_FRAME_LEN \<and> 1 < l
      then [(a, l - 1), (a + ucast (l - 1), 1)]
      else (a, l) # pieces cfg o1 fs (cnt + ucast l))"

fun frag_txds :: "tx_ring \<Rightarrow> u32 \<times> u32 \<Rightarrow> u32 \<Rightarrow> (u64 \<times> u32) list \<Rightarrow> u64 list \<Rightarrow> txd list" where
  "frag_txds r opts x ((a, l) # ps) (m # ms) =
     (let st = rtl8125_get_txd_opts1 r (fst opts) l (x mod num_tx_desc r)
      in (if ps = [] then st OR LastFrag else st, snd opts, (m, a), l) # frag_txds r opts (x + 1) ps ms)"
| "frag_txds r opts x _ _ = []"

definition filled :: "('d, 'k) txq \<Rightarrow> txd list \<Rightarrow> ('d, 'k) txq \<Rightarrow> bool" where
  "filled s0 ds s \<longleftrightarrow> (\<exists>k. s = s0\<lparr>
     ring := tx_run (ring s0) (cur_tx (ring s0) + 1) (map put_cell ds),
     net_log := net_log s0 @ map map_event ds, kern := k\<rparr>)"

definition unfilled :: "('d, 'k) txq \<Rightarrow> txd list \<Rightarrow> ('d, 'k) txq \<Rightarrow> bool" where
  "unfilled s0 ds s \<longleftrightarrow> (\<exists>k. s = s0\<lparr>
     ring := tx_run (tx_run (ring s0) (cur_tx (ring s0) + 1) (map put_cell ds)) (cur_tx (ring s0) + 1) (replicate (length ds) clear_cell),
     net_log := net_log s0 @ map map_event ds @ map unmap_event ds, kern := k\<rparr>)"

lemma run_put_txd:
  "run_state (put_txd e st o2 m l) s
   = ((), s\<lparr>ring := set_tx_slot (ring s) (unat e) (put_cell (st, o2, (m, a), l) (tx_slot (ring s) (unat e)))\<rparr>)"
  by (simp add: put_txd_def put_cell_def set_tx_slot_def tx_slot_def)

lemma run_dma_map:
  "run_state (dma_map_single K a l) s = (case k_dma_map K (kern s) a l of
       (None, k) \<Rightarrow> (None, s\<lparr>kern := k\<rparr>)
     | (Some m, k) \<Rightarrow> (Some m, s\<lparr>kern := k, net_log := net_log s @ [DmaMap a m l]\<rparr>))"
  by (simp add: dma_map_single_def)

lemma filled_put:
  assumes "filled s0 ds s" "unat e = slot_index (tx_n (ring s0)) (cur_tx (ring s0) + 1) (length ds)"
  shows "filled s0 (ds @ [(st, o2, (m, a), l)])
    (s\<lparr>kern := k, net_log := net_log s @ [DmaMap a m l],
       ring := set_tx_slot (ring s) (unat e) (put_cell (st, o2, (m, a), l) (tx_slot (ring s) (unat e)))\<rparr>)"
proof -
  let ?r0 = "ring s0" let ?x = "cur_tx ?r0 + 1"
  have r: "ring s = tx_run ?r0 ?x (map put_cell ds)" using assms(1) by (auto simp: filled_def)
  have "tx_run ?r0 ?x (map put_cell (ds @ [t])) = set_tx_slot (ring s) (unat e) (put_cell t (tx_slot (ring s) (unat e)))" for t
    using assms(2) by (simp add: r txr.run_append slot_index_def)
  then show ?thesis using assms(1) unfolding filled_def
    by (auto simp: map_event_def intro!: exI [of _ k])
qed

lemma clear_filled:
  assumes "tx_wf (ring s0)" "filled s0 ds s" "length ds \<le> tx_n (ring s0)"
    and "\<forall>c \<in> set (tx_window (ring s0) (cur_tx (ring s0) + 1) (length ds)). ri_skb (snd c) = None"
    and "\<forall>(st, o2, m, l) \<in> set ds. l \<noteq> 0"
  shows "unfilled s0 ds (snd (run_state (rtl8125_tx_clear_range (cur_tx (ring s0) + 1) (length ds)) s))"
proof -
  let ?r0 = "ring s0" let ?x = "cur_tx ?r0 + 1"
  obtain k where s: "s = s0\<lparr>ring := tx_run ?r0 ?x (map put_cell ds), net_log := net_log s0 @ map map_event ds, kern := k\<rparr>"
    using assms(2) by (auto simp: filled_def)
  have wf: "tx_wf (ring s)" "num_tx_desc (ring s) = num_tx_desc ?r0" using txr.pass_wf [OF assms(1)] by (simp_all add: s)
  have win: "tx_window (ring s) ?x (length ds) = map2 (\<lambda>f c. f c) (map put_cell ds) (tx_window ?r0 ?x (length ds))"
    using txr.pass_window [OF assms(1), of "map put_cell ds" ?x] assms(3) by (simp add: s)
  have cell: "ri_len (snd (put_cell t c)) \<noteq> 0 \<and> clear_events (put_cell t c) = [unmap_event t] \<and> clear_drops (put_cell t c) = 0"
    if "t \<in> set ds" "ri_skb (snd c) = None" for t c
    using that assms(5) by (auto simp: put_cell_def clear_events_def clear_drops_def unmap_event_def split: prod.splits)
  have ev: "concat (map clear_events (tx_window (ring s) ?x (length ds))) = map unmap_event ds
      \<and> sum_list (map clear_drops (tx_window (ring s) ?x (length ds))) = 0"
  proof -
    have *: "concat (map clear_events (map2 (\<lambda>f c. f c) (map put_cell ts) cs)) = map unmap_event ts
        \<and> sum_list (map clear_drops (map2 (\<lambda>f c. f c) (map put_cell ts) cs)) = 0"
      if "length ts = length cs" "set ts \<subseteq> set ds" "\<forall>c \<in> set cs. ri_skb (snd c) = None" for ts cs
      using that by (induction ts cs rule: list_induct2) (auto simp: cell)
    show ?thesis unfolding win by (rule *) (use assms(4) in auto)
  qed
  show ?thesis
    using run_tx_clear_range [of s "length ds" ?x] wf assms(3) ev
    by (auto simp: unfilled_def s intro!: exI [of _ k])
qed


lemma next_entry:
  assumes "n = unat (num :: u32)" "n dvd 2 ^ 32" "0 < n" "unat entry mod n = slot_index n x j"
  shows "(entry + 1) mod num = (x + 1 + of_nat j) mod num"
    "unat ((entry + 1) mod num) = slot_index n (x + 1) j"
proof -
  have "unat ((entry + 1) mod num) = slot_index n entry 1"
    using assms(1) by (simp add: unat_mod slot_index_def)
  also have "\<dots> = (unat entry mod n + 1) mod n" using assms(2) by (simp add: slot_index_eq mod_Suc_eq)
  also have "\<dots> = slot_index n (x + 1) j"
    unfolding assms(4) using assms(2) slot_index_add [of n x 1 j] by (simp add: slot_index_eq mod_Suc_eq)
  finally show e: "unat ((entry + 1) mod num) = slot_index n (x + 1) j" .
  have "unat ((x + 1 + of_nat j) mod num) = slot_index n (x + 1) j"
    using assms(1) by (simp add: unat_mod slot_index_def)
  with e show "(entry + 1) mod num = (x + 1 + of_nat j) mod num" by (metis word_unat_eq_iff)
qed

lemma lso_patch_pieces:
  assumes "i < length frags" "frags ! i = (a, l)"
  shows "lso_patch cfg opts (length frags) i cnt l \<longleftrightarrow>
    RequireLSOPatch cfg \<and> drop (Suc i) frags = [] \<and> fst opts AND (GiantSendv4 OR GiantSendv6) \<noteq> 0 \<and> cnt < ETH_FRAME_LEN \<and> 1 < l"
  using assms by (auto simp: lso_patch_def)

definition frags_result :: "('d, 'k) txq \<Rightarrow> tx_cfg \<Rightarrow> u32 \<times> u32 \<Rightarrow> txd list \<Rightarrow> (u64 \<times> u32) list \<Rightarrow> int \<times> ('d, 'k) txq \<Rightarrow> bool" where
  "frags_result s0 cfg opts dsp ps out \<longleftrightarrow>
     (\<exists>ms. length ms = length ps \<and> fst out = int (length dsp + length ps)
        \<and> filled s0 (dsp @ frag_txds (ring s0) opts (cur_tx (ring s0) + 1 + of_nat (length dsp)) ps ms) (snd out))
     \<or> (fst out = - 5 \<and> (\<exists>ds. (\<forall>(st, o2, m, l) \<in> set ds. l \<noteq> 0) \<and> length ds \<le> length dsp + length ps \<and> unfilled s0 ds (snd out)))"

definition free_ahead :: "tx_ring \<Rightarrow> nat \<Rightarrow> bool" where
  "free_ahead r m \<longleftrightarrow> tx_wf r \<and> m \<le> tx_n r \<and> (\<forall>c \<in> set (tx_window r (cur_tx r + 1) m). ri_len (snd c) = 0 \<and> ri_skb (snd c) = None)"

lemma free_ahead_le: "free_ahead r m \<Longrightarrow> k \<le> m \<Longrightarrow> free_ahead r k"
  unfolding free_ahead_def by (auto simp: window_take [of k m] dest: in_set_takeD)

definition nonzero :: "txd list \<Rightarrow> bool" where
  "nonzero ds \<longleftrightarrow> (\<forall>(st, o2, m, l) \<in> set ds. l \<noteq> 0)"

lemma filled_kern: "filled s0 ds s \<Longrightarrow> filled s0 ds (s\<lparr>kern := k\<rparr>)"
  by (auto simp: filled_def)

lemma filled_ring: "filled s0 ds s \<Longrightarrow> cur_tx (ring s) = cur_tx (ring s0) \<and> num_tx_desc (ring s) = num_tx_desc (ring s0)"
  by (auto simp: filled_def)

lemma frags_err_result:
  assumes "free_ahead (ring s0) (length dsp)" "filled s0 dsp s" "nonzero dsp" "length dsp \<le> length dsp0 + length ps"
  shows "frags_result s0 cfg opts dsp0 ps (run_state (xmit_frags_err (length dsp)) s)"
proof -
  have "unfilled s0 dsp (snd (run_state (rtl8125_tx_clear_range (cur_tx (ring s0) + 1) (length dsp)) s))"
    using assms by (intro clear_filled) (auto simp: free_ahead_def nonzero_def)
  then show ?thesis using assms(3,4) filled_ring [OF assms(2)]
    by (auto simp: frags_result_def xmit_frags_err_def nonzero_def split_beta)
qed

lemma frags_result_Cons:
  assumes "frags_result s0 cfg opts (dsp @ [d]) ps out"
    and "d = (if ps = [] then st OR LastFrag else st, snd opts, (m, a), l)"
    and "st = rtl8125_get_txd_opts1 (ring s0) (fst opts) l ((cur_tx (ring s0) + 1 + of_nat (length dsp)) mod num_tx_desc (ring s0))"
  shows "frags_result s0 cfg opts dsp ((a, l) # ps) out"
  using assms(1) unfolding frags_result_def
proof (elim disjE exE conjE)
  fix ms assume ms: "length ms = length ps" "fst out = int (length (dsp @ [d]) + length ps)"
    and f: "filled s0 ((dsp @ [d]) @ frag_txds (ring s0) opts (cur_tx (ring s0) + 1 + of_nat (length (dsp @ [d]))) ps ms) (snd out)"
  have "frag_txds (ring s0) opts (cur_tx (ring s0) + 1 + of_nat (length dsp)) ((a, l) # ps) (m # ms)
      = d # frag_txds (ring s0) opts (cur_tx (ring s0) + 1 + of_nat (length (dsp @ [d]))) ps ms"
    using assms(2,3) by (simp add: Let_def ac_simps)
  with ms f have "length (m # ms) = length ((a, l) # ps) \<and> fst out = int (length dsp + length ((a, l) # ps))
      \<and> filled s0 (dsp @ frag_txds (ring s0) opts (cur_tx (ring s0) + 1 + of_nat (length dsp)) ((a, l) # ps) (m # ms)) (snd out)"
    by simp
  then show "(\<exists>ms. length ms = length ((a, l) # ps) \<and> fst out = int (length dsp + length ((a, l) # ps)) \<and>
          filled s0 (dsp @ frag_txds (ring s0) opts (cur_tx (ring s0) + 1 + of_nat (length dsp)) ((a, l) # ps) ms) (snd out)) \<or>
     (fst out = - 5 \<and> (\<exists>ds. (\<forall>(st, o2, m, l) \<in> set ds. l \<noteq> 0) \<and> length ds \<le> length dsp + length ((a, l) # ps) \<and> unfilled s0 ds (snd out)))"
    by blast
next
  fix ds assume "fst out = - 5" "\<forall>(st, o2, m, l) \<in> set ds. l \<noteq> 0" "length ds \<le> length (dsp @ [d]) + length ps" "unfilled s0 ds (snd out)"
  then show "(\<exists>ms. length ms = length ((a, l) # ps) \<and> fst out = int (length dsp + length ((a, l) # ps)) \<and>
          filled s0 (dsp @ frag_txds (ring s0) opts (cur_tx (ring s0) + 1 + of_nat (length dsp)) ((a, l) # ps) ms) (snd out)) \<or>
     (fst out = - 5 \<and> (\<exists>ds. (\<forall>(st, o2, m, l) \<in> set ds. l \<noteq> 0) \<and> length ds \<le> length dsp + length ((a, l) # ps) \<and> unfilled s0 ds (snd out)))"
    by auto
qed

lemma frags_loop_end:
  assumes "length frags \<le> length dsp" "filled s0 dsp s"
  shows "frags_result s0 cfg opts dsp [] (run_state (xmit_frags_loop K cfg frags opts (length dsp) entry cnt) s)"
  using assms by (subst xmit_frags_loop.simps) (auto simp: frags_result_def)

lemma opts1_ring: "filled s0 dsp s \<Longrightarrow> rtl8125_get_txd_opts1 (ring s) = rtl8125_get_txd_opts1 (ring s0)"
  by (auto simp: rtl8125_get_txd_opts1_def filled_def fun_eq_iff)

text \<open>The hypotheses of the loop at fragment \<open>i\<close>, with the cells filled so far and the entry used last.\<close>

definition frag_pre :: "('d, 'k) txq \<Rightarrow> (u64 \<times> u32) list \<Rightarrow> nat \<Rightarrow> txd list \<Rightarrow> u32 \<Rightarrow> ('d, 'k) txq \<Rightarrow> bool" where
  "frag_pre s0 ps i dsp entry s \<longleftrightarrow> free_ahead (ring s0) (i + length ps) \<and> filled s0 dsp s \<and> nonzero dsp \<and> length dsp = i
     \<and> unat entry mod tx_n (ring s0) = slot_index (tx_n (ring s0)) (cur_tx (ring s0)) i"

lemma frag_pre_put:
  assumes "frag_pre s0 (p # ps) i dsp entry s" "l \<noteq> 0"
    and "e = (entry + 1) mod num_tx_desc (ring s0)"
  shows "frag_pre s0 ps (Suc i) (dsp @ [(st, o2, (m, a), l)]) e
    (s\<lparr>kern := k, net_log := net_log s @ [DmaMap a m l],
       ring := set_tx_slot (ring s) (unat e) (put_cell (st, o2, (m, a), l) (tx_slot (ring s) (unat e)))\<rparr>)"
    and "e = (cur_tx (ring s0) + 1 + of_nat i) mod num_tx_desc (ring s0)"
proof -
  have pre: "free_ahead (ring s0) (i + length (p # ps))" "filled s0 dsp s" "nonzero dsp" "length dsp = i"
    "unat entry mod tx_n (ring s0) = slot_index (tx_n (ring s0)) (cur_tx (ring s0)) i"
    using assms(1) by (auto simp: frag_pre_def)
  have n: "tx_n (ring s0) dvd 2 ^ 32" "0 < tx_n (ring s0)" using pre(1) txr.wf_size by (auto simp: free_ahead_def)
  note e = next_entry [OF refl n pre(5)]
  show "e = (cur_tx (ring s0) + 1 + of_nat i) mod num_tx_desc (ring s0)" using e(1) assms(3) by simp
  have "filled s0 (dsp @ [(st, o2, (m, a), l)]) (s\<lparr>kern := k, net_log := net_log s @ [DmaMap a m l],
       ring := set_tx_slot (ring s) (unat e) (put_cell (st, o2, (m, a), l) (tx_slot (ring s) (unat e)))\<rparr>)"
    using pre(4) e(2) assms(3) by (intro filled_put pre(2)) simp
  moreover have "unat e mod tx_n (ring s0) = slot_index (tx_n (ring s0)) (cur_tx (ring s0)) (Suc i)"
    using e(2) n assms(3) by (simp add: slot_index_Suc slot_index_less)
  ultimately show "frag_pre s0 ps (Suc i) (dsp @ [(st, o2, (m, a), l)]) e
    (s\<lparr>kern := k, net_log := net_log s @ [DmaMap a m l],
       ring := set_tx_slot (ring s) (unat e) (put_cell (st, o2, (m, a), l) (tx_slot (ring s) (unat e)))\<rparr>)"
    using pre assms(2) by (simp add: frag_pre_def nonzero_def)
qed

lemma frag_pre_err:
  assumes "frag_pre s0 ps i dsp entry s" "i \<le> length dsp0 + length ps0"
  shows "frags_result s0 cfg opts dsp0 ps0 (run_state (xmit_frags_err i) (s\<lparr>kern := k\<rparr>))"
  using frags_err_result [of s0 dsp "s\<lparr>kern := k\<rparr>" dsp0 ps0] assms free_ahead_le [of "ring s0" "i + length ps" i]
  by (auto simp: frag_pre_def filled_kern)

lemma frag_pre_ring:
  assumes "frag_pre s0 ps i dsp entry s"
  shows "num_tx_desc (ring s) = num_tx_desc (ring s0)" "rtl8125_get_txd_opts1 (ring s) = rtl8125_get_txd_opts1 (ring s0)"
  using assms filled_ring opts1_ring by (auto simp: frag_pre_def)

lemma frags_step_plain:
  assumes pre: "frag_pre s0 ((a, l) # ps) i dsp entry s" and i: "i < length frags" "frags ! i = (a, l)" "l \<noteq> 0"
    and nl: "\<not> lso_patch cfg opts (length frags) i cnt l" and p0: "ps = [] \<longleftrightarrow> i = length frags - 1"
    and rec: "\<And>d e s'. frag_pre s0 ps (Suc i) (dsp @ [d]) e s' \<Longrightarrow>
      frags_result s0 cfg opts (dsp @ [d]) ps (run_state (xmit_frags_loop K cfg frags opts (Suc i) e (cnt + ucast l)) s')"
  shows "frags_result s0 cfg opts dsp ((a, l) # ps) (run_state (xmit_frags_loop K cfg frags opts i entry cnt) s)"
proof (cases "k_dma_map K (kern s) a l")
  case (Pair mo k)
  have len: "length dsp = i" using pre by (simp add: frag_pre_def)
  have p1: "i = length frags - Suc 0 \<longleftrightarrow> ps = []" using p0 by simp
  show ?thesis
  proof (cases mo)
    case None
    then show ?thesis
      using i nl Pair frag_pre_err [OF pre, of dsp "(a, l) # ps" cfg opts k] len
      by (subst xmit_frags_loop.simps) (simp add: run_dma_map Let_def)
  next
    case (Some m)
    let ?e = "(entry + 1) mod num_tx_desc (ring s0)"
    let ?st = "rtl8125_get_txd_opts1 (ring s0) (fst opts) l ?e"
    let ?d = "(if ps = [] then ?st OR LastFrag else ?st, snd opts, (m, a), l)"
    let ?s = "s\<lparr>kern := k, net_log := net_log s @ [DmaMap a m l],
      ring := set_tx_slot (ring s) (unat ?e) (put_cell ?d (tx_slot (ring s) (unat ?e)))\<rparr>"
    have "frags_result s0 cfg opts (dsp @ [?d]) ps (run_state (xmit_frags_loop K cfg frags opts (Suc i) ?e (cnt + ucast l)) ?s)"
      by (rule rec [OF frag_pre_put(1) [OF pre i(3) refl]])
    then have "frags_result s0 cfg opts dsp ((a, l) # ps) (run_state (xmit_frags_loop K cfg frags opts (Suc i) ?e (cnt + ucast l)) ?s)"
      by (rule frags_result_Cons) (use frag_pre_put(2) [OF pre i(3) refl] len in auto)
    then show ?thesis
      using i nl Pair Some frag_pre_ring [OF pre]
      by (subst xmit_frags_loop.simps) (simp add: run_dma_map run_put_txd [where a = a] Let_def p1 cong: if_cong split del: if_split)
  qed
qed

lemma frags_lso_second:
  assumes pre: "frag_pre s0 [(b, 1)] (Suc i) dsp entry s" and len: "length frags = Suc i"
    and e: "e = (entry + 1) mod num_tx_desc (ring s0)"
  shows "frags_result s0 cfg opts dsp [(b, 1)] (run_state (do {
      m \<leftarrow> dma_map_single K b 1;
      case m of None \<Rightarrow> xmit_frags_err (Suc i)
      | Some mapping \<Rightarrow> do {
          put_txd e (rtl8125_get_txd_opts1 (ring s0) (fst opts) 1 e OR LastFrag) (snd opts) mapping 1;
          xmit_frags_loop K cfg frags opts (Suc (Suc i)) e (cnt + 1) } }) s)"
proof (cases "k_dma_map K (kern s) b 1")
  case (Pair mo k)
  have ld: "length dsp = Suc i" using pre by (simp add: frag_pre_def)
  show ?thesis
  proof (cases mo)
    case None
    then show ?thesis using Pair frag_pre_err [OF pre, of dsp "[(b, 1)]" cfg opts k] ld by (simp add: run_dma_map)
  next
    case (Some m)
    let ?d = "(rtl8125_get_txd_opts1 (ring s0) (fst opts) 1 e OR LastFrag, snd opts, (m, b), 1 :: u32)"
    let ?s = "s\<lparr>kern := k, net_log := net_log s @ [DmaMap b m 1],
      ring := set_tx_slot (ring s) (unat e) (put_cell ?d (tx_slot (ring s) (unat e)))\<rparr>"
    have "frag_pre s0 [] (Suc (Suc i)) (dsp @ [?d]) e ?s" by (rule frag_pre_put(1) [OF pre _ e]) simp
    then have "frags_result s0 cfg opts (dsp @ [?d]) [] (run_state (xmit_frags_loop K cfg frags opts (Suc (Suc i)) e (cnt + 1)) ?s)"
      using frags_loop_end [of frags "dsp @ [?d]" s0 ?s cfg opts K e "cnt + 1"] len ld by (simp add: frag_pre_def)
    then have "frags_result s0 cfg opts dsp [(b, 1)] (run_state (xmit_frags_loop K cfg frags opts (Suc (Suc i)) e (cnt + 1)) ?s)"
      using frag_pre_put(2) [OF pre _ e, of 1] ld by (intro frags_result_Cons [where d = ?d and m = m]) auto
    then show ?thesis using Pair Some by (simp add: run_dma_map run_put_txd [where a = b])
  qed
qed

lemma frags_step_lso:
  assumes pre: "frag_pre s0 [(a, l - 1), (a + ucast (l - 1), 1)] i dsp entry s" and i: "i < length frags" "frags ! i = (a, l)"
    and lp: "lso_patch cfg opts (length frags) i cnt l"
  shows "frags_result s0 cfg opts dsp [(a, l - 1), (a + ucast (l - 1), 1)] (run_state (xmit_frags_loop K cfg frags opts i entry cnt) s)"
proof (cases "k_dma_map K (kern s) a (l - 1)")
  case (Pair mo k)
  let ?l = "l - 1" let ?b = "a + ucast ?l"
  have len: "length dsp = i" using pre by (simp add: frag_pre_def)
  have l1: "1 < l" "length frags = Suc i" using lp i(1) by (auto simp: lso_patch_def)
  then have l0: "?l \<noteq> 0" by (metis eq_iff_diff_eq_0 less_irrefl)
  show ?thesis
  proof (cases mo)
    case None
    then show ?thesis
      using i lp Pair frag_pre_err [OF pre, of dsp "[(a, ?l), (?b, 1)]" cfg opts k] len
      by (subst xmit_frags_loop.simps) (simp add: run_dma_map Let_def)
  next
    case (Some m)
    let ?e = "(entry + 1) mod num_tx_desc (ring s0)"
    let ?d = "(rtl8125_get_txd_opts1 (ring s0) (fst opts) ?l ?e, snd opts, (m, a), ?l)"
    let ?s = "s\<lparr>kern := k, net_log := net_log s @ [DmaMap a m ?l],
      ring := set_tx_slot (ring s) (unat ?e) (put_cell ?d (tx_slot (ring s) (unat ?e)))\<rparr>"
    have pre2: "frag_pre s0 [(?b, 1)] (Suc i) (dsp @ [?d]) ?e ?s" by (rule frag_pre_put(1) [OF pre l0 refl])
    note second = frags_lso_second [OF pre2 l1(2) refl, of cfg opts K cnt]
    have "frags_result s0 cfg opts dsp [(a, ?l), (?b, 1)] (run_state (do {
      m \<leftarrow> dma_map_single K ?b 1;
      case m of None \<Rightarrow> xmit_frags_err (Suc i)
      | Some mapping \<Rightarrow> do {
          put_txd ((?e + 1) mod num_tx_desc (ring s0)) (rtl8125_get_txd_opts1 (ring s0) (fst opts) 1 ((?e + 1) mod num_tx_desc (ring s0)) OR LastFrag) (snd opts) mapping 1;
          xmit_frags_loop K cfg frags opts (Suc (Suc i)) ((?e + 1) mod num_tx_desc (ring s0)) (cnt + 1) } }) ?s)"
      by (rule frags_result_Cons [OF second]) (use frag_pre_put(2) [OF pre l0 refl] len in auto)
    then show ?thesis
      using i lp Pair Some frag_pre_ring [OF pre]
      by (subst xmit_frags_loop.simps) (simp add: run_dma_map [of K a "l - 1" s] run_put_txd [where a = a] Let_def)
  qed
qed

lemma frags_loop_result:
  assumes "frag_pre s0 (pieces cfg (fst opts) (drop i frags) cnt) i dsp entry s" "i \<le> length frags"
    and "\<forall>(a, l) \<in> set frags. l \<noteq> 0"
  shows "frags_result s0 cfg opts dsp (pieces cfg (fst opts) (drop i frags) cnt)
    (run_state (xmit_frags_loop K cfg frags opts i entry cnt) s)"
  using assms
proof (induction "length frags - i" arbitrary: i entry cnt dsp s rule: less_induct)
  case less
  have len: "length dsp = i" using less.prems(1) by (simp add: frag_pre_def)
  show ?case
  proof (cases "i < length frags")
    case False
    then show ?thesis using less.prems frags_loop_end [of frags dsp s0 s cfg opts K entry cnt] len by (auto simp: frag_pre_def)
  next
    case True
    obtain a l where al: "frags ! i = (a, l)" by (cases "frags ! i")
    have l0: "l \<noteq> 0" using less.prems(3) True al nth_mem by fastforce
    have d: "drop i frags = (a, l) # drop (Suc i) frags" using True al by (metis Cons_nth_drop_Suc)
    show ?thesis
    proof (cases "lso_patch cfg opts (length frags) i cnt l")
      case nl: False
      let ?ps = "pieces cfg (fst opts) (drop (Suc i) frags) (cnt + ucast l)"
      have ps: "pieces cfg (fst opts) (drop i frags) cnt = (a, l) # ?ps"
        using nl lso_patch_pieces [OF True al, of cfg opts cnt] d by auto
      have "?ps = [] \<longleftrightarrow> i = length frags - 1"
        using True by (cases "drop (Suc i) frags" rule: list.exhaust) (auto split: if_splits)
      then show ?thesis
        using less.prems True al l0 nl unfolding ps by (intro frags_step_plain less.hyps) auto
    next
      case True
      then have "pieces cfg (fst opts) (drop i frags) cnt = [(a, l - 1), (a + ucast (l - 1), 1)]"
        using lso_patch_pieces [OF \<open>i < length frags\<close> al, of cfg opts cnt] d by auto
      then show ?thesis using less.prems(1) True al \<open>i < length frags\<close> by (metis frags_step_lso)
    qed
  qed
qed

section \<open>What the kernel promises, and a packet's preparation\<close>

text \<open>
  A packet fit for the ring: a non-empty linear part, non-empty fragments, at most the kernel's
  number of them, every length within the descriptor's sixteen bits, the lengths adding up.
\<close>

definition skb_ok :: "'k kernel \<Rightarrow> sk_buff \<Rightarrow> bool" where
  "skb_ok K b \<longleftrightarrow> skb_headlen b \<noteq> 0 \<and> skb_len b < 0x10000
     \<and> length (skb_frags b) \<le> MAX_SKB_FRAGS K
     \<and> (\<forall>(a, l) \<in> set (skb_frags b). l \<noteq> 0 \<and> l < 0x10000)
     \<and> unat (skb_len b) = unat (skb_headlen b) + sum_list (map (unat \<circ> snd) (skb_frags b))"

text \<open>
  Documented behaviour of the kernel: \<open>skb_padto\<close> to a greater length keeps the length and leaves the
  buffer linear; \<open>eth_skb_pad\<close> of a short frame makes it 60 bytes, linear; \<open>skb_cow_head\<close> may give the
  buffer a new head, of the same length, and keeps the fragments; \<open>skb_checksum_help\<close> may move bytes of
  the fragments to the head, even all of them, and leaves a packet of the same length fit for the ring.
\<close>

definition kernel_ok :: "'k kernel \<Rightarrow> bool" where
  "kernel_ok K \<longleftrightarrow>
     (\<forall>k b n b' k'. k_padto K k b n = (Some b', k') \<longrightarrow> skb_len b < n \<longrightarrow>
        skb_id b' = skb_id b \<and> skb_len b' = skb_len b \<and> skb_headlen b' = skb_len b \<and> skb_frags b' = [])
     \<and> (\<forall>k b b' k'. k_eth_pad K k b = (Some b', k') \<longrightarrow> skb_len b < 60 \<longrightarrow>
        skb_id b' = skb_id b \<and> skb_len b' = 60 \<and> skb_headlen b' = 60 \<and> skb_frags b' = [])
     \<and> (\<forall>k b b' k'. k_cow_head K k b = (Some b', k') \<longrightarrow>
        skb_id b' = skb_id b \<and> skb_len b' = skb_len b \<and> skb_headlen b' = skb_headlen b \<and> skb_frags b' = skb_frags b)
     \<and> (\<forall>k b. skb_ok K b \<longrightarrow> (let b' = fst (k_checksum_help K k b) in
        skb_ok K b' \<and> skb_id b' = skb_id b \<and> skb_len b' = skb_len b \<and> length (skb_frags b') \<le> length (skb_frags b)))"

text \<open>
  The buffers that a packet \<open>b\<close> becomes while it is prepared: what the kernel returned for it, grown to the
  length asked for after \<open>skb_padto\<close>, with the checksum field set after \<open>skb_cow_head\<close>, and nothing else.
\<close>

inductive kernel_made :: "'k kernel \<Rightarrow> sk_buff \<Rightarrow> sk_buff \<Rightarrow> bool" for K b where
  same: "kernel_made K b b"
| padded: "kernel_made K b c \<Longrightarrow> k_padto K k c n = (Some d, k') \<Longrightarrow> kernel_made K b (skb_put d (n - skb_len d))"
| eth_padded: "kernel_made K b c \<Longrightarrow> k_eth_pad K k c = (Some d, k') \<Longrightarrow> kernel_made K b d"
| cowed: "kernel_made K b c \<Longrightarrow> k_cow_head K k c = (Some d, k') \<Longrightarrow> kernel_made K b (d\<lparr>tcp_check := NOT (k_tcp_v6_check K d)\<rparr>)"
| helped: "kernel_made K b c \<Longrightarrow> kernel_made K b (fst (k_checksum_help K k c))"

lemma kernel_made_trans: "kernel_made K b c \<Longrightarrow> kernel_made K a b \<Longrightarrow> kernel_made K a c"
  by (induction rule: kernel_made.induct) (auto intro: kernel_made.intros)

text \<open>The kernel has failed to pad the packet, or what it had become, and thereby freed it.\<close>

definition pad_failure :: "'k kernel \<Rightarrow> sk_buff \<Rightarrow> bool" where
  "pad_failure K b \<longleftrightarrow> (\<exists>c k. kernel_made K b c \<and> ((\<exists>n. fst (k_padto K k c n) = None) \<or> fst (k_eth_pad K k c) = None))"

lemma pad_failure_made: "kernel_made K b c \<Longrightarrow> pad_failure K c \<Longrightarrow> pad_failure K b"
  unfolding pad_failure_def using kernel_made_trans by blast

text \<open>The buffer that is sent in the end: the same one, not shorter, with no more fragments.\<close>

definition prepared :: "'k kernel \<Rightarrow> sk_buff \<Rightarrow> sk_buff \<Rightarrow> bool" where
  "prepared K b b' \<longleftrightarrow> skb_ok K b' \<and> skb_id b' = skb_id b \<and> skb_len b \<le> skb_len b' \<and> length (skb_frags b') \<le> length (skb_frags b)
     \<and> kernel_made K b b'"

lemma prepared_refl: "skb_ok K b \<Longrightarrow> prepared K b b"
  by (simp add: prepared_def kernel_made.same)

lemma prepared_trans: "prepared K a b \<Longrightarrow> prepared K b c \<Longrightarrow> prepared K a c"
  using kernel_made_trans [of K b c a] by (auto simp: prepared_def)

lemma prepared_linear:
  assumes "skb_id b' = skb_id b" "skb_len b \<le> skb_len b'" "skb_headlen b' = skb_len b'" "skb_frags b' = []"
    "skb_len b' \<noteq> 0" "skb_len b' < 0x10000" "kernel_made K b b'"
  shows "prepared K b b'"
  using assms by (simp add: prepared_def skb_ok_def)

lemma prepared_cow:
  assumes "kernel_ok K" "skb_ok K b" "k_cow_head K k b = (Some d, k')"
  shows "prepared K b (d\<lparr>tcp_check := NOT (k_tcp_v6_check K d)\<rparr>)"
proof -
  have "skb_id d = skb_id b" "skb_len d = skb_len b" "skb_headlen d = skb_headlen b" "skb_frags d = skb_frags b"
    using assms(1,3) unfolding kernel_ok_def by blast+
  then show ?thesis
    using assms(2) kernel_made.cowed [OF kernel_made.same assms(3)] by (simp add: prepared_def skb_ok_def)
qed

lemma pad_out_bound:
  assumes "(x :: u32) < 175" "y \<le> 47"
  shows "(if x + y < 60 then 60 - x else y) \<le> 60"
proof -
  have xy: "unat x < 175" "unat y \<le> 47" using assms by (simp_all add: word_less_nat_alt word_le_nat_alt)
  then have "unat (x + y) = unat x + unat y" by (simp add: unat_word_ariths)
  moreover have "unat (60 - x) = 60 - unat x" if "unat x \<le> 60" using that by (subst unat_sub) (simp_all add: word_le_nat_alt)
  ultimately show ?thesis using xy by (auto simp: word_less_nat_alt word_le_nat_alt)
qed

lemma udp_pad_bound:
  assumes "3 < sint (t :: u32)" "sint t < 47"
  shows "47 - t \<le> 47"
proof -
  have "uint t = sint t" using assms by (simp add: uint_sint take_bit_int_eq_self)
  then have "unat t \<le> 47" using assms by (simp add: unat_eq_nat_uint)
  then have "unat (47 - t) = 47 - unat t" by (subst unat_sub) (simp_all add: word_le_nat_alt)
  then show ?thesis by (simp add: word_le_nat_alt)
qed

lemma hdr_pad_bound:
  assumes "(t :: u32) < h" "h \<le> 20"
  shows "h - t \<le> 47"
proof -
  have "unat (h - t) = unat h - unat t" using assms(1) by (intro unat_sub) simp
  then show ?thesis using assms(2) by (simp add: word_le_nat_alt)
qed

lemma patch_pad_len_cases:
  "rtl8125_get_patch_pad_len p b = 0 \<or>
   (skb_len b < 175 \<and> (\<exists>y \<le> 47. rtl8125_get_patch_pad_len p b = (if skb_len b + y < 60 then 60 - skb_len b else y)))"
proof (cases "rtl8125_require_pad_ptp_pkt p \<and> transport_set b \<and> skb_len b < 175 \<and>
    (rtl8125_get_l4_protocol b = IPPROTO_TCP \<or> rtl8125_get_l4_protocol b = IPPROTO_UDP)")
  case True
  define t where "t = skb_len b - word_of_int (skb_transport b)"
  define h where "h = (if rtl8125_get_l4_protocol b = IPPROTO_TCP then 20 else if rtl8125_get_l4_protocol b = IPPROTO_UDP then 8 else 0 :: u32)"
  define y where "y = (if rtl8125_get_l4_protocol b = IPPROTO_UDP \<and> 3 < sint t \<and> sint t < 47 \<and> (l4_dest b = 0x13f \<or> l4_dest b = 0x140)
    then 47 - t else if t < h then h - t else 0)"
  have "h \<le> 20" by (simp add: h_def)
  then have "y \<le> 47" using udp_pad_bound [of t] hdr_pad_bound [of t h] by (simp add: y_def)
  moreover have "rtl8125_get_patch_pad_len p b = (if skb_len b + y < 60 then 60 - skb_len b else y)"
    unfolding rtl8125_get_patch_pad_len_def Let_def MIN_PATCH_LEN_def t_def [symmetric] h_def [symmetric] y_def
    using True by auto
  ultimately show ?thesis using True by blast
next
  case False
  then show ?thesis by (auto simp: rtl8125_get_patch_pad_len_def Let_def)
qed

lemma patch_pad_len_bound:
  assumes "0 < rtl8125_get_patch_pad_len p b"
  shows "skb_len b < 175 \<and> rtl8125_get_patch_pad_len p b \<le> 60"
  using patch_pad_len_cases [of p b] pad_out_bound [of "skb_len b"] assms by fastforce

lemma kernel_padto:
  assumes "kernel_ok K" "k_padto K k b n = (Some b', k')" "skb_len b < n"
  shows "skb_id b' = skb_id b" "skb_len b' = skb_len b" "skb_headlen b' = skb_len b" "skb_frags b' = []"
  using assms unfolding kernel_ok_def by blast+

lemma kernel_eth_pad:
  assumes "kernel_ok K" "k_eth_pad K k b = (Some b', k')" "skb_len b < 60"
  shows "skb_id b' = skb_id b" "skb_len b' = 60" "skb_headlen b' = 60" "skb_frags b' = []"
  using assms unfolding kernel_ok_def by blast+

definition giant_bits_ok :: "u32 \<Rightarrow> bool" where
  "giant_bits_ok o1 \<longleftrightarrow> o1 AND DescOwn = DescOwn \<and> o1 AND 0x7003FFFF = 0"

definition kern_only :: "('d, 'k) txq \<Rightarrow> ('d, 'k) txq \<Rightarrow> bool" where
  "kern_only s s' \<longleftrightarrow> (\<exists>k. s' = s\<lparr>kern := k\<rparr>)"

text \<open>
  The outcome of the preparation: the buffer to send, or none, with the buffer still the driver's or
  already freed by the kernel's failed padding.
\<close>

definition tso_outcome :: "'k kernel \<Rightarrow> bool \<Rightarrow> sk_buff \<Rightarrow> ('d, 'k) txq \<Rightarrow> tso_result \<Rightarrow> ('d, 'k) txq \<Rightarrow> bool" where
  "tso_outcome K large b s t s' \<longleftrightarrow> (case t of
       Some (b', opts, bc, segs) \<Rightarrow> prepared K b b' \<and> giant_bits_ok (fst opts) \<and> (\<not> large \<longrightarrow> fst opts = DescOwn) \<and> kern_only s s'
     | None \<Rightarrow> kern_only s s'
         \<or> (\<not> large \<and> pad_failure K b \<and> kern_only (s\<lparr>net_log := net_log s @ [SkbPadFree (skb_id b)]\<rparr>) s'))"


lemma giant_bits_send:
  assumes "x \<le> GTTCPHO_MAX" "f \<in> {GiantSendv4, GiantSendv6}"
  shows "giant_bits_ok (DescOwn OR f OR push_bit GTTCPHO_SHIFT x)"
proof -
  have "list_all (\<lambda>m. giant_bits_ok (DescOwn OR GiantSendv4 OR push_bit GTTCPHO_SHIFT (of_nat m))) [0..<113]"
    "list_all (\<lambda>m. giant_bits_ok (DescOwn OR GiantSendv6 OR push_bit GTTCPHO_SHIFT (of_nat m))) [0..<113]"
    by code_simp+
  then have all: "list_all (\<lambda>m. giant_bits_ok (DescOwn OR f OR push_bit GTTCPHO_SHIFT (of_nat m))) [0..<113]"
    using assms(2) by auto
  have "unat x < 113" using assms(1) by (simp add: GTTCPHO_MAX_def word_le_nat_alt)
  moreover have "\<forall>m < 113. giant_bits_ok (DescOwn OR f OR push_bit GTTCPHO_SHIFT (of_nat m))"
    using all by (simp add: list_all_iff)
  ultimately have "giant_bits_ok (DescOwn OR f OR push_bit GTTCPHO_SHIFT (of_nat (unat x)))" by blast
  then show ?thesis by simp
qed

lemma giant_bits_plain: "giant_bits_ok DescOwn"
  by (simp add: giant_bits_ok_def DescOwn_def)

lemma kern_only_refl: "kern_only s s"
  by (auto simp: kern_only_def intro: exI [of _ "kern s"])

lemma kern_only_trans: "kern_only s s' \<Longrightarrow> kern_only s' s'' \<Longrightarrow> kern_only s s''"
  by (auto simp: kern_only_def)

lemma kern_only_upd: "kern_only s (s\<lparr>kern := k\<rparr>)"
  by (auto simp: kern_only_def)

lemma kern_only_freed: "kern_only (s\<lparr>net_log := l\<rparr>) (s\<lparr>kern := k, net_log := l\<rparr>)"
  by (auto simp: kern_only_def intro: exI [of _ k])

lemma giant_send_bits:
  "f \<in> {GiantSendv4, GiantSendv6} \<Longrightarrow> giant_send f b (DescOwn, v) = Some opts \<Longrightarrow> giant_bits_ok (fst opts)"
  using giant_bits_send [of "word_of_int (skb_transport b)" f] by (auto simp: giant_send_def Let_def split: if_splits)

lemma tso_finish_outcome:
  assumes "skb_ok K b" "prepared K b b'" "f \<in> {GiantSendv4, GiantSendv6}" "kern_only s s'"
  shows "tso_outcome K True b s (tso_finish b' bc (giant_send f b' (DescOwn, v))) s'"
  using assms giant_send_bits [OF assms(3), of b' v]
  by (auto simp: tso_outcome_def tso_finish_def Let_def split: option.splits)

lemma tso_branch_outcome:
  assumes "kernel_ok K" "skb_ok K b" "run_state (tso_branch K b (DescOwn, v) bc) s = (t, s')"
  shows "tso_outcome K True b s t s'"
proof -
  have n: "tso_outcome K True b s None s''" if "kern_only s s''" for s'' using that by (simp add: tso_outcome_def)
  have v4: "tso_outcome K True b s (tso_finish b bc (giant_send GiantSendv4 b (DescOwn, v))) s"
    by (rule tso_finish_outcome [OF assms(2) prepared_refl [OF assms(2)] _ kern_only_refl]) simp
  have v6: "tso_outcome K True b s (tso_finish (d\<lparr>tcp_check := NOT (k_tcp_v6_check K d)\<rparr>) bc
      (giant_send GiantSendv6 (d\<lparr>tcp_check := NOT (k_tcp_v6_check K d)\<rparr>) (DescOwn, v))) (s\<lparr>kern := k\<rparr>)"
    if "k_cow_head K (kern s) b = (Some d, k)" for d k
    by (rule tso_finish_outcome [OF assms(2) prepared_cow [OF assms(1,2) that] _ kern_only_upd]) simp
  show ?thesis
    using assms(3) v4 v6 n [OF kern_only_refl] n [OF kern_only_upd]
    by (auto simp: tso_branch_def msdn_giant_send_check_def split: if_splits prod.splits option.splits)
qed

text \<open>A padding step: the buffer goes on as prepared, or the kernel has freed it.\<close>

definition pad_outcome :: "'k kernel \<Rightarrow> sk_buff \<Rightarrow> ('d, 'k) txq \<Rightarrow> (sk_buff \<times> bool) option \<Rightarrow> ('d, 'k) txq \<Rightarrow> bool" where
  "pad_outcome K b s t s' \<longleftrightarrow> (case t of Some (b', sw) \<Rightarrow> prepared K b b' \<and> kern_only s s'
     | None \<Rightarrow> pad_failure K b \<and> kern_only (s\<lparr>net_log := net_log s @ [SkbPadFree (skb_id b)]\<rparr>) s')"

lemma pad_failure_now:
  "k_padto K k b n = (None, k') \<Longrightarrow> pad_failure K b" "k_eth_pad K k b = (None, k') \<Longrightarrow> pad_failure K b"
  unfolding pad_failure_def using kernel_made.same by (metis fst_conv)+

lemma patch_pad_outcome:
  assumes "kernel_ok K" "skb_ok K b" "run_state (patch_pad K chk cmd b) s = (t, s')"
  shows "pad_outcome K b s t s'"
proof (cases "chk \<and> 0 < rtl8125_get_patch_pad_len (priv s) b")
  case False
  then show ?thesis using assms(2,3) by (auto simp: patch_pad_def Let_def pad_outcome_def prepared_refl kern_only_refl)
next
  case True
  let ?p = "rtl8125_get_patch_pad_len (priv s) b"
  have b: "unat (skb_len b) < 175" "0 < unat ?p" "unat ?p \<le> 60"
    using patch_pad_len_bound [of "priv s" b] True by (auto simp: word_less_nat_alt word_le_nat_alt)
  then have sum: "unat (skb_len b + ?p) = unat (skb_len b) + unat ?p" by (simp add: unat_word_ariths)
  have lin: "prepared K b (skb_put b' (skb_len b + ?p - skb_len b'))"
    if "k_padto K k b (skb_len b + ?p) = (Some b', k')" for k k' b'
  proof -
    have "skb_id b' = skb_id b" "skb_len b' = skb_len b" "skb_headlen b' = skb_len b" "skb_frags b' = []"
      using kernel_padto [OF assms(1) that] b sum by (simp_all add: word_less_nat_alt)
    moreover have "skb_len b \<le> skb_len b + ?p" "skb_len b + ?p < 0x10000" "skb_len b + ?p \<noteq> 0"
      using b sum by (simp_all add: word_less_nat_alt word_le_nat_alt word_unat_eq_iff)
    ultimately show ?thesis
      using kernel_made.padded [OF kernel_made.same that] by (intro prepared_linear) (simp_all add: skb_put_def)
  qed
  show ?thesis
    using assms(3) True lin
    by (auto simp: pad_failure_now patch_pad_def Let_def rtl8125_skb_pad_with_len_def pad_result_def pad_outcome_def kern_only_freed kern_only_upd
        split: prod.splits option.splits)
qed

lemma short_pad_outcome:
  assumes "kernel_ok K" "skb_ok K b" "run_state (short_pad K cfg cmd b) s = (t, s')"
  shows "pad_outcome K b s t s'"
proof (cases "skb_len b < ETH_ZLEN \<and> (UseSwPaddingShortPkt cfg \<or> (ShortPacketSwChecksum cfg \<and> cmd \<noteq> 0))")
  case False
  then show ?thesis using assms(2,3) by (auto simp: short_pad_def pad_outcome_def prepared_refl kern_only_refl)
next
  case True
  have lin: "prepared K b b'" if "k_eth_pad K k b = (Some b', k')" for k k' b'
    using kernel_eth_pad [OF assms(1) that] True kernel_made.eth_padded [OF kernel_made.same that] by (intro prepared_linear) auto
  show ?thesis
    using assms(3) True lin
    by (auto simp: pad_failure_now short_pad_def rtl8125_skb_pad_def pad_result_def pad_outcome_def kern_only_freed kern_only_upd split: prod.splits option.splits)
qed

lemma csum_finish_outcome:
  assumes "kernel_ok K" "skb_ok K b" "run_state (csum_finish K sw cmd b (DescOwn, v) bc) s = (t, s')"
  shows "tso_outcome K False b s t s'"
proof -
  have "prepared K b (fst (k_checksum_help K k b))" for k
    using assms(1,2) kernel_made.helped [OF kernel_made.same, of K b k] unfolding kernel_ok_def Let_def prepared_def by simp
  then have "prepared K b c" if "k_checksum_help K k b = (c, k')" for k c k' by (metis that fst_conv)
  then show ?thesis using assms(2,3)
    by (auto simp: csum_finish_def tso_outcome_def giant_bits_plain prepared_refl kern_only_refl kern_only_upd split: if_splits prod.splits)
qed

lemma pad_then:
  assumes "pad_outcome K b s (Some (b', sw)) s1" "skb_ok K b' \<Longrightarrow> tso_outcome K False b' s1 t s'"
  shows "tso_outcome K False b s t s'"
proof -
  have 1: "prepared K b b'" "kern_only s s1" using assms(1) by (auto simp: pad_outcome_def)
  have "kern_only (s\<lparr>net_log := net_log s @ [SkbPadFree (skb_id b)]\<rparr>) s'"
    if "kern_only (s1\<lparr>net_log := net_log s1 @ [SkbPadFree (skb_id b')]\<rparr>) s'"
    using that 1 by (auto simp: kern_only_def prepared_def)
  then show ?thesis
    using 1 assms(2) prepared_trans [OF 1(1)] kern_only_trans [OF 1(2)] pad_failure_made [of K b b']
    by (auto simp: tso_outcome_def prepared_def split: option.splits)
qed

lemma pad_fails: "pad_outcome K b s None s' \<Longrightarrow> tso_outcome K False b s None s'"
  by (simp add: pad_outcome_def tso_outcome_def)

lemma tso_csum_outcome:
  assumes "kernel_ok K" "skb_ok K b" "run_state (rtl8125_tso_csum K cfg b (DescOwn, v) bc) s = (t, s')"
  shows "tso_outcome K (feature_tso cfg \<and> gso_size b \<noteq> 0) b s t s'"
proof (cases "feature_tso cfg \<and> gso_size b \<noteq> 0")
  case True
  then show ?thesis using assms tso_branch_outcome by (auto simp: rtl8125_tso_csum_def)
next
  case False
  then have small: "(feature_tso cfg \<and> gso_size b \<noteq> 0) = False" by simp
  obtain ip cmd where c: "(if csum_partial b then csum_command cfg b else (IPPROTO_RAW, 0)) = (ip, cmd)" by fastforce
  define chk where "chk = (\<not> (csum_partial b \<and> ip = IPPROTO_TCP))"
  obtain p1 s1 where p1: "run_state (patch_pad K chk cmd b) s = (p1, s1)" by fastforce
  note o1 = patch_pad_outcome [OF assms(1,2) p1]
  have run: "run_state (case p1 of None \<Rightarrow> State_Monad.return None
      | Some (skb, sw2) \<Rightarrow> do {
          p2 \<leftarrow> short_pad K cfg cmd skb;
          case p2 of None \<Rightarrow> State_Monad.return None
          | Some (skb, sw3) \<Rightarrow> csum_finish K (csum_partial b \<and> cmd = 0 \<or> sw2 \<or> sw3) cmd skb (DescOwn, v) bc }) s1 = (t, s')"
    using assms(3) False p1 by (simp add: rtl8125_tso_csum_def c chk_def del: if_split split: if_splits(1))
  have "tso_outcome K False b s t s'"
  proof (cases p1)
    case None
    then show ?thesis using run o1 pad_fails by auto
  next
    case (Some q)
    obtain b1 sw2 where q: "q = (b1, sw2)" by fastforce
    show ?thesis
    proof (rule pad_then [OF o1 [unfolded Some q]])
      assume b1: "skb_ok K b1"
      obtain p2 s2 where p2: "run_state (short_pad K cfg cmd b1) s1 = (p2, s2)" by fastforce
      note o2 = short_pad_outcome [OF assms(1) b1 p2]
      show "tso_outcome K False b1 s1 t s'"
      proof (cases p2)
        case None
        then show ?thesis using run Some q p2 o2 pad_fails by auto
      next
        case (Some q2)
        obtain b2 sw3 where q2: "q2 = (b2, sw3)" by fastforce
        show ?thesis
          using run \<open>p1 = Some q\<close> q p2 Some q2
          by (intro pad_then [OF o2 [unfolded Some q2]]) (auto intro: csum_finish_outcome [OF assms(1)])
      qed
    qed
  qed
  then show ?thesis by (simp only: small)
qed

section \<open>Room in the ring\<close>

lemma slots_avail_iff:
  assumes "inflight r \<le> tx_n r"
  shows "rtl8125_tx_slots_avail K r \<longleftrightarrow> MAX_SKB_FRAGS K < tx_n r - inflight r"
proof -
  have "dirty_tx r + num_tx_desc r - cur_tx r = num_tx_desc r - (cur_tx r - dirty_tx r)" by simp
  then have "unat (dirty_tx r + num_tx_desc r - cur_tx r) = tx_n r - inflight r"
    using assms unfolding inflight_def by (simp only:) (subst unat_sub, simp_all add: word_le_nat_alt)
  then show ?thesis by (simp add: rtl8125_tx_slots_avail_def)
qed

lemma free_ahead_inv:
  assumes "tx_inv K r" "m < tx_n r - inflight r"
  shows "free_ahead r m"
proof -
  have "window (tx_slot r) (tx_n r) (cur_tx r) (Suc m) = take (Suc m) (free_cells r)"
    using assms(2) by (simp add: free_cells_def window_take [of "Suc m" "tx_n r - inflight r"])
  then have "set (tx_window r (cur_tx r + 1) m) \<subseteq> set (free_cells r)"
    by (metis window_Suc list.set_intros(2) set_take_subset subsetD subsetI)
  then show ?thesis using assms by (auto simp: free_ahead_def tx_inv_def)
qed

lemma length_pieces: "length (pieces cfg o1 fs cnt) \<le> Suc (length fs)"
  "\<not> RequireLSOPatch cfg \<Longrightarrow> length (pieces cfg o1 fs cnt) = length fs"
  by (induction cfg o1 fs cnt rule: pieces.induct) auto

lemma sum_pieces:
  "\<forall>(a, l) \<in> set fs. l \<noteq> 0 \<Longrightarrow> sum_list (map (unat \<circ> snd) (pieces cfg o1 fs cnt)) = sum_list (map (unat \<circ> snd) fs)"
proof (induction cfg o1 fs cnt rule: pieces.induct)
  case (2 cfg o1 a l fs cnt)
  have "unat (l - 1) + 1 = unat l" if "1 < l" using that by (simp add: unat_sub word_le_nat_alt word_less_nat_alt)
  with 2 show ?case by auto
qed simp

lemma pieces_bounds:
  "\<forall>(a, l) \<in> set fs. l \<noteq> 0 \<and> l < 0x10000 \<Longrightarrow> (a', l') \<in> set (pieces cfg o1 fs cnt) \<Longrightarrow> l' \<noteq> 0 \<and> l' < 0x10000"
proof (induction cfg o1 fs cnt rule: pieces.induct)
  case (2 cfg o1 a l fs cnt)
  have "l - 1 \<noteq> 0 \<and> l - 1 < 0x10000" if "1 < l" "l < 0x10000"
    using that by (auto simp: unat_sub word_le_nat_alt word_less_nat_alt word_unat_eq_iff)
  with 2 show ?case by (auto split: if_splits)
qed simp

lemma pieces_empty: "pieces cfg o1 fs cnt = [] \<longleftrightarrow> fs = []"
  by (cases fs) (auto split: prod.splits if_splits)

lemma frag_txds_nth:
  assumes "length ms = length ps" "j < length ps"
  shows "frag_txds r opts x ps ms ! j = (let st = rtl8125_get_txd_opts1 r (fst opts) (snd (ps ! j)) ((x + of_nat j) mod num_tx_desc r)
     in (if j = length ps - 1 then st OR LastFrag else st, snd opts, (ms ! j, fst (ps ! j)), snd (ps ! j)))"
  using assms
proof (induction r opts x ps ms arbitrary: j rule: frag_txds.induct)
  case (1 r opts x a l ps m ms)
  then show ?case by (cases j) (auto simp: Let_def ac_simps)
qed auto

lemma length_frag_txds: "length ms = length ps \<Longrightarrow> length (frag_txds r opts x ps ms) = length ps"
  by (induction r opts x ps ms rule: frag_txds.induct) (auto simp: Let_def)

section \<open>Undoing a half-filled packet\<close>

definition cell_free :: "tx_cell \<Rightarrow> bool" where
  "cell_free c \<longleftrightarrow> ri_len (snd c) = 0 \<and> ri_skb (snd c) = None"

lemma set_free_cells: "(\<forall>c \<in> set (free_cells r). ri_len (snd c) = 0 \<and> ri_skb (snd c) = None)
    \<longleftrightarrow> (\<forall>j < tx_n r - inflight r. cell_free (tx_slot r (slot_index (tx_n r) (cur_tx r) j)))"
  by (auto simp: free_cells_def set_window cell_free_def)

lemma inv_same_pending:
  assumes "tx_inv K r" "tx_wf r'" "num_tx_desc r' = num_tx_desc r" "cur_tx r' = cur_tx r" "dirty_tx r' = dirty_tx r"
    and "\<And>j. j < inflight r \<Longrightarrow> tx_slot r' (slot_index (tx_n r) (dirty_tx r) j) = tx_slot r (slot_index (tx_n r) (dirty_tx r) j)"
    and "\<And>j. j < tx_n r - inflight r \<Longrightarrow> cell_free (tx_slot r' (slot_index (tx_n r) (cur_tx r) j))"
  shows "tx_inv K r'" "pending r' = pending r"
proof -
  have i: "inflight r' = inflight r" using assms by (simp add: inflight_def)
  show p: "pending r' = pending r" using assms i by (auto simp: pending_def intro: window_cong)
  show "tx_inv K r'" using assms p i unfolding tx_inv_def set_free_cells by simp
qed

lemma ahead_slots:
  assumes "tx_inv K r" "length fs < tx_n r - inflight r"
  shows "j < inflight r \<Longrightarrow> tx_slot (tx_run r (cur_tx r + 1) fs) (slot_index (tx_n r) (dirty_tx r) j) = tx_slot r (slot_index (tx_n r) (dirty_tx r) j)"
    and "j < tx_n r - inflight r \<Longrightarrow> tx_slot (tx_run r (cur_tx r + 1) fs) (slot_index (tx_n r) (cur_tx r) j)
      = (if 0 < j \<and> j \<le> length fs then (fs ! (j - 1)) (tx_slot r (slot_index (tx_n r) (cur_tx r) j))
         else tx_slot r (slot_index (tx_n r) (cur_tx r) j))"
proof -
  have wf: "tx_wf r" "inflight r \<le> tx_n r" using assms(1) by (auto simp: tx_inv_def)
  have n: "tx_n r dvd 2 ^ 32" "0 < tx_n r" using txr.wf_size [OF wf(1)] by auto
  have x: "slot_index (tx_n r) (cur_tx r + 1) i = slot_index (tx_n r) (dirty_tx r) (inflight r + Suc i)" for i
    using slot_index_add [of "tx_n r" "dirty_tx r" "inflight r + 1" i] inflight_word [of r] by (simp add: ac_simps)
  show "tx_slot (tx_run r (cur_tx r + 1) fs) (slot_index (tx_n r) (dirty_tx r) j) = tx_slot r (slot_index (tx_n r) (dirty_tx r) j)"
    if "j < inflight r"
    using that assms(2) wf n by (intro txr.pass_off) (auto simp: x slot_index_inj_iff)
  show "tx_slot (tx_run r (cur_tx r + 1) fs) (slot_index (tx_n r) (cur_tx r) j)
      = (if 0 < j \<and> j \<le> length fs then (fs ! (j - 1)) (tx_slot r (slot_index (tx_n r) (cur_tx r) j))
         else tx_slot r (slot_index (tx_n r) (cur_tx r) j))" if j: "j < tx_n r - inflight r"
  proof (cases "0 < j \<and> j \<le> length fs")
    case True
    then show ?thesis
      using txr.pass_at [OF wf(1), of fs "j - 1" "cur_tx r + 1"] assms(2) by (cases j) (auto simp: slot_index_Suc)
  next
    case False
    have "slot_index (tx_n r) (cur_tx r) j \<noteq> slot_index (tx_n r) (cur_tx r + 1) i" if "i < length fs" for i
      using False j that assms(2) n by (auto simp: slot_index_Suc [symmetric] slot_index_inj_iff)
    then show ?thesis using False wf by (auto simp: txr.pass_off)
  qed
qed

lemma inv_free: "tx_inv K r \<Longrightarrow> j < tx_n r - inflight r \<Longrightarrow> cell_free (tx_slot r (slot_index (tx_n r) (cur_tx r) j))"
  unfolding tx_inv_def set_free_cells by blast

lemma run_twice:
  assumes "tx_wf r" "length fs = length gs" "length fs \<le> tx_n r"
  shows "tx_slot (tx_run (tx_run r x fs) x gs) e = tx_slot (tx_run r x (map2 (\<lambda>f g. g \<circ> f) fs gs)) e"
proof (cases "\<exists>j < length fs. e = slot_index (tx_n r) x j")
  case True
  then obtain j where j: "j < length fs" "e = slot_index (tx_n r) x j" by blast
  have "tx_slot (tx_run (tx_run r x fs) x gs) e = (gs ! j) (tx_slot (tx_run r x fs) e)"
    using assms j txr.pass_at [of "tx_run r x fs" gs j x] by (simp add: txr.pass_wf)
  then show ?thesis
    using assms j txr.pass_at [OF assms(1), of fs j x] txr.pass_at [OF assms(1), of "map2 (\<lambda>f g. g \<circ> f) fs gs" j x] by simp
next
  case False
  have "tx_slot (tx_run (tx_run r x fs) x gs) e = tx_slot (tx_run r x fs) e"
    using assms False by (intro txr.pass_off txr.pass_wf) auto
  then show ?thesis
    using assms False txr.pass_off [OF assms(1), of fs e x] txr.pass_off [OF assms(1), of "map2 (\<lambda>f g. g \<circ> f) fs gs" e x]
    by auto
qed

lemma event_accounts:
  "mapped (map map_event ds) = unmapped (map unmap_event ds)" "unmapped (map map_event ds) = {#}"
  "pad_failed (map map_event ds) = {#}" "pad_failed (map unmap_event ds) = {#}"
  "mapped (map unmap_event ds) = {#}" "released (map map_event ds) = {#}" "released (map unmap_event ds) = {#}"
  by (induction ds) (auto simp: map_event_def unmap_event_def)

lemma unfilled_outcome:
  assumes "tx_inv K (ring s0)" "unfilled s0 ds s" "length ds < tx_n (ring s0) - inflight (ring s0)"
  shows "tx_inv K (ring s)" "pending (ring s) = pending (ring s0)"
proof -
  let ?r0 = "ring s0" let ?fs = "map2 (\<lambda>f g. g \<circ> f) (map put_cell ds) (replicate (length ds) clear_cell)"
  have wf: "tx_wf ?r0" using assms(1) by (simp add: tx_inv_def)
  have r: "ring s = tx_run (tx_run ?r0 (cur_tx ?r0 + 1) (map put_cell ds)) (cur_tx ?r0 + 1) (replicate (length ds) clear_cell)"
    using assms(2) by (auto simp: unfilled_def)
  have sl: "tx_slot (ring s) e = tx_slot (tx_run ?r0 (cur_tx ?r0 + 1) ?fs) e" for e
    using assms(3) by (subst r) (simp add: run_twice [OF wf] del: tx_run_simps)
  have cp: "cell_free (clear_cell (put_cell t c))" if "cell_free c" for t c
    using that by (simp add: cell_free_def clear_cell_def put_cell_def split: prod.splits)
  have fs: "i < length ds \<Longrightarrow> ?fs ! i = clear_cell \<circ> put_cell (ds ! i)" for i by simp
  have free: "cell_free (tx_slot (ring s) (slot_index (tx_n ?r0) (cur_tx ?r0) j))" if "j < tx_n ?r0 - inflight ?r0" for j
    using that assms(3) inv_free [OF assms(1) that] ahead_slots(2) [OF assms(1), of ?fs j] unfolding sl
    by (cases j; cases "j \<le> length ds") (simp_all add: cp fs del: nth_map nth_zip)
  have wf': "tx_wf (ring s)" "num_tx_desc (ring s) = num_tx_desc ?r0" "cur_tx (ring s) = cur_tx ?r0" "dirty_tx (ring s) = dirty_tx ?r0"
    by (simp_all add: r txr.pass_wf wf)
  have keep: "j < inflight ?r0 \<Longrightarrow> tx_slot (ring s) (slot_index (tx_n ?r0) (dirty_tx ?r0) j) = tx_slot ?r0 (slot_index (tx_n ?r0) (dirty_tx ?r0) j)" for j
    using ahead_slots(1) [OF assms(1), of ?fs j] assms(3) unfolding sl by simp
  show "tx_inv K (ring s)" "pending (ring s) = pending ?r0"
    using inv_same_pending [OF assms(1) wf' keep free] by auto
qed

section \<open>Committing a packet\<close>

definition own_cell :: "nat \<Rightarrow> u16 \<Rightarrow> u32 \<Rightarrow> tx_cell \<Rightarrow> tx_cell" where
  "own_cell i segs bc c = (fst c, (snd c)\<lparr>ri_skb := Some i, ri_gso_segs := segs, ri_bytecount := bc\<rparr>)"

text \<open>The cells of a committed packet: head and fragments written, the buffer recorded at the last.\<close>

definition packet_cells :: "tx_ring \<Rightarrow> txd list \<Rightarrow> nat \<Rightarrow> u16 \<Rightarrow> u32 \<Rightarrow> tx_cell list" where
  "packet_cells r ts i segs bc = (let cs = map2 put_cell ts (tx_window r (cur_tx r) (length ts))
     in cs[length ts - 1 := own_cell i segs bc (cs ! (length ts - 1))])"

definition commit_ring :: "tx_ring \<Rightarrow> txd \<Rightarrow> txd list \<Rightarrow> nat \<Rightarrow> u16 \<Rightarrow> u32 \<Rightarrow> tx_ring" where
  "commit_ring r h ds i segs bc =
     (let r1 = tx_run r (cur_tx r + 1) (map put_cell ds);
          e0 = unat (cur_tx r) mod tx_n r; el = slot_index (tx_n r) (cur_tx r) (length ds);
          r2 = set_tx_slot r1 e0 (put_cell h (tx_slot r1 e0))
      in (set_tx_slot r2 el (own_cell i segs bc (tx_slot r2 el)))\<lparr>cur_tx := cur_tx r + of_nat (length ds) + 1\<rparr>)"

lemma commit_ring_simps [simp]:
  "num_tx_desc (commit_ring r h ds i segs bc) = num_tx_desc r" "dirty_tx (commit_ring r h ds i segs bc) = dirty_tx r"
  "cur_tx (commit_ring r h ds i segs bc) = cur_tx r + of_nat (length ds) + 1"
  by (simp_all add: commit_ring_def Let_def)

lemma commit_slots:
  assumes "tx_inv K r" "length ds < tx_n r - inflight r"
  shows "j < inflight r \<Longrightarrow> tx_slot (commit_ring r h ds i segs bc) (slot_index (tx_n r) (dirty_tx r) j) = tx_slot r (slot_index (tx_n r) (dirty_tx r) j)"
    and "j < tx_n r - inflight r \<Longrightarrow> tx_slot (commit_ring r h ds i segs bc) (slot_index (tx_n r) (cur_tx r) j)
      = (if j \<le> length ds then (if j = length ds then own_cell i segs bc else id) (put_cell ((h # ds) ! j) (tx_slot r (slot_index (tx_n r) (cur_tx r) j)))
         else tx_slot r (slot_index (tx_n r) (cur_tx r) j))"
proof -
  let ?r1 = "tx_run r (cur_tx r + 1) (map put_cell ds)"
  have wf: "tx_wf r" "inflight r \<le> tx_n r" "tx_wf ?r1" using assms(1) txr.pass_wf by (auto simp: tx_inv_def)
  have n: "tx_n r dvd 2 ^ 32" "0 < tx_n r" using txr.wf_size [OF wf(1)] by auto
  have x: "slot_index (tx_n r) (cur_tx r) k = slot_index (tx_n r) (dirty_tx r) (inflight r + k)" for k
    using slot_index_add [of "tx_n r" "dirty_tx r" "inflight r" k] inflight_word [of r] by simp
  have e0: "unat (cur_tx r) mod tx_n r = slot_index (tx_n r) (cur_tx r) 0" by simp
  have lt: "slot_index (tx_n r) y k < tx_n r" for y k using n(2) by (rule slot_index_less)
  have sl: "tx_slot (commit_ring r h ds i segs bc) e =
      (if e = slot_index (tx_n r) (cur_tx r) (length ds) then own_cell i segs bc else id)
        (if e = slot_index (tx_n r) (cur_tx r) 0 then put_cell h (tx_slot ?r1 e) else tx_slot ?r1 e)" for e
    using wf lt n by (simp add: commit_ring_def Let_def txr.slot_set txr.wf_set e0 del: slot_index_0)
  show "j < inflight r \<Longrightarrow> tx_slot (commit_ring r h ds i segs bc) (slot_index (tx_n r) (dirty_tx r) j) = tx_slot r (slot_index (tx_n r) (dirty_tx r) j)"
    using assms ahead_slots(1) [OF assms(1), of "map put_cell ds" j] n wf(2) by (simp add: sl x slot_index_inj_iff del: slot_index_0)
  show "j < tx_n r - inflight r \<Longrightarrow> tx_slot (commit_ring r h ds i segs bc) (slot_index (tx_n r) (cur_tx r) j)
      = (if j \<le> length ds then (if j = length ds then own_cell i segs bc else id) (put_cell ((h # ds) ! j) (tx_slot r (slot_index (tx_n r) (cur_tx r) j)))
         else tx_slot r (slot_index (tx_n r) (cur_tx r) j))"
    using assms ahead_slots(2) [OF assms(1), of "map put_cell ds" j] n
    by (cases j) (auto simp: sl slot_index_inj_iff simp del: slot_index_0)
qed

lemma commit_wf: "tx_wf r \<Longrightarrow> tx_wf (commit_ring r h ds i segs bc)"
  by (simp add: commit_ring_def Let_def txr.wf_set txr.pass_wf)

lemma commit_inflight:
  assumes "tx_inv K r" "length ds < tx_n r - inflight r"
  shows "inflight (commit_ring r h ds i segs bc) = inflight r + Suc (length ds)"
proof -
  have "cur_tx r + of_nat (length ds) + 1 - dirty_tx r = (of_nat (inflight r + Suc (length ds)) :: u32)"
    using inflight_word [of r] by simp
  moreover have "inflight r + Suc (length ds) < 2 ^ 32"
  proof -
    have "tx_n r < 2 ^ 32" using unsigned_less [of "num_tx_desc r"] by simp
    then show ?thesis using assms by linarith
  qed
  ultimately show ?thesis by (simp add: inflight_def [of "commit_ring r h ds i segs bc"] unat_of_nat del: of_nat_add of_nat_Suc)
qed

lemma nth_packet_cells:
  assumes "j \<le> length ds"
  shows "packet_cells r (h # ds) i segs bc ! j
    = (if j = length ds then own_cell i segs bc else id) (put_cell ((h # ds) ! j) (tx_slot r (slot_index (tx_n r) (cur_tx r) j)))"
  using assms by (simp add: packet_cells_def Let_def nth_list_update less_Suc_eq_le del: nth_Cons_0)

lemma length_packet_cells [simp]: "length (packet_cells r ts i segs bc) = length ts"
  by (simp add: packet_cells_def Let_def)

lemma packet_cells_ne: "packet_cells r (h # ds) i segs bc \<noteq> []"
  using length_packet_cells [of r "h # ds" i segs bc] by (metis length_Cons list.size(3) nat.distinct(1))

lemma commit_pending:
  assumes "tx_inv K r" "length ds < tx_n r - inflight r"
  shows "pending (commit_ring r h ds i segs bc) = pending r @ packet_cells r (h # ds) i segs bc"
proof (rule nth_equalityI)
  let ?r = "commit_ring r h ds i segs bc"
  note inf = commit_inflight [OF assms, of h i segs bc]
  show "length (pending ?r) = length (pending r @ packet_cells r (h # ds) i segs bc)" by (simp add: inf)
  fix k assume "k < length (pending ?r)"
  then have k: "k < inflight r + Suc (length ds)" by (simp add: inf)
  show "pending ?r ! k = (pending r @ packet_cells r (h # ds) i segs bc) ! k"
  proof (cases "k < inflight r")
    case True
    then show ?thesis using commit_slots(1) [OF assms True] k by (simp add: pending_def nth_append inf)
  next
    case False
    let ?j = "k - inflight r"
    have j: "?j \<le> length ds" "?j < tx_n r - inflight r" using False k assms(2) by auto
    have "slot_index (tx_n r) (dirty_tx r) k = slot_index (tx_n r) (cur_tx r) ?j"
      using False slot_index_add [of "tx_n r" "dirty_tx r" "inflight r" ?j] inflight_word [of r] by simp
    then show ?thesis
      using commit_slots(2) [OF assms j(2), of h i segs bc] j nth_packet_cells [OF j(1)] False k
      by (simp add: pending_def nth_append inf)
  qed
qed

lemma commit_inv:
  assumes "tx_inv K r" "length ds < tx_n r - inflight r" "nonzero (h # ds)"
  shows "tx_inv K (commit_ring r h ds i segs bc)"
proof -
  let ?r = "commit_ring r h ds i segs bc"
  note inf = commit_inflight [OF assms(1,2), of h i segs bc] and pend = commit_pending [OF assms(1,2), of h i segs bc]
  have put: "t \<in> set (h # ds) \<Longrightarrow> ri_len (snd (put_cell t c)) \<noteq> 0" for t c
    using assms(3) by (auto simp: nonzero_def put_cell_def)
  have cells: "ri_len (snd (packet_cells r (h # ds) i segs bc ! j)) \<noteq> 0" if "j \<le> length ds" for j
  proof -
    have "(h # ds) ! j \<in> set (h # ds)" using that by (intro nth_mem) simp
    then have "ri_len (snd (put_cell ((h # ds) ! j) (tx_slot r (slot_index (tx_n r) (cur_tx r) j)))) \<noteq> 0" by (rule put)
    then show ?thesis unfolding nth_packet_cells [OF that] by (auto simp: own_cell_def)
  qed
  have "\<forall>c \<in> set (packet_cells r (h # ds) i segs bc). ri_len (snd c) \<noteq> 0"
    using cells by (simp add: all_set_conv_all_nth less_Suc_eq_le)
  moreover have "ri_skb (snd (last (packet_cells r (h # ds) i segs bc))) \<noteq> None"
    using nth_packet_cells [of "length ds" ds r h i segs bc] by (simp add: last_conv_nth packet_cells_ne own_cell_def)
  moreover have "cell_free (tx_slot ?r (slot_index (tx_n r) (cur_tx ?r) j))" if "j < tx_n r - inflight ?r" for j
  proof -
    have "slot_index (tx_n r) (cur_tx ?r) j = slot_index (tx_n r) (cur_tx r) (Suc (length ds) + j)"
      using slot_index_add [of "tx_n r" "cur_tx r" "Suc (length ds)" j] by (simp add: ac_simps)
    then show ?thesis
      using commit_slots(2) [OF assms(1,2), of "Suc (length ds) + j" h i segs bc] inv_free [OF assms(1), of "Suc (length ds) + j"] that inf
      by simp
  qed
  ultimately show ?thesis
    using assms commit_wf inf pend unfolding tx_inv_def set_free_cells
    by (auto simp: last_append packet_cells_ne)
qed

section \<open>The descriptor words of a packet\<close>

definition flag_word :: "bool \<Rightarrow> bool \<Rightarrow> bool \<Rightarrow> u32" where
  "flag_word f l e = (if f then FirstFrag else 0) OR (if l then LastFrag else 0) OR (if e then RingEnd else 0)"

lemma and_mask_absorb:
  assumes "(x :: u32) AND m = 0" "m AND c = c"
  shows "x AND c = 0"
proof -
  have "x AND c = (x AND m) AND c" by (simp only: and.assoc assms(2))
  then show ?thesis using assms(1) by simp
qed

lemma status_bits:
  assumes "giant_bits_ok o1" "len < 0x10000" and w_def: "w = o1 OR len OR flag_word f l e"
  shows "w AND DescOwn \<noteq> 0" "w AND FirstFrag \<noteq> 0 \<longleftrightarrow> f" "w AND LastFrag \<noteq> 0 \<longleftrightarrow> l" "w AND RingEnd \<noteq> 0 \<longleftrightarrow> e"
    "w AND 0xFFFF = len"
proof -
  have len: "len AND 0xFFFF = len"
  proof -
    have "take_bit 16 len = len" using assms(2) by (intro word_uint_eqI) (simp add: unsigned_take_bit_eq take_bit_int_eq_self word_less_def)
    then show ?thesis by (simp add: take_bit_eq_mask mask_numeral mask_eq_exp_minus_1)
  qed
  have lenc: "len AND c = 0" if "0xFFFF AND c = 0" for c :: u32
  proof -
    have "len AND c = len AND (0xFFFF AND c)" by (simp only: len flip: and.assoc)
    then show ?thesis using that by simp
  qed
  have o1: "o1 AND c = 0" if "0x7003FFFF AND c = c" for c :: u32
    by (rule and_mask_absorb [OF _ that]) (use assms(1) in \<open>simp add: giant_bits_ok_def\<close>)
  have own: "o1 AND DescOwn = DescOwn" using assms(1) by (simp add: giant_bits_ok_def)
  have fl: "flag_word f l e AND DescOwn = 0" "flag_word f l e AND FirstFrag = (if f then FirstFrag else 0)"
    "flag_word f l e AND LastFrag = (if l then LastFrag else 0)" "flag_word f l e AND RingEnd = (if e then RingEnd else 0)"
    "flag_word f l e AND 0xFFFF = 0"
    by (simp_all add: flag_word_def DescOwn_def FirstFrag_def LastFrag_def RingEnd_def)
  show "w AND DescOwn \<noteq> 0"
    unfolding w_def bit.conj_disj_distrib2 own fl using lenc [of DescOwn] by (simp add: DescOwn_def)
  show "w AND FirstFrag \<noteq> 0 \<longleftrightarrow> f"
    unfolding w_def bit.conj_disj_distrib2 fl using lenc [of FirstFrag] o1 [of FirstFrag] by (simp add: FirstFrag_def)
  show "w AND LastFrag \<noteq> 0 \<longleftrightarrow> l"
    unfolding w_def bit.conj_disj_distrib2 fl using lenc [of LastFrag] o1 [of LastFrag] by (simp add: LastFrag_def)
  show "w AND RingEnd \<noteq> 0 \<longleftrightarrow> e"
    unfolding w_def bit.conj_disj_distrib2 fl using lenc [of RingEnd] o1 [of RingEnd] by (simp add: RingEnd_def)
  show "w AND 0xFFFF = len"
    unfolding w_def bit.conj_disj_distrib2 fl len using o1 [of "0xFFFF"] by simp
qed

lemma opts1_flags:
  "rtl8125_get_txd_opts1 r (o1 OR FirstFrag) l e = o1 OR l OR flag_word True False (e = num_tx_desc r - 1)"
  "rtl8125_get_txd_opts1 r (o1 OR (FirstFrag OR LastFrag)) l e = o1 OR l OR flag_word True True (e = num_tx_desc r - 1)"
  "rtl8125_get_txd_opts1 r o1 l e = o1 OR l OR flag_word False False (e = num_tx_desc r - 1)"
  "rtl8125_get_txd_opts1 r o1 l e OR LastFrag = o1 OR l OR flag_word False True (e = num_tx_desc r - 1)"
  by (simp_all add: rtl8125_get_txd_opts1_def Let_def flag_word_def ac_simps)

text \<open>
  A frame in the ring: the cells from \<open>cur_tx\<close> on describe \<open>nbytes\<close> bytes, all given to the controller,
  the first and the last marked as such and no others, the end of the ring marked exactly at the last
  slot, the length in the descriptor the one to unmap later, the buffer recorded at the last cell only.
\<close>

definition frame_ok :: "tx_ring \<Rightarrow> nat \<Rightarrow> nat \<Rightarrow> tx_cell list \<Rightarrow> bool" where
  "frame_ok r i nbytes cs \<longleftrightarrow> cs \<noteq> [] \<and> sum_list (map (\<lambda>c. unat (ri_len (snd c))) cs) = nbytes \<and>
     (\<forall>j < length cs. let w = td_opts1 (fst (cs ! j)) in
        w AND DescOwn \<noteq> 0 \<and> (w AND FirstFrag \<noteq> 0 \<longleftrightarrow> j = 0) \<and> (w AND LastFrag \<noteq> 0 \<longleftrightarrow> j = length cs - 1)
        \<and> (w AND RingEnd \<noteq> 0 \<longleftrightarrow> slot_index (tx_n r) (cur_tx r) j = tx_n r - 1)
        \<and> w AND 0xFFFF = ri_len (snd (cs ! j)) \<and> ri_len (snd (cs ! j)) \<noteq> 0
        \<and> ri_skb (snd (cs ! j)) = (if j = length cs - 1 then Some i else None))"

definition txd_ok :: "tx_ring \<Rightarrow> u32 \<Rightarrow> nat \<Rightarrow> nat \<Rightarrow> txd \<Rightarrow> bool" where
  "txd_ok r o1 m j t \<longleftrightarrow> (case t of (st, o2, a, l) \<Rightarrow> l \<noteq> 0 \<and> l < 0x10000 \<and>
     st = o1 OR l OR flag_word (j = 0) (j = m) (slot_index (tx_n r) (cur_tx r) j = tx_n r - 1))"

lemma packet_frame_ok:
  assumes "giant_bits_ok o1" "\<And>j. j \<le> length ds \<Longrightarrow> txd_ok r o1 (length ds) j ((h # ds) ! j)"
    and "\<And>j. j \<le> length ds \<Longrightarrow> cell_free (tx_slot r (slot_index (tx_n r) (cur_tx r) j))"
  shows "frame_ok r i (sum_list (map (\<lambda>(st, o2, a, l). unat l) (h # ds))) (packet_cells r (h # ds) i segs bc)"
proof -
  have cell: "let c = packet_cells r (h # ds) i segs bc ! j; (st, o2, a, l) = (h # ds) ! j in
      td_opts1 (fst c) = st \<and> ri_len (snd c) = l \<and> ri_skb (snd c) = (if j = length ds then Some i else None)" if "j \<le> length ds" for j
    using assms(3) [OF that] unfolding nth_packet_cells [OF that]
    by (auto simp: own_cell_def put_cell_def cell_free_def split: prod.splits)
  have lens: "map (\<lambda>c. unat (ri_len (snd c))) (packet_cells r (h # ds) i segs bc) = map (\<lambda>(st, o2, a, l). unat l) (h # ds)"
  proof (rule nth_equalityI)
    fix j assume "j < length (map (\<lambda>c. unat (ri_len (snd c))) (packet_cells r (h # ds) i segs bc))"
    then have j: "j \<le> length ds" "j < length (h # ds)" by simp_all
    then show "map (\<lambda>c. unat (ri_len (snd c))) (packet_cells r (h # ds) i segs bc) ! j = map (\<lambda>(st, o2, a, l). unat l) (h # ds) ! j"
      using cell [OF j(1)] nth_map [OF j(2), of "\<lambda>(st, o2, a, l). unat l"] by (auto simp: Let_def split: prod.splits)
  qed simp
  have "let w = td_opts1 (fst (packet_cells r (h # ds) i segs bc ! j)) in
        w AND DescOwn \<noteq> 0 \<and> (w AND FirstFrag \<noteq> 0 \<longleftrightarrow> j = 0) \<and> (w AND LastFrag \<noteq> 0 \<longleftrightarrow> j = length ds)
        \<and> (w AND RingEnd \<noteq> 0 \<longleftrightarrow> slot_index (tx_n r) (cur_tx r) j = tx_n r - 1)
        \<and> w AND 0xFFFF = ri_len (snd (packet_cells r (h # ds) i segs bc ! j)) \<and> ri_len (snd (packet_cells r (h # ds) i segs bc ! j)) \<noteq> 0
        \<and> ri_skb (snd (packet_cells r (h # ds) i segs bc ! j)) = (if j = length ds then Some i else None)" if "j \<le> length ds" for j
  proof -
    obtain st o2 a l where t: "(h # ds) ! j = (st, o2, a, l)" by (cases "(h # ds) ! j")
    have st: "l \<noteq> 0" "l < 0x10000" "st = o1 OR l OR flag_word (j = 0) (j = length ds) (slot_index (tx_n r) (cur_tx r) j = tx_n r - 1)"
      using assms(2) [OF that] t by (auto simp: txd_ok_def)
    then show ?thesis
      using cell [OF that] t status_bits [OF assms(1) st(2,3)]
      by (simp add: Let_def)
  qed
  then show ?thesis unfolding frame_ok_def lens by (simp add: packet_cells_ne less_Suc_eq_le)
qed

section \<open>Queueing a packet\<close>

lemma entry_last:
  assumes "unat (num :: u32) dvd 2 ^ 32"
  shows "unat ((x mod num + of_nat m) mod num) = slot_index (unat num) x m"
proof -
  have "unat ((x mod num + of_nat m) mod num) = slot_index (unat num) (x mod num) m" by (simp add: unat_mod slot_index_def)
  also have "\<dots> = slot_index (unat num) x m" using assms by (simp add: slot_index_eq unat_mod mod_add_left_eq)
  finally show ?thesis .
qed

lemma commit_ring_eq:
  assumes "tx_wf r" "r1 = tx_run r (cur_tx r + 1) (map put_cell ds)"
    and "entry = cur_tx r mod num_tx_desc r" "el = unat ((entry + of_nat (length ds)) mod num_tx_desc r)"
    and "info = (tx_skb r1)[unat entry := (tx_skb r1 ! unat entry)\<lparr>ri_len := l\<rparr>]"
  shows "r1\<lparr>tx_skb := info[el := (info ! el)\<lparr>ri_skb := Some i, ri_gso_segs := segs, ri_bytecount := bc\<rparr>],
        TxDescArray := (TxDescArray r1)[unat entry := \<lparr>td_opts1 = o1, td_opts2 = o2, td_addr = m\<rparr>],
        cur_tx := cur_tx r1 + of_nat (length ds) + 1\<rparr>
     = commit_ring r (o1, o2, (m, a), l) ds i segs bc"
proof -
  have el: "el = slot_index (tx_n r) (cur_tx r) (length ds)"
    using assms(1,3,4) entry_last [of "num_tx_desc r"] by (simp add: tx_wf_def)
  have e: "unat entry = unat (cur_tx r) mod tx_n r" using assms(3) by (simp add: unat_mod)
  show ?thesis
    unfolding commit_ring_def Let_def assms(2) [symmetric] el [symmetric] e [symmetric] assms(5)
    using assms(2) by (simp add: set_tx_slot_def put_cell_def own_cell_def tx_slot_def)
qed

definition stop_flag :: "'k kernel \<Rightarrow> tx_ring \<Rightarrow> bool \<Rightarrow> bool" where
  "stop_flag K r q \<longleftrightarrow> q \<or> \<not> rtl8125_tx_slots_avail K r"

lemma run_maybe_stop:
  "run_state (if b then netif_stop_subqueue else State_Monad.return ()) s = ((), s\<lparr>q_stopped := q_stopped s \<or> b\<rparr>)"
  by (auto simp: netif_stop_subqueue_def)

lemma run_maybe_start:
  "run_state (if b then netif_start_subqueue else State_Monad.return ()) s = ((), s\<lparr>q_stopped := q_stopped s \<and> \<not> b\<rparr>)"
  by (auto simp: netif_start_subqueue_def)

lemma run_xmit_commit:
  assumes "tx_wf (ring s0)" "ring s = tx_run (ring s0) (cur_tx (ring s0) + 1) (map put_cell ds)"
    and "entry = cur_tx (ring s0) mod num_tx_desc (ring s0)"
    and "run_state (xmit_commit K cfg io b (length ds) entry (o1, o2) m l bc segs) s = (ret, s')"
  shows "ret = NETDEV_TX_OK" "ring s' = commit_ring (ring s0) (o1, o2, (m, a), l) ds (skb_id b) segs bc"
    "net_log s' = net_log s @ [BqlSent bc]" "q_stopped s' = stop_flag K (ring s') (q_stopped s)" "tx_dropped s' = tx_dropped s"
proof -
  define r' where "r' = commit_ring (ring s0) (o1, o2, (m, a), l) ds (skb_id b) segs bc"
  note r = commit_ring_eq [OF assms(1) refl assms(3) refl refl, where ds = ds and l = l and ?o1.0 = o1 and ?o2.0 = o2 and m = m and a = a and i = "skb_id b" and segs = segs and bc = bc, folded r'_def, folded assms(2)]
  have num: "num_tx_desc (ring s) = num_tx_desc (ring s0)" "cur_tx (ring s) = cur_tx (ring s0)" using assms(2) by simp_all
  show "ret = NETDEV_TX_OK" "ring s' = commit_ring (ring s0) (o1, o2, (m, a), l) ds (skb_id b) segs bc"
    "net_log s' = net_log s @ [BqlSent bc]" "q_stopped s' = stop_flag K (ring s') (q_stopped s)" "tx_dropped s' = tx_dropped s"
    using assms(4) r num unfolding r'_def [symmetric]
    by (auto simp: xmit_commit_def Let_def run_maybe_stop run_maybe_start split_beta run_maybe_doorbell run_doorbell stop_flag_def)
qed

text \<open>
  The addresses of the bytes of a piece of memory, and of a packet: its head, then its fragments.  The cells
  of a queued packet were mapped from the addresses \<open>srcs\<close>, the fragments first and the head last.
\<close>

definition bytes_at :: "u64 \<times> u32 \<Rightarrow> u64 list" where
  "bytes_at p = map (\<lambda>i. fst p + of_nat i) [0..<unat (snd p)]"

definition packet_bytes :: "sk_buff \<Rightarrow> u64 list" where
  "packet_bytes b = concat (map bytes_at ((skb_data b, skb_headlen b) # skb_frags b))"

definition cell_bytes :: "tx_cell list \<Rightarrow> u64 list \<Rightarrow> u64 list" where
  "cell_bytes cells srcs = concat (map2 (\<lambda>c a. bytes_at (a, ri_len (snd c))) cells srcs)"

definition map_log :: "tx_cell list \<Rightarrow> u64 list \<Rightarrow> net_event list" where
  "map_log cells srcs = rotate1 (map2 (\<lambda>c a. DmaMap a (td_addr (fst c)) (ri_len (snd c))) cells srcs)"

definition xmit_dropped :: "'k kernel \<Rightarrow> ('d, 'k) txq \<Rightarrow> sk_buff \<Rightarrow> ('d, 'k) txq \<Rightarrow> bool" where
  "xmit_dropped K s b s' \<longleftrightarrow> tx_inv K (ring s') \<and> pending (ring s') = pending (ring s)
     \<and> (\<exists>l. net_log s' = net_log s @ l \<and> mapped l = unmapped l \<and> released l = {#skb_id b#} \<and> pad_failed l = {#})"

definition xmit_accepted :: "'k kernel \<Rightarrow> ('d, 'k) txq \<Rightarrow> sk_buff \<Rightarrow> ('d, 'k) txq \<Rightarrow> bool" where
  "xmit_accepted K s b s' \<longleftrightarrow> tx_inv K (ring s') \<and> q_stopped s' = stop_flag K (ring s') (q_stopped s)
     \<and> (\<exists>cells srcs bc. pending (ring s') = pending (ring s) @ cells \<and> frame_ok (ring s) (skb_id b) (unat (skb_len b)) cells
        \<and> length srcs = length cells \<and> cell_bytes cells srcs = packet_bytes b
        \<and> net_log s' = net_log s @ map_log cells srcs @ [BqlSent bc])"

lemma bytes_at_split: "1 < l \<Longrightarrow> bytes_at (a, l - 1) @ bytes_at (a + ucast (l - 1), 1) = bytes_at (a, l)"
proof -
  assume "1 < l"
  then have "unat l = Suc (unat (l - 1))" by (simp add: unat_sub word_le_nat_alt word_less_nat_alt)
  then show ?thesis by (simp add: bytes_at_def)
qed

lemma pieces_bytes: "concat (map bytes_at (pieces cfg o1 fs cnt)) = concat (map bytes_at fs)"
  by (induction cfg o1 fs cnt rule: pieces.induct) (auto simp: bytes_at_split)

definition txd_bytes :: "txd \<Rightarrow> u64 list" where
  "txd_bytes t = (case t of (st, o2, m, l) \<Rightarrow> bytes_at (snd m, l))"

lemma frag_txds_bytes:
  "length ms = length ps \<Longrightarrow> concat (map txd_bytes (frag_txds r opts x ps ms)) = concat (map bytes_at ps)"
  by (induction r opts x ps ms rule: frag_txds.induct) (auto simp: Let_def txd_bytes_def)

lemma last_slot_iff:
  assumes "0 < tx_n r"
  shows "(x + of_nat j) mod num_tx_desc r = num_tx_desc r - 1 \<longleftrightarrow> slot_index (tx_n r) x j = tx_n r - 1"
proof -
  have "unat (num_tx_desc r - 1) = tx_n r - 1" using assms by (subst unat_sub) (simp_all add: word_le_nat_alt)
  moreover have "unat ((x + of_nat j) mod num_tx_desc r) = slot_index (tx_n r) x j" by (simp add: unat_mod slot_index_def)
  ultimately show ?thesis by (metis word_unat_eq_iff)
qed

lemma frag_txds_ok:
  assumes "0 < tx_n r" "length ms = length ps" "\<forall>(a, l) \<in> set ps. l \<noteq> 0 \<and> l < 0x10000" "0 < j" "j \<le> length ps"
  shows "txd_ok r (fst opts) (length ps) j (frag_txds r opts (cur_tx r + 1) ps ms ! (j - 1))"
proof -
  obtain i where i: "j = Suc i" "i < length ps" using assms(4,5) by (cases j) auto
  obtain a l where al: "ps ! i = (a, l)" by (cases "ps ! i")
  then have l: "l \<noteq> 0 \<and> l < 0x10000" using assms(3) i(2) nth_mem by fastforce
  have "(cur_tx r + 1 + of_nat i) mod num_tx_desc r = num_tx_desc r - 1 \<longleftrightarrow> slot_index (tx_n r) (cur_tx r) (Suc i) = tx_n r - 1"
    unfolding slot_index_Suc by (rule last_slot_iff [OF assms(1)])
  note end_bit = this
  have li: "i = length ps - 1 \<longleftrightarrow> Suc i = length ps" and ne: "ps \<noteq> []" using i(2) by auto
  note nth = frag_txds_nth [OF assms(2) i(2), of r opts "cur_tx r + 1", unfolded li al]
  have "txd_ok r (fst opts) (length ps) (Suc i) (frag_txds r opts (cur_tx r + 1) ps ms ! i)"
  proof (cases "Suc i = length ps")
    case True
    then show ?thesis using nth l ne by (simp add: txd_ok_def Let_def opts1_flags(4) end_bit)
  next
    case False
    then show ?thesis using nth l by (simp add: txd_ok_def Let_def opts1_flags(3) end_bit)
  qed
  then show ?thesis using i(1) by simp
qed

text \<open>The cells of a packet show where each of their descriptors was mapped from.\<close>

lemma packet_maps:
  assumes "srcs = map (\<lambda>(st, o2, m, l). snd m) (h # ds)"
  shows "map2 (\<lambda>c a. DmaMap a (td_addr (fst c)) (ri_len (snd c))) (packet_cells r (h # ds) i segs bc) srcs = map map_event (h # ds)"
    "map2 (\<lambda>c a. bytes_at (a, ri_len (snd c))) (packet_cells r (h # ds) i segs bc) srcs = map txd_bytes (h # ds)"
proof -
  have cell: "td_addr (fst (packet_cells r (h # ds) i segs bc ! j)) = fst (fst (snd (snd ((h # ds) ! j))))
      \<and> ri_len (snd (packet_cells r (h # ds) i segs bc ! j)) = snd (snd (snd ((h # ds) ! j)))" if "j \<le> length ds" for j
    unfolding nth_packet_cells [OF that] by (simp add: own_cell_def put_cell_def split: prod.splits)
  have src: "srcs ! j = snd (fst (snd (snd ((h # ds) ! j))))" if "j \<le> length ds" for j
    using nth_map [of j "h # ds" "\<lambda>(st, o2, m, l). snd m"] that by (simp add: assms split_beta)
  have len: "length srcs = Suc (length ds)" by (simp add: assms)
  show "map2 (\<lambda>c a. DmaMap a (td_addr (fst c)) (ri_len (snd c))) (packet_cells r (h # ds) i segs bc) srcs = map map_event (h # ds)"
    by (rule nth_equalityI) (simp_all add: len cell src map_event_def split_beta less_Suc_eq_le del: list.map)
  show "map2 (\<lambda>c a. bytes_at (a, ri_len (snd c))) (packet_cells r (h # ds) i segs bc) srcs = map txd_bytes (h # ds)"
    by (rule nth_equalityI) (simp_all add: len cell src txd_bytes_def split_beta less_Suc_eq_le del: list.map)
qed

text \<open>What the log of a queued packet adds to the accounts.\<close>

lemma map_log_accounts:
  assumes "length srcs = length cells" "\<forall>c \<in> set cells. ri_len (snd c) \<noteq> 0"
  shows "mapped (map_log cells srcs) = sum_list (map cell_dma cells)" "unmapped (map_log cells srcs) = {#}"
    "released (map_log cells srcs) = {#}" "pad_failed (map_log cells srcs) = {#}"
proof -
  have rot: "mapped (rotate1 l) = mapped l" "unmapped (rotate1 l) = unmapped l" "released (rotate1 l) = released l"
    "pad_failed (rotate1 l) = pad_failed l" for l by (cases l; simp)+
  show "mapped (map_log cells srcs) = sum_list (map cell_dma cells)" "unmapped (map_log cells srcs) = {#}"
    "released (map_log cells srcs) = {#}" "pad_failed (map_log cells srcs) = {#}"
    unfolding map_log_def rot using assms by (induction srcs cells rule: list_induct2) (auto simp: cell_dma_def)
qed

lemma err_dma_dropped:
  assumes "tx_inv K (ring s)" "unfilled s ds s1" "length ds < tx_n (ring s) - inflight (ring s)"
    and "run_state (err_dma_0 b) s1 = (ret, s')"
  shows "ret = NETDEV_TX_OK \<and> xmit_dropped K s b s'"
proof -
  have s': "ring s' = ring s1" "net_log s' = net_log s1 @ [SkbFree (skb_id b)]" "ret = NETDEV_TX_OK"
    using assms(4) by (auto simp: err_dma_0_def)
  have "net_log s1 = net_log s @ map map_event ds @ map unmap_event ds" using assms(2) by (auto simp: unfilled_def)
  then show ?thesis
    using s' unfilled_outcome [OF assms(1-3)]
    by (auto simp: xmit_dropped_def event_accounts intro!: exI [of _ "map map_event ds @ map unmap_event ds @ [SkbFree (skb_id b)]"])
qed

lemma err_dma_untouched:
  assumes "tx_inv K (ring s)" "kern_only s s1" "run_state (err_dma_0 b) s1 = (ret, s')"
  shows "ret = NETDEV_TX_OK \<and> xmit_dropped K s b s'"
  using assms by (auto simp: err_dma_0_def xmit_dropped_def kern_only_def)

lemma commit_accepted:
  assumes inv: "tx_inv K (ring s)" and room: "length ds < tx_n (ring s) - inflight (ring s)"
    and filled: "filled s ds s1" and entry: "entry = cur_tx (ring s) mod num_tx_desc (ring s)"
    and txds: "giant_bits_ok o1" "\<And>j. j \<le> length ds \<Longrightarrow> txd_ok (ring s) o1 (length ds) j (((w1, w2, (m, skb_data b), l) # ds) ! j)"
    and sum: "sum_list (map (\<lambda>(st, o2, a, l). unat l) ((w1, w2, (m, skb_data b), l) # ds)) = unat (skb_len b)"
    and mem: "bytes_at (skb_data b, l) @ concat (map txd_bytes ds) = packet_bytes b"
    and run: "run_state (xmit_commit K cfg io b (length ds) entry (w1, w2) m l bc segs)
      (s1\<lparr>kern := k, net_log := net_log s1 @ [DmaMap (skb_data b) m l]\<rparr>) = (ret, s')"
  shows "ret = NETDEV_TX_OK \<and> xmit_accepted K s b s'"
proof -
  let ?h = "(w1, w2, (m, skb_data b), l)"
  have wf: "tx_wf (ring s)" using inv by (simp add: tx_inv_def)
  have s1: "ring s1 = tx_run (ring s) (cur_tx (ring s) + 1) (map put_cell ds)" "net_log s1 = net_log s @ map map_event ds"
    "q_stopped s1 = q_stopped s" using filled by (auto simp: filled_def)
  note c = run_xmit_commit(1,3,4) [OF wf _ entry run, simplified, OF s1(1)]
  have ring: "ring s' = commit_ring (ring s) ?h ds (skb_id b) segs bc"
    by (rule run_xmit_commit(2) [OF wf _ entry run, simplified, OF s1(1)])
  have nz: "nonzero (?h # ds)"
    unfolding nonzero_def
  proof
    fix t assume "t \<in> set (?h # ds)"
    then obtain j where "j < length (?h # ds)" "t = (?h # ds) ! j" by (metis in_set_conv_nth)
    then show "case t of (st, o2, m, l) \<Rightarrow> l \<noteq> 0" using txds(2) [of j] by (auto simp: txd_ok_def split: prod.splits)
  qed
  let ?cells = "packet_cells (ring s) (?h # ds) (skb_id b) segs bc"
  define srcs where "srcs = map (\<lambda>(st, o2, m, l). snd m) (?h # ds)"
  have "frame_ok (ring s) (skb_id b) (unat (skb_len b)) ?cells"
    using packet_frame_ok [OF txds(1), of ds "ring s" ?h "skb_id b" segs bc] txds(2) inv_free [OF inv] room sum by auto
  moreover have "length srcs = length ?cells" by (simp add: srcs_def)
  moreover have "cell_bytes ?cells srcs = packet_bytes b"
    unfolding cell_bytes_def packet_maps(2) [OF srcs_def] using mem by (simp add: txd_bytes_def)
  moreover have "net_log s' = net_log s @ map_log ?cells srcs @ [BqlSent bc]"
    unfolding map_log_def packet_maps(1) [OF srcs_def] using c s1 by (simp add: map_event_def)
  ultimately show ?thesis
    using c s1 commit_inv [OF inv room nz, of "skb_id b" segs bc] commit_pending [OF inv room, of ?h "skb_id b" segs bc]
    unfolding xmit_accepted_def ring by auto
qed

text \<open>
  The room the availability check leaves is enough for every packet, except for the extra descriptor
  of the large-send patch on a packet that already has the greatest number of fragments.
\<close>

definition patch_room :: "'k kernel \<Rightarrow> tx_cfg \<Rightarrow> sk_buff \<Rightarrow> bool" where
  "patch_room K cfg b \<longleftrightarrow> RequireLSOPatch cfg \<longrightarrow> feature_tso cfg \<and> gso_size b \<noteq> 0 \<longrightarrow> length (skb_frags b) < MAX_SKB_FRAGS K"

lemma pieces_plain: "o1 AND (GiantSendv4 OR GiantSendv6) = 0 \<Longrightarrow> length (pieces cfg o1 fs cnt) = length fs"
  by (induction cfg o1 fs cnt rule: pieces.induct) auto

lemma pieces_room:
  assumes "skb_ok K b'" "patch_room K cfg b" "length (skb_frags b') \<le> length (skb_frags b)"
    and "\<not> (feature_tso cfg \<and> gso_size b \<noteq> 0) \<longrightarrow> o1 = DescOwn"
  shows "length (pieces cfg o1 (skb_frags b') cnt) \<le> MAX_SKB_FRAGS K"
proof (cases "RequireLSOPatch cfg \<and> feature_tso cfg \<and> gso_size b \<noteq> 0")
  case True
  then show ?thesis using assms(2,3) length_pieces(1) [of cfg o1 "skb_frags b'" cnt] by (auto simp: patch_room_def)
next
  case False
  have "DescOwn AND (GiantSendv4 OR GiantSendv6) = 0" by (simp add: DescOwn_def GiantSendv4_def GiantSendv6_def)
  then have "length (pieces cfg o1 (skb_frags b') cnt) = length (skb_frags b')"
    using False assms(4) length_pieces(2) [of cfg o1 "skb_frags b'" cnt] pieces_plain [of o1 cfg "skb_frags b'" cnt] by auto
  then show ?thesis using assms(1) by (simp add: skb_ok_def)
qed

lemma frag_pre_start:
  assumes "free_ahead (ring s) (length ps)"
  shows "frag_pre s ps 0 [] (cur_tx (ring s)) s"
proof -
  have "filled s [] s" unfolding filled_def by (rule exI [of _ "kern s"]) simp
  then show ?thesis using assms by (simp add: frag_pre_def nonzero_def)
qed

text \<open>The first descriptor of a packet with \<open>ds\<close> further ones.\<close>

lemma head_txd_ok:
  assumes "0 < tx_n r" "l \<noteq> 0" "l < 0x10000" "w = rtl8125_get_txd_opts1 r (if m \<noteq> 0 then o1 OR FirstFrag else o1 OR (FirstFrag OR LastFrag)) l (cur_tx r mod num_tx_desc r)"
  shows "txd_ok r o1 m 0 (w, o2, a, l)"
  using assms last_slot_iff [OF assms(1), of "cur_tx r" 0] by (auto simp: txd_ok_def opts1_flags(1,2))

text \<open>Mapping the head: the packet is committed, or the fragments are undone and the packet dropped.\<close>

lemma head_outcome:
  assumes inv: "tx_inv K (ring s)" and room: "length ds < tx_n (ring s) - inflight (ring s)"
    and filled: "filled s ds s1" and entry: "entry = cur_tx (ring s) mod num_tx_desc (ring s)"
    and bits: "giant_bits_ok o1"
    and txds: "\<And>m j. j \<le> length ds \<Longrightarrow> txd_ok (ring s) o1 (length ds) j (((w, o2, (m, skb_data b), l) # ds) ! j)"
    and sum: "unat l + sum_list (map (\<lambda>(st, o2, a, l). unat l) ds) = unat (skb_len b)"
    and mem: "bytes_at (skb_data b, l) @ concat (map txd_bytes ds) = packet_bytes b"
    and run: "run_state (do { m \<leftarrow> dma_map_single K (skb_data b) l;
         case m of None \<Rightarrow> do { rtl8125_tx_clear_range (cur_tx (ring s) + 1) (length ds); err_dma_0 b }
         | Some mapping \<Rightarrow> xmit_commit K cfg io b (length ds) entry (w, o2) mapping l bc segs }) s1 = (ret, s')"
  shows "ret = NETDEV_TX_OK \<and> (xmit_dropped K s b s' \<or> xmit_accepted K s b s')"
proof (cases "k_dma_map K (kern s1) (skb_data b) l")
  case (Pair mo k)
  show ?thesis
  proof (cases mo)
    case None
    let ?s = "s1\<lparr>kern := k\<rparr>"
    have nz: "\<forall>(st, o2, m, l) \<in> set ds. l \<noteq> 0"
    proof
      fix t assume "t \<in> set ds"
      then obtain j where "j < length ds" "t = ds ! j" by (metis in_set_conv_nth)
      then show "case t of (st, o2, m, l) \<Rightarrow> l \<noteq> 0" using txds [of "Suc j"] by (auto simp: txd_ok_def split: prod.splits)
    qed
    have "free_ahead (ring s) (length ds)" by (rule free_ahead_inv [OF inv room])
    then have "unfilled s ds (snd (run_state (rtl8125_tx_clear_range (cur_tx (ring s) + 1) (length ds)) ?s))"
      using filled_kern [OF filled, of k] nz by (intro clear_filled) (auto simp: free_ahead_def)
    moreover have "run_state (err_dma_0 b) (snd (run_state (rtl8125_tx_clear_range (cur_tx (ring s) + 1) (length ds)) ?s)) = (ret, s')"
      using run Pair None by (simp add: run_dma_map split_beta)
    ultimately show ?thesis using err_dma_dropped [OF inv _ room] by blast
  next
    case (Some m)
    have "run_state (xmit_commit K cfg io b (length ds) entry (w, o2) m l bc segs) (s1\<lparr>kern := k, net_log := net_log s1 @ [DmaMap (skb_data b) m l]\<rparr>) = (ret, s')"
      using run Pair Some by (simp add: run_dma_map)
    then show ?thesis using commit_accepted [OF inv room filled entry bits txds _ mem] sum by auto
  qed
qed

lemma sum_frag_txds:
  "length ms = length ps \<Longrightarrow> sum_list (map (\<lambda>(st, o2, a, l). unat l) (frag_txds r opts x ps ms)) = sum_list (map (unat \<circ> snd) ps)"
  by (induction r opts x ps ms rule: frag_txds.induct) (auto simp: Let_def)

lemma body_outcome:
  assumes inv: "tx_inv K (ring s)" and ok: "skb_ok K b" and bits: "giant_bits_ok (fst opts)" and room: "length (pieces cfg (fst opts) (skb_frags b) 0) \<le> MAX_SKB_FRAGS K"
    and avail: "rtl8125_tx_slots_avail K (ring s)" and entry: "entry = cur_tx (ring s) mod num_tx_desc (ring s)"
    and run: "run_state (xmit_body K cfg io b opts bc segs entry) s = (ret, s')"
  shows "ret = NETDEV_TX_OK \<and> (xmit_dropped K s b s' \<or> xmit_accepted K s b s')"
proof -
  let ?r = "ring s" let ?ps = "pieces cfg (fst opts) (skb_frags b) 0"
  have wf: "tx_wf ?r" "inflight ?r \<le> tx_n ?r" "0 < tx_n ?r" using inv by (auto simp: tx_inv_def tx_wf_def)
  have rm: "length ?ps < tx_n ?r - inflight ?r"
    using room avail slots_avail_iff [OF wf(2), of K] by simp
  have nz: "\<forall>(a, l) \<in> set (skb_frags b). l \<noteq> 0" using ok unfolding skb_ok_def by blast
  have bd: "\<forall>(a, l) \<in> set ?ps. l \<noteq> 0 \<and> l < 0x10000"
  proof (clarify, rule pieces_bounds)
    show "\<forall>(a, l) \<in> set (skb_frags b). l \<noteq> 0 \<and> l < 0x10000" using ok by (simp add: skb_ok_def)
  qed
  obtain frags s1 where x: "run_state (rtl8125_xmit_frags K cfg b opts) s = (frags, s1)" by fastforce
  have fr: "frags_result s cfg opts [] ?ps (frags, s1)"
    using frags_loop_result [of s cfg opts 0 "skb_frags b" 0 "[]" "cur_tx ?r" s K] frag_pre_start [OF free_ahead_inv [OF inv rm]] nz x
    by (simp add: rtl8125_xmit_frags_def)
  then consider (err) ds where "frags = - 5" "unfilled s ds s1" "length ds \<le> length ?ps"
    | (ok) ms where "length ms = length ?ps" "frags = int (length ?ps)" "filled s (frag_txds ?r opts (cur_tx ?r + 1) ?ps ms) s1"
    by (auto simp: frags_result_def)
  then show ?thesis
  proof cases
    case err
    then have "run_state (err_dma_0 b) s1 = (ret, s')" using run x by (simp add: xmit_body_def)
    then show ?thesis using err_dma_dropped [OF inv err(2)] err(3) rm by auto
  next
    case ok
    let ?ds = "frag_txds ?r opts (cur_tx ?r + 1) ?ps ms"
    let ?len = "if ?ps = [] then skb_len b else skb_headlen b"
    let ?o1 = "if length ?ps \<noteq> 0 then fst opts OR FirstFrag else fst opts OR (FirstFrag OR LastFrag)"
    let ?w = "rtl8125_get_txd_opts1 ?r ?o1 ?len entry"
    have ld: "length ?ds = length ?ps" by (rule length_frag_txds [OF ok(1)])
    have r1: "num_tx_desc (ring s1) = num_tx_desc ?r" "cur_tx (ring s1) = cur_tx ?r" "rtl8125_get_txd_opts1 (ring s1) = rtl8125_get_txd_opts1 ?r"
      using filled_ring [OF ok(3)] opts1_ring [OF ok(3)] by auto
    have run1: "run_state (do { m \<leftarrow> dma_map_single K (skb_data b) ?len;
         case m of None \<Rightarrow> do { rtl8125_tx_clear_range (cur_tx ?r + 1) (length ?ds); err_dma_0 b }
         | Some mapping \<Rightarrow> xmit_commit K cfg io b (length ?ds) entry (?w, snd opts) mapping ?len bc segs }) s1 = (ret, s')"
      unfolding ld unfolding r1(2,3) [symmetric] using run x ok(2) by (cases "?ps = []") (simp_all add: xmit_body_def cong: option.case_cong)
    have len: "?len \<noteq> 0" "?len < 0x10000"
      using \<open>skb_ok K b\<close> pieces_empty [of cfg "fst opts" "skb_frags b" 0]
      by (auto simp: skb_ok_def word_less_nat_alt word_unat_eq_iff)
    have txds: "txd_ok ?r (fst opts) (length ?ds) j (((?w, snd opts, (m, skb_data b), ?len) # ?ds) ! j)" if "j \<le> length ?ds" for j m
      using that frag_txds_ok [OF wf(3) ok(1) bd, of j opts] head_txd_ok [OF wf(3) len, of ?w "length ?ps" "fst opts" "snd opts" "(m, skb_data b)"]
      by (cases j) (auto simp: ld entry)
    have "sum_list (map (\<lambda>(st, o2, a, l). unat l) ?ds) = sum_list (map (unat \<circ> snd) ?ps)"
      by (rule sum_frag_txds [OF ok(1)])
    then have "unat ?len + sum_list (map (\<lambda>(st, o2, a, l). unat l) ?ds) = unat (skb_len b)"
      using \<open>skb_ok K b\<close> sum_pieces [OF nz, of cfg "fst opts" 0] pieces_empty [of cfg "fst opts" "skb_frags b" 0]
      by (auto simp: skb_ok_def)
    moreover have "?len = skb_headlen b"
      using \<open>skb_ok K b\<close> pieces_empty [of cfg "fst opts" "skb_frags b" 0] by (auto simp: skb_ok_def word_unat_eq_iff)
    then have "bytes_at (skb_data b, ?len) @ concat (map txd_bytes ?ds) = packet_bytes b"
      by (simp add: packet_bytes_def frag_txds_bytes [OF ok(1)] pieces_bytes)
    ultimately show ?thesis
      using head_outcome [OF inv _ ok(3) entry bits txds _ _ run1] ld rm by simp
  qed
qed


text \<open>
  The outcome of \<open>rtl8125_start_xmit\<close>: refused with nothing touched, or the packet dropped and the ring
  as before, or the packet queued.  When the kernel ran out of memory padding the packet it has freed
  it already, and the driver frees it again.
\<close>

definition pad_freed :: "'k kernel \<Rightarrow> tx_cfg \<Rightarrow> ('d, 'k) txq \<Rightarrow> sk_buff \<Rightarrow> ('d, 'k) txq \<Rightarrow> bool" where
  "pad_freed K cfg s b s' \<longleftrightarrow> \<not> (feature_tso cfg \<and> gso_size b \<noteq> 0) \<and> pad_failure K b
     \<and> ring s' = ring s \<and> net_log s' = net_log s @ [SkbPadFree (skb_id b), SkbFree (skb_id b)]"

lemma xmit_outcome:
  assumes "kernel_ok K" "tx_inv K (ring s)" "skb_ok K b" "patch_room K cfg b"
    and "run_state (rtl8125_start_xmit K cfg io b) s = (ret, s')"
  shows "(ret = NETDEV_TX_BUSY \<and> ring s' = ring s \<and> net_log s' = net_log s \<and> q_stopped s')
    \<or> (ret = NETDEV_TX_OK \<and> (pad_freed K cfg s b s' \<or> xmit_dropped K s b s' \<or> (\<exists>b'. prepared K b b' \<and> xmit_accepted K s b' s')))"
proof -
  let ?r = "ring s"
  have stop: ?thesis if "run_state err_stop s = (ret, s')"
    using that by (auto simp: err_stop_def netif_stop_subqueue_def)
  show ?thesis
  proof (cases "rtl8125_tx_slots_avail K ?r \<and> \<not> (\<not> EnableTxNoClose cfg \<and> td_opts1 (TxDescArray ?r ! unat (cur_tx ?r mod num_tx_desc ?r)) AND DescOwn \<noteq> 0)")
    case False
    then have "run_state err_stop s = (ret, s')"
      using assms(5) by (auto simp: rtl8125_start_xmit_def Let_def split: if_splits)
    then show ?thesis by (rule stop)
  next
    case True
    obtain t s1 where t: "run_state (rtl8125_tso_csum K cfg b (DescOwn, rtl8125_tx_vlan_tag cfg b) (skb_len b)) s = (t, s1)" by fastforce
    note o = tso_csum_outcome [OF assms(1,3) t]
    show ?thesis
    proof (cases t)
      case None
      then have e: "run_state (err_dma_0 b) s1 = (ret, s')" using assms(5) True t by (simp add: rtl8125_start_xmit_def Let_def)
      from o None consider "kern_only s s1"
        | "\<not> (feature_tso cfg \<and> gso_size b \<noteq> 0)" "pad_failure K b" "kern_only (s\<lparr>net_log := net_log s @ [SkbPadFree (skb_id b)]\<rparr>) s1"
        by (auto simp: tso_outcome_def)
      then show ?thesis
      proof cases
        case 1
        then show ?thesis using err_dma_untouched [OF assms(2) _ e] by blast
      next
        case 2
        then have "pad_freed K cfg s b s'" "ret = NETDEV_TX_OK" using e by (auto simp: err_dma_0_def pad_freed_def kern_only_def)
        then show ?thesis by blast
      qed
    next
      case (Some q)
      obtain b' opts bc segs where q: "q = (b', opts, bc, segs)" by (cases q)
      have p: "prepared K b b'" "giant_bits_ok (fst opts)" "kern_only s s1" "\<not> (feature_tso cfg \<and> gso_size b \<noteq> 0) \<longrightarrow> fst opts = DescOwn"
        using o Some q by (auto simp: tso_outcome_def)
      have b': "skb_ok K b'" "skb_id b' = skb_id b" "length (skb_frags b') \<le> length (skb_frags b)" using p(1) by (auto simp: prepared_def)
      have s1: "ring s1 = ?r" "net_log s1 = net_log s" "q_stopped s1 = q_stopped s" using p(3) by (auto simp: kern_only_def)
      have "run_state (xmit_body K cfg io b' opts bc segs (cur_tx ?r mod num_tx_desc ?r)) s1 = (ret, s')"
        using assms(5) True t Some q by (simp add: rtl8125_start_xmit_def Let_def)
      then have "ret = NETDEV_TX_OK \<and> (xmit_dropped K s1 b' s' \<or> xmit_accepted K s1 b' s')"
        using p assms(2) True s1 b'(1) pieces_room [OF b'(1) assms(4) b'(3) p(4)] by (intro body_outcome) auto
      moreover have "xmit_dropped K s1 b' s' = xmit_dropped K s b s'" "xmit_accepted K s1 b' s' = xmit_accepted K s b' s'"
        unfolding xmit_dropped_def xmit_accepted_def s1 b'(2) by simp_all
      ultimately show ?thesis using p(1) by blast
    qed
  qed
qed

text \<open>
  Property C28.  Queueing a packet has one of four outcomes.  The driver refuses it, and ring and log are
  untouched.  It drops it: the pending descriptors are as before, every mapping made is undone and the packet
  freed once.  It queues it: behind the pending descriptors stand those of the packet, or of what the kernel's
  padding, checksum help or copy of the head made of it, marked as owned, first, last and end of ring as they
  must be; they are mapped, fragments first and head last, from exactly the addresses of its bytes in order, and
  carry these mappings and lengths; nothing is unmapped or released.  Or the packet is no large send,
  a padding by the kernel failed and has freed it, and the driver frees it a second time.  The ring size is a
  power of two (\<open>tx_inv\<close>); a large send on a chip with the large-send patch has fewer than the greatest
  number of fragments (\<open>patch_room\<close>).
\<close>

theorem start_xmit_exact:
  assumes "kernel_ok K" "tx_inv K (ring s)" "skb_ok K b" "patch_room K cfg b"
    and "run_state (rtl8125_start_xmit K cfg io b) s = (ret, s')"
  shows "(ret = NETDEV_TX_BUSY \<and> ring s' = ring s \<and> net_log s' = net_log s \<and> q_stopped s')
    \<or> (ret = NETDEV_TX_OK \<and> tx_inv K (ring s') \<and> pending (ring s') = pending (ring s)
        \<and> (\<exists>l. net_log s' = net_log s @ l \<and> mapped l = unmapped l \<and> released l = {#skb_id b#} \<and> pad_failed l = {#}))
    \<or> (ret = NETDEV_TX_OK \<and> tx_inv K (ring s') \<and> q_stopped s' = stop_flag K (ring s') (q_stopped s)
        \<and> (\<exists>b' cells srcs bc. prepared K b b' \<and> pending (ring s') = pending (ring s) @ cells
            \<and> frame_ok (ring s) (skb_id b) (unat (skb_len b')) cells
            \<and> length srcs = length cells \<and> cell_bytes cells srcs = packet_bytes b'
            \<and> net_log s' = net_log s @ map_log cells srcs @ [BqlSent bc]))
    \<or> (ret = NETDEV_TX_OK \<and> \<not> (feature_tso cfg \<and> gso_size b \<noteq> 0) \<and> pad_failure K b
        \<and> ring s' = ring s \<and> net_log s' = net_log s @ [SkbPadFree (skb_id b), SkbFree (skb_id b)])"
proof -
  from xmit_outcome [OF assms] consider "ret = NETDEV_TX_BUSY" "ring s' = ring s" "net_log s' = net_log s" "q_stopped s'"
    | "ret = NETDEV_TX_OK" "pad_freed K cfg s b s'" | "ret = NETDEV_TX_OK" "xmit_dropped K s b s'"
    | b' where "ret = NETDEV_TX_OK" "prepared K b b'" "xmit_accepted K s b' s'" by blast
  then show ?thesis
  proof cases
    case 4
    moreover have "skb_id b' = skb_id b" using 4(2) by (simp add: prepared_def)
    ultimately show ?thesis unfolding xmit_accepted_def by (elim conjE exE) (simp, blast)
  qed (simp_all add: pad_freed_def xmit_dropped_def)
qed

section \<open>Reclaiming\<close>

text \<open>
  Property C29.  The transmit interrupt takes exactly the descriptors the controller reports as done off
  the front of the pending ones: it unmaps each with the address and length it was mapped with, consumes
  the packets that end there, in order, reports their number, and wakes a stopped queue when there is
  room again and the link is up.  The ring size is a power of two (\<open>tx_inv\<close>).
\<close>

theorem tx_interrupt_exact:
  assumes "tx_inv K (ring s)" "run_state (rtl8125_tx_interrupt K cfg io) s = (c, s')" "k = reclaimable io cfg s"
  shows "c = of_nat k \<and> k \<le> inflight (ring s) \<and> pending (ring s') = drop k (pending (ring s)) \<and> tx_inv K (ring s')
    \<and> net_log s' = net_log s @ concat (map reclaim_events (take k (pending (ring s)))) @ completed_event (totals (take k (pending (ring s))))
    \<and> q_stopped s' = (q_stopped s \<and> (k = 0 \<or> \<not> rtl8125_tx_slots_avail K (ring s') \<or> \<not> carrier s))"
  using interrupt_outcome [OF assms(1,2)] outcome_pending [OF assms(1), of "reclaimable io cfg s" c s'] reclaimable_le [of io cfg s]
  unfolding assms(3) by (simp add: reclaim_outcome_def Let_def)

text \<open>
  Property C30.  Where descriptors are not closed, the number of finished ones is computed right from the
  controller's pointer of \<open>w\<close> bits however far the driver's 32-bit counter has run: if \<open>j\<close> of the pending
  descriptors are done, exactly \<open>j\<close> are reclaimed.  The ring size is a power of two (\<open>tx_inv\<close>), and the
  controller's pointer is \<open>j\<close> ahead, in \<open>w\<close> bits, of the pointer kept from the last interrupt.
\<close>

theorem noclose_count_exact:
  assumes "tx_inv K (ring s)" "EnableTxNoClose cfg" "MaxTxDescPtrMask cfg = mask w" "w \<le> 32"
    and "j \<le> inflight (ring s)" "inflight (ring s) < 2 ^ w"
    and "fst (run_state (rtl8125_get_hw_clo_ptr io cfg (hw_clo_ptr_reg (ring s))) (priv s))
      = (BeginHwDesCloPtr (ring s) + of_nat j) AND mask w"
  shows "fst (run_state (rtl8125_tx_interrupt K cfg io) s) = of_nat j
    \<and> pending (ring (snd (run_state (rtl8125_tx_interrupt K cfg io) s))) = drop j (pending (ring s))"
proof -
  obtain c s' where run: "run_state (rtl8125_tx_interrupt K cfg io) s = (c, s')" by fastforce
  have j: "j < 2 ^ w" "j < 2 ^ 32" using assms(5,6) inflight_less [of "ring s"] by simp_all
  have "reclaimable io cfg s = j"
    using assms(2,3,5,7) closed_count [OF j(1) assms(4) j(2)] by (simp add: reclaimable_def Let_def)
  then show ?thesis
    using interrupt_outcome [OF assms(1) run] outcome_pending [OF assms(1), of j c s'] assms(5) run
    by (simp add: reclaim_outcome_def Let_def)
qed

section \<open>Any sequence of operations\<close>

text \<open>
  What the controller may do to the ring between two driver operations: write the option words of
  descriptors back, never an address.
\<close>

definition hw_writes :: "tx_ring \<Rightarrow> tx_ring \<Rightarrow> bool" where
  "hw_writes r r' \<longleftrightarrow> (\<exists>ds. r' = r\<lparr>TxDescArray := ds\<rparr> \<and> map td_addr ds = map td_addr (TxDescArray r))"

text \<open>
  The states a ring goes through, with the packets handed over so far, whatever becomes of them.
\<close>

inductive tx_reach :: "'k kernel \<Rightarrow> tx_cfg \<Rightarrow> 'd mmio \<Rightarrow> ('d, 'k) txq \<Rightarrow> nat list \<Rightarrow> ('d, 'k) txq \<Rightarrow> bool"
  for K cfg io s0 where
  start: "tx_reach K cfg io s0 [] s0"
| xmit: "tx_reach K cfg io s0 ids s \<Longrightarrow> skb_ok K b \<Longrightarrow> patch_room K cfg b \<Longrightarrow>
    run_state (rtl8125_start_xmit K cfg io b) s = (ret, s') \<Longrightarrow>
    tx_reach K cfg io s0 (if ret = NETDEV_TX_OK then ids @ [skb_id b] else ids) s'"
| irq: "tx_reach K cfg io s0 ids s \<Longrightarrow> run_state (rtl8125_tx_interrupt K cfg io) s = (c, s') \<Longrightarrow> tx_reach K cfg io s0 ids s'"
| clear: "tx_reach K cfg io s0 ids s \<Longrightarrow> s' = snd (run_state tx_clear_ring s) \<Longrightarrow> tx_reach K cfg io s0 ids s'"
| hw: "tx_reach K cfg io s0 ids s \<Longrightarrow> hw_writes (ring s) (ring s') \<Longrightarrow> net_log s' = net_log s \<Longrightarrow> tx_reach K cfg io s0 ids s'"

definition tx_books :: "'k kernel \<Rightarrow> nat list \<Rightarrow> ('d, 'k) txq \<Rightarrow> bool" where
  "tx_books K ids s \<longleftrightarrow> tx_inv K (ring s) \<and> released (net_log s) + held_skbs (ring s) = mset ids + pad_failed (net_log s)
     \<and> pad_failed (net_log s) + pad_failed (net_log s) \<subseteq># released (net_log s)
     \<and> mapped (net_log s) = unmapped (net_log s) + held_dma (ring s)"

lemma frame_skbs: "frame_ok r i n cs \<Longrightarrow> sum_list (map cell_skb cs) = {#i#}"
proof -
  assume f: "frame_ok r i n cs"
  obtain cs' c where cs: "cs = cs' @ [c]" using f by (cases cs rule: rev_cases) (auto simp: frame_ok_def)
  have nth: "ri_skb (snd (cs ! j)) = (if j = length cs' then Some i else None)" if "j < length cs" for j
    using f that cs unfolding frame_ok_def Let_def by simp
  have "cell_skb d = {#}" if d: "d \<in> set cs'" for d
  proof -
    obtain j where j: "j < length cs'" "d = cs' ! j" using d by (auto simp: in_set_conv_nth)
    then have "cs ! j = d" "j < length cs" using cs by (simp_all add: nth_append)
    then have "ri_skb (snd d) = None" using nth [of j] j(1) by auto
    then show ?thesis by (simp add: cell_skb_def)
  qed
  moreover have "cell_skb c = {#i#}" using nth [of "length cs'"] cs by (simp add: cell_skb_def)
  ultimately show ?thesis using cs by (simp add: sum_list_empty)
qed

lemma pairs_mono: "p + p \<subseteq># r \<Longrightarrow> p + p \<subseteq># (r :: 'a multiset) + x"
  by (meson mset_subset_eq_add_left subset_mset.order_trans)

lemma frame_lens: "frame_ok r i n cs \<Longrightarrow> \<forall>c \<in> set cs. ri_len (snd c) \<noteq> 0"
  unfolding frame_ok_def Let_def all_set_conv_all_nth by blast

lemma books_xmit:
  assumes "kernel_ok K" "tx_books K ids s" "skb_ok K b" "patch_room K cfg b"
    and "run_state (rtl8125_start_xmit K cfg io b) s = (ret, s')"
  shows "tx_books K (if ret = NETDEV_TX_OK then ids @ [skb_id b] else ids) s'"
proof -
  have inv: "tx_inv K (ring s)" using assms(2) by (simp add: tx_books_def)
  from xmit_outcome [OF assms(1) inv assms(3-5)]
  consider "ret = NETDEV_TX_BUSY" "ring s' = ring s" "net_log s' = net_log s"
    | "ret = NETDEV_TX_OK" "pad_freed K cfg s b s'"
    | "ret = NETDEV_TX_OK" "xmit_dropped K s b s'"
    | b' where "ret = NETDEV_TX_OK" "prepared K b b'" "xmit_accepted K s b' s'" by blast
  then show ?thesis
  proof cases
    case 1
    then show ?thesis using assms(2) by (simp add: tx_books_def)
  next
    case 2
    then show ?thesis using assms(2) by (simp add: tx_books_def pad_freed_def)
  next
    case 3
    then show ?thesis using assms(2) pairs_mono [of "pad_failed (net_log s)" "released (net_log s)" "{#skb_id b#}"] by (auto simp: tx_books_def xmit_dropped_def held_skbs_def held_dma_def)
  next
    case 4
    then obtain cells srcs bc where c: "tx_inv K (ring s')" "pending (ring s') = pending (ring s) @ cells"
      "frame_ok (ring s) (skb_id b) (unat (skb_len b')) cells" "length srcs = length cells"
      "net_log s' = net_log s @ map_log cells srcs @ [BqlSent bc]"
      unfolding xmit_accepted_def prepared_def by auto
    show ?thesis
      using assms(2) 4(1) c(1) frame_skbs [OF c(3)] map_log_accounts [OF c(4) frame_lens [OF c(3)]]
      by (simp add: tx_books_def held_skbs_def held_dma_def c(2,5))
  qed
qed

lemma sum_take_drop:
  fixes f :: "'a \<Rightarrow> 'm::comm_monoid_add"
  shows "sum_list (map f (take k xs)) + sum_list (map f (drop k xs)) = sum_list (map f xs)"
  by (metis append_take_drop_id map_append sum_list_append)

lemma books_irq:
  assumes "tx_books K ids s" "run_state (rtl8125_tx_interrupt K cfg io) s = (c, s')"
  shows "tx_books K ids s'"
proof -
  have inv: "tx_inv K (ring s)" using assms(1) by (simp add: tx_books_def)
  let ?k = "reclaimable io cfg s" let ?cs = "take ?k (pending (ring s))"
  note out = interrupt_outcome [OF inv assms(2)]
  note p = outcome_pending [OF inv out reclaimable_le]
  have nz: "\<forall>c \<in> set ?cs. ri_len (snd c) \<noteq> 0" using inv by (auto simp: tx_inv_def dest: in_set_takeD)
  have ce: "mapped (completed_event t) = {#}" "unmapped (completed_event t) = {#}" "released (completed_event t) = {#}"
    "pad_failed (completed_event t) = {#}" for t
    by (simp_all add: completed_event_def)
  have log: "net_log s' = net_log s @ concat (map reclaim_events ?cs) @ completed_event (totals ?cs)"
    using out by (simp add: reclaim_outcome_def Let_def)
  have "held_dma (ring s) = sum_list (map cell_dma ?cs) + held_dma (ring s')"
    "held_skbs (ring s) = sum_list (map cell_skb ?cs) + held_skbs (ring s')"
    by (simp_all add: held_dma_def held_skbs_def p(1) sum_take_drop)
  then show ?thesis
    using assms(1) p(2) pairs_mono [of "pad_failed (net_log s)" "released (net_log s)" "sum_list (map cell_skb ?cs)"]
    by (simp add: tx_books_def log ce reclaim_accounts [OF nz] ac_simps)
qed

lemma books_clear:
  assumes "tx_books K ids s" "s' = snd (run_state tx_clear_ring s)"
  shows "tx_books K ids s'" "pending (ring s') = []" "pad_failed (net_log s') = pad_failed (net_log s)"
proof -
  have inv: "tx_inv K (ring s)" using assms(1) by (simp add: tx_books_def)
  have nz: "\<forall>c \<in> set (pending (ring s)). ri_len (snd c) \<noteq> 0" using inv by (simp add: tx_inv_def)
  note c = clear_outcome [OF inv, folded assms(2), unfolded Let_def]
  show "pending (ring s') = []" "pad_failed (net_log s') = pad_failed (net_log s)" using c by (simp_all add: clear_accounts [OF nz])
  then show "tx_books K ids s'"
    using assms(1) c pairs_mono [of "pad_failed (net_log s)" "released (net_log s)" "held_skbs (ring s)"]
    by (simp add: tx_books_def held_skbs_def held_dma_def clear_accounts [OF nz])
qed

lemma tx_inv_infos:
  "tx_inv K r \<longleftrightarrow> tx_wf r \<and> MAX_SKB_FRAGS K < tx_n r \<and> inflight r \<le> tx_n r
     \<and> (\<forall>i \<in> set (map snd (pending r)). ri_len i \<noteq> 0)
     \<and> (\<forall>i \<in> set (map snd (free_cells r)). ri_len i = 0 \<and> ri_skb i = None)
     \<and> (map snd (pending r) \<noteq> [] \<longrightarrow> ri_skb (last (map snd (pending r))) \<noteq> None)"
  by (auto simp: tx_inv_def last_map)

lemma books_hw:
  assumes "tx_books K ids s" "hw_writes (ring s) (ring s')" "net_log s' = net_log s"
  shows "tx_books K ids s'"
proof -
  obtain ds where r': "ring s' = ring s\<lparr>TxDescArray := ds\<rparr>" and ds: "map td_addr ds = map td_addr (TxDescArray (ring s))"
    using assms(2) by (auto simp: hw_writes_def)
  let ?r = "ring s"
  have len: "length ds = length (TxDescArray ?r)" using ds by (metis length_map)
  have wf: "tx_wf ?r" using assms(1) by (simp add: tx_books_def tx_inv_def)
  have cell: "snd (tx_slot (ring s') e) = snd (tx_slot ?r e) \<and> td_addr (fst (tx_slot (ring s') e)) = td_addr (fst (tx_slot ?r e))"
    if "e < tx_n ?r" for e
  proof -
    have e: "e < length ds" "e < length (TxDescArray ?r)" using that wf len by (auto simp: tx_wf_def)
    have "map td_addr ds ! e = map td_addr (TxDescArray ?r) ! e" by (simp only: ds)
    then show ?thesis using e by (simp add: r' tx_slot_def)
  qed
  have win: "map f (window (tx_slot (ring s')) (tx_n ?r) x m) = map f (tx_window ?r x m)"
    if "\<And>c d. snd c = snd d \<Longrightarrow> td_addr (fst c) = td_addr (fst d) \<Longrightarrow> f c = f d" for f :: "tx_cell \<Rightarrow> 'x" and x m
  proof -
    have "f (tx_slot (ring s') (slot_index (tx_n ?r) x j)) = f (tx_slot ?r (slot_index (tx_n ?r) x j))" for j
      using cell [of "slot_index (tx_n ?r) x j"] wf by (intro that) (simp_all add: slot_index_less tx_wf_def)
    then show ?thesis by (simp add: window_def)
  qed
  have i: "inflight (ring s') = inflight ?r" by (simp add: r' inflight_def)
  have p: "map f (pending (ring s')) = map f (pending ?r)" "map f (free_cells (ring s')) = map f (free_cells ?r)"
    if "\<And>c d. snd c = snd d \<Longrightarrow> td_addr (fst c) = td_addr (fst d) \<Longrightarrow> f c = f d" for f :: "tx_cell \<Rightarrow> 'x"
    using win [OF that] unfolding pending_def free_cells_def i by (simp_all add: r')
  have 1: "map snd (pending (ring s')) = map snd (pending ?r)" "map snd (free_cells (ring s')) = map snd (free_cells ?r)"
    by (rule p; simp)+
  have "tx_inv K (ring s')"
    using assms(1) i len unfolding tx_books_def tx_inv_infos 1 by (simp add: r' tx_wf_def)
  moreover have "held_dma (ring s') = held_dma ?r" "held_skbs (ring s') = held_skbs ?r"
    unfolding held_dma_def held_skbs_def by (subst p(1); simp add: cell_dma_def cell_skb_def)+
  ultimately show ?thesis using assms(1,3) by (simp add: tx_books_def)
qed


lemma reach_books:
  assumes "kernel_ok K" "tx_inv K (ring s0)" "pending (ring s0) = []" "net_log s0 = []" "tx_reach K cfg io s0 ids s"
  shows "tx_books K ids s"
  using assms(5)
proof induction
  case start
  then show ?case using assms by (simp add: tx_books_def held_skbs_def held_dma_def)
next
  case (xmit ids s b ret s')
  then show ?case using books_xmit [OF assms(1)] by blast
next
  case (irq ids s c s')
  then show ?case using books_irq by blast
next
  case (clear ids s s')
  then show ?case using books_clear by blast
next
  case (hw ids s s')
  then show ?case using books_hw by blast
qed

text \<open>
  Property C31.  From an empty ring of a size that is a power of two, after any sequence of queueing, interrupts,
  clearing and write-backs by the controller, whatever the kernel does: the packets released and those still
  pending are exactly the packets handed over, each once, and once more those whose padding failed (the kernel has
  freed these and so does the driver, at once); the mappings made are exactly those undone and those
  pending; and clearing the ring then leaves no packet and no mapping behind.  The packets handed over satisfy
  \<open>patch_room\<close>: a large send on a chip with the large-send patch has fewer than the greatest number of fragments.
\<close>

theorem tx_conservation:
  assumes "kernel_ok K" "tx_inv K (ring s0)" "pending (ring s0) = []" "net_log s0 = []" "tx_reach K cfg io s0 ids s"
  shows "released (net_log s) + held_skbs (ring s) = mset ids + pad_failed (net_log s)
    \<and> pad_failed (net_log s) + pad_failed (net_log s) \<subseteq># released (net_log s)
    \<and> mapped (net_log s) = unmapped (net_log s) + held_dma (ring s)
    \<and> (let l = net_log (snd (run_state tx_clear_ring s)) in
        released l = mset ids + pad_failed (net_log s) \<and> pad_failed l = pad_failed (net_log s) \<and> mapped l = unmapped l)"
  using reach_books [OF assms] books_clear [OF reach_books [OF assms] refl]
  by (simp add: tx_books_def held_skbs_def held_dma_def Let_def)

section \<open>A small system\<close>

definition demo_kernel :: "nat kernel" where
  "demo_kernel = \<lparr>MAX_SKB_FRAGS = 1, k_dma_map = (\<lambda>k a l. (Some (of_nat (Suc k)), Suc k)),
     k_padto = (\<lambda>k b n. (Some (b\<lparr>skb_headlen := skb_len b, skb_frags := []\<rparr>), k)),
     k_eth_pad = (\<lambda>k b. (Some (b\<lparr>skb_len := 60, skb_headlen := 60, skb_frags := []\<rparr>), k)),
     k_cow_head = (\<lambda>k b. (Some b, k)), k_tcp_v6_check = (\<lambda>b. 0), k_checksum_help = (\<lambda>k b. (b, k)),
     k_stack_xoff = (\<lambda>k. False), k_xmit_more = (\<lambda>k. False), k_tx_sent = (\<lambda>k n. k), k_tx_completed = (\<lambda>k p n. k),
     k_tx_reset = (\<lambda>k. k)\<rparr>"

definition demo_io :: "unit mmio" where
  "demo_io = \<lparr>readb = (\<lambda>d r. (0, d)), readw = (\<lambda>d r. (4, d)), readl = (\<lambda>d r. (0, d)), writeb = (\<lambda>d r v. d), writew = (\<lambda>d r v. d),
     writel = (\<lambda>d r v. d), elapse = (\<lambda>d t. d), pci_read = (\<lambda>d a. (0, d)), pci_write = (\<lambda>d a v. d)\<rparr>"

definition demo_cfg :: tx_cfg where
  "demo_cfg = \<lparr>CONFIG_R8125_VLAN = False, EnableTxNoClose = True, HwSuppTxNoCloseVer = 3, MaxTxDescPtrMask = 0xFFFF, RequireLSOPatch = False,
     UseSwPaddingShortPkt = True, ShortPacketSwChecksum = True, tx_tcp_csum_cmd = 0x40000000, tx_udp_csum_cmd = 0x80000000,
     tx_ip_csum_cmd = 0x20000000, tx_ipv6_csum_cmd = 0x10000000, feature_tso = True, feature_ip_csum = True, feature_ipv6_csum = True\<rparr>"

definition demo_skb :: sk_buff where
  "demo_skb = \<lparr>skb_id = 7, skb_len = 1000, skb_headlen = 200, skb_data = 0x1000, skb_frags = [(0x5000, 800)], skb_proto = 0x0800,
     net_hdr_ok = True, ip_proto = 6, transport_set = True, skb_transport = 34, l4_dest = 80, tcp_doff = 5, tcp_check = 0,
     gso_size = 0, gso_segs = 0, csum_partial = True, vlan_tag = None\<rparr>"

definition no_desc :: TxDesc where "no_desc = \<lparr>td_opts1 = 0, td_opts2 = 0, td_addr = 0\<rparr>"
definition no_info :: ring_info where "no_info = \<lparr>ri_skb = None, ri_len = 0, ri_bytecount = 0, ri_gso_segs = 0\<rparr>"

definition demo_ring :: tx_ring where
  "demo_ring = \<lparr>tx_index = 0, cur_tx = 3, dirty_tx = 3, num_tx_desc = 4, TxDescArray = replicate 4 no_desc,
     tx_skb = replicate 4 no_info, NextHwDesCloPtr = 3, BeginHwDesCloPtr = 3, hw_clo_ptr_reg = 2, sw_tail_ptr_reg = 0\<rparr>"

text \<open>Two pending descriptors across the end of the ring, the packet ending at the second.\<close>

definition busy_ring :: tx_ring where
  "busy_ring = demo_ring\<lparr>cur_tx := 5,
     TxDescArray := (replicate 4 no_desc)[3 := no_desc\<lparr>td_addr := 0x10\<rparr>, 0 := no_desc\<lparr>td_addr := 0x20\<rparr>],
     tx_skb := (replicate 4 no_info)[3 := no_info\<lparr>ri_len := 200\<rparr>, 0 := no_info\<lparr>ri_len := 800, ri_skb := Some 7, ri_gso_segs := 1, ri_bytecount := 1000\<rparr>]\<rparr>"

definition demo_txq :: "tx_ring \<Rightarrow> (unit, nat) txq" where
  "demo_txq r = \<lparr>priv = demo_nic (), kern = 0, net_log = [], carrier = True, tx_dropped = 0, tx_bytes = 0, tx_packets = 0,
     q_stopped = False, ring = r\<rparr>"

lemma demo_kernel_ok: "kernel_ok demo_kernel"
  by (auto simp: kernel_ok_def demo_kernel_def)

lemma demo_ring_wf: "tx_wf demo_ring" "tx_wf busy_ring"
  by (simp_all add: tx_wf_def demo_ring_def busy_ring_def)

lemma demo_ring_inv: "tx_inv demo_kernel demo_ring" "tx_inv demo_kernel busy_ring"
  unfolding tx_inv_def by (intro conjI demo_ring_wf; code_simp)+

lemma demo_skb_ok: "skb_ok demo_kernel demo_skb" "patch_room demo_kernel demo_cfg demo_skb"
  by (simp_all add: skb_ok_def patch_room_def demo_kernel_def demo_skb_def demo_cfg_def)

lemma one_frag: "xmit_frags_loop K cfg [(a, l)] opts (Suc n) e c = State_Monad.return (int (Suc n))"
  by (subst xmit_frags_loop.simps) simp

lemmas demo_defs = demo_kernel_def demo_io_def demo_cfg_def demo_skb_def demo_ring_def demo_txq_def demo_nic_def no_desc_def no_info_def

lemmas demo_run = rtl8125_tx_slots_avail_def lso_patch_def dma_map_single_def put_txd_def rtl8125_get_txd_opts1_def xmit_commit_def
  rtl8125_doorbell_def netif_stop_subqueue_def netif_start_subqueue_def upd_ring_def net_ev_def on_nic_def RTL_W16_def Let_def
  DescOwn_def FirstFrag_def LastFrag_def RingEnd_def GiantSendv4_def GiantSendv6_def unat_mod

lemma demo_tso: "run_state (rtl8125_tso_csum demo_kernel demo_cfg demo_skb (DescOwn, rtl8125_tx_vlan_tag demo_cfg demo_skb) (skb_len demo_skb)) s
    = (Some (demo_skb, (DescOwn, 0x60000000), 1000, 1), s)"
  by (simp add: rtl8125_tso_csum_def patch_pad_def short_pad_def csum_finish_def csum_command_def rtl8125_tx_vlan_tag_def
      demo_defs Let_def cong: option.case_cong)

lemma demo_frags: "run_state (rtl8125_xmit_frags demo_kernel demo_cfg demo_skb (DescOwn, o2)) (demo_txq demo_ring)
    = (1, (demo_txq demo_ring)\<lparr>kern := 1, net_log := [DmaMap 0x5000 1 800], ring := demo_ring\<lparr>
        TxDescArray := (replicate 4 no_desc)[0 := \<lparr>td_opts1 = 0x90000320, td_opts2 = o2, td_addr = 1\<rparr>],
        tx_skb := (replicate 4 no_info)[0 := no_info\<lparr>ri_len := 800\<rparr>]\<rparr>\<rparr>)"
  unfolding rtl8125_xmit_frags_def
  by (simp add: demo_defs, subst xmit_frags_loop.simps) (simp add: one_frag demo_run)

lemma demo_xmit:
  "fst (run_state (rtl8125_start_xmit demo_kernel demo_cfg demo_io demo_skb) (demo_txq demo_ring)) = NETDEV_TX_OK"
  "length (pending (ring (snd (run_state (rtl8125_start_xmit demo_kernel demo_cfg demo_io demo_skb) (demo_txq demo_ring))))) = 2"
  "net_log (snd (run_state (rtl8125_start_xmit demo_kernel demo_cfg demo_io demo_skb) (demo_txq demo_ring))) = [DmaMap 0x5000 1 800, DmaMap 0x1000 2 200, BqlSent 1000]"
proof -
  let ?c = "run_state (rtl8125_start_xmit demo_kernel demo_cfg demo_io demo_skb) (demo_txq demo_ring)"
  have 1: "rtl8125_tx_slots_avail demo_kernel demo_ring" "EnableTxNoClose demo_cfg" "ring (demo_txq demo_ring) = demo_ring"
    "cur_tx demo_ring mod num_tx_desc demo_ring = 3"
    by (simp_all add: rtl8125_tx_slots_avail_def demo_defs)
  have c: "?c = run_state (xmit_body demo_kernel demo_cfg demo_io demo_skb (DescOwn, 0x60000000) 1000 1 3) (demo_txq demo_ring)"
    unfolding rtl8125_start_xmit_def by (simp add: 1 demo_tso)
  show "fst ?c = NETDEV_TX_OK" "length (pending (ring (snd ?c))) = 2" "net_log (snd ?c) = [DmaMap 0x5000 1 800, DmaMap 0x1000 2 200, BqlSent 1000]"
    unfolding c xmit_body_def by (simp_all add: demo_frags) (simp_all add: demo_run demo_defs inflight_def pending_def window_def)
qed

theorem start_xmit_exact_witness:
  "\<exists>b' cells srcs. pending (ring (snd (run_state (rtl8125_start_xmit demo_kernel demo_cfg demo_io demo_skb) (demo_txq demo_ring)))) = cells
     \<and> length cells = 2 \<and> frame_ok demo_ring 7 (unat (skb_len b')) cells \<and> kernel_made demo_kernel demo_skb b'
     \<and> length srcs = 2 \<and> cell_bytes cells srcs = packet_bytes b'"
proof -
  let ?o = "run_state (rtl8125_start_xmit demo_kernel demo_cfg demo_io demo_skb) (demo_txq demo_ring)"
  have r: "ring (demo_txq demo_ring) = demo_ring" "net_log (demo_txq demo_ring) = []" "pending demo_ring = []" "skb_id demo_skb = 7"
    by (simp_all add: demo_txq_def demo_skb_def pending_def inflight_def demo_ring_def)
  obtain ret s' where o: "?o = (ret, s')" by fastforce
  have l: "length (pending (ring s')) = 2" "ret = NETDEV_TX_OK" using demo_xmit(1,2) unfolding o by simp_all
  then have "pending (ring s') \<noteq> []" by (metis list.size(3) zero_neq_numeral)
  then have ne: "pending (ring s') \<noteq> []" "ring s' \<noteq> demo_ring" using r(3) by auto
  from start_xmit_exact [OF demo_kernel_ok, of "demo_txq demo_ring" demo_skb demo_cfg demo_io, unfolded r, OF demo_ring_inv(1) demo_skb_ok o] l(2) ne
  obtain b' cells srcs where "prepared demo_kernel demo_skb b'" "pending (ring s') = cells" "frame_ok demo_ring 7 (unat (skb_len b')) cells"
    "length srcs = length cells" "cell_bytes cells srcs = packet_bytes b'"
    by (elim disjE conjE exE) auto
  then show ?thesis using l(1) unfolding o by (auto simp: prepared_def)
qed

theorem tx_interrupt_exact_witness:
  "fst (run_state (rtl8125_tx_interrupt demo_kernel (demo_cfg\<lparr>EnableTxNoClose := False\<rparr>) demo_io) (demo_txq busy_ring)) = 2"
proof -
  have "reclaimable demo_io (demo_cfg\<lparr>EnableTxNoClose := False\<rparr>) (demo_txq busy_ring) = 2" by code_simp
  then show ?thesis
    using tx_interrupt_exact [of demo_kernel "demo_txq busy_ring" "demo_cfg\<lparr>EnableTxNoClose := False\<rparr>" demo_io] demo_ring_inv(2)
    by (metis prod.collapse demo_txq_def txq.select_convs(9) of_nat_numeral)
qed

theorem noclose_count_exact_witness:
  "fst (run_state (rtl8125_tx_interrupt demo_kernel demo_cfg demo_io) (demo_txq busy_ring)) = 1"
proof -
  have "MaxTxDescPtrMask demo_cfg = mask 16" "EnableTxNoClose demo_cfg" by code_simp+
  moreover have "fst (run_state (rtl8125_get_hw_clo_ptr demo_io demo_cfg (hw_clo_ptr_reg busy_ring)) (demo_nic ()))
      = (BeginHwDesCloPtr busy_ring + of_nat 1) AND mask 16" "inflight busy_ring = 2" by code_simp+
  ultimately show ?thesis
    using noclose_count_exact [of demo_kernel "demo_txq busy_ring" demo_cfg 16 1 demo_io] demo_ring_inv(2)
    by (simp add: demo_txq_def)
qed

text \<open>A kernel that cannot pad frees a short packet, and the driver frees it again.\<close>

definition poor_kernel :: "nat kernel" where
  "poor_kernel = demo_kernel\<lparr>k_eth_pad := \<lambda>k b. (None, k)\<rparr>"

definition short_skb :: sk_buff where
  "short_skb = demo_skb\<lparr>skb_len := 42, skb_headlen := 42, skb_frags := []\<rparr>"

lemma pad_failure_frees_twice:
  "fst (run_state (rtl8125_start_xmit poor_kernel demo_cfg demo_io short_skb) (demo_txq demo_ring)) = NETDEV_TX_OK"
  "net_log (snd (run_state (rtl8125_start_xmit poor_kernel demo_cfg demo_io short_skb) (demo_txq demo_ring))) = [SkbPadFree 7, SkbFree 7]"
  by code_simp+

lemma poor_kernel_ok: "kernel_ok poor_kernel" "tx_inv poor_kernel demo_ring" "skb_ok poor_kernel short_skb" "patch_room poor_kernel demo_cfg short_skb"
  using demo_ring_inv(1)
  by (auto simp: kernel_ok_def skb_ok_def poor_kernel_def demo_kernel_def tx_inv_def short_skb_def patch_room_def demo_skb_def demo_cfg_def)

theorem tx_conservation_witness:
  "released (net_log (snd (run_state tx_clear_ring
     (snd (run_state (rtl8125_start_xmit demo_kernel demo_cfg demo_io demo_skb) (demo_txq demo_ring)))))) = {#7#}
   \<and> released (net_log (snd (run_state tx_clear_ring
     (snd (run_state (rtl8125_start_xmit poor_kernel demo_cfg demo_io short_skb) (demo_txq demo_ring)))))) = {#7, 7#}"
proof (rule conjI)
  have s: "ring (demo_txq demo_ring) = demo_ring" "net_log (demo_txq demo_ring) = []" "pending demo_ring = []" "skb_id demo_skb = 7" "skb_id short_skb = 7"
    by (simp_all add: demo_txq_def demo_skb_def short_skb_def pending_def inflight_def demo_ring_def)
  let ?o = "run_state (rtl8125_start_xmit demo_kernel demo_cfg demo_io demo_skb) (demo_txq demo_ring)"
  have "tx_reach demo_kernel demo_cfg demo_io (demo_txq demo_ring) [7] (snd ?o)"
    using tx_reach.xmit [OF tx_reach.start demo_skb_ok, where io = demo_io and s = "demo_txq demo_ring" and ret = "fst ?o" and s' = "snd ?o"] demo_xmit(1) s by (simp add: prod_eq_iff)
  then show "released (net_log (snd (run_state tx_clear_ring (snd ?o)))) = {#7#}"
    using tx_conservation [OF demo_kernel_ok, of "demo_txq demo_ring" demo_cfg demo_io "[7]" "snd ?o"] demo_ring_inv(1) s demo_xmit(3)
    by (simp add: Let_def)
  let ?p = "run_state (rtl8125_start_xmit poor_kernel demo_cfg demo_io short_skb) (demo_txq demo_ring)"
  have "tx_reach poor_kernel demo_cfg demo_io (demo_txq demo_ring) [7] (snd ?p)"
    using tx_reach.xmit [OF tx_reach.start poor_kernel_ok(3,4), where io = demo_io and s = "demo_txq demo_ring" and ret = "fst ?p" and s' = "snd ?p"]
      pad_failure_frees_twice(1) s by (simp add: prod_eq_iff)
  then show "released (net_log (snd (run_state tx_clear_ring (snd ?p)))) = {#7, 7#}"
    using tx_conservation [OF poor_kernel_ok(1), of "demo_txq demo_ring" demo_cfg demo_io "[7]" "snd ?p"] poor_kernel_ok(2) s pad_failure_frees_twice
    by (simp add: Let_def)
qed

section \<open>A path that goes wrong\<close>

text \<open>
  With the large-send patch a packet of the greatest number of fragments takes one descriptor more than
  the availability check has made sure of, and overwrites the oldest pending one.
\<close>

definition lso_skb :: sk_buff where
  "lso_skb = demo_skb\<lparr>gso_size := 1000, gso_segs := 2\<rparr>"

lemma lso_patch_overruns:
  "tx_inv demo_kernel busy_ring \<and> skb_ok demo_kernel lso_skb \<and> inflight busy_ring = 2
   \<and> (let s' = snd (run_state (rtl8125_start_xmit demo_kernel (demo_cfg\<lparr>RequireLSOPatch := True\<rparr>) demo_io lso_skb) (demo_txq busy_ring))
      in inflight (ring s') = 5 \<and> num_tx_desc (ring s') = 4 \<and> td_addr (TxDescArray (ring s') ! 3) \<noteq> td_addr (TxDescArray busy_ring ! 3))"
proof -
  let ?cfg = "demo_cfg\<lparr>RequireLSOPatch := True\<rparr>"
  let ?c = "run_state (rtl8125_start_xmit demo_kernel ?cfg demo_io lso_skb) (demo_txq busy_ring)"
  have tso: "run_state (rtl8125_tso_csum demo_kernel ?cfg lso_skb (DescOwn, rtl8125_tx_vlan_tag ?cfg lso_skb) (skb_len lso_skb)) s
      = (Some (lso_skb, (0x84880000, 0x0FA00000), 1054, 2), s)" for s :: "(unit, nat) txq"
    by (simp add: rtl8125_tso_csum_def tso_branch_def tso_finish_def giant_send_def rtl8125_tx_vlan_tag_def lso_skb_def
        GiantSendv4_def GTTCPHO_MAX_def GTTCPHO_SHIFT_def MSS_MAX_def DescOwn_def demo_defs Let_def)
  have 1: "rtl8125_tx_slots_avail demo_kernel busy_ring" "EnableTxNoClose ?cfg" "ring (demo_txq busy_ring) = busy_ring"
    "cur_tx busy_ring mod num_tx_desc busy_ring = 1"
    by (simp_all add: rtl8125_tx_slots_avail_def demo_defs busy_ring_def)
  have c: "?c = run_state (xmit_body demo_kernel ?cfg demo_io lso_skb (0x84880000, 0x0FA00000) 1054 2 1) (demo_txq busy_ring)"
    unfolding rtl8125_start_xmit_def by (simp add: 1 tso)
  have f: "run_state (rtl8125_xmit_frags demo_kernel ?cfg lso_skb (0x84880000, 0x0FA00000)) (demo_txq busy_ring)
      = (2, (demo_txq busy_ring)\<lparr>kern := 2, net_log := [DmaMap 0x5000 1 799, DmaMap 0x531F 2 1], ring := busy_ring\<lparr>
          TxDescArray := (TxDescArray busy_ring)[2 := \<lparr>td_opts1 = 0x8488031F, td_opts2 = 0x0FA00000, td_addr = 1\<rparr>,
            3 := \<lparr>td_opts1 = 0xD4880001, td_opts2 = 0x0FA00000, td_addr = 2\<rparr>],
          tx_skb := (tx_skb busy_ring)[2 := no_info\<lparr>ri_len := 799\<rparr>, 3 := no_info\<lparr>ri_len := 1\<rparr>]\<rparr>\<rparr>)"
    unfolding rtl8125_xmit_frags_def
    by (simp add: demo_defs busy_ring_def lso_skb_def, subst xmit_frags_loop.simps) (simp add: one_frag demo_run)
  have "inflight (ring (snd ?c)) = 5" "num_tx_desc (ring (snd ?c)) = 4" "td_addr (TxDescArray (ring (snd ?c)) ! 3) = 2"
    unfolding c xmit_body_def
    by (simp_all add: f) (simp_all add: demo_run demo_defs busy_ring_def lso_skb_def inflight_def)
  then show ?thesis
    using demo_ring_inv(2) demo_skb_ok(1) by (simp add: skb_ok_def lso_skb_def Let_def busy_ring_def inflight_def demo_ring_def)
qed

end
