(* ===== verification/RxRing.thy ===== *)
theory RxRing
  imports TxRing
begin

text \<open>
  The receive ring of the r8125 driver (\<open>r8125_n.c\<close>): filling it with buffers, serving the
  descriptors the controller has completed (\<open>rtl8125_rx_interrupt\<close>) and clearing it.  A descriptor
  is the list of the 32-bit words the controller sees; the three layouts \<open>RxDesc\<close>, \<open>RxDescV3\<close> and
  \<open>RxDescV4\<close> of \<open>r8125.h\<close> put the option words and the address at different places.  The kernel's part
  (allocation, DMA mapping, \<open>eth_type_trans\<close>) is the record \<open>'k rx_kernel\<close>; allocations, mappings,
  releases and deliveries are logged in order.

  The build options are those of the repository's \<open>Makefile\<close>: buffers are copied, not reused page by
  page, frames over several descriptors are not joined, no PTP, no RSS.  NAPI and VLAN tags are
  commented out there; they are fields of the configuration here, so that both builds are covered.
  The controller writes to descriptors between the calls of the driver, not within one.
\<close>

section \<open>Descriptors in memory\<close>

datatype rx_desc_ring_type =
    RX_DESC_RING_TYPE_UNKNOWN | RX_DESC_RING_TYPE_1 | RX_DESC_RING_TYPE_2 | RX_DESC_RING_TYPE_3 | RX_DESC_RING_TYPE_4
  | RX_DESC_RING_TYPE_MAX

type_synonym rx_words = "u32 list"

text \<open>The size of a descriptor in words, and where the layouts put the fields.\<close>

definition RX_DESC_LEN :: "rx_desc_ring_type \<Rightarrow> nat" where
  "RX_DESC_LEN t = (case t of RX_DESC_RING_TYPE_3 \<Rightarrow> 8 | _ \<Rightarrow> 4)"

definition opts1_at :: "rx_desc_ring_type \<Rightarrow> nat" where
  "opts1_at t = (case t of RX_DESC_RING_TYPE_3 \<Rightarrow> 7 | RX_DESC_RING_TYPE_4 \<Rightarrow> 3 | _ \<Rightarrow> 0)"

definition opts2_at :: "rx_desc_ring_type \<Rightarrow> nat" where
  "opts2_at t = (case t of RX_DESC_RING_TYPE_3 \<Rightarrow> 6 | RX_DESC_RING_TYPE_4 \<Rightarrow> 2 | _ \<Rightarrow> 1)"

definition addr_at :: "rx_desc_ring_type \<Rightarrow> nat" where
  "addr_at t = (case t of RX_DESC_RING_TYPE_3 \<Rightarrow> 4 | RX_DESC_RING_TYPE_4 \<Rightarrow> 0 | _ \<Rightarrow> 2)"

definition store64 :: "rx_words \<Rightarrow> nat \<Rightarrow> u64 \<Rightarrow> rx_words" where
  "store64 d i v = d[i := ucast v, Suc i := ucast (drop_bit 32 v)]"

definition load64 :: "rx_words \<Rightarrow> nat \<Rightarrow> u64" where
  "load64 d i = ucast (d ! i) OR push_bit 32 (ucast (d ! Suc i))"

definition FirstFrag_V3 :: u32 where "FirstFrag_V3 = 0x02000000"
definition LastFrag_V3 :: u32 where "LastFrag_V3 = 0x01000000"
definition RsvdMask :: u32 where "RsvdMask = 0x3fffc000"
definition RsvdMaskV3 :: u32 where "RsvdMaskV3 = 0x3fff8000"
definition RxVlanTag :: u32 where "RxVlanTag = 0x00010000"
definition RxUDPT :: u32 where "RxUDPT = 0x00040000"
definition RxTCPT :: u32 where "RxTCPT = 0x00020000"
definition RxUDPF :: u32 where "RxUDPF = 0x00008000"
definition RxTCPF :: u32 where "RxTCPF = 0x00004000"
definition RxUDPT_v3 :: u32 where "RxUDPT_v3 = 0x20000000"
definition RxTCPT_v3 :: u32 where "RxTCPT_v3 = 0x10000000"
definition RxUDPF_v3 :: u32 where "RxUDPF_v3 = 0x02000000"
definition RxTCPF_v3 :: u32 where "RxTCPF_v3 = 0x01000000"
definition RxUDPT_v4 :: u32 where "RxUDPT_v4 = 0x00080000"
definition RxTCPT_v4 :: u32 where "RxTCPT_v4 = 0x00040000"
definition RxUDPF_v4 :: u32 where "RxUDPF_v4 = 0x00010000"
definition RxTCPF_v4 :: u32 where "RxTCPF_v4 = 0x00008000"
definition RxRWT :: u32 where "RxRWT = 0x00400000"
definition RxRES :: u32 where "RxRES = 0x00200000"
definition RxRUNT :: u32 where "RxRUNT = 0x00100000"
definition RxCRC :: u32 where "RxCRC = 0x00080000"
definition RxRWT_V3 :: u32 where "RxRWT_V3 = 0x00040000"
definition RxRES_V3 :: u32 where "RxRES_V3 = 0x00100000"
definition RxRUNT_V3 :: u32 where "RxRUNT_V3 = 0x00080000"
definition RxCRC_V3 :: u32 where "RxCRC_V3 = 0x00020000"
definition RxRES_V4 :: u32 where "RxRES_V4 = 0x00400000"
definition RxRUNT_V4 :: u32 where "RxRUNT_V4 = 0x00200000"
definition RxCRC_V4 :: u32 where "RxCRC_V4 = 0x00100000"

abbreviation (input) ETH_FCS_LEN :: u32 where "ETH_FCS_LEN \<equiv> 4"

section \<open>Operations on one descriptor\<close>

definition rtl8125_rx_desc_opts1 :: "rx_desc_ring_type \<Rightarrow> rx_words \<Rightarrow> u32" where
  "rtl8125_rx_desc_opts1 t d = (case t of RX_DESC_RING_TYPE_3 \<Rightarrow> d ! 7 | RX_DESC_RING_TYPE_4 \<Rightarrow> d ! 3 | _ \<Rightarrow> d ! 0)"

definition rtl8125_rx_desc_opts2 :: "rx_desc_ring_type \<Rightarrow> rx_words \<Rightarrow> u32" where
  "rtl8125_rx_desc_opts2 t d = (case t of RX_DESC_RING_TYPE_3 \<Rightarrow> d ! 6 | RX_DESC_RING_TYPE_4 \<Rightarrow> d ! 2 | _ \<Rightarrow> d ! 1)"

definition rtl8125_clear_rx_desc_opts2 :: "rx_desc_ring_type \<Rightarrow> rx_words \<Rightarrow> rx_words" where
  "rtl8125_clear_rx_desc_opts2 t d =
     (case t of RX_DESC_RING_TYPE_3 \<Rightarrow> d[6 := 0] | RX_DESC_RING_TYPE_4 \<Rightarrow> d[2 := 0] | _ \<Rightarrow> d[1 := 0])"

definition rtl8125_set_desc_dma_addr :: "rx_desc_ring_type \<Rightarrow> rx_words \<Rightarrow> u64 \<Rightarrow> rx_words" where
  "rtl8125_set_desc_dma_addr t d mapping =
     (case t of RX_DESC_RING_TYPE_3 \<Rightarrow> store64 d 4 mapping | RX_DESC_RING_TYPE_4 \<Rightarrow> store64 d 0 mapping | _ \<Rightarrow> store64 d 2 mapping)"

definition rtl8125_mark_to_asic_v1 :: "rx_words \<Rightarrow> u32 \<Rightarrow> rx_words" where
  "rtl8125_mark_to_asic_v1 d rx_buf_sz = (let eor = d ! 0 AND RingEnd in d[0 := DescOwn OR eor OR rx_buf_sz])"

definition rtl8125_mark_to_asic_v3 :: "rx_words \<Rightarrow> u32 \<Rightarrow> rx_words" where
  "rtl8125_mark_to_asic_v3 d rx_buf_sz = (let eor = d ! 7 AND RingEnd in d[7 := DescOwn OR eor OR rx_buf_sz])"

definition rtl8125_mark_to_asic_v4 :: "rx_words \<Rightarrow> u32 \<Rightarrow> rx_words" where
  "rtl8125_mark_to_asic_v4 d rx_buf_sz = (let eor = d ! 3 AND RingEnd in d[3 := DescOwn OR eor OR rx_buf_sz])"

definition rtl8125_mark_to_asic :: "rx_desc_ring_type \<Rightarrow> rx_words \<Rightarrow> u32 \<Rightarrow> rx_words" where
  "rtl8125_mark_to_asic t d rx_buf_sz =
     (case t of RX_DESC_RING_TYPE_3 \<Rightarrow> rtl8125_mark_to_asic_v3 d rx_buf_sz
      | RX_DESC_RING_TYPE_4 \<Rightarrow> rtl8125_mark_to_asic_v4 d rx_buf_sz
      | _ \<Rightarrow> rtl8125_mark_to_asic_v1 d rx_buf_sz)"

definition rtl8125_make_unusable_by_asic :: "rx_desc_ring_type \<Rightarrow> rx_words \<Rightarrow> rx_words" where
  "rtl8125_make_unusable_by_asic t d =
     (case t of
        RX_DESC_RING_TYPE_3 \<Rightarrow> let d = store64 d 4 RTL8125_MAGIC_NUMBER in d[7 := d ! 7 AND NOT (DescOwn OR RsvdMaskV3)]
      | RX_DESC_RING_TYPE_4 \<Rightarrow> let d = store64 d 0 RTL8125_MAGIC_NUMBER in d[3 := d ! 3 AND NOT (DescOwn OR RsvdMaskV3)]
      | _ \<Rightarrow> let d = store64 d 2 RTL8125_MAGIC_NUMBER in d[0 := d ! 0 AND NOT (DescOwn OR RsvdMask)])"

definition rtl8125_mark_as_last_descriptor_v1 :: "rx_words \<Rightarrow> rx_words" where
  "rtl8125_mark_as_last_descriptor_v1 d = d[0 := d ! 0 OR RingEnd]"

definition rtl8125_mark_as_last_descriptor_v3 :: "rx_words \<Rightarrow> rx_words" where
  "rtl8125_mark_as_last_descriptor_v3 d = d[7 := d ! 7 OR RingEnd]"

definition rtl8125_mark_as_last_descriptor_v4 :: "rx_words \<Rightarrow> rx_words" where
  "rtl8125_mark_as_last_descriptor_v4 d = d[3 := d ! 3 OR RingEnd]"

definition rtl8125_mark_as_last_descriptor :: "rx_desc_ring_type \<Rightarrow> rx_words \<Rightarrow> rx_words" where
  "rtl8125_mark_as_last_descriptor t d =
     (case t of RX_DESC_RING_TYPE_3 \<Rightarrow> rtl8125_mark_as_last_descriptor_v3 d
      | RX_DESC_RING_TYPE_4 \<Rightarrow> rtl8125_mark_as_last_descriptor_v4 d
      | _ \<Rightarrow> rtl8125_mark_as_last_descriptor_v1 d)"

text \<open>What a completed descriptor says of the frame.\<close>

definition rtl8125_fragmented_frame :: "rx_desc_ring_type \<Rightarrow> u32 \<Rightarrow> bool" where
  "rtl8125_fragmented_frame t status =
     (case t of RX_DESC_RING_TYPE_3 \<Rightarrow> status AND (FirstFrag_V3 OR LastFrag_V3) \<noteq> FirstFrag_V3 OR LastFrag_V3
      | RX_DESC_RING_TYPE_4 \<Rightarrow> status AND (FirstFrag OR LastFrag) \<noteq> FirstFrag OR LastFrag
      | _ \<Rightarrow> status AND (FirstFrag OR LastFrag) \<noteq> FirstFrag OR LastFrag)"

definition rtl8125_is_non_eop :: "rx_desc_ring_type \<Rightarrow> u32 \<Rightarrow> bool" where
  "rtl8125_is_non_eop t status =
     (case t of RX_DESC_RING_TYPE_3 \<Rightarrow> status AND LastFrag_V3 = 0
      | RX_DESC_RING_TYPE_4 \<Rightarrow> status AND LastFrag = 0
      | _ \<Rightarrow> status AND LastFrag = 0)"

definition rtl8125_rx_v1_csum :: "rx_words \<Rightarrow> bool" where
  "rtl8125_rx_v1_csum d \<longleftrightarrow> (let opts1 = d ! 0 in
     (opts1 AND RxTCPT \<noteq> 0 \<and> opts1 AND RxTCPF = 0) \<or> (opts1 AND RxUDPT \<noteq> 0 \<and> opts1 AND RxUDPF = 0))"

definition rtl8125_rx_v3_csum :: "rx_words \<Rightarrow> bool" where
  "rtl8125_rx_v3_csum d \<longleftrightarrow> (let opts2 = d ! 6 in
     (opts2 AND RxTCPT_v3 \<noteq> 0 \<and> opts2 AND RxTCPF_v3 = 0) \<or> (opts2 AND RxUDPT_v3 \<noteq> 0 \<and> opts2 AND RxUDPF_v3 = 0))"

definition rtl8125_rx_v4_csum :: "rx_words \<Rightarrow> bool" where
  "rtl8125_rx_v4_csum d \<longleftrightarrow> (let opts1 = d ! 3 in
     (opts1 AND RxTCPT_v4 \<noteq> 0 \<and> opts1 AND RxTCPF_v4 = 0) \<or> (opts1 AND RxUDPT_v4 \<noteq> 0 \<and> opts1 AND RxUDPF_v4 = 0))"

definition rtl8125_rx_csum :: "rx_desc_ring_type \<Rightarrow> rx_words \<Rightarrow> bool" where
  "rtl8125_rx_csum t d = (case t of RX_DESC_RING_TYPE_3 \<Rightarrow> rtl8125_rx_v3_csum d
     | RX_DESC_RING_TYPE_4 \<Rightarrow> rtl8125_rx_v4_csum d | _ \<Rightarrow> rtl8125_rx_v1_csum d)"

section \<open>The ring and the kernel\<close>

record rx_ring =
  rx_index :: nat
  cur_rx :: u32
  dirty_rx :: u32
  num_rx_desc :: u32
  RxDescArray :: "rx_words list"
  RxDescPhyAddr :: "u64 list"
  Rx_skbuff :: "nat option list"
  rx_data :: "u8 list list"

text \<open>
  \<open>rx_data\<close> is the memory of the buffers, entry by entry, which the controller fills.  A packet handed
  to the network stack has the identity of its buffer, its bytes, whether the checksum was verified
  and the VLAN tag.
\<close>

record rx_packet =
  pk_id :: nat
  pk_bytes :: "u8 list"
  pk_csum :: bool
  pk_vlan :: "u16 option"

datatype rx_event =
    RxAlloc nat | RxFree nat | RxMap u64 u32 | RxUnmap u64 u32 | RxDeliver rx_packet

record rx_stats =
  rx_errors :: u64
  rx_length_errors :: u64
  rx_crc_errors :: u64
  rx_dropped :: u64
  rx_bytes :: u64
  rx_packets :: u64
  multicast :: u64

record 'k rx_kernel =
  NET_IP_ALIGN :: u32
  rxk_alloc :: "'k \<Rightarrow> u32 \<Rightarrow> nat option \<times> 'k"
  rxk_map :: "'k \<Rightarrow> nat \<Rightarrow> u32 \<Rightarrow> u64 option \<times> 'k"
  rxk_eth_type_trans :: "u8 list \<Rightarrow> u32 \<times> bool"

record rx_cfg =
  rx_NAPI :: bool
  rx_VLAN :: bool
  InitRxDescType :: rx_desc_ring_type
  rx_buf_sz :: u32
  feature_rxall :: bool
  feature_rxfcs :: bool

record ('d, 'k) rxq =
  rx_priv :: "'d nic"
  rx_kern :: 'k
  rx_log :: "rx_event list"
  stats :: rx_stats
  rring :: rx_ring

definition on_rx_nic :: "('d, 'a) drv \<Rightarrow> (('d, 'k) rxq, 'a) state" where
  "on_rx_nic m = State (\<lambda>s. let (x, p) = run_state m (rx_priv s) in (x, s\<lparr>rx_priv := p\<rparr>))"

definition rx_ev :: "rx_event \<Rightarrow> (('d, 'k) rxq, unit) state" where
  "rx_ev e = modify (\<lambda>s. s\<lparr>rx_log := rx_log s @ [e]\<rparr>)"

definition upd_rring :: "(rx_ring \<Rightarrow> rx_ring) \<Rightarrow> (('d, 'k) rxq, unit) state" where
  "upd_rring f = modify (\<lambda>s. s\<lparr>rring := f (rring s)\<rparr>)"

definition upd_stats :: "(rx_stats \<Rightarrow> rx_stats) \<Rightarrow> (('d, 'k) rxq, unit) state" where
  "upd_stats f = modify (\<lambda>s. s\<lparr>stats := f (stats s)\<rparr>)"

definition alloc_skb :: "'k rx_kernel \<Rightarrow> u32 \<Rightarrow> (('d, 'k) rxq, nat option) state" where
  "alloc_skb K n = State (\<lambda>s. case rxk_alloc K (rx_kern s) n of
       (None, k) \<Rightarrow> (None, s\<lparr>rx_kern := k\<rparr>)
     | (Some i, k) \<Rightarrow> (Some i, s\<lparr>rx_kern := k, rx_log := rx_log s @ [RxAlloc i]\<rparr>))"

definition map_skb :: "'k rx_kernel \<Rightarrow> nat \<Rightarrow> u32 \<Rightarrow> (('d, 'k) rxq, u64 option) state" where
  "map_skb K i n = State (\<lambda>s. case rxk_map K (rx_kern s) i n of
       (None, k) \<Rightarrow> (None, s\<lparr>rx_kern := k\<rparr>)
     | (Some m, k) \<Rightarrow> (Some m, s\<lparr>rx_kern := k, rx_log := rx_log s @ [RxMap m n]\<rparr>))"

definition upd_desc :: "nat \<Rightarrow> (rx_words \<Rightarrow> rx_words) \<Rightarrow> (('d, 'k) rxq, unit) state" where
  "upd_desc i f = upd_rring (\<lambda>r. r\<lparr>RxDescArray := (RxDescArray r)[i := f (RxDescArray r ! i)]\<rparr>)"

section \<open>Buffers\<close>

definition rtl8125_map_to_asic :: "rx_cfg \<Rightarrow> nat \<Rightarrow> u64 \<Rightarrow> u32 \<Rightarrow> (('d, 'k) rxq, unit) state" where
  "rtl8125_map_to_asic cfg i mapping sz = do {
     upd_rring (\<lambda>r. r\<lparr>RxDescPhyAddr := (RxDescPhyAddr r)[i := mapping]\<rparr>);
     upd_desc i (\<lambda>d. rtl8125_set_desc_dma_addr (InitRxDescType cfg) d mapping);
     upd_desc i (\<lambda>d. rtl8125_mark_to_asic (InitRxDescType cfg) d sz)
   }"

definition rtl8125_free_rx_skb :: "rx_cfg \<Rightarrow> nat \<Rightarrow> nat \<Rightarrow> (('d, 'k) rxq, unit) state" where
  "rtl8125_free_rx_skb cfg skb i = do {
     r \<leftarrow> gets rring;
     rx_ev (RxUnmap (RxDescPhyAddr r ! i) (rx_buf_sz cfg));
     rx_ev (RxFree skb);
     upd_rring (\<lambda>r. r\<lparr>Rx_skbuff := (Rx_skbuff r)[i := None]\<rparr>);
     upd_desc i (rtl8125_make_unusable_by_asic (InitRxDescType cfg))
   }"

definition rtl8125_alloc_rx_skb :: "'k rx_kernel \<Rightarrow> rx_cfg \<Rightarrow> nat \<Rightarrow> (('d, 'k) rxq, bool) state" where
  "rtl8125_alloc_rx_skb K cfg i = do {
     b \<leftarrow> alloc_skb K (rx_buf_sz cfg + NET_IP_ALIGN K);
     case b of
       None \<Rightarrow> do {
         upd_desc i (rtl8125_make_unusable_by_asic (InitRxDescType cfg));
         State_Monad.return False
       }
     | Some skb \<Rightarrow> do {
         m \<leftarrow> map_skb K skb (rx_buf_sz cfg);
         case m of
           None \<Rightarrow> do {
             rx_ev (RxFree skb);
             upd_desc i (rtl8125_make_unusable_by_asic (InitRxDescType cfg));
             State_Monad.return False
           }
         | Some mapping \<Rightarrow> do {
             upd_rring (\<lambda>r. r\<lparr>Rx_skbuff := (Rx_skbuff r)[i := Some skb]\<rparr>);
             rtl8125_map_to_asic cfg i mapping (rx_buf_sz cfg);
             State_Monad.return True
           }
       }
   }"

fun rx_clear_loop :: "rx_cfg \<Rightarrow> nat \<Rightarrow> nat \<Rightarrow> (('d, 'k) rxq, unit) state" where
  "rx_clear_loop cfg i n =
     (if n = 0 then State_Monad.return ()
      else do {
        r \<leftarrow> gets rring;
        (case Rx_skbuff r ! i of None \<Rightarrow> State_Monad.return () | Some skb \<Rightarrow> rtl8125_free_rx_skb cfg skb i);
        rx_clear_loop cfg (i + 1) (n - 1)
      })"

declare rx_clear_loop.simps [simp del]

text \<open>\<open>_rtl8125_rx_clear\<close>, for one ring.\<close>

definition rx_clear_ring :: "rx_cfg \<Rightarrow> (('d, 'k) rxq, unit) state" where
  "rx_clear_ring cfg = do {
     r \<leftarrow> gets rring;
     rx_clear_loop cfg 0 (unat (num_rx_desc r))
   }"

text \<open>The loop runs while \<open>end - cur\<close>, an unsigned difference, is positive: \<open>n\<close> is that difference.\<close>

fun rx_fill_loop :: "'k rx_kernel \<Rightarrow> rx_cfg \<Rightarrow> u32 \<Rightarrow> nat \<Rightarrow> (('d, 'k) rxq, u32) state" where
  "rx_fill_loop K cfg cur n =
     (if n = 0 then State_Monad.return cur
      else do {
        r \<leftarrow> gets rring;
        let i = unat (cur mod num_rx_desc r);
        if Rx_skbuff r ! i \<noteq> None then rx_fill_loop K cfg (cur + 1) (n - 1)
        else do {
          ok \<leftarrow> rtl8125_alloc_rx_skb K cfg i;
          if ok then rx_fill_loop K cfg (cur + 1) (n - 1) else State_Monad.return cur
        }
      })"

declare rx_fill_loop.simps [simp del]

definition rtl8125_rx_fill :: "'k rx_kernel \<Rightarrow> rx_cfg \<Rightarrow> u32 \<Rightarrow> u32 \<Rightarrow> (('d, 'k) rxq, u32) state" where
  "rtl8125_rx_fill K cfg start end0 = do {
     cur \<leftarrow> rx_fill_loop K cfg start (unat (end0 - start));
     State_Monad.return (cur - start)
   }"

text \<open>
  What \<open>rtl8125_init_ring\<close> does for one receive ring: the indexes (\<open>rtl8125_init_ring_indexes\<close>), the
  descriptors (\<open>rtl8125_rx_desc_init\<close>), the buffers, the mark on the last descriptor; on failure the ring is
  cleared.  The transmit rings, which the same function sets up in between, are in \<open>Adapter\<close>.
\<close>

definition rx_ring_reset :: "nat \<Rightarrow> rx_ring \<Rightarrow> rx_ring" where
  "rx_ring_reset i r = r\<lparr>dirty_rx := 0, cur_rx := 0, rx_index := i\<rparr>"

definition rx_desc_zero :: "rx_ring \<Rightarrow> rx_ring" where
  "rx_desc_zero r = r\<lparr>RxDescArray := map (\<lambda>d. replicate (length d) 0) (RxDescArray r)\<rparr>"

definition rx_init_buffers :: "'k rx_kernel \<Rightarrow> rx_cfg \<Rightarrow> (('d, 'k) rxq, bool) state" where
  "rx_init_buffers K cfg = do {
     upd_rring (\<lambda>r. r\<lparr>Rx_skbuff := replicate (length (Rx_skbuff r)) None\<rparr>);
     r \<leftarrow> gets rring;
     filled \<leftarrow> rtl8125_rx_fill K cfg 0 (num_rx_desc r);
     if filled \<noteq> num_rx_desc r then State_Monad.return False
     else do {
       upd_desc (unat (num_rx_desc r - 1)) (rtl8125_mark_as_last_descriptor (InitRxDescType cfg));
       State_Monad.return True
     }
   }"

definition rx_init_ring :: "'k rx_kernel \<Rightarrow> rx_cfg \<Rightarrow> (('d, 'k) rxq, bool) state" where
  "rx_init_ring K cfg = do {
     upd_rring (rx_ring_reset 0);
     upd_rring rx_desc_zero;
     ok \<leftarrow> rx_init_buffers K cfg;
     (if ok then State_Monad.return True else do { rx_clear_ring cfg; State_Monad.return False })
   }"

section \<open>Receiving\<close>

text \<open>\<open>rtl8125_check_rx_desc_error\<close>: the error counters, and whether the frame is bad.\<close>

definition count_errors :: "bool \<Rightarrow> bool \<Rightarrow> rx_stats \<Rightarrow> rx_stats" where
  "count_errors len crc st =
     (let st = (if len then st\<lparr>rx_length_errors := rx_length_errors st + 1\<rparr> else st)
      in if crc then st\<lparr>rx_crc_errors := rx_crc_errors st + 1\<rparr> else st)"

definition rtl8125_check_rx_desc_error :: "rx_desc_ring_type \<Rightarrow> u32 \<Rightarrow> (('d, 'k) rxq, bool) state" where
  "rtl8125_check_rx_desc_error t status =
     (case t of
        RX_DESC_RING_TYPE_3 \<Rightarrow>
          if status AND RxRES_V3 \<noteq> 0 then do {
            upd_stats (count_errors (status AND (RxRWT_V3 OR RxRUNT_V3) \<noteq> 0) (status AND RxCRC_V3 \<noteq> 0));
            State_Monad.return True
          } else State_Monad.return False
      | RX_DESC_RING_TYPE_4 \<Rightarrow>
          if status AND RxRES_V4 \<noteq> 0 then do {
            upd_stats (count_errors (status AND RxRUNT_V4 \<noteq> 0) (status AND RxCRC_V4 \<noteq> 0));
            State_Monad.return True
          } else State_Monad.return False
      | _ \<Rightarrow>
          if status AND RxRES \<noteq> 0 then do {
            upd_stats (count_errors (status AND (RxRWT OR RxRUNT) \<noteq> 0) (status AND RxCRC \<noteq> 0));
            State_Monad.return True
          } else State_Monad.return False)"

text \<open>The size of the frame without its checksum; \<open>None\<close> is the jump to \<open>drop_packet\<close>.\<close>

definition rx_pkt_size :: "rx_cfg \<Rightarrow> u32 \<Rightarrow> u32 option" where
  "rx_pkt_size cfg status =
     (let pkt_size = status AND 0x3fff in
      if feature_rxfcs cfg \<or> rtl8125_is_non_eop (InitRxDescType cfg) status then Some pkt_size
      else if pkt_size < ETH_FCS_LEN then None else Some (pkt_size - ETH_FCS_LEN))"

definition release_descriptor :: "rx_cfg \<Rightarrow> nat \<Rightarrow> (('d, 'k) rxq, unit) state" where
  "release_descriptor cfg entry = do {
     r \<leftarrow> gets rring;
     (if InitRxDescType cfg = RX_DESC_RING_TYPE_3 \<or> InitRxDescType cfg = RX_DESC_RING_TYPE_4
      then upd_desc entry (\<lambda>d. rtl8125_set_desc_dma_addr (InitRxDescType cfg) d (RxDescPhyAddr r ! entry))
      else State_Monad.return ());
     upd_desc entry (\<lambda>d. rtl8125_mark_to_asic (InitRxDescType cfg) d (rx_buf_sz cfg))
   }"

definition drop_packet :: "rx_cfg \<Rightarrow> nat \<Rightarrow> (('d, 'k) rxq, unit) state" where
  "drop_packet cfg entry = do {
     upd_stats (\<lambda>st. st\<lparr>rx_dropped := rx_dropped st + 1\<rparr>);
     upd_stats (\<lambda>st. st\<lparr>rx_length_errors := rx_length_errors st + 1\<rparr>);
     release_descriptor cfg entry
   }"

definition rtl8125_rx_vlan_skb :: "rx_cfg \<Rightarrow> nat \<Rightarrow> (('d, 'k) rxq, u16 option) state" where
  "rtl8125_rx_vlan_skb cfg entry =
     (if \<not> rx_VLAN cfg then State_Monad.return None
      else do {
        r \<leftarrow> gets rring;
        let opts2 = rtl8125_rx_desc_opts2 (InitRxDescType cfg) (RxDescArray r ! entry);
        let tag = (let w = ucast (opts2 AND 0xffff) :: u16 in push_bit 8 w OR drop_bit 8 w);
        upd_desc entry (rtl8125_clear_rx_desc_opts2 (InitRxDescType cfg));
        State_Monad.return (if opts2 AND RxVlanTag \<noteq> 0 then Some tag else None)
      })"

text \<open>The totals of one call: bytes, packets, multicast packets.\<close>

type_synonym rx_totals = "u32 \<times> u32 \<times> u32"

definition rx_deliver :: "'k rx_kernel \<Rightarrow> rx_cfg \<Rightarrow> nat \<Rightarrow> nat \<Rightarrow> u32 \<Rightarrow> rx_totals \<Rightarrow> (('d, 'k) rxq, rx_totals) state" where
  "rx_deliver K cfg entry skb pkt_size tot = do {
     r \<leftarrow> gets rring;
     let bytes = take (unat pkt_size) (rx_data r ! entry);
     let csum = rtl8125_rx_csum (InitRxDescType cfg) (RxDescArray r ! entry);
     let (len, multi) = rxk_eth_type_trans K bytes;
     vlan \<leftarrow> rtl8125_rx_vlan_skb cfg entry;
     rx_ev (RxDeliver \<lparr>pk_id = skb, pk_bytes = bytes, pk_csum = csum, pk_vlan = vlan\<rparr>);
     release_descriptor cfg entry;
     State_Monad.return (case tot of (b, p, m) \<Rightarrow> (b + len, p + 1, if multi then m + 1 else m))
   }"

definition rx_accept :: "'k rx_kernel \<Rightarrow> rx_cfg \<Rightarrow> nat \<Rightarrow> u32 \<Rightarrow> rx_totals \<Rightarrow> (('d, 'k) rxq, rx_totals) state" where
  "rx_accept K cfg entry status tot = (case rx_pkt_size cfg status of
       None \<Rightarrow> do { drop_packet cfg entry; State_Monad.return tot }
     | Some pkt_size \<Rightarrow>
         if rx_buf_sz cfg < pkt_size \<or> rtl8125_fragmented_frame (InitRxDescType cfg) status
         then do { drop_packet cfg entry; State_Monad.return tot }
         else do {
           b \<leftarrow> alloc_skb K (pkt_size + NET_IP_ALIGN K);
           case b of
             None \<Rightarrow> do { drop_packet cfg entry; State_Monad.return tot }
           | Some skb \<Rightarrow> rx_deliver K cfg entry skb pkt_size tot
         })"

definition rx_frame :: "'k rx_kernel \<Rightarrow> rx_cfg \<Rightarrow> nat \<Rightarrow> u32 \<Rightarrow> rx_totals \<Rightarrow> (('d, 'k) rxq, rx_totals) state" where
  "rx_frame K cfg entry status tot = do {
     bad \<leftarrow> rtl8125_check_rx_desc_error (InitRxDescType cfg) status;
     if bad then do {
       upd_stats (\<lambda>st. st\<lparr>rx_errors := rx_errors st + 1\<rparr>);
       if \<not> feature_rxall cfg then do { release_descriptor cfg entry; State_Monad.return tot }
       else rx_accept K cfg entry status tot
     } else rx_accept K cfg entry status tot
   }"

text \<open>
  The descriptor is read, and if the controller still owns it, read again after a register read that
  flushes what the controller has posted.
\<close>

definition rx_status :: "rx_cfg \<Rightarrow> 'd mmio \<Rightarrow> nat \<Rightarrow> (('d, 'k) rxq, u32) state" where
  "rx_status cfg io entry = do {
     r \<leftarrow> gets rring;
     let status = rtl8125_rx_desc_opts1 (InitRxDescType cfg) (RxDescArray r ! entry);
     if status AND DescOwn \<noteq> 0 then do {
       p \<leftarrow> gets rx_priv;
       on_rx_nic (RTL_R8 io (unat (imr_reg p 0)));
       r \<leftarrow> gets rring;
       State_Monad.return (rtl8125_rx_desc_opts1 (InitRxDescType cfg) (RxDescArray r ! entry))
     } else State_Monad.return status
   }"

fun rx_loop :: "'k rx_kernel \<Rightarrow> rx_cfg \<Rightarrow> 'd mmio \<Rightarrow> nat \<Rightarrow> u32 \<Rightarrow> rx_totals \<Rightarrow> (('d, 'k) rxq, u32 \<times> rx_totals) state" where
  "rx_loop K cfg io rx_left cur tot =
     (if rx_left = 0 then State_Monad.return (cur, tot)
      else do {
        r \<leftarrow> gets rring;
        let entry = unat (cur mod num_rx_desc r);
        status \<leftarrow> rx_status cfg io entry;
        if status AND DescOwn \<noteq> 0 then State_Monad.return (cur, tot)
        else do {
          tot \<leftarrow> rx_frame K cfg entry status tot;
          rx_loop K cfg io (rx_left - 1) (cur + 1) tot
        }
      })"

declare rx_loop.simps [simp del]

definition rtl8125_rx_quota :: "rx_cfg \<Rightarrow> u32 \<Rightarrow> u32 \<Rightarrow> u32" where
  "rtl8125_rx_quota cfg n quota = (if rx_NAPI cfg then min n quota else n)"

definition rtl8125_rx_interrupt :: "'k rx_kernel \<Rightarrow> rx_cfg \<Rightarrow> 'd mmio \<Rightarrow> u32 \<Rightarrow> (('d, 'k) rxq, u32) state" where
  "rtl8125_rx_interrupt K cfg io budget = do {
     r \<leftarrow> gets rring;
     if RxDescArray r = [] then State_Monad.return 0
     else do {
       let rx_left = rtl8125_rx_quota cfg (num_rx_desc r + dirty_rx r - cur_rx r) budget;
       (cur, bytes, packets, multi) \<leftarrow> rx_loop K cfg io (unat rx_left) (cur_rx r) (0, 0, 0);
       upd_rring (\<lambda>r. r\<lparr>cur_rx := cur\<rparr>);
       r \<leftarrow> gets rring;
       delta \<leftarrow> rtl8125_rx_fill K cfg (dirty_rx r) (cur_rx r);
       upd_rring (\<lambda>r. r\<lparr>dirty_rx := dirty_rx r + delta\<rparr>);
       upd_stats (\<lambda>st. st\<lparr>rx_bytes := rx_bytes st + ucast bytes, rx_packets := rx_packets st + ucast packets,
         multicast := multicast st + ucast multi\<rparr>);
       State_Monad.return packets
     }
   }"

section \<open>The three layouts implement one descriptor\<close>

text \<open>What a descriptor means, wherever the layout puts it.\<close>

record rx_view =
  v_opts1 :: u32
  v_opts2 :: u32
  v_addr :: u64

definition rx_view_of :: "rx_desc_ring_type \<Rightarrow> rx_words \<Rightarrow> rx_view" where
  "rx_view_of t d = \<lparr>v_opts1 = d ! opts1_at t, v_opts2 = d ! opts2_at t, v_addr = load64 d (addr_at t)\<rparr>"

definition RsvdMask_of :: "rx_desc_ring_type \<Rightarrow> u32" where
  "RsvdMask_of t = (if t = RX_DESC_RING_TYPE_3 \<or> t = RX_DESC_RING_TYPE_4 then RsvdMaskV3 else RsvdMask)"

lemma layout_fields:
  "opts1_at t < RX_DESC_LEN t" "opts2_at t < RX_DESC_LEN t" "addr_at t < RX_DESC_LEN t" "Suc (addr_at t) < RX_DESC_LEN t"
  "opts1_at t \<noteq> opts2_at t" "opts1_at t \<noteq> addr_at t" "opts1_at t \<noteq> Suc (addr_at t)" "opts2_at t \<noteq> addr_at t" "opts2_at t \<noteq> Suc (addr_at t)"
  by (simp_all add: opts1_at_def opts2_at_def addr_at_def RX_DESC_LEN_def split: rx_desc_ring_type.splits)

lemma desc_ops_at:
  "rtl8125_rx_desc_opts1 t d = d ! opts1_at t"
  "rtl8125_rx_desc_opts2 t d = d ! opts2_at t"
  "rtl8125_clear_rx_desc_opts2 t d = d[opts2_at t := 0]"
  "rtl8125_set_desc_dma_addr t d m = store64 d (addr_at t) m"
  "rtl8125_mark_to_asic t d sz = d[opts1_at t := DescOwn OR (d ! opts1_at t AND RingEnd) OR sz]"
  "rtl8125_mark_as_last_descriptor t d = d[opts1_at t := d ! opts1_at t OR RingEnd]"
  "rtl8125_make_unusable_by_asic t d =
     (let d = store64 d (addr_at t) RTL8125_MAGIC_NUMBER in d[opts1_at t := d ! opts1_at t AND NOT (DescOwn OR RsvdMask_of t)])"
  by (simp_all add: rtl8125_rx_desc_opts1_def rtl8125_rx_desc_opts2_def rtl8125_clear_rx_desc_opts2_def rtl8125_set_desc_dma_addr_def
      rtl8125_mark_to_asic_def rtl8125_mark_to_asic_v1_def rtl8125_mark_to_asic_v3_def rtl8125_mark_to_asic_v4_def
      rtl8125_mark_as_last_descriptor_def rtl8125_mark_as_last_descriptor_v1_def rtl8125_mark_as_last_descriptor_v3_def
      rtl8125_mark_as_last_descriptor_v4_def rtl8125_make_unusable_by_asic_def RsvdMask_of_def
      opts1_at_def opts2_at_def addr_at_def Let_def split: rx_desc_ring_type.splits)

lemma length_store64 [simp]: "length (store64 d i v) = length d"
  by (simp add: store64_def)

lemma nth_store64: "j \<noteq> i \<Longrightarrow> j \<noteq> Suc i \<Longrightarrow> store64 d i v ! j = d ! j"
  by (simp add: store64_def)

lemma load_store64: "Suc i < length d \<Longrightarrow> load64 (store64 d i v) i = v"
  unfolding load64_def store64_def
  by (rule bit_word_eqI) (auto simp: bit_or_iff bit_push_bit_iff bit_ucast_iff bit_drop_bit_eq not_le)

lemma load64_upd: "j \<noteq> i \<Longrightarrow> j \<noteq> Suc i \<Longrightarrow> load64 (d[j := w]) i = load64 d i"
  by (simp add: load64_def)

lemmas view_simps = rx_view_of_def desc_ops_at nth_store64 load_store64 load64_upd layout_fields layout_fields(5-9) [symmetric]

lemma desc_lengths [simp]:
  "length (rtl8125_clear_rx_desc_opts2 t d) = length d" "length (rtl8125_set_desc_dma_addr t d m) = length d"
  "length (rtl8125_mark_to_asic t d sz) = length d" "length (rtl8125_mark_as_last_descriptor t d) = length d"
  "length (rtl8125_make_unusable_by_asic t d) = length d"
  by (simp_all add: desc_ops_at Let_def)

lemma view_ops:
  assumes "length d = RX_DESC_LEN t"
  shows "rx_view_of t (rtl8125_set_desc_dma_addr t d m) = (rx_view_of t d)\<lparr>v_addr := m\<rparr>"
    and "rx_view_of t (rtl8125_clear_rx_desc_opts2 t d) = (rx_view_of t d)\<lparr>v_opts2 := 0\<rparr>"
    and "rx_view_of t (rtl8125_mark_to_asic t d sz) = (rx_view_of t d)\<lparr>v_opts1 := DescOwn OR (v_opts1 (rx_view_of t d) AND RingEnd) OR sz\<rparr>"
    and "rx_view_of t (rtl8125_mark_as_last_descriptor t d) = (rx_view_of t d)\<lparr>v_opts1 := v_opts1 (rx_view_of t d) OR RingEnd\<rparr>"
    and "rx_view_of t (rtl8125_make_unusable_by_asic t d)
      = (rx_view_of t d)\<lparr>v_addr := RTL8125_MAGIC_NUMBER, v_opts1 := v_opts1 (rx_view_of t d) AND NOT (DescOwn OR RsvdMask_of t)\<rparr>"
    and "rtl8125_rx_desc_opts1 t d = v_opts1 (rx_view_of t d)"
    and "rtl8125_rx_desc_opts2 t d = v_opts2 (rx_view_of t d)"
  using assms by (simp_all add: view_simps Let_def)

end
