(* ===== verification/RxServe.thy ===== *)
theory RxServe
  imports RxRing
begin

text \<open>
  What the receive ring does.  The ring is an instance of \<open>ring_store\<close>, its slot being the descriptor,
  the bus address, the buffer and the memory of an entry.  \<open>rx_serve\<close> says what serving a list of
  completed slots amounts to, and \<open>run_rx_loop\<close> that the driver's loop does it on the window of the ring
  that begins at \<open>cur_rx\<close>.  From it follow the properties of a receive interrupt, of setting the ring up,
  and of any sequence of operations (\<open>rx_reach\<close>, an inductive relation with the controller's
  completions as steps of their own).
\<close>

section \<open>The ring as slots\<close>

type_synonym rx_cell = "rx_words \<times> u64 \<times> nat option \<times> u8 list"

abbreviation rx_n :: "rx_ring \<Rightarrow> nat" where "rx_n r \<equiv> unat (num_rx_desc r)"

definition rx_slot :: "rx_ring \<Rightarrow> nat \<Rightarrow> rx_cell" where
  "rx_slot r i = (RxDescArray r ! i, RxDescPhyAddr r ! i, Rx_skbuff r ! i, rx_data r ! i)"

definition set_rx_slot :: "rx_ring \<Rightarrow> nat \<Rightarrow> rx_cell \<Rightarrow> rx_ring" where
  "set_rx_slot r i c = (case c of (d, a, b, x) \<Rightarrow> r\<lparr>RxDescArray := (RxDescArray r)[i := d],
     RxDescPhyAddr := (RxDescPhyAddr r)[i := a], Rx_skbuff := (Rx_skbuff r)[i := b], rx_data := (rx_data r)[i := x]\<rparr>)"

definition rx_wf :: "rx_ring \<Rightarrow> bool" where
  "rx_wf r \<longleftrightarrow> 0 < rx_n r \<and> rx_n r dvd 2 ^ 32 \<and> rx_n r \<le> length (RxDescArray r) \<and> rx_n r \<le> length (RxDescPhyAddr r)
     \<and> rx_n r \<le> length (Rx_skbuff r) \<and> rx_n r \<le> length (rx_data r)"

lemma set_rx_slot_simps [simp]:
  "num_rx_desc (set_rx_slot r i c) = num_rx_desc r" "cur_rx (set_rx_slot r i c) = cur_rx r"
  "dirty_rx (set_rx_slot r i c) = dirty_rx r" "rx_index (set_rx_slot r i c) = rx_index r"
  by (simp_all add: set_rx_slot_def split: prod.split)

interpretation rxr: ring_store rx_slot set_rx_slot "\<lambda>r. rx_n r" rx_wf
  by unfold_locales (auto simp: rx_wf_def rx_slot_def set_rx_slot_def nth_list_update split: prod.splits)

abbreviation rx_window :: "rx_ring \<Rightarrow> u32 \<Rightarrow> nat \<Rightarrow> rx_cell list" where
  "rx_window r \<equiv> window (rx_slot r) (rx_n r)"

lemma set_rx_slot_twice [simp]: "set_rx_slot (set_rx_slot r i c) i c' = set_rx_slot r i c'"
  by (simp add: set_rx_slot_def split: prod.split)

lemma set_rx_slot_fields:
  "RxDescArray (set_rx_slot r i (d, a, b, x)) = (RxDescArray r)[i := d]"
  "RxDescPhyAddr (set_rx_slot r i (d, a, b, x)) = (RxDescPhyAddr r)[i := a]"
  "Rx_skbuff (set_rx_slot r i (d, a, b, x)) = (Rx_skbuff r)[i := b]"
  "rx_data (set_rx_slot r i (d, a, b, x)) = (rx_data r)[i := x]"
  by (simp_all add: set_rx_slot_def)

text \<open>An update of a descriptor, or of the buffer and mapping of an entry, is an update of its slot.\<close>

lemma upd_desc_slot:
  assumes "rx_slot r i = (d, a, b, x)"
  shows "r\<lparr>RxDescArray := (RxDescArray r)[i := d']\<rparr> = set_rx_slot r i (d', a, b, x)"
  using assms by (auto simp: rx_slot_def set_rx_slot_def)

lemma run_rx [simp]:
  "run_state (rx_ev e) s = ((), s\<lparr>rx_log := rx_log s @ [e]\<rparr>)"
  "run_state (upd_rring f) s = ((), s\<lparr>rring := f (rring s)\<rparr>)"
  "run_state (upd_stats g) s = ((), s\<lparr>stats := g (stats s)\<rparr>)"
  by (simp_all add: rx_ev_def upd_rring_def upd_stats_def)

lemma run_upd_desc:
  assumes "rx_slot (rring s) i = (d, a, b, x)"
  shows "run_state (upd_desc i f) s = ((), s\<lparr>rring := set_rx_slot (rring s) i (f d, a, b, x)\<rparr>)"
proof -
  have d: "RxDescArray (rring s) ! i = d" using assms by (simp add: rx_slot_def)
  show ?thesis unfolding upd_desc_def by (simp add: d upd_desc_slot [OF assms])
qed

lemma rx_slot_set: "rx_wf r \<Longrightarrow> i < rx_n r \<Longrightarrow> rx_slot (set_rx_slot r i c) i = c"
  by (simp add: rxr.slot_set)

section \<open>What becomes of a completed descriptor\<close>

text \<open>
  A completed descriptor is bad, or its frame is dropped, or there is a frame to hand up, for which a
  buffer has to be allocated: a whole frame in one descriptor, longer than its checksum, which is cut
  off unless the interface wants it, and not longer than the buffer.
\<close>

datatype rx_verdict = Bad | Drop | Frame u32

definition rx_bad :: "rx_desc_ring_type \<Rightarrow> u32 \<Rightarrow> bool" where
  "rx_bad t status \<longleftrightarrow> status AND (case t of RX_DESC_RING_TYPE_3 \<Rightarrow> RxRES_V3 | RX_DESC_RING_TYPE_4 \<Rightarrow> RxRES_V4 | _ \<Rightarrow> RxRES) \<noteq> 0"

definition rx_whole :: "rx_desc_ring_type \<Rightarrow> u32 \<Rightarrow> bool" where
  "rx_whole t status \<longleftrightarrow> (let m = (if t = RX_DESC_RING_TYPE_3 then 0x03000000 else 0x30000000) in status AND m = m)"

definition rx_verdict :: "rx_cfg \<Rightarrow> u32 \<Rightarrow> rx_verdict" where
  "rx_verdict cfg status =
     (let fcs = (if feature_rxfcs cfg then 0 else 4); n = status AND 0x3fff in
      if rx_bad (InitRxDescType cfg) status \<and> \<not> feature_rxall cfg then Bad
      else if rx_whole (InitRxDescType cfg) status \<and> fcs \<le> n \<and> n - fcs \<le> rx_buf_sz cfg then Frame (n - fcs) else Drop)"

lemma rx_whole_fragmented: "rx_whole t status \<longleftrightarrow> \<not> rtl8125_fragmented_frame t status"
  by (cases t) (simp_all add: rx_whole_def rtl8125_fragmented_frame_def FirstFrag_V3_def LastFrag_V3_def FirstFrag_def LastFrag_def)

lemma rx_whole_eop:
  assumes "rx_whole t status"
  shows "\<not> rtl8125_is_non_eop t status"
proof -
  let ?m = "if t = RX_DESC_RING_TYPE_3 then 0x03000000 else 0x30000000 :: u32"
  let ?l = "if t = RX_DESC_RING_TYPE_3 then LastFrag_V3 else LastFrag"
  have l: "?m AND ?l = ?l" "?l \<noteq> 0" by (simp_all add: LastFrag_V3_def LastFrag_def)
  have m: "status AND ?m = ?m" using assms by (simp add: rx_whole_def Let_def)
  have "status AND ?l = (status AND ?m) AND ?l" by (simp only: and.assoc l(1))
  then have "status AND ?l = ?l" by (simp only: m l(1))
  then show ?thesis using l(2) by (cases t) (simp_all add: rtl8125_is_non_eop_def)
qed

text \<open>The driver decides it so.\<close>

lemma rx_verdict_code: "rx_verdict cfg status =
     (if rx_bad (InitRxDescType cfg) status \<and> \<not> feature_rxall cfg then Bad
      else case rx_pkt_size cfg status of None \<Rightarrow> Drop
        | Some n \<Rightarrow> if rx_buf_sz cfg < n \<or> rtl8125_fragmented_frame (InitRxDescType cfg) status then Drop else Frame n)"
  using rx_whole_eop [of "InitRxDescType cfg" status] rx_whole_fragmented [of "InitRxDescType cfg" status]
  by (auto simp: rx_verdict_def rx_pkt_size_def Let_def not_less split: if_splits)

text \<open>The counters of errors, given the status and whether the frame was dropped.\<close>

definition error_counts :: "rx_desc_ring_type \<Rightarrow> u32 \<Rightarrow> rx_stats \<Rightarrow> rx_stats" where
  "error_counts t status st =
     (if \<not> rx_bad t status then st
      else let st = (case t of
          RX_DESC_RING_TYPE_3 \<Rightarrow> count_errors (status AND (RxRWT_V3 OR RxRUNT_V3) \<noteq> 0) (status AND RxCRC_V3 \<noteq> 0) st
        | RX_DESC_RING_TYPE_4 \<Rightarrow> count_errors (status AND RxRUNT_V4 \<noteq> 0) (status AND RxCRC_V4 \<noteq> 0) st
        | _ \<Rightarrow> count_errors (status AND (RxRWT OR RxRUNT) \<noteq> 0) (status AND RxCRC \<noteq> 0) st)
        in st\<lparr>rx_errors := rx_errors st + 1\<rparr>)"

definition drop_counts :: "rx_stats \<Rightarrow> rx_stats" where
  "drop_counts st = st\<lparr>rx_dropped := rx_dropped st + 1, rx_length_errors := rx_length_errors st + 1\<rparr>"

text \<open>The descriptor given back to the controller, and the packet for the stack.\<close>

definition give_back :: "rx_cfg \<Rightarrow> u64 \<Rightarrow> rx_words \<Rightarrow> rx_words" where
  "give_back cfg a d = (let t = InitRxDescType cfg in
     rtl8125_mark_to_asic t (if t = RX_DESC_RING_TYPE_3 \<or> t = RX_DESC_RING_TYPE_4 then rtl8125_set_desc_dma_addr t d a else d) (rx_buf_sz cfg))"

definition vlan_of :: "rx_cfg \<Rightarrow> rx_words \<Rightarrow> u16 option" where
  "vlan_of cfg d = (let opts2 = rtl8125_rx_desc_opts2 (InitRxDescType cfg) d; w = ucast (opts2 AND 0xffff) in
     if rx_VLAN cfg \<and> opts2 AND RxVlanTag \<noteq> 0 then Some (push_bit 8 w OR drop_bit 8 w) else None)"

definition packet_of :: "rx_cfg \<Rightarrow> nat \<Rightarrow> u32 \<Rightarrow> rx_cell \<Rightarrow> rx_packet" where
  "packet_of cfg i n c = (case c of (d, a, b, x) \<Rightarrow>
     \<lparr>pk_id = i, pk_bytes = take (unat n) x, pk_csum = rtl8125_rx_csum (InitRxDescType cfg) d, pk_vlan = vlan_of cfg d\<rparr>)"

definition count_packet :: "'k rx_kernel \<Rightarrow> rx_packet \<Rightarrow> rx_totals \<Rightarrow> rx_totals" where
  "count_packet K p tot = (case (rxk_eth_type_trans K (pk_bytes p), tot) of ((len, multi), (b, n, m)) \<Rightarrow>
     (b + len, n + 1, if multi then m + 1 else m))"

text \<open>
  Serving one completed slot: the events, the slot afterwards, and the kernel, totals and counters
  afterwards.
\<close>

type_synonym 'k rx_books = "'k \<times> rx_totals \<times> rx_stats"

definition rx_serve1 :: "'k rx_kernel \<Rightarrow> rx_cfg \<Rightarrow> rx_cell \<Rightarrow> 'k rx_books \<Rightarrow> rx_event list \<times> rx_cell \<times> 'k rx_books" where
  "rx_serve1 K cfg c bk = (case (c, bk) of ((d, a, b, x), (k, tot, st)) \<Rightarrow>
     let status = rtl8125_rx_desc_opts1 (InitRxDescType cfg) d;
         st = error_counts (InitRxDescType cfg) status st
     in case rx_verdict cfg status of
          Bad \<Rightarrow> ([], (give_back cfg a d, a, b, x), (k, tot, st))
        | Drop \<Rightarrow> ([], (give_back cfg a d, a, b, x), (k, tot, drop_counts st))
        | Frame n \<Rightarrow> (case rxk_alloc K k (n + NET_IP_ALIGN K) of
              (None, k) \<Rightarrow> ([], (give_back cfg a d, a, b, x), (k, tot, drop_counts st))
            | (Some i, k) \<Rightarrow>
                let p = packet_of cfg i n c;
                    d = (if rx_VLAN cfg then rtl8125_clear_rx_desc_opts2 (InitRxDescType cfg) d else d)
                in ([RxAlloc i, RxDeliver p], (give_back cfg a d, a, b, x), (k, count_packet K p tot, st))))"

section \<open>What the loops do, slot by slot\<close>

lemma run_release:
  assumes "rx_wf (rring s)" "e < rx_n (rring s)" "rx_slot (rring s) e = (d, a, b, x)"
  shows "run_state (release_descriptor cfg e) s = ((), s\<lparr>rring := set_rx_slot (rring s) e (give_back cfg a d, a, b, x)\<rparr>)"
proof -
  have a: "RxDescPhyAddr (rring s) ! e = a" using assms(3) by (simp add: rx_slot_def)
  have "rx_slot (rring (s\<lparr>rring := set_rx_slot (rring s) e (d', a, b, x)\<rparr>)) e = (d', a, b, x)" for d'
    using assms(1,2) by (simp add: rx_slot_set)
  note u = run_upd_desc [OF this] run_upd_desc [OF assms(3)]
  show ?thesis unfolding release_descriptor_def by (simp add: u a give_back_def Let_def)
qed

lemma run_drop:
  assumes "rx_wf (rring s)" "e < rx_n (rring s)" "rx_slot (rring s) e = (d, a, b, x)"
  shows "run_state (drop_packet cfg e) s
    = ((), s\<lparr>stats := drop_counts (stats s), rring := set_rx_slot (rring s) e (give_back cfg a d, a, b, x)\<rparr>)"
  using run_release [where s = "s\<lparr>stats := drop_counts (stats s)\<rparr>" and e = e and cfg = cfg] assms
  unfolding drop_packet_def by (simp add: drop_counts_def)

lemma run_vlan:
  assumes "rx_slot (rring s) e = (d, a, b, x)"
  shows "run_state (rtl8125_rx_vlan_skb cfg e) s = (vlan_of cfg d, if rx_VLAN cfg
    then s\<lparr>rring := set_rx_slot (rring s) e (rtl8125_clear_rx_desc_opts2 (InitRxDescType cfg) d, a, b, x)\<rparr> else s)"
proof -
  have d: "RxDescArray (rring s) ! e = d" using assms by (simp add: rx_slot_def)
  show ?thesis unfolding rtl8125_rx_vlan_skb_def by (simp add: run_upd_desc [OF assms] d vlan_of_def Let_def)
qed

lemma run_deliver:
  assumes "rx_wf (rring s)" "e < rx_n (rring s)" "rx_slot (rring s) e = (d, a, b, x)"
    and "p = packet_of cfg i n (d, a, b, x)"
    and "d' = (if rx_VLAN cfg then rtl8125_clear_rx_desc_opts2 (InitRxDescType cfg) d else d)"
  shows "run_state (rx_deliver K cfg e i n tot) s = (count_packet K p tot,
    s\<lparr>rx_log := rx_log s @ [RxDeliver p], rring := set_rx_slot (rring s) e (give_back cfg a d', a, b, x)\<rparr>)"
proof -
  have f: "RxDescArray (rring s) ! e = d" "rx_data (rring s) ! e = x" using assms(3) by (simp_all add: rx_slot_def)
  let ?s = "(if rx_VLAN cfg then s\<lparr>rring := set_rx_slot (rring s) e (d', a, b, x)\<rparr> else s)\<lparr>rx_log := rx_log s @ [RxDeliver p]\<rparr>"
  have "rx_slot (rring ?s) e = (d', a, b, x)" "rx_wf (rring ?s)" "e < rx_n (rring ?s)"
    using assms by (simp_all add: rx_slot_set rxr.wf_set)
  note rel = run_release [OF this(2,3,1), of cfg]
  have "run_state (release_descriptor cfg e) ?s = ((), s\<lparr>rx_log := rx_log s @ [RxDeliver p], rring := set_rx_slot (rring s) e (give_back cfg a d', a, b, x)\<rparr>)"
    unfolding rel by simp
  then show ?thesis
    unfolding rx_deliver_def
    using assms(4,5) by (simp add: f run_vlan [OF assms(3)] packet_of_def count_packet_def split_beta Let_def split: if_splits)
qed

lemma run_alloc:
  "run_state (alloc_skb K n) s = (case rxk_alloc K (rx_kern s) n of
       (None, k) \<Rightarrow> (None, s\<lparr>rx_kern := k\<rparr>) | (Some i, k) \<Rightarrow> (Some i, s\<lparr>rx_kern := k, rx_log := rx_log s @ [RxAlloc i]\<rparr>))"
  by (simp add: alloc_skb_def)

lemma run_check_error:
  "run_state (rtl8125_check_rx_desc_error t status) s = (rx_bad t status,
     if rx_bad t status then s\<lparr>stats := (error_counts t status (stats s))\<lparr>rx_errors := rx_errors (stats s)\<rparr>\<rparr> else s)"
proof -
  have e: "rx_errors (count_errors l c st) = rx_errors st" for l c st by (simp add: count_errors_def Let_def)
  have u: "st\<lparr>rx_errors := y, rx_errors := z\<rparr> = st\<lparr>rx_errors := z\<rparr>" "st\<lparr>rx_errors := rx_errors st\<rparr> = st" for st :: rx_stats and y z by simp_all
  have c: "(count_errors l c st)\<lparr>rx_errors := rx_errors st\<rparr> = count_errors l c st" for l c st using u(2) [of "count_errors l c st"] by (simp add: e)
  show ?thesis
    by (cases t) (simp_all add: rtl8125_check_rx_desc_error_def rx_bad_def error_counts_def Let_def u c)
qed

lemma error_counts_errors:
  "rx_bad t status \<Longrightarrow> rx_errors (error_counts t status st) = rx_errors st + 1"
  by (simp add: error_counts_def count_errors_def Let_def split: rx_desc_ring_type.split)

text \<open>The verdict's part of the body: after the error counters have been updated.\<close>

lemma run_accept:
  assumes "rx_wf (rring s)" "e < rx_n (rring s)" "rx_slot (rring s) e = (d, a, b, x)"
    and "status = rtl8125_rx_desc_opts1 (InitRxDescType cfg) d" "rx_verdict cfg status \<noteq> Bad"
    and "stats s = error_counts (InitRxDescType cfg) status st"
    and "rx_serve1 K cfg (d, a, b, x) (rx_kern s, tot, st) = (ev, c', (k', tot', st'))"
  shows "run_state (rx_accept K cfg e status tot) s
    = (tot', s\<lparr>rx_kern := k', rx_log := rx_log s @ ev, stats := st', rring := set_rx_slot (rring s) e c'\<rparr>)"
proof (cases "rx_verdict cfg status")
  case Bad
  then show ?thesis using assms(5) by simp
next
  case Drop
  then have "run_state (rx_accept K cfg e status tot) s = run_state (do { drop_packet cfg e; State_Monad.return tot }) s"
    by (auto simp: rx_verdict_code rx_accept_def split: if_splits option.splits)
  then show ?thesis
    using assms(6,7) Drop by (simp add: run_drop [OF assms(1-3)] rx_serve1_def Let_def assms(4) [symmetric])
next
  case (Frame n)
  then have 1: "run_state (rx_accept K cfg e status tot) s = run_state (do {
      b \<leftarrow> alloc_skb K (n + NET_IP_ALIGN K);
      case b of None \<Rightarrow> do { drop_packet cfg e; State_Monad.return tot } | Some skb \<Rightarrow> rx_deliver K cfg e skb n tot }) s"
    by (auto simp: rx_verdict_code rx_accept_def split: if_splits option.splits)
  have ring: "rring (s\<lparr>rx_kern := k, rx_log := l\<rparr>) = rring s" "rring (s\<lparr>rx_kern := k\<rparr>) = rring s" for k l by simp_all
  obtain m k where al: "rxk_alloc K (rx_kern s) (n + NET_IP_ALIGN K) = (m, k)" by fastforce
  show ?thesis
  proof (cases m)
    case None
    have "run_state (drop_packet cfg e) (s\<lparr>rx_kern := k\<rparr>) = ((), s\<lparr>rx_kern := k, stats := drop_counts (stats s), rring := set_rx_slot (rring s) e (give_back cfg a d, a, b, x)\<rparr>)"
      using run_drop [where s = "s\<lparr>rx_kern := k\<rparr>" and e = e and cfg = cfg] assms(1-3) by simp
    then show ?thesis
      unfolding 1 using assms(6,7) Frame None by (auto simp: run_alloc al rx_serve1_def Let_def assms(4) [symmetric])
  next
    case (Some i)
    have "run_state (rx_deliver K cfg e i n tot) (s\<lparr>rx_kern := k, rx_log := rx_log s @ [RxAlloc i]\<rparr>) = (tot',
      s\<lparr>rx_kern := k', rx_log := rx_log s @ ev, stats := st', rring := set_rx_slot (rring s) e c'\<rparr>)"
      using assms(1-3,6,7) Frame Some al
      by (subst run_deliver [OF _ _ _ refl refl]) (auto simp: rx_serve1_def Let_def assms(4) [symmetric])
    then show ?thesis by (simp add: 1 run_alloc al Some)
  qed
qed

lemma run_frame:
  fixes s :: "('d, 'k) rxq"
  assumes "rx_wf (rring s)" "e < rx_n (rring s)" "rx_slot (rring s) e = c"
    and "status = rtl8125_rx_desc_opts1 (InitRxDescType cfg) (fst c)"
    and "rx_serve1 K cfg c (rx_kern s, tot, stats s) = (ev, c', (k', tot', st'))"
  shows "run_state (rx_frame K cfg e status tot) s
    = (tot', s\<lparr>rx_kern := k', rx_log := rx_log s @ ev, stats := st', rring := set_rx_slot (rring s) e c'\<rparr>)"
proof -
  let ?t = "InitRxDescType cfg"
  obtain d a b x where c: "c = (d, a, b, x)" by (cases c) auto
  let ?s = "s\<lparr>stats := error_counts ?t status (stats s)\<rparr>"
  have s: "rx_wf (rring ?s)" "e < rx_n (rring ?s)" "rx_slot (rring ?s) e = (d, a, b, x)" using assms c by simp_all
  have st: "status = rtl8125_rx_desc_opts1 ?t d" using assms(4) c by simp
  have counted: "run_state (do { bad \<leftarrow> rtl8125_check_rx_desc_error ?t status;
      if bad then do { upd_stats (\<lambda>st. st\<lparr>rx_errors := rx_errors st + 1\<rparr>); m } else m' }) s
    = (if rx_bad ?t status then run_state m ?s else run_state m' ?s)" for m m' :: "(('d, 'k) rxq, 'r) state"
  proof (cases "rx_bad ?t status")
    case True
    have "(error_counts ?t status (stats s))\<lparr>rx_errors := rx_errors (stats s) + 1\<rparr> = error_counts ?t status (stats s)"
      using error_counts_errors [OF True, of "stats s"] by (metis rx_stats.surjective rx_stats.update_convs(1))
    then show ?thesis using True by (simp add: run_check_error)
  next
    case False
    then show ?thesis by (simp add: run_check_error error_counts_def)
  qed
  show ?thesis
  proof (cases "rx_verdict cfg status")
    case Bad
    then have "rx_bad ?t status" "\<not> feature_rxall cfg" by (auto simp: rx_verdict_code split: if_splits option.splits)
    then show ?thesis
      unfolding rx_frame_def counted using run_release [OF s, of cfg] assms(5) Bad
      by (auto simp: rx_serve1_def c Let_def st [symmetric])
  next
    case Drop
    then have "rx_bad ?t status \<longrightarrow> feature_rxall cfg" by (auto simp: rx_verdict_code split: if_splits)
    then show ?thesis
      unfolding rx_frame_def counted using run_accept [OF s st, of "stats s" K tot] assms(5) Drop c by simp
  next
    case (Frame n)
    then have "rx_bad ?t status \<longrightarrow> feature_rxall cfg" by (auto simp: rx_verdict_code split: if_splits)
    then show ?thesis
      unfolding rx_frame_def counted using run_accept [OF s st, of "stats s" K tot] assms(5) Frame c by simp
  qed
qed

definition rx_owned :: "rx_cfg \<Rightarrow> rx_cell \<Rightarrow> bool" where
  "rx_owned cfg c \<longleftrightarrow> rtl8125_rx_desc_opts1 (InitRxDescType cfg) (fst c) AND DescOwn \<noteq> 0"

text \<open>Serving a list of completed slots, one after the other.\<close>

fun rx_serve :: "'k rx_kernel \<Rightarrow> rx_cfg \<Rightarrow> rx_cell list \<Rightarrow> 'k rx_books \<Rightarrow> rx_event list \<times> rx_cell list \<times> 'k rx_books" where
  "rx_serve K cfg [] bk = ([], [], bk)"
| "rx_serve K cfg (c # cs) bk = (case rx_serve1 K cfg c bk of (ev, c', bk') \<Rightarrow>
     case rx_serve K cfg cs bk' of (evs, cs', bk'') \<Rightarrow> (ev @ evs, c' # cs', bk''))"

lemma length_serve: "rx_serve K cfg cs bk = (evs, cs', bk') \<Longrightarrow> length cs' = length cs"
  by (induction cs arbitrary: bk evs cs' bk') (auto split: prod.splits)

text \<open>The ring with a run of slots replaced.\<close>

abbreviation rx_put :: "rx_ring \<Rightarrow> u32 \<Rightarrow> rx_cell list \<Rightarrow> rx_ring" where
  "rx_put r x cs \<equiv> update_run rx_slot set_rx_slot (rx_n r) r x (map (\<lambda>c _. c) cs)"

lemma rx_run_simps [simp]:
  "num_rx_desc (update_run rx_slot set_rx_slot n r x fs) = num_rx_desc r"
  "cur_rx (update_run rx_slot set_rx_slot n r x fs) = cur_rx r"
  "dirty_rx (update_run rx_slot set_rx_slot n r x fs) = dirty_rx r"
  "rx_index (update_run rx_slot set_rx_slot n r x fs) = rx_index r"
  by (induction fs arbitrary: r x) auto

lemma rx_window_after_first:
  assumes "rx_wf r" "Suc m \<le> rx_n r"
  shows "rx_window (set_rx_slot r (unat x mod rx_n r) c) (x + 1) m = rx_window r (x + 1) m"
  using rxr.pass_window_off [of r 1 m "[\<lambda>_. c]" x] assms by simp

definition after_read :: "'d mmio \<Rightarrow> 'd nic \<Rightarrow> 'd nic" where
  "after_read io p = snd (run_state (RTL_R8 io (unat (imr_reg p 0))) p)"

lemma run_rx_status:
  assumes "rx_slot (rring s) e = c"
  shows "run_state (rx_status cfg io e) s = (rtl8125_rx_desc_opts1 (InitRxDescType cfg) (fst c),
    if rx_owned cfg c then s\<lparr>rx_priv := after_read io (rx_priv s)\<rparr> else s)"
proof -
  have d: "RxDescArray (rring s) ! e = fst c" using assms by (auto simp: rx_slot_def)
  show ?thesis
    by (simp add: rx_status_def d rx_owned_def on_rx_nic_def after_read_def split_beta Let_def)
qed

lemma run_rx_loop:
  assumes "rx_wf (rring s)" "m \<le> rx_n (rring s)" "cs = takeWhile (\<lambda>c. \<not> rx_owned cfg c) (rx_window (rring s) x m)"
    and "rx_serve K cfg cs (rx_kern s, tot, stats s) = (evs, cs', (k', tot', st'))"
  shows "run_state (rx_loop K cfg io m x tot) s = ((x + of_nat (length cs), tot'),
    s\<lparr>rx_priv := if length cs < m then after_read io (rx_priv s) else rx_priv s,
      rx_kern := k', rx_log := rx_log s @ evs, stats := st', rring := rx_put (rring s) x cs'\<rparr>)"
  using assms
proof (induction m arbitrary: s x tot cs evs cs')
  case 0
  then show ?case by (subst rx_loop.simps) simp
next
  case (Suc m)
  let ?r = "rring s" let ?e = "unat x mod rx_n ?r" let ?c = "rx_slot ?r ?e"
  have e: "unat (x mod num_rx_desc ?r) = ?e" "?e < rx_n ?r" using rxr.wf_size [OF Suc.prems(1)] by (simp_all add: unat_mod)
  note st = run_rx_status [of s ?e ?c cfg io, OF refl]
  show ?case
  proof (cases "rx_owned cfg ?c")
    case True
    then have "cs = []" using Suc.prems(3) by (simp add: window_Suc)
    then show ?thesis
      using Suc.prems(4) True by (subst rx_loop.simps) (auto simp: e st Let_def rx_owned_def)
  next
    case False
    obtain ev c' k1 tot1 st1 where s1: "rx_serve1 K cfg ?c (rx_kern s, tot, stats s) = (ev, c', (k1, tot1, st1))"
      by (metis prod_cases5)
    let ?cs = "takeWhile (\<lambda>c. \<not> rx_owned cfg c) (rx_window ?r (x + 1) m)"
    have cs: "cs = ?c # ?cs" using Suc.prems(3) False by (simp add: window_Suc)
    obtain evs1 cs1 where s2: "rx_serve K cfg ?cs (k1, tot1, st1) = (evs1, cs1, (k', tot', st'))" "evs = ev @ evs1" "cs' = c' # cs1"
      using Suc.prems(4) unfolding cs by (auto simp: s1 split: prod.splits)
    let ?s = "s\<lparr>rx_kern := k1, rx_log := rx_log s @ ev, stats := st1, rring := set_rx_slot ?r ?e c'\<rparr>"
    note fr = run_frame [OF Suc.prems(1) e(2) refl refl s1]
    have "rx_wf (rring ?s)" "m \<le> rx_n (rring ?s)" using Suc.prems(1,2) by (simp_all add: rxr.wf_set)
    moreover have "?cs = takeWhile (\<lambda>c. \<not> rx_owned cfg c) (rx_window (rring ?s) (x + 1) m)"
      using rx_window_after_first [OF Suc.prems(1,2), of x c'] by simp
    ultimately have "run_state (rx_loop K cfg io m (x + 1) tot1) ?s = ((x + 1 + of_nat (length ?cs), tot'),
        ?s\<lparr>rx_priv := if length ?cs < m then after_read io (rx_priv s) else rx_priv s,
        rx_kern := k', rx_log := rx_log s @ ev @ evs1, stats := st', rring := rx_put (rring ?s) (x + 1) cs1\<rparr>)"
      using Suc.IH [of ?s ?cs "x + 1" tot1 evs1 cs1] s2(1) by simp
    moreover have "rtl8125_rx_desc_opts1 (InitRxDescType cfg) (fst ?c) AND DescOwn = 0" using False by (simp add: rx_owned_def)
    ultimately show ?thesis
      using False fr unfolding cs s2(2,3) by (subst rx_loop.simps) (simp add: e st Let_def add.assoc)
  qed
qed

text \<open>Where every entry has its buffer, filling passes over the entries and changes nothing.\<close>

lemma fill_no_change:
  assumes "\<And>j. j < m \<Longrightarrow> Rx_skbuff (rring s) ! slot_index (rx_n (rring s)) x j \<noteq> None"
  shows "run_state (rx_fill_loop K cfg x m) s = (x + of_nat m, s)"
  using assms
proof (induction m arbitrary: x)
  case 0
  then show ?case by (subst rx_fill_loop.simps) simp
next
  case (Suc m)
  have "run_state (rx_fill_loop K cfg (x + 1) m) s = (x + 1 + of_nat m, s)"
    using Suc.prems [of "Suc _"] by (intro Suc.IH) (simp add: slot_index_Suc)
  then show ?case
    using Suc.prems [of 0] by (subst rx_fill_loop.simps) (simp add: unat_mod ac_simps)
qed

lemma rx_fill_no_change:
  assumes "rx_wf (rring s)" "\<forall>e < rx_n (rring s). Rx_skbuff (rring s) ! e \<noteq> None"
  shows "run_state (rtl8125_rx_fill K cfg x y) s = (y - x, s)"
proof -
  have "run_state (rx_fill_loop K cfg x (unat (y - x))) s = (x + of_nat (unat (y - x)), s)"
    using assms rxr.wf_size [OF assms(1)] by (intro fill_no_change) (simp add: slot_index_less)
  then show ?thesis by (simp add: rtl8125_rx_fill_def)
qed

section \<open>The invariant of the receive ring\<close>

text \<open>
  A slot always has its buffer, of the configured size, and only the last descriptor has the mark of the
  ring's end.  A descriptor of the controller is armed: it has exactly the flags, the buffer size and
  the bus address of the slot's buffer.  In the first layout the controller never writes the address.
\<close>

definition rx_cfg_ok :: "rx_cfg \<Rightarrow> bool" where
  "rx_cfg_ok cfg \<longleftrightarrow> rx_buf_sz cfg < 0x4000"

definition rx_armed :: "rx_cfg \<Rightarrow> bool \<Rightarrow> rx_cell \<Rightarrow> bool" where
  "rx_armed cfg end0 c \<longleftrightarrow> (case c of (d, a, b, x) \<Rightarrow>
     v_opts1 (rx_view_of (InitRxDescType cfg) d) = DescOwn OR (if end0 then RingEnd else 0) OR rx_buf_sz cfg
     \<and> v_addr (rx_view_of (InitRxDescType cfg) d) = a)"

definition rx_rewrites :: "rx_desc_ring_type \<Rightarrow> bool" where
  "rx_rewrites t \<longleftrightarrow> t = RX_DESC_RING_TYPE_3 \<or> t = RX_DESC_RING_TYPE_4"

definition rx_cell_ok :: "rx_cfg \<Rightarrow> bool \<Rightarrow> rx_cell \<Rightarrow> bool" where
  "rx_cell_ok cfg end0 c \<longleftrightarrow> (case c of (d, a, b, x) \<Rightarrow>
     length d = RX_DESC_LEN (InitRxDescType cfg) \<and> b \<noteq> None \<and> length x = unat (rx_buf_sz cfg)
     \<and> (v_opts1 (rx_view_of (InitRxDescType cfg) d) AND RingEnd \<noteq> 0 \<longleftrightarrow> end0)
     \<and> (\<not> rx_rewrites (InitRxDescType cfg) \<longrightarrow> v_addr (rx_view_of (InitRxDescType cfg) d) = a)
     \<and> (rx_owned cfg c \<longrightarrow> rx_armed cfg end0 c))"

definition rx_inv :: "rx_cfg \<Rightarrow> rx_ring \<Rightarrow> bool" where
  "rx_inv cfg r \<longleftrightarrow> rx_wf r \<and> dirty_rx r = cur_rx r \<and> (\<forall>e < rx_n r. rx_cell_ok cfg (e = rx_n r - 1) (rx_slot r e))"

lemma ring_end_bit: "w AND RingEnd = (if w AND RingEnd \<noteq> 0 then RingEnd else 0)"
proof -
  have "RingEnd = push_bit 30 1" by (simp add: RingEnd_def)
  note bits = bit_push_bit_iff [of 30 "1 :: u32", folded this]
  have b: "bit RingEnd n \<longleftrightarrow> n = 30" for n unfolding bits bit_1_iff by auto
  have "w AND RingEnd = (if bit w 30 then RingEnd else 0)"
    by (rule bit_word_eqI) (auto simp: b bit_and_iff)
  then show ?thesis by (cases "bit w 30") simp_all
qed

lemma armed_bits:
  assumes "sz < (0x4000 :: u32)"
  shows "(DescOwn OR (if b then RingEnd else 0) OR sz) AND RingEnd \<noteq> 0 \<longleftrightarrow> b"
    and "(DescOwn OR (if b then RingEnd else 0) OR sz) AND DescOwn \<noteq> 0"
    and "(DescOwn OR (if b then RingEnd else 0) OR sz) AND 0x3fff = sz"
proof -
  have "take_bit 14 sz = sz" using assms by (intro word_uint_eqI) (simp add: unsigned_take_bit_eq take_bit_int_eq_self word_less_def)
  then have sz: "sz AND mask 14 = sz" by (simp add: take_bit_eq_mask)
  have "sz AND RingEnd = (sz AND mask 14) AND RingEnd" "sz AND DescOwn = (sz AND mask 14) AND DescOwn" by (simp_all add: sz)
  then have 0: "sz AND RingEnd = 0" "sz AND DescOwn = 0" by (simp_all add: and.assoc RingEnd_def DescOwn_def mask_numeral)
  have m: "sz AND 0x3fff = sz" using sz by (simp add: mask_numeral)
  show "(DescOwn OR (if b then RingEnd else 0) OR sz) AND RingEnd \<noteq> 0 \<longleftrightarrow> b"
    "(DescOwn OR (if b then RingEnd else 0) OR sz) AND DescOwn \<noteq> 0"
    "(DescOwn OR (if b then RingEnd else 0) OR sz) AND 0x3fff = sz"
    by (simp_all add: bit.conj_disj_distrib2 0 m) (simp_all add: DescOwn_def RingEnd_def)
qed

lemma give_back_ok:
  assumes "rx_cfg_ok cfg" "length d = RX_DESC_LEN (InitRxDescType cfg)"
    and "v_opts1 (rx_view_of (InitRxDescType cfg) d) AND RingEnd \<noteq> 0 \<longleftrightarrow> end0"
    and "\<not> rx_rewrites (InitRxDescType cfg) \<longrightarrow> v_addr (rx_view_of (InitRxDescType cfg) d) = a"
  shows "rx_armed cfg end0 (give_back cfg a d, a, b, x)" "length (give_back cfg a d) = RX_DESC_LEN (InitRxDescType cfg)"
proof -
  let ?t = "InitRxDescType cfg" let ?w = "v_opts1 (rx_view_of (InitRxDescType cfg) d)"
  have e: "?w AND RingEnd = (if end0 then RingEnd else 0)" using assms(3) ring_end_bit [of ?w] by auto
  show "rx_armed cfg end0 (give_back cfg a d, a, b, x)" "length (give_back cfg a d) = RX_DESC_LEN (InitRxDescType cfg)"
    using assms(2,4) e by (auto simp: rx_armed_def give_back_def Let_def view_ops rx_rewrites_def)
qed

lemma armed_ok:
  assumes "rx_cfg_ok cfg" "rx_armed cfg end0 (d, a, b, x)" "length d = RX_DESC_LEN (InitRxDescType cfg)"
    and "b \<noteq> None" "length x = unat (rx_buf_sz cfg)"
  shows "rx_cell_ok cfg end0 (d, a, b, x)" "rx_owned cfg (d, a, b, x)"
  using assms armed_bits [of "rx_buf_sz cfg"]
  by (simp_all add: rx_cell_ok_def rx_armed_def rx_owned_def rx_cfg_ok_def view_ops)

lemma serve1_ok:
  assumes "rx_cfg_ok cfg" "rx_cell_ok cfg end0 c" "rx_serve1 K cfg c bk = (ev, c', bk')"
  shows "rx_cell_ok cfg end0 c'" "rx_armed cfg end0 c'" "snd c' = snd c"
proof -
  obtain d a b x where c: "c = (d, a, b, x)" by (cases c) auto
  obtain k tot st where bk: "bk = (k, tot, st)" by (cases bk) auto
  let ?t = "InitRxDescType cfg"
  let ?d = "if rx_VLAN cfg then rtl8125_clear_rx_desc_opts2 ?t d else d"
  have len: "length d = RX_DESC_LEN ?t" using assms(2) c by (simp add: rx_cell_ok_def)
  have "c' = (give_back cfg a d, a, b, x) \<or> c' = (give_back cfg a ?d, a, b, x)"
    using assms(3) unfolding c bk
    by (simp add: rx_serve1_def Let_def split: rx_verdict.splits prod.splits option.splits if_splits)
  then obtain d' where c': "c' = (give_back cfg a d', a, b, x)" "length d' = RX_DESC_LEN ?t"
    "v_opts1 (rx_view_of ?t d') = v_opts1 (rx_view_of ?t d)" "v_addr (rx_view_of ?t d') = v_addr (rx_view_of ?t d)"
    using len by (cases "rx_VLAN cfg") (auto simp: view_ops)
  have ok: "b \<noteq> None" "length x = unat (rx_buf_sz cfg)" "v_opts1 (rx_view_of ?t d') AND RingEnd \<noteq> 0 \<longleftrightarrow> end0"
    "\<not> rx_rewrites ?t \<longrightarrow> v_addr (rx_view_of ?t d') = a"
    using assms(2) c c'(3,4) by (simp_all add: rx_cell_ok_def)
  note g = give_back_ok [OF assms(1) c'(2) ok(3,4)]
  show "rx_armed cfg end0 c'" using g(1) by (simp add: c'(1))
  show "rx_cell_ok cfg end0 c'" unfolding c'(1) by (rule armed_ok [OF assms(1) g ok(1,2)])
  show "snd c' = snd c" by (simp add: c'(1) c)
qed

lemma serve_ok:
  assumes "rx_cfg_ok cfg" "rx_serve K cfg cs bk = (evs, cs', bk')" "\<And>j. j < length cs \<Longrightarrow> rx_cell_ok cfg (end0 j) (cs ! j)"
  shows "j < length cs \<Longrightarrow> rx_cell_ok cfg (end0 j) (cs' ! j) \<and> rx_armed cfg (end0 j) (cs' ! j) \<and> snd (cs' ! j) = snd (cs ! j)"
  using assms(2,3)
proof (induction cs arbitrary: bk evs cs' j end0)
  case (Cons c cs)
  obtain ev c' bk1 where 1: "rx_serve1 K cfg c bk = (ev, c', bk1)" by (metis prod_cases3)
  obtain evs1 cs1 where 2: "rx_serve K cfg cs bk1 = (evs1, cs1, bk')" "cs' = c' # cs1"
    using Cons.prems(2) by (auto simp: 1 split: prod.splits)
  show ?case
  proof (cases j)
    case 0
    have "rx_cell_ok cfg (end0 0) c" using Cons.prems(3) [of 0] by simp
    then show ?thesis using serve1_ok [OF assms(1) _ 1] 0 2 by simp
  next
    case (Suc i)
    then show ?thesis
      using Cons.IH [of i bk1 evs1 cs1 "\<lambda>j. end0 (Suc j)"] 2 Cons.prems(1) Cons.prems(3) [of "Suc _"] by simp
  qed
qed simp

section \<open>One receive interrupt\<close>

text \<open>The completed slots that one call serves: those from \<open>cur_rx\<close> on up to the first of the controller.\<close>

definition rx_completed :: "rx_cfg \<Rightarrow> u32 \<Rightarrow> rx_ring \<Rightarrow> rx_cell list" where
  "rx_completed cfg budget r =
     takeWhile (\<lambda>c. \<not> rx_owned cfg c) (rx_window r (cur_rx r) (unat (rtl8125_rx_quota cfg (num_rx_desc r) budget)))"

lemma quota_le: "unat (rtl8125_rx_quota cfg n budget) \<le> unat n"
  by (simp add: rtl8125_rx_quota_def min_def word_le_nat_alt)

lemma length_completed: "length (rx_completed cfg budget r) \<le> rx_n r"
  using length_takeWhile_le [of "\<lambda>c. \<not> rx_owned cfg c" "rx_window r (cur_rx r) (unat (rtl8125_rx_quota cfg (num_rx_desc r) budget))"]
    quota_le [of cfg "num_rx_desc r" budget] by (simp add: rx_completed_def)

lemma nth_completed:
  assumes "j < length (rx_completed cfg budget r)"
  shows "rx_completed cfg budget r ! j = rx_slot r (slot_index (rx_n r) (cur_rx r) j)" "\<not> rx_owned cfg (rx_completed cfg budget r ! j)"
proof -
  let ?w = "rx_window r (cur_rx r) (unat (rtl8125_rx_quota cfg (num_rx_desc r) budget))"
  have "j < length ?w" using assms length_takeWhile_le [of _ ?w] by (auto simp: rx_completed_def intro: less_le_trans)
  then show "rx_completed cfg budget r ! j = rx_slot r (slot_index (rx_n r) (cur_rx r) j)"
    using assms by (simp add: rx_completed_def takeWhile_nth)
  show "\<not> rx_owned cfg (rx_completed cfg budget r ! j)"
    using nth_mem [OF assms] unfolding rx_completed_def by (auto dest: set_takeWhileD)
qed

lemma put_at:
  assumes "rx_wf r" "length cs \<le> rx_n r" "j < length cs"
  shows "rx_slot (rx_put r x cs) (slot_index (rx_n r) x j) = cs ! j"
  using rxr.pass_at [of r "map (\<lambda>c _. c) cs" j x] assms by simp

lemma put_off:
  assumes "rx_wf r" "\<And>j. j < length cs \<Longrightarrow> e \<noteq> slot_index (rx_n r) x j"
  shows "rx_slot (rx_put r x cs) e = rx_slot r e"
  using rxr.pass_off [of r "map (\<lambda>c _. c) cs" e x] assms by simp

lemma put_cells_ok:
  assumes "rx_cfg_ok cfg" "rx_inv cfg r" "rx_serve K cfg (rx_completed cfg budget r) bk = (evs, cs', bk')" "e < rx_n r"
  shows "rx_cell_ok cfg (e = rx_n r - 1) (rx_slot (rx_put r (cur_rx r) cs') e)"
proof (cases "\<exists>j < length cs'. e = slot_index (rx_n r) (cur_rx r) j")
  case True
  let ?cs = "rx_completed cfg budget r"
  have wf: "rx_wf r" using assms(2) by (simp add: rx_inv_def)
  have len: "length cs' = length ?cs" by (rule length_serve [OF assms(3)])
  obtain j where j: "j < length ?cs" "e = slot_index (rx_n r) (cur_rx r) j" using True len by auto
  have "rx_cell_ok cfg (slot_index (rx_n r) (cur_rx r) i = rx_n r - 1) (?cs ! i)" if "i < length ?cs" for i
    using assms(2) nth_completed(1) [OF that] rxr.wf_size [OF wf] by (simp add: rx_inv_def slot_index_less)
  from serve_ok [OF assms(1,3) this j(1)] show ?thesis
    using put_at [OF wf _ j(1) [folded len], of "cur_rx r"] length_completed [of cfg budget r] len j(2) by simp
next
  case False
  then have "rx_slot (rx_put r (cur_rx r) cs') e = rx_slot r e" using assms(2) by (intro put_off) (auto simp: rx_inv_def)
  then show ?thesis using assms(2,4) by (simp add: rx_inv_def)
qed

lemma rx_slot_index [simp]: "rx_slot (r\<lparr>cur_rx := x\<rparr>) = rx_slot r" "rx_slot (r\<lparr>dirty_rx := y\<rparr>) = rx_slot r"
  by (simp_all add: rx_slot_def fun_eq_iff)

lemma rx_wf_index [simp]: "rx_wf (r\<lparr>cur_rx := x\<rparr>) = rx_wf r" "rx_wf (r\<lparr>dirty_rx := y\<rparr>) = rx_wf r"
  by (simp_all add: rx_wf_def)

lemma rx_interrupt_result:
  assumes "rx_cfg_ok cfg" "rx_inv cfg (rring s)"
    and "rx_serve K cfg (rx_completed cfg budget (rring s)) (rx_kern s, (0, 0, 0), stats s) = (evs, cs', (k', (bytes, packets, multi), st'))"
  shows "\<exists>p. run_state (rtl8125_rx_interrupt K cfg io budget) s = (packets, s\<lparr>rx_priv := p, rx_kern := k', rx_log := rx_log s @ evs,
      stats := st'\<lparr>rx_bytes := rx_bytes st' + ucast bytes, rx_packets := rx_packets st' + ucast packets, multicast := multicast st' + ucast multi\<rparr>,
      rring := (rx_put (rring s) (cur_rx (rring s)) cs')\<lparr>cur_rx := cur_rx (rring s) + of_nat (length cs'), dirty_rx := cur_rx (rring s) + of_nat (length cs')\<rparr>\<rparr>)"
proof -
  let ?r = "rring s" let ?cs = "rx_completed cfg budget ?r" let ?m = "unat (rtl8125_rx_quota cfg (num_rx_desc ?r) budget)"
  have wf: "rx_wf ?r" and dc: "dirty_rx ?r = cur_rx ?r" using assms(2) by (simp_all add: rx_inv_def)
  have ne: "RxDescArray ?r \<noteq> []" using wf by (auto simp: rx_wf_def)
  note loop = run_rx_loop [OF wf, of ?m ?cs cfg "cur_rx ?r" K "(0, 0, 0)" evs cs' k' "(bytes, packets, multi)" st' io]
  let ?p = "if length ?cs < ?m then after_read io (rx_priv s) else rx_priv s"
  have l: "run_state (rx_loop K cfg io ?m (cur_rx ?r) (0, 0, 0)) s = ((cur_rx ?r + of_nat (length ?cs), bytes, packets, multi),
      s\<lparr>rx_priv := ?p, rx_kern := k', rx_log := rx_log s @ evs, stats := st', rring := rx_put ?r (cur_rx ?r) cs'\<rparr>)"
    using loop assms(3) quota_le [of cfg "num_rx_desc ?r" budget] by (simp add: rx_completed_def)
  let ?s = "s\<lparr>rx_priv := ?p, rx_kern := k', rx_log := rx_log s @ evs, stats := st',
      rring := (rx_put ?r (cur_rx ?r) cs')\<lparr>cur_rx := cur_rx ?r + of_nat (length ?cs)\<rparr>\<rparr>"
  have "Rx_skbuff (rring ?s) ! e \<noteq> None" if "e < rx_n ?r" for e
    using put_cells_ok [OF assms(1,2,3) that] by (simp add: rx_cell_ok_def rx_slot_def)
  then have f: "run_state (rtl8125_rx_fill K cfg x y) ?s = (y - x, ?s)" for x y
    using wf by (intro rx_fill_no_change) (simp_all add: rxr.pass_wf)
  show ?thesis
    unfolding rtl8125_rx_interrupt_def using ne l f length_serve [OF assms(3)] dc
    by (intro exI [of _ ?p]) (simp add: Let_def)
qed

definition delivered :: "rx_event list \<Rightarrow> rx_packet list" where
  "delivered l = concat (map (\<lambda>e. case e of RxDeliver p \<Rightarrow> [p] | _ \<Rightarrow> []) l)"

lemma delivered_simps [simp]:
  "delivered [] = []" "delivered (xs @ ys) = delivered xs @ delivered ys"
  "delivered (RxDeliver p # l) = p # delivered l" "delivered (RxAlloc i # l) = delivered l" "delivered (RxFree i # l) = delivered l"
  "delivered (RxMap m n # l) = delivered l" "delivered (RxUnmap m n # l) = delivered l"
  by (simp_all add: delivered_def)

text \<open>
  What may become of a completed slot: a bad or unusable frame is not handed up; a good one is handed up as
  it is, or dropped for want of memory.
\<close>

definition rx_outcome :: "rx_cfg \<Rightarrow> rx_cell \<Rightarrow> rx_packet option \<Rightarrow> bool" where
  "rx_outcome cfg c p = (case rx_verdict cfg (rtl8125_rx_desc_opts1 (InitRxDescType cfg) (fst c)) of
       Frame n \<Rightarrow> (case p of None \<Rightarrow> True | Some q \<Rightarrow> q = packet_of cfg (pk_id q) n c)
     | _ \<Rightarrow> p = None)"

definition rx_good :: "rx_cfg \<Rightarrow> rx_cell \<Rightarrow> bool" where
  "rx_good cfg c \<longleftrightarrow> (\<exists>n. rx_verdict cfg (rtl8125_rx_desc_opts1 (InitRxDescType cfg) (fst c)) = Frame n)"

abbreviation somes :: "'a option list \<Rightarrow> 'a list" where "somes ps \<equiv> map the (filter (\<lambda>p. p \<noteq> None) ps)"

lemma error_counts_keep:
  "rx_packets (error_counts t status st) = rx_packets st" "rx_dropped (error_counts t status st) = rx_dropped st"
  "rx_errors (error_counts t status st) = (if rx_bad t status then rx_errors st + 1 else rx_errors st)"
  by (simp_all add: error_counts_def count_errors_def Let_def split: rx_desc_ring_type.split)

lemma serve1_outcome:
  assumes "rx_serve1 K cfg c (k, tot, st) = (ev, c', (k', tot', st'))"
  obtains p where "rx_outcome cfg c p" "delivered ev = somes [p]" "fst (snd tot') = fst (snd tot) + of_nat (length (delivered ev))"
    "rx_packets st' = rx_packets st"
    "1 = of_nat (length (delivered ev)) + (rx_dropped st' - rx_dropped st) + (if feature_rxall cfg then 0 else rx_errors st' - rx_errors st)"
    "(\<forall>k sz. fst (rxk_alloc K k sz) \<noteq> None) \<Longrightarrow> p \<noteq> None \<longleftrightarrow> rx_good cfg c"
proof -
  obtain d a b x where c: "c = (d, a, b, x)" by (cases c) auto
  let ?w = "rtl8125_rx_desc_opts1 (InitRxDescType cfg) d"
  show thesis
  proof (cases "rx_verdict cfg ?w")
    case Bad
    then have "rx_bad (InitRxDescType cfg) ?w" "\<not> feature_rxall cfg" by (auto simp: rx_verdict_code split: if_splits option.splits)
    then show ?thesis
      using assms Bad by (intro that [of None]) (auto simp: c rx_serve1_def Let_def rx_outcome_def rx_good_def error_counts_keep)
  next
    case Drop
    then have "rx_bad (InitRxDescType cfg) ?w \<longrightarrow> feature_rxall cfg" by (auto simp: rx_verdict_code split: if_splits)
    then show ?thesis
      using assms Drop by (intro that [of None])
        (auto simp: c rx_serve1_def Let_def rx_outcome_def rx_good_def error_counts_keep drop_counts_def)
  next
    case (Frame n)
    then have bad: "rx_bad (InitRxDescType cfg) ?w \<longrightarrow> feature_rxall cfg" by (auto simp: rx_verdict_code split: if_splits)
    obtain m k1 where al: "rxk_alloc K k (n + NET_IP_ALIGN K) = (m, k1)" by fastforce
    show ?thesis
    proof (cases m)
      case None
      then have "\<not> (\<forall>k sz. fst (rxk_alloc K k sz) \<noteq> None)" using al by (metis fst_conv)
      then show ?thesis
        using assms Frame None al bad by (intro that [of None])
          (auto simp: c rx_serve1_def Let_def rx_outcome_def error_counts_keep drop_counts_def)
    next
      case (Some i)
      then show ?thesis
        using assms Frame al bad by (intro that [of "Some (packet_of cfg i n c)"])
          (auto simp: c rx_serve1_def Let_def rx_outcome_def rx_good_def error_counts_keep count_packet_def packet_of_def split: prod.splits)
    qed
  qed
qed

lemma serve_outcomes:
  assumes "rx_serve K cfg cs (k, tot, st) = (evs, cs', (k', tot', st'))"
  shows "(\<exists>ps. list_all2 (rx_outcome cfg) cs ps \<and> delivered evs = somes ps
      \<and> ((\<forall>k sz. fst (rxk_alloc K k sz) \<noteq> None) \<longrightarrow> list_all2 (\<lambda>c p. p \<noteq> None \<longleftrightarrow> rx_good cfg c) cs ps))
    \<and> fst (snd tot') = fst (snd tot) + of_nat (length (delivered evs)) \<and> rx_packets st' = rx_packets st
    \<and> of_nat (length cs) = of_nat (length (delivered evs)) + (rx_dropped st' - rx_dropped st)
        + (if feature_rxall cfg then 0 else rx_errors st' - rx_errors st)
    \<and> length (delivered evs) \<le> length cs"
  using assms
proof (induction cs arbitrary: k tot st evs cs')
  case (Cons c cs)
  obtain ev c' k1 tot1 st1 where 1: "rx_serve1 K cfg c (k, tot, st) = (ev, c', (k1, tot1, st1))" by (metis prod_cases5)
  obtain evs1 cs1 where 2: "rx_serve K cfg cs (k1, tot1, st1) = (evs1, cs1, (k', tot', st'))" "evs = ev @ evs1"
    using Cons.prems by (auto simp: 1 split: prod.splits)
  obtain p where p: "rx_outcome cfg c p" "delivered ev = somes [p]" "fst (snd tot1) = fst (snd tot) + of_nat (length (delivered ev))"
    "rx_packets st1 = rx_packets st"
    "1 = of_nat (length (delivered ev)) + (rx_dropped st1 - rx_dropped st) + (if feature_rxall cfg then 0 else rx_errors st1 - rx_errors st)"
    "(\<forall>k sz. fst (rxk_alloc K k sz) \<noteq> None) \<longrightarrow> (p \<noteq> None \<longleftrightarrow> rx_good cfg c)"
    using serve1_outcome [OF 1] by metis
  note ih = Cons.IH [OF 2(1)]
  obtain ps where ps: "list_all2 (rx_outcome cfg) cs ps" "delivered evs1 = somes ps"
    "(\<forall>k sz. fst (rxk_alloc K k sz) \<noteq> None) \<longrightarrow> list_all2 (\<lambda>c p. p \<noteq> None \<longleftrightarrow> rx_good cfg c) cs ps"
    using ih by blast
  have len: "length (delivered ev) \<le> 1" by (simp add: p(2))
  show ?case
  proof (intro conjI)
    show "\<exists>ps. list_all2 (rx_outcome cfg) (c # cs) ps \<and> delivered evs = somes ps
      \<and> ((\<forall>k sz. fst (rxk_alloc K k sz) \<noteq> None) \<longrightarrow> list_all2 (\<lambda>c p. p \<noteq> None \<longleftrightarrow> rx_good cfg c) (c # cs) ps)"
      using p(1,2,6) ps by (intro exI [of _ "p # ps"]) (auto simp: 2(2))
    show "of_nat (length (c # cs)) = of_nat (length (delivered evs)) + (rx_dropped st' - rx_dropped st)
        + (if feature_rxall cfg then 0 else rx_errors st' - rx_errors st)"
    proof -
      have "(of_nat (length (c # cs)) :: u64) = 1 + of_nat (length cs)" by simp
      also have "\<dots> = of_nat (length (delivered evs)) + (rx_dropped st' - rx_dropped st) + (if feature_rxall cfg then 0 else rx_errors st' - rx_errors st)"
        using ih by (subst p(5)) (cases "feature_rxall cfg"; simp add: 2(2) algebra_simps)
      finally show ?thesis .
    qed
  qed (use ih p(3,4) 2(2) len in \<open>auto simp: algebra_simps\<close>)
qed simp

lemma serve_cases:
  obtains evs cs' k' bytes packets multi st' where "rx_serve K cfg cs bk = (evs, cs', (k', (bytes, packets, multi), st'))"
proof -
  let ?o = "rx_serve K cfg cs bk" let ?b = "snd (snd (rx_serve K cfg cs bk))"
  show thesis
    by (rule that [of "fst ?o" "fst (snd ?o)" "fst ?b" "fst (fst (snd ?b))" "fst (snd (fst (snd ?b)))" "snd (snd (fst (snd ?b)))" "snd (snd ?b)"]) simp
qed

lemma rx_interrupt_inv:
  assumes "rx_cfg_ok cfg" "rx_inv cfg (rring s)" "run_state (rtl8125_rx_interrupt K cfg io budget) s = (n, s')"
    and "cs = rx_completed cfg budget (rring s)"
  shows "rx_inv cfg (rring s')" "cur_rx (rring s') = cur_rx (rring s) + of_nat (length cs)" "num_rx_desc (rring s') = num_rx_desc (rring s)"
    and "e < rx_n (rring s) \<Longrightarrow> if \<exists>j < length cs. e = slot_index (rx_n (rring s)) (cur_rx (rring s)) j
      then rx_armed cfg (e = rx_n (rring s) - 1) (rx_slot (rring s') e) \<and> snd (rx_slot (rring s') e) = snd (rx_slot (rring s) e)
      else rx_slot (rring s') e = rx_slot (rring s) e"
proof -
  let ?r = "rring s"
  obtain evs cs' k' bytes packets multi st' where sv: "rx_serve K cfg cs (rx_kern s, (0, 0, 0), stats s) = (evs, cs', (k', (bytes, packets, multi), st'))"
    by (rule serve_cases)
  note res = rx_interrupt_result [OF assms(1,2) sv [unfolded assms(4)]]
  have r': "rring s' = (rx_put ?r (cur_rx ?r) cs')\<lparr>cur_rx := cur_rx ?r + of_nat (length cs), dirty_rx := cur_rx ?r + of_nat (length cs)\<rparr>"
    using res [of io] assms(3) length_serve [OF sv] by auto
  have wf: "rx_wf ?r" using assms(2) by (simp add: rx_inv_def)
  have len: "length cs' = length cs" "length cs \<le> rx_n ?r" using length_serve [OF sv] length_completed assms(4) by auto
  show "cur_rx (rring s') = cur_rx ?r + of_nat (length cs)" "num_rx_desc (rring s') = num_rx_desc ?r" by (simp_all add: r')
  show "rx_inv cfg (rring s')"
    using put_cells_ok [OF assms(1,2) sv [unfolded assms(4)]] by (simp add: rx_inv_def r' rxr.pass_wf [OF wf])
  have ok: "rx_cell_ok cfg (slot_index (rx_n ?r) (cur_rx ?r) i = rx_n ?r - 1) (cs ! i)" if "i < length cs" for i
    using assms(2,4) nth_completed(1) that rxr.wf_size [OF wf] by (simp add: rx_inv_def slot_index_less)
  show "if \<exists>j < length cs. e = slot_index (rx_n ?r) (cur_rx ?r) j
      then rx_armed cfg (e = rx_n ?r - 1) (rx_slot (rring s') e) \<and> snd (rx_slot (rring s') e) = snd (rx_slot ?r e)
      else rx_slot (rring s') e = rx_slot ?r e" if "e < rx_n ?r"
  proof (cases "\<exists>j < length cs. e = slot_index (rx_n ?r) (cur_rx ?r) j")
    case True
    then obtain j where j: "j < length cs" "e = slot_index (rx_n ?r) (cur_rx ?r) j" by blast
    show ?thesis
      using serve_ok [OF assms(1) sv ok j(1)] put_at [OF wf _ j(1) [folded len(1)], of "cur_rx ?r"] len True j assms(4)
      by (auto simp: r' nth_completed(1))
  next
    case False
    then show ?thesis using put_off [OF wf, of cs' e "cur_rx ?r"] len by (auto simp: r')
  qed
qed

text \<open>
  Property C32.  A receive interrupt serves exactly the completed descriptors from \<open>cur_rx\<close> on, up to the first
  one of the controller, the end of the ring or the budget.  The packets handed up are those of the good
  frames among them, in their order, with the frame's bytes without the checksum (all of them if the
  kernel has memory); every other frame is not handed up.  Each served descriptor is armed again with
  its own buffer, all other slots are untouched, the invariant holds.  The ring size is a power of two (\<open>rx_wf\<close>).
\<close>

theorem rx_interrupt_exact:
  assumes "rx_cfg_ok cfg" "rx_inv cfg (rring s)" "run_state (rtl8125_rx_interrupt K cfg io budget) s = (n, s')"
    and "cs = rx_completed cfg budget (rring s)"
  shows "(\<exists>ps l. list_all2 (rx_outcome cfg) cs ps \<and> rx_log s' = rx_log s @ l \<and> delivered l = somes ps \<and> n = of_nat (length (somes ps))
      \<and> ((\<forall>k sz. fst (rxk_alloc K k sz) \<noteq> None) \<longrightarrow> list_all2 (\<lambda>c p. p \<noteq> None \<longleftrightarrow> rx_good cfg c) cs ps))
    \<and> rx_inv cfg (rring s') \<and> cur_rx (rring s') = cur_rx (rring s) + of_nat (length cs)
    \<and> (\<forall>e < rx_n (rring s). if \<exists>j < length cs. e = slot_index (rx_n (rring s)) (cur_rx (rring s)) j
        then rx_armed cfg (e = rx_n (rring s) - 1) (rx_slot (rring s') e) \<and> snd (rx_slot (rring s') e) = snd (rx_slot (rring s) e)
        else rx_slot (rring s') e = rx_slot (rring s) e)"
proof (intro conjI allI impI)
  obtain evs cs' k' bytes packets multi st' where sv: "rx_serve K cfg cs (rx_kern s, (0, 0, 0), stats s) = (evs, cs', (k', (bytes, packets, multi), st'))"
    by (rule serve_cases)
  note res = rx_interrupt_result [OF assms(1,2) sv [unfolded assms(4)]]
  have 1: "rx_log s' = rx_log s @ evs" "n = packets" using res [of io] assms(3) by auto
  from serve_outcomes [OF sv] have n: "packets = of_nat (length (delivered evs))" by simp
  from serve_outcomes [OF sv] obtain ps where "list_all2 (rx_outcome cfg) cs ps" "delivered evs = somes ps"
    "(\<forall>k sz. fst (rxk_alloc K k sz) \<noteq> None) \<longrightarrow> list_all2 (\<lambda>c p. p \<noteq> None \<longleftrightarrow> rx_good cfg c) cs ps" by blast
  then show "\<exists>ps l. list_all2 (rx_outcome cfg) cs ps \<and> rx_log s' = rx_log s @ l \<and> delivered l = somes ps \<and> n = of_nat (length (somes ps))
      \<and> ((\<forall>k sz. fst (rxk_alloc K k sz) \<noteq> None) \<longrightarrow> list_all2 (\<lambda>c p. p \<noteq> None \<longleftrightarrow> rx_good cfg c) cs ps)"
    using 1 n by (intro exI [of _ ps] exI [of _ evs]) simp
qed (use rx_interrupt_inv [OF assms] in blast)+

lemma ucast_count: "m < 2 ^ 32 \<Longrightarrow> ucast (of_nat m :: u32) = (of_nat m :: u64)"
  by (simp add: unsigned_of_nat take_bit_nat_eq_self)

text \<open>
  Every frame of a completed descriptor is counted exactly once: as a received packet, as a
  dropped one, or (unless bad frames are let through) as an error.
\<close>

lemma rx_frames_counted:
  assumes "rx_cfg_ok cfg" "rx_inv cfg (rring s)" "run_state (rtl8125_rx_interrupt K cfg io budget) s = (n, s')"
  shows "of_nat (length (rx_completed cfg budget (rring s)))
    = (rx_packets (stats s') - rx_packets (stats s)) + (rx_dropped (stats s') - rx_dropped (stats s))
      + (if feature_rxall cfg then 0 else rx_errors (stats s') - rx_errors (stats s))"
proof -
  let ?cs = "rx_completed cfg budget (rring s)"
  obtain evs cs' k' bytes packets multi st' where sv: "rx_serve K cfg ?cs (rx_kern s, (0, 0, 0), stats s) = (evs, cs', (k', (bytes, packets, multi), st'))"
    by (rule serve_cases)
  note o = serve_outcomes [OF sv]
  have "length (delivered evs) < 2 ^ 32"
    using o length_completed [of cfg budget "rring s"] unsigned_less [of "num_rx_desc (rring s)", where 'a = nat] by simp
  then have "ucast packets = (of_nat (length (delivered evs)) :: u64)" using o by (simp add: ucast_count)
  then have "rx_packets (stats s') = rx_packets (stats s) + of_nat (length (delivered evs))" "rx_dropped (stats s') = rx_dropped st'"
    "rx_errors (stats s') = rx_errors st'"
    using rx_interrupt_result [OF assms(1,2) sv, of io] assms(3) o by auto
  then show ?thesis using o by simp
qed

section \<open>Filling and clearing\<close>

definition rx_clear_cell :: "rx_cfg \<Rightarrow> rx_cell \<Rightarrow> rx_cell" where
  "rx_clear_cell cfg c = (case c of (d, a, None, x) \<Rightarrow> c
     | (d, a, Some k, x) \<Rightarrow> (rtl8125_make_unusable_by_asic (InitRxDescType cfg) d, a, None, x))"

definition rx_clear_events :: "rx_cfg \<Rightarrow> rx_cell \<Rightarrow> rx_event list" where
  "rx_clear_events cfg c = (case c of (d, a, None, x) \<Rightarrow> [] | (d, a, Some k, x) \<Rightarrow> [RxUnmap a (rx_buf_sz cfg), RxFree k])"

definition rx_fill_cell :: "rx_cfg \<Rightarrow> nat \<times> u64 \<Rightarrow> rx_cell \<Rightarrow> rx_cell" where
  "rx_fill_cell cfg f c = (case (f, c) of ((i, m), (d, a, b, x)) \<Rightarrow>
     (rtl8125_mark_to_asic (InitRxDescType cfg) (rtl8125_set_desc_dma_addr (InitRxDescType cfg) d m) (rx_buf_sz cfg), m, Some i, x))"

definition rx_spoil_cell :: "rx_cfg \<Rightarrow> rx_cell \<Rightarrow> rx_cell" where
  "rx_spoil_cell cfg c = (rtl8125_make_unusable_by_asic (InitRxDescType cfg) (fst c), snd c)"

abbreviation rx_run :: "rx_ring \<Rightarrow> u32 \<Rightarrow> (rx_cell \<Rightarrow> rx_cell) list \<Rightarrow> rx_ring" where
  "rx_run r \<equiv> update_run rx_slot set_rx_slot (rx_n r) r"

lemma run_free_rx_skb:
  assumes "rx_wf (rring s)" "e < rx_n (rring s)" "rx_slot (rring s) e = (d, a, Some k, x)"
  shows "run_state (rtl8125_free_rx_skb cfg k e) s = ((), s\<lparr>rx_log := rx_log s @ rx_clear_events cfg (d, a, Some k, x),
    rring := set_rx_slot (rring s) e (rx_clear_cell cfg (d, a, Some k, x))\<rparr>)"
proof -
  let ?r = "(rring s)\<lparr>Rx_skbuff := (Rx_skbuff (rring s))[e := None]\<rparr>"
  have r: "?r = set_rx_slot (rring s) e (d, a, None, x)" "RxDescPhyAddr (rring s) ! e = a"
    using assms(3) by (auto simp: rx_slot_def set_rx_slot_def)
  let ?s = "s\<lparr>rx_log := rx_log s @ [RxUnmap a (rx_buf_sz cfg), RxFree k], rring := set_rx_slot (rring s) e (d, a, None, x)\<rparr>"
  have "rx_slot (rring ?s) e = (d, a, None, x)" using assms(1,2) by (simp add: rx_slot_set)
  from run_upd_desc [OF this] show ?thesis
    unfolding rtl8125_free_rx_skb_def by (simp add: r rx_clear_cell_def rx_clear_events_def)
qed

lemma slot_of_nat: "i < unat (n :: u32) \<Longrightarrow> slot_index (unat n) (of_nat i) 0 = i"
  using unsigned_less [of n, where 'a = nat] by (simp add: unat_of_nat)

lemma run_rx_clear_loop:
  assumes "rx_wf (rring s)" "i + m \<le> rx_n (rring s)"
  shows "run_state (rx_clear_loop cfg i m) s = ((), s\<lparr>
    rx_log := rx_log s @ concat (map (rx_clear_events cfg) (rx_window (rring s) (of_nat i) m)),
    rring := rx_run (rring s) (of_nat i) (replicate m (rx_clear_cell cfg))\<rparr>)"
  using assms
proof (induction m arbitrary: i s)
  case 0
  then show ?case by (subst rx_clear_loop.simps) simp
next
  case (Suc m)
  let ?r = "rring s" let ?c = "rx_slot ?r i"
  let ?s = "s\<lparr>rx_log := rx_log s @ rx_clear_events cfg ?c, rring := set_rx_slot ?r i (rx_clear_cell cfg ?c)\<rparr>"
  have i: "i < rx_n ?r" "unat (of_nat i :: u32) mod rx_n ?r = i" using Suc.prems(2) slot_of_nat [of i "num_rx_desc ?r"] by simp_all
  obtain d a b x where c: "?c = (d, a, b, x)" by (cases ?c) auto
  have b: "Rx_skbuff ?r ! i = b" using c by (simp add: rx_slot_def)
  have "run_state (case b of None \<Rightarrow> State_Monad.return () | Some skb \<Rightarrow> rtl8125_free_rx_skb cfg skb i) s = ((), ?s)"
  proof (cases b)
    case None
    have "set_rx_slot ?r i ?c = ?r" by (simp add: set_rx_slot_def rx_slot_def)
    then show ?thesis using None c by (simp add: rx_clear_cell_def rx_clear_events_def)
  next
    case (Some k)
    then show ?thesis using run_free_rx_skb [OF Suc.prems(1) i(1), of d a k x cfg] c by simp
  qed
  moreover have "run_state (rx_clear_loop cfg (Suc i) m) ?s = ((), ?s\<lparr>
    rx_log := rx_log ?s @ concat (map (rx_clear_events cfg) (rx_window ?r (of_nat i + 1) m)),
    rring := rx_run (rring ?s) (of_nat i + 1) (replicate m (rx_clear_cell cfg))\<rparr>)"
    using Suc.IH [of ?s "Suc i"] Suc.prems rx_window_after_first [OF Suc.prems(1), of m "of_nat i" "rx_clear_cell cfg ?c"] i
    by (simp add: rxr.wf_set ac_simps)
  ultimately show ?case
    using i by (subst rx_clear_loop.simps) (simp add: b window_Suc)
qed

text \<open>A kernel that never runs out of memory or mappings.\<close>

definition rx_kernel_gives :: "'k rx_kernel \<Rightarrow> bool" where
  "rx_kernel_gives K \<longleftrightarrow> (\<forall>k n. fst (rxk_alloc K k n) \<noteq> None) \<and> (\<forall>k i n. fst (rxk_map K k i n) \<noteq> None)"

lemma run_alloc_rx:
  assumes "rx_wf (rring s)" "e < rx_n (rring s)" "rx_slot (rring s) e = c"
  obtains k tail where "\<not> rx_kernel_gives K" "tail = [] \<or> (\<exists>i. tail = [RxAlloc i, RxFree i])"
      "run_state (rtl8125_alloc_rx_skb K cfg e) s = (False, s\<lparr>rx_kern := k, rx_log := rx_log s @ tail, rring := set_rx_slot (rring s) e (rx_spoil_cell cfg c)\<rparr>)"
  | k i m where "run_state (rtl8125_alloc_rx_skb K cfg e) s = (True, s\<lparr>rx_kern := k, rx_log := rx_log s @ [RxAlloc i, RxMap m (rx_buf_sz cfg)],
      rring := set_rx_slot (rring s) e (rx_fill_cell cfg (i, m) c)\<rparr>)"
proof -
  obtain d a b x where c: "c = (d, a, b, x)" by (cases c) auto
  have spoil: "run_state (upd_desc e (rtl8125_make_unusable_by_asic (InitRxDescType cfg))) (s\<lparr>rx_kern := k, rx_log := l\<rparr>)
      = ((), s\<lparr>rx_kern := k, rx_log := l, rring := set_rx_slot (rring s) e (rx_spoil_cell cfg c)\<rparr>)" for k l
    using run_upd_desc [of "s\<lparr>rx_kern := k, rx_log := l\<rparr>" e d a b x] assms(3) c by (simp add: rx_spoil_cell_def)
  obtain o1 k1 where al: "rxk_alloc K (rx_kern s) (rx_buf_sz cfg + NET_IP_ALIGN K) = (o1, k1)" by fastforce
  show thesis
  proof (cases o1)
    case None
    have "run_state (rtl8125_alloc_rx_skb K cfg e) s
      = (False, s\<lparr>rx_kern := k1, rx_log := rx_log s, rring := set_rx_slot (rring s) e (rx_spoil_cell cfg c)\<rparr>)"
      unfolding rtl8125_alloc_rx_skb_def using spoil [of "rx_log s" k1] by (simp add: run_alloc al None)
    moreover have "\<not> rx_kernel_gives K" using al None unfolding rx_kernel_gives_def by (metis fst_conv)
    ultimately show ?thesis by (intro that(1) [of "[]" k1]) simp_all
  next
    case (Some i)
    obtain o2 k2 where mp: "rxk_map K k1 i (rx_buf_sz cfg) = (o2, k2)" by fastforce
    show ?thesis
    proof (cases o2)
      case None
      then have "run_state (rtl8125_alloc_rx_skb K cfg e) s
        = (False, s\<lparr>rx_kern := k2, rx_log := rx_log s @ [RxAlloc i, RxFree i], rring := set_rx_slot (rring s) e (rx_spoil_cell cfg c)\<rparr>)"
        unfolding rtl8125_alloc_rx_skb_def using Some by (simp add: run_alloc al map_skb_def mp spoil)
      moreover have "\<not> rx_kernel_gives K" using mp None unfolding rx_kernel_gives_def by (metis fst_conv)
      ultimately show ?thesis by (intro that(1) [of "[RxAlloc i, RxFree i]" k2]) simp_all
    next
      case 2: (Some m)
      let ?s = "\<lambda>d'. s\<lparr>rx_kern := k2, rx_log := rx_log s @ [RxAlloc i, RxMap m (rx_buf_sz cfg)], rring := set_rx_slot (rring s) e (d', m, Some i, x)\<rparr>"
      have r: "(rring s)\<lparr>Rx_skbuff := (Rx_skbuff (rring s))[e := Some i], RxDescPhyAddr := (RxDescPhyAddr (rring s))[e := m]\<rparr>
          = set_rx_slot (rring s) e (d, m, Some i, x)"
        using assms(3) c by (auto simp: rx_slot_def set_rx_slot_def)
      have "rx_slot (rring (?s d')) e = (d', m, Some i, x)" for d' using assms(1,2) by (simp add: rx_slot_set)
      note u = run_upd_desc [OF this]
      have "run_state (rtl8125_alloc_rx_skb K cfg e) s = (True, ?s (fst (rx_fill_cell cfg (i, m) c)))"
        unfolding rtl8125_alloc_rx_skb_def rtl8125_map_to_asic_def using Some 2
        by (simp add: run_alloc al map_skb_def mp r u) (simp add: rx_fill_cell_def c)
      then show ?thesis by (intro that(2)) (simp add: rx_fill_cell_def c)
    qed
  qed
qed

definition fill_events :: "rx_cfg \<Rightarrow> nat \<times> u64 \<Rightarrow> rx_event list" where
  "fill_events cfg f = [RxAlloc (fst f), RxMap (snd f) (rx_buf_sz cfg)]"

text \<open>
  Filling entries without buffers: as many as the kernel gives buffers for; the entry where it gives
  none gets a descriptor the controller cannot use.
\<close>

definition filled_to :: "rx_cfg \<Rightarrow> ('d, 'k) rxq \<Rightarrow> u32 \<Rightarrow> nat \<Rightarrow> (nat \<times> u64) list \<Rightarrow> rx_event list \<Rightarrow> 'k \<Rightarrow> ('d, 'k) rxq" where
  "filled_to cfg s x m fs tail k = s\<lparr>rx_kern := k, rx_log := rx_log s @ concat (map (fill_events cfg) fs) @ tail,
     rring := rx_run (rring s) x (map (rx_fill_cell cfg) fs @ (if length fs < m then [rx_spoil_cell cfg] else []))\<rparr>"

definition fill_tail_ok :: "'k rx_kernel \<Rightarrow> nat \<Rightarrow> (nat \<times> u64) list \<Rightarrow> rx_event list \<Rightarrow> bool" where
  "fill_tail_ok K m fs tail \<longleftrightarrow> (length fs = m \<and> tail = []) \<or> (length fs < m \<and> \<not> rx_kernel_gives K \<and> (tail = [] \<or> (\<exists>i. tail = [RxAlloc i, RxFree i])))"

lemma fill_empty:
  assumes "rx_wf (rring s)" "m \<le> rx_n (rring s)" "\<And>j. j < m \<Longrightarrow> Rx_skbuff (rring s) ! slot_index (rx_n (rring s)) x j = None"
  shows "\<exists>fs tail k. fill_tail_ok K m fs tail \<and> run_state (rx_fill_loop K cfg x m) s = (x + of_nat (length fs), filled_to cfg s x m fs tail k)"
  using assms
proof (induction m arbitrary: x s)
  case 0
  then show ?case
    by (intro exI [of _ "[]"] exI [of _ "rx_kern s"], subst rx_fill_loop.simps) (simp add: fill_tail_ok_def filled_to_def)
next
  case (Suc m)
  let ?r = "rring s" let ?e = "unat x mod rx_n ?r" let ?c = "rx_slot ?r ?e"
  have e: "unat (x mod num_rx_desc ?r) = ?e" "?e < rx_n ?r" using rxr.wf_size [OF Suc.prems(1)] by (simp_all add: unat_mod)
  have none: "Rx_skbuff ?r ! ?e = None" using Suc.prems(3) [of 0] by simp
  show ?case
  proof (rule run_alloc_rx [OF Suc.prems(1) e(2) refl, of K cfg])
    fix k tail
    assume "\<not> rx_kernel_gives K" "tail = [] \<or> (\<exists>i. tail = [RxAlloc i, RxFree i])"
      "run_state (rtl8125_alloc_rx_skb K cfg ?e) s = (False, s\<lparr>rx_kern := k, rx_log := rx_log s @ tail, rring := set_rx_slot ?r ?e (rx_spoil_cell cfg ?c)\<rparr>)"
    then show ?thesis
      using none by (intro exI [of _ "[]"] exI [of _ tail] exI [of _ k], subst rx_fill_loop.simps)
        (simp add: fill_tail_ok_def filled_to_def e Let_def)
  next
    fix k i mp
    let ?s = "s\<lparr>rx_kern := k, rx_log := rx_log s @ [RxAlloc i, RxMap mp (rx_buf_sz cfg)], rring := set_rx_slot ?r ?e (rx_fill_cell cfg (i, mp) ?c)\<rparr>"
    assume run: "run_state (rtl8125_alloc_rx_skb K cfg ?e) s = (True, ?s)"
    have "Rx_skbuff (rring ?s) ! slot_index (rx_n (rring ?s)) (x + 1) j = None" if "j < m" for j
    proof -
      have "snd (rx_window (rring ?s) (x + 1) m ! j) = snd (rx_window ?r (x + 1) m ! j)"
        using rx_window_after_first [OF Suc.prems(1,2), of x "rx_fill_cell cfg (i, mp) ?c"] by simp
      then show ?thesis using that Suc.prems(3) [of "Suc j"] by (simp add: rx_slot_def slot_index_Suc)
    qed
    then obtain fs tail k' where ih: "fill_tail_ok K m fs tail"
      "run_state (rx_fill_loop K cfg (x + 1) m) ?s = (x + 1 + of_nat (length fs), filled_to cfg ?s (x + 1) m fs tail k')"
      using Suc.IH [of ?s "x + 1"] Suc.prems(1,2) by (auto simp: rxr.wf_set)
    have "filled_to cfg ?s (x + 1) m fs tail k' = filled_to cfg s x (Suc m) ((i, mp) # fs) tail k'"
      by (simp add: filled_to_def fill_events_def)
    then show ?thesis
      using none run ih by (intro exI [of _ "(i, mp) # fs"] exI [of _ tail] exI [of _ k'], subst rx_fill_loop.simps)
        (simp add: e Let_def add.assoc fill_tail_ok_def)
  qed
qed

text \<open>The memory of a ring, whatever it holds: arrays of the right sizes.\<close>

definition rx_shape :: "rx_cfg \<Rightarrow> rx_ring \<Rightarrow> bool" where
  "rx_shape cfg r \<longleftrightarrow> rx_wf r \<and> (\<forall>e < rx_n r. length (fst (rx_slot r e)) = RX_DESC_LEN (InitRxDescType cfg)
     \<and> length (snd (snd (snd (rx_slot r e)))) = unat (rx_buf_sz cfg))"

definition rx_empty :: "rx_ring \<Rightarrow> bool" where
  "rx_empty r \<longleftrightarrow> (\<forall>e < rx_n r. Rx_skbuff r ! e = None)"

text \<open>The ring that filling starts from.\<close>

definition rx_blank :: "rx_ring \<Rightarrow> rx_ring" where
  "rx_blank r = (let r = rx_desc_zero (rx_ring_reset 0 r) in r\<lparr>Rx_skbuff := replicate (length (Rx_skbuff r)) None\<rparr>)"

lemma blank_simps [simp]:
  "num_rx_desc (rx_blank r) = num_rx_desc r" "cur_rx (rx_blank r) = 0" "dirty_rx (rx_blank r) = 0"
  by (simp_all add: rx_blank_def rx_desc_zero_def rx_ring_reset_def Let_def)

lemma blank_wf: "rx_wf r \<Longrightarrow> rx_wf (rx_blank r)"
  by (simp add: rx_wf_def rx_blank_def rx_desc_zero_def rx_ring_reset_def Let_def)

lemma blank_slot:
  assumes "rx_wf r" "e < rx_n r"
  shows "rx_slot (rx_blank r) e = (replicate (length (RxDescArray r ! e)) 0, RxDescPhyAddr r ! e, None, rx_data r ! e)"
  using assms by (simp add: rx_wf_def rx_blank_def rx_desc_zero_def rx_ring_reset_def Let_def rx_slot_def)

lemma slot_from_0: "j < rx_n r \<Longrightarrow> slot_index (rx_n r) 0 j = j"
  using unsigned_less [of "num_rx_desc r", where 'a = nat] by (simp add: slot_index_def unat_of_nat)

lemma init_fill:
  assumes "rx_wf (rring s)"
  obtains fs tail k where "fill_tail_ok K (rx_n (rring s)) fs tail"
    "run_state (rtl8125_rx_fill K cfg 0 (num_rx_desc (rring s))) (s\<lparr>rring := rx_blank (rring s)\<rparr>)
      = (of_nat (length fs), filled_to cfg (s\<lparr>rring := rx_blank (rring s)\<rparr>) 0 (rx_n (rring s)) fs tail k)"
proof -
  let ?s = "s\<lparr>rring := rx_blank (rring s)\<rparr>"
  have "Rx_skbuff (rring ?s) ! slot_index (rx_n (rring ?s)) 0 j = None" if "j < rx_n (rring s)" for j
    using blank_slot [OF assms that] that by (simp add: slot_from_0 rx_slot_def)
  then show thesis
    using fill_empty [of ?s "rx_n (rring s)" 0 K cfg] blank_wf [OF assms] that
    by (auto simp: rtl8125_rx_fill_def)
qed

section \<open>Accounts\<close>

definition rx_sum :: "(rx_event \<Rightarrow> 'm::comm_monoid_add) \<Rightarrow> rx_event list \<Rightarrow> 'm" where
  "rx_sum f l = sum_list (map f l)"

abbreviation allocated :: "rx_event list \<Rightarrow> nat multiset" where
  "allocated \<equiv> rx_sum (\<lambda>e. case e of RxAlloc i \<Rightarrow> {#i#} | _ \<Rightarrow> {#})"

text \<open>Buffers that have left the driver: freed, or handed to the network stack.\<close>

abbreviation gone :: "rx_event list \<Rightarrow> nat multiset" where
  "gone \<equiv> rx_sum (\<lambda>e. case e of RxFree i \<Rightarrow> {#i#} | RxDeliver p \<Rightarrow> {#pk_id p#} | _ \<Rightarrow> {#})"

abbreviation rx_mapped :: "rx_event list \<Rightarrow> (u64 \<times> u32) multiset" where
  "rx_mapped \<equiv> rx_sum (\<lambda>e. case e of RxMap m n \<Rightarrow> {#(m, n)#} | _ \<Rightarrow> {#})"

abbreviation rx_unmapped :: "rx_event list \<Rightarrow> (u64 \<times> u32) multiset" where
  "rx_unmapped \<equiv> rx_sum (\<lambda>e. case e of RxUnmap m n \<Rightarrow> {#(m, n)#} | _ \<Rightarrow> {#})"

lemma rx_sum_simps [simp]: "rx_sum f [] = 0" "rx_sum f (e # l) = f e + rx_sum f l" "rx_sum f (l @ l') = rx_sum f l + rx_sum f l'"
  by (simp_all add: rx_sum_def)

lemma rx_sum_concat: "rx_sum f (concat (map g xs)) = sum_list (map (\<lambda>x. rx_sum f (g x)) xs)"
  by (induction xs) auto

definition cell_buf :: "rx_cell \<Rightarrow> nat multiset" where
  "cell_buf c = (case c of (d, a, None, x) \<Rightarrow> {#} | (d, a, Some i, x) \<Rightarrow> {#i#})"

definition cell_map :: "rx_cfg \<Rightarrow> rx_cell \<Rightarrow> (u64 \<times> u32) multiset" where
  "cell_map cfg c = (case c of (d, a, None, x) \<Rightarrow> {#} | (d, a, Some i, x) \<Rightarrow> {#(a, rx_buf_sz cfg)#})"

text \<open>The buffers and mappings a ring holds.\<close>

definition rx_bufs :: "rx_ring \<Rightarrow> nat multiset" where
  "rx_bufs r = (\<Sum>e<rx_n r. cell_buf (rx_slot r e))"

definition rx_maps :: "rx_cfg \<Rightarrow> rx_ring \<Rightarrow> (u64 \<times> u32) multiset" where
  "rx_maps cfg r = (\<Sum>e<rx_n r. cell_map cfg (rx_slot r e))"

lemma empty_holds: "rx_empty r \<Longrightarrow> rx_bufs r = {#}" "rx_empty r \<Longrightarrow> rx_maps cfg r = {#}"
  by (auto simp: rx_empty_def rx_bufs_def rx_maps_def rx_slot_def cell_buf_def cell_map_def intro!: sum.neutral)

lemma same_holds:
  assumes "num_rx_desc r' = num_rx_desc r" "\<And>e. e < rx_n r \<Longrightarrow> fst (snd (rx_slot r' e)) = fst (snd (rx_slot r e))"
    "\<And>e. e < rx_n r \<Longrightarrow> fst (snd (snd (rx_slot r' e))) = fst (snd (snd (rx_slot r e)))"
  shows "rx_bufs r' = rx_bufs r" "rx_maps cfg r' = rx_maps cfg r"
proof -
  have "cell_buf (rx_slot r' e) = cell_buf (rx_slot r e) \<and> cell_map cfg (rx_slot r' e) = cell_map cfg (rx_slot r e)" if "e < rx_n r" for e
    using assms(2,3) [OF that] by (cases "rx_slot r' e", cases "rx_slot r e") (simp add: cell_buf_def cell_map_def split: option.split)
  then show "rx_bufs r' = rx_bufs r" "rx_maps cfg r' = rx_maps cfg r"
    using assms(1) by (simp_all add: rx_bufs_def rx_maps_def)
qed

lemma serve_accounts:
  assumes "rx_serve K cfg cs bk = (evs, cs', bk')"
  shows "allocated evs = gone evs" "rx_mapped evs = {#}" "rx_unmapped evs = {#}"
proof -
  have 1: "allocated ev = gone ev \<and> rx_mapped ev = {#} \<and> rx_unmapped ev = {#}" if "rx_serve1 K cfg c bk = (ev, c', bk1)" for c bk ev c' bk1
    using that by (auto simp: rx_serve1_def Let_def packet_of_def split: prod.splits rx_verdict.splits option.splits)
  have "allocated evs = gone evs \<and> rx_mapped evs = {#} \<and> rx_unmapped evs = {#}"
    using assms by (induction cs arbitrary: bk evs cs') (auto split: prod.splits dest: 1)
  then show "allocated evs = gone evs" "rx_mapped evs = {#}" "rx_unmapped evs = {#}" by simp_all
qed

lemma clear_cell_accounts:
  "allocated (rx_clear_events cfg c) = {#}" "gone (rx_clear_events cfg c) = cell_buf c"
  "rx_mapped (rx_clear_events cfg c) = {#}" "rx_unmapped (rx_clear_events cfg c) = cell_map cfg c"
  by (auto simp: rx_clear_events_def cell_buf_def cell_map_def split: prod.splits option.splits)

lemma rx_window_0: "window f (rx_n r) 0 (rx_n r) = map f [0..<rx_n r]"
  by (rule nth_equalityI) (simp_all add: slot_from_0)

lemma sum_ring: "(\<Sum>e<rx_n r. q (rx_slot r e)) = sum_list (map q (rx_window r 0 (rx_n r)))"
  by (simp add: rx_window_0 interv_sum_list_conv_sum_set_nat atLeast0LessThan)

lemma clear_ring_result:
  assumes "rx_wf (rring s)" "s' = snd (run_state (rx_clear_ring cfg) s)"
  shows "rx_log s' = rx_log s @ concat (map (rx_clear_events cfg) (rx_window (rring s) 0 (rx_n (rring s))))"
    and "e < rx_n (rring s) \<Longrightarrow> rx_slot (rring s') e = rx_clear_cell cfg (rx_slot (rring s) e)"
    and "num_rx_desc (rring s') = num_rx_desc (rring s)" "rx_wf (rring s')" "rx_empty (rring s')"
    and "rx_kern s' = rx_kern s" "rx_priv s' = rx_priv s" "stats s' = stats s"
proof -
  let ?r = "rring s"
  have s': "s' = s\<lparr>rx_log := rx_log s @ concat (map (rx_clear_events cfg) (rx_window ?r 0 (rx_n ?r))),
    rring := rx_run ?r 0 (replicate (rx_n ?r) (rx_clear_cell cfg))\<rparr>"
    using run_rx_clear_loop [OF assms(1), of 0 "rx_n ?r" cfg] by (simp add: assms(2) rx_clear_ring_def)
  have slot: "rx_slot (rring s') e = rx_clear_cell cfg (rx_slot ?r e)" if "e < rx_n ?r" for e
    using rxr.pass_at [OF assms(1), of "replicate (rx_n ?r) (rx_clear_cell cfg)" e 0] that by (simp add: s' slot_from_0)
  show "rx_empty (rring s')"
    unfolding rx_empty_def
  proof (intro allI impI)
    fix e assume e: "e < rx_n (rring s')"
    then have "rx_slot (rring s') e = rx_clear_cell cfg (rx_slot ?r e)" using slot by (simp add: s')
    moreover have "fst (snd (snd (rx_clear_cell cfg c))) = None" for c by (simp add: rx_clear_cell_def split: prod.split option.split)
    ultimately have "fst (snd (snd (rx_slot (rring s') e))) = None" by simp
    then show "Rx_skbuff (rring s') ! e = None" by (simp add: rx_slot_def)
  qed
  show "rx_log s' = rx_log s @ concat (map (rx_clear_events cfg) (rx_window ?r 0 (rx_n ?r)))"
    "num_rx_desc (rring s') = num_rx_desc ?r" "rx_wf (rring s')" "rx_kern s' = rx_kern s" "rx_priv s' = rx_priv s" "stats s' = stats s"
    "e < rx_n ?r \<Longrightarrow> rx_slot (rring s') e = rx_clear_cell cfg (rx_slot ?r e)"
    using assms(1) slot by (simp_all add: s' rxr.pass_wf)
qed

section \<open>Setting the ring up\<close>

definition filled_ring :: "rx_cfg \<Rightarrow> rx_ring \<Rightarrow> (nat \<times> u64) list \<Rightarrow> rx_ring" where
  "filled_ring cfg r fs = rx_run (rx_blank r) 0 (map (rx_fill_cell cfg) fs @ (if length fs < rx_n r then [rx_spoil_cell cfg] else []))"

lemma filled_ring_wf: "rx_wf r \<Longrightarrow> rx_wf (filled_ring cfg r fs)" "num_rx_desc (filled_ring cfg r fs) = num_rx_desc r"
  by (simp_all add: filled_ring_def rxr.pass_wf blank_wf)

lemma filled_slot:
  assumes "rx_wf r" "length fs \<le> rx_n r" "e < rx_n r"
  shows "rx_slot (filled_ring cfg r fs) e = (if e < length fs then rx_fill_cell cfg (fs ! e) (rx_slot (rx_blank r) e)
    else if e = length fs then rx_spoil_cell cfg (rx_slot (rx_blank r) e) else rx_slot (rx_blank r) e)"
proof -
  let ?gs = "map (rx_fill_cell cfg) fs @ (if length fs < rx_n r then [rx_spoil_cell cfg] else [])"
  have wf: "rx_wf (rx_blank r)" by (rule blank_wf [OF assms(1)])
  have len: "length ?gs \<le> rx_n (rx_blank r)" using assms(2) by simp
  have id: "slot_index (rx_n r) 0 j = j" if "j < rx_n r" for j by (rule slot_from_0 [OF that])
  show ?thesis
  proof (cases "e < length ?gs")
    case True
    have "rx_slot (filled_ring cfg r fs) e = (?gs ! e) (rx_slot (rx_blank r) e)"
      using rxr.pass_at [OF wf len True, of 0] assms(3) by (simp add: filled_ring_def id)
    then show ?thesis using True by (auto simp: nth_append split: if_splits)
  next
    case False
    have "e \<noteq> slot_index (rx_n (rx_blank r)) 0 j" if "j < length ?gs" for j
      using that False less_le_trans [OF that len] id [of j] by auto
    from rxr.pass_off [OF wf this, of ?gs] have "rx_slot (filled_ring cfg r fs) e = rx_slot (rx_blank r) e" by (simp add: filled_ring_def)
    then show ?thesis using False assms(3) by (auto split: if_splits)
  qed
qed

lemma blank_no_buf: "rx_wf r \<Longrightarrow> e < rx_n r \<Longrightarrow> cell_buf (rx_slot (rx_blank r) e) = {#} \<and> cell_map cfg (rx_slot (rx_blank r) e) = {#}
    \<and> cell_buf (rx_spoil_cell cfg (rx_slot (rx_blank r) e)) = {#} \<and> cell_map cfg (rx_spoil_cell cfg (rx_slot (rx_blank r) e)) = {#}"
  by (simp add: blank_slot cell_buf_def cell_map_def rx_spoil_cell_def)

lemma fill_cell_holds: "cell_buf (rx_fill_cell cfg f c) = {#fst f#}" "cell_map cfg (rx_fill_cell cfg f c) = {#(snd f, rx_buf_sz cfg)#}"
  by (simp_all add: rx_fill_cell_def cell_buf_def cell_map_def split: prod.split)

lemma sum_upto_list:
  fixes q :: "'a \<Rightarrow> 'm::comm_monoid_add"
  assumes "length fs \<le> n"
  shows "(\<Sum>e<n. if e < length fs then q (fs ! e) else 0) = sum_list (map q fs)"
proof -
  have "(\<Sum>e<n. if e < length fs then q (fs ! e) else 0) = (\<Sum>e<length fs. q (fs ! e))"
    using assms by (intro sum.mono_neutral_cong_right) auto
  then show ?thesis by (simp add: sum_list_sum_nth atLeast0LessThan)
qed

lemma filled_holds:
  assumes "rx_wf r" "length fs \<le> rx_n r"
  shows "rx_bufs (filled_ring cfg r fs) = allocated (concat (map (fill_events cfg) fs))"
    and "rx_maps cfg (filled_ring cfg r fs) = rx_mapped (concat (map (fill_events cfg) fs))"
proof -
  have "rx_bufs (filled_ring cfg r fs) = (\<Sum>e<rx_n r. if e < length fs then {#fst (fs ! e)#} else {#})"
    "rx_maps cfg (filled_ring cfg r fs) = (\<Sum>e<rx_n r. if e < length fs then {#(snd (fs ! e), rx_buf_sz cfg)#} else {#})"
    unfolding rx_bufs_def rx_maps_def filled_ring_wf
    using assms blank_no_buf [of r _ cfg] by (auto simp: filled_slot fill_cell_holds intro!: sum.cong)
  then show "rx_bufs (filled_ring cfg r fs) = allocated (concat (map (fill_events cfg) fs))"
    "rx_maps cfg (filled_ring cfg r fs) = rx_mapped (concat (map (fill_events cfg) fs))"
    using sum_upto_list [OF assms(2), of "\<lambda>f. {#fst f#}"] sum_upto_list [OF assms(2), of "\<lambda>f. {#(snd f, rx_buf_sz cfg)#}"]
    by (simp_all add: rx_sum_concat fill_events_def)
qed

lemma fill_accounts:
  "gone (concat (map (fill_events cfg) fs)) = {#}" "rx_unmapped (concat (map (fill_events cfg) fs)) = {#}"
  "delivered (concat (map (fill_events cfg) fs)) = []"
  by (induction fs) (auto simp: fill_events_def)

lemma tail_accounts:
  assumes "fill_tail_ok K m fs tail"
  shows "allocated tail = gone tail" "rx_mapped tail = {#}" "rx_unmapped tail = {#}" "delivered tail = []" "length fs \<le> m"
    "rx_kernel_gives K \<Longrightarrow> length fs = m" "length fs = m \<Longrightarrow> tail = []"
  using assms by (auto simp: fill_tail_ok_def)

lemma init_cases:
  assumes "rx_wf (rring s)" "run_state (rx_init_ring K cfg) s = (ok, s')"
  obtains fs tail k where "fill_tail_ok K (rx_n (rring s)) fs tail" "ok = (length fs = rx_n (rring s))"
    "let s1 = s\<lparr>rx_kern := k, rx_log := rx_log s @ concat (map (fill_events cfg) fs) @ tail, rring := filled_ring cfg (rring s) fs\<rparr> in
      if ok then s' = snd (run_state (upd_desc (rx_n (rring s) - 1) (rtl8125_mark_as_last_descriptor (InitRxDescType cfg))) s1)
      else s' = snd (run_state (rx_clear_ring cfg) s1)"
proof -
  let ?r = "rring s" let ?s0 = "s\<lparr>rring := rx_blank ?r\<rparr>"
  obtain fs tail k where f: "fill_tail_ok K (rx_n ?r) fs tail"
    "run_state (rtl8125_rx_fill K cfg 0 (num_rx_desc ?r)) ?s0 = (of_nat (length fs), filled_to cfg ?s0 0 (rx_n ?r) fs tail k)"
    by (rule init_fill [OF assms(1)])
  let ?s1 = "s\<lparr>rx_kern := k, rx_log := rx_log s @ concat (map (fill_events cfg) fs) @ tail, rring := filled_ring cfg ?r fs\<rparr>"
  have s1: "filled_to cfg ?s0 0 (rx_n ?r) fs tail k = ?s1" by (simp add: filled_to_def filled_ring_def)
  have eq: "of_nat (length fs) = num_rx_desc ?r \<longleftrightarrow> length fs = rx_n ?r"
  proof
    assume "of_nat (length fs) = num_rx_desc ?r"
    then have "unat (of_nat (length fs) :: u32) = rx_n ?r" by simp
    then show "length fs = rx_n ?r"
      using tail_accounts(5) [OF f(1)] unsigned_less [of "num_rx_desc ?r", where 'a = nat] by (simp add: unat_of_nat)
  qed simp
  have n1: "unat (num_rx_desc ?r - 1) = rx_n ?r - 1"
    using assms(1) by (simp add: rx_wf_def unat_minus_one unat_eq_zero [symmetric] del: unat_eq_zero)
  have n: "num_rx_desc (rx_desc_zero (rx_ring_reset 0 ?r)) = num_rx_desc ?r" by (simp add: rx_desc_zero_def rx_ring_reset_def)
  have blank: "(rx_desc_zero (rx_ring_reset 0 ?r))\<lparr>Rx_skbuff := replicate (length (Rx_skbuff (rx_desc_zero (rx_ring_reset 0 ?r)))) None\<rparr> = rx_blank ?r"
    by (simp add: rx_blank_def Let_def)
  have "ok = (length fs = rx_n ?r) \<and> (if ok then s' = snd (run_state (upd_desc (rx_n ?r - 1) (rtl8125_mark_as_last_descriptor (InitRxDescType cfg))) ?s1)
      else s' = snd (run_state (rx_clear_ring cfg) ?s1))"
    using assms(2) unfolding rx_init_ring_def rx_init_buffers_def
    by (auto simp: n blank f(2) s1 eq n1 split_beta split: if_splits)
  then show thesis using f(1) by (intro that [of fs tail k]) (simp_all add: Let_def)
qed

definition last_cell :: "rx_cfg \<Rightarrow> rx_cell \<Rightarrow> rx_cell" where
  "last_cell cfg c = (rtl8125_mark_as_last_descriptor (InitRxDescType cfg) (fst c), snd c)"

lemma shape_blank:
  assumes "rx_shape cfg r" "e < rx_n r"
  shows "rx_slot (rx_blank r) e = (replicate (RX_DESC_LEN (InitRxDescType cfg)) 0, RxDescPhyAddr r ! e, None, rx_data r ! e)"
    "length (rx_data r ! e) = unat (rx_buf_sz cfg)"
proof -
  have wf: "rx_wf r" and len: "length (RxDescArray r ! e) = RX_DESC_LEN (InitRxDescType cfg)" "length (rx_data r ! e) = unat (rx_buf_sz cfg)"
    using assms by (auto simp: rx_shape_def rx_slot_def)
  show "rx_slot (rx_blank r) e = (replicate (RX_DESC_LEN (InitRxDescType cfg)) 0, RxDescPhyAddr r ! e, None, rx_data r ! e)"
    "length (rx_data r ! e) = unat (rx_buf_sz cfg)"
    using blank_slot [OF wf assms(2)] by (simp_all add: len)
qed

lemma fill_cell_armed:
  assumes "rx_cfg_ok cfg" "rx_shape cfg r" "e < rx_n r" "c = rx_fill_cell cfg f (rx_slot (rx_blank r) e)"
  shows "rx_armed cfg False c" "rx_cell_ok cfg False c" "rx_armed cfg True (last_cell cfg c)" "rx_cell_ok cfg True (last_cell cfg c)"
proof -
  let ?t = "InitRxDescType cfg" let ?z = "replicate (RX_DESC_LEN (InitRxDescType cfg)) (0 :: u32)"
  let ?d = "rtl8125_mark_to_asic ?t (rtl8125_set_desc_dma_addr ?t ?z (snd f)) (rx_buf_sz cfg)"
  have c: "c = (?d, snd f, Some (fst f), rx_data r ! e)"
    by (simp add: assms(4) shape_blank(1) [OF assms(2,3)] rx_fill_cell_def split_beta)
  have z: "v_opts1 (rx_view_of ?t ?z) = 0" by (simp add: rx_view_of_def layout_fields)
  have v: "v_opts1 (rx_view_of ?t ?d) = DescOwn OR rx_buf_sz cfg" "v_addr (rx_view_of ?t ?d) = snd f" by (simp_all add: view_ops z)
  show a: "rx_armed cfg False c" "rx_armed cfg True (last_cell cfg c)"
    by (simp_all add: c rx_armed_def last_cell_def v view_ops z or.assoc or.commute [of RingEnd])
  note x = shape_blank(2) [OF assms(2,3)]
  show "rx_cell_ok cfg False c" using a(1) unfolding c by (intro armed_ok [OF assms(1)]) (simp_all add: x)
  show "rx_cell_ok cfg True (last_cell cfg c)"
    using a(2) unfolding c last_cell_def by (simp add: armed_ok [OF assms(1)] x)
qed

lemma spoiled_not_owned:
  assumes "length (fst c) = RX_DESC_LEN (InitRxDescType cfg)"
  shows "\<not> rx_owned cfg (rx_spoil_cell cfg c)"
  using assms by (simp add: rx_owned_def rx_spoil_cell_def view_ops and.assoc) (simp add: DescOwn_def RsvdMask_of_def RsvdMask_def RsvdMaskV3_def)

lemma cleared_not_owned:
  assumes "rx_shape cfg r" "length fs < rx_n r" "e < rx_n r"
  shows "\<not> rx_owned cfg (rx_clear_cell cfg (rx_slot (filled_ring cfg r fs) e))"
proof -
  let ?t = "InitRxDescType cfg" let ?z = "replicate (RX_DESC_LEN (InitRxDescType cfg)) (0 :: u32)"
  note b = shape_blank(1) [OF assms(1,3)]
  have wf: "rx_wf r" using assms(1) by (simp add: rx_shape_def)
  have z: "\<not> rx_owned cfg (?z, y)" for y by (simp add: rx_owned_def desc_ops_at layout_fields)
  consider "e < length fs" | "e = length fs" | "length fs < e" by linarith
  then show ?thesis
  proof cases
    case 1
    let ?d = "rtl8125_mark_to_asic ?t (rtl8125_set_desc_dma_addr ?t ?z (snd (fs ! e))) (rx_buf_sz cfg)"
    have "rx_clear_cell cfg (rx_slot (filled_ring cfg r fs) e) = (rtl8125_make_unusable_by_asic ?t ?d, snd (fs ! e), None, rx_data r ! e)"
      using 1 assms(2,3) by (simp add: filled_slot [OF wf] b rx_fill_cell_def rx_clear_cell_def split_beta)
    then show ?thesis using spoiled_not_owned [of "(?d, snd (fs ! e), None, rx_data r ! e)" cfg] by (simp add: rx_spoil_cell_def)
  next
    case 2
    have "rx_clear_cell cfg (rx_slot (filled_ring cfg r fs) e) = rx_spoil_cell cfg (?z, RxDescPhyAddr r ! e, None, rx_data r ! e)"
      using assms(2,3) b unfolding 2 by (simp add: filled_slot [OF wf] rx_spoil_cell_def rx_clear_cell_def)
    then show ?thesis using spoiled_not_owned [of "(?z, RxDescPhyAddr r ! e, None, rx_data r ! e)" cfg] by simp
  next
    case 3
    then show ?thesis using assms(2,3) z by (simp add: filled_slot [OF wf] b rx_clear_cell_def)
  qed
qed

lemma init_success:
  assumes "rx_cfg_ok cfg" "rx_shape cfg (rring s)" "run_state (rx_init_ring K cfg) s = (True, s')"
  obtains fs where "length fs = rx_n (rring s)" "rx_log s' = rx_log s @ concat (map (fill_events cfg) fs)"
    "rx_inv cfg (rring s')" "cur_rx (rring s') = 0" "num_rx_desc (rring s') = num_rx_desc (rring s)"
    "\<And>e. e < rx_n (rring s) \<Longrightarrow> rx_armed cfg (e = rx_n (rring s) - 1) (rx_slot (rring s') e)
       \<and> Rx_skbuff (rring s') ! e = Some (fst (fs ! e)) \<and> RxDescPhyAddr (rring s') ! e = snd (fs ! e)"
    "rx_bufs (rring s') = allocated (concat (map (fill_events cfg) fs))" "rx_maps cfg (rring s') = rx_mapped (concat (map (fill_events cfg) fs))"
proof -
  let ?r = "rring s" let ?t = "InitRxDescType cfg"
  have wf: "rx_wf ?r" using assms(2) by (simp add: rx_shape_def)
  obtain fs tail k where i0: "fill_tail_ok K (rx_n ?r) fs tail" "True = (length fs = rx_n ?r)"
    "let s1 = s\<lparr>rx_kern := k, rx_log := rx_log s @ concat (map (fill_events cfg) fs) @ tail, rring := filled_ring cfg ?r fs\<rparr> in
      if True then s' = snd (run_state (upd_desc (rx_n ?r - 1) (rtl8125_mark_as_last_descriptor ?t)) s1)
      else s' = snd (run_state (rx_clear_ring cfg) s1)"
    by (rule init_cases [OF wf assms(3)])
  then have i: "fill_tail_ok K (rx_n ?r) fs tail" "length fs = rx_n ?r"
    "s' = snd (run_state (upd_desc (rx_n ?r - 1) (rtl8125_mark_as_last_descriptor ?t))
       (s\<lparr>rx_kern := k, rx_log := rx_log s @ concat (map (fill_events cfg) fs) @ tail, rring := filled_ring cfg ?r fs\<rparr>))"
    by (simp_all add: Let_def)
  let ?f = "filled_ring cfg ?r fs" let ?c = "rx_slot ?f (rx_n ?r - 1)"
  have tail: "tail = []" by (rule tail_accounts(7) [OF i(1,2)])
  have n: "0 < rx_n ?r" "rx_n ?r - 1 < rx_n ?r" using rxr.wf_size [OF wf] by auto
  obtain d a b x where c: "?c = (d, a, b, x)" by (cases ?c) auto
  have s': "s' = s\<lparr>rx_kern := k, rx_log := rx_log s @ concat (map (fill_events cfg) fs), rring := set_rx_slot ?f (rx_n ?r - 1) (last_cell cfg ?c)\<rparr>"
    unfolding i(3) tail using run_upd_desc [where s = "s\<lparr>rx_kern := k, rx_log := rx_log s @ concat (map (fill_events cfg) fs), rring := ?f\<rparr>" and i = "rx_n ?r - 1"] c
    by (simp add: last_cell_def)
  have fwf: "rx_wf ?f" "rx_n ?f = rx_n ?r" using filled_ring_wf wf by simp_all
  have fill: "rx_slot ?f e = rx_fill_cell cfg (fs ! e) (rx_slot (rx_blank ?r) e)" if "e < rx_n ?r" for e
    using filled_slot [OF wf _ that, of fs cfg] i(2) that by simp
  have slot: "rx_slot (rring s') e = (if e = rx_n ?r - 1 then last_cell cfg (rx_slot ?f e) else rx_slot ?f e)" if "e < rx_n ?r" for e
    using rxr.slot_set [OF fwf(1), of "rx_n ?r - 1"] fwf(2) n that by (simp add: s')
  have e1: "rx_armed cfg (e = rx_n ?r - 1) (rx_slot (rring s') e) \<and> rx_cell_ok cfg (e = rx_n ?r - 1) (rx_slot (rring s') e)" if "e < rx_n ?r" for e
    using fill_cell_armed [OF assms(1,2) that fill [OF that]] slot [OF that] by (cases "e = rx_n ?r - 1") auto
  have sn: "snd (rx_slot (rring s') e) = snd (rx_slot ?f e)" if "e < rx_n ?r" for e using slot [OF that] by (simp add: last_cell_def)
  have e2: "Rx_skbuff (rring s') ! e = Some (fst (fs ! e)) \<and> RxDescPhyAddr (rring s') ! e = snd (fs ! e)" if "e < rx_n ?r" for e
  proof -
    have "fst (snd (rx_slot (rring s') e)) = snd (fs ! e) \<and> fst (snd (snd (rx_slot (rring s') e))) = Some (fst (fs ! e))"
      using sn [OF that] fill [OF that] by (simp add: rx_fill_cell_def split_beta)
    then show ?thesis by (simp add: rx_slot_def)
  qed
  have cur: "cur_rx ?f = 0" "dirty_rx ?f = 0" by (simp_all add: filled_ring_def)
  have inv: "rx_inv cfg (rring s')" using e1 fwf cur by (simp add: rx_inv_def s' rxr.wf_set)
  have hold: "rx_bufs (rring s') = rx_bufs ?f" "rx_maps cfg (rring s') = rx_maps cfg ?f"
    using same_holds [of "rring s'" ?f] sn fwf(2) by (simp_all add: s')
  have "num_rx_desc (rring s') = num_rx_desc ?r" "cur_rx (rring s') = 0" "rx_log s' = rx_log s @ concat (map (fill_events cfg) fs)"
    using filled_ring_wf(2) cur by (simp_all add: s')
  then show thesis
    using i(2) inv e1 e2 hold filled_holds [OF wf, of fs cfg] by (intro that [of fs]) simp_all
qed

lemma clear_accounts_ring:
  "allocated (concat (map (rx_clear_events cfg) (rx_window r 0 (rx_n r)))) = {#}"
  "rx_mapped (concat (map (rx_clear_events cfg) (rx_window r 0 (rx_n r)))) = {#}"
  "gone (concat (map (rx_clear_events cfg) (rx_window r 0 (rx_n r)))) = rx_bufs r"
  "rx_unmapped (concat (map (rx_clear_events cfg) (rx_window r 0 (rx_n r)))) = rx_maps cfg r"
  unfolding rx_bufs_def rx_maps_def sum_ring
  by (simp_all add: rx_sum_concat clear_cell_accounts sum_list_empty)

lemma clear_delivers_nothing: "delivered (concat (map (rx_clear_events cfg) cs)) = []"
  by (induction cs) (auto simp: rx_clear_events_def split: option.splits)

lemma init_failure:
  assumes "rx_cfg_ok cfg" "rx_shape cfg (rring s)" "run_state (rx_init_ring K cfg) s = (False, s')"
  shows "rx_empty (rring s')" "num_rx_desc (rring s') = num_rx_desc (rring s)" "\<not> rx_kernel_gives K"
    "e < rx_n (rring s) \<Longrightarrow> \<not> rx_owned cfg (rx_slot (rring s') e)"
    "\<exists>l. rx_log s' = rx_log s @ l \<and> allocated l = gone l \<and> rx_mapped l = rx_unmapped l \<and> delivered l = []"
proof -
  let ?r = "rring s" let ?t = "InitRxDescType cfg"
  have wf: "rx_wf ?r" using assms(2) by (simp add: rx_shape_def)
  obtain fs tail k where i0: "fill_tail_ok K (rx_n ?r) fs tail" "False = (length fs = rx_n ?r)"
    "let s1 = s\<lparr>rx_kern := k, rx_log := rx_log s @ concat (map (fill_events cfg) fs) @ tail, rring := filled_ring cfg ?r fs\<rparr> in
      if False then s' = snd (run_state (upd_desc (rx_n ?r - 1) (rtl8125_mark_as_last_descriptor ?t)) s1)
      else s' = snd (run_state (rx_clear_ring cfg) s1)"
    by (rule init_cases [OF wf assms(3)])
  let ?f = "filled_ring cfg ?r fs"
  let ?s1 = "s\<lparr>rx_kern := k, rx_log := rx_log s @ concat (map (fill_events cfg) fs) @ tail, rring := ?f\<rparr>"
  note t = tail_accounts [OF i0(1)]
  have s': "s' = snd (run_state (rx_clear_ring cfg) ?s1)" and len: "length fs < rx_n ?r" using i0 t(5) by (simp_all add: Let_def)
  have fwf: "rx_wf (rring ?s1)" "num_rx_desc (rring ?s1) = num_rx_desc ?r" using filled_ring_wf wf by simp_all
  note c = clear_ring_result [OF fwf(1) s']
  show "rx_empty (rring s')" by (rule c(5))
  show "num_rx_desc (rring s') = num_rx_desc ?r" using c(3) fwf(2) by simp
  show "\<not> rx_kernel_gives K" using t(6) len by auto
  show "e < rx_n ?r \<Longrightarrow> \<not> rx_owned cfg (rx_slot (rring s') e)"
    using c(2) [of e] fwf(2) cleared_not_owned [OF assms(2) len, of e] by simp
  let ?l = "concat (map (fill_events cfg) fs) @ tail @ concat (map (rx_clear_events cfg) (rx_window ?f 0 (rx_n ?f)))"
  show "\<exists>l. rx_log s' = rx_log s @ l \<and> allocated l = gone l \<and> rx_mapped l = rx_unmapped l \<and> delivered l = []"
  proof (intro exI [of _ ?l] conjI)
    show "rx_log s' = rx_log s @ ?l" using c(1) by simp
    show "allocated ?l = gone ?l" "rx_mapped ?l = rx_unmapped ?l"
      using filled_holds [OF wf t(5), of cfg] by (simp_all add: t clear_accounts_ring fill_accounts)
    show "delivered ?l = []" by (simp only: delivered_simps fill_accounts t(4) clear_delivers_nothing append_Nil)
  qed
qed

text \<open>
  Property C34.  Setting the receive ring up succeeds if the kernel has memory.  On success every
  descriptor is armed with a buffer of its own and only the last one marked as the ring's end; the log
  has one allocation and one mapping for each entry.  On failure the ring holds no buffer, the
  controller owns no descriptor, and every buffer and mapping obtained on the way was given back.  The ring
  size is a power of two (\<open>rx_wf\<close>).
\<close>

theorem rx_init_exact:
  assumes "rx_cfg_ok cfg" "rx_shape cfg (rring s)" "run_state (rx_init_ring K cfg) s = (ok, s')"
  shows "(rx_kernel_gives K \<longrightarrow> ok)
    \<and> (ok \<longrightarrow> rx_inv cfg (rring s') \<and> (\<exists>fs. length fs = rx_n (rring s) \<and> rx_log s' = rx_log s @ concat (map (fill_events cfg) fs)
        \<and> (\<forall>e < rx_n (rring s). rx_armed cfg (e = rx_n (rring s) - 1) (rx_slot (rring s') e)
             \<and> Rx_skbuff (rring s') ! e = Some (fst (fs ! e)) \<and> RxDescPhyAddr (rring s') ! e = snd (fs ! e))))
    \<and> (\<not> ok \<longrightarrow> rx_empty (rring s') \<and> (\<forall>e < rx_n (rring s). \<not> rx_owned cfg (rx_slot (rring s') e))
        \<and> (\<exists>l. rx_log s' = rx_log s @ l \<and> allocated l = gone l \<and> rx_mapped l = rx_unmapped l \<and> delivered l = []))"
proof (cases ok)
  case True
  obtain fs where "length fs = rx_n (rring s)" "rx_log s' = rx_log s @ concat (map (fill_events cfg) fs)"
    "rx_inv cfg (rring s')"
    "\<And>e. e < rx_n (rring s) \<Longrightarrow> rx_armed cfg (e = rx_n (rring s) - 1) (rx_slot (rring s') e)
       \<and> Rx_skbuff (rring s') ! e = Some (fst (fs ! e)) \<and> RxDescPhyAddr (rring s') ! e = snd (fs ! e)"
    by (rule init_success [OF assms(1,2) assms(3) [unfolded eqTrueI [OF True]]]) blast
  then show ?thesis using True by blast
next
  case False
  then have run: "run_state (rx_init_ring K cfg) s = (False, s')" using assms(3) by simp
  show ?thesis using False init_failure [OF assms(1,2) run] by simp
qed

section \<open>Any sequence of operations\<close>

text \<open>
  The controller completes descriptors it owns: it writes the option words and the buffer, keeps the mark
  of the ring's end, and overwrites the address only in the later layouts.
\<close>

definition rx_hw_cell :: "rx_cfg \<Rightarrow> rx_cell \<Rightarrow> rx_cell \<Rightarrow> bool" where
  "rx_hw_cell cfg c c' \<longleftrightarrow> c' = c \<or> (rx_owned cfg c \<and> \<not> rx_owned cfg c' \<and> (case (c, c') of ((d, a, b, x), (d', a', b', x')) \<Rightarrow>
     a' = a \<and> b' = b \<and> length x' = length x \<and> length d' = length d
     \<and> v_opts1 (rx_view_of (InitRxDescType cfg) d') AND RingEnd = v_opts1 (rx_view_of (InitRxDescType cfg) d) AND RingEnd
     \<and> (\<not> rx_rewrites (InitRxDescType cfg) \<longrightarrow> v_addr (rx_view_of (InitRxDescType cfg) d') = v_addr (rx_view_of (InitRxDescType cfg) d))))"

definition rx_hw :: "rx_cfg \<Rightarrow> rx_ring \<Rightarrow> rx_ring \<Rightarrow> bool" where
  "rx_hw cfg r r' \<longleftrightarrow> num_rx_desc r' = num_rx_desc r \<and> cur_rx r' = cur_rx r \<and> dirty_rx r' = dirty_rx r
     \<and> length (RxDescArray r') = length (RxDescArray r) \<and> length (RxDescPhyAddr r') = length (RxDescPhyAddr r)
     \<and> length (Rx_skbuff r') = length (Rx_skbuff r) \<and> length (rx_data r') = length (rx_data r)
     \<and> (\<forall>e < rx_n r. rx_hw_cell cfg (rx_slot r e) (rx_slot r' e))"

text \<open>The life of a ring: \<open>up\<close> says that it has been set up and not cleared since.\<close>

inductive rx_reach :: "'k rx_kernel \<Rightarrow> rx_cfg \<Rightarrow> 'd mmio \<Rightarrow> ('d, 'k) rxq \<Rightarrow> bool \<Rightarrow> ('d, 'k) rxq \<Rightarrow> bool"
  for K cfg io s0 where
  start: "rx_reach K cfg io s0 False s0"
| init: "rx_reach K cfg io s0 False s \<Longrightarrow> run_state (rx_init_ring K cfg) s = (ok, s') \<Longrightarrow> rx_reach K cfg io s0 ok s'"
| irq: "rx_reach K cfg io s0 True s \<Longrightarrow> run_state (rtl8125_rx_interrupt K cfg io budget) s = (n, s') \<Longrightarrow> rx_reach K cfg io s0 True s'"
| hw: "rx_reach K cfg io s0 True s \<Longrightarrow> rx_hw cfg (rring s) (rring s') \<Longrightarrow> rx_log s' = rx_log s \<Longrightarrow> rx_reach K cfg io s0 True s'"
| clear: "rx_reach K cfg io s0 up s \<Longrightarrow> s' = snd (run_state (rx_clear_ring cfg) s) \<Longrightarrow> rx_reach K cfg io s0 False s'"

definition rx_balanced :: "rx_cfg \<Rightarrow> ('d, 'k) rxq \<Rightarrow> bool" where
  "rx_balanced cfg s \<longleftrightarrow> allocated (rx_log s) = gone (rx_log s) + rx_bufs (rring s)
     \<and> rx_mapped (rx_log s) = rx_unmapped (rx_log s) + rx_maps cfg (rring s)"

definition rx_sound :: "rx_cfg \<Rightarrow> bool \<Rightarrow> ('d, 'k) rxq \<Rightarrow> bool" where
  "rx_sound cfg up s \<longleftrightarrow> rx_shape cfg (rring s) \<and> (if up then rx_inv cfg (rring s) else rx_empty (rring s)) \<and> rx_balanced cfg s"

lemma inv_shape: "rx_inv cfg r \<Longrightarrow> rx_shape cfg r"
  by (simp add: rx_inv_def rx_shape_def rx_cell_ok_def split_beta)

lemma shape_cells:
  assumes "rx_shape cfg r" "rx_wf r'" "num_rx_desc r' = num_rx_desc r"
    "\<And>e. e < rx_n r \<Longrightarrow> length (fst (rx_slot r' e)) = length (fst (rx_slot r e)) \<and> snd (snd (snd (rx_slot r' e))) = snd (snd (snd (rx_slot r e)))"
  shows "rx_shape cfg r'"
  using assms by (simp add: rx_shape_def)

lemma clear_shape:
  assumes "rx_shape cfg (rring s)" "s' = snd (run_state (rx_clear_ring cfg) s)"
  shows "rx_shape cfg (rring s')"
proof -
  have wf: "rx_wf (rring s)" using assms(1) by (simp add: rx_shape_def)
  note c = clear_ring_result [OF wf assms(2)]
  have "length (fst (rx_clear_cell cfg x)) = length (fst x) \<and> snd (snd (snd (rx_clear_cell cfg x))) = snd (snd (snd x))" for x
    by (simp add: rx_clear_cell_def split: prod.split option.split)
  then show ?thesis using c by (intro shape_cells [OF assms(1)]) simp_all
qed

lemma filled_shape:
  assumes "rx_shape cfg r" "length fs \<le> rx_n r"
  shows "rx_shape cfg (filled_ring cfg r fs)"
proof (rule shape_cells [OF assms(1)])
  have wf: "rx_wf r" using assms(1) by (simp add: rx_shape_def)
  show "rx_wf (filled_ring cfg r fs)" by (rule filled_ring_wf(1) [OF wf])
  fix e assume e: "e < rx_n r"
  then have "length (fst (rx_slot r e)) = RX_DESC_LEN (InitRxDescType cfg)" using assms(1) by (simp add: rx_shape_def)
  then show "length (fst (rx_slot (filled_ring cfg r fs) e)) = length (fst (rx_slot r e))
      \<and> snd (snd (snd (rx_slot (filled_ring cfg r fs) e))) = snd (snd (snd (rx_slot r e)))"
    using shape_blank(1) [OF assms(1) e] unfolding filled_slot [OF wf assms(2) e]
    by (cases "e < length fs"; cases "e = length fs") (auto simp: rx_fill_cell_def rx_spoil_cell_def split_beta rx_slot_def [of r])
qed (rule filled_ring_wf(2))

lemma init_failure_shape:
  assumes "rx_shape cfg (rring s)" "run_state (rx_init_ring K cfg) s = (False, s')"
  shows "rx_shape cfg (rring s')"
proof -
  let ?r = "rring s"
  have wf: "rx_wf ?r" using assms(1) by (simp add: rx_shape_def)
  obtain fs tail k where i0: "fill_tail_ok K (rx_n ?r) fs tail" "False = (length fs = rx_n ?r)"
    "let s1 = s\<lparr>rx_kern := k, rx_log := rx_log s @ concat (map (fill_events cfg) fs) @ tail, rring := filled_ring cfg ?r fs\<rparr> in
      if False then s' = snd (run_state (upd_desc (rx_n ?r - 1) (rtl8125_mark_as_last_descriptor (InitRxDescType cfg))) s1)
      else s' = snd (run_state (rx_clear_ring cfg) s1)"
    by (rule init_cases [OF wf assms(2)])
  then show ?thesis
    using clear_shape [where s = "s\<lparr>rx_kern := k, rx_log := rx_log s @ concat (map (fill_events cfg) fs) @ tail, rring := filled_ring cfg ?r fs\<rparr>"]
      filled_shape [OF assms(1) tail_accounts(5) [OF i0(1)]] by (simp add: Let_def)
qed

lemma sound_init:
  assumes "rx_cfg_ok cfg" "rx_sound cfg False s" "run_state (rx_init_ring K cfg) s = (ok, s')"
  shows "rx_sound cfg ok s'"
proof -
  have sh: "rx_shape cfg (rring s)" and em: "rx_empty (rring s)" and bal: "rx_balanced cfg s" using assms(2) by (simp_all add: rx_sound_def)
  show ?thesis
  proof (cases ok)
    case True
    then have run: "run_state (rx_init_ring K cfg) s = (True, s')" using assms(3) by simp
    show ?thesis
      by (rule init_success [OF assms(1) sh run])
        (use True em bal in \<open>simp add: rx_sound_def inv_shape rx_balanced_def empty_holds fill_accounts\<close>)
  next
    case False
    then have run: "run_state (rx_init_ring K cfg) s = (False, s')" using assms(3) by simp
    note f = init_failure [OF assms(1) sh run]
    then show ?thesis
      using False em bal init_failure_shape [OF sh run] f(5) by (auto simp: rx_sound_def rx_balanced_def empty_holds)
  qed
qed

lemma sound_irq:
  assumes "rx_cfg_ok cfg" "rx_sound cfg True s" "run_state (rtl8125_rx_interrupt K cfg io budget) s = (n, s')"
  shows "rx_sound cfg True s'"
proof -
  have inv: "rx_inv cfg (rring s)" and bal: "rx_balanced cfg s" using assms(2) by (simp_all add: rx_sound_def)
  note i = rx_interrupt_inv [OF assms(1) inv assms(3) refl]
  obtain evs cs' k' bytes packets multi st' where sv: "rx_serve K cfg (rx_completed cfg budget (rring s)) (rx_kern s, (0, 0, 0), stats s)
      = (evs, cs', (k', (bytes, packets, multi), st'))"
    by (rule serve_cases)
  have log: "rx_log s' = rx_log s @ evs" using rx_interrupt_result [OF assms(1) inv sv, of io] assms(3) by auto
  have "snd (rx_slot (rring s') e) = snd (rx_slot (rring s) e)" if "e < rx_n (rring s)" for e using i(4) [OF that] by (auto split: if_splits)
  then have "rx_bufs (rring s') = rx_bufs (rring s)" "rx_maps cfg (rring s') = rx_maps cfg (rring s)"
    using same_holds [OF i(3)] by simp_all
  then show ?thesis using bal i(1) by (simp add: rx_sound_def inv_shape rx_balanced_def log serve_accounts [OF sv])
qed

lemma hw_cell_ok:
  assumes "rx_cell_ok cfg end0 c" "rx_hw_cell cfg c c'"
  shows "rx_cell_ok cfg end0 c'" "fst (snd c') = fst (snd c)" "fst (snd (snd c')) = fst (snd (snd c))"
  using assms by (auto simp: rx_hw_cell_def rx_cell_ok_def split: prod.splits)

lemma sound_hw:
  assumes "rx_sound cfg True s" "rx_hw cfg (rring s) (rring s')" "rx_log s' = rx_log s"
  shows "rx_sound cfg True s'"
proof -
  have inv: "rx_inv cfg (rring s)" and bal: "rx_balanced cfg s" using assms(1) by (simp_all add: rx_sound_def)
  note c = hw_cell_ok [of cfg "e = rx_n (rring s) - 1" "rx_slot (rring s) e" "rx_slot (rring s') e" for e]
  have inv': "rx_inv cfg (rring s')" using inv assms(2) c by (auto simp: rx_inv_def rx_hw_def rx_wf_def)
  have "rx_bufs (rring s') = rx_bufs (rring s)" "rx_maps cfg (rring s') = rx_maps cfg (rring s)"
    using same_holds [of "rring s'" "rring s"] c assms(2) inv by (simp_all add: rx_hw_def rx_inv_def)
  then show ?thesis using bal inv' assms(3) by (simp add: rx_sound_def inv_shape rx_balanced_def)
qed

lemma sound_clear:
  assumes "rx_sound cfg up s" "s' = snd (run_state (rx_clear_ring cfg) s)"
  shows "rx_sound cfg False s'" "allocated (rx_log s') = gone (rx_log s')" "rx_mapped (rx_log s') = rx_unmapped (rx_log s')"
proof -
  have sh: "rx_shape cfg (rring s)" and bal: "rx_balanced cfg s" using assms(1) by (simp_all add: rx_sound_def)
  then have wf: "rx_wf (rring s)" by (simp add: rx_shape_def)
  note c = clear_ring_result [OF wf assms(2)]
  show "rx_sound cfg False s'" "allocated (rx_log s') = gone (rx_log s')" "rx_mapped (rx_log s') = rx_unmapped (rx_log s')"
    using bal c(1,5) clear_shape [OF sh assms(2)]
    by (simp_all add: rx_sound_def rx_balanced_def empty_holds clear_accounts_ring)
qed

lemma reach_sound:
  assumes "rx_cfg_ok cfg" "rx_shape cfg (rring s0)" "rx_empty (rring s0)" "rx_log s0 = []" "rx_reach K cfg io s0 up s"
  shows "rx_sound cfg up s"
  using assms(5)
proof induction
  case start
  then show ?case using assms by (simp add: rx_sound_def rx_balanced_def empty_holds)
qed (use sound_init [OF assms(1)] sound_irq [OF assms(1)] sound_hw sound_clear(1) in blast)+

text \<open>
  Property C33.  Over any sequence of setting up, interrupts, completions by the controller and clearing: the
  buffers allocated are exactly those freed, those handed to the network stack and those in the ring, each
  once; the mappings made are those undone and those in the ring; a ring that is down holds none, and
  clearing gives everything back.  The ring size is a power of two (\<open>rx_wf\<close>).
\<close>

theorem rx_conservation:
  assumes "rx_cfg_ok cfg" "rx_shape cfg (rring s0)" "rx_empty (rring s0)" "rx_log s0 = []" "rx_reach K cfg io s0 up s"
  shows "allocated (rx_log s) = gone (rx_log s) + rx_bufs (rring s) \<and> rx_mapped (rx_log s) = rx_unmapped (rx_log s) + rx_maps cfg (rring s)
    \<and> (if up then rx_inv cfg (rring s) else rx_bufs (rring s) = {#} \<and> rx_maps cfg (rring s) = {#})
    \<and> (let l = rx_log (snd (run_state (rx_clear_ring cfg) s)) in allocated l = gone l \<and> rx_mapped l = rx_unmapped l)"
  using reach_sound [OF assms] sound_clear [OF reach_sound [OF assms] refl]
  by (simp add: rx_sound_def rx_balanced_def empty_holds Let_def split: if_splits)

section \<open>A small ring\<close>

definition demo_rx_kernel :: "nat rx_kernel" where
  "demo_rx_kernel = \<lparr>NET_IP_ALIGN = 2, rxk_alloc = (\<lambda>k n. (Some k, Suc k)), rxk_map = (\<lambda>k i n. (Some (of_nat i * 0x1000), k)),
     rxk_eth_type_trans = (\<lambda>b. (of_nat (length b), False))\<rparr>"

definition demo_rx_cfg :: rx_cfg where
  "demo_rx_cfg = \<lparr>rx_NAPI = False, rx_VLAN = False, InitRxDescType = RX_DESC_RING_TYPE_1, rx_buf_sz = 8, feature_rxall = False, feature_rxfcs = False\<rparr>"

text \<open>Two descriptors, the first with a completed frame of six bytes, the last four of them its checksum.\<close>

definition demo_rx_ring :: rx_ring where
  "demo_rx_ring = \<lparr>rx_index = 0, cur_rx = 4, dirty_rx = 4, num_rx_desc = 2, RxDescArray = [[0x30000006, 0, 0x1000, 0], [0xC0000008, 0, 0x2000, 0]],
     RxDescPhyAddr = [0x1000, 0x2000], Rx_skbuff = [Some 1, Some 2], rx_data = [[1, 2, 3, 4, 5, 6, 7, 8], [0, 0, 0, 0, 0, 0, 0, 0]]\<rparr>"

definition demo_rx_stats :: rx_stats where
  "demo_rx_stats = \<lparr>rx_errors = 0, rx_length_errors = 0, rx_crc_errors = 0, rx_dropped = 0, rx_bytes = 0, rx_packets = 0, multicast = 0\<rparr>"

definition demo_rxq :: "rx_ring \<Rightarrow> (unit, nat) rxq" where
  "demo_rxq r = \<lparr>rx_priv = demo_nic (), rx_kern = 3, rx_log = [], stats = demo_rx_stats, rring = r\<rparr>"

definition demo_rx_empty :: rx_ring where
  "demo_rx_empty = demo_rx_ring\<lparr>Rx_skbuff := [None, None]\<rparr>"

definition demo_rx_io :: "unit mmio" where
  "demo_rx_io = \<lparr>readb = (\<lambda>d r. (0, d)), readw = (\<lambda>d r. (0, d)), readl = (\<lambda>d r. (0, d)), writeb = (\<lambda>d r v. d), writew = (\<lambda>d r v. d),
     writel = (\<lambda>d r v. d), elapse = (\<lambda>d t. d), pci_read = (\<lambda>d a. (0, d)), pci_write = (\<lambda>d a v. d)\<rparr>"

lemma all_below_2: "(\<forall>e < (2 :: nat). P e) \<longleftrightarrow> P 0 \<and> P 1"
  by (auto simp: numeral_2_eq_2 less_Suc_eq)

lemma demo_rx_fields [simp]:
  "rring (demo_rxq r) = r" "rx_log (demo_rxq r) = []" "stats (demo_rxq r) = demo_rx_stats" "num_rx_desc demo_rx_ring = 2" "num_rx_desc demo_rx_empty = 2"
  by (simp_all add: demo_rxq_def demo_rx_ring_def demo_rx_empty_def)

lemma demo_rx_zero: "rx_packets demo_rx_stats = 0" "rx_dropped demo_rx_stats = 0" "rx_errors demo_rx_stats = 0" "feature_rxall demo_rx_cfg = False"
  by (simp_all add: demo_rx_stats_def demo_rx_cfg_def)

lemma demo_rx_ok: "rx_cfg_ok demo_rx_cfg" "rx_inv demo_rx_cfg demo_rx_ring" "rx_shape demo_rx_cfg demo_rx_empty" "rx_empty demo_rx_empty"
    "rx_kernel_gives demo_rx_kernel"
proof -
  show "rx_cfg_ok demo_rx_cfg" by (simp add: rx_cfg_ok_def demo_rx_cfg_def)
  have wf: "rx_wf demo_rx_ring" "rx_wf demo_rx_empty" by (simp_all add: rx_wf_def) (simp_all add: demo_rx_ring_def demo_rx_empty_def)
  have "rx_cell_ok demo_rx_cfg False (rx_slot demo_rx_ring 0)" "rx_cell_ok demo_rx_cfg True (rx_slot demo_rx_ring 1)" by code_simp+
  then show "rx_inv demo_rx_cfg demo_rx_ring" using wf by (simp add: rx_inv_def all_below_2) (simp add: demo_rx_ring_def)
  show "rx_shape demo_rx_cfg demo_rx_empty" "rx_empty demo_rx_empty"
    using wf by (simp_all add: rx_shape_def rx_empty_def all_below_2)
      (simp_all add: rx_slot_def demo_rx_empty_def demo_rx_ring_def demo_rx_cfg_def RX_DESC_LEN_def)
  show "rx_kernel_gives demo_rx_kernel" by (simp add: rx_kernel_gives_def demo_rx_kernel_def)
qed

lemma demo_completed: "rx_completed demo_rx_cfg b demo_rx_ring = [rx_slot demo_rx_ring 0]"
proof -
  have "unat (rtl8125_rx_quota demo_rx_cfg 2 b) = 2" by (simp add: rtl8125_rx_quota_def demo_rx_cfg_def)
  moreover have "window (rx_slot demo_rx_ring) 2 4 2 = [rx_slot demo_rx_ring 0, rx_slot demo_rx_ring 1]" "cur_rx demo_rx_ring = 4" by code_simp+
  moreover have "\<not> rx_owned demo_rx_cfg (rx_slot demo_rx_ring 0)" "rx_owned demo_rx_cfg (rx_slot demo_rx_ring 1)" by code_simp+
  ultimately show ?thesis by (simp add: rx_completed_def)
qed

theorem rx_interrupt_exact_witness:
  "\<exists>i. delivered (rx_log (snd (run_state (rtl8125_rx_interrupt demo_rx_kernel demo_rx_cfg demo_rx_io 64) (demo_rxq demo_rx_ring))))
     = [\<lparr>pk_id = i, pk_bytes = [1, 2], pk_csum = False, pk_vlan = None\<rparr>]"
proof -
  let ?o = "run_state (rtl8125_rx_interrupt demo_rx_kernel demo_rx_cfg demo_rx_io 64) (demo_rxq demo_rx_ring)"
  let ?c = "rx_slot demo_rx_ring 0"
  have v: "rx_verdict demo_rx_cfg (rtl8125_rx_desc_opts1 (InitRxDescType demo_rx_cfg) (fst ?c)) = Frame 2" by code_simp
  have p: "packet_of demo_rx_cfg i 2 ?c = \<lparr>pk_id = i, pk_bytes = [1, 2], pk_csum = False, pk_vlan = None\<rparr>" for i
    by (simp add: packet_of_def rx_slot_def demo_rx_ring_def demo_rx_cfg_def vlan_of_def rtl8125_rx_csum_def rtl8125_rx_v1_csum_def
        RxTCPT_def RxUDPT_def Let_def)
  have "\<forall>k sz. fst (rxk_alloc demo_rx_kernel k sz) \<noteq> None" by (simp add: demo_rx_kernel_def)
  then obtain q where "rx_outcome demo_rx_cfg ?c (Some q)" "delivered (rx_log (snd ?o)) = [q]"
    using rx_interrupt_exact [OF demo_rx_ok(1), of "demo_rxq demo_rx_ring" demo_rx_kernel demo_rx_io 64 "fst ?o" "snd ?o"] demo_rx_ok(2)
    by (auto simp: demo_completed list_all2_Cons1 rx_good_def v)
  then show ?thesis using p by (auto simp: rx_outcome_def v)
qed

lemma rx_frames_counted_witness:
  "let st = stats (snd (run_state (rtl8125_rx_interrupt demo_rx_kernel demo_rx_cfg demo_rx_io 64) (demo_rxq demo_rx_ring)))
   in rx_packets st + rx_dropped st + rx_errors st = 1"
  using rx_frames_counted [OF demo_rx_ok(1), of "demo_rxq demo_rx_ring" demo_rx_kernel demo_rx_io 64, OF _ prod.collapse [symmetric]] demo_rx_ok(2)
  by (simp add: demo_completed demo_rx_zero Let_def)

theorem rx_init_exact_witness:
  "let o' = run_state (rx_init_ring demo_rx_kernel demo_rx_cfg) (demo_rxq demo_rx_empty) in fst o' \<and> rx_inv demo_rx_cfg (rring (snd o'))"
  using rx_init_exact [OF demo_rx_ok(1), of "demo_rxq demo_rx_empty" demo_rx_kernel, OF _ prod.collapse [symmetric]] demo_rx_ok(3,5)
  by (simp add: Let_def)

theorem rx_conservation_witness:
  "let s = snd (run_state (rx_init_ring demo_rx_kernel demo_rx_cfg) (demo_rxq demo_rx_empty)); l = rx_log (snd (run_state (rx_clear_ring demo_rx_cfg) s))
   in rx_inv demo_rx_cfg (rring s) \<and> allocated (rx_log s) = gone (rx_log s) + rx_bufs (rring s) \<and> allocated l = gone l"
proof -
  let ?o = "run_state (rx_init_ring demo_rx_kernel demo_rx_cfg) (demo_rxq demo_rx_empty)"
  have "fst ?o"
    using init_failure(3) [OF demo_rx_ok(1), of "demo_rxq demo_rx_empty" demo_rx_kernel "snd ?o"] demo_rx_ok(3,5)
    by (cases "fst ?o") (simp_all add: prod_eq_iff)
  then have "rx_reach demo_rx_kernel demo_rx_cfg demo_rx_io (demo_rxq demo_rx_empty) True (snd ?o)"
    using rx_reach.init [OF rx_reach.start, of demo_rx_kernel demo_rx_cfg "demo_rxq demo_rx_empty" True "snd ?o" demo_rx_io] by (simp add: prod_eq_iff)
  from rx_conservation [OF demo_rx_ok(1) _ _ _ this] show ?thesis using demo_rx_ok(3,4) by (simp add: Let_def)
qed

end
