(* ===== verification/Adapter.thy ===== *)
theory Adapter
  imports TxXmit RxServe
begin

text \<open>
  The driver as a whole at run time (\<open>r8125_n.c\<close>): the interrupt handlers, setting up and taking down the rings,
  over the transmit and receive rings and the controller's registers.  The adapter has the driver's
  private state, its rings with their logs and what the rings share: the kernel, the carrier, the
  statistics.  An operation of one ring sees the shared state and its ring as the queue it is written for
  (\<open>on_tx\<close>, \<open>on_rx\<close>).

  The build options are those of the repository's \<open>Makefile\<close>: no NAPI, no DASH, one receive ring, one transmit
  queue (a message of the later interrupt versions serves ring 0); the loops over rings keep their bounds as variables.
\<close>

section \<open>The adapter\<close>

record tx_part =
  tp_log :: "net_event list"
  tp_stopped :: bool
  tp_ring :: tx_ring

record rx_part =
  rp_log :: "rx_event list"
  rp_ring :: rx_ring

record ('d, 'k, 'l) adapter =
  a_nic :: "'d nic"
  a_kern :: 'k
  a_rx_kern :: 'l
  a_carrier :: bool
  a_tx_dropped :: u64
  a_tx_bytes :: u64
  a_tx_packets :: u64
  a_stats :: rx_stats
  a_tx :: "tx_part list"
  a_rx :: "rx_part list"
  linkchg_work :: bool

type_synonym ('d, 'k, 'l, 'a) adp = "(('d, 'k, 'l) adapter, 'a) state"

definition txq_of :: "('d, 'k, 'l) adapter \<Rightarrow> nat \<Rightarrow> ('d, 'k) txq" where
  "txq_of s i = \<lparr>priv = a_nic s, kern = a_kern s, net_log = tp_log (a_tx s ! i), carrier = a_carrier s, tx_dropped = a_tx_dropped s,
     tx_bytes = a_tx_bytes s, tx_packets = a_tx_packets s, q_stopped = tp_stopped (a_tx s ! i), ring = tp_ring (a_tx s ! i)\<rparr>"

definition put_txq :: "nat \<Rightarrow> ('d, 'k) txq \<Rightarrow> ('d, 'k, 'l) adapter \<Rightarrow> ('d, 'k, 'l) adapter" where
  "put_txq i q s = s\<lparr>a_nic := priv q, a_kern := kern q, a_carrier := carrier q, a_tx_dropped := tx_dropped q,
     a_tx_bytes := tx_bytes q, a_tx_packets := tx_packets q,
     a_tx := (a_tx s)[i := \<lparr>tp_log = net_log q, tp_stopped = q_stopped q, tp_ring = ring q\<rparr>]\<rparr>"

definition rxq_of :: "('d, 'k, 'l) adapter \<Rightarrow> nat \<Rightarrow> ('d, 'l) rxq" where
  "rxq_of s i = \<lparr>rx_priv = a_nic s, rx_kern = a_rx_kern s, rx_log = rp_log (a_rx s ! i), stats = a_stats s, rring = rp_ring (a_rx s ! i)\<rparr>"

definition put_rxq :: "nat \<Rightarrow> ('d, 'l) rxq \<Rightarrow> ('d, 'k, 'l) adapter \<Rightarrow> ('d, 'k, 'l) adapter" where
  "put_rxq i q s = s\<lparr>a_nic := rx_priv q, a_rx_kern := rx_kern q, a_stats := stats q,
     a_rx := (a_rx s)[i := \<lparr>rp_log = rx_log q, rp_ring = rring q\<rparr>]\<rparr>"

definition on_tx :: "nat \<Rightarrow> (('d, 'k) txq, 'a) state \<Rightarrow> ('d, 'k, 'l, 'a) adp" where
  "on_tx i m = State (\<lambda>s. let (x, q) = run_state m (txq_of s i) in (x, put_txq i q s))"

definition on_rx :: "nat \<Rightarrow> (('d, 'l) rxq, 'a) state \<Rightarrow> ('d, 'k, 'l, 'a) adp" where
  "on_rx i m = State (\<lambda>s. let (x, q) = run_state m (rxq_of s i) in (x, put_rxq i q s))"

definition on_dev :: "('d, 'a) drv \<Rightarrow> ('d, 'k, 'l, 'a) adp" where
  "on_dev m = State (\<lambda>s. let (x, p) = run_state m (a_nic s) in (x, s\<lparr>a_nic := p\<rparr>))"

text \<open>\<open>for (i = 0; i < n; i++)\<close> over the rings.\<close>

fun each_ring :: "nat list \<Rightarrow> (nat \<Rightarrow> ('d, 'k, 'l, 'a) adp) \<Rightarrow> ('d, 'k, 'l, unit) adp" where
  "each_ring [] f = State_Monad.return ()"
| "each_ring (i # is) f = do { f i; each_ring is f }"

section \<open>Interrupts\<close>

abbreviation (input) RTL_FEATURE_MSI :: u32 where "RTL_FEATURE_MSI \<equiv> 0x2"
abbreviation (input) RTL_FEATURE_MSIX :: u32 where "RTL_FEATURE_MSIX \<equiv> 0x4"
abbreviation (input) RxFIFOOver :: u32 where "RxFIFOOver \<equiv> 0x0040"

definition RTK_KEEP_INTERRUPT_COUNT :: u32 where "RTK_KEEP_INTERRUPT_COUNT = 10"

definition rtl8125_enable_hw_interrupt_v2 :: "'d mmio \<Rightarrow> nat \<Rightarrow> ('d, unit) drv" where
  "rtl8125_enable_hw_interrupt_v2 io message_id = RTL_W32 io IMR_V2_SET_REG_8125 (push_bit message_id 1)"

definition rtl8125_disable_hw_interrupt_v2 :: "'d mmio \<Rightarrow> nat \<Rightarrow> ('d, unit) drv" where
  "rtl8125_disable_hw_interrupt_v2 io message_id = RTL_W32 io IMR_V2_CLEAR_REG_8125 (push_bit message_id 1)"

definition rtl8125_linkchg_interrupt :: "u8 \<Rightarrow> u32 \<Rightarrow> bool" where
  "rtl8125_linkchg_interrupt ver status =
     (if ver = 2 \<or> ver = 3 then status AND push_bit 21 1 \<noteq> 0
      else if ver = 4 then status AND push_bit 29 1 \<noteq> 0
      else if ver = 5 then status AND push_bit 18 1 \<noteq> 0
      else if ver = 7 then status AND push_bit 29 1 \<noteq> 0
      else status AND 0x0020 \<noteq> 0)"

definition rtl8125_get_linkchg_message_id :: "u8 \<Rightarrow> nat" where
  "rtl8125_get_linkchg_message_id ver = (if ver = 4 \<or> ver = 7 then 29 else if ver = 5 then 18 else 21)"

text \<open>The pending bit of the link work; scheduling work that is pending changes nothing.\<close>

definition rtl8125_schedule_linkchg_work :: "('d, 'k, 'l, unit) adp" where
  "rtl8125_schedule_linkchg_work = modify (\<lambda>s. s\<lparr>linkchg_work := True\<rparr>)"

text \<open>\<open>status & tp->intr_mask || tp->keep_intr_cnt-- > 0\<close>, with the count set again in the first case.\<close>

definition interrupt_due :: "u32 \<Rightarrow> ('d, bool) drv" where
  "interrupt_due status = State (\<lambda>s.
     if status AND intr_mask s \<noteq> 0 then (True, s\<lparr>keep_intr_cnt := RTK_KEEP_INTERRUPT_COUNT\<rparr>)
     else (0 < keep_intr_cnt s, s\<lparr>keep_intr_cnt := keep_intr_cnt s - 1\<rparr>))"

text \<open>The result tells whether the interrupt was the driver's; \<open>timer_count\<close> is the module's variable.\<close>

definition rtl8125_interrupt :: "'k kernel \<Rightarrow> tx_cfg \<Rightarrow> 'l rx_kernel \<Rightarrow> rx_cfg \<Rightarrow> u32 \<Rightarrow> 'd mmio \<Rightarrow> ('d, 'k, 'l, bool) adp" where
  "rtl8125_interrupt K cfg Kr rcfg timer_count io = do {
     isr \<leftarrow> on_dev (gets isr_reg);
     status \<leftarrow> on_dev (RTL_R32 io (unat (isr 0)));
     p \<leftarrow> gets a_nic;
     if features p AND (RTL_FEATURE_MSI OR RTL_FEATURE_MSIX) = 0
       \<and> (status = 0 \<or> status = 0xFFFFFFFF \<or> status AND (intr_mask p OR timer_intr_mask p) = 0)
     then State_Monad.return False
     else if \<not> irq_requested p 0 then State_Monad.return True
     else do {
       on_dev (rtl8125_disable_hw_interrupt io);
       on_dev (RTL_W32 io (unat (isr 0)) (status AND NOT RxFIFOOver));
       (if rtl8125_linkchg_interrupt (HwCurrIsrVer p) status then rtl8125_schedule_linkchg_work else State_Monad.return ());
       due \<leftarrow> on_dev (interrupt_due status);
       (if due then do {
          each_ring [0..<num_tx_rings p] (\<lambda>i. on_tx i (rtl8125_tx_interrupt K cfg io));
          on_rx 0 (rtl8125_rx_interrupt Kr rcfg io 0xFFFFFFFF);
          on_dev (rtl8125_switch_to_timer_interrupt io timer_count)
        }
        else do {
          on_dev (modify (\<lambda>s. s\<lparr>keep_intr_cnt := RTK_KEEP_INTERRUPT_COUNT\<rparr>));
          on_dev (rtl8125_switch_to_hw_interrupt io)
        });
       State_Monad.return True
     }
   }"

text \<open>The transmit ring of a message, if there is one.\<close>

definition tx_vector :: "u8 \<Rightarrow> nat \<Rightarrow> nat \<Rightarrow> nat option" where
  "tx_vector ver tx_rings message_id =
     (if ver = 3 \<or> ver = 4 then (if message_id < tx_rings then Some message_id else None)
      else if ver = 5 then (if message_id = 16 then Some 0 else None)
      else if ver = 7 then (if message_id = 27 then Some 0 else None)
      else (if message_id = 16 then Some 0 else None))"

definition rtl8125_tx_interrupt_with_vector :: "'k kernel \<Rightarrow> tx_cfg \<Rightarrow> 'd mmio \<Rightarrow> nat \<Rightarrow> ('d, 'k, 'l, u32) adp" where
  "rtl8125_tx_interrupt_with_vector K cfg io message_id = do {
     p \<leftarrow> gets a_nic;
     case tx_vector (HwCurrIsrVer p) (num_tx_rings p) message_id of
       None \<Rightarrow> State_Monad.return 0
     | Some i \<Rightarrow> on_tx i (rtl8125_tx_interrupt K cfg io)
   }"

definition rtl8125_interrupt_msix :: "'k kernel \<Rightarrow> tx_cfg \<Rightarrow> 'l rx_kernel \<Rightarrow> rx_cfg \<Rightarrow> 'd mmio \<Rightarrow> nat \<Rightarrow> ('d, 'k, 'l, unit) adp" where
  "rtl8125_interrupt_msix K cfg Kr rcfg io message_id = do {
     p \<leftarrow> gets a_nic;
     if \<not> irq_requested p message_id then State_Monad.return ()
     else if message_id = rtl8125_get_linkchg_message_id (HwCurrIsrVer p) then do {
       on_dev (rtl8125_disable_hw_interrupt_v2 io message_id);
       on_dev (rtl8125_clear_hw_isr_v2 io message_id);
       rtl8125_schedule_linkchg_work
     }
     else do {
       on_dev (rtl8125_disable_hw_interrupt_v2 io message_id);
       on_dev (rtl8125_clear_hw_isr_v2 io message_id);
       rtl8125_tx_interrupt_with_vector K cfg io message_id;
       (if message_id < num_rx_rings p then do { on_rx message_id (rtl8125_rx_interrupt Kr rcfg io 0xFFFFFFFF); State_Monad.return () }
        else State_Monad.return ());
       on_dev (rtl8125_enable_hw_interrupt_v2 io message_id)
     }
   }"

section \<open>Up and down\<close>

text \<open>What \<open>rtl8125_init_ring\<close> does for a transmit ring: the indexes, the descriptors, the bookkeeping.\<close>

definition tx_ring_blank :: "nat \<Rightarrow> tx_ring \<Rightarrow> tx_ring" where
  "tx_ring_blank i r = r\<lparr>dirty_tx := 0, cur_tx := 0, NextHwDesCloPtr := 0, BeginHwDesCloPtr := 0, tx_index := i,
     TxDescArray := (replicate (length (TxDescArray r)) \<lparr>td_opts1 = 0, td_opts2 = 0, td_addr = 0\<rparr>)
       [unat (num_tx_desc r - 1) := \<lparr>td_opts1 = RingEnd, td_opts2 = 0, td_addr = 0\<rparr>],
     tx_skb := replicate (length (tx_skb r)) \<lparr>ri_skb = None, ri_len = 0, ri_bytecount = 0, ri_gso_segs = 0\<rparr>\<rparr>"

definition tx_init_ring :: "'k kernel \<Rightarrow> nat \<Rightarrow> (('d, 'k) txq, unit) state" where
  "tx_init_ring K i = do {
     upd_ring (tx_ring_blank i);
     net_ev BqlReset;
     modify (\<lambda>s. s\<lparr>kern := k_tx_reset K (kern s)\<rparr>)
   }"

text \<open>With one receive ring; the result tells whether it was set up (\<open>-ENOMEM\<close> otherwise).\<close>

definition rtl8125_init_ring :: "'k kernel \<Rightarrow> 'l rx_kernel \<Rightarrow> rx_cfg \<Rightarrow> ('d, 'k, 'l, bool) adp" where
  "rtl8125_init_ring K Kr rcfg = do {
     p \<leftarrow> gets a_nic;
     each_ring [0..<num_tx_rings p] (\<lambda>i. on_tx i (tx_init_ring K i));
     on_rx 0 (rx_init_ring Kr rcfg)
   }"

definition rtl8125_tx_clear :: "('d, 'k, 'l, unit) adp" where
  "rtl8125_tx_clear = do { p \<leftarrow> gets a_nic; each_ring [0..<num_tx_rings p] (\<lambda>i. on_tx i tx_clear_ring) }"

definition rtl8125_rx_clear :: "rx_cfg \<Rightarrow> ('d, 'k, 'l, unit) adp" where
  "rtl8125_rx_clear rcfg = do { p \<leftarrow> gets a_nic; each_ring [0..<num_rx_rings p] (\<lambda>i. on_rx i (rx_clear_ring rcfg)) }"

text \<open>\<open>synchronize_net\<close> and \<open>rtl8125_wait_for_irq_complete\<close> wait for other processors.\<close>

definition rtl8125_wait_for_quiescence :: "'d mmio \<Rightarrow> ('d, unit) drv" where
  "rtl8125_wait_for_quiescence io = rtl8125_irq_mask_and_ack io"

definition rtl8125_down :: "rx_cfg \<Rightarrow> 'd mmio \<Rightarrow> ('d, 'k, 'l, unit) adp" where
  "rtl8125_down rcfg io = do {
     modify (\<lambda>s. s\<lparr>a_carrier := False\<rparr>);
     modify (\<lambda>s. s\<lparr>a_tx := map (\<lambda>p. p\<lparr>tp_stopped := True\<rparr>) (a_tx s)\<rparr>);
     on_dev (rtl8125_wait_for_quiescence io);
     on_dev (rtl8125_hw_reset io);
     rtl8125_tx_clear;
     rtl8125_rx_clear rcfg
   }"

section \<open>What the rings do to the controller\<close>

text \<open>\<open>stays I m\<close>: \<open>m\<close> keeps \<open>I\<close>.\<close>

definition stays :: "('s \<Rightarrow> bool) \<Rightarrow> ('s, 'a) state \<Rightarrow> bool" where
  "stays I m \<longleftrightarrow> valid I m (\<lambda>_. I)"

named_theorems stays_rules \<open>routines that keep a property of the state\<close>

lemma stays_bind [stays_rules]: "stays I m \<Longrightarrow> (\<And>x. stays I (f x)) \<Longrightarrow> stays I (State_Monad.bind m f)"
  unfolding stays_def by (rule valid_bind)

lemma stays_basic [stays_rules]: "stays I (State_Monad.return x)" "stays I (gets f)"
  by (simp_all add: stays_def valid_def)

lemma stays_if [stays_rules]: "(b \<Longrightarrow> stays I m) \<Longrightarrow> (\<not> b \<Longrightarrow> stays I m') \<Longrightarrow> stays I (if b then m else m')"
  by simp

lemma stays_option [stays_rules]: "stays I m \<Longrightarrow> (\<And>x. stays I (f x)) \<Longrightarrow> stays I (case z of None \<Rightarrow> m | Some x \<Rightarrow> f x)"
  by (cases z) simp_all

lemma stays_prod [stays_rules]: "(\<And>x y. stays I (f x y)) \<Longrightarrow> stays I (case z of (x, y) \<Rightarrow> f x y)"
  by (cases z) simp

lemma stays_let [stays_rules]: "(\<And>x. stays I (f x)) \<Longrightarrow> stays I (let x = e in f x)"
  by (simp add: Let_def)

lemma staysD: "stays I m \<Longrightarrow> run_state m s = (x, s') \<Longrightarrow> I s \<Longrightarrow> I s'"
  unfolding stays_def by (rule validD)

lemma stays_step:
  assumes "\<And>s. I (snd (run_state m s)) = I s"
  shows "stays I m"
  using assms by (simp add: stays_def valid_def)

text \<open>
  A fact about the driver's private state that no read of a register and no write to the transmit doorbell changes.
\<close>

locale dev_fact =
  fixes J :: "'d nic \<Rightarrow> bool" and io :: "'d mmio"
  assumes reads: "stays J (RTL_R8 io r)" "stays J (RTL_R16 io r)" "stays J (RTL_R32 io r)"
    and bell: "stays J (RTL_W16 io TPPOLL_8125 v)"
begin

lemma nic_of: "stays J m \<Longrightarrow> stays (\<lambda>s. J (priv s)) (on_nic m)" "stays J m \<Longrightarrow> stays (\<lambda>s. J (rx_priv s)) (on_rx_nic m)"
  by (auto simp: stays_def valid_def on_nic_def on_rx_nic_def split_beta)

lemma tx_steps:
  "stays (\<lambda>s. J (priv s)) (upd_ring f)" "stays (\<lambda>s. J (priv s)) (net_ev e)" "stays (\<lambda>s. J (priv s)) (clear_skb i)"
  "stays (\<lambda>s. J (priv s)) (tx_account K tot)" "stays (\<lambda>s. J (priv s)) (tx_wake K)"
  by (rule stays_step; simp add: upd_ring_def net_ev_def clear_skb_def tx_account_def tx_wake_def)+

lemma tx_unmap: "stays (\<lambda>s. J (priv s)) (rtl8125_unmap_tx_skb i)"
  unfolding rtl8125_unmap_tx_skb_def by (intro stays_rules tx_steps)

lemma tx_reclaim: "stays (\<lambda>s. J (priv s)) (reclaim_entry i tot)"
  unfolding reclaim_entry_def by (intro stays_rules tx_steps tx_unmap)

lemma tx_noclose_loop: "stays (\<lambda>s. J (priv s)) (noclose_loop d n tot)"
proof (induction n arbitrary: d tot)
  case 0
  show ?case unfolding noclose_loop.simps [of d 0] by (simp add: stays_basic)
next
  case (Suc n)
  show ?case unfolding noclose_loop.simps [of d "Suc n"] by (intro stays_rules tx_reclaim) (simp_all add: Suc)
qed

lemma tx_close_loop: "stays (\<lambda>s. J (priv s)) (close_loop d n tot)"
proof (induction n arbitrary: d tot)
  case 0
  show ?case unfolding close_loop.simps [of d 0] by (simp add: stays_basic)
next
  case (Suc n)
  show ?case unfolding close_loop.simps [of d "Suc n"] by (intro stays_rules tx_reclaim) (simp_all add: Suc)
qed

lemma tx_pointer: "stays J (rtl8125_get_hw_clo_ptr io cfg r)"
  unfolding rtl8125_get_hw_clo_ptr_def by (intro stays_rules reads)

lemma tx_bell: "\<not> EnableTxNoClose cfg \<Longrightarrow> stays (\<lambda>s. J (priv s)) (rtl8125_doorbell io cfg)"
  unfolding rtl8125_doorbell_def by (intro stays_rules nic_of bell) simp_all

lemma tx_interrupt: "stays (\<lambda>s. J (priv s)) (rtl8125_tx_interrupt K cfg io)"
  unfolding rtl8125_tx_interrupt_def rtl8125_tx_interrupt_noclose_def rtl8125_tx_interrupt_close_def
  by (intro stays_rules tx_steps tx_noclose_loop tx_close_loop nic_of tx_pointer tx_bell)

lemma rx_steps:
  "stays (\<lambda>s. J (rx_priv s)) (rx_ev e)" "stays (\<lambda>s. J (rx_priv s)) (upd_rring f)" "stays (\<lambda>s. J (rx_priv s)) (upd_stats g)"
  "stays (\<lambda>s. J (rx_priv s)) (upd_desc i h)" "stays (\<lambda>s. J (rx_priv s)) (alloc_skb K n)" "stays (\<lambda>s. J (rx_priv s)) (map_skb K i n)"
  by (rule stays_step; simp add: rx_ev_def upd_rring_def upd_stats_def upd_desc_def alloc_skb_def map_skb_def split_beta split: option.splits)+

lemma rx_fill_steps: "stays (\<lambda>s. J (rx_priv s)) (rx_fill_loop K cfg cur n)"
proof (induction n arbitrary: cur)
  case 0
  show ?case unfolding rx_fill_loop.simps [of _ _ _ 0] by (simp add: stays_basic)
next
  case (Suc n)
  show ?case
    unfolding rx_fill_loop.simps [of _ _ _ "Suc n"] rtl8125_alloc_rx_skb_def rtl8125_map_to_asic_def
    by (intro stays_rules rx_steps) (simp_all add: Suc)
qed

lemma rx_clear_steps: "stays (\<lambda>s. J (rx_priv s)) (rx_clear_loop cfg i n)"
proof (induction n arbitrary: i)
  case 0
  show ?case unfolding rx_clear_loop.simps [of _ _ 0] by (simp add: stays_basic)
next
  case (Suc n)
  show ?case
    unfolding rx_clear_loop.simps [of _ _ "Suc n"] rtl8125_free_rx_skb_def by (intro stays_rules rx_steps) (simp_all add: Suc)
qed

lemma rx_clear: "stays (\<lambda>s. J (rx_priv s)) (rx_clear_ring cfg)"
  unfolding rx_clear_ring_def by (intro stays_rules rx_clear_steps)

lemma rx_init: "stays (\<lambda>s. J (rx_priv s)) (rx_init_ring K cfg)"
  unfolding rx_init_ring_def rx_init_buffers_def rtl8125_rx_fill_def by (intro stays_rules rx_steps rx_fill_steps rx_clear)

lemma rx_release: "stays (\<lambda>s. J (rx_priv s)) (release_descriptor cfg e)"
  unfolding release_descriptor_def by (intro stays_rules rx_steps)

lemma rx_serving: "stays (\<lambda>s. J (rx_priv s)) (rx_frame K cfg e status tot)"
proof -
  have check: "stays (\<lambda>s. J (rx_priv s)) (rtl8125_check_rx_desc_error t status)" for t :: rx_desc_ring_type
    unfolding rtl8125_check_rx_desc_error_def by (cases t; simp only: rx_desc_ring_type.case; intro stays_rules rx_steps)
  show ?thesis
    unfolding rx_frame_def rx_accept_def rx_deliver_def drop_packet_def rtl8125_rx_vlan_skb_def
    by (intro stays_rules rx_steps rx_release check)
qed

lemma rx_looping: "stays (\<lambda>s. J (rx_priv s)) (rx_loop K cfg io n cur tot)"
proof (induction n arbitrary: cur tot)
  case 0
  show ?case unfolding rx_loop.simps [of _ _ _ 0] by (simp add: stays_basic)
next
  case (Suc n)
  show ?case
    unfolding rx_loop.simps [of _ _ _ "Suc n"] rx_status_def by (intro stays_rules rx_serving nic_of reads) (simp_all add: Suc)
qed

lemma rx_interrupt: "stays (\<lambda>s. J (rx_priv s)) (rtl8125_rx_interrupt K cfg io budget)"
  unfolding rtl8125_rx_interrupt_def rtl8125_rx_fill_def by (intro stays_rules rx_steps rx_fill_steps rx_looping)

end

text \<open>A fact that no write changes either.\<close>

locale dev_fact_all = dev_fact +
  assumes writes: "stays J (RTL_W16 io r v16)" "stays J (RTL_W32 io r v32)"
begin

lemma tx_more:
  "stays (\<lambda>s. J (priv s)) (dma_map_single K a l)" "stays (\<lambda>s. J (priv s)) (put_txd i st o2 m l)" "stays (\<lambda>s. J (priv s)) netif_stop_subqueue"
  "stays (\<lambda>s. J (priv s)) netif_start_subqueue" "stays (\<lambda>s. J (priv s)) (modify (\<lambda>s. s\<lparr>tx_dropped := f s\<rparr>))"
  "stays (\<lambda>s. J (priv s)) (modify (\<lambda>s. s\<lparr>kern := g s\<rparr>))"
  by (rule stays_step; simp add: dma_map_single_def put_txd_def upd_ring_def netif_stop_subqueue_def netif_start_subqueue_def split_beta split: option.splits)+

lemma tx_any_bell: "stays (\<lambda>s. J (priv s)) (rtl8125_doorbell io cfg)"
  unfolding rtl8125_doorbell_def by (intro stays_rules nic_of writes)

lemma tx_clearing: "stays (\<lambda>s. J (priv s)) (rtl8125_tx_clear_range d n)"
proof (induction n arbitrary: d)
  case 0
  show ?case unfolding rtl8125_tx_clear_range.simps [of d 0] by (simp add: stays_basic)
next
  case (Suc n)
  show ?case
    unfolding rtl8125_tx_clear_range.simps [of d "Suc n"] tx_clear_entry_def
    by (intro stays_rules tx_unmap tx_steps tx_more) (simp_all add: Suc)
qed

lemma tx_clear: "stays (\<lambda>s. J (priv s)) tx_clear_ring"
  unfolding tx_clear_ring_def by (intro stays_rules tx_clearing tx_steps)

lemma tx_init: "stays (\<lambda>s. J (priv s)) (tx_init_ring K i)"
  unfolding tx_init_ring_def by (intro stays_rules tx_steps tx_more)

lemma tx_frags: "stays (\<lambda>s. J (priv s)) (xmit_frags_loop K cfg frags opts i e cnt)"
proof (induction "length frags - i" arbitrary: i e cnt rule: less_induct)
  case less
  have further: "stays (\<lambda>s. J (priv s)) (xmit_frags_loop K cfg frags opts (i + j) e cnt)" if "\<not> length frags \<le> i" "0 < j" for j e cnt
    using that by (intro less) linarith
  show ?case
    unfolding xmit_frags_loop.simps [of K cfg frags opts i e cnt] xmit_frags_err_def
    by (intro stays_rules tx_clearing tx_more further) simp_all
qed

lemma tx_offload: "stays (\<lambda>s. J (priv s)) (rtl8125_tso_csum K cfg b opts n)"
proof -
  have 1: "stays (\<lambda>s. J (priv s)) (msdn_giant_send_check K b)" "stays (\<lambda>s. J (priv s)) (rtl8125_skb_pad K b)"
    "stays (\<lambda>s. J (priv s)) (csum_finish K sw cmd b opts n)"
    "stays (\<lambda>s. J (priv s)) (State (\<lambda>s. pad_result (skb_id b) (k_padto K (kern s) b l) s))" for b sw cmd opts l
    by (rule stays_step; simp add: msdn_giant_send_check_def rtl8125_skb_pad_def csum_finish_def pad_result_def split_beta split: option.splits bool.splits)+
  show ?thesis
    unfolding rtl8125_tso_csum_def tso_branch_def patch_pad_def short_pad_def rtl8125_skb_pad_with_len_def by (intro stays_rules 1)
qed

lemma tx_xmit: "stays (\<lambda>s. J (priv s)) (rtl8125_start_xmit K cfg io b)"
  unfolding rtl8125_start_xmit_def err_stop_def err_dma_0_def xmit_body_def rtl8125_xmit_frags_def xmit_commit_def
  by (intro stays_rules tx_offload tx_frags tx_more tx_steps tx_clearing tx_any_bell)

end

section \<open>The two facts\<close>

text \<open>How many rings there are; and what has been written since some state, but for doorbells.\<close>

definition bells :: "io_event list \<Rightarrow> bool" where
  "bells D \<longleftrightarrow> (\<forall>e \<in> set D. \<exists>v. e = Wr16 TPPOLL_8125 v)"

definition rang :: "'d nic \<Rightarrow> io_event list \<Rightarrow> 'd nic \<Rightarrow> bool" where
  "rang n W p \<longleftrightarrow> (\<exists>D. bells D \<and> wrote n (W @ D) p)"

interpretation counts: dev_fact_all "\<lambda>p. num_tx_rings p = a \<and> num_rx_rings p = b" io for a b io
  by unfold_locales (rule stays_step; simp add: RTL_R8_def RTL_R16_def RTL_R32_def RTL_W16_def RTL_W32_def split_beta)+

interpretation bell: dev_fact "rang n W" io for n W io
proof
  have r: "stays (rang n W) m" if "\<And>W. valid (wrote n W) m (\<lambda>_. wrote n W)" for m :: "('a, 'b) drv"
    using that unfolding stays_def rang_def valid_def by blast
  show "stays (rang n W) (RTL_R8 io r)" "stays (rang n W) (RTL_R16 io r)" "stays (rang n W) (RTL_R32 io r)" for r
    by (rule r, rule emits_access)+
  fix v
  show "stays (rang n W) (RTL_W16 io TPPOLL_8125 v)"
    unfolding stays_def rang_def
  proof (rule valid_ex)
    fix D
    show "valid (\<lambda>p. bells D \<and> wrote n (W @ D) p) (RTL_W16 io TPPOLL_8125 v) (\<lambda>_ p. \<exists>D. bells D \<and> wrote n (W @ D) p)"
    proof (rule valid_runI)
      fix p x p'
      assume p: "bells D \<and> wrote n (W @ D) p" and run: "run_state (RTL_W16 io TPPOLL_8125 v) p = (x, p')"
      have "wrote n (W @ D @ [Wr16 TPPOLL_8125 v]) p'" using validD [OF emits_access(6) conjunct2 [OF p] run] by simp
      with p show "\<exists>D. bells D \<and> wrote n (W @ D) p'" by (intro exI [of _ "D @ [Wr16 TPPOLL_8125 v]"]) (auto simp: bells_def)
    qed
  qed
qed

section \<open>Operations of the parts on the whole\<close>

lemma run_on [simp]:
  "run_state (on_dev m) s = (fst (run_state m (a_nic s)), s\<lparr>a_nic := snd (run_state m (a_nic s))\<rparr>)"
  "run_state (on_tx i mt) s = (fst (run_state mt (txq_of s i)), put_txq i (snd (run_state mt (txq_of s i))) s)"
  "run_state (on_rx i mr) s = (fst (run_state mr (rxq_of s i)), put_rxq i (snd (run_state mr (rxq_of s i))) s)"
  by (simp_all add: on_dev_def on_tx_def on_rx_def split_beta Let_def)

lemma part_simps [simp]:
  "a_nic (put_txq i q s) = priv q" "a_rx (put_txq i q s) = a_rx s" "linkchg_work (put_txq i q s) = linkchg_work s"
  "a_tx (put_txq i q s) = (a_tx s)[i := \<lparr>tp_log = net_log q, tp_stopped = q_stopped q, tp_ring = ring q\<rparr>]"
  "a_nic (put_rxq i r s) = rx_priv r" "a_tx (put_rxq i r s) = a_tx s" "linkchg_work (put_rxq i r s) = linkchg_work s"
  "a_rx (put_rxq i r s) = (a_rx s)[i := \<lparr>rp_log = rx_log r, rp_ring = rring r\<rparr>]"
  "priv (txq_of s i) = a_nic s" "net_log (txq_of s i) = tp_log (a_tx s ! i)" "ring (txq_of s i) = tp_ring (a_tx s ! i)"
  "q_stopped (txq_of s i) = tp_stopped (a_tx s ! i)"
  "rx_priv (rxq_of s i) = a_nic s" "rx_log (rxq_of s i) = rp_log (a_rx s ! i)" "rring (rxq_of s i) = rp_ring (a_rx s ! i)"
  by (simp_all add: put_txq_def put_rxq_def txq_of_def rxq_of_def)

lemma stays_on:
  "stays J m \<Longrightarrow> stays (\<lambda>s. J (a_nic s)) (on_dev m)"
  "stays (\<lambda>q. J (priv q)) mt \<Longrightarrow> stays (\<lambda>s. J (a_nic s)) (on_tx i mt)"
  "stays (\<lambda>q. J (rx_priv q)) mr \<Longrightarrow> stays (\<lambda>s. J (a_nic s)) (on_rx i mr)"
  by (simp_all add: stays_def valid_def)

lemma stays_each [stays_rules]: "(\<And>i. stays I (f i)) \<Longrightarrow> stays I (each_ring is f)"
  by (induction "is") (simp_all add: stays_basic stays_bind)

text \<open>A part on which a routine has been run, whatever the shared state was at that time.\<close>

definition tx_ran :: "(('d, 'k) txq, 'a) state \<Rightarrow> tx_part \<Rightarrow> tx_part \<Rightarrow> bool" where
  "tx_ran m p p' \<longleftrightarrow> (\<exists>q q'. net_log q = tp_log p \<and> q_stopped q = tp_stopped p \<and> ring q = tp_ring p
     \<and> snd (run_state m q) = q' \<and> p' = \<lparr>tp_log = net_log q', tp_stopped = q_stopped q', tp_ring = ring q'\<rparr>)"

definition rx_ran :: "(('d, 'l) rxq, 'a) state \<Rightarrow> rx_part \<Rightarrow> rx_part \<Rightarrow> bool" where
  "rx_ran m p p' \<longleftrightarrow> (\<exists>q q'. rx_log q = rp_log p \<and> rring q = rp_ring p \<and> snd (run_state m q) = q' \<and> p' = \<lparr>rp_log = rx_log q', rp_ring = rring q'\<rparr>)"

abbreviation tx_served :: "'k kernel \<Rightarrow> tx_cfg \<Rightarrow> 'd mmio \<Rightarrow> tx_part \<Rightarrow> tx_part \<Rightarrow> bool" where
  "tx_served K cfg io \<equiv> tx_ran (rtl8125_tx_interrupt K cfg io)"

abbreviation rx_served :: "'l rx_kernel \<Rightarrow> rx_cfg \<Rightarrow> 'd mmio \<Rightarrow> rx_part \<Rightarrow> rx_part \<Rightarrow> bool" where
  "rx_served Kr rcfg io \<equiv> rx_ran (rtl8125_rx_interrupt Kr rcfg io 0xFFFFFFFF)"

lemma ran_tx:
  assumes "i < length (a_tx s)" "run_state (on_tx i m) s = (c, s')"
  shows "tx_ran m (a_tx s ! i) (a_tx s' ! i)" "length (a_tx s') = length (a_tx s)" "j \<noteq> i \<Longrightarrow> a_tx s' ! j = a_tx s ! j"
    "a_rx s' = a_rx s" "linkchg_work s' = linkchg_work s"
proof -
  let ?o = "run_state m (txq_of s i)"
  have s': "s' = put_txq i (snd ?o) s" using assms(2) by simp
  show "tx_ran m (a_tx s ! i) (a_tx s' ! i)"
    unfolding tx_ran_def by (rule exI [of _ "txq_of s i"], rule exI [of _ "snd ?o"]) (simp add: s' assms(1))
qed (use assms(2) in auto)

lemma ran_rx:
  assumes "i < length (a_rx s)" "run_state (on_rx i m) s = (n, s')"
  shows "rx_ran m (a_rx s ! i) (a_rx s' ! i)" "length (a_rx s') = length (a_rx s)" "j \<noteq> i \<Longrightarrow> a_rx s' ! j = a_rx s ! j"
    "a_tx s' = a_tx s" "linkchg_work s' = linkchg_work s"
proof -
  let ?o = "run_state m (rxq_of s i)"
  have s': "s' = put_rxq i (snd ?o) s" using assms(2) by simp
  show "rx_ran m (a_rx s ! i) (a_rx s' ! i)"
    unfolding rx_ran_def by (rule exI [of _ "rxq_of s i"], rule exI [of _ "snd ?o"]) (simp add: s' assms(1))
qed (use assms(2) in auto)

lemma ran_each:
  assumes "distinct is" "set is \<subseteq> {..<length (a_tx s)}" "run_state (each_ring is (\<lambda>i. on_tx i (m i))) s = (u, s')"
  shows "length (a_tx s') = length (a_tx s) \<and> a_rx s' = a_rx s \<and> linkchg_work s' = linkchg_work s
    \<and> (\<forall>j. if j \<in> set is then tx_ran (m j) (a_tx s ! j) (a_tx s' ! j) else a_tx s' ! j = a_tx s ! j)"
  using assms
proof (induction "is" arbitrary: s)
  case Nil
  then show ?case by simp
next
  case (Cons i "is")
  obtain c s1 where 1: "run_state (on_tx i (m i)) s = (c, s1)" by (cases "run_state (on_tx i (m i)) s")
  have i: "i < length (a_tx s)" using Cons.prems(2) by simp
  note sv = ran_tx [OF i 1]
  have 2: "run_state (each_ring is (\<lambda>i. on_tx i (m i))) s1 = (u, s')" using Cons.prems(3) 1 by (simp del: run_on)
  have ih: "length (a_tx s') = length (a_tx s1) \<and> a_rx s' = a_rx s1 \<and> linkchg_work s' = linkchg_work s1
    \<and> (\<forall>j. if j \<in> set is then tx_ran (m j) (a_tx s1 ! j) (a_tx s' ! j) else a_tx s' ! j = a_tx s1 ! j)"
    by (rule Cons.IH) (use Cons.prems 2 sv(2) in simp_all)
  have "if j \<in> set (i # is) then tx_ran (m j) (a_tx s ! j) (a_tx s' ! j) else a_tx s' ! j = a_tx s ! j" for j
  proof (cases "j = i")
    case True
    then have "j \<notin> set is" using Cons.prems(1) by simp
    then have "a_tx s' ! j = a_tx s1 ! j" using ih by simp
    with True sv(1) show ?thesis by simp
  next
    case False
    with ih sv(3) [OF False] show ?thesis by simp metis
  qed
  moreover have "length (a_tx s') = length (a_tx s)" "a_rx s' = a_rx s" "linkchg_work s' = linkchg_work s" using ih sv(2,4,5) by simp_all
  ultimately show ?case by simp
qed

text \<open>Interrupts on again: what is written.\<close>

definition hw_unmask :: "'d nic \<Rightarrow> io_event list" where
  "hw_unmask n = Wr32 TIMER_INT0_8125 0 #
     (if HwCurrIsrVer n \<in> {2, 3, 4, 5, 7} then [Wr32 IMR_V2_SET_REG_8125 (intr_mask n)]
      else if HwCurrIsrVer n = 1 then Wr32 (unat (imr_reg n 0)) (intr_mask n) # map (\<lambda>i. Wr16 (unat (imr_reg n i)) 3) (other_queues n)
      else [])"

definition timer_unmask :: "u32 \<Rightarrow> 'd nic \<Rightarrow> io_event list" where
  "timer_unmask tc n = (if use_timer_interrupt n \<noteq> 0
     then [Wr32 TIMER_INT0_8125 tc, Wr32 TCTR0_8125 tc, Wr32 (unat (imr_reg n 0)) (timer_intr_mask n)] else hw_unmask n)"

lemma same_priv_timer: "same_priv s s' \<Longrightarrow> use_timer_interrupt s' = use_timer_interrupt s \<and> timer_intr_mask s' = timer_intr_mask s"
  by (cases s, cases s') (simp add: same_priv_def)

lemma emits_hw: "valid (wrote n W) (rtl8125_switch_to_hw_interrupt io) (\<lambda>_. wrote n (W @ hw_unmask n))"
proof -
  have each: "valid (wrote n W) (do { RTL_W32 io r v; each_queue qs (\<lambda>i. RTL_W16 io (p i) 3) })
      (\<lambda>_. wrote n (W @ Wr32 r v # map (\<lambda>i. Wr16 (p i) 3) qs))" for W r v qs p
    using valid_bind [OF emits_each [of n "\<lambda>i. RTL_W16 io (p i) 3" "\<lambda>i. Wr16 (p i) 3", OF emits_access(6)] emits_access(7), of W io r v qs] by simp
  have "valid (wrote n (W @ [Wr32 TIMER_INT0_8125 0])) (rtl8125_enable_hw_interrupt io) (\<lambda>_. wrote n (W @ hw_unmask n))"
    unfolding rtl8125_enable_hw_interrupt_def
    by (rule emits_gets, simp add: same_priv_fields, rule emits_gets, simp add: same_priv_fields, rule emits_gets, simp add: same_priv_fields,
        rule emits_gets, simp add: same_priv_fields)
      (use each [of "W @ [Wr32 TIMER_INT0_8125 0]"] emits_access(7) [of n "W @ [Wr32 TIMER_INT0_8125 0]"] valid_return
        in \<open>auto simp: hw_unmask_def\<close>)
  from valid_bind [OF this emits_access(7)] show ?thesis unfolding rtl8125_switch_to_hw_interrupt_def .
qed

lemma emits_timer: "valid (wrote n W) (rtl8125_switch_to_timer_interrupt io tc) (\<lambda>_. wrote n (W @ timer_unmask tc n))"
proof -
  have t: "valid (wrote n W) (do { RTL_W32 io TIMER_INT0_8125 tc; RTL_W32 io TCTR0_8125 tc; RTL_W32 io r v })
      (\<lambda>_. wrote n (W @ [Wr32 TIMER_INT0_8125 tc, Wr32 TCTR0_8125 tc, Wr32 r v]))" for r v
    by (simp add: valid_def wrote_def wlog_def RTL_W32_def)
  show ?thesis
    unfolding rtl8125_switch_to_timer_interrupt_def
    by (rule emits_gets, simp add: same_priv_timer, rule emits_gets, simp add: same_priv_fields, rule emits_gets, simp add: same_priv_timer)
      (use t in \<open>simp add: timer_unmask_def emits_hw\<close>)
qed

section \<open>The interrupt handlers\<close>

definition adapter_wf :: "('d, 'k, 'l) adapter \<Rightarrow> bool" where
  "adapter_wf s \<longleftrightarrow> length (a_tx s) = num_tx_rings (a_nic s) \<and> length (a_rx s) = num_rx_rings (a_nic s)
     \<and> 0 < num_tx_rings (a_nic s) \<and> 0 < num_rx_rings (a_nic s)"

lemma valid_on_dev: "valid P m Q \<Longrightarrow> run_state (on_dev m) s = (x, s') \<Longrightarrow> P (a_nic s) \<Longrightarrow> Q x (a_nic s') \<and> s' = s\<lparr>a_nic := a_nic s'\<rparr>"
  by (auto simp: valid_def)

lemma wrote_keep: "wrote n W p \<Longrightarrow> wrote (n\<lparr>keep_intr_cnt := c\<rparr>) W (p\<lparr>keep_intr_cnt := c\<rparr>)"
  by (cases n, cases p) (simp add: wrote_def wlog_def same_priv_def)

lemma unmask_keep [simp]: "hw_unmask (n\<lparr>keep_intr_cnt := c\<rparr>) = hw_unmask n" "timer_unmask tc (n\<lparr>keep_intr_cnt := c\<rparr>) = timer_unmask tc n"
  by (simp_all add: hw_unmask_def timer_unmask_def other_queues_def)

lemma wlog_keep [simp]: "wlog (n\<lparr>keep_intr_cnt := c\<rparr>) = wlog n"
  by (simp add: wlog_def)

lemma same_priv_keep: "same_priv s s' \<Longrightarrow> keep_intr_cnt s' = keep_intr_cnt s \<and> num_tx_rings s' = num_tx_rings s \<and> num_rx_rings s' = num_rx_rings s"
  by (cases s, cases s') (simp add: same_priv_def)

text \<open>The rings served: every transmit ring and the first receive ring, or none.\<close>

definition rings_served :: "'k kernel \<Rightarrow> tx_cfg \<Rightarrow> 'l rx_kernel \<Rightarrow> rx_cfg \<Rightarrow> 'd mmio \<Rightarrow> ('d, 'k, 'l) adapter \<Rightarrow> ('d, 'k, 'l) adapter \<Rightarrow> bool" where
  "rings_served K cfg Kr rcfg io s s' \<longleftrightarrow> length (a_tx s') = length (a_tx s) \<and> length (a_rx s') = length (a_rx s)
     \<and> (\<forall>i < length (a_tx s). tx_served K cfg io (a_tx s ! i) (a_tx s' ! i))
     \<and> rx_served Kr rcfg io (a_rx s ! 0) (a_rx s' ! 0) \<and> (\<forall>i. 0 < i \<longrightarrow> a_rx s' ! i = a_rx s ! i)"

lemma serve_rings:
  assumes "run_state (do {
      each_ring [0..<num_tx_rings n] (\<lambda>i. on_tx i (rtl8125_tx_interrupt K cfg io));
      on_rx 0 (rtl8125_rx_interrupt Kr rcfg io 0xFFFFFFFF);
      on_dev (rtl8125_switch_to_timer_interrupt io tc) }) t = (u, s')"
    and "wrote n W (a_nic t)" "length (a_tx t) = num_tx_rings n" "0 < length (a_rx t)"
  shows "rings_served K cfg Kr rcfg io t s' \<and> linkchg_work s' = linkchg_work t \<and> (\<exists>D. bells D \<and> wrote n (W @ D @ timer_unmask tc n) (a_nic s'))"
proof -
  obtain u1 t1 where 1: "run_state (each_ring [0..<num_tx_rings n] (\<lambda>i. on_tx i (rtl8125_tx_interrupt K cfg io))) t = (u1, t1)"
    by (cases "run_state (each_ring [0..<num_tx_rings n] (\<lambda>i. on_tx i (rtl8125_tx_interrupt K cfg io))) t")
  obtain c t2 where 2: "run_state (on_rx 0 (rtl8125_rx_interrupt Kr rcfg io 0xFFFFFFFF)) t1 = (c, t2)"
    by (cases "run_state (on_rx 0 (rtl8125_rx_interrupt Kr rcfg io 0xFFFFFFFF)) t1")
  have 3: "run_state (on_dev (rtl8125_switch_to_timer_interrupt io tc)) t2 = (u, s')" using assms(1) 1 2 by (simp del: run_on)
  have "rang n W (a_nic t)" using assms(2) by (auto simp: rang_def bells_def intro: exI [of _ "[]"])
  then have "rang n W (a_nic t1)" by (rule staysD [OF stays_each [OF stays_on(2) [OF bell.tx_interrupt]] 1])
  then have "rang n W (a_nic t2)" by (rule staysD [OF stays_on(3) [OF bell.rx_interrupt] 2])
  then obtain D where D: "bells D" "wrote n (W @ D) (a_nic t2)" by (auto simp: rang_def)
  note e = valid_on_dev [OF emits_timer 3 D(2)]
  have s: "length (a_tx t1) = length (a_tx t) \<and> a_rx t1 = a_rx t \<and> linkchg_work t1 = linkchg_work t
    \<and> (\<forall>j. if j \<in> set [0..<num_tx_rings n] then tx_served K cfg io (a_tx t ! j) (a_tx t1 ! j) else a_tx t1 ! j = a_tx t ! j)"
    by (rule ran_each [OF _ _ 1]) (use assms(3) in auto)
  then have l: "0 < length (a_rx t1)" using assms(4) by simp
  note r = ran_rx [OF l 2]
  have "a_tx s' = a_tx t2" "a_rx s' = a_rx t2" "linkchg_work s' = linkchg_work t2" using 3 by auto
  then show ?thesis using s r e D(1) assms(3) by (auto simp: rings_served_def)
qed

text \<open>What the count is afterwards, and whether there is work to do.\<close>

definition work_due :: "u32 \<Rightarrow> 'd nic \<Rightarrow> bool" where
  "work_due v n \<longleftrightarrow> v AND intr_mask n \<noteq> 0 \<or> 0 < keep_intr_cnt n"

definition next_count :: "u32 \<Rightarrow> 'd nic \<Rightarrow> u32" where
  "next_count v n = (if v AND intr_mask n \<noteq> 0 \<or> keep_intr_cnt n = 0 then 10 else keep_intr_cnt n - 1)"

lemma run_then: "run_state (do { x \<leftarrow> m; State_Monad.return y }) s = (h, s') \<Longrightarrow> run_state m s = (u, s1) \<Longrightarrow> s' = s1 \<and> h = y"
  by simp

lemma handler_core:
  fixes t :: "('d, 'k, 'l) adapter"
  assumes "run_state (do {
       on_dev (rtl8125_disable_hw_interrupt io);
       on_dev (RTL_W32 io r (v AND NOT RxFIFOOver));
       (if lc then rtl8125_schedule_linkchg_work else State_Monad.return ());
       due \<leftarrow> on_dev (interrupt_due v);
       (if due then do {
          each_ring [0..<num_tx_rings n] (\<lambda>i. on_tx i (rtl8125_tx_interrupt K cfg io));
          on_rx 0 (rtl8125_rx_interrupt Kr rcfg io 0xFFFFFFFF);
          on_dev (rtl8125_switch_to_timer_interrupt io tc)
        }
        else do {
          on_dev (modify (\<lambda>s. s\<lparr>keep_intr_cnt := RTK_KEEP_INTERRUPT_COUNT\<rparr>));
          on_dev (rtl8125_switch_to_hw_interrupt io)
        });
       State_Monad.return True }) t = (h, s')"
    and "wrote n [] (a_nic t)" "length (a_tx t) = num_tx_rings n" "0 < length (a_rx t)"
  shows "h \<and> linkchg_work s' = (linkchg_work t \<or> lc) \<and> keep_intr_cnt (a_nic s') = next_count v n
    \<and> (if work_due v n then rings_served K cfg Kr rcfg io t s' else a_tx s' = a_tx t \<and> a_rx s' = a_rx t)
    \<and> (\<exists>D. bells D \<and> wlog (a_nic s') = wlog n @ mask_writes n @ [Wr32 r (v AND NOT RxFIFOOver)] @ D
         @ (if work_due v n then timer_unmask tc n else hw_unmask n))"
proof -
  let ?W = "mask_writes n @ [Wr32 r (v AND NOT RxFIFOOver)]"
  let ?p1 = "snd (run_state (rtl8125_disable_hw_interrupt io) (a_nic t))" let ?p2 = "snd (run_state (RTL_W32 io r (v AND NOT RxFIFOOver)) ?p1)"
  have "wrote n (mask_writes n) ?p1" using emits_disable [of n "[]" io] assms(2) by (simp add: valid_def)
  then have p2: "wrote n ?W ?p2" using emits_access(7) [of n "mask_writes n"] by (simp add: valid_def)
  have im: "intr_mask ?p2 = intr_mask n" "keep_intr_cnt ?p2 = keep_intr_cnt n"
    using p2 same_priv_fields [of n ?p2] same_priv_keep [of n ?p2] by (simp_all add: wrote_def)
  define c where "c = (if v AND intr_mask n \<noteq> 0 then RTK_KEEP_INTERRUPT_COUNT else keep_intr_cnt n - 1)"
  define m where "m = n\<lparr>keep_intr_cnt := c\<rparr>"
  define t4 where "t4 = (if lc then t\<lparr>linkchg_work := True\<rparr> else t)\<lparr>a_nic := ?p2\<lparr>keep_intr_cnt := c\<rparr>\<rparr>"
  have t4: "a_tx t4 = a_tx t" "a_rx t4 = a_rx t" "linkchg_work t4 = (linkchg_work t \<or> lc)" by (simp_all add: t4_def)
  have m: "num_tx_rings m = num_tx_rings n" "timer_unmask tc m = timer_unmask tc n" "wlog m = wlog n" "keep_intr_cnt m = c" by (simp_all add: m_def)
  have pre: "run_state (do { on_dev (rtl8125_disable_hw_interrupt io); on_dev (RTL_W32 io r (v AND NOT RxFIFOOver));
      (if lc then rtl8125_schedule_linkchg_work else State_Monad.return ()); due \<leftarrow> on_dev (interrupt_due v); k due }) t
      = run_state (k (work_due v n)) t4" for k :: "bool \<Rightarrow> ('d, 'k, 'l, bool) adp"
    using im by (cases lc; cases "v AND intr_mask n = 0") (simp_all add: work_due_def interrupt_due_def rtl8125_schedule_linkchg_work_def t4_def c_def)
  have nt: "wrote m ?W (a_nic t4)" using wrote_keep [OF p2, of c] by (simp add: m_def t4_def)
  show ?thesis
  proof (cases "work_due v n")
    case True
    let ?serve = "do { each_ring [0..<num_tx_rings n] (\<lambda>i. on_tx i (rtl8125_tx_interrupt K cfg io));
        on_rx 0 (rtl8125_rx_interrupt Kr rcfg io 0xFFFFFFFF); on_dev (rtl8125_switch_to_timer_interrupt io tc) }"
    obtain u s1 where 1: "run_state ?serve t4 = (u, s1)" by (cases "run_state ?serve t4")
    from serve_rings [where n = m and W = ?W and tc = tc and t = t4, unfolded m t4, OF 1 nt assms(3,4)]
    obtain D where sv: "rings_served K cfg Kr rcfg io t4 s1" "linkchg_work s1 = linkchg_work t4" "bells D" "wrote m (?W @ D @ timer_unmask tc n) (a_nic s1)"
      unfolding t4 by blast
    have "run_state (do { x \<leftarrow> ?serve; State_Monad.return True }) t4 = (h, s')"
      using assms(1) unfolding pre if_P [OF True] .
    from run_then [OF this 1] have "s' = s1" "h" by simp_all
    moreover have "rings_served K cfg Kr rcfg io t s1" using sv(1) by (simp add: rings_served_def t4)
    moreover have "keep_intr_cnt (a_nic s1) = next_count v n"
      using sv(4) same_priv_keep [of m "a_nic s1"] True by (auto simp: wrote_def m next_count_def work_due_def c_def RTK_KEEP_INTERRUPT_COUNT_def)
    ultimately show ?thesis using True sv(2-4) by (auto simp: wrote_def m t4)
  next
    case False
    let ?n = "n\<lparr>keep_intr_cnt := RTK_KEEP_INTERRUPT_COUNT\<rparr>" and ?p3 = "?p2\<lparr>keep_intr_cnt := RTK_KEEP_INTERRUPT_COUNT\<rparr>"
    let ?p4 = "snd (run_state (rtl8125_switch_to_hw_interrupt io) ?p3)"
    have "wrote ?n ?W ?p3" by (rule wrote_keep [OF p2])
    then have p4: "wrote ?n (?W @ hw_unmask n) ?p4" using emits_hw [of ?n ?W io] by (simp add: valid_def)
    have "run_state (do { x \<leftarrow> do { on_dev (modify (\<lambda>s. s\<lparr>keep_intr_cnt := RTK_KEEP_INTERRUPT_COUNT\<rparr>)); on_dev (rtl8125_switch_to_hw_interrupt io) };
        State_Monad.return True }) t4 = (h, s')"
      using assms(1) unfolding pre if_not_P [OF False] .
    then have "s' = (if lc then t\<lparr>linkchg_work := True\<rparr> else t)\<lparr>a_nic := ?p4\<rparr> \<and> h" by (auto simp: t4_def)
    with p4 False show ?thesis
      using same_priv_keep [of ?n ?p4]
      by (auto simp: wrote_def next_count_def work_due_def word_gt_0 RTK_KEEP_INTERRUPT_COUNT_def bells_def intro: exI [of _ "[]"])
  qed
qed

text \<open>An interrupt of this controller: message-signalled ones are; a shared line is asked for its status.\<close>

definition irq_ours :: "u32 \<Rightarrow> 'd nic \<Rightarrow> bool" where
  "irq_ours v n \<longleftrightarrow> features n AND 6 \<noteq> 0 \<or> (v \<noteq> 0 \<and> v \<noteq> 0xFFFFFFFF \<and> v AND (intr_mask n OR timer_intr_mask n) \<noteq> 0)"

lemma interrupt_result:
  assumes "adapter_wf s" "run_state (rtl8125_interrupt K cfg Kr rcfg tc io) s = (handled, s')"
    and "a_nic s = n" "fst (readl io (hw n) (unat (isr_reg n 0))) = v"
  shows "handled = irq_ours v n
    \<and> (if handled \<and> irq_requested n 0 then
         linkchg_work s' = (linkchg_work s \<or> rtl8125_linkchg_interrupt (HwCurrIsrVer n) v)
         \<and> keep_intr_cnt (a_nic s') = next_count v n
         \<and> (if work_due v n then rings_served K cfg Kr rcfg io s s' else a_tx s' = a_tx s \<and> a_rx s' = a_rx s)
         \<and> (\<exists>D. bells D \<and> wlog (a_nic s') = wlog n @ mask_writes n @ [Wr32 (unat (isr_reg n 0)) (v AND NOT RxFIFOOver)] @ D
              @ (if work_due v n then timer_unmask tc n else hw_unmask n))
       else wlog (a_nic s') = wlog n \<and> a_tx s' = a_tx s \<and> a_rx s' = a_rx s \<and> linkchg_work s' = linkchg_work s)"
proof -
  let ?o = "run_state (RTL_R32 io (unat (isr_reg n 0))) n"
  define t where "t = s\<lparr>a_nic := snd ?o\<rparr>"
  have o: "fst ?o = v" using assms(4) by (simp add: RTL_R32_def split_beta)
  have w: "wrote n [] (snd ?o)" using emits_access(3) [of n "[]" io] by (simp add: valid_def)
  have f: "features (snd ?o) = features n" "intr_mask (snd ?o) = intr_mask n" "timer_intr_mask (snd ?o) = timer_intr_mask n"
    "irq_requested (snd ?o) = irq_requested n" "HwCurrIsrVer (snd ?o) = HwCurrIsrVer n" "num_tx_rings (snd ?o) = num_tx_rings n"
    by (simp_all add: RTL_R32_def split_beta)
  have t: "a_tx t = a_tx s" "a_rx t = a_rx s" "linkchg_work t = linkchg_work s" "a_nic t = snd ?o" by (simp_all add: t_def)
  have read: "run_state (do { isr \<leftarrow> on_dev (gets isr_reg); status \<leftarrow> on_dev (RTL_R32 io (unat (isr 0))); p \<leftarrow> gets a_nic; k isr status p }) s
      = run_state (k (isr_reg n) v (snd ?o)) t" for k :: "(nat \<Rightarrow> u16) \<Rightarrow> u32 \<Rightarrow> 'a nic \<Rightarrow> ('a, 'b, 'c, bool) adp"
    using o by (simp add: assms(3) t_def)
  note run = assms(2) [unfolded rtl8125_interrupt_def read f]
  have wl: "wlog (snd ?o) = wlog n" using w by (simp add: wrote_def)
  have or: "RTL_FEATURE_MSI OR RTL_FEATURE_MSIX = 6" by simp
  consider (other) "\<not> irq_ours v n" | (early) "irq_ours v n" "\<not> irq_requested n 0" | (own) "irq_ours v n" "irq_requested n 0" by blast
  then show ?thesis
  proof cases
    case other
    then have "features n AND (RTL_FEATURE_MSI OR RTL_FEATURE_MSIX) = 0 \<and> (v = 0 \<or> v = 0xFFFFFFFF \<or> v AND (intr_mask n OR timer_intr_mask n) = 0)"
      unfolding or irq_ours_def by blast
    from run [unfolded if_P [OF this]] have "handled = False" "s' = t" by simp_all
    with other wl show ?thesis by (simp add: t)
  next
    case early
    then have c: "\<not> (features n AND (RTL_FEATURE_MSI OR RTL_FEATURE_MSIX) = 0 \<and> (v = 0 \<or> v = 0xFFFFFFFF \<or> v AND (intr_mask n OR timer_intr_mask n) = 0))"
      unfolding or irq_ours_def by blast
    from run [unfolded if_not_P [OF c] if_P [OF early(2)]] have "handled = True" "s' = t" by simp_all
    with early wl show ?thesis by (simp add: t)
  next
    case own
    then have c: "\<not> (features n AND (RTL_FEATURE_MSI OR RTL_FEATURE_MSIX) = 0 \<and> (v = 0 \<or> v = 0xFFFFFFFF \<or> v AND (intr_mask n OR timer_intr_mask n) = 0))"
      unfolding or irq_ours_def by blast
    have r: "\<not> \<not> irq_requested n 0" using own(2) by simp
    have l: "length (a_tx t) = num_tx_rings n" "0 < length (a_rx t)" "wrote n [] (a_nic t)"
      using assms(1,3) w by (simp_all add: adapter_wf_def t)
    have sv: "rings_served K cfg Kr rcfg io t s' = rings_served K cfg Kr rcfg io s s'" by (simp add: t rings_served_def)
    note core = handler_core [OF run [unfolded if_not_P [OF c] if_not_P [OF r]] l(3,1,2), unfolded sv t]
    then have "handled" by blast
    with core own show ?thesis by simp
  qed
qed



lemma msix_result:
  assumes "adapter_wf s" "run_state (rtl8125_interrupt_msix K cfg Kr rcfg io i) s = (u, s')" "a_nic s = n"
  shows "if \<not> irq_requested n i then s' = s
    else if i = rtl8125_get_linkchg_message_id (HwCurrIsrVer n)
    then wlog (a_nic s') = wlog n @ [Wr32 IMR_V2_CLEAR_REG_8125 (push_bit i 1), Wr32 ISR_V2_8125 (push_bit i 1)]
      \<and> linkchg_work s' \<and> a_tx s' = a_tx s \<and> a_rx s' = a_rx s
    else (\<exists>D. bells D \<and> wlog (a_nic s') = wlog n @ [Wr32 IMR_V2_CLEAR_REG_8125 (push_bit i 1), Wr32 ISR_V2_8125 (push_bit i 1)] @ D
        @ [Wr32 IMR_V2_SET_REG_8125 (push_bit i 1)])
      \<and> linkchg_work s' = linkchg_work s \<and> length (a_tx s') = length (a_tx s) \<and> length (a_rx s') = length (a_rx s)
      \<and> (\<forall>j < length (a_tx s). if tx_vector (HwCurrIsrVer n) (num_tx_rings n) i = Some j
           then tx_served K cfg io (a_tx s ! j) (a_tx s' ! j) else a_tx s' ! j = a_tx s ! j)
      \<and> (\<forall>j < length (a_rx s). if j = i then rx_served Kr rcfg io (a_rx s ! j) (a_rx s' ! j) else a_rx s' ! j = a_rx s ! j)"
proof -
  let ?W = "[Wr32 IMR_V2_CLEAR_REG_8125 (push_bit i 1), Wr32 ISR_V2_8125 (push_bit i 1)]"
  define p where "p = snd (run_state (do { rtl8125_disable_hw_interrupt_v2 io i; rtl8125_clear_hw_isr_v2 io i }) n)"
  define t where "t = s\<lparr>a_nic := p\<rparr>"
  have w: "wrote n ?W p" by (simp add: p_def rtl8125_disable_hw_interrupt_v2_def rtl8125_clear_hw_isr_v2_def wrote_def wlog_def RTL_W32_def)
  have t: "a_tx t = a_tx s" "a_rx t = a_rx s" "linkchg_work t = linkchg_work s" "a_nic t = p" by (simp_all add: t_def)
  have ver: "HwCurrIsrVer p = HwCurrIsrVer n" "num_tx_rings p = num_tx_rings n" using w same_priv_fields [of n p] by (simp_all add: wrote_def)
  have front: "run_state (do { on_dev (rtl8125_disable_hw_interrupt_v2 io i); on_dev (rtl8125_clear_hw_isr_v2 io i); k }) s = run_state k t"
    for k :: "('a, 'b, 'c, 'e) adp"
    by (simp add: t_def p_def assms(3) split_beta)
  have "run_state (do { p \<leftarrow> gets a_nic; k p }) s = run_state (k n) s" for k :: "'a nic \<Rightarrow> ('a, 'b, 'c, unit) adp" by (simp add: assms(3))
  note run = assms(2) [unfolded rtl8125_interrupt_msix_def this]
  consider (off) "\<not> irq_requested n i" | (link) "irq_requested n i" "i = rtl8125_get_linkchg_message_id (HwCurrIsrVer n)"
    | (rings) "irq_requested n i" "i \<noteq> rtl8125_get_linkchg_message_id (HwCurrIsrVer n)" by blast
  then show ?thesis
  proof cases
    case off
    then show ?thesis using run assms(3) by simp
  next
    case link
    then have "s' = t\<lparr>linkchg_work := True\<rparr>" using run assms(3) by (auto simp: rtl8125_schedule_linkchg_work_def t_def p_def split_beta)
    with link w show ?thesis by (simp add: t wrote_def)
  next
    case rings
    have r: "\<not> \<not> irq_requested n i" using rings(1) by simp
    let ?tx = "rtl8125_tx_interrupt_with_vector K cfg io i"
    let ?rx = "if i < num_rx_rings n then do { on_rx i (rtl8125_rx_interrupt Kr rcfg io 0xFFFFFFFF); State_Monad.return () } else State_Monad.return ()"
    obtain c t1 where 1: "run_state ?tx t = (c, t1)" by (cases "run_state ?tx t")
    obtain u2 t2 where 2: "run_state ?rx t1 = (u2, t2)" by (cases "run_state ?rx t1")
    have "run_state (do { ?tx; ?rx; on_dev (rtl8125_enable_hw_interrupt_v2 io i) }) t = (u, s')"
      using run unfolding if_not_P [OF r] if_not_P [OF rings(2)] front .
    then have 3: "run_state (on_dev (rtl8125_enable_hw_interrupt_v2 io i)) t2 = (u, s')" using 1 2 by (simp del: run_on)
    have tx: "stays (\<lambda>s. rang n ?W (a_nic s)) ?tx"
      unfolding rtl8125_tx_interrupt_with_vector_def by (intro stays_rules stays_on bell.tx_interrupt)
    have rx: "stays (\<lambda>s. rang n ?W (a_nic s)) ?rx" by (intro stays_rules stays_on bell.rx_interrupt)
    have "rang n ?W (a_nic t)" using w by (auto simp: rang_def bells_def t intro: exI [of _ "[]"])
    from staysD [OF rx 2 staysD [OF tx 1 this]] obtain D where D: "bells D" "wrote n (?W @ D) (a_nic t2)" by (auto simp: rang_def)
    have W: "wlog (a_nic s') = wlog n @ ?W @ D @ [Wr32 IMR_V2_SET_REG_8125 (push_bit i 1)]"
      using 3 D(2) by (auto simp: rtl8125_enable_hw_interrupt_v2_def RTL_W32_def wrote_def wlog_def)
    have len: "length (a_tx s) = num_tx_rings n" "length (a_rx s) = num_rx_rings n" "0 < num_tx_rings n" using assms(1,3) by (simp_all add: adapter_wf_def)
    have a: "length (a_tx t1) = length (a_tx s) \<and> a_rx t1 = a_rx s \<and> linkchg_work t1 = linkchg_work s
      \<and> (\<forall>j. if tx_vector (HwCurrIsrVer n) (num_tx_rings n) i = Some j then tx_served K cfg io (a_tx s ! j) (a_tx t1 ! j) else a_tx t1 ! j = a_tx s ! j)"
    proof (cases "tx_vector (HwCurrIsrVer n) (num_tx_rings n) i")
      case None
      then have "t1 = t" using 1 by (simp add: rtl8125_tx_interrupt_with_vector_def t ver)
      then show ?thesis using None by (simp add: t)
    next
      case (Some j)
      then have j: "j < length (a_tx t)" using len by (auto simp: tx_vector_def t split: if_splits)
      have "run_state (on_tx j (rtl8125_tx_interrupt K cfg io)) t = (c, t1)"
        using 1 Some by (simp add: rtl8125_tx_interrupt_with_vector_def t ver del: run_on)
      note sv = ran_tx [OF j this]
      then show ?thesis using Some by (auto simp: t)
    qed
    have b: "a_tx t2 = a_tx t1 \<and> linkchg_work t2 = linkchg_work t1 \<and> length (a_rx t2) = length (a_rx s)
      \<and> (\<forall>j < length (a_rx s). if j = i then rx_served Kr rcfg io (a_rx s ! j) (a_rx t2 ! j) else a_rx t2 ! j = a_rx s ! j)"
    proof (cases "i < num_rx_rings n")
      case True
      then have i: "i < length (a_rx t1)" using a len by simp
      obtain m t3 where 4: "run_state (on_rx i (rtl8125_rx_interrupt Kr rcfg io 0xFFFFFFFF)) t1 = (m, t3)"
        by (cases "run_state (on_rx i (rtl8125_rx_interrupt Kr rcfg io 0xFFFFFFFF)) t1")
      have "t2 = t3" using 2 True 4 by (simp del: run_on)
      then show ?thesis using ran_rx [OF i 4] a by (auto simp: t)
    next
      case False
      then have "t2 = t1" using 2 by simp
      then show ?thesis using False a len by auto
    qed
    have "a_tx s' = a_tx t2" "a_rx s' = a_rx t2" "linkchg_work s' = linkchg_work t2" using 3 by auto
    with W D(1) a b rings show ?thesis by auto
  qed
qed

text \<open>
  Property C37.  The handler for message \<open>i\<close> of several: a message that was not requested changes nothing.  The message
  of the link is masked, acknowledged, orders the work on the link, and stays masked.  Any other is masked,
  then acknowledged, then exactly the rings of that message are served, and it is unmasked last; no
  other message is masked or acknowledged.
\<close>

theorem interrupt_msix_exact:
  assumes "adapter_wf s" "run_state (rtl8125_interrupt_msix K cfg Kr rcfg io i) s = (u, s')" "a_nic s = n"
  shows "if \<not> irq_requested n i then s' = s
    else if i = rtl8125_get_linkchg_message_id (HwCurrIsrVer n)
    then wlog (a_nic s') = wlog n @ [Wr32 IMR_V2_CLEAR_REG_8125 (push_bit i 1), Wr32 ISR_V2_8125 (push_bit i 1)]
      \<and> linkchg_work s' \<and> a_tx s' = a_tx s \<and> a_rx s' = a_rx s
    else (\<exists>D. bells D \<and> wlog (a_nic s') = wlog n @ [Wr32 IMR_V2_CLEAR_REG_8125 (push_bit i 1), Wr32 ISR_V2_8125 (push_bit i 1)] @ D
        @ [Wr32 IMR_V2_SET_REG_8125 (push_bit i 1)])
      \<and> linkchg_work s' = linkchg_work s \<and> length (a_tx s') = length (a_tx s) \<and> length (a_rx s') = length (a_rx s)
      \<and> (\<forall>j < length (a_tx s). if tx_vector (HwCurrIsrVer n) (num_tx_rings n) i = Some j
           then tx_served K cfg io (a_tx s ! j) (a_tx s' ! j) else a_tx s' ! j = a_tx s ! j)
      \<and> (\<forall>j < length (a_rx s). if j = i then rx_served Kr rcfg io (a_rx s ! j) (a_rx s' ! j) else a_rx s' ! j = a_rx s ! j)"
  by (rule msix_result [OF assms])

section \<open>Nothing is lost\<close>

text \<open>A transmit ring set up again while nothing is pending.\<close>

lemma blank_inv:
  assumes "tx_inv K r"
  shows "tx_inv K (tx_ring_blank i r)" "pending (tx_ring_blank i r) = []"
proof -
  let ?b = "tx_ring_blank i r"
  have n: "num_tx_desc ?b = num_tx_desc r" "cur_tx ?b = 0" "dirty_tx ?b = 0" by (simp_all add: tx_ring_blank_def)
  have wf: "tx_wf ?b" using assms by (simp add: tx_inv_def tx_wf_def tx_ring_blank_def)
  show "pending ?b = []" by (simp add: pending_def inflight_def n)
  moreover have "ri_len (snd (tx_slot ?b e)) = 0 \<and> ri_skb (snd (tx_slot ?b e)) = None" if "e < tx_n r" for e
    using wf that n by (simp add: tx_slot_def tx_wf_def) (simp add: tx_ring_blank_def)
  then have "\<forall>c \<in> set (free_cells ?b). ri_len (snd c) = 0 \<and> ri_skb (snd c) = None"
    using wf by (auto simp: free_cells_def set_window n tx_wf_def slot_index_def)
  ultimately show "tx_inv K ?b" using wf assms by (simp add: tx_inv_def n inflight_def)
qed

lemma books_init:
  assumes "tx_books K ids q" "pending (ring q) = []" "q' = snd (run_state (tx_init_ring K i) q)"
  shows "tx_books K ids q'" "pending (ring q') = []"
proof -
  have q': "ring q' = tx_ring_blank i (ring q)" "net_log q' = net_log q @ [BqlReset]"
    using assms(3) by (simp_all add: tx_init_ring_def upd_ring_def net_ev_def)
  have inv: "tx_inv K (ring q)" using assms(1) by (simp add: tx_books_def)
  show "pending (ring q') = []" using blank_inv [OF inv] by (simp add: q')
  then show "tx_books K ids q'"
    using assms(1,2) blank_inv(1) [OF inv, of i] unfolding tx_books_def q' held_skbs_def held_dma_def by auto
qed

text \<open>Every ring of the adapter in order; \<open>up\<close> says that the rings are set up; while they are not, nothing is pending.\<close>

definition adapter_inv :: "'k kernel \<Rightarrow> rx_cfg \<Rightarrow> (nat \<Rightarrow> nat list) \<Rightarrow> bool \<Rightarrow> ('d, 'k, 'l) adapter \<Rightarrow> bool" where
  "adapter_inv K rcfg ids up s \<longleftrightarrow> adapter_wf s \<and> num_rx_rings (a_nic s) = 1
     \<and> (\<forall>i < length (a_tx s). tx_books K (ids i) (txq_of s i) \<and> (\<not> up \<longrightarrow> pending (tp_ring (a_tx s ! i)) = []))
     \<and> rx_sound rcfg up (rxq_of s 0)"

text \<open>A routine that keeps the books of a ring keeps those of the part it is run on.\<close>

lemma ran_keeps:
  assumes "tx_ran m (a_tx s ! i) (a_tx s' ! i)" "tx_books K ids (txq_of s i)"
    and "\<And>q. tx_books K ids q \<Longrightarrow> ring q = tp_ring (a_tx s ! i) \<Longrightarrow> tx_books K ids (snd (run_state m q)) \<and> P (ring (snd (run_state m q)))"
  shows "tx_books K ids (txq_of s' i) \<and> P (tp_ring (a_tx s' ! i))"
proof -
  from assms(1) obtain q where q: "net_log q = tp_log (a_tx s ! i)" "ring q = tp_ring (a_tx s ! i)"
    "tp_log (a_tx s' ! i) = net_log (snd (run_state m q))" "tp_ring (a_tx s' ! i) = ring (snd (run_state m q))"
    by (auto simp: tx_ran_def)
  have "tx_books K ids q" using assms(2) q(1,2) by (simp add: tx_books_def)
  from assms(3) [OF this q(2)] show ?thesis by (simp add: tx_books_def q(3,4))
qed

lemma rx_ran_keeps:
  assumes "rx_ran m (a_rx s ! i) (a_rx s' ! i)" "rx_sound rcfg up (rxq_of s i)" "\<And>q. rx_sound rcfg up q \<Longrightarrow> rx_sound rcfg up' (snd (run_state m q))"
  shows "rx_sound rcfg up' (rxq_of s' i)"
proof -
  from assms(1) obtain q where q: "rx_log q = rp_log (a_rx s ! i)" "rring q = rp_ring (a_rx s ! i)"
    "rp_log (a_rx s' ! i) = rx_log (snd (run_state m q))" "rp_ring (a_rx s' ! i) = rring (snd (run_state m q))"
    by (auto simp: rx_ran_def)
  have "rx_sound rcfg up q" using assms(2) q(1,2) by (simp add: rx_sound_def rx_balanced_def cong: if_cong)
  from assms(3) [OF this] show ?thesis by (simp add: rx_sound_def rx_balanced_def q(3,4) cong: if_cong)
qed

lemma irq_keeps:
  assumes "tx_served K cfg io (a_tx s ! i) (a_tx s' ! i)" "tx_books K ids (txq_of s i)"
  shows "tx_books K ids (txq_of s' i)"
  using ran_keeps [OF assms, of "\<lambda>_. True"] books_irq [OF _ surjective_pairing] by blast

lemma rx_irq_keeps:
  assumes "rx_served Kr rcfg io (a_rx s ! i) (a_rx s' ! i)" "rx_sound rcfg True (rxq_of s i)" "rx_cfg_ok rcfg"
  shows "rx_sound rcfg True (rxq_of s' i)"
  using rx_ran_keeps [OF assms(1,2), of True] sound_irq [OF assms(3) _ surjective_pairing] by blast

lemma same_part:
  "a_tx s' ! i = a_tx s ! i \<Longrightarrow> tx_books K ids (txq_of s i) \<Longrightarrow> tx_books K ids (txq_of s' i)"
  "a_rx s' ! i = a_rx s ! i \<Longrightarrow> rx_sound rcfg up (rxq_of s i) \<Longrightarrow> rx_sound rcfg up (rxq_of s' i)"
  by (simp_all add: tx_books_def rx_sound_def rx_balanced_def cong: if_cong)

text \<open>The number of rings never changes.\<close>

lemma stays_counts:
  assumes "\<And>n. valid (wrote n []) m (\<lambda>_ p. \<exists>W. wrote n W p)"
  shows "stays (\<lambda>p. num_tx_rings p = a \<and> num_rx_rings p = b) m"
  unfolding stays_def
proof (rule valid_runI)
  fix p x p'
  assume p: "num_tx_rings p = a \<and> num_rx_rings p = b" and "run_state m p = (x, p')"
  then obtain W where "wrote p W p'" using validD [OF assms wrote_start] by blast
  then show "num_tx_rings p' = a \<and> num_rx_rings p' = b" using p same_priv_keep [of p p'] by (simp add: wrote_def)
qed

lemma counts_steps:
  "stays (\<lambda>p. num_tx_rings p = a \<and> num_rx_rings p = b) (rtl8125_disable_hw_interrupt io)"
  "stays (\<lambda>p. num_tx_rings p = a \<and> num_rx_rings p = b) (rtl8125_switch_to_timer_interrupt io tc)"
  "stays (\<lambda>p. num_tx_rings p = a \<and> num_rx_rings p = b) (rtl8125_switch_to_hw_interrupt io)"
  "stays (\<lambda>p. num_tx_rings p = a \<and> num_rx_rings p = b) (rtl8125_wait_for_quiescence io)"
  "stays (\<lambda>p. num_tx_rings p = a \<and> num_rx_rings p = b) (rtl8125_hw_reset io)"
  "stays (\<lambda>p. num_tx_rings p = a \<and> num_rx_rings p = b) (interrupt_due v)"
  "stays (\<lambda>p. num_tx_rings p = a \<and> num_rx_rings p = b) (modify (\<lambda>s. s\<lparr>keep_intr_cnt := c\<rparr>))"
proof -
  show "stays (\<lambda>p. num_tx_rings p = a \<and> num_rx_rings p = b) (rtl8125_disable_hw_interrupt io)"
    by (rule stays_counts, rule valid_weaken [OF emits_disable]) auto
  show "stays (\<lambda>p. num_tx_rings p = a \<and> num_rx_rings p = b) (rtl8125_switch_to_timer_interrupt io tc)"
    by (rule stays_counts, rule valid_weaken [OF emits_timer]) auto
  show "stays (\<lambda>p. num_tx_rings p = a \<and> num_rx_rings p = b) (rtl8125_switch_to_hw_interrupt io)"
    by (rule stays_counts, rule valid_weaken [OF emits_hw]) auto
  show "stays (\<lambda>p. num_tx_rings p = a \<and> num_rx_rings p = b) (rtl8125_wait_for_quiescence io)"
    unfolding rtl8125_wait_for_quiescence_def by (rule stays_counts, rule valid_weaken [OF emits_irq]) auto
  show "stays (\<lambda>p. num_tx_rings p = a \<and> num_rx_rings p = b) (rtl8125_hw_reset io)"
    by (rule stays_counts, rule valid_weaken [OF emits_hw_reset], assumption) blast
qed (rule stays_step, simp add: interrupt_due_def)+

lemma adapter_steps:
  "stays (\<lambda>s. J (a_nic s)) (modify (\<lambda>s. s\<lparr>linkchg_work := f s\<rparr>))" "stays (\<lambda>s. J (a_nic s)) (modify (\<lambda>s. s\<lparr>a_carrier := c\<rparr>))"
  "stays (\<lambda>s. J (a_nic s)) (modify (\<lambda>s. s\<lparr>a_tx := g s\<rparr>))"
  by (rule stays_step; simp)+

lemmas counts_rules = counts_steps counts.reads counts.writes stays_on adapter_steps counts.tx_interrupt counts.rx_interrupt

lemma counts_kept:
  "stays (\<lambda>s. num_tx_rings (a_nic s) = a \<and> num_rx_rings (a_nic s) = b) (rtl8125_interrupt K cfg Kr rcfg tc io)"
  "stays (\<lambda>s. num_tx_rings (a_nic s) = a \<and> num_rx_rings (a_nic s) = b) (rtl8125_interrupt_msix K cfg Kr rcfg io i)"
  "stays (\<lambda>s. num_tx_rings (a_nic s) = a \<and> num_rx_rings (a_nic s) = b) (on_tx j (rtl8125_start_xmit K cfg io skb))"
  "stays (\<lambda>s. num_tx_rings (a_nic s) = a \<and> num_rx_rings (a_nic s) = b) (rtl8125_init_ring K Kr rcfg)"
  "stays (\<lambda>s. num_tx_rings (a_nic s) = a \<and> num_rx_rings (a_nic s) = b) (rtl8125_down rcfg io)"
  unfolding rtl8125_interrupt_def rtl8125_schedule_linkchg_work_def rtl8125_interrupt_msix_def rtl8125_tx_interrupt_with_vector_def
    rtl8125_disable_hw_interrupt_v2_def rtl8125_enable_hw_interrupt_v2_def rtl8125_clear_hw_isr_v2_def rtl8125_init_ring_def rtl8125_down_def
    rtl8125_tx_clear_def rtl8125_rx_clear_def
  by (intro stays_rules counts_rules counts.tx_xmit counts.tx_init counts.rx_init counts.tx_clear counts.rx_clear)+

lemma invD:
  assumes "adapter_inv K rcfg ids up s"
  shows "adapter_wf s" "length (a_rx s) = 1" "i < length (a_tx s) \<Longrightarrow> tx_books K (ids i) (txq_of s i)" "rx_sound rcfg up (rxq_of s 0)"
    "\<not> up \<Longrightarrow> i < length (a_tx s) \<Longrightarrow> pending (tp_ring (a_tx s ! i)) = []"
  using assms by (simp_all add: adapter_inv_def adapter_wf_def)

lemma invI:
  assumes "adapter_inv K rcfg ids0 up0 s" "run_state m s = (x, s')"
    and "\<And>a b. stays (\<lambda>s. num_tx_rings (a_nic s) = a \<and> num_rx_rings (a_nic s) = b) m"
    and "length (a_tx s') = length (a_tx s)" "length (a_rx s') = length (a_rx s)"
    and "\<And>i. i < length (a_tx s) \<Longrightarrow> tx_books K (ids i) (txq_of s' i) \<and> (\<not> up \<longrightarrow> pending (tp_ring (a_tx s' ! i)) = [])"
    and "rx_sound rcfg up (rxq_of s' 0)"
  shows "adapter_inv K rcfg ids up s'"
proof -
  have "num_tx_rings (a_nic s') = num_tx_rings (a_nic s) \<and> num_rx_rings (a_nic s') = num_rx_rings (a_nic s)"
    by (rule staysD [OF assms(3,2)]) simp
  then show ?thesis using assms(1,4-7) by (simp add: adapter_inv_def adapter_wf_def)
qed

lemma inv_irq:
  assumes "rx_cfg_ok rcfg" "adapter_inv K rcfg ids True s" "run_state (rtl8125_interrupt K cfg Kr rcfg tc io) s = (h, s')"
  shows "adapter_inv K rcfg ids True s'"
proof -
  note d = invD [OF assms(2)]
  have c: "(a_tx s' = a_tx s \<and> a_rx s' = a_rx s) \<or> rings_served K cfg Kr rcfg io s s'"
    using interrupt_result [OF d(1) assms(3) refl refl] by (auto split: if_splits)
  show ?thesis
  proof (rule invI [OF assms(2,3) counts_kept(1)])
    show "length (a_tx s') = length (a_tx s)" "length (a_rx s') = length (a_rx s)" using c by (auto simp: rings_served_def)
    show "tx_books K (ids i) (txq_of s' i) \<and> (\<not> True \<longrightarrow> pending (tp_ring (a_tx s' ! i)) = [])" if "i < length (a_tx s)" for i
      using c d(3) [OF that] that irq_keeps [of K cfg io s i s' "ids i"] same_part(1) [of s' i s K "ids i"] by (auto simp: rings_served_def)
    show "rx_sound rcfg True (rxq_of s' 0)"
      using c d(4) assms(1) rx_irq_keeps [of Kr rcfg io s 0 s'] same_part(2) [of s' 0 s rcfg True] by (auto simp: rings_served_def)
  qed
qed

lemma inv_msix:
  assumes "rx_cfg_ok rcfg" "adapter_inv K rcfg ids True s" "run_state (rtl8125_interrupt_msix K cfg Kr rcfg io i) s = (u, s')"
  shows "adapter_inv K rcfg ids True s'"
proof -
  note d = invD [OF assms(2)]
  have c: "length (a_tx s') = length (a_tx s) \<and> length (a_rx s') = length (a_rx s)
      \<and> (\<forall>j < length (a_tx s). a_tx s' ! j = a_tx s ! j \<or> tx_served K cfg io (a_tx s ! j) (a_tx s' ! j))
      \<and> (a_rx s' ! 0 = a_rx s ! 0 \<or> rx_served Kr rcfg io (a_rx s ! 0) (a_rx s' ! 0))"
    using msix_result [OF d(1) assms(3) refl] d(2) by (auto split: if_splits)
  show ?thesis
  proof (rule invI [OF assms(2,3) counts_kept(2)])
    show "tx_books K (ids j) (txq_of s' j) \<and> (\<not> True \<longrightarrow> pending (tp_ring (a_tx s' ! j)) = [])" if "j < length (a_tx s)" for j
      using c d(3) [OF that] that irq_keeps [of K cfg io s j s' "ids j"] same_part(1) [of s' j s K "ids j"] by auto
    show "rx_sound rcfg True (rxq_of s' 0)"
      using c d(4) assms(1) rx_irq_keeps [of Kr rcfg io s 0 s'] same_part(2) [of s' 0 s rcfg True] by auto
  qed (use c in simp_all)
qed

lemma inv_xmit:
  assumes "kernel_ok K" "adapter_inv K rcfg ids True s" "i < length (a_tx s)" "skb_ok K b" "patch_room K cfg b"
    and "run_state (on_tx i (rtl8125_start_xmit K cfg io b)) s = (ret, s')"
  shows "adapter_inv K rcfg (if ret = NETDEV_TX_OK then ids(i := ids i @ [skb_id b]) else ids) True s'"
proof -
  note d = invD [OF assms(2)] and r = ran_tx [OF assms(3,6)]
  let ?o = "run_state (rtl8125_start_xmit K cfg io b) (txq_of s i)"
  have o: "?o = (ret, snd ?o)" using assms(6) by (simp add: prod_eq_iff)
  have s': "net_log (txq_of s' i) = net_log (snd ?o)" "ring (txq_of s' i) = ring (snd ?o)" using assms(3,6) by auto
  from books_xmit [OF assms(1) d(3) [OF assms(3)] assms(4,5) o]
  have i: "tx_books K (if ret = NETDEV_TX_OK then ids i @ [skb_id b] else ids i) (txq_of s' i)" using s' by (simp add: tx_books_def)
  show ?thesis
  proof (rule invI [OF assms(2,6) counts_kept(3)])
    show "tx_books K ((if ret = NETDEV_TX_OK then ids(i := ids i @ [skb_id b]) else ids) j) (txq_of s' j)
        \<and> (\<not> True \<longrightarrow> pending (tp_ring (a_tx s' ! j)) = [])" if "j < length (a_tx s)" for j
      using i d(3) [OF that] r(3) [of j] same_part(1) [of s' j s K "ids j"] by (cases "j = i") auto
    show "rx_sound rcfg True (rxq_of s' 0)" using d(4) same_part(2) [of s' 0 s rcfg True] r(4) by simp
  qed (use r in simp_all)
qed

lemma inv_init:
  fixes s :: "('d, 'k, 'l) adapter"
  assumes "rx_cfg_ok rcfg" "adapter_inv K rcfg ids False s" "run_state (rtl8125_init_ring K Kr rcfg) s = (ok, s')"
  shows "adapter_inv K rcfg ids ok s'"
proof -
  note d = invD [OF assms(2)]
  let ?each = "each_ring [0..<num_tx_rings (a_nic s)] (\<lambda>i. on_tx i (tx_init_ring K i))"
  obtain u t where 1: "run_state ?each s = (u, t)" by (cases "run_state ?each s")
  have 2: "run_state (on_rx 0 (rx_init_ring Kr rcfg)) t = (ok, s')" using assms(3) 1 by (simp add: rtl8125_init_ring_def del: run_on)
  have len: "num_tx_rings (a_nic s) = length (a_tx s)" using d(1) by (simp add: adapter_wf_def)
  have e: "length (a_tx t) = length (a_tx s) \<and> a_rx t = a_rx s \<and> linkchg_work t = linkchg_work s
    \<and> (\<forall>j. if j \<in> set [0..<num_tx_rings (a_nic s)] then tx_ran (tx_init_ring K j :: (('d, 'k) txq, unit) state) (a_tx s ! j) (a_tx t ! j) else a_tx t ! j = a_tx s ! j)"
    by (rule ran_each [OF _ _ 1]) (auto simp: len)
  have l: "0 < length (a_rx t)" using e d(2) by simp
  note r = ran_rx [OF l 2]
  have tx: "tx_books K (ids i) (txq_of t i) \<and> pending (tp_ring (a_tx t ! i)) = []" if i: "i < length (a_tx s)" for i
  proof (rule ran_keeps [where P = "\<lambda>r. pending r = []"])
    show "tx_ran (tx_init_ring K i :: (('d, 'k) txq, unit) state) (a_tx s ! i) (a_tx t ! i)" using e i by (auto simp: len split: if_splits)
    show "tx_books K (ids i) (txq_of s i)" by (rule d(3) [OF i])
    fix q :: "('d, 'k) txq"
    assume q: "tx_books K (ids i) q" "ring q = tp_ring (a_tx s ! i)"
    have "pending (ring q) = []" using q(2) d(5) [OF _ i] by simp
    from books_init [OF q(1) this refl] show "tx_books K (ids i) (snd (run_state (tx_init_ring K i) q)) \<and> pending (ring (snd (run_state (tx_init_ring K i) q))) = []" by blast
  qed
  show ?thesis
  proof (rule invI [OF assms(2,3) counts_kept(4)])
    show "tx_books K (ids i) (txq_of s' i) \<and> (\<not> ok \<longrightarrow> pending (tp_ring (a_tx s' ! i)) = [])" if "i < length (a_tx s)" for i
      using tx [OF that] same_part(1) [of s' i t K "ids i"] r(4) by simp
    let ?o = "run_state (rx_init_ring Kr rcfg) (rxq_of t 0)"
    have o: "?o = (ok, snd ?o)" using 2 by (simp add: prod_eq_iff)
    have "rx_sound rcfg False (rxq_of t 0)" using d(4) same_part(2) [of t 0 s rcfg False] e by simp
    from sound_init [OF assms(1) this o] show "rx_sound rcfg ok (rxq_of s' 0)"
      using 2 l by (auto simp: rx_sound_def rx_balanced_def cong: if_cong)
  qed (use e r in simp_all)
qed

lemma inv_down:
  fixes s :: "('d, 'k, 'l) adapter"
  assumes "adapter_inv K rcfg ids up s" "run_state (rtl8125_down rcfg io) s = (u, s')"
  shows "adapter_inv K rcfg ids False s'"
proof -
  note d = invD [OF assms(1)]
  have len: "num_tx_rings (a_nic s) = length (a_tx s)" "num_rx_rings (a_nic s) = 1" using d(1,2) by (simp_all add: adapter_wf_def)
  let ?pre = "do { modify (\<lambda>s. s\<lparr>a_carrier := False\<rparr>); modify (\<lambda>s. s\<lparr>a_tx := map (\<lambda>p. p\<lparr>tp_stopped := True\<rparr>) (a_tx s)\<rparr>);
      on_dev (rtl8125_wait_for_quiescence io); on_dev (rtl8125_hw_reset io) } :: ('d, 'k, 'l, unit) adp"
  define t where "t = snd (run_state ?pre s)"
  have t: "a_tx t = map (\<lambda>p. p\<lparr>tp_stopped := True\<rparr>) (a_tx s)" "a_rx t = a_rx s" by (simp_all add: t_def)
  have pre: "stays (\<lambda>s. num_tx_rings (a_nic s) = a \<and> num_rx_rings (a_nic s) = b) ?pre" for a b by (intro stays_rules counts_rules)
  have "num_tx_rings (a_nic t) = length (a_tx s) \<and> num_rx_rings (a_nic t) = 1"
    using staysD [OF pre, of s "()" t "length (a_tx s)" 1] len by (simp add: t_def)
  note cnt = this
  have "run_state (do { rtl8125_tx_clear; rtl8125_rx_clear rcfg }) t = (u, s')"
    using assms(2) unfolding rtl8125_down_def by (simp add: t_def)
  moreover obtain u1 t1 where 1: "run_state rtl8125_tx_clear t = (u1, t1)" by (cases "run_state rtl8125_tx_clear t")
  ultimately have 2: "run_state (rtl8125_rx_clear rcfg) t1 = (u, s')" by simp
  have each: "run_state (each_ring [0..<length (a_tx s)] (\<lambda>i. on_tx i tx_clear_ring)) t = (u1, t1)" using 1 cnt by (simp add: rtl8125_tx_clear_def)
  have e: "length (a_tx t1) = length (a_tx t) \<and> a_rx t1 = a_rx t \<and> linkchg_work t1 = linkchg_work t
    \<and> (\<forall>j. if j \<in> set [0..<length (a_tx s)] then tx_ran (tx_clear_ring :: (('d, 'k) txq, unit) state) (a_tx t ! j) (a_tx t1 ! j) else a_tx t1 ! j = a_tx t ! j)"
    by (rule ran_each [OF _ _ each]) (auto simp: t)
  have "stays (\<lambda>s. num_tx_rings (a_nic s) = a \<and> num_rx_rings (a_nic s) = b) (rtl8125_tx_clear :: ('d, 'k, 'l, unit) adp)" for a b
    unfolding rtl8125_tx_clear_def by (intro stays_rules counts_rules counts.tx_clear)
  from staysD [OF this 1, of "length (a_tx s)" 1] have "num_rx_rings (a_nic t1) = 1" using cnt by simp
  then have 3: "run_state (on_rx 0 (rx_clear_ring rcfg)) t1 = (u, s')" using 2 by (simp add: rtl8125_rx_clear_def)
  have l: "0 < length (a_rx t1)" using e t d(2) by simp
  note r = ran_rx [OF l 3]
  show ?thesis
  proof (rule invI [OF assms counts_kept(5)])
    show "length (a_tx s') = length (a_tx s)" "length (a_rx s') = length (a_rx s)" using e r t by simp_all
    show "tx_books K (ids i) (txq_of s' i) \<and> (\<not> False \<longrightarrow> pending (tp_ring (a_tx s' ! i)) = [])" if i: "i < length (a_tx s)" for i
    proof -
      have b: "tx_books K (ids i) (txq_of t i)" using d(3) [OF i] i by (simp add: tx_books_def t)
      have ran: "tx_ran (tx_clear_ring :: (('d, 'k) txq, unit) state) (a_tx t ! i) (a_tx t1 ! i)" using e i by (auto split: if_splits)
      have "tx_books K (ids i) (txq_of t1 i) \<and> pending (tp_ring (a_tx t1 ! i)) = []"
        by (rule ran_keeps [OF ran b, where P = "\<lambda>r. pending r = []"]) (use books_clear [OF _ refl] in blast)
      then show ?thesis using same_part(1) [of s' i t1 K "ids i"] r(4) by simp
    qed
    have "rx_sound rcfg up (rxq_of t1 0)" using d(4) same_part(2) [of t1 0 s rcfg up] e t by simp
    then show "rx_sound rcfg False (rxq_of s' 0)"
      by (rule rx_ran_keeps [OF r(1)]) (rule sound_clear(1) [OF _ refl])
  qed
qed

text \<open>
  The controller between two calls of the driver: descriptors as for a single ring, any change of its registers.
\<close>

definition adapter_hw :: "rx_cfg \<Rightarrow> ('d, 'k, 'l) adapter \<Rightarrow> ('d, 'k, 'l) adapter \<Rightarrow> bool" where
  "adapter_hw rcfg s s' \<longleftrightarrow> length (a_tx s') = length (a_tx s) \<and> length (a_rx s') = length (a_rx s)
     \<and> num_tx_rings (a_nic s') = num_tx_rings (a_nic s) \<and> num_rx_rings (a_nic s') = num_rx_rings (a_nic s)
     \<and> (\<forall>i < length (a_tx s). hw_writes (tp_ring (a_tx s ! i)) (tp_ring (a_tx s' ! i)) \<and> tp_log (a_tx s' ! i) = tp_log (a_tx s ! i))
     \<and> (\<forall>i < length (a_rx s). rx_hw rcfg (rp_ring (a_rx s ! i)) (rp_ring (a_rx s' ! i)) \<and> rp_log (a_rx s' ! i) = rp_log (a_rx s ! i))"

lemma inv_hw:
  assumes "adapter_inv K rcfg ids True s" "adapter_hw rcfg s s'"
  shows "adapter_inv K rcfg ids True s'"
proof -
  note d = invD [OF assms(1)]
  have "tx_books K (ids i) (txq_of s' i)" if "i < length (a_tx s)" for i
    using books_hw [OF d(3) [OF that], of "txq_of s' i"] assms(2) that by (simp add: adapter_hw_def)
  moreover have "rx_sound rcfg True (rxq_of s' 0)"
    using sound_hw [OF d(4), of "rxq_of s' 0"] assms(2) d(2) by (simp add: adapter_hw_def)
  ultimately show ?thesis using assms by (simp add: adapter_inv_def adapter_wf_def adapter_hw_def)
qed

text \<open>
  The life of the adapter, with the packets handed to each transmit ring: it is set up when down; when up it is given
  packets and interrupted; it can be taken down at any time.
\<close>

inductive adapter_reach :: "'k kernel \<Rightarrow> tx_cfg \<Rightarrow> 'l rx_kernel \<Rightarrow> rx_cfg \<Rightarrow> u32 \<Rightarrow> 'd mmio \<Rightarrow> ('d, 'k, 'l) adapter
    \<Rightarrow> (nat \<Rightarrow> nat list) \<Rightarrow> bool \<Rightarrow> ('d, 'k, 'l) adapter \<Rightarrow> bool" for K cfg Kr rcfg tc io s0 where
  start: "adapter_reach K cfg Kr rcfg tc io s0 (\<lambda>_. []) False s0"
| init: "adapter_reach K cfg Kr rcfg tc io s0 ids False s \<Longrightarrow> run_state (rtl8125_init_ring K Kr rcfg) s = (ok, s') \<Longrightarrow>
    adapter_reach K cfg Kr rcfg tc io s0 ids ok s'"
| xmit: "adapter_reach K cfg Kr rcfg tc io s0 ids True s \<Longrightarrow> i < length (a_tx s) \<Longrightarrow> skb_ok K b \<Longrightarrow> patch_room K cfg b \<Longrightarrow>
    run_state (on_tx i (rtl8125_start_xmit K cfg io b)) s = (ret, s') \<Longrightarrow>
    adapter_reach K cfg Kr rcfg tc io s0 (if ret = NETDEV_TX_OK then ids(i := ids i @ [skb_id b]) else ids) True s'"
| irq: "adapter_reach K cfg Kr rcfg tc io s0 ids True s \<Longrightarrow> run_state (rtl8125_interrupt K cfg Kr rcfg tc io) s = (h, s') \<Longrightarrow>
    adapter_reach K cfg Kr rcfg tc io s0 ids True s'"
| msix: "adapter_reach K cfg Kr rcfg tc io s0 ids True s \<Longrightarrow> run_state (rtl8125_interrupt_msix K cfg Kr rcfg io i) s = (u, s') \<Longrightarrow>
    adapter_reach K cfg Kr rcfg tc io s0 ids True s'"
| hw: "adapter_reach K cfg Kr rcfg tc io s0 ids True s \<Longrightarrow> adapter_hw rcfg s s' \<Longrightarrow> adapter_reach K cfg Kr rcfg tc io s0 ids True s'"
| down: "adapter_reach K cfg Kr rcfg tc io s0 ids up s \<Longrightarrow> run_state (rtl8125_down rcfg io) s = (u, s') \<Longrightarrow>
    adapter_reach K cfg Kr rcfg tc io s0 ids False s'"

definition adapter_fresh :: "'k kernel \<Rightarrow> rx_cfg \<Rightarrow> ('d, 'k, 'l) adapter \<Rightarrow> bool" where
  "adapter_fresh K rcfg s \<longleftrightarrow> adapter_wf s \<and> num_rx_rings (a_nic s) = 1
     \<and> (\<forall>p \<in> set (a_tx s). tx_inv K (tp_ring p) \<and> pending (tp_ring p) = [] \<and> tp_log p = [])
     \<and> (\<forall>p \<in> set (a_rx s). rx_shape rcfg (rp_ring p) \<and> rx_empty (rp_ring p) \<and> rp_log p = [])"

lemma reach_inv:
  assumes "kernel_ok K" "rx_cfg_ok rcfg" "adapter_fresh K rcfg s0" "adapter_reach K cfg Kr rcfg tc io s0 ids up s"
  shows "adapter_inv K rcfg ids up s"
  using assms(4)
proof induction
  case start
  have l: "0 < length (a_rx s0)" using assms(3) by (simp add: adapter_fresh_def adapter_wf_def)
  then have "a_rx s0 ! 0 \<in> set (a_rx s0)" by simp
  then have "rx_sound rcfg False (rxq_of s0 0)"
    using assms(3) by (simp add: adapter_fresh_def rx_sound_def rx_balanced_def empty_holds)
  moreover have "tx_books K [] (txq_of s0 i) \<and> pending (tp_ring (a_tx s0 ! i)) = []" if "i < length (a_tx s0)" for i
  proof -
    have "a_tx s0 ! i \<in> set (a_tx s0)" using that by simp
    then show ?thesis using assms(3) by (simp add: adapter_fresh_def tx_books_def held_skbs_def held_dma_def)
  qed
  ultimately show ?case using assms(3) by (simp add: adapter_inv_def adapter_fresh_def)
next
  case (init ids s ok s')
  then show ?case using inv_init [OF assms(2)] by blast
next
  case (xmit ids s i b ret s')
  then show ?case using inv_xmit [OF assms(1)] by blast
next
  case (irq ids s h s')
  then show ?case using inv_irq [OF assms(2)] by blast
next
  case (msix ids s i u s')
  then show ?case using inv_msix [OF assms(2)] by blast
next
  case (hw ids s s')
  then show ?case using inv_hw by blast
next
  case (down ids up s u s')
  then show ?case using inv_down by blast
qed

text \<open>
  Property C35.  The driver as a whole, over any sequence of setting up, packets on any ring, interrupts of either kind,
  completions by the controller and taking down, whatever the kernel does: for every transmit ring the packets
  released and those pending are the packets handed over, each once, and once more those whose padding failed (the
  kernel has freed these and so does the driver); its mappings are those undone and those pending; for the receive
  ring the buffers allocated are those freed, handed up or in the ring, and so for its mappings; and taking the
  driver down, at any time, gives everything back.  The ring sizes are powers of two, and a large send on a chip
  with the large-send patch has fewer than the greatest number of fragments (\<open>patch_room\<close>).
\<close>

theorem adapter_conservation:
  assumes "kernel_ok K" "rx_cfg_ok rcfg" "adapter_fresh K rcfg s0" "adapter_reach K cfg Kr rcfg tc io s0 ids up s"
  shows "(\<forall>i < length (a_tx s). let l = tp_log (a_tx s ! i); r = tp_ring (a_tx s ! i) in
        released l + held_skbs r = mset (ids i) + pad_failed l \<and> pad_failed l + pad_failed l \<subseteq># released l
        \<and> mapped l = unmapped l + held_dma r)
    \<and> (let l = rp_log (a_rx s ! 0); r = rp_ring (a_rx s ! 0) in
        allocated l = gone l + rx_bufs r \<and> rx_mapped l = rx_unmapped l + rx_maps rcfg r)
    \<and> (let s' = snd (run_state (rtl8125_down rcfg io) s) in
        (\<forall>i < length (a_tx s'). let l = tp_log (a_tx s' ! i) in released l = mset (ids i) + pad_failed l \<and> mapped l = unmapped l)
        \<and> (let l = rp_log (a_rx s' ! 0) in allocated l = gone l \<and> rx_mapped l = rx_unmapped l))"
proof -
  note inv = reach_inv [OF assms]
  note d = invD [OF inv] and e = invD [OF inv_down [OF inv surjective_pairing]]
  have 1: "released (tp_log (a_tx s ! i)) + held_skbs (tp_ring (a_tx s ! i)) = mset (ids i) + pad_failed (tp_log (a_tx s ! i))
      \<and> pad_failed (tp_log (a_tx s ! i)) + pad_failed (tp_log (a_tx s ! i)) \<subseteq># released (tp_log (a_tx s ! i))
      \<and> mapped (tp_log (a_tx s ! i)) = unmapped (tp_log (a_tx s ! i)) + held_dma (tp_ring (a_tx s ! i))" if "i < length (a_tx s)" for i
    using d(3) [OF that] by (simp add: tx_books_def)
  have 2: "allocated (rp_log (a_rx s ! 0)) = gone (rp_log (a_rx s ! 0)) + rx_bufs (rp_ring (a_rx s ! 0))
      \<and> rx_mapped (rp_log (a_rx s ! 0)) = rx_unmapped (rp_log (a_rx s ! 0)) + rx_maps rcfg (rp_ring (a_rx s ! 0))"
    using d(4) by (simp add: rx_sound_def rx_balanced_def)
  let ?s = "snd (run_state (rtl8125_down rcfg io) s)"
  have 3: "released (tp_log (a_tx ?s ! i)) = mset (ids i) + pad_failed (tp_log (a_tx ?s ! i)) \<and> mapped (tp_log (a_tx ?s ! i)) = unmapped (tp_log (a_tx ?s ! i))" if "i < length (a_tx ?s)" for i
    using e(3) [OF that] e(5) [OF _ that] by (simp add: tx_books_def held_skbs_def held_dma_def)
  have 4: "allocated (rp_log (a_rx ?s ! 0)) = gone (rp_log (a_rx ?s ! 0)) \<and> rx_mapped (rp_log (a_rx ?s ! 0)) = rx_unmapped (rp_log (a_rx ?s ! 0))"
    using e(4) by (simp add: rx_sound_def rx_balanced_def empty_holds)
  show ?thesis unfolding Let_def using 1 2 3 4 by blast
qed

section \<open>A small adapter\<close>

definition demo_adapter :: "tx_ring \<Rightarrow> rx_ring \<Rightarrow> (unit, nat, nat) adapter" where
  "demo_adapter r q = \<lparr>a_nic = (demo_nic ())\<lparr>features := 2, keep_intr_cnt := 3\<rparr>, a_kern = 0, a_rx_kern = 3, a_carrier = True,
     a_tx_dropped = 0, a_tx_bytes = 0, a_tx_packets = 0, a_stats = demo_rx_stats,
     a_tx = [\<lparr>tp_log = [], tp_stopped = False, tp_ring = r\<rparr>], a_rx = [\<lparr>rp_log = [], rp_ring = q\<rparr>], linkchg_work = False\<rparr>"

lemma demo_adapter_wf: "adapter_wf (demo_adapter r q)"
  by (simp add: adapter_wf_def demo_adapter_def demo_nic_def)


theorem interrupt_msix_exact_witness:
  "let s = demo_adapter busy_ring demo_rx_ring; s' = snd (run_state (rtl8125_interrupt_msix demo_kernel demo_cfg demo_rx_kernel demo_rx_cfg demo_io 16) s)
   in tx_served demo_kernel demo_cfg demo_io (a_tx s ! 0) (a_tx s' ! 0) \<and> a_rx s' ! 0 = a_rx s ! 0 \<and> \<not> linkchg_work s'"
proof -
  let ?s = "demo_adapter busy_ring demo_rx_ring"
  have n: "irq_requested (a_nic ?s) 16" "HwCurrIsrVer (a_nic ?s) = 5" "num_tx_rings (a_nic ?s) = 1" "length (a_tx ?s) = 1" "length (a_rx ?s) = 1" "\<not> linkchg_work ?s"
    by (simp_all add: demo_adapter_def demo_nic_def)
  show ?thesis
    using interrupt_msix_exact [OF demo_adapter_wf surjective_pairing refl, where K = demo_kernel and cfg = demo_cfg and Kr = demo_rx_kernel and rcfg = demo_rx_cfg and io = demo_io and i = 16, of busy_ring demo_rx_ring] n
    by (simp add: Let_def rtl8125_get_linkchg_message_id_def tx_vector_def)
qed

theorem adapter_conservation_witness:
  "let s = snd (run_state (rtl8125_init_ring demo_kernel demo_rx_kernel demo_rx_cfg) (demo_adapter demo_ring demo_rx_empty));
     s' = snd (run_state (rtl8125_down demo_rx_cfg demo_io) s)
   in allocated (rp_log (a_rx s ! 0)) = gone (rp_log (a_rx s ! 0)) + rx_bufs (rp_ring (a_rx s ! 0)) \<and> allocated (rp_log (a_rx s' ! 0)) = gone (rp_log (a_rx s' ! 0))"
proof -
  let ?s = "demo_adapter demo_ring demo_rx_empty"
  have "pending demo_ring = []" by (simp add: pending_def inflight_def demo_ring_def)
  then have f: "adapter_fresh demo_kernel demo_rx_cfg ?s"
    using demo_adapter_wf [of demo_ring demo_rx_empty] demo_ring_inv(1) demo_rx_ok by (simp add: adapter_fresh_def demo_adapter_def demo_nic_def)
  let ?r = "run_state (rtl8125_init_ring demo_kernel demo_rx_kernel demo_rx_cfg) ?s"
  have "adapter_reach demo_kernel demo_cfg demo_rx_kernel demo_rx_cfg 0 demo_io ?s (\<lambda>_. []) (fst ?r) (snd ?r)"
    by (rule adapter_reach.init [OF adapter_reach.start surjective_pairing])
  from adapter_conservation [OF demo_kernel_ok demo_rx_ok(1) f this] show ?thesis by (simp add: Let_def)
qed

end
