(* ===== verification/Firmware.thy ===== *)
theory Firmware
  imports HwCtl
begin

text \<open>
  The firmware loader (\<open>r8125_firmware.c\<close>, the same text in all four drivers): a file is checked for its
  format and then word by word, and later executed as a program over PHY and MCU registers.  The
  program counter is the 64-bit \<open>size_t\<close> of the source with its wrap-around.  The interpreter takes the
  four access functions as arguments (\<open>fw_ops\<close>); \<open>r8125_fw_ops\<close> is how \<open>rtl8125_request_firmware\<close> sets
  them, over the register channels of \<open>Access\<close>.

  The interpreter's loop may run forever, so it has fuel and says whether it came to its end; that it
  does is proved for programs without backward jumps, where as many steps as the program has actions are
  enough.
\<close>

section \<open>The file\<close>

datatype rtl_fw_opcode =
    PHY_READ | PHY_DATA_OR | PHY_DATA_AND | PHY_BJMPN | PHY_MDIO_CHG | PHY_CLEAR_READCOUNT | PHY_WRITE
  | PHY_READCOUNT_EQ_SKIP | PHY_COMP_EQ_SKIPN | PHY_COMP_NEQ_SKIPN | PHY_WRITE_PREVIOUS | PHY_SKIPN | PHY_DELAY_MS

definition opcode_of :: "u32 \<Rightarrow> rtl_fw_opcode option" where
  "opcode_of action = (let k = drop_bit 28 action in
     if k = 0x0 then Some PHY_READ
     else if k = 0x1 then Some PHY_DATA_OR
     else if k = 0x2 then Some PHY_DATA_AND
     else if k = 0x3 then Some PHY_BJMPN
     else if k = 0x4 then Some PHY_MDIO_CHG
     else if k = 0x7 then Some PHY_CLEAR_READCOUNT
     else if k = 0x8 then Some PHY_WRITE
     else if k = 0x9 then Some PHY_READCOUNT_EQ_SKIP
     else if k = 0xa then Some PHY_COMP_EQ_SKIPN
     else if k = 0xb then Some PHY_COMP_NEQ_SKIPN
     else if k = 0xc then Some PHY_WRITE_PREVIOUS
     else if k = 0xd then Some PHY_SKIPN
     else if k = 0xe then Some PHY_DELAY_MS
     else None)"

definition fw_val :: "u32 \<Rightarrow> u32" where
  "fw_val action = action AND 0x0000ffff"

definition fw_regno :: "u32 \<Rightarrow> u32" where
  "fw_regno action = drop_bit 16 (action AND 0x0fff0000)"

text \<open>
  \<open>struct rtl8125_fw\<close> as far as the loader fills it in: the file's bytes, the version, and the program as
  an offset into the file and a number of actions.
\<close>

record rtl8125_fw =
  fw_data :: bytes
  fw_version :: bytes
  pa_code :: nat
  pa_size :: nat

definition RTL8125_VER_SIZE :: nat where "RTL8125_VER_SIZE = 32"
definition FW_OPCODE_SIZE :: nat where "FW_OPCODE_SIZE = 4"

text \<open>\<open>struct fw_info\<close> is packed: the magic at 0, the version at 4, start and length at 36 and 40, the checksum at 44.\<close>

definition fw_info_size :: nat where "fw_info_size = 4 + RTL8125_VER_SIZE + 4 + 4 + 1"

definition fw_le32 :: "bytes \<Rightarrow> nat \<Rightarrow> u32" where
  "fw_le32 d i = le32 (d ! i) (d ! (i + 1)) (d ! (i + 2)) (d ! (i + 3))"

definition strscpy :: "bytes \<Rightarrow> nat \<Rightarrow> bytes" where
  "strscpy src n = takeWhile (\<lambda>b. b \<noteq> 0) (take (n - 1) src)"

definition rtl8125_fw_format_ok :: "bytes \<Rightarrow> bytes \<Rightarrow> rtl8125_fw option" where
  "rtl8125_fw_format_ok name d =
     (if length d < FW_OPCODE_SIZE then None
      else if fw_le32 d 0 = 0 then
        (if length d < fw_info_size then None
         else if sum_list d \<noteq> 0 then None
         else
           let start = unat (fw_le32 d (4 + RTL8125_VER_SIZE)) in
           if length d < start then None
           else
             let size = unat (fw_le32 d (8 + RTL8125_VER_SIZE)) in
             if (length d - start) div FW_OPCODE_SIZE < size then None
             else Some \<lparr>fw_data = d, fw_version = strscpy (slice 4 RTL8125_VER_SIZE d) RTL8125_VER_SIZE, pa_code = start, pa_size = size\<rparr>)
      else if length d mod FW_OPCODE_SIZE \<noteq> 0 then None
      else Some \<lparr>fw_data = d, fw_version = strscpy name RTL8125_VER_SIZE, pa_code = 0, pa_size = length d div FW_OPCODE_SIZE\<rparr>)"

definition fw_action :: "rtl8125_fw \<Rightarrow> nat \<Rightarrow> u32" where
  "fw_action f i = fw_le32 (fw_data f) (pa_code f + FW_OPCODE_SIZE * i)"

text \<open>One iteration of \<open>rtl8125_fw_data_ok\<close>.\<close>

definition fw_action_ok :: "rtl8125_fw \<Rightarrow> nat \<Rightarrow> bool" where
  "fw_action_ok f index =
     (let action = fw_action f index; val = fw_val action; regno = unat (fw_regno action) in
      case opcode_of action of
        None \<Rightarrow> False
      | Some PHY_MDIO_CHG \<Rightarrow> \<not> (1 < val)
      | Some PHY_BJMPN \<Rightarrow> \<not> (index < regno)
      | Some PHY_READCOUNT_EQ_SKIP \<Rightarrow> \<not> (pa_size f \<le> index + 2)
      | Some PHY_COMP_EQ_SKIPN \<Rightarrow> \<not> (pa_size f \<le> index + 1 + regno)
      | Some PHY_COMP_NEQ_SKIPN \<Rightarrow> \<not> (pa_size f \<le> index + 1 + regno)
      | Some PHY_SKIPN \<Rightarrow> \<not> (pa_size f \<le> index + 1 + regno)
      | Some _ \<Rightarrow> True)"

fun fw_data_loop :: "rtl8125_fw \<Rightarrow> nat \<Rightarrow> nat \<Rightarrow> bool" where
  "fw_data_loop f index n = (if n = 0 then True else if fw_action_ok f index then fw_data_loop f (index + 1) (n - 1) else False)"

declare fw_data_loop.simps [simp del]

definition rtl8125_fw_data_ok :: "rtl8125_fw \<Rightarrow> bool" where
  "rtl8125_fw_data_ok f = fw_data_loop f 0 (pa_size f)"

datatype fw_event = FwRequest bytes | FwRelease

text \<open>
  \<open>request_firmware\<close> gives an error number or the bytes of the file; \<open>Inl\<close> is the error returned.
\<close>

definition rtl8125_fw_request_firmware :: "(bytes \<Rightarrow> int + bytes) \<Rightarrow> bytes \<Rightarrow> (int + rtl8125_fw) \<times> fw_event list" where
  "rtl8125_fw_request_firmware request name = (case request name of
       Inl rc \<Rightarrow> (Inl rc, [FwRequest name])
     | Inr d \<Rightarrow> (case rtl8125_fw_format_ok name d of
           None \<Rightarrow> (Inl (- 22), [FwRequest name, FwRelease])
         | Some f \<Rightarrow> if \<not> rtl8125_fw_data_ok f then (Inl (- 22), [FwRequest name, FwRelease]) else (Inr f, [FwRequest name])))"

section \<open>The interpreter\<close>

record 's fw_ops =
  phy_write :: "u16 \<Rightarrow> u16 \<Rightarrow> ('s, unit) state"
  phy_read :: "u16 \<Rightarrow> ('s, u32) state"
  mac_mcu_write :: "u16 \<Rightarrow> u16 \<Rightarrow> ('s, unit) state"
  mac_mcu_read :: "u16 \<Rightarrow> ('s, u32) state"
  fw_mdelay :: "u32 \<Rightarrow> ('s, unit) state"

text \<open>The local variables of the interpreter; \<open>fw_mcu\<close> says which pair of access functions is selected.\<close>

record fw_vm =
  vm_index :: u64
  predata :: u32
  read_count :: u32
  fw_mcu :: bool

definition fw_read :: "'s fw_ops \<Rightarrow> fw_vm \<Rightarrow> u16 \<Rightarrow> ('s, u32) state" where
  "fw_read ops vm = (if fw_mcu vm then mac_mcu_read ops else phy_read ops)"

definition fw_write :: "'s fw_ops \<Rightarrow> fw_vm \<Rightarrow> u16 \<Rightarrow> u16 \<Rightarrow> ('s, unit) state" where
  "fw_write ops vm = (if fw_mcu vm then mac_mcu_write ops else phy_write ops)"

definition fw_jump :: "fw_vm \<Rightarrow> u64 \<Rightarrow> fw_vm" where
  "fw_jump vm n = vm\<lparr>vm_index := vm_index vm + n\<rparr>"

text \<open>The \<open>switch\<close> of \<open>rtl8125_fw_write_firmware\<close>.\<close>

definition fw_exec :: "'s fw_ops \<Rightarrow> u32 \<Rightarrow> fw_vm \<Rightarrow> ('s, fw_vm) state" where
  "fw_exec ops action vm =
     (let data = fw_val action; regno = fw_regno action in
      case opcode_of action of
        Some PHY_READ \<Rightarrow> do {
          v \<leftarrow> fw_read ops vm (ucast regno);
          State_Monad.return (vm\<lparr>predata := v, read_count := read_count vm + 1\<rparr>)
        }
      | Some PHY_DATA_OR \<Rightarrow> State_Monad.return (vm\<lparr>predata := predata vm OR data\<rparr>)
      | Some PHY_DATA_AND \<Rightarrow> State_Monad.return (vm\<lparr>predata := predata vm AND data\<rparr>)
      | Some PHY_BJMPN \<Rightarrow> State_Monad.return (vm\<lparr>vm_index := vm_index vm - (ucast regno + 1)\<rparr>)
      | Some PHY_MDIO_CHG \<Rightarrow> State_Monad.return (vm\<lparr>fw_mcu := data \<noteq> 0\<rparr>)
      | Some PHY_CLEAR_READCOUNT \<Rightarrow> State_Monad.return (vm\<lparr>read_count := 0\<rparr>)
      | Some PHY_WRITE \<Rightarrow> do { fw_write ops vm (ucast regno) (ucast data); State_Monad.return vm }
      | Some PHY_READCOUNT_EQ_SKIP \<Rightarrow> State_Monad.return (if read_count vm = data then fw_jump vm 1 else vm)
      | Some PHY_COMP_EQ_SKIPN \<Rightarrow> State_Monad.return (if predata vm = data then fw_jump vm (ucast regno) else vm)
      | Some PHY_COMP_NEQ_SKIPN \<Rightarrow> State_Monad.return (if predata vm \<noteq> data then fw_jump vm (ucast regno) else vm)
      | Some PHY_WRITE_PREVIOUS \<Rightarrow> do { fw_write ops vm (ucast regno) (ucast (predata vm)); State_Monad.return vm }
      | Some PHY_SKIPN \<Rightarrow> State_Monad.return (fw_jump vm (ucast regno))
      | Some PHY_DELAY_MS \<Rightarrow> do { fw_mdelay ops data; State_Monad.return vm }
      | None \<Rightarrow> State_Monad.return vm)"

text \<open>One iteration of the loop; \<open>None\<close> is its end.\<close>

definition fw_step :: "'s fw_ops \<Rightarrow> rtl8125_fw \<Rightarrow> fw_vm \<Rightarrow> ('s, fw_vm option) state" where
  "fw_step ops f vm =
     (if pa_size f \<le> unat (vm_index vm) then State_Monad.return None
      else
        let action = fw_action f (unat (vm_index vm)) in
        if action = 0 then State_Monad.return None
        else do {
          vm \<leftarrow> fw_exec ops action vm;
          State_Monad.return (Some (fw_jump vm 1))
        })"

fun fw_loop :: "'s fw_ops \<Rightarrow> rtl8125_fw \<Rightarrow> nat \<Rightarrow> fw_vm \<Rightarrow> ('s, bool) state" where
  "fw_loop ops f fuel vm =
     (if fuel = 0 then State_Monad.return False
      else do {
        n \<leftarrow> fw_step ops f vm;
        case n of None \<Rightarrow> State_Monad.return True | Some vm \<Rightarrow> fw_loop ops f (fuel - 1) vm
      })"

declare fw_loop.simps [simp del]

definition fw_start :: fw_vm where
  "fw_start = \<lparr>vm_index = 0, predata = 0, read_count = 0, fw_mcu = False\<rparr>"

definition rtl8125_fw_write_firmware :: "'s fw_ops \<Rightarrow> rtl8125_fw \<Rightarrow> nat \<Rightarrow> ('s, bool) state" where
  "rtl8125_fw_write_firmware ops f fuel = fw_loop ops f fuel fw_start"

section \<open>The driver's access functions\<close>

record 'd fw_nic =
  fw_priv :: "'d nic"
  ocp_base :: u32
  hw_ram_code_ver :: u16
  sw_ram_code_ver :: u16
  HwHasWrRamCodeToMicroP :: bool

definition OCP_STD_PHY_BASE :: u32 where "OCP_STD_PHY_BASE = 0xa400"

definition on_fw_nic :: "('d, 'a) drv \<Rightarrow> ('d fw_nic, 'a) state" where
  "on_fw_nic m = State (\<lambda>s. let (x, p) = run_state m (fw_priv s) in (x, s\<lparr>fw_priv := p\<rparr>))"

definition r8125_mac_mcu_write :: "'d mmio \<Rightarrow> u16 \<Rightarrow> u16 \<Rightarrow> ('d fw_nic, unit) state" where
  "r8125_mac_mcu_write io reg val =
     (if reg = 0x1f then modify (\<lambda>s. s\<lparr>ocp_base := push_bit 4 (ucast val)\<rparr>)
      else do {
        base \<leftarrow> gets ocp_base;
        on_fw_nic (rtl8125_mac_ocp_write io (ucast (base + ucast reg)) val)
      })"

definition r8125_mac_mcu_read :: "'d mmio \<Rightarrow> u16 \<Rightarrow> ('d fw_nic, u32) state" where
  "r8125_mac_mcu_read io reg = do {
     base \<leftarrow> gets ocp_base;
     v \<leftarrow> on_fw_nic (rtl8125_mac_ocp_read io (ucast (base + ucast reg)));
     State_Monad.return (ucast v)
   }"

definition r8125_fw_ops :: "'d mmio \<Rightarrow> 'd fw_nic fw_ops" where
  "r8125_fw_ops io = \<lparr>
     phy_write = (\<lambda>r v. on_fw_nic (rtl8125_mdio_write io r v)),
     phy_read = (\<lambda>r. on_fw_nic (rtl8125_mdio_read io r)),
     mac_mcu_write = r8125_mac_mcu_write io,
     mac_mcu_read = r8125_mac_mcu_read io,
     fw_mdelay = (\<lambda>n. on_fw_nic (udelay io (1000 * unat n)))\<rparr>"

definition rtl8125_get_hw_phy_mcu_code_ver :: "'d mmio \<Rightarrow> ('d, u16) drv" where
  "rtl8125_get_hw_phy_mcu_code_ver io = do {
     rtl8125_mdio_direct_write_phy_ocp io 0xA436 0x801E;
     v \<leftarrow> rtl8125_mdio_direct_read_phy_ocp io 0xA438;
     State_Monad.return (ucast v)
   }"

text \<open>The result is whether the firmware program came to its end within the fuel.\<close>

definition rtl8125_apply_firmware :: "'d mmio \<Rightarrow> rtl8125_fw option \<Rightarrow> nat \<Rightarrow> ('d fw_nic, bool) state" where
  "rtl8125_apply_firmware io fw fuel = (case fw of
       None \<Rightarrow> State_Monad.return True
     | Some f \<Rightarrow> do {
         ended \<leftarrow> rtl8125_fw_write_firmware (r8125_fw_ops io) f fuel;
         if \<not> ended then State_Monad.return False
         else do {
           modify (\<lambda>s. s\<lparr>ocp_base := OCP_STD_PHY_BASE\<rparr>);
           on_fw_nic (rtl8125_wait_phy_reset_complete io);
           v \<leftarrow> on_fw_nic (rtl8125_get_hw_phy_mcu_code_ver io);
           modify (\<lambda>s. s\<lparr>hw_ram_code_ver := v\<rparr>);
           modify (\<lambda>s. s\<lparr>sw_ram_code_ver := v\<rparr>);
           modify (\<lambda>s. s\<lparr>HwHasWrRamCodeToMicroP := True\<rparr>);
           State_Monad.return True
         }
       })"

section \<open>What the checks establish\<close>

lemma fw_data_loop_iff: "fw_data_loop f i n \<longleftrightarrow> (\<forall>j < n. fw_action_ok f (i + j))"
proof (induction n arbitrary: i)
  case 0
  then show ?case by (subst fw_data_loop.simps) simp
next
  case (Suc n)
  have "(\<forall>j < Suc n. fw_action_ok f (i + j)) \<longleftrightarrow> fw_action_ok f i \<and> (\<forall>j < n. fw_action_ok f (Suc i + j))"
    by (metis add_0_right add_Suc_shift less_Suc_eq_0_disj)
  then show ?case by (subst fw_data_loop.simps) (simp add: Suc.IH)
qed

lemma fw_data_ok_iff: "rtl8125_fw_data_ok f \<longleftrightarrow> (\<forall>i < pa_size f. fw_action_ok f i)"
  by (simp add: rtl8125_fw_data_ok_def fw_data_loop_iff)

lemma fw_format_fits:
  assumes "rtl8125_fw_format_ok name d = Some f"
  shows "fw_data f = d" "pa_code f + 4 * pa_size f \<le> length d"
proof -
  have d: "fw_data f = d \<and> pa_code f + 4 * pa_size f \<le> length d"
  proof (cases "fw_le32 d 0 = 0")
    case True
    let ?st = "unat (fw_le32 d (4 + RTL8125_VER_SIZE))" let ?sz = "unat (fw_le32 d (8 + RTL8125_VER_SIZE))"
    have "?st \<le> length d" "?sz \<le> (length d - ?st) div 4" "f = \<lparr>fw_data = d, fw_version = strscpy (slice 4 RTL8125_VER_SIZE d) RTL8125_VER_SIZE, pa_code = ?st, pa_size = ?sz\<rparr>"
      using assms True by (simp_all add: rtl8125_fw_format_ok_def FW_OPCODE_SIZE_def Let_def split: if_splits)
    then show ?thesis by auto
  next
    case False
    then show ?thesis using assms by (auto simp: rtl8125_fw_format_ok_def FW_OPCODE_SIZE_def split: if_splits)
  qed
  show "fw_data f = d" "pa_code f + 4 * pa_size f \<le> length d" using d by simp_all
qed

lemma fw_request_ok:
  assumes "rtl8125_fw_request_firmware request name = (Inr f, ev)"
  shows "pa_code f + 4 * pa_size f \<le> length (fw_data f)" "rtl8125_fw_data_ok f" "request name = Inr (fw_data f)"
  using assms fw_format_fits by (auto simp: rtl8125_fw_request_firmware_def split: sum.splits option.splits if_splits)

lemma fw_regno_bound: "unat (fw_regno a) \<le> 0xfff"
proof -
  have "a AND 0x0fff0000 \<le> 0x0fff0000" by (rule word_and_le1)
  then have "unat (a AND 0x0fff0000) \<le> unat (0x0fff0000 :: u32)" by (simp only: word_le_nat_alt)
  then show ?thesis by (simp add: fw_regno_def drop_bit_eq_div unat_div)
qed

section \<open>Where the program counter goes\<close>

lemma fw_exec_moves:
  assumes "run_state (fw_exec ops action vm) s = (vm', s')"
  obtains "opcode_of action = Some PHY_BJMPN" "vm_index vm' = vm_index vm - (ucast (fw_regno action) + 1)"
  | "opcode_of action \<noteq> Some PHY_BJMPN" "vm_index vm' = vm_index vm"
  | "opcode_of action = Some PHY_READCOUNT_EQ_SKIP" "vm_index vm' = vm_index vm + 1"
  | "opcode_of action \<in> Some ` {PHY_COMP_EQ_SKIPN, PHY_COMP_NEQ_SKIPN, PHY_SKIPN}" "vm_index vm' = vm_index vm + ucast (fw_regno action)"
  using assms unfolding fw_exec_def Let_def
  by (cases "opcode_of action"; cases "the (opcode_of action)") (auto simp: fw_jump_def split: if_splits prod.splits)

lemma fw_exec_index:
  assumes "fw_action_ok f (unat (vm_index vm))" "unat (vm_index vm) < pa_size f" "pa_size f < 2 ^ 62"
    and "action = fw_action f (unat (vm_index vm))" "run_state (fw_exec ops action vm) s = (vm', s')"
  shows "unat (vm_index vm' + 1) \<le> pa_size f"
    and "opcode_of action \<noteq> Some PHY_BJMPN \<Longrightarrow> unat (vm_index vm) < unat (vm_index vm' + 1)"
proof -
  let ?i = "vm_index vm" let ?k = "ucast (fw_regno action) :: u64"
  have k: "unat ?k = unat (fw_regno action)" "unat ?k \<le> 0xfff" using fw_regno_bound [of action] by (simp_all add: unsigned_ucast_eq take_bit_nat_eq_self)
  have plus: "unat (?i + j) = unat ?i + unat j" if "unat j \<le> 0x1000" for j
    using that assms(2,3) by (intro unat_add_lem [THEN iffD1]) simp
  have p1: "unat (?i + 1) = unat ?i + 1" using plus [of 1] by simp
  have k1: "unat (?k + 1) = unat ?k + 1" using k(2) unat_add_lem [THEN iffD1, of ?k 1] by simp
  have pk: "unat (?i + ?k + 1) = unat ?i + unat ?k + 1" using plus [of "?k + 1"] k1 k(2) by (simp add: add.assoc)
  have p2: "unat (?i + 1 + 1) = unat ?i + 2" using plus [of "1 + 1"] unfolding add.assoc by simp
  have bk: "unat (?i - (?k + 1) + 1) = unat ?i - unat ?k" if "unat ?k \<le> unat ?i"
    using that by (simp add: unat_sub word_le_nat_alt)
  note ok = assms(1) [unfolded fw_action_ok_def assms(4) [symmetric] Let_def]
  have cases: "unat (vm_index vm' + 1) \<le> pa_size f \<and> (opcode_of action \<noteq> Some PHY_BJMPN \<longrightarrow> unat ?i < unat (vm_index vm' + 1))"
    using assms(5)
  proof (cases rule: fw_exec_moves)
    case 1
    then show ?thesis using ok assms(2) bk k(1) by simp
  next
    case 2
    then show ?thesis using assms(2) p1 by simp
  next
    case 3
    then show ?thesis using ok unfolding 3(2) p2 by simp
  next
    case 4
    then show ?thesis using ok k(1) unfolding 4(2) pk by auto
  qed
  show "unat (vm_index vm' + 1) \<le> pa_size f"
    and "opcode_of action \<noteq> Some PHY_BJMPN \<Longrightarrow> unat (vm_index vm) < unat (vm_index vm' + 1)"
    using cases by simp_all
qed

section \<open>Running a checked program\<close>

text \<open>The states the interpreter goes through, one iteration after the other.\<close>

inductive fw_reach :: "'s fw_ops \<Rightarrow> rtl8125_fw \<Rightarrow> 's \<Rightarrow> fw_vm \<Rightarrow> 's \<Rightarrow> bool" for ops f s0 where
  start: "fw_reach ops f s0 fw_start s0"
| step: "fw_reach ops f s0 vm s \<Longrightarrow> run_state (fw_step ops f vm) s = (Some vm', s') \<Longrightarrow> fw_reach ops f s0 vm' s'"

lemma fw_step_Some:
  assumes "run_state (fw_step ops f vm) s = (Some vm', s')"
  obtains vm1 where "unat (vm_index vm) < pa_size f" "fw_action f (unat (vm_index vm)) \<noteq> 0"
    "run_state (fw_exec ops (fw_action f (unat (vm_index vm))) vm) s = (vm1, s')" "vm_index vm' = vm_index vm1 + 1"
  using assms by (auto simp: fw_step_def Let_def fw_jump_def split: if_splits prod.splits)

lemma fw_step_None: "fst (run_state (fw_step ops f vm) s) = None \<longleftrightarrow> pa_size f \<le> unat (vm_index vm) \<or> fw_action f (unat (vm_index vm)) = 0"
  by (simp add: fw_step_def Let_def split: prod.splits)

lemma fw_reach_index:
  assumes "rtl8125_fw_data_ok f" "pa_size f < 2 ^ 62" "fw_reach ops f s0 vm s"
  shows "unat (vm_index vm) \<le> pa_size f"
  using assms(3)
proof induction
  case start
  then show ?case by (simp add: fw_start_def)
next
  case (step vm s vm' s')
  from step.hyps(2) show ?case
  proof (rule fw_step_Some)
    fix vm1 assume 1: "unat (vm_index vm) < pa_size f" "run_state (fw_exec ops (fw_action f (unat (vm_index vm))) vm) s = (vm1, s')" "vm_index vm' = vm_index vm1 + 1"
    then show ?thesis using fw_exec_index(1) [OF _ 1(1) assms(2) refl 1(2)] assms(1) by (simp add: fw_data_ok_iff)
  qed
qed

text \<open>
  Property C39.  A firmware file that the loader has accepted runs inside its program on every device,
  however long it runs: the program counter never leaves the actions (no jump goes below the first or
  beyond the last), every action read lies within the file, is a known one and selects an existing set of
  registers, and the program stops only at a null action or after the last.
\<close>

theorem fw_control_safe:
  assumes "rtl8125_fw_request_firmware request name = (Inr f, ev)" "length (fw_data f) < 2 ^ 63" "fw_reach ops f s0 vm s"
  shows "unat (vm_index vm) \<le> pa_size f
    \<and> (unat (vm_index vm) < pa_size f \<longrightarrow> pa_code f + 4 * unat (vm_index vm) + 4 \<le> length (fw_data f)
        \<and> opcode_of (fw_action f (unat (vm_index vm))) \<noteq> None
        \<and> (opcode_of (fw_action f (unat (vm_index vm))) = Some PHY_MDIO_CHG \<longrightarrow> fw_val (fw_action f (unat (vm_index vm))) \<le> 1))
    \<and> (fst (run_state (fw_step ops f vm) s) = None \<longrightarrow> unat (vm_index vm) = pa_size f \<or> fw_action f (unat (vm_index vm)) = 0)"
proof -
  let ?i = "unat (vm_index vm)"
  note r = fw_request_ok [OF assms(1)]
  have size: "pa_size f < 2 ^ 62" using r(1) assms(2) by simp
  have le: "?i \<le> pa_size f" by (rule fw_reach_index [OF r(2) size assms(3)])
  have "opcode_of (fw_action f ?i) \<noteq> None \<and> (opcode_of (fw_action f ?i) = Some PHY_MDIO_CHG \<longrightarrow> fw_val (fw_action f ?i) \<le> 1)" if "?i < pa_size f"
  proof -
    have "fw_action_ok f ?i" using r(2) that by (simp add: fw_data_ok_iff)
    then show ?thesis by (auto simp: fw_action_ok_def Let_def not_less split: option.splits)
  qed
  then show ?thesis using le r(1) by (auto simp: fw_step_None)
qed

section \<open>Termination\<close>

definition fw_no_back :: "rtl8125_fw \<Rightarrow> bool" where
  "fw_no_back f \<longleftrightarrow> (\<forall>i < pa_size f. opcode_of (fw_action f i) \<noteq> Some PHY_BJMPN)"

lemma fw_forward_loop:
  assumes "rtl8125_fw_data_ok f" "pa_size f < 2 ^ 62" "fw_no_back f"
    and "unat (vm_index vm) \<le> pa_size f" "pa_size f - unat (vm_index vm) < fuel"
  shows "fst (run_state (fw_loop ops f fuel vm) s)"
  using assms(4,5)
proof (induction fuel arbitrary: vm s)
  case (Suc fuel)
  obtain o1 s1 where st: "run_state (fw_step ops f vm) s = (o1, s1)" by fastforce
  show ?case
  proof (cases o1)
    case None
    then show ?thesis by (subst fw_loop.simps) (simp add: st)
  next
    case (Some vm')
    from st [unfolded Some] have "unat (vm_index vm') \<le> pa_size f \<and> pa_size f - unat (vm_index vm') < fuel"
    proof (rule fw_step_Some)
      fix vm1 assume 1: "unat (vm_index vm) < pa_size f" "run_state (fw_exec ops (fw_action f (unat (vm_index vm))) vm) s = (vm1, s1)"
        "vm_index vm' = vm_index vm1 + 1"
      have ok: "fw_action_ok f (unat (vm_index vm))" using assms(1) 1(1) by (simp add: fw_data_ok_iff)
      have "opcode_of (fw_action f (unat (vm_index vm))) \<noteq> Some PHY_BJMPN" using assms(3) 1(1) by (simp add: fw_no_back_def)
      then show ?thesis
        using fw_exec_index [OF ok 1(1) assms(2) refl 1(2)] 1(3) Suc.prems by auto
    qed
    then have "fst (run_state (fw_loop ops f fuel vm') s1)" by (intro Suc.IH) simp_all
    then show ?thesis by (subst fw_loop.simps) (simp add: st Some)
  qed
qed simp

lemma fw_loop_more:
  assumes "run_state (fw_loop ops f fuel vm) s = (True, s')"
  shows "run_state (fw_loop ops f (fuel + k) vm) s = (True, s')"
  using assms
proof (induction fuel arbitrary: vm s)
  case 0
  then show ?case by (subst (asm) fw_loop.simps) simp
next
  case (Suc fuel)
  obtain o1 s1 where st: "run_state (fw_step ops f vm) s = (o1, s1)" by fastforce
  show ?case
  proof (cases o1)
    case None
    then show ?thesis using Suc.prems by (subst (asm) fw_loop.simps, subst fw_loop.simps) (simp add: st)
  next
    case (Some vm')
    then have "run_state (fw_loop ops f fuel vm') s1 = (True, s')" using Suc.prems by (subst (asm) fw_loop.simps) (simp add: st)
    from Suc.IH [OF this] show ?thesis by (subst fw_loop.simps) (simp add: st Some)
  qed
qed

text \<open>
  Property C40.  An accepted firmware program without backward jumps ends on every device, and gives the same
  result with any fuel above the number of its actions.
\<close>

theorem fw_forward_ends:
  assumes "rtl8125_fw_request_firmware request name = (Inr f, ev)" "length (fw_data f) < 2 ^ 63" "fw_no_back f"
  shows "\<exists>s'. \<forall>fuel > pa_size f. run_state (rtl8125_fw_write_firmware ops f fuel) s = (True, s')"
proof -
  note r = fw_request_ok [OF assms(1)]
  have size: "pa_size f < 2 ^ 62" using r(1) assms(2) by simp
  obtain s' where run: "run_state (fw_loop ops f (Suc (pa_size f)) fw_start) s = (True, s')"
    using fw_forward_loop [OF r(2) size assms(3), of fw_start "Suc (pa_size f)" ops s]
    by (metis (full_types) diff_le_self fw_start_def fw_vm.select_convs(1) le_imp_less_Suc prod.collapse unat_0 zero_le)
  have "run_state (rtl8125_fw_write_firmware ops f fuel) s = (True, s')" if "pa_size f < fuel" for fuel
    using fw_loop_more [OF run, of "fuel - Suc (pa_size f)"] that by (simp add: rtl8125_fw_write_firmware_def)
  then show ?thesis by blast
qed

section \<open>Examples\<close>

text \<open>
  A program of four actions in a file without header: read register 2, skip one action if it is 5, write 7
  to register 3, write 9 to register 4.
\<close>

definition demo_fw_bytes :: bytes where
  "demo_fw_bytes = [0, 0, 2, 0,  5, 0, 1, 0xa0,  7, 0, 3, 0x80,  9, 0, 4, 0x80]"

definition demo_fw :: rtl8125_fw where
  "demo_fw = \<lparr>fw_data = demo_fw_bytes, fw_version = [], pa_code = 0, pa_size = 4\<rparr>"

lemma demo_fw_request: "rtl8125_fw_request_firmware (\<lambda>_. Inr demo_fw_bytes) [] = (Inr demo_fw, [FwRequest []])"
  by code_simp

lemma demo_fw_forward: "fw_no_back demo_fw"
proof -
  have ok: "\<forall>i \<in> {0, 1, 2, 3}. opcode_of (fw_action demo_fw i) \<noteq> Some PHY_BJMPN" by code_simp
  have "pa_size demo_fw = 4" by (simp add: demo_fw_def)
  moreover have "i \<in> {0, 1, 2, 3}" if "i < 4" for i :: nat using that by auto
  ultimately show ?thesis using ok unfolding fw_no_back_def by metis
qed

text \<open>A device of one register that reads as 5 and notes what is written.\<close>

definition demo_fw_ops :: "(u16 \<times> u16) list fw_ops" where
  "demo_fw_ops = \<lparr>phy_write = (\<lambda>r v. modify (\<lambda>s. s @ [(r, v)])), phy_read = (\<lambda>r. State_Monad.return 5),
     mac_mcu_write = (\<lambda>r v. State_Monad.return ()), mac_mcu_read = (\<lambda>r. State_Monad.return 0), fw_mdelay = (\<lambda>n. State_Monad.return ())\<rparr>"

theorem fw_control_safe_witness:
  "unat (vm_index fw_start) \<le> pa_size demo_fw \<and> opcode_of (fw_action demo_fw 0) \<noteq> None"
  using fw_control_safe [OF demo_fw_request, of demo_fw_ops "[]" fw_start "[]"] fw_reach.start [of demo_fw_ops demo_fw "[]"]
  by (simp add: demo_fw_def demo_fw_bytes_def fw_start_def)

theorem fw_forward_ends_witness:
  "\<exists>s'. \<forall>fuel > 4. run_state (rtl8125_fw_write_firmware demo_fw_ops demo_fw fuel) [] = (True, s')"
  using fw_forward_ends [OF demo_fw_request, of demo_fw_ops "[]"] demo_fw_forward by (simp add: demo_fw_def demo_fw_bytes_def)

text \<open>
  The check of the file does not exclude a jump of length zero: such a program is accepted and never ends.
\<close>

definition stuck_fw :: rtl8125_fw where
  "stuck_fw = \<lparr>fw_data = [0, 0, 0, 0x30], fw_version = [], pa_code = 0, pa_size = 1\<rparr>"

lemma stuck_fw_accepted: "rtl8125_fw_request_firmware (\<lambda>_. Inr [0, 0, 0, 0x30]) [] = (Inr stuck_fw, [FwRequest []])"
  by code_simp

lemma stuck_fw_never_ends: "run_state (rtl8125_fw_write_firmware ops stuck_fw fuel) s = (False, s)"
proof -
  have a: "fw_action stuck_fw 0 = 0x30000000" "pa_size stuck_fw = 1" "opcode_of 0x30000000 = Some PHY_BJMPN" "fw_regno 0x30000000 = 0" by code_simp+
  have "run_state (fw_step ops stuck_fw fw_start) s = (Some fw_start, s)"
    by (simp add: fw_step_def a fw_exec_def fw_jump_def fw_start_def Let_def)
  then have "run_state (fw_loop ops stuck_fw fuel fw_start) s = (False, s)"
    by (induction fuel) (subst fw_loop.simps, simp)+
  then show ?thesis by (simp add: rtl8125_fw_write_firmware_def)
qed

end
