(* ===== verification/Eeprom.thy ===== *)
theory Eeprom
  imports Access
begin

text \<open>
  \<open>rtl_eeprom.c\<close>: reading and writing the serial EEPROM (93C46 or 93C56) through the four pins that the
  register \<open>Cfg9346\<close> shows, one clock edge at a time.  The chip is a hypothesis on the device
  (\<open>eeprom_law\<close>): a register that takes and shows the pins of the state machine \<open>ee_chip\<close>.  Every routine is
  given the exact run it makes on the chip (\<open>runs\<close>), and these are composed along the code; reading and
  writing words is then an instance of \<open>reg_channel\<close>.
\<close>

section \<open>Constants\<close>

abbreviation (input) Cfg9346 :: nat where "Cfg9346 \<equiv> 0x50"
abbreviation (input) RxConfig_reg :: nat where "RxConfig_reg \<equiv> 0x44"

definition Cfg9346_EEDO :: u8 where "Cfg9346_EEDO = 0x01"
definition Cfg9346_EEDI :: u8 where "Cfg9346_EEDI = 0x02"
definition Cfg9346_EESK :: u8 where "Cfg9346_EESK = 0x04"
definition Cfg9346_EECS :: u8 where "Cfg9346_EECS = 0x08"
definition Cfg9346_EEM1 :: u8 where "Cfg9346_EEM1 = 0x80"
definition RxCfg_9356SEL :: u32 where "RxCfg_9356SEL = 0x40"
definition EEPROM_TYPE_NONE :: u8 where "EEPROM_TYPE_NONE = 0"
definition EEPROM_TYPE_93C46 :: u8 where "EEPROM_TYPE_93C46 = 1"
definition EEPROM_TYPE_93C56 :: u8 where "EEPROM_TYPE_93C56 = 2"
definition RTL_EEPROM_READ_OPCODE :: u32 where "RTL_EEPROM_READ_OPCODE = 6"
definition RTL_EEPROM_WRITE_OPCODE :: u32 where "RTL_EEPROM_WRITE_OPCODE = 5"
definition RTL_EEPROM_ERASE_OPCODE :: u32 where "RTL_EEPROM_ERASE_OPCODE = 7"
definition RTL_EEPROM_EWEN_OPCODE :: u32 where "RTL_EEPROM_EWEN_OPCODE = 19"
definition RTL_EEPROM_EWDS_OPCODE :: u32 where "RTL_EEPROM_EWDS_OPCODE = 16"
definition RTL_CLOCK_RATE :: nat where "RTL_CLOCK_RATE = 3"

section \<open>The pins\<close>

definition rtl8125_raise_clock :: "'d mmio \<Rightarrow> u8 \<Rightarrow> ('d, u8) drv" where
  "rtl8125_raise_clock io x = do {
     let x = x OR Cfg9346_EESK;
     RTL_W8 io Cfg9346 x;
     udelay io RTL_CLOCK_RATE;
     State_Monad.return x
   }"

definition rtl8125_lower_clock :: "'d mmio \<Rightarrow> u8 \<Rightarrow> ('d, u8) drv" where
  "rtl8125_lower_clock io x = do {
     let x = x AND NOT Cfg9346_EESK;
     RTL_W8 io Cfg9346 x;
     udelay io RTL_CLOCK_RATE;
     State_Monad.return x
   }"

text \<open>The \<open>do ... while (mask)\<close> loop; \<open>mask\<close> is a power of two that the caller keeps positive.\<close>

function shift_out_loop :: "'d mmio \<Rightarrow> u32 \<Rightarrow> u32 \<Rightarrow> u8 \<Rightarrow> ('d, u8) drv" where
  "shift_out_loop io data msk x = do {
     let x = (if data AND msk \<noteq> 0 then x OR Cfg9346_EEDI else x AND NOT Cfg9346_EEDI);
     RTL_W8 io Cfg9346 x;
     udelay io RTL_CLOCK_RATE;
     x \<leftarrow> rtl8125_raise_clock io x;
     x \<leftarrow> rtl8125_lower_clock io x;
     if drop_bit 1 msk \<noteq> 0 then shift_out_loop io data (drop_bit 1 msk) x else State_Monad.return x
   }"
  by pat_completeness auto
termination
proof (relation "measure (\<lambda>(io, data, msk, x). unat msk)", goal_cases)
  case (2 io data msk x)
  then have "msk \<noteq> 0" by auto
  then have "unat msk > 0" by (simp add: unat_gt_0)
  then show ?case by (simp add: drop_bit_eq_div unat_div)
qed simp

declare shift_out_loop.simps [simp del]

definition rtl8125_shift_out_bits :: "'d mmio \<Rightarrow> u32 \<Rightarrow> nat \<Rightarrow> ('d, unit) drv" where
  "rtl8125_shift_out_bits io data count = do {
     x \<leftarrow> RTL_R8 io Cfg9346;
     x \<leftarrow> shift_out_loop io data (push_bit (count - 1) 1) (x AND NOT (Cfg9346_EEDI OR Cfg9346_EEDO));
     RTL_W8 io Cfg9346 (x AND NOT Cfg9346_EEDI)
   }"

fun shift_in_loop :: "'d mmio \<Rightarrow> nat \<Rightarrow> u8 \<Rightarrow> u16 \<Rightarrow> ('d, u16) drv" where
  "shift_in_loop io 0 x d = State_Monad.return d"
| "shift_in_loop io (Suc n) x d = do {
     let d = push_bit 1 d;
     rtl8125_raise_clock io x;
     x \<leftarrow> RTL_R8 io Cfg9346;
     let x = x AND NOT Cfg9346_EEDI;
     let d = (if x AND Cfg9346_EEDO \<noteq> 0 then d OR 1 else d);
     x \<leftarrow> rtl8125_lower_clock io x;
     shift_in_loop io n x d
   }"

definition rtl8125_shift_in_bits :: "'d mmio \<Rightarrow> ('d, u16) drv" where
  "rtl8125_shift_in_bits io = do {
     x \<leftarrow> RTL_R8 io Cfg9346;
     shift_in_loop io 16 (x AND NOT (Cfg9346_EEDI OR Cfg9346_EEDO)) 0
   }"

definition rtl8125_stand_by :: "'d mmio \<Rightarrow> ('d, unit) drv" where
  "rtl8125_stand_by io = do {
     x \<leftarrow> RTL_R8 io Cfg9346;
     let x = x AND NOT (Cfg9346_EECS OR Cfg9346_EESK);
     RTL_W8 io Cfg9346 x;
     udelay io RTL_CLOCK_RATE;
     RTL_W8 io Cfg9346 (x OR Cfg9346_EECS)
   }"

definition rtl8125_set_eeprom_sel_low :: "'d mmio \<Rightarrow> ('d, unit) drv" where
  "rtl8125_set_eeprom_sel_low io = do {
     RTL_W8 io Cfg9346 Cfg9346_EEM1;
     RTL_W8 io Cfg9346 (Cfg9346_EEM1 OR Cfg9346_EESK);
     udelay io 20;
     RTL_W8 io Cfg9346 Cfg9346_EEM1
   }"

section \<open>Commands\<close>

definition rtl8125_eeprom_cleanup :: "'d mmio \<Rightarrow> ('d, unit) drv" where
  "rtl8125_eeprom_cleanup io = do {
     x \<leftarrow> RTL_R8 io Cfg9346;
     let x = x AND NOT (Cfg9346_EEDI OR Cfg9346_EECS);
     RTL_W8 io Cfg9346 x;
     x \<leftarrow> rtl8125_raise_clock io x;
     x \<leftarrow> rtl8125_lower_clock io x;
     State_Monad.return ()
   }"

fun cmd_done_loop :: "'d mmio \<Rightarrow> nat \<Rightarrow> ('d, int) drv" where
  "cmd_done_loop io n =
     (if n = 0 then State_Monad.return (- 1)
      else do {
        x \<leftarrow> RTL_R8 io Cfg9346;
        if x AND Cfg9346_EEDO \<noteq> 0 then do { udelay io (RTL_CLOCK_RATE * 2 * 3); State_Monad.return 0 }
        else do { udelay io 1; cmd_done_loop io (n - 1) }
      })"

declare cmd_done_loop.simps [simp del]

definition rtl8125_eeprom_cmd_done :: "'d mmio \<Rightarrow> ('d, int) drv" where
  "rtl8125_eeprom_cmd_done io = do { rtl8125_stand_by io; cmd_done_loop io 50000 }"

text \<open>Reading and writing once the number of address bits is known.\<close>

definition eeprom_read_word :: "'d mmio \<Rightarrow> u16 \<Rightarrow> nat \<Rightarrow> ('d, u16) drv" where
  "eeprom_read_word io reg addr_sz = do {
     RTL_W8 io Cfg9346 (Cfg9346_EEM1 OR Cfg9346_EECS);
     rtl8125_shift_out_bits io RTL_EEPROM_READ_OPCODE 3;
     rtl8125_shift_out_bits io (ucast reg) addr_sz;
     data \<leftarrow> rtl8125_shift_in_bits io;
     rtl8125_eeprom_cleanup io;
     RTL_W8 io Cfg9346 0;
     State_Monad.return data
   }"

definition rtl8125_eeprom_read_sc :: "'d mmio \<Rightarrow> u16 \<Rightarrow> ('d, u16) drv" where
  "rtl8125_eeprom_read_sc io reg = do {
     type \<leftarrow> gets eeprom_type;
     if type = EEPROM_TYPE_NONE then State_Monad.return (- 1)
     else eeprom_read_word io reg (if type = EEPROM_TYPE_93C46 then 6 else if type = EEPROM_TYPE_93C56 then 8 else 6)
   }"

definition eeprom_write_word :: "'d mmio \<Rightarrow> u16 \<Rightarrow> u16 \<Rightarrow> nat \<Rightarrow> nat \<Rightarrow> ('d, unit) drv" where
  "eeprom_write_word io reg data addr_sz w_dummy_addr = do {
     RTL_W8 io Cfg9346 (Cfg9346_EEM1 OR Cfg9346_EECS);
     rtl8125_shift_out_bits io RTL_EEPROM_EWEN_OPCODE 5;
     rtl8125_shift_out_bits io (ucast reg) w_dummy_addr;
     rtl8125_stand_by io;
     rtl8125_shift_out_bits io RTL_EEPROM_ERASE_OPCODE 3;
     rtl8125_shift_out_bits io (ucast reg) addr_sz;
     rc \<leftarrow> rtl8125_eeprom_cmd_done io;
     if rc < 0 then State_Monad.return ()
     else do {
       rtl8125_stand_by io;
       rtl8125_shift_out_bits io RTL_EEPROM_WRITE_OPCODE 3;
       rtl8125_shift_out_bits io (ucast reg) addr_sz;
       rtl8125_shift_out_bits io (ucast data) 16;
       rc \<leftarrow> rtl8125_eeprom_cmd_done io;
       if rc < 0 then State_Monad.return ()
       else do {
         rtl8125_stand_by io;
         rtl8125_shift_out_bits io RTL_EEPROM_EWDS_OPCODE 5;
         rtl8125_shift_out_bits io (ucast reg) w_dummy_addr;
         rtl8125_eeprom_cleanup io;
         RTL_W8 io Cfg9346 0
       }
     }
   }"

definition rtl8125_eeprom_write_sc :: "'d mmio \<Rightarrow> u16 \<Rightarrow> u16 \<Rightarrow> ('d, unit) drv" where
  "rtl8125_eeprom_write_sc io reg data = do {
     type \<leftarrow> gets eeprom_type;
     if type = EEPROM_TYPE_NONE then State_Monad.return ()
     else eeprom_write_word io reg data
       (if type = EEPROM_TYPE_93C46 then 6 else if type = EEPROM_TYPE_93C56 then 8 else 6)
       (if type = EEPROM_TYPE_93C46 then 4 else if type = EEPROM_TYPE_93C56 then 6 else 4)
   }"

definition set_eeprom :: "u8 \<Rightarrow> u16 \<Rightarrow> ('d, unit) drv" where
  "set_eeprom type len = modify (\<lambda>s. s\<lparr>eeprom_type := type, eeprom_len := len\<rparr>)"

text \<open>The label \<open>out_no_eeprom\<close>.\<close>

definition eeprom_check_magic :: "u16 \<Rightarrow> ('d, unit) drv" where
  "eeprom_check_magic magic =
     (if magic \<noteq> 0x8129 \<and> magic \<noteq> 0x8128 then set_eeprom EEPROM_TYPE_NONE 0 else State_Monad.return ())"

definition rtl8125_eeprom_type :: "'d mmio \<Rightarrow> ('d, unit) drv" where
  "rtl8125_eeprom_type io = do {
     cfg \<leftarrow> gets mcfg;
     if cfg = CFG_METHOD_DEFAULT then eeprom_check_magic 0
     else do {
       v \<leftarrow> RTL_R8 io 0xD2;
       if v AND 0x04 \<noteq> 0 then eeprom_check_magic 0
       else do {
         c \<leftarrow> RTL_R32 io RxConfig_reg;
         (if c AND RxCfg_9356SEL \<noteq> 0 then set_eeprom EEPROM_TYPE_93C56 256 else set_eeprom EEPROM_TYPE_93C46 128);
         magic \<leftarrow> rtl8125_eeprom_read_sc io 0;
         eeprom_check_magic magic
       }
     }
   }"

section \<open>The chip\<close>

text \<open>
  A 93C46 or 93C56 in its 16-bit organisation, with \<open>a\<close> address bits and a programming time of \<open>twp\<close>
  microseconds, as the data sheets describe it.  While selected it takes a bit at every rising clock edge:
  a start bit, two bits of operation, the address, for a write the data.  A complete read puts a
  zero and then the word on the data pin, high bit first; the other operations are carried out when
  the chip is deselected, and if they program a cell the pin shows, at the next selection, whether
  the chip is ready.  \<open>ee_reg\<close> is the register that drives the pins: in programming mode (\<open>EEM1\<close> without
  \<open>EEM0\<close>) they are its bits, otherwise the chip is not selected.
\<close>

record ee_chip =
  ee_reg :: u8
  ee_mem :: "nat \<Rightarrow> u16"
  ee_wen :: bool
  ee_in :: "bool list"
  ee_out :: "bool list"
  ee_do :: bool
  ee_busy :: nat

definition pin_cs :: "u8 \<Rightarrow> bool" where "pin_cs v \<longleftrightarrow> bit v 7 \<and> \<not> bit v 6 \<and> bit v 3"
definition pin_sk :: "u8 \<Rightarrow> bool" where "pin_sk v \<longleftrightarrow> bit v 2"
definition pin_di :: "u8 \<Rightarrow> bool" where "pin_di v \<longleftrightarrow> bit v 1"

definition ee_op :: "bool list \<Rightarrow> bool list" where "ee_op bs = take 2 (drop 1 bs)"

definition ee_addr :: "nat \<Rightarrow> bool list \<Rightarrow> nat" where "ee_addr a bs = bits_val (take a (drop 3 bs))"

definition ee_decode :: "nat \<Rightarrow> ee_chip \<Rightarrow> ee_chip" where
  "ee_decode a c =
     (if length (ee_in c) = 3 + a \<and> ee_op (ee_in c) = [True, False]
      then c\<lparr>ee_do := False, ee_out := msb_first (ee_mem c (ee_addr a (ee_in c))) 16\<rparr> else c)"

definition ee_edge :: "nat \<Rightarrow> bool \<Rightarrow> ee_chip \<Rightarrow> ee_chip" where
  "ee_edge a di c =
     (if ee_busy c \<noteq> 0 then c
      else if ee_out c \<noteq> [] then c\<lparr>ee_do := hd (ee_out c), ee_out := tl (ee_out c)\<rparr>
      else if ee_in c = [] \<and> \<not> di then c
      else ee_decode a (c\<lparr>ee_in := ee_in c @ [di]\<rparr>))"

definition ee_program :: "nat \<Rightarrow> (nat \<Rightarrow> u16) \<Rightarrow> ee_chip \<Rightarrow> ee_chip" where
  "ee_program twp m c = (if ee_wen c then c\<lparr>ee_mem := m, ee_busy := twp\<rparr> else c)"

definition ee_end :: "nat \<Rightarrow> nat \<Rightarrow> ee_chip \<Rightarrow> ee_chip" where
  "ee_end a twp c =
     (let bs = ee_in c; op = ee_op bs; ad = ee_addr a bs; sel = take 2 (drop 3 bs);
          data = of_nat (bits_val (drop (3 + a) bs)); c = c\<lparr>ee_in := [], ee_out := []\<rparr>
      in if length bs = 3 + a then
           (if op = [True, True] then ee_program twp ((ee_mem c)(ad := - 1)) c
            else if op = [False, False] then
              (if sel = [True, True] then c\<lparr>ee_wen := True\<rparr>
               else if sel = [False, False] then c\<lparr>ee_wen := False\<rparr>
               else if sel = [True, False] then ee_program twp (\<lambda>_. - 1) c else c)
            else c)
         else if length bs = 3 + a + 16 then
           (if op = [False, True] then ee_program twp ((ee_mem c)(ad := data)) c
            else if op = [False, False] \<and> sel = [False, True] then ee_program twp (\<lambda>_. data) c else c)
         else c)"

definition ee_read :: "ee_chip \<Rightarrow> u8" where
  "ee_read c = (ee_reg c AND NOT 1) OR (if if ee_in c = [] then ee_busy c = 0 else ee_do c then 1 else 0)"

definition ee_write :: "nat \<Rightarrow> nat \<Rightarrow> u8 \<Rightarrow> ee_chip \<Rightarrow> ee_chip" where
  "ee_write a twp v c =
     (let old = ee_reg c; c = c\<lparr>ee_reg := v\<rparr>
      in if pin_cs old \<and> \<not> pin_cs v then ee_end a twp c
         else if pin_cs old \<and> pin_cs v \<and> \<not> pin_sk old \<and> pin_sk v then ee_edge a (pin_di v) c
         else c)"

definition ee_tick :: "nat \<Rightarrow> ee_chip \<Rightarrow> ee_chip" where
  "ee_tick t c = c\<lparr>ee_busy := ee_busy c - t\<rparr>"

text \<open>The controller shows the chip, which \<open>V\<close> finds in its state, through the register.\<close>

definition eeprom_law :: "'d mmio \<Rightarrow> nat \<Rightarrow> nat \<Rightarrow> ('d \<Rightarrow> ee_chip) \<Rightarrow> bool" where
  "eeprom_law io a twp V \<longleftrightarrow>
     (\<forall>d. fst (readb io d Cfg9346) = ee_read (V d)) \<and> (\<forall>d r. V (snd (readb io d r)) = V d)
     \<and> (\<forall>d r. V (snd (readl io d r)) = V d)
     \<and> (\<forall>d v. V (writeb io d Cfg9346 v) = ee_write a twp v (V d)) \<and> (\<forall>d t. V (elapse io d t) = ee_tick t (V d))"

section \<open>Running the driver against the chip\<close>

lemma ee_R8: "eeprom_law io a twp V \<Longrightarrow> runs V (RTL_R8 io Cfg9346) C (ee_read C) C"
  by (auto simp: runs_def valid_def views_def RTL_R8_def eeprom_law_def split_beta)

lemma ee_W8: "eeprom_law io a twp V \<Longrightarrow> runs V (RTL_W8 io Cfg9346 v) C () (ee_write a twp v C)"
  by (auto simp: runs_def valid_def views_def RTL_W8_def eeprom_law_def)

lemma ee_delay: "eeprom_law io a twp V \<Longrightarrow> runs V (udelay io t) C () (ee_tick t C)"
  by (auto simp: runs_def valid_def views_def udelay_def eeprom_law_def)

lemma runs_eq: "runs V m C x C' \<Longrightarrow> x = x' \<Longrightarrow> C' = C'' \<Longrightarrow> runs V m C x' C''"
  by simp

lemma pins [simp]:
  "pin_cs 0x88" "pin_cs 0x89" "pin_cs 0x8A" "pin_cs 0x8C" "pin_cs 0x8D" "pin_cs 0x8E" "\<not> pin_cs 0x80" "\<not> pin_cs 0x81" "\<not> pin_cs 0x84" "\<not> pin_cs 0x85" "\<not> pin_cs 0"
  "\<not> pin_sk 0x88" "\<not> pin_sk 0x89" "\<not> pin_sk 0x8A" "pin_sk 0x8C" "pin_sk 0x8D" "pin_sk 0x8E" "\<not> pin_sk 0x80" "\<not> pin_sk 0x81"
  "\<not> pin_di 0x8C" "\<not> pin_di 0x8D" "pin_di 0x8E"
  by (simp_all add: pin_cs_def pin_sk_def pin_di_def)

lemma reg_bits:
  "(0x88 :: u8) OR Cfg9346_EEDI = 0x8A" "(0x8A :: u8) OR Cfg9346_EEDI = 0x8A" "(0x88 :: u8) AND NOT Cfg9346_EEDI = 0x88"
  "(0x8A :: u8) AND NOT Cfg9346_EEDI = 0x88" "(0x88 :: u8) OR Cfg9346_EESK = 0x8C" "(0x89 :: u8) OR Cfg9346_EESK = 0x8D" "(0x8A :: u8) OR Cfg9346_EESK = 0x8E"
  "(0x8C :: u8) AND NOT Cfg9346_EESK = 0x88" "(0x8D :: u8) AND NOT Cfg9346_EESK = 0x89" "(0x8E :: u8) AND NOT Cfg9346_EESK = 0x8A"
  "(0x80 :: u8) OR Cfg9346_EESK = 0x84" "(0x81 :: u8) OR Cfg9346_EESK = 0x85" "(0x84 :: u8) AND NOT Cfg9346_EESK = 0x80" "(0x85 :: u8) AND NOT Cfg9346_EESK = 0x81"
  "(0x80 :: u8) OR Cfg9346_EECS = 0x88" "(0x81 :: u8) OR Cfg9346_EECS = 0x89" "Cfg9346_EEM1 OR Cfg9346_EECS = 0x88"
  by (simp_all add: Cfg9346_EEDI_def Cfg9346_EESK_def Cfg9346_EECS_def Cfg9346_EEM1_def)

lemma ee_tick_idle: "ee_busy C = 0 \<Longrightarrow> ee_tick t C = C"
  by (simp add: ee_tick_def)

definition selected :: "ee_chip \<Rightarrow> bool" where
  "selected C \<longleftrightarrow> ee_reg C \<in> {0x88, 0x89, 0x8A}"

lemma ee_edge_reg [simp]:
  "ee_edge a di (C\<lparr>ee_reg := r\<rparr>) = (ee_edge a di C)\<lparr>ee_reg := r\<rparr>" "ee_reg (ee_edge a di C) = ee_reg C" "ee_busy (ee_edge a di C) = ee_busy C"
  by (simp_all add: ee_edge_def ee_decode_def)

lemma read_selected:
  assumes "selected C"
  shows "ee_read C AND NOT (Cfg9346_EEDI OR Cfg9346_EEDO) = 0x88"
  using assms by (auto simp: selected_def ee_read_def Cfg9346_EEDI_def Cfg9346_EEDO_def)

lemma write_low: "selected C \<Longrightarrow> v \<in> {0x88, 0x89, 0x8A} \<Longrightarrow> ee_write a twp v C = C\<lparr>ee_reg := v\<rparr>"
  by (auto simp: selected_def ee_write_def)

lemma write_rise: "selected C \<Longrightarrow> v \<in> {0x8C, 0x8D, 0x8E} \<Longrightarrow> ee_write a twp v C = (ee_edge a (pin_di v) C)\<lparr>ee_reg := v\<rparr>"
  by (auto simp: selected_def ee_write_def)

lemma write_fall: "ee_reg C \<in> {0x8C, 0x8D, 0x8E} \<Longrightarrow> v \<in> {0x88, 0x89, 0x8A} \<Longrightarrow> ee_write a twp v C = C\<lparr>ee_reg := v\<rparr>"
  by (auto simp: ee_write_def)

text \<open>One clock cycle.\<close>

lemma runs_raise:
  assumes "eeprom_law io a twp V" "selected C" "x \<in> {0x88, 0x89, 0x8A}" "ee_busy C = 0"
  shows "runs V (rtl8125_raise_clock io x) C (x OR Cfg9346_EESK) ((ee_edge a (x = 0x8A) C)\<lparr>ee_reg := x OR Cfg9346_EESK\<rparr>)"
proof -
  have v: "x OR Cfg9346_EESK \<in> {0x8C, 0x8D, 0x8E}" and d: "pin_di (x OR Cfg9346_EESK) \<longleftrightarrow> x = 0x8A" using assms(3) by (auto simp: reg_bits)
  show ?thesis
    unfolding rtl8125_raise_clock_def Let_def
    by (rule runs_bind [OF ee_W8 [OF assms(1)] runs_bind [OF ee_delay [OF assms(1)]]], rule runs_eq [OF runs_return])
       (simp_all add: write_rise [OF assms(2) v] d ee_tick_idle assms(4))
qed

lemma runs_lower:
  assumes "eeprom_law io a twp V" "ee_reg C \<in> {0x8C, 0x8D, 0x8E}" "x \<in> {0x8C, 0x8D, 0x8E}" "ee_busy C = 0"
  shows "runs V (rtl8125_lower_clock io x) C (x AND NOT Cfg9346_EESK) (C\<lparr>ee_reg := x AND NOT Cfg9346_EESK\<rparr>)"
proof -
  have v: "x AND NOT Cfg9346_EESK \<in> {0x88, 0x89, 0x8A}" using assms(3) by (auto simp: reg_bits)
  show ?thesis
    unfolding rtl8125_lower_clock_def Let_def
    by (rule runs_bind [OF ee_W8 [OF assms(1)] runs_bind [OF ee_delay [OF assms(1)]]], rule runs_eq [OF runs_return])
       (simp_all add: write_fall [OF assms(2) v] ee_tick_idle assms(4))
qed

definition feed :: "nat \<Rightarrow> bool list \<Rightarrow> ee_chip \<Rightarrow> ee_chip" where
  "feed a bs C = foldl (\<lambda>c b. ee_edge a b c) C bs"

lemma feed_simps [simp]: "feed a [] C = C" "feed a (b # bs) C = feed a bs (ee_edge a b C)"
  by (simp_all add: feed_def)

lemma feed_reg [simp]: "feed a bs (C\<lparr>ee_reg := r\<rparr>) = (feed a bs C)\<lparr>ee_reg := r\<rparr>" "ee_busy (feed a bs C) = ee_busy C"
  by (induction bs arbitrary: C) simp_all

lemma runs_bit:
  assumes "eeprom_law io a twp V" "selected C" "x \<in> {0x88, 0x8A}" "ee_busy C = 0"
    and "\<And>y. y = (if b then 0x8A else 0x88) \<Longrightarrow> runs V (k y) ((ee_edge a b C)\<lparr>ee_reg := y\<rparr>) r C'"
  shows "runs V (do {
     let x = (if b then x OR Cfg9346_EEDI else x AND NOT Cfg9346_EEDI);
     RTL_W8 io Cfg9346 x;
     udelay io RTL_CLOCK_RATE;
     x \<leftarrow> rtl8125_raise_clock io x;
     x \<leftarrow> rtl8125_lower_clock io x;
     k x }) C r C'"
proof -
  define y :: u8 where "y = (if b then 0x8A else 0x88)"
  have x: "(if b then x OR Cfg9346_EEDI else x AND NOT Cfg9346_EEDI) = y" using assms(3) by (auto simp: y_def reg_bits)
  have y3: "y \<in> {0x88, 0x89, 0x8A}" and yb: "(y = 0x8A) = b" by (auto simp: y_def)
  let ?C1 = "C\<lparr>ee_reg := y\<rparr>"
  have w: "runs V (RTL_W8 io Cfg9346 y) C () ?C1"
    using ee_W8 [OF assms(1), of y C] by (simp add: write_low [OF assms(2) y3])
  have d: "runs V (udelay io RTL_CLOCK_RATE) ?C1 () ?C1"
    using ee_delay [OF assms(1), of RTL_CLOCK_RATE ?C1] by (simp add: ee_tick_idle assms(4))
  have sel: "selected ?C1" using y3 by (simp add: selected_def)
  have r: "runs V (rtl8125_raise_clock io y) ?C1 (y OR Cfg9346_EESK) ((ee_edge a b C)\<lparr>ee_reg := y OR Cfg9346_EESK\<rparr>)"
    using runs_raise [OF assms(1) sel y3] by (simp add: assms(4) yb)
  have y8: "y OR Cfg9346_EESK \<in> {0x8C, 0x8D, 0x8E}" and bk: "(y OR Cfg9346_EESK) AND NOT Cfg9346_EESK = y"
    by (auto simp: y_def reg_bits)
  have l: "runs V (rtl8125_lower_clock io (y OR Cfg9346_EESK)) ((ee_edge a b C)\<lparr>ee_reg := y OR Cfg9346_EESK\<rparr>) y ((ee_edge a b C)\<lparr>ee_reg := y\<rparr>)"
    using runs_lower [OF assms(1) _ y8, of "(ee_edge a b C)\<lparr>ee_reg := y OR Cfg9346_EESK\<rparr>"] y8 by (simp add: assms(4) bk)
  show ?thesis
    unfolding Let_def x
    by (rule runs_bind [OF w], rule runs_bind [OF d], rule runs_bind [OF r], rule runs_bind [OF l], rule assms(5) [OF y_def])
qed

lemma mask_bit: "(data :: u32) AND push_bit k 1 \<noteq> 0 \<longleftrightarrow> bit data k"
  by (simp add: push_bit_eq_mult and_exp_eq_0_iff_not_bit)

lemma mask_step:
  assumes "Suc k < 32"
  shows "drop_bit 1 (push_bit (Suc k) 1 :: u32) = push_bit k 1" "(push_bit k 1 :: u32) \<noteq> 0"
proof -
  have "bit (drop_bit 1 (2 ^ Suc k) :: u32) n \<longleftrightarrow> bit (2 ^ k :: u32) n" if "n < 32" for n
    using that assms by (auto simp: bit_drop_bit_eq bit_exp_iff simp del: power_Suc)
  then have "drop_bit 1 (2 ^ Suc k :: u32) = 2 ^ k" by (intro bit_word_eqI) simp
  then show "drop_bit 1 (push_bit (Suc k) 1 :: u32) = push_bit k 1" by (simp only: push_bit_of_1)
  have "bit (2 ^ k :: u32) k" using assms by (simp add: bit_exp_iff)
  then show "(push_bit k 1 :: u32) \<noteq> 0" using assms by (auto simp: push_bit_of_1)
qed

lemma runs_shift_out_loop:
  assumes "eeprom_law io a twp V"
  shows "k < 32 \<Longrightarrow> selected C \<Longrightarrow> x \<in> {0x88, 0x8A} \<Longrightarrow> ee_busy C = 0 \<Longrightarrow>
    \<exists>y\<in>{0x88, 0x8A}. runs V (shift_out_loop io data (push_bit k 1) x) C y ((feed a (msb_first data (Suc k)) C)\<lparr>ee_reg := y\<rparr>)"
proof (induction k arbitrary: C x)
  case 0
  have z: "drop_bit 1 (push_bit 0 1 :: u32) = 0" by simp
  define y :: u8 where "y = (if bit data 0 then 0x8A else 0x88)"
  have "runs V (shift_out_loop io data (push_bit 0 1) x) C y ((feed a (msb_first data (Suc 0)) C)\<lparr>ee_reg := y\<rparr>)"
    unfolding shift_out_loop.simps [of io data "push_bit 0 1" x] mask_bit z
    by (rule runs_bit [OF assms 0(2-4)]) (simp add: y_def msb_first_def runs_return)
  moreover have "y \<in> {0x88, 0x8A}" by (simp add: y_def)
  ultimately show ?case by blast
next
  case (Suc k)
  note m = mask_step [OF Suc.prems(1)]
  have k: "k < 32" using Suc.prems(1) by simp
  define y0 :: u8 where "y0 = (if bit data (Suc k) then 0x8A else 0x88)"
  let ?C1 = "(ee_edge a (bit data (Suc k)) C)\<lparr>ee_reg := y0\<rparr>"
  have y0: "y0 \<in> {0x88, 0x8A}" by (simp add: y0_def)
  have sel: "selected ?C1" using y0 by (auto simp: selected_def)
  obtain y where y: "y \<in> {0x88, 0x8A}" and r: "runs V (shift_out_loop io data (push_bit k 1) y0) ?C1 y ((feed a (msb_first data (Suc k)) ?C1)\<lparr>ee_reg := y\<rparr>)"
    using Suc.IH [OF k sel y0] Suc.prems(4) by auto
  have "runs V (shift_out_loop io data (push_bit (Suc k) 1) x) C y ((feed a (msb_first data (Suc (Suc k))) C)\<lparr>ee_reg := y\<rparr>)"
    unfolding shift_out_loop.simps [of io data "push_bit (Suc k) 1" x] mask_bit
    by (rule runs_bit [OF assms Suc.prems(2-4)]) (use r m k in \<open>simp add: y0_def msb_first_Suc [of data "Suc k"]\<close>)
  then show ?case using y by blast
qed

text \<open>A whole shift: the bits reach the chip in order, the high one first.\<close>

lemma runs_shift_out:
  assumes "eeprom_law io a twp V" "0 < n" "n \<le> 32" "selected C" "ee_busy C = 0"
  shows "runs V (rtl8125_shift_out_bits io data n) C () ((feed a (msb_first data n) C)\<lparr>ee_reg := 0x88\<rparr>)"
proof -
  obtain k where n: "n = Suc k" and k: "k < 32" using assms(2,3) by (cases n) auto
  obtain y where y: "y \<in> {0x88, 0x8A}" and r: "runs V (shift_out_loop io data (push_bit k 1) 0x88) C y ((feed a (msb_first data (Suc k)) C)\<lparr>ee_reg := y\<rparr>)"
    using runs_shift_out_loop [OF assms(1) k assms(4) _ assms(5)] by blast
  let ?C = "(feed a (msb_first data (Suc k)) C)\<lparr>ee_reg := y\<rparr>"
  have v: "y AND NOT Cfg9346_EEDI = 0x88" using y by (auto simp: reg_bits)
  have "selected ?C" using y by (auto simp: selected_def)
  then have w: "runs V (RTL_W8 io Cfg9346 (y AND NOT Cfg9346_EEDI)) ?C () (?C\<lparr>ee_reg := 0x88\<rparr>)"
    using ee_W8 [OF assms(1), of "y AND NOT Cfg9346_EEDI" ?C] by (simp add: write_low v)
  show ?thesis
    unfolding rtl8125_shift_out_bits_def n
  proof (rule runs_bind [OF ee_R8 [OF assms(1)]], unfold read_selected [OF assms(4)], rule runs_bind)
    show "runs V (shift_out_loop io data (push_bit (Suc k - 1) 1) 0x88) C y ?C" using r by simp
    show "runs V (RTL_W8 io Cfg9346 (y AND NOT Cfg9346_EEDI)) ?C () ((feed a (msb_first data (Suc k)) C)\<lparr>ee_reg := 0x88\<rparr>)"
      using w by simp
  qed
qed

section \<open>Reading a word\<close>

definition shift_in_bit :: "u16 \<Rightarrow> bool \<Rightarrow> u16" where
  "shift_in_bit d b = (if b then push_bit 1 d OR 1 else push_bit 1 d)"

lemma runs_shift_in_loop:
  assumes "eeprom_law io a twp V"
  shows "ee_reg C \<in> {0x88, 0x89} \<Longrightarrow> x \<in> {0x88, 0x89} \<Longrightarrow> ee_busy C = 0 \<Longrightarrow> ee_in C \<noteq> [] \<Longrightarrow> ee_out C = bs \<Longrightarrow>
    \<exists>e r. r \<in> {0x88, 0x89} \<and> runs V (shift_in_loop io (length bs) x d) C (foldl shift_in_bit d bs) (C\<lparr>ee_do := e, ee_out := [], ee_reg := r\<rparr>)"
proof (induction bs arbitrary: C x d)
  case Nil
  then have "runs V (shift_in_loop io (length []) x d) C (foldl shift_in_bit d []) (C\<lparr>ee_do := ee_do C, ee_out := [], ee_reg := ee_reg C\<rparr>)"
    using runs_return [of V d C] by (cases C) simp
  then show ?case using Nil by blast
next
  case (Cons b bs)
  define r1 :: u8 where "r1 = x OR Cfg9346_EESK"
  define r2 :: u8 where "r2 = (if b then 0x8D else 0x8C)"
  define r3 :: u8 where "r3 = (if b then 0x89 else 0x88)"
  let ?C1 = "C\<lparr>ee_do := b, ee_out := bs, ee_reg := r1\<rparr>" and ?C2 = "C\<lparr>ee_do := b, ee_out := bs, ee_reg := r3\<rparr>"
  have sel: "selected C" and x3: "x \<in> {0x88, 0x89, 0x8A}" and xn: "x \<noteq> 0x8A" using Cons.prems by (auto simp: selected_def)
  have r1: "r1 \<in> {0x8C, 0x8D, 0x8E}" using Cons.prems(2) by (auto simp: r1_def reg_bits)
  have edge: "ee_edge a False C = C\<lparr>ee_do := b, ee_out := bs\<rparr>" using Cons.prems by (simp add: ee_edge_def)
  have up: "runs V (rtl8125_raise_clock io x) C r1 ?C1"
    using runs_raise [OF assms sel x3 Cons.prems(3)] by (simp add: r1_def xn edge)
  have rd: "ee_read ?C1 AND NOT Cfg9346_EEDI = r2"
    using Cons.prems(2,4) by (auto simp: ee_read_def r1_def r2_def reg_bits Cfg9346_EEDI_def)
  have tst: "r2 AND Cfg9346_EEDO \<noteq> 0 \<longleftrightarrow> b" by (simp add: r2_def Cfg9346_EEDO_def)
  have r2: "r2 \<in> {0x8C, 0x8D, 0x8E}" and r23: "r2 AND NOT Cfg9346_EESK = r3" by (auto simp: r2_def r3_def reg_bits)
  have down: "runs V (rtl8125_lower_clock io r2) ?C1 r3 ?C2"
    using runs_lower [OF assms _ r2, of ?C1] r1 Cons.prems(3) by (simp add: r23)
  have "\<exists>e r. r \<in> {0x88, 0x89} \<and> runs V (shift_in_loop io (length bs) r3 (shift_in_bit d b)) ?C2
      (foldl shift_in_bit (shift_in_bit d b) bs) (?C2\<lparr>ee_do := e, ee_out := [], ee_reg := r\<rparr>)"
    by (rule Cons.IH) (use Cons.prems in \<open>auto simp: r3_def\<close>)
  then obtain e r where r: "r \<in> {0x88, 0x89}" and rest: "runs V (shift_in_loop io (length bs) r3 (shift_in_bit d b)) ?C2
      (foldl shift_in_bit (shift_in_bit d b) bs) (?C2\<lparr>ee_do := e, ee_out := [], ee_reg := r\<rparr>)" by blast
  have "runs V (shift_in_loop io (length (b # bs)) x d) C (foldl shift_in_bit d (b # bs)) (?C2\<lparr>ee_do := e, ee_out := [], ee_reg := r\<rparr>)"
    unfolding list.size add_0_right add_Suc_right shift_in_loop.simps Let_def
    by (rule runs_bind [OF up], rule runs_bind [OF ee_R8 [OF assms]], unfold rd tst, rule runs_bind [OF down])
       (use rest in \<open>simp add: shift_in_bit_def\<close>)
  then show ?case using r by (intro exI [of _ e] exI [of _ r]) simp
qed

lemma bit_shift_in: "bit (foldl shift_in_bit d bs) n \<longleftrightarrow> n < 16 \<and> (if n < length bs then rev bs ! n else bit d (n - length bs))"
proof (induction bs arbitrary: n rule: rev_induct)
  case Nil
  then show ?case by (auto dest: bit_imp_le_length)
next
  case (snoc b bs)
  have p: "bit (push_bit 1 (w :: u16)) n \<longleftrightarrow> n < 16 \<and> 0 < n \<and> bit w (n - 1)" for w
    by (subst bit_push_bit_iff) auto
  have st: "bit (shift_in_bit w b) n \<longleftrightarrow> n < 16 \<and> (if n = 0 then b else bit w (n - 1))" for w
  proof (cases "n = 0")
    case True
    then show ?thesis using p [of w] by (simp only: shift_in_bit_def bit_or_iff bit_1_iff split: if_split) simp
  next
    case False
    then show ?thesis using p [of w] by (simp only: shift_in_bit_def bit_or_iff bit_1_iff split: if_split) simp
  qed
  show ?case
    unfolding foldl_append foldl.simps st using snoc.IH [of "n - 1"] by (cases n) auto
qed

lemma shift_in_word: "foldl shift_in_bit 0 (msb_first (w :: u16) 16) = w"
  by (rule bit_word_eqI) (simp add: bit_shift_in msb_first_def rev_map [symmetric])

section \<open>Commands reach the chip\<close>

definition idle :: "ee_chip \<Rightarrow> bool" where
  "idle C \<longleftrightarrow> ee_in C = [] \<and> ee_out C = [] \<and> ee_busy C = 0 \<and> \<not> pin_cs (ee_reg C)"

text \<open>Selected, ready for a command.\<close>

definition awaiting :: "ee_chip \<Rightarrow> bool" where
  "awaiting C \<longleftrightarrow> ee_in C = [] \<and> ee_out C = [] \<and> ee_busy C = 0 \<and> ee_reg C \<in> {0x88, 0x89}"

lemma awaiting_selected: "awaiting C \<Longrightarrow> selected C"
  by (auto simp: awaiting_def selected_def)

lemma feed_append: "feed a (xs @ ys) C = feed a ys (feed a xs C)"
  by (simp add: feed_def)

text \<open>
  Bits that do not complete a read before the last of them are collected; a completed read is decoded.
\<close>

lemma ee_op_append: "2 < length bs \<Longrightarrow> ee_op (bs @ cs) = ee_op bs"
  by (simp add: ee_op_def)

lemma feed_in:
  assumes "ee_out C = []" "ee_busy C = 0" "bs \<noteq> []" "ee_in C \<noteq> [] \<or> hd bs"
    and "length (ee_in C) + length bs \<le> 3 + a \<or> (ee_op (ee_in C) \<noteq> [True, False] \<and> 2 < length (ee_in C))"
  shows "feed a bs C = ee_decode a (C\<lparr>ee_in := ee_in C @ bs\<rparr>)"
  using assms(3,4,5)
proof (induction bs rule: rev_induct)
  case (snoc b bs)
  show ?case
  proof (cases "bs = []")
    case True
    then show ?thesis using snoc.prems assms(1,2) by (auto simp: ee_edge_def)
  next
    case False
    have "feed a bs C = ee_decode a (C\<lparr>ee_in := ee_in C @ bs\<rparr>)" using snoc False by auto
    also have "\<dots> = C\<lparr>ee_in := ee_in C @ bs\<rparr>"
      using snoc.prems(3) ee_op_append [of "ee_in C" bs] by (auto simp: ee_decode_def)
    finally show ?thesis using False assms(1,2) by (simp add: feed_append ee_edge_def)
  qed
qed simp

lemma runs_stand_by:
  assumes "eeprom_law io a twp V" "ee_reg C \<in> {0x88, 0x89}"
  shows "\<exists>r\<in>{0x88, 0x89}. runs V (rtl8125_stand_by io) C () ((ee_tick 3 (ee_end a twp C))\<lparr>ee_reg := r\<rparr>)"
proof -
  define x where "x = ee_read C AND NOT (Cfg9346_EECS OR Cfg9346_EESK)"
  have x: "x \<in> {0x80, 0x81}" using assms(2) by (auto simp: x_def ee_read_def Cfg9346_EECS_def Cfg9346_EESK_def)
  have e: "ee_end a twp (C\<lparr>ee_reg := v\<rparr>) = (ee_end a twp C)\<lparr>ee_reg := v\<rparr>" for v
    by (simp add: ee_end_def ee_program_def Let_def)
  have w1: "ee_write a twp x C = (ee_end a twp C)\<lparr>ee_reg := x\<rparr>" using assms(2) x by (auto simp: ee_write_def e)
  let ?C1 = "(ee_end a twp C)\<lparr>ee_reg := x\<rparr>"
  have w2: "ee_write a twp (x OR Cfg9346_EECS) (ee_tick 3 ?C1) = (ee_tick 3 (ee_end a twp C))\<lparr>ee_reg := x OR Cfg9346_EECS\<rparr>"
    using x by (auto simp: ee_write_def ee_tick_def)
  have "runs V (rtl8125_stand_by io) C () (ee_write a twp (x OR Cfg9346_EECS) (ee_tick 3 (ee_write a twp x C)))"
    unfolding rtl8125_stand_by_def Let_def RTL_CLOCK_RATE_def
    by (rule runs_bind [OF ee_R8 [OF assms(1)]], fold x_def, rule runs_bind [OF ee_W8 [OF assms(1)]],
        rule runs_bind [OF ee_delay [OF assms(1)] ee_W8 [OF assms(1)]])
  then show ?thesis unfolding w1 w2 using x by (auto simp: reg_bits)
qed

lemma runs_done_loop:
  assumes "eeprom_law io a twp V"
  shows "ee_busy C < n \<Longrightarrow> ee_in C = [] \<Longrightarrow> runs V (cmd_done_loop io n) C 0 (C\<lparr>ee_busy := 0\<rparr>)"
proof (induction n arbitrary: C)
  case (Suc n)
  have t: "ee_read C AND Cfg9346_EEDO \<noteq> 0 \<longleftrightarrow> ee_busy C = 0"
    using Suc.prems(2) by (simp add: ee_read_def Cfg9346_EEDO_def and_one_eq mod_2_eq_odd even_or_iff even_and_iff even_not_iff)
  show ?case
  proof (cases "ee_busy C = 0")
    case True
    have "runs V (do { udelay io (RTL_CLOCK_RATE * 2 * 3); State_Monad.return (0 :: int) }) C 0 C"
      by (rule runs_bind [OF ee_delay [OF assms]]) (simp add: ee_tick_idle True runs_return)
    moreover have "C\<lparr>ee_busy := 0\<rparr> = C" using True by (cases C) simp
    ultimately show ?thesis
      by (subst cmd_done_loop.simps) (simp, rule runs_bind [OF ee_R8 [OF assms]], simp add: t True)
  next
    case False
    have "ee_busy (ee_tick 1 C) < n" "ee_in (ee_tick 1 C) = []" using Suc.prems False by (auto simp: ee_tick_def)
    from Suc.IH [OF this] have ih: "runs V (cmd_done_loop io n) (ee_tick 1 C) 0 (C\<lparr>ee_busy := 0\<rparr>)" by (simp add: ee_tick_def)
    have "runs V (do { udelay io 1; cmd_done_loop io n }) C 0 (C\<lparr>ee_busy := 0\<rparr>)"
      by (rule runs_bind [OF ee_delay [OF assms] ih])
    then show ?thesis
      by (subst cmd_done_loop.simps) (simp, rule runs_bind [OF ee_R8 [OF assms]], simp add: t False)
  qed
qed simp

lemma ee_end_reg: "ee_end a twp (C\<lparr>ee_reg := v\<rparr>) = (ee_end a twp C)\<lparr>ee_reg := v\<rparr>"
  by (simp add: ee_end_def ee_program_def Let_def)

lemma runs_cleanup:
  assumes "eeprom_law io a twp V" "ee_reg C \<in> {0x88, 0x89}" "ee_busy (ee_end a twp C) = 0"
  shows "\<exists>r\<in>{0x80, 0x81}. runs V (rtl8125_eeprom_cleanup io) C () ((ee_end a twp C)\<lparr>ee_reg := r\<rparr>)"
proof -
  define x where "x = ee_read C AND NOT (Cfg9346_EEDI OR Cfg9346_EECS)"
  define D where "D = ee_end a twp C"
  have x: "x \<in> {0x80, 0x81}" using assms(2) by (auto simp: x_def ee_read_def Cfg9346_EEDI_def Cfg9346_EECS_def)
  have w: "runs V (RTL_W8 io Cfg9346 x) C () (D\<lparr>ee_reg := x\<rparr>)"
    using ee_W8 [OF assms(1), of x C] assms(2) x by (auto simp: ee_write_def ee_end_reg D_def)
  have off: "runs V (RTL_W8 io Cfg9346 v) (D\<lparr>ee_reg := u\<rparr>) () (D\<lparr>ee_reg := v\<rparr>)" if "\<not> pin_cs u" for u v
    using ee_W8 [OF assms(1), of v "D\<lparr>ee_reg := u\<rparr>"] that by (simp add: ee_write_def)
  have t: "runs V (udelay io n) (D\<lparr>ee_reg := u\<rparr>) () (D\<lparr>ee_reg := u\<rparr>)" for n u
    using ee_delay [OF assms(1), of n "D\<lparr>ee_reg := u\<rparr>"] assms(3) by (simp add: ee_tick_idle D_def)
  have n: "\<not> pin_cs x" "\<not> pin_cs (x OR Cfg9346_EESK)" "(x OR Cfg9346_EESK) AND NOT Cfg9346_EESK = x" using x by (auto simp: reg_bits)
  have "runs V (rtl8125_eeprom_cleanup io) C () (D\<lparr>ee_reg := x\<rparr>)"
    unfolding rtl8125_eeprom_cleanup_def rtl8125_raise_clock_def rtl8125_lower_clock_def Let_def
  proof (rule runs_bind [OF ee_R8 [OF assms(1)]], fold x_def, rule runs_bind [OF w], rule runs_bind, rule runs_bind)
    show "runs V (RTL_W8 io Cfg9346 (x OR Cfg9346_EESK)) (D\<lparr>ee_reg := x\<rparr>) () (D\<lparr>ee_reg := x OR Cfg9346_EESK\<rparr>)"
      by (rule off [OF n(1)])
    show "runs V (do { udelay io RTL_CLOCK_RATE; State_Monad.return (x OR Cfg9346_EESK) }) (D\<lparr>ee_reg := x OR Cfg9346_EESK\<rparr>)
        (x OR Cfg9346_EESK) (D\<lparr>ee_reg := x OR Cfg9346_EESK\<rparr>)"
      by (rule runs_bind [OF t runs_return])
    show "runs V (do { y \<leftarrow> do { RTL_W8 io Cfg9346 ((x OR Cfg9346_EESK) AND NOT Cfg9346_EESK); udelay io RTL_CLOCK_RATE;
        State_Monad.return ((x OR Cfg9346_EESK) AND NOT Cfg9346_EESK) }; State_Monad.return () }) (D\<lparr>ee_reg := x OR Cfg9346_EESK\<rparr>) () (D\<lparr>ee_reg := x\<rparr>)"
      unfolding n(3)
      by (rule runs_bind, rule runs_bind [OF off [OF n(2)]], rule runs_bind [OF t], rule runs_return, rule runs_return)
  qed
  then show ?thesis using x unfolding D_def by blast
qed

lemma runs_finish:
  assumes "eeprom_law io a twp V" "ee_reg C \<in> {0x88, 0x89}" "ee_busy (ee_end a twp C) = 0" "runs V k ((ee_end a twp C)\<lparr>ee_reg := 0\<rparr>) y C'"
  shows "runs V (do { rtl8125_eeprom_cleanup io; RTL_W8 io Cfg9346 0; k }) C y C'"
proof -
  obtain r where r: "r \<in> {0x80, 0x81}" and c: "runs V (rtl8125_eeprom_cleanup io) C () ((ee_end a twp C)\<lparr>ee_reg := r\<rparr>)"
    using runs_cleanup [OF assms(1-3)] by blast
  have w: "ee_write a twp 0 ((ee_end a twp C)\<lparr>ee_reg := r\<rparr>) = (ee_end a twp C)\<lparr>ee_reg := 0\<rparr>" using r by (auto simp: ee_write_def)
  show ?thesis
    by (rule runs_bind [OF c], rule runs_bind [OF ee_W8 [OF assms(1)]]) (simp add: w assms(4))
qed

text \<open>Selected, the bits \<open>bs\<close> taken in, the memory \<open>M\<close>, writing enabled or not.\<close>

definition chip_is :: "ee_chip \<Rightarrow> bool list \<Rightarrow> bool \<Rightarrow> (nat \<Rightarrow> u16) \<Rightarrow> bool" where
  "chip_is C bs w M \<longleftrightarrow> ee_in C = bs \<and> ee_out C = [] \<and> ee_busy C = 0 \<and> ee_reg C \<in> {0x88, 0x89} \<and> ee_wen C = w \<and> ee_mem C = M"

lemma shift_out_is:
  assumes "eeprom_law io a twp V" "chip_is C bs w M" "0 < n" "n \<le> 32" "bs \<noteq> [] \<or> bit data (n - 1)"
    and "length bs + n < 3 + a \<or> length bs + n = 3 + a \<and> ee_op (bs @ msb_first data n) \<noteq> [True, False]
       \<or> ee_op bs \<noteq> [True, False] \<and> 2 < length bs"
  shows "\<exists>C'. runs V (rtl8125_shift_out_bits io data n) C () C' \<and> chip_is C' (bs @ msb_first data n) w M"
proof -
  have sel: "selected C" and b: "ee_busy C = 0" and o: "ee_out C = []" using assms(2) by (auto simp: chip_is_def selected_def)
  have "feed a (msb_first data n) C = ee_decode a (C\<lparr>ee_in := bs @ msb_first data n\<rparr>)"
    using feed_in [OF o b, of "msb_first data n" a] msb_nonempty [OF assms(3), of data] assms(2,5,6) by (auto simp: chip_is_def)
  also have "\<dots> = C\<lparr>ee_in := bs @ msb_first data n\<rparr>"
    using assms(6) ee_op_append [of bs "msb_first data n"] by (auto simp: ee_decode_def)
  finally have f: "feed a (msb_first data n) C = C\<lparr>ee_in := bs @ msb_first data n\<rparr>" .
  have "runs V (rtl8125_shift_out_bits io data n) C () (C\<lparr>ee_in := bs @ msb_first data n, ee_reg := 0x88\<rparr>)"
    using runs_shift_out [OF assms(1,3,4) sel b, of data] by (simp add: f)
  moreover have "chip_is (C\<lparr>ee_in := bs @ msb_first data n, ee_reg := 0x88\<rparr>) (bs @ msb_first data n) w M"
    using assms(2) by (simp add: chip_is_def)
  ultimately show ?thesis by blast
qed

lemma ee_end_in [simp]: "ee_in (ee_end a twp C) = []" "ee_out (ee_end a twp C) = []" "ee_reg (ee_end a twp C) = ee_reg C"
  by (simp_all add: ee_end_def ee_program_def Let_def)

lemma stand_by_is:
  assumes "eeprom_law io a twp V" "chip_is C bs w M" "ee_busy (ee_end a twp C) = 0"
  shows "\<exists>C'. runs V (rtl8125_stand_by io) C () C' \<and> chip_is C' [] (ee_wen (ee_end a twp C)) (ee_mem (ee_end a twp C))"
proof -
  have "ee_reg C \<in> {0x88, 0x89}" using assms(2) by (simp add: chip_is_def)
  from runs_stand_by [OF assms(1) this] obtain r where r: "r \<in> {0x88, 0x89}"
    and s: "runs V (rtl8125_stand_by io) C () ((ee_tick 3 (ee_end a twp C))\<lparr>ee_reg := r\<rparr>)" by blast
  have "chip_is ((ee_tick 3 (ee_end a twp C))\<lparr>ee_reg := r\<rparr>) [] (ee_wen (ee_end a twp C)) (ee_mem (ee_end a twp C))"
    using r assms(3) by (auto simp: chip_is_def ee_tick_idle)
  with s show ?thesis by blast
qed

lemma ee_end_busy: "ee_busy C = 0 \<Longrightarrow> ee_busy (ee_end a twp C) \<le> twp"
  by (simp add: ee_end_def ee_program_def Let_def)

lemma cmd_done_is:
  assumes "eeprom_law io a twp V" "chip_is C bs w M" "twp < 50000"
  shows "\<exists>C'. runs V (rtl8125_eeprom_cmd_done io) C 0 C' \<and> chip_is C' [] (ee_wen (ee_end a twp C)) (ee_mem (ee_end a twp C))"
proof -
  have "ee_reg C \<in> {0x88, 0x89}" and b: "ee_busy C = 0" using assms(2) by (simp_all add: chip_is_def)
  from runs_stand_by [OF assms(1) this(1)] obtain r where r: "r \<in> {0x88, 0x89}"
    and s: "runs V (rtl8125_stand_by io) C () ((ee_tick 3 (ee_end a twp C))\<lparr>ee_reg := r\<rparr>)" by blast
  let ?D = "(ee_tick 3 (ee_end a twp C))\<lparr>ee_reg := r\<rparr>"
  have "ee_busy ?D < 50000" using ee_end_busy [OF b, of a twp] assms(3) by (simp add: ee_tick_def)
  then have "runs V (cmd_done_loop io 50000) ?D 0 (?D\<lparr>ee_busy := 0\<rparr>)" by (rule runs_done_loop [OF assms(1)]) (simp add: ee_tick_def)
  with s have "runs V (rtl8125_eeprom_cmd_done io) C 0 (?D\<lparr>ee_busy := 0\<rparr>)"
    unfolding rtl8125_eeprom_cmd_done_def by (rule runs_bind)
  moreover have "chip_is (?D\<lparr>ee_busy := 0\<rparr>) [] (ee_wen (ee_end a twp C)) (ee_mem (ee_end a twp C))"
    using r by (auto simp: chip_is_def ee_tick_def)
  ultimately show ?thesis by blast
qed

text \<open>What the chip does with a command when it is deselected.\<close>

lemma end_none: "chip_is C [] w M \<Longrightarrow> ee_busy (ee_end a twp C) = 0 \<and> ee_wen (ee_end a twp C) = w \<and> ee_mem (ee_end a twp C) = M"
  by (simp add: chip_is_def ee_end_def Let_def)

lemma end_enable:
  assumes "chip_is C ([True, False, False, b, b] @ rest) w M" "length rest + 2 = a"
  shows "ee_busy (ee_end a twp C) = 0 \<and> ee_wen (ee_end a twp C) = b \<and> ee_mem (ee_end a twp C) = M"
  using assms by (auto simp: chip_is_def ee_end_def Let_def ee_op_def numeral_2_eq_2)

lemma end_erase:
  assumes "chip_is C ([True, True, True] @ ad) True M" "length ad = a"
  shows "ee_wen (ee_end a twp C) \<and> ee_mem (ee_end a twp C) = M(bits_val ad := - 1)"
  using assms by (auto simp: chip_is_def ee_end_def Let_def ee_op_def ee_addr_def ee_program_def numeral_2_eq_2)

lemma end_write:
  assumes "chip_is C ([True, False, True] @ ad @ data) True M" "length ad = a" "length data = 16"
  shows "ee_wen (ee_end a twp C) \<and> ee_mem (ee_end a twp C) = M(bits_val ad := of_nat (bits_val data))"
proof -
  have "drop (3 + length ad) (True # False # True # ad @ data) = data" by (simp add: eval_nat_numeral)
  then show ?thesis
    using assms by (auto simp: chip_is_def ee_end_def Let_def ee_op_def ee_addr_def ee_program_def numeral_2_eq_2)
qed

lemma op_bits:
  "msb_first RTL_EEPROM_READ_OPCODE 3 = [True, True, False]" "msb_first RTL_EEPROM_WRITE_OPCODE 3 = [True, False, True]"
  "msb_first RTL_EEPROM_ERASE_OPCODE 3 = [True, True, True]" "msb_first RTL_EEPROM_EWEN_OPCODE 5 = [True, False, False, True, True]"
  "msb_first RTL_EEPROM_EWDS_OPCODE 5 = [True, False, False, False, False]"
  by (simp_all add: msb_first_def RTL_EEPROM_READ_OPCODE_def RTL_EEPROM_WRITE_OPCODE_def RTL_EEPROM_ERASE_OPCODE_def
      RTL_EEPROM_EWEN_OPCODE_def RTL_EEPROM_EWDS_OPCODE_def upt_rec)

section \<open>Reading and writing a word\<close>

lemma select_is:
  assumes "eeprom_law io a twp V" "idle C"
  shows "\<exists>C'. runs V (RTL_W8 io Cfg9346 (Cfg9346_EEM1 OR Cfg9346_EECS)) C () C' \<and> chip_is C' [] (ee_wen C) (ee_mem C)"
proof -
  have "ee_write a twp 0x88 C = C\<lparr>ee_reg := 0x88\<rparr>" using assms(2) by (simp add: ee_write_def idle_def)
  then have "runs V (RTL_W8 io Cfg9346 (Cfg9346_EEM1 OR Cfg9346_EECS)) C () (C\<lparr>ee_reg := 0x88\<rparr>)"
    using ee_W8 [OF assms(1), of "0x88" C] by (simp add: reg_bits)
  moreover have "chip_is (C\<lparr>ee_reg := 0x88\<rparr>) [] (ee_wen C) (ee_mem C)" using assms(2) by (simp add: chip_is_def idle_def)
  ultimately show ?thesis by blast
qed

lemma runs_shift_in:
  assumes "eeprom_law io a twp V" "ee_reg C = 0x88" "ee_busy C = 0" "ee_in C \<noteq> []" "ee_out C = msb_first w 16"
  shows "\<exists>e r. r \<in> {0x88, 0x89} \<and> runs V (rtl8125_shift_in_bits io) C w (C\<lparr>ee_do := e, ee_out := [], ee_reg := r\<rparr>)"
proof -
  have "\<exists>e r. r \<in> {0x88, 0x89} \<and> runs V (shift_in_loop io (length (msb_first w 16)) 0x88 0) C (foldl shift_in_bit 0 (msb_first w 16)) (C\<lparr>ee_do := e, ee_out := [], ee_reg := r\<rparr>)"
    by (rule runs_shift_in_loop [OF assms(1)]) (use assms in auto)
  then obtain e r where r: "r \<in> {0x88, 0x89}" and l: "runs V (shift_in_loop io 16 0x88 0) C w (C\<lparr>ee_do := e, ee_out := [], ee_reg := r\<rparr>)"
    by (auto simp: shift_in_word)
  have "selected C" using assms(2) by (simp add: selected_def)
  then have "runs V (rtl8125_shift_in_bits io) C w (C\<lparr>ee_do := e, ee_out := [], ee_reg := r\<rparr>)"
    unfolding rtl8125_shift_in_bits_def
    by (intro runs_bind [OF ee_R8 [OF assms(1)]]) (unfold read_selected, rule l)
  with r show ?thesis by blast
qed

text \<open>The commands between selecting and deselecting.\<close>

lemma read_body:
  assumes "eeprom_law io a twp V" "idle C" "0 < a" "a \<le> 32"
  shows "\<exists>C'. runs V (eeprom_read_word io reg a) C (ee_mem C (unat reg mod 2 ^ a)) C'
    \<and> idle C' \<and> ee_wen C' = ee_wen C \<and> ee_mem C' = ee_mem C"
proof -
  let ?ad = "msb_first (ucast reg :: u32) a"
  define w where "w = ee_mem C (unat reg mod 2 ^ a)"
  obtain C1 where 1: "runs V (RTL_W8 io Cfg9346 (Cfg9346_EEM1 OR Cfg9346_EECS)) C () C1" "chip_is C1 [] (ee_wen C) (ee_mem C)"
    using select_is [OF assms(1,2)] by blast
  have b2: "bit RTL_EEPROM_READ_OPCODE (3 - 1)" by (simp add: RTL_EEPROM_READ_OPCODE_def)
  obtain C2 where 2: "runs V (rtl8125_shift_out_bits io RTL_EEPROM_READ_OPCODE 3) C1 () C2" "chip_is C2 [True, True, False] (ee_wen C) (ee_mem C)"
    using shift_out_is [OF assms(1) 1(2), of 3 RTL_EEPROM_READ_OPCODE] b2 assms(3) by (auto simp: op_bits)
  have c2: "selected C2" "ee_busy C2 = 0" "ee_out C2 = []" "ee_in C2 = [True, True, False]" "ee_mem C2 = ee_mem C" "ee_wen C2 = ee_wen C"
    using 2(2) by (auto simp: chip_is_def selected_def)
  define C3 where "C3 = C2\<lparr>ee_in := [True, True, False] @ ?ad, ee_do := False, ee_out := msb_first w 16, ee_reg := 0x88\<rparr>"
  have op: "ee_op ([True, True, False] @ ?ad) = [True, False]" and ad: "ee_addr a ([True, True, False] @ ?ad) = unat reg mod 2 ^ a"
    using bits_val_msb [of a "ucast reg :: u32"] assms(4) unat_wide [of reg] by (simp_all add: ee_op_def ee_addr_def numeral_2_eq_2)
  have "feed a ?ad C2 = ee_decode a (C2\<lparr>ee_in := [True, True, False] @ ?ad\<rparr>)"
    using feed_in [OF c2(3,2), of ?ad a] msb_nonempty [OF assms(3), of "ucast reg :: u32"] c2(4) by auto
  then have f: "(feed a ?ad C2)\<lparr>ee_reg := 0x88\<rparr> = C3"
    using op ad c2(5) by (simp add: ee_decode_def C3_def w_def)
  have 3: "runs V (rtl8125_shift_out_bits io (ucast reg) a) C2 () C3"
    using runs_shift_out [OF assms(1,3,4) c2(1,2), of "ucast reg"] by (simp add: f)
  obtain e r where r: "r \<in> {0x88, 0x89}" and 4: "runs V (rtl8125_shift_in_bits io) C3 w (C3\<lparr>ee_do := e, ee_out := [], ee_reg := r\<rparr>)"
    using runs_shift_in [OF assms(1), of C3 w] c2 by (auto simp: C3_def)
  let ?C4 = "C3\<lparr>ee_do := e, ee_out := [], ee_reg := r\<rparr>"
  let ?C5 = "(ee_end a twp ?C4)\<lparr>ee_reg := 0\<rparr>"
  have en: "ee_busy (ee_end a twp ?C4) = 0" "ee_wen (ee_end a twp ?C4) = ee_wen C" "ee_mem (ee_end a twp ?C4) = ee_mem C"
    using op c2 by (auto simp: ee_end_def Let_def C3_def)
  have 5: "runs V (do { rtl8125_eeprom_cleanup io; RTL_W8 io Cfg9346 0; State_Monad.return w }) ?C4 w ?C5"
    by (rule runs_finish [OF assms(1) _ en(1) runs_return]) (use r in auto)
  have "idle ?C5" using en(1) by (simp add: idle_def)
  moreover have "runs V (eeprom_read_word io reg a) C w ?C5"
    unfolding eeprom_read_word_def
    by (rule runs_bind [OF 1(1)], rule runs_bind [OF 2(1)], rule runs_bind [OF 3], rule runs_bind [OF 4], rule 5)
  ultimately show ?thesis using en unfolding w_def by (intro exI [of _ ?C5]) simp
qed

text \<open>The steps of a command, with the chip after each of them.\<close>

lemma set_enable_steps:
  assumes "eeprom_law io a twp V" "chip_is C [] w M" "0 < n" "n \<le> 32" "n + 2 = a"
    and "msb_first opcode 5 = [True, False, False, b, b]"
  obtains C1 C2 where "runs V (rtl8125_shift_out_bits io opcode 5) C () C1" "runs V (rtl8125_shift_out_bits io addr n) C1 () C2"
    "ee_reg C2 \<in> {0x88, 0x89}" "chip_is C2 ([True, False, False, b, b] @ msb_first addr n) w M"
    "ee_busy (ee_end a twp C2) = 0" "ee_wen (ee_end a twp C2) = b" "ee_mem (ee_end a twp C2) = M"
proof -
  have ob: "bit opcode (5 - 1)" using msb_nonempty [of 5 opcode] assms(6) by simp
  obtain C1 where 1: "runs V (rtl8125_shift_out_bits io opcode 5) C () C1" "chip_is C1 [True, False, False, b, b] w M"
    using shift_out_is [OF assms(1,2), of 5 opcode] ob assms(3,5,6) by auto
  obtain C2 where 2: "runs V (rtl8125_shift_out_bits io addr n) C1 () C2" "chip_is C2 ([True, False, False, b, b] @ msb_first addr n) w M"
    using shift_out_is [OF assms(1) 1(2) assms(3,4), of addr] assms(5) by (auto simp: ee_op_def)
  have "ee_reg C2 \<in> {0x88, 0x89}" using 2(2) by (simp add: chip_is_def)
  from that [OF 1(1) 2(1) this 2(2)] end_enable [OF 2(2), of a twp] assms(5) show thesis by simp
qed

lemma erase_steps:
  assumes "eeprom_law io a twp V" "chip_is C [] True M" "0 < a" "a \<le> 32" "twp < 50000"
  obtains C1 C2 C3 where "runs V (rtl8125_shift_out_bits io RTL_EEPROM_ERASE_OPCODE 3) C () C1"
    "runs V (rtl8125_shift_out_bits io addr a) C1 () C2" "runs V (rtl8125_eeprom_cmd_done io) C2 0 C3"
    "chip_is C3 [] True (M(bits_val (msb_first addr a) := - 1))"
proof -
  have ob: "bit RTL_EEPROM_ERASE_OPCODE (3 - 1)" by (simp add: RTL_EEPROM_ERASE_OPCODE_def)
  obtain C1 where 1: "runs V (rtl8125_shift_out_bits io RTL_EEPROM_ERASE_OPCODE 3) C () C1" "chip_is C1 [True, True, True] True M"
    using shift_out_is [OF assms(1,2), of 3 RTL_EEPROM_ERASE_OPCODE] ob assms(3) by (auto simp: op_bits)
  obtain C2 where 2: "runs V (rtl8125_shift_out_bits io addr a) C1 () C2" "chip_is C2 ([True, True, True] @ msb_first addr a) True M"
    using shift_out_is [OF assms(1) 1(2) assms(3,4), of addr] by (auto simp: ee_op_def)
  obtain C3 where 3: "runs V (rtl8125_eeprom_cmd_done io) C2 0 C3" "chip_is C3 [] (ee_wen (ee_end a twp C2)) (ee_mem (ee_end a twp C2))"
    using cmd_done_is [OF assms(1) 2(2) assms(5)] by blast
  from that [OF 1(1) 2(1) 3(1)] 3(2) end_erase [OF 2(2), of a twp] show thesis by simp
qed

lemma write_steps:
  assumes "eeprom_law io a twp V" "chip_is C [] True M" "0 < a" "a \<le> 32" "twp < 50000"
  obtains C1 C2 C3 C4 where "runs V (rtl8125_shift_out_bits io RTL_EEPROM_WRITE_OPCODE 3) C () C1"
    "runs V (rtl8125_shift_out_bits io addr a) C1 () C2" "runs V (rtl8125_shift_out_bits io data 16) C2 () C3"
    "runs V (rtl8125_eeprom_cmd_done io) C3 0 C4"
    "chip_is C4 [] True (M(bits_val (msb_first addr a) := of_nat (bits_val (msb_first data 16))))"
proof -
  have ob: "bit RTL_EEPROM_WRITE_OPCODE (3 - 1)" by (simp add: RTL_EEPROM_WRITE_OPCODE_def)
  obtain C1 where 1: "runs V (rtl8125_shift_out_bits io RTL_EEPROM_WRITE_OPCODE 3) C () C1" "chip_is C1 [True, False, True] True M"
    using shift_out_is [OF assms(1,2), of 3 RTL_EEPROM_WRITE_OPCODE] ob assms(3) by (auto simp: op_bits)
  obtain C2 where 2: "runs V (rtl8125_shift_out_bits io addr a) C1 () C2" "chip_is C2 ([True, False, True] @ msb_first addr a) True M"
    using shift_out_is [OF assms(1) 1(2) assms(3,4), of addr] by (auto simp: ee_op_def)
  obtain C3 where 3: "runs V (rtl8125_shift_out_bits io data 16) C2 () C3" "chip_is C3 ([True, False, True] @ msb_first addr a @ msb_first data 16) True M"
    using shift_out_is [OF assms(1) 2(2), of 16 data] assms(3) by (auto simp: ee_op_def)
  obtain C4 where 4: "runs V (rtl8125_eeprom_cmd_done io) C3 0 C4" "chip_is C4 [] (ee_wen (ee_end a twp C3)) (ee_mem (ee_end a twp C3))"
    using cmd_done_is [OF assms(1) 3(2) assms(5)] by blast
  from that [OF 1(1) 2(1) 3(1) 4(1)] 4(2) end_write [OF 3(2), of a twp] show thesis by simp
qed

lemma open_steps:
  assumes "eeprom_law io a twp V" "idle C" "0 < n" "n \<le> 32" "n + 2 = a"
  obtains C1 C2 C3 C4 where "runs V (RTL_W8 io Cfg9346 (Cfg9346_EEM1 OR Cfg9346_EECS)) C () C1"
    "runs V (rtl8125_shift_out_bits io RTL_EEPROM_EWEN_OPCODE 5) C1 () C2" "runs V (rtl8125_shift_out_bits io addr n) C2 () C3"
    "runs V (rtl8125_stand_by io) C3 () C4" "chip_is C4 [] True (ee_mem C)"
proof -
  obtain C1 where 1: "runs V (RTL_W8 io Cfg9346 (Cfg9346_EEM1 OR Cfg9346_EECS)) C () C1" "chip_is C1 [] (ee_wen C) (ee_mem C)"
    using select_is [OF assms(1,2)] by blast
  obtain C2 C3 where 2: "runs V (rtl8125_shift_out_bits io RTL_EEPROM_EWEN_OPCODE 5) C1 () C2"
      "runs V (rtl8125_shift_out_bits io addr n) C2 () C3"
    and c3: "chip_is C3 ([True, False, False, True, True] @ msb_first addr n) (ee_wen C) (ee_mem C)" "ee_busy (ee_end a twp C3) = 0"
      "ee_wen (ee_end a twp C3)" "ee_mem (ee_end a twp C3) = ee_mem C"
    by (rule set_enable_steps [OF assms(1) 1(2) assms(3-5) op_bits(4), where addr = addr]) auto
  obtain C4 where 4: "runs V (rtl8125_stand_by io) C3 () C4" "chip_is C4 [] True (ee_mem C)"
    using stand_by_is [OF assms(1) c3(1,2)] c3(3,4) by auto
  show thesis by (rule that [OF 1(1) 2 4])
qed

lemma close_run:
  assumes "eeprom_law io a twp V" "chip_is C [] True M" "0 < n" "n \<le> 32" "n + 2 = a"
  shows "\<exists>C'. runs V (do { rtl8125_stand_by io; rtl8125_shift_out_bits io RTL_EEPROM_EWDS_OPCODE 5; rtl8125_shift_out_bits io addr n;
      rtl8125_eeprom_cleanup io; RTL_W8 io Cfg9346 0 }) C () C' \<and> idle C' \<and> \<not> ee_wen C' \<and> ee_mem C' = M"
proof -
  obtain C1 where 1: "runs V (rtl8125_stand_by io) C () C1" "chip_is C1 [] True M"
    using stand_by_is [OF assms(1,2)] end_none [OF assms(2), of a twp] by auto
  obtain C2 C3 where 2: "runs V (rtl8125_shift_out_bits io RTL_EEPROM_EWDS_OPCODE 5) C1 () C2"
      "runs V (rtl8125_shift_out_bits io addr n) C2 () C3"
    and c3: "ee_reg C3 \<in> {0x88, 0x89}" "ee_busy (ee_end a twp C3) = 0" "\<not> ee_wen (ee_end a twp C3)" "ee_mem (ee_end a twp C3) = M"
    by (rule set_enable_steps [OF assms(1) 1(2) assms(3-5) op_bits(5), where addr = addr]) auto
  let ?E = "(ee_end a twp C3)\<lparr>ee_reg := 0\<rparr>"
  have u: "State_Monad.bind m (\<lambda>_. State_Monad.return ()) = m" for m :: "('a, unit) drv"
  proof -
    have "(\<lambda>_ :: unit. State_Monad.return ()) = State_Monad.return" by (rule ext) simp
    then show ?thesis by simp
  qed
  have 3: "runs V (do { rtl8125_eeprom_cleanup io; RTL_W8 io Cfg9346 0 }) C3 () ?E"
    using runs_finish [OF assms(1) c3(1,2) runs_return [where x = "()"]] by (simp only: u)
  have "idle ?E" "\<not> ee_wen ?E" "ee_mem ?E = M" using c3 by (simp_all add: idle_def)
  moreover have "runs V (do { rtl8125_stand_by io; rtl8125_shift_out_bits io RTL_EEPROM_EWDS_OPCODE 5; rtl8125_shift_out_bits io addr n;
      rtl8125_eeprom_cleanup io; RTL_W8 io Cfg9346 0 }) C () ?E"
    by (rule runs_bind [OF 1(1)], rule runs_bind [OF 2(1)], rule runs_bind [OF 2(2)], rule 3)
  ultimately show ?thesis by blast
qed

lemma write_body:
  assumes "eeprom_law io a twp V" "idle C" "2 < a" "a \<le> 32" "n + 2 = a" "twp < 50000"
  shows "\<exists>C'. runs V (eeprom_write_word io reg data a n) C () C'
    \<and> idle C' \<and> \<not> ee_wen C' \<and> ee_mem C' = (ee_mem C)(unat reg mod 2 ^ a := data)"
proof -
  let ?M = "ee_mem C" and ?ad = "msb_first (ucast reg :: u32) a" and ?da = "msb_first (ucast data :: u32) 16"
  have n: "0 < n" "n \<le> 32" and a: "0 < a" using assms(3-5) by auto
  have av: "bits_val ?ad = unat reg mod 2 ^ a" using bits_val_msb [of a "ucast reg :: u32"] assms(4) unat_wide [of reg] by simp
  have "unat data < 2 ^ 16" using unsigned_less [of data] by simp
  then have dv: "of_nat (bits_val ?da) = data"
    using bits_val_msb [of 16 "ucast data :: u32"] unat_wide [of data] by simp
  obtain C1 C2 C3 C4 where 1: "runs V (RTL_W8 io Cfg9346 (Cfg9346_EEM1 OR Cfg9346_EECS)) C () C1"
      "runs V (rtl8125_shift_out_bits io RTL_EEPROM_EWEN_OPCODE 5) C1 () C2" "runs V (rtl8125_shift_out_bits io (ucast reg) n) C2 () C3"
      "runs V (rtl8125_stand_by io) C3 () C4" and c4: "chip_is C4 [] True ?M"
    by (rule open_steps [OF assms(1,2) n assms(5), where addr = "ucast reg"])
  obtain C5 C6 C7 where 5: "runs V (rtl8125_shift_out_bits io RTL_EEPROM_ERASE_OPCODE 3) C4 () C5"
      "runs V (rtl8125_shift_out_bits io (ucast reg) a) C5 () C6" "runs V (rtl8125_eeprom_cmd_done io) C6 0 C7"
    and c7: "chip_is C7 [] True (?M(bits_val ?ad := - 1))"
    by (rule erase_steps [OF assms(1) c4 a assms(4,6), where addr = "ucast reg"])
  obtain C8 where 8: "runs V (rtl8125_stand_by io) C7 () C8" "chip_is C8 [] True (?M(bits_val ?ad := - 1))"
    using stand_by_is [OF assms(1) c7] end_none [OF c7, of a twp] by auto
  obtain C9 C10 C11 C12 where 9: "runs V (rtl8125_shift_out_bits io RTL_EEPROM_WRITE_OPCODE 3) C8 () C9"
      "runs V (rtl8125_shift_out_bits io (ucast reg) a) C9 () C10" "runs V (rtl8125_shift_out_bits io (ucast data) 16) C10 () C11"
      "runs V (rtl8125_eeprom_cmd_done io) C11 0 C12"
    and c12: "chip_is C12 [] True (?M(bits_val ?ad := data))"
    by (rule write_steps [OF assms(1) 8(2) a assms(4,6), where addr = "ucast reg" and data = "ucast data"]) (simp add: dv)
  obtain E where 13: "runs V (do { rtl8125_stand_by io; rtl8125_shift_out_bits io RTL_EEPROM_EWDS_OPCODE 5;
      rtl8125_shift_out_bits io (ucast reg) n; rtl8125_eeprom_cleanup io; RTL_W8 io Cfg9346 0 }) C12 () E"
    and fin: "idle E" "\<not> ee_wen E" "ee_mem E = ?M(unat reg mod 2 ^ a := data)"
    using close_run [OF assms(1) c12 n assms(5), where addr = "ucast reg"] av by auto
  have ok: "runs V (if (0 :: int) < 0 then m else k) D y D'" if "runs V k D y D'" for m k :: "('a, unit) drv" and D y D'
    using that by simp
  have "runs V (eeprom_write_word io reg data a n) C () E"
    unfolding eeprom_write_word_def
    by (rule 1 [THEN runs_bind])+ (rule 5 [THEN runs_bind] 8(1) [THEN runs_bind] 9 [THEN runs_bind] ok 13)+
  with fin show ?thesis by blast
qed

text \<open>The chip fits the type that the driver has found.\<close>

definition eeprom_fits :: "u8 \<Rightarrow> nat \<Rightarrow> bool" where
  "eeprom_fits t a \<longleftrightarrow> t = EEPROM_TYPE_93C46 \<and> a = 6 \<or> t = EEPROM_TYPE_93C56 \<and> a = 8"

lemma same_priv_eeprom: "same_priv s s' \<Longrightarrow> eeprom_type s' = eeprom_type s"
  by (cases s, cases s') (simp add: same_priv_def)

lemma read_sc_run:
  assumes "eeprom_law io a twp V" "idle (V (hw s))" "eeprom_fits (eeprom_type s) a"
    and "run_state (rtl8125_eeprom_read_sc io reg) s = (v, s')"
  shows "v = ee_mem (V (hw s)) (unat reg mod 2 ^ a) \<and> idle (V (hw s')) \<and> ee_wen (V (hw s')) = ee_wen (V (hw s))
    \<and> ee_mem (V (hw s')) = ee_mem (V (hw s)) \<and> same_priv s s'"
proof -
  have a: "0 < a" "a \<le> 32" using assms(3) by (auto simp: eeprom_fits_def)
  have run: "run_state (eeprom_read_word io reg a) s = (v, s')"
    using assms(3,4) by (auto simp: rtl8125_eeprom_read_sc_def eeprom_fits_def EEPROM_TYPE_93C46_def EEPROM_TYPE_93C56_def EEPROM_TYPE_NONE_def)
  obtain C' where r: "runs V (eeprom_read_word io reg a) (V (hw s)) (ee_mem (V (hw s)) (unat reg mod 2 ^ a)) C'"
    and c: "idle C'" "ee_wen C' = ee_wen (V (hw s))" "ee_mem C' = ee_mem (V (hw s))"
    using read_body [OF assms(1,2) a, of reg] by blast
  from runsD [OF r refl run] c show ?thesis by simp
qed

lemma write_sc_body:
  assumes "eeprom_fits (eeprom_type s) a"
  shows "run_state (rtl8125_eeprom_write_sc io reg data) s = run_state (eeprom_write_word io reg data a (a - 2)) s"
  using assms by (auto simp: rtl8125_eeprom_write_sc_def eeprom_fits_def EEPROM_TYPE_93C46_def EEPROM_TYPE_93C56_def EEPROM_TYPE_NONE_def)

lemma write_sc_run:
  assumes "eeprom_law io a twp V" "idle (V (hw s))" "eeprom_fits (eeprom_type s) a" "twp < 50000"
    and "run_state (rtl8125_eeprom_write_sc io reg data) s = (u, s')"
  shows "idle (V (hw s')) \<and> \<not> ee_wen (V (hw s')) \<and> ee_mem (V (hw s')) = (ee_mem (V (hw s)))(unat reg mod 2 ^ a := data) \<and> same_priv s s'"
proof -
  have a: "2 < a" "a \<le> 32" "a - 2 + 2 = a" using assms(3) by (auto simp: eeprom_fits_def)
  have run: "run_state (eeprom_write_word io reg data a (a - 2)) s = (u, s')" using assms(5) write_sc_body [OF assms(3)] by simp
  obtain C' where r: "runs V (eeprom_write_word io reg data a (a - 2)) (V (hw s)) () C'"
    and c: "idle C'" "\<not> ee_wen C'" "ee_mem C' = (ee_mem (V (hw s)))(unat reg mod 2 ^ a := data)"
    using write_body [OF assms(1,2) a assms(4), of reg data] by blast
  from runsD [OF r refl run] c show ?thesis by simp
qed

text \<open>So the EEPROM is a register channel of 16-bit words, like those to the PHY and the MAC.\<close>

definition ee_ok :: "'d mmio \<Rightarrow> nat \<Rightarrow> nat \<Rightarrow> ('d \<Rightarrow> ee_chip) \<Rightarrow> 'd nic \<Rightarrow> bool" where
  "ee_ok io a twp V s \<longleftrightarrow> eeprom_law io a twp V \<and> twp < 50000 \<and> idle (V (hw s)) \<and> eeprom_fits (eeprom_type s) a"

interpretation eep: reg_channel "rtl8125_eeprom_read_sc io" "rtl8125_eeprom_write_sc io" "\<lambda>_. True" "\<lambda>reg. unat reg mod 2 ^ a"
    "ee_ok io a twp V" "\<lambda>s. ee_mem (V (hw s))" same_priv for io a twp V
proof (unfold_locales, goal_cases)
  case (1 reg R s0)
  show ?case
  proof (rule valid_runI)
    fix s v s'
    assume s: "ee_ok io a twp V s \<and> ee_mem (V (hw s)) = R \<and> same_priv s0 s" and run: "run_state (rtl8125_eeprom_read_sc io reg) s = (v, s')"
    then have law: "eeprom_law io a twp V" "idle (V (hw s))" "eeprom_fits (eeprom_type s) a" by (simp_all add: ee_ok_def)
    note e = read_sc_run [OF law run]
    then have "same_priv s0 s'" "eeprom_type s' = eeprom_type s" using s same_priv_trans same_priv_eeprom by blast+
    with e s show "v = R (unat reg mod 2 ^ a) \<and> ee_ok io a twp V s' \<and> ee_mem (V (hw s')) = R \<and> same_priv s0 s'"
      by (simp add: ee_ok_def)
  qed
next
  case (2 reg R s0 data)
  show ?case
  proof (rule valid_runI)
    fix s u s'
    assume s: "ee_ok io a twp V s \<and> ee_mem (V (hw s)) = R \<and> same_priv s0 s" and run: "run_state (rtl8125_eeprom_write_sc io reg data) s = (u, s')"
    then have law: "eeprom_law io a twp V" "idle (V (hw s))" "eeprom_fits (eeprom_type s) a" "twp < 50000" by (simp_all add: ee_ok_def)
    note e = write_sc_run [OF law run]
    then have "same_priv s0 s'" "eeprom_type s' = eeprom_type s" using s same_priv_trans same_priv_eeprom by blast+
    with e s show "ee_ok io a twp V s' \<and> ee_mem (V (hw s')) = R(unat reg mod 2 ^ a := data) \<and> same_priv s0 s'"
      by (simp add: ee_ok_def)
  qed
qed

text \<open>A chip that takes too long: the driver gives up and leaves it selected and open for writing.\<close>

lemma done_loop_gives_up:
  assumes "eeprom_law io a twp V"
  shows "n \<le> ee_busy C \<Longrightarrow> ee_in C = [] \<Longrightarrow> runs V (cmd_done_loop io n) C (- 1) (C\<lparr>ee_busy := ee_busy C - n\<rparr>)"
proof (induction n arbitrary: C)
  case 0
  show ?case by (subst cmd_done_loop.simps) (simp add: runs_return)
next
  case (Suc n)
  have t: "ee_read C AND Cfg9346_EEDO = 0"
    using Suc.prems by (simp add: ee_read_def Cfg9346_EEDO_def and_one_eq mod_2_eq_odd even_or_iff even_and_iff even_not_iff)
  have "n \<le> ee_busy (ee_tick 1 C)" "ee_in (ee_tick 1 C) = []" using Suc.prems by (auto simp: ee_tick_def)
  from Suc.IH [OF this] have ih: "runs V (cmd_done_loop io n) (ee_tick 1 C) (- 1) (C\<lparr>ee_busy := ee_busy C - Suc n\<rparr>)" by (simp add: ee_tick_def)
  have "runs V (do { udelay io 1; cmd_done_loop io n }) C (- 1) (C\<lparr>ee_busy := ee_busy C - Suc n\<rparr>)"
    by (rule runs_bind [OF ee_delay [OF assms] ih])
  then show ?case
    by (subst cmd_done_loop.simps) (simp, rule runs_bind [OF ee_R8 [OF assms]], simp add: t)
qed


section \<open>What a write leaves behind\<close>

text \<open>
  Property C22.  Writing a word to the EEPROM and reading a word afterwards, through the pins, against
  a chip of the type that the driver found whose programming time is below the 50000 polls of a
  microsecond: the read returns the written data at the address that was written (addresses count
  modulo the size of the chip) and the old content everywhere else; exactly that one word of the
  chip has changed, the chip is deselected and protected against writes again, and the driver's
  other state is as before.
\<close>

theorem eeprom_roundtrip:
  assumes "eeprom_law io a twp V" "idle (V (hw s))" "eeprom_fits (eeprom_type s) a" "twp < 50000"
    and "run_state (do { rtl8125_eeprom_write_sc io reg data; rtl8125_eeprom_read_sc io reg' }) s = (v, s')"
  shows "v = (if unat reg' mod 2 ^ a = unat reg mod 2 ^ a then data else ee_mem (V (hw s)) (unat reg' mod 2 ^ a))
    \<and> ee_mem (V (hw s')) = (ee_mem (V (hw s)))(unat reg mod 2 ^ a := data)
    \<and> idle (V (hw s')) \<and> \<not> ee_wen (V (hw s')) \<and> same_priv s s'"
proof -
  obtain u t where w: "run_state (rtl8125_eeprom_write_sc io reg data) s = (u, t)" by (cases "run_state (rtl8125_eeprom_write_sc io reg data) s")
  then have r: "run_state (rtl8125_eeprom_read_sc io reg') t = (v, s')" using assms(5) by simp
  note t = write_sc_run [OF assms(1-4) w]
  then have "eeprom_fits (eeprom_type t) a" "idle (V (hw t))" using assms(3) same_priv_eeprom [of s t] by auto
  from read_sc_run [OF assms(1) this(2,1) r] t have wen: "\<not> ee_wen (V (hw s'))" by simp
  have "valid (\<lambda>t. ee_ok io a twp V t \<and> ee_mem (V (hw t)) = ee_mem (V (hw s)) \<and> same_priv s t)
    (do { rtl8125_eeprom_write_sc io reg data; rtl8125_eeprom_read_sc io reg' })
    (\<lambda>x t. x = (if unat reg' mod 2 ^ a = unat reg mod 2 ^ a then data else ee_mem (V (hw s)) (unat reg' mod 2 ^ a))
      \<and> ee_ok io a twp V t \<and> ee_mem (V (hw t)) = (ee_mem (V (hw s)))(unat reg mod 2 ^ a := data) \<and> same_priv s t)"
    by (rule eep.write_then_read) simp_all
  from validD [OF this _ assms(5)] assms(1-4) wen show ?thesis by (simp add: ee_ok_def)
qed

lemma cmd_done_gives_up:
  assumes "eeprom_law io a twp V" "chip_is C ([True, True, True] @ ad) True M" "length ad = a" "50003 \<le> twp"
  shows "\<exists>C'. runs V (rtl8125_eeprom_cmd_done io) C (- 1) C' \<and> pin_cs (ee_reg C') \<and> ee_wen C' \<and> ee_mem C' = M(bits_val ad := - 1)"
proof -
  have "ee_reg C \<in> {0x88, 0x89}" using assms(2) by (simp add: chip_is_def)
  from runs_stand_by [OF assms(1) this] obtain r where r: "r \<in> {0x88, 0x89}"
    and s: "runs V (rtl8125_stand_by io) C () ((ee_tick 3 (ee_end a twp C))\<lparr>ee_reg := r\<rparr>)" by blast
  let ?D = "(ee_tick 3 (ee_end a twp C))\<lparr>ee_reg := r\<rparr>"
  have b: "ee_busy (ee_end a twp C) = twp"
    using assms(2,3) by (auto simp: chip_is_def ee_end_def Let_def ee_op_def ee_program_def numeral_2_eq_2)
  then have "50000 \<le> ee_busy ?D" using assms(4) by (simp add: ee_tick_def)
  then have "runs V (cmd_done_loop io 50000) ?D (- 1) (?D\<lparr>ee_busy := ee_busy ?D - 50000\<rparr>)"
    by (rule done_loop_gives_up [OF assms(1)]) (simp add: ee_tick_def)
  with s have "runs V (rtl8125_eeprom_cmd_done io) C (- 1) (?D\<lparr>ee_busy := ee_busy ?D - 50000\<rparr>)"
    unfolding rtl8125_eeprom_cmd_done_def by (rule runs_bind)
  moreover have "pin_cs r" using r by auto
  ultimately show ?thesis using end_erase [OF assms(2,3), of twp]
    by (intro exI [of _ "?D\<lparr>ee_busy := ee_busy ?D - 50000\<rparr>"]) (simp add: ee_tick_def)
qed

lemma write_gives_up:
  assumes "eeprom_law io a twp V" "idle (V (hw s))" "eeprom_fits (eeprom_type s) a" "50003 \<le> twp"
    and "run_state (rtl8125_eeprom_write_sc io reg data) s = (u, s')"
  shows "pin_cs (ee_reg (V (hw s'))) \<and> ee_wen (V (hw s')) \<and> ee_mem (V (hw s')) = (ee_mem (V (hw s)))(unat reg mod 2 ^ a := - 1)"
proof -
  let ?C = "V (hw s)" and ?ad = "msb_first (ucast reg :: u32) a"
  let ?M = "ee_mem ?C" and ?n = "a - 2"
  have a: "0 < a" "a \<le> 32" and n: "0 < ?n" "?n \<le> 32" "?n + 2 = a" using assms(3) by (auto simp: eeprom_fits_def)
  have av: "bits_val ?ad = unat reg mod 2 ^ a" using bits_val_msb [of a "ucast reg :: u32"] a(2) unat_wide [of reg] by simp
  have run: "run_state (eeprom_write_word io reg data a ?n) s = (u, s')" using assms(5) write_sc_body [OF assms(3)] by simp
  obtain C1 C2 C3 C4 where 1: "runs V (RTL_W8 io Cfg9346 (Cfg9346_EEM1 OR Cfg9346_EECS)) ?C () C1"
      "runs V (rtl8125_shift_out_bits io RTL_EEPROM_EWEN_OPCODE 5) C1 () C2" "runs V (rtl8125_shift_out_bits io (ucast reg) ?n) C2 () C3"
      "runs V (rtl8125_stand_by io) C3 () C4" and c4: "chip_is C4 [] True ?M"
    by (rule open_steps [OF assms(1,2) n, where addr = "ucast reg"])
  have ob: "bit RTL_EEPROM_ERASE_OPCODE (3 - 1)" by (simp add: RTL_EEPROM_ERASE_OPCODE_def)
  obtain C5 where 5: "runs V (rtl8125_shift_out_bits io RTL_EEPROM_ERASE_OPCODE 3) C4 () C5" "chip_is C5 [True, True, True] True ?M"
    using shift_out_is [OF assms(1) c4, of 3 RTL_EEPROM_ERASE_OPCODE] ob a(1) by (auto simp: op_bits)
  obtain C6 where 6: "runs V (rtl8125_shift_out_bits io (ucast reg) a) C5 () C6" "chip_is C6 ([True, True, True] @ ?ad) True ?M"
    using shift_out_is [OF assms(1) 5(2) a, of "ucast reg"] by (auto simp: ee_op_def)
  obtain C7 where 7: "runs V (rtl8125_eeprom_cmd_done io) C6 (- 1) C7"
    and c7: "pin_cs (ee_reg C7)" "ee_wen C7" "ee_mem C7 = ?M(bits_val ?ad := - 1)"
    using cmd_done_gives_up [OF assms(1) 6(2) _ assms(4)] by auto
  have early: "runs V (if (- 1 :: int) < 0 then State_Monad.return () else k) C7 () C7" for k
    by (simp add: runs_return)
  have "runs V (eeprom_write_word io reg data a ?n) ?C () C7"
    unfolding eeprom_write_word_def
    by (rule 1 [THEN runs_bind] 5(1) [THEN runs_bind] 6(1) [THEN runs_bind] 7 [THEN runs_bind] early)+
  from runsD [OF this refl run] c7 show ?thesis by (simp add: av)
qed

section \<open>Finding the chip\<close>

text \<open>The strap bit of \<open>RxConfig\<close> tells the size of the chip.\<close>

definition strap_law :: "'d mmio \<Rightarrow> nat \<Rightarrow> bool" where
  "strap_law io a \<longleftrightarrow> (\<forall>d. fst (readl io d RxConfig_reg) AND RxCfg_9356SEL \<noteq> 0 \<longleftrightarrow> a = 8) \<and> (a = 6 \<or> a = 8)"

text \<open>
  Looking for the EEPROM at start, on a chip whose size the strap bit tells: afterwards
  the chip is idle with its content as before, and the driver either has no EEPROM (of length zero), or
  one of the chip's own size whose first word is one of the two signatures.
\<close>

lemma eeprom_type_sound:
  assumes "eeprom_law io a twp V" "strap_law io a" "idle (V (hw s))"
    and "run_state (rtl8125_eeprom_type io) s = (u, s')"
  shows "idle (V (hw s')) \<and> ee_mem (V (hw s')) = ee_mem (V (hw s))
    \<and> (eeprom_type s' = EEPROM_TYPE_NONE \<and> eeprom_len s' = 0
       \<or> eeprom_fits (eeprom_type s') a \<and> ee_mem (V (hw s)) 0 \<in> {0x8128, 0x8129})"
proof -
  have q: "V (snd (readb io d r)) = V d" "V (snd (readl io d r)) = V d" for d r using assms(1) by (simp_all add: eeprom_law_def)
  note m = eeprom_check_magic_def set_eeprom_def
  obtain v s1 where r8: "run_state (RTL_R8 io 0xD2) s = (v, s1)" by (cases "run_state (RTL_R8 io 0xD2) s")
  have s1: "V (hw s1) = V (hw s)" using r8 q by (auto simp: RTL_R8_def split_beta)
  show ?thesis
  proof (cases "mcfg s = CFG_METHOD_DEFAULT \<or> v AND 0x04 \<noteq> 0")
    case True
    then show ?thesis using assms(3,4) r8 s1 by (auto simp: rtl8125_eeprom_type_def m split: if_splits)
  next
    case False
    obtain c s2 where r32: "run_state (RTL_R32 io RxConfig_reg) s1 = (c, s2)" by (cases "run_state (RTL_R32 io RxConfig_reg) s1")
    have s2: "V (hw s2) = V (hw s)" and c: "c AND RxCfg_9356SEL \<noteq> 0 \<longleftrightarrow> a = 8"
      using r32 q s1 assms(2) by (auto simp: RTL_R32_def strap_law_def split_beta)
    define s3 where "s3 = (if a = 8 then s2\<lparr>eeprom_type := EEPROM_TYPE_93C56, eeprom_len := 256\<rparr> else s2\<lparr>eeprom_type := EEPROM_TYPE_93C46, eeprom_len := 128\<rparr>)"
    have f: "eeprom_fits (eeprom_type s3) a" and i3: "idle (V (hw s3))" and v3: "V (hw s3) = V (hw s)"
      using assms(2,3) s2 by (auto simp: s3_def eeprom_fits_def strap_law_def)
    obtain magic s4 where rd: "run_state (rtl8125_eeprom_read_sc io 0) s3 = (magic, s4)" by (cases "run_state (rtl8125_eeprom_read_sc io 0) s3")
    note k = read_sc_run [OF assms(1) i3 f rd]
    have "run_state (rtl8125_eeprom_type io) s = run_state (eeprom_check_magic magic) s4"
      using False r8 r32 c rd by (auto simp: rtl8125_eeprom_type_def set_eeprom_def s3_def)
    then show ?thesis using assms(4) k v3 f same_priv_eeprom [of s3 s4] by (auto simp: m split: if_splits)
  qed
qed

section \<open>A board with the smaller chip\<close>

definition ee_board :: "ee_chip mmio" where
  "ee_board = \<lparr>readb = (\<lambda>c r. (if r = Cfg9346 then ee_read c else 0, c)), readw = (\<lambda>c r. (0, c)), readl = (\<lambda>c r. (0, c)),
     writeb = (\<lambda>c r v. if r = Cfg9346 then ee_write 6 4000 v c else c), writew = (\<lambda>c r v. c), writel = (\<lambda>c r v. c),
     elapse = (\<lambda>c t. ee_tick t c), pci_read = (\<lambda>c r. (0, c)), pci_write = (\<lambda>c r v. c)\<rparr>"

definition ee_fresh :: ee_chip where
  "ee_fresh = \<lparr>ee_reg = 0, ee_mem = (\<lambda>n. if n = 0 then 0x8129 else of_nat n), ee_wen = False, ee_in = [], ee_out = [], ee_do = False, ee_busy = 0\<rparr>"

definition ee_nic :: "ee_chip nic" where
  "ee_nic = (demo_nic ee_fresh)\<lparr>eeprom_type := EEPROM_TYPE_93C46, eeprom_len := 128\<rparr>"

lemma ee_board_laws: "eeprom_law ee_board 6 4000 (\<lambda>c. c)" "strap_law ee_board 6"
  by (simp_all add: eeprom_law_def strap_law_def ee_board_def)

lemma ee_nic_ready: "idle (hw ee_nic)" "eeprom_fits (eeprom_type ee_nic) 6" "hw ee_nic = ee_fresh"
  by (simp_all add: idle_def ee_nic_def demo_nic_def ee_fresh_def eeprom_fits_def pin_cs_def)

theorem eeprom_roundtrip_witness:
  "fst (run_state (do { rtl8125_eeprom_write_sc ee_board 5 0xBEEF; rtl8125_eeprom_read_sc ee_board 5 }) ee_nic) = 0xBEEF
   \<and> fst (run_state (do { rtl8125_eeprom_write_sc ee_board 5 0xBEEF; rtl8125_eeprom_read_sc ee_board 7 }) ee_nic) = 7"
  using eeprom_roundtrip [OF ee_board_laws(1) ee_nic_ready(1,2) _ surjective_pairing, of 5 "0xBEEF" 5]
    eeprom_roundtrip [OF ee_board_laws(1) ee_nic_ready(1,2) _ surjective_pairing, of 5 "0xBEEF" 7]
  by (simp add: ee_nic_ready(3) ee_fresh_def)

lemma eeprom_type_sound_witness:
  "idle (hw (snd (run_state (rtl8125_eeprom_type ee_board) ee_nic)))
   \<and> ee_mem (hw (snd (run_state (rtl8125_eeprom_type ee_board) ee_nic))) 0 = 0x8129"
  using eeprom_type_sound [OF ee_board_laws ee_nic_ready(1) surjective_pairing]
  by (simp add: ee_nic_ready(3) ee_fresh_def)

end
