(* ===== verification/Fiber.thy ===== *)
theory Fiber
  imports Access
begin

text \<open>
  \<open>r8125_fiber.c\<close>: the external PHY of the fiber boards.  Its registers are reached by a clause 45 MDIO bus
  that the driver runs bit by bit over general-purpose pins: bit 7 of the MAC register \<open>0xDC52\<close> is the
  clock, bit 2 the data to send, bit 2 of \<open>0xDC58\<close> the data received, and bit 2 of \<open>0xDC4C\<close> says who drives
  the data line.  The bus and the PHY on it are a hypothesis on the device (\<open>fiber_law\<close>), and the driver's
  routines are given their exact runs on it; the PHY's registers are then an instance of \<open>reg_channel\<close>.
\<close>

section \<open>Pins\<close>

definition rtl8125_fiber_set_mdc_gpio_c45 :: "'d mmio \<Rightarrow> bool \<Rightarrow> ('d, unit) drv" where
  "rtl8125_fiber_set_mdc_gpio_c45 io pu =
     (if pu then rtl8125_set_mac_ocp_bit io 0xDC52 0x80 else rtl8125_clear_mac_ocp_bit io 0xDC52 0x80)"

definition rtl8125_fiber_set_mdc :: "'d mmio \<Rightarrow> bool \<Rightarrow> ('d, unit) drv" where
  "rtl8125_fiber_set_mdc io pu = rtl8125_fiber_set_mdc_gpio_c45 io pu"

definition rtl8125_fiber_set_mdcDownUp :: "'d mmio \<Rightarrow> ('d, unit) drv" where
  "rtl8125_fiber_set_mdcDownUp io = do {
     udelay io 1;
     rtl8125_fiber_set_mdc io False;
     udelay io 1;
     rtl8125_fiber_set_mdc io True
   }"

definition rtl8125_fiber_set_mdio_bit_gpio_c45 :: "'d mmio \<Rightarrow> bool \<Rightarrow> ('d, unit) drv" where
  "rtl8125_fiber_set_mdio_bit_gpio_c45 io pu = do {
     (if pu then rtl8125_set_mac_ocp_bit io 0xDC52 0x04 else rtl8125_clear_mac_ocp_bit io 0xDC52 0x04);
     rtl8125_fiber_set_mdcDownUp io
   }"

definition rtl8125_fiber_set_mdio_bit :: "'d mmio \<Rightarrow> bool \<Rightarrow> ('d, unit) drv" where
  "rtl8125_fiber_set_mdio_bit io pu = rtl8125_fiber_set_mdio_bit_gpio_c45 io pu"

definition rtl8125_fiber_get_mdio_bit_gpio_c45 :: "'d mmio \<Rightarrow> ('d, u16) drv" where
  "rtl8125_fiber_get_mdio_bit_gpio_c45 io = do {
     rtl8125_fiber_set_mdcDownUp io;
     v \<leftarrow> rtl8125_mac_ocp_read io 0xDC58;
     State_Monad.return (if v AND 0x04 \<noteq> 0 then 1 else 0)
   }"

definition rtl8125_fiber_get_mdio_bit :: "'d mmio \<Rightarrow> ('d, u16) drv" where
  "rtl8125_fiber_get_mdio_bit io = rtl8125_fiber_get_mdio_bit_gpio_c45 io"

fun rtl8125_fiber_shift_bit_in :: "'d mmio \<Rightarrow> u32 \<Rightarrow> nat \<Rightarrow> ('d, unit) drv" where
  "rtl8125_fiber_shift_bit_in io val 0 = State_Monad.return ()"
| "rtl8125_fiber_shift_bit_in io val (Suc i) = do {
     rtl8125_fiber_set_mdio_bit io (bit val i);
     rtl8125_fiber_shift_bit_in io val i
   }"

fun shift_bit_out_loop :: "'d mmio \<Rightarrow> nat \<Rightarrow> u16 \<Rightarrow> ('d, u16) drv" where
  "shift_bit_out_loop io 0 data = State_Monad.return data"
| "shift_bit_out_loop io (Suc i) data = do {
     b \<leftarrow> rtl8125_fiber_get_mdio_bit io;
     shift_bit_out_loop io i (data + push_bit i b)
   }"

definition rtl8125_fiber_shift_bit_out :: "'d mmio \<Rightarrow> ('d, u16) drv" where
  "rtl8125_fiber_shift_bit_out io = shift_bit_out_loop io 16 0"

definition rtl8125_fiber_dir_gpio_c45 :: "'d mmio \<Rightarrow> bool \<Rightarrow> ('d, unit) drv" where
  "rtl8125_fiber_dir_gpio_c45 io output_mode =
     (if output_mode then rtl8125_set_mac_ocp_bit io 0xDC4C 0x04 else rtl8125_clear_mac_ocp_bit io 0xDC4C 0x04)"

definition rtl8125_fiber_dir :: "'d mmio \<Rightarrow> bool \<Rightarrow> ('d, unit) drv" where
  "rtl8125_fiber_dir io output_mode = rtl8125_fiber_dir_gpio_c45 io output_mode"

section \<open>Frames\<close>

definition R8125_FIBER_ST :: u32 where "R8125_FIBER_ST = 1"
definition R8125_FIBER_TA :: u32 where "R8125_FIBER_TA = 2"
definition R8125_FIBER_MDIO_C45 :: u32 where "R8125_FIBER_MDIO_C45 = 0x8000"
definition R8125_FIBER_C45_ST :: u32 where "R8125_FIBER_C45_ST = 0x8000"
definition R8125_FIBER_C45_OP_ADDR :: u32 where "R8125_FIBER_C45_OP_ADDR = 0x8000"
definition R8125_FIBER_C45_OP_W :: u32 where "R8125_FIBER_C45_OP_W = 0x8001"
definition R8125_FIBER_C45_OP_R :: u32 where "R8125_FIBER_C45_OP_R = 0x8003"

definition rtl8125_fiber_cmd :: "'d mmio \<Rightarrow> u32 \<Rightarrow> u8 \<Rightarrow> u32 \<Rightarrow> ('d, unit) drv" where
  "rtl8125_fiber_cmd io cmd phy_addr reg = do {
     rtl8125_fiber_dir io True;
     rtl8125_fiber_shift_bit_in io 0xffffffff 32;
     (if cmd AND R8125_FIBER_MDIO_C45 \<noteq> 0 then rtl8125_fiber_shift_bit_in io R8125_FIBER_C45_ST 2
      else rtl8125_fiber_shift_bit_in io R8125_FIBER_ST 2);
     rtl8125_fiber_shift_bit_in io cmd 2;
     rtl8125_fiber_shift_bit_in io (ucast phy_addr) 5;
     rtl8125_fiber_shift_bit_in io reg 5
   }"

definition rtl8125_fiber_cmdAddr :: "'d mmio \<Rightarrow> u8 \<Rightarrow> u32 \<Rightarrow> ('d, u8) drv" where
  "rtl8125_fiber_cmdAddr io phy_addr reg = do {
     let dev_addr = (ucast (drop_bit 16 reg AND 0x1F) :: u8);
     let addr = (ucast reg :: u16);
     rtl8125_fiber_cmd io R8125_FIBER_C45_OP_ADDR phy_addr (ucast dev_addr);
     rtl8125_fiber_shift_bit_in io R8125_FIBER_TA 2;
     rtl8125_fiber_shift_bit_in io (ucast addr) 16;
     rtl8125_fiber_dir io False;
     rtl8125_fiber_get_mdio_bit io;
     State_Monad.return dev_addr
   }"

definition rtl8125_fiber_reset_gpio_c45 :: "'d mmio \<Rightarrow> ('d, unit) drv" where
  "rtl8125_fiber_reset_gpio_c45 io = do {
     rtl8125_set_mac_ocp_bit io 0xDC4C 0x84;
     rtl8125_clear_mac_ocp_bit io 0xDC52 0x80;
     rtl8125_set_mac_ocp_bit io 0xDC52 0x04
   }"

definition rtl8125_fiber_write_common :: "'d mmio \<Rightarrow> u16 \<Rightarrow> ('d, unit) drv" where
  "rtl8125_fiber_write_common io val = do {
     rtl8125_fiber_shift_bit_in io R8125_FIBER_TA 2;
     rtl8125_fiber_shift_bit_in io (ucast val) 16;
     rtl8125_fiber_dir io False;
     rtl8125_fiber_get_mdio_bit io;
     State_Monad.return ()
   }"

definition rtl8125_fiber_mdio_write_gpio_c45 :: "'d mmio \<Rightarrow> u32 \<Rightarrow> u16 \<Rightarrow> u8 \<Rightarrow> ('d, unit) drv" where
  "rtl8125_fiber_mdio_write_gpio_c45 io reg val phy_addr = do {
     dev_addr \<leftarrow> rtl8125_fiber_cmdAddr io phy_addr reg;
     rtl8125_fiber_cmd io R8125_FIBER_C45_OP_W phy_addr (ucast dev_addr);
     rtl8125_fiber_write_common io val
   }"

definition rtl8125_fiber_read_common :: "'d mmio \<Rightarrow> ('d, u16) drv" where
  "rtl8125_fiber_read_common io = do {
     rtl8125_fiber_dir io False;
     rtl8125_fiber_get_mdio_bit io;
     data \<leftarrow> rtl8125_fiber_shift_bit_out io;
     rtl8125_fiber_get_mdio_bit io;
     State_Monad.return data
   }"

definition rtl8125_fiber_mdio_read_gpio_c45 :: "'d mmio \<Rightarrow> u32 \<Rightarrow> u8 \<Rightarrow> ('d, u16) drv" where
  "rtl8125_fiber_mdio_read_gpio_c45 io reg phy_addr = do {
     dev_addr \<leftarrow> rtl8125_fiber_cmdAddr io phy_addr reg;
     rtl8125_fiber_cmd io R8125_FIBER_C45_OP_R phy_addr (ucast dev_addr);
     rtl8125_fiber_read_common io
   }"

section \<open>Registers of the PHY\<close>

abbreviation (input) FIBER_STAT_NOT_CHECKED :: u32 where "FIBER_STAT_NOT_CHECKED \<equiv> 0"
abbreviation (input) FIBER_STAT_DISCONNECT :: u32 where "FIBER_STAT_DISCONNECT \<equiv> 1"
abbreviation (input) FIBER_STAT_CONNECT_GPO_C45 :: u32 where "FIBER_STAT_CONNECT_GPO_C45 \<equiv> 2"
abbreviation (input) FIBER_MODE_RTL8125D_RTL8221D :: u32 where "FIBER_MODE_RTL8125D_RTL8221D \<equiv> 1"

definition rtl8125_fiber_mdio_write :: "'d mmio \<Rightarrow> u32 \<Rightarrow> u16 \<Rightarrow> ('d, unit) drv" where
  "rtl8125_fiber_mdio_write io reg val = do {
     stat \<leftarrow> gets HwFiberStat;
     if stat = FIBER_STAT_CONNECT_GPO_C45 then rtl8125_fiber_mdio_write_gpio_c45 io reg val 0
     else State_Monad.return ()
   }"

definition rtl8125_fiber_mdio_read :: "'d mmio \<Rightarrow> u32 \<Rightarrow> ('d, u16) drv" where
  "rtl8125_fiber_mdio_read io reg = do {
     stat \<leftarrow> gets HwFiberStat;
     if stat = FIBER_STAT_CONNECT_GPO_C45 then rtl8125_fiber_mdio_read_gpio_c45 io reg 0
     else State_Monad.return 0xffff
   }"

definition rtl8125_fiber_clear_and_set_phy_bit :: "'d mmio \<Rightarrow> u32 \<Rightarrow> u16 \<Rightarrow> u16 \<Rightarrow> ('d, unit) drv" where
  "rtl8125_fiber_clear_and_set_phy_bit io addr clearmask setmask = do {
     v \<leftarrow> rtl8125_fiber_mdio_read io addr;
     rtl8125_fiber_mdio_write io addr ((v AND NOT clearmask) OR setmask)
   }"

definition rtl8125_fiber_clear_phy_bit :: "'d mmio \<Rightarrow> u32 \<Rightarrow> u16 \<Rightarrow> ('d, unit) drv" where
  "rtl8125_fiber_clear_phy_bit io addr msk = rtl8125_fiber_clear_and_set_phy_bit io addr msk 0"

definition rtl8125_fiber_set_phy_bit :: "'d mmio \<Rightarrow> u32 \<Rightarrow> u16 \<Rightarrow> ('d, unit) drv" where
  "rtl8125_fiber_set_phy_bit io addr msk = rtl8125_fiber_clear_and_set_phy_bit io addr 0 msk"

definition R8125_MAKE_C45_ADDR :: "u32 \<Rightarrow> u32 \<Rightarrow> u32" where
  "R8125_MAKE_C45_ADDR mmd addr = push_bit 16 mmd OR addr"

text \<open>The \<open>do ... while\<close> loop of the reset; \<open>n\<close> is \<open>20 - Timeout\<close>.\<close>

fun fiber_reset_wait :: "'d mmio \<Rightarrow> nat \<Rightarrow> ('d, unit) drv" where
  "fiber_reset_wait io n = do {
     udelay io 1000;
     v \<leftarrow> rtl8125_fiber_mdio_read io (R8125_MAKE_C45_ADDR 0x01 0x00);
     if v AND 0x8000 \<noteq> 0 \<and> 1 < n then fiber_reset_wait io (n - 1) else State_Monad.return ()
   }"

declare fiber_reset_wait.simps [simp del]

definition rtl8125_fiber_phy_reset_8221d :: "'d mmio \<Rightarrow> ('d, unit) drv" where
  "rtl8125_fiber_phy_reset_8221d io = do {
     rtl8125_fiber_set_phy_bit io (R8125_MAKE_C45_ADDR 0x01 0x00) 0x8000;
     fiber_reset_wait io 20
   }"

definition rtl8125_fiber_phy_reset :: "'d mmio \<Rightarrow> ('d, unit) drv" where
  "rtl8125_fiber_phy_reset io = do {
     ver \<leftarrow> gets HwFiberModeVer;
     if ver = FIBER_MODE_RTL8125D_RTL8221D then rtl8125_fiber_phy_reset_8221d io else State_Monad.return ()
   }"

definition rtl8125_fiber_set_rtl8221d_phy_mode :: "'d mmio \<Rightarrow> u16 \<Rightarrow> ('d, unit) drv" where
  "rtl8125_fiber_set_rtl8221d_phy_mode io mode = do {
     let mode = mode AND 0x3f;
     rtl8125_fiber_clear_phy_bit io (R8125_MAKE_C45_ADDR 30 0x75F3) 0x0001;
     rtl8125_fiber_clear_and_set_phy_bit io (R8125_MAKE_C45_ADDR 30 0x697A) 0x003F mode
   }"

definition rtl8125_fiber_set_phy_mode :: "'d mmio \<Rightarrow> u16 \<Rightarrow> ('d, unit) drv" where
  "rtl8125_fiber_set_phy_mode io mode = do {
     ver \<leftarrow> gets HwFiberModeVer;
     if ver = FIBER_MODE_RTL8125D_RTL8221D then rtl8125_fiber_set_rtl8221d_phy_mode io mode else State_Monad.return ()
   }"

definition rtl8125_hw_rtl8221d_phy_config :: "'d mmio \<Rightarrow> ('d, unit) drv" where
  "rtl8125_hw_rtl8221d_phy_config io = do {
     rtl8125_fiber_reset_gpio_c45 io;
     sp \<leftarrow> gets speed;
     rtl8125_fiber_set_phy_mode io (if sp = 2500 then 0x02 else 0x04);
     rtl8125_fiber_clear_phy_bit io (R8125_MAKE_C45_ADDR 0x07 0x3C) 0x0006;
     rtl8125_fiber_clear_phy_bit io (R8125_MAKE_C45_ADDR 0x07 0x3E) 0x0003;
     rtl8125_fiber_phy_reset io
   }"

definition rtl8125_hw_fiber_phy_config :: "'d mmio \<Rightarrow> ('d, unit) drv" where
  "rtl8125_hw_fiber_phy_config io = do {
     ver \<leftarrow> gets HwFiberModeVer;
     if ver = FIBER_MODE_RTL8125D_RTL8221D then rtl8125_hw_rtl8221d_phy_config io else State_Monad.return ()
   }"

section \<open>Finding the PHY\<close>

definition RTL8221D_PHY_ID_1 :: u16 where "RTL8221D_PHY_ID_1 = 0x001C"
definition RTL8221D_PHY_ID_2 :: u16 where "RTL8221D_PHY_ID_2 = 0xC849"

fun connect_status_loop :: "'d mmio \<Rightarrow> nat \<Rightarrow> ('d, u32) drv" where
  "connect_status_loop io 0 = State_Monad.return FIBER_STAT_CONNECT_GPO_C45"
| "connect_status_loop io (Suc n) = do {
     a \<leftarrow> rtl8125_fiber_mdio_read_gpio_c45 io (R8125_MAKE_C45_ADDR 0x01 0x02) 0;
     if RTL8221D_PHY_ID_1 \<noteq> a then State_Monad.return FIBER_STAT_DISCONNECT
     else do {
       b \<leftarrow> rtl8125_fiber_mdio_read_gpio_c45 io (R8125_MAKE_C45_ADDR 0x01 0x03) 0;
       if RTL8221D_PHY_ID_2 \<noteq> b then State_Monad.return FIBER_STAT_DISCONNECT else connect_status_loop io n
     }
   }"

definition rtl8125_fiber_get_connect_status_8221d :: "'d mmio \<Rightarrow> ('d, u32) drv" where
  "rtl8125_fiber_get_connect_status_8221d io = do {
     rtl8125_fiber_reset_gpio_c45 io;
     connect_status_loop io 4
   }"

definition rtl8125_fiber_get_connect_status :: "'d mmio \<Rightarrow> ('d, u32) drv" where
  "rtl8125_fiber_get_connect_status io = do {
     ver \<leftarrow> gets HwFiberModeVer;
     if ver = FIBER_MODE_RTL8125D_RTL8221D then rtl8125_fiber_get_connect_status_8221d io
     else State_Monad.return FIBER_STAT_NOT_CHECKED
   }"

definition rtl8125_check_fiber_mode_support :: "'d mmio \<Rightarrow> ('d, unit) drv" where
  "rtl8125_check_fiber_mode_support io = do {
     cfg \<leftarrow> gets mcfg;
     (if cfg = 10 \<or> cfg = 11 then do {
        v \<leftarrow> rtl8125_mac_ocp_read io 0xD006;
        if (ucast v :: u8) = 0x03 then modify (\<lambda>s. s\<lparr>HwFiberModeVer := FIBER_MODE_RTL8125D_RTL8221D\<rparr>) else State_Monad.return ()
      } else State_Monad.return ());
     ver \<leftarrow> gets HwFiberModeVer;
     if ver \<noteq> 0 then do {
       stat \<leftarrow> rtl8125_fiber_get_connect_status io;
       modify (\<lambda>s. s\<lparr>HwFiberStat := stat\<rparr>)
     } else State_Monad.return ()
   }"

definition rtl8125_fiber_link_ok :: "'d mmio \<Rightarrow> ('d, u32) drv" where
  "rtl8125_fiber_link_ok io = do {
     stat \<leftarrow> gets HwFiberStat;
     if stat = FIBER_STAT_CONNECT_GPO_C45 then do {
       status \<leftarrow> rtl8125_fiber_mdio_read io (R8125_MAKE_C45_ADDR 30 0x758D);
       State_Monad.return (if status \<noteq> 0xffff \<and> status AND 0x2 \<noteq> 0 then 1 else 0)
     } else State_Monad.return 0
   }"

section \<open>The bus and the PHY on it\<close>

text \<open>
  A PHY with address 0 on a clause 45 bus (IEEE 802.3, 45.3).  It takes a bit at every rising edge of the clock.
  After at least 32 ones a zero starts a frame: two start bits, two of operation, five of PHY address,
  five of device address, two of turn-around, sixteen of data.  An address frame sets the address of the device
  named, a write frame stores to it.  In a read frame the PHY drives the line: zero after the first
  bit of the turn-around, and then the data, high bit first, each bit from one edge to the next.
  A line that nobody drives is pulled up.
\<close>

record mdio_phy =
  ph_ones :: nat
  ph_frame :: "bool list"
  ph_addr :: "nat \<Rightarrow> nat"
  ph_mem :: "nat \<Rightarrow> nat \<Rightarrow> u16"

definition fr_op :: "bool list \<Rightarrow> bool list" where "fr_op f = take 2 (drop 2 f)"
definition fr_phy :: "bool list \<Rightarrow> nat" where "fr_phy f = bits_val (take 5 (drop 4 f))"
definition fr_dev :: "bool list \<Rightarrow> nat" where "fr_dev f = bits_val (take 5 (drop 9 f))"
definition fr_data :: "bool list \<Rightarrow> nat" where "fr_data f = bits_val (take 16 (drop 16 f))"

definition fr_mine :: "bool list \<Rightarrow> bool" where "fr_mine f \<longleftrightarrow> \<not> f ! 0 \<and> \<not> f ! 1 \<and> fr_phy f = 0"

definition ph_exec :: "bool list \<Rightarrow> mdio_phy \<Rightarrow> mdio_phy" where
  "ph_exec f p =
     (if \<not> fr_mine f then p
      else if fr_op f = [False, False] then p\<lparr>ph_addr := (ph_addr p)(fr_dev f := fr_data f)\<rparr>
      else if fr_op f = [False, True] then
        p\<lparr>ph_mem := (ph_mem p)(fr_dev f := (ph_mem p (fr_dev f))(ph_addr p (fr_dev f) := of_nat (fr_data f)))\<rparr>
      else p)"

definition ph_edge :: "bool \<Rightarrow> mdio_phy \<Rightarrow> mdio_phy" where
  "ph_edge b p =
     (if ph_frame p = [] then
        (if b then p\<lparr>ph_ones := ph_ones p + 1\<rparr>
         else if 32 \<le> ph_ones p then p\<lparr>ph_ones := 0, ph_frame := [False]\<rparr> else p\<lparr>ph_ones := 0\<rparr>)
      else let f = ph_frame p @ [b]
        in if length f = 32 then (ph_exec f p)\<lparr>ph_frame := []\<rparr> else p\<lparr>ph_frame := f\<rparr>)"

text \<open>The line while the driver does not drive it.\<close>

definition ph_line :: "mdio_phy \<Rightarrow> bool" where
  "ph_line p =
     (let f = ph_frame p; n = length f
      in if 14 < n \<and> fr_mine f \<and> fr_op f = [True, True]
         then 15 < n \<and> bit (ph_mem p (fr_dev f) (ph_addr p (fr_dev f))) (31 - n) else True)"

record fiber_bus =
  fb_dir :: u16
  fb_out :: u16
  fb_phy :: mdio_phy

definition fb_level :: "fiber_bus \<Rightarrow> bool" where
  "fb_level c = (if bit (fb_dir c) 2 then bit (fb_out c) 2 else ph_line (fb_phy c))"

definition fb_set_out :: "u16 \<Rightarrow> fiber_bus \<Rightarrow> fiber_bus" where
  "fb_set_out v c =
     (let c' = c\<lparr>fb_out := v\<rparr>
      in if bit (fb_dir c) 7 \<and> \<not> bit (fb_out c) 7 \<and> bit v 7 then c'\<lparr>fb_phy := ph_edge (fb_level c') (fb_phy c)\<rparr> else c')"

text \<open>
  The pins are MAC registers: a command with the flag writes one, one without selects what the
  next read shows.  Other registers have no effect on the bus.
\<close>

definition fiber_law :: "'d mmio \<Rightarrow> ('d \<Rightarrow> fiber_bus) \<Rightarrow> bool" where
  "fiber_law io V \<longleftrightarrow>
     (\<forall>d t. V (elapse io d t) = V d) \<and> (\<forall>d. V (snd (readl io d MACOCP)) = V d) \<and>
     (\<forall>d c. flag_set c \<longrightarrow> V (writel io d MACOCP c) =
        (if key16 c = 0x6E26 then (V d)\<lparr>fb_dir := ucast c\<rparr> else if key16 c = 0x6E29 then fb_set_out (ucast c) (V d) else V d)) \<and>
     (\<forall>d c. \<not> flag_set c \<longrightarrow> V (writel io d MACOCP c) = V d \<and>
        (let v = ucast (fst (readl io (writel io d MACOCP c) MACOCP)) :: u16
         in (key16 c = 0x6E26 \<longrightarrow> v = fb_dir (V d)) \<and> (key16 c = 0x6E29 \<longrightarrow> v = fb_out (V d)) \<and>
            (key16 c = 0x6E2C \<longrightarrow> bit v 2 = fb_level (V d))))"

section \<open>Pins move the bus\<close>

lemma mac_cmd:
  fixes a v :: u16
  defines "w \<equiv> (push_bit 16 (ucast (a div 2)) + ucast v) OR chan_flag :: u32"
  shows "flag_set w" "key16 w = ucast (a div 2)" "ucast w = v"
proof -
  have "w AND 0xffff = ucast v" using phy_cmd(5,6) [of a v] by (simp add: w_def)
  then show "ucast w = v" using low16 [of w "ucast v"] by simp
  show "flag_set w" "key16 w = ucast (a div 2)" using phy_cmd(1,3,6) [of a v] by (simp_all add: w_def)
qed

lemma fb_mac_write:
  assumes "fiber_law io V"
  shows "runs V (rtl8125_mac_ocp_write io 0xDC4C v) C () (C\<lparr>fb_dir := v\<rparr>)" "runs V (rtl8125_mac_ocp_write io 0xDC52 v) C () (fb_set_out v C)"
  using assms mac_cmd [of "0xDC4C" v] mac_cmd [of "0xDC52" v]
  by (auto simp: runs_def valid_def views_def rtl8125_mac_ocp_write_def RTL_W32_def fiber_law_def Let_def)

lemma fb_mac_read:
  assumes "fiber_law io V"
  shows "runs V (rtl8125_mac_ocp_read io 0xDC4C) C (fb_dir C) C" "runs V (rtl8125_mac_ocp_read io 0xDC52) C (fb_out C) C"
  using assms phy_cmd(2,4) [of "0xDC4C"] phy_cmd(2,4) [of "0xDC52"]
  by (auto simp: runs_def valid_def views_def rtl8125_mac_ocp_read_def RTL_W32_def RTL_R32_def fiber_law_def Let_def split_beta)

lemma fb_pin_read:
  assumes "fiber_law io V"
  shows "runs V (do { v \<leftarrow> rtl8125_mac_ocp_read io 0xDC58; State_Monad.return (if v AND 0x04 \<noteq> 0 then 1 else 0 :: u16) }) C (of_bool (fb_level C)) C"
proof -
  have b: "v AND 4 \<noteq> 0 \<longleftrightarrow> bit v 2" for v :: u16 by (simp add: bit_iff_and_push_bit_not_eq_0)
  show ?thesis
    using assms phy_cmd(2,4) [of "0xDC58"]
    by (auto simp: b runs_def valid_def views_def rtl8125_mac_ocp_read_def RTL_W32_def RTL_R32_def fiber_law_def Let_def split_beta)
qed

text \<open>The clock is an output, the data line is driven by the driver or not, and the PHY is in state \<open>p\<close>.\<close>

definition fb_is :: "fiber_bus \<Rightarrow> bool \<Rightarrow> mdio_phy \<Rightarrow> bool" where
  "fb_is C drives p \<longleftrightarrow> bit (fb_dir C) 7 \<and> (bit (fb_dir C) 2 \<longleftrightarrow> drives) \<and> fb_phy C = p"

lemma pin_bits [simp]:
  fixes x :: u16
  shows "bit (x AND - 129) 2 = bit x 2" "\<not> bit (x AND - 129) 7" "bit (x OR 0x80) 2 = bit x 2" "bit (x OR 0x80) 7"
    "\<not> bit (x AND - 5) 2" "bit (x AND - 5) 7 = bit x 7" "bit (x OR 0x04) 2" "bit (x OR 0x04) 7 = bit x 7"
    "bit (x OR 0x84) 2" "bit (x OR 0x84) 7"
proof -
  have n: "- 129 = (NOT 0x80 :: u16)" "- 5 = (NOT 0x04 :: u16)" by simp_all
  show "bit (x AND - 129) 2 = bit x 2" "\<not> bit (x AND - 129) 7" "\<not> bit (x AND - 5) 2" "bit (x AND - 5) 7 = bit x 7"
    unfolding n bit_and_iff bit_not_iff by simp_all
qed (simp_all add: bit_simps)

lemma fb_update_out:
  assumes "fiber_law io V"
  shows "runs V (rtl8125_clear_mac_ocp_bit io 0xDC52 m) C () (fb_set_out (fb_out C AND NOT m) C)"
    "runs V (rtl8125_set_mac_ocp_bit io 0xDC52 m) C () (fb_set_out (fb_out C OR m) C)"
  unfolding rtl8125_clear_mac_ocp_bit_def rtl8125_set_mac_ocp_bit_def rtl8125_clear_set_mac_ocp_bit_def
  using runs_bind [OF fb_mac_read(2) [OF assms] fb_mac_write(2) [OF assms]] by (simp_all add: runs_bind [OF fb_mac_read(2) [OF assms]] fb_mac_write(2) [OF assms])

lemma fb_update_dir:
  assumes "fiber_law io V"
  shows "runs V (rtl8125_clear_mac_ocp_bit io 0xDC4C m) C () (C\<lparr>fb_dir := fb_dir C AND NOT m\<rparr>)"
    "runs V (rtl8125_set_mac_ocp_bit io 0xDC4C m) C () (C\<lparr>fb_dir := fb_dir C OR m\<rparr>)"
  unfolding rtl8125_clear_mac_ocp_bit_def rtl8125_set_mac_ocp_bit_def rtl8125_clear_set_mac_ocp_bit_def
  using fb_mac_write(1) [OF assms, of "(fb_dir C AND NOT m) OR 0" C] fb_mac_write(1) [OF assms, of "(fb_dir C AND NOT 0) OR m" C]
  by (auto intro: runs_bind [OF fb_mac_read(1) [OF assms]])

lemma fb_delay: "fiber_law io V \<Longrightarrow> runs V (udelay io t) C () C"
  by (auto simp: runs_def valid_def views_def udelay_def fiber_law_def)

text \<open>One turn of the clock.\<close>

lemma fb_clock:
  assumes "fiber_law io V" "fb_is C u p"
  shows "\<exists>C'. runs V (rtl8125_fiber_set_mdcDownUp io) C () C' \<and> fb_is C' u (ph_edge (fb_level C) p)"
proof -
  let ?C1 = "fb_set_out (fb_out C AND NOT 0x80) C"
  let ?C2 = "fb_set_out (fb_out ?C1 OR 0x80) ?C1"
  have c1: "?C1 = C\<lparr>fb_out := fb_out C AND NOT 0x80\<rparr>" by (simp add: fb_set_out_def Let_def)
  have "fb_level (C\<lparr>fb_out := x\<rparr>) = fb_level C" if "bit x 2 = bit (fb_out C) 2" for x
    using that by (simp add: fb_level_def)
  then have c2: "fb_is ?C2 u (ph_edge (fb_level C) p)"
    using assms(2) by (simp add: c1 fb_set_out_def fb_is_def Let_def)
  have "runs V (rtl8125_fiber_set_mdcDownUp io) C () ?C2"
    unfolding rtl8125_fiber_set_mdcDownUp_def rtl8125_fiber_set_mdc_def rtl8125_fiber_set_mdc_gpio_c45_def if_True if_False
    by (rule fb_delay [OF assms(1), THEN runs_bind] fb_update_out(1) [OF assms(1), THEN runs_bind] fb_update_out(2) [OF assms(1)])+
  with c2 show ?thesis by blast
qed

text \<open>A bit that the driver sends is what the PHY takes; a bit that it receives is on the line after the edge.\<close>

lemma fb_send:
  assumes "fiber_law io V" "fb_is C True p"
  shows "\<exists>C'. runs V (rtl8125_fiber_set_mdio_bit io b) C () C' \<and> fb_is C' True (ph_edge b p)"
proof -
  let ?v = "if b then fb_out C OR 0x04 else fb_out C AND NOT 0x04"
  let ?C1 = "fb_set_out ?v C"
  have "bit ?v 7 = bit (fb_out C) 7" "bit ?v 2 = b" by simp_all
  then have c1: "?C1 = C\<lparr>fb_out := ?v\<rparr>" by (auto simp: fb_set_out_def Let_def)
  have i: "fb_is ?C1 True p" and l: "fb_level ?C1 = b"
    using assms(2) \<open>bit ?v 2 = b\<close> by (auto simp: c1 fb_is_def fb_level_def)
  obtain C' where k: "runs V (rtl8125_fiber_set_mdcDownUp io) ?C1 () C'" "fb_is C' True (ph_edge b p)"
    using fb_clock [OF assms(1) i] by (auto simp: l)
  have "runs V (if b then rtl8125_set_mac_ocp_bit io 0xDC52 0x04 else rtl8125_clear_mac_ocp_bit io 0xDC52 0x04) C () ?C1"
    using fb_update_out [OF assms(1), of "0x04" C] by simp
  from runs_bind [OF this k(1)] k(2) show ?thesis
    by (auto simp: rtl8125_fiber_set_mdio_bit_def rtl8125_fiber_set_mdio_bit_gpio_c45_def)
qed

lemma fb_receive:
  assumes "fiber_law io V" "fb_is C False p"
  shows "\<exists>C'. runs V (rtl8125_fiber_get_mdio_bit io) C (of_bool (ph_line (ph_edge (ph_line p) p))) C' \<and> fb_is C' False (ph_edge (ph_line p) p)"
proof -
  have l: "fb_level C = ph_line p" using assms(2) by (simp add: fb_level_def fb_is_def)
  obtain C' where k: "runs V (rtl8125_fiber_set_mdcDownUp io) C () C'" "fb_is C' False (ph_edge (ph_line p) p)"
    using fb_clock [OF assms] by (auto simp: l)
  then have "fb_level C' = ph_line (ph_edge (ph_line p) p)" by (simp add: fb_level_def fb_is_def)
  with runs_bind [OF k(1) fb_pin_read [OF assms(1)]] k(2) show ?thesis
    by (auto simp: rtl8125_fiber_get_mdio_bit_def rtl8125_fiber_get_mdio_bit_gpio_c45_def)
qed

lemma fb_turn:
  assumes "fiber_law io V" "fb_is C u p"
  shows "\<exists>C'. runs V (rtl8125_fiber_dir io u') C () C' \<and> fb_is C' u' p"
  using fb_update_dir [OF assms(1), of "0x04" C] assms(2)
  by (cases u') (force simp: rtl8125_fiber_dir_def rtl8125_fiber_dir_gpio_c45_def fb_is_def)+

text \<open>Sending a word.\<close>

definition ph_feed :: "bool list \<Rightarrow> mdio_phy \<Rightarrow> mdio_phy" where
  "ph_feed bs p = foldl (\<lambda>p b. ph_edge b p) p bs"

lemma ph_feed_simps [simp]: "ph_feed [] p = p" "ph_feed (b # bs) p = ph_feed bs (ph_edge b p)" "ph_feed (xs @ ys) p = ph_feed ys (ph_feed xs p)"
  by (simp_all add: ph_feed_def)

lemma fb_shift:
  assumes "fiber_law io V"
  shows "fb_is C True p \<Longrightarrow> \<exists>C'. runs V (rtl8125_fiber_shift_bit_in io w n) C () C' \<and> fb_is C' True (ph_feed (msb_first w n) p)"
proof (induction n arbitrary: C p)
  case 0
  then show ?case by (auto simp: msb_first_def intro: runs_return)
next
  case (Suc n)
  obtain C1 where 1: "runs V (rtl8125_fiber_set_mdio_bit io (bit w n)) C () C1" "fb_is C1 True (ph_edge (bit w n) p)"
    using fb_send [OF assms Suc.prems] by blast
  obtain C2 where 2: "runs V (rtl8125_fiber_shift_bit_in io w n) C1 () C2" "fb_is C2 True (ph_feed (msb_first w n) (ph_edge (bit w n) p))"
    using Suc.IH [OF 1(2)] by blast
  show ?case using runs_bind [OF 1(1) 2(1)] 2(2) by (auto simp: msb_first_Suc)
qed

section \<open>Frames\<close>

lemma feed_ones: "ph_frame p = [] \<Longrightarrow> ph_feed (replicate n True) p = p\<lparr>ph_ones := ph_ones p + n\<rparr>"
  by (induction n arbitrary: p) (simp_all add: ph_edge_def)

lemma feed_more: "ph_frame p = f \<Longrightarrow> f \<noteq> [] \<Longrightarrow> length f + length bs < 32 \<Longrightarrow> ph_feed bs p = p\<lparr>ph_frame := f @ bs\<rparr>"
  by (induction bs arbitrary: p f) (simp_all add: ph_edge_def Let_def)

lemma feed_start:
  assumes "ph_frame p = []" "32 \<le> ph_ones p" "length bs < 31"
  shows "ph_feed (False # bs) p = p\<lparr>ph_ones := 0, ph_frame := False # bs\<rparr>"
  using assms feed_more [of "p\<lparr>ph_ones := 0, ph_frame := [False]\<rparr>" "[False]" bs] by (simp add: ph_edge_def)

lemma feed_end:
  assumes "ph_frame p = f" "f \<noteq> []" "length f + length bs = 31"
  shows "ph_feed (bs @ [b]) p = (ph_exec (f @ bs @ [b]) p)\<lparr>ph_frame := []\<rparr>"
proof -
  have "length f + length bs < 32" using assms(3) by simp
  from feed_more [OF assms(1,2) this] show ?thesis
    using assms(2,3) by (simp add: ph_edge_def ph_exec_def Let_def)
qed

text \<open>The first fourteen bits of a frame of the driver.\<close>

definition fr_head :: "u32 \<Rightarrow> u32 \<Rightarrow> bool list" where
  "fr_head cmd dev = [False, False] @ msb_first cmd 2 @ replicate 5 False @ msb_first dev 5"

lemma fr_head_fields:
  assumes "take 14 f = fr_head cmd dev" "14 \<le> length f"
  shows "fr_mine f" "fr_op f = msb_first cmd 2" "fr_dev f = unat dev mod 32"
proof -
  obtain g where f: "f = fr_head cmd dev @ g" using append_take_drop_id [of 14 f] assms(1) by metis
  have "bits_val (replicate 5 False) = 0" by (simp add: eval_nat_numeral bits_val_Cons) (simp add: bits_val_def)
  then show "fr_mine f" by (simp add: f fr_mine_def fr_phy_def fr_head_def)
  show "fr_op f = msb_first cmd 2" by (simp add: f fr_op_def fr_head_def)
  show "fr_dev f = unat dev mod 32" using bits_val_msb [of 5 dev] by (simp add: f fr_dev_def fr_head_def)
qed

lemma length_head [simp]: "length (fr_head cmd dev) = 14"
  by (simp add: fr_head_def)

lemma fb_cmd:
  assumes "fiber_law io V" "fb_is C u p" "ph_frame p = []" "cmd AND R8125_FIBER_MDIO_C45 \<noteq> 0"
  shows "\<exists>C'. runs V (rtl8125_fiber_cmd io cmd 0 dev) C () C' \<and> fb_is C' True (p\<lparr>ph_ones := 0, ph_frame := fr_head cmd dev\<rparr>)"
proof -
  obtain C1 where 1: "runs V (rtl8125_fiber_dir io True) C () C1" "fb_is C1 True p" using fb_turn [OF assms(1,2)] by blast
  have "map (bit (- 1 :: u32)) (rev [0..<32]) = map (\<lambda>_. True) (rev [0..<32])" by (rule map_cong) auto
  moreover have "(0xffffffff :: u32) = - 1" by simp
  ultimately have ones: "msb_first (0xffffffff :: u32) 32 = replicate 32 True"
    unfolding msb_first_def by (simp only: map_replicate_const length_rev length_upt diff_zero)
  obtain C2 where 2: "runs V (rtl8125_fiber_shift_bit_in io 0xffffffff 32) C1 () C2" "fb_is C2 True (ph_feed (replicate 32 True) p)"
    using fb_shift [OF assms(1) 1(2), of "0xffffffff" 32] unfolding ones by blast
  obtain C3 where 3: "runs V (rtl8125_fiber_shift_bit_in io R8125_FIBER_C45_ST 2) C2 () C3"
    "fb_is C3 True (ph_feed (msb_first R8125_FIBER_C45_ST 2) (ph_feed (replicate 32 True) p))"
    using fb_shift [OF assms(1) 2(2)] by blast
  obtain C4 where 4: "runs V (rtl8125_fiber_shift_bit_in io cmd 2) C3 () C4"
    "fb_is C4 True (ph_feed (msb_first cmd 2) (ph_feed (msb_first R8125_FIBER_C45_ST 2) (ph_feed (replicate 32 True) p)))"
    using fb_shift [OF assms(1) 3(2)] by blast
  obtain C5 where 5: "runs V (rtl8125_fiber_shift_bit_in io (ucast (0 :: u8)) 5) C4 () C5"
    "fb_is C5 True (ph_feed (msb_first (ucast (0 :: u8) :: u32) 5) (ph_feed (msb_first cmd 2) (ph_feed (msb_first R8125_FIBER_C45_ST 2) (ph_feed (replicate 32 True) p))))"
    using fb_shift [OF assms(1) 4(2)] by blast
  obtain C6 where 6: "runs V (rtl8125_fiber_shift_bit_in io dev 5) C5 () C6"
    "fb_is C6 True (ph_feed (msb_first dev 5) (ph_feed (msb_first (ucast (0 :: u8) :: u32) 5) (ph_feed (msb_first cmd 2) (ph_feed (msb_first R8125_FIBER_C45_ST 2) (ph_feed (replicate 32 True) p)))))"
    using fb_shift [OF assms(1) 5(2)] by blast
  have head: "fr_head cmd dev = msb_first R8125_FIBER_C45_ST 2 @ msb_first cmd 2 @ msb_first (ucast (0 :: u8) :: u32) 5 @ msb_first dev 5"
    by (simp add: fr_head_def R8125_FIBER_C45_ST_def msb_first_def upt_rec eval_nat_numeral)
  have "ph_feed (fr_head cmd dev) (p\<lparr>ph_ones := ph_ones p + 32\<rparr>) = p\<lparr>ph_ones := 0, ph_frame := fr_head cmd dev\<rparr>"
    using feed_start [of "p\<lparr>ph_ones := ph_ones p + 32\<rparr>" "tl (fr_head cmd dev)"] assms(3) by (simp add: fr_head_def)
  then have "fb_is C6 True (p\<lparr>ph_ones := 0, ph_frame := fr_head cmd dev\<rparr>)"
    using 6(2) unfolding feed_ones [OF assms(3)] ph_feed_simps(3) [symmetric] append_assoc head [symmetric] by simp
  moreover have "runs V (rtl8125_fiber_cmd io cmd 0 dev) C () C6"
    unfolding rtl8125_fiber_cmd_def if_P [OF assms(4)]
    by (rule 1(1) [THEN runs_bind] 2(1) [THEN runs_bind] 3(1) [THEN runs_bind] 4(1) [THEN runs_bind] 5(1) [THEN runs_bind] 6(1))+
  ultimately show ?thesis by blast
qed

text \<open>The second half of an address or write frame, and the clock after it.\<close>

definition fr_full :: "u32 \<Rightarrow> u32 \<Rightarrow> u16 \<Rightarrow> bool list" where
  "fr_full cmd dev w = fr_head cmd dev @ [True, False] @ msb_first (ucast w :: u32) 16"

lemma fr_full_fields:
  "fr_mine (fr_full cmd dev w)" "fr_op (fr_full cmd dev w) = msb_first cmd 2" "fr_dev (fr_full cmd dev w) = unat dev mod 32"
  "fr_data (fr_full cmd dev w) = unat w"
proof -
  have t: "take 14 (fr_full cmd dev w) = fr_head cmd dev" by (simp add: fr_full_def)
  have l: "14 \<le> length (fr_full cmd dev w)" by (simp add: fr_full_def)
  show "fr_mine (fr_full cmd dev w)" "fr_op (fr_full cmd dev w) = msb_first cmd 2" "fr_dev (fr_full cmd dev w) = unat dev mod 32"
    using fr_head_fields [OF t l] by simp_all
  have "unat (ucast w :: u32) = unat w" by (rule unat_wide)
  moreover have "unat w < 2 ^ 16" using unsigned_less [of w] by simp
  ultimately show "fr_data (fr_full cmd dev w) = unat w"
    using bits_val_msb [of 16 "ucast w :: u32"] by (simp add: fr_full_def fr_data_def)
qed

lemma fb_idle_clock:
  assumes "fiber_law io V" "fb_is C True p" "ph_frame p = []"
  shows "\<exists>C' p'. runs V (do { rtl8125_fiber_dir io False; rtl8125_fiber_get_mdio_bit io; State_Monad.return x }) C x C' \<and> fb_is C' False p'
    \<and> ph_frame p' = [] \<and> ph_addr p' = ph_addr p \<and> ph_mem p' = ph_mem p"
proof -
  obtain C1 where 1: "runs V (rtl8125_fiber_dir io False) C () C1" "fb_is C1 False p" using fb_turn [OF assms(1,2)] by blast
  let ?q = "ph_edge (ph_line p) p"
  obtain C2 where 2: "runs V (rtl8125_fiber_get_mdio_bit io) C1 (of_bool (ph_line ?q)) C2" "fb_is C2 False ?q"
    using fb_receive [OF assms(1) 1(2)] by blast
  have "runs V (do { rtl8125_fiber_dir io False; rtl8125_fiber_get_mdio_bit io; State_Monad.return x }) C x C2"
    by (rule 1(1) [THEN runs_bind] 2(1) [THEN runs_bind] runs_return)+
  moreover have "ph_frame ?q = [] \<and> ph_addr ?q = ph_addr p \<and> ph_mem ?q = ph_mem p"
    using assms(3) by (simp add: ph_edge_def ph_line_def Let_def)
  ultimately show ?thesis using 2(2) by blast
qed

lemma fb_send_rest:
  assumes "fiber_law io V" "fb_is C True p" "ph_frame p = fr_head cmd dev"
  shows "\<exists>C' p'. runs V (do { rtl8125_fiber_shift_bit_in io R8125_FIBER_TA 2; rtl8125_fiber_shift_bit_in io (ucast w) 16;
      rtl8125_fiber_dir io False; rtl8125_fiber_get_mdio_bit io; State_Monad.return x }) C x C' \<and> fb_is C' False p'
    \<and> ph_frame p' = [] \<and> ph_addr p' = ph_addr (ph_exec (fr_full cmd dev w) p) \<and> ph_mem p' = ph_mem (ph_exec (fr_full cmd dev w) p)"
proof -
  obtain C1 where 1: "runs V (rtl8125_fiber_shift_bit_in io R8125_FIBER_TA 2) C () C1" "fb_is C1 True (ph_feed (msb_first R8125_FIBER_TA 2) p)"
    using fb_shift [OF assms(1,2)] by blast
  obtain C2 where 2: "runs V (rtl8125_fiber_shift_bit_in io (ucast w) 16) C1 () C2"
    "fb_is C2 True (ph_feed (msb_first (ucast w :: u32) 16) (ph_feed (msb_first R8125_FIBER_TA 2) p))"
    using fb_shift [OF assms(1) 1(2)] by blast
  let ?bs = "[True, False] @ msb_first (ucast w :: u32) 16"
  have ta: "msb_first R8125_FIBER_TA 2 = [True, False]" by (simp add: R8125_FIBER_TA_def msb_first_def upt_rec)
  have b: "?bs = butlast ?bs @ [last ?bs]" by (rule append_butlast_last_id [symmetric]) (simp add: msb_first_def)
  have ne: "fr_head cmd dev \<noteq> []" by (simp add: fr_head_def)
  have "length (fr_head cmd dev) + length (butlast ?bs) = 31" unfolding length_butlast by simp
  from feed_end [OF assms(3) ne this, of "last ?bs"] have "ph_feed ?bs p = (ph_exec (fr_full cmd dev w) p)\<lparr>ph_frame := []\<rparr>"
    unfolding b [symmetric] fr_full_def .
  then have f: "fb_is C2 True ((ph_exec (fr_full cmd dev w) p)\<lparr>ph_frame := []\<rparr>)"
    using 2(2) by (simp add: ta)
  obtain C3 p' where 3: "runs V (do { rtl8125_fiber_dir io False; rtl8125_fiber_get_mdio_bit io; State_Monad.return x }) C2 x C3"
    "fb_is C3 False p'" "ph_frame p' = []" "ph_addr p' = ph_addr (ph_exec (fr_full cmd dev w) p)" "ph_mem p' = ph_mem (ph_exec (fr_full cmd dev w) p)"
    using fb_idle_clock [OF assms(1) f, of x] by auto
  have "runs V (do { rtl8125_fiber_shift_bit_in io R8125_FIBER_TA 2; rtl8125_fiber_shift_bit_in io (ucast w) 16;
      rtl8125_fiber_dir io False; rtl8125_fiber_get_mdio_bit io; State_Monad.return x }) C x C3"
    by (rule 1(1) [THEN runs_bind] 2(1) [THEN runs_bind] 3(1))+
  with 3 show ?thesis by blast
qed

lemma op_bits2:
  "msb_first R8125_FIBER_C45_OP_ADDR 2 = [False, False]" "msb_first R8125_FIBER_C45_OP_W 2 = [False, True]" "msb_first R8125_FIBER_C45_OP_R 2 = [True, True]"
  "R8125_FIBER_C45_OP_ADDR AND R8125_FIBER_MDIO_C45 \<noteq> 0" "R8125_FIBER_C45_OP_W AND R8125_FIBER_MDIO_C45 \<noteq> 0" "R8125_FIBER_C45_OP_R AND R8125_FIBER_MDIO_C45 \<noteq> 0"
  by (simp_all add: msb_first_def upt_rec R8125_FIBER_C45_OP_ADDR_def R8125_FIBER_C45_OP_W_def R8125_FIBER_C45_OP_R_def R8125_FIBER_MDIO_C45_def)

text \<open>The register that a 32-bit address names: a device and an address in it.\<close>

definition c45_dev :: "u32 \<Rightarrow> nat" where "c45_dev reg = unat reg div 2 ^ 16 mod 32"
definition c45_reg :: "u32 \<Rightarrow> nat" where "c45_reg reg = unat (ucast reg :: u16)"

lemma dev_addr:
  fixes reg :: u32
  shows "unat (ucast (ucast (drop_bit 16 reg AND 0x1F) :: u8) :: u32) mod 32 = c45_dev reg"
proof -
  have m: "(0x1F :: u32) = mask 5" by (simp add: mask_eq_exp_minus_1)
  have e: "ucast (ucast (drop_bit 16 reg AND 0x1F) :: u8) = (drop_bit 16 reg AND 0x1F :: u32)"
    unfolding m by (rule bit_word_eqI) (auto simp: bit_simps)
  have "unat (take_bit 5 (drop_bit 16 reg)) = take_bit 5 (drop_bit 16 (unat reg))"
    using unsigned_less [of reg, where 'a = nat] by (simp add: unsigned_take_bit_eq unsigned_drop_bit_eq take_bit_nat_eq_self)
  then show ?thesis
    unfolding e unfolding m take_bit_eq_mask [symmetric] c45_dev_def by (simp add: take_bit_eq_mod drop_bit_eq_div)
qed

lemma fb_cmdAddr:
  assumes "fiber_law io V" "fb_is C u p" "ph_frame p = []"
  obtains C' p' where "runs V (rtl8125_fiber_cmdAddr io 0 reg) C (ucast (drop_bit 16 reg AND 0x1F)) C'" "fb_is C' False p'" "ph_frame p' = []"
    "ph_mem p' = ph_mem p" "ph_addr p' (c45_dev reg) = c45_reg reg"
proof -
  let ?dev = "ucast (ucast (drop_bit 16 reg AND 0x1F) :: u8) :: u32" and ?q = "\<lambda>f. p\<lparr>ph_ones := 0, ph_frame := f\<rparr>"
  obtain C1 where 1: "runs V (rtl8125_fiber_cmd io R8125_FIBER_C45_OP_ADDR 0 ?dev) C () C1" "fb_is C1 True (?q (fr_head R8125_FIBER_C45_OP_ADDR ?dev))"
    using fb_cmd [OF assms op_bits2(4)] by blast
  obtain C2 p' where 2: "runs V (do { rtl8125_fiber_shift_bit_in io R8125_FIBER_TA 2; rtl8125_fiber_shift_bit_in io (ucast (ucast reg :: u16)) 16;
      rtl8125_fiber_dir io False; rtl8125_fiber_get_mdio_bit io; State_Monad.return (ucast (drop_bit 16 reg AND 0x1F) :: u8) }) C1 (ucast (drop_bit 16 reg AND 0x1F)) C2"
    and p': "fb_is C2 False p'" "ph_frame p' = []"
      "ph_addr p' = ph_addr (ph_exec (fr_full R8125_FIBER_C45_OP_ADDR ?dev (ucast reg)) (?q (fr_head R8125_FIBER_C45_OP_ADDR ?dev)))"
      "ph_mem p' = ph_mem (ph_exec (fr_full R8125_FIBER_C45_OP_ADDR ?dev (ucast reg)) (?q (fr_head R8125_FIBER_C45_OP_ADDR ?dev)))"
    using fb_send_rest [OF assms(1) 1(2), of R8125_FIBER_C45_OP_ADDR ?dev "ucast reg" "ucast (drop_bit 16 reg AND 0x1F) :: u8"] by auto
  have "ph_mem p' = ph_mem p" "ph_addr p' (c45_dev reg) = c45_reg reg"
    using p'(3,4) dev_addr [of reg] by (simp_all add: ph_exec_def fr_full_fields op_bits2 c45_reg_def)
  moreover have "runs V (rtl8125_fiber_cmdAddr io 0 reg) C (ucast (drop_bit 16 reg AND 0x1F)) C2"
    unfolding rtl8125_fiber_cmdAddr_def Let_def by (rule runs_bind [OF 1(1)], rule 2)
  ultimately show thesis using that p'(1,2) by blast
qed

lemma fb_write:
  assumes "fiber_law io V" "fb_is C u p" "ph_frame p = []"
  shows "\<exists>C' p'. runs V (rtl8125_fiber_mdio_write_gpio_c45 io reg v 0) C () C' \<and> fb_is C' False p' \<and> ph_frame p' = []
    \<and> ph_mem p' = (ph_mem p)(c45_dev reg := (ph_mem p (c45_dev reg))(c45_reg reg := v))"
proof -
  let ?dev = "ucast (ucast (drop_bit 16 reg AND 0x1F) :: u8) :: u32" and ?h = "fr_head R8125_FIBER_C45_OP_W"
  obtain C1 p1 where 1: "runs V (rtl8125_fiber_cmdAddr io 0 reg) C (ucast (drop_bit 16 reg AND 0x1F)) C1" "fb_is C1 False p1" "ph_frame p1 = []"
    and p1: "ph_mem p1 = ph_mem p" "ph_addr p1 (c45_dev reg) = c45_reg reg"
    by (rule fb_cmdAddr [OF assms])
  obtain C2 where 2: "runs V (rtl8125_fiber_cmd io R8125_FIBER_C45_OP_W 0 ?dev) C1 () C2" "fb_is C2 True (p1\<lparr>ph_ones := 0, ph_frame := ?h ?dev\<rparr>)"
    using fb_cmd [OF assms(1) 1(2,3) op_bits2(5)] by blast
  obtain C3 p' where 3: "runs V (do { rtl8125_fiber_shift_bit_in io R8125_FIBER_TA 2; rtl8125_fiber_shift_bit_in io (ucast v) 16;
      rtl8125_fiber_dir io False; rtl8125_fiber_get_mdio_bit io; State_Monad.return () }) C2 () C3"
    and p': "fb_is C3 False p'" "ph_frame p' = []"
      "ph_mem p' = ph_mem (ph_exec (fr_full R8125_FIBER_C45_OP_W ?dev v) (p1\<lparr>ph_ones := 0, ph_frame := ?h ?dev\<rparr>))"
    using fb_send_rest [OF assms(1) 2(2), of R8125_FIBER_C45_OP_W ?dev v "()"] by auto
  have "ph_mem p' = (ph_mem p)(c45_dev reg := (ph_mem p (c45_dev reg))(c45_reg reg := v))"
    using p'(3) p1 dev_addr [of reg] by (simp add: ph_exec_def fr_full_fields op_bits2)
  moreover have "runs V (rtl8125_fiber_mdio_write_gpio_c45 io reg v 0) C () C3"
    unfolding rtl8125_fiber_mdio_write_gpio_c45_def rtl8125_fiber_write_common_def
    by (rule runs_bind [OF 1(1)], rule runs_bind [OF 2(1)], rule 3)
  ultimately show ?thesis using p'(1,2) by blast
qed

section \<open>Reading\<close>

lemma take_bit_next: "take_bit (Suc n) w = push_bit n (of_bool (bit w n)) + take_bit n (w :: u16)"
proof -
  have "push_bit n (of_bool (bit w n)) + take_bit n w = (push_bit n (of_bool (bit w n)) OR take_bit n w)"
    by (rule disjunctive_add) (auto simp: bit_simps)
  also have "\<dots> = take_bit (Suc n) w"
    by (rule bit_word_eqI) (auto simp: bit_simps less_Suc_eq)
  finally show ?thesis by simp
qed

text \<open>While a read frame runs the line shows the word, bit by bit.\<close>

lemma fb_read_loop:
  assumes "fiber_law io V" "ph_mem p0 (unat dev mod 32) (ph_addr p0 (unat dev mod 32)) = w"
  shows "fb_is C False (p0\<lparr>ph_frame := f\<rparr>) \<Longrightarrow> take 14 f = fr_head R8125_FIBER_C45_OP_R dev \<Longrightarrow> length f + n = 31 \<Longrightarrow> n \<le> 16 \<Longrightarrow>
    \<exists>C' f'. runs V (shift_bit_out_loop io n data) C (data + take_bit n w) C' \<and> fb_is C' False (p0\<lparr>ph_frame := f'\<rparr>)
      \<and> take 14 f' = fr_head R8125_FIBER_C45_OP_R dev \<and> length f' = 31"
proof (induction n arbitrary: C f data)
  case 0
  have "runs V (shift_bit_out_loop io 0 data) C (data + take_bit 0 w) C" by (simp add: runs_return)
  with 0 show ?case by auto
next
  case (Suc n)
  let ?p = "p0\<lparr>ph_frame := f\<rparr>" and ?f = "f @ [ph_line (p0\<lparr>ph_frame := f\<rparr>)]"
  have f: "f \<noteq> []" using Suc.prems(3,4) by auto
  have t: "take 14 ?f = fr_head R8125_FIBER_C45_OP_R dev" using Suc.prems(2-4) by simp
  have l: "length ?f + n = 31" using Suc.prems(3) by simp
  then have e: "ph_edge (ph_line ?p) ?p = p0\<lparr>ph_frame := ?f\<rparr>" using f by (simp add: ph_edge_def Let_def)
  have line: "ph_line (p0\<lparr>ph_frame := g\<rparr>) = bit w n" if g: "take 14 g = fr_head R8125_FIBER_C45_OP_R dev" "length g + n = 31" for g
  proof -
    have n: "31 - length g = n" "15 < length g" using g(2) Suc.prems(4) by auto
    then have "14 \<le> length g" by simp
    from fr_head_fields [OF g(1) this] n show ?thesis
      unfolding ph_line_def Let_def using op_bits2(3) assms(2) by simp
  qed
  obtain C1 where 1: "runs V (rtl8125_fiber_get_mdio_bit io) C (of_bool (bit w n)) C1" "fb_is C1 False (p0\<lparr>ph_frame := ?f\<rparr>)"
    using fb_receive [OF assms(1) Suc.prems(1)] unfolding e line [OF t l] by blast
  have "n \<le> 16" using Suc.prems(4) by simp
  from Suc.IH [OF 1(2) t l this, of "data + push_bit n (of_bool (bit w n))"] obtain C' f' where
    2: "runs V (shift_bit_out_loop io n (data + push_bit n (of_bool (bit w n)))) C1 (data + push_bit n (of_bool (bit w n)) + take_bit n w) C'"
      "fb_is C' False (p0\<lparr>ph_frame := f'\<rparr>)" "take 14 f' = fr_head R8125_FIBER_C45_OP_R dev" "length f' = 31" by blast
  have "data + push_bit n (of_bool (bit w n)) + take_bit n w = data + take_bit (Suc n) w"
    by (simp add: take_bit_next)
  with runs_bind [OF 1(1), of "\<lambda>b. shift_bit_out_loop io n (data + push_bit n b)"] 2 show ?case by auto
qed

lemma fb_read:
  assumes "fiber_law io V" "fb_is C u p" "ph_frame p = []"
  shows "\<exists>C' p'. runs V (rtl8125_fiber_mdio_read_gpio_c45 io reg 0) C (ph_mem p (c45_dev reg) (c45_reg reg)) C' \<and> fb_is C' False p'
    \<and> ph_frame p' = [] \<and> ph_mem p' = ph_mem p"
proof -
  let ?dev = "ucast (ucast (drop_bit 16 reg AND 0x1F) :: u8) :: u32" and ?w = "ph_mem p (c45_dev reg) (c45_reg reg)"
  let ?h = "fr_head R8125_FIBER_C45_OP_R ?dev"
  obtain C1 p1 where 1: "runs V (rtl8125_fiber_cmdAddr io 0 reg) C (ucast (drop_bit 16 reg AND 0x1F)) C1" "fb_is C1 False p1" "ph_frame p1 = []"
    and p1: "ph_mem p1 = ph_mem p" "ph_addr p1 (c45_dev reg) = c45_reg reg"
    by (rule fb_cmdAddr [OF assms])
  define q where "q = p1\<lparr>ph_ones := 0\<rparr>"
  obtain C2 where 2: "runs V (rtl8125_fiber_cmd io R8125_FIBER_C45_OP_R 0 ?dev) C1 () C2" "fb_is C2 True (q\<lparr>ph_frame := ?h\<rparr>)"
    using fb_cmd [OF assms(1) 1(2,3) op_bits2(6)] unfolding q_def by fastforce
  have w: "ph_mem q (unat ?dev mod 32) (ph_addr q (unat ?dev mod 32)) = ?w" using p1 dev_addr [of reg] by (simp add: q_def)
  obtain C3 where 3: "runs V (rtl8125_fiber_dir io False) C2 () C3" "fb_is C3 False (q\<lparr>ph_frame := ?h\<rparr>)" using fb_turn [OF assms(1) 2(2)] by blast
  let ?b = "ph_line (q\<lparr>ph_frame := ?h\<rparr>)"
  have ne: "?h \<noteq> []" by (simp add: fr_head_def)
  then have e: "ph_edge ?b (q\<lparr>ph_frame := ?h\<rparr>) = q\<lparr>ph_frame := ?h @ [?b]\<rparr>" by (simp add: ph_edge_def Let_def)
  obtain x C4 where 4: "runs V (rtl8125_fiber_get_mdio_bit io) C3 x C4" "fb_is C4 False (q\<lparr>ph_frame := ?h @ [?b]\<rparr>)"
    using fb_receive [OF assms(1) 3(2)] unfolding e by blast
  obtain C5 f where 5: "runs V (shift_bit_out_loop io 16 0) C4 (0 + take_bit 16 ?w) C5" "fb_is C5 False (q\<lparr>ph_frame := f\<rparr>)"
    "take 14 f = ?h" "length f = 31"
    using fb_read_loop [OF assms(1) w 4(2), of 16 0] by auto
  let ?p = "ph_edge (ph_line (q\<lparr>ph_frame := f\<rparr>)) (q\<lparr>ph_frame := f\<rparr>)"
  obtain y C6 where 6: "runs V (rtl8125_fiber_get_mdio_bit io) C5 y C6" "fb_is C6 False ?p"
    using fb_receive [OF assms(1) 5(2)] by blast
  have t: "take 14 (f @ [b]) = ?h" for b using 5(3,4) by simp
  have op: "fr_op (f @ [b]) = [True, True]" for b using fr_head_fields(2) [OF t, of b] 5(4) op_bits2(3) by simp
  have "f \<noteq> []" using 5(4) by auto
  then have "ph_frame ?p = [] \<and> ph_mem ?p = ph_mem p"
    using 5(4) op p1 by (simp add: ph_edge_def ph_exec_def q_def Let_def)
  moreover have "take_bit 16 ?w = ?w" by (simp add: take_bit_word_eq_self)
  then have 5: "runs V (shift_bit_out_loop io 16 0) C4 ?w C5" using 5(1) by simp
  have "runs V (rtl8125_fiber_mdio_read_gpio_c45 io reg 0) C ?w C6"
    unfolding rtl8125_fiber_mdio_read_gpio_c45_def rtl8125_fiber_read_common_def rtl8125_fiber_shift_bit_out_def
    by (rule 1(1) [THEN runs_bind] 2(1) [THEN runs_bind] 3(1) [THEN runs_bind] 4(1) [THEN runs_bind] 5 [THEN runs_bind] 6(1) [THEN runs_bind] runs_return)+
  ultimately show ?thesis using 6(2) by blast
qed

section \<open>The PHY as a register channel\<close>

definition fiber_ok :: "'d mmio \<Rightarrow> ('d \<Rightarrow> fiber_bus) \<Rightarrow> 'd nic \<Rightarrow> bool" where
  "fiber_ok io V s \<longleftrightarrow> fiber_law io V \<and> HwFiberStat s = FIBER_STAT_CONNECT_GPO_C45 \<and> bit (fb_dir (V (hw s))) 7 \<and> ph_frame (fb_phy (V (hw s))) = []"

definition fiber_regs :: "('d \<Rightarrow> fiber_bus) \<Rightarrow> 'd nic \<Rightarrow> nat \<times> nat \<Rightarrow> u16" where
  "fiber_regs V s = (\<lambda>(dev, a). ph_mem (fb_phy (V (hw s))) dev a)"

definition c45_index :: "u32 \<Rightarrow> nat \<times> nat" where "c45_index reg = (c45_dev reg, c45_reg reg)"

lemma same_priv_fiber: "same_priv s s' \<Longrightarrow> HwFiberStat s' = HwFiberStat s"
  by (cases s, cases s') (simp add: same_priv_def)

lemma fiber_ok_bus: "fiber_ok io V s \<Longrightarrow> fb_is (V (hw s)) (bit (fb_dir (V (hw s))) 2) (fb_phy (V (hw s))) \<and> ph_frame (fb_phy (V (hw s))) = []"
  by (simp add: fiber_ok_def fb_is_def)

lemma fiber_read_run:
  assumes "fiber_ok io V s" "run_state (rtl8125_fiber_mdio_read io reg) s = (v, s')"
  shows "v = fiber_regs V s (c45_index reg) \<and> fiber_ok io V s' \<and> fiber_regs V s' = fiber_regs V s \<and> same_priv s s'"
proof -
  have law: "fiber_law io V" using assms(1) by (simp add: fiber_ok_def)
  have run: "run_state (rtl8125_fiber_mdio_read_gpio_c45 io reg 0) s = (v, s')"
    using assms by (simp add: rtl8125_fiber_mdio_read_def fiber_ok_def)
  obtain C' p' where r: "runs V (rtl8125_fiber_mdio_read_gpio_c45 io reg 0) (V (hw s)) (ph_mem (fb_phy (V (hw s))) (c45_dev reg) (c45_reg reg)) C'"
    and c: "fb_is C' False p'" "ph_frame p' = []" "ph_mem p' = ph_mem (fb_phy (V (hw s)))"
    using fb_read [OF law] fiber_ok_bus [OF assms(1)] by blast
  from runsD [OF r refl run] c assms(1) same_priv_fiber [of s s'] show ?thesis
    by (simp add: fiber_regs_def c45_index_def fiber_ok_def fb_is_def)
qed

lemma fiber_write_run:
  assumes "fiber_ok io V s" "run_state (rtl8125_fiber_mdio_write io reg w) s = (u, s')"
  shows "fiber_ok io V s' \<and> fiber_regs V s' = (fiber_regs V s)(c45_index reg := w) \<and> same_priv s s'"
proof -
  have law: "fiber_law io V" using assms(1) by (simp add: fiber_ok_def)
  have run: "run_state (rtl8125_fiber_mdio_write_gpio_c45 io reg w 0) s = (u, s')"
    using assms by (simp add: rtl8125_fiber_mdio_write_def fiber_ok_def)
  let ?M = "ph_mem (fb_phy (V (hw s)))"
  obtain C' p' where r: "runs V (rtl8125_fiber_mdio_write_gpio_c45 io reg w 0) (V (hw s)) () C'"
    and c: "fb_is C' False p'" "ph_frame p' = []" "ph_mem p' = ?M(c45_dev reg := (?M (c45_dev reg))(c45_reg reg := w))"
    using fb_write [OF law] fiber_ok_bus [OF assms(1)] by blast
  from runsD [OF r refl run] c assms(1) same_priv_fiber [of s s'] show ?thesis
    by (auto simp: fiber_regs_def c45_index_def fiber_ok_def fb_is_def fun_eq_iff)
qed

interpretation fib: reg_channel "rtl8125_fiber_mdio_read io" "rtl8125_fiber_mdio_write io" "\<lambda>_. True" c45_index
    "fiber_ok io V" "fiber_regs V" same_priv for io V
proof (unfold_locales, goal_cases)
  case (1 reg R s0)
  show ?case by (rule valid_runI) (use fiber_read_run same_priv_trans in blast)
next
  case (2 reg R s0 w)
  show ?case by (rule valid_runI) (use fiber_write_run same_priv_trans in blast)
qed

text \<open>
  Property C23.  The registers of the fiber PHY, reached bit by bit over the pins: a value written to a
  register is what a read of that register returns afterwards, every other register has its old value, in what
  a read returns and in the PHY, the bus is ready for the next frame and the driver's state is as before.
\<close>

theorem fiber_roundtrip:
  assumes "fiber_ok io V s"
    and "run_state (do { rtl8125_fiber_mdio_write io reg w; rtl8125_fiber_mdio_read io reg' }) s = (v, s')"
  shows "v = (if c45_index reg' = c45_index reg then w else fiber_regs V s (c45_index reg'))
    \<and> fiber_regs V s' = (fiber_regs V s)(c45_index reg := w) \<and> fiber_ok io V s' \<and> same_priv s s'"
proof -
  have "valid (\<lambda>t. fiber_ok io V t \<and> fiber_regs V t = fiber_regs V s \<and> same_priv s t)
    (do { rtl8125_fiber_mdio_write io reg w; rtl8125_fiber_mdio_read io reg' })
    (\<lambda>x t. x = (if c45_index reg' = c45_index reg then w else fiber_regs V s (c45_index reg'))
      \<and> fiber_ok io V t \<and> fiber_regs V t = (fiber_regs V s)(c45_index reg := w) \<and> same_priv s t)"
    by (rule fib.write_then_read) simp_all
  from validD [OF this _ assms(2)] assms(1) show ?thesis by simp
qed

text \<open>Updates of a register, and the mode of the PHY.\<close>

lemma fiber_update:
  assumes "fiber_ok io V s" "run_state (rtl8125_fiber_clear_and_set_phy_bit io reg c m) s = (u, s')"
  shows "fiber_ok io V s' \<and> same_priv s s'
    \<and> fiber_regs V s' = (fiber_regs V s)(c45_index reg := (fiber_regs V s (c45_index reg) AND NOT c) OR m)"
proof -
  have "valid (\<lambda>t. fiber_ok io V t \<and> fiber_regs V t = fiber_regs V s \<and> same_priv s t)
    (do { v \<leftarrow> rtl8125_fiber_mdio_read io reg; rtl8125_fiber_mdio_write io reg ((v AND NOT c) OR m) })
    (\<lambda>_ t. fiber_ok io V t \<and> fiber_regs V t = (fiber_regs V s)(c45_index reg := (fiber_regs V s (c45_index reg) AND NOT c) OR m) \<and> same_priv s t)"
    by (rule fib.update [where f = "\<lambda>v. (v AND NOT c) OR m"]) simp
  from validD [OF this _ assms(2) [unfolded rtl8125_fiber_clear_and_set_phy_bit_def]] assms(1) show ?thesis by simp
qed

section \<open>Finding the PHY\<close>

lemma fb_reset_gpio:
  assumes "fiber_law io V" "fb_phy C = p"
  shows "\<exists>C'. runs V (rtl8125_fiber_reset_gpio_c45 io) C () C' \<and> fb_is C' True p"
proof -
  let ?C1 = "C\<lparr>fb_dir := fb_dir C OR 0x84\<rparr>"
  let ?C2 = "fb_set_out (fb_out ?C1 AND NOT 0x80) ?C1"
  let ?C3 = "fb_set_out (fb_out ?C2 OR 0x04) ?C2"
  have "runs V (rtl8125_fiber_reset_gpio_c45 io) C () ?C3"
    unfolding rtl8125_fiber_reset_gpio_c45_def
    by (rule fb_update_dir(2) [OF assms(1), THEN runs_bind] fb_update_out(1) [OF assms(1), THEN runs_bind] fb_update_out(2) [OF assms(1)])+
  moreover have "fb_is ?C3 True p" using assms(2) by (simp add: fb_set_out_def Let_def fb_is_def)
  ultimately show ?thesis by blast
qed

definition has_8221d :: "(nat \<Rightarrow> nat \<Rightarrow> u16) \<Rightarrow> bool" where
  "has_8221d M \<longleftrightarrow> M 1 2 = RTL8221D_PHY_ID_1 \<and> M 1 3 = RTL8221D_PHY_ID_2"

lemma id_regs:
  "c45_dev (R8125_MAKE_C45_ADDR 1 2) = 1" "c45_reg (R8125_MAKE_C45_ADDR 1 2) = 2"
  "c45_dev (R8125_MAKE_C45_ADDR 1 3) = 1" "c45_reg (R8125_MAKE_C45_ADDR 1 3) = 3"
  by (simp_all add: c45_dev_def c45_reg_def R8125_MAKE_C45_ADDR_def)

lemma connect_loop:
  assumes "fiber_law io V"
  shows "fb_is C u p \<Longrightarrow> ph_frame p = [] \<Longrightarrow> \<exists>C' u' p'. runs V (connect_status_loop io n) C (if n = 0 \<or> has_8221d (ph_mem p) then 2 else 1) C'
    \<and> fb_is C' u' p' \<and> ph_frame p' = [] \<and> ph_mem p' = ph_mem p"
proof (induction n arbitrary: C u p)
  case 0
  have "runs V (connect_status_loop io 0) C 2 C" by (simp add: runs_return)
  with 0 show ?case by auto
next
  case (Suc n)
  let ?M = "ph_mem p"
  let ?rest = "\<lambda>b. if RTL8221D_PHY_ID_2 \<noteq> b then State_Monad.return FIBER_STAT_DISCONNECT else connect_status_loop io n"
  obtain C1 p1 where 1: "runs V (rtl8125_fiber_mdio_read_gpio_c45 io (R8125_MAKE_C45_ADDR 1 2) 0) C (?M 1 2) C1" "fb_is C1 False p1" "ph_frame p1 = []" "ph_mem p1 = ?M"
    using fb_read [OF assms Suc.prems, of "R8125_MAKE_C45_ADDR 1 2"] unfolding id_regs by blast
  obtain C2 p2 where 2: "runs V (rtl8125_fiber_mdio_read_gpio_c45 io (R8125_MAKE_C45_ADDR 1 3) 0) C1 (?M 1 3) C2" "fb_is C2 False p2" "ph_frame p2 = []" "ph_mem p2 = ?M"
    using fb_read [OF assms 1(2,3), of "R8125_MAKE_C45_ADDR 1 3"] 1(4) unfolding id_regs by auto
  obtain C3 u' p3 where 3: "runs V (connect_status_loop io n) C2 (if n = 0 \<or> has_8221d ?M then 2 else 1) C3" "fb_is C3 u' p3" "ph_frame p3 = []" "ph_mem p3 = ?M"
    using Suc.IH [OF 2(2,3)] 2(4) by auto
  consider "?M 1 2 \<noteq> RTL8221D_PHY_ID_1" | "?M 1 2 = RTL8221D_PHY_ID_1" "?M 1 3 \<noteq> RTL8221D_PHY_ID_2" | "has_8221d ?M"
    by (auto simp: has_8221d_def)
  then show ?case
  proof cases
    case 1
    then have "runs V (connect_status_loop io (Suc n)) C 1 C1"
      using runs_bind [OF \<open>runs V _ C (?M 1 2) C1\<close>, of "\<lambda>a. if RTL8221D_PHY_ID_1 \<noteq> a then State_Monad.return FIBER_STAT_DISCONNECT else State_Monad.bind (rtl8125_fiber_mdio_read_gpio_c45 io (R8125_MAKE_C45_ADDR 1 3) 0) ?rest" 1 C1]
      by (simp add: runs_return)
    with 1 show ?thesis using \<open>fb_is C1 False p1\<close> \<open>ph_frame p1 = []\<close> \<open>ph_mem p1 = ?M\<close> by (auto simp: has_8221d_def)
  next
    case no: 2
    have "runs V (State_Monad.bind (rtl8125_fiber_mdio_read_gpio_c45 io (R8125_MAKE_C45_ADDR 1 3) 0) ?rest) C1 1 C2"
      by (rule runs_bind [OF 2(1)]) (use no(2) in \<open>simp add: runs_return\<close>)
    then have "runs V (connect_status_loop io (Suc n)) C 1 C2"
      unfolding connect_status_loop.simps by (intro runs_bind [OF 1(1)]) (use no(1) in simp)
    with no 2 show ?thesis by (auto simp: has_8221d_def)
  next
    case yes: 3
    have "runs V (State_Monad.bind (rtl8125_fiber_mdio_read_gpio_c45 io (R8125_MAKE_C45_ADDR 1 3) 0) ?rest) C1 2 C3"
      by (rule runs_bind [OF 2(1)]) (use yes 3(1) in \<open>simp add: has_8221d_def\<close>)
    then have "runs V (connect_status_loop io (Suc n)) C 2 C3"
      unfolding connect_status_loop.simps by (intro runs_bind [OF 1(1)]) (use yes in \<open>simp add: has_8221d_def\<close>)
    with yes 3 show ?thesis by auto
  qed
qed


text \<open>
  Property C38.  On a board that may have the fiber PHY, the check for it makes the pins outputs, whatever
  they were, and finds the PHY connected exactly when its two identification registers hold the
  numbers of the RTL8221D; no register of the PHY changes, the bus is ready for the next access and the
  state of the driver is as before.
\<close>

theorem fiber_detect_exact:
  assumes "fiber_law io V" "ph_frame (fb_phy (V (hw s))) = []" "HwFiberModeVer s = FIBER_MODE_RTL8125D_RTL8221D"
    and "run_state (rtl8125_fiber_get_connect_status io) s = (x, s')"
  shows "x = (if has_8221d (ph_mem (fb_phy (V (hw s)))) then FIBER_STAT_CONNECT_GPO_C45 else FIBER_STAT_DISCONNECT)
    \<and> ph_mem (fb_phy (V (hw s'))) = ph_mem (fb_phy (V (hw s))) \<and> fiber_ok io V (s'\<lparr>HwFiberStat := FIBER_STAT_CONNECT_GPO_C45\<rparr>) \<and> same_priv s s'"
proof -
  let ?p = "fb_phy (V (hw s))"
  have run: "run_state (rtl8125_fiber_get_connect_status_8221d io) s = (x, s')"
    using assms(3,4) by (simp add: rtl8125_fiber_get_connect_status_def)
  obtain C1 where 1: "runs V (rtl8125_fiber_reset_gpio_c45 io) (V (hw s)) () C1" "fb_is C1 True ?p" using fb_reset_gpio [OF assms(1) refl] by blast
  obtain C2 u p' where 2: "runs V (connect_status_loop io 4) C1 (if has_8221d (ph_mem ?p) then 2 else 1) C2" "fb_is C2 u p'" "ph_frame p' = []" "ph_mem p' = ph_mem ?p"
    using connect_loop [OF assms(1) 1(2) assms(2), of 4] by auto
  have "runs V (rtl8125_fiber_get_connect_status_8221d io) (V (hw s)) (if has_8221d (ph_mem ?p) then 2 else 1) C2"
    unfolding rtl8125_fiber_get_connect_status_8221d_def by (rule runs_bind [OF 1(1) 2(1)])
  from runsD [OF this refl run] 2 assms(1) show ?thesis by (simp add: fiber_ok_def fb_is_def)
qed

section \<open>A board with the PHY\<close>

text \<open>The controller of the example has no MAC registers but the pins; a read shows what the last command selected.\<close>

definition fb_board :: "(fiber_bus \<times> u16) mmio" where
  "fb_board = \<lparr>readb = (\<lambda>c r. (0, c)), readw = (\<lambda>c r. (0, c)), readl = (\<lambda>c r. (ucast (snd c), c)),
     writeb = (\<lambda>c r v. c), writew = (\<lambda>c r v. c),
     writel = (\<lambda>c r v. if r \<noteq> MACOCP then c
       else if flag_set v then (if key16 v = 0x6E26 then ((fst c)\<lparr>fb_dir := ucast v\<rparr>, snd c)
         else if key16 v = 0x6E29 then (fb_set_out (ucast v) (fst c), snd c) else c)
       else (fst c, if key16 v = 0x6E26 then fb_dir (fst c) else if key16 v = 0x6E29 then fb_out (fst c)
         else if key16 v = 0x6E2C then (if fb_level (fst c) then 4 else 0) else 0)),
     elapse = (\<lambda>c t. c), pci_read = (\<lambda>c r. (0, c)), pci_write = (\<lambda>c r v. c)\<rparr>"

definition fb_fresh :: fiber_bus where
  "fb_fresh = \<lparr>fb_dir = 0x80, fb_out = 0, fb_phy = \<lparr>ph_ones = 0, ph_frame = [], ph_addr = (\<lambda>_. 0),
     ph_mem = (\<lambda>dev a. if dev = 1 \<and> a = 2 then 0x001C else if dev = 1 \<and> a = 3 then 0xC849 else 0x1111)\<rparr>\<rparr>"

definition fb_nic :: "(fiber_bus \<times> u16) nic" where
  "fb_nic = (demo_nic (fb_fresh, 0))\<lparr>HwFiberModeVer := 1, HwFiberStat := 2\<rparr>"

lemma fb_board_law: "fiber_law fb_board fst"
  by (auto simp: fiber_law_def fb_board_def Let_def)

lemma fb_nic_ok: "fiber_ok fb_board fst fb_nic" "ph_frame (fb_phy (fst (hw fb_nic))) = []" "HwFiberModeVer fb_nic = 1"
  using fb_board_law by (simp_all add: fiber_ok_def fb_nic_def demo_nic_def fb_fresh_def)

theorem fiber_roundtrip_witness:
  "fst (run_state (do { rtl8125_fiber_mdio_write fb_board 0x0007003C 0xBEEF; rtl8125_fiber_mdio_read fb_board 0x0007003C }) fb_nic) = 0xBEEF
   \<and> fst (run_state (do { rtl8125_fiber_mdio_write fb_board 0x0007003C 0xBEEF; rtl8125_fiber_mdio_read fb_board 0x0001003C }) fb_nic) = 0x1111"
  using fiber_roundtrip [OF fb_nic_ok(1) surjective_pairing, of "0x0007003C" "0xBEEF" "0x0007003C"]
    fiber_roundtrip [OF fb_nic_ok(1) surjective_pairing, of "0x0007003C" "0xBEEF" "0x0001003C"]
  by (simp add: c45_index_def c45_dev_def c45_reg_def fiber_regs_def fb_nic_def demo_nic_def fb_fresh_def)

theorem fiber_detect_exact_witness:
  "fst (run_state (rtl8125_fiber_get_connect_status fb_board) fb_nic) = 2"
  using fiber_detect_exact [OF fb_board_law fb_nic_ok(2,3) surjective_pairing]
  by (simp add: has_8221d_def RTL8221D_PHY_ID_1_def RTL8221D_PHY_ID_2_def fb_nic_def demo_nic_def fb_fresh_def)

end
