(* ===== verification/LinkCfg.thy ===== *)
theory LinkCfg
  imports HwCtl Fiber
begin

text \<open>
  The link: which modes the PHY advertises, forced modes, flow control (\<open>r8125_n.c\<close>).  The module parameter
  \<open>eee_giga_lite\<close> is an argument.  Constants without a definition of the driver are those of Linux's
  \<open>mii.h\<close> and \<open>ethtool.h\<close>.
\<close>

section \<open>Constants\<close>

abbreviation (input) MII_BMCR :: u16 where "MII_BMCR \<equiv> 0"
abbreviation (input) MII_ADVERTISE :: u16 where "MII_ADVERTISE \<equiv> 4"
abbreviation (input) MII_LPA :: u16 where "MII_LPA \<equiv> 5"
abbreviation (input) MII_EXPANSION :: u16 where "MII_EXPANSION \<equiv> 6"
abbreviation (input) MII_CTRL1000 :: u16 where "MII_CTRL1000 \<equiv> 9"
abbreviation (input) MII_STAT1000 :: u16 where "MII_STAT1000 \<equiv> 10"
abbreviation (input) AUTONEG_DISABLE :: u8 where "AUTONEG_DISABLE \<equiv> 0"
abbreviation (input) AUTONEG_ENABLE :: u8 where "AUTONEG_ENABLE \<equiv> 1"
abbreviation (input) DUPLEX_HALF :: u8 where "DUPLEX_HALF \<equiv> 0"
abbreviation (input) DUPLEX_FULL :: u8 where "DUPLEX_FULL \<equiv> 1"
abbreviation (input) RTK_ADVERTISE_2500FULL :: u32 where "RTK_ADVERTISE_2500FULL \<equiv> 0x80"
abbreviation (input) RTK_LPA_ADVERTISE_2500FULL :: u16 where "RTK_LPA_ADVERTISE_2500FULL \<equiv> 0x20"
abbreviation (input) PHYstatus :: nat where "PHYstatus \<equiv> 0x6C"
abbreviation (input) LinkStatus :: u32 where "LinkStatus \<equiv> 0x02"
abbreviation (input) EINVAL :: int where "EINVAL \<equiv> 22"
abbreviation (input) EBUSY :: int where "EBUSY \<equiv> 16"

section \<open>Link state\<close>

definition rtl8125_get_phy_status :: "'d mmio \<Rightarrow> ('d, u32) drv" where
  "rtl8125_get_phy_status io = RTL_R32 io PHYstatus"

definition xmii_link_ok :: "'d mmio \<Rightarrow> ('d, u32) drv" where
  "xmii_link_ok io = do {
     status \<leftarrow> rtl8125_get_phy_status io;
     State_Monad.return (if status = 0xffffffff then 0 else if status AND LinkStatus \<noteq> 0 then 1 else 0)
   }"

definition rtl8125_xmii_link_ok :: "'d mmio \<Rightarrow> ('d, u32) drv" where
  "rtl8125_xmii_link_ok io = do {
     link_state \<leftarrow> xmii_link_ok io;
     ver \<leftarrow> gets HwFiberModeVer;
     if 0 < ver \<and> link_state = 1 then rtl8125_fiber_link_ok io else State_Monad.return link_state
   }"

section \<open>Options\<close>

definition rtl8125_is_autoneg_mode_valid :: "u32 \<Rightarrow> bool" where
  "rtl8125_is_autoneg_mode_valid aneg \<longleftrightarrow> aneg = 1 \<or> aneg = 0"

definition rtl8125_is_speed_mode_valid :: "u32 \<Rightarrow> bool" where
  "rtl8125_is_speed_mode_valid spd \<longleftrightarrow> spd = 2500 \<or> spd = 1000 \<or> spd = 100 \<or> spd = 10"

definition rtl8125_is_duplex_mode_valid :: "u8 \<Rightarrow> bool" where
  "rtl8125_is_duplex_mode_valid dplx \<longleftrightarrow> dplx = DUPLEX_FULL \<or> dplx = DUPLEX_HALF"

definition rtl8125_set_link_option :: "u8 \<Rightarrow> u32 \<Rightarrow> u8 \<Rightarrow> rtl8125_fc_mode \<Rightarrow> ('d, unit) drv" where
  "rtl8125_set_link_option aneg spd dplx fc = do {
     let spd = (if rtl8125_is_speed_mode_valid spd then spd else 2500);
     let dplx = (if rtl8125_is_duplex_mode_valid dplx then dplx else DUPLEX_FULL);
     let aneg = (if rtl8125_is_autoneg_mode_valid (ucast aneg) then aneg else AUTONEG_ENABLE);
     mx \<leftarrow> gets HwSuppMaxPhyLinkSpeed;
     let spd = min spd mx;
     let adv = (if spd = 2500 then 0x8000 else 0) OR (0x01 OR 0x02 OR 0x04 OR 0x08 OR 0x10 OR 0x20);
     modify (\<lambda>s. s\<lparr>autoneg := aneg, speed := spd, duplex := dplx, advertising := adv, fcpause := fc\<rparr>)
   }"

section \<open>Programming the PHY\<close>

definition rtl8125_phy_restart_nway :: "'d mmio \<Rightarrow> ('d, unit) drv" where
  "rtl8125_phy_restart_nway io = do {
     disabled \<leftarrow> rtl8125_is_in_phy_disable_mode io;
     if disabled then State_Monad.return ()
     else do {
       rtl8125_mdio_write io 0x1F 0;
       rtl8125_mdio_write io MII_BMCR (0x1000 OR 0x0200)
     }
   }"

definition force_bmcr :: "u32 \<Rightarrow> u8 \<Rightarrow> u16 option" where
  "force_bmcr spd dplx =
     (if spd = 10 \<and> dplx = DUPLEX_HALF then Some 0
      else if spd = 10 \<and> dplx = DUPLEX_FULL then Some 0x0100
      else if spd = 100 \<and> dplx = DUPLEX_HALF then Some 0x2000
      else if spd = 100 \<and> dplx = DUPLEX_FULL then Some (0x2000 OR 0x0100)
      else None)"

definition rtl8125_phy_setup_force_mode :: "'d mmio \<Rightarrow> u32 \<Rightarrow> u8 \<Rightarrow> ('d, unit) drv" where
  "rtl8125_phy_setup_force_mode io spd dplx = do {
     disabled \<leftarrow> rtl8125_is_in_phy_disable_mode io;
     if disabled then State_Monad.return ()
     else case force_bmcr spd dplx of
       None \<Rightarrow> State_Monad.return ()
     | Some bmcr \<Rightarrow> do {
         rtl8125_mdio_write io 0x1F 0;
         rtl8125_mdio_write io MII_BMCR bmcr
       }
   }"

definition rtl8125_enable_giga_lite :: "'d mmio \<Rightarrow> u64 \<Rightarrow> ('d, unit) drv" where
  "rtl8125_enable_giga_lite io adv = do {
     (if adv AND 0x20 \<noteq> 0 then rtl8125_set_eth_phy_ocp_bit io 0xA428 0x0200 else rtl8125_clear_eth_phy_ocp_bit io 0xA428 0x0200);
     (if adv AND 0x8000 \<noteq> 0 then rtl8125_set_eth_phy_ocp_bit io 0xA5EA 0x0001 else rtl8125_clear_eth_phy_ocp_bit io 0xA5EA 0x0001)
   }"

definition rtl8125_disable_giga_lite :: "'d mmio \<Rightarrow> ('d, unit) drv" where
  "rtl8125_disable_giga_lite io = do {
     rtl8125_clear_eth_phy_ocp_bit io 0xA428 0x0200;
     rtl8125_clear_eth_phy_ocp_bit io 0xA5EA 0x0001
   }"

definition rtl8125_set_d0_speedup_speed :: "('d, unit) drv" where
  "rtl8125_set_d0_speedup_speed = modify (\<lambda>s.
     if HwSuppD0SpeedUpVer s = 0 then s
     else s\<lparr>D0SpeedUpSpeed :=
       (if autoneg s = AUTONEG_ENABLE then (if speed s = 2500 then 2 else if speed s = 1000 then 1 else 0) else 0)\<rparr>)"

text \<open>The advertisement registers for a set of modes: what is added to the cleared fields.\<close>

definition adv_auto_nego :: "u64 \<Rightarrow> u32" where
  "adv_auto_nego adv =
     (if adv AND 0x01 \<noteq> 0 then 0x0020 else 0) OR (if adv AND 0x02 \<noteq> 0 then 0x0040 else 0)
     OR (if adv AND 0x04 \<noteq> 0 then 0x0080 else 0) OR (if adv AND 0x08 \<noteq> 0 then 0x0100 else 0)"

definition adv_giga :: "u64 \<Rightarrow> u32" where
  "adv_giga adv = (if adv AND 0x10 \<noteq> 0 then 0x0100 else 0) OR (if adv AND 0x20 \<noteq> 0 then 0x0200 else 0)"

definition rtl8125_set_speed_xmii :: "bool \<Rightarrow> 'd mmio \<Rightarrow> u8 \<Rightarrow> u32 \<Rightarrow> u8 \<Rightarrow> u64 \<Rightarrow> ('d, int) drv" where
  "rtl8125_set_speed_xmii eee_giga_lite io aneg spd dplx adv = do {
     tp_adv \<leftarrow> gets advertising;
     let (spd, dplx, adv) = (if \<not> rtl8125_is_speed_mode_valid spd then (2500, DUPLEX_FULL, adv OR tp_adv) else (spd, dplx, adv));
     (if eee_giga_lite \<and> aneg = AUTONEG_ENABLE then rtl8125_enable_giga_lite io adv else rtl8125_disable_giga_lite io);
     v \<leftarrow> rtl8125_mdio_read io MII_CTRL1000;
     let giga_ctrl = v AND NOT (0x0100 OR 0x0200);
     v \<leftarrow> rtl8125_mdio_direct_read_phy_ocp io 0xA5D4;
     let ctrl_2500 = v AND NOT RTK_ADVERTISE_2500FULL;
     rc \<leftarrow> (if aneg = AUTONEG_ENABLE then do {
         v \<leftarrow> rtl8125_mdio_read io MII_ADVERTISE;
         let auto_nego = v AND NOT (0x0020 OR 0x0040 OR 0x0080 OR 0x0100 OR 0x0400 OR 0x0800);
         let auto_nego = auto_nego OR adv_auto_nego adv;
         let giga_ctrl = giga_ctrl OR adv_giga adv;
         let ctrl_2500 = (if adv AND 0x8000 \<noteq> 0 then ctrl_2500 OR RTK_ADVERTISE_2500FULL else ctrl_2500);
         fc \<leftarrow> gets fcpause;
         let auto_nego = (if fc = rtl8125_fc_full then auto_nego OR (0x0400 OR 0x0800) else auto_nego);
         modify (\<lambda>s. s\<lparr>phy_auto_nego_reg := auto_nego, phy_1000_ctrl_reg := giga_ctrl, phy_2500_ctrl_reg := ctrl_2500\<rparr>);
         rtl8125_mdio_write io 0x1f 0;
         rtl8125_mdio_write io MII_ADVERTISE (ucast auto_nego);
         rtl8125_mdio_write io MII_CTRL1000 (ucast giga_ctrl);
         rtl8125_mdio_direct_write_phy_ocp io 0xA5D4 (ucast ctrl_2500);
         rtl8125_phy_restart_nway io;
         State_Monad.return 0
       }
       else if spd = 10 \<or> spd = 100 then do { rtl8125_phy_setup_force_mode io spd dplx; State_Monad.return 0 }
       else State_Monad.return (- EINVAL));
     if rc \<noteq> 0 then State_Monad.return rc
     else do {
       modify (\<lambda>s. s\<lparr>autoneg := aneg, speed := spd, duplex := dplx, advertising := adv\<rparr>);
       rtl8125_set_d0_speedup_speed;
       rtl8125_hw_fiber_phy_config io;
       State_Monad.return 0
     }
   }"

definition rtl8125_set_speed :: "bool \<Rightarrow> 'd mmio \<Rightarrow> u8 \<Rightarrow> u32 \<Rightarrow> u8 \<Rightarrow> u64 \<Rightarrow> ('d, int) drv" where
  "rtl8125_set_speed eee_giga_lite io aneg spd dplx adv = do {
     keep \<leftarrow> gets resume_not_chg_speed;
     if keep \<noteq> 0 then State_Monad.return 0 else rtl8125_set_speed_xmii eee_giga_lite io aneg spd dplx adv
   }"

section \<open>Requests\<close>

text \<open>
  What \<open>rtl8125_set_settings\<close> is given: the link modes as \<open>ethtool_convert_link_mode_to_legacy_u32\<close> turns them into
  32 bits, and whether \<open>2500baseT_Full\<close> is among them.
\<close>

record ethtool_link_ksettings =
  ks_autoneg :: u8
  ks_speed :: u32
  ks_duplex :: u8
  ks_supported :: u32
  ks_supported_2500 :: bool
  ks_advertising :: u32
  ks_advertising_2500 :: bool

definition rtl8125_set_settings :: "bool \<Rightarrow> 'd mmio \<Rightarrow> ethtool_link_ksettings \<Rightarrow> ('d, int) drv" where
  "rtl8125_set_settings eee_giga_lite io cmd = do {
     let supported = ((ucast (ks_supported cmd) :: u64) OR (if ks_supported_2500 cmd then 0x8000 else 0));
     let adv = ((ucast (ks_advertising cmd) :: u64) OR (if ks_advertising_2500 cmd then 0x8000 else 0));
     if adv AND NOT supported \<noteq> 0 then State_Monad.return (- EINVAL)
     else rtl8125_set_speed eee_giga_lite io (ks_autoneg cmd) (ks_speed cmd) (ks_duplex cmd) adv
   }"

record ethtool_pauseparam =
  pp_autoneg :: u32
  rx_pause :: u32
  tx_pause :: u32

definition rtl8125_get_pauseparam :: "ethtool_pauseparam \<Rightarrow> ('d, ethtool_pauseparam) drv" where
  "rtl8125_get_pauseparam pause = do {
     an \<leftarrow> gets autoneg;
     fc \<leftarrow> gets fcpause;
     let pause = pause\<lparr>pp_autoneg := (if an \<noteq> 0 then 1 else 0)\<rparr>;
     State_Monad.return
       (if fc = rtl8125_fc_rx_pause then pause\<lparr>rx_pause := 1\<rparr>
        else if fc = rtl8125_fc_tx_pause then pause\<lparr>tx_pause := 1\<rparr>
        else if fc = rtl8125_fc_full then pause\<lparr>rx_pause := 1, tx_pause := 1\<rparr> else pause)
   }"

definition rtl8125_set_pauseparam :: "bool \<Rightarrow> 'd mmio \<Rightarrow> ethtool_pauseparam \<Rightarrow> ('d, int) drv" where
  "rtl8125_set_pauseparam eee_giga_lite io pause = do {
     let newfc = (if tx_pause pause \<noteq> 0 \<or> rx_pause pause \<noteq> 0 then rtl8125_fc_full else rtl8125_fc_none);
     s \<leftarrow> State_Monad.get;
     (if fcpause s \<noteq> newfc then do {
        modify (\<lambda>s. s\<lparr>fcpause := newfc\<rparr>);
        rtl8125_set_speed eee_giga_lite io (autoneg s) (speed s) (duplex s) (advertising s);
        State_Monad.return ()
      } else State_Monad.return ());
     State_Monad.return 0
   }"

definition rtl_nway_reset :: "'d mmio \<Rightarrow> ('d, int) drv" where
  "rtl_nway_reset io = do {
     diag \<leftarrow> gets rtk_enable_diag;
     if diag \<noteq> 0 then State_Monad.return (- EBUSY)
     else do {
       rtl8125_mdio_write io 0x1F 0;
       bmcr \<leftarrow> rtl8125_mdio_read io MII_BMCR;
       if bmcr AND 0x1000 \<noteq> 0 then do {
         rtl8125_mdio_write io MII_BMCR (ucast (bmcr OR 0x0200));
         State_Monad.return 0
       }
       else State_Monad.return (- EINVAL)
     }
   }"

section \<open>The link while the system sleeps\<close>

text \<open>The lowest mode that both sides have: the three registers with its bit added, or no mode.\<close>

definition wol_mode :: "u64 \<Rightarrow> u16 \<Rightarrow> u16 \<Rightarrow> u16 \<Rightarrow> u32 \<times> u32 \<times> u32 \<Rightarrow> (u32 \<times> u32 \<times> u32) option" where
  "wol_mode adv anlpar gbsr status_2500 regs = (case regs of (auto_nego, giga_ctrl, ctrl_2500) \<Rightarrow>
     (if adv AND 0x01 \<noteq> 0 \<and> anlpar AND 0x0020 \<noteq> 0 then Some (auto_nego OR 0x0020, giga_ctrl, ctrl_2500)
      else if adv AND 0x02 \<noteq> 0 \<and> anlpar AND 0x0040 \<noteq> 0 then Some (auto_nego OR 0x0040, giga_ctrl, ctrl_2500)
      else if adv AND 0x04 \<noteq> 0 \<and> anlpar AND 0x0080 \<noteq> 0 then Some (auto_nego OR 0x0080, giga_ctrl, ctrl_2500)
      else if adv AND 0x08 \<noteq> 0 \<and> anlpar AND 0x0100 \<noteq> 0 then Some (auto_nego OR 0x0100, giga_ctrl, ctrl_2500)
      else if adv AND 0x10 \<noteq> 0 \<and> gbsr AND 0x0400 \<noteq> 0 then Some (auto_nego, giga_ctrl OR 0x0100, ctrl_2500)
      else if adv AND 0x20 \<noteq> 0 \<and> gbsr AND 0x0800 \<noteq> 0 then Some (auto_nego, giga_ctrl OR 0x0200, ctrl_2500)
      else if adv AND 0x8000 \<noteq> 0 \<and> status_2500 AND RTK_LPA_ADVERTISE_2500FULL \<noteq> 0
        then Some (auto_nego, giga_ctrl, ctrl_2500 OR RTK_ADVERTISE_2500FULL)
      else None))"

definition wol_choose :: "u64 \<Rightarrow> u16 \<Rightarrow> u16 \<Rightarrow> u16 \<Rightarrow> u16 \<Rightarrow> u32 \<times> u32 \<times> u32 \<Rightarrow> (u32 \<times> u32 \<times> u32) option" where
  "wol_choose adv aner anlpar gbsr status_2500 regs =
     (if aner OR anlpar OR gbsr OR status_2500 = 0 then
        (if adv_auto_nego adv = 0 then None else case regs of (a, g, c) \<Rightarrow> Some (a OR adv_auto_nego adv, g, c))
      else if aner AND 0x0001 = 0 then None
      else wol_mode adv anlpar gbsr status_2500 regs)"

definition rtl8125_set_wol_link_speed :: "'d mmio \<Rightarrow> ('d, u32) drv" where
  "rtl8125_set_wol_link_speed io = do {
     an \<leftarrow> gets autoneg;
     if an \<noteq> AUTONEG_ENABLE then State_Monad.return 0
     else do {
       rtl8125_mdio_write io 0x1F 0;
       v \<leftarrow> rtl8125_mdio_read io MII_ADVERTISE;
       let auto_nego = v AND NOT (0x0020 OR 0x0040 OR 0x0080 OR 0x0100);
       v \<leftarrow> rtl8125_mdio_read io MII_CTRL1000;
       let giga_ctrl = v AND NOT (0x0100 OR 0x0200);
       v \<leftarrow> rtl8125_mdio_direct_read_phy_ocp io 0xA5D4;
       let ctrl_2500 = v AND NOT RTK_ADVERTISE_2500FULL;
       up \<leftarrow> rtl8125_xmii_link_ok io;
       (aner, anlpar, gbsr, status_2500) \<leftarrow> (if up \<noteq> 0 then do {
           aner \<leftarrow> rtl8125_mdio_read io MII_EXPANSION;
           anlpar \<leftarrow> rtl8125_mdio_read io MII_LPA;
           gbsr \<leftarrow> rtl8125_mdio_read io MII_STAT1000;
           st \<leftarrow> rtl8125_mdio_direct_read_phy_ocp io 0xA5D6;
           State_Monad.return (ucast aner :: u16, ucast anlpar :: u16, ucast gbsr :: u16, ucast st :: u16)
         }
         else gets (\<lambda>s. (phy_reg_aner s, phy_reg_anlpar s, phy_reg_gbsr s, phy_reg_status_2500 s)));
       adv \<leftarrow> gets advertising;
       dash \<leftarrow> gets DASH;
       case wol_choose adv aner anlpar gbsr status_2500 (auto_nego, giga_ctrl, ctrl_2500) of
         None \<Rightarrow> State_Monad.return auto_nego
       | Some (auto_nego, giga_ctrl, ctrl_2500) \<Rightarrow> do {
           let auto_nego = (if dash \<noteq> 0 then auto_nego OR (0x0100 OR 0x0080 OR 0x0020 OR 0x0040) else auto_nego);
           rtl8125_mdio_write io MII_ADVERTISE (ucast auto_nego);
           rtl8125_mdio_write io MII_CTRL1000 (ucast giga_ctrl);
           rtl8125_mdio_direct_write_phy_ocp io 0xA5D4 (ucast ctrl_2500);
           rtl8125_disable_giga_lite io;
           rtl8125_phy_restart_nway io;
           State_Monad.return auto_nego
         }
     }
   }"

definition rtl8125_keep_wol_link_speed :: "'d mmio \<Rightarrow> bool \<Rightarrow> ('d, bool) drv" where
  "rtl8125_keep_wol_link_speed io from_suspend = do {
     up \<leftarrow> (if from_suspend then rtl8125_xmii_link_ok io else State_Monad.return 0);
     wol \<leftarrow> gets wol_opts;
     keep \<leftarrow> gets resume_not_chg_speed;
     State_Monad.return ((from_suspend \<and> up \<noteq> 0 \<and> wol AND 0x01 \<noteq> 0) \<or> (\<not> from_suspend \<and> keep \<noteq> 0))
   }"

section \<open>Running over the PHY registers\<close>

text \<open>
  \<open>goes V m R t x R' t'\<close>: from the PHY registers \<open>R\<close> and the driver's fields of \<open>t\<close>, \<open>m\<close> returns \<open>x\<close> and ends with
  the registers \<open>R'\<close> and the fields of \<open>t'\<close>.
\<close>

definition phy_at :: "'d view \<Rightarrow> (u32 \<Rightarrow> u16) \<Rightarrow> 'd nic \<Rightarrow> 'd nic \<Rightarrow> bool" where
  "phy_at V R t s \<longleftrightarrow> contents16 V s = R \<and> same_priv t s"

definition goes :: "'d view \<Rightarrow> ('d, 'a) drv \<Rightarrow> (u32 \<Rightarrow> u16) \<Rightarrow> 'd nic \<Rightarrow> 'a \<Rightarrow> (u32 \<Rightarrow> u16) \<Rightarrow> 'd nic \<Rightarrow> bool" where
  "goes V m R t x R' t' \<longleftrightarrow> valid (phy_at V R t) m (\<lambda>y s. y = x \<and> phy_at V R' t' s)"

lemma goes_bind:
  assumes "goes V m R t x R1 t1" "goes V (f x) R1 t1 y R2 t2"
  shows "goes V (State_Monad.bind m f) R t y R2 t2"
  unfolding goes_def
proof (rule valid_bind)
  show "valid (phy_at V R t) m (\<lambda>z s. z = x \<and> phy_at V R1 t1 s)" using assms(1) by (simp add: goes_def)
  show "valid (\<lambda>s. z = x \<and> phy_at V R1 t1 s) (f z) (\<lambda>z s. z = y \<and> phy_at V R2 t2 s)" for z
    using assms(2) by (cases "z = x") (simp_all add: goes_def valid_def)
qed

lemma goes_return: "goes V (State_Monad.return x) R t x R t"
  by (simp add: goes_def valid_def)

lemma goes_gets:
  assumes "\<And>s. same_priv t s \<Longrightarrow> f s = f t"
  shows "goes V (gets f) R t (f t) R t"
  unfolding goes_def
proof (rule valid_runI)
  fix s v s'
  assume s: "phy_at V R t s" and "run_state (gets f) s = (v, s')"
  then have "v = f s" "s' = s" by auto
  moreover have "f s = f t" by (rule assms) (use s in \<open>simp add: phy_at_def\<close>)
  ultimately show "v = f t \<and> phy_at V R t s'" using s by simp
qed

lemma goes_modify:
  assumes "\<And>s. hw (f s) = hw s" "\<And>s. same_priv t s \<Longrightarrow> same_priv (f t) (f s)"
  shows "goes V (modify f) R t () R (f t)"
proof -
  have "contents16 V (f s) = contents16 V s" for s by (simp add: contents16_def assms(1) fun_eq_iff)
  then show ?thesis using assms(2) by (simp add: goes_def valid_def phy_at_def)
qed

lemma goesD:
  assumes "goes V m (contents16 V s) s x R' t'" "run_state m s = (y, s')"
  shows "y = x \<and> contents16 V s' = R' \<and> same_priv t' s'"
proof -
  have "phy_at V (contents16 V s) s s" by (simp add: phy_at_def)
  from validD [OF assms(1) [unfolded goes_def] this assms(2)] show ?thesis by (simp add: phy_at_def)
qed

lemma low_word: "x AND 0xffff = (ucast (ucast (x :: u32) :: u16) :: u32)"
  unfolding masks32 by (rule bit_word_eqI) (auto simp: bit_simps)

lemma goes_of_read:
  assumes "\<And>R. valid (at_regs V R t) m (\<lambda>v s. v = R i AND 0xffff \<and> at_regs V R t s)"
  shows "goes V m C t (ucast (C i)) C t"
  unfolding goes_def
proof (rule valid_runI)
  fix s v s'
  assume "phy_at V C t s" and run: "run_state m s = (v, s')"
  then have s: "at_regs V (vregs V (hw s)) t s" "contents16 V s = C" by (simp_all add: phy_at_def at_regs_def)
  from validD [OF assms s(1) run] s(2) show "v = ucast (C i) \<and> phy_at V C t s'"
    by (auto simp: phy_at_def at_regs_def contents16_def fun_eq_iff low_word)
qed

lemma goes_of_write:
  assumes "\<And>R. valid (at_regs V R t) m (\<lambda>_. at_regs V (R(i := ucast (v :: u16))) t)"
  shows "goes V (m :: ('d, unit) drv) C t () (C(i := v)) t"
  unfolding goes_def
proof (rule valid_runI)
  fix s u s'
  assume "phy_at V C t s" and run: "run_state m s = (u, s')"
  then have s: "at_regs V (vregs V (hw s)) t s" "contents16 V s = C" by (simp_all add: phy_at_def at_regs_def)
  from validD [OF assms s(1) run] s(2) show "u = () \<and> phy_at V (C(i := v)) t s'"
    by (auto simp: phy_at_def at_regs_def contents16_def fun_eq_iff)
qed

lemma goes_ocp:
  assumes "chan16_law io PHYOCP V" "rtk_enable_diag t = 0"
  shows "goes V (rtl8125_mdio_direct_read_phy_ocp io a) C t (ucast (C (ucast (a div 2)))) C t"
    "goes V (rtl8125_mdio_direct_write_phy_ocp io a v) C t () (C(ucast (a div 2) := v)) t"
  by (rule goes_of_read, rule direct_read_phy [OF assms], rule goes_of_write, rule direct_write_phy [OF assms])

text \<open>In page 0 the MII registers lie from index \<open>0x5200\<close> on.\<close>

lemma page_index_0: "a < 0x1f \<Longrightarrow> page_index 0 a = 0x5200 + ucast a"
proof -
  assume "a < 0x1f"
  then have n: "unat a < 31" by (simp add: word_less_nat_alt)
  let ?b = "ucast (ucast a :: u32) :: u8"
  have "unat ?b = take_bit 8 (unat a)" unfolding unsigned_ucast_eq [of "ucast a :: u32"] unat_wide by simp
  then have b: "unat ?b = unat a" using n by (simp add: take_bit_nat_eq_self)
  have "unat (map_phy_ocp_addr 0 ?b) = 0xA400 + 2 * unat a"
    using n b by (simp add: map_std unat_word_ariths unat_up)
  then have "unat (map_phy_ocp_addr 0 ?b div 2) = 0x5200 + unat a" by (simp add: unat_div)
  then have "unat (page_index 0 a) = unat (0x5200 + ucast a :: u32)"
    using n by (simp add: page_index_def unat_wide unat_word_ariths)
  then show ?thesis by (simp add: word_unat_eq_iff)
qed

lemma goes_mii:
  assumes "chan16_law io PHYOCP V" "rtk_enable_diag t = 0" "cur_page t = 0" "a < 0x1f"
  shows "goes V (rtl8125_mdio_read io a) C t (ucast (C (0x5200 + ucast a))) C t"
    "goes V (rtl8125_mdio_write io a v) C t () (C(0x5200 + ucast a := v)) t"
proof -
  have a: "a \<noteq> 0x1f" using assms(4) by auto
  show "goes V (rtl8125_mdio_read io a) C t (ucast (C (0x5200 + ucast a))) C t"
    unfolding page_index_0 [OF assms(4), symmetric] assms(3) [symmetric] by (rule goes_of_read) (rule mdio_read_phy [OF assms(1,2)])
  show "goes V (rtl8125_mdio_write io a v) C t () (C(0x5200 + ucast a := v)) t"
    unfolding page_index_0 [OF assms(4), symmetric] assms(3) [symmetric] by (rule goes_of_write) (rule mdio_write_phy [OF assms(1,2) a])
qed

lemma goes_page:
  assumes "rtk_enable_diag t = 0" "cur_page t = 0"
  shows "goes V (rtl8125_mdio_write io 0x1f 0) C t () C t"
  unfolding goes_def
proof (rule valid_runI)
  fix s u s'
  assume s: "phy_at V C t s" and run: "run_state (rtl8125_mdio_write io 0x1f 0) s = (u, s')"
  then have "rtk_enable_diag s = 0" "cur_page s = 0" using assms same_priv_diag [of t s] by (simp_all add: phy_at_def)
  then have "s' = s" using run by (cases s) (simp add: rtl8125_mdio_write_def mdio_real_write_def)
  then show "u = () \<and> phy_at V C t s'" using s by simp
qed

lemma goes_phy_update:
  assumes "chan16_law io PHYOCP V" "rtk_enable_diag t = 0"
  shows "goes V (rtl8125_set_eth_phy_ocp_bit io a m) C t () (C(ucast (a div 2) := C (ucast (a div 2)) OR m)) t"
    "goes V (rtl8125_clear_eth_phy_ocp_bit io a m) C t () (C(ucast (a div 2) := C (ucast (a div 2)) AND NOT m)) t"
  unfolding rtl8125_set_eth_phy_ocp_bit_def rtl8125_clear_eth_phy_ocp_bit_def rtl8125_clear_and_set_eth_phy_ocp_bit_def
  using goes_ocp(2) [OF assms, of a "(C (ucast (a div 2)) AND NOT 0) OR m" C] goes_ocp(2) [OF assms, of a "(C (ucast (a div 2)) AND NOT m) OR 0" C]
  by (auto intro!: goes_bind [OF goes_ocp(1) [OF assms]])

text \<open>A PHY that the board does not hold disabled.\<close>

definition phy_usable :: "'d mmio \<Rightarrow> 'd view \<Rightarrow> 'd nic \<Rightarrow> bool" where
  "phy_usable io V t \<longleftrightarrow> HwSuppCheckPhyDisableModeVer t \<noteq> 3
     \<or> (\<forall>d. \<not> bit (fst (readb io d 0xF2)) 5 \<and> vregs V (snd (readb io d 0xF2)) = vregs V d)"

lemma goes_usable:
  assumes "phy_usable io V t"
  shows "goes V (rtl8125_is_in_phy_disable_mode io) C t False C t"
  unfolding goes_def
proof (rule valid_runI)
  fix s b s'
  assume s: "phy_at V C t s" and run: "run_state (rtl8125_is_in_phy_disable_mode io) s = (b, s')"
  have ver: "HwSuppCheckPhyDisableModeVer s = HwSuppCheckPhyDisableModeVer t"
    using s by (cases s, cases t) (simp add: phy_at_def same_priv_def)
  have b: "v AND 0x20 = 0 \<longleftrightarrow> \<not> bit v 5" for v :: u8 by (simp add: bit_iff_and_push_bit_not_eq_0)
  show "b = False \<and> phy_at V C t s'"
    using run s assms ver
    by (auto simp: phy_at_def contents16_def fun_eq_iff rtl8125_is_in_phy_disable_mode_def rtl8125_is_phy_disable_mode_enabled_def RTL_R8_def
        phy_usable_def b split_beta split: if_splits)
qed

section \<open>Negotiated modes\<close>

definition link_ready :: "'d mmio \<Rightarrow> 'd view \<Rightarrow> 'd nic \<Rightarrow> bool" where
  "link_ready io V t \<longleftrightarrow> chan16_law io PHYOCP V \<and> rtk_enable_diag t = 0 \<and> cur_page t = 0 \<and> phy_usable io V t
     \<and> HwFiberModeVer t \<noteq> FIBER_MODE_RTL8125D_RTL8221D"

definition lite_regs :: "bool \<Rightarrow> u64 \<Rightarrow> (u32 \<Rightarrow> u16) \<Rightarrow> u32 \<Rightarrow> u16" where
  "lite_regs on adv R =
     (let R1 = R(0x5214 := (if on \<and> adv AND 0x20 \<noteq> 0 then R 0x5214 OR 0x0200 else R 0x5214 AND NOT 0x0200))
      in R1(0x52F5 := (if on \<and> adv AND 0x8000 \<noteq> 0 then R 0x52F5 OR 0x0001 else R 0x52F5 AND NOT 0x0001)))"

lemma goes_lite:
  assumes "link_ready io V t"
  shows "goes V (if on then rtl8125_enable_giga_lite io adv else rtl8125_disable_giga_lite io) R t () (lite_regs on adv R) t"
proof -
  have law: "chan16_law io PHYOCP V" "rtk_enable_diag t = 0" using assms by (simp_all add: link_ready_def)
  note set1 = goes_phy_update(1) [OF law, of "0xA428" "0x0200" R] and clr1 = goes_phy_update(2) [OF law, of "0xA428" "0x0200" R]
  have set2: "goes V (rtl8125_set_eth_phy_ocp_bit io 0xA5EA 0x0001) (R(0x5214 := x)) t () (R(0x5214 := x, 0x52F5 := R 0x52F5 OR 0x0001)) t"
    and clr2: "goes V (rtl8125_clear_eth_phy_ocp_bit io 0xA5EA 0x0001) (R(0x5214 := x)) t () (R(0x5214 := x, 0x52F5 := R 0x52F5 AND NOT 0x0001)) t" for x
    using goes_phy_update [OF law, of "0xA5EA" "0x0001" "R(0x5214 := x)"] by simp_all
  have one: "goes V (if on \<and> adv AND 0x20 \<noteq> 0 then rtl8125_set_eth_phy_ocp_bit io 0xA428 0x0200 else rtl8125_clear_eth_phy_ocp_bit io 0xA428 0x0200) R t ()
      (R(0x5214 := (if on \<and> adv AND 0x20 \<noteq> 0 then R 0x5214 OR 0x0200 else R 0x5214 AND NOT 0x0200))) t"
    using set1 clr1 by simp
  have two: "goes V (if on \<and> adv AND 0x8000 \<noteq> 0 then rtl8125_set_eth_phy_ocp_bit io 0xA5EA 0x0001 else rtl8125_clear_eth_phy_ocp_bit io 0xA5EA 0x0001) (R(0x5214 := x)) t ()
      (R(0x5214 := x, 0x52F5 := (if on \<and> adv AND 0x8000 \<noteq> 0 then R 0x52F5 OR 0x0001 else R 0x52F5 AND NOT 0x0001))) t" for x
    using set2 [of x] clr2 [of x] by simp
  have eq: "(if on then rtl8125_enable_giga_lite io adv else rtl8125_disable_giga_lite io) = do {
      (if on \<and> adv AND 0x20 \<noteq> 0 then rtl8125_set_eth_phy_ocp_bit io 0xA428 0x0200 else rtl8125_clear_eth_phy_ocp_bit io 0xA428 0x0200);
      (if on \<and> adv AND 0x8000 \<noteq> 0 then rtl8125_set_eth_phy_ocp_bit io 0xA5EA 0x0001 else rtl8125_clear_eth_phy_ocp_bit io 0xA5EA 0x0001) }"
    by (simp add: rtl8125_enable_giga_lite_def rtl8125_disable_giga_lite_def)
  show ?thesis
    unfolding lite_regs_def Let_def
    by (subst eq) (rule goes_bind [OF one two])
qed

lemma lite_other [simp]: "i \<noteq> 0x5214 \<Longrightarrow> i \<noteq> 0x52F5 \<Longrightarrow> lite_regs on adv R i = R i"
  by (simp add: lite_regs_def Let_def)

lemma goes_nway:
  assumes "link_ready io V t"
  shows "goes V (rtl8125_phy_restart_nway io) R t () (R(0x5200 := 0x1200)) t"
proof -
  have r: "chan16_law io PHYOCP V" "rtk_enable_diag t = 0" "cur_page t = 0" "phy_usable io V t" using assms by (simp_all add: link_ready_def)
  have w: "goes V (rtl8125_mdio_write io 0 (0x1000 OR 0x0200)) R t () (R(0x5200 := 0x1200)) t"
    using goes_mii(2) [OF r(1-3), of 0 "0x1000 OR 0x0200" R] by simp
  have "goes V (do { rtl8125_mdio_write io 0x1F 0; rtl8125_mdio_write io 0 (0x1000 OR 0x0200) }) R t () (R(0x5200 := 0x1200)) t"
    by (rule goes_bind [OF goes_page [OF r(2,3)] w])
  then show ?thesis
    unfolding rtl8125_phy_restart_nway_def by (intro goes_bind [OF goes_usable [OF r(4)]]) simp
qed

text \<open>The registers and fields after a successful negotiation request.\<close>

definition nego_word :: "rtl8125_fc_mode \<Rightarrow> u64 \<Rightarrow> u16 \<Rightarrow> u32" where
  "nego_word fc adv x =
     (let v = (ucast x AND NOT (0x0020 OR 0x0040 OR 0x0080 OR 0x0100 OR 0x0400 OR 0x0800)) OR adv_auto_nego adv
      in if fc = rtl8125_fc_full then v OR (0x0400 OR 0x0800) else v)"

definition giga_word :: "u64 \<Rightarrow> u16 \<Rightarrow> u32" where
  "giga_word adv x = (ucast x AND NOT (0x0100 OR 0x0200)) OR adv_giga adv"

definition word_2500 :: "u64 \<Rightarrow> u16 \<Rightarrow> u32" where
  "word_2500 adv x = (let v = ucast x AND NOT RTK_ADVERTISE_2500FULL in if adv AND 0x8000 \<noteq> 0 then v OR RTK_ADVERTISE_2500FULL else v)"

definition nego_regs :: "bool \<Rightarrow> rtl8125_fc_mode \<Rightarrow> u64 \<Rightarrow> (u32 \<Rightarrow> u16) \<Rightarrow> u32 \<Rightarrow> u16" where
  "nego_regs lite fc adv R = (lite_regs lite adv R)(0x5204 := ucast (nego_word fc adv (R 0x5204)),
     0x5209 := ucast (giga_word adv (R 0x5209)), 0x52EA := ucast (word_2500 adv (R 0x52EA)), 0x5200 := 0x1200)"

definition nego_fields :: "u64 \<Rightarrow> (u32 \<Rightarrow> u16) \<Rightarrow> 'd nic \<Rightarrow> 'd nic" where
  "nego_fields adv R t = t\<lparr>phy_auto_nego_reg := nego_word (fcpause t) adv (R 0x5204), phy_1000_ctrl_reg := giga_word adv (R 0x5209),
     phy_2500_ctrl_reg := word_2500 adv (R 0x52EA)\<rparr>"

definition option_fields :: "u8 \<Rightarrow> u32 \<Rightarrow> u8 \<Rightarrow> u64 \<Rightarrow> 'd nic \<Rightarrow> 'd nic" where
  "option_fields aneg spd dplx adv t =
     (let t = t\<lparr>autoneg := aneg, speed := spd, duplex := dplx, advertising := adv\<rparr>
      in if HwSuppD0SpeedUpVer t = 0 then t
         else t\<lparr>D0SpeedUpSpeed := (if aneg = AUTONEG_ENABLE then (if spd = 2500 then 2 else if spd = 1000 then 1 else 0) else 0)\<rparr>)"

lemma same_priv_link:
  "same_priv t s \<Longrightarrow> advertising s = advertising t \<and> fcpause s = fcpause t \<and> HwFiberModeVer s = HwFiberModeVer t \<and> autoneg s = autoneg t
     \<and> speed s = speed t \<and> resume_not_chg_speed s = resume_not_chg_speed t \<and> HwSuppD0SpeedUpVer s = HwSuppD0SpeedUpVer t \<and> duplex s = duplex t"
  by (cases s, cases t) (simp add: same_priv_def)

lemma link_ready_fields [simp]:
  "link_ready io V (nego_fields adv R t) = link_ready io V t" "link_ready io V (option_fields a sp d adv t) = link_ready io V t"
  by (simp_all add: link_ready_def nego_fields_def option_fields_def phy_usable_def Let_def)

text \<open>The end of a successful request.\<close>

lemma goes_options:
  assumes "link_ready io V t"
  shows "goes V (do { modify (\<lambda>s. s\<lparr>autoneg := aneg, speed := spd, duplex := dplx, advertising := adv\<rparr>); rtl8125_set_d0_speedup_speed;
      rtl8125_hw_fiber_phy_config io; State_Monad.return (0 :: int) }) R t 0 R (option_fields aneg spd dplx adv t)"
proof -
  let ?t1 = "t\<lparr>autoneg := aneg, speed := spd, duplex := dplx, advertising := adv\<rparr>"
  have 1: "goes V (modify (\<lambda>s. s\<lparr>autoneg := aneg, speed := spd, duplex := dplx, advertising := adv\<rparr>)) R t () R ?t1"
  proof (rule goes_modify)
    fix s assume "same_priv t s"
    then show "same_priv ?t1 (s\<lparr>autoneg := aneg, speed := spd, duplex := dplx, advertising := adv\<rparr>)" by (cases s, cases t) (simp add: same_priv_def)
  qed simp
  have 2: "goes V rtl8125_set_d0_speedup_speed R ?t1 () R (option_fields aneg spd dplx adv t)"
  proof -
    let ?f = "\<lambda>s :: 'a nic. if HwSuppD0SpeedUpVer s = 0 then s else s\<lparr>D0SpeedUpSpeed :=
       (if autoneg s = AUTONEG_ENABLE then (if speed s = 2500 then 2 else if speed s = 1000 then 1 else 0) else 0)\<rparr>"
    have "goes V (modify ?f) R ?t1 () R (?f ?t1)"
    proof (rule goes_modify)
      fix s assume s: "same_priv ?t1 s"
      define k :: u8 where "k = (if aneg = 1 then (if spd = 2500 then 2 else if spd = 1000 then 1 else 0) else 0)"
      have f: "?f s = (if HwSuppD0SpeedUpVer t = 0 then s else s\<lparr>D0SpeedUpSpeed := k\<rparr>)" "?f ?t1 = (if HwSuppD0SpeedUpVer t = 0 then ?t1 else ?t1\<lparr>D0SpeedUpSpeed := k\<rparr>)"
        using same_priv_link [OF s] by (simp_all add: k_def)
      have "same_priv (?t1\<lparr>D0SpeedUpSpeed := k\<rparr>) (s\<lparr>D0SpeedUpSpeed := k\<rparr>)" using s by (cases s, cases t) (simp add: same_priv_def)
      with s show "same_priv (?f ?t1) (?f s)" unfolding f by simp
    qed simp
    moreover have "?f ?t1 = option_fields aneg spd dplx adv t" by (simp add: option_fields_def Let_def)
    ultimately show ?thesis unfolding rtl8125_set_d0_speedup_speed_def by (simp only:)
  qed
  have ver: "HwFiberModeVer (option_fields aneg spd dplx adv t) \<noteq> 1" using assms by (simp add: link_ready_def option_fields_def Let_def)
  have "goes V (gets HwFiberModeVer) R (option_fields aneg spd dplx adv t) (HwFiberModeVer (option_fields aneg spd dplx adv t)) R (option_fields aneg spd dplx adv t)"
    by (rule goes_gets) (use same_priv_link in blast)
  then have 3: "goes V (rtl8125_hw_fiber_phy_config io) R (option_fields aneg spd dplx adv t) () R (option_fields aneg spd dplx adv t)"
    unfolding rtl8125_hw_fiber_phy_config_def by (rule goes_bind) (use ver in \<open>simp add: goes_return\<close>)
  show ?thesis
    by (rule 1 [THEN goes_bind] 2 [THEN goes_bind] 3 [THEN goes_bind] goes_return)+
qed

text \<open>An invalid speed asks for everything the driver had advertised before, at the highest speed.\<close>

definition asked :: "u32 \<Rightarrow> u8 \<Rightarrow> u64 \<Rightarrow> 'd nic \<Rightarrow> u32 \<times> u8 \<times> u64" where
  "asked spd dplx adv t = (if \<not> rtl8125_is_speed_mode_valid spd then (2500, DUPLEX_FULL, adv OR advertising t) else (spd, dplx, adv))"

lemma link_readyD:
  assumes "link_ready io V t"
  shows "chan16_law io PHYOCP V" "rtk_enable_diag t = 0" "cur_page t = 0"
  using assms by (simp_all add: link_ready_def)

lemma goes_asked: "goes V (gets advertising) R t (advertising t) R t"
  by (rule goes_gets) (use same_priv_link in blast)

text \<open>Negotiation: the reads, the writes and the restart.\<close>

lemma goes_nego_steps:
  assumes "link_ready io V t"
  shows "goes V (do {
      v \<leftarrow> rtl8125_mdio_read io MII_ADVERTISE;
      let auto_nego = v AND NOT (0x0020 OR 0x0040 OR 0x0080 OR 0x0100 OR 0x0400 OR 0x0800);
      let auto_nego = auto_nego OR adv_auto_nego adv;
      let giga_ctrl = (ucast (R 0x5209) AND NOT (0x0100 OR 0x0200)) OR adv_giga adv;
      let ctrl_2500 = (if adv AND 0x8000 \<noteq> 0 then (ucast (R 0x52EA) AND NOT RTK_ADVERTISE_2500FULL) OR RTK_ADVERTISE_2500FULL
        else ucast (R 0x52EA) AND NOT RTK_ADVERTISE_2500FULL);
      fc \<leftarrow> gets fcpause;
      let auto_nego = (if fc = rtl8125_fc_full then auto_nego OR (0x0400 OR 0x0800) else auto_nego);
      modify (\<lambda>s. s\<lparr>phy_auto_nego_reg := auto_nego, phy_1000_ctrl_reg := giga_ctrl, phy_2500_ctrl_reg := ctrl_2500\<rparr>);
      rtl8125_mdio_write io 0x1f 0;
      rtl8125_mdio_write io MII_ADVERTISE (ucast auto_nego);
      rtl8125_mdio_write io MII_CTRL1000 (ucast giga_ctrl);
      rtl8125_mdio_direct_write_phy_ocp io 0xA5D4 (ucast ctrl_2500);
      rtl8125_phy_restart_nway io;
      State_Monad.return (0 :: int) }) R t 0
    (R(0x5204 := ucast (nego_word (fcpause t) adv (R 0x5204)), 0x5209 := ucast (giga_word adv (R 0x5209)),
       0x52EA := ucast (word_2500 adv (R 0x52EA)), 0x5200 := 0x1200)) (nego_fields adv R t)"
proof -
  note r = link_readyD [OF assms]
  have ready: "link_ready io V (nego_fields adv R t)" using assms by simp
  note r' = link_readyD [OF ready]
  let ?a = "nego_word (fcpause t) adv (R 0x5204)" and ?g = "giga_word adv (R 0x5209)" and ?c = "word_2500 adv (R 0x52EA)"
  have 1: "goes V (rtl8125_mdio_read io MII_ADVERTISE) R t (ucast (R 0x5204)) R t" using goes_mii(1) [OF r, of 4 R] by simp
  have 2: "goes V (gets fcpause) R t (fcpause t) R t" by (rule goes_gets) (use same_priv_link in blast)
  have 3: "goes V (modify (\<lambda>s. s\<lparr>phy_auto_nego_reg := ?a, phy_1000_ctrl_reg := ?g, phy_2500_ctrl_reg := ?c\<rparr>)) R t () R (nego_fields adv R t)"
    unfolding nego_fields_def
  proof (rule goes_modify)
    fix s assume "same_priv t s"
    then show "same_priv (t\<lparr>phy_auto_nego_reg := ?a, phy_1000_ctrl_reg := ?g, phy_2500_ctrl_reg := ?c\<rparr>) (s\<lparr>phy_auto_nego_reg := ?a, phy_1000_ctrl_reg := ?g, phy_2500_ctrl_reg := ?c\<rparr>)"
      by (cases s, cases t) (simp add: same_priv_def)
  qed simp
  have 5: "goes V (rtl8125_mdio_write io MII_ADVERTISE (ucast ?a)) R (nego_fields adv R t) () (R(0x5204 := ucast ?a)) (nego_fields adv R t)"
    using goes_mii(2) [OF r', of 4 "ucast ?a" R] by simp
  have 6: "goes V (rtl8125_mdio_write io MII_CTRL1000 (ucast ?g)) (R(0x5204 := ucast ?a)) (nego_fields adv R t) ()
      (R(0x5204 := ucast ?a, 0x5209 := ucast ?g)) (nego_fields adv R t)"
    using goes_mii(2) [OF r', of 9 "ucast ?g" "R(0x5204 := ucast ?a)"] by simp
  have 7: "goes V (rtl8125_mdio_direct_write_phy_ocp io 0xA5D4 (ucast ?c)) (R(0x5204 := ucast ?a, 0x5209 := ucast ?g)) (nego_fields adv R t) ()
      (R(0x5204 := ucast ?a, 0x5209 := ucast ?g, 0x52EA := ucast ?c)) (nego_fields adv R t)"
    using goes_ocp(2) [OF r'(1,2), of "0xA5D4" "ucast ?c"] by simp
  note rest = 3 [THEN goes_bind] goes_page [OF r'(2,3), THEN goes_bind] 5 [THEN goes_bind] 6 [THEN goes_bind] 7 [THEN goes_bind]
    goes_nway [OF ready, THEN goes_bind] goes_return
  have "goes V (do { modify (\<lambda>s. s\<lparr>phy_auto_nego_reg := ?a, phy_1000_ctrl_reg := ?g, phy_2500_ctrl_reg := ?c\<rparr>);
      rtl8125_mdio_write io 0x1f 0;
      rtl8125_mdio_write io MII_ADVERTISE (ucast ?a);
      rtl8125_mdio_write io MII_CTRL1000 (ucast ?g);
      rtl8125_mdio_direct_write_phy_ocp io 0xA5D4 (ucast ?c);
      rtl8125_phy_restart_nway io;
      State_Monad.return (0 :: int) }) R t 0 (R(0x5204 := ucast ?a, 0x5209 := ucast ?g, 0x52EA := ucast ?c, 0x5200 := 0x1200)) (nego_fields adv R t)"
    by (rule rest)+
  note rest = this
  show ?thesis
    unfolding Let_def nego_word_def giga_word_def word_2500_def
    by (rule goes_bind [OF 1], rule goes_bind [OF 2], rule rest [unfolded Let_def nego_word_def giga_word_def word_2500_def])
qed

lemma goes_speed_auto:
  assumes "link_ready io V t" "asked spd dplx adv t = (spd', dplx', adv')"
  shows "goes V (rtl8125_set_speed_xmii lite io AUTONEG_ENABLE spd dplx adv) R t 0 (nego_regs lite (fcpause t) adv' R)
    (option_fields AUTONEG_ENABLE spd' dplx' adv' (nego_fields adv' R t))"
proof -
  note r = link_readyD [OF assms(1)]
  let ?R = "lite_regs lite adv' R"
  have 1: "goes V (rtl8125_mdio_read io MII_CTRL1000) ?R t (ucast (?R 0x5209)) ?R t" using goes_mii(1) [OF r, of 9 ?R] by simp
  have 2: "goes V (rtl8125_mdio_direct_read_phy_ocp io 0xA5D4) ?R t (ucast (?R 0x52EA)) ?R t" using goes_ocp(1) [OF r(1,2), of "0xA5D4" ?R] by simp
  have f: "nego_fields adv' ?R t = nego_fields adv' R t" by (simp add: nego_fields_def)
  have g: "?R(0x5204 := ucast (nego_word (fcpause t) adv' (?R 0x5204)), 0x5209 := ucast (giga_word adv' (?R 0x5209)),
      0x52EA := ucast (word_2500 adv' (?R 0x52EA)), 0x5200 := 0x1200) = nego_regs lite (fcpause t) adv' R"
    by (simp add: nego_regs_def)
  note 3 = goes_nego_steps [OF assms(1), of adv' ?R, unfolded f g]
  have ready: "link_ready io V (nego_fields adv' R t)" using assms(1) by simp
  note 4 = goes_options [OF ready, where aneg = 1 and spd = spd' and dplx = dplx' and adv = adv' and R = "nego_regs lite (fcpause t) adv' R"]
  have lite: "goes V (if lite \<and> (1 :: u8) = 1 then rtl8125_enable_giga_lite io adv' else rtl8125_disable_giga_lite io) R t () ?R t"
    using goes_lite [OF assms(1), of lite adv' R] by simp
  have if0: "goes V (if (0 :: int) \<noteq> 0 then k else m) C u x C' u'" if "goes V m C u x C' u'" for k m :: "('a, int) drv" and C u x C' u'
    using that by simp
  show ?thesis
    unfolding rtl8125_set_speed_xmii_def
    by (rule goes_bind [OF goes_asked], unfold assms(2) [unfolded asked_def] prod.case Let_def, rule goes_bind [OF lite], rule goes_bind [OF 1],
        rule goes_bind [OF 2], unfold if_P [OF refl], rule goes_bind [OF 3 [unfolded Let_def]], rule if0, rule 4)
qed

text \<open>A forced mode.\<close>

definition force_regs :: "u32 \<Rightarrow> u8 \<Rightarrow> (u32 \<Rightarrow> u16) \<Rightarrow> u32 \<Rightarrow> u16" where
  "force_regs spd dplx R = (case force_bmcr spd dplx of None \<Rightarrow> R | Some b \<Rightarrow> R(0x5200 := b))"

lemma goes_force:
  assumes "link_ready io V t"
  shows "goes V (rtl8125_phy_setup_force_mode io spd dplx) R t () (force_regs spd dplx R) t"
proof -
  note r = link_readyD [OF assms]
  have u: "phy_usable io V t" using assms by (simp add: link_ready_def)
  have w: "goes V (rtl8125_mdio_write io 0 b) R t () (R(0x5200 := b)) t" for b using goes_mii(2) [OF r, of 0 b R] by simp
  have "goes V (do { rtl8125_mdio_write io 0x1F 0; rtl8125_mdio_write io 0 b }) R t () (R(0x5200 := b)) t" for b
    by (rule goes_bind [OF goes_page [OF r(2,3)] w])
  then have "goes V (case force_bmcr spd dplx of None \<Rightarrow> State_Monad.return () | Some b \<Rightarrow> do { rtl8125_mdio_write io 0x1F 0; rtl8125_mdio_write io 0 b })
      R t () (force_regs spd dplx R) t"
    by (cases "force_bmcr spd dplx") (simp_all add: force_regs_def goes_return)
  then show ?thesis
    unfolding rtl8125_phy_setup_force_mode_def by (intro goes_bind [OF goes_usable [OF u]]) simp
qed

lemma goes_speed_forced:
  assumes "link_ready io V t" "asked spd dplx adv t = (spd', dplx', adv')" "aneg \<noteq> AUTONEG_ENABLE"
  shows "goes V (rtl8125_set_speed_xmii lite io aneg spd dplx adv) R t
    (if spd' = 10 \<or> spd' = 100 then 0 else - EINVAL)
    (if spd' = 10 \<or> spd' = 100 then force_regs spd' dplx' (lite_regs False adv' R) else lite_regs False adv' R)
    (if spd' = 10 \<or> spd' = 100 then option_fields aneg spd' dplx' adv' t else t)"
proof -
  note r = link_readyD [OF assms(1)]
  let ?R = "lite_regs False adv' R" and ?ok = "spd' = 10 \<or> spd' = 100"
  let ?R2 = "if ?ok then force_regs spd' dplx' ?R else ?R" and ?rc = "if ?ok then 0 else - EINVAL"
  have 0: "goes V (if lite \<and> aneg = 1 then rtl8125_enable_giga_lite io adv' else rtl8125_disable_giga_lite io) R t () ?R t"
    using goes_lite [OF assms(1), of False adv' R] assms(3) by simp
  have 1: "goes V (rtl8125_mdio_read io MII_CTRL1000) ?R t (ucast (?R 0x5209)) ?R t" using goes_mii(1) [OF r, of 9 ?R] by simp
  have 2: "goes V (rtl8125_mdio_direct_read_phy_ocp io 0xA5D4) ?R t (ucast (?R 0x52EA)) ?R t" using goes_ocp(1) [OF r(1,2), of "0xA5D4" ?R] by simp
  have 3: "goes V (if ?ok then do { rtl8125_phy_setup_force_mode io spd' dplx'; State_Monad.return 0 } else State_Monad.return (- EINVAL)) ?R t ?rc ?R2 t"
  proof (cases ?ok)
    case True
    show ?thesis unfolding if_P [OF True] by (intro goes_bind [OF goes_force [OF assms(1)] goes_return])
  next
    case False
    show ?thesis unfolding if_not_P [OF False] by (rule goes_return)
  qed
  have 4: "goes V (if ?rc \<noteq> 0 then State_Monad.return ?rc else do { modify (\<lambda>s. s\<lparr>autoneg := aneg, speed := spd', duplex := dplx', advertising := adv'\<rparr>);
      rtl8125_set_d0_speedup_speed; rtl8125_hw_fiber_phy_config io; State_Monad.return 0 }) ?R2 t ?rc ?R2 (if ?ok then option_fields aneg spd' dplx' adv' t else t)"
    using goes_options [OF assms(1)] by (simp add: goes_return)
  show ?thesis
    unfolding rtl8125_set_speed_xmii_def
    by (rule goes_bind [OF goes_asked], unfold assms(2) [unfolded asked_def] prod.case Let_def, rule goes_bind [OF 0], rule goes_bind [OF 1],
        rule goes_bind [OF 2], unfold if_not_P [OF assms(3)], rule goes_bind [OF 3], rule 4)
qed

section \<open>What the PHY advertises\<close>

text \<open>
  The modes, each with its bit in the driver's word of modes (\<open>ADVERTISED_\<close> ...) and the PHY register, by its
  index, and bit that advertise it to the other side.
\<close>

datatype link_mode = M10Half | M10Full | M100Half | M100Full | M1000Half | M1000Full | M2500Full

fun mode_bit :: "link_mode \<Rightarrow> nat" where
  "mode_bit M10Half = 0" | "mode_bit M10Full = 1" | "mode_bit M100Half = 2" | "mode_bit M100Full = 3"
| "mode_bit M1000Half = 4" | "mode_bit M1000Full = 5" | "mode_bit M2500Full = 15"

fun mode_phy :: "link_mode \<Rightarrow> u32 \<times> nat" where
  "mode_phy M10Half = (0x5204, 5)" | "mode_phy M10Full = (0x5204, 6)" | "mode_phy M100Half = (0x5204, 7)" | "mode_phy M100Full = (0x5204, 8)"
| "mode_phy M1000Half = (0x5209, 8)" | "mode_phy M1000Full = (0x5209, 9)" | "mode_phy M2500Full = (0x52EA, 7)"

definition advertises :: "(u32 \<Rightarrow> u16) \<Rightarrow> link_mode \<Rightarrow> bool" where
  "advertises R m = bit (R (fst (mode_phy m))) (snd (mode_phy m))"

lemma adv_bits:
  fixes adv :: u64
  shows "adv AND 0x01 \<noteq> 0 \<longleftrightarrow> bit adv 0" "adv AND 0x02 \<noteq> 0 \<longleftrightarrow> bit adv 1" "adv AND 0x04 \<noteq> 0 \<longleftrightarrow> bit adv 2" "adv AND 0x08 \<noteq> 0 \<longleftrightarrow> bit adv 3"
    "adv AND 0x10 \<noteq> 0 \<longleftrightarrow> bit adv 4" "adv AND 0x20 \<noteq> 0 \<longleftrightarrow> bit adv 5" "adv AND 0x8000 \<noteq> 0 \<longleftrightarrow> bit adv 15"
  by (simp_all add: bit_iff_and_push_bit_not_eq_0)

lemma nego_word_bits:
  "bit (ucast (nego_word fc adv x) :: u16) 5 = bit adv 0" "bit (ucast (nego_word fc adv x) :: u16) 6 = bit adv 1"
  "bit (ucast (nego_word fc adv x) :: u16) 7 = bit adv 2" "bit (ucast (nego_word fc adv x) :: u16) 8 = bit adv 3"
  "bit (ucast (nego_word fc adv x) :: u16) 10 = (fc = rtl8125_fc_full)" "bit (ucast (nego_word fc adv x) :: u16) 11 = (fc = rtl8125_fc_full)"
  by (simp_all add: nego_word_def adv_auto_nego_def adv_bits Let_def bit_simps)

lemma giga_word_bits: "bit (ucast (giga_word adv x) :: u16) 8 = bit adv 4" "bit (ucast (giga_word adv x) :: u16) 9 = bit adv 5"
  by (simp_all add: giga_word_def adv_giga_def adv_bits bit_simps)

lemma word_2500_bits: "bit (ucast (word_2500 adv x) :: u16) 7 = bit adv 15"
  by (simp add: word_2500_def adv_bits Let_def bit_simps)

lemma nego_advertises: "advertises (nego_regs lite fc adv R) m = bit adv (mode_bit m)"
  by (cases m) (simp_all add: advertises_def nego_regs_def nego_word_bits giga_word_bits word_2500_bits)

text \<open>The other bits of the three registers stay.\<close>

lemma masked_rest:
  "(ucast (nego_word fc adv x) :: u16) AND NOT 0x0DE0 = x AND NOT 0x0DE0"
  "(ucast (giga_word adv x) :: u16) AND NOT 0x0300 = x AND NOT 0x0300"
  "(ucast (word_2500 adv x) :: u16) AND NOT 0x0080 = x AND NOT 0x0080"
proof -
  have u: "(ucast (ucast x :: u32) :: u16) = x" by (rule bit_word_eqI) (auto simp: bit_simps)
  have d: "(ucast (a AND b) :: u16) = ucast a AND ucast b" "(ucast (a OR b) :: u16) = ucast a OR ucast b" for a b :: u32
    by (rule bit_word_eqI; auto simp: bit_simps)+
  have m: "(4294963743 :: u16) = - 3553" "(4294966527 :: u16) = - 769" "(4294967167 :: u16) = - 129" by simp_all
  show "(ucast (nego_word fc adv x) :: u16) AND NOT 0x0DE0 = x AND NOT 0x0DE0"
    by (simp add: nego_word_def adv_auto_nego_def Let_def d u m bit.conj_disj_distrib2 and.assoc)
  show "(ucast (giga_word adv x) :: u16) AND NOT 0x0300 = x AND NOT 0x0300"
    by (simp add: giga_word_def adv_giga_def d u m bit.conj_disj_distrib2 and.assoc)
  show "(ucast (word_2500 adv x) :: u16) AND NOT 0x0080 = x AND NOT 0x0080"
    by (simp add: word_2500_def Let_def d u m bit.conj_disj_distrib2 and.assoc)
qed

text \<open>The two registers of the giga-lite option.\<close>

lemma lite_regs_bits:
  "bit (lite_regs on adv R 0x5214) 9 \<longleftrightarrow> on \<and> bit adv 5" "lite_regs on adv R 0x5214 AND NOT 0x0200 = R 0x5214 AND NOT 0x0200"
  "bit (lite_regs on adv R 0x52F5) 0 \<longleftrightarrow> on \<and> bit adv 15" "lite_regs on adv R 0x52F5 AND NOT 0x0001 = R 0x52F5 AND NOT 0x0001"
proof -
  have "(x OR m) AND NOT m = x AND NOT m" "(x AND NOT m) AND NOT m = x AND NOT m" for x m :: u16
    by (rule bit_word_eqI; auto simp: bit_simps)+
  note or = this(1) [of _ "0x0200"] this(1) [of _ "0x0001"] and an = this(2) [of _ "0x0200"] this(2) [of _ "0x0001"]
  show "lite_regs on adv R 0x5214 AND NOT 0x0200 = R 0x5214 AND NOT 0x0200"
    by (simp only: lite_regs_def Let_def fun_upd_apply or an if_distrib [of "\<lambda>x. x AND NOT 0x0200"] if_cancel) simp
  show "lite_regs on adv R 0x52F5 AND NOT 0x0001 = R 0x52F5 AND NOT 0x0001"
    by (simp only: lite_regs_def Let_def fun_upd_apply or an if_distrib [of "\<lambda>x. x AND NOT 0x0001"] if_cancel) simp
qed (simp_all add: lite_regs_def Let_def adv_bits bit_simps)

text \<open>
  Property C25.  A request to negotiate, with a valid speed, on a PHY that the board does not hold disabled: it succeeds, and
  afterwards the PHY advertises exactly the modes asked for, and pause exactly when full flow control is set; it has been
  told to start negotiating over; where the driver has the giga-lite option its two bits are set exactly for the
  modes 1000 and 2500 full duplex asked for, without it they are clear; every other bit of these registers and
  every other PHY register is as before, and the driver remembers the request.
\<close>

theorem set_speed_negotiates:
  assumes "link_ready io V s" "resume_not_chg_speed s = 0" "rtl8125_is_speed_mode_valid spd"
    and "run_state (rtl8125_set_speed lite io AUTONEG_ENABLE spd dplx adv) s = (rc, s')"
  shows "rc = 0 \<and> (\<forall>m. advertises (contents16 V s') m \<longleftrightarrow> bit adv (mode_bit m))
    \<and> (bit (contents16 V s' 0x5204) 10 \<longleftrightarrow> fcpause s = rtl8125_fc_full) \<and> (bit (contents16 V s' 0x5204) 11 \<longleftrightarrow> fcpause s = rtl8125_fc_full)
    \<and> contents16 V s' 0x5200 = 0x1200
    \<and> contents16 V s' 0x5204 AND NOT 0x0DE0 = contents16 V s 0x5204 AND NOT 0x0DE0
    \<and> contents16 V s' 0x5209 AND NOT 0x0300 = contents16 V s 0x5209 AND NOT 0x0300
    \<and> contents16 V s' 0x52EA AND NOT 0x0080 = contents16 V s 0x52EA AND NOT 0x0080
    \<and> (bit (contents16 V s' 0x5214) 9 \<longleftrightarrow> lite \<and> bit adv (mode_bit M1000Full))
    \<and> contents16 V s' 0x5214 AND NOT 0x0200 = contents16 V s 0x5214 AND NOT 0x0200
    \<and> (bit (contents16 V s' 0x52F5) 0 \<longleftrightarrow> lite \<and> bit adv (mode_bit M2500Full))
    \<and> contents16 V s' 0x52F5 AND NOT 0x0001 = contents16 V s 0x52F5 AND NOT 0x0001
    \<and> (\<forall>i. i \<notin> {0x5200, 0x5204, 0x5209, 0x52EA, 0x5214, 0x52F5} \<longrightarrow> contents16 V s' i = contents16 V s i)
    \<and> autoneg s' = AUTONEG_ENABLE \<and> speed s' = spd \<and> duplex s' = dplx \<and> advertising s' = adv"
proof -
  have run: "run_state (rtl8125_set_speed_xmii lite io 1 spd dplx adv) s = (rc, s')"
    using assms(2,4) by (simp add: rtl8125_set_speed_def)
  have "asked spd dplx adv s = (spd, dplx, adv)" using assms(3) by (simp add: asked_def)
  from goesD [OF goes_speed_auto [OF assms(1) this] run]
  have e: "rc = 0" "contents16 V s' = nego_regs lite (fcpause s) adv (contents16 V s)"
    and p: "same_priv (option_fields 1 spd dplx adv (nego_fields adv (contents16 V s) s)) s'" by auto
  have "autoneg s' = 1 \<and> speed s' = spd \<and> duplex s' = dplx \<and> advertising s' = adv"
    using same_priv_link [OF p] by (simp add: option_fields_def Let_def)
  moreover have "\<forall>m. advertises (contents16 V s') m \<longleftrightarrow> bit adv (mode_bit m)" by (simp add: e(2) nego_advertises)
  ultimately show ?thesis
    using e(1) masked_rest(1) [of "fcpause s" adv "contents16 V s 0x5204"] masked_rest(2) [of adv "contents16 V s 0x5209"]
      masked_rest(3) [of adv "contents16 V s 0x52EA"]
      lite_regs_bits [of lite adv "contents16 V s"]
    by (simp add: e(2) nego_regs_def nego_word_bits)
qed

text \<open>
  Property C26.  A request for a fixed mode is carried out only for 10 and 100 Mbit/s in half or full duplex, and then the
  control register holds exactly that mode; for the other speeds it is refused with \<open>-EINVAL\<close>, and nothing of the
  driver's options changes, though giga-lite has been switched off all the same.  At 10 or 100 with an unknown duplex the
  PHY is left alone and the request nevertheless reported as done.
\<close>

theorem set_speed_forces:
  assumes "link_ready io V s" "resume_not_chg_speed s = 0" "rtl8125_is_speed_mode_valid spd" "aneg \<noteq> AUTONEG_ENABLE"
    and "run_state (rtl8125_set_speed lite io aneg spd dplx adv) s = (rc, s')"
  shows "if spd = 10 \<or> spd = 100
    then rc = 0 \<and> autoneg s' = aneg \<and> speed s' = spd \<and> duplex s' = dplx \<and> advertising s' = adv
      \<and> contents16 V s' 0x5200 = (if dplx = DUPLEX_HALF then (if spd = 10 then 0x0000 else 0x2000)
          else if dplx = DUPLEX_FULL then (if spd = 10 then 0x0100 else 0x2100) else contents16 V s 0x5200)
    else rc = - EINVAL \<and> same_priv s s' \<and> contents16 V s' = lite_regs False adv (contents16 V s)"
proof -
  have run: "run_state (rtl8125_set_speed_xmii lite io aneg spd dplx adv) s = (rc, s')"
    using assms(2,5) by (simp add: rtl8125_set_speed_def)
  have "asked spd dplx adv s = (spd, dplx, adv)" using assms(3) by (simp add: asked_def)
  note e = goesD [OF goes_speed_forced [OF assms(1) this assms(4)] run]
  show ?thesis
  proof (cases "spd = 10 \<or> spd = 100")
    case True
    then have p: "same_priv (option_fields aneg spd dplx adv s) s'" and c: "contents16 V s' = force_regs spd dplx (lite_regs False adv (contents16 V s))"
      and rc: "rc = 0" using e by auto
    have "contents16 V s' 0x5200 = (if dplx = 0 then (if spd = 10 then 0x0000 else 0x2000)
          else if dplx = 1 then (if spd = 10 then 0x0100 else 0x2100) else contents16 V s 0x5200)"
      using True unfolding c by (auto simp: force_regs_def force_bmcr_def)
    with True rc same_priv_link [OF p] show ?thesis by (simp add: option_fields_def Let_def)
  next
    case False
    with e show ?thesis by simp
  qed
qed

section \<open>The link while the system sleeps\<close>

text \<open>What the other side can do, from its page, the 1000BASE-T status and the 2.5G status; modes in the order of their speed.\<close>

type_synonym partner = "u16 \<times> u16 \<times> u16 \<times> u16"

fun partner_has :: "partner \<Rightarrow> link_mode \<Rightarrow> bool" where
  "partner_has (aner, anlpar, gbsr, st) m = (case m of
     M10Half \<Rightarrow> bit anlpar 5 | M10Full \<Rightarrow> bit anlpar 6 | M100Half \<Rightarrow> bit anlpar 7 | M100Full \<Rightarrow> bit anlpar 8
   | M1000Half \<Rightarrow> bit gbsr 10 | M1000Full \<Rightarrow> bit gbsr 11 | M2500Full \<Rightarrow> bit st 5)"

definition all_modes :: "link_mode list" where
  "all_modes = [M10Half, M10Full, M100Half, M100Full, M1000Half, M1000Full, M2500Full]"

definition lowest_common :: "u64 \<Rightarrow> partner \<Rightarrow> link_mode option" where
  "lowest_common adv p = find (\<lambda>m. bit adv (mode_bit m) \<and> partner_has p m) all_modes"

text \<open>The three words decoded.\<close>

definition word_has :: "u32 \<times> u32 \<times> u32 \<Rightarrow> link_mode \<Rightarrow> bool" where
  "word_has w m = (case w of (a, g, c) \<Rightarrow> (case m of
     M10Half \<Rightarrow> bit a 5 | M10Full \<Rightarrow> bit a 6 | M100Half \<Rightarrow> bit a 7 | M100Full \<Rightarrow> bit a 8
   | M1000Half \<Rightarrow> bit g 8 | M1000Full \<Rightarrow> bit g 9 | M2500Full \<Rightarrow> bit c 7))"

lemma lpa_bits:
  fixes x :: u16
  shows "x AND 0x0020 \<noteq> 0 \<longleftrightarrow> bit x 5" "x AND 0x0040 \<noteq> 0 \<longleftrightarrow> bit x 6" "x AND 0x0080 \<noteq> 0 \<longleftrightarrow> bit x 7" "x AND 0x0100 \<noteq> 0 \<longleftrightarrow> bit x 8"
    "x AND 0x0400 \<noteq> 0 \<longleftrightarrow> bit x 10" "x AND 0x0800 \<noteq> 0 \<longleftrightarrow> bit x 11"
  by (simp_all add: bit_iff_and_push_bit_not_eq_0)

lemma wol_mode_lowest:
  assumes "\<And>m. \<not> word_has (a, g, c) m"
  shows "case lowest_common adv (aner, anlpar, gbsr, st) of
      None \<Rightarrow> wol_mode adv anlpar gbsr st (a, g, c) = None
    | Some m0 \<Rightarrow> \<exists>w. wol_mode adv anlpar gbsr st (a, g, c) = Some w \<and> (\<forall>m. word_has w m \<longleftrightarrow> m = m0)"
proof -
  have n: "\<not> bit a 5" "\<not> bit a 6" "\<not> bit a 7" "\<not> bit a 8" "\<not> bit g 8" "\<not> bit g 9" "\<not> bit c 7"
    using assms [of M10Half] assms [of M10Full] assms [of M100Half] assms [of M100Full] assms [of M1000Half] assms [of M1000Full] assms [of M2500Full]
    by (simp_all add: word_has_def)
  have o: "word_has (a OR 0x20, g, c) m = (m = M10Half)" "word_has (a OR 0x40, g, c) m = (m = M10Full)"
    "word_has (a OR 0x80, g, c) m = (m = M100Half)" "word_has (a OR 0x100, g, c) m = (m = M100Full)"
    "word_has (a, g OR 0x100, c) m = (m = M1000Half)" "word_has (a, g OR 0x200, c) m = (m = M1000Full)"
    "word_has (a, g, c OR 0x80) m = (m = M2500Full)" for m
    using n by (cases m; simp add: word_has_def bit_simps)+
  show ?thesis
    by (simp add: lowest_common_def all_modes_def wol_mode_def adv_bits lpa_bits o)
qed

definition wol_regs :: "(u32 \<times> u32 \<times> u32) option \<Rightarrow> (u32 \<Rightarrow> u16) \<Rightarrow> u32 \<Rightarrow> u16" where
  "wol_regs w R = (case w of None \<Rightarrow> R
     | Some (a, g, c) \<Rightarrow> (lite_regs False 0 (R(0x5204 := ucast a, 0x5209 := ucast g, 0x52EA := ucast c)))(0x5200 := 0x1200))"

definition wol_words :: "(u32 \<Rightarrow> u16) \<Rightarrow> u32 \<times> u32 \<times> u32" where
  "wol_words R = (ucast (R 0x5204) AND NOT (0x0020 OR 0x0040 OR 0x0080 OR 0x0100), ucast (R 0x5209) AND NOT (0x0100 OR 0x0200),
     ucast (R 0x52EA) AND NOT RTK_ADVERTISE_2500FULL)"

text \<open>The choice made and carried out.\<close>

lemma goes_wol_choice:
  assumes "link_ready io V t" "DASH t = 0"
  shows "\<exists>x. goes V (case w of None \<Rightarrow> State_Monad.return dflt
      | Some (auto_nego, giga_ctrl, ctrl_2500) \<Rightarrow> do {
          let auto_nego = (if DASH t \<noteq> 0 then auto_nego OR (0x0100 OR 0x0080 OR 0x0020 OR 0x0040) else auto_nego);
          rtl8125_mdio_write io MII_ADVERTISE (ucast auto_nego);
          rtl8125_mdio_write io MII_CTRL1000 (ucast giga_ctrl);
          rtl8125_mdio_direct_write_phy_ocp io 0xA5D4 (ucast ctrl_2500);
          rtl8125_disable_giga_lite io;
          rtl8125_phy_restart_nway io;
          State_Monad.return auto_nego
        }) R t x (wol_regs w R) t"
proof (cases w)
  case None
  then show ?thesis by (auto simp: wol_regs_def intro: goes_return)
next
  case (Some y)
  obtain a g c where y: "y = (a, g, c)" by (cases y)
  note r = link_readyD [OF assms(1)]
  let ?R1 = "R(0x5204 := ucast a)" and ?R2 = "R(0x5204 := ucast a, 0x5209 := ucast g)" and ?R3 = "R(0x5204 := ucast a, 0x5209 := ucast g, 0x52EA := ucast c)"
  have 1: "goes V (rtl8125_mdio_write io MII_ADVERTISE (ucast a)) R t () ?R1 t" using goes_mii(2) [OF r, of 4 "ucast a" R] by simp
  have 2: "goes V (rtl8125_mdio_write io MII_CTRL1000 (ucast g)) ?R1 t () ?R2 t" using goes_mii(2) [OF r, of 9 "ucast g" ?R1] by simp
  have 3: "goes V (rtl8125_mdio_direct_write_phy_ocp io 0xA5D4 (ucast c)) ?R2 t () ?R3 t" using goes_ocp(2) [OF r(1,2), of "0xA5D4" "ucast c" ?R2] by simp
  have 4: "goes V (rtl8125_disable_giga_lite io) ?R3 t () (lite_regs False 0 ?R3) t" using goes_lite [OF assms(1), of False 0 ?R3] by simp
  have "goes V (do { rtl8125_mdio_write io MII_ADVERTISE (ucast a); rtl8125_mdio_write io MII_CTRL1000 (ucast g);
      rtl8125_mdio_direct_write_phy_ocp io 0xA5D4 (ucast c); rtl8125_disable_giga_lite io; rtl8125_phy_restart_nway io; State_Monad.return a })
      R t a ((lite_regs False 0 ?R3)(0x5200 := 0x1200)) t"
    by (rule 1 [THEN goes_bind] 2 [THEN goes_bind] 3 [THEN goes_bind] 4 [THEN goes_bind] goes_nway [OF assms(1), THEN goes_bind] goes_return)+
  then show ?thesis using assms(2) by (auto simp: Some y wol_regs_def)
qed

text \<open>A link whose state register shows \<open>st\<close> throughout; asking for it disturbs no PHY register.\<close>

definition status_shows :: "'d mmio \<Rightarrow> 'd view \<Rightarrow> u32 \<Rightarrow> bool" where
  "status_shows io V st \<longleftrightarrow> (\<forall>d. fst (readl io d PHYstatus) = st \<and> vregs V (snd (readl io d PHYstatus)) = vregs V d)"

definition link_up :: "u32 \<Rightarrow> bool" where
  "link_up st \<longleftrightarrow> st \<noteq> 0xffffffff \<and> bit st 1"

lemma goes_link_ok:
  assumes "status_shows io V st" "HwFiberModeVer t = 0"
  shows "goes V (rtl8125_xmii_link_ok io) R t (if link_up st then 1 else 0) R t"
  unfolding goes_def
proof (rule valid_runI)
  fix s x s'
  assume s: "phy_at V R t s" and run: "run_state (rtl8125_xmii_link_ok io) s = (x, s')"
  have "HwFiberModeVer s = 0" using s assms(2) same_priv_link [of t s] by (simp add: phy_at_def)
  moreover have "v AND 2 \<noteq> 0 \<longleftrightarrow> bit v 1" for v :: u32 by (simp add: bit_iff_and_push_bit_not_eq_0)
  ultimately show "x = (if link_up st then 1 else 0) \<and> phy_at V R t s'"
    using s run assms(1)
    by (auto simp: rtl8125_xmii_link_ok_def xmii_link_ok_def rtl8125_get_phy_status_def RTL_R32_def phy_at_def contents16_def status_shows_def
        link_up_def fun_eq_iff split_beta)
qed

lemma same_priv_dash: "same_priv t s \<Longrightarrow> DASH s = DASH t"
  by (cases s, cases t) (simp add: same_priv_def)

lemma goes_stored:
  "goes V (gets (\<lambda>s. (phy_reg_aner s, phy_reg_anlpar s, phy_reg_gbsr s, phy_reg_status_2500 s))) R t
      (phy_reg_aner t, phy_reg_anlpar t, phy_reg_gbsr t, phy_reg_status_2500 t) R t"
proof (rule goes_gets)
  fix s assume "same_priv t s"
  then show "(phy_reg_aner s, phy_reg_anlpar s, phy_reg_gbsr s, phy_reg_status_2500 s) = (phy_reg_aner t, phy_reg_anlpar t, phy_reg_gbsr t, phy_reg_status_2500 t)"
    by (cases s, cases t) (simp add: same_priv_def)
qed

lemma goes_partner:
  assumes "chan16_law io PHYOCP V" "rtk_enable_diag t = 0" "cur_page t = 0"
  shows "goes V (do {
      aner \<leftarrow> rtl8125_mdio_read io MII_EXPANSION;
      anlpar \<leftarrow> rtl8125_mdio_read io MII_LPA;
      gbsr \<leftarrow> rtl8125_mdio_read io MII_STAT1000;
      st \<leftarrow> rtl8125_mdio_direct_read_phy_ocp io 0xA5D6;
      State_Monad.return (ucast aner :: u16, ucast anlpar :: u16, ucast gbsr :: u16, ucast st :: u16)
    }) R t (R 0x5206, R 0x5205, R 0x520A, R 0x52EB) R t"
proof -
  have u: "(ucast (ucast x :: u32) :: u16) = x" for x :: u16 by (rule bit_word_eqI) (auto simp: bit_simps)
  have 1: "goes V (rtl8125_mdio_read io MII_EXPANSION) R t (ucast (R 0x5206)) R t" using goes_mii(1) [OF assms, of 6 R] by simp
  have 2: "goes V (rtl8125_mdio_read io MII_LPA) R t (ucast (R 0x5205)) R t" using goes_mii(1) [OF assms, of 5 R] by simp
  have 3: "goes V (rtl8125_mdio_read io MII_STAT1000) R t (ucast (R 0x520A)) R t" using goes_mii(1) [OF assms, of 10 R] by simp
  have 4: "goes V (rtl8125_mdio_direct_read_phy_ocp io 0xA5D6) R t (ucast (R 0x52EB)) R t" using goes_ocp(1) [OF assms(1,2), of "0xA5D6" R] by simp
  have 5: "goes V (State_Monad.return (ucast (ucast (R 0x5206) :: u32) :: u16, ucast (ucast (R 0x5205) :: u32) :: u16, ucast (ucast (R 0x520A) :: u32) :: u16, ucast (ucast (R 0x52EB) :: u32) :: u16))
      R t (R 0x5206, R 0x5205, R 0x520A, R 0x52EB) R t"
    unfolding u by (rule goes_return)
  show ?thesis by (rule 1 [THEN goes_bind] 2 [THEN goes_bind] 3 [THEN goes_bind] 4 [THEN goes_bind] 5)+
qed

text \<open>What the driver goes by: the other side's words now when the link is up, and the ones it has kept when not.\<close>

definition wol_partner :: "(u32 \<Rightarrow> u16) \<Rightarrow> u32 \<Rightarrow> 'd nic \<Rightarrow> partner" where
  "wol_partner R st t = (if link_up st then (R 0x5206, R 0x5205, R 0x520A, R 0x52EB)
     else (phy_reg_aner t, phy_reg_anlpar t, phy_reg_gbsr t, phy_reg_status_2500 t))"

definition wol_target :: "(u32 \<Rightarrow> u16) \<Rightarrow> u32 \<Rightarrow> 'd nic \<Rightarrow> (u32 \<times> u32 \<times> u32) option" where
  "wol_target R st t = (case wol_partner R st t of (aner, anlpar, gbsr, st2500) \<Rightarrow>
     wol_choose (advertising t) aner anlpar gbsr st2500 (wol_words R))"

lemma wol_speed_run:
  assumes "link_ready io V t" "DASH t = 0" "status_shows io V st" "HwFiberModeVer t = 0" "autoneg t = AUTONEG_ENABLE"
  shows "\<exists>x. goes V (rtl8125_set_wol_link_speed io) R t x (wol_regs (wol_target R st t) R) t"
proof -
  note r = link_readyD [OF assms(1)]
  obtain aner anlpar gbsr st2 where p: "wol_partner R st t = (aner, anlpar, gbsr, st2)" by (cases "wol_partner R st t")
  have get: "goes V (if (if link_up st then 1 else 0) \<noteq> (0 :: u32) then do {
           aner \<leftarrow> rtl8125_mdio_read io MII_EXPANSION;
           anlpar \<leftarrow> rtl8125_mdio_read io MII_LPA;
           gbsr \<leftarrow> rtl8125_mdio_read io MII_STAT1000;
           st \<leftarrow> rtl8125_mdio_direct_read_phy_ocp io 0xA5D6;
           State_Monad.return (ucast aner :: u16, ucast anlpar :: u16, ucast gbsr :: u16, ucast st :: u16)
         }
         else gets (\<lambda>s. (phy_reg_aner s, phy_reg_anlpar s, phy_reg_gbsr s, phy_reg_status_2500 s))) R t (aner, anlpar, gbsr, st2) R t"
    using goes_partner [OF r, of R] goes_stored [of V R t] p by (cases "link_up st") (simp_all add: wol_partner_def)
  note c = goes_wol_choice [OF assms(1,2), where w = "wol_target R st t" and dflt = "fst (wol_words R)" and R = R]
  have w: "wol_target R st t = wol_choose (advertising t) aner anlpar gbsr st2 (wol_words R)" by (simp add: wol_target_def p)
  from c obtain x where x: "goes V (case wol_choose (advertising t) aner anlpar gbsr st2 (wol_words R) of None \<Rightarrow> State_Monad.return (fst (wol_words R))
      | Some (auto_nego, giga_ctrl, ctrl_2500) \<Rightarrow> do {
          let auto_nego = (if DASH t \<noteq> 0 then auto_nego OR (0x0100 OR 0x0080 OR 0x0020 OR 0x0040) else auto_nego);
          rtl8125_mdio_write io MII_ADVERTISE (ucast auto_nego);
          rtl8125_mdio_write io MII_CTRL1000 (ucast giga_ctrl);
          rtl8125_mdio_direct_write_phy_ocp io 0xA5D4 (ucast ctrl_2500);
          rtl8125_disable_giga_lite io;
          rtl8125_phy_restart_nway io;
          State_Monad.return auto_nego }) R t x (wol_regs (wol_choose (advertising t) aner anlpar gbsr st2 (wol_words R)) R) t"
    unfolding w by (elim exE) (rule that)
  have dash: "goes V (gets DASH) R t (DASH t) R t" by (rule goes_gets) (rule same_priv_dash)
  have an: "goes V (gets autoneg) R t (autoneg t) R t" by (rule goes_gets) (use same_priv_link in blast)
  have 4: "goes V (rtl8125_mdio_read io MII_ADVERTISE) R t (ucast (R 0x5204)) R t" using goes_mii(1) [OF r, of 4 R] by simp
  have 9: "goes V (rtl8125_mdio_read io MII_CTRL1000) R t (ucast (R 0x5209)) R t" using goes_mii(1) [OF r, of 9 R] by simp
  have ocp: "goes V (rtl8125_mdio_direct_read_phy_ocp io 0xA5D4) R t (ucast (R 0x52EA)) R t" using goes_ocp(1) [OF r(1,2), of "0xA5D4" R] by simp
  have "goes V (rtl8125_set_wol_link_speed io) R t x (wol_regs (wol_target R st t) R) t"
    unfolding w wol_words_def rtl8125_set_wol_link_speed_def
    by (rule goes_bind [OF an], unfold assms(5) simp_thms if_False Let_def, rule goes_bind [OF goes_page [OF r(2,3)]],
        rule goes_bind [OF 4], rule goes_bind [OF 9], rule goes_bind [OF ocp], rule goes_bind [OF goes_link_ok [OF assms(3,4)]],
        rule goes_bind [OF get], unfold prod.case, rule goes_bind [OF goes_asked], rule goes_bind [OF dash],
        rule x [unfolded wol_words_def fst_conv Let_def])
  then show ?thesis by (rule exI)
qed

lemma wol_advertises: "advertises (wol_regs (Some w) R) m = word_has w m"
  by (cases w; cases m) (simp_all add: advertises_def wol_regs_def lite_regs_def word_has_def bit_simps)

lemma wol_words_clear: "\<not> word_has (wol_words R) m"
  by (cases m) (simp_all add: word_has_def wol_words_def bit_simps)

definition slow_mode :: "link_mode \<Rightarrow> bool" where
  "slow_mode m \<longleftrightarrow> m \<in> {M10Half, M10Full, M100Half, M100Full}"

definition partner_silent :: "partner \<Rightarrow> bool" where
  "partner_silent p \<longleftrightarrow> p = (0, 0, 0, 0)"

lemma adv_auto_nego_0: "adv_auto_nego adv = 0 \<longleftrightarrow> (\<forall>m. slow_mode m \<longrightarrow> \<not> bit adv (mode_bit m))"
  by (simp add: adv_auto_nego_def adv_bits slow_mode_def) blast

lemma slow_words:
  assumes "wol_words R = (a, g, c)"
  shows "word_has (a OR adv_auto_nego adv, g, c) m \<longleftrightarrow> slow_mode m \<and> bit adv (mode_bit m)"
  using wol_words_clear [of R m] unfolding assms
  by (cases m) (simp_all add: word_has_def slow_mode_def adv_auto_nego_def adv_bits bit_simps)

text \<open>
  Property C27.  Before the system sleeps, with the link negotiated and management off, the driver lowers the link to the slowest mode that both
  sides have, going by what the other side says now, or by what it said last when the link is down: that mode alone is
  advertised and negotiation starts over.  When the other side has never said anything, exactly the 10 and 100 Mbit/s
  modes of the driver's own are advertised; when it does not negotiate or shares no mode, no PHY register changes.
\<close>

theorem wol_speed_lowest:
  assumes "link_ready io V s" "DASH s = 0" "status_shows io V st" "HwFiberModeVer s = 0" "autoneg s = AUTONEG_ENABLE"
    and "run_state (rtl8125_set_wol_link_speed io) s = (x, s')" "wol_partner (contents16 V s) st s = p"
  shows "if partner_silent p \<and> (\<exists>m. slow_mode m \<and> bit (advertising s) (mode_bit m))
    then contents16 V s' 0x5200 = 0x1200 \<and> (\<forall>m. advertises (contents16 V s') m \<longleftrightarrow> slow_mode m \<and> bit (advertising s) (mode_bit m))
    else if partner_silent p \<or> \<not> bit (fst p) 0 then contents16 V s' = contents16 V s
    else case lowest_common (advertising s) p of
        None \<Rightarrow> contents16 V s' = contents16 V s
      | Some m0 \<Rightarrow> contents16 V s' 0x5200 = 0x1200 \<and> (\<forall>m. advertises (contents16 V s') m \<longleftrightarrow> m = m0)"
proof -
  let ?R = "contents16 V s" and ?adv = "advertising s"
  obtain aner anlpar gbsr st2 where p: "p = (aner, anlpar, gbsr, st2)" by (cases p)
  obtain a g c where w: "wol_words ?R = (a, g, c)" by (cases "wol_words ?R")
  from wol_speed_run [OF assms(1-5), of ?R] obtain y where "goes V (rtl8125_set_wol_link_speed io) ?R s y (wol_regs (wol_target ?R st s) ?R) s" ..
  from goesD [OF this assms(6)] have e: "contents16 V s' = wol_regs (wol_target ?R st s) ?R" by simp
  have t: "wol_target ?R st s = wol_choose ?adv aner anlpar gbsr st2 (a, g, c)" by (simp add: wol_target_def assms(7) p w)
  have b: "v AND 1 = 0 \<longleftrightarrow> \<not> bit v 0" for v :: u16 by (simp add: bit_iff_and_push_bit_not_eq_0)
  have z: "aner OR anlpar OR gbsr OR st2 = 0 \<longleftrightarrow> partner_silent p" by (simp add: p partner_silent_def or_eq_0_iff)
  have none: "contents16 V s' = ?R" if "wol_target ?R st s = None" using e that by (simp add: wol_regs_def)
  have some: "contents16 V s' 0x5200 = 0x1200 \<and> advertises (contents16 V s') m = word_has v m" if "wol_target ?R st s = Some v" for v m
    unfolding e that wol_advertises by (cases v) (simp add: wol_regs_def)
  note low = wol_mode_lowest [where adv = ?adv and aner = aner and anlpar = anlpar and gbsr = gbsr and st = st2, OF wol_words_clear [of ?R, unfolded w]]
  show ?thesis
  proof (cases "partner_silent p")
    case True
    then show ?thesis
      using none some [of "(a OR adv_auto_nego ?adv, g, c)"] slow_words [OF w, of ?adv] t z adv_auto_nego_0 [of ?adv]
      by (auto simp: wol_choose_def)
  next
    case False
    then have "wol_target ?R st s = (if \<not> bit aner 0 then None else wol_mode ?adv anlpar gbsr st2 (a, g, c))"
      unfolding t wol_choose_def z b by simp
    with False none some low show ?thesis by (auto simp: p split: option.splits)
  qed
qed

section \<open>Options and requests\<close>

text \<open>The options stay within what the chip can do, and 2.5 Gbit/s is advertised exactly when it is the speed.\<close>

lemma link_option_wf:
  assumes "rtl8125_is_speed_mode_valid (HwSuppMaxPhyLinkSpeed s)" "run_state (rtl8125_set_link_option aneg spd dplx fc) s = (u, s')"
  shows "rtl8125_is_speed_mode_valid (speed s') \<and> speed s' \<le> HwSuppMaxPhyLinkSpeed s' \<and> rtl8125_is_duplex_mode_valid (duplex s')
    \<and> (autoneg s' = AUTONEG_ENABLE \<or> autoneg s' = AUTONEG_DISABLE) \<and> fcpause s' = fc
    \<and> (bit (advertising s') (mode_bit M2500Full) \<longleftrightarrow> speed s' = 2500) \<and> (\<forall>m. m \<noteq> M2500Full \<longrightarrow> bit (advertising s') (mode_bit m))"
proof -
  have n8: "unat (ucast aneg :: u32) = unat aneg" using unsigned_less [where 'a = nat, of aneg] by (simp add: unsigned_ucast_eq take_bit_nat_eq_self)
  have u: "(ucast aneg :: u32) = 1 \<longleftrightarrow> aneg = 1" "(ucast aneg :: u32) = 0 \<longleftrightarrow> aneg = 0"
    using n8 by (simp_all add: word_unat_eq_iff)
  define sp where "sp = min (if rtl8125_is_speed_mode_valid spd then spd else 2500) (HwSuppMaxPhyLinkSpeed s)"
  define du where "du = (if rtl8125_is_duplex_mode_valid dplx then dplx else DUPLEX_FULL)"
  define an where "an = (if aneg = 1 \<or> aneg = 0 then aneg else AUTONEG_ENABLE)"
  define ad :: u64 where "ad = (if sp = 2500 then 0x8000 else 0) OR (0x01 OR 0x02 OR 0x04 OR 0x08 OR 0x10 OR 0x20)"
  have s': "s' = s\<lparr>autoneg := an, speed := sp, duplex := du, advertising := ad, fcpause := fc\<rparr>"
    using assms(2) unfolding rtl8125_set_link_option_def Let_def rtl8125_is_autoneg_mode_valid_def u sp_def du_def an_def ad_def by simp
  have "rtl8125_is_speed_mode_valid sp" "sp \<le> HwSuppMaxPhyLinkSpeed s"
    using assms(1) by (auto simp: sp_def min_def rtl8125_is_speed_mode_valid_def)
  moreover have "rtl8125_is_duplex_mode_valid du" "an = 1 \<or> an = 0" by (auto simp: du_def an_def rtl8125_is_duplex_mode_valid_def)
  moreover have "bit ad (mode_bit M2500Full) \<longleftrightarrow> sp = 2500" by (simp add: ad_def)
  moreover have "bit ad (mode_bit m)" if "m \<noteq> M2500Full" for m using that by (cases m) (simp_all add: ad_def)
  ultimately show ?thesis by (simp add: s')
qed

text \<open>A request for a mode that the interface does not have is refused before anything is touched.\<close>

lemma set_settings_refuses:
  assumes "ks_advertising_2500 cmd \<and> \<not> ks_supported_2500 cmd \<and> \<not> bit (ks_supported cmd) 15 \<or> (\<exists>n. n \<noteq> 15 \<and> bit (ks_advertising cmd) n \<and> \<not> bit (ks_supported cmd) n)"
  shows "run_state (rtl8125_set_settings lite io cmd) s = (- EINVAL, s)"
proof -
  define sup where "sup = (ucast (ks_supported cmd) :: u64) OR (if ks_supported_2500 cmd then 0x8000 else 0)"
  define adv where "adv = (ucast (ks_advertising cmd) :: u64) OR (if ks_advertising_2500 cmd then 0x8000 else 0)"
  have x: "bit (0x8000 :: u64) n \<longleftrightarrow> n = 15" for n using bit_exp_iff [where 'a = u64, of 15 n] by auto
  obtain n where "bit adv n" "\<not> bit sup n"
  proof (cases "\<exists>n. n \<noteq> 15 \<and> bit (ks_advertising cmd) n \<and> \<not> bit (ks_supported cmd) n")
    case True
    then obtain n where n: "n \<noteq> 15" "bit (ks_advertising cmd) n" "\<not> bit (ks_supported cmd) n" by blast
    moreover have "n < 64" using bit_imp_le_length [OF n(2)] by simp
    ultimately show ?thesis by (intro that [of n]) (simp_all add: adv_def sup_def bit_or_iff bit_ucast_iff x del: bit_numeral_word_iff)
  next
    case False
    with assms show ?thesis by (intro that [of 15]) (simp_all add: adv_def sup_def bit_or_iff bit_ucast_iff x del: bit_numeral_word_iff)
  qed
  moreover have "n < 64" if "bit adv n" for n using bit_imp_le_length [OF that] by simp
  ultimately have "bit (adv AND NOT sup) n" by (simp add: bit_and_iff bit_not_iff)
  then have "adv AND NOT sup \<noteq> 0" by (metis bit_0_eq bot_apply bot_bool_def)
  then show ?thesis by (simp add: rtl8125_set_settings_def Let_def adv_def sup_def)
qed

text \<open>Pause is all or nothing: what is read back after a request has both directions on or both off.\<close>

lemma set_speed_keeps_pause:
  assumes "link_ready io V s" "run_state (rtl8125_set_speed lite io aneg spd dplx adv) s = (rc, s')"
  shows "fcpause s' = fcpause s"
proof (cases "resume_not_chg_speed s = 0")
  case False
  then show ?thesis using assms(2) by (simp add: rtl8125_set_speed_def)
next
  case True
  obtain spd' dplx' adv' where a: "asked spd dplx adv s = (spd', dplx', adv')" by (cases "asked spd dplx adv s")
  have run: "run_state (rtl8125_set_speed_xmii lite io aneg spd dplx adv) s = (rc, s')" using True assms(2) by (simp add: rtl8125_set_speed_def)
  show ?thesis
  proof (cases "aneg = 1")
    case True
    with run goesD [OF goes_speed_auto [OF assms(1) a]] have "same_priv (option_fields 1 spd' dplx' adv' (nego_fields adv' (contents16 V s) s)) s'" by blast
    from same_priv_link [OF this] show ?thesis by (simp add: option_fields_def nego_fields_def Let_def)
  next
    case False
    from goesD [OF goes_speed_forced [OF assms(1) a False] run]
    have "same_priv (if spd' = 10 \<or> spd' = 100 then option_fields aneg spd' dplx' adv' s else s) s'" by simp
    from same_priv_link [OF this] show ?thesis by (simp add: option_fields_def Let_def split: if_splits)
  qed
qed

lemma pause_roundtrip:
  assumes "link_ready io V s" "run_state (do { rtl8125_set_pauseparam lite io p; rtl8125_get_pauseparam q }) s = (p', s')"
    "rx_pause q = 0" "tx_pause q = 0"
  shows "rx_pause p' = tx_pause p' \<and> (rx_pause p' \<noteq> 0 \<longleftrightarrow> rx_pause p \<noteq> 0 \<or> tx_pause p \<noteq> 0)"
proof -
  let ?fc = "if tx_pause p \<noteq> 0 \<or> rx_pause p \<noteq> 0 then rtl8125_fc_full else rtl8125_fc_none"
  have "link_ready io V (s\<lparr>fcpause := ?fc\<rparr>)" using assms(1) by (simp add: link_ready_def phy_usable_def)
  moreover have fc: "fcpause (s\<lparr>fcpause := ?fc\<rparr>) = ?fc" by simp
  ultimately have k: "fcpause (snd (run_state (rtl8125_set_speed lite io a b c d) (s\<lparr>fcpause := ?fc\<rparr>))) = ?fc" for a b c d
    using set_speed_keeps_pause [OF _ surjective_pairing, of io V "s\<lparr>fcpause := ?fc\<rparr>" lite a b c d] by (simp only:)
  have "fcpause (snd (run_state (rtl8125_set_pauseparam lite io p) s)) = ?fc"
    using k [of "autoneg s" "speed s" "duplex s" "advertising s"] unfolding rtl8125_set_pauseparam_def Let_def
    by (cases "fcpause s = ?fc") (simp_all add: split_beta)
  with assms(2-4) show ?thesis by (auto simp: rtl8125_get_pauseparam_def Let_def split_beta split: if_splits)
qed

section \<open>A board and a link\<close>

text \<open>The board of \<^const>\<open>board16\<close> with the link up; the other side offers 100 Mbit/s in full duplex and 1 Gbit/s.\<close>

definition link_board :: "(nat \<Rightarrow> chip) mmio" where
  "link_board = board16\<lparr>readl := (\<lambda>d r. if r = PHYstatus then (2, d) else readl board16 d r)\<rparr>"

definition link_nic :: "(nat \<Rightarrow> chip) nic" where
  "link_nic = demo_nic (\<lambda>_. idle_chip\<lparr>c_regs := (\<lambda>_. 0x1234)(0x5206 := 1, 0x5205 := 0x0100, 0x520A := 0x0800, 0x52EB := 0)\<rparr>)"

lemma link_board_lawful: "chan16_law link_board PHYOCP (view_at PHYOCP)"
  by (simp add: link_board_def chan16_law_def ar_law_def vsame_def board16_def view_at_def chip_show_def chip_tick_def chip_cmd16_def
      Let_def flag_flip flag_or low_or R8125_CHANNEL_WAIT_COUNT_def)

lemma link_board_status: "status_shows link_board (view_at PHYOCP) 2"
  by (simp add: status_shows_def link_board_def)

lemma link_nic_ready: "link_ready link_board (view_at PHYOCP) link_nic"
  using link_board_lawful by (simp add: link_ready_def phy_usable_def link_nic_def demo_nic_def link_board_def board16_def)

theorem set_speed_negotiates_witness:
  "\<exists>s'. run_state (rtl8125_set_speed True link_board AUTONEG_ENABLE 1000 DUPLEX_FULL 0x20) link_nic = (0, s')
     \<and> (\<forall>m. advertises (contents16 (view_at PHYOCP) s') m \<longleftrightarrow> m = M1000Full) \<and> contents16 (view_at PHYOCP) s' 0x5200 = 0x1200 \<and> speed s' = 1000"
proof -
  obtain rc s' where run: "run_state (rtl8125_set_speed True link_board AUTONEG_ENABLE 1000 DUPLEX_FULL 0x20) link_nic = (rc, s')"
    by (cases "run_state (rtl8125_set_speed True link_board AUTONEG_ENABLE 1000 DUPLEX_FULL 0x20) link_nic")
  have n: "resume_not_chg_speed link_nic = 0" by (simp add: link_nic_def demo_nic_def)
  note e = set_speed_negotiates [OF link_nic_ready n _ run]
  have "bit (0x20 :: u64) (mode_bit m) \<longleftrightarrow> m = M1000Full" for m by (cases m) simp_all
  with e run show ?thesis by (simp add: rtl8125_is_speed_mode_valid_def)
qed

theorem set_speed_forces_witness:
  "\<exists>s'. run_state (rtl8125_set_speed True link_board AUTONEG_DISABLE 100 DUPLEX_FULL 0x08) link_nic = (0, s')
     \<and> contents16 (view_at PHYOCP) s' 0x5200 = 0x2100
     \<and> fst (run_state (rtl8125_set_speed True link_board AUTONEG_DISABLE 2500 DUPLEX_FULL 0x08) link_nic) = - EINVAL"
proof -
  obtain rc s' where run: "run_state (rtl8125_set_speed True link_board AUTONEG_DISABLE 100 DUPLEX_FULL 0x08) link_nic = (rc, s')"
    by (cases "run_state (rtl8125_set_speed True link_board AUTONEG_DISABLE 100 DUPLEX_FULL 0x08) link_nic")
  obtain rc2 s2 where run2: "run_state (rtl8125_set_speed True link_board AUTONEG_DISABLE 2500 DUPLEX_FULL 0x08) link_nic = (rc2, s2)"
    by (cases "run_state (rtl8125_set_speed True link_board AUTONEG_DISABLE 2500 DUPLEX_FULL 0x08) link_nic")
  have n: "resume_not_chg_speed link_nic = 0" by (simp add: link_nic_def demo_nic_def)
  from set_speed_forces [OF link_nic_ready n _ _ run] set_speed_forces [OF link_nic_ready n _ _ run2] run run2 show ?thesis
    by (simp add: rtl8125_is_speed_mode_valid_def)
qed

theorem wol_speed_lowest_witness:
  "\<exists>s'. snd (run_state (rtl8125_set_wol_link_speed link_board) link_nic) = s'
     \<and> contents16 (view_at PHYOCP) s' 0x5200 = 0x1200 \<and> (\<forall>m. advertises (contents16 (view_at PHYOCP) s') m \<longleftrightarrow> m = M100Full)"
proof -
  obtain x s' where run: "run_state (rtl8125_set_wol_link_speed link_board) link_nic = (x, s')"
    by (cases "run_state (rtl8125_set_wol_link_speed link_board) link_nic")
  have n: "DASH link_nic = 0" "HwFiberModeVer link_nic = 0" "autoneg link_nic = 1" "advertising link_nic = 0x803f"
    by (simp_all add: link_nic_def demo_nic_def)
  have p: "wol_partner (contents16 (view_at PHYOCP) link_nic) 2 link_nic = (1, 0x0100, 0x0800, 0)"
    by (simp add: wol_partner_def link_up_def link_nic_def demo_nic_def contents16_def view_at_def)
  have low: "lowest_common (advertising link_nic) (1, 0x0100, 0x0800, 0) = Some M100Full"
    by (simp add: n lowest_common_def all_modes_def)
  from wol_speed_lowest [OF link_nic_ready n(1) link_board_status n(2,3) run p] low run show ?thesis
    by (simp add: partner_silent_def)
qed

end
