(* ===== verification/StorageCtx.thy ===== *)
theory StorageCtx
  imports Prelude
begin

text \<open>
  The storage helper, \<open>Buildroot/package/rootpxe-storage-io/src\<close>, is a small privileged process
  that reads and writes one image directory of a NAS share on the orders of a controller.  This
  theory holds what its \<open>storage_context.c\<close> computes without the kernel: the typed access to JSON
  objects (\<open>rx_string\<close>, \<open>rx_u64\<close>, \<open>rx_sequence\<close>), the syntax checks (\<open>rx_hex\<close>, \<open>rx_relative\<close>) and
  the checks that \<open>rx_load_context\<close> makes of the task description.  A C string is a \<open>string\<close> without
  NUL, a null pointer is \<open>None\<close>; a JSON value is the datatype \<open>json\<close>, whose strings may hold NUL.
\<close>

section \<open>JSON values\<close>

datatype json = JNull | JBool bool | JInt int | JDouble string | JString string
  | JArray "json list" | JObject "(string \<times> json) list"

definition json_object_object_get_ex :: "json \<Rightarrow> string \<Rightarrow> json option" where
  "json_object_object_get_ex j key = (case j of JObject kvs \<Rightarrow> map_of kvs key | _ \<Rightarrow> None)"

definition is_object :: "json \<Rightarrow> bool" where
  "is_object j = (case j of JObject _ \<Rightarrow> True | _ \<Rightarrow> False)"

text \<open>The text of an integer, as \<open>json_object_get_string\<close> gives it.\<close>

definition int_text :: "int \<Rightarrow> string" where
  "int_text i = (if i < 0 then CHR ''-'' # dec (nat (- i)) else dec (nat i))"

definition strlen :: "string \<Rightarrow> nat" where
  "strlen s = length (takeWhile (\<lambda>c. c \<noteq> CHR 0x00) s)"

definition rx_string :: "json \<Rightarrow> string \<Rightarrow> nat \<Rightarrow> string option" where
  "rx_string j key max_len =
     (case json_object_object_get_ex j key of
        Some (JString s) \<Rightarrow> if length s \<le> max_len \<and> strlen s = length s then Some s else None
      | _ \<Rightarrow> None)"

definition rx_u64 :: "json \<Rightarrow> string \<Rightarrow> u64 option" where
  "rx_u64 j key =
     (case json_object_object_get_ex j key of
        Some (JInt i) \<Rightarrow>
          (let s = int_text i in
           if prefixb ''-'' s then None
           else case strtoull s of (n, erange, rest) \<Rightarrow>
             if erange \<or> rest \<noteq> [] then None else Some (of_nat n))
      | _ \<Rightarrow> None)"

definition rx_sequence :: "json \<Rightarrow> u64 option" where
  "rx_sequence j =
     (case rx_string j ''sequence'' 20 of
        None \<Rightarrow> None
      | Some s \<Rightarrow>
          if s = [] \<or> prefixb ''0'' s then None
          else if \<not> list_all is_digit s then None
          else case strtoull s of (n, erange, rest) \<Rightarrow>
            if erange \<or> rest \<noteq> [] then None else Some (of_nat n))"

section \<open>Syntax checks\<close>

definition is_hex_lower :: "char \<Rightarrow> bool" where
  "is_hex_lower c \<longleftrightarrow> is_digit c \<or> (97 \<le> (of_char c :: nat) \<and> (of_char c :: nat) \<le> 102)"

definition rx_hex :: "string option \<Rightarrow> nat \<Rightarrow> bool" where
  "rx_hex s n =
     (case s of
        None \<Rightarrow> False
      | Some s \<Rightarrow> length s = n \<and> list_all is_hex_lower s \<and> list_ex (\<lambda>c. c \<noteq> CHR ''0'') s)"

abbreviation slash :: char where "slash \<equiv> CHR ''/''"

definition atom_char :: "char \<Rightarrow> bool" where
  "atom_char c \<longleftrightarrow> \<not> ((of_char c :: nat) < 32 \<or> (of_char c :: nat) = 127 \<or> c = CHR 0x5C)"

text \<open>The loop of \<open>rx_relative\<close> from the character \<open>p\<close> on, \<open>atoms\<close> names seen so far.\<close>

function rx_relative_loop :: "nat \<Rightarrow> string \<Rightarrow> bool" where
  "rx_relative_loop atoms p =
     (if p = [] then True
      else let name = takeWhile (\<lambda>c. c \<noteq> slash) p; n = length name; rest = dropWhile (\<lambda>c. c \<noteq> slash) p in
        if n = 0 \<or> 255 < n \<or> name = ''.'' \<or> name = ''..'' \<or> 32 < atoms + 1 then False
        else if \<not> list_all atom_char name then False
        else if rest = [] then True
        else rx_relative_loop (atoms + 1) (tl rest))"
  by pat_completeness auto
termination
proof (relation "measure (\<lambda>(a, p). length p)", goal_cases)
  case (2 atoms p x xa xb)
  have "length xb \<le> length p" unfolding 2 by (rule length_dropWhile_le)
  moreover have "xb \<noteq> []" using 2 by simp
  ultimately have "length (tl xb) < length p" by (cases xb) simp_all
  then show ?case by simp
qed simp

declare rx_relative_loop.simps [simp del]

definition rx_relative :: "string option \<Rightarrow> bool \<Rightarrow> bool" where
  "rx_relative path empty_ok =
     (case path of
        None \<Rightarrow> False
      | Some p \<Rightarrow>
          if 4095 < length p then False
          else if p = [] then empty_ok
          else if hd p = slash \<or> last p = slash then False
          else rx_relative_loop 0 p)"

section \<open>The task description\<close>

record storage_context =
  cjson :: json
  owner :: json
  protocol :: string
  server :: string
  export_path :: string
  image_path :: string
  version :: string
  stage :: string
  lock :: string
  numeric_address :: string
  uid :: u32
  gid :: u32
  port :: u16
  sequence :: u64
  data_write :: bool
  parent :: int

definition version_ok :: "string \<Rightarrow> string \<Rightarrow> bool" where
  "version_ok p v =
     (if p = ''nfs'' then v = ''auto'' \<or> v = ''3'' \<or> v = ''4.0'' \<or> v = ''4.1'' \<or> v = ''4.2''
      else v = ''auto'' \<or> v = ''2.1'' \<or> v = ''3.0'' \<or> v = ''3.0.2'' \<or> v = ''3.1.1'')"

text \<open>\<open>snprintf\<close> into an array of \<open>n\<close> bytes keeps what fits before the final NUL.\<close>

definition snprintf :: "nat \<Rightarrow> string \<Rightarrow> string" where
  "snprintf n s = take (n - 1) s"

definition require :: "bool \<Rightarrow> unit option" where
  "require b = (if b then Some () else None)"

definition server_char :: "char \<Rightarrow> bool" where
  "server_char c \<longleftrightarrow> \<not> ((of_char c :: nat) \<le> 32 \<or> (of_char c :: nat) = 127 \<or>
     c \<in> set [CHR ''/'', CHR '','', CHR 0x5C, CHR '';'', CHR ''|'', CHR ''&'', CHR ''$'', CHR 0x60])"

text \<open>The server name without its port, and the text of the port if one is given.\<close>

definition split_port :: "string \<Rightarrow> (string \<times> string option) option" where
  "split_port s =
     (if prefixb ''['' s then
        (let host = takeWhile (\<lambda>c. c \<noteq> CHR '']'') s; rest = dropWhile (\<lambda>c. c \<noteq> CHR '']'') s in
         case rest of
           [] \<Rightarrow> None
         | _ # [] \<Rightarrow> Some (s, None)
         | _ # c # text \<Rightarrow> if c \<noteq> CHR '':'' then None else Some (host @ '']'', Some text))
      else
        (let host = takeWhile (\<lambda>c. c \<noteq> CHR '':'') s; rest = dropWhile (\<lambda>c. c \<noteq> CHR '':'') s in
         case rest of
           [] \<Rightarrow> Some (s, None)
         | _ # text \<Rightarrow> if CHR '':'' \<in> set text then Some (s, None) else Some (host, Some text)))"

definition port_number :: "string \<Rightarrow> u16 option" where
  "port_number s =
     (if s = [] then None
      else if \<not> list_all is_digit s then None
      else case strtoull s of (n, erange, rest) \<Rightarrow>
        if erange \<or> rest \<noteq> [] \<or> n = 0 \<or> 65535 < n then None else Some (of_nat n))"

definition load_sequence :: "json \<Rightarrow> u64 option" where
  "load_sequence j = do {
     s \<leftarrow> rx_string j ''sequence'' 20;
     require (s \<noteq> []);
     if s \<noteq> ''0'' then rx_sequence j else Some 0
   }"

text \<open>The owner of the task (line 28): its stage and lock directories.\<close>

definition load_owner :: "json \<Rightarrow> (json \<times> string \<times> string) option" where
  "load_owner j = do {
     own \<leftarrow> json_object_object_get_ex j ''execution'';
     require (is_object own);
     require (rx_hex (rx_string own ''domainId'' 32) 32);
     kind \<leftarrow> rx_string own ''taskType'' 7;
     require (kind = ''capture'' \<or> kind = ''deploy'');
     task \<leftarrow> rx_string own ''taskId'' 64;
     require (task \<noteq> [] \<and> rx_relative (Some task) False \<and> slash \<notin> set task);
     require (rx_hex (rx_string own ''nonce'' 32) 32);
     target \<leftarrow> rx_string own ''targetKey'' 64;
     require (rx_hex (Some target) 64);
     require (rx_hex (rx_string own ''configRevision'' 64) 64);
     attempt \<leftarrow> rx_u64 own ''executionAttempt'';
     require (attempt \<noteq> 0);
     Some (own, snprintf 256 (''dev/'' @ task @ ''/'' @ dec (unat attempt)), snprintf 128 (''.locks/'' @ target))
   }"

text \<open>The protocol version and the numeric identity (line 29).\<close>

definition load_version :: "json \<Rightarrow> string \<Rightarrow> string \<Rightarrow> (string \<times> u32 \<times> u32) option" where
  "load_version j p root = do {
     ver \<leftarrow> rx_string j (if p = ''nfs'' then ''nfsVersion'' else ''smbVersion'') 15;
     require (version_ok p ver);
     if p = ''nfs'' then do {
       require (hd root = slash \<and> (tl root = [] \<or> rx_relative (Some (tl root)) False));
       u \<leftarrow> rx_u64 j ''nfsUid'';
       g \<leftarrow> rx_u64 j ''nfsGid'';
       require (unat u \<le> 4294967294 \<and> unat g \<le> 4294967294);
       Some (ver, ucast u, ucast g)
     } else do {
       require (rx_relative (Some root) False);
       Some (ver, 0, 0)
     }
   }"

text \<open>
  \<open>load_context j ppid\<close> is \<open>rx_load_context\<close> after the file has been read: line 27 from the version
  check on, then lines 28 and 29.
\<close>

definition load_context :: "json \<Rightarrow> int \<Rightarrow> storage_context option" where
  "load_context j ppid = do {
     v \<leftarrow> rx_u64 j ''version'';
     require (v = 1);
     p \<leftarrow> rx_string j ''protocol'' 3;
     srv \<leftarrow> rx_string j ''server'' 255;
     root \<leftarrow> rx_string j ''exportPath'' 4095;
     image \<leftarrow> rx_string j ''imagePath'' 4095;
     dir \<leftarrow> rx_string j ''direction'' 5;
     require ((p = ''nfs'' \<or> p = ''smb'') \<and> srv \<noteq> [] \<and> root \<noteq> [] \<and> rx_relative (Some image) False
       \<and> (dir = ''read'' \<or> dir = ''write''));
     require (list_all server_char srv);
     hp \<leftarrow> split_port srv;
     prt \<leftarrow> (case snd hp of
               None \<Rightarrow> Some (if p = ''nfs'' then 2049 else 445)
             | Some text \<Rightarrow> port_number text);
     sq \<leftarrow> load_sequence j;
     os \<leftarrow> load_owner j;
     vi \<leftarrow> load_version j p root;
     Some \<lparr>cjson = j, owner = fst os, protocol = p, server = fst hp, export_path = root, image_path = image,
           version = fst vi, stage = fst (snd os), lock = snd (snd os), numeric_address = [],
           uid = fst (snd vi), gid = snd (snd vi), port = prt, sequence = sq, data_write = (dir = ''write''),
           parent = ppid\<rparr>
   }"

section \<open>Relative paths\<close>

lemma split_at_takeWhile:
  "split_at c p = takeWhile (\<lambda>x. x \<noteq> c) p #
     (case dropWhile (\<lambda>x. x \<noteq> c) p of [] \<Rightarrow> [] | _ # r \<Rightarrow> split_at c r)"
  by (induction p) (auto split: list.splits)

lemma split_at_no_sep: "a \<in> set (split_at c p) \<Longrightarrow> c \<notin> set a"
  by (induction p arbitrary: a) (auto split: if_splits list.splits)

lemma split_at_atom: "c \<notin> set p \<Longrightarrow> split_at c p = [p]"
  by (induction p) auto

lemma split_at_join: "c \<notin> set a \<Longrightarrow> split_at c (a @ c # p) = a # split_at c p"
  by (induction a) auto

lemma length_atom_le: "a \<in> set (split_at c p) \<Longrightarrow> length a \<le> length p"
proof (induction p arbitrary: a)
  case (Cons x p)
  show ?case
  proof (cases "x = c")
    case True
    then show ?thesis using Cons by force
  next
    case False
    obtain y ys where s: "split_at c p = y # ys" using split_at_nonempty by (meson neq_Nil_conv)
    then have "a = x # y \<or> a \<in> set ys" using Cons.prems False by auto
    then show ?thesis using Cons.IH [of y] Cons.IH [of a] s by auto
  qed
qed simp

text \<open>A name that stays where it is: not empty, not too long, not a step up, no odd character.\<close>

definition atom_ok :: "string \<Rightarrow> bool" where
  "atom_ok a \<longleftrightarrow> a \<noteq> [] \<and> length a \<le> 255 \<and> a \<noteq> ''.'' \<and> a \<noteq> ''..'' \<and> list_all atom_char a"

definition path_ok :: "string \<Rightarrow> bool" where
  "path_ok p \<longleftrightarrow> length p \<le> 4095 \<and> length (split_at slash p) \<le> 32 \<and> list_all atom_ok (split_at slash p)"

lemma rx_relative_loop_iff:
  assumes "p \<noteq> []" "last p \<noteq> slash"
  shows "rx_relative_loop k p \<longleftrightarrow> k + length (split_at slash p) \<le> 32 \<and> list_all atom_ok (split_at slash p)"
  using assms
proof (induction k p rule: rx_relative_loop.induct)
  case (1 k p)
  define name where "name = takeWhile (\<lambda>c. c \<noteq> slash) p"
  define rest where "rest = dropWhile (\<lambda>c. c \<noteq> slash) p"
  have unfold: "rx_relative_loop k p \<longleftrightarrow> k + 1 \<le> 32 \<and> atom_ok name \<and> (rest = [] \<or> rx_relative_loop (k + 1) (tl rest))"
    using 1(2) by (subst rx_relative_loop.simps) (auto simp: name_def rest_def atom_ok_def Let_def)
  show ?case
  proof (cases rest)
    case Nil
    then have "split_at slash p = [name]"
      using split_at_takeWhile [of slash p, folded name_def rest_def] by simp
    with Nil unfold show ?thesis by auto
  next
    case (Cons x r)
    have s: "split_at slash p = name # split_at slash r"
      using Cons by (subst split_at_takeWhile) (simp add: name_def rest_def)
    have p: "p = name @ x # r" using Cons by (metis name_def rest_def takeWhile_dropWhile_id)
    have x: "x = slash" using Cons hd_dropWhile [of "\<lambda>c. c \<noteq> slash" p] by (auto simp: rest_def)
    have r: "r \<noteq> []" "last r \<noteq> slash" using 1(3) p x by (auto split: if_splits)
    have IH: "rx_relative_loop (k + 1) r \<longleftrightarrow> k + 1 + length (split_at slash r) \<le> 32 \<and> list_all atom_ok (split_at slash r)"
      if "k + 1 \<le> 32" "atom_ok name"
      using 1(1) [OF 1(2) name_def refl rest_def] that Cons r by (auto simp: atom_ok_def [of name])
    from unfold Cons have "rx_relative_loop k p \<longleftrightarrow> k + 1 \<le> 32 \<and> atom_ok name \<and> rx_relative_loop (k + 1) r" by simp
    with IH s show ?thesis by auto
  qed
qed

lemma split_at_snoc: "split_at c (q @ [c]) = split_at c q @ [[]]"
  by (induction q) (auto split: list.splits)

lemma last_split_at: "p \<noteq> [] \<Longrightarrow> last p = c \<Longrightarrow> [] \<in> set (split_at c p)"
  using split_at_snoc [of c "butlast p"] by (metis append_butlast_last_id in_set_conv_decomp)

lemma hd_split_at: "p \<noteq> [] \<Longrightarrow> hd p = c \<Longrightarrow> [] \<in> set (split_at c p)"
  by (cases p) auto

lemma rx_relative_iff: "rx_relative (Some p) e \<longleftrightarrow> (if p = [] then e else path_ok p)"
proof (cases "p = []")
  case False
  have empty: "\<not> list_all atom_ok (split_at slash p)" if "[] \<in> set (split_at slash p)"
    using that by (auto simp: list_all_iff atom_ok_def)
  show ?thesis
  proof (cases "hd p = slash \<or> last p = slash")
    case True
    then have "\<not> list_all atom_ok (split_at slash p)"
      using hd_split_at [OF False] last_split_at [OF False] empty by blast
    with True False show ?thesis by (simp add: rx_relative_def path_ok_def)
  next
    case nb: False
    then have "rx_relative_loop 0 p \<longleftrightarrow> length (split_at slash p) \<le> 32 \<and> list_all atom_ok (split_at slash p)"
      using rx_relative_loop_iff [OF False, of 0] by simp
    with nb False show ?thesis by (simp add: rx_relative_def path_ok_def)
  qed
qed (simp add: rx_relative_def)

lemma path_ok_Nil [simp]: "\<not> path_ok []"
  by (simp add: path_ok_def atom_ok_def)

lemma atom_ok_path: "atom_ok a \<Longrightarrow> slash \<notin> set a \<Longrightarrow> path_ok a"
  by (simp add: path_ok_def split_at_atom atom_ok_def)

lemma path_ok_atom: "path_ok a \<Longrightarrow> slash \<notin> set a \<Longrightarrow> atom_ok a"
  by (simp add: path_ok_def split_at_atom)

text \<open>Property C16. \<open>rx_relative\<close> accepts exactly the paths of at most 4095 characters that consist of
  one to 32 names separated by single slashes, none of them empty, \<open>.\<close>, \<open>..\<close>, longer than 255
  characters or with a control character or backslash; the empty path only where the caller allows it,
  a null pointer never.  So no accepted path is absolute or climbs out of the directory it starts in.\<close>

theorem rx_relative_exact:
  "(rx_relative None e \<longleftrightarrow> False) \<and>
   (rx_relative (Some p) e \<longleftrightarrow>
      (if p = [] then e
       else length p \<le> 4095 \<and> length (split_at slash p) \<le> 32 \<and>
         list_all (\<lambda>a. a \<noteq> [] \<and> length a \<le> 255 \<and> a \<noteq> ''.'' \<and> a \<noteq> ''..'' \<and> list_all atom_char a) (split_at slash p)))"
  using rx_relative_iff [of p e] by (simp add: rx_relative_def path_ok_def atom_ok_def [abs_def])

section \<open>Accepted task descriptions\<close>

lemma rx_string_Some:
  "rx_string j k m = Some s \<longleftrightarrow>
     json_object_object_get_ex j k = Some (JString s) \<and> length s \<le> m \<and> strlen s = length s"
  by (auto simp: rx_string_def split: option.splits json.splits if_splits)

lemma length_rx_string: "rx_string j k m = Some s \<Longrightarrow> length s \<le> m"
  by (simp add: rx_string_Some)

lemma rx_u64_int:
  assumes "json_object_object_get_ex j k = Some (JInt i)" "0 \<le> i" "i < 2 ^ 64"
  shows "rx_u64 j k = Some (of_int i)"
proof -
  have n: "nat i < 2 ^ 64" using assms(2,3) by (simp add: nat_less_iff)
  obtain c cs where d: "dec (nat i) = c # cs" using dec_nonempty by (meson neq_Nil_conv)
  have "is_digit c" using dec_digits [of "nat i"] d by simp
  then have "\<not> prefixb ''-'' (dec (nat i))" using d digit_not_sign by auto
  with assms n strtoull_dec [OF n] show ?thesis by (simp add: rx_u64_def int_text_def)
qed

lemma require_Some [simp]: "require b = Some u \<longleftrightarrow> b"
  by (simp add: require_def)

lemma digit_atom_char: "is_digit c \<Longrightarrow> atom_char c \<and> c \<noteq> slash \<and> c \<noteq> CHR ''.''"
  by (auto simp: is_digit_def atom_char_def)

lemma hex_atom_char: "is_hex_lower c \<Longrightarrow> atom_char c \<and> c \<noteq> slash \<and> c \<noteq> CHR ''.''"
  by (auto simp: is_hex_lower_def is_digit_def atom_char_def)

lemma atom_okI: "list_all atom_char a \<Longrightarrow> CHR ''.'' \<notin> set a \<Longrightarrow> a \<noteq> [] \<Longrightarrow> length a \<le> 255 \<Longrightarrow> atom_ok a"
  unfolding atom_ok_def by force

lemma dec_atom:
  assumes "n < 2 ^ 64"
  shows "atom_ok (dec n)" "slash \<notin> set (dec n)" "length (dec n) \<le> 20"
proof -
  have d: "is_digit c" if "c \<in> set (dec n)" for c using that dec_digits by (metis list_all_iff)
  show l: "length (dec n) \<le> 20" using assms by (intro length_dec) simp_all
  show "slash \<notin> set (dec n)" using d digit_atom_char by blast
  have "CHR ''.'' \<notin> set (dec n)" using d digit_atom_char by blast
  moreover have "list_all atom_char (dec n)" using d digit_atom_char unfolding list_all_iff by blast
  ultimately show "atom_ok (dec n)" using l by (intro atom_okI) simp_all
qed

lemma hex_atom:
  assumes "rx_hex (Some s) n" "0 < n" "n \<le> 255"
  shows "atom_ok s" "slash \<notin> set s" "length s = n"
proof -
  have d: "is_hex_lower c" if "c \<in> set s" for c
    using that assms(1) unfolding rx_hex_def list_all_iff by simp
  show l: "length s = n" using assms(1) by (simp add: rx_hex_def)
  show "slash \<notin> set s" using d hex_atom_char by blast
  have "CHR ''.'' \<notin> set s" using d hex_atom_char by blast
  moreover have "list_all atom_char s" using d hex_atom_char unfolding list_all_iff by blast
  ultimately show "atom_ok s" using l assms(2,3) by (intro atom_okI) auto
qed

lemma path_ok_join:
  assumes "atom_ok a" "slash \<notin> set a" "path_ok p" "length (split_at slash p) \<le> 31" "length a + length p \<le> 4094"
  shows "path_ok (a @ slash # p)"
  using assms by (simp add: path_ok_def split_at_join)

text \<open>
  What every accepted description guarantees: known protocol and version, names that are safe where
  they are used as paths, and every string short enough for the array it is copied to (the sizes of
  \<open>struct storage_context\<close>, less the final NUL).
\<close>

definition ctx_ok :: "storage_context \<Rightarrow> bool" where
  "ctx_ok c \<longleftrightarrow>
     (protocol c = ''nfs'' \<or> protocol c = ''smb'') \<and> version_ok (protocol c) (version c) \<and> length (version c) < 16 \<and>
     length (server c) < 256 \<and> list_all server_char (server c) \<and> port c \<noteq> 0 \<and>
     length (export_path c) < 4096 \<and>
     (if protocol c = ''nfs'' then \<exists>r. export_path c = slash # r \<and> (r = [] \<or> path_ok r) else path_ok (export_path c)) \<and>
     path_ok (image_path c) \<and> length (image_path c) < 4096 \<and>
     (\<exists>task n. path_ok task \<and> slash \<notin> set task \<and> length task \<le> 64 \<and> 0 < n \<and> n < 2 ^ 64 \<and>
        stage c = ''dev/'' @ task @ ''/'' @ dec n) \<and> path_ok (stage c) \<and> length (stage c) < 256 \<and>
     (\<exists>target. rx_hex (Some target) 64 \<and> lock c = ''.locks/'' @ target) \<and> path_ok (lock c) \<and> length (lock c) < 128 \<and>
     (rx_string (owner c) ''taskType'' 7 = Some ''capture'' \<or> rx_string (owner c) ''taskType'' 7 = Some ''deploy'')"

lemma stage_path:
  assumes t: "atom_ok task" "slash \<notin> set task" "length task \<le> 64" and n: "n < 2 ^ 64"
  shows "path_ok (''dev/'' @ task @ ''/'' @ dec n)" "length (''dev/'' @ task @ ''/'' @ dec n) \<le> 89"
proof -
  note d = dec_atom [OF n]
  have dev: "atom_ok ''dev''" by (simp add: atom_ok_def atom_char_def)
  have s: "split_at slash (task @ slash # dec n) = [task, dec n]"
    using t d by (simp add: split_at_join split_at_atom)
  have "path_ok (task @ slash # dec n)"
    using t d by (simp_all add: path_ok_join atom_ok_path split_at_atom)
  then have "path_ok (''dev'' @ slash # task @ slash # dec n)"
    using t d s dev by (intro path_ok_join [of "''dev''"]) simp_all
  then show "path_ok (''dev/'' @ task @ ''/'' @ dec n)" by simp
  show "length (''dev/'' @ task @ ''/'' @ dec n) \<le> 89" using t d by simp
qed

lemma lock_path:
  assumes "rx_hex (Some target) 64"
  shows "path_ok (''.locks/'' @ target)" "length (''.locks/'' @ target) = 71"
proof -
  have t: "atom_ok target" "slash \<notin> set target" "length target = 64" by (rule hex_atom [OF assms], simp_all)+
  have l: "atom_ok ''.locks''" by (simp add: atom_ok_def atom_char_def)
  have "path_ok (''.locks'' @ slash # target)"
    using t l by (intro path_ok_join [of "''.locks''"]) (simp_all add: atom_ok_path split_at_atom)
  then show "path_ok (''.locks/'' @ target)" by simp
  show "length (''.locks/'' @ target) = 71" using t by simp
qed

lemma load_owner_ok:
  assumes "load_owner j = Some (own, st, lk)"
  shows "\<exists>task n. path_ok task \<and> slash \<notin> set task \<and> length task \<le> 64 \<and> 0 < n \<and> n < 2 ^ 64 \<and>
           st = ''dev/'' @ task @ ''/'' @ dec n"
    and "path_ok st" "length st < 256"
    and "\<exists>target. rx_hex (Some target) 64 \<and> lk = ''.locks/'' @ target"
    and "path_ok lk" "length lk < 128"
    and "rx_string own ''taskType'' 7 = Some ''capture'' \<or> rx_string own ''taskType'' 7 = Some ''deploy''"
proof -
  from assms obtain task target attempt where
    k: "rx_string own ''taskType'' 7 = Some ''capture'' \<or> rx_string own ''taskType'' 7 = Some ''deploy''"
    and t: "rx_string own ''taskId'' 64 = Some task" "task \<noteq> []" "rx_relative (Some task) False" "slash \<notin> set task"
    and h: "rx_hex (Some target) 64" and a: "(attempt :: u64) \<noteq> 0"
    and st: "st = snprintf 256 (''dev/'' @ task @ ''/'' @ dec (unat attempt))"
    and lk: "lk = snprintf 128 (''.locks/'' @ target)"
    by (auto simp: load_owner_def split: Option.bind_splits)
  have n: "unat attempt < 2 ^ 64" using unsigned_less [of attempt] by simp
  have p: "path_ok task" "length task \<le> 64" using t by (auto simp: rx_relative_iff dest: length_rx_string)
  note s = stage_path [OF path_ok_atom [OF p(1) t(4)] t(4) p(2) n]
  then have st': "st = ''dev/'' @ task @ ''/'' @ dec (unat attempt)" by (simp add: st snprintf_def)
  note l = lock_path [OF h]
  then have lk': "lk = ''.locks/'' @ target" by (simp add: lk snprintf_def)
  show "rx_string own ''taskType'' 7 = Some ''capture'' \<or> rx_string own ''taskType'' 7 = Some ''deploy''" by (rule k)
  show "\<exists>task n. path_ok task \<and> slash \<notin> set task \<and> length task \<le> 64 \<and> 0 < n \<and> n < 2 ^ 64 \<and> st = ''dev/'' @ task @ ''/'' @ dec n"
    using p t(4) n a st' by (intro exI [of _ task] exI [of _ "unat attempt"]) (simp add: unat_gt_0)
  show "\<exists>target. rx_hex (Some target) 64 \<and> lk = ''.locks/'' @ target" using h lk' by blast
  show "path_ok st" "length st < 256" using s st' by auto
  show "path_ok lk" "length lk < 128" using l lk' by auto
qed

lemma split_port_part:
  assumes "split_port s = Some (h, t)"
  shows "set h \<subseteq> set s" "length h \<le> length s"
proof -
  have part: "set (takeWhile P s) \<subseteq> set s" "length (takeWhile P s) \<le> length s" for P
    by (auto dest: set_takeWhileD simp: length_takeWhile_le)
  let ?t = "takeWhile (\<lambda>c. c \<noteq> CHR '']'') s" and ?d = "dropWhile (\<lambda>c. c \<noteq> CHR '']'') s"
  have bracket: "set (?t @ '']'') \<subseteq> set s \<and> length (?t @ '']'') \<le> length s" if "?d \<noteq> []"
  proof -
    have "s = ?t @ ?d" by simp
    moreover have "hd ?d = CHR '']''" using hd_dropWhile [OF that] by simp
    ultimately have s: "s = ?t @ CHR '']'' # tl ?d" using that by (metis list.collapse)
    then have "length s = length ?t + 1 + length (tl ?d)" by (metis add.assoc length_Cons length_append plus_1_eq_Suc)
    moreover have "CHR '']'' \<in> set s" using s by (metis in_set_conv_decomp)
    ultimately show ?thesis using part(1) by auto
  qed
  have "h = s \<or> h = takeWhile (\<lambda>c. c \<noteq> CHR '':'') s \<or> (h = ?t @ '']'' \<and> ?d \<noteq> [])"
    using assms unfolding split_port_def Let_def by (auto split: if_splits list.splits simp del: dropWhile_eq_Nil_conv)
  then show "set h \<subseteq> set s" "length h \<le> length s" using bracket part by blast+
qed

lemma port_number_nonzero: "port_number s = Some p \<Longrightarrow> p \<noteq> 0"
proof -
  assume "port_number s = Some p"
  then obtain n where n: "p = of_nat n" "n \<noteq> 0" "n \<le> 65535"
    by (auto simp: port_number_def split: if_splits prod.splits)
  have "unat (of_nat n :: u16) = n" using n by (simp add: unat_of_nat)
  then show ?thesis using n by auto
qed

lemma load_version_ok:
  assumes "load_version j p root = Some (v, u, g)" "root \<noteq> []"
  shows "version_ok p v" "length v < 16"
    "if p = ''nfs'' then \<exists>r. root = slash # r \<and> (r = [] \<or> path_ok r) else path_ok root"
proof -
  from assms(1) have r: "rx_string j (if p = ''nfs'' then ''nfsVersion'' else ''smbVersion'') 15 = Some v" and v: "version_ok p v"
    by (auto simp: load_version_def split: Option.bind_splits if_splits)
  from v show "version_ok p v" .
  from length_rx_string [OF r] show "length v < 16" by simp
  from assms show "if p = ''nfs'' then \<exists>r. root = slash # r \<and> (r = [] \<or> path_ok r) else path_ok root"
    by (cases root) (auto simp: load_version_def rx_relative_iff split: Option.bind_splits if_splits)
qed

lemma load_context_ok:
  assumes "load_context j ppid = Some c"
  shows "ctx_ok c \<and> owner c = the (json_object_object_get_ex j ''execution'') \<and> parent c = ppid \<and> cjson c = j"
proof -
  from assms obtain p srv root image hp prt os vi where
    p: "p = ''nfs'' \<or> p = ''smb''" and srv: "rx_string j ''server'' 255 = Some srv" "list_all server_char srv"
    and root: "rx_string j ''exportPath'' 4095 = Some root" "root \<noteq> []"
    and image: "rx_string j ''imagePath'' 4095 = Some image" "rx_relative (Some image) False"
    and hp: "split_port srv = Some hp"
    and prt: "(case snd hp of None \<Rightarrow> Some (if p = ''nfs'' then 2049 else 445) | Some text \<Rightarrow> port_number text) = Some prt"
    and os: "load_owner j = Some os" and vi: "load_version j p root = Some vi"
    and c: "protocol c = p" "server c = fst hp" "export_path c = root" "image_path c = image" "version c = fst vi"
      "stage c = fst (snd os)" "lock c = snd (snd os)" "owner c = fst os" "port c = prt" "parent c = ppid" "cjson c = j"
    by (auto simp: load_context_def split: Option.bind_splits)
  have own: "fst os = the (json_object_object_get_ex j ''execution'')"
    using os by (auto simp: load_owner_def split: Option.bind_splits)
  have port: "prt \<noteq> 0"
    using prt port_number_nonzero by (auto split: option.splits if_splits)
  note ow = load_owner_ok [of j "fst os" "fst (snd os)" "snd (snd os)", unfolded prod.collapse, OF os]
  note vv = load_version_ok [of j p root "fst vi" "fst (snd vi)" "snd (snd vi)", unfolded prod.collapse, OF vi root(2)]
  have "set (fst hp) \<subseteq> set srv" "length (fst hp) \<le> length srv"
    using split_port_part [of srv "fst hp" "snd hp"] hp by auto
  then have sv: "length (fst hp) < 256" "list_all server_char (fst hp)"
    using srv length_rx_string [OF srv(1)] by (auto simp: list_all_iff)
  have im: "path_ok image" "length image < 4096"
    using image length_rx_string [OF image(1)] by (auto simp: rx_relative_iff split: if_splits)
  have rt: "length root < 4096" using length_rx_string [OF root(1)] by simp
  show ?thesis
    unfolding ctx_ok_def c using p port ow vv sv im rt own by (intro conjI) simp_all
qed

definition demo_owner :: json where
  "demo_owner = JObject
     [(''domainId'', JString (replicate 32 CHR ''a'')), (''taskType'', JString ''capture''), (''taskId'', JString ''t1''),
      (''nonce'', JString (replicate 32 CHR ''b'')), (''targetKey'', JString (replicate 64 CHR ''c'')),
      (''configRevision'', JString (replicate 64 CHR ''d'')), (''executionAttempt'', JInt 7)]"

definition demo_task :: json where
  "demo_task = JObject
     [(''version'', JInt 1), (''protocol'', JString ''nfs''), (''server'', JString ''nas:2050''), (''exportPath'', JString ''/images''),
      (''imagePath'', JString ''win/base''), (''direction'', JString ''write''), (''sequence'', JString ''0''),
      (''execution'', demo_owner), (''nfsVersion'', JString ''4.1''), (''nfsUid'', JInt 1000), (''nfsGid'', JInt 1001)]"

definition demo_ctx :: storage_context where
  "demo_ctx = \<lparr>cjson = demo_task, owner = demo_owner, protocol = ''nfs'', server = ''nas'', export_path = ''/images'',
     image_path = ''win/base'', version = ''4.1'', stage = ''dev/t1/7'', lock = ''.locks/'' @ replicate 64 (CHR ''c''),
     numeric_address = [], uid = 1000, gid = 1001, port = 2050, sequence = 0, data_write = True, parent = 42\<rparr>"

lemma demo_atom_chars: "list_all is_hex_lower (replicate n (CHR ''a''))" "list_all is_hex_lower (replicate n (CHR ''b''))"
  "list_all is_hex_lower (replicate n (CHR ''c''))" "list_all is_hex_lower (replicate n (CHR ''d''))"
  by (induction n) (simp_all add: is_hex_lower_def)

lemma demo_hex:
  assumes "c \<in> {CHR ''a'', CHR ''b'', CHR ''c'', CHR ''d''}" "0 < n"
  shows "rx_hex (Some (replicate n c)) n"
  using assms demo_atom_chars [of n] by (auto simp: rx_hex_def list_ex_iff)

lemma strlen_replicate: "c \<noteq> CHR 0x00 \<Longrightarrow> strlen (replicate n c) = n"
  by (induction n) (simp_all add: strlen_def)

lemma load_demo_owner:
  "load_owner demo_task = Some (demo_owner, ''dev/t1/7'', ''.locks/'' @ replicate 64 (CHR ''c''))"
proof -
  have get: "json_object_object_get_ex demo_task ''execution'' = Some demo_owner" by code_simp
  have s: "rx_string demo_owner ''domainId'' 32 = Some (replicate 32 (CHR ''a''))"
    "rx_string demo_owner ''nonce'' 32 = Some (replicate 32 (CHR ''b''))"
    "rx_string demo_owner ''targetKey'' 64 = Some (replicate 64 (CHR ''c''))"
    "rx_string demo_owner ''configRevision'' 64 = Some (replicate 64 (CHR ''d''))"
    "rx_string demo_owner ''taskType'' 7 = Some ''capture''"
    "rx_string demo_owner ''taskId'' 64 = Some ''t1''"
    by (simp_all add: rx_string_Some json_object_object_get_ex_def demo_owner_def strlen_replicate)
       (simp_all add: strlen_def)
  have a: "rx_u64 demo_owner ''executionAttempt'' = Some 7"
    by (rule rx_u64_int [of _ _ 7, simplified]) (simp_all add: json_object_object_get_ex_def demo_owner_def)
  have o: "is_object demo_owner" by (simp add: is_object_def demo_owner_def)
  have d: "dec 7 = ''7''" by code_simp
  have t: "rx_relative (Some ''t1'') False" by code_simp
  show ?thesis
    by (simp add: load_owner_def get s a o t d demo_hex snprintf_def require_def)
qed

lemma load_demo: "load_context demo_task 42 = Some demo_ctx"
proof -
  have s: "rx_string demo_task ''protocol'' 3 = Some ''nfs''" "rx_string demo_task ''server'' 255 = Some ''nas:2050''"
    "rx_string demo_task ''exportPath'' 4095 = Some ''/images''" "rx_string demo_task ''imagePath'' 4095 = Some ''win/base''"
    "rx_string demo_task ''direction'' 5 = Some ''write''" "rx_string demo_task ''sequence'' 20 = Some ''0''"
    "rx_string demo_task ''nfsVersion'' 15 = Some ''4.1''"
    by (simp_all add: rx_string_Some json_object_object_get_ex_def demo_task_def strlen_def)
  have n: "rx_u64 demo_task ''version'' = Some 1" "rx_u64 demo_task ''nfsUid'' = Some 1000" "rx_u64 demo_task ''nfsGid'' = Some 1001"
    by (rule rx_u64_int [of _ _ 1, simplified] rx_u64_int [of _ _ 1000, simplified] rx_u64_int [of _ _ 1001, simplified],
        simp_all add: json_object_object_get_ex_def demo_task_def)+
  have r: "rx_relative (Some ''win/base'') False" "rx_relative (Some ''images'') False" by code_simp+
  have p: "split_port ''nas:2050'' = Some (''nas'', Some ''2050'')" by code_simp
  have c: "list_all server_char ''nas:2050''" by (simp add: server_char_def)
  have q: "port_number ''2050'' = Some 2050"
    using strtoull_digits [of "''2050''"] by (simp add: port_number_def is_digit_def dec_val_def digit_val_def)
  show ?thesis
    by (simp add: load_context_def load_sequence_def load_version_def version_ok_def s n r p c [simplified] q load_demo_owner
          require_def demo_ctx_def unat_numeral)
qed

lemma demo_ctx_ok: "ctx_ok demo_ctx"
  using load_context_ok [OF load_demo] by simp

text \<open>Property C12. A task description that \<open>rx_load_context\<close> accepts gives a context that is safe to use:
  the protocol is nfs or smb and the version one of its versions; image, stage and lock directory (and
  the export below its root) are relative paths without empty, \<open>.\<close> or \<open>..\<close> names; the stage is
  \<open>dev/<task>/<attempt>\<close> and the lock \<open>.locks/<target>\<close>, neither cut off by \<open>snprintf\<close>; the task is a
  capture or a deploy; and every string fits the array of \<open>struct storage_context\<close> it is copied to.\<close>

theorem load_context_safe:
  assumes "load_context j ppid = Some c"
  shows "ctx_ok c \<and> owner c = the (json_object_object_get_ex j ''execution'') \<and> parent c = ppid \<and> cjson c = j"
  using assms by (rule load_context_ok)

theorem load_context_safe_witness:
  "load_context demo_task 42 = Some demo_ctx \<and> ctx_ok demo_ctx \<and> owner demo_ctx = demo_owner"
proof -
  have "the (json_object_object_get_ex demo_task ''execution'') = demo_owner" by code_simp
  with load_context_safe [OF load_demo] load_demo show ?thesis by simp
qed

end
