(* ===== verification/StorageSys.thy ===== *)
theory StorageSys
  imports StorageCtx
begin

text \<open>
  The kernel as the storage helper sees it, and the part of \<open>storage_context.c\<close> that calls it:
  \<open>rx_write_all\<close>, \<open>rx_read_json\<close>, \<open>rx_emit\<close>, \<open>rx_load_context\<close>, \<open>rx_parent_alive\<close>, \<open>rx_identity\<close>
  and \<open>rx_fd_contract\<close>.  The kernel is the record \<open>rx_os\<close> of its calls, each a function of the
  world that may change it in any way; json-c is the record \<open>jsonc\<close>, with
  SHA-256 and \<open>inet_pton\<close> (\<open>True\<close> for IPv6) as functions of it.
  Bytes are characters.  A call that a signal may interrupt is a tree: \<open>Eintr\<close> is an attempt that
  ended with \<open>EINTR\<close>, and every branch is finite, so a caller that tries again gets through at last.
  Every call that matters to a property is recorded in the trace with its outcome.  Two operations of
  the record stand for several system calls in a row: \<open>sys_ids\<close> for the calls that read back the
  identity, \<open>sys_setup\<close> for the calls that prepare the process.  What such a row does to the world and
  whether it succeeds is any function; the order of the calls inside it is not modelled.  Allocation
  failures are not modelled apart from those of json-c and OpenSSL.
\<close>

section \<open>The kernel and the libraries\<close>

type_synonym fd = nat

datatype ('w, 'a) syscall = Ret 'a 'w | Eintr 'w "'w \<Rightarrow> ('w, 'a) syscall"

datatype errno = EINVAL | ENOENT | EOPNOTSUPP | ENOSYS | EPROTONOSUPPORT | ECANCELED | EOTHER int

datatype open_flags = O_DIR | O_RD | O_CREATE_RW

datatype id_op = AmbientClear | CapDrop nat | KeepCaps bool | SetGroups u32 | SetResGid u32 | SetResUid u32
  | CapSet bool | NoNewPrivs | PDeathSig

record stat =
  st_mode :: u32
  st_uid :: u32

record statx =
  stx_mask :: u32
  stx_ino :: u64
  stx_dev_major :: u32
  stx_dev_minor :: u32
  stx_mode :: u16
  stx_size :: u64
  mtime_sec :: int
  mtime_nsec :: u32
  ctime_sec :: int
  ctime_nsec :: u32

record ids =
  ruid :: u32
  euid :: u32
  suid :: u32
  rgid :: u32
  egid :: u32
  sgid :: u32
  fsuid :: u32
  fsgid :: u32
  groups :: "u32 list"

record 'w rx_os =
  sys_getppid :: "'w \<Rightarrow> int \<times> 'w"
  sys_read :: "fd \<Rightarrow> nat \<Rightarrow> 'w \<Rightarrow> ('w, string option) syscall"
  sys_write :: "fd \<Rightarrow> string \<Rightarrow> 'w \<Rightarrow> ('w, nat option) syscall"
  sys_fstat :: "fd \<Rightarrow> 'w \<Rightarrow> stat option \<times> 'w"
  sys_fstatfs :: "fd \<Rightarrow> 'w \<Rightarrow> nat option \<times> 'w"
  sys_capbset_read :: "nat \<Rightarrow> 'w \<Rightarrow> (errno + bool) \<times> 'w"
  sys_id :: "id_op \<Rightarrow> 'w \<Rightarrow> bool \<times> 'w"
  sys_ids :: "'w \<Rightarrow> ids option \<times> 'w"
  sys_open_storage :: "'w \<Rightarrow> fd option \<times> 'w"
  sys_statx :: "fd \<Rightarrow> 'w \<Rightarrow> statx option \<times> 'w"
  sys_statx_at :: "fd \<Rightarrow> string \<Rightarrow> 'w \<Rightarrow> (errno + unit) \<times> 'w"
  sys_dup :: "fd \<Rightarrow> 'w \<Rightarrow> fd option \<times> 'w"
  sys_openat :: "fd \<Rightarrow> string \<Rightarrow> open_flags \<Rightarrow> 'w \<Rightarrow> fd option \<times> 'w"
  sys_close :: "fd \<Rightarrow> 'w \<Rightarrow> bool \<times> 'w"
  sys_mkdirat :: "fd \<Rightarrow> string \<Rightarrow> 'w \<Rightarrow> bool \<times> 'w"
  sys_unlinkat :: "fd \<Rightarrow> string \<Rightarrow> bool \<Rightarrow> 'w \<Rightarrow> bool \<times> 'w"
  sys_renameat2 :: "fd \<Rightarrow> string \<Rightarrow> fd \<Rightarrow> string \<Rightarrow> 'w \<Rightarrow> errno option \<times> 'w"
  sys_renameat :: "fd \<Rightarrow> string \<Rightarrow> fd \<Rightarrow> string \<Rightarrow> 'w \<Rightarrow> bool \<times> 'w"
  sys_fsync :: "fd \<Rightarrow> 'w \<Rightarrow> bool \<times> 'w"
  sys_rewind :: "fd \<Rightarrow> 'w \<Rightarrow> bool \<times> 'w"
  sys_readdir :: "fd \<Rightarrow> 'w \<Rightarrow> (string list \<times> bool) option \<times> 'w"
  sys_mount :: "string \<Rightarrow> string \<Rightarrow> string \<Rightarrow> string \<Rightarrow> bool \<Rightarrow> 'w \<Rightarrow> errno option \<times> 'w"
  sys_open_file :: "string \<Rightarrow> 'w \<Rightarrow> fd option \<times> 'w"
  sys_resolve :: "string \<Rightarrow> 'w \<Rightarrow> string option \<times> 'w"
  sys_tcon :: "fd \<Rightarrow> 'w \<Rightarrow> (u32 \<times> u64) option \<times> 'w"
  sys_setup :: "'w \<Rightarrow> bool \<times> 'w"
  evp_step :: "'w \<Rightarrow> bool \<times> 'w"

record jsonc =
  json_parse :: "string \<Rightarrow> json option"
  json_text :: "json \<Rightarrow> string"
  json_object_equal :: "json \<Rightarrow> json \<Rightarrow> bool"
  sha256 :: "string \<Rightarrow> string"
  inet_pton :: "bool \<Rightarrow> string \<Rightarrow> string option"

datatype rx_event = Emit json bool | Line "json option" | Ppid int | Write fd string | Read fd "string option"
  | Id id_op bool | CapRead nat "errno + bool" | Ids "ids option"
  | OpenStorage "fd option" | Statx fd "statx option" | StatxAt fd string "errno + unit" | Dup fd "fd option"
  | Openat fd string open_flags "fd option" | Close fd bool
  | Mkdirat fd string bool | Unlinkat fd string bool bool | Renameat2 fd string fd string "errno option"
  | Renameat fd string fd string bool | Fsync fd bool | Rewind fd bool | Readdir fd "(string list \<times> bool) option"
  | Mount string string string string bool "errno option" | Setup bool

record 'w rx =
  world :: 'w
  trace :: "rx_event list"

type_synonym ('w, 'a) rxm = "('w rx, 'a) state"

section \<open>Making calls\<close>

definition note_ev :: "rx_event \<Rightarrow> ('w, unit) rxm" where
  "note_ev e = modify (\<lambda>s. s\<lparr>trace := trace s @ [e]\<rparr>)"

definition quiet :: "('w \<Rightarrow> 'a \<times> 'w) \<Rightarrow> ('w, 'a) rxm" where
  "quiet f = State (\<lambda>s. case f (world s) of (a, w) \<Rightarrow> (a, s\<lparr>world := w\<rparr>))"

definition sys :: "('a \<Rightarrow> rx_event) \<Rightarrow> ('w \<Rightarrow> 'a \<times> 'w) \<Rightarrow> ('w, 'a) rxm" where
  "sys ev f = do { a \<leftarrow> quiet f; note_ev (ev a); State_Monad.return a }"

text \<open>\<open>if (n < 0 && errno == EINTR) continue;\<close> with nothing done before the next attempt.\<close>

primrec restart :: "('w, 'a) syscall \<Rightarrow> 'a \<times> 'w" where
  "restart (Ret a w) = (a, w)"
| "restart (Eintr w k) = restart (k w)"

section \<open>Descriptors\<close>

text \<open>
  A \<open>write\<close> gives the number of bytes taken, \<open>None\<close> for an error.
\<close>

function rx_write_all :: "'w rx_os \<Rightarrow> fd \<Rightarrow> string \<Rightarrow> ('w, bool) rxm" where
  "rx_write_all os f data =
     (if data = [] then State_Monad.return True
      else do {
        r \<leftarrow> sys (\<lambda>r. Write f (case r of None \<Rightarrow> [] | Some n \<Rightarrow> take n data)) (\<lambda>w. restart (sys_write os f data w));
        (case r of
           None \<Rightarrow> State_Monad.return False
         | Some n \<Rightarrow> if n = 0 then State_Monad.return False else rx_write_all os f (drop n data))
      })"
  by pat_completeness auto
termination
  by (relation "measure (\<lambda>(os, f, data). length data)") auto

declare rx_write_all.simps [simp del]

text \<open>
  The byte loop of \<open>rx_read_json\<close>, \<open>room\<close> bytes of the buffer left: a complete text, or \<open>None\<close> on an
  error, a NUL, a full buffer, or an end of input where a line is expected.
\<close>

fun rx_read_loop :: "'w rx_os \<Rightarrow> fd \<Rightarrow> bool \<Rightarrow> nat \<Rightarrow> string \<Rightarrow> ('w, string option) rxm" where
  "rx_read_loop os f line 0 b = State_Monad.return None"
| "rx_read_loop os f line (Suc room) b = do {
     r \<leftarrow> quiet (\<lambda>w. restart (sys_read os f 1 w));
     case r of
       None \<Rightarrow> State_Monad.return None
     | Some [] \<Rightarrow> State_Monad.return (if line then None else Some b)
     | Some (c # _) \<Rightarrow>
         if c = CHR 0x00 then State_Monad.return None
         else if line \<and> c = CHR 0x0A then State_Monad.return (Some b)
         else rx_read_loop os f line room (b @ [c])
   }"

definition rx_read_json :: "'w rx_os \<Rightarrow> jsonc \<Rightarrow> fd \<Rightarrow> nat \<Rightarrow> bool \<Rightarrow> ('w, json option) rxm" where
  "rx_read_json os jc f room line = do {
     b \<leftarrow> rx_read_loop os f line room [];
     let r = (case b of
        None \<Rightarrow> None
      | Some b \<Rightarrow>
          if b = [] then None
          else case json_parse jc b of
            None \<Rightarrow> None
          | Some j \<Rightarrow> if is_object j then Some j else None);
     note_ev (Line r);
     State_Monad.return r
   }"

definition RX_COMMAND_MAX :: nat where "RX_COMMAND_MAX = 16384"
definition RX_RESULT_MAX :: nat where "RX_RESULT_MAX = 65536"
definition RX_DATA_MAX :: nat where "RX_DATA_MAX = 131072"

definition rx_emit :: "'w rx_os \<Rightarrow> jsonc \<Rightarrow> fd \<Rightarrow> json \<Rightarrow> ('w, bool) rxm" where
  "rx_emit os jc f j = do {
     let s = json_text jc j;
     ok \<leftarrow> (if length s < RX_RESULT_MAX then do {
               a \<leftarrow> rx_write_all os f s;
               if a then rx_write_all os f [CHR 0x0A] else State_Monad.return False
             } else State_Monad.return False);
     note_ev (Emit j ok);
     State_Monad.return ok
   }"

section \<open>The context file\<close>

definition S_IFMT :: u32 where "S_IFMT = 0xF000"
definition S_ISREG :: "u32 \<Rightarrow> bool" where "S_ISREG m \<longleftrightarrow> m AND S_IFMT = 0x8000"
definition S_ISDIR :: "u32 \<Rightarrow> bool" where "S_ISDIR m \<longleftrightarrow> m AND S_IFMT = 0x4000"
definition S_ISBLK :: "u32 \<Rightarrow> bool" where "S_ISBLK m \<longleftrightarrow> m AND S_IFMT = 0x6000"
definition S_ISCHR :: "u32 \<Rightarrow> bool" where "S_ISCHR m \<longleftrightarrow> m AND S_IFMT = 0x2000"
definition S_ISFIFO :: "u32 \<Rightarrow> bool" where "S_ISFIFO m \<longleftrightarrow> m AND S_IFMT = 0x1000"
definition NFS_SUPER_MAGIC :: nat where "NFS_SUPER_MAGIC = 0x6969"
definition CIFS_SUPER_MAGIC :: nat where "CIFS_SUPER_MAGIC = 0xFF534D42"
definition SMB_SUPER_MAGIC :: nat where "SMB_SUPER_MAGIC = 0x517B"
definition SMB2_SUPER_MAGIC :: nat where "SMB2_SUPER_MAGIC = 0xFE534D42"

definition rx_load_context :: "'w rx_os \<Rightarrow> jsonc \<Rightarrow> fd \<Rightarrow> ('w, storage_context option) rxm" where
  "rx_load_context os jc f = do {
     ppid \<leftarrow> quiet (sys_getppid os);
     st \<leftarrow> quiet (sys_fstat os f);
     case st of
       None \<Rightarrow> State_Monad.return None
     | Some s \<Rightarrow>
         if \<not> S_ISREG (st_mode s) \<or> st_uid s \<noteq> 0 \<or> st_mode s AND 0x3F \<noteq> 0 then State_Monad.return None
         else do {
           fs \<leftarrow> quiet (sys_fstatfs os f);
           case fs of
             None \<Rightarrow> State_Monad.return None
           | Some t \<Rightarrow>
               if t = NFS_SUPER_MAGIC \<or> t = CIFS_SUPER_MAGIC then State_Monad.return None
               else do {
                 j \<leftarrow> rx_read_json os jc f RX_COMMAND_MAX False;
                 State_Monad.return (case j of None \<Rightarrow> None | Some j \<Rightarrow> load_context j ppid)
               }
         }
   }"

section \<open>Identity\<close>

definition CAP_SYS_ADMIN :: nat where "CAP_SYS_ADMIN = 21"

definition rx_parent_alive :: "'w rx_os \<Rightarrow> storage_context \<Rightarrow> ('w, bool) rxm" where
  "rx_parent_alive os c =
     (if parent c > 1 then do {
        p \<leftarrow> sys Ppid (sys_getppid os);
        State_Monad.return (p = parent c)
      } else State_Monad.return False)"

definition id_call :: "'w rx_os \<Rightarrow> id_op \<Rightarrow> ('w, bool) rxm" where
  "id_call os op = sys (Id op) (sys_id os op)"

text \<open>The calls of a list in order, up to the first that fails.\<close>

fun id_calls :: "'w rx_os \<Rightarrow> id_op list \<Rightarrow> ('w, bool) rxm" where
  "id_calls os [] = State_Monad.return True"
| "id_calls os (op # ops) = do {
     ok \<leftarrow> id_call os op;
     if ok then id_calls os ops else State_Monad.return False
   }"

text \<open>The bounding set from \<open>cap\<close> on, \<open>n\<close> capabilities left to try (line 38).\<close>

primrec drop_bounding :: "'w rx_os \<Rightarrow> bool \<Rightarrow> nat \<Rightarrow> nat \<Rightarrow> ('w, bool) rxm" where
  "drop_bounding os mount_only cap 0 = State_Monad.return True"
| "drop_bounding os mount_only cap (Suc n) = do {
     present \<leftarrow> sys (CapRead cap) (sys_capbset_read os cap);
     case present of
       Inl e \<Rightarrow> State_Monad.return (e = EINVAL)
     | Inr p \<Rightarrow>
         if p \<and> (\<not> mount_only \<or> cap \<noteq> CAP_SYS_ADMIN) then do {
           ok \<leftarrow> id_call os (CapDrop cap);
           if ok then drop_bounding os mount_only (cap + 1) n else State_Monad.return False
         }
         else drop_bounding os mount_only (cap + 1) n
   }"

definition ids_match :: "storage_context \<Rightarrow> ids option \<Rightarrow> bool" where
  "ids_match c i =
     (case i of
        None \<Rightarrow> False
      | Some i \<Rightarrow> ruid i = uid c \<and> euid i = uid c \<and> suid i = uid c \<and> rgid i = gid c \<and> egid i = gid c \<and> sgid i = gid c
          \<and> fsuid i = uid c \<and> fsgid i = gid c \<and> groups i = [gid c])"

text \<open>The numeric identity of an NFS task (lines 39-43).\<close>

definition nfs_identity :: "'w rx_os \<Rightarrow> storage_context \<Rightarrow> bool \<Rightarrow> ('w, bool) rxm" where
  "nfs_identity os c mount_only = do {
     ok \<leftarrow> id_calls os [KeepCaps mount_only, SetGroups (gid c), SetResGid (gid c), SetResUid (uid c)];
     if \<not> ok then State_Monad.return False
     else do {
       i \<leftarrow> sys Ids (sys_ids os);
       State_Monad.return (ids_match c i)
     }
   }"

definition rx_identity :: "'w rx_os \<Rightarrow> storage_context \<Rightarrow> bool \<Rightarrow> ('w, bool) rxm" where
  "rx_identity os c mount_only = do {
     ok \<leftarrow> id_call os AmbientClear;
     if \<not> ok then State_Monad.return False
     else do {
       ok \<leftarrow> drop_bounding os mount_only 0 64;
       if \<not> ok then State_Monad.return False
       else do {
         ok \<leftarrow> (if protocol c = ''nfs'' then nfs_identity os c mount_only
                else State_Monad.return (\<not> mount_only));
         if \<not> ok then State_Monad.return False
         else do {
           ok \<leftarrow> id_calls os [CapSet mount_only, NoNewPrivs, PDeathSig];
           if \<not> ok then State_Monad.return False else rx_parent_alive os c
         }
       }
     }
   }"

definition rx_clear_capabilities :: "'w rx_os \<Rightarrow> ('w, bool) rxm" where
  "rx_clear_capabilities os = id_call os (CapSet False)"

text \<open>Descriptors 3 to 6: none on a network file system or a device, all but the first pipes.\<close>

fun fd_contract_from :: "'w rx_os \<Rightarrow> fd \<Rightarrow> fd \<Rightarrow> fd \<Rightarrow> fd list \<Rightarrow> ('w, bool) rxm" where
  "fd_contract_from os request data result [] = State_Monad.return True"
| "fd_contract_from os request data result (f # fds) =
     (if f \<noteq> request \<and> f \<noteq> data \<and> f \<noteq> result \<and> f \<noteq> 3 then State_Monad.return False
      else do {
        st \<leftarrow> quiet (sys_fstat os f);
        fs \<leftarrow> (case st of None \<Rightarrow> State_Monad.return None | Some _ \<Rightarrow> quiet (sys_fstatfs os f));
        (case (st, fs) of
           (Some s, Some t) \<Rightarrow>
             if t = NFS_SUPER_MAGIC \<or> t = CIFS_SUPER_MAGIC \<or> t = SMB2_SUPER_MAGIC \<or> t = SMB_SUPER_MAGIC
                \<or> S_ISBLK (st_mode s) \<or> S_ISCHR (st_mode s) then State_Monad.return False
             else if f \<noteq> 3 \<and> \<not> S_ISFIFO (st_mode s) then State_Monad.return False
             else fd_contract_from os request data result fds
         | _ \<Rightarrow> State_Monad.return False)
      })"

definition rx_fd_contract :: "'w rx_os \<Rightarrow> fd \<Rightarrow> fd \<Rightarrow> fd \<Rightarrow> ('w, bool) rxm" where
  "rx_fd_contract os request data result = fd_contract_from os request data result [3, 4, 5, 6]"

section \<open>What a program adds to the trace\<close>

named_theorems logs_rules \<open>rules for what a program adds to the trace\<close>

text \<open>\<open>logs m R\<close>: run from any state, \<open>m\<close> appends to the trace a list that \<open>R\<close> relates to its result.\<close>

definition logs :: "('w, 'a) rxm \<Rightarrow> ('a \<Rightarrow> rx_event list \<Rightarrow> bool) \<Rightarrow> bool" where
  "logs m R \<longleftrightarrow> (\<forall>s. \<exists>new. trace (snd (run_state m s)) = trace s @ new \<and> R (fst (run_state m s)) new)"

lemma logsD: "logs m R \<Longrightarrow> run_state m s = (a, s') \<Longrightarrow> \<exists>new. trace s' = trace s @ new \<and> R a new"
  unfolding logs_def by (metis fst_conv snd_conv)

lemma logs_weaken: "logs m R \<Longrightarrow> (\<And>a new. R a new \<Longrightarrow> R' a new) \<Longrightarrow> logs m R'"
  unfolding logs_def by blast

lemma logs_bind_given:
  assumes "logs m R" "\<And>a n1. R a n1 \<Longrightarrow> logs (f a) (Q a)"
    and "\<And>a b n1 n2. R a n1 \<Longrightarrow> Q a b n2 \<Longrightarrow> T b (n1 @ n2)"
  shows "logs (State_Monad.bind m f) T"
  unfolding logs_def
proof
  fix s
  obtain a s1 where m: "run_state m s = (a, s1)" by fastforce
  obtain b s2 where f: "run_state (f a) s1 = (b, s2)" by fastforce
  obtain n1 where n1: "trace s1 = trace s @ n1" "R a n1" using logsD [OF assms(1) m] by blast
  obtain n2 where n2: "trace s2 = trace s1 @ n2" "Q a b n2" using logsD [OF assms(2) [OF n1(2)] f] by blast
  have "T b (n1 @ n2)" using assms(3) n1(2) n2(2) by blast
  with m f n1 n2 show "\<exists>new. trace (snd (run_state (State_Monad.bind m f) s)) = trace s @ new \<and> T (fst (run_state (State_Monad.bind m f) s)) new"
    by (intro exI [of _ "n1 @ n2"]) simp
qed

lemma logs_bind:
  assumes "logs m R" "\<And>a. logs (f a) (Q a)"
    and "\<And>a b n1 n2. R a n1 \<Longrightarrow> Q a b n2 \<Longrightarrow> T b (n1 @ n2)"
  shows "logs (State_Monad.bind m f) T"
  using assms by (rule logs_bind_given)

lemma logs_return: "R x [] \<Longrightarrow> logs (State_Monad.return x) R"
  by (simp add: logs_def)

lemma logs_quiet: "(\<And>a. R a []) \<Longrightarrow> logs (quiet f) R"
  by (auto simp: logs_def quiet_def split: prod.splits)

lemma logs_note: "R () [e] \<Longrightarrow> logs (note_ev e) R"
  by (simp add: logs_def note_ev_def)

lemma logs_sys: "(\<And>a. R a [ev a]) \<Longrightarrow> logs (sys ev f) R"
  by (auto simp: logs_def sys_def quiet_def note_ev_def split: prod.splits)

lemma logs_if: "(b \<Longrightarrow> logs m R) \<Longrightarrow> (\<not> b \<Longrightarrow> logs n R) \<Longrightarrow> logs (if b then m else n) R"
  by simp

lemma logs_case_option:
  "(x = None \<Longrightarrow> logs m R) \<Longrightarrow> (\<And>y. x = Some y \<Longrightarrow> logs (f y) R) \<Longrightarrow> logs (case x of None \<Rightarrow> m | Some y \<Rightarrow> f y) R"
  by (cases x) auto

lemma logs_case_sum:
  "(\<And>y. x = Inl y \<Longrightarrow> logs (g y) R) \<Longrightarrow> (\<And>y. x = Inr y \<Longrightarrow> logs (f y) R) \<Longrightarrow> logs (case x of Inl y \<Rightarrow> g y | Inr y \<Rightarrow> f y) R"
  by (cases x) auto

lemma logs_case_list:
  "(x = [] \<Longrightarrow> logs m R) \<Longrightarrow> (\<And>y ys. x = y # ys \<Longrightarrow> logs (f y ys) R) \<Longrightarrow> logs (case x of [] \<Rightarrow> m | y # ys \<Rightarrow> f y ys) R"
  by (cases x) auto

lemma logs_case_prod: "(\<And>y z. x = (y, z) \<Longrightarrow> logs (f y z) R) \<Longrightarrow> logs (case x of (y, z) \<Rightarrow> f y z) R"
  by (cases x) auto

lemma logs_let: "(\<And>y. y = x \<Longrightarrow> logs (f y) R) \<Longrightarrow> logs (let y = x in f y) R"
  by simp

lemmas logs_branch = logs_if logs_case_option logs_case_sum logs_case_list logs_case_prod logs_let

text \<open>Two steps of which the second is made only if the first succeeds.\<close>

lemma logs_and:
  assumes "logs m (\<lambda>ok new. ok \<longrightarrow> R new)" "logs k (\<lambda>ok new. ok \<longrightarrow> Q new)"
    and "\<And>n1 n2. R n1 \<Longrightarrow> Q n2 \<Longrightarrow> T (n1 @ n2)"
  shows "logs (do { ok \<leftarrow> m; if \<not> ok then State_Monad.return False else k }) (\<lambda>ok new. ok \<longrightarrow> T new)"
proof (rule logs_bind [OF assms(1)])
  fix ok
  show "logs (if \<not> ok then State_Monad.return False else k) (\<lambda>r new. r \<longrightarrow> ok \<and> Q new)"
    by (rule logs_if) (auto intro: logs_return logs_weaken [OF assms(2)])
qed (use assms(3) in blast)

lemma logs_none: "logs (State_Monad.return None) (\<lambda>r new. \<forall>d. r = Some d \<longrightarrow> Q d new)"
  by (rule logs_return) simp

lemma logs_unless:
  assumes "logs m (\<lambda>ok new. ok \<longrightarrow> R new)" "logs k (\<lambda>r new. \<forall>d. r = Some d \<longrightarrow> Q d new)"
    and "\<And>d n1 n2. R n1 \<Longrightarrow> Q d n2 \<Longrightarrow> T d (n1 @ n2)"
  shows "logs (do { ok \<leftarrow> m; if \<not> ok then State_Monad.return None else k }) (\<lambda>r new. \<forall>d. r = Some d \<longrightarrow> T d new)"
proof (rule logs_bind [OF assms(1)])
  fix ok
  show "logs (if \<not> ok then State_Monad.return None else k) (\<lambda>r new. \<forall>d. r = Some d \<longrightarrow> ok \<and> Q d new)"
    by (rule logs_if [OF logs_none]) (auto intro: logs_weaken [OF assms(2)])
qed (auto intro: assms(3))

lemma logs_opt:
  assumes "logs m (\<lambda>r new. \<forall>x. r = Some x \<longrightarrow> R x new)" "\<And>x. logs (k x) (\<lambda>r new. \<forall>d. r = Some d \<longrightarrow> Q x d new)"
    and "\<And>x d n1 n2. R x n1 \<Longrightarrow> Q x d n2 \<Longrightarrow> T d (n1 @ n2)"
  shows "logs (do { r \<leftarrow> m; case r of None \<Rightarrow> State_Monad.return None | Some x \<Rightarrow> k x }) (\<lambda>r new. \<forall>d. r = Some d \<longrightarrow> T d new)"
proof (rule logs_bind [OF assms(1)])
  fix r
  show "logs (case r of None \<Rightarrow> State_Monad.return None | Some x \<Rightarrow> k x) (\<lambda>q new. \<forall>d. q = Some d \<longrightarrow> (\<exists>x. r = Some x \<and> Q x d new))"
    by (rule logs_case_option [OF logs_none]) (auto intro: logs_weaken [OF assms(2)])
next
  fix r q n1 n2
  assume "\<forall>x. r = Some x \<longrightarrow> R x n1" "\<forall>d. q = Some d \<longrightarrow> (\<exists>x. r = Some x \<and> Q x d n2)"
  then show "\<forall>d. q = Some d \<longrightarrow> T d (n1 @ n2)" using assms(3) by fast
qed

lemma if_not_swap: "(if ok then k else n) = (if \<not> ok then n else k)"
  by simp

text \<open>
  \<open>keeps P m\<close>: every event that \<open>m\<close> adds satisfies \<open>P\<close>.
\<close>

definition keeps :: "(rx_event \<Rightarrow> bool) \<Rightarrow> ('w, 'a) rxm \<Rightarrow> bool" where
  "keeps P m \<longleftrightarrow> logs m (\<lambda>_ new. list_all P new)"

lemma keeps_bind [logs_rules]: "keeps P m \<Longrightarrow> (\<And>a. keeps P (f a)) \<Longrightarrow> keeps P (State_Monad.bind m f)"
  unfolding keeps_def by (erule logs_bind) auto

lemma keeps_return [logs_rules]: "keeps P (State_Monad.return x)"
  unfolding keeps_def by (rule logs_return) simp

lemma keeps_quiet [logs_rules]: "keeps P (quiet f)"
  unfolding keeps_def by (rule logs_quiet) simp

lemma keeps_note [logs_rules]: "P e \<Longrightarrow> keeps P (note_ev e)"
  unfolding keeps_def by (rule logs_note) simp

lemma keeps_sys [logs_rules]: "(\<And>a. P (ev a)) \<Longrightarrow> keeps P (sys ev f)"
  unfolding keeps_def by (rule logs_sys) simp

lemmas keeps_branch [logs_rules] = logs_branch [where R = "\<lambda>_ new. list_all P new" for P, folded keeps_def]

lemma keeps_logs: "keeps P m \<Longrightarrow> logs m (\<lambda>_ new. list_all P new)"
  by (simp add: keeps_def)

section \<open>What the calls of this theory add\<close>

text \<open>The events of talking to the controller: no file is touched.\<close>

fun talk :: "fd \<Rightarrow> rx_event \<Rightarrow> bool" where
  "talk f (Emit j b) = True"
| "talk f (Line r) = True"
| "talk f (Ppid p) = True"
| "talk f (Write g b) = (g = f)"
| "talk f e = False"

lemma write_all_keeps: "(\<And>b. P (Write f b)) \<Longrightarrow> keeps P (rx_write_all os f data)"
proof (induction os f data rule: rx_write_all.induct)
  case (1 os f data)
  show ?case
    by (subst rx_write_all.simps) (intro logs_rules 1; assumption)
qed

lemma read_loop_keeps: "keeps P (rx_read_loop os f line room b)"
  by (induction room arbitrary: b) (auto intro!: logs_rules)

lemma read_json_keeps: "(\<And>r. P (Line r)) \<Longrightarrow> keeps P (rx_read_json os jc f room line)"
  unfolding rx_read_json_def by (intro logs_rules read_loop_keeps)

lemma emit_keeps: "(\<And>b. P (Emit j b)) \<Longrightarrow> (\<And>b. P (Write f b)) \<Longrightarrow> keeps P (rx_emit os jc f j)"
  unfolding rx_emit_def by (intro logs_rules write_all_keeps)

lemma parent_alive_keeps: "(\<And>p. P (Ppid p)) \<Longrightarrow> keeps P (rx_parent_alive os c)"
  unfolding rx_parent_alive_def by (intro logs_rules)

text \<open>All that a successful write adds are its bytes, in order.\<close>

fun written :: "fd \<Rightarrow> rx_event list \<Rightarrow> string" where
  "written f [] = []"
| "written f (Write g b # es) = (if g = f then b @ written f es else written f es)"
| "written f (e # es) = written f es"

lemma written_append [simp]: "written f (xs @ ys) = written f xs @ written f ys"
  by (induction f xs rule: written.induct) auto

lemma write_all_logs:
  "logs (rx_write_all os f data) (\<lambda>ok new. list_all (\<lambda>e. \<exists>b. e = Write f b) new \<and> (ok \<longrightarrow> written f new = data))"
proof (induction os f data rule: rx_write_all.induct)
  case (1 os f data)
  show ?case
  proof (cases "data = []")
    case True
    then show ?thesis by (subst rx_write_all.simps) (simp add: logs_return)
  next
    case False
    let ?W = "\<lambda>r. Write f (case r of None \<Rightarrow> [] | Some n \<Rightarrow> take n data)"
    show ?thesis
      unfolding rx_write_all.simps [of os f data] if_not_P [OF False]
    proof (rule logs_bind [OF logs_sys [where R = "\<lambda>r new. new = [?W r]"]])
      fix r :: "nat option"
      show "logs (case r of None \<Rightarrow> State_Monad.return False
                | Some n \<Rightarrow> if n = 0 then State_Monad.return False else rx_write_all os f (drop n data))
             (\<lambda>ok new. list_all (\<lambda>e. \<exists>b. e = Write f b) new \<and> (ok \<longrightarrow> (\<exists>n. r = Some n \<and> written f new = drop n data)))"
      proof (rule logs_case_option)
        fix n assume r: "r = Some n"
        show "logs (if n = 0 then State_Monad.return False else rx_write_all os f (drop n data))
             (\<lambda>ok new. list_all (\<lambda>e. \<exists>b. e = Write f b) new \<and> (ok \<longrightarrow> (\<exists>n. r = Some n \<and> written f new = drop n data)))"
        proof (rule logs_if)
          assume n: "n \<noteq> 0"
          show "logs (rx_write_all os f (drop n data))
             (\<lambda>ok new. list_all (\<lambda>e. \<exists>b. e = Write f b) new \<and> (ok \<longrightarrow> (\<exists>n. r = Some n \<and> written f new = drop n data)))"
            using r by (intro logs_weaken [OF 1 [OF False n]]) auto
        qed (simp add: logs_return)
      qed (simp add: logs_return)
    qed auto
  qed
qed

section \<open>The change of identity\<close>

lemma id_call_logs: "logs (id_call os op) (\<lambda>ok new. ok \<longrightarrow> new = [Id op True])"
  unfolding id_call_def by (rule logs_sys) simp

lemma id_calls_logs: "logs (id_calls os ops) (\<lambda>ok new. ok \<longrightarrow> new = map (\<lambda>op. Id op True) ops)"
proof (induction ops)
  case (Cons op ops)
  show ?case
    unfolding id_calls.simps if_not_swap [of _ "id_calls os ops"] by (rule logs_and [OF id_call_logs Cons]) simp
qed (simp add: logs_return)

text \<open>
  The capabilities from \<open>cap\<close> on have been asked for one by one, up to the first the kernel does not
  know or \<open>n\<close> of them, and each one present has been dropped (but \<open>CAP_SYS_ADMIN\<close> where it is kept).
\<close>

fun bounding_dropped :: "bool \<Rightarrow> nat \<Rightarrow> nat \<Rightarrow> rx_event list \<Rightarrow> bool" where
  "bounding_dropped keep cap 0 es \<longleftrightarrow> es = []"
| "bounding_dropped keep cap (Suc n) es \<longleftrightarrow>
     es = [CapRead cap (Inl EINVAL)]
     \<or> (\<exists>p rest. es = CapRead cap (Inr p) # (if p \<and> (\<not> keep \<or> cap \<noteq> CAP_SYS_ADMIN) then [Id (CapDrop cap) True] else []) @ rest
          \<and> bounding_dropped keep (cap + 1) n rest)"

lemma drop_bounding_logs: "logs (drop_bounding os keep cap n) (\<lambda>ok new. ok \<longrightarrow> bounding_dropped keep cap n new)"
proof (induction n arbitrary: cap)
  case 0
  show ?case by (simp add: logs_return)
next
  case (Suc n)
  let ?B = "bounding_dropped keep"
  show ?case
    unfolding drop_bounding.simps
  proof (rule logs_bind [OF logs_sys [where R = "\<lambda>r new. new = [CapRead cap r]"]])
    fix r :: "errno + bool"
    let ?R = "\<lambda>ok new. ok \<longrightarrow> ?B cap (Suc n) (CapRead cap r # new)"
    let ?D = "do { ok \<leftarrow> id_call os (CapDrop cap); if ok then drop_bounding os keep (cap + 1) n else State_Monad.return False }"
    have dropped: "logs ?D (\<lambda>ok new. ok \<longrightarrow> (\<exists>rest. new = Id (CapDrop cap) True # rest \<and> ?B (cap + 1) n rest))"
      unfolding if_not_swap [of _ "drop_bounding os keep (cap + 1) n"] by (rule logs_and [OF id_call_logs Suc]) simp
    show "logs (case r of Inl e \<Rightarrow> State_Monad.return (e = EINVAL)
         | Inr p \<Rightarrow> if p \<and> (\<not> keep \<or> cap \<noteq> CAP_SYS_ADMIN) then ?D else drop_bounding os keep (cap + 1) n) ?R"
    proof (intro logs_case_sum logs_if, goal_cases)
      case (2 p)
      then show ?case by (intro logs_weaken [OF dropped]) auto
    next
      case (3 p)
      then show ?case by (intro logs_weaken [OF Suc]) auto
    qed (auto intro: logs_return)
  qed simp_all
qed

text \<open>
  The events of a completed change of identity: the ambient and the bounding set emptied, for NFS the
  groups, group and user ids set in this order and read back, then capabilities, \<open>no_new_privs\<close> and
  the death signal, and the parent still there.
\<close>

definition nfs_done :: "storage_context \<Rightarrow> bool \<Rightarrow> rx_event list \<Rightarrow> bool" where
  "nfs_done c keep es =
     (if protocol c = ''nfs''
      then \<exists>i. es = [Id (KeepCaps keep) True, Id (SetGroups (gid c)) True, Id (SetResGid (gid c)) True, Id (SetResUid (uid c)) True, Ids i]
             \<and> ids_match c i
      else es = [] \<and> \<not> keep)"

definition identity_done :: "storage_context \<Rightarrow> bool \<Rightarrow> rx_event list \<Rightarrow> bool" where
  "identity_done c keep es \<longleftrightarrow>
     (\<exists>drops nfs. es = [Id AmbientClear True] @ drops @ nfs @ [Id (CapSet keep) True, Id NoNewPrivs True, Id PDeathSig True, Ppid (parent c)]
        \<and> bounding_dropped keep 0 64 drops \<and> nfs_done c keep nfs)"

lemma nfs_identity_logs:
  "logs (nfs_identity os c keep) (\<lambda>ok new. ok \<longrightarrow>
     (\<exists>i. new = [Id (KeepCaps keep) True, Id (SetGroups (gid c)) True, Id (SetResGid (gid c)) True, Id (SetResUid (uid c)) True, Ids i]
        \<and> ids_match c i))"
proof -
  have "logs (do { i \<leftarrow> sys Ids (sys_ids os); State_Monad.return (ids_match c i) }) (\<lambda>ok new. ok \<longrightarrow> (\<exists>i. new = [Ids i] \<and> ids_match c i))"
    by (rule logs_bind [OF logs_sys [where R = "\<lambda>r new. new = [Ids r]"]
       logs_return [where R = "\<lambda>r new. r = ids_match c i \<and> new = []" for i]]) auto
  then show ?thesis
    unfolding nfs_identity_def by (rule logs_and [OF id_calls_logs]) auto
qed

lemma parent_alive_logs: "logs (rx_parent_alive os c) (\<lambda>ok new. ok \<longrightarrow> new = [Ppid (parent c)])"
  unfolding rx_parent_alive_def
  by (intro logs_if logs_bind [OF logs_sys [where R = "\<lambda>r new. new = [Ppid r]"]
      logs_return [where R = "\<lambda>r new. r = (p = parent c) \<and> new = []" for p]]) (auto intro: logs_return)

lemma rx_identity_logs: "logs (rx_identity os c keep) (\<lambda>ok new. ok \<longrightarrow> identity_done c keep new)"
proof -
  let ?T = "[Id (CapSet keep) True, Id NoNewPrivs True, Id PDeathSig True, Ppid (parent c)]"
  have nfs: "logs (if protocol c = ''nfs'' then nfs_identity os c keep else State_Monad.return (\<not> keep))
      (\<lambda>ok new. ok \<longrightarrow> nfs_done c keep new)"
    by (rule logs_if) (auto intro: logs_weaken [OF nfs_identity_logs] logs_return simp: nfs_done_def)
  show ?thesis
    unfolding rx_identity_def
    by (rule logs_and [OF id_call_logs logs_and [OF drop_bounding_logs
          logs_and [OF nfs logs_and [where T = "\<lambda>new. new = ?T", OF id_calls_logs parent_alive_logs], where T = "\<lambda>new. \<exists>n. new = n @ ?T \<and> nfs_done c keep n"],
          where T = "\<lambda>new. \<exists>d n. new = d @ n @ ?T \<and> bounding_dropped keep 0 64 d \<and> nfs_done c keep n"]])
       (auto simp: identity_done_def)
qed

end
