(* ===== verification/StorageFs.thy ===== *)
theory StorageFs
  imports StorageSys
begin

text \<open>
  \<open>storage_fs.c\<close>: the commands of the storage helper.  A command names an operation and a path below
  the mounted share.  The helper announces it, waits for the controller to acknowledge it with a proof
  (the identity of every directory on the way, by the digest of its path), walks to the object one
  name at a time comparing each with its proof, does the operation, and reports the result for a second
  acknowledgement.  A routine that may fail gives an option or a bool; the jumps to \<open>out\<close> are the
  results of the three branches of \<open>rx_command\<close>, which hand over the descriptors left to close.
\<close>

record storage_fs =
  ctx :: storage_context
  root :: fd
  result :: fd
  root_stat :: statx
  last_count :: nat
  last_sequence :: u64

section \<open>Objects and their proofs\<close>

definition statx_wanted :: u32 where "statx_wanted = 0x3C3"

definition rx_stat_fd :: "'w rx_os \<Rightarrow> fd \<Rightarrow> ('w, statx option) rxm" where
  "rx_stat_fd os f = do {
     r \<leftarrow> sys (Statx f) (sys_statx os f);
     State_Monad.return (case r of
       None \<Rightarrow> None
     | Some s \<Rightarrow> if stx_mask s AND statx_wanted \<noteq> statx_wanted then None else Some s)
   }"

definition is_dir :: "statx \<Rightarrow> bool" where "is_dir s = S_ISDIR (ucast (stx_mode s))"
definition is_reg :: "statx \<Rightarrow> bool" where "is_reg s = S_ISREG (ucast (stx_mode s))"

definition same_runtime :: "statx \<Rightarrow> statx \<Rightarrow> bool" where
  "same_runtime a b \<longleftrightarrow> stx_ino a = stx_ino b \<and> stx_dev_major a = stx_dev_major b \<and> stx_dev_minor a = stx_dev_minor b
     \<and> stx_mode a = stx_mode b \<and> stx_size a = stx_size b \<and> mtime_sec a = mtime_sec b \<and> mtime_nsec a = mtime_nsec b
     \<and> ctime_sec a = ctime_sec b \<and> ctime_nsec a = ctime_nsec b"

definition hex_char :: "nat \<Rightarrow> char" where
  "hex_char d = (if d < 10 then char_of (48 + d) else char_of (87 + d))"

text \<open>\<open>%llx\<close>, and the \<open>%02x\<close> of every byte of a digest.\<close>

fun hex_text :: "nat \<Rightarrow> string" where
  "hex_text n = (if n < 16 then [hex_char n] else hex_text (n div 16) @ [hex_char (n mod 16)])"

declare hex_text.simps [simp del]

definition hex_bytes :: "string \<Rightarrow> string" where
  "hex_bytes d = concat (map (\<lambda>c. [hex_char (of_char c div 16), hex_char (of_char c mod 16)]) d)"

definition json_object_object_add :: "json \<Rightarrow> string \<Rightarrow> json \<Rightarrow> json" where
  "json_object_object_add j k v =
     (case j of
        JObject kvs \<Rightarrow> JObject (if k \<in> fst ` set kvs then map (\<lambda>e. if fst e = k then (k, v) else e) kvs else kvs @ [(k, v)])
      | _ \<Rightarrow> j)"

definition rx_node_json :: "statx \<Rightarrow> json" where
  "rx_node_json s = JObject
     [(''fileId'', JString (hex_text (unat (stx_ino s)))),
      (''kind'', JString (if is_dir s then ''dir'' else if is_reg s then ''file'' else ''unsafe'')),
      (''size'', JString (dec (unat (stx_size s))))]"

definition rx_fs_open :: "'w rx_os \<Rightarrow> storage_context \<Rightarrow> u64 \<Rightarrow> ('w, storage_fs option) rxm" where
  "rx_fs_open os c sq = do {
     r \<leftarrow> sys OpenStorage (sys_open_storage os);
     case r of
       None \<Rightarrow> State_Monad.return None
     | Some f \<Rightarrow> do {
         s \<leftarrow> rx_stat_fd os f;
         State_Monad.return (case s of
           None \<Rightarrow> None
         | Some st \<Rightarrow> Some \<lparr>ctx = c, root = f, result = 0, root_stat = st, last_count = 0, last_sequence = sq\<rparr>)
       }
   }"

definition proof_key :: "'w rx_os \<Rightarrow> jsonc \<Rightarrow> string \<Rightarrow> ('w, string option) rxm" where
  "proof_key os jc path = do {
     ok \<leftarrow> quiet (evp_step os);
     let digest = sha256 jc path;
     State_Monad.return (if ok \<and> length digest = 32 then Some (hex_bytes digest) else None)
   }"

text \<open>Whether the entry \<open>p\<close> of a proof describes the object \<open>s\<close>.\<close>

definition entry_matches :: "json \<Rightarrow> statx \<Rightarrow> bool" where
  "entry_matches p s =
     (case (rx_string p ''fileId'' 16, rx_string p ''kind'' 4) of
        (Some file_id, Some kind) \<Rightarrow>
          if file_id \<noteq> hex_text (unat (stx_ino s)) then False
          else if kind = ''dir'' then is_dir s
          else if kind \<noteq> ''file'' \<or> \<not> is_reg s then False
          else (case (rx_string p ''size'' 20, rx_string p ''mtimeSec'' 21, rx_string p ''mtimeNsec'' 9) of
                  (Some len, Some seconds, Some nanos) \<Rightarrow>
                    len = dec (unat (stx_size s)) \<and> seconds = int_text (mtime_sec s) \<and> nanos = snprintf 10 (dec (unat (mtime_nsec s)))
                | _ \<Rightarrow> False)
      | _ \<Rightarrow> False)"

definition proof_matches :: "'w rx_os \<Rightarrow> jsonc \<Rightarrow> json \<Rightarrow> string \<Rightarrow> statx \<Rightarrow> ('w, bool) rxm" where
  "proof_matches os jc prf path s = do {
     key \<leftarrow> proof_key os jc path;
     State_Monad.return (case key of
       None \<Rightarrow> False
     | Some k \<Rightarrow> (case json_object_object_get_ex prf k of None \<Rightarrow> False | Some p \<Rightarrow> entry_matches p s))
   }"

section \<open>Paths\<close>

definition contained :: "string \<Rightarrow> string \<Rightarrow> bool" where
  "contained base path \<longleftrightarrow> prefixb base path \<and> (case drop (length base) path of [] \<Rightarrow> True | c # _ \<Rightarrow> c = slash)"

definition path_allowed :: "storage_context \<Rightarrow> string \<Rightarrow> bool \<Rightarrow> bool" where
  "path_allowed c path mutate =
     (if \<not> rx_relative (Some path) True then False
      else if \<not> mutate then path = [] \<or> contained (image_path c) path \<or> contained (stage c) path \<or> contained (lock c) path
      else if rx_string (owner c) ''taskType'' 7 \<noteq> Some ''capture'' then False
      else contained (stage c) path \<or> contained (lock c) path \<or> contained (image_path c) path
        \<or> path = ''dev'' \<or> path = ''.locks''
        \<or> (prefixb path (stage c) \<and> (case drop (length path) (stage c) of [] \<Rightarrow> False | ch # _ \<Rightarrow> ch = slash)))"

text \<open>The names of a path as \<open>strtok_r\<close> gives them.\<close>

definition names_of :: "string \<Rightarrow> string list" where
  "names_of path = filter (\<lambda>a. a \<noteq> []) (split_at slash path)"

text \<open>The check of one object on the way; \<open>foreign\<close> tells objects that are not on the share.\<close>

definition check_object :: "'w rx_os \<Rightarrow> jsonc \<Rightarrow> json \<Rightarrow> string \<Rightarrow> (statx \<Rightarrow> bool) \<Rightarrow> fd \<Rightarrow> ('w, bool) rxm" where
  "check_object os jc prf path foreign f = do {
     st \<leftarrow> rx_stat_fd os f;
     case st of
       None \<Rightarrow> State_Monad.return False
     | Some s \<Rightarrow> if foreign s then State_Monad.return False else proof_matches os jc prf path s
   }"

definition other_device :: "storage_fs \<Rightarrow> statx \<Rightarrow> bool" where
  "other_device fs s \<longleftrightarrow> stx_dev_major s \<noteq> stx_dev_major (root_stat fs) \<or> stx_dev_minor s \<noteq> stx_dev_minor (root_stat fs)"

text \<open>The loop of \<open>open_bound\<close>: \<open>f\<close> is the directory reached, \<open>prefix\<close> its path.\<close>

fun walk :: "'w rx_os \<Rightarrow> jsonc \<Rightarrow> storage_fs \<Rightarrow> json \<Rightarrow> open_flags \<Rightarrow> fd \<Rightarrow> string \<Rightarrow> string list \<Rightarrow> ('w, fd option) rxm" where
  "walk os jc fs prf flags f prefix [] = State_Monad.return (Some f)"
| "walk os jc fs prf flags f prefix (part # rest) = do {
     let prefix' = (if prefix = [] then part else prefix @ slash # part);
     let fl = (if rest \<noteq> [] then O_DIR else flags);
     r \<leftarrow> sys (Openat f part fl) (sys_openat os f part fl);
     case r of
       None \<Rightarrow> do { sys (Close f) (sys_close os f); State_Monad.return None }
     | Some child \<Rightarrow> do {
         sys (Close f) (sys_close os f);
         ok \<leftarrow> check_object os jc prf prefix' (other_device fs) child;
         if ok then walk os jc fs prf flags child prefix' rest
         else do { sys (Close child) (sys_close os child); State_Monad.return None }
       }
   }"

definition open_bound :: "'w rx_os \<Rightarrow> jsonc \<Rightarrow> storage_fs \<Rightarrow> string \<Rightarrow> json \<Rightarrow> open_flags \<Rightarrow> ('w, fd option) rxm" where
  "open_bound os jc fs path prf flags =
     (if \<not> rx_relative (Some path) True then State_Monad.return None
      else do {
        r \<leftarrow> sys (Dup (root fs)) (sys_dup os (root fs));
        (case r of
           None \<Rightarrow> State_Monad.return None
         | Some f \<Rightarrow> do {
             ok \<leftarrow> check_object os jc prf [] (\<lambda>_. False) f;
             if ok then walk os jc fs prf flags f [] (names_of path)
             else do { sys (Close f) (sys_close os f); State_Monad.return None }
           })
      })"

definition last_name :: "string \<Rightarrow> string" where
  "last_name path = rev (takeWhile (\<lambda>c. c \<noteq> slash) (rev path))"

definition parent_path :: "string \<Rightarrow> string" where
  "parent_path path = (if slash \<in> set path then take (length path - length (last_name path) - 1) path else [])"

definition bound_parent :: "'w rx_os \<Rightarrow> jsonc \<Rightarrow> storage_fs \<Rightarrow> string \<Rightarrow> json \<Rightarrow> ('w, fd option) rxm" where
  "bound_parent os jc fs path prf = open_bound os jc fs (parent_path path) prf O_DIR"

section \<open>Acknowledgements\<close>

definition event_for :: "storage_context \<Rightarrow> string \<Rightarrow> string \<Rightarrow> string \<Rightarrow> string option \<Rightarrow> u64 \<Rightarrow> json" where
  "event_for c phase op path to sq = JObject
     ([(''event'', JString phase), (''operation'', JString op), (''path'', JString path)]
      @ (case to of None \<Rightarrow> [] | Some t \<Rightarrow> if t = [] then [] else [(''to'', JString t)])
      @ [(''sequence'', JString (dec (unat sq))), (''execution'', owner c)])"

text \<open>The answer \<open>a\<close> carries the number, the owner and a proof.\<close>

definition ack_basic :: "jsonc \<Rightarrow> storage_context \<Rightarrow> json \<Rightarrow> json \<Rightarrow> json option" where
  "ack_basic jc c event a =
     (case (rx_string event ''sequence'' 20, rx_string a ''sequence'' 20) of
        (Some sq, Some asq) \<Rightarrow>
          if rx_string a ''event'' 8 = Some ''ack'' \<and> sq = asq then
            (case (json_object_object_get_ex a ''execution'', json_object_object_get_ex a ''proof'') of
               (Some own, Some p) \<Rightarrow> if json_object_equal jc own (owner c) \<and> is_object p then Some p else None
             | _ \<Rightarrow> None)
          else None
      | _ \<Rightarrow> None)"

definition same_string :: "string option \<Rightarrow> string option \<Rightarrow> bool" where
  "same_string a b = (case (a, b) of (Some x, Some y) \<Rightarrow> x = y | _ \<Rightarrow> False)"

text \<open>and repeats operation, path, phase and destination of the event.\<close>

definition ack_repeats :: "json \<Rightarrow> json \<Rightarrow> bool" where
  "ack_repeats event a \<longleftrightarrow>
     same_string (rx_string event ''operation'' 24) (rx_string a ''operation'' 24)
     \<and> same_string (rx_string event ''path'' 4095) (rx_string a ''path'' 4095)
     \<and> same_string (rx_string event ''event'' 8) (rx_string a ''phase'' 8)
     \<and> (rx_string event ''to'' 4095 = rx_string a ''to'' 4095)"

definition ack_answer :: "'w rx_os \<Rightarrow> jsonc \<Rightarrow> storage_context \<Rightarrow> json \<Rightarrow> json \<Rightarrow> ('w, json option) rxm" where
  "ack_answer os jc c event a =
     (case ack_basic jc c event a of
        None \<Rightarrow> State_Monad.return None
      | Some p \<Rightarrow> do {
          alive \<leftarrow> rx_parent_alive os c;
          State_Monad.return (if alive \<and> ack_repeats event a then Some p else None)
        })"

definition ack :: "'w rx_os \<Rightarrow> jsonc \<Rightarrow> storage_context \<Rightarrow> json \<Rightarrow> fd \<Rightarrow> fd \<Rightarrow> ('w, json option) rxm" where
  "ack os jc c event request res = do {
     alive \<leftarrow> rx_parent_alive os c;
     if \<not> alive then State_Monad.return None
     else do {
       sent \<leftarrow> rx_emit os jc res event;
       if \<not> sent then State_Monad.return None
       else do {
         a \<leftarrow> rx_read_json os jc request RX_COMMAND_MAX True;
         case a of
           None \<Rightarrow> State_Monad.return None
         | Some a \<Rightarrow> ack_answer os jc c event a
       }
     }
   }"

section \<open>Streaming a file\<close>

definition stream_progress :: "'w rx_os \<Rightarrow> jsonc \<Rightarrow> storage_fs \<Rightarrow> string \<Rightarrow> nat \<Rightarrow> ('w, bool) rxm" where
  "stream_progress os jc fs stg n =
     rx_emit os jc (result fs) (JObject [(''event'', JString ''progress''), (''stage'', JString stg), (''bytes'', JString (dec n))])"

text \<open>The progress mark after \<open>n\<close> bytes: a new one is announced, \<open>None\<close> if that fails.\<close>

definition mark_progress :: "'w rx_os \<Rightarrow> jsonc \<Rightarrow> storage_fs \<Rightarrow> string \<Rightarrow> nat \<Rightarrow> nat \<Rightarrow> ('w, nat option) rxm" where
  "mark_progress os jc fs stg n progress =
     (if n - progress \<ge> 1048576 then do {
        ok \<leftarrow> stream_progress os jc fs stg n;
        State_Monad.return (if ok then Some n else None)
      } else State_Monad.return (Some progress))"

text \<open>
  A read whose attempts are each preceded by the check that the controller is alive (the
  \<open>continue\<close> of the loop); \<open>None\<close> when it is gone.  No more than \<open>want\<close> bytes arrive.
\<close>

primrec read_alive :: "'w rx_os \<Rightarrow> storage_context \<Rightarrow> ('w, 'a) syscall \<Rightarrow> 'w rx \<Rightarrow> 'a option \<times> 'w rx" where
  "read_alive os c (Ret a w) s = (Some a, s\<lparr>world := w\<rparr>)"
| "read_alive os c (Eintr w k) s =
     (case run_state (rx_parent_alive os c) (s\<lparr>world := w\<rparr>) of
        (alive, s') \<Rightarrow> if alive then read_alive os c (k (world s')) s' else (None, s'))"

definition stream_read :: "'w rx_os \<Rightarrow> storage_context \<Rightarrow> fd \<Rightarrow> nat \<Rightarrow> ('w, string option) rxm" where
  "stream_read os c f want = do {
     r \<leftarrow> State (\<lambda>s. read_alive os c (sys_read os f want (world s)) s);
     let b = (case r of Some (Some b) \<Rightarrow> Some (take want b) | _ \<Rightarrow> None);
     note_ev (Read f b);
     State_Monad.return b
   }"

definition stream_want :: "bool \<Rightarrow> nat \<Rightarrow> nat \<Rightarrow> nat \<Rightarrow> nat" where
  "stream_want writing limit file_size n =
     (if \<not> writing then min RX_DATA_MAX (file_size - n)
      else if limit \<noteq> 0 then min RX_DATA_MAX (limit - n) else RX_DATA_MAX)"

text \<open>
  The copy loop, \<open>n\<close> bytes done: the bytes copied, or \<open>None\<close>.  A 64-bit count never overflows, since
  the loop stops before it passes \<open>INT64_MAX\<close>; so a natural number stands for it.
\<close>

function stream_loop :: "'w rx_os \<Rightarrow> jsonc \<Rightarrow> storage_fs \<Rightarrow> fd \<Rightarrow> fd \<Rightarrow> bool \<Rightarrow> nat \<Rightarrow> nat \<Rightarrow> nat \<Rightarrow> nat \<Rightarrow> string
    \<Rightarrow> ('w, string option) rxm" where
  "stream_loop os jc fs f data writing limit file_size n progress hashed = do {
     alive \<leftarrow> rx_parent_alive os (ctx fs);
     if \<not> alive then State_Monad.return None
     else let want = stream_want writing limit file_size n in
       if want = 0 then State_Monad.return (Some hashed)
       else do {
         r \<leftarrow> stream_read os (ctx fs) (if writing then data else f) want;
         case r of
           None \<Rightarrow> State_Monad.return None
         | Some b \<Rightarrow>
             if b = [] then State_Monad.return (if writing then Some hashed else None)
             else if n + length b > 9223372036854775807 then State_Monad.return None
             else do {
               ok \<leftarrow> rx_write_all os (if writing then f else data) b;
               if \<not> ok then State_Monad.return None
               else do {
                 ok \<leftarrow> quiet (evp_step os);
                 if \<not> ok then State_Monad.return None
                 else do {
                   p \<leftarrow> mark_progress os jc fs (if writing then ''write'' else ''read'') (n + length b) progress;
                   case p of
                     None \<Rightarrow> State_Monad.return None
                   | Some progress' \<Rightarrow>
                       stream_loop os jc fs f data writing limit file_size (n + length b) progress' (hashed @ b)
                 }
               }
             }
       }
   }"
  by pat_completeness auto
termination
  by (relation "measure (\<lambda>(os, jc, fs, f, data, writing, limit, file_size, n, progress, hashed). 9223372036854775808 - n)")
    (auto simp flip: length_greater_0_conv)

declare stream_loop.simps [simp del]

text \<open>The file read again from its start, \<open>n\<close> of \<open>total_len\<close> bytes done.\<close>

function readback_loop :: "'w rx_os \<Rightarrow> jsonc \<Rightarrow> storage_fs \<Rightarrow> fd \<Rightarrow> nat \<Rightarrow> nat \<Rightarrow> nat \<Rightarrow> string \<Rightarrow> ('w, string option) rxm" where
  "readback_loop os jc fs f total_len n progress hashed =
     (if total_len \<le> n then State_Monad.return (Some hashed)
      else do {
        let want = min (total_len - n) RX_DATA_MAX;
        r \<leftarrow> sys (\<lambda>r. Read f (map_option (take want) r)) (\<lambda>w. restart (sys_read os f want w));
        (case r of
           None \<Rightarrow> State_Monad.return None
         | Some b0 \<Rightarrow> let b = take want b0 in
             if b = [] then State_Monad.return None
             else do {
               ok \<leftarrow> quiet (evp_step os);
               if \<not> ok then State_Monad.return None
               else do {
                 p \<leftarrow> mark_progress os jc fs ''readback'' (n + length b) progress;
                 case p of
                   None \<Rightarrow> State_Monad.return None
                 | Some progress' \<Rightarrow> readback_loop os jc fs f total_len (n + length b) progress' (hashed @ b)
               }
             })
      })"
  by pat_completeness auto
termination
  by (relation "measure (\<lambda>(os, jc, fs, f, total_len, n, progress, hashed). total_len - n)")
    (auto simp flip: length_greater_0_conv)

declare readback_loop.simps [simp del]

text \<open>\<open>EVP_DigestFinal_ex\<close> of what has been hashed.\<close>

definition digest_final :: "'w rx_os \<Rightarrow> jsonc \<Rightarrow> string \<Rightarrow> ('w, string option) rxm" where
  "digest_final os jc hashed = do {
     ok \<leftarrow> quiet (evp_step os);
     State_Monad.return (if ok \<and> length (sha256 jc hashed) = 32 then Some (sha256 jc hashed) else None)
   }"

text \<open>The check of a written file: the same bytes come back, and nothing has touched the file.\<close>

definition stream_verify :: "'w rx_os \<Rightarrow> jsonc \<Rightarrow> storage_fs \<Rightarrow> fd \<Rightarrow> nat \<Rightarrow> string \<Rightarrow> statx \<Rightarrow> ('w, statx option) rxm" where
  "stream_verify os jc fs f n digest sealed = do {
     ok \<leftarrow> sys (Rewind f) (sys_rewind os f);
     if \<not> ok then State_Monad.return None
     else do {
       ok \<leftarrow> quiet (evp_step os);
       if \<not> ok then State_Monad.return None
       else do {
         h \<leftarrow> readback_loop os jc fs f n 0 0 [];
         case h of
           None \<Rightarrow> State_Monad.return None
         | Some h \<Rightarrow> do {
             v \<leftarrow> digest_final os jc h;
             if v \<noteq> Some digest then State_Monad.return None
             else do {
               after \<leftarrow> rx_stat_fd os f;
               State_Monad.return (case after of
                 None \<Rightarrow> None
               | Some a \<Rightarrow> if same_runtime sealed a then Some a else None)
             }
           }
       }
     }
   }"

text \<open>From the end of the copy to the report (\<open>d\<close> is what was copied).\<close>

definition stream_finish :: "'w rx_os \<Rightarrow> jsonc \<Rightarrow> storage_fs \<Rightarrow> fd \<Rightarrow> bool \<Rightarrow> statx \<Rightarrow> string \<Rightarrow> ('w, json option) rxm" where
  "stream_finish os jc fs f writing before d = do {
     synced \<leftarrow> (if writing then sys (Fsync f) (sys_fsync os f) else State_Monad.return True);
     if \<not> synced then State_Monad.return None
     else do {
       r \<leftarrow> rx_stat_fd os f;
       case r of
         None \<Rightarrow> State_Monad.return None
       | Some after \<Rightarrow>
           if (\<not> writing \<and> \<not> same_runtime before after) \<or> unat (stx_size after) \<noteq> length d
           then State_Monad.return None
           else do {
             dg \<leftarrow> digest_final os jc d;
             case dg of
               None \<Rightarrow> State_Monad.return None
             | Some digest \<Rightarrow> do {
                 fin \<leftarrow> (if writing then stream_verify os jc fs f (length d) digest after
                         else State_Monad.return (Some after));
                 State_Monad.return (case fin of
                   None \<Rightarrow> None
                 | Some st \<Rightarrow> Some (json_object_object_add (rx_node_json st) ''sha256'' (JString (hex_bytes digest))))
               }
           }
     }
   }"

definition stream_file :: "'w rx_os \<Rightarrow> jsonc \<Rightarrow> storage_fs \<Rightarrow> fd \<Rightarrow> fd \<Rightarrow> bool \<Rightarrow> nat \<Rightarrow> ('w, json option) rxm" where
  "stream_file os jc fs f data writing limit = do {
     r \<leftarrow> rx_stat_fd os f;
     case r of
       None \<Rightarrow> State_Monad.return None
     | Some before \<Rightarrow>
         if \<not> is_reg before then State_Monad.return None
         else do {
           ok \<leftarrow> quiet (evp_step os);
           if \<not> ok then State_Monad.return None
           else do {
             d \<leftarrow> stream_loop os jc fs f data writing limit (unat (stx_size before)) 0 0 [];
             case d of
               None \<Rightarrow> State_Monad.return None
             | Some d \<Rightarrow> stream_finish os jc fs f writing before d
           }
         }
   }"

section \<open>Commands\<close>

text \<open>A branch leaves a descriptor and a directory to close, and the report if it succeeded.\<close>

type_synonym branch = "fd option \<times> fd option \<times> json option"

definition good_entry :: "string \<Rightarrow> bool" where
  "good_entry name \<longleftrightarrow> rx_relative (Some name) False \<and> slash \<notin> set name"

definition list_names :: "'w rx_os \<Rightarrow> fd \<Rightarrow> ('w, json list option) rxm" where
  "list_names os f = do {
     d \<leftarrow> sys (Dup f) (sys_dup os f);
     case d of
       None \<Rightarrow> State_Monad.return None
     | Some d \<Rightarrow> do {
         r \<leftarrow> sys (Readdir d) (sys_readdir os d);
         case r of
           None \<Rightarrow> State_Monad.return None
         | Some (entries, err) \<Rightarrow> do {
             let names = filter (\<lambda>e. e \<noteq> ''.'' \<and> e \<noteq> ''..'') entries;
             if 4096 < length names \<or> \<not> list_all good_entry names then do {
               sys (Close d) (sys_close os d);
               State_Monad.return None
             } else do {
               ok \<leftarrow> sys (Close d) (sys_close os d);
               State_Monad.return (if ok \<and> \<not> err then Some (map JString names) else None)
             }
           }
       }
   }"

text \<open>\<open>stat\<close>, \<open>list\<close>, \<open>read\<close> and \<open>seal\<close>.\<close>

definition cmd_read_details :: "'w rx_os \<Rightarrow> jsonc \<Rightarrow> storage_fs \<Rightarrow> string \<Rightarrow> fd \<Rightarrow> fd \<Rightarrow> statx \<Rightarrow> ('w, json option) rxm" where
  "cmd_read_details os jc fs op f data before =
     (if op = ''list'' then
        (if \<not> is_dir before then State_Monad.return None
         else do {
           names \<leftarrow> list_names os f;
           State_Monad.return (map_option (\<lambda>ns. json_object_object_add (rx_node_json before) ''names'' (JArray ns)) names)
         })
      else if op = ''read'' then
        (if data_write (ctx fs) then State_Monad.return None else stream_file os jc fs f data False 0)
      else State_Monad.return (Some (rx_node_json before)))"

definition cmd_read :: "'w rx_os \<Rightarrow> jsonc \<Rightarrow> storage_fs \<Rightarrow> string \<Rightarrow> string \<Rightarrow> json \<Rightarrow> fd \<Rightarrow> ('w, branch) rxm" where
  "cmd_read os jc fs op path prf data = do {
     r \<leftarrow> open_bound os jc fs path prf O_RD;
     case r of
       None \<Rightarrow> State_Monad.return (None, None, None)
     | Some f \<Rightarrow> do {
         b \<leftarrow> rx_stat_fd os f;
         case b of
           None \<Rightarrow> State_Monad.return (Some f, None, None)
         | Some before \<Rightarrow> do {
             d \<leftarrow> cmd_read_details os jc fs op f data before;
             case d of
               None \<Rightarrow> State_Monad.return (Some f, None, None)
             | Some details \<Rightarrow> do {
                 a \<leftarrow> rx_stat_fd os f;
                 State_Monad.return (Some f, None,
                   case a of
                     None \<Rightarrow> None
                   | Some after \<Rightarrow> if op = ''list'' \<and> \<not> same_runtime before after then None else Some details)
               }
           }
       }
   }"

definition created_json :: "statx \<Rightarrow> bool \<Rightarrow> json" where
  "created_json s b = json_object_object_add (rx_node_json s) ''created'' (JBool b)"

text \<open>The length a \<open>write\<close> announces: \<open>Some None\<close> for a stream, \<open>None\<close> if the command is wrong.\<close>

definition length_of_write :: "json \<Rightarrow> nat option option" where
  "length_of_write command =
     (case rx_string command ''lengthMode'' 6 of
        None \<Rightarrow> None
      | Some m \<Rightarrow>
          if m = ''stream'' then Some None
          else if m \<noteq> ''fixed'' then None
          else case rx_string command ''expectedSize'' 20 of
            None \<Rightarrow> None
          | Some e \<Rightarrow>
              if e = [] \<or> \<not> list_all is_digit e then None
              else case strtoull e of (n, erange, rest) \<Rightarrow>
                if erange \<or> rest \<noteq> [] \<or> 9223372036854775807 < n then None else Some (Some n))"

definition cmd_mkdir :: "'w rx_os \<Rightarrow> fd \<Rightarrow> string \<Rightarrow> ('w, branch) rxm" where
  "cmd_mkdir os dir name = do {
     ok \<leftarrow> sys (Mkdirat dir name) (sys_mkdirat os dir name);
     if \<not> ok then State_Monad.return (None, Some dir, None)
     else do {
       r \<leftarrow> sys (Openat dir name O_DIR) (sys_openat os dir name O_DIR);
       case r of
         None \<Rightarrow> State_Monad.return (None, Some dir, None)
       | Some f \<Rightarrow> do {
           a \<leftarrow> rx_stat_fd os f;
           State_Monad.return (Some f, Some dir, map_option (\<lambda>s. created_json s True) a)
         }
     }
   }"

text \<open>A file of an announced length must have it in the end.\<close>

definition check_sealed :: "'w rx_os \<Rightarrow> fd \<Rightarrow> nat option \<Rightarrow> json \<Rightarrow> ('w, json option) rxm" where
  "check_sealed os f len details =
     (case len of
        None \<Rightarrow> State_Monad.return (Some details)
      | Some n \<Rightarrow> do {
          s \<leftarrow> rx_stat_fd os f;
          State_Monad.return (case s of
            None \<Rightarrow> None
          | Some st \<Rightarrow> if unat (stx_size st) \<noteq> n then None else Some details)
        })"

definition cmd_write :: "'w rx_os \<Rightarrow> jsonc \<Rightarrow> storage_fs \<Rightarrow> json \<Rightarrow> string \<Rightarrow> string option \<Rightarrow> u64 \<Rightarrow> fd \<Rightarrow> fd \<Rightarrow> fd \<Rightarrow> fd
    \<Rightarrow> string \<Rightarrow> ('w, branch) rxm" where
  "cmd_write os jc fs command path to sq request data res dir name =
     (if \<not> data_write (ctx fs) then State_Monad.return (None, Some dir, None)
      else case length_of_write command of
        None \<Rightarrow> State_Monad.return (None, Some dir, None)
      | Some len \<Rightarrow> do {
          r \<leftarrow> sys (Openat dir name O_CREATE_RW) (sys_openat os dir name O_CREATE_RW);
          case r of
            None \<Rightarrow> State_Monad.return (None, Some dir, None)
          | Some f \<Rightarrow> do {
              s \<leftarrow> rx_stat_fd os f;
              case s of
                None \<Rightarrow> State_Monad.return (Some f, Some dir, None)
              | Some st \<Rightarrow> do {
                  created \<leftarrow> ack os jc (ctx fs)
                    (json_object_object_add (event_for (ctx fs) ''created'' ''write'' path to (sq + 1)) ''node'' (created_json st True))
                    request res;
                  case created of
                    None \<Rightarrow> State_Monad.return (Some f, Some dir, None)
                  | Some _ \<Rightarrow> do {
                      d \<leftarrow> stream_file os jc fs f data True (case len of None \<Rightarrow> 0 | Some n \<Rightarrow> n + 1);
                      case d of
                        None \<Rightarrow> State_Monad.return (Some f, Some dir, None)
                      | Some details \<Rightarrow> do {
                          d' \<leftarrow> check_sealed os f len details;
                          State_Monad.return (Some f, Some dir, d')
                        }
                    }
                }
            }
        })"

text \<open>\<open>mkdir-owned\<close> and \<open>write\<close>.\<close>

definition cmd_create :: "'w rx_os \<Rightarrow> jsonc \<Rightarrow> storage_fs \<Rightarrow> json \<Rightarrow> string \<Rightarrow> string \<Rightarrow> string option \<Rightarrow> u64 \<Rightarrow> json
    \<Rightarrow> fd \<Rightarrow> fd \<Rightarrow> fd \<Rightarrow> ('w, branch) rxm" where
  "cmd_create os jc fs command op path to sq prf request data res = do {
     r \<leftarrow> bound_parent os jc fs path prf;
     case r of
       None \<Rightarrow> State_Monad.return (None, None, None)
     | Some dir \<Rightarrow> do {
         key \<leftarrow> proof_key os jc path;
         case key of
           None \<Rightarrow> State_Monad.return (None, Some dir, None)
         | Some k \<Rightarrow>
             (case json_object_object_get_ex prf k of
                Some _ \<Rightarrow>
                  if op \<noteq> ''mkdir-owned'' then State_Monad.return (None, Some dir, None)
                  else do {
                    r \<leftarrow> open_bound os jc fs path prf O_DIR;
                    case r of
                      None \<Rightarrow> State_Monad.return (None, Some dir, None)
                    | Some f \<Rightarrow> do {
                        a \<leftarrow> rx_stat_fd os f;
                        State_Monad.return (Some f, Some dir, map_option (\<lambda>s. created_json s False) a)
                      }
                  }
              | None \<Rightarrow>
                  if op = ''mkdir-owned'' then cmd_mkdir os dir (last_name path)
                  else cmd_write os jc fs command path to sq request data res dir (last_name path))
       }
   }"

text \<open>Whether nothing has the name \<open>dest\<close> in \<open>target\<close>.\<close>

definition dest_free :: "'w rx_os \<Rightarrow> fd \<Rightarrow> string \<Rightarrow> ('w, bool) rxm" where
  "dest_free os target dest = do {
     r \<leftarrow> sys (StatxAt target dest) (sys_statx_at os target dest);
     State_Monad.return (r = Inl ENOENT)
   }"

text \<open>
  The rename of a file system without \<open>RENAME_NOREPLACE\<close>: only if the proof allows it, the object is
  still the same and the destination still free.
\<close>

definition controlled_rename :: "'w rx_os \<Rightarrow> jsonc \<Rightarrow> storage_fs \<Rightarrow> string \<Rightarrow> json \<Rightarrow> statx \<Rightarrow> fd \<Rightarrow> string \<Rightarrow> fd \<Rightarrow> string
    \<Rightarrow> ('w, bool) rxm" where
  "controlled_rename os jc fs path prf before dir name target dest =
     (if json_object_object_get_ex prf ''controlledRename'' \<noteq> Some (JBool True) then State_Monad.return False
      else do {
        r \<leftarrow> open_bound os jc fs path prf O_RD;
        (case r of
           None \<Rightarrow> State_Monad.return False
         | Some v \<Rightarrow> do {
             a \<leftarrow> rx_stat_fd os v;
             sys (Close v) (sys_close os v);
             (case a of
                None \<Rightarrow> State_Monad.return False
              | Some after \<Rightarrow>
                  if \<not> same_runtime before after then State_Monad.return False
                  else do {
                    free \<leftarrow> dest_free os target dest;
                    if \<not> free then State_Monad.return False
                    else sys (Renameat dir name target dest) (sys_renameat os dir name target dest)
                  })
           })
      })"

definition do_rename :: "'w rx_os \<Rightarrow> jsonc \<Rightarrow> storage_fs \<Rightarrow> string \<Rightarrow> json \<Rightarrow> statx \<Rightarrow> fd \<Rightarrow> string \<Rightarrow> fd \<Rightarrow> string
    \<Rightarrow> ('w, bool) rxm" where
  "do_rename os jc fs path prf before dir name target dest = do {
     free \<leftarrow> dest_free os target dest;
     if \<not> free then State_Monad.return False
     else do {
       r \<leftarrow> sys (Renameat2 dir name target dest) (sys_renameat2 os dir name target dest);
       case r of
         None \<Rightarrow> State_Monad.return True
       | Some e \<Rightarrow>
           if e = EINVAL \<or> e = EOPNOTSUPP \<or> e = ENOSYS
           then controlled_rename os jc fs path prf before dir name target dest
           else State_Monad.return False
     }
   }"

definition same_object :: "statx \<Rightarrow> statx \<Rightarrow> bool" where
  "same_object a b \<longleftrightarrow> stx_ino a = stx_ino b \<and> stx_dev_major a = stx_dev_major b \<and> stx_dev_minor a = stx_dev_minor b"

definition cmd_rename :: "'w rx_os \<Rightarrow> jsonc \<Rightarrow> storage_fs \<Rightarrow> string \<Rightarrow> string option \<Rightarrow> json \<Rightarrow> statx \<Rightarrow> fd \<Rightarrow> ('w, branch) rxm" where
  "cmd_rename os jc fs path to prf before dir =
     (case to of
        None \<Rightarrow> State_Monad.return (None, Some dir, None)
      | Some t \<Rightarrow> do {
          r \<leftarrow> bound_parent os jc fs t prf;
          case r of
            None \<Rightarrow> State_Monad.return (None, Some dir, None)
          | Some target \<Rightarrow> do {
              ok \<leftarrow> do_rename os jc fs path prf before dir (last_name path) target (last_name t);
              if \<not> ok then do {
                sys (Close target) (sys_close os target);
                State_Monad.return (None, Some dir, None)
              } else do {
                r \<leftarrow> sys (Openat target (last_name t) O_RD) (sys_openat os target (last_name t) O_RD);
                sys (Close target) (sys_close os target);
                case r of
                  None \<Rightarrow> State_Monad.return (None, Some dir, None)
                | Some f \<Rightarrow> do {
                    a \<leftarrow> rx_stat_fd os f;
                    State_Monad.return (Some f, Some dir,
                      case a of
                        None \<Rightarrow> None
                      | Some after \<Rightarrow> if same_object after before then Some (rx_node_json after) else None)
                  }
              }
            }
        })"

text \<open>\<open>rename-owned\<close> and \<open>remove-owned\<close>.\<close>

definition cmd_move :: "'w rx_os \<Rightarrow> jsonc \<Rightarrow> storage_fs \<Rightarrow> string \<Rightarrow> string \<Rightarrow> string option \<Rightarrow> json \<Rightarrow> ('w, branch) rxm" where
  "cmd_move os jc fs op path to prf = do {
     r \<leftarrow> open_bound os jc fs path prf O_RD;
     case r of
       None \<Rightarrow> State_Monad.return (None, None, None)
     | Some f \<Rightarrow> do {
         b \<leftarrow> rx_stat_fd os f;
         case b of
           None \<Rightarrow> State_Monad.return (Some f, None, None)
         | Some before \<Rightarrow> do {
             sys (Close f) (sys_close os f);
             r \<leftarrow> bound_parent os jc fs path prf;
             case r of
               None \<Rightarrow> State_Monad.return (None, None, None)
             | Some dir \<Rightarrow>
                 if op = ''remove-owned'' then do {
                   ok \<leftarrow> sys (Unlinkat dir (last_name path) (is_dir before)) (sys_unlinkat os dir (last_name path) (is_dir before));
                   State_Monad.return (None, Some dir,
                     if ok then Some (json_object_object_add (rx_node_json before) ''removed'' (JBool True)) else None)
                 }
                 else cmd_rename os jc fs path to prf before dir
           }
       }
   }"

definition cmd_branch :: "'w rx_os \<Rightarrow> jsonc \<Rightarrow> storage_fs \<Rightarrow> json \<Rightarrow> string \<Rightarrow> string \<Rightarrow> string option \<Rightarrow> u64 \<Rightarrow> json
    \<Rightarrow> fd \<Rightarrow> fd \<Rightarrow> fd \<Rightarrow> ('w, branch) rxm" where
  "cmd_branch os jc fs command op path to sq prf request data res =
     (if op = ''stat'' \<or> op = ''list'' \<or> op = ''read'' \<or> op = ''seal'' then cmd_read os jc fs op path prf data
      else if op = ''mkdir-owned'' \<or> op = ''write'' then cmd_create os jc fs command op path to sq prf request data res
      else if op = ''rename-owned'' \<or> op = ''remove-owned'' then cmd_move os jc fs op path to prf
      else State_Monad.return (None, None, None))"

definition close_opt :: "'w rx_os \<Rightarrow> fd option \<Rightarrow> ('w, bool) rxm" where
  "close_opt os f = (case f of None \<Rightarrow> State_Monad.return True | Some f \<Rightarrow> sys (Close f) (sys_close os f))"

definition mutating :: "string \<Rightarrow> bool" where
  "mutating op \<longleftrightarrow> op = ''write'' \<or> op = ''mkdir-owned'' \<or> op = ''rename-owned'' \<or> op = ''remove-owned''"

text \<open>The checks of the command itself (line 28): its operation, path, destination and number.\<close>

definition cmd_args :: "jsonc \<Rightarrow> storage_fs \<Rightarrow> json \<Rightarrow> (string \<times> string \<times> string option \<times> u64) option" where
  "cmd_args jc fs command = do {
     op \<leftarrow> rx_string command ''operation'' 24;
     path \<leftarrow> rx_string command ''path'' 4095;
     let to = rx_string command ''to'' 4095;
     sq \<leftarrow> rx_sequence command;
     require (\<not> sq \<ge> - 1 - 2 \<and> last_sequence fs \<noteq> - 1 \<and> sq = last_sequence fs + 1);
     own \<leftarrow> json_object_object_get_ex command ''execution'';
     require (json_object_equal jc own (owner (ctx fs)));
     require (path_allowed (ctx fs) path (mutating op));
     require (case to of None \<Rightarrow> True | Some t \<Rightarrow> path_allowed (ctx fs) t (mutating op));
     Some (op, path, to, sq)
   }"

text \<open>The report and its acknowledgement (line 33 from the closing on).\<close>

definition cmd_report :: "'w rx_os \<Rightarrow> jsonc \<Rightarrow> storage_fs \<Rightarrow> string \<Rightarrow> string \<Rightarrow> string option \<Rightarrow> u64 \<Rightarrow> fd \<Rightarrow> fd \<Rightarrow> json
    \<Rightarrow> ('w, bool \<times> storage_fs) rxm" where
  "cmd_report os jc fs op path to sq request res details =
     (let size = rx_string details ''size'' 20 in
      if op = ''write'' \<and> size = None then State_Monad.return (False, fs)
      else do {
        let fs = (if op = ''write'' then fs\<lparr>last_count := fst (strtoull (the size))\<rparr> else fs);
        let result_sequence = sq + (if op = ''write'' then 2 else 1);
        p \<leftarrow> ack os jc (ctx fs)
          (json_object_object_add (event_for (ctx fs) ''result'' op path to result_sequence) ''node'' details) request res;
        State_Monad.return (case p of
          None \<Rightarrow> (False, fs)
        | Some _ \<Rightarrow> (True, fs\<lparr>last_sequence := result_sequence\<rparr>))
      })"

definition rx_command :: "'w rx_os \<Rightarrow> jsonc \<Rightarrow> storage_fs \<Rightarrow> json \<Rightarrow> fd \<Rightarrow> fd \<Rightarrow> fd \<Rightarrow> ('w, bool \<times> storage_fs) rxm" where
  "rx_command os jc fs command request data res = do {
     let fs = fs\<lparr>result := res\<rparr>;
     case cmd_args jc fs command of
       None \<Rightarrow> State_Monad.return (False, fs)
     | Some (op, path, to, sq) \<Rightarrow> do {
         prf \<leftarrow> ack os jc (ctx fs) (event_for (ctx fs) ''intent'' op path to sq) request res;
         case prf of
           None \<Rightarrow> State_Monad.return (False, fs)
         | Some prf \<Rightarrow> do {
             br \<leftarrow> cmd_branch os jc fs command op path to sq prf request data res;
             c1 \<leftarrow> close_opt os (fst br);
             c2 \<leftarrow> close_opt os (fst (snd br));
             case snd (snd br) of
               None \<Rightarrow> State_Monad.return (False, fs)
             | Some details \<Rightarrow>
                 if c1 \<and> c2 then cmd_report os jc fs op path to sq request res details
                 else State_Monad.return (False, fs)
           }
       }
   }"

end
