(* ===== verification/StorageGuard.thy ===== *)
theory StorageGuard
  imports StorageFs
begin

text \<open>
  When a command of the storage helper may change the share.  The trace logic of \<open>StorageSys\<close> is
  applied to every routine of \<open>StorageFs\<close>: most of them change nothing (\<open>calm\<close>), a walk leaves the
  events of a proven walk (\<open>walked\<close>, \<open>reached\<close>), and the three that change something do so in a directory
  so reached (\<open>guarded\<close>).  At the end stand the properties of a whole command and an example run.
\<close>

section \<open>Where a command may change something\<close>

lemma split_at_append: "split_at c (a @ c # b) = split_at c a @ split_at c b"
  by (induction a) (auto split: list.splits)

lemma names_of_ok: "path_ok p \<Longrightarrow> names_of p = split_at slash p"
  by (auto simp: names_of_def path_ok_def atom_ok_def list_all_iff filter_id_conv)

lemma names_of_Nil [simp]: "names_of [] = []"
  by (simp add: names_of_def)

text \<open>\<open>below base q\<close>: the names of \<open>q\<close> begin with those of \<open>base\<close>.\<close>

definition below :: "string \<Rightarrow> string \<Rightarrow> bool" where
  "below base q \<longleftrightarrow> (\<exists>rest. names_of q = names_of base @ rest)"

lemma contained_below:
  assumes "contained base q" "path_ok base"
  shows "below base q"
proof -
  obtain t where q: "q = base @ t" using assms(1) by (auto simp: contained_def prefixb_iff)
  show ?thesis
  proof (cases t)
    case Nil
    then show ?thesis using q by (simp add: below_def)
  next
    case (Cons c r)
    then have "q = base @ slash # r" using assms(1) q by (simp add: contained_def)
    then have "names_of q = names_of base @ names_of r" by (simp add: names_of_def split_at_append)
    then show ?thesis by (auto simp: below_def)
  qed
qed

lemma ancestor_names:
  assumes "prefixb q base" "drop (length q) base = slash # r"
  shows "names_of base = names_of q @ names_of r"
proof -
  obtain t where "base = q @ t" using assms(1) by (auto simp: prefixb_iff)
  with assms(2) have "base = q @ slash # r" by simp
  then show ?thesis by (simp add: names_of_def split_at_append)
qed

text \<open>
  What a task owns: the trees of its stage, its lock and its image, and on the way there \<open>.locks\<close>,
  \<open>dev\<close> and the directory of the task.
\<close>

definition owned :: "storage_context \<Rightarrow> string \<Rightarrow> bool" where
  "owned c q \<longleftrightarrow> path_ok q \<and>
     (below (stage c) q \<or> below (lock c) q \<or> below (image_path c) q \<or> q = ''.locks'' \<or> below q (stage c))"

lemma path_allowed_owned:
  assumes "path_allowed c q True" "ctx_ok c"
  shows "owned c q" "rx_string (owner c) ''taskType'' 7 = Some ''capture''"
proof -
  have ok: "path_ok (stage c)" "path_ok (lock c)" "path_ok (image_path c)"
    using assms(2) by (auto simp: ctx_ok_def)
  from assms(1) show "rx_string (owner c) ''taskType'' 7 = Some ''capture''"
    by (auto simp: path_allowed_def split: if_splits)
  have d: "below ''dev'' (stage c)"
  proof -
    obtain task n where s: "stage c = ''dev'' @ slash # task @ slash # dec n"
      using assms(2) by (auto simp: ctx_ok_def)
    have "names_of (stage c) = names_of ''dev'' @ names_of (task @ slash # dec n)"
      unfolding s by (simp only: names_of_def split_at_append filter_append)
    then show ?thesis by (auto simp: below_def)
  qed
  from assms(1) have al: "contained (stage c) q \<or> contained (lock c) q \<or> contained (image_path c) q \<or> q = ''dev'' \<or> q = ''.locks''
      \<or> (\<exists>r. prefixb q (stage c) \<and> drop (length q) (stage c) = slash # r)"
    by (auto simp: path_allowed_def split: if_splits list.splits)
  have ne: "q \<noteq> []"
  proof
    assume q: "q = []"
    have "stage c \<noteq> []" "hd (stage c) \<noteq> slash" using assms(2) by (auto simp: ctx_ok_def)
    moreover have "lock c \<noteq> []" "image_path c \<noteq> []" using ok by auto
    ultimately show False using al q by (cases "stage c") (auto simp: contained_def prefixb_iff)
  qed
  then have "path_ok q" using assms(1) by (auto simp: path_allowed_def rx_relative_iff split: if_splits)
  moreover have "below (stage c) q \<or> below (lock c) q \<or> below (image_path c) q \<or> q = ''.locks'' \<or> below q (stage c)"
    using al contained_below ok d ancestor_names by (metis below_def)
  ultimately show "owned c q" by (simp add: owned_def)
qed

section \<open>Programs that change nothing\<close>

text \<open>The directory and the name, or both, that an event changes or would change.\<close>

fun touches :: "rx_event \<Rightarrow> (fd \<times> string) list" where
  "touches (Mkdirat d n b) = [(d, n)]"
| "touches (Openat d n fl r) = (if fl = O_CREATE_RW then [(d, n)] else [])"
| "touches (Unlinkat d n k b) = [(d, n)]"
| "touches (Renameat2 d n t m r) = [(d, n), (t, m)]"
| "touches (Renameat d n t m r) = [(d, n), (t, m)]"
| "touches e = []"

abbreviation calm :: "('w, 'a) rxm \<Rightarrow> bool" where
  "calm m \<equiv> keeps (\<lambda>e. touches e = []) m"

lemma stat_fd_calm: "calm (rx_stat_fd os f)"
  unfolding rx_stat_fd_def by (intro logs_rules) simp_all

lemma proof_key_calm: "keeps P (proof_key os jc path)"
  unfolding proof_key_def by (intro logs_rules)

lemma proof_matches_calm: "keeps P (proof_matches os jc prf path s)"
  unfolding proof_matches_def by (intro logs_rules proof_key_calm)

lemma check_object_calm: "calm (check_object os jc prf path foreign f)"
  unfolding check_object_def by (intro logs_rules stat_fd_calm proof_matches_calm)

lemma close_calm: "calm (sys (Close f) g)"
  by (intro logs_rules) simp

lemma walk_calm: "flags \<noteq> O_CREATE_RW \<Longrightarrow> calm (walk os jc fs prf flags f prefix parts)"
proof (induction parts arbitrary: f prefix)
  case (Cons part parts)
  then show ?case
    unfolding walk.simps by (intro logs_rules check_object_calm close_calm) auto
qed (simp add: logs_rules)

lemma open_bound_calm: "flags \<noteq> O_CREATE_RW \<Longrightarrow> calm (open_bound os jc fs path prf flags)"
  unfolding open_bound_def
  by (intro logs_rules check_object_calm close_calm walk_calm) auto

lemma bound_parent_calm: "calm (bound_parent os jc fs path prf)"
  unfolding bound_parent_def by (rule open_bound_calm) simp

lemma parent_alive_calm: "calm (rx_parent_alive os c)"
  by (rule parent_alive_keeps) simp

lemma emit_calm: "calm (rx_emit os jc f j)"
  by (rule emit_keeps) simp_all

lemma ack_calm: "calm (ack os jc c event request res)"
  unfolding ack_def ack_answer_def by (intro logs_rules parent_alive_calm emit_calm read_json_keeps) simp

lemma mark_progress_calm: "calm (mark_progress os jc fs stg n p)"
  unfolding mark_progress_def stream_progress_def by (intro logs_rules emit_calm)

lemma read_alive_logs:
  "\<exists>new. trace (snd (read_alive os c call s)) = trace s @ new \<and> list_all (\<lambda>e. \<exists>p. e = Ppid p) new"
proof (induction call arbitrary: s)
  case (Eintr w k)
  obtain b s1 where r: "run_state (rx_parent_alive os c) (s\<lparr>world := w\<rparr>) = (b, s1)" by fastforce
  have "keeps (\<lambda>e. \<exists>p. e = Ppid p) (rx_parent_alive os c)" by (rule parent_alive_keeps) simp
  from logsD [OF keeps_logs [OF this] r] obtain n1 where
    n1: "trace s1 = trace s @ n1" "list_all (\<lambda>e. \<exists>p. e = Ppid p) n1" by auto
  obtain n2 where n2: "trace (snd (read_alive os c (k (world s1)) s1)) = trace s1 @ n2" "list_all (\<lambda>e. \<exists>p. e = Ppid p) n2"
    using Eintr [of "k (world s1)" s1] by auto
  show ?case using r n1 n2 by (cases b) auto
qed auto

lemma stream_read_logs:
  "logs (stream_read os c f want) (\<lambda>r new. \<exists>n. new = n @ [Read f r] \<and> list_all (\<lambda>e. \<exists>p. e = Ppid p) n \<and> (\<forall>b. r = Some b \<longrightarrow> length b \<le> want))"
  unfolding logs_def
proof
  fix s
  obtain r s1 where e: "read_alive os c (sys_read os f want (world s)) s = (r, s1)" by fastforce
  obtain n where n: "trace s1 = trace s @ n" "list_all (\<lambda>e. \<exists>p. e = Ppid p) n"
    using read_alive_logs [of os c "sys_read os f want (world s)" s] e by auto
  define b where "b = (case r of Some (Some b) \<Rightarrow> Some (take want b) | _ \<Rightarrow> None)"
  have run: "run_state (stream_read os c f want) s = (b, s1\<lparr>trace := trace s1 @ [Read f b]\<rparr>)"
    using e by (simp add: stream_read_def note_ev_def Let_def b_def)
  have "\<forall>x. b = Some x \<longrightarrow> length x \<le> want" by (auto simp: b_def split: option.splits)
  with n run show "\<exists>new. trace (snd (run_state (stream_read os c f want) s)) = trace s @ new \<and>
    (\<exists>n. new = n @ [Read f (fst (run_state (stream_read os c f want) s))] \<and> list_all (\<lambda>e. \<exists>p. e = Ppid p) n \<and>
      (\<forall>b. fst (run_state (stream_read os c f want) s) = Some b \<longrightarrow> length b \<le> want))"
    by (intro exI [of _ "n @ [Read f b]"]) simp
qed

lemma stream_read_calm: "calm (stream_read os c f want)"
  unfolding keeps_def by (rule logs_weaken [OF stream_read_logs]) (fastforce simp: list_all_iff)

lemma write_all_calm: "calm (rx_write_all os f data)"
  by (rule write_all_keeps) simp

lemma stream_loop_calm: "calm (stream_loop os jc fs f data writing limit file_size n progress hashed)"
proof (induction os jc fs f data writing limit file_size n progress hashed rule: stream_loop.induct)
  case (1 os jc fs f data writing limit file_size n progress hashed)
  show ?case
    by (subst stream_loop.simps)
      (intro logs_rules parent_alive_calm stream_read_calm write_all_calm mark_progress_calm 1; assumption)
qed

lemma readback_loop_calm: "calm (readback_loop os jc fs f len n progress hashed)"
proof (induction os jc fs f len n progress hashed rule: readback_loop.induct)
  case (1 os jc fs f len n progress hashed)
  show ?case
    by (subst readback_loop.simps) (intro logs_rules mark_progress_calm 1; (assumption | simp))
qed

lemma digest_final_calm: "keeps P (digest_final os jc h)"
  unfolding digest_final_def by (intro logs_rules)

lemma stream_file_calm: "calm (stream_file os jc fs f data writing limit)"
  unfolding stream_file_def stream_finish_def stream_verify_def
  by (intro logs_rules stat_fd_calm stream_loop_calm readback_loop_calm digest_final_calm) simp_all

lemma list_names_calm: "calm (list_names os f)"
  unfolding list_names_def by (intro logs_rules close_calm) simp_all

lemma cmd_read_calm: "calm (cmd_read os jc fs op path prf data)"
  unfolding cmd_read_def cmd_read_details_def
  by (intro logs_rules open_bound_calm stat_fd_calm list_names_calm stream_file_calm) simp

section \<open>Walking to a directory\<close>

text \<open>The proof has an entry for \<open>path\<close> that describes the object \<open>s\<close>.\<close>

definition proven :: "jsonc \<Rightarrow> json \<Rightarrow> string \<Rightarrow> statx \<Rightarrow> bool" where
  "proven jc prf path s \<longleftrightarrow> (\<exists>p. json_object_object_get_ex prf (hex_bytes (sha256 jc path)) = Some p \<and> entry_matches p s)"

text \<open>
  The events of a walk from \<open>f\<close> (whose path is \<open>prefix\<close>) along \<open>parts\<close> to \<open>d\<close>: each name opened in the
  directory reached so far, never through a symbolic link (every \<open>openat\<close> has \<open>O_NOFOLLOW\<close>), on the
  device of the share, and proven.
\<close>

fun walked :: "jsonc \<Rightarrow> storage_fs \<Rightarrow> json \<Rightarrow> fd \<Rightarrow> string \<Rightarrow> string list \<Rightarrow> fd \<Rightarrow> rx_event list \<Rightarrow> bool" where
  "walked jc fs prf f prefix [] d es \<longleftrightarrow> d = f \<and> es = []"
| "walked jc fs prf f prefix (part # parts) d es \<longleftrightarrow>
     (let prefix' = (if prefix = [] then part else prefix @ slash # part) in
      \<exists>child fl b s rest. es = [Openat f part fl (Some child), Close f b, Statx child (Some s)] @ rest
        \<and> (parts \<noteq> [] \<longrightarrow> fl = O_DIR)
        \<and> \<not> other_device fs s \<and> proven jc prf prefix' s \<and> walked jc fs prf child prefix' parts d rest)"

definition reached :: "jsonc \<Rightarrow> storage_fs \<Rightarrow> json \<Rightarrow> string \<Rightarrow> fd \<Rightarrow> rx_event list \<Rightarrow> bool" where
  "reached jc fs prf path d es \<longleftrightarrow>
     (\<exists>f s rest. es = [Dup (root fs) (Some f), Statx f (Some s)] @ rest \<and> proven jc prf [] s
        \<and> walked jc fs prf f [] (names_of path) d rest)"

lemma stat_fd_logs: "logs (rx_stat_fd os f) (\<lambda>r new. \<forall>s. r = Some s \<longrightarrow> new = [Statx f (Some s)])"
  unfolding rx_stat_fd_def
  by (rule logs_bind [OF logs_sys [where R = "\<lambda>r new. new = [Statx f r]"]
        logs_return [where R = "\<lambda>r new. new = [] \<and> (\<forall>s. r = Some s \<longrightarrow> a = Some s)" for a]])
     (auto split: option.splits if_splits)

lemma proof_matches_logs: "logs (proof_matches os jc prf path s) (\<lambda>ok new. new = [] \<and> (ok \<longrightarrow> proven jc prf path s))"
proof -
  have k: "logs (proof_key os jc path) (\<lambda>r new. new = [] \<and> (\<forall>k. r = Some k \<longrightarrow> k = hex_bytes (sha256 jc path)))"
    unfolding proof_key_def Let_def
    by (rule logs_bind [OF logs_quiet [where R = "\<lambda>_ new. new = []"]
          logs_return [where R = "\<lambda>r new. new = [] \<and> (\<forall>k. r = Some k \<longrightarrow> k = hex_bytes (sha256 jc path))"]]) auto
  show ?thesis
    unfolding proof_matches_def
    by (rule logs_bind [OF k logs_return [where R = "\<lambda>r new. new = [] \<and> (r \<longrightarrow> (\<exists>k p. a = Some k \<and>
            json_object_object_get_ex prf k = Some p \<and> entry_matches p s))" for a]])
       (auto simp: proven_def split: option.splits)
qed

lemma check_object_logs:
  "logs (check_object os jc prf path foreign f)
     (\<lambda>ok new. ok \<longrightarrow> (\<exists>s. new = [Statx f (Some s)] \<and> \<not> foreign s \<and> proven jc prf path s))"
  unfolding check_object_def
proof (rule logs_bind [OF stat_fd_logs])
  fix st
  show "logs (case st of None \<Rightarrow> State_Monad.return False
              | Some s \<Rightarrow> if foreign s then State_Monad.return False else proof_matches os jc prf path s)
     (\<lambda>ok new. ok \<longrightarrow> (\<exists>s. st = Some s \<and> new = [] \<and> \<not> foreign s \<and> proven jc prf path s))"
    by (intro logs_branch) (auto intro: logs_return logs_weaken [OF proof_matches_logs])
qed auto

lemma logs_fail: "logs (do { x \<leftarrow> sys ev g; State_Monad.return None }) (\<lambda>r new. \<forall>d. r = Some d \<longrightarrow> Q d new)"
  by (rule logs_bind [OF logs_sys [where R = "\<lambda>_ _. True"] logs_return [where R = "\<lambda>r _. r = None"]]) auto

lemma logs_try:
  assumes "logs m (\<lambda>ok new. ok \<longrightarrow> R new)" "logs k (\<lambda>r new. \<forall>d. r = Some d \<longrightarrow> Q d new)"
    and "\<And>d n1 n2. R n1 \<Longrightarrow> Q d n2 \<Longrightarrow> T d (n1 @ n2)"
  shows "logs (do { ok \<leftarrow> m; if ok then k else do { x \<leftarrow> sys ev g; State_Monad.return None } }) (\<lambda>r new. \<forall>d. r = Some d \<longrightarrow> T d new)"
proof (rule logs_bind [OF assms(1)])
  fix ok
  show "logs (if ok then k else do { x \<leftarrow> sys ev g; State_Monad.return None }) (\<lambda>r new. \<forall>d. r = Some d \<longrightarrow> ok \<and> Q d new)"
    by (rule logs_if [OF _ logs_fail]) (auto intro: logs_weaken [OF assms(2)])
qed (use assms(3) in blast)

lemma walk_logs:
  "logs (walk os jc fs prf flags f prefix parts) (\<lambda>r new. \<forall>d. r = Some d \<longrightarrow> walked jc fs prf f prefix parts d new)"
proof (induction parts arbitrary: f prefix)
  case Nil
  show ?case by (simp add: logs_return)
next
  case (Cons part parts)
  let ?p = "if prefix = [] then part else prefix @ slash # part"
  let ?fl = "if parts \<noteq> [] then O_DIR else flags"
  have inner: "logs (do { ok \<leftarrow> check_object os jc prf ?p (other_device fs) child;
        if ok then walk os jc fs prf flags child ?p parts
        else do { sys (Close child) (sys_close os child); State_Monad.return None } })
      (\<lambda>r new. \<forall>d. r = Some d \<longrightarrow> (\<exists>s rest. new = Statx child (Some s) # rest \<and> \<not> other_device fs s \<and> proven jc prf ?p s
         \<and> walked jc fs prf child ?p parts d rest))" for child
    by (rule logs_try [OF check_object_logs Cons]) auto
  show ?case
    unfolding walk.simps Let_def
  proof (rule logs_bind [OF logs_sys [where R = "\<lambda>r new. new = [Openat f part ?fl r]"]], simp, rule logs_case_option)
    fix r and child :: fd assume r: "r = Some child"
    show "logs (do { sys (Close f) (sys_close os f); ok \<leftarrow> check_object os jc prf ?p (other_device fs) child;
        if ok then walk os jc fs prf flags child ?p parts
        else do { sys (Close child) (sys_close os child); State_Monad.return None } })
      (\<lambda>q new. \<forall>d. q = Some d \<longrightarrow> walked jc fs prf f prefix (part # parts) d (Openat f part ?fl r # new))"
      by (rule logs_bind [OF logs_sys [where R = "\<lambda>b new. new = [Close f b]"] inner]) (auto simp: r Let_def)
  next
    fix r :: "fd option"
    show "logs (do { sys (Close f) (sys_close os f); State_Monad.return None })
      (\<lambda>q new. \<forall>d. q = Some d \<longrightarrow> walked jc fs prf f prefix (part # parts) d (Openat f part ?fl r # new))"
      by (rule logs_fail)
  qed auto
qed

lemma open_bound_logs: "logs (open_bound os jc fs path prf flags) (\<lambda>r new. \<forall>d. r = Some d \<longrightarrow> reached jc fs prf path d new)"
proof -
  have inner: "logs (do { ok \<leftarrow> check_object os jc prf [] (\<lambda>_. False) f;
        if ok then walk os jc fs prf flags f [] (names_of path)
        else do { sys (Close f) (sys_close os f); State_Monad.return None } })
      (\<lambda>r new. \<forall>d. r = Some d \<longrightarrow> (\<exists>s rest. new = Statx f (Some s) # rest \<and> proven jc prf [] s
         \<and> walked jc fs prf f [] (names_of path) d rest))" for f
    by (rule logs_try [OF check_object_logs walk_logs]) auto
  show ?thesis
    unfolding open_bound_def
  proof (rule logs_if [OF logs_none], rule logs_bind [OF logs_sys [where R = "\<lambda>r new. new = [Dup (root fs) r]"]], simp, rule logs_case_option)
    fix r and f :: fd assume r: "r = Some f"
    show "logs (do { ok \<leftarrow> check_object os jc prf [] (\<lambda>_. False) f;
        if ok then walk os jc fs prf flags f [] (names_of path)
        else do { sys (Close f) (sys_close os f); State_Monad.return None } })
      (\<lambda>q new. \<forall>d. q = Some d \<longrightarrow> reached jc fs prf path d (Dup (root fs) r # new))"
      by (rule logs_weaken [OF inner]) (auto simp: reached_def r)
  qed (auto intro: logs_none)
qed

section \<open>Changes come after their permission\<close>

text \<open>\<open>ordered A es\<close>: \<open>A\<close> holds of every event of \<open>es\<close> and the events before it.\<close>

definition ordered :: "(rx_event list \<Rightarrow> rx_event \<Rightarrow> bool) \<Rightarrow> rx_event list \<Rightarrow> bool" where
  "ordered A es \<longleftrightarrow> (\<forall>pre e post. es = pre @ e # post \<longrightarrow> A pre e)"

lemma orderedI: "(\<And>pre e post. es = pre @ e # post \<Longrightarrow> A pre e) \<Longrightarrow> ordered A es"
  unfolding ordered_def by blast

lemma orderedD: "ordered A es \<Longrightarrow> es = pre @ e # post \<Longrightarrow> A pre e"
  unfolding ordered_def by blast

lemma ordered_Nil [simp]: "ordered A []"
  by (rule orderedI) simp

lemma ordered_append:
  assumes "ordered A n1" "ordered (\<lambda>pre. A (n1 @ pre)) n2"
  shows "ordered A (n1 @ n2)"
proof (rule orderedI)
  fix pre e post assume e: "n1 @ n2 = pre @ e # post"
  then obtain us where "(n1 = pre @ us \<and> us @ n2 = e # post) \<or> (n1 @ us = pre \<and> n2 = us @ e # post)"
    by (auto simp: append_eq_append_conv2)
  then consider us where "n1 @ us = pre" "n2 = us @ e # post" | us where "n1 = pre @ e # us"
    by (cases us) auto
  then show "A pre e"
  proof cases
    case 1
    with orderedD [OF assms(2) 1(2)] show ?thesis by simp
  qed (rule orderedD [OF assms(1)])
qed

lemma ordered_mono: "ordered A es \<Longrightarrow> (\<And>pre e. A pre e \<Longrightarrow> B pre e) \<Longrightarrow> ordered B es"
  by (rule orderedI) (blast dest: orderedD)

lemma ordered_all: "list_all P es \<Longrightarrow> (\<And>pre e. P e \<Longrightarrow> A pre e) \<Longrightarrow> ordered A es"
  by (rule orderedI) simp

text \<open>\<open>guarded A es\<close>: whatever an event of \<open>es\<close> changes, \<open>A\<close> holds of the events before it and of that place.\<close>

definition guarded :: "(rx_event list \<Rightarrow> fd \<times> string \<Rightarrow> bool) \<Rightarrow> rx_event list \<Rightarrow> bool" where
  "guarded A es \<longleftrightarrow> ordered (\<lambda>pre e. \<forall>t\<in>set (touches e). A pre t) es"

abbreviation within :: "(fd \<times> string) set \<Rightarrow> rx_event \<Rightarrow> bool" where
  "within K e \<equiv> set (touches e) \<subseteq> K"

lemma guardedI: "(\<And>pre e post t. es = pre @ e # post \<Longrightarrow> t \<in> set (touches e) \<Longrightarrow> A pre t) \<Longrightarrow> guarded A es"
  unfolding guarded_def ordered_def by blast

lemma guardedD: "guarded A es \<Longrightarrow> es = pre @ e # post \<Longrightarrow> t \<in> set (touches e) \<Longrightarrow> A pre t"
  unfolding guarded_def ordered_def by blast

lemma guarded_append: "guarded A n1 \<Longrightarrow> guarded (\<lambda>pre. A (n1 @ pre)) n2 \<Longrightarrow> guarded A (n1 @ n2)"
  unfolding guarded_def by (rule ordered_append)

lemma guarded_within: "list_all (within K) es \<Longrightarrow> (\<And>pre t. t \<in> K \<Longrightarrow> A pre t) \<Longrightarrow> guarded A es"
  by (rule guardedI) (auto simp: subset_iff)

lemma guarded_calm: "list_all (\<lambda>e. touches e = []) es \<Longrightarrow> guarded A es"
  by (rule guarded_within [where K = "{}"]) (simp_all add: list_all_iff)

lemma guarded_mono: "guarded A es \<Longrightarrow> (\<And>pre t. A pre t \<Longrightarrow> B pre t) \<Longrightarrow> guarded B es"
  by (rule guardedI) (blast dest: guardedD)

text \<open>The place is a name of one of the paths \<open>Qs\<close>, in the directory that a proven walk has reached.\<close>

definition spot :: "jsonc \<Rightarrow> storage_fs \<Rightarrow> json \<Rightarrow> string set \<Rightarrow> rx_event list \<Rightarrow> fd \<times> string \<Rightarrow> bool" where
  "spot jc fs prf Qs pre t \<longleftrightarrow>
     (\<exists>q\<in>Qs. snd t = last_name q \<and> (\<exists>x seg y. pre = x @ seg @ y \<and> reached jc fs prf (parent_path q) (fst t) seg))"

lemma spotI: "q \<in> Qs \<Longrightarrow> pre = x @ seg @ y \<Longrightarrow> reached jc fs prf (parent_path q) d seg \<Longrightarrow> spot jc fs prf Qs pre (d, last_name q)"
  unfolding spot_def by force

lemma spot_extend: "spot jc fs prf Qs pre t \<Longrightarrow> spot jc fs prf Qs (x @ pre) t"
proof -
  assume "spot jc fs prf Qs pre t"
  then obtain q y seg z where q: "q \<in> Qs" "snd t = last_name q" "pre = y @ seg @ z" "reached jc fs prf (parent_path q) (fst t) seg"
    unfolding spot_def by blast
  then have "x @ pre = (x @ y) @ seg @ z" by simp
  from spotI [OF q(1) this q(4)] q(2) show ?thesis by (metis prod.collapse)
qed

lemma spot_mono: "spot jc fs prf Qs pre t \<Longrightarrow> Qs \<subseteq> Qs' \<Longrightarrow> spot jc fs prf Qs' pre t"
  unfolding spot_def by blast

lemma reached_spot: "reached jc fs prf (parent_path q) d n1 \<Longrightarrow> q \<in> Qs \<Longrightarrow> spot jc fs prf Qs (n1 @ pre) (d, last_name q)"
  by (rule spotI [where x = "[]"]) simp_all

lemma guarded_after_calm:
  "list_all (\<lambda>e. touches e = []) n1 \<Longrightarrow> guarded (spot jc fs prf Qs) n2 \<Longrightarrow> guarded (spot jc fs prf Qs) (n1 @ n2)"
  by (rule guarded_append [OF guarded_calm], assumption, erule guarded_mono, rule spot_extend)

lemma calm_within: "calm m \<Longrightarrow> keeps (within K) m"
  unfolding keeps_def by (erule logs_weaken) (auto simp: list_all_iff)

lemmas calm_steps = stat_fd_calm [THEN calm_within] stream_file_calm [THEN calm_within] ack_calm [THEN calm_within]
  open_bound_calm [THEN calm_within] bound_parent_calm [THEN calm_within] proof_key_calm close_calm [THEN calm_within]

lemma cmd_mkdir_within: "keeps (within {(dir, name)}) (cmd_mkdir os dir name)"
  unfolding cmd_mkdir_def by (intro logs_rules calm_steps) simp_all

lemma cmd_write_within: "keeps (within {(dir, name)}) (cmd_write os jc fs command path to sq request data res dir name)"
  unfolding cmd_write_def check_sealed_def by (intro logs_rules calm_steps) simp_all

lemma dest_free_calm: "calm (dest_free os target dest)"
  unfolding dest_free_def by (intro logs_rules) simp

lemma do_rename_within:
  "keeps (within {(dir, name), (target, dest)}) (do_rename os jc fs path prf before dir name target dest)"
  unfolding do_rename_def controlled_rename_def
  by (intro logs_rules calm_steps dest_free_calm [THEN calm_within]) simp_all

lemma logs_conj:
  assumes "logs m R" "logs m Q"
  shows "logs m (\<lambda>r new. R r new \<and> Q r new)"
  unfolding logs_def
proof
  fix s
  obtain a s' where r: "run_state m s = (a, s')" by fastforce
  from logsD [OF assms(1) r] logsD [OF assms(2) r]
  show "\<exists>new. trace (snd (run_state m s)) = trace s @ new \<and> R (fst (run_state m s)) new \<and> Q (fst (run_state m s)) new"
    using r by auto
qed

text \<open>A directory reached, then steps that change nothing but one name in it.\<close>

lemma bound_parent_logs:
  "logs (bound_parent os jc fs q prf) (\<lambda>r new. list_all (\<lambda>e. touches e = []) new \<and> (\<forall>d. r = Some d \<longrightarrow> reached jc fs prf (parent_path q) d new))"
  by (rule logs_conj [OF keeps_logs [OF bound_parent_calm]])
     (simp add: bound_parent_def open_bound_logs)

lemma guarded_bound_parent:
  assumes k: "\<And>d. logs (k d) (\<lambda>_ new. guarded (\<lambda>pre t. t = (d, last_name q) \<or> B pre t) new)"
    and ext: "\<And>x pre t. B pre t \<Longrightarrow> B (x @ pre) t"
    and there: "\<And>d es pre. reached jc fs prf (parent_path q) d es \<Longrightarrow> B (es @ pre) (d, last_name q)"
  shows "logs (do { r \<leftarrow> bound_parent os jc fs q prf; case r of None \<Rightarrow> State_Monad.return x | Some d \<Rightarrow> k d })
           (\<lambda>_ new. guarded B new)"
proof (rule logs_bind [OF bound_parent_logs])
  fix r
  show "logs (case r of None \<Rightarrow> State_Monad.return x | Some d \<Rightarrow> k d)
     (\<lambda>_ new. (r = None \<and> new = []) \<or> (\<exists>d. r = Some d \<and> guarded (\<lambda>pre t. t = (d, last_name q) \<or> B pre t) new))"
    by (rule logs_case_option) (auto intro: logs_return logs_weaken [OF k])
next
  fix r b n1 n2
  assume n1: "list_all (\<lambda>e. touches e = []) n1 \<and> (\<forall>d. r = Some d \<longrightarrow> reached jc fs prf (parent_path q) d n1)"
    and "(r = None \<and> n2 = []) \<or> (\<exists>d. r = Some d \<and> guarded (\<lambda>pre t. t = (d, last_name q) \<or> B pre t) n2)"
  then consider "n2 = []" | d where "r = Some d" "guarded (\<lambda>pre t. t = (d, last_name q) \<or> B pre t) n2" by blast
  then show "guarded B (n1 @ n2)"
  proof cases
    case 1
    with n1 show ?thesis by (simp add: guarded_calm)
  next
    case 2
    have "guarded (\<lambda>pre. B (n1 @ pre)) n2"
      by (rule guarded_mono [OF 2(2)]) (use n1 2(1) there ext in blast)
    with n1 show ?thesis by (simp add: guarded_append guarded_calm)
  qed
qed

lemma within_guarded: "keeps (within K) m \<Longrightarrow> (\<And>pre t. t \<in> K \<Longrightarrow> A pre t) \<Longrightarrow> logs m (\<lambda>_ new. guarded A new)"
  unfolding keeps_def by (erule logs_weaken, erule guarded_within) blast

lemma cmd_create_guarded:
  "logs (cmd_create os jc fs command op path to sq prf request data res) (\<lambda>_ new. guarded (spot jc fs prf {path}) new)"
  unfolding cmd_create_def
proof (rule guarded_bound_parent)
  fix d
  show "logs (do { key \<leftarrow> proof_key os jc path;
         case key of None \<Rightarrow> State_Monad.return (None, Some d, None)
         | Some k \<Rightarrow> (case json_object_object_get_ex prf k of
              None \<Rightarrow> if op = ''mkdir-owned'' then cmd_mkdir os d (last_name path)
                      else cmd_write os jc fs command path to sq request data res d (last_name path)
            | Some _ \<Rightarrow> if op \<noteq> ''mkdir-owned'' then State_Monad.return (None, Some d, None)
                  else do { r \<leftarrow> open_bound os jc fs path prf O_DIR;
                    case r of None \<Rightarrow> State_Monad.return (None, Some d, None)
                    | Some f \<Rightarrow> do { a \<leftarrow> rx_stat_fd os f;
                        State_Monad.return (Some f, Some d, map_option (\<lambda>s. created_json s False) a) } }) })
     (\<lambda>_ new. guarded (\<lambda>pre t. t = (d, last_name path) \<or> spot jc fs prf {path} pre t) new)"
    by (rule within_guarded [where K = "{(d, last_name path)}"])
       (intro logs_rules calm_steps cmd_mkdir_within cmd_write_within, simp_all)
qed (simp_all add: spot_extend reached_spot)

lemma cmd_rename_guarded:
  "logs (cmd_rename os jc fs path to prf before dir)
     (\<lambda>_ new. guarded (\<lambda>pre t. t = (dir, last_name path) \<or> spot jc fs prf (insert path (set_option to)) pre t) new)"
  unfolding cmd_rename_def
proof (rule logs_case_option, rule logs_return, rule guarded_calm, simp, rule guarded_bound_parent, rule within_guarded)
  fix q d
  assume "to = Some q"
  show "keeps (within {(dir, last_name path), (d, last_name q)}) (do {
            ok \<leftarrow> do_rename os jc fs path prf before dir (last_name path) d (last_name q);
            if \<not> ok then do { sys (Close d) (sys_close os d); State_Monad.return (None, Some dir, None) }
            else do {
              r \<leftarrow> sys (Openat d (last_name q) O_RD) (sys_openat os d (last_name q) O_RD);
              sys (Close d) (sys_close os d);
              case r of None \<Rightarrow> State_Monad.return (None, Some dir, None)
              | Some f \<Rightarrow> do {
                  a \<leftarrow> rx_stat_fd os f;
                  State_Monad.return (Some f, Some dir,
                    case a of None \<Rightarrow> None
                    | Some after \<Rightarrow> if same_object after before then Some (rx_node_json after) else None)
                }
            }
          })"
    by (intro logs_rules calm_steps do_rename_within) simp_all
qed (auto simp: spot_extend reached_spot)

lemma guarded_calm_bind:
  "calm m \<Longrightarrow> (\<And>a. logs (f a) (\<lambda>_ new. guarded (spot jc fs prf Qs) new)) \<Longrightarrow>
   logs (State_Monad.bind m f) (\<lambda>_ new. guarded (spot jc fs prf Qs) new)"
  by (rule logs_bind [OF keeps_logs], assumption, assumption, rule guarded_after_calm)

lemma guarded_return: "logs (State_Monad.return x) (\<lambda>_ new. guarded A new)"
  by (rule logs_return) (simp add: guarded_calm)

lemma cmd_move_guarded:
  "logs (cmd_move os jc fs op path to prf) (\<lambda>_ new. guarded (spot jc fs prf (insert path (set_option to))) new)"
proof -
  let ?S = "spot jc fs prf (insert path (set_option to))"
  have last: "logs (do { ok \<leftarrow> sys (Unlinkat d (last_name path) k) u; State_Monad.return (None, Some d, g ok) })
      (\<lambda>_ new. guarded (\<lambda>pre t. t = (d, last_name path) \<or> ?S pre t) new)" for d k u g
    by (rule within_guarded [where K = "{(d, last_name path)}"]) (intro logs_rules, simp_all)
  show ?thesis
    unfolding cmd_move_def
    by (intro guarded_calm_bind [OF open_bound_calm] guarded_calm_bind [OF stat_fd_calm] guarded_calm_bind [OF close_calm]
          logs_case_option guarded_return guarded_bound_parent logs_if last cmd_rename_guarded)
       (simp_all add: spot_extend reached_spot)
qed

section \<open>A whole command\<close>

lemma cmd_branch_guarded:
  "logs (cmd_branch os jc fs command op path to sq prf request data res)
     (\<lambda>_ new. guarded (\<lambda>pre t. mutating op \<and> spot jc fs prf (insert path (set_option to)) pre t) new)"
  unfolding cmd_branch_def
proof (intro logs_if guarded_return)
  show "logs (cmd_read os jc fs op path prf data)
     (\<lambda>_ new. guarded (\<lambda>pre t. mutating op \<and> spot jc fs prf (insert path (set_option to)) pre t) new)"
    by (rule logs_weaken [OF keeps_logs [OF cmd_read_calm]]) (rule guarded_calm)
next
  assume "op = ''mkdir-owned'' \<or> op = ''write''"
  then have "mutating op" by (auto simp: mutating_def)
  then show "logs (cmd_create os jc fs command op path to sq prf request data res)
     (\<lambda>_ new. guarded (\<lambda>pre t. mutating op \<and> spot jc fs prf (insert path (set_option to)) pre t) new)"
    by (intro logs_weaken [OF cmd_create_guarded]) (auto elim!: guarded_mono spot_mono)
next
  assume "op = ''rename-owned'' \<or> op = ''remove-owned''"
  then have "mutating op" by (auto simp: mutating_def)
  then show "logs (cmd_move os jc fs op path to prf)
     (\<lambda>_ new. guarded (\<lambda>pre t. mutating op \<and> spot jc fs prf (insert path (set_option to)) pre t) new)"
    by (intro logs_weaken [OF cmd_move_guarded]) (auto elim!: guarded_mono)
qed

lemma read_json_logs: "logs (rx_read_json os jc f room line) (\<lambda>r new. new = [Line r])"
  unfolding rx_read_json_def Let_def
proof (rule logs_bind [OF keeps_logs [OF read_loop_keeps [where P = "\<lambda>_. False"]]])
  fix b
  show "logs (do { note_ev (Line (g b)); State_Monad.return (g b) }) (\<lambda>r new. new = [Line r])" for g :: "string option \<Rightarrow> json option"
    by (rule logs_bind [OF logs_note [where R = "\<lambda>_ new. new = [Line (g b)]"] logs_return [where R = "\<lambda>r new. r = g b \<and> new = []"]]) auto
qed (auto simp: list_all_iff)

lemma emit_logs: "logs (rx_emit os jc f j) (\<lambda>ok new. \<exists>x. new = x @ [Emit j ok])"
proof -
  have n: "logs (do { note_ev (Emit j ok); State_Monad.return ok }) (\<lambda>r new. new = [Emit j r])" for ok
    by (rule logs_bind [OF logs_note [where R = "\<lambda>_ new. new = [Emit j ok]"] logs_return [where R = "\<lambda>r new. r = ok \<and> new = []"]]) auto
  show ?thesis
    unfolding rx_emit_def Let_def
    by (rule logs_bind [OF keeps_logs [where P = "\<lambda>_. True"] n]) (intro logs_rules write_all_keeps, simp_all)
qed

lemma ack_answer_logs:
  "logs (ack_answer os jc c event a) (\<lambda>r new. \<forall>p. r = Some p \<longrightarrow> ack_basic jc c event a = Some p \<and> ack_repeats event a)"
  unfolding ack_answer_def
proof (rule logs_case_option [OF logs_none])
  fix p assume p: "ack_basic jc c event a = Some p"
  show "logs (do { alive \<leftarrow> rx_parent_alive os c; State_Monad.return (if alive \<and> ack_repeats event a then Some p else None) })
     (\<lambda>r new. \<forall>q. r = Some q \<longrightarrow> ack_basic jc c event a = Some q \<and> ack_repeats event a)"
    by (rule logs_bind [OF parent_alive_logs logs_return [where R = "\<lambda>r _. \<forall>q. r = Some q \<longrightarrow> ack_repeats event a \<and> q = p"]])
       (auto simp: p)
qed

text \<open>An acknowledged event has been sent and answered, and the answer repeats it.\<close>

lemma ack_logs:
  "logs (ack os jc c event request res) (\<lambda>r new. \<forall>p. r = Some p \<longrightarrow>
     (\<exists>x a y. new = x @ [Emit event True, Line (Some a)] @ y \<and> ack_basic jc c event a = Some p \<and> ack_repeats event a))"
proof -
  let ?A = "\<lambda>a p. ack_basic jc c event a = Some p \<and> ack_repeats event a"
  have line: "logs (do { a \<leftarrow> rx_read_json os jc request RX_COMMAND_MAX True;
       case a of None \<Rightarrow> State_Monad.return None | Some a \<Rightarrow> ack_answer os jc c event a })
     (\<lambda>r new. \<forall>p. r = Some p \<longrightarrow> (\<exists>a y. new = Line (Some a) # y \<and> ?A a p))"
    by (rule logs_opt [OF logs_weaken [OF read_json_logs] ack_answer_logs, where R = "\<lambda>a new. new = [Line (Some a)]"]) auto
  have sent: "logs (do { sent \<leftarrow> rx_emit os jc res event; if \<not> sent then State_Monad.return None
       else do { a \<leftarrow> rx_read_json os jc request RX_COMMAND_MAX True;
         case a of None \<Rightarrow> State_Monad.return None | Some a \<Rightarrow> ack_answer os jc c event a } })
     (\<lambda>r new. \<forall>p. r = Some p \<longrightarrow> (\<exists>x a y. new = x @ [Emit event True, Line (Some a)] @ y \<and> ?A a p))"
    by (rule logs_unless [OF logs_weaken [OF emit_logs] line, where R = "\<lambda>new. \<exists>x. new = x @ [Emit event True]"]) force+
  show ?thesis
    unfolding ack_def by (rule logs_unless [OF parent_alive_logs sent]) (metis append.assoc)
qed

lemma ack_calm_logs:
  "logs (ack os jc c event request res) (\<lambda>r new. list_all (\<lambda>e. touches e = []) new \<and> (\<forall>p. r = Some p \<longrightarrow>
     (\<exists>x a y. new = x @ [Emit event True, Line (Some a)] @ y \<and> ack_basic jc c event a = Some p \<and> ack_repeats event a)))"
  by (rule logs_conj [OF keeps_logs [OF ack_calm] ack_logs])

lemma walked_result [simp]: "walked jc (fs\<lparr>result := r\<rparr>) prf f prefix parts d es \<longleftrightarrow> walked jc fs prf f prefix parts d es"
  by (induction parts arbitrary: f prefix es) (simp_all add: other_device_def)

lemma reached_result [simp]: "reached jc (fs\<lparr>result := r\<rparr>) prf path d es \<longleftrightarrow> reached jc fs prf path d es"
  by (simp add: reached_def)

lemma spot_result [simp]: "spot jc (fs\<lparr>result := r\<rparr>) prf Qs pre t \<longleftrightarrow> spot jc fs prf Qs pre t"
  by (simp add: spot_def)

lemma cmd_args_result [simp]: "cmd_args jc (fs\<lparr>result := r\<rparr>) command = cmd_args jc fs command"
  by (simp add: cmd_args_def cong: option.case_cong)

text \<open>
  What has to have happened before the place \<open>t\<close> is changed: the command was announced, its
  announcement acknowledged with a proof, and the directory reached by a walk that the proof covers;
  the place is the command's path or destination, and belongs to the task.
\<close>

definition permitted :: "jsonc \<Rightarrow> storage_fs \<Rightarrow> json \<Rightarrow> rx_event list \<Rightarrow> fd \<times> string \<Rightarrow> bool" where
  "permitted jc fs command pre t \<longleftrightarrow>
     (\<exists>op path to sq q prf x a y seg z.
        cmd_args jc fs command = Some (op, path, to, sq) \<and> mutating op
        \<and> rx_string (owner (ctx fs)) ''taskType'' 7 = Some ''capture'' \<and> (q = path \<or> to = Some q) \<and> owned (ctx fs) q
        \<and> pre = x @ [Emit (event_for (ctx fs) ''intent'' op path to sq) True, Line (Some a)] @ y @ seg @ z
        \<and> ack_basic jc (ctx fs) (event_for (ctx fs) ''intent'' op path to sq) a = Some prf
        \<and> ack_repeats (event_for (ctx fs) ''intent'' op path to sq) a
        \<and> reached jc fs prf (parent_path q) (fst t) seg \<and> snd t = last_name q)"

lemma cmd_args_allowed:
  assumes "cmd_args jc fs command = Some (op, path, to, sq)"
  shows "path_allowed (ctx fs) path (mutating op)" "to = Some t \<Longrightarrow> path_allowed (ctx fs) t (mutating op)"
    "sq = last_sequence fs + 1" "last_sequence fs \<noteq> - 1" "sq < - 3"
  using assms by (auto simp: cmd_args_def Let_def linorder_not_le split: Option.bind_splits option.splits)

lemma spot_permitted:
  assumes "ctx_ok (ctx fs)" "cmd_args jc fs command = Some (op, path, to, sq)" "mutating op"
    and "n1 = x @ [Emit (event_for (ctx fs) ''intent'' op path to sq) True, Line (Some a)] @ y"
    and "ack_basic jc (ctx fs) (event_for (ctx fs) ''intent'' op path to sq) a = Some prf"
    and "ack_repeats (event_for (ctx fs) ''intent'' op path to sq) a"
    and "spot jc fs prf (insert path (set_option to)) pre t"
  shows "permitted jc fs command (n1 @ pre) t"
proof -
  obtain q u seg z where q: "q = path \<or> to = Some q" "snd t = last_name q" "pre = u @ seg @ z"
      "reached jc fs prf (parent_path q) (fst t) seg"
    using assms(7) by (auto simp: spot_def)
  have "path_allowed (ctx fs) q True" using q(1) cmd_args_allowed [OF assms(2)] assms(3) by auto
  note own = path_allowed_owned [OF this assms(1)]
  have eq: "n1 @ pre = x @ [Emit (event_for (ctx fs) ''intent'' op path to sq) True, Line (Some a)] @ (y @ u) @ seg @ z"
    by (simp add: assms(4) q(3))
  show ?thesis
    unfolding permitted_def
    by (intro exI conjI, rule assms(2), rule assms(3), rule own(2), rule q(1), rule own(1), rule eq, rule assms(5), rule assms(6),
        rule q(4), rule q(2))
qed

lemma cmd_report_calm: "calm (cmd_report os jc fs op path to sq request res details)"
  unfolding cmd_report_def by (intro logs_rules ack_calm)

lemma close_opt_calm: "calm (close_opt os f)"
  unfolding close_opt_def by (intro logs_rules close_calm)

text \<open>What follows the branch changes nothing.\<close>

lemma guarded_then_calm:
  assumes "logs m (\<lambda>_ new. guarded A new)" "\<And>a. calm (k a)"
  shows "logs (State_Monad.bind m k) (\<lambda>_ new. guarded A new)"
  by (rule logs_bind [OF assms(1) keeps_logs [OF assms(2)]]) (rule guarded_append, simp, rule guarded_calm)

lemma rx_command_guarded:
  assumes "ctx_ok (ctx fs)"
  shows "logs (rx_command os jc fs command request data res) (\<lambda>_ new. guarded (permitted jc fs command) new)"
proof (cases "cmd_args jc fs command")
  case None
  then show ?thesis unfolding rx_command_def by (simp add: guarded_return)
next
  case (Some args)
  obtain op path to sq where args: "cmd_args jc fs command = Some (op, path, to, sq)" using Some by (metis prod_cases4)
  let ?fs = "fs\<lparr>result := res\<rparr>" and ?ev = "event_for (ctx fs) ''intent'' op path to sq"
  let ?G = "\<lambda>prf pre t. mutating op \<and> spot jc fs prf (insert path (set_option to)) pre t"
  let ?rest = "\<lambda>pr. do { br \<leftarrow> cmd_branch os jc ?fs command op path to sq pr request data res;
           c1 \<leftarrow> close_opt os (fst br);
           c2 \<leftarrow> close_opt os (fst (snd br));
           case snd (snd br) of None \<Rightarrow> State_Monad.return (False, ?fs)
           | Some details \<Rightarrow> if c1 \<and> c2 then cmd_report os jc ?fs op path to sq request res details
               else State_Monad.return (False, ?fs) }"
  have rest: "logs (?rest pr) (\<lambda>_ new. guarded (?G pr) new)" for pr
    by (rule guarded_then_calm [OF cmd_branch_guarded [where fs = ?fs, simplified]])
       (intro logs_rules close_opt_calm cmd_report_calm)
  have "logs (do { r \<leftarrow> ack os jc (ctx fs) ?ev request res; case r of None \<Rightarrow> State_Monad.return (False, ?fs) | Some pr \<Rightarrow> ?rest pr })
     (\<lambda>_ new. guarded (permitted jc fs command) new)"
  proof (rule logs_bind [OF ack_calm_logs])
    fix r
    show "logs (case r of None \<Rightarrow> State_Monad.return (False, ?fs) | Some pr \<Rightarrow> ?rest pr)
       (\<lambda>_ new. (r = None \<and> new = []) \<or> (\<exists>pr. r = Some pr \<and> guarded (?G pr) new))"
      by (rule logs_case_option) (auto intro: logs_return logs_weaken [OF rest])
  next
    fix r b n1 n2
    assume n1: "list_all (\<lambda>e. touches e = []) n1 \<and> (\<forall>p. r = Some p \<longrightarrow> (\<exists>x a y. n1 = x @ [Emit ?ev True, Line (Some a)] @ y
        \<and> ack_basic jc (ctx fs) ?ev a = Some p \<and> ack_repeats ?ev a))"
      and "(r = None \<and> n2 = []) \<or> (\<exists>pr. r = Some pr \<and> guarded (?G pr) n2)"
    then consider "n2 = []" | pr where "r = Some pr" "guarded (?G pr) n2" by blast
    then show "guarded (permitted jc fs command) (n1 @ n2)"
    proof cases
      case 2
      obtain x a y where a: "n1 = x @ [Emit ?ev True, Line (Some a)] @ y" "ack_basic jc (ctx fs) ?ev a = Some pr" "ack_repeats ?ev a"
        using n1 2(1) by blast
      have "guarded (\<lambda>pre. permitted jc fs command (n1 @ pre)) n2"
        by (rule guarded_mono [OF 2(2)]) (use spot_permitted [OF assms args _ a] in blast)
      with n1 show ?thesis by (simp add: guarded_append guarded_calm)
    qed (use n1 in \<open>simp add: guarded_calm\<close>)
  qed
  then show ?thesis unfolding rx_command_def Let_def by (simp add: args)
qed

section \<open>An example run\<close>

text \<open>
  A kernel that lets every call succeed and knows one directory (inode 2); on it one that reads the
  controller's lines from the world, and a controller that acknowledges what it is sent.
\<close>

definition demo_dir :: statx where
  "demo_dir = \<lparr>stx_mask = 0x3C3, stx_ino = 2, stx_dev_major = 0, stx_dev_minor = 40, stx_mode = 0x41C0, stx_size = 0,
     mtime_sec = 0, mtime_nsec = 0, ctime_sec = 0, ctime_nsec = 0\<rparr>"

definition plain_os :: "'w rx_os" where
  "plain_os = \<lparr>sys_getppid = (\<lambda>w. (42, w)), sys_read = (\<lambda>f n w. Ret (Some []) w),
     sys_write = (\<lambda>f d w. Ret (Some (length d)) w),
     sys_fstat = (\<lambda>f w. (None, w)), sys_fstatfs = (\<lambda>f w. (None, w)),
     sys_capbset_read = (\<lambda>k w. (Inl EINVAL, w)), sys_id = (\<lambda>op w. (True, w)), sys_ids = (\<lambda>w. (None, w)),
     sys_open_storage = (\<lambda>w. (Some 7, w)), sys_statx = (\<lambda>f w. (Some demo_dir, w)), sys_statx_at = (\<lambda>f n w. (Inl ENOENT, w)),
     sys_dup = (\<lambda>f w. (Some 8, w)), sys_openat = (\<lambda>f n fl w. (Some 9, w)), sys_close = (\<lambda>f w. (True, w)),
     sys_mkdirat = (\<lambda>f n w. (True, w)), sys_unlinkat = (\<lambda>f n k w. (True, w)), sys_renameat2 = (\<lambda>f n t m w. (None, w)),
     sys_renameat = (\<lambda>f n t m w. (True, w)), sys_fsync = (\<lambda>f w. (True, w)), sys_rewind = (\<lambda>f w. (True, w)),
     sys_readdir = (\<lambda>f w. (None, w)), sys_mount = (\<lambda>a b c d e w. (None, w)), sys_open_file = (\<lambda>p w. (None, w)),
     sys_resolve = (\<lambda>n w. (None, w)), sys_tcon = (\<lambda>f w. (None, w)), sys_setup = (\<lambda>w. (True, w)), evp_step = (\<lambda>w. (True, w))\<rparr>"

definition demo_os :: "string rx_os" where
  "demo_os = plain_os\<lparr>sys_read := (\<lambda>f n w. case w of [] \<Rightarrow> Ret (Some []) [] | c # cs \<Rightarrow> Ret (Some [c]) cs)\<rparr>"

definition demo_sha :: "string \<Rightarrow> string" where
  "demo_sha p = replicate 31 (CHR ''x'') @ [if p = [] then CHR ''a'' else CHR ''b'']"

definition demo_proof :: json where
  "demo_proof = JObject [(hex_bytes (demo_sha []), JObject [(''fileId'', JString ''2''), (''kind'', JString ''dir'')])]"

definition demo_ack :: "string \<Rightarrow> string \<Rightarrow> json" where
  "demo_ack phase n = JObject [(''event'', JString ''ack''), (''phase'', JString phase), (''operation'', JString ''mkdir-owned''),
     (''path'', JString ''dev''), (''sequence'', JString n), (''execution'', demo_owner), (''proof'', demo_proof)]"

definition demo_jc :: jsonc where
  "demo_jc = \<lparr>json_parse = (\<lambda>s. Some (if s = ''I'' then demo_ack ''intent'' ''1'' else demo_ack ''result'' ''2'')),
     json_text = (\<lambda>j. ''E''), json_object_equal = (=), sha256 = demo_sha, inet_pton = (\<lambda>six a. Some a)\<rparr>"

definition demo_fs :: storage_fs where
  "demo_fs = \<lparr>ctx = demo_ctx, root = 7, result = 6, root_stat = demo_dir, last_count = 0, last_sequence = 0\<rparr>"

definition demo_command :: json where
  "demo_command = JObject [(''operation'', JString ''mkdir-owned''), (''path'', JString ''dev''), (''sequence'', JString ''1''),
     (''execution'', demo_owner)]"

definition demo_state :: "string rx" where
  "demo_state = \<lparr>world = ''I'' @ [CHR 0x0A] @ ''R'' @ [CHR 0x0A], trace = []\<rparr>"

lemma demo_sel [simp]:
  "sys_getppid demo_os w = (42, w)" "sys_statx demo_os f w = (Some demo_dir, w)" "sys_dup demo_os f w = (Some 8, w)"
  "sys_openat demo_os f n fl w = (Some 9, w)" "sys_close demo_os f w = (True, w)" "sys_mkdirat demo_os f n w = (True, w)"
  "evp_step demo_os w = (True, w)" "sys_write demo_os f d w = Ret (Some (length d)) w"
  "sys_read demo_os f k (c # cs) = Ret (Some [c]) cs" "sha256 demo_jc = demo_sha" "json_text demo_jc j = ''E''"
  "json_object_equal demo_jc = (=)" "ctx demo_fs = demo_ctx" "root demo_fs = 7" "result demo_fs = 6" "last_sequence demo_fs = 0"
  by (simp_all add: demo_os_def plain_os_def demo_jc_def demo_fs_def)

lemma demo_args: "cmd_args demo_jc demo_fs demo_command = Some (''mkdir-owned'', ''dev'', None, 1)"
proof -
  have s: "rx_string demo_command ''operation'' 24 = Some ''mkdir-owned''" "rx_string demo_command ''path'' 4095 = Some ''dev''"
    "rx_string demo_command ''sequence'' 20 = Some ''1''"
    by (simp_all add: rx_string_Some json_object_object_get_ex_def demo_command_def strlen_def)
  have t: "rx_string demo_command ''to'' 4095 = None"
    by (simp add: rx_string_def json_object_object_get_ex_def demo_command_def)
  have e: "json_object_object_get_ex demo_command ''execution'' = Some demo_owner"
    by (simp add: json_object_object_get_ex_def demo_command_def)
  have q: "rx_sequence demo_command = Some 1"
    using strtoull_digits [of "''1''"] by (simp add: rx_sequence_def s is_digit_def dec_val_def digit_val_def)
  have p: "path_allowed demo_ctx ''dev'' True" by code_simp
  have w: "\<not> (- 3 :: u64) \<le> 1" by code_simp
  show ?thesis
    by (simp add: cmd_args_def s t e q p w demo_ctx_def [THEN arg_cong, of owner] mutating_def require_def)
qed

text \<open>How the calls behave on this kernel.\<close>

lemma run_sys: "run_state (sys ev g) s = (case g (world s) of (a, w) \<Rightarrow> (a, s\<lparr>world := w, trace := trace s @ [ev a]\<rparr>))"
  by (simp add: sys_def quiet_def note_ev_def split: prod.splits)

lemma demo_read:
  assumes "c \<noteq> CHR 0x00" "c \<noteq> CHR 0x0A" "1 < room"
  shows "run_state (rx_read_loop demo_os f True room []) \<lparr>world = c # CHR 0x0A # w, trace = t\<rparr> = (Some [c], \<lparr>world = w, trace = t\<rparr>)"
proof -
  obtain k where "room = Suc (Suc k)" using assms(3) by (metis Suc_lessD gr0_implies_Suc less_Suc_eq_0_disj One_nat_def not_less_eq)
  then show ?thesis using assms by (simp add: quiet_def)
qed

lemma demo_write: "d \<noteq> [] \<Longrightarrow> run_state (rx_write_all demo_os f d) s = (True, s\<lparr>trace := trace s @ [Write f d]\<rparr>)"
  by (subst rx_write_all.simps) (simp add: run_sys rx_write_all.simps)

lemma demo_emit:
  "run_state (rx_emit demo_os demo_jc f j) s = (True, s\<lparr>trace := trace s @ [Write f ''E'', Write f [CHR 0x0A], Emit j True]\<rparr>)"
  by (simp add: rx_emit_def demo_write note_ev_def RX_RESULT_MAX_def)

lemma demo_alive: "run_state (rx_parent_alive demo_os demo_ctx) s = (True, s\<lparr>trace := trace s @ [Ppid 42]\<rparr>)"
  by (simp add: rx_parent_alive_def run_sys demo_ctx_def)

lemma demo_ack_run:
  assumes "c \<noteq> CHR 0x00" "c \<noteq> CHR 0x0A" "json_parse demo_jc [c] = Some a" "is_object a"
    and "ack_basic demo_jc demo_ctx ev a = Some p" "ack_repeats ev a"
  shows "run_state (ack demo_os demo_jc demo_ctx ev req res) \<lparr>world = c # CHR 0x0A # w, trace = t\<rparr>
    = (Some p, \<lparr>world = w, trace = t @ [Ppid 42, Write res ''E'', Write res [CHR 0x0A], Emit ev True, Line (Some a), Ppid 42]\<rparr>)"
  using assms by (simp add: ack_def ack_answer_def demo_alive demo_emit rx_read_json_def demo_read note_ev_def RX_COMMAND_MAX_def Let_def)

lemma demo_intent:
  "run_state (ack demo_os demo_jc demo_ctx (event_for demo_ctx ''intent'' ''mkdir-owned'' ''dev'' None 1) 4 6) demo_state = (Some demo_proof,
     \<lparr>world = ''R'' @ [CHR 0x0A], trace = [Ppid 42, Write 6 ''E'', Write 6 [CHR 0x0A],
        Emit (event_for demo_ctx ''intent'' ''mkdir-owned'' ''dev'' None 1) True, Line (Some (demo_ack ''intent'' ''1'')), Ppid 42]\<rparr>)"
proof -
  have a: "ack_basic demo_jc demo_ctx (event_for demo_ctx ''intent'' ''mkdir-owned'' ''dev'' None 1) (demo_ack ''intent'' ''1'') = Some demo_proof"
    by code_simp
  have b: "ack_repeats (event_for demo_ctx ''intent'' ''mkdir-owned'' ''dev'' None 1) (demo_ack ''intent'' ''1'')" by code_simp
  have c: "is_object (demo_ack ''intent'' ''1'')" by (simp add: demo_ack_def is_object_def)
  show ?thesis using demo_ack_run [OF _ _ _ c a b] by (simp add: demo_state_def demo_jc_def)
qed

definition demo_trace :: "rx_event list" where
  "demo_trace = [Dup 7 (Some 8), Statx 8 (Some demo_dir), Mkdirat 8 ''dev'' True, Openat 8 ''dev'' O_DIR (Some 9),
     Statx 9 (Some demo_dir)]"

lemma demo_walk:
  "run_state (bound_parent demo_os demo_jc demo_fs ''dev'' demo_proof) s
     = (Some 8, s\<lparr>trace := trace s @ [Dup 7 (Some 8), Statx 8 (Some demo_dir)]\<rparr>)"
proof -
  have k: "json_object_object_get_ex demo_proof (hex_bytes (demo_sha [])) = Some (JObject [(''fileId'', JString ''2''), (''kind'', JString ''dir'')])"
    by (simp add: json_object_object_get_ex_def demo_proof_def)
  have m: "entry_matches (JObject [(''fileId'', JString ''2''), (''kind'', JString ''dir'')]) demo_dir" by code_simp
  have p: "parent_path ''dev'' = []" by code_simp
  have l: "length (demo_sha []) = 32" by (simp add: demo_sha_def)
  have w: "stx_mask demo_dir AND statx_wanted = statx_wanted" by code_simp
  show ?thesis
    by (simp add: bound_parent_def open_bound_def p rx_relative_def run_sys check_object_def rx_stat_fd_def proof_matches_def
        proof_key_def quiet_def k m l w Let_def)
qed

lemma demo_branch:
  "run_state (cmd_branch demo_os demo_jc demo_fs demo_command ''mkdir-owned'' ''dev'' None 1 demo_proof 4 5 6) s
     = ((Some 9, Some 8, Some (created_json demo_dir True)), s\<lparr>trace := trace s @ demo_trace\<rparr>)"
proof -
  have k: "json_object_object_get_ex demo_proof (hex_bytes (demo_sha ''dev'')) = None" by code_simp
  have n: "last_name ''dev'' = ''dev''" by code_simp
  have l: "length (demo_sha ''dev'') = 32" by (simp add: demo_sha_def)
  have w: "stx_mask demo_dir AND statx_wanted = statx_wanted" by code_simp
  show ?thesis
    unfolding cmd_branch_def cmd_create_def
    by (simp add: demo_walk proof_key_def quiet_def k l n w cmd_mkdir_def run_sys rx_stat_fd_def demo_trace_def Let_def)
qed

definition demo_report :: json where
  "demo_report = json_object_object_add (event_for demo_ctx ''result'' ''mkdir-owned'' ''dev'' None 2) ''node'' (created_json demo_dir True)"

lemma demo_result:
  "run_state (cmd_report demo_os demo_jc demo_fs ''mkdir-owned'' ''dev'' None 1 4 6 (created_json demo_dir True))
     \<lparr>world = ''R'' @ [CHR 0x0A], trace = t\<rparr>
   = ((True, demo_fs\<lparr>last_sequence := 2\<rparr>), \<lparr>world = [], trace = t @ [Ppid 42, Write 6 ''E'', Write 6 [CHR 0x0A],
        Emit demo_report True, Line (Some (demo_ack ''result'' ''2'')), Ppid 42]\<rparr>)"
proof -
  have a: "ack_basic demo_jc demo_ctx demo_report (demo_ack ''result'' ''2'') = Some demo_proof" by code_simp
  have b: "ack_repeats demo_report (demo_ack ''result'' ''2'')" by code_simp
  have c: "is_object (demo_ack ''result'' ''2'')" by (simp add: demo_ack_def is_object_def)
  have p: "json_parse demo_jc [CHR ''R''] = Some (demo_ack ''result'' ''2'')" by (simp add: demo_jc_def)
  show ?thesis
    using demo_ack_run [OF _ _ p c a b, of 4 6 "[]" t] by (simp add: cmd_report_def Let_def demo_report_def)
qed

lemma demo_run:
  "run_state (rx_command demo_os demo_jc demo_fs demo_command 4 5 6) demo_state =
    ((True, demo_fs\<lparr>last_sequence := 2\<rparr>),
     \<lparr>world = [], trace = [Ppid 42, Write 6 ''E'', Write 6 [CHR 0x0A],
        Emit (event_for demo_ctx ''intent'' ''mkdir-owned'' ''dev'' None 1) True, Line (Some (demo_ack ''intent'' ''1'')), Ppid 42]
        @ demo_trace @ [Close 9 True, Close 8 True]
        @ [Ppid 42, Write 6 ''E'', Write 6 [CHR 0x0A], Emit demo_report True, Line (Some (demo_ack ''result'' ''2'')), Ppid 42]\<rparr>)"
proof -
  have r: "demo_fs\<lparr>result := 6\<rparr> = demo_fs" by (simp add: demo_fs_def)
  show ?thesis
    unfolding rx_command_def r Let_def demo_sel
    using demo_result [of "[Ppid 42, Write 6 ''E'', Write 6 [CHR 0x0A],
        Emit (event_for demo_ctx ''intent'' ''mkdir-owned'' ''dev'' None 1) True, Line (Some (demo_ack ''intent'' ''1'')), Ppid 42]
        @ demo_trace @ [Close 9 True, Close 8 True]"]
    by (simp add: demo_args demo_intent demo_branch close_opt_def run_sys)
qed

text \<open>Property C10. A command changes the share only where and when it may.  Whenever \<open>rx_command\<close> makes, on
  whatever kernel and with whatever controller, a call that creates, removes or renames a name in a
  directory (\<open>mkdirat\<close>, \<open>openat\<close> with \<open>O_CREAT\<close>, \<open>unlinkat\<close>, \<open>renameat2\<close>, \<open>renameat\<close>), then before it: the
  command was well formed, carried the next sequence number and the owner of the task, the task is a
  capture, the announcement was sent and the controller answered it with an acknowledgement of the same
  number, operation, path and destination; and the directory was reached from the root of the share by
  opening one name after the other without following links, every object on the way on the device of the
  share and described by the acknowledged proof.  The name is the last one of the command's path or
  destination, which lies in the trees of the stage, the lock or the image of the task or on the way to the
  stage, and contains no \<open>..\<close>.\<close>

theorem command_changes_guarded:
  assumes "ctx_ok (ctx fs)" "run_state (rx_command os jc fs command request data res) s = (r, s')"
  shows "\<exists>new. trace s' = trace s @ new \<and> guarded (permitted jc fs command) new"
  using logsD [OF rx_command_guarded [OF assms(1)] assms(2)] .

theorem command_changes_guarded_witness:
  "(\<exists>new. trace (snd (run_state (rx_command demo_os demo_jc demo_fs demo_command 4 5 6) demo_state)) = trace demo_state @ new
     \<and> guarded (permitted demo_jc demo_fs demo_command) new)
   \<and> Mkdirat 8 ''dev'' True \<in> set (trace (snd (run_state (rx_command demo_os demo_jc demo_fs demo_command 4 5 6) demo_state)))
   \<and> touches (Mkdirat 8 ''dev'' True) \<noteq> []"
proof -
  have c: "ctx_ok (ctx demo_fs)" by (simp add: demo_ctx_ok)
  show ?thesis
    using command_changes_guarded [OF c demo_run] demo_run by (simp add: demo_trace_def)
qed

lemma rx_command_sequence:
  assumes "run_state (rx_command os jc fs command request data res) s = ((ok, fs'), s')"
  shows "(if ok then \<exists>op path to sq. cmd_args jc fs command = Some (op, path, to, sq) \<and> unat sq = unat (last_sequence fs) + 1
             \<and> unat (last_sequence fs') = unat (last_sequence fs) + (if op = ''write'' then 3 else 2)
          else last_sequence fs' = last_sequence fs)
         \<and> ctx fs' = ctx fs \<and> root fs' = root fs \<and> root_stat fs' = root_stat fs"
proof (cases "cmd_args jc fs command")
  case None
  with assms show ?thesis by (auto simp: rx_command_def)
next
  case (Some args)
  obtain op path to sq where args: "cmd_args jc fs command = Some (op, path, to, sq)" using Some by (metis prod_cases4)
  have n: "sq = last_sequence fs + 1" "last_sequence fs \<noteq> - 1" "sq < - 3" using cmd_args_allowed [OF args] by auto
  have u: "unat (x + k) = unat x + unat k" if "unat x + unat k < 2 ^ 64" for x k :: u64
    using that by (simp add: unat_word_ariths)
  have top: "unat (- 1 :: u64) = 2 ^ 64 - 1" "unat (- 3 :: u64) = 2 ^ 64 - 3"
    by (simp_all add: unat_eq_nat_uint uint_word_ariths)
  have l: "unat (last_sequence fs) + 1 < 2 ^ 64"
  proof -
    have "unat (last_sequence fs) \<noteq> 2 ^ 64 - 1" using n(2) top(1) by (metis unsigned_word_eqI)
    moreover have "unat (last_sequence fs) < 2 ^ 64" using unsigned_less [of "last_sequence fs"] by simp
    ultimately show ?thesis by simp
  qed
  have a: "unat sq = unat (last_sequence fs) + 1" using l n(1) u [of "last_sequence fs" 1] by simp
  have b: "unat sq < 2 ^ 64 - 3" using n(3) top(2) by (simp add: word_less_nat_alt)
  have s: "unat (sq + 1) = unat sq + 1" "unat (sq + 2) = unat sq + 2" using b u [of sq 1] u [of sq 2] by simp_all
  have rep: "fst (run_state (cmd_report os jc gs op path to sq request res details) t) \<in>
      {(False, gs), (False, gs\<lparr>last_count := k\<rparr>), (True, gs\<lparr>last_count := k, last_sequence := sq + (if op = ''write'' then 2 else 1)\<rparr>),
       (True, gs\<lparr>last_sequence := sq + (if op = ''write'' then 2 else 1)\<rparr>)}"
    if "k = fst (strtoull (the (rx_string details ''size'' 20)))" for gs details t k
    using that by (auto simp: cmd_report_def Let_def split: prod.splits option.splits)
  let ?gs = "fs\<lparr>result := res\<rparr>"
  consider "(ok, fs') = (False, ?gs)" | details t where "run_state (cmd_report os jc ?gs op path to sq request res details) t = ((ok, fs'), s')"
    using assms by (auto simp: rx_command_def Let_def args split: prod.splits option.splits if_splits)
  then show ?thesis
  proof cases
    case 2
    show ?thesis using rep [OF refl, of ?gs details t] unfolding 2 by (auto simp: args a s)
  qed (simp add: args)
qed

text \<open>Property C14. Sequence numbers: a command that succeeds carried the number after the last one, and leaves
  as last number its own plus one, for a write plus two (the numbers of its later events), with no
  wrap-around; a command that fails leaves the last number as it was.  Context, root descriptor and root
  identity never change.\<close>

theorem command_sequence:
  assumes "run_state (rx_command os jc fs command request data res) s = ((ok, fs'), s')"
  shows "(if ok then \<exists>op path to sq. cmd_args jc fs command = Some (op, path, to, sq) \<and> unat sq = unat (last_sequence fs) + 1
             \<and> unat (last_sequence fs') = unat (last_sequence fs) + (if op = ''write'' then 3 else 2)
          else last_sequence fs' = last_sequence fs)
         \<and> ctx fs' = ctx fs \<and> root fs' = root fs \<and> root_stat fs' = root_stat fs"
  using assms by (rule rx_command_sequence)

lemma demo_refused: "cmd_args demo_jc (demo_fs\<lparr>last_sequence := 5\<rparr>) demo_command = None"
proof -
  have s: "rx_string demo_command ''operation'' 24 = Some ''mkdir-owned''" "rx_string demo_command ''path'' 4095 = Some ''dev''"
    "rx_string demo_command ''sequence'' 20 = Some ''1''"
    by (simp_all add: rx_string_Some json_object_object_get_ex_def demo_command_def strlen_def)
  have "rx_sequence demo_command = Some 1"
    using strtoull_digits [of "''1''"] by (simp add: rx_sequence_def s is_digit_def dec_val_def digit_val_def)
  then show ?thesis by (simp add: cmd_args_def s require_def)
qed

lemma demo_refused_run:
  "run_state (rx_command demo_os demo_jc (demo_fs\<lparr>last_sequence := 5\<rparr>) demo_command 4 5 6) demo_state
   = ((False, demo_fs\<lparr>last_sequence := 5, result := 6\<rparr>), demo_state)"
  using demo_refused by (simp add: rx_command_def Let_def)

text \<open>The command with number 1 is carried out after number 0 and refused after number 5.\<close>

theorem command_sequence_witness:
  "(\<exists>fs' s'. run_state (rx_command demo_os demo_jc demo_fs demo_command 4 5 6) demo_state = ((True, fs'), s')
      \<and> last_sequence demo_fs = 0 \<and> unat (last_sequence fs') = 2 \<and> ctx fs' = ctx demo_fs)
   \<and> (\<exists>fs' s'. run_state (rx_command demo_os demo_jc (demo_fs\<lparr>last_sequence := 5\<rparr>) demo_command 4 5 6) demo_state = ((False, fs'), s')
      \<and> last_sequence fs' = 5)"
proof (rule conjI)
  have "unat (last_sequence (demo_fs\<lparr>last_sequence := 2\<rparr>)) = unat (last_sequence demo_fs) + 2
      \<and> ctx (demo_fs\<lparr>last_sequence := 2\<rparr>) = ctx demo_fs"
    using command_sequence [OF demo_run] demo_args by auto
  then show "\<exists>fs' s'. run_state (rx_command demo_os demo_jc demo_fs demo_command 4 5 6) demo_state = ((True, fs'), s')
      \<and> last_sequence demo_fs = 0 \<and> unat (last_sequence fs') = 2 \<and> ctx fs' = ctx demo_fs"
    using demo_run by auto
  have "last_sequence (demo_fs\<lparr>last_sequence := 5, result := 6\<rparr>) = last_sequence (demo_fs\<lparr>last_sequence := 5\<rparr>)"
    using command_sequence [OF demo_refused_run] by (simp only: if_False)
  then show "\<exists>fs' s'. run_state (rx_command demo_os demo_jc (demo_fs\<lparr>last_sequence := 5\<rparr>) demo_command 4 5 6) demo_state = ((False, fs'), s')
      \<and> last_sequence fs' = 5"
    using demo_refused_run by auto
qed

end
