(* ===== verification/StorageStream.thy ===== *)
theory StorageStream
  imports StorageGuard
begin

text \<open>
  Writing a file: what the copy loop and the read-back loop of \<open>stream_file\<close> leave in the trace, and
  that a reported write is on the share.
\<close>

section \<open>Writing a file\<close>

text \<open>The bytes that came in from \<open>f\<close>.\<close>

fun received :: "fd \<Rightarrow> rx_event list \<Rightarrow> string" where
  "received f [] = []"
| "received f (Read g (Some b) # es) = (if g = f then b @ received f es else received f es)"
| "received f (e # es) = received f es"

lemma received_append [simp]: "received f (xs @ ys) = received f xs @ received f ys"
  by (induction f xs rule: received.induct) auto

lemma talk_idle: "list_all (talk g) es \<Longrightarrow> received x es = [] \<and> (g \<noteq> f \<longrightarrow> written f es = [])"
proof (induction es)
  case (Cons e es)
  then show ?case by (cases e) auto
qed simp

lemma ppid_idle: "list_all (\<lambda>e. \<exists>p. e = Ppid p) es \<Longrightarrow> received x es = [] \<and> written f es = []"
  by (induction es) auto

lemma write_only: "list_all (\<lambda>e. \<exists>b. e = Write f b) es \<Longrightarrow> received x es = [] \<and> (g \<noteq> f \<longrightarrow> written g es = [])"
  by (induction es) auto

lemma mark_progress_logs:
  "logs (mark_progress os jc fs stg n p)
     (\<lambda>r new. \<forall>q. r = Some q \<longrightarrow> received x new = [] \<and> (result fs \<noteq> f \<longrightarrow> written f new = []))"
proof -
  have "keeps (talk (result fs)) (mark_progress os jc fs stg n p)"
    unfolding mark_progress_def stream_progress_def by (intro logs_rules emit_keeps) simp_all
  then show ?thesis
    by (rule logs_weaken [OF keeps_logs]) (simp add: talk_idle [where g = "result fs"])
qed

lemma quiet_logs: "logs (quiet g) (\<lambda>ok new. ok \<longrightarrow> new = [])"
  by (rule logs_quiet) simp

text \<open>
  The copy loop, \<open>n\<close> bytes done: what is hashed is what came in and what went to the file, and the
  limit holds.
\<close>

definition copied :: "fd \<Rightarrow> fd \<Rightarrow> nat \<Rightarrow> nat \<Rightarrow> string \<Rightarrow> string \<Rightarrow> rx_event list \<Rightarrow> bool" where
  "copied f data limit n h d es \<longleftrightarrow>
     (\<exists>e. d = h @ e \<and> received data es = e \<and> written f es = e
        \<and> (limit \<noteq> 0 \<longrightarrow> n \<le> limit \<longrightarrow> n + length e \<le> limit) \<and> (n \<le> 9223372036854775807 \<longrightarrow> n + length e \<le> 9223372036854775807))"

lemma stream_loop_logs:
  assumes "result fs \<noteq> f"
  shows "logs (stream_loop os jc fs f data True limit file_size n p h) (\<lambda>r new. \<forall>d. r = Some d \<longrightarrow> copied f data limit n h d new)"
  using assms
proof (induction os jc fs f data "True" limit file_size n p h rule: stream_loop.induct)
  case (1 os jc fs f data limit file_size n p h)
  let ?want = "stream_want True limit file_size n"
  let ?loop = "\<lambda>b q. stream_loop os jc fs f data True limit file_size (n + length b) q (h @ b)"
  let ?chunk = "\<lambda>b. do {
       ok \<leftarrow> rx_write_all os f b;
       if \<not> ok then State_Monad.return None
       else do {
         ok \<leftarrow> quiet (evp_step os);
         if \<not> ok then State_Monad.return None
         else do {
           p \<leftarrow> mark_progress os jc fs ''write'' (n + length b) p;
           case p of None \<Rightarrow> State_Monad.return None | Some q \<Rightarrow> ?loop b q
         }
       }
     }"
  let ?rest = "\<lambda>b. if b = [] then State_Monad.return (Some h)
       else if n + length b > 9223372036854775807 then State_Monad.return None else ?chunk b"
  have chunk: "logs (?chunk b) (\<lambda>r new. \<forall>d. r = Some d \<longrightarrow> (\<exists>n1 n2. new = n1 @ n2 \<and> received data n1 = [] \<and> written f n1 = b
      \<and> copied f data limit (n + length b) (h @ b) d n2))"
    if b: "b \<noteq> []" "n + length b \<le> 9223372036854775807" "?want \<noteq> 0" for b
  proof -
    have loop: "logs (?loop b q) (\<lambda>r new. \<forall>d. r = Some d \<longrightarrow> copied f data limit (n + length b) (h @ b) d new)" for q
      using b 1(2) by (intro "1.hyps") auto
    have marked: "logs (do { p \<leftarrow> mark_progress os jc fs ''write'' (n + length b) p; case p of None \<Rightarrow> State_Monad.return None | Some q \<Rightarrow> ?loop b q })
       (\<lambda>r new. \<forall>d. r = Some d \<longrightarrow> copied f data limit (n + length b) (h @ b) d new)"
      by (rule logs_opt [OF mark_progress_logs [where x = data and f = f] loop]) (use 1(2) in \<open>auto simp: copied_def\<close>)
    have hashed: "logs (do { ok \<leftarrow> quiet (evp_step os); if \<not> ok then State_Monad.return None
         else do { p \<leftarrow> mark_progress os jc fs ''write'' (n + length b) p; case p of None \<Rightarrow> State_Monad.return None | Some q \<Rightarrow> ?loop b q } })
       (\<lambda>r new. \<forall>d. r = Some d \<longrightarrow> copied f data limit (n + length b) (h @ b) d new)"
      by (rule logs_unless [OF quiet_logs marked]) simp
    show ?thesis
      by (rule logs_unless [OF logs_weaken [OF write_all_logs, where R' = "\<lambda>ok new. ok \<longrightarrow> received data new = [] \<and> written f new = b"] hashed])
         (auto simp: write_only [of f])
  qed
  have rest: "logs (?rest b) (\<lambda>r new. \<forall>d. r = Some d \<longrightarrow> (\<exists>e. d = h @ b @ e \<and> received data new = e \<and> written f new = b @ e
      \<and> (limit \<noteq> 0 \<longrightarrow> n + length b \<le> limit \<longrightarrow> n + length b + length e \<le> limit)
      \<and> (n \<le> 9223372036854775807 \<longrightarrow> n + length b + length e \<le> 9223372036854775807)))" if w: "?want \<noteq> 0" for b
    by (intro logs_if logs_none) (auto intro!: logs_return logs_weaken [OF chunk [OF _ _ w]] simp: copied_def)
  have chunked: "logs (do { r \<leftarrow> stream_read os (ctx fs) data ?want; case r of None \<Rightarrow> State_Monad.return None | Some b \<Rightarrow> ?rest b })
     (\<lambda>r new. \<forall>d. r = Some d \<longrightarrow> copied f data limit n h d new)" if w: "?want \<noteq> 0"
    by (rule logs_opt [OF logs_weaken [OF stream_read_logs, where R' = "\<lambda>r new. \<forall>b. r = Some b \<longrightarrow> received data new = b \<and> written f new = [] \<and> length b \<le> ?want"] rest [OF w]])
       (use w in \<open>auto simp: copied_def ppid_idle stream_want_def split: if_splits\<close>)
  show ?case
    unfolding stream_loop.simps [of os jc fs f data True limit file_size n p h] Let_def if_True
    by (rule logs_unless [OF parent_alive_logs logs_if [OF _ chunked]])
       (auto intro!: logs_return simp: copied_def)
qed

lemma readback_loop_logs:
  assumes "result fs \<noteq> f"
  shows "logs (readback_loop os jc fs f len n p h) (\<lambda>r new. \<forall>d. r = Some d \<longrightarrow>
    (\<exists>e. d = h @ e \<and> received f new = e \<and> written f new = [] \<and> (n \<le> len \<longrightarrow> n + length e = len)))"
  using assms
proof (induction os jc fs f len n p h rule: readback_loop.induct)
  case (1 os jc fs f len n p h)
  let ?want = "min (len - n) RX_DATA_MAX"
  let ?T = "\<lambda>n h d es. \<exists>e. d = h @ e \<and> received f es = e \<and> written f es = [] \<and> (n \<le> len \<longrightarrow> n + length e = len)"
  let ?loop = "\<lambda>b q. readback_loop os jc fs f len (n + length b) q (h @ b)"
  let ?chunk = "\<lambda>b. do {
       ok \<leftarrow> quiet (evp_step os);
       if \<not> ok then State_Monad.return None
       else do {
         p \<leftarrow> mark_progress os jc fs ''readback'' (n + length b) p;
         case p of None \<Rightarrow> State_Monad.return None | Some q \<Rightarrow> ?loop b q
       }
     }"
  show ?case
  proof (cases "len \<le> n")
    case True
    then show ?thesis by (subst readback_loop.simps) (simp add: logs_return)
  next
    case False
    have chunk: "logs (?chunk b) (\<lambda>r new. \<forall>d. r = Some d \<longrightarrow> ?T (n + length b) (h @ b) d new)"
      if b: "b \<noteq> []" "b = take ?want b0" for b b0
    proof -
      have loop: "logs (?loop b q) (\<lambda>r new. \<forall>d. r = Some d \<longrightarrow> ?T (n + length b) (h @ b) d new)" for q
        using "1.IH" [OF False refl b(2,1) _ _] 1(2) by blast
      have marked: "logs (do { p \<leftarrow> mark_progress os jc fs ''readback'' (n + length b) p; case p of None \<Rightarrow> State_Monad.return None | Some q \<Rightarrow> ?loop b q })
         (\<lambda>r new. \<forall>d. r = Some d \<longrightarrow> ?T (n + length b) (h @ b) d new)"
        by (rule logs_opt [OF mark_progress_logs [where x = f and f = f] loop]) (use 1(2) in auto)
      show ?thesis by (rule logs_unless [OF quiet_logs marked]) simp
    qed
    have step: "logs (if take ?want b0 = [] then State_Monad.return None else ?chunk (take ?want b0))
       (\<lambda>r new. \<forall>d. r = Some d \<longrightarrow> ?T (n + length (take ?want b0)) (h @ take ?want b0) d new)" for b0
      by (rule logs_if [OF logs_none chunk [OF _ refl]])
    show ?thesis
      unfolding readback_loop.simps [of os jc fs f len n p h] if_not_P [OF False] Let_def
    proof (rule logs_opt [OF logs_sys step])
      show "\<forall>x. a = Some x \<longrightarrow> [Read f (map_option (take ?want) a)] = [Read f (Some (take ?want x))]" for a
        by simp
    next
      fix x d n1 n2
      assume n1: "n1 = [Read f (Some (take ?want x))]" and n2: "?T (n + length (take ?want x)) (h @ take ?want x) d n2"
      from n2 obtain e where e: "d = (h @ take ?want x) @ e" "received f n2 = e" "written f n2 = []"
          "n + length (take ?want x) \<le> len \<longrightarrow> n + length (take ?want x) + length e = len"
        by blast
      have "n + length (take ?want x) \<le> len" using False by simp
      with e(4) have "n + length (take ?want x @ e) = len" by simp
      with e(1-3) n1 show "?T n h d (n1 @ n2)" by simp
    qed
  qed
qed

lemma digest_final_logs:
  "logs (digest_final os jc h) (\<lambda>r new. \<forall>d. r = Some d \<longrightarrow> new = [] \<and> d = sha256 jc h \<and> length d = 32)"
  unfolding digest_final_def
proof (rule logs_bind [OF quiet_logs])
  fix ok
  show "logs (State_Monad.return (if ok \<and> length (sha256 jc h) = 32 then Some (sha256 jc h) else None))
     (\<lambda>r new. new = [] \<and> (\<forall>d. r = Some d \<longrightarrow> ok \<and> d = sha256 jc h \<and> length d = 32))"
    by (rule logs_return) simp
qed auto

lemma stream_verify_logs:
  assumes "result fs \<noteq> f"
  shows "logs (stream_verify os jc fs f n digest sealed) (\<lambda>r new. \<forall>a. r = Some a \<longrightarrow>
    written f new = [] \<and> length (received f new) = n \<and> sha256 jc (received f new) = digest \<and> same_runtime sealed a
    \<and> new \<noteq> [] \<and> last new = Statx f (Some a))"
proof -
  let ?fin = "do { after \<leftarrow> rx_stat_fd os f;
       State_Monad.return (case after of None \<Rightarrow> None | Some a \<Rightarrow> if same_runtime sealed a then Some a else None) }"
  have fin: "logs ?fin (\<lambda>r new. \<forall>a. r = Some a \<longrightarrow> received f new = [] \<and> written f new = [] \<and> same_runtime sealed a
      \<and> new \<noteq> [] \<and> last new = Statx f (Some a))"
    by (rule logs_bind [OF stat_fd_logs logs_return [where R = "\<lambda>r new. new = [] \<and> (\<forall>a. r = Some a \<longrightarrow> x = Some a \<and> same_runtime sealed a)" for x]])
       (auto split: option.splits)
  have cmp: "logs (do { v \<leftarrow> digest_final os jc h; if v \<noteq> Some digest then State_Monad.return None else ?fin })
      (\<lambda>r new. \<forall>a. r = Some a \<longrightarrow> received f new = [] \<and> written f new = [] \<and> sha256 jc h = digest \<and> same_runtime sealed a
        \<and> new \<noteq> [] \<and> last new = Statx f (Some a))" for h
  proof (rule logs_bind [OF digest_final_logs])
    fix v
    show "logs (if v \<noteq> Some digest then State_Monad.return None else ?fin)
       (\<lambda>r new. \<forall>a. r = Some a \<longrightarrow> v = Some digest \<and> received f new = [] \<and> written f new = [] \<and> same_runtime sealed a
         \<and> new \<noteq> [] \<and> last new = Statx f (Some a))"
      by (rule logs_if [OF logs_none]) (auto intro: logs_weaken [OF fin])
  qed auto
  have again: "logs (do { h \<leftarrow> readback_loop os jc fs f n 0 0 []; case h of None \<Rightarrow> State_Monad.return None
       | Some h \<Rightarrow> do { v \<leftarrow> digest_final os jc h; if v \<noteq> Some digest then State_Monad.return None else ?fin } })
      (\<lambda>r new. \<forall>a. r = Some a \<longrightarrow> written f new = [] \<and> length (received f new) = n \<and> sha256 jc (received f new) = digest \<and> same_runtime sealed a
        \<and> new \<noteq> [] \<and> last new = Statx f (Some a))"
    by (rule logs_opt [OF readback_loop_logs [OF assms] cmp]) auto
  have hashed: "logs (do { ok \<leftarrow> quiet (evp_step os); if \<not> ok then State_Monad.return None else
      do { h \<leftarrow> readback_loop os jc fs f n 0 0 []; case h of None \<Rightarrow> State_Monad.return None
       | Some h \<Rightarrow> do { v \<leftarrow> digest_final os jc h; if v \<noteq> Some digest then State_Monad.return None else ?fin } } })
      (\<lambda>r new. \<forall>a. r = Some a \<longrightarrow> written f new = [] \<and> length (received f new) = n \<and> sha256 jc (received f new) = digest \<and> same_runtime sealed a
        \<and> new \<noteq> [] \<and> last new = Statx f (Some a))"
    by (rule logs_unless [OF quiet_logs again]) simp
  show ?thesis
    unfolding stream_verify_def
    by (rule logs_unless [OF logs_sys [where R = "\<lambda>ok new. ok \<longrightarrow> new = [Rewind f True]"] hashed]) auto
qed

definition sealed_report :: "string \<Rightarrow> statx \<Rightarrow> json" where
  "sealed_report digest st = json_object_object_add (rx_node_json st) ''sha256'' (JString (hex_bytes digest))"

text \<open>
  The file has been read again after it was synchronised; its bytes have the digest of what was copied, and
  the last look at it saw \<open>st\<close>.
\<close>

definition read_again :: "jsonc \<Rightarrow> fd \<Rightarrow> nat \<Rightarrow> string \<Rightarrow> statx \<Rightarrow> rx_event list \<Rightarrow> bool" where
  "read_again jc f n digest st es \<longleftrightarrow> written f es = [] \<and> length (received f es) = n \<and> sha256 jc (received f es) = digest
     \<and> es \<noteq> [] \<and> last es = Statx f (Some st)"

lemma read_again_Statx: "read_again jc f n digest st es \<Longrightarrow> read_again jc f n digest st (Statx g r # es)"
  by (simp add: read_again_def)

lemma stream_finish_logs:
  assumes "result fs \<noteq> f"
  shows "logs (stream_finish os jc fs f True before d) (\<lambda>r new. \<forall>j. r = Some j \<longrightarrow>
    (\<exists>es st. new = Fsync f True # es \<and> read_again jc f (length d) (sha256 jc d) st es
       \<and> unat (stx_size st) = length d \<and> j = sealed_report (sha256 jc d) st))"
proof -
  let ?rep = "\<lambda>digest fin. case fin of None \<Rightarrow> None
         | Some st \<Rightarrow> Some (json_object_object_add (rx_node_json st) ''sha256'' (JString (hex_bytes digest)))"
  let ?tail = "\<lambda>digest after. do { fin \<leftarrow> stream_verify os jc fs f (length d) digest after; State_Monad.return (?rep digest fin) }"
  let ?Q = "\<lambda>digest after j new. \<exists>st. read_again jc f (length d) digest st new \<and> stx_size st = stx_size after \<and> j = sealed_report digest st"
  have tail: "logs (?tail digest after) (\<lambda>r new. \<forall>j. r = Some j \<longrightarrow> ?Q digest after j new)" for digest after
  proof (rule logs_bind [OF stream_verify_logs [OF assms]])
    fix fin
    show "logs (State_Monad.return (?rep digest fin)) (\<lambda>r new. new = [] \<and> (\<forall>j. r = Some j \<longrightarrow> (\<exists>st. fin = Some st \<and> j = sealed_report digest st)))"
      by (rule logs_return) (simp add: sealed_report_def split: option.splits)
  qed (fastforce simp: same_runtime_def read_again_def)
  let ?dig = "\<lambda>after. do { dg \<leftarrow> digest_final os jc d; case dg of None \<Rightarrow> State_Monad.return None | Some digest \<Rightarrow> ?tail digest after }"
  have dig: "logs (?dig after) (\<lambda>r new. \<forall>j. r = Some j \<longrightarrow> ?Q (sha256 jc d) after j new)" for after
    by (rule logs_opt [OF digest_final_logs tail]) auto
  let ?bad = "\<lambda>after. (\<not> True \<and> \<not> same_runtime before after) \<or> unat (stx_size after) \<noteq> length d"
  have checked: "logs (if ?bad after then State_Monad.return None else ?dig after)
     (\<lambda>r new. \<forall>j. r = Some j \<longrightarrow> unat (stx_size after) = length d \<and> ?Q (sha256 jc d) after j new)" for after
    by (rule logs_if [OF logs_none]) (auto intro: logs_weaken [OF dig])
  have stat: "logs (do { r \<leftarrow> rx_stat_fd os f; case r of None \<Rightarrow> State_Monad.return None
        | Some after \<Rightarrow> if ?bad after then State_Monad.return None else ?dig after })
     (\<lambda>r new. \<forall>j. r = Some j \<longrightarrow> (\<exists>st. read_again jc f (length d) (sha256 jc d) st new \<and> unat (stx_size st) = length d \<and> j = sealed_report (sha256 jc d) st))"
    by (rule logs_opt [OF stat_fd_logs checked]) (use read_again_Statx in fastforce)
  show ?thesis
    unfolding stream_finish_def if_True
    by (rule logs_unless [OF logs_sys [where R = "\<lambda>ok new. ok \<longrightarrow> new = [Fsync f True]"] stat]) auto
qed

lemma stream_write_logs:
  assumes "result fs \<noteq> f"
  shows "logs (stream_file os jc fs f data True limit) (\<lambda>r new. \<forall>j. r = Some j \<longrightarrow>
    (\<exists>n1 n2 d st. new = n1 @ [Fsync f True] @ n2 \<and> received data n1 = d \<and> written f n1 = d
       \<and> length d \<le> 9223372036854775807 \<and> (limit \<noteq> 0 \<longrightarrow> length d \<le> limit)
       \<and> read_again jc f (length d) (sha256 jc d) st n2 \<and> unat (stx_size st) = length d \<and> j = sealed_report (sha256 jc d) st))"
proof -
  let ?copy = "\<lambda>before. do { d \<leftarrow> stream_loop os jc fs f data True limit (unat (stx_size before)) 0 0 [];
      case d of None \<Rightarrow> State_Monad.return None | Some d \<Rightarrow> stream_finish os jc fs f True before d }"
  let ?T = "\<lambda>j new. \<exists>n1 n2 d st. new = n1 @ [Fsync f True] @ n2 \<and> received data n1 = d \<and> written f n1 = d
       \<and> length d \<le> 9223372036854775807 \<and> (limit \<noteq> 0 \<longrightarrow> length d \<le> limit)
       \<and> read_again jc f (length d) (sha256 jc d) st n2 \<and> unat (stx_size st) = length d \<and> j = sealed_report (sha256 jc d) st"
  have copy: "logs (?copy before) (\<lambda>r new. \<forall>j. r = Some j \<longrightarrow> ?T j new)" for before
    by (rule logs_opt [OF stream_loop_logs [OF assms] stream_finish_logs [OF assms]]) (force simp: copied_def)
  have hashed: "logs (do { ok \<leftarrow> quiet (evp_step os); if \<not> ok then State_Monad.return None else ?copy before })
      (\<lambda>r new. \<forall>j. r = Some j \<longrightarrow> ?T j new)" for before
    by (rule logs_unless [OF quiet_logs copy]) simp
  have checked: "logs (if \<not> is_reg before then State_Monad.return None
       else do { ok \<leftarrow> quiet (evp_step os); if \<not> ok then State_Monad.return None else ?copy before })
      (\<lambda>r new. \<forall>j. r = Some j \<longrightarrow> ?T j new)" for before
    by (rule logs_if [OF logs_none hashed])
  show ?thesis
    unfolding stream_file_def
  proof (rule logs_opt [OF stat_fd_logs checked])
    fix before j n1 n2
    assume n1: "n1 = [Statx f (Some before)]" and "?T j n2"
    then obtain m1 m2 d st where m: "n2 = m1 @ [Fsync f True] @ m2" "received data m1 = d" "written f m1 = d"
       "length d \<le> 9223372036854775807" "limit \<noteq> 0 \<longrightarrow> length d \<le> limit"
       "read_again jc f (length d) (sha256 jc d) st m2" "unat (stx_size st) = length d" "j = sealed_report (sha256 jc d) st" by blast
    have "n1 @ n2 = (n1 @ m1) @ [Fsync f True] @ m2" "received data (n1 @ m1) = d" "written f (n1 @ m1) = d"
      using m(1-3) by (simp_all add: n1)
    with m(4-) show "?T j (n1 @ n2)" by blast
  qed
qed

section \<open>The write command\<close>

text \<open>The check of the announced length: one more look at the size.\<close>

lemma check_sealed_logs:
  "logs (check_sealed os f len details) (\<lambda>r new. \<forall>j. r = Some j \<longrightarrow> j = details \<and>
     (case len of None \<Rightarrow> new = [] | Some n \<Rightarrow> \<exists>sealed. new = [Statx f (Some sealed)] \<and> unat (stx_size sealed) = n))"
proof (cases len)
  case None
  then show ?thesis by (simp add: check_sealed_def logs_return)
next
  case (Some n)
  show ?thesis
    unfolding check_sealed_def Some option.case
    by (rule logs_bind [OF stat_fd_logs logs_return [where R = "\<lambda>r new. new = [] \<and> (\<forall>j. r = Some j \<longrightarrow> j = details \<and> (\<exists>st. x = Some st \<and> unat (stx_size st) = n))" for x]])
       (auto split: option.splits if_splits)
qed

lemma ack_talks: "keeps (talk res) (ack os jc c event request res)"
  unfolding ack_def ack_answer_def by (intro logs_rules parent_alive_keeps emit_keeps read_json_keeps) simp_all

lemma logs_stage:
  assumes "logs m (\<lambda>r new. \<forall>x. r = Some x \<longrightarrow> R x new)"
    and "\<And>x. logs (k x) (\<lambda>r new. \<forall>f dir j. r = (Some f, dir, Some j) \<longrightarrow> Q x f j new)"
    and "\<And>x f j n1 n2. R x n1 \<Longrightarrow> Q x f j n2 \<Longrightarrow> T f j (n1 @ n2)"
  shows "logs (do { r \<leftarrow> m; case r of None \<Rightarrow> State_Monad.return (a, b, None) | Some x \<Rightarrow> k x })
    (\<lambda>r new. \<forall>f dir j. r = (Some f, dir, Some j) \<longrightarrow> T f j new)"
proof (rule logs_bind [OF assms(1)])
  fix r
  show "logs (case r of None \<Rightarrow> State_Monad.return (a, b, None) | Some x \<Rightarrow> k x)
     (\<lambda>q new. \<forall>f dir j. q = (Some f, dir, Some j) \<longrightarrow> (\<exists>x. r = Some x \<and> Q x f j new))"
  proof (cases r)
    case (Some x)
    then show ?thesis using assms(2) [of x] by (simp only: option.case option.inject ex_simps simp_thms)
  qed (simp add: logs_return)
next
  fix r q n1 n2
  assume "\<forall>x. r = Some x \<longrightarrow> R x n1" "\<forall>f dir j. q = (Some f, dir, Some j) \<longrightarrow> (\<exists>x. r = Some x \<and> Q x f j n2)"
  then show "\<forall>f dir j. q = (Some f, dir, Some j) \<longrightarrow> T f j (n1 @ n2)"
    using assms(3) by (metis (no_types))
qed

text \<open>
  What a reported write has done to the file \<open>f\<close>, when \<open>len\<close> was announced: \<open>d\<close> went from the pipe to the
  file, which was then synchronised and read again; an announced length is compared with one more look.
\<close>

definition sealed_as :: "fd \<Rightarrow> nat option \<Rightarrow> nat \<Rightarrow> rx_event list \<Rightarrow> bool" where
  "sealed_as f len k es \<longleftrightarrow> (case len of None \<Rightarrow> es = []
     | Some n \<Rightarrow> k \<le> n + 1 \<and> (\<exists>sealed. es = [Statx f (Some sealed)] \<and> unat (stx_size sealed) = n))"

definition stored :: "jsonc \<Rightarrow> fd \<Rightarrow> nat option \<Rightarrow> fd \<Rightarrow> json \<Rightarrow> rx_event list \<Rightarrow> bool" where
  "stored jc data len f report new \<longleftrightarrow> (\<exists>n1 n2 n3 d st. new = n1 @ [Fsync f True] @ n2 @ n3 \<and> received data n1 = d \<and> written f n1 = d
     \<and> length d < 2 ^ 63 \<and> read_again jc f (length d) (sha256 jc d) st n2
     \<and> unat (stx_size st) = length d \<and> report = sealed_report (sha256 jc d) st \<and> sealed_as f len (length d) n3)"

lemma stored_prefix:
  assumes "stored jc data len f report new" "received data pre = []" "written f pre = []"
  shows "stored jc data len f report (pre @ new)"
proof -
  obtain n1 n2 n3 d st where "new = n1 @ [Fsync f True] @ n2 @ n3" "received data n1 = d" "written f n1 = d"
    and rest: "length d < 2 ^ 63" "read_again jc f (length d) (sha256 jc d) st n2" "unat (stx_size st) = length d"
      "report = sealed_report (sha256 jc d) st" "sealed_as f len (length d) n3"
    using assms(1) unfolding stored_def by blast
  then have "pre @ new = (pre @ n1) @ [Fsync f True] @ n2 @ n3" "received data (pre @ n1) = d" "written f (pre @ n1) = d"
    using assms(2,3) by simp_all
  with rest show ?thesis unfolding stored_def by blast
qed

lemma stream_sealed_logs:
  assumes "result fs \<noteq> f"
  shows "logs (do { d \<leftarrow> stream_file os jc fs f data True (case len of None \<Rightarrow> 0 | Some n \<Rightarrow> n + 1);
       case d of None \<Rightarrow> State_Monad.return (Some f, Some dir, None)
       | Some details \<Rightarrow> do { d' \<leftarrow> check_sealed os f len details; State_Monad.return (Some f, Some dir, d') } })
     (\<lambda>r new. \<forall>g dir j. r = (Some g, dir, Some j) \<longrightarrow> g = f \<and> stored jc data len f j new)"
proof (rule logs_stage [OF stream_write_logs [OF assms]])
  fix details
  show "logs (do { d' \<leftarrow> check_sealed os f len details; State_Monad.return (Some f, Some dir, d') })
     (\<lambda>r new. \<forall>g dir j. r = (Some g, dir, Some j) \<longrightarrow> g = f \<and> j = details \<and>
       (case len of None \<Rightarrow> new = [] | Some n \<Rightarrow> \<exists>sealed. new = [Statx f (Some sealed)] \<and> unat (stx_size sealed) = n))"
    by (rule logs_bind [OF check_sealed_logs logs_return [where R = "\<lambda>r new. new = [] \<and> r = (Some f, Some dir, x)" for x]])
       (auto split: option.splits)
next
  fix details g j new n3
  let ?limit = "case len of None \<Rightarrow> 0 | Some n \<Rightarrow> n + 1"
  assume "\<exists>n1 n2 d st. new = n1 @ [Fsync f True] @ n2 \<and> received data n1 = d \<and> written f n1 = d
       \<and> length d \<le> 9223372036854775807 \<and> (?limit \<noteq> 0 \<longrightarrow> length d \<le> ?limit)
       \<and> read_again jc f (length d) (sha256 jc d) st n2 \<and> unat (stx_size st) = length d \<and> details = sealed_report (sha256 jc d) st"
  then obtain n1 n2 d st where n: "new = n1 @ [Fsync f True] @ n2" "received data n1 = d" "written f n1 = d"
       "length d \<le> 9223372036854775807" "?limit \<noteq> 0 \<longrightarrow> length d \<le> ?limit"
       "read_again jc f (length d) (sha256 jc d) st n2" "unat (stx_size st) = length d" "details = sealed_report (sha256 jc d) st"
    by blast
  assume e: "g = f \<and> j = details \<and>
    (case len of None \<Rightarrow> n3 = [] | Some n \<Rightarrow> \<exists>sealed. n3 = [Statx f (Some sealed)] \<and> unat (stx_size sealed) = n)"
  then have "sealed_as f len (length d) n3"
    using n(5) by (auto simp: sealed_as_def split: option.splits)
  then show "g = f \<and> stored jc data len f j (new @ n3)"
    using n e unfolding stored_def
    by (intro conjI exI [of _ n1] exI [of _ n2] exI [of _ n3] exI [of _ d] exI [of _ st]) simp_all
qed

lemma cmd_write_logs:
  assumes "result fs = res"
  shows "logs (cmd_write os jc fs command path to sq request data res dir name)
    (\<lambda>r new. \<forall>f d j. r = (Some f, d, Some j) \<longrightarrow> res \<noteq> f \<longrightarrow> (\<exists>len. length_of_write command = Some len \<and> stored jc data len f j new))"
proof -
  let ?T = "\<lambda>len g f j new. g = f \<and> (res \<noteq> f \<longrightarrow> stored jc data len f j new)"
  let ?stream = "\<lambda>len f. do { d \<leftarrow> stream_file os jc fs f data True (case len of None \<Rightarrow> 0 | Some n \<Rightarrow> n + 1);
       case d of None \<Rightarrow> State_Monad.return (Some f, Some dir, None)
       | Some details \<Rightarrow> do { d' \<leftarrow> check_sealed os f len details; State_Monad.return (Some f, Some dir, d') } }"
  let ?ev = "\<lambda>st. json_object_object_add (event_for (ctx fs) ''created'' ''write'' path to (sq + 1)) ''node'' (created_json st True)"
  let ?acked = "\<lambda>len f st. do { created \<leftarrow> ack os jc (ctx fs) (?ev st) request res;
       case created of None \<Rightarrow> State_Monad.return (Some f, Some dir, None) | Some _ \<Rightarrow> ?stream len f }"
  have only: "logs (?stream len f) (\<lambda>r new. \<forall>g d j. r = (Some g, d, Some j) \<longrightarrow> g = f)" for len f
  proof (rule logs_stage [OF logs_weaken [OF keeps_logs [OF stream_file_calm], where R' = "\<lambda>r new. \<forall>x. r = Some x \<longrightarrow> True"]])
    show "logs (do { d' \<leftarrow> check_sealed os f len details; State_Monad.return (Some f, Some dir, d') })
       (\<lambda>r new. \<forall>g d j. r = (Some g, d, Some j) \<longrightarrow> g = f)" for details
      by (rule logs_bind [OF check_sealed_logs logs_return [where R = "\<lambda>r new. r = (Some f, Some dir, x)" for x]]) auto
  qed simp_all
  have stream: "logs (?stream len f) (\<lambda>r new. \<forall>g d j. r = (Some g, d, Some j) \<longrightarrow> ?T len g f j new)" for len f
    using stream_sealed_logs [of fs f os jc data] only [of f len] assms
    by (cases "res = f") (auto elim: logs_weaken)
  have idle: "logs (ack os jc (ctx fs) (?ev st) request res)
      (\<lambda>r new. \<forall>x. r = Some x \<longrightarrow> received data new = [] \<and> (\<forall>f. res \<noteq> f \<longrightarrow> written f new = []))" for st
    by (rule logs_weaken [OF keeps_logs [OF ack_talks]]) (use talk_idle [of res] in blast)
  have acked: "logs (?acked len f st) (\<lambda>r new. \<forall>g d j. r = (Some g, d, Some j) \<longrightarrow> ?T len g f j new)" for len f st
    by (rule logs_stage [OF idle stream]) (auto intro: stored_prefix)
  have stat: "logs (do { s \<leftarrow> rx_stat_fd os f; case s of None \<Rightarrow> State_Monad.return (Some f, Some dir, None) | Some st \<Rightarrow> ?acked len f st })
      (\<lambda>r new. \<forall>g d j. r = (Some g, d, Some j) \<longrightarrow> ?T len g f j new)" for len f
    by (rule logs_stage [OF stat_fd_logs acked]) (auto intro: stored_prefix [where pre = "[Statx f (Some x)]" for x, simplified])
  have opened: "logs (do { r \<leftarrow> sys (Openat dir name O_CREATE_RW) (sys_openat os dir name O_CREATE_RW);
       case r of None \<Rightarrow> State_Monad.return (None, Some dir, None) | Some f \<Rightarrow>
         do { s \<leftarrow> rx_stat_fd os f; case s of None \<Rightarrow> State_Monad.return (Some f, Some dir, None) | Some st \<Rightarrow> ?acked len f st } })
      (\<lambda>r new. \<forall>f d j. r = (Some f, d, Some j) \<longrightarrow> res \<noteq> f \<longrightarrow> stored jc data len f j new)" for len
    by (rule logs_stage [OF logs_sys [where R = "\<lambda>r new. \<forall>x. r = Some x \<longrightarrow> new = [Openat dir name O_CREATE_RW (Some x)]"] stat])
       (auto intro: stored_prefix [where pre = "[Openat dir name O_CREATE_RW (Some x)]" for x, simplified])
  show ?thesis
    unfolding cmd_write_def
    by (intro logs_branch logs_return) (auto intro: logs_weaken [OF opened])
qed

text \<open>Property C11. A write command whose branch reports success has reached the file: the bytes that came from the
  data pipe are, in order, the bytes written to the new file, fewer than 2 to the 63; after the last of them the
  file was synchronised; then, with nothing written any more, it was read again, as many bytes, with the same
  digest, and a look at it showed that number as its size; the report carries the identity seen there and
  the digest.  When the command announced \<open>n\<close> bytes, the copy stopped at \<open>n + 1\<close> at the latest, and one more
  look showed the size \<open>n\<close>: exactly \<open>n\<close> bytes were stored, unless the size changed between the last two looks.
  The new file descriptor has to differ from that of the result pipe.\<close>

theorem stream_write_verified:
  assumes run: "run_state (cmd_write os jc fs command path to sq request data res dir name) s = ((Some f, dir', Some report), s')"
    and "result fs = res" "res \<noteq> f"
  shows "\<exists>len n1 n2 n3 d st. length_of_write command = Some len \<and> trace s' = trace s @ n1 @ [Fsync f True] @ n2 @ n3
     \<and> received data n1 = d \<and> written f n1 = d \<and> length d < 2 ^ 63
     \<and> written f n2 = [] \<and> length (received f n2) = length d \<and> sha256 jc (received f n2) = sha256 jc d
     \<and> n2 \<noteq> [] \<and> last n2 = Statx f (Some st) \<and> unat (stx_size st) = length d
     \<and> report = json_object_object_add (rx_node_json st) ''sha256'' (JString (hex_bytes (sha256 jc d)))
     \<and> (case len of None \<Rightarrow> n3 = []
        | Some n \<Rightarrow> length d \<le> n + 1 \<and> (\<exists>sealed. n3 = [Statx f (Some sealed)] \<and> unat (stx_size sealed) = n
            \<and> (stx_size sealed = stx_size st \<longrightarrow> length d = n)))"
proof -
  obtain new len where new: "trace s' = trace s @ new" "length_of_write command = Some len" "stored jc data len f report new"
    using logsD [OF cmd_write_logs [OF assms(2)] run] assms(3) by blast
  then obtain n1 n2 n3 d st where n: "new = n1 @ [Fsync f True] @ n2 @ n3" "received data n1 = d" "written f n1 = d"
    "length d < 2 ^ 63" "read_again jc f (length d) (sha256 jc d) st n2" "unat (stx_size st) = length d"
    "report = sealed_report (sha256 jc d) st" "sealed_as f len (length d) n3"
    unfolding stored_def by blast
  have "case len of None \<Rightarrow> n3 = []
      | Some n \<Rightarrow> length d \<le> n + 1 \<and> (\<exists>sealed. n3 = [Statx f (Some sealed)] \<and> unat (stx_size sealed) = n
            \<and> (stx_size sealed = stx_size st \<longrightarrow> length d = n))"
    using n(6,8) unfolding sealed_as_def by (cases len) auto
  with new n show ?thesis
    unfolding read_again_def sealed_report_def
    by (intro exI [of _ len] exI [of _ n1] exI [of _ n2] exI [of _ n3] exI [of _ d] exI [of _ st]) simp
qed

section \<open>A write of two bytes\<close>

definition demo_file :: statx where
  "demo_file = demo_dir\<lparr>stx_mode := 0x8180, stx_size := 2\<rparr>"

text \<open>The world is what the pipes still deliver: the acknowledgement, then the data; the file (9) holds \<open>hi\<close>.\<close>

definition file_os :: "string rx_os" where
  "file_os = demo_os\<lparr>sys_read := (\<lambda>f n w. if f = 9 then Ret (Some ''hi'') w else sys_read demo_os f n w),
     sys_statx := (\<lambda>f w. (Some demo_file, w))\<rparr>"

definition file_ack :: json where
  "file_ack = JObject [(''event'', JString ''ack''), (''phase'', JString ''created''), (''operation'', JString ''write''),
     (''path'', JString ''dev''), (''sequence'', JString ''2''), (''execution'', demo_owner), (''proof'', demo_proof)]"

definition file_jc :: jsonc where
  "file_jc = demo_jc\<lparr>json_parse := (\<lambda>s. Some file_ack)\<rparr>"

definition file_command :: json where
  "file_command = JObject [(''lengthMode'', JString ''fixed''), (''expectedSize'', JString ''2'')]"

lemma file_sel [simp]:
  "sys_getppid file_os w = (42, w)" "sys_statx file_os f w = (Some demo_file, w)" "evp_step file_os w = (True, w)"
  "sys_write file_os f d w = Ret (Some (length d)) w" "sys_fsync file_os f w = (True, w)" "sys_rewind file_os f w = (True, w)"
  "sys_openat file_os f nm fl w = (Some 9, w)"
  "sys_read file_os f n w = (if f = 9 then Ret (Some ''hi'') w else case w of [] \<Rightarrow> Ret (Some []) [] | c # cs \<Rightarrow> Ret (Some [c]) cs)"
  "json_text file_jc j = ''E''" "json_parse file_jc x = Some file_ack" "sha256 file_jc = demo_sha"
  by (simp_all add: file_os_def demo_os_def plain_os_def file_jc_def demo_jc_def)

lemma file_alive: "run_state (rx_parent_alive file_os demo_ctx) s = (True, s\<lparr>trace := trace s @ [Ppid 42]\<rparr>)"
  by (simp add: rx_parent_alive_def run_sys demo_ctx_def)

lemma file_write: "d \<noteq> [] \<Longrightarrow> run_state (rx_write_all file_os f d) s = (True, s\<lparr>trace := trace s @ [Write f d]\<rparr>)"
  by (subst rx_write_all.simps) (simp add: run_sys rx_write_all.simps)

lemma file_emit:
  "run_state (rx_emit file_os file_jc f j) s = (True, s\<lparr>trace := trace s @ [Write f ''E'', Write f [CHR 0x0A], Emit j True]\<rparr>)"
  by (simp add: rx_emit_def file_write note_ev_def RX_RESULT_MAX_def)

lemma file_stat: "run_state (rx_stat_fd file_os f) s = (Some demo_file, s\<lparr>trace := trace s @ [Statx f (Some demo_file)]\<rparr>)"
proof -
  have w: "stx_mask demo_file AND statx_wanted = statx_wanted" by code_simp
  show ?thesis by (simp add: rx_stat_fd_def run_sys w)
qed

lemma file_line:
  assumes "f \<noteq> 9" "c \<noteq> CHR 0x00" "c \<noteq> CHR 0x0A" "1 < room"
  shows "run_state (rx_read_loop file_os f True room []) \<lparr>world = c # CHR 0x0A # w, trace = t\<rparr> = (Some [c], \<lparr>world = w, trace = t\<rparr>)"
proof -
  obtain k where "room = Suc (Suc k)" using assms(4) by (metis Suc_lessD gr0_implies_Suc less_Suc_eq_0_disj One_nat_def not_less_eq)
  then show ?thesis using assms by (simp add: quiet_def)
qed

definition file_event :: json where
  "file_event = json_object_object_add (event_for demo_ctx ''created'' ''write'' ''dev'' None 2) ''node'' (created_json demo_file True)"

lemma file_acked:
  "run_state (ack file_os file_jc demo_ctx file_event 4 6) \<lparr>world = CHR ''C'' # CHR 0x0A # w, trace = t\<rparr>
    = (Some demo_proof, \<lparr>world = w, trace = t @ [Ppid 42, Write 6 ''E'', Write 6 [CHR 0x0A], Emit file_event True, Line (Some file_ack), Ppid 42]\<rparr>)"
proof -
  have a: "ack_basic file_jc demo_ctx file_event file_ack = Some demo_proof" by code_simp
  have b: "ack_repeats file_event file_ack" by code_simp
  have c: "is_object file_ack" by (simp add: file_ack_def is_object_def)
  show ?thesis
    using a b c by (simp add: ack_def ack_answer_def file_alive file_emit rx_read_json_def file_line note_ev_def RX_COMMAND_MAX_def Let_def)
qed

definition copy_events :: "rx_event list" where
  "copy_events = [Ppid 42, Read 5 (Some ''h''), Write 9 ''h'', Ppid 42, Read 5 (Some ''i''), Write 9 ''i'', Ppid 42, Read 5 (Some [])]"

lemma file_loop:
  "run_state (stream_loop file_os file_jc demo_fs 9 5 True 3 2 0 0 []) \<lparr>world = ''hi'', trace = t\<rparr>
   = (Some ''hi'', \<lparr>world = [], trace = t @ copy_events\<rparr>)"
  by (subst stream_loop.simps, subst stream_loop.simps, subst stream_loop.simps)
     (simp add: file_alive file_write stream_want_def stream_read_def note_ev_def quiet_def mark_progress_def RX_DATA_MAX_def Let_def copy_events_def)

lemma file_readback:
  "run_state (readback_loop file_os file_jc demo_fs 9 2 0 0 []) s = (Some ''hi'', s\<lparr>trace := trace s @ [Read 9 (Some ''hi'')]\<rparr>)"
  by (subst readback_loop.simps, subst readback_loop.simps) (simp add: run_sys quiet_def mark_progress_def RX_DATA_MAX_def Let_def)

definition seal_events :: "rx_event list" where
  "seal_events = [Statx 9 (Some demo_file), Rewind 9 True, Read 9 (Some ''hi''), Statx 9 (Some demo_file)]"

lemma file_size: "unat (stx_size demo_file) = 2"
  by (simp add: demo_file_def demo_dir_def)

lemma file_stream:
  "run_state (stream_file file_os file_jc demo_fs 9 5 True 3) \<lparr>world = ''hi'', trace = t\<rparr>
   = (Some (sealed_report (demo_sha ''hi'') demo_file),
      \<lparr>world = [], trace = t @ [Statx 9 (Some demo_file)] @ copy_events @ [Fsync 9 True] @ seal_events\<rparr>)"
proof -
  have r: "is_reg demo_file" by code_simp
  have l: "length (demo_sha ''hi'') = 32" by (simp add: demo_sha_def)
  have m: "same_runtime demo_file demo_file" by (simp add: same_runtime_def)
  show ?thesis
    by (simp add: stream_file_def stream_finish_def stream_verify_def digest_final_def file_stat r file_size l m file_loop
        file_readback [unfolded numeral_2_eq_2] run_sys quiet_def sealed_report_def seal_events_def)
qed

lemma file_announced: "length_of_write file_command = Some (Some 2)"
proof -
  have s: "rx_string file_command ''lengthMode'' 6 = Some ''fixed''" "rx_string file_command ''expectedSize'' 20 = Some ''2''"
    by (simp_all add: rx_string_Some json_object_object_get_ex_def file_command_def strlen_def)
  have "strtoull ''2'' = (2, False, [])"
    using strtoull_digits [of "''2''"] by (simp add: is_digit_def dec_val_def digit_val_def)
  then show ?thesis by (simp add: length_of_write_def s is_digit_def)
qed

definition file_start :: "string rx" where
  "file_start = \<lparr>world = [CHR ''C'', CHR 0x0A] @ ''hi'', trace = []\<rparr>"

definition file_end :: "string rx" where
  "file_end = snd (run_state (cmd_write file_os file_jc demo_fs file_command ''dev'' None 1 4 5 6 8 ''dev'') file_start)"

lemma file_run:
  "run_state (cmd_write file_os file_jc demo_fs file_command ''dev'' None 1 4 5 6 8 ''dev'') file_start
   = ((Some 9, Some 8, Some (sealed_report (demo_sha ''hi'') demo_file)), file_end)"
proof -
  have d: "data_write demo_ctx" by (simp add: demo_ctx_def)
  have e: "json_object_object_add (event_for demo_ctx ''created'' ''write'' ''dev'' None 2) ''node'' (created_json demo_file True) = file_event"
    by (simp add: file_event_def)
  show ?thesis
    by (simp add: file_end_def cmd_write_def d file_announced run_sys file_start_def file_stat e file_acked file_stream check_sealed_def file_size)
qed

theorem stream_write_verified_witness:
  "\<exists>report s'. run_state (cmd_write file_os file_jc demo_fs file_command ''dev'' None 1 4 5 6 8 ''dev'') file_start = ((Some 9, Some 8, Some report), s')
     \<and> (\<exists>n1 n2 n3 d. trace s' = n1 @ [Fsync 9 True] @ n2 @ n3 \<and> received 5 n1 = d \<and> written 9 n1 = d
          \<and> length d \<le> 2 + 1 \<and> length (received 9 n2) = length d)"
proof -
  have r: "result demo_fs = 6" "(6 :: fd) \<noteq> 9" by simp_all
  from stream_write_verified [OF file_run r] file_run show ?thesis
    by (simp add: file_announced file_start_def) blast
qed

end
