(* ===== verification/StorageMount.thy ===== *)
theory StorageMount
  imports StorageStream
begin

text \<open>
  \<open>storage_mount.c\<close>: mounting an NFS share with the capability kept for that alone, and the check that
  what is mounted on \<open>/storage\<close> is the share of the task, from \<open>/proc/self/mountinfo\<close> and, for SMB, from
  \<open>/proc/fs/cifs/DebugData\<close>.  The name service is the call \<open>sys_resolve\<close> (\<open>getaddrinfo\<close> and \<open>inet_ntop\<close>).
\<close>

section \<open>Text\<close>

text \<open>\<open>strstr\<close>: the text from the first occurrence on.\<close>

fun strstr :: "string \<Rightarrow> string \<Rightarrow> string option" where
  "strstr needle [] = (if needle = [] then Some [] else None)"
| "strstr needle (c # s) = (if prefixb needle (c # s) then Some (c # s) else strstr needle s)"

text \<open>The tokens that \<open>strtok_r\<close> gives.\<close>

definition tokens :: "char \<Rightarrow> string \<Rightarrow> string list" where
  "tokens sep s = filter (\<lambda>t. t \<noteq> []) (split_at sep s)"

definition octal_digit :: "char \<Rightarrow> bool" where
  "octal_digit c \<longleftrightarrow> 48 \<le> (of_char c :: nat) \<and> (of_char c :: nat) \<le> 55"

definition octal_value :: "char \<Rightarrow> char \<Rightarrow> char \<Rightarrow> nat" where
  "octal_value a b c = digit_val a * 64 + digit_val b * 8 + digit_val c"

fun unescape :: "string \<Rightarrow> string option" where
  "unescape [] = Some []"
| "unescape (ch # p) =
     (if ch = CHR 0x5C then
        (case p of
           a # b # c # rest \<Rightarrow>
             if \<not> octal_digit a \<or> \<not> octal_digit b \<or> \<not> octal_digit c then None
             else let v = octal_value a b c in
               if v = 0 \<or> 255 < v then None else map_option (\<lambda>t. char_of v # t) (unescape rest)
         | _ \<Rightarrow> None)
      else map_option (\<lambda>t. ch # t) (unescape p))"

definition canonical_version :: "string \<Rightarrow> string \<Rightarrow> string option" where
  "canonical_version prot v =
     (if prot = ''nfs'' then
        (if v = ''3'' then Some ''3'' else if v = ''4.0'' \<or> v = ''4'' then Some ''4.0''
         else if v = ''4.1'' then Some ''4.1'' else if v = ''4.2'' then Some ''4.2'' else None)
      else
        (if v = ''2.1'' then Some ''2.1'' else if v = ''3.0'' then Some ''3.0''
         else if v = ''3.02'' \<or> v = ''3.0.2'' then Some ''3.0.2'' else if v = ''3.11'' \<or> v = ''3.1.1'' then Some ''3.1.1'' else None))"

text \<open>The text of a file of at most \<open>limit\<close> bytes, up to its first NUL.\<close>

function read_bounded_loop :: "'w rx_os \<Rightarrow> fd \<Rightarrow> nat \<Rightarrow> string \<Rightarrow> ('w, string option) rxm" where
  "read_bounded_loop os f limit b =
     (if limit \<le> length b then do {
        r \<leftarrow> quiet (\<lambda>w. case sys_read os f 1 w of Ret a w' \<Rightarrow> (a, w') | Eintr w' _ \<Rightarrow> (None, w'));
        State_Monad.return (if r = Some [] then Some b else None)
      }
      else do {
        r \<leftarrow> quiet (\<lambda>w. restart (sys_read os f (limit - length b) w));
        (case r of
           None \<Rightarrow> State_Monad.return None
         | Some d \<Rightarrow> if d = [] then State_Monad.return (Some b) else read_bounded_loop os f limit (b @ take (limit - length b) d))
      })"
  by pat_completeness auto
termination
  by (relation "measure (\<lambda>(os, f, limit, b). limit - length b)") (auto simp flip: length_greater_0_conv)

declare read_bounded_loop.simps [simp del]

definition read_bounded :: "'w rx_os \<Rightarrow> string \<Rightarrow> nat \<Rightarrow> ('w, string option) rxm" where
  "read_bounded os path limit = do {
     r \<leftarrow> quiet (sys_open_file os path);
     case r of
       None \<Rightarrow> State_Monad.return None
     | Some f \<Rightarrow> do {
         b \<leftarrow> read_bounded_loop os f limit [];
         quiet (sys_close os f);
         State_Monad.return (map_option (takeWhile (\<lambda>c. c \<noteq> CHR 0x00)) b)
       }
   }"

section \<open>The server\<close>

definition numeric_address :: "'w rx_os \<Rightarrow> string \<Rightarrow> ('w, string option) rxm" where
  "numeric_address os host =
     (if 256 \<le> length host then State_Monad.return None
      else if prefixb ''['' host then
        (case dropWhile (\<lambda>c. c \<noteq> CHR '']'') host of
           [_] \<Rightarrow> quiet (sys_resolve os (tl (takeWhile (\<lambda>c. c \<noteq> CHR '']'') host)))
         | _ \<Rightarrow> State_Monad.return None)
      else quiet (sys_resolve os host))"

definition fits :: "nat \<Rightarrow> string \<Rightarrow> string option" where
  "fits n s = (if length s < n then Some s else None)"

definition source_nfs :: "storage_context \<Rightarrow> string option" where
  "source_nfs c =
     (let host = server c in
      if prefixb ''['' host then
        (if length host < 3 \<or> last host \<noteq> CHR '']'' then None else fits 4608 (host @ '':'' @ export_path c))
      else fits 4608 (if CHR '':'' \<in> set host then ''['' @ host @ '']:'' @ export_path c else host @ '':'' @ export_path c))"

definition rx_resolve_server :: "'w rx_os \<Rightarrow> storage_context \<Rightarrow> ('w, json option) rxm" where
  "rx_resolve_server os c = do {
     a \<leftarrow> numeric_address os (server c);
     State_Monad.return (map_option (\<lambda>addr. JObject
       [(''numericAddress'', JString addr), (''mountServer'', JString (server c)), (''port'', JInt (uint (port c)))]) a)
   }"

section \<open>Mounting\<close>

definition errno_value :: "errno \<Rightarrow> int" where
  "errno_value e = (case e of ENOENT \<Rightarrow> 2 | EINVAL \<Rightarrow> 22 | ENOSYS \<Rightarrow> 38 | EPROTONOSUPPORT \<Rightarrow> 93 | EOPNOTSUPP \<Rightarrow> 95 | ECANCELED \<Rightarrow> 125 | EOTHER n \<Rightarrow> n)"

definition mount_options :: "storage_context \<Rightarrow> string \<Rightarrow> string \<Rightarrow> string" where
  "mount_options c addr v = snprintf 256
     (''addr='' @ addr @ '',port='' @ dec (unat (port c)) @ '',proto=tcp,sec=sys,vers='' @ v
      @ (if v = ''3'' then '',mountproto=tcp,mountvers=3'' else []))"

text \<open>The versions left to try; the error of the last attempt, \<open>None\<close> once mounted.\<close>

fun mount_loop :: "'w rx_os \<Rightarrow> storage_context \<Rightarrow> string \<Rightarrow> string \<Rightarrow> string list \<Rightarrow> errno \<Rightarrow> ('w, errno option) rxm" where
  "mount_loop os c source addr [] e = State_Monad.return (Some e)"
| "mount_loop os c source addr (v # vs) e =
     (if version c \<noteq> ''auto'' \<and> version c \<noteq> v then mount_loop os c source addr vs e
      else do {
        alive \<leftarrow> rx_parent_alive os c;
        if \<not> alive then State_Monad.return (Some ECANCELED)
        else do {
          let t = (if v = ''3'' then ''nfs'' else ''nfs4'');
          let opts = mount_options c addr v;
          r \<leftarrow> sys (Mount source ''/storage'' t opts (\<not> data_write c)) (sys_mount os source ''/storage'' t opts (\<not> data_write c));
          case r of
            None \<Rightarrow> State_Monad.return None
          | Some e' \<Rightarrow>
              if version c \<noteq> ''auto'' \<or> e' \<noteq> EPROTONOSUPPORT then State_Monad.return (Some e')
              else mount_loop os c source addr vs e'
        }
      })"

definition rx_mount_nfs :: "'w rx_os \<Rightarrow> jsonc \<Rightarrow> storage_context \<Rightarrow> fd \<Rightarrow> ('w, bool) rxm" where
  "rx_mount_nfs os jc c res =
     (if protocol c \<noteq> ''nfs'' then State_Monad.return False
      else do {
        a \<leftarrow> numeric_address os (server c);
        (case (a, source_nfs c) of
           (Some addr, Some source) \<Rightarrow> do {
             ok \<leftarrow> rx_identity os c True;
             if \<not> ok then State_Monad.return False
             else do {
               e \<leftarrow> mount_loop os c source addr [''4.2'', ''4.1'', ''4.0'', ''3''] EPROTONOSUPPORT;
               cleared \<leftarrow> rx_clear_capabilities os;
               rc \<leftarrow> (if \<not> cleared then State_Monad.return False
                      else rx_emit os jc res (JObject [(''event'', JString ''mount''),
                        (''errno'', JInt (case e of None \<Rightarrow> 0 | Some e \<Rightarrow> errno_value e)), (''mounted'', JBool (e = None))]));
               State_Monad.return (rc \<and> e = None)
             }
           }
         | _ \<Rightarrow> State_Monad.return False)
      })"

section \<open>The mount table\<close>

definition lower_char :: "char \<Rightarrow> char" where
  "lower_char c = (if 65 \<le> (of_char c :: nat) \<and> (of_char c :: nat) \<le> 90 then char_of ((of_char c :: nat) + 32) else c)"

definition strcasecmp_eq :: "string \<Rightarrow> string \<Rightarrow> bool" where
  "strcasecmp_eq a b \<longleftrightarrow> map lower_char a = map lower_char b"

text \<open>The loop over the mount options: how often \<open>vers=\<close> was seen, its value, and \<open>serverino\<close>.\<close>

fun scan_options :: "string list \<Rightarrow> nat \<Rightarrow> string \<Rightarrow> bool \<Rightarrow> nat \<times> string \<times> bool" where
  "scan_options [] found ver ino = (found, ver, ino)"
| "scan_options (v # vs) found ver ino =
     (if prefixb ''vers='' v then
        (if found + 1 \<noteq> 1 \<or> 32 \<le> length (drop 5 v) then (found + 1, ver, ino)
         else scan_options vs (found + 1) (drop 5 v) ino)
      else scan_options vs found ver (ino \<or> v = ''serverino''))"

text \<open>Whether type, source and root of a mount are those of the task.\<close>

definition source_ok :: "storage_context \<Rightarrow> string \<Rightarrow> string \<Rightarrow> string \<Rightarrow> bool" where
  "source_ok c ty source mount_root =
     (if protocol c = ''nfs'' then
        (case source_nfs c of None \<Rightarrow> False | Some expected \<Rightarrow> (ty = ''nfs'' \<or> ty = ''nfs4'') \<and> expected = source)
      else
        (let share = takeWhile (\<lambda>ch. ch \<noteq> slash) (export_path c);
             subdir = tl (dropWhile (\<lambda>ch. ch \<noteq> slash) (export_path c));
             expected = snprintf 4608 (''//'' @ server c @ ''/'' @ share);
             full = snprintf 4608 (''//'' @ server c @ ''/'' @ export_path c);
             rt = snprintf 4096 (''/'' @ subdir)
         in ty = ''cifs'' \<and> (strcasecmp_eq source expected \<or> strcasecmp_eq source full) \<and> mount_root = rt))"

text \<open>The version of a mount that is right for the task.\<close>

definition mount_version :: "storage_context \<Rightarrow> string \<Rightarrow> string option" where
  "mount_version c options =
     (case scan_options (tokens (CHR '','') options) 0 [] False of (found, ver, ino) \<Rightarrow>
        (case canonical_version (protocol c) ver of
           None \<Rightarrow> None
         | Some v \<Rightarrow>
             if found \<noteq> 1 \<or> (version c \<noteq> ''auto'' \<and> version c \<noteq> v) \<or> (protocol c = ''smb'' \<and> \<not> ino) then None else Some v))"

text \<open>
  A line of the table: \<open>None\<close> if it is not the mount on \<open>/storage\<close>, else the version if it is right.
\<close>

definition mount_line :: "storage_context \<Rightarrow> string \<Rightarrow> string option option" where
  "mount_line c line =
     (case strstr '' - '' line of
        None \<Rightarrow> None
      | Some rest \<Rightarrow>
          (let fields = take 7 (tokens (CHR '' '') (take (length line - length rest) line)) in
           if length fields < 6 then None
           else case (unescape (fields ! 3), unescape (fields ! 4)) of
             (Some mount_root, Some point) \<Rightarrow>
               if point \<noteq> ''/storage'' then None
               else Some (case tokens (CHR '' '') (drop 3 rest) of
                   ty # source # options # _ \<Rightarrow>
                     (case unescape source of
                        None \<Rightarrow> None
                      | Some src \<Rightarrow> if \<not> source_ok c ty src mount_root then None else mount_version c options)
                 | _ \<Rightarrow> None)
           | _ \<Rightarrow> None))"

text \<open>The loop over the lines: mounts on \<open>/storage\<close>, right ones among them, the version of the last.\<close>

fun mount_scan :: "storage_context \<Rightarrow> string list \<Rightarrow> nat \<Rightarrow> nat \<Rightarrow> string \<Rightarrow> nat \<times> nat \<times> string" where
  "mount_scan c [] matched good actual = (matched, good, actual)"
| "mount_scan c (line # ls) matched good actual =
     (case mount_line c line of
        None \<Rightarrow> mount_scan c ls matched good actual
      | Some None \<Rightarrow> mount_scan c ls (matched + 1) good actual
      | Some (Some v) \<Rightarrow> mount_scan c ls (matched + 1) (good + 1) v)"

definition rx_parse_mountinfo :: "storage_context \<Rightarrow> string \<Rightarrow> string option" where
  "rx_parse_mountinfo c text =
     (case mount_scan c (tokens (CHR 0x0A) text) 0 0 [] of (matched, good, actual) \<Rightarrow>
        if matched = 1 \<and> good = 1 then Some actual else None)"

section \<open>SMB sessions\<close>

definition same_address :: "jsonc \<Rightarrow> string \<Rightarrow> string \<Rightarrow> bool" where
  "same_address jc a b =
     (let six = CHR '':'' \<in> set a in
      case (inet_pton jc six a, inet_pton jc six b) of (Some x, Some y) \<Rightarrow> x = y | _ \<Rightarrow> False)"

definition hex_digit_value :: "char \<Rightarrow> nat option" where
  "hex_digit_value c =
     (let n = (of_char c :: nat) in
      if 48 \<le> n \<and> n \<le> 57 then Some (n - 48)
      else if 97 \<le> n \<and> n \<le> 102 then Some (n - 87)
      else if 65 \<le> n \<and> n \<le> 70 then Some (n - 55) else None)"

definition is_xdigit :: "char \<Rightarrow> bool" where
  "is_xdigit c \<longleftrightarrow> hex_digit_value c \<noteq> None"

definition hex_value :: "string \<Rightarrow> nat" where
  "hex_value ds = foldl (\<lambda>a c. 16 * a + the (hex_digit_value c)) 0 ds"

text \<open>\<open>strtoull(s, &after, 16)\<close>: the value, whether it overflowed, and the rest.\<close>

definition strtoull16 :: "string \<Rightarrow> nat \<times> bool \<times> string" where
  "strtoull16 s =
     (case scan_sign (dropWhile is_space s) of (neg, s') \<Rightarrow>
        (let body = (if (prefixb ''0x'' s' \<or> prefixb ''0X'' s') \<and> (case drop 2 s' of [] \<Rightarrow> False | c # _ \<Rightarrow> is_xdigit c) then drop 2 s' else s');
             ds = takeWhile is_xdigit body; v = hex_value ds
         in if ds = [] then (0, False, s)
            else (if 2 ^ 64 \<le> v then 2 ^ 64 - 1 else if neg then (2 ^ 64 - v) mod 2 ^ 64 else v, 2 ^ 64 \<le> v, dropWhile is_xdigit body)))"

lemma prefixb_length: "prefixb p s \<Longrightarrow> length p \<le> length s"
  by (induction p s rule: prefixb.induct) auto

lemma strstr_length: "strstr needle s = Some r \<Longrightarrow> length needle \<le> length r \<and> length r \<le> length s"
  by (induction needle s rule: strstr.induct) (auto split: if_splits dest: prefixb_length)

text \<open>How often the share is listed as mounted.\<close>

function count_shares :: "string \<Rightarrow> string \<Rightarrow> nat" where
  "count_shares unc p =
     (if unc = [] then 0
      else case strstr unc p of
        None \<Rightarrow> 0
      | Some r \<Rightarrow> (if prefixb '' Mounts: '' (drop (length unc) r) then 1 else 0) + count_shares unc (drop (length unc) r))"
  by pat_completeness auto
termination
proof (relation "measure (\<lambda>(unc, p). length p)", goal_cases)
  case (2 unc p r)
  then show ?case using strstr_length [OF 2(2)] by (cases unc) auto
qed simp

declare count_shares.simps [simp del]

definition session_normal :: "jsonc \<Rightarrow> string \<Rightarrow> string \<Rightarrow> string \<Rightarrow> bool" where
  "session_normal jc address unc block \<longleftrightarrow>
     prefixb ''Address: '' block
     \<and> same_address jc (take 63 (takeWhile (\<lambda>c. c \<noteq> CHR '' '') (drop 9 block))) address
     \<and> strstr ''Guest '' block = None \<and> strstr ''Anonymous '' block = None \<and> strstr ''DISCONNECTED'' block = None
     \<and> strstr ''RECONNECTING'' block = None \<and> strstr ''password no longer valid'' block = None
     \<and> count_shares unc block = 1"

definition session_is :: "u64 \<Rightarrow> string \<Rightarrow> bool" where
  "session_is session block =
     (case strstr '' SessionId: 0x'' block of
        None \<Rightarrow> False
      | Some sid \<Rightarrow>
          (case strtoull16 (drop 14 sid) of (v, erange, after) \<Rightarrow>
             \<not> erange \<and> v = unat session \<and> (case after of [] \<Rightarrow> True | c # _ \<Rightarrow> c = CHR '' '' \<or> c = CHR 0x0A)))"

function cifs_scan :: "jsonc \<Rightarrow> string \<Rightarrow> string \<Rightarrow> u64 \<Rightarrow> string \<Rightarrow> nat \<Rightarrow> nat \<Rightarrow> (nat \<times> nat) option" where
  "cifs_scan jc address unc session cursor matched normal =
     (case strstr [CHR 0x0A, CHR 0x09] cursor of
        None \<Rightarrow> Some (matched, normal)
      | Some s \<Rightarrow>
          (let cur = drop 2 s; n = dropWhile is_digit cur; start = drop 2 n in
           if n = cur \<or> \<not> prefixb '') '' n \<or> (\<not> prefixb ''Address: '' start \<and> \<not> prefixb ''Name: '' start)
           then cifs_scan jc address unc session cur matched normal
           else case strstr [CHR 0x0A, CHR ''-'', CHR ''-'', CHR 0x0A] start of
             None \<Rightarrow> None
           | Some e \<Rightarrow>
               (let block = take (length start - length e) start in
                if session_is session block
                then cifs_scan jc address unc session (drop 4 e) (matched + 1) (normal + (if session_normal jc address unc block then 1 else 0))
                else cifs_scan jc address unc session (drop 4 e) matched normal)))"
  by pat_completeness auto
termination
proof (relation "measure (\<lambda>(jc, address, unc, session, cursor, matched, normal). length cursor)", goal_cases)
  case (2 jc address unc session cursor matched normal s cur n start)
  then show ?case using strstr_length [OF 2(1)] by auto
next
  case (3 jc address unc session cursor matched normal s cur n start e block)
  have "length n \<le> length cur" unfolding 3(3) by (rule length_dropWhile_le)
  then show ?case using strstr_length [OF 3(1)] strstr_length [OF 3(6)] 3(2,4) by auto
next
  case (4 jc address unc session cursor matched normal s cur n start e block)
  have "length n \<le> length cur" unfolding 4(3) by (rule length_dropWhile_le)
  then show ?case using strstr_length [OF 4(1)] strstr_length [OF 4(6)] 4(2,4) by auto
qed simp

declare cifs_scan.simps [simp del]

definition rx_parse_cifs_session :: "jsonc \<Rightarrow> string \<Rightarrow> string \<Rightarrow> string \<Rightarrow> u64 \<Rightarrow> bool" where
  "rx_parse_cifs_session jc text address unc session \<longleftrightarrow>
     length text \<le> 1048576 \<and> cifs_scan jc address unc session text 0 0 = Some (1, 1)"

text \<open>The SMB session behind the mounted share, the same before and after the check.\<close>

definition check_session :: "'w rx_os \<Rightarrow> jsonc \<Rightarrow> storage_context \<Rightarrow> fd \<Rightarrow> ('w, bool) rxm" where
  "check_session os jc c rt = do {
     before \<leftarrow> quiet (sys_tcon os rt);
     case before of
       None \<Rightarrow> State_Monad.return False
     | Some (tid, session) \<Rightarrow>
         if tid = 0 \<or> session = 0 then State_Monad.return False
         else do {
           a \<leftarrow> numeric_address os (server c);
           case a of
             None \<Rightarrow> State_Monad.return False
           | Some addr \<Rightarrow> do {
               debug \<leftarrow> read_bounded os ''/proc/fs/cifs/DebugData'' 1048576;
               case debug of
                 None \<Rightarrow> State_Monad.return False
               | Some text \<Rightarrow>
                   (let unc = snprintf 4608 ([CHR 0x5C, CHR 0x5C] @ server c @ [CHR 0x5C] @ takeWhile (\<lambda>ch. ch \<noteq> slash) (export_path c)) in
                    if \<not> rx_parse_cifs_session jc text addr unc session then State_Monad.return False
                    else do {
                      after \<leftarrow> quiet (sys_tcon os rt);
                      State_Monad.return (after = before)
                    })
             }
         }
   }"

definition rx_mount_info :: "'w rx_os \<Rightarrow> jsonc \<Rightarrow> storage_context \<Rightarrow> fd \<Rightarrow> ('w, json option) rxm" where
  "rx_mount_info os jc c rt = do {
     mounts \<leftarrow> read_bounded os ''/proc/self/mountinfo'' 1048576;
     case mounts of
       None \<Rightarrow> State_Monad.return None
     | Some text \<Rightarrow>
         (case rx_parse_mountinfo c text of
            None \<Rightarrow> State_Monad.return None
          | Some actual \<Rightarrow> do {
              ok \<leftarrow> (if protocol c = ''smb'' then check_session os jc c rt else State_Monad.return True);
              State_Monad.return (if ok then Some (JObject [(''protocol'', JString (protocol c)),
                (''configuredVersion'', JString (version c)), (''actualVersion'', JString actual)]) else None)
            })
   }"

section \<open>Reading back what the kernel prints\<close>

text \<open>
  The kernel prints a name with the characters of a set \<open>E\<close> (at least space, tab, newline and backslash)
  as a backslash and three octal digits.
\<close>

definition octal_char :: "nat \<Rightarrow> char" where
  "octal_char n = char_of (48 + n)"

definition mangled :: "char set \<Rightarrow> string \<Rightarrow> string" where
  "mangled E s = concat (map (\<lambda>c. if c \<in> E
     then [CHR 0x5C, octal_char (of_char c div 64), octal_char (of_char c div 8 mod 8), octal_char (of_char c mod 8)] else [c]) s)"

lemma octal_char_digit: "n < 8 \<Longrightarrow> octal_digit (octal_char n)" "n < 8 \<Longrightarrow> digit_val (octal_char n) = n"
  by (simp_all add: octal_char_def octal_digit_def digit_val_def)

lemma octal_digits: "(n :: nat) div 64 * 64 + n div 8 mod 8 * 8 + n mod 8 = n"
proof -
  have "n div 64 * 64 = n div 8 div 8 * 8 * 8" by (simp add: div_mult2_eq [symmetric])
  then have "n div 64 * 64 + n div 8 mod 8 * 8 = (n div 8 div 8 * 8 + n div 8 mod 8) * 8" by (simp only: add_mult_distrib)
  then show ?thesis by (simp only: div_mult_mod_eq)
qed

lemma of_char_less: "(of_char c :: nat) < 256"
  by simp

lemma octal_top: "(of_char c :: nat) div 64 < 8"
  using less_mult_imp_div_less [of "of_char c :: nat" 8 64] by (simp add: less_trans [OF of_char_less])

lemma unescape_mangled:
  assumes "CHR 0x5C \<in> E" "CHR 0x00 \<notin> set s"
  shows "unescape (mangled E s) = Some s"
  using assms(2)
proof (induction s)
  case (Cons c s)
  let ?n = "of_char c :: nat"
  have d: "?n div 64 < 8" "?n div 8 mod 8 < 8" "?n mod 8 < 8" using octal_top [of c] by simp_all
  have v: "octal_value (octal_char (?n div 64)) (octal_char (?n div 8 mod 8)) (octal_char (?n mod 8)) = ?n"
    using d octal_digits [of ?n] by (simp add: octal_value_def octal_char_digit)
  have nz: "?n \<noteq> 0"
  proof
    assume "?n = 0"
    then have "c = CHR 0x00" using of_char_eq_iff [where 'a = nat, of c "CHR 0x00"] by simp
    then show False using Cons.prems by simp
  qed
  have tl: "mangled E (c # s) = (if c \<in> E then CHR 0x5C # octal_char (?n div 64) # octal_char (?n div 8 mod 8) # octal_char (?n mod 8) # mangled E s
      else c # mangled E s)"
    by (simp add: mangled_def)
  have ih: "unescape (mangled E s) = Some s" using Cons by simp
  have le: "\<not> 255 < ?n" using of_char_less [of c] by linarith
  show ?case
  proof (cases "c \<in> E")
    case True
    then show ?thesis using d nz le by (simp add: tl v ih octal_char_digit Let_def)
  next
    case False
    then show ?thesis using assms(1) by (auto simp: tl ih)
  qed
qed (simp add: mangled_def)

lemma mangled_plain: "x \<in> E \<Longrightarrow> x \<noteq> CHR 0x5C \<Longrightarrow> \<not> octal_digit x \<Longrightarrow> x \<notin> set (mangled E s)"
proof -
  assume a: "x \<in> E" "x \<noteq> CHR 0x5C" "\<not> octal_digit x"
  have o: "x \<noteq> octal_char n" if "n < 8" for n using a(3) octal_char_digit(1) [OF that] by auto
  have "x \<notin> set (if c \<in> E then [CHR 0x5C, octal_char (of_char c div 64), octal_char (of_char c div 8 mod 8), octal_char (of_char c mod 8)] else [c])" for c
    using a o [OF octal_top [of c]] o [of "of_char c div 8 mod 8"] o [of "of_char c mod 8"] by auto
  then show ?thesis unfolding mangled_def set_concat set_map by blast
qed

lemma mangled_nonempty: "mangled E s = [] \<longleftrightarrow> s = []"
  by (cases s) (auto simp: mangled_def)

text \<open>Words joined with a separator, and taken apart again.\<close>

fun joined :: "char \<Rightarrow> string list \<Rightarrow> string" where
  "joined sep [] = []"
| "joined sep [x] = x"
| "joined sep (x # xs) = x @ sep # joined sep xs"

definition word :: "char \<Rightarrow> string \<Rightarrow> bool" where
  "word sep x \<longleftrightarrow> x \<noteq> [] \<and> sep \<notin> set x"

lemma split_at_free: "sep \<notin> set x \<Longrightarrow> split_at sep x = [x]"
  by (induction x) auto

lemma tokens_append: "tokens sep (a @ sep # b) = tokens sep a @ tokens sep b"
  by (simp add: tokens_def split_at_append)

lemma tokens_word: "word sep x \<Longrightarrow> tokens sep x = [x]"
  by (simp add: tokens_def word_def split_at_free)

lemma tokens_Nil [simp]: "tokens sep [] = []"
  by (simp add: tokens_def)

lemma tokens_joined: "list_all (word sep) xs \<Longrightarrow> tokens sep (joined sep xs) = xs"
  by (induction sep xs rule: joined.induct) (auto simp: tokens_append tokens_word)

lemma tokens_lines: "list_all (word sep) ls \<Longrightarrow> tokens sep (concat (map (\<lambda>l. l @ [sep]) ls)) = ls"
  by (induction ls) (auto simp: tokens_append tokens_word)

text \<open>The separator \<open> - \<close> of a line is the first in it.\<close>

lemma strstr_skip:
  assumes "CHR '' '' \<notin> set x"
  shows "strstr '' - '' (x @ y) = strstr '' - '' y"
  using assms by (induction x) auto

lemma strstr_word:
  assumes "CHR '' '' \<notin> set x" "x \<noteq> ''-''" "x \<noteq> []"
  shows "strstr '' - '' (CHR '' '' # x @ CHR '' '' # y) = strstr '' - '' (CHR '' '' # y)"
proof -
  have "\<not> prefixb '' - '' (CHR '' '' # x @ CHR '' '' # y)"
    using assms by (cases x; cases "tl x") auto
  then show ?thesis using strstr_skip [OF assms(1)] by simp
qed

lemma strstr_joined:
  assumes "list_all (\<lambda>x. word (CHR '' '') x \<and> x \<noteq> ''-'') xs"
  shows "strstr '' - '' (CHR '' '' # joined (CHR '' '') xs @ '' - '' @ tail) = Some ('' - '' @ tail)"
  using assms
proof (induction "CHR '' ''" xs rule: joined.induct)
  case (2 x)
  then show ?case using strstr_word [of x "''- '' @ tail"] by (simp add: word_def)
next
  case (3 x y ys)
  then show ?case using strstr_word [of x "joined (CHR '' '') (y # ys) @ '' - '' @ tail"] by (simp add: word_def)
qed simp

section \<open>The mount table of the kernel\<close>

text \<open>
  A line of \<open>/proc/self/mountinfo\<close> as proc(5) describes it: identifier, parent, device, root, mount point,
  options, optional fields, a hyphen, type, source and the options of the super block.  Root, mount
  point and source are names printed with \<open>mangled\<close>.
\<close>

record mount =
  m_head :: "string list"
  m_root :: string
  m_point :: string
  m_flags :: "string list"
  m_type :: string
  m_source :: string
  m_super :: "string list"

definition mount_text :: "char set \<Rightarrow> mount \<Rightarrow> string" where
  "mount_text E m =
     joined (CHR '' '') (m_head m @ [mangled E (m_root m), mangled E (m_point m)] @ m_flags m)
     @ '' - '' @ joined (CHR '' '') [m_type m, mangled E (m_source m), joined (CHR '','') (m_super m)]"

definition mountinfo :: "char set \<Rightarrow> mount list \<Rightarrow> string" where
  "mountinfo E ms = concat (map (\<lambda>m. mount_text E m @ [CHR 0x0A]) ms)"

definition plain :: "string \<Rightarrow> bool" where
  "plain x \<longleftrightarrow> x \<noteq> [] \<and> x \<noteq> ''-'' \<and> CHR '' '' \<notin> set x \<and> CHR 0x0A \<notin> set x"

definition path_name :: "string \<Rightarrow> bool" where
  "path_name x \<longleftrightarrow> x \<noteq> [] \<and> CHR 0x00 \<notin> set x"

definition mount_wf :: "mount \<Rightarrow> bool" where
  "mount_wf m \<longleftrightarrow> length (m_head m) = 3 \<and> list_all plain (m_head m) \<and> m_flags m \<noteq> [] \<and> list_all plain (m_flags m)
     \<and> path_name (m_root m) \<and> m_root m \<noteq> ''-'' \<and> path_name (m_point m) \<and> m_point m \<noteq> ''-'' \<and> plain (m_type m) \<and> path_name (m_source m)
     \<and> m_super m \<noteq> [] \<and> list_all (\<lambda>x. plain x \<and> CHR '','' \<notin> set x) (m_super m)"

definition escapes :: "char set \<Rightarrow> bool" where
  "escapes E \<longleftrightarrow> {CHR '' '', CHR 0x09, CHR 0x0A, CHR 0x5C} \<subseteq> E"

text \<open>What the task expects of the mount on \<open>/storage\<close>, and the version it gives.\<close>

definition right_mount :: "storage_context \<Rightarrow> mount \<Rightarrow> string \<Rightarrow> bool" where
  "right_mount c m v \<longleftrightarrow> source_ok c (m_type m) (m_source m) (m_root m)
     \<and> (\<exists>w. filter (prefixb ''vers='') (m_super m) = [''vers='' @ w] \<and> length w < 32 \<and> canonical_version (protocol c) w = Some v)
     \<and> (version c = ''auto'' \<or> version c = v) \<and> (protocol c = ''smb'' \<longrightarrow> ''serverino'' \<in> set (m_super m))"

lemma canonical_version_empty: "canonical_version p [] = None"
  by (simp add: canonical_version_def)

lemma scan_options_rest:
  "filter (prefixb ''vers='') vs = [] \<Longrightarrow> scan_options vs (Suc 0) ver ino = (Suc 0, ver, ino \<or> ''serverino'' \<in> set vs)"
  by (induction vs arbitrary: ino) (auto split: if_splits)

lemma scan_options_seen:
  assumes "filter (prefixb ''vers='') vs \<noteq> []"
  shows "fst (scan_options vs (Suc 0) ver ino) \<noteq> Suc 0"
  using assms by (induction vs arbitrary: ino) auto

lemma scan_options_exact:
  "(case scan_options vs 0 [] ino of (found, ver, ino') \<Rightarrow> found = Suc 0 \<and> ver \<noteq> [] \<and> ver = w \<and> ino' = i)
   \<longleftrightarrow> filter (prefixb ''vers='') vs = [''vers='' @ w] \<and> w \<noteq> [] \<and> length w < 32 \<and> i = (ino \<or> ''serverino'' \<in> set vs)"
proof (induction vs arbitrary: ino)
  case (Cons v vs)
  show ?case
  proof (cases "prefixb ''vers='' v")
    case False
    then show ?thesis using Cons.IH [of "ino \<or> v = ''serverino''"] by auto
  next
    case True
    then obtain x where v: "v = ''vers='' @ x" by (auto simp: prefixb_iff)
    show ?thesis
    proof (cases "filter (prefixb ''vers='') vs = []")
      case True
      then show ?thesis using scan_options_rest [OF True, of x ino] by (auto simp: v)
    next
      case False
      have "fst (scan_options vs (Suc 0) x ino) \<noteq> Suc 0" by (rule scan_options_seen [OF False])
      then show ?thesis using False by (cases "scan_options vs (Suc 0) x ino") (simp add: v)
    qed
  qed
qed auto

lemma mount_version_iff:
  assumes "list_all (\<lambda>x. plain x \<and> CHR '','' \<notin> set x) opts"
  shows "mount_version c (joined (CHR '','') opts) = Some v \<longleftrightarrow>
     (\<exists>w. filter (prefixb ''vers='') opts = [''vers='' @ w] \<and> length w < 32 \<and> canonical_version (protocol c) w = Some v)
     \<and> (version c = ''auto'' \<or> version c = v) \<and> (protocol c = ''smb'' \<longrightarrow> ''serverino'' \<in> set opts)"
proof -
  have "list_all (word (CHR '','')) opts"
    using assms by (auto simp: list_all_iff word_def plain_def)
  note t = tokens_joined [OF this]
  obtain found ver ino where s: "scan_options opts 0 [] False = (found, ver, ino)" by (metis prod_cases3)
  have x: "found = Suc 0 \<and> ver \<noteq> [] \<and> ver = w \<and> ino = i \<longleftrightarrow>
      filter (prefixb ''vers='') opts = [''vers='' @ w] \<and> w \<noteq> [] \<and> length w < 32 \<and> i = (''serverino'' \<in> set opts)" for w i
    using scan_options_exact [where vs = opts and ino = False and w = w and i = i] by (simp add: s)
  have "mount_version c (joined (CHR '','') opts) = Some v \<longleftrightarrow>
      found = Suc 0 \<and> canonical_version (protocol c) ver = Some v \<and> (version c = ''auto'' \<or> version c = v) \<and> (protocol c = ''smb'' \<longrightarrow> ino)"
    by (auto simp: mount_version_def t s split: option.splits)
  also have "\<dots> \<longleftrightarrow> (\<exists>w. filter (prefixb ''vers='') opts = [''vers='' @ w] \<and> length w < 32 \<and> canonical_version (protocol c) w = Some v)
     \<and> (version c = ''auto'' \<or> version c = v) \<and> (protocol c = ''smb'' \<longrightarrow> ''serverino'' \<in> set opts)"
    using x [of ver ino] x [of _ "''serverino'' \<in> set opts"] canonical_version_empty [of "protocol c"] by (metis option.distinct(1))
  finally show ?thesis .
qed

lemma mangled_word:
  assumes "escapes E" "path_name x"
  shows "word (CHR '' '') (mangled E x)" "CHR 0x0A \<notin> set (mangled E x)"
  using assms mangled_plain [of "CHR '' ''" E x] mangled_plain [of "CHR 0x0A" E x] mangled_nonempty [of E x]
  by (auto simp: escapes_def path_name_def word_def octal_digit_def)

lemma mangled_dash: "escapes E \<Longrightarrow> mangled E x = ''-'' \<Longrightarrow> x = ''-''"
  by (cases x; cases "tl x") (auto simp: mangled_def split: if_splits)

lemma plain_word: "plain x \<Longrightarrow> word (CHR '' '') x"
  by (simp add: plain_def word_def)

lemma joined_set: "set (joined sep xs) \<subseteq> insert sep (\<Union> (set ` set xs))"
  by (induction sep xs rule: joined.induct) auto

lemma joined_empty: "list_all (\<lambda>x. x \<noteq> []) xs \<Longrightarrow> joined sep xs = [] \<longleftrightarrow> xs = []"
  by (cases "(sep, xs)" rule: joined.cases) auto

lemma mount_text_fields:
  assumes "escapes E" "mount_wf m"
  shows "list_all (\<lambda>x. word (CHR '' '') x \<and> x \<noteq> ''-'' \<and> CHR 0x0A \<notin> set x)
      (m_head m @ [mangled E (m_root m), mangled E (m_point m)] @ m_flags m)"
    and "list_all (\<lambda>x. word (CHR '' '') x \<and> CHR 0x0A \<notin> set x) [m_type m, mangled E (m_source m), joined (CHR '','') (m_super m)]"
proof -
  show "list_all (\<lambda>x. word (CHR '' '') x \<and> x \<noteq> ''-'' \<and> CHR 0x0A \<notin> set x)
      (m_head m @ [mangled E (m_root m), mangled E (m_point m)] @ m_flags m)"
    using assms mangled_word [OF assms(1)] mangled_dash [OF assms(1)]
    by (auto simp: mount_wf_def list_all_iff plain_word plain_def)
  have "joined (CHR '','') (m_super m) \<noteq> []"
    using assms(2) by (subst joined_empty) (auto simp: mount_wf_def list_all_iff plain_def)
  moreover have "CHR '' '' \<notin> set (joined (CHR '','') (m_super m))" "CHR 0x0A \<notin> set (joined (CHR '','') (m_super m))"
    using assms(2) joined_set [of "CHR '',''" "m_super m"] by (auto simp: mount_wf_def list_all_iff plain_def)
  ultimately show "list_all (\<lambda>x. word (CHR '' '') x \<and> CHR 0x0A \<notin> set x) [m_type m, mangled E (m_source m), joined (CHR '','') (m_super m)]"
    using assms mangled_word [OF assms(1)] by (auto simp: mount_wf_def word_def plain_def)
qed

lemma mount_line_text:
  assumes "escapes E" "mount_wf m"
  shows "mount_line c (mount_text E m) =
     (if m_point m = ''/storage''
      then Some (if source_ok c (m_type m) (m_source m) (m_root m) then mount_version c (joined (CHR '','') (m_super m)) else None)
      else None)"
proof -
  define xs where "xs = m_head m @ [mangled E (m_root m), mangled E (m_point m)] @ m_flags m"
  define ys where "ys = [m_type m, mangled E (m_source m), joined (CHR '','') (m_super m)]"
  note f = mount_text_fields [OF assms, folded xs_def ys_def]
  have wx: "list_all (\<lambda>x. word (CHR '' '') x \<and> x \<noteq> ''-'') xs" and tx: "list_all (word (CHR '' '')) xs" and ty: "list_all (word (CHR '' '')) ys"
    using f by (auto simp: list_all_iff)
  have len: "length (m_head m) = 3" "m_flags m \<noteq> []" using assms(2) by (auto simp: mount_wf_def)
  have lx: "6 \<le> length xs" using len by (cases "m_flags m") (auto simp: xs_def)
  then obtain x y zs where xs: "xs = x # y # zs" by (cases xs; cases "tl xs") auto
  have line: "mount_text E m = joined (CHR '' '') xs @ '' - '' @ joined (CHR '' '') ys" by (simp add: mount_text_def xs_def ys_def)
  have "strstr '' - '' (mount_text E m) = strstr '' - '' (CHR '' '' # joined (CHR '' '') (y # zs) @ '' - '' @ joined (CHR '' '') ys)"
    unfolding line xs using wx strstr_skip [of x "CHR '' '' # joined (CHR '' '') (y # zs) @ '' - '' @ joined (CHR '' '') ys"]
    by (simp add: xs word_def)
  also have "\<dots> = Some ('' - '' @ joined (CHR '' '') ys)"
    by (rule strstr_joined) (use wx in \<open>simp add: xs\<close>)
  finally have str: "strstr '' - '' (mount_text E m) = Some ('' - '' @ joined (CHR '' '') ys)" .
  have tk: "take (length (mount_text E m) - length ('' - '' @ joined (CHR '' '') ys)) (mount_text E m) = joined (CHR '' '') xs"
    by (simp add: line)
  have n: "take 7 xs ! 3 = mangled E (m_root m)" "take 7 xs ! 4 = mangled E (m_point m)"
    using len by (auto simp: xs_def nth_append)
  have l6: "\<not> length (take 7 xs) < 6" using lx by simp
  have bs: "CHR 0x5C \<in> E" using assms(1) by (simp add: escapes_def)
  have u: "unescape (mangled E (m_root m)) = Some (m_root m)" "unescape (mangled E (m_point m)) = Some (m_point m)"
    "unescape (mangled E (m_source m)) = Some (m_source m)"
    using assms(2) unescape_mangled [OF bs] by (auto simp: mount_wf_def path_name_def)
  show ?thesis
    unfolding mount_line_def str option.case Let_def tk tokens_joined [OF tx] n u if_not_P [OF l6] prod.case
    using tokens_joined [OF ty] by (simp add: ys_def u)
qed

lemma mount_scan_count:
  "mount_scan c ls matched good actual =
     (let hits = filter (\<lambda>r. r \<noteq> None) (map (mount_line c) ls); goods = filter (\<lambda>r. r \<noteq> Some None) hits
      in (matched + length hits, good + length goods, if goods = [] then actual else the (the (last goods))))"
proof (induction ls arbitrary: matched good actual)
  case (Cons l ls)
  then show ?case by (cases "mount_line c l"; cases "the (mount_line c l)") (auto simp: Let_def)
qed (simp add: Let_def)

lemma parse_mountinfo_iff:
  "rx_parse_mountinfo c text = Some v \<longleftrightarrow> filter (\<lambda>r. r \<noteq> None) (map (mount_line c) (tokens (CHR 0x0A) text)) = [Some (Some v)]"
proof -
  define hits where "hits = filter (\<lambda>r. r \<noteq> None) (map (mount_line c) (tokens (CHR 0x0A) text))"
  define goods where "goods = filter (\<lambda>r. r \<noteq> Some None) hits"
  have nn: "None \<notin> set hits" by (auto simp: hits_def)
  have scan: "mount_scan c (tokens (CHR 0x0A) text) 0 0 [] = (length hits, length goods, if goods = [] then [] else the (the (last goods)))"
    unfolding mount_scan_count Let_def hits_def goods_def by simp
  have "rx_parse_mountinfo c text = Some v \<longleftrightarrow> length hits = 1 \<and> length goods = 1 \<and> the (the (last goods)) = v"
    unfolding rx_parse_mountinfo_def scan by (cases goods) auto
  also have "\<dots> \<longleftrightarrow> hits = [Some (Some v)]"
  proof
    assume a: "length hits = 1 \<and> length goods = 1 \<and> the (the (last goods)) = v"
    then obtain r where r: "hits = [r]" by (auto simp: length_Suc_conv)
    then show "hits = [Some (Some v)]" using a nn unfolding goods_def r by (cases r; cases "the r") (auto split: if_splits)
  qed (simp add: goods_def)
  finally show ?thesis unfolding hits_def .
qed

lemma mountinfo_lines:
  assumes "escapes E" "list_all mount_wf ms"
  shows "tokens (CHR 0x0A) (mountinfo E ms) = map (mount_text E) ms"
proof -
  have "word (CHR 0x0A) (mount_text E m)" if "m \<in> set ms" for m
  proof -
    have m: "mount_wf m" using that assms(2) by (simp add: list_all_iff)
    note f = mount_text_fields [OF assms(1) m]
    have "CHR 0x0A \<notin> set (joined (CHR '' '') (m_head m @ [mangled E (m_root m), mangled E (m_point m)] @ m_flags m))"
      using f(1) joined_set [of "CHR '' ''" "m_head m @ [mangled E (m_root m), mangled E (m_point m)] @ m_flags m"]
      by (fastforce simp: list_all_iff)
    moreover have "CHR 0x0A \<notin> set (joined (CHR '' '') [m_type m, mangled E (m_source m), joined (CHR '','') (m_super m)])"
      using f(2) by auto
    ultimately show ?thesis by (auto simp: word_def mount_text_def)
  qed
  then have "list_all (word (CHR 0x0A)) (map (mount_text E) ms)" by (simp add: list_all_iff)
  from tokens_lines [OF this] show ?thesis by (simp add: mountinfo_def comp_def)
qed

lemma mount_line_right:
  assumes "escapes E" "mount_wf m"
  shows "mount_line c (mount_text E m) = Some (Some v) \<longleftrightarrow> m_point m = ''/storage'' \<and> right_mount c m v"
    and "mount_line c (mount_text E m) = None \<longleftrightarrow> m_point m \<noteq> ''/storage''"
proof -
  have "list_all (\<lambda>x. plain x \<and> CHR '','' \<notin> set x) (m_super m)" using assms(2) by (simp add: mount_wf_def)
  from mount_version_iff [OF this] show "mount_line c (mount_text E m) = Some (Some v) \<longleftrightarrow> m_point m = ''/storage'' \<and> right_mount c m v"
    unfolding mount_line_text [OF assms] right_mount_def by auto
qed (simp add: mount_line_text [OF assms])

lemma filter_map_single:
  assumes "\<And>x. x \<in> set xs \<Longrightarrow> f x \<noteq> None \<longleftrightarrow> P x" "\<And>x. x \<in> set xs \<Longrightarrow> f x = Some y \<longleftrightarrow> P x \<and> Q x"
  shows "filter (\<lambda>r. r \<noteq> None) (map f xs) = [Some y] \<longleftrightarrow> (\<exists>x. filter P xs = [x] \<and> Q x)"
proof -
  have e: "filter (\<lambda>r. r \<noteq> None) (map f xs) = map f (filter P xs)"
    unfolding filter_map comp_def using assms(1) by (metis (mono_tags, lifting) filter_cong)
  have in1: "x \<in> set xs \<and> P x" if "filter P xs = [x]" for x
  proof -
    have "x \<in> set (filter P xs)" using that by simp
    then show ?thesis by simp
  qed
  show ?thesis
  proof
    assume "filter (\<lambda>r. r \<noteq> None) (map f xs) = [Some y]"
    then obtain x where x: "filter P xs = [x]" "f x = Some y" unfolding e by (cases "filter P xs"; cases "tl (filter P xs)") auto
    then show "\<exists>x. filter P xs = [x] \<and> Q x" using in1 [OF x(1)] assms(2) by blast
  next
    assume "\<exists>x. filter P xs = [x] \<and> Q x"
    then obtain x where x: "filter P xs = [x]" "Q x" by blast
    then have "f x = Some y" using in1 [OF x(1)] assms(2) by blast
    then show "filter (\<lambda>r. r \<noteq> None) (map f xs) = [Some y]" unfolding e x(1) by simp
  qed
qed

text \<open>Property C13. The check of the mount table is exact: on the text the kernel prints for a list of mounts (any
  mounts, names with blanks, newlines or backslashes included, whatever further characters it escapes),
  \<open>rx_parse_mountinfo\<close> succeeds just when exactly one of them is mounted on \<open>/storage\<close> and that one is the
  share of the task: right type, source and root, exactly one \<open>vers=\<close> option with a known version, the version the task
  asks for (if it asks for one), and for SMB the \<open>serverino\<close> option; and the version it returns is that one.\<close>

theorem parse_mountinfo_exact:
  assumes "escapes E" "list_all mount_wf ms"
  shows "rx_parse_mountinfo c (mountinfo E ms) = Some v \<longleftrightarrow>
     (\<exists>m. filter (\<lambda>m. m_point m = ''/storage'') ms = [m] \<and> right_mount c m v)"
proof -
  have wf: "x \<in> set ms \<Longrightarrow> mount_wf x" for x using assms(2) by (simp add: list_all_iff)
  show ?thesis
    unfolding parse_mountinfo_iff mountinfo_lines [OF assms] map_map
    by (rule filter_map_single) (simp_all add: mount_line_right [OF assms(1) wf])
qed

definition share_mount :: mount where
  "share_mount = \<lparr>m_head = [''36'', ''25'', ''0:45''], m_root = ''/'', m_point = ''/storage'', m_flags = [''rw,nosuid'', ''shared:1''],
     m_type = ''nfs4'', m_source = ''nas:/images'', m_super = [''rw'', ''vers=4.1'', ''sec=sys'']\<rparr>"

definition other_mount :: mount where
  "other_mount = \<lparr>m_head = [''25'', ''1'', ''8:1''], m_root = ''/'', m_point = ''/mnt/a - b'', m_flags = [''rw''],
     m_type = ''ext4'', m_source = ''/dev/sda1'', m_super = [''rw'']\<rparr>"

theorem parse_mountinfo_exact_witness:
  "escapes {CHR '' '', CHR 0x09, CHR 0x0A, CHR 0x5C} \<and> list_all mount_wf [other_mount, share_mount]
   \<and> rx_parse_mountinfo demo_ctx (mountinfo {CHR '' '', CHR 0x09, CHR 0x0A, CHR 0x5C} [other_mount, share_mount]) = Some ''4.1''"
proof -
  have e: "escapes {CHR '' '', CHR 0x09, CHR 0x0A, CHR 0x5C}" by (simp add: escapes_def)
  have w: "list_all mount_wf [other_mount, share_mount]"
    by (simp add: mount_wf_def other_mount_def share_mount_def plain_def path_name_def)
  have r: "right_mount demo_ctx share_mount ''4.1''"
  proof -
    have s: "source_nfs demo_ctx = Some ''nas:/images''" by code_simp
    have p: "protocol demo_ctx = ''nfs''" "version demo_ctx = ''4.1''" by (simp_all add: demo_ctx_def)
    show ?thesis by (simp add: right_mount_def source_ok_def s p share_mount_def canonical_version_def)
  qed
  have f: "filter (\<lambda>m. m_point m = ''/storage'') [other_mount, share_mount] = [share_mount]"
    by (simp add: other_mount_def share_mount_def)
  show ?thesis using parse_mountinfo_exact [OF e w, of demo_ctx "''4.1''"] e w r f by blast
qed

end
