(* ===== verification/StorageMain.thy ===== *)
theory StorageMain
  imports StorageMount
begin

text \<open>
  \<open>rootpxe-storage-io.c\<close>: the program.  Started by the controller with pipes on fixed descriptors, it
  loads the task, and either resolves the server, or mounts the NFS share, or takes on the identity of the
  task, opens the mounted share and serves commands until the input ends, a command fails or the
  controller is gone.  The number of commands is not bounded by the program, so the loop takes fuel: with
  \<open>n\<close> units it returns, or has served \<open>n\<close> commands and would go on (\<open>None\<close>).
\<close>

section \<open>The command line\<close>

datatype run_mode = Serve | MountNfs | Resolve

record cmdline =
  cl_mode :: run_mode
  cl_context :: "fd option"
  cl_request :: "fd option"
  cl_data :: "fd option"
  cl_result :: "fd option"

definition fd_arg :: "string \<Rightarrow> fd option" where
  "fd_arg s =
     (if length s \<noteq> 1 \<or> (of_char (hd s) :: nat) < 51 \<or> 54 < (of_char (hd s) :: nat) then None
      else Some (of_char (hd s) - 48))"

fun parse_args :: "string list \<Rightarrow> cmdline \<Rightarrow> cmdline option" where
  "parse_args [] cl = Some cl"
| "parse_args (a # as) cl =
     (if a = ''--mount-nfs'' \<or> a = ''--resolve'' then
        (if cl_mode cl \<noteq> Serve then None
         else parse_args as (cl\<lparr>cl_mode := if a = ''--resolve'' then Resolve else MountNfs\<rparr>))
      else case as of
        [] \<Rightarrow> None
      | v # rest \<Rightarrow>
          (case fd_arg v of
             None \<Rightarrow> None
           | Some f \<Rightarrow>
               if a = ''--context-fd'' \<and> cl_context cl = None then parse_args rest (cl\<lparr>cl_context := Some f\<rparr>)
               else if a = ''--request-fd'' \<and> cl_request cl = None then parse_args rest (cl\<lparr>cl_request := Some f\<rparr>)
               else if a = ''--data-fd'' \<and> cl_data cl = None then parse_args rest (cl\<lparr>cl_data := Some f\<rparr>)
               else if a = ''--result-fd'' \<and> cl_result cl = None then parse_args rest (cl\<lparr>cl_result := Some f\<rparr>)
               else None))"

definition args_ok :: "cmdline \<Rightarrow> bool" where
  "args_ok cl \<longleftrightarrow> cl_context cl = Some 3 \<and> cl_result cl = Some 6
     \<and> (if cl_mode cl = Serve then cl_request cl = Some 4 \<and> cl_data cl = Some 5
        else cl_request cl = None \<and> cl_data cl = None)"

definition command_line :: "string list \<Rightarrow> run_mode option" where
  "command_line argv =
     (case parse_args argv \<lparr>cl_mode = Serve, cl_context = None, cl_request = None, cl_data = None, cl_result = None\<rparr> of
        None \<Rightarrow> None
      | Some cl \<Rightarrow> if args_ok cl then Some (cl_mode cl) else None)"

section \<open>The loop over the commands\<close>

definition done_json :: "storage_fs \<Rightarrow> json" where
  "done_json fs = JObject [(''event'', JString ''done''), (''sequence'', JString (dec (unat (last_sequence fs))))]"

fun serve :: "'w rx_os \<Rightarrow> jsonc \<Rightarrow> nat \<Rightarrow> storage_fs \<Rightarrow> ('w, int option) rxm" where
  "serve os jc 0 fs = State_Monad.return None"
| "serve os jc (Suc fuel) fs = do {
     alive \<leftarrow> rx_parent_alive os (ctx fs);
     if \<not> alive then State_Monad.return (Some 0)
     else do {
       command \<leftarrow> rx_read_json os jc 4 RX_COMMAND_MAX True;
       case command of
         None \<Rightarrow> State_Monad.return (Some 0)
       | Some command \<Rightarrow> do {
           r \<leftarrow> rx_command os jc fs command 4 5 6;
           if \<not> fst r then State_Monad.return (Some 7)
           else do {
             ok \<leftarrow> rx_emit os jc 6 (done_json (snd r));
             if \<not> ok then State_Monad.return (Some 7) else serve os jc fuel (snd r)
           }
         }
     }
   }"

section \<open>The program\<close>

definition is_fifo :: "'w rx_os \<Rightarrow> fd \<Rightarrow> ('w, bool) rxm" where
  "is_fifo os f = do {
     s \<leftarrow> quiet (sys_fstat os f);
     State_Monad.return (case s of None \<Rightarrow> False | Some st \<Rightarrow> S_ISFIFO (st_mode st))
   }"

definition main_resolve :: "'w rx_os \<Rightarrow> jsonc \<Rightarrow> storage_context \<Rightarrow> ('w, int) rxm" where
  "main_resolve os jc c = do {
     r \<leftarrow> rx_resolve_server os c;
     case r of
       None \<Rightarrow> State_Monad.return 4
     | Some j \<Rightarrow> do {
         ok \<leftarrow> rx_emit os jc 6 j;
         State_Monad.return (if ok then 0 else 4)
       }
   }"

definition main_mount :: "'w rx_os \<Rightarrow> jsonc \<Rightarrow> storage_context \<Rightarrow> ('w, int) rxm" where
  "main_mount os jc c = do {
     rc \<leftarrow> rx_mount_nfs os jc c 6;
     clear \<leftarrow> rx_clear_capabilities os;
     keep \<leftarrow> id_call os (KeepCaps False);
     State_Monad.return (if rc \<and> clear \<and> keep then 0 else 4)
   }"

definition ready_json :: "json \<Rightarrow> storage_fs \<Rightarrow> json" where
  "ready_json info fs = JObject [(''event'', JString ''connection-info''), (''connection'', info), (''node'', rx_node_json (root_stat fs))]"

text \<open>The share is open: its mount is checked, the controller told, the commands served.\<close>

definition main_session :: "'w rx_os \<Rightarrow> jsonc \<Rightarrow> nat \<Rightarrow> storage_fs \<Rightarrow> ('w, int option) rxm" where
  "main_session os jc fuel fs = do {
     info \<leftarrow> rx_mount_info os jc (ctx fs) (root fs);
     case info of
       None \<Rightarrow> do { sys (Close (root fs)) (sys_close os (root fs)); State_Monad.return (Some 5) }
     | Some info \<Rightarrow> do {
         ok \<leftarrow> rx_emit os jc 6 (ready_json info fs);
         if \<not> ok then do { sys (Close (root fs)) (sys_close os (root fs)); State_Monad.return (Some 6) }
         else do {
           rc \<leftarrow> serve os jc fuel fs;
           case rc of
             None \<Rightarrow> State_Monad.return None
           | Some rc \<Rightarrow> do {
               ok \<leftarrow> sys (Close (root fs)) (sys_close os (root fs));
               State_Monad.return (Some (if ok then rc else 7))
             }
         }
       }
   }"

definition main_serve :: "'w rx_os \<Rightarrow> jsonc \<Rightarrow> nat \<Rightarrow> storage_context \<Rightarrow> ('w, int option) rxm" where
  "main_serve os jc fuel c = do {
     p4 \<leftarrow> is_fifo os 4;
     p5 \<leftarrow> (if p4 then is_fifo os 5 else State_Monad.return False);
     p6 \<leftarrow> (if p5 then is_fifo os 6 else State_Monad.return False);
     if \<not> p6 then State_Monad.return (Some 3)
     else do {
       ok \<leftarrow> rx_identity os c False;
       if \<not> ok then State_Monad.return (Some 4)
       else do {
         r \<leftarrow> rx_fs_open os c (sequence c);
         case r of
           None \<Rightarrow> State_Monad.return (Some 5)
         | Some fs \<Rightarrow> main_session os jc fuel fs
       }
     }
   }"

text \<open>
  Everything up to the choice of the mode: the task, the pipes, then the working directory, the
  inherited descriptors and the standard ones (\<open>sys_setup\<close> stands for these last three).
\<close>

definition main_setup :: "'w rx_os \<Rightarrow> jsonc \<Rightarrow> run_mode \<Rightarrow> ('w, storage_context option) rxm" where
  "main_setup os jc mode = do {
     r \<leftarrow> rx_load_context os jc 3;
     case r of
       None \<Rightarrow> State_Monad.return None
     | Some c \<Rightarrow> do {
         ok \<leftarrow> (if mode = Serve then rx_fd_contract os 4 5 6 else State_Monad.return True);
         if \<not> ok then State_Monad.return None
         else do {
           pipe \<leftarrow> is_fifo os 6;
           if \<not> pipe then State_Monad.return None
           else do {
             quiet (sys_close os 3);
             (if mode \<noteq> Serve then do { quiet (sys_close os 4); quiet (sys_close os 5) } else State_Monad.return True);
             ok \<leftarrow> sys Setup (sys_setup os);
             State_Monad.return (if ok then Some c else None)
           }
         }
       }
   }"

definition capabilities_text :: string where
  "capabilities_text = [CHR 0x7B, CHR 0x22] @ ''version'' @ [CHR 0x22] @ '':1,'' @ [CHR 0x22] @ ''helper'' @ [CHR 0x22] @ '':true,'' @ [CHR 0x22] @ ''numericIdentity''
     @ [CHR 0x22] @ '':true,'' @ [CHR 0x22] @ ''durablePublish'' @ [CHR 0x22] @ '':true'' @ [CHR 0x7D, CHR 0x0A]"

definition helper_main :: "'w rx_os \<Rightarrow> jsonc \<Rightarrow> nat \<Rightarrow> string list \<Rightarrow> ('w, int option) rxm" where
  "helper_main os jc fuel argv =
     (if argv = [''--capabilities''] then do {
        ok \<leftarrow> rx_write_all os 1 capabilities_text;
        State_Monad.return (Some (if ok then 0 else 1))
      }
      else case command_line argv of
        None \<Rightarrow> State_Monad.return (Some 2)
      | Some mode \<Rightarrow> do {
          r \<leftarrow> main_setup os jc mode;
          case r of
            None \<Rightarrow> State_Monad.return (Some 3)
          | Some c \<Rightarrow>
              (case mode of
                 Resolve \<Rightarrow> do { rc \<leftarrow> main_resolve os jc c; State_Monad.return (Some rc) }
               | MountNfs \<Rightarrow> do { rc \<leftarrow> main_mount os jc c; State_Monad.return (Some rc) }
               | Serve \<Rightarrow> main_serve os jc fuel c)
        })"

section \<open>What the program does to the share\<close>

lemma rx_command_logs:
  assumes "ctx_ok (ctx fs)"
  shows "logs (rx_command os jc fs command request data res)
     (\<lambda>r new. (ctx (snd r) = ctx fs \<and> root (snd r) = root fs \<and> root_stat (snd r) = root_stat fs) \<and> guarded (permitted jc fs command) new)"
  unfolding logs_def
proof
  fix s
  obtain ok fs' s' where r: "run_state (rx_command os jc fs command request data res) s = ((ok, fs'), s')"
    by (metis prod.collapse)
  from logsD [OF rx_command_guarded [OF assms] r] rx_command_sequence [OF r] r
  show "\<exists>new. trace (snd (run_state (rx_command os jc fs command request data res) s)) = trace s @ new
     \<and> (ctx (snd (fst (run_state (rx_command os jc fs command request data res) s))) = ctx fs
       \<and> root (snd (fst (run_state (rx_command os jc fs command request data res) s))) = root fs
       \<and> root_stat (snd (fst (run_state (rx_command os jc fs command request data res) s))) = root_stat fs)
     \<and> guarded (permitted jc fs command) new"
    by auto
qed

lemma permitted_extend: "permitted jc fs command pre t \<Longrightarrow> permitted jc fs command (x @ pre) t"
proof -
  assume "permitted jc fs command pre t"
  then obtain op path to sq q pr x' a y seg z where
    p: "cmd_args jc fs command = Some (op, path, to, sq)" "mutating op"
      "rx_string (owner (ctx fs)) ''taskType'' 7 = Some ''capture''" "q = path \<or> to = Some q" "owned (ctx fs) q"
      "pre = x' @ [Emit (event_for (ctx fs) ''intent'' op path to sq) True, Line (Some a)] @ y @ seg @ z"
      "ack_basic jc (ctx fs) (event_for (ctx fs) ''intent'' op path to sq) a = Some pr"
      "ack_repeats (event_for (ctx fs) ''intent'' op path to sq) a"
      "reached jc fs pr (parent_path q) (fst t) seg" "snd t = last_name q"
    unfolding permitted_def by blast
  have eq: "x @ pre = (x @ x') @ [Emit (event_for (ctx fs) ''intent'' op path to sq) True, Line (Some a)] @ y @ seg @ z"
    by (simp add: p(6))
  show ?thesis
    unfolding permitted_def
    by (intro exI conjI, rule p(1), rule p(2), rule p(3), rule p(4), rule p(5), rule eq, rule p(7), rule p(8), rule p(9), rule p(10))
qed

text \<open>
  \<open>serving jc c d st pre t\<close>: the place \<open>t\<close> is permitted to a command that was read before, on the share open
  as \<open>d\<close> with identity \<open>st\<close>.
\<close>

definition serving :: "jsonc \<Rightarrow> storage_context \<Rightarrow> fd \<Rightarrow> statx \<Rightarrow> rx_event list \<Rightarrow> fd \<times> string \<Rightarrow> bool" where
  "serving jc c d st pre t \<longleftrightarrow>
     (\<exists>fs command. ctx fs = c \<and> root fs = d \<and> root_stat fs = st \<and> Line (Some command) \<in> set pre \<and> permitted jc fs command pre t)"

lemma serving_extend: "serving jc c d st pre t \<Longrightarrow> serving jc c d st (x @ pre) t"
  unfolding serving_def using permitted_extend by fastforce

lemma servingI:
  assumes "ctx fs = c" "root fs = d" "root_stat fs = st" "permitted jc fs command pre t"
  shows "serving jc c d st (Line (Some command) # pre) t"
  unfolding serving_def using assms(1-3) permitted_extend [OF assms(4), of "[Line (Some command)]"]
  by (intro exI [of _ fs] exI [of _ command]) simp

lemma serving_bind:
  assumes "calm m" "\<And>a. logs (f a) (\<lambda>_ new. guarded (serving jc c d st) new)"
  shows "logs (State_Monad.bind m f) (\<lambda>_ new. guarded (serving jc c d st) new)"
  by (rule logs_bind [OF keeps_logs [OF assms(1)] assms(2)])
     (auto intro: guarded_append guarded_calm guarded_mono serving_extend)

lemma serving_command:
  assumes "ctx_ok (ctx fs)" "ctx fs = c" "root fs = d" "root_stat fs = st"
    and "\<And>r. ctx (snd r) = c \<Longrightarrow> root (snd r) = d \<Longrightarrow> root_stat (snd r) = st \<Longrightarrow> logs (k r) (\<lambda>_ new. guarded (serving jc c d st) new)"
  shows "logs (do { r \<leftarrow> rx_command os jc fs command 4 5 6; k r }) (\<lambda>_ new. guarded (\<lambda>pre. serving jc c d st (Line (Some command) # pre)) new)"
proof (rule logs_bind_given [OF rx_command_logs [OF assms(1)]])
  fix r :: "bool \<times> storage_fs" and n assume "(ctx (snd r) = ctx fs \<and> root (snd r) = root fs \<and> root_stat (snd r) = root_stat fs) \<and> guarded (permitted jc fs command) n"
  then show "logs (k r) (\<lambda>_ new. guarded (serving jc c d st) new)" using assms by blast
next
  fix r :: "bool \<times> storage_fs" and n1 n2
  assume n: "(ctx (snd r) = ctx fs \<and> root (snd r) = root fs \<and> root_stat (snd r) = root_stat fs) \<and> guarded (permitted jc fs command) n1"
    "guarded (serving jc c d st) n2"
  have "guarded (\<lambda>pre. serving jc c d st (Line (Some command) # pre)) n1"
    by (rule guarded_mono [OF n(1) [THEN conjunct2]]) (rule servingI [OF assms(2,3,4)])
  moreover have "guarded (\<lambda>pre. serving jc c d st (Line (Some command) # n1 @ pre)) n2"
    using guarded_mono [OF n(2), OF serving_extend [where x = "Line (Some command) # n1"]] by simp
  ultimately show "guarded (\<lambda>pre. serving jc c d st (Line (Some command) # pre)) (n1 @ n2)"
    by (rule guarded_append)
qed

lemma serve_guarded:
  "ctx_ok c \<Longrightarrow> ctx fs = c \<Longrightarrow> root fs = d \<Longrightarrow> root_stat fs = st \<Longrightarrow>
   logs (serve os jc fuel fs) (\<lambda>_ new. guarded (serving jc c d st) new)"
proof (induction fuel arbitrary: fs)
  case 0
  show ?case by (simp add: guarded_return)
next
  case (Suc fuel)
  have ok: "ctx_ok (ctx fs)" using Suc.prems by simp
  have rest: "logs (do { r \<leftarrow> rx_command os jc fs command 4 5 6;
           if \<not> fst r then State_Monad.return (Some 7)
           else do { ok \<leftarrow> rx_emit os jc 6 (done_json (snd r));
             if \<not> ok then State_Monad.return (Some 7) else serve os jc fuel (snd r) } })
      (\<lambda>_ new. guarded (\<lambda>pre. serving jc c d st (Line (Some command) # pre)) new)" for command
    by (rule serving_command [OF ok Suc.prems(2-4)])
       (intro logs_if guarded_return serving_bind emit_calm Suc.IH Suc.prems(1); assumption)
  have line: "logs (do { command \<leftarrow> rx_read_json os jc 4 RX_COMMAND_MAX True;
         case command of None \<Rightarrow> State_Monad.return (Some 0)
         | Some command \<Rightarrow> do { r \<leftarrow> rx_command os jc fs command 4 5 6;
             if \<not> fst r then State_Monad.return (Some 7)
             else do { ok \<leftarrow> rx_emit os jc 6 (done_json (snd r));
               if \<not> ok then State_Monad.return (Some 7) else serve os jc fuel (snd r) } } })
      (\<lambda>_ new. guarded (serving jc c d st) new)"
  proof (rule logs_bind [OF read_json_logs])
    fix l
    show "logs (case l of None \<Rightarrow> State_Monad.return (Some 0)
         | Some command \<Rightarrow> do { r \<leftarrow> rx_command os jc fs command 4 5 6;
             if \<not> fst r then State_Monad.return (Some 7)
             else do { ok \<leftarrow> rx_emit os jc 6 (done_json (snd r));
               if \<not> ok then State_Monad.return (Some 7) else serve os jc fuel (snd r) } })
      (\<lambda>_ new. guarded (\<lambda>pre. serving jc c d st (Line l # pre)) new)"
      by (rule logs_case_option) (auto intro: guarded_return rest)
  next
    fix l :: "json option" and b :: "int option" and n1 n2
    assume "n1 = [Line l]" "guarded (\<lambda>pre. serving jc c d st (Line l # pre)) n2"
    then show "guarded (serving jc c d st) (n1 @ n2)" using guarded_append [of _ "[Line l]" n2] guarded_calm [of "[Line l]"] by simp
  qed
  show ?case
    unfolding serve.simps by (intro serving_bind parent_alive_calm logs_if guarded_return line)
qed

text \<open>
  The events that act on a file system; the others talk to the controller, set the identity or release a
  descriptor.
\<close>

fun on_share :: "rx_event \<Rightarrow> bool" where
  "on_share (Emit j b) = False"
| "on_share (Line r) = False"
| "on_share (Ppid p) = False"
| "on_share (Write f b) = False"
| "on_share (Id op b) = False"
| "on_share (CapRead n r) = False"
| "on_share (Ids i) = False"
| "on_share (Close f b) = False"
| "on_share (Setup b) = False"
| "on_share e = True"

text \<open>A change of identity has been completed.\<close>

definition identified :: "storage_context \<Rightarrow> bool \<Rightarrow> rx_event list \<Rightarrow> bool" where
  "identified c keep pre \<longleftrightarrow> (\<exists>a seg b. pre = a @ seg @ b \<and> identity_done c keep seg)"

lemma identified_extend: "identified c keep pre \<Longrightarrow> identified c keep (x @ pre)"
  unfolding identified_def by (metis append.assoc)

lemma identity_keeps:
  assumes "\<And>op b. P (Id op b)" "\<And>n r. P (CapRead n r)" "\<And>i. P (Ids i)" "\<And>p. P (Ppid p)"
  shows "keeps P (rx_identity os c keep)"
proof -
  have one: "keeps P (id_call os op)" for op
    unfolding id_call_def by (rule keeps_sys) (rule assms(1))
  have list: "keeps P (id_calls os ops)" for ops
    by (induction ops) (auto intro!: logs_rules one)
  have caps: "keeps P (drop_bounding os keep cap n)" for cap n
    by (induction n arbitrary: cap) (auto intro!: logs_rules one assms)
  show ?thesis
    unfolding rx_identity_def nfs_identity_def
    by (intro logs_rules one list caps parent_alive_keeps assms)
qed

lemma identity_logs:
  "logs (rx_identity os c keep) (\<lambda>ok new. list_all (\<lambda>e. \<not> on_share e \<and> touches e = []) new \<and> (ok \<longrightarrow> identity_done c keep new))"
  by (rule logs_conj [OF keeps_logs [OF identity_keeps] rx_identity_logs]) simp_all

text \<open>After the identity: opening the share, then serving.\<close>

definition opened :: "jsonc \<Rightarrow> storage_context \<Rightarrow> rx_event list \<Rightarrow> fd \<times> string \<Rightarrow> bool" where
  "opened jc c pre t \<longleftrightarrow>
     (\<exists>d st. OpenStorage (Some d) \<in> set pre \<and> Statx d (Some st) \<in> set pre \<and> serving jc c d st pre t)"

lemma opened_extend: "opened jc c pre t \<Longrightarrow> opened jc c (x @ pre) t"
  unfolding opened_def using serving_extend by fastforce

lemma openedI: "serving jc c d st pre t \<Longrightarrow> opened jc c ([OpenStorage (Some d), Statx d (Some st)] @ pre) t"
  using serving_extend [of jc c d st pre t "[OpenStorage (Some d), Statx d (Some st)]"]
  unfolding opened_def by (intro exI [of _ d] exI [of _ st]) simp

lemma fs_open_logs:
  "logs (rx_fs_open os c sq) (\<lambda>r new. list_all (\<lambda>e. touches e = []) new
     \<and> (\<forall>fs. r = Some fs \<longrightarrow> ctx fs = c \<and> new = [OpenStorage (Some (root fs)), Statx (root fs) (Some (root_stat fs))]))"
proof (rule logs_conj [OF keeps_logs])
  show "calm (rx_fs_open os c sq)"
    unfolding rx_fs_open_def by (intro logs_rules stat_fd_calm) simp
  let ?g = "\<lambda>f s. case s of None \<Rightarrow> None | Some st \<Rightarrow> Some \<lparr>ctx = c, root = f, result = 0, root_stat = st, last_count = 0, last_sequence = sq\<rparr>"
  have inner: "logs (do { s \<leftarrow> rx_stat_fd os f; State_Monad.return (?g f s) })
      (\<lambda>r new. \<forall>fs. r = Some fs \<longrightarrow> ctx fs = c \<and> root fs = f \<and> new = [Statx f (Some (root_stat fs))])" for f
    by (rule logs_bind [OF stat_fd_logs logs_return [where R = "\<lambda>r new. r = ?g f a \<and> new = []" for a]])
       (auto split: option.splits)
  show "logs (rx_fs_open os c sq) (\<lambda>r new. \<forall>fs. r = Some fs \<longrightarrow> ctx fs = c
      \<and> new = [OpenStorage (Some (root fs)), Statx (root fs) (Some (root_stat fs))])"
    unfolding rx_fs_open_def
    by (rule logs_opt [where R = "\<lambda>f new. new = [OpenStorage (Some f)]", OF logs_sys inner]) auto
qed

lemma read_bounded_keeps: "keeps P (read_bounded os path limit)"
proof -
  have "keeps P (read_bounded_loop os f limit b)" for f b
  proof (induction os f limit b rule: read_bounded_loop.induct)
    case (1 os f limit b)
    show ?case by (subst read_bounded_loop.simps) (intro logs_rules 1; assumption)
  qed
  then show ?thesis unfolding read_bounded_def by (intro logs_rules)
qed

lemma numeric_address_keeps: "keeps P (numeric_address os host)"
  unfolding numeric_address_def by (intro logs_rules)

lemma mount_info_keeps: "keeps P (rx_mount_info os jc c rt)"
  unfolding rx_mount_info_def check_session_def
  by (intro logs_rules read_bounded_keeps numeric_address_keeps)

lemma main_session_guarded:
  assumes "ctx_ok (ctx fs)"
  shows "logs (main_session os jc fuel fs) (\<lambda>_ new. guarded (serving jc (ctx fs) (root fs) (root_stat fs)) new)"
proof -
  let ?G = "\<lambda>m. logs m (\<lambda>_ new. guarded (serving jc (ctx fs) (root fs) (root_stat fs)) new)"
  have loop: "?G (do { rc \<leftarrow> serve os jc fuel fs; case rc of None \<Rightarrow> State_Monad.return None
      | Some rc \<Rightarrow> do { ok \<leftarrow> sys (Close (root fs)) (sys_close os (root fs)); State_Monad.return (Some (if ok then rc else 7)) } })"
    by (rule guarded_then_calm [OF serve_guarded [OF assms refl refl refl]]) (intro logs_rules close_calm)
  show ?thesis
    unfolding main_session_def
    by (intro serving_bind [OF mount_info_keeps] serving_bind [OF close_calm] serving_bind [OF emit_calm] logs_case_option logs_if
        guarded_return loop)
qed

lemma serve_ordered:
  assumes "ctx_ok c"
  shows "logs (do { r \<leftarrow> rx_fs_open os c sq; case r of None \<Rightarrow> State_Monad.return (Some 5) | Some fs \<Rightarrow> main_session os jc fuel fs })
     (\<lambda>_ new. guarded (opened jc c) new)"
proof (rule logs_bind_given [OF fs_open_logs])
  fix r :: "storage_fs option" and n
  assume "list_all (\<lambda>e. touches e = []) n
     \<and> (\<forall>fs. r = Some fs \<longrightarrow> ctx fs = c \<and> n = [OpenStorage (Some (root fs)), Statx (root fs) (Some (root_stat fs))])"
  then have c: "r = Some fs \<Longrightarrow> ctx fs = c" for fs by blast
  show "logs (case r of None \<Rightarrow> State_Monad.return (Some 5) | Some fs \<Rightarrow> main_session os jc fuel fs)
     (\<lambda>_ new. (r = None \<and> new = []) \<or> (\<exists>fs. r = Some fs \<and> guarded (serving jc c (root fs) (root_stat fs)) new))"
    by (rule logs_case_option) (use c assms in \<open>auto intro: logs_return logs_weaken [OF main_session_guarded]\<close>)
next
  fix r :: "storage_fs option" and n1 n2
  assume n1: "list_all (\<lambda>e. touches e = []) n1
     \<and> (\<forall>fs. r = Some fs \<longrightarrow> ctx fs = c \<and> n1 = [OpenStorage (Some (root fs)), Statx (root fs) (Some (root_stat fs))])"
    and "(r = None \<and> n2 = []) \<or> (\<exists>fs. r = Some fs \<and> guarded (serving jc c (root fs) (root_stat fs)) n2)"
  then consider "n2 = []" | fs where "r = Some fs" "guarded (serving jc c (root fs) (root_stat fs)) n2" by blast
  then show "guarded (opened jc c) (n1 @ n2)"
  proof cases
    case 2
    have "guarded (\<lambda>pre. opened jc c (n1 @ pre)) n2"
      by (rule guarded_mono [OF 2(2)]) (use n1 2(1) openedI in simp)
    then show ?thesis using n1 by (simp add: guarded_append guarded_calm)
  qed (use n1 in \<open>simp add: guarded_calm\<close>)
qed

section \<open>The order of a run\<close>

lemma ordered_identity:
  assumes "logs k (\<lambda>_ new. ordered B new)"
    and "\<And>n1 pre e. identity_done c keep n1 \<Longrightarrow> B pre e \<Longrightarrow> on_share e \<Longrightarrow> A (n1 @ pre) e"
  shows "logs (do { ok \<leftarrow> rx_identity os c keep; if \<not> ok then State_Monad.return x else k })
     (\<lambda>_ new. ordered (\<lambda>pre e. on_share e \<longrightarrow> A pre e) new)"
proof (rule logs_bind [OF identity_logs])
  fix ok
  show "logs (if \<not> ok then State_Monad.return x else k) (\<lambda>_ new. new = [] \<or> ok \<and> ordered B new)"
    by (rule logs_if) (auto intro: logs_return logs_weaken [OF assms(1)])
next
  fix ok n1 n2
  assume n: "list_all (\<lambda>e. \<not> on_share e \<and> touches e = []) n1 \<and> (ok \<longrightarrow> identity_done c keep n1)" "n2 = [] \<or> ok \<and> ordered B n2"
  have o1: "ordered (\<lambda>pre e. on_share e \<longrightarrow> A pre e) n1"
    by (rule ordered_all [OF n(1) [THEN conjunct1]]) simp
  have "ordered (\<lambda>pre e. on_share e \<longrightarrow> A (n1 @ pre) e) n2"
    using n(2)
  proof
    assume "ok \<and> ordered B n2"
    then show ?thesis using n(1) assms(2) by (blast intro: ordered_mono)
  qed simp
  with o1 show "ordered (\<lambda>pre e. on_share e \<longrightarrow> A pre e) (n1 @ n2)" by (rule ordered_append)
qed

lemma identified_here: "identity_done c keep n1 \<Longrightarrow> identified c keep (n1 @ pre)"
  unfolding identified_def by (intro exI [of _ "[]"] exI [of _ n1] exI [of _ pre]) simp

lemma logs_silent_bind:
  assumes "keeps (\<lambda>_. False) m" "\<And>a. logs (f a) R"
  shows "logs (State_Monad.bind m f) R"
  by (rule logs_bind [OF keeps_logs [OF assms(1)] assms(2)]) (auto simp: list_all_iff)

lemma ordered_return: "logs (State_Monad.return x) (\<lambda>_ new. ordered A new)"
  by (rule logs_return) simp

lemma is_fifo_keeps: "keeps P (is_fifo os f)"
  unfolding is_fifo_def by (intro logs_rules)

lemma main_serve_ordered:
  assumes "ctx_ok c"
  shows "logs (main_serve os jc fuel c)
     (\<lambda>_ new. ordered (\<lambda>pre e. on_share e \<longrightarrow> identified c False pre \<and> (\<forall>t\<in>set (touches e). opened jc c pre t)) new)"
proof -
  let ?A = "\<lambda>pre e. identified c False pre \<and> (\<forall>t\<in>set (touches e). opened jc c pre t)"
  have core: "logs (do { ok \<leftarrow> rx_identity os c False;
       if \<not> ok then State_Monad.return (Some 4)
       else do { r \<leftarrow> rx_fs_open os c (sequence c); case r of None \<Rightarrow> State_Monad.return (Some 5) | Some fs \<Rightarrow> main_session os jc fuel fs } })
     (\<lambda>_ new. ordered (\<lambda>pre e. on_share e \<longrightarrow> ?A pre e) new)"
    by (rule ordered_identity [OF serve_ordered [OF assms, unfolded guarded_def]])
       (auto intro: identified_here opened_extend)
  show ?thesis
    unfolding main_serve_def
    by (intro logs_silent_bind keeps_branch is_fifo_keeps keeps_return logs_if ordered_return core)
qed

text \<open>A mount of the share of the task on \<open>/storage\<close>, read-only unless the task may write.\<close>

definition mount_right :: "storage_context \<Rightarrow> rx_event \<Rightarrow> bool" where
  "mount_right c e \<longleftrightarrow> protocol c = ''nfs'' \<and>
     (\<exists>source addr v r. source_nfs c = Some source \<and> (version c = ''auto'' \<or> version c = v)
        \<and> e = Mount source ''/storage'' (if v = ''3'' then ''nfs'' else ''nfs4'') (mount_options c addr v) (\<not> data_write c) r)"

lemma mount_loop_keeps:
  assumes "protocol c = ''nfs''" "source_nfs c = Some source"
  shows "keeps (\<lambda>e. on_share e \<longrightarrow> mount_right c e) (mount_loop os c source addr vs er)"
proof (induction vs arbitrary: er)
  case (Cons v vs)
  have right: "mount_right c (Mount source ''/storage'' (if v = ''3'' then ''nfs'' else ''nfs4'') (mount_options c addr v) (\<not> data_write c) r)"
    if "version c = ''auto'' \<or> version c = v" for r
    unfolding mount_right_def using assms that by blast
  show ?case
    unfolding mount_loop.simps Let_def
    by (intro logs_rules parent_alive_keeps Cons.IH impI right) auto
qed (simp add: logs_rules)

lemma mount_nfs_ordered:
  "logs (rx_mount_nfs os jc c res) (\<lambda>_ new. ordered (\<lambda>pre e. on_share e \<longrightarrow> identified c True pre \<and> mount_right c e) new)"
proof -
  let ?rest = "\<lambda>source addr. do {
      e \<leftarrow> mount_loop os c source addr [''4.2'', ''4.1'', ''4.0'', ''3''] EPROTONOSUPPORT;
      cleared \<leftarrow> rx_clear_capabilities os;
      rc \<leftarrow> (if \<not> cleared then State_Monad.return False
             else rx_emit os jc res (JObject [(''event'', JString ''mount''),
               (''errno'', JInt (case e of None \<Rightarrow> 0 | Some e \<Rightarrow> errno_value e)), (''mounted'', JBool (e = None))]));
      State_Monad.return (rc \<and> e = None) }"
  have rest: "logs (?rest source addr) (\<lambda>_ new. ordered (\<lambda>pre e. on_share e \<longrightarrow> mount_right c e) new)"
    if "protocol c = ''nfs''" "source_nfs c = Some source" for source addr
  proof -
    have "keeps (\<lambda>e. on_share e \<longrightarrow> mount_right c e) (?rest source addr)"
      unfolding rx_clear_capabilities_def id_call_def
      by (intro logs_rules mount_loop_keeps that emit_keeps) simp_all
    from keeps_logs [OF this] show ?thesis by (rule logs_weaken) (auto intro: ordered_all)
  qed
  show ?thesis
    unfolding rx_mount_nfs_def
    by (intro logs_if ordered_return logs_silent_bind numeric_address_keeps logs_case_prod logs_case_option
        ordered_identity [OF rest] conjI identified_here) auto
qed

lemma main_mount_ordered:
  "logs (main_mount os jc c) (\<lambda>_ new. ordered (\<lambda>pre e. on_share e \<longrightarrow> identified c True pre \<and> mount_right c e) new)"
proof -
  have tail: "keeps (\<lambda>e. \<not> on_share e) (do { clear \<leftarrow> rx_clear_capabilities os; keep \<leftarrow> id_call os (KeepCaps False);
      State_Monad.return (if rc \<and> clear \<and> keep then 0 else 4) })" for rc
    unfolding rx_clear_capabilities_def id_call_def by (intro logs_rules) simp_all
  show ?thesis
    unfolding main_mount_def
    by (rule logs_bind [OF mount_nfs_ordered keeps_logs [OF tail]]) (auto intro: ordered_append ordered_all)
qed

lemma main_resolve_keeps: "keeps (\<lambda>e. \<not> on_share e) (main_resolve os jc c)"
  unfolding main_resolve_def rx_resolve_server_def by (intro logs_rules numeric_address_keeps emit_keeps) simp_all

lemma load_context_logs:
  "logs (rx_load_context os jc f) (\<lambda>r new. \<forall>c. r = Some c \<longrightarrow> (\<exists>j. new = [Line (Some j)] \<and> load_context j (parent c) = Some c))"
proof -
  have inner: "logs (do { j \<leftarrow> rx_read_json os jc f n False; State_Monad.return (case j of None \<Rightarrow> None | Some j \<Rightarrow> load_context j ppid) })
      (\<lambda>r new. \<forall>c. r = Some c \<longrightarrow> (\<exists>j. new = [Line (Some j)] \<and> load_context j (parent c) = Some c))" for n ppid
    by (rule logs_bind [OF read_json_logs logs_return [where R = "\<lambda>r new. r = (case j of None \<Rightarrow> None | Some j \<Rightarrow> load_context j ppid) \<and> new = []" for j]])
       (auto simp: load_context_ok split: option.splits)
  show ?thesis
    unfolding rx_load_context_def
    by (intro logs_silent_bind [OF keeps_quiet] logs_case_option logs_none logs_if inner)
qed

lemma load_context_keeps: "keeps (\<lambda>e. \<not> on_share e) (rx_load_context os jc f)"
  unfolding rx_load_context_def by (intro logs_rules read_json_keeps) simp

lemma fd_contract_keeps: "keeps P (rx_fd_contract os request data res)"
proof -
  have "keeps P (fd_contract_from os request data res fds)" for fds
    by (induction fds) (auto intro!: logs_rules split: option.splits)
  then show ?thesis unfolding rx_fd_contract_def .
qed

lemma main_setup_logs:
  "logs (main_setup os jc mode) (\<lambda>r new. list_all (\<lambda>e. \<not> on_share e) new
     \<and> (\<forall>c. r = Some c \<longrightarrow> (\<exists>j. Line (Some j) \<in> set new \<and> load_context j (parent c) = Some c)))"
proof (rule logs_conj [OF keeps_logs])
  show "keeps (\<lambda>e. \<not> on_share e) (main_setup os jc mode)"
    unfolding main_setup_def by (intro logs_rules load_context_keeps fd_contract_keeps is_fifo_keeps) simp
  let ?k = "\<lambda>c. do {
         ok \<leftarrow> (if mode = Serve then rx_fd_contract os 4 5 6 else State_Monad.return True);
         if \<not> ok then State_Monad.return None
         else do {
           pipe \<leftarrow> is_fifo os 6;
           if \<not> pipe then State_Monad.return None
           else do {
             quiet (sys_close os 3);
             (if mode \<noteq> Serve then do { quiet (sys_close os 4); quiet (sys_close os 5) } else State_Monad.return True);
             ok \<leftarrow> sys Setup (sys_setup os);
             State_Monad.return (if ok then Some c else None)
           }
         }
       }"
  have "logs (?k c) (\<lambda>r _. \<forall>c'. r = Some c' \<longrightarrow> c' = c)" for c
    by (intro logs_silent_bind keeps_branch keeps_bind keeps_return keeps_quiet fd_contract_keeps is_fifo_keeps logs_if logs_none
        logs_bind [OF logs_sys [where R = "\<lambda>_ _. True"] logs_return [where R = "\<lambda>r _. \<forall>c'. r = Some c' \<longrightarrow> c' = c"]]) auto
  then show "logs (main_setup os jc mode) (\<lambda>r new. \<forall>c. r = Some c \<longrightarrow> (\<exists>j. Line (Some j) \<in> set new \<and> load_context j (parent c) = Some c))"
    unfolding main_setup_def
    by (rule logs_opt [OF load_context_logs]) auto
qed

text \<open>
  What must come before an event that acts on a file system, in the mode chosen: the identity of the task has been taken on;
  then it is a mount of the share of the task (the one capability for it kept), or it comes while
  commands are served, no capability kept, and whatever it changes is permitted to a command that was read.
\<close>

definition in_mode :: "jsonc \<Rightarrow> run_mode \<Rightarrow> storage_context \<Rightarrow> rx_event list \<Rightarrow> rx_event \<Rightarrow> bool" where
  "in_mode jc mode c pre e \<longleftrightarrow> identified c (mode = MountNfs) pre
     \<and> (if mode = MountNfs then mount_right c e else mode = Serve \<and> (\<forall>t\<in>set (touches e). opened jc c pre t))"

lemma in_mode_extend: "in_mode jc mode c pre e \<Longrightarrow> in_mode jc mode c (x @ pre) e"
  by (auto simp: in_mode_def intro: identified_extend opened_extend split: if_splits)

text \<open>The task was read from the controller and is well formed, and the event is in order for it.\<close>

definition admitted :: "jsonc \<Rightarrow> string list \<Rightarrow> rx_event list \<Rightarrow> rx_event \<Rightarrow> bool" where
  "admitted jc argv pre e \<longleftrightarrow>
     (\<exists>mode c j. command_line argv = Some mode \<and> Line (Some j) \<in> set pre \<and> load_context j (parent c) = Some c \<and> in_mode jc mode c pre e)"

lemma mode_ordered:
  assumes "ctx_ok c"
  shows "logs (case mode of
       Resolve \<Rightarrow> do { rc \<leftarrow> main_resolve os jc c; State_Monad.return (Some rc) }
     | MountNfs \<Rightarrow> do { rc \<leftarrow> main_mount os jc c; State_Monad.return (Some rc) }
     | Serve \<Rightarrow> main_serve os jc fuel c)
   (\<lambda>_ new. ordered (\<lambda>pre e. on_share e \<longrightarrow> in_mode jc mode c pre e) new)"
proof -
  have last: "logs (do { rc \<leftarrow> m; State_Monad.return (Some rc) }) (\<lambda>_ new. ordered A new)" if "logs m (\<lambda>_ new. ordered A new)"
    for m :: "('a, int) rxm" and A
    by (rule logs_bind [OF that logs_return [where R = "\<lambda>_ new. new = []"]]) simp_all
  have none: "logs (main_resolve os jc c) (\<lambda>_ new. ordered (\<lambda>pre e. \<not> on_share e) new)"
    by (rule logs_weaken [OF keeps_logs [OF main_resolve_keeps]]) (auto intro: ordered_all)
  show ?thesis
  proof (cases mode)
    case Serve
    then show ?thesis using main_serve_ordered [OF assms] by (simp add: in_mode_def)
  next
    case MountNfs
    then show ?thesis using last [OF main_mount_ordered] by (simp add: in_mode_def)
  next
    case Resolve
    then show ?thesis using last [OF none] by (simp add: in_mode_def)
  qed
qed

lemma helper_main_ordered: "logs (helper_main os jc fuel argv) (\<lambda>_ new. ordered (\<lambda>pre e. on_share e \<longrightarrow> admitted jc argv pre e) new)"
proof (cases "argv = [''--capabilities''] \<or> command_line argv = None")
  case True
  have "keeps (\<lambda>e. \<not> on_share e) (helper_main os jc fuel argv)"
    using True unfolding helper_main_def by (auto intro!: logs_rules write_all_keeps)
  from keeps_logs [OF this] show ?thesis by (rule logs_weaken) (auto intro: ordered_all)
next
  case False
  then obtain mode where mode: "command_line argv = Some mode" and argv: "argv \<noteq> [''--capabilities'']" by auto
  let ?B = "\<lambda>c pre e. on_share e \<longrightarrow> in_mode jc mode c pre e"
  have "logs (do { r \<leftarrow> main_setup os jc mode;
          case r of
            None \<Rightarrow> State_Monad.return (Some 3)
          | Some c \<Rightarrow>
              (case mode of
                 Resolve \<Rightarrow> do { rc \<leftarrow> main_resolve os jc c; State_Monad.return (Some rc) }
               | MountNfs \<Rightarrow> do { rc \<leftarrow> main_mount os jc c; State_Monad.return (Some rc) }
               | Serve \<Rightarrow> main_serve os jc fuel c) })
     (\<lambda>_ new. ordered (\<lambda>pre e. on_share e \<longrightarrow> admitted jc argv pre e) new)"
  proof (rule logs_bind_given [OF main_setup_logs])
    fix r :: "storage_context option" and n1
    assume "list_all (\<lambda>e. \<not> on_share e) n1
       \<and> (\<forall>c. r = Some c \<longrightarrow> (\<exists>j. Line (Some j) \<in> set n1 \<and> load_context j (parent c) = Some c))"
    then have ok: "r = Some c \<Longrightarrow> ctx_ok c" for c using load_context_ok by blast
    show "logs (case r of
            None \<Rightarrow> State_Monad.return (Some 3)
          | Some c \<Rightarrow>
              (case mode of
                 Resolve \<Rightarrow> do { rc \<leftarrow> main_resolve os jc c; State_Monad.return (Some rc) }
               | MountNfs \<Rightarrow> do { rc \<leftarrow> main_mount os jc c; State_Monad.return (Some rc) }
               | Serve \<Rightarrow> main_serve os jc fuel c))
       (\<lambda>_ new. new = [] \<or> (\<exists>c. r = Some c \<and> ordered (?B c) new))"
      by (rule logs_case_option, rule logs_return, simp, rule logs_weaken [OF mode_ordered [OF ok]], assumption, blast)
  next
    fix r :: "storage_context option" and n1 n2
    assume n1: "list_all (\<lambda>e. \<not> on_share e) n1
       \<and> (\<forall>c. r = Some c \<longrightarrow> (\<exists>j. Line (Some j) \<in> set n1 \<and> load_context j (parent c) = Some c))"
      and n2: "n2 = [] \<or> (\<exists>c. r = Some c \<and> ordered (?B c) n2)"
    have "ordered (\<lambda>pre e. on_share e \<longrightarrow> admitted jc argv (n1 @ pre) e) n2"
      using n2
    proof
      assume "\<exists>c. r = Some c \<and> ordered (?B c) n2"
      then obtain c j where c: "ordered (?B c) n2" and j: "Line (Some j) \<in> set n1" "load_context j (parent c) = Some c"
        using n1 by blast
      show ?thesis
        by (rule ordered_mono [OF c], unfold admitted_def, intro impI exI [of _ mode] exI [of _ c] exI [of _ j])
           (simp add: mode j in_mode_extend)
    qed simp
    moreover have "ordered (\<lambda>pre e. on_share e \<longrightarrow> admitted jc argv pre e) n1"
      by (rule ordered_all [OF n1 [THEN conjunct1]]) simp
    ultimately show "ordered (\<lambda>pre e. on_share e \<longrightarrow> admitted jc argv pre e) (n1 @ n2)"
      by (simp add: ordered_append)
  qed
  then show ?thesis using mode argv by (simp add: helper_main_def)
qed

section \<open>The program returns\<close>

text \<open>
  Every command served takes at least two of the 64-bit sequence numbers, and none is taken twice: the loop
  serves less than 2 ^ 63 commands, whatever the controller sends.
\<close>

lemma serve_step:
  assumes "run_state (serve os jc (Suc n) fs) s = (None, s')"
  obtains command s1 fs1 s2 s3 where "run_state (rx_command os jc fs command 4 5 6) s1 = ((True, fs1), s2)"
    and "run_state (serve os jc n fs1) s3 = (None, s')"
  using assms by (auto split: prod.splits if_splits option.splits)

lemma serve_bound: "run_state (serve os jc n fs) s = (None, s') \<Longrightarrow> unat (last_sequence fs) + 2 * n < 2 ^ 64"
proof (induction n arbitrary: fs s)
  case 0
  then show ?case using unsigned_less [of "last_sequence fs"] by simp
next
  case (Suc n)
  obtain command s1 fs1 s2 s3 where c: "run_state (rx_command os jc fs command 4 5 6) s1 = ((True, fs1), s2)"
    and n: "run_state (serve os jc n fs1) s3 = (None, s')"
    by (rule serve_step [OF Suc.prems])
  have "unat (last_sequence fs) + 2 \<le> unat (last_sequence fs1)"
    using rx_command_sequence [OF c] by (auto split: if_splits)
  with Suc.IH [OF n] show ?case by simp
qed

lemma serve_returns:
  assumes "2 ^ 63 \<le> n"
  obtains rc where "fst (run_state (serve os jc n fs) s) = Some rc"
proof (cases "run_state (serve os jc n fs) s")
  case (Pair r s')
  have "r \<noteq> None" using serve_bound [of os jc n fs s s'] Pair assms by auto
  then show ?thesis using Pair that by auto
qed

lemma serve_status: "fst (run_state (serve os jc n fs) s) = Some rc \<Longrightarrow> rc = 0 \<or> rc = 7"
  by (induction n arbitrary: fs s) (auto split: prod.splits if_splits option.splits)

lemma main_session_returns:
  assumes "2 ^ 63 \<le> n"
  shows "\<exists>rc\<in>{0, 5, 6, 7}. fst (run_state (main_session os jc n fs) s) = Some rc"
proof -
  have "\<exists>rc\<in>{0, 7}. fst (run_state (serve os jc n fs) t) = Some rc" for t
    using serve_returns [OF assms, of os jc fs t] serve_status [of os jc n fs t] by (metis insertI1 insertI2)
  then show ?thesis
    unfolding main_session_def
    by (auto split: prod.splits if_splits option.splits) (metis fst_conv option.distinct(1) option.inject)+
qed

lemma serve_more: "fst (run_state (serve os jc n fs) s) = Some rc \<Longrightarrow> run_state (serve os jc (n + k) fs) s = run_state (serve os jc n fs) s"
proof (induction n arbitrary: fs s)
  case (Suc n)
  from Suc.prems show ?case by (auto split: prod.splits if_splits option.splits simp: Suc.IH)
qed simp

definition command_limit :: nat where "command_limit = 2 ^ 63"

lemma command_limit_le: "2 ^ 63 \<le> command_limit"
  by (simp add: command_limit_def)

lemma main_session_more:
  "run_state (main_session os jc (command_limit + k) fs) s = run_state (main_session os jc command_limit fs) s"
proof -
  have "run_state (serve os jc (command_limit + k) fs) t = run_state (serve os jc command_limit fs) t" for t
  proof -
    obtain rc where "fst (run_state (serve os jc command_limit fs) t) = Some rc" using serve_returns [OF command_limit_le] .
    then show ?thesis by (rule serve_more)
  qed
  then show ?thesis unfolding main_session_def by (auto split: prod.splits option.splits)
qed

lemma main_serve_more: "run_state (main_serve os jc (command_limit + k) c) s = run_state (main_serve os jc command_limit c) s"
  unfolding main_serve_def by (auto split: prod.splits option.splits simp: main_session_more)

lemma main_serve_returns: "\<exists>rc\<in>{0..7}. fst (run_state (main_serve os jc command_limit c) s) = Some rc"
proof -
  have "\<exists>rc\<in>{0..7}. fst (run_state (main_session os jc command_limit fs) t) = Some rc" for fs t
    using main_session_returns [OF command_limit_le, of os jc fs t] by auto
  then show ?thesis unfolding main_serve_def by (auto split: prod.splits option.splits)
qed

lemma main_status:
  "fst (run_state (main_resolve os jc c) s) \<in> {0, 4}" "fst (run_state (main_mount os jc c) s) \<in> {0, 4}"
  unfolding main_resolve_def main_mount_def by (auto split: prod.splits option.splits)

text \<open>Property C15. The program ends with an exit status from 0 to 7 for every command line, whatever the kernel
  answers and the controller sends (provided the calls return): the loop over the commands is
  bounded by the sequence numbers, so that more than 2 ^ 63 units of fuel make no difference.\<close>

theorem helper_main_returns:
  "(\<exists>rc\<in>{0..7}. fst (run_state (helper_main os jc command_limit argv) s) = Some rc)
   \<and> run_state (helper_main os jc (command_limit + k) argv) s = run_state (helper_main os jc command_limit argv) s"
  (is "?R \<and> ?M")
proof
  have st: "fst (run_state (main_resolve os jc c) t) \<in> {0..7}" "fst (run_state (main_mount os jc c) t) \<in> {0..7}" for c t
    using main_status [of os jc c t] by auto
  have mode: "\<exists>rc\<in>{0..7}. fst (run_state (case mode of
       Resolve \<Rightarrow> do { rc \<leftarrow> main_resolve os jc c; State_Monad.return (Some rc) }
     | MountNfs \<Rightarrow> do { rc \<leftarrow> main_mount os jc c; State_Monad.return (Some rc) }
     | Serve \<Rightarrow> main_serve os jc command_limit c) t) = Some rc" for mode c t
    using main_serve_returns [of os jc c t] st [of c t] by (cases mode) (auto split: prod.splits)
  show ?R
    unfolding helper_main_def by (auto split: prod.splits option.splits simp: mode)
  show ?M
    unfolding helper_main_def by (auto simp: main_serve_more split: prod.splits option.splits run_mode.splits)
qed

section \<open>An example: mounting the share\<close>

definition mount_os :: "string rx_os" where
  "mount_os = demo_os\<lparr>sys_fstat := (\<lambda>f w. (Some \<lparr>st_mode = if f = 3 then 0x8180 else 0x1180, st_uid = 0\<rparr>, w)),
     sys_fstatfs := (\<lambda>f w. (Some 0x01021994, w)),
     sys_ids := (\<lambda>w. (Some \<lparr>ruid = 1000, euid = 1000, suid = 1000, rgid = 1001, egid = 1001, sgid = 1001,
       fsuid = 1000, fsgid = 1001, groups = [1001]\<rparr>, w)),
     sys_resolve := (\<lambda>n w. (Some ''10.0.0.1'', w))\<rparr>"

definition mount_jc :: jsonc where
  "mount_jc = demo_jc\<lparr>json_parse := (\<lambda>s. Some demo_task)\<rparr>"

definition mount_argv :: "string list" where
  "mount_argv = [''--mount-nfs'', ''--context-fd'', ''3'', ''--result-fd'', ''6'']"

lemma mount_sel [simp]:
  "sys_getppid mount_os w = (42, w)" "sys_close mount_os f w = (True, w)" "sys_write mount_os f d w = Ret (Some (length d)) w"
  "sys_read mount_os f k (c # cs) = Ret (Some [c]) cs" "sys_read mount_os f k [] = Ret (Some []) []"
  "sys_fstat mount_os f w = (Some \<lparr>st_mode = if f = 3 then 0x8180 else 0x1180, st_uid = 0\<rparr>, w)"
  "sys_fstatfs mount_os f w = (Some 0x01021994, w)" "sys_id mount_os op w = (True, w)" "sys_setup mount_os w = (True, w)"
  "sys_capbset_read mount_os n w = (Inl EINVAL, w)" "sys_resolve mount_os h w = (Some ''10.0.0.1'', w)"
  "sys_mount mount_os a b t opts ro w = (None, w)"
  "sys_ids mount_os w = (Some \<lparr>ruid = 1000, euid = 1000, suid = 1000, rgid = 1001, egid = 1001, sgid = 1001,
       fsuid = 1000, fsgid = 1001, groups = [1001]\<rparr>, w)"
  by (simp_all add: mount_os_def demo_os_def plain_os_def)

lemma mount_argv_mode: "command_line mount_argv = Some MountNfs"
  by code_simp

lemma mount_load:
  "run_state (rx_load_context mount_os mount_jc 3) \<lparr>world = ''T'', trace = []\<rparr> = (Some demo_ctx, \<lparr>world = [], trace = [Line (Some demo_task)]\<rparr>)"
proof -
  have g: "run_state (rx_read_loop mount_os 3 False (Suc (Suc k)) []) \<lparr>world = ''T'', trace = []\<rparr> = (Some ''T'', \<lparr>world = [], trace = []\<rparr>)" for k
    by (simp add: quiet_def)
  have n: "RX_COMMAND_MAX = Suc (Suc 16382)" by (simp add: RX_COMMAND_MAX_def)
  have r: "run_state (rx_read_loop mount_os 3 False RX_COMMAND_MAX []) \<lparr>world = ''T'', trace = []\<rparr> = (Some ''T'', \<lparr>world = [], trace = []\<rparr>)"
    unfolding n by (rule g)
  have m: "S_ISREG 0x8180" "(0x8180 :: u32) AND 0x3F = 0" by code_simp+
  have o: "is_object demo_task" by (simp add: is_object_def demo_task_def)
  show ?thesis
    by (simp add: rx_load_context_def quiet_def rx_read_json_def r m o NFS_SUPER_MAGIC_def CIFS_SUPER_MAGIC_def mount_jc_def note_ev_def load_demo Let_def)
qed

lemma mount_setup:
  "run_state (main_setup mount_os mount_jc MountNfs) \<lparr>world = ''T'', trace = []\<rparr> = (Some demo_ctx, \<lparr>world = [], trace = [Line (Some demo_task), Setup True]\<rparr>)"
proof -
  have m: "S_ISFIFO 0x1180" by code_simp
  show ?thesis by (simp add: main_setup_def mount_load is_fifo_def m quiet_def run_sys)
qed

definition mount_seg :: "rx_event list" where
  "mount_seg = [Id AmbientClear True, CapRead 0 (Inl EINVAL), Id (KeepCaps True) True, Id (SetGroups 1001) True, Id (SetResGid 1001) True,
     Id (SetResUid 1000) True, Ids (Some \<lparr>ruid = 1000, euid = 1000, suid = 1000, rgid = 1001, egid = 1001, sgid = 1001,
       fsuid = 1000, fsgid = 1001, groups = [1001]\<rparr>), Id (CapSet True) True, Id NoNewPrivs True, Id PDeathSig True, Ppid 42]"

definition mount_event :: rx_event where
  "mount_event = Mount ''nas:/images'' ''/storage'' ''nfs4'' ''addr=10.0.0.1,port=2050,proto=tcp,sec=sys,vers=4.1'' False None"

lemma mount_identity: "run_state (rx_identity mount_os demo_ctx True) s = (True, s\<lparr>trace := trace s @ mount_seg\<rparr>)"
  by (simp add: rx_identity_def id_call_def run_sys numeral_eq_Suc nfs_identity_def rx_parent_alive_def ids_match_def demo_ctx_def mount_seg_def)

lemma mount_emit:
  "run_state (rx_emit mount_os mount_jc f j) s = (True, s\<lparr>trace := trace s @ [Write f ''E'', Write f [CHR 0x0A], Emit j True]\<rparr>)"
proof -
  have w: "run_state (rx_write_all mount_os f d) t = (True, t\<lparr>trace := trace t @ [Write f d]\<rparr>)" if "d \<noteq> []" for d t
    using that by (subst rx_write_all.simps) (simp add: run_sys rx_write_all.simps)
  show ?thesis by (simp add: rx_emit_def w note_ev_def RX_RESULT_MAX_def mount_jc_def)
qed

lemma mount_run:
  "\<exists>new. run_state (helper_main mount_os mount_jc 0 mount_argv) \<lparr>world = ''T'', trace = []\<rparr>
     = (Some 0, \<lparr>world = [], trace = [Line (Some demo_task), Setup True] @ mount_seg @ [Ppid 42, mount_event] @ new\<rparr>)"
proof -
  have a: "numeric_address mount_os ''nas'' = quiet (sys_resolve mount_os ''nas'')" by (simp add: numeric_address_def)
  have s: "source_nfs demo_ctx = Some ''nas:/images''" by code_simp
  have o: "mount_options demo_ctx ''10.0.0.1'' ''4.1'' = ''addr=10.0.0.1,port=2050,proto=tcp,sec=sys,vers=4.1''" by code_simp
  have d: "server demo_ctx = ''nas''" "protocol demo_ctx = ''nfs''" "version demo_ctx = ''4.1''" "data_write demo_ctx" "parent demo_ctx = 42"
    by (simp_all add: demo_ctx_def)
  have argv: "mount_argv \<noteq> [''--capabilities'']" by (simp add: mount_argv_def)
  show ?thesis
    by (simp add: helper_main_def argv mount_argv_mode mount_setup main_mount_def rx_mount_nfs_def a s d quiet_def mount_identity run_sys
        rx_parent_alive_def o rx_clear_capabilities_def id_call_def mount_event_def mount_emit Let_def)
qed

text \<open>Property C9. The program acts on a file system only for the task and under its identity, for every command
  line, kernel and controller: before the first event that opens, reads, changes or mounts anything, the task was
  read and accepted, and every step of the change of identity has succeeded (ambient and bounding
  capabilities dropped, for NFS the groups, group and user ids set and read back, capabilities cleared,
  \<open>no_new_privs\<close>, death signal, parent still there).  With \<open>--mount-nfs\<close>, where the one
  capability is kept, the only such event is a mount of the share of the task on \<open>/storage\<close>, read-only unless the
  task writes; with \<open>--resolve\<close> there is none; otherwise whatever an event changes is permitted to a
  command read before it, in the sense of \<open>permitted\<close>, on the share as opened.\<close>

theorem helper_main_identity_first:
  "\<exists>new. trace (snd (run_state (helper_main os jc fuel argv) s)) = trace s @ new
     \<and> ordered (\<lambda>pre e. on_share e \<longrightarrow> admitted jc argv pre e) new"
  using helper_main_ordered [of os jc fuel argv] unfolding logs_def by blast

theorem helper_main_identity_first_witness:
  "(\<exists>pre. admitted mount_jc mount_argv pre mount_event)
   \<and> mount_event \<in> set (trace (snd (run_state (helper_main mount_os mount_jc 0 mount_argv) \<lparr>world = ''T'', trace = []\<rparr>)))"
proof -
  obtain new where n: "ordered (\<lambda>pre e. on_share e \<longrightarrow> admitted mount_jc mount_argv pre e)
      (([Line (Some demo_task), Setup True] @ mount_seg @ [Ppid 42]) @ mount_event # new)"
    and e: "mount_event \<in> set (trace (snd (run_state (helper_main mount_os mount_jc 0 mount_argv) \<lparr>world = ''T'', trace = []\<rparr>)))"
    using helper_main_identity_first [of mount_os mount_jc 0 mount_argv "\<lparr>world = ''T'', trace = []\<rparr>"] mount_run by auto
  from orderedD [OF n refl] e show ?thesis by (auto simp: mount_event_def)
qed

end
