(* ===== verification/Spec2Isabelle.thy ===== *)
theory Spec2Isabelle
  imports FatGrow Hostname HwCtl RxFilter Adapter Firmware Eeprom Fiber LinkCfg StorageMain
begin

text \<open>
  PXEOS is a network-booted maintenance system: a Buildroot image with a Linux kernel, a few C programs
  that work on the disks and the image store, and Realtek's out-of-tree Ethernet drivers under
  \<open>src/KernelPackages\<close>.  The programs are started by shell scripts and do not call each other; they share
  the disk, the image store and the network.  This development models the C code that PXEOS has of its
  own, completely, and of the four Realtek drivers (which are variants of one text) the one for the r8125.

  \<^bold>\<open>The programs and the theories that model them\<close>

  \<^item> \<open>FatGrow\<close>: \<open>Buildroot/package/pxeos/src/pxeosfatgrow.c\<close>, which grows a FAT file system to its
    partition.  libparted, sysfs and the mount table are the record \<open>parted\<close>; a call is a tree of
    exceptions and answers (\<open>ped_call\<close>), the state has the handles the program owns and the trace of its
    calls.  \<open>run\<close> is \<open>main\<close>'s worker with its goto ladder (\<open>run_cleanup\<close>).  The trace of a run is cut into
    phases (\<open>opened\<close>, \<open>grow_checked\<close>, \<open>resized_ok\<close>, \<open>restored_ok\<close>, \<open>verified_ok\<close>), each the exact
    calls and answers of one part of the program.  Shown: nothing is resized or
    written before all refusals have been passed; exit status 0 means all phases in order, or a file system that already
    filled the device; the exact bytes of the merged boot
    sector, and that exactly the boot sectors change; every handle is released once on every path, and an opened
    device closed once where libparted counts opens as it documents (\<open>open_count_law\<close>); the
    only question ever answered is the one about the FAT type, and the answer keeps it.
  \<^item> \<open>Hostname\<close>: \<open>Buildroot/package/rootpxe-offline-identities/src/rootpxe-offline-identities.c\<close>, which
    finds and verifies the computer name in an offline Windows hive.  hivex is the record \<open>hivex\<close>.  The
    locale \<open>ci_lookup\<close> is the contract of the case-insensitive lookup, interpreted for keys and for values.
    Shown: lookup is by unique name; each listed write path, read as a path by itself (\<open>named_values\<close>),
    names exactly one value; writing a name to these values makes verification succeed; verification succeeds
    exactly when all values hold the name.
  \<^item> \<open>StorageCtx\<close>, \<open>StorageSys\<close> (\<open>storage_context.c\<close>), \<open>StorageFs\<close>, \<open>StorageGuard\<close>, \<open>StorageStream\<close>
    (\<open>storage_fs.c\<close>), \<open>StorageMount\<close> (\<open>storage_mount.c\<close>), \<open>StorageMain\<close> (\<open>rootpxe-storage-io.c\<close>): the
    storage helper of \<open>Buildroot/package/rootpxe-storage-io/src\<close>, a privileged process that reads and writes
    one image directory of a NAS share on the orders of a controller.  The kernel is the record \<open>rx_os\<close>,
    json-c and OpenSSL the record \<open>jsonc\<close>; every call with an outcome that matters is an event of the
    trace (\<open>sys_ids\<close> and \<open>sys_setup\<close> stand for a row of calls each, whose inner order is not
    modelled), and a small logic (\<open>logs\<close>, \<open>keeps\<close>) says what a routine adds to it.  Shown: which task
    descriptions are accepted and that their paths cannot climb; the change of identity comes before
    everything else; a change of the share comes after an acknowledged announcement and in a directory
    reached by the walk that the proof covers; what a write command that reports success has stored, and how its
    announced length bounds it; the check of the mount
    table is exact on what the kernel prints; sequence numbers do not wrap; the program ends.
  \<^item> \<open>Mmio\<close>, \<open>Access\<close>, \<open>Eri\<close>, \<open>HwCtl\<close>,
    \<open>Eeprom\<close>, \<open>Fiber\<close>, \<open>LinkCfg\<close>, \<open>Firmware\<close>,
    \<open>RingStore\<close>, \<open>TxRing\<close>, \<open>TxXmit\<close>, \<open>RxRing\<close>,
    \<open>RxServe\<close>, \<open>Adapter\<close>, \<open>RxFilter\<close>: the r8125 driver,
    \<open>KernelPackages/drivers/net/ethernet/realtek/r8125\<close>. The controller is the record
    \<open>mmio\<close>, any device that answers register accesses; the driver's state is the record
    \<open>nic\<close> with the fields of \<open>struct rtl8125_private\<close> at their widths and the log of
    all accesses. \<open>Access\<close> has the indirect register channels (locale \<open>reg_channel\<close>,
    interpreted for the PHY by address and by page, the MAC, the PCIe PHY and the configuration space; in
    \<open>Eri\<close> for the out-of-band registers, in \<open>Eeprom\<close> for the serial EEPROM and in
    \<open>Fiber\<close> for the PHY of a fiber board), \<open>HwCtl\<close> stopping, resetting, interrupts,
    \<open>LinkCfg\<close> the link: what is advertised, forced modes, flow control and the speed kept while the
    system sleeps, \<open>RxFilter\<close> which frames are taken (filter, features, station address),
    \<open>Firmware\<close> the loader and interpreter of \<open>r8125_firmware.c\<close>,
    \<open>TxRing\<close>/\<open>TxXmit\<close> and \<open>RxRing\<close>/\<open>RxServe\<close> the descriptor
    rings over the locale \<open>ring_store\<close>, and \<open>Adapter\<close> the whole at run time: all rings
    on one controller, the interrupt handlers, up and down (its locales \<open>dev_fact\<close> and
    \<open>dev_fact_all\<close> are what serving the rings keeps of the registers' state). Shown: reads, writes
    and updates through the channels are exact and end on every device; the sequence of a reset; which
    interrupts are enabled; words written pin by pin to the EEPROM (\<open>rtl_eeprom.c\<close>) and to the
    fiber PHY (\<open>r8125_fiber.c\<close>) are read back; the PHY advertises exactly what was asked for, and
    before sleep exactly the slowest common mode; the hash table of the multicast filter has exactly the
    subscribed addresses; a checked firmware file runs inside its program; an interrupt is masked and
    acknowledged before the rings are served, and serves exactly the rings it is for; and for the rings, what
    each operation does to the descriptors and, over any sequence of operations (\<open>tx_reach\<close>,
    \<open>rx_reach\<close> for one ring, \<open>adapter_reach\<close> for all of them with interrupts, up and
    down), that no buffer and no DMA mapping is lost or released twice, packets whose padding failed
    excepted: the kernel has freed these and the driver frees them again.
  \<^item> \<open>Prelude\<close>: byte buffers and the locale \<open>byte_field\<close>, lists, words, and the rules for programs of the
    state monad (\<open>valid\<close>, collection \<open>hoare\<close>) that all of them use.

  \<^bold>\<open>Bounds and fuel\<close>

  The driver's polling loops are bounded by the source's counts and are structural recursions over them
  (\<open>poll\<close>).  The firmware interpreter may run forever, so it has fuel and reports whether it came to its
  end; a program without backward jumps ends within \<open>pa_size\<close> steps, and \<open>stuck_fw_never_ends\<close> shows an
  accepted file that never ends.  The command loop of the storage helper has fuel: every successful
  command uses at least two of the 64-bit sequence numbers, so \<open>command_limit\<close>, which is 2 to the 63, is
  enough and \<open>helper_main_returns\<close> has no hypothesis.  Calls that signals interrupt are finite trees.
  Machine words have the source's widths throughout and wrap.  The theorems about the rings are for sizes that
  are powers of two (\<open>tx_wf\<close>, \<open>rx_wf\<close>), as the defaults of the driver are; \<open>rtl8125_set_ringparam\<close> takes
  any size from 256 to 1024, and with another one the entries no longer follow each other when a 32-bit counter wraps.

  \<^bold>\<open>Hypotheses and simplifications\<close>

  The kernel's part in queueing a packet is the record \<open>kernel\<close> under \<open>kernel_ok\<close>: what padding, checksum
  help and making the head writable keep of a packet; they may fail, and may move the head.  A large send on a
  chip that needs the large-send patch has fewer than the greatest number of fragments (\<open>patch_room\<close>;
  \<open>lso_patch_overruns\<close> shows what happens otherwise).  The descriptor that a receive interrupt reads twice, with
  a flushing register read between, is the same both times (\<open>rx_status\<close>).  Setting up one receive ring
  (\<open>rx_init_ring\<close>) takes the parts of \<open>rtl8125_init_ring\<close>, \<open>rtl8125_init_ring_indexes\<close> and
  \<open>rtl8125_rx_desc_init\<close> that concern it.  The work that a link change orders is the pending flag
  \<open>linkchg_work\<close>: ordering it twice is ordering it once.

  \<^bold>\<open>Not modelled\<close>

  \<^item> \<open>pxeosmbrfix.cpp\<close>: C++; the development is about the C code.
  \<^item> The drivers r8126, r8127 and r8168: variants of the r8125 text for other chips, by the same vendor.
  \<^item> The rest of the r8125: probing, opening and closing, the other ethtool requests and proc files,
    power management, and the tables of PHY and
    microcontroller patches, which are data without a specification to hold them against.
  \<^item> Code that the \<open>Makefile\<close>s do not build: NAPI, DASH, time stamping, receive-side scaling, page reuse,
    several transmit queues, the firmware file for the r8125 excepted, which is modelled as written.
  \<^item> Shell scripts, Buildroot recipes, configuration and tests.
\<close>

end
